(* ===== verification/Prelude.thy ===== *)
theory Prelude
  imports Main
begin

text \<open>
  Shared vocabulary of the development: the type names the models use (millisecond
  instants, text as UTF-16 code units), list updates in the style of a database
  \<open>UPDATE ... WHERE\<close>, association lists in the style of a JavaScript \<open>Map\<close> (which keeps
  insertion order), and the locales every component instantiates: a machine with an
  invariant, a guarded transition table, and a keyed table.
\<close>

section \<open>Names and automation collections\<close>

named_theorems row_simps \<open>facts that evaluate updates of rows and tables\<close>
named_theorems step_invs \<open>one-step preservation facts of the components' invariants\<close>

text \<open>Instants and durations are integral milliseconds; JavaScript numbers in the safe range.\<close>

type_synonym ms = int

text \<open>
  Text shown to people is a list of UTF-16 code units, as a JavaScript string is; \<open>js\<close> embeds
  an ASCII literal. Identifiers, which the code only compares, are plain strings.
\<close>

type_synonym jstext = "nat list"

definition js :: "string \<Rightarrow> jstext" where
  "js s = map of_char s"

lemma js_Nil [simp]: "js [] = []"
  by (simp add: js_def)

lemma js_append [simp]: "js (s @ t) = js s @ js t"
  by (simp add: js_def)

text \<open>The largest integer a JavaScript number represents exactly without gaps.\<close>

definition max_safe_integer :: int where
  "max_safe_integer = 9007199254740991"

definition is_safe_integer :: "int \<Rightarrow> bool" where
  "is_safe_integer n \<longleftrightarrow> \<bar>n\<bar> \<le> max_safe_integer"

section \<open>Updating the rows that satisfy a condition\<close>

definition update_where :: "('a \<Rightarrow> bool) \<Rightarrow> ('a \<Rightarrow> 'a) \<Rightarrow> 'a list \<Rightarrow> 'a list" where
  "update_where p f rs = map (\<lambda>r. if p r then f r else r) rs"

lemma length_update_where [simp, row_simps]: "length (update_where p f rs) = length rs"
  by (simp add: update_where_def)

lemma update_where_Nil [simp]: "update_where p f [] = []"
  by (simp add: update_where_def)

lemma update_where_Cons [simp]:
  "update_where p f (r # rs) = (if p r then f r else r) # update_where p f rs"
  by (simp add: update_where_def)

lemma map_update_where [row_simps]:
  "(\<And>r. r \<in> set rs \<Longrightarrow> p r \<Longrightarrow> k (f r) = k r) \<Longrightarrow> map k (update_where p f rs) = map k rs"
  by (induction rs) auto

lemma update_where_none: "(\<And>r. r \<in> set rs \<Longrightarrow> \<not> p r) \<Longrightarrow> update_where p f rs = rs"
  by (induction rs) auto

lemma in_update_whereE:
  assumes "r \<in> set (update_where p f rs)"
  obtains r0 where "r0 \<in> set rs" "p r0" "r = f r0" | "r \<in> set rs" "\<not> p r"
  using assms by (auto simp: update_where_def split: if_splits)

lemma in_update_where_iff:
  "r \<in> set (update_where p f rs) \<longleftrightarrow>
     (\<exists>r0 \<in> set rs. if p r0 then r = f r0 else r = r0)"
  by (auto simp: update_where_def split: if_splits)

lemma filter_update_where_same:
  "(\<And>r. r \<in> set rs \<Longrightarrow> p r \<Longrightarrow> q (f r) = q r) \<Longrightarrow>
   length (filter q (update_where p f rs)) = length (filter q rs)"
  by (induction rs) auto

lemma filter_update_where_le:
  "(\<And>r. r \<in> set rs \<Longrightarrow> p r \<Longrightarrow> q (f r) \<Longrightarrow> q r) \<Longrightarrow>
   length (filter q (update_where p f rs)) \<le> length (filter q rs)"
  by (induction rs) (auto simp: le_SucI)

lemma filter_ConsD: "filter p xs = y # ys \<Longrightarrow> y \<in> set xs \<and> p y"
  by (metis list.set_intros(1) mem_Collect_eq set_filter)

section \<open>Insertion-ordered maps\<close>

text \<open>
  A JavaScript \<open>Map\<close>: \<open>set\<close> on a present key replaces the value in place, on an absent key
  it appends; \<open>delete\<close> removes the entry; iteration follows the list.
\<close>

type_synonym ('k, 'v) jsmap = "('k \<times> 'v) list"

fun jget :: "('k, 'v) jsmap \<Rightarrow> 'k \<Rightarrow> 'v option" where
  "jget [] k = None"
| "jget ((k', v) # m) k = (if k' = k then Some v else jget m k)"

fun jset :: "('k, 'v) jsmap \<Rightarrow> 'k \<Rightarrow> 'v \<Rightarrow> ('k, 'v) jsmap" where
  "jset [] k v = [(k, v)]"
| "jset ((k', v') # m) k v = (if k' = k then (k, v) # m else (k', v') # jset m k v)"

fun jdel :: "('k, 'v) jsmap \<Rightarrow> 'k \<Rightarrow> ('k, 'v) jsmap" where
  "jdel [] k = []"
| "jdel ((k', v') # m) k = (if k' = k then m else (k', v') # jdel m k)"

definition jkeys :: "('k, 'v) jsmap \<Rightarrow> 'k list" where
  "jkeys m = map fst m"

definition jwf :: "('k, 'v) jsmap \<Rightarrow> bool" where
  "jwf m \<longleftrightarrow> distinct (jkeys m)"

lemma jget_None_iff: "jget m k = None \<longleftrightarrow> k \<notin> set (jkeys m)"
  by (induction m k rule: jget.induct) (auto simp: jkeys_def)

lemma jget_map_of: "jget m k = map_of m k"
  by (induction m k rule: jget.induct) auto

lemma jget_jset [simp]: "jget (jset m k v) k' = (if k' = k then Some v else jget m k')"
  by (induction m k v rule: jset.induct) auto

lemma set_jkeys_jset [simp]: "set (jkeys (jset m k v)) = insert k (set (jkeys m))"
  by (induction m k v rule: jset.induct) (auto simp: jkeys_def)

lemma jwf_Nil [simp]: "jwf []"
  by (simp add: jwf_def jkeys_def)

lemma jwf_jset [simp]: "jwf m \<Longrightarrow> jwf (jset m k v)"
proof (induction m k v rule: jset.induct)
  case (2 k' v' m k v)
  then show ?case
    using set_jkeys_jset [of m k v] by (auto simp: jwf_def jkeys_def)
qed (simp add: jwf_def jkeys_def)

lemma set_jkeys_jdel: "jwf m \<Longrightarrow> set (jkeys (jdel m k)) = set (jkeys m) - {k}"
  by (induction m k rule: jdel.induct) (auto simp: jwf_def jkeys_def)

lemma jwf_jdel [simp]: "jwf m \<Longrightarrow> jwf (jdel m k)"
proof (induction m k rule: jdel.induct)
  case (2 k' v' m k)
  then have "jwf m" and "k' \<notin> set (jkeys m)" by (auto simp: jwf_def jkeys_def)
  with 2 show ?case
    using set_jkeys_jdel [of m k] by (auto simp: jwf_def jkeys_def)
qed simp

lemma jget_jdel [simp]: "jwf m \<Longrightarrow> jget (jdel m k) k' = (if k' = k then None else jget m k')"
proof (induction m k rule: jdel.induct)
  case (2 k' v' m k)
  then have "jwf m" and "k' \<notin> set (jkeys m)" by (auto simp: jwf_def jkeys_def)
  moreover from \<open>k' \<notin> set (jkeys m)\<close> have "jget m k' = None" by (simp add: jget_None_iff)
  ultimately show ?case using 2 by auto
qed simp

lemma length_jdel: "length (jdel m k) \<le> length m"
  by (induction m k rule: jdel.induct) auto

lemma length_jset_absent: "jget m k = None \<Longrightarrow> length (jset m k v) = Suc (length m)"
  by (induction m k v rule: jset.induct) (auto split: if_splits)

section \<open>Locales\<close>

subsection \<open>A machine that keeps an invariant\<close>

text \<open>
  Every handler of a component is one constructor of its event type; a run is a list of
  events. What one step keeps, every run keeps.
\<close>

locale guarded_machine =
  fixes step :: "'s \<Rightarrow> 'e \<Rightarrow> 's" and ok :: "'e \<Rightarrow> bool" and inv :: "'s \<Rightarrow> bool"
  assumes step_ok: "inv s \<Longrightarrow> ok e \<Longrightarrow> inv (step s e)"
begin

lemma run_ok: "inv s \<Longrightarrow> \<forall>e \<in> set es. ok e \<Longrightarrow> inv (foldl step s es)"
  by (induction es arbitrary: s) (auto intro: step_ok)

end

text \<open>The invariant of a machine whose every event keeps it.\<close>

locale machine =
  fixes step :: "'s \<Rightarrow> 'e \<Rightarrow> 's" and inv :: "'s \<Rightarrow> bool"
  assumes step_inv: "inv s \<Longrightarrow> inv (step s e)"

sublocale machine \<subseteq> every: guarded_machine step "\<lambda>_. True" inv
  by unfold_locales (rule step_inv)

context machine begin

lemma run_inv: "inv s \<Longrightarrow> inv (foldl step s es)"
  by (rule every.run_ok) simp_all

end

text \<open>A machine with a quantity that no step lets grow past a bound it respects at the start.\<close>

locale bounded_machine = machine step inv
  for step :: "'s \<Rightarrow> 'e \<Rightarrow> 's" and inv :: "'s \<Rightarrow> bool" +
  fixes load :: "'s \<Rightarrow> int" and cap :: int
  assumes inv_load: "inv s \<Longrightarrow> load s \<le> cap"
begin

lemma run_load: "inv s \<Longrightarrow> load (foldl step s es) \<le> cap"
  by (rule inv_load) (rule run_inv)

end

subsection \<open>A simulation\<close>

text \<open>
  A step relation whose steps, under an invariant, are steps of an abstract relation seen through
  \<open>abs\<close>; the abstract relation is a preorder, so a whole run is one abstract step.
\<close>

locale simulation =
  fixes step :: "'s \<Rightarrow> 's \<Rightarrow> bool" and inv :: "'s \<Rightarrow> bool"
    and astep :: "'a \<Rightarrow> 'a \<Rightarrow> bool" and abs :: "'s \<Rightarrow> 'a"
  assumes keeps: "inv s \<Longrightarrow> step s t \<Longrightarrow> inv t"
    and simulates: "inv s \<Longrightarrow> step s t \<Longrightarrow> astep (abs s) (abs t)"
    and astep_refl: "inv s \<Longrightarrow> astep (abs s) (abs s)"
    and astep_trans: "astep x y \<Longrightarrow> astep y z \<Longrightarrow> astep x z"
begin

lemma run_keeps: "step\<^sup>*\<^sup>* s t \<Longrightarrow> inv s \<Longrightarrow> inv t"
  by (induction rule: rtranclp_induct) (auto intro: keeps)

lemma run_simulates: "step\<^sup>*\<^sup>* s t \<Longrightarrow> inv s \<Longrightarrow> astep (abs s) (abs t)"
proof (induction rule: rtranclp_induct)
  case (step y z)
  then have "inv y" using run_keeps by blast
  then show ?case using step simulates astep_trans by blast
qed (rule astep_refl)

end

subsection \<open>A guarded transition table\<close>

text \<open>
  A status column written through a table: a writer asks for a target, the write happens only
  if the table has the cell, otherwise nothing changes.
\<close>

definition guarded_move ::
    "('w \<Rightarrow> 's option \<Rightarrow> 's \<Rightarrow> bool) \<Rightarrow> 's option \<Rightarrow> 'w \<times> 's \<Rightarrow> 's option" where
  "guarded_move can cur wt = (if can (fst wt) cur (snd wt) then Some (snd wt) else cur)"

locale transition_table =
  fixes can :: "'w \<Rightarrow> 's option \<Rightarrow> 's \<Rightarrow> bool" and final :: "'s \<Rightarrow> bool"
  assumes final_closed: "final s \<Longrightarrow> \<not> can w (Some s) t"
begin

lemma guarded_final: "final s \<Longrightarrow> guarded_move can (Some s) wt = Some s"
  by (simp add: guarded_move_def final_closed)

lemma run_final: "final s \<Longrightarrow> foldl (guarded_move can) (Some s) wts = Some s"
  by (induction wts) (simp_all add: guarded_final)

end

text \<open>A table whose every cell moves forward in an order: a run never comes back.\<close>

locale ranked_table = transition_table can final
  for can :: "'w \<Rightarrow> 's option \<Rightarrow> 's \<Rightarrow> bool" and final :: "'s \<Rightarrow> bool" +
  fixes rank :: "'s \<Rightarrow> nat"
  assumes forward: "can w (Some s) t \<Longrightarrow> rank s < rank t"
begin

lemma guarded_rank:
  "guarded_move can (Some s) wt = Some t \<Longrightarrow> rank s \<le> rank t"
  by (auto simp: guarded_move_def dest: forward split: if_splits)

lemma guarded_Some: "\<exists>t. guarded_move can (Some s) wt = Some t"
  by (simp add: guarded_move_def)

lemma run_rank:
  "foldl (guarded_move can) (Some s) wts = Some t \<Longrightarrow> rank s \<le> rank t"
proof (induction wts arbitrary: s)
  case (Cons wt wts)
  obtain u where u: "guarded_move can (Some s) wt = Some u"
    using guarded_Some by blast
  then have "rank s \<le> rank u" by (rule guarded_rank)
  moreover have "rank u \<le> rank t" using Cons u by simp
  ultimately show ?case by simp
qed simp

lemma no_return:
  assumes "can w (Some s) t" and "foldl (guarded_move can) (Some t) wts = Some u"
  shows "u \<noteq> s"
  using forward [OF assms(1)] run_rank [OF assms(2)] by auto

end

end
