(* ===== verification/Transitions.thy ===== *)
theory Transitions
  imports Prelude
begin

text \<open>
  The status tables of the channel layer (\<open>src/channels/transitions.ts\<close> with the enumerations
  of \<open>src/shared/channel-types.ts\<close> and \<open>src/shared/conversation-types.ts\<close>): which writer may
  move an outbound segment, and an inbound message, from which status to which. The tables are
  data, as in the code; the facts about them are proved cell by cell here and reused by the
  repositories, the send ledger and the start-up recovery.
\<close>

section \<open>Outbound segments\<close>

datatype outbound_status =
  OPending | OSending | OAccepted | ORejected | OUnknown | OFailed | OCancelled

datatype outbound_writer = WPlan | WMark | WSettle | WCancel | WUnmark | WRecover | WReceipt

datatype outbound_kind = KAi | KHuman | KFollowup | KNotice | KWelcome | KMenu | KCard

record outbound_transition =
  tr_from :: "outbound_status option"
  tr_to :: outbound_status
  tr_by :: "outbound_writer list"

definition OUTBOUND_TRANSITIONS :: "outbound_transition list" where
  "OUTBOUND_TRANSITIONS =
    [\<lparr>tr_from = None, tr_to = OPending, tr_by = [WPlan]\<rparr>,
     \<lparr>tr_from = None, tr_to = OAccepted, tr_by = [WSettle]\<rparr>,
     \<lparr>tr_from = None, tr_to = ORejected, tr_by = [WSettle]\<rparr>,
     \<lparr>tr_from = None, tr_to = OUnknown, tr_by = [WSettle]\<rparr>,
     \<lparr>tr_from = Some OPending, tr_to = OSending, tr_by = [WMark]\<rparr>,
     \<lparr>tr_from = Some OPending, tr_to = OAccepted, tr_by = [WSettle]\<rparr>,
     \<lparr>tr_from = Some OPending, tr_to = ORejected, tr_by = [WSettle]\<rparr>,
     \<lparr>tr_from = Some OPending, tr_to = OUnknown, tr_by = [WSettle]\<rparr>,
     \<lparr>tr_from = Some OPending, tr_to = OCancelled, tr_by = [WCancel, WRecover]\<rparr>,
     \<lparr>tr_from = Some OSending, tr_to = OAccepted, tr_by = [WSettle]\<rparr>,
     \<lparr>tr_from = Some OSending, tr_to = ORejected, tr_by = [WSettle]\<rparr>,
     \<lparr>tr_from = Some OSending, tr_to = OUnknown, tr_by = [WSettle, WRecover]\<rparr>,
     \<lparr>tr_from = Some OSending, tr_to = OCancelled, tr_by = [WCancel]\<rparr>,
     \<lparr>tr_from = Some OSending, tr_to = OPending, tr_by = [WUnmark]\<rparr>,
     \<lparr>tr_from = Some OUnknown, tr_to = OAccepted, tr_by = [WSettle]\<rparr>,
     \<lparr>tr_from = Some OUnknown, tr_to = OUnknown, tr_by = [WSettle]\<rparr>,
     \<lparr>tr_from = Some OPending, tr_to = OFailed, tr_by = [WReceipt]\<rparr>,
     \<lparr>tr_from = Some OSending, tr_to = OFailed, tr_by = [WReceipt]\<rparr>,
     \<lparr>tr_from = Some OAccepted, tr_to = OFailed, tr_by = [WReceipt]\<rparr>,
     \<lparr>tr_from = Some OUnknown, tr_to = OFailed, tr_by = [WReceipt]\<rparr>,
     \<lparr>tr_from = None, tr_to = OFailed, tr_by = [WReceipt]\<rparr>]"

definition OUTBOUND_KEEPS_PAYLOAD :: "outbound_status list" where
  "OUTBOUND_KEEPS_PAYLOAD = [OPending, OSending]"

definition outboundFromStates ::
    "outbound_status \<Rightarrow> outbound_writer list \<Rightarrow> outbound_status option list" where
  "outboundFromStates to by' =
     map tr_from
       (filter (\<lambda>t. tr_to t = to \<and> (\<exists>w \<in> set (tr_by t). w \<in> set by')) OUTBOUND_TRANSITIONS)"

definition canMoveOutbound ::
    "outbound_status option \<Rightarrow> outbound_status \<Rightarrow> outbound_writer list \<Rightarrow> bool" where
  "canMoveOutbound from to by' \<longleftrightarrow> from \<in> set (outboundFromStates to by')"

section \<open>Inbound messages\<close>

datatype inbox_kind = IMessage | IMenuClick | IEnterSession | ISendFail | ILegacy

datatype inbox_state = IReceived | IRecorded | IReplied | IDone | IAbandoned

datatype inbox_abandon_reason = TooOld | Poison | ColdStart | RestoreCutoff | Resync

record inbox_transition =
  it_from :: "inbox_state option"
  it_to :: inbox_state

definition INBOX_TRANSITIONS :: "inbox_transition list" where
  "INBOX_TRANSITIONS =
    [\<lparr>it_from = None, it_to = IReceived\<rparr>,
     \<lparr>it_from = None, it_to = IDone\<rparr>,
     \<lparr>it_from = None, it_to = IAbandoned\<rparr>,
     \<lparr>it_from = Some IReceived, it_to = IRecorded\<rparr>,
     \<lparr>it_from = Some IReceived, it_to = IDone\<rparr>,
     \<lparr>it_from = Some IReceived, it_to = IAbandoned\<rparr>,
     \<lparr>it_from = Some IRecorded, it_to = IReplied\<rparr>,
     \<lparr>it_from = Some IRecorded, it_to = IDone\<rparr>,
     \<lparr>it_from = Some IRecorded, it_to = IAbandoned\<rparr>,
     \<lparr>it_from = Some IReplied, it_to = IDone\<rparr>,
     \<lparr>it_from = Some IReplied, it_to = IAbandoned\<rparr>]"

definition INBOX_OPEN_STATES :: "inbox_state list" where
  "INBOX_OPEN_STATES = [IReceived, IRecorded, IReplied]"

definition INBOX_FINISHED_STATES :: "inbox_state list" where
  "INBOX_FINISHED_STATES = [IDone, IAbandoned]"

definition inboxFromStates :: "inbox_state \<Rightarrow> inbox_state option list" where
  "inboxFromStates to = map it_from (filter (\<lambda>t. it_to t = to) INBOX_TRANSITIONS)"

definition canMoveInbox :: "inbox_state option \<Rightarrow> inbox_state \<Rightarrow> bool" where
  "canMoveInbox from to \<longleftrightarrow> from \<in> set (inboxFromStates to)"

section \<open>The outbound table, cell by cell\<close>

lemma from_pending_cell [simp]:
  "canMoveOutbound f OPending by' \<longleftrightarrow>
     (f = None \<and> WPlan \<in> set by') \<or> (f = Some OSending \<and> WUnmark \<in> set by')"
  by (auto simp: canMoveOutbound_def outboundFromStates_def OUTBOUND_TRANSITIONS_def)

lemma from_sending_cell [simp]:
  "canMoveOutbound f OSending by' \<longleftrightarrow> f = Some OPending \<and> WMark \<in> set by'"
  by (auto simp: canMoveOutbound_def outboundFromStates_def OUTBOUND_TRANSITIONS_def)

lemma from_accepted_cell [simp]:
  "canMoveOutbound f OAccepted by' \<longleftrightarrow>
     f \<in> {None, Some OPending, Some OSending, Some OUnknown} \<and> WSettle \<in> set by'"
  by (auto simp: canMoveOutbound_def outboundFromStates_def OUTBOUND_TRANSITIONS_def)

lemma from_rejected_cell [simp]:
  "canMoveOutbound f ORejected by' \<longleftrightarrow>
     f \<in> {None, Some OPending, Some OSending} \<and> WSettle \<in> set by'"
  by (auto simp: canMoveOutbound_def outboundFromStates_def OUTBOUND_TRANSITIONS_def)

lemma from_unknown_cell [simp]:
  "canMoveOutbound f OUnknown by' \<longleftrightarrow>
     f \<in> {None, Some OPending, Some OSending, Some OUnknown} \<and> WSettle \<in> set by'
     \<or> f = Some OSending \<and> WRecover \<in> set by'"
  by (auto simp: canMoveOutbound_def outboundFromStates_def OUTBOUND_TRANSITIONS_def)

lemma from_failed_cell [simp]:
  "canMoveOutbound f OFailed by' \<longleftrightarrow>
     f \<in> {None, Some OPending, Some OSending, Some OAccepted, Some OUnknown} \<and> WReceipt \<in> set by'"
  by (auto simp: canMoveOutbound_def outboundFromStates_def OUTBOUND_TRANSITIONS_def)

lemma from_cancelled_cell [simp]:
  "canMoveOutbound f OCancelled by' \<longleftrightarrow>
     f = Some OPending \<and> (WCancel \<in> set by' \<or> WRecover \<in> set by')
     \<or> f = Some OSending \<and> WCancel \<in> set by'"
  by (auto simp: canMoveOutbound_def outboundFromStates_def OUTBOUND_TRANSITIONS_def)

text \<open>The statuses no write leaves.\<close>

definition outbound_final :: "outbound_status \<Rightarrow> bool" where
  "outbound_final s \<longleftrightarrow> s \<in> {ORejected, OFailed, OCancelled}"

lemma outbound_final_closed: "outbound_final s \<Longrightarrow> \<not> canMoveOutbound (Some s) t by'"
  by (cases t) (auto simp: outbound_final_def)

interpretation outbound_tab:
  transition_table "\<lambda>by' f t. canMoveOutbound f t by'" outbound_final
  by unfold_locales (rule outbound_final_closed)

lemma accepted_only_fails: "canMoveOutbound (Some OAccepted) t by' \<Longrightarrow> t = OFailed"
  by (cases t) auto

lemma settled_never_open:
  "s \<in> {OAccepted, ORejected, OUnknown, OFailed, OCancelled} \<Longrightarrow>
   canMoveOutbound (Some s) t by' \<Longrightarrow> t \<notin> {OPending, OSending}"
  by (cases t) auto

text \<open>A writer list may be enlarged: the table only gains cells.\<close>

lemma canMoveOutbound_mono:
  "canMoveOutbound f t by' \<Longrightarrow> set by' \<subseteq> set by'' \<Longrightarrow> canMoveOutbound f t by''"
  by (cases t) auto

lemma inserts_only_settled_or_pending:
  "canMoveOutbound None t by' \<Longrightarrow> t \<notin> {OSending, OCancelled}"
  by (cases t) auto

section \<open>The inbound table moves forward only\<close>

fun inbox_rank :: "inbox_state \<Rightarrow> nat" where
  "inbox_rank IReceived = 0"
| "inbox_rank IRecorded = 1"
| "inbox_rank IReplied = 2"
| "inbox_rank IDone = 3"
| "inbox_rank IAbandoned = 3"

definition inbox_final :: "inbox_state \<Rightarrow> bool" where
  "inbox_final s \<longleftrightarrow> s \<in> set INBOX_FINISHED_STATES"

lemma canMoveInbox_iff:
  "canMoveInbox f t \<longleftrightarrow>
     (case f of
        None \<Rightarrow> t \<in> {IReceived, IDone, IAbandoned}
      | Some IReceived \<Rightarrow> t \<in> {IRecorded, IDone, IAbandoned}
      | Some IRecorded \<Rightarrow> t \<in> {IReplied, IDone, IAbandoned}
      | Some IReplied \<Rightarrow> t \<in> {IDone, IAbandoned}
      | Some _ \<Rightarrow> False)"
  by (cases t)
     (auto simp: canMoveInbox_def inboxFromStates_def INBOX_TRANSITIONS_def
           split: option.splits inbox_state.splits)

lemma inbox_forward: "canMoveInbox (Some s) t \<Longrightarrow> inbox_rank s < inbox_rank t"
  by (cases s; cases t) (auto simp: canMoveInbox_iff)

lemma inbox_final_closed: "inbox_final s \<Longrightarrow> \<not> canMoveInbox (Some s) t"
  by (auto simp: inbox_final_def INBOX_FINISHED_STATES_def canMoveInbox_iff)

interpretation inbox_tab:
  ranked_table "\<lambda>(_ :: unit). canMoveInbox" inbox_final inbox_rank
  by unfold_locales (auto simp: inbox_final_closed inbox_forward)

lemma inbox_open_or_final: "inbox_final s \<longleftrightarrow> s \<notin> set INBOX_OPEN_STATES"
  by (cases s) (auto simp: inbox_final_def INBOX_FINISHED_STATES_def INBOX_OPEN_STATES_def)

lemma inbox_open_can_finish:
  "s \<in> set INBOX_OPEN_STATES \<Longrightarrow> canMoveInbox (Some s) IDone \<and> canMoveInbox (Some s) IAbandoned"
  by (auto simp: INBOX_OPEN_STATES_def canMoveInbox_iff)

end
