(* ===== verification/CleanText.thy ===== *)
theory CleanText
  imports Prelude
begin

text \<open>
  Cleaning of text before it enters memory (\<open>src/shared/text.ts\<close>). A string is the list of its
  UTF-16 code units; the zero character is dropped, the text is cut to a number of code points
  without splitting a surrogate pair, and lone surrogates become U+FFFD.
\<close>

definition isHigh :: "nat \<Rightarrow> bool" where
  "isHigh c \<longleftrightarrow> 0xD800 \<le> c \<and> c \<le> 0xDBFF"

definition isLow :: "nat \<Rightarrow> bool" where
  "isLow c \<longleftrightarrow> 0xDC00 \<le> c \<and> c \<le> 0xDFFF"

text \<open>\<open>String.prototype.toWellFormed\<close>.\<close>

fun wellFormed :: "jstext \<Rightarrow> jstext" where
  "wellFormed [] = []"
| "wellFormed [c] = [if isHigh c \<or> isLow c then 0xFFFD else c]"
| "wellFormed (c # d # s) =
     (if isHigh c \<and> isLow d then c # d # wellFormed s
      else (if isHigh c \<or> isLow c then 0xFFFD else c) # wellFormed (d # s))"

text \<open>The index the loop of \<open>cleanText\<close> stops at: \<open>n\<close> steps of one or two code units.\<close>

fun cutIndex :: "jstext \<Rightarrow> nat \<Rightarrow> nat" where
  "cutIndex [] n = 0"
| "cutIndex s 0 = 0"
| "cutIndex [c] (Suc n) = 1"
| "cutIndex (c # d # s) (Suc n) =
     (if isHigh c \<and> isLow d then 2 + cutIndex s n else 1 + cutIndex (d # s) n)"

definition cleanText :: "jstext \<Rightarrow> nat option \<Rightarrow> jstext" where
  "cleanText s maxChars =
     (let out = filter (\<lambda>c. c \<noteq> 0) s;
          cut = (case maxChars of
                   None \<Rightarrow> out
                 | Some n \<Rightarrow> if length out > n then take (cutIndex out n) out else out)
      in wellFormed cut)"

text \<open>Well-formed text and its number of code points.\<close>

fun isWellFormed :: "jstext \<Rightarrow> bool" where
  "isWellFormed [] \<longleftrightarrow> True"
| "isWellFormed [c] \<longleftrightarrow> \<not> isHigh c \<and> \<not> isLow c"
| "isWellFormed (c # d # s) \<longleftrightarrow>
     (if isHigh c \<and> isLow d then isWellFormed s
      else \<not> isHigh c \<and> \<not> isLow c \<and> isWellFormed (d # s))"

fun codePoints :: "jstext \<Rightarrow> nat" where
  "codePoints [] = 0"
| "codePoints [c] = 1"
| "codePoints (c # d # s) = (if isHigh c \<and> isLow d then 1 + codePoints s else 1 + codePoints (d # s))"

lemma surrogate_simps [simp]: "\<not> isHigh 0xFFFD" "\<not> isLow 0xFFFD"
  by (simp_all add: isHigh_def isLow_def)

lemma isLow_not_isHigh: "isLow c \<Longrightarrow> \<not> isHigh c"
  by (simp add: isHigh_def isLow_def)

lemma isWellFormed_Cons:
  "\<not> isHigh c \<Longrightarrow> isWellFormed (c # s) \<longleftrightarrow> \<not> isLow c \<and> isWellFormed s"
  by (cases s) auto

lemma codePoints_Cons: "\<not> isHigh c \<Longrightarrow> codePoints (c # s) = 1 + codePoints s"
  by (cases s) auto

lemma isWellFormed_wellFormed: "isWellFormed (wellFormed s)"
proof (induction s rule: wellFormed.induct)
  case (3 c d s)
  then show ?case by (cases "isHigh c \<and> isLow d") (auto simp: isWellFormed_Cons)
qed auto

lemma wellFormed_id: "isWellFormed s \<Longrightarrow> wellFormed s = s"
  by (induction s rule: wellFormed.induct) (auto split: if_splits)

lemma codePoints_wellFormed: "codePoints (wellFormed s) = codePoints s"
proof (induction s rule: wellFormed.induct)
  case (3 c d s)
  then show ?case by (cases "isHigh c \<and> isLow d") (auto simp: codePoints_Cons)
qed auto

lemma codePoints_0_iff [simp]: "codePoints s = 0 \<longleftrightarrow> s = []"
  by (cases s rule: codePoints.cases) auto

lemma codePoints_le: "codePoints s \<le> length s"
  by (induction s rule: codePoints.induct) auto

lemma codePoints_cut: "codePoints (take (cutIndex s n) s) \<le> n"
proof (induction s n rule: cutIndex.induct)
  case (4 c d s n)
  show ?case
  proof (cases "isHigh c \<and> isLow d")
    case False
    have "codePoints (c # take m (d # s)) \<le> 1 + codePoints (take m (d # s))" for m
      using False by (cases m) auto
    then show ?thesis using 4 False by (fastforce intro: order_trans)
  qed (use 4 in simp)
qed auto

lemma zero_notin_wellFormed: "0 \<notin> set s \<Longrightarrow> 0 \<notin> set (wellFormed s)"
  by (induction s rule: wellFormed.induct) auto

lemma cutIndex_all: "codePoints s \<le> n \<Longrightarrow> take (cutIndex s n) s = s"
  by (induction s n rule: cutIndex.induct) (auto split: if_splits)

lemma zero_notin_cleanText: "0 \<notin> set (cleanText s m)"
proof -
  have "0 \<notin> set (filter (\<lambda>c. c \<noteq> 0) s)" by simp
  moreover have "0 \<notin> set (take i xs)" if "0 \<notin> set xs" for i and xs :: jstext
    using that by (meson in_set_takeD)
  ultimately show ?thesis
    unfolding cleanText_def Let_def
    by (intro zero_notin_wellFormed) (auto split: option.splits dest: in_set_takeD)
qed

lemma codePoints_cleanText: "codePoints (cleanText s (Some n)) \<le> n"
proof (cases "length (filter (\<lambda>c. c \<noteq> 0) s) > n")
  case True
  then show ?thesis by (simp add: cleanText_def Let_def codePoints_wellFormed codePoints_cut)
next
  case False
  then have "codePoints (filter (\<lambda>c. c \<noteq> 0) s) \<le> n"
    using codePoints_le [of "filter (\<lambda>c. c \<noteq> 0) s"] by simp
  with False show ?thesis by (simp add: cleanText_def Let_def codePoints_wellFormed)
qed

lemma cleanText_fixed:
  assumes "0 \<notin> set t" and "isWellFormed t" and "\<And>n. m = Some n \<Longrightarrow> codePoints t \<le> n"
  shows "cleanText t m = t"
proof -
  have "c \<noteq> 0" if "c \<in> set t" for c using that assms(1) by (cases "c = 0") simp_all
  then have "filter (\<lambda>c. c \<noteq> 0) t = t" by (simp add: filter_True)
  then show ?thesis
    using assms(2,3) by (auto simp: cleanText_def Let_def cutIndex_all wellFormed_id split: option.splits)
qed

text \<open>
  Cleaned text is storable and stays as it is: it has no zero character and no lone surrogate,
  at most the asked number of code points, and cleaning it again changes nothing, so the text in
  memory and the text in the database are the same.
\<close>

theorem cleanText_storable:
  "0 \<notin> set (cleanText s m) \<and> isWellFormed (cleanText s m) \<and>
   (case m of None \<Rightarrow> True | Some n \<Rightarrow> codePoints (cleanText s m) \<le> n) \<and>
   cleanText (cleanText s m) m = cleanText s m"
proof -
  have wf: "isWellFormed (cleanText s m)" by (simp add: cleanText_def Let_def isWellFormed_wellFormed)
  moreover have "cleanText (cleanText s m) m = cleanText s m"
    by (rule cleanText_fixed) (use wf zero_notin_cleanText codePoints_cleanText in auto)
  ultimately show ?thesis using zero_notin_cleanText codePoints_cleanText by (auto split: option.splits)
qed

end
