(* ===== verification/Payload.thy ===== *)
theory Payload
  imports CleanText
begin

text \<open>
  What an outbound segment carries and its check before it is planned (\<open>payloadProblem\<close> of
  \<open>src/quota/ledger.ts\<close>): shape, cleaned strings, and the size of its JSON text. Start-up recovery
  applies the same check to whatever JSON the database returns, so a field that is missing or of
  another type is \<open>None\<close> and an unknown value has its own constructor. A menu entry is kept as the
  JSON text it serializes to (\<open>None\<close> when it cannot be serialized).
\<close>

datatype outbound_payload =
  PText "jstext option"
| PLink "jstext option" "jstext option" "jstext option"
| PMenu "jstext option" "jstext option list option"
| PUnknownType jstext
| PNotObject

datatype payload_problem =
  BadNotObject | BadText | BadLink | BadLinkDesc | BadMenu | BadMsgtype jstext | BadJson | BadTooLong

definition PAYLOAD_MAX_BYTES :: nat where
  "PAYLOAD_MAX_BYTES = 16 * 1024"

section \<open>Bytes of the JSON text\<close>

text \<open>UTF-8 bytes of a code unit inside a JSON string that needs no escape.\<close>

definition utf8Unit :: "nat \<Rightarrow> nat" where
  "utf8Unit c = (if c < 0x80 then 1 else if c < 0x800 then 2 else 3)"

text \<open>\<open>JSON.stringify\<close>: short escapes, six-character escapes for other control characters and lone surrogates.\<close>

definition jsonUnit :: "nat \<Rightarrow> nat" where
  "jsonUnit c =
     (if c = 34 \<or> c = 92 \<or> c \<in> {8, 9, 10, 12, 13} then 2
      else if c < 32 \<or> isHigh c \<or> isLow c then 6
      else utf8Unit c)"

fun jsonStringBody :: "jstext \<Rightarrow> nat" where
  "jsonStringBody [] = 0"
| "jsonStringBody [c] = jsonUnit c"
| "jsonStringBody (c # d # s) =
     (if isHigh c \<and> isLow d then 4 + jsonStringBody s else jsonUnit c + jsonStringBody (d # s))"

definition jsonString :: "jstext \<Rightarrow> nat" where
  "jsonString s = 2 + jsonStringBody s"

text \<open>UTF-8 bytes of a string that is already JSON text.\<close>

fun utf8Bytes :: "jstext \<Rightarrow> nat" where
  "utf8Bytes [] = 0"
| "utf8Bytes [c] = utf8Unit c"
| "utf8Bytes (c # d # s) =
     (if isHigh c \<and> isLow d then 4 + utf8Bytes s else utf8Unit c + utf8Bytes (d # s))"

definition jsonList :: "jstext option list \<Rightarrow> nat option" where
  "jsonList xs =
     (if list_ex (\<lambda>x. x = None) xs then None
      else Some (2 + sum_list (map (\<lambda>x. case x of None \<Rightarrow> 0 | Some t \<Rightarrow> utf8Bytes t) xs) + (length xs - 1)))"

definition jsonBytes :: "outbound_payload \<Rightarrow> nat option" where
  "jsonBytes p =
     (case p of
        PText (Some c) \<Rightarrow>
          Some (length ''{\"msgtype\":\"text\",\"text\":{\"content\":}}'' + jsonString c)
      | PLink (Some t) (Some d) (Some u) \<Rightarrow>
          Some (length ''{\"msgtype\":\"link\",\"link\":{\"title\":,\"desc\":,\"url\":}}''
                + jsonString t + jsonString d + jsonString u)
      | PMenu (Some h) (Some l) \<Rightarrow>
          map_option (\<lambda>n. length ''{\"msgtype\":\"msgmenu\",\"msgmenu\":{\"head_content\":,\"list\":}}''
                + jsonString h + n) (jsonList l)
      | _ \<Rightarrow> None)"

section \<open>The check\<close>

definition cleanString :: "jstext option \<Rightarrow> bool" where
  "cleanString v \<longleftrightarrow> (case v of None \<Rightarrow> False | Some s \<Rightarrow> cleanText s None = s)"

definition cleanNonEmpty :: "jstext option \<Rightarrow> bool" where
  "cleanNonEmpty v \<longleftrightarrow> (case v of None \<Rightarrow> False | Some s \<Rightarrow> s \<noteq> [] \<and> cleanText s None = s)"

definition shapeProblem :: "outbound_payload \<Rightarrow> payload_problem option" where
  "shapeProblem p =
     (case p of
        PNotObject \<Rightarrow> Some BadNotObject
      | PText c \<Rightarrow> if cleanNonEmpty c then None else Some BadText
      | PLink t d u \<Rightarrow>
          if \<not> cleanNonEmpty t \<or> \<not> cleanNonEmpty u then Some BadLink
          else if \<not> cleanString d then Some BadLinkDesc else None
      | PMenu h l \<Rightarrow> if \<not> cleanNonEmpty h \<or> l = None then Some BadMenu else None
      | PUnknownType t \<Rightarrow> Some (BadMsgtype t))"

definition payloadProblem :: "outbound_payload \<Rightarrow> payload_problem option" where
  "payloadProblem p =
     (case shapeProblem p of
        Some bad \<Rightarrow> Some bad
      | None \<Rightarrow>
          (case jsonBytes p of
             None \<Rightarrow> Some BadJson
           | Some n \<Rightarrow> if n > PAYLOAD_MAX_BYTES then Some BadTooLong else None))"

text \<open>A payload that passes is complete: every string it needs is there, cleaned, and it fits.\<close>

lemma payloadProblem_None:
  "payloadProblem p = None \<Longrightarrow> (\<exists>n. jsonBytes p = Some n \<and> n \<le> PAYLOAD_MAX_BYTES) \<and> shapeProblem p = None"
  by (auto simp: payloadProblem_def split: option.splits if_splits)

lemma shape_json: "shapeProblem p = None \<Longrightarrow> jsonBytes p = None \<Longrightarrow> \<exists>h l. p = PMenu h (Some l) \<and> None \<in> set l"
  by (cases p)
     (auto simp: shapeProblem_def jsonBytes_def jsonList_def cleanNonEmpty_def cleanString_def list_ex_iff
           split: option.splits if_splits)

end
