(* ===== verification/OutboundRepo.thy ===== *)
theory OutboundRepo
  imports Transitions Payload "HOL-Library.Product_Lexorder"
begin

text \<open>
  The outbound ledger table (\<open>src/db/repo/outbound.ts\<close>): one row per message id of the tenant in
  scope, written only through the cells of the transition table. A write that the table does not
  have changes nothing and is not an error. The table is an insertion-ordered map from the message
  id to its row; every statement of the repository is one definition over it.
\<close>

section \<open>Rows\<close>

record outbound_row =
  os_conversationId :: string
  os_messageSeq :: "nat option"
  os_kind :: outbound_kind
  os_sentAt :: ms
  os_status :: outbound_status
  os_errcode :: "int option"
  os_failType :: "int option"
  os_accountId :: "string option"
  os_inboxId :: "string option"
  os_segment :: nat
  os_attempts :: nat
  os_payload :: "outbound_payload option"

text \<open>A write: the columns a caller may leave out are options (\<open>undefined\<close> is \<open>None\<close>).\<close>

record outbound_write =
  ow_conversationId :: string
  ow_channelMsgid :: string
  ow_messageSeq :: "nat option"
  ow_kind :: outbound_kind
  ow_sentAt :: ms
  ow_status :: outbound_status
  ow_errcode :: "int option"
  ow_failType :: "int option"
  ow_accountId :: "string option"
  ow_inboxId :: "string option"
  ow_segment :: "nat option"
  ow_attempts :: "nat option"
  ow_payload :: "outbound_payload option"

text \<open>The optional columns of a transition: outer \<open>None\<close> is \<open>undefined\<close>, inner \<open>None\<close> is \<open>null\<close>.\<close>

record outbound_fields =
  of_errcode :: "int option option"
  of_failType :: "int option option"
  of_sentAt :: "ms option"
  of_attempts :: "nat option"

definition no_fields :: outbound_fields where
  "no_fields = \<lparr>of_errcode = None, of_failType = None, of_sentAt = None, of_attempts = None\<rparr>"

type_synonym outbound_table = "(string, outbound_row) jsmap"

section \<open>Conditions\<close>

definition FLUSH_WRITERS :: "outbound_writer list" where
  "FLUSH_WRITERS = [WPlan, WSettle, WCancel, WReceipt]"

definition conflictWhere ::
    "outbound_writer list \<Rightarrow> outbound_status \<Rightarrow> outbound_status \<Rightarrow> bool" where
  "conflictWhere writers cur excluded \<longleftrightarrow>
     (Some cur, excluded) \<in> set (map (\<lambda>t. (tr_from t, tr_to t))
       (filter (\<lambda>t. tr_from t \<noteq> None \<and> (\<exists>w \<in> set (tr_by t). w \<in> set writers))
         OUTBOUND_TRANSITIONS))"

definition fromWhere ::
    "outbound_status \<Rightarrow> outbound_writer list \<Rightarrow> (outbound_status \<Rightarrow> bool) option" where
  "fromWhere to writers =
     (let from = filter (\<lambda>f. f \<noteq> None) (outboundFromStates to writers) in
      if from = [] then None else Some (\<lambda>cur. Some cur \<in> set from))"

definition keepsPayload :: "outbound_status \<Rightarrow> bool" where
  "keepsPayload s \<longleftrightarrow> s \<in> set OUTBOUND_KEEPS_PAYLOAD"

section \<open>Writes\<close>

definition transitionRow ::
    "outbound_status \<Rightarrow> outbound_fields \<Rightarrow> outbound_row \<Rightarrow> outbound_row" where
  "transitionRow to fs r = r\<lparr>
     os_status := to,
     os_payload := (if keepsPayload to then os_payload r else None),
     os_errcode := (case of_errcode fs of None \<Rightarrow> os_errcode r | Some e \<Rightarrow> e),
     os_failType := (case of_failType fs of None \<Rightarrow> os_failType r | Some e \<Rightarrow> e),
     os_sentAt := (case of_sentAt fs of None \<Rightarrow> os_sentAt r | Some t \<Rightarrow> max (os_sentAt r) t),
     os_attempts := (case of_attempts fs of None \<Rightarrow> os_attempts r | Some n \<Rightarrow> max (os_attempts r) n)\<rparr>"

definition transitionOutbound ::
    "outbound_table \<Rightarrow> string \<Rightarrow> outbound_status \<Rightarrow> outbound_writer list \<Rightarrow> outbound_fields
     \<Rightarrow> string option \<times> outbound_table" where
  "transitionOutbound tab msgid to by' fs =
     (case fromWhere to by' of
        None \<Rightarrow> (None, tab)
      | Some ok \<Rightarrow>
          (case jget tab msgid of
             None \<Rightarrow> (None, tab)
           | Some r \<Rightarrow>
               if ok (os_status r)
               then (Some (os_conversationId r), jset tab msgid (transitionRow to fs r))
               else (None, tab)))"

text \<open>\<open>values(...)\<close> of the insert statement.\<close>

definition insertValues :: "outbound_write \<Rightarrow> outbound_row" where
  "insertValues w = \<lparr>
     os_conversationId = ow_conversationId w,
     os_messageSeq = ow_messageSeq w,
     os_kind = ow_kind w,
     os_sentAt = ow_sentAt w,
     os_status = ow_status w,
     os_errcode = ow_errcode w,
     os_failType = ow_failType w,
     os_accountId = ow_accountId w,
     os_inboxId = ow_inboxId w,
     os_segment = (case ow_segment w of None \<Rightarrow> 0 | Some n \<Rightarrow> n),
     os_attempts = (case ow_attempts w of None \<Rightarrow> 0 | Some n \<Rightarrow> n),
     os_payload = (if keepsPayload (ow_status w) then ow_payload w else None)\<rparr>"

text \<open>The \<open>ON CONFLICT DO UPDATE\<close> clause: \<open>r\<close> is the row in the table, \<open>e\<close> is \<open>excluded\<close>.\<close>

definition onConflict :: "outbound_row \<Rightarrow> outbound_row \<Rightarrow> outbound_row" where
  "onConflict r e =
     (let moved = conflictWhere FLUSH_WRITERS (os_status r) (os_status e) in
      if moved \<or> (os_messageSeq r = None \<and> os_messageSeq e \<noteq> None)
      then r\<lparr>
        os_status := (if moved then os_status e else os_status r),
        os_errcode := (if moved then os_errcode e else os_errcode r),
        os_failType := (if moved then os_failType e else os_failType r),
        os_sentAt := (if moved then max (os_sentAt r) (os_sentAt e) else os_sentAt r),
        os_attempts := (if moved then max (os_attempts r) (os_attempts e) else os_attempts r),
        os_messageSeq := (case os_messageSeq r of None \<Rightarrow> os_messageSeq e | Some q \<Rightarrow> Some q),
        os_payload := (if moved then (if keepsPayload (os_status e) then os_payload r else None)
                       else os_payload r)\<rparr>
      else r)"

definition upsertOutbound :: "outbound_table \<Rightarrow> outbound_write \<Rightarrow> outbound_table" where
  "upsertOutbound tab w =
     jset tab (ow_channelMsgid w)
       (case jget tab (ow_channelMsgid w) of
          None \<Rightarrow> insertValues w
        | Some r \<Rightarrow> onConflict r (insertValues w))"

definition insertable :: "outbound_write \<Rightarrow> bool" where
  "insertable w \<longleftrightarrow> canMoveOutbound None (ow_status w) FLUSH_WRITERS"

definition flushTransition :: "outbound_table \<Rightarrow> outbound_write \<Rightarrow> outbound_table" where
  "flushTransition tab w =
     snd (transitionOutbound tab (ow_channelMsgid w) (ow_status w) FLUSH_WRITERS
       \<lparr>of_errcode = Some (ow_errcode w), of_failType = Some (ow_failType w),
        of_sentAt = Some (ow_sentAt w), of_attempts = ow_attempts w\<rparr>)"

text \<open>\<open>(rounds[k] ??= []).push(r)\<close>.\<close>

fun pushRound :: "nat \<Rightarrow> 'a \<Rightarrow> 'a list list \<Rightarrow> 'a list list" where
  "pushRound 0 r [] = [[r]]"
| "pushRound 0 r (x # xs) = (x @ [r]) # xs"
| "pushRound (Suc k) r [] = [] # pushRound k r []"
| "pushRound (Suc k) r (x # xs) = x # pushRound k r xs"

definition splitRounds :: "outbound_write list \<Rightarrow> outbound_write list list" where
  "splitRounds rows =
     fst (foldl
       (\<lambda>(rounds, seen) r.
          let k = (case jget seen (ow_channelMsgid r) of None \<Rightarrow> 0 | Some n \<Rightarrow> n) in
          (pushRound k r rounds, jset seen (ow_channelMsgid r) (k + 1)))
       ([], []) rows)"

definition writeRound :: "outbound_table \<Rightarrow> outbound_write list \<Rightarrow> outbound_table" where
  "writeRound tab round =
     foldl flushTransition
       (foldl upsertOutbound tab (filter insertable round))
       (filter (\<lambda>r. \<not> insertable r) round)"

definition insertOutboundSends :: "outbound_table \<Rightarrow> outbound_write list \<Rightarrow> outbound_table" where
  "insertOutboundSends tab rows = (if rows = [] then tab else foldl writeRound tab (splitRounds rows))"

datatype mark_result = Marked | NotPending | Absent

definition markOutboundSending :: "outbound_table \<Rightarrow> string \<Rightarrow> mark_result \<times> outbound_table" where
  "markOutboundSending tab msgid =
     (case transitionOutbound tab msgid OSending [WMark] no_fields of
        (Some _, tab') \<Rightarrow> (Marked, tab')
      | (None, tab') \<Rightarrow> (if jget tab' msgid \<noteq> None then NotPending else Absent, tab'))"

definition allWriters :: "outbound_writer list" where
  "allWriters = remdups (concat (map tr_by OUTBOUND_TRANSITIONS))"

definition setOutboundStatus ::
    "outbound_table \<Rightarrow> string \<Rightarrow> outbound_status \<Rightarrow> int option option \<Rightarrow> int option option
     \<Rightarrow> outbound_writer list option \<Rightarrow> bool \<times> outbound_table" where
  "setOutboundStatus tab msgid status errcode failType by' =
     (let (c, tab') = transitionOutbound tab msgid status
            (case by' of None \<Rightarrow> allWriters | Some ws \<Rightarrow> ws)
            (no_fields\<lparr>of_errcode := errcode, of_failType := failType\<rparr>)
      in (c \<noteq> None, tab'))"

definition markOutboundFailed ::
    "outbound_table \<Rightarrow> string \<Rightarrow> int \<Rightarrow> string option \<times> outbound_table" where
  "markOutboundFailed tab msgid failType =
     transitionOutbound tab msgid OFailed [WReceipt] (no_fields\<lparr>of_failType := Some (Some failType)\<rparr>)"

section \<open>Reads\<close>

text \<open>
  A query is the filtered rows in the order of its \<open>ORDER BY\<close>; rows that tie keep the order of the
  table, which the database leaves open.
\<close>

definition readOutboundForSeqs ::
    "outbound_table \<Rightarrow> string \<Rightarrow> nat list \<Rightarrow> (string \<times> outbound_row) list" where
  "readOutboundForSeqs tab conversationId seqs =
     (if seqs = [] then []
      else sort_key (\<lambda>(_, r). (case os_messageSeq r of None \<Rightarrow> 0 | Some q \<Rightarrow> q, os_segment r, os_sentAt r))
        (filter (\<lambda>(_, r). os_conversationId r = conversationId \<and>
             (case os_messageSeq r of None \<Rightarrow> False | Some q \<Rightarrow> q \<in> set seqs)) tab))"

text \<open>What the preload joins with: the conversations' \<open>last_customer_at\<close> and the message rows.\<close>

record message_row =
  mr_conversationId :: string
  mr_seq :: nat
  mr_customer :: bool
  mr_at :: ms

definition lastCustomerLocalAt :: "message_row list \<Rightarrow> string \<Rightarrow> ms option" where
  "lastCustomerLocalAt msgs c =
     (case sort_key mr_seq (filter (\<lambda>m. mr_conversationId m = c \<and> mr_customer m) msgs) of
        [] \<Rightarrow> None
      | ms \<Rightarrow> Some (mr_at (last ms)))"

definition readOutboundAfterLastCustomer ::
    "outbound_table \<Rightarrow> (string \<rightharpoonup> ms option) \<Rightarrow> message_row list \<Rightarrow> string list
     \<Rightarrow> (string \<times> outbound_row) list" where
  "readOutboundAfterLastCustomer tab convs msgs conversationIds =
     (let wanted = (\<lambda>(_, r).
            os_conversationId r \<in> set conversationIds \<and>
            (case convs (os_conversationId r) of
               Some (Some lastAt) \<Rightarrow>
                 (case lastCustomerLocalAt msgs (os_conversationId r) of
                    None \<Rightarrow> lastAt \<le> os_sentAt r
                  | Some localAt \<Rightarrow> min lastAt localAt \<le> os_sentAt r)
             | _ \<Rightarrow> False)) in
      concat (map
        (\<lambda>c. sort_key (\<lambda>(_, r). (os_sentAt r, os_segment r))
               (filter (\<lambda>x. wanted x \<and> os_conversationId (snd x) = c) tab))
        (remdups conversationIds)))"

definition readOutboundOfInboxes ::
    "outbound_table \<Rightarrow> string list \<Rightarrow> (string \<times> string \<times> outbound_status) list" where
  "readOutboundOfInboxes tab inboxIds =
     concat (map (\<lambda>(m, r). case os_inboxId r of
         None \<Rightarrow> []
       | Some i \<Rightarrow> if i \<in> set inboxIds then [(i, m, os_status r)] else []) tab)"

definition openStatus :: "outbound_status \<Rightarrow> bool" where
  "openStatus s \<longleftrightarrow> s \<in> {OPending, OSending}"

definition readOpenOutbound ::
    "outbound_table \<Rightarrow> string option \<Rightarrow> (string \<times> outbound_row) list" where
  "readOpenOutbound tab accountId =
     sort_key (\<lambda>(_, r). (os_sentAt r, os_segment r))
       (filter (\<lambda>(_, r). os_accountId r = accountId \<and> openStatus (os_status r)) tab)"

definition hasOutboundForInboxIds :: "outbound_table \<Rightarrow> string \<Rightarrow> string list \<Rightarrow> bool" where
  "hasOutboundForInboxIds tab accountId inboxIds \<longleftrightarrow>
     (\<exists>(_, r) \<in> set tab. os_accountId r = Some accountId \<and>
        (case os_inboxId r of None \<Rightarrow> False | Some i \<Rightarrow> i \<in> set inboxIds))"

definition hasPartlyDeliveredOutbound :: "outbound_table \<Rightarrow> string \<Rightarrow> bool" where
  "hasPartlyDeliveredOutbound tab accountId =
     (let rows = filter (\<lambda>r. os_accountId r = Some accountId \<and> os_inboxId r \<noteq> None) (map snd tab) in
      list_ex (\<lambda>i.
          list_ex (\<lambda>r. os_status r = OPending) (filter (\<lambda>r. os_inboxId r = i) rows) \<and>
          list_ex (\<lambda>r. os_status r \<in> {OAccepted, OUnknown, OSending})
            (filter (\<lambda>r. os_inboxId r = i) rows))
        (remdups (map os_inboxId rows)))"

definition readOpenOutboundUntil ::
    "outbound_table \<Rightarrow> ms \<Rightarrow> (string \<times> string \<times> outbound_status) list" where
  "readOpenOutboundUntil tab until =
     map (\<lambda>(m, r). (m, os_conversationId r, os_status r))
       (sort_key (\<lambda>(_, r). (os_sentAt r, os_segment r))
         (filter (\<lambda>(_, r). openStatus (os_status r) \<and> os_sentAt r \<le> until) tab))"

record outbound_stat =
  st_accountId :: "string option"
  st_staleOutbound :: nat
  st_unknownSends24h :: nat

definition readOutboundStats ::
    "outbound_table \<Rightarrow> ms \<Rightarrow> string option \<Rightarrow> outbound_stat list" where
  "readOutboundStats tab now defaultAccountId =
     (let acct = (\<lambda>r. case os_accountId r of None \<Rightarrow> defaultAccountId | Some a \<Rightarrow> Some a);
          rows = map snd tab in
      map (\<lambda>a. \<lparr>st_accountId = a,
        st_staleOutbound = length (filter (\<lambda>r. acct r = a \<and> openStatus (os_status r) \<and>
             os_sentAt r < now - 120000) rows),
        st_unknownSends24h = length (filter (\<lambda>r. acct r = a \<and> os_status r = OUnknown \<and>
             now - 86400000 \<le> os_sentAt r \<and> os_sentAt r \<le> now) rows)\<rparr>)
      (remdups (map acct rows)))"

section \<open>The conditions agree with the table\<close>

lemma conflictWhere_iff [simp]:
  "conflictWhere ws cur t \<longleftrightarrow> canMoveOutbound (Some cur) t ws"
  by (auto simp: conflictWhere_def canMoveOutbound_def outboundFromStates_def image_iff)
     (metis option.distinct(1))+

lemma transitionOutbound_eq:
  "transitionOutbound tab m to ws fs =
     (case jget tab m of
        None \<Rightarrow> (None, tab)
      | Some r \<Rightarrow>
          if canMoveOutbound (Some (os_status r)) to ws
          then (Some (os_conversationId r), jset tab m (transitionRow to fs r))
          else (None, tab))"
  by (auto simp: transitionOutbound_def fromWhere_def canMoveOutbound_def Let_def filter_empty_conv
           split: option.splits)

lemma keepsPayload_iff [simp]: "keepsPayload s \<longleftrightarrow> s = OPending \<or> s = OSending"
  by (auto simp: keepsPayload_def OUTBOUND_KEEPS_PAYLOAD_def)

lemma set_FLUSH_WRITERS [simp]: "set FLUSH_WRITERS = {WPlan, WSettle, WCancel, WReceipt}"
  by (simp add: FLUSH_WRITERS_def)

lemma set_allWriters [simp]:
  "set allWriters = {WPlan, WMark, WSettle, WCancel, WUnmark, WRecover, WReceipt}"
  by (auto simp: allWriters_def OUTBOUND_TRANSITIONS_def)

section \<open>One write changes one cell\<close>

text \<open>\<open>cellWrite\<close>: what a flushed row does to the row of its own message id.\<close>

definition cellWrite :: "outbound_row option \<Rightarrow> outbound_write \<Rightarrow> outbound_row option" where
  "cellWrite cur w =
     (if insertable w
      then Some (case cur of None \<Rightarrow> insertValues w | Some r \<Rightarrow> onConflict r (insertValues w))
      else (case cur of
              None \<Rightarrow> None
            | Some r \<Rightarrow>
                if canMoveOutbound (Some (os_status r)) (ow_status w) FLUSH_WRITERS
                then Some (transitionRow (ow_status w)
                       \<lparr>of_errcode = Some (ow_errcode w), of_failType = Some (ow_failType w),
                        of_sentAt = Some (ow_sentAt w), of_attempts = ow_attempts w\<rparr> r)
                else Some r))"

text \<open>A single write, as the code applies one row: upsert when it may be inserted, else update.\<close>

definition writeOne :: "outbound_table \<Rightarrow> outbound_write \<Rightarrow> outbound_table" where
  "writeOne tab w = (if insertable w then upsertOutbound tab w else flushTransition tab w)"

lemma jget_writeOne:
  "jget (writeOne tab w) m =
     (if m = ow_channelMsgid w then cellWrite (jget tab m) w else jget tab m)"
  by (auto simp: writeOne_def upsertOutbound_def flushTransition_def cellWrite_def
                 transitionOutbound_eq split: option.splits)

lemma jget_foldl_writeOne:
  "jget (foldl writeOne tab ws) m =
     foldl cellWrite (jget tab m) (filter (\<lambda>w. ow_channelMsgid w = m) ws)"
  by (induction ws arbitrary: tab) (auto simp: jget_writeOne)

lemma writeRound_eq:
  "writeRound tab round =
     foldl writeOne tab (filter insertable round @ filter (\<lambda>r. \<not> insertable r) round)"
proof -
  have "foldl upsertOutbound tab (filter insertable ws) = foldl writeOne tab (filter insertable ws)"
    for tab ws by (induction ws arbitrary: tab) (auto simp: writeOne_def)
  moreover have "foldl flushTransition tab (filter (\<lambda>r. \<not> insertable r) ws) =
      foldl writeOne tab (filter (\<lambda>r. \<not> insertable r) ws)"
    for tab ws by (induction ws arbitrary: tab) (auto simp: writeOne_def)
  ultimately show ?thesis by (simp add: writeRound_def)
qed

section \<open>The rounds of a batch are the batch in order\<close>

lemma length_pushRound: "k \<le> length R \<Longrightarrow> length (pushRound k r R) = max (length R) (Suc k)"
  by (induction k r R rule: pushRound.induct) auto

lemma nth_pushRound:
  "k \<le> length R \<Longrightarrow> i < length (pushRound k r R) \<Longrightarrow>
   pushRound k r R ! i =
     (if i = k then (if k < length R then R ! k else []) @ [r] else R ! i)"
proof (induction k r R arbitrary: i rule: pushRound.induct)
  case (4 k r x xs)
  then show ?case by (cases i) auto
qed (auto simp: nth_Cons split: nat.splits)

lemma concat_pushRound_other:
  "k \<le> length R \<Longrightarrow> \<not> P r \<Longrightarrow>
   concat (map (filter P) (pushRound k r R)) = concat (map (filter P) R)"
  by (induction k r R rule: pushRound.induct) auto

lemma concat_pushRound_last:
  "k \<le> length R \<Longrightarrow> P r \<Longrightarrow> (\<And>i. k \<le> i \<Longrightarrow> i < length R \<Longrightarrow> filter P (R ! i) = []) \<Longrightarrow>
   concat (map (filter P) (pushRound k r R)) = concat (map (filter P) R) @ [r]"
proof (induction k r R rule: pushRound.induct)
  case (2 r x xs)
  have "filter P (xs ! i) = []" if "i < length xs" for i using 2(3) [of "Suc i"] that by simp
  then have none: "concat (map (filter P) xs) = []" by (auto simp: in_set_conv_nth)
  have "concat (map (filter P) (pushRound 0 r (x # xs))) = filter P x @ [r] @ concat (map (filter P) xs)"
    using 2(2) by simp
  then show ?case by (simp only: none list.map concat.simps append_Nil2 append_assoc)
next
  case (4 k r x xs)
  have "filter P (xs ! i) = []" if "k \<le> i" "i < length xs" for i
    using 4(4) [of "Suc i"] that by simp
  then show ?case using 4 by simp
qed auto

definition roundStep where
  "roundStep = (\<lambda>(rounds, seen) r.
     let k = (case jget seen (ow_channelMsgid r) of None \<Rightarrow> 0 | Some n \<Rightarrow> n) in
     (pushRound k r rounds, jset seen (ow_channelMsgid r) (k + 1)))"

definition seenCount :: "(string, nat) jsmap \<Rightarrow> string \<Rightarrow> nat" where
  "seenCount seen m = (case jget seen m of None \<Rightarrow> 0 | Some n \<Rightarrow> n)"

definition roundsInv ::
    "outbound_write list \<Rightarrow> outbound_write list list \<times> (string, nat) jsmap \<Rightarrow> bool" where
  "roundsInv rows s \<longleftrightarrow> (\<forall>m.
     let f = filter (\<lambda>w. ow_channelMsgid w = m) in
     seenCount (snd s) m \<le> length (fst s) \<and>
     (\<forall>i < length (fst s). length (f (fst s ! i)) = (if i < seenCount (snd s) m then 1 else 0)) \<and>
     concat (map f (fst s)) = f rows)"

lemma roundsInvD:
  assumes "roundsInv rows (R, seen)"
  shows "seenCount seen m \<le> length R"
    and "i < length R \<Longrightarrow>
         length (filter (\<lambda>w. ow_channelMsgid w = m) (R ! i)) = (if i < seenCount seen m then 1 else 0)"
    and "concat (map (filter (\<lambda>w. ow_channelMsgid w = m)) R) = filter (\<lambda>w. ow_channelMsgid w = m) rows"
  using assms unfolding roundsInv_def by (metis fst_conv snd_conv)+

lemma roundsInv_step:
  assumes inv: "roundsInv rows (R, seen)"
  shows "roundsInv (rows @ [r]) (roundStep (R, seen) r)"
  unfolding roundsInv_def Let_def
proof (intro allI conjI impI)
  fix m
  let ?k = "seenCount seen (ow_channelMsgid r)" and ?f = "filter (\<lambda>w. ow_channelMsgid w = m)"
  have step: "roundStep (R, seen) r = (pushRound ?k r R, jset seen (ow_channelMsgid r) (Suc ?k))"
    by (simp add: roundStep_def seenCount_def Let_def)
  note I = roundsInvD [OF inv]
  have count: "seenCount (jset seen (ow_channelMsgid r) (Suc ?k)) m =
      (if m = ow_channelMsgid r then Suc ?k else seenCount seen m)"
    by (simp add: seenCount_def)
  show "seenCount (snd (roundStep (R, seen) r)) m \<le> length (fst (roundStep (R, seen) r))"
    using I(1) [of m] I(1) [of "ow_channelMsgid r"]
    by (auto simp: step count length_pushRound le_max_iff_disj)
  show "concat (map ?f (fst (roundStep (R, seen) r))) = ?f (rows @ [r])"
  proof (cases "m = ow_channelMsgid r")
    case True
    have "?f (R ! i) = []" if "?k \<le> i" "i < length R" for i
      using I(2) [of i m] that True by simp
    then show ?thesis
      using True I(1) I(3) by (simp add: step concat_pushRound_last)
  next
    case False
    then show ?thesis
      using I(1) I(3) by (simp add: step concat_pushRound_other)
  qed
  fix i assume "i < length (fst (roundStep (R, seen) r))"
  then have i: "i < max (length R) (Suc ?k)" using I(1) by (simp add: step length_pushRound)
  have nth: "pushRound ?k r R ! i =
      (if i = ?k then (if ?k < length R then R ! ?k else []) @ [r] else R ! i)"
    using I(1) i by (intro nth_pushRound) (simp_all add: length_pushRound)
  show "length (?f (fst (roundStep (R, seen) r) ! i)) =
      (if i < seenCount (snd (roundStep (R, seen) r)) m then 1 else 0)"
    using I(2) [of i m] i I(1) [of m] I(1) [of "ow_channelMsgid r"]
    by (auto simp: step nth count split: if_splits)
qed

lemma roundsInv_splitRounds:
  "\<exists>seen. roundsInv rows (splitRounds rows, seen)"
proof -
  have "roundsInv rows (foldl roundStep ([], []) rows)"
  proof (induction rows rule: rev_induct)
    case (snoc r rows)
    then show ?case
      by (cases "foldl roundStep ([], []) rows") (simp add: roundsInv_step)
  qed (simp add: roundsInv_def seenCount_def)
  moreover have "foldl roundStep ([], []) rows =
      (splitRounds rows, snd (foldl roundStep ([], []) rows))"
    by (simp add: splitRounds_def roundStep_def)
  ultimately show ?thesis by metis
qed

lemma filter_partition_short:
  assumes "length (filter P xs) \<le> 1"
  shows "filter P (filter Q xs @ filter (\<lambda>x. \<not> Q x) xs) = filter P xs"
proof -
  have "filter P (filter Q xs @ filter (\<lambda>x. \<not> Q x) xs) =
      filter Q (filter P xs) @ filter (\<lambda>x. \<not> Q x) (filter P xs)"
    by (simp add: conj_commute)
  also have "\<dots> = filter P xs"
    using assms by (cases "filter P xs") auto
  finally show ?thesis .
qed

lemma jget_insertOutboundSends:
  "jget (insertOutboundSends tab rows) m =
     foldl cellWrite (jget tab m) (filter (\<lambda>w. ow_channelMsgid w = m) rows)"
proof -
  let ?f = "filter (\<lambda>w. ow_channelMsgid w = m)"
  obtain seen where inv: "roundsInv rows (splitRounds rows, seen)"
    using roundsInv_splitRounds by blast
  have short: "\<forall>round \<in> set (splitRounds rows). length (?f round) \<le> 1"
    using roundsInvD(2) [OF inv, where m = m] by (auto simp: in_set_conv_nth)
  have "jget (foldl writeRound t Rs) m = foldl cellWrite (jget t m) (concat (map ?f Rs))"
    if "\<forall>round \<in> set Rs. length (?f round) \<le> 1" for t Rs
    using that
  proof (induction Rs arbitrary: t)
    case (Cons round Rs)
    then have part: "?f (filter insertable round @ filter (\<lambda>r. \<not> insertable r) round) = ?f round"
      by (intro filter_partition_short) simp
    have "jget (writeRound t round) m = foldl cellWrite (jget t m) (?f round)"
      by (simp only: writeRound_eq jget_foldl_writeOne part)
    with Cons show ?case by simp
  qed simp
  from this [OF short] show ?thesis
    using roundsInvD(3) [OF inv] by (cases "rows = []") (simp_all add: insertOutboundSends_def)
qed

section \<open>Sequences of statements\<close>

datatype outbound_stmt =
    StFlush "outbound_write list"
  | StTransition string outbound_status "outbound_writer list" outbound_fields
  | StMark string
  | StSet string outbound_status "int option option" "int option option" "outbound_writer list option"
  | StFailed string int

fun outbound_step :: "outbound_table \<Rightarrow> outbound_stmt \<Rightarrow> outbound_table" where
  "outbound_step tab (StFlush rows) = insertOutboundSends tab rows"
| "outbound_step tab (StTransition m to ws fs) = snd (transitionOutbound tab m to ws fs)"
| "outbound_step tab (StMark m) = snd (markOutboundSending tab m)"
| "outbound_step tab (StSet m s e f ws) = snd (setOutboundStatus tab m s e f ws)"
| "outbound_step tab (StFailed m t) = snd (markOutboundFailed tab m t)"

text \<open>
  Every statement but the batch is one guarded transition; \<open>stmt_transition\<close> names it, so that the
  proofs below treat the single-row statements together.
\<close>

fun stmt_transition ::
    "outbound_stmt \<Rightarrow> (string \<times> outbound_status \<times> outbound_writer list \<times> outbound_fields) option" where
  "stmt_transition (StFlush rows) = None"
| "stmt_transition (StTransition m to ws fs) = Some (m, to, ws, fs)"
| "stmt_transition (StMark m) = Some (m, OSending, [WMark], no_fields)"
| "stmt_transition (StSet m s e f ws) =
     Some (m, s, (case ws of None \<Rightarrow> allWriters | Some l \<Rightarrow> l), no_fields\<lparr>of_errcode := e, of_failType := f\<rparr>)"
| "stmt_transition (StFailed m t) = Some (m, OFailed, [WReceipt], no_fields\<lparr>of_failType := Some (Some t)\<rparr>)"

lemma outbound_step_transition:
  "stmt_transition e = Some (m, to, ws, fs) \<Longrightarrow>
   outbound_step tab e = snd (transitionOutbound tab m to ws fs)"
  by (cases e)
     (auto simp: markOutboundSending_def setOutboundStatus_def markOutboundFailed_def
           split: option.splits prod.splits)

lemma stmt_transition_None: "stmt_transition e = None \<Longrightarrow> \<exists>rows. e = StFlush rows"
  by (cases e) auto

text \<open>Row facts that survive a write of one cell survive every statement.\<close>

lemma cell_invariant:
  assumes flush: "\<And>cur w. P cur \<Longrightarrow> P (cellWrite cur w)"
    and move: "\<And>r to ws fs. stmt_transition e = Some (m, to, ws, fs) \<Longrightarrow> P (Some r) \<Longrightarrow>
                  canMoveOutbound (Some (os_status r)) to ws \<Longrightarrow> P (Some (transitionRow to fs r))"
    and P: "P (jget tab m)"
  shows "P (jget (outbound_step tab e) m)"
proof (cases "stmt_transition e")
  case None
  then obtain rows where e: "e = StFlush rows" using stmt_transition_None by blast
  have "P (foldl cellWrite cur ws)" if "P cur" for cur ws
    using that by (induction ws arbitrary: cur) (auto intro: flush)
  then show ?thesis using P by (simp add: e jget_insertOutboundSends)
next
  case (Some t)
  then obtain m' to ws fs where t: "stmt_transition e = Some (m', to, ws, fs)"
    by (cases t) auto
  show ?thesis
    using P move t
    by (auto simp: outbound_step_transition [OF t] transitionOutbound_eq split: option.splits)
qed

text \<open>The row of a message id keeps its payload only while it waits to be sent.\<close>

definition payloadOk :: "outbound_row option \<Rightarrow> bool" where
  "payloadOk cur \<longleftrightarrow>
     (case cur of None \<Rightarrow> True | Some r \<Rightarrow> os_payload r \<noteq> None \<longrightarrow> openStatus (os_status r))"

lemma payloadOk_cellWrite: "payloadOk cur \<Longrightarrow> payloadOk (cellWrite cur w)"
  by (auto simp: payloadOk_def cellWrite_def insertValues_def onConflict_def transitionRow_def
                 openStatus_def Let_def split: option.splits if_splits)

interpretation out_payload: machine outbound_step "\<lambda>tab. payloadOk (jget tab m)" for m
proof
  fix tab e
  assume "payloadOk (jget tab m)"
  then show "payloadOk (jget (outbound_step tab e) m)"
    by (intro cell_invariant [where P = payloadOk] payloadOk_cellWrite)
       (auto simp: payloadOk_def transitionRow_def openStatus_def)
qed

text \<open>A settled row: nothing but a missing message number is ever filled in.\<close>

definition frozen :: "outbound_row \<Rightarrow> outbound_row option \<Rightarrow> bool" where
  "frozen r cur \<longleftrightarrow> (\<exists>r'. cur = Some r' \<and> r'\<lparr>os_messageSeq := os_messageSeq r\<rparr> = r \<and>
      (os_messageSeq r \<noteq> None \<longrightarrow> r' = r))"

lemma frozen_status: "frozen r (Some r') \<Longrightarrow> os_status r' = os_status r"
  unfolding frozen_def by (metis option.inject outbound_row.select_convs(5) outbound_row.surjective
      outbound_row.update_convs(2))

lemma frozen_cellWrite:
  assumes "outbound_final (os_status r)" "frozen r cur"
  shows "frozen r (cellWrite cur w)"
proof -
  obtain r' where r': "cur = Some r'" using assms(2) by (auto simp: frozen_def)
  then have "\<not> canMoveOutbound (Some (os_status r')) s ws" for s ws
    using assms frozen_status outbound_final_closed by metis
  then show ?thesis
    using assms(2) r'
    by (cases r; cases r')
       (auto simp: cellWrite_def onConflict_def frozen_def Let_def simp del: from_pending_cell from_sending_cell
          from_accepted_cell from_rejected_cell from_unknown_cell from_failed_cell from_cancelled_cell
          split: option.splits)
qed

lemma frozen_step:
  assumes "outbound_final (os_status r)" and "frozen r (jget tab m)"
  shows "frozen r (jget (outbound_step tab e) m)"
proof (rule cell_invariant [where P = "frozen r"])
  fix r' to ws fs
  assume "frozen r (Some r')" "canMoveOutbound (Some (os_status r')) to ws"
  then show "frozen r (Some (transitionRow to fs r'))"
    using assms(1) frozen_status outbound_final_closed by metis
qed (use assms in \<open>auto intro: frozen_cellWrite\<close>)

interpretation out_frozen:
  machine outbound_step "\<lambda>tab. outbound_final (os_status r) \<and> frozen r (jget tab m)" for r m
  by unfold_locales (auto intro: frozen_step)

text \<open>A row past \<open>pending\<close>: only giving the mark back (writer \<open>unmark\<close>) makes it sendable again.\<close>

fun unmarks :: "outbound_stmt \<Rightarrow> bool" where
  "unmarks (StTransition m to ws fs) \<longleftrightarrow> to = OPending \<and> WUnmark \<in> set ws"
| "unmarks (StSet m s e f ws) \<longleftrightarrow>
     s = OPending \<and> (case ws of None \<Rightarrow> True | Some l \<Rightarrow> WUnmark \<in> set l)"
| "unmarks _ \<longleftrightarrow> False"

definition pastPending :: "outbound_row option \<Rightarrow> bool" where
  "pastPending cur \<longleftrightarrow> (\<exists>r. cur = Some r \<and> os_status r \<noteq> OPending)"

lemma pastPending_cellWrite: "pastPending cur \<Longrightarrow> pastPending (cellWrite cur w)"
  by (auto simp: pastPending_def cellWrite_def onConflict_def transitionRow_def insertValues_def Let_def
           split: option.splits)

lemma unmarks_iff:
  "stmt_transition e = Some (m, OPending, ws, fs) \<Longrightarrow> unmarks e \<longleftrightarrow> WUnmark \<in> set ws"
  by (cases e) (auto split: option.splits)

interpretation out_sent: guarded_machine outbound_step "\<lambda>e. \<not> unmarks e" "\<lambda>tab. pastPending (jget tab m)" for m
proof
  fix tab e
  assume "pastPending (jget tab m)" "\<not> unmarks e"
  then show "pastPending (jget (outbound_step tab e) m)"
    using unmarks_iff [of e m]
    by (intro cell_invariant [where P = pastPending] pastPending_cellWrite)
       (auto simp: pastPending_def transitionRow_def)
qed

section \<open>Properties\<close>

text \<open>
  C25: Writing a batch in rounds (\<open>insertOutboundSends\<close> splits repeated message ids into successive
  statements) has the same effect on every message id as writing the rows one by one in the given
  order; so each repetition is judged by the transition table against what the previous one left.
\<close>

theorem insertOutboundSends_sequential:
  "jget (insertOutboundSends tab rows) m = jget (foldl writeOne tab rows) m"
  by (simp add: jget_insertOutboundSends jget_foldl_writeOne)

text \<open>
  C26: A row that is rejected, failed or cancelled is settled for good: after any sequence of the
  repository's writes, by any writers, every column of it is as it was, except that a missing
  message number may have been filled in once.
\<close>

theorem outbound_final_frozen:
  assumes "jget tab m = Some r" and "os_status r \<in> {ORejected, OFailed, OCancelled}"
  shows "\<exists>r'. jget (foldl outbound_step tab es) m = Some r' \<and>
           r'\<lparr>os_messageSeq := os_messageSeq r\<rparr> = r \<and> (os_messageSeq r \<noteq> None \<longrightarrow> r' = r)"
proof -
  have "frozen r (jget tab m)" using assms by (simp add: frozen_def)
  then have "frozen r (jget (foldl outbound_step tab es) m)"
    using out_frozen.run_inv [of r tab m es] assms(2) by (simp add: outbound_final_def)
  then show ?thesis by (simp add: frozen_def)
qed

text \<open>
  Starting from an empty ledger, whatever is written, a stored payload belongs to a row that is
  still to be sent (pending or sending): no write leaves message content behind on a settled row.
\<close>

theorem outbound_payload_only_open:
  assumes "jget (foldl outbound_step [] es) m = Some r" and "os_payload r \<noteq> None"
  shows "os_status r = OPending \<or> os_status r = OSending"
  using out_payload.run_inv [of "[]" m es] assms by (simp add: payloadOk_def openStatus_def)

text \<open>
  A segment is handed to the sender at most once: after \<open>markOutboundSending\<close> returned
  \<open>marked\<close>, no later call for the same message id returns \<open>marked\<close> again, whatever is written in
  between, unless some statement gave the mark back with the writer \<open>unmark\<close>.
\<close>

theorem marked_at_most_once:
  assumes "fst (markOutboundSending tab m) = Marked" and "\<forall>e \<in> set es. \<not> unmarks e"
  shows "fst (markOutboundSending (foldl outbound_step (snd (markOutboundSending tab m)) es) m) = NotPending"
proof -
  have "pastPending (jget (snd (markOutboundSending tab m)) m)"
    using assms(1)
    by (auto simp: markOutboundSending_def transitionOutbound_eq pastPending_def transitionRow_def
             split: option.splits if_splits)
  from out_sent.run_ok [OF this assms(2)] show ?thesis
    by (auto simp: pastPending_def markOutboundSending_def transitionOutbound_eq)
qed

section \<open>Witnesses\<close>

definition exampleWrite :: "string \<Rightarrow> outbound_status \<Rightarrow> outbound_write" where
  "exampleWrite m s = \<lparr>ow_conversationId = ''wecom:u1'', ow_channelMsgid = m, ow_messageSeq = None,
     ow_kind = KAi, ow_sentAt = 1000, ow_status = s, ow_errcode = None, ow_failType = None,
     ow_accountId = Some ''acct'', ow_inboxId = Some ''in1'', ow_segment = Some 0,
     ow_attempts = Some 1, ow_payload = Some (PText (Some (js ''hello'')))\<rparr>"

definition exampleTable :: outbound_table where
  "exampleTable = insertOutboundSends [] [exampleWrite ''m1'' OPending, exampleWrite ''m2'' ORejected]"

lemma exampleTable_rows:
  "jget exampleTable ''m1'' = Some (insertValues (exampleWrite ''m1'' OPending))"
  "jget exampleTable ''m2'' = Some (insertValues (exampleWrite ''m2'' ORejected))"
  by (simp_all add: exampleTable_def jget_insertOutboundSends cellWrite_def insertable_def exampleWrite_def)

lemma outbound_final_frozen_witness:
  "\<exists>r'. jget (foldl outbound_step exampleTable [StFlush [exampleWrite ''m2'' OAccepted]]) ''m2'' = Some r' \<and>
      os_status r' = ORejected"
proof -
  let ?r = "insertValues (exampleWrite ''m2'' ORejected)"
  have "os_status ?r = ORejected" by (simp add: insertValues_def exampleWrite_def)
  with outbound_final_frozen [OF exampleTable_rows(2), of "[StFlush [exampleWrite ''m2'' OAccepted]]"]
  obtain r' where "jget (foldl outbound_step exampleTable [StFlush [exampleWrite ''m2'' OAccepted]]) ''m2'' = Some r'"
    and "r'\<lparr>os_messageSeq := os_messageSeq ?r\<rparr> = ?r" by auto
  moreover from this(2) have "os_status r' = os_status ?r"
    by (cases r') (auto simp: insertValues_def)
  ultimately show ?thesis using \<open>os_status ?r = ORejected\<close> by auto
qed

lemma outbound_payload_only_open_witness:
  "let r = insertValues (exampleWrite ''m1'' OPending) in
   os_payload r = Some (PText (Some (js ''hello''))) \<and> (os_status r = OPending \<or> os_status r = OSending)"
proof -
  let ?es = "[StFlush [exampleWrite ''m1'' OPending, exampleWrite ''m2'' ORejected]]"
  let ?r = "insertValues (exampleWrite ''m1'' OPending)"
  have p: "os_payload ?r = Some (PText (Some (js ''hello'')))" by (simp add: insertValues_def exampleWrite_def)
  moreover have "jget (foldl outbound_step [] ?es) ''m1'' = Some ?r"
    using exampleTable_rows(1) by (simp add: exampleTable_def)
  ultimately show ?thesis
    using outbound_payload_only_open [of ?es "''m1''" ?r] by (simp add: Let_def)
qed

lemma marked_at_most_once_witness:
  "fst (markOutboundSending exampleTable ''m1'') = Marked \<and>
   fst (markOutboundSending (foldl outbound_step (snd (markOutboundSending exampleTable ''m1''))
     [StFlush [exampleWrite ''m1'' OUnknown]]) ''m1'') = NotPending"
proof -
  have "fst (markOutboundSending exampleTable ''m1'') = Marked"
    by (simp add: markOutboundSending_def transitionOutbound_eq exampleTable_rows insertValues_def exampleWrite_def)
  then show ?thesis
    using marked_at_most_once [of exampleTable "''m1''" "[StFlush [exampleWrite ''m1'' OUnknown]]"] by simp
qed

end
