(* ===== verification/LedgerState.thy ===== *)
theory LedgerState
  imports OutboundRepo "HOL-Library.Sublist"
begin

text \<open>
  The send ledger in memory (\<open>src/quota/ledger.ts\<close>), first part: its rows, indexes and the objects
  it hands to the session store, and the operations every handler is built from. A row is a shared
  mutable object of the code, so rows live in a heap and the indexes hold references; the write
  object a row queued (\<open>dbRow\<close>) is shared with the store's queue in the same way, because a receipt
  that arrives early changes it in place. What leaves the ledger (queued writes, notices, session
  explanations) is recorded in a log. One runtime owns the ledger; \<open>le_live\<close> is \<open>liveRow\<close>.
\<close>

section \<open>Constants\<close>

definition WINDOW_MS :: ms where
  "WINDOW_MS = 48 * 3600000"

definition WINDOW_SENDS :: int where
  "WINDOW_SENDS = 5"

definition FOLLOWUP_MIN_REMAINING :: int where
  "FOLLOWUP_MIN_REMAINING = 2"

definition FOLLOWUP_MIN_LEFT_MS :: ms where
  "FOLLOWUP_MIN_LEFT_MS = 2 * 3600000"

definition KEEP_MS :: ms where
  "KEEP_MS = 7 * 86400000"

definition SEQ_WAIT_MS :: ms where
  "SEQ_WAIT_MS = 2000"

definition COMMIT_WAIT_MS :: ms where
  "COMMIT_WAIT_MS = 5000"

definition SEGMENT_MAX :: nat where
  "SEGMENT_MAX = 32000"

definition UNSAFE_WINDOW_MS :: ms where
  "UNSAFE_WINDOW_MS = 10 * 60000"

section \<open>Delivery status shown for a message\<close>

datatype delivery_status = DSending | DAccepted | DUnknown | DRejected | DFailed | DCancelled

record delivery_view =
  dv_status :: delivery_status
  dv_failType :: "int option"

fun DELIVERY_RANK :: "delivery_status \<Rightarrow> nat" where
  "DELIVERY_RANK DAccepted = 0"
| "DELIVERY_RANK DCancelled = 1"
| "DELIVERY_RANK DUnknown = 2"
| "DELIVERY_RANK DRejected = 3"
| "DELIVERY_RANK DFailed = 4"
| "DELIVERY_RANK DSending = 5"

fun deliveryStatusOf :: "outbound_status \<Rightarrow> delivery_status" where
  "deliveryStatusOf OPending = DSending"
| "deliveryStatusOf OSending = DSending"
| "deliveryStatusOf OAccepted = DAccepted"
| "deliveryStatusOf OUnknown = DUnknown"
| "deliveryStatusOf ORejected = DRejected"
| "deliveryStatusOf OFailed = DFailed"
| "deliveryStatusOf OCancelled = DCancelled"

text \<open>The loop of \<open>deliveryOfSegments\<close> with its variable \<open>worst\<close>.\<close>

fun worstSegment ::
    "delivery_view option \<Rightarrow> (outbound_status \<times> int option) list \<Rightarrow> delivery_view option" where
  "worstSegment worst [] =
     map_option (\<lambda>w. \<lparr>dv_status = dv_status w,
       dv_failType = (if dv_status w = DFailed then dv_failType w else None)\<rparr>) worst"
| "worstSegment worst ((s, ft) # segs) =
     (if s = OPending \<or> s = OSending then Some \<lparr>dv_status = DSending, dv_failType = None\<rparr>
      else
        (let st = deliveryStatusOf s in
         if (case worst of None \<Rightarrow> True | Some w \<Rightarrow> DELIVERY_RANK st > DELIVERY_RANK (dv_status w))
         then worstSegment (Some \<lparr>dv_status = st, dv_failType = ft\<rparr>) segs
         else worstSegment worst segs))"

definition deliveryOfSegments :: "(outbound_status \<times> int option) list \<Rightarrow> delivery_view option" where
  "deliveryOfSegments segments = worstSegment None segments"

section \<open>Fixed texts\<close>

definition WINDOW_CLOSED_TEXT :: jstext where
  "WINDOW_CLOSED_TEXT =
     [23458, 25143, 36229, 36807, 32, 52, 56, 32, 23567, 26102, 27809, 35828, 35805, 65292,
     36825, 26465, 21457, 19981, 20986, 21435, 20102]"

definition QUOTA_EXHAUSTED_TEXT :: jstext where
  "QUOTA_EXHAUSTED_TEXT =
     [36825, 19968, 36718, 24050, 32463, 21457, 28385, 32, 53, 32, 26465, 65292, 31561, 23458,
     25143, 22238, 22797, 21518, 25165, 33021, 20877, 21457]"

fun natDigits :: "nat \<Rightarrow> jstext" where
  "natDigits n = (if n < 10 then [48 + n] else natDigits (n div 10) @ [48 + n mod 10])"

declare natDigits.simps [simp del]

definition intText :: "int \<Rightarrow> jstext" where
  "intText i = (if i < 0 then 45 # natDigits (nat (- i)) else natDigits (nat i))"

definition sendFailText :: "int \<Rightarrow> jstext" where
  "sendFailText failType =
     (if failType = 4 then WINDOW_CLOSED_TEXT
      else if failType = 6 then QUOTA_EXHAUSTED_TEXT
      else [36825, 26465, 27809, 36865, 36798, 65288, 21407, 22240, 30721, 32]
        @ intText failType @ [65289])"

section \<open>Accounts\<close>

datatype channel_kind = WecomKf | WebChannel

datatype account_source = FromEnv | FromDb

record channel_account =
  ac_id :: string
  ac_key :: string
  ac_kind :: channel_kind
  ac_source :: account_source
  ac_idPrefix :: "string option"

definition DEFAULT_WECOM_PREFIX :: string where
  "DEFAULT_WECOM_PREFIX = ''wecom:''"

text \<open>The loop of \<open>accountForSession\<close>: the longest prefix that leaves a non-empty rest.\<close>

fun bestAccount ::
    "string \<Rightarrow> channel_account option \<Rightarrow> channel_account list \<Rightarrow> channel_account option" where
  "bestAccount sid best [] = best"
| "bestAccount sid best (a # as) =
     (case ac_idPrefix a of
        None \<Rightarrow> bestAccount sid best as
      | Some p \<Rightarrow>
          if p = [] \<or> \<not> prefix p sid \<or> length sid = length p then bestAccount sid best as
          else if (case best of None \<Rightarrow> True
                   | Some b \<Rightarrow> length p > (case ac_idPrefix b of None \<Rightarrow> 0 | Some q \<Rightarrow> length q))
          then bestAccount sid (Some a) as
          else bestAccount sid best as)"

definition accountForSession ::
    "channel_account list \<Rightarrow> string \<Rightarrow> string option \<Rightarrow> channel_account option" where
  "accountForSession accounts sid channelAccountId =
     (if prefix ''web:'' sid then
        (case channelAccountId of
           None \<Rightarrow> None
         | Some i \<Rightarrow> if i = [] then None else find (\<lambda>a. ac_kind a = WebChannel \<and> ac_id a = i) accounts)
      else if \<not> prefix DEFAULT_WECOM_PREFIX sid then None
      else case bestAccount sid None accounts of
        Some a \<Rightarrow> Some a
      | None \<Rightarrow> find (\<lambda>a. ac_idPrefix a = Some DEFAULT_WECOM_PREFIX) accounts)"

section \<open>State\<close>

type_synonym mref = nat

record chat_message =
  cm_ref :: mref
  cm_customer :: bool
  cm_sentAt :: "ms option"
  cm_at :: "ms option"

text \<open>What the ledger reads of the rest of the process when a handler runs.\<close>

record ledger_env =
  le_now :: ms
  le_live :: bool
  le_dbMode :: bool
  le_demo :: "string \<Rightarrow> bool"
  le_session :: "string \<Rightarrow> chat_message list option"
  le_seqOf :: "mref \<Rightarrow> nat option"
  le_accounts :: "channel_account list"
  le_channelAccountId :: "string \<Rightarrow> string option"

datatype commit_state = CommitDone | CommitFailed

record lrow =
  lr_sessionId :: string
  lr_msgid :: string
  lr_kind :: outbound_kind
  lr_message :: "mref option"
  lr_seq :: "nat option"
  lr_sentAt :: ms
  lr_lastAttemptAt :: ms
  lr_status :: outbound_status
  lr_errcode :: "int option"
  lr_failType :: "int option"
  lr_inFlight :: bool
  lr_held :: bool
  lr_dbRow :: "nat option"
  lr_inDb :: bool
  lr_v2 :: bool
  lr_accountId :: "string option"
  lr_inboxId :: "string option"
  lr_segment :: nat
  lr_payload :: "outbound_payload option"
  lr_attempts :: nat
  lr_commit :: "commit_state option"
  lr_probe :: bool

datatype send_result = RAccepted | RRejected | RUnknown

datatype ledger_effect =
  EffTelemetry string nat
| EffStandalone nat
| EffWriteNow "nat list"
| EffQueueRows string "nat list"
| EffQueueReplied string string
| EffInboxDone string
| EffExplain string int
| EffSettled send_result "int option" outbound_kind string
| EffUnsafe nat

record ledger =
  lg_rows :: "nat \<Rightarrow> lrow"
  lg_next :: nat
  lg_bySession :: "string \<Rightarrow> nat list"
  lg_byMsgid :: "(string, nat) jsmap"
  lg_holds :: "(mref, nat) jsmap"
  lg_awaiting :: "(mref, nat list \<times> ms option) jsmap"
  lg_writes :: "outbound_write list"
  lg_pendingWrites :: "(nat, nat) jsmap"
  lg_preload :: "(string \<times> (string \<times> outbound_row) list) list"
  lg_unsafeAt :: "ms list"
  lg_log :: "ledger_effect list"

section \<open>Row primitives\<close>

definition COUNTED :: "outbound_status list" where
  "COUNTED = [OAccepted, OUnknown, OPending, OSending]"

definition setRow :: "nat \<Rightarrow> (lrow \<Rightarrow> lrow) \<Rightarrow> ledger \<Rightarrow> ledger" where
  "setRow rid f L = L\<lparr>lg_rows := (lg_rows L)(rid := f (lg_rows L rid))\<rparr>"

definition alloc :: "lrow \<Rightarrow> ledger \<Rightarrow> nat \<times> ledger" where
  "alloc r L = (lg_next L, L\<lparr>lg_rows := (lg_rows L)(lg_next L := r), lg_next := Suc (lg_next L)\<rparr>)"

definition emit :: "ledger_effect \<Rightarrow> ledger \<Rightarrow> ledger" where
  "emit e L = L\<lparr>lg_log := lg_log L @ [e]\<rparr>"

definition addRow :: "nat \<Rightarrow> ledger \<Rightarrow> ledger" where
  "addRow rid L =
     (let r = lg_rows L rid in
      L\<lparr>lg_bySession := (lg_bySession L)(lr_sessionId r := lg_bySession L (lr_sessionId r) @ [rid]),
        lg_byMsgid := jset (lg_byMsgid L) (lr_msgid r) rid\<rparr>)"

definition removeRow :: "nat \<Rightarrow> ledger \<Rightarrow> ledger" where
  "removeRow rid L =
     (let r = lg_rows L rid in
      L\<lparr>lg_byMsgid := jdel (lg_byMsgid L) (lr_msgid r),
        lg_bySession := (lg_bySession L)
          (lr_sessionId r := filter (\<lambda>x. x \<noteq> rid) (lg_bySession L (lr_sessionId r)))\<rparr>)"

text \<open>\<open>newRow\<close>: the random message id is an argument.\<close>

definition newRow :: "string \<Rightarrow> outbound_kind \<Rightarrow> mref option \<Rightarrow> ms \<Rightarrow> string \<Rightarrow> lrow" where
  "newRow sessionId kind message now msgid = \<lparr>
     lr_sessionId = sessionId, lr_msgid = msgid, lr_kind = kind, lr_message = message, lr_seq = None,
     lr_sentAt = now, lr_lastAttemptAt = now, lr_status = OPending, lr_errcode = None, lr_failType = None,
     lr_inFlight = True, lr_held = False, lr_dbRow = None, lr_inDb = False, lr_v2 = False,
     lr_accountId = None, lr_inboxId = None, lr_segment = 0, lr_payload = None, lr_attempts = 0,
     lr_commit = None, lr_probe = False\<rparr>"

definition preloadRow :: "string \<Rightarrow> string \<times> outbound_row \<Rightarrow> lrow" where
  "preloadRow sessionId p =
     (let (msgid, r) = p; v2 = os_accountId r \<noteq> None in
      (newRow sessionId (os_kind r) None (os_sentAt r) msgid)\<lparr>
        lr_seq := os_messageSeq r,
        lr_status := os_status r,
        lr_errcode := os_errcode r,
        lr_failType := os_failType r,
        lr_inFlight := False,
        lr_inDb := True,
        lr_v2 := v2,
        lr_accountId := os_accountId r,
        lr_commit := (if v2 then Some CommitDone else None)\<rparr>)"

definition loadOne :: "string \<Rightarrow> ledger \<Rightarrow> string \<times> outbound_row \<Rightarrow> ledger" where
  "loadOne sessionId L p =
     (if jget (lg_byMsgid L) (fst p) \<noteq> None then L
      else case alloc (preloadRow sessionId p) L of (rid, L') \<Rightarrow> addRow rid L')"

definition ensureLoaded :: "ledger \<Rightarrow> ledger" where
  "ensureLoaded L =
     foldl (\<lambda>M (sessionId, rows). foldl (loadOne sessionId) M rows)
       (L\<lparr>lg_preload := []\<rparr>) (lg_preload L)"

definition keptByPrune :: "ledger \<Rightarrow> ms \<Rightarrow> nat \<Rightarrow> bool" where
  "keptByPrune L now rid \<longleftrightarrow>
     (let r = lg_rows L rid in now - KEEP_MS \<le> lr_sentAt r \<or> lr_status r = OPending \<or> lr_status r = OSending)"

definition prune :: "string \<Rightarrow> ms \<Rightarrow> ledger \<Rightarrow> ledger" where
  "prune sessionId now L =
     (case lg_bySession L sessionId of
        [] \<Rightarrow> L
      | first # rest \<Rightarrow>
          if now - KEEP_MS \<le> lr_sentAt (lg_rows L first) then L
          else
            (let list = first # rest;
                 kept = filter (keptByPrune L now) list;
                 dropped = filter (\<lambda>x. \<not> keptByPrune L now x) list in
             L\<lparr>lg_byMsgid := foldl (\<lambda>m x. jdel m (lr_msgid (lg_rows L x))) (lg_byMsgid L) dropped,
               lg_bySession := (lg_bySession L)(sessionId := kept)\<rparr>))"

definition writesToDb :: "ledger_env \<Rightarrow> string \<Rightarrow> bool" where
  "writesToDb env sessionId \<longleftrightarrow> le_dbMode env \<and> \<not> le_demo env sessionId"

definition hasSession :: "ledger_env \<Rightarrow> string \<Rightarrow> bool" where
  "hasSession env sessionId \<longleftrightarrow> le_session env sessionId \<noteq> None"

definition writeShape :: "ledger_env \<Rightarrow> lrow \<Rightarrow> outbound_status \<Rightarrow> outbound_write" where
  "writeShape env r status =
     (let base = \<lparr>
        ow_conversationId = lr_sessionId r,
        ow_channelMsgid = lr_msgid r,
        ow_messageSeq = (case lr_message r of Some m \<Rightarrow> le_seqOf env m | None \<Rightarrow> lr_seq r),
        ow_kind = lr_kind r,
        ow_sentAt = lr_lastAttemptAt r,
        ow_status = (if \<not> lr_v2 r \<and> status = OPending then OUnknown else status),
        ow_errcode = lr_errcode r,
        ow_failType = lr_failType r,
        ow_accountId = None, ow_inboxId = None, ow_segment = None, ow_attempts = None, ow_payload = None\<rparr> in
      if \<not> lr_v2 r then base
      else base\<lparr>
        ow_accountId := lr_accountId r,
        ow_inboxId := lr_inboxId r,
        ow_segment := Some (lr_segment r),
        ow_attempts := Some (lr_attempts r),
        ow_payload := (if status = OPending \<or> status = OSending then lr_payload r else None)\<rparr>)"

text \<open>A write object is created and becomes the row's \<open>dbRow\<close>.\<close>

definition queueObject :: "outbound_write \<Rightarrow> nat \<Rightarrow> ledger \<Rightarrow> nat \<times> ledger" where
  "queueObject w rid L =
     (let wid = length (lg_writes L) in
      (wid, setRow rid (\<lambda>r. r\<lparr>lr_dbRow := Some wid, lr_inDb := True\<rparr>) (L\<lparr>lg_writes := lg_writes L @ [w]\<rparr>)))"

definition writeRow :: "ledger_env \<Rightarrow> nat \<Rightarrow> ledger \<Rightarrow> ledger" where
  "writeRow env rid L =
     (if \<not> le_live env then L
      else
        (let r = lg_rows L rid;
             (wid, L') = queueObject (writeShape env r (lr_status r)) rid L in
         if hasSession env (lr_sessionId r) then emit (EffTelemetry (lr_sessionId r) wid) L'
         else if lr_v2 r then emit (EffWriteNow [wid]) L'
         else emit (EffStandalone wid) L'))"

definition armSeqTimer :: "ledger_env \<Rightarrow> mref \<Rightarrow> ledger \<Rightarrow> ledger" where
  "armSeqTimer env msg L =
     (case jget (lg_awaiting L) msg of
        None \<Rightarrow> L
      | Some (rows, _) \<Rightarrow>
          (let busy = (case rows of
                 [] \<Rightarrow> False
               | x # _ \<Rightarrow> list_ex (\<lambda>y. lr_message (lg_rows L y) = Some msg \<and> lr_inFlight (lg_rows L y))
                           (lg_bySession L (lr_sessionId (lg_rows L x)))) in
           L\<lparr>lg_awaiting := jset (lg_awaiting L) msg
               (rows, if busy then None else Some (le_now env + SEQ_WAIT_MS))\<rparr>))"

definition armRow :: "ledger_env \<Rightarrow> nat \<Rightarrow> ledger \<Rightarrow> ledger" where
  "armRow env rid L = (case lr_message (lg_rows L rid) of None \<Rightarrow> L | Some m \<Rightarrow> armSeqTimer env m L)"

definition awaitSeq :: "ledger_env \<Rightarrow> nat \<Rightarrow> ledger \<Rightarrow> ledger" where
  "awaitSeq env rid L =
     (case lr_message (lg_rows L rid) of
        None \<Rightarrow> L
      | Some msg \<Rightarrow>
          (let (rows, t) = (case jget (lg_awaiting L) msg of None \<Rightarrow> ([], None) | Some w \<Rightarrow> w);
               rows' = (if rid \<in> set rows then rows else rows @ [rid]) in
           armSeqTimer env msg (L\<lparr>lg_awaiting := jset (lg_awaiting L) msg (rows', t)\<rparr>)))"

definition unnumbered :: "ledger_env \<Rightarrow> lrow \<Rightarrow> bool" where
  "unnumbered env r \<longleftrightarrow> (case lr_message r of None \<Rightarrow> False | Some m \<Rightarrow> le_seqOf env m = None)"

definition persist :: "ledger_env \<Rightarrow> nat \<Rightarrow> ledger \<Rightarrow> ledger" where
  "persist env rid L =
     (let r = lg_rows L rid in
      if \<not> le_live env \<or> \<not> writesToDb env (lr_sessionId r) then L
      else if unnumbered env r then awaitSeq env rid L
      else writeRow env rid L)"

text \<open>The awaiting rows of a message are written: it got its number, or the wait is over.\<close>

definition releaseAwaiting :: "ledger_env \<Rightarrow> mref \<Rightarrow> ledger \<Rightarrow> ledger" where
  "releaseAwaiting env msg L =
     (case jget (lg_awaiting L) msg of
        None \<Rightarrow> L
      | Some (rows, _) \<Rightarrow>
          foldl (\<lambda>M rid. writeRow env rid M) (L\<lparr>lg_awaiting := jdel (lg_awaiting L) msg\<rparr>) rows)"

section \<open>The send window\<close>

record send_window =
  sw_lastCustomerAt :: "ms option"
  sw_closesAt :: "ms option"
  sw_used :: int
  sw_remaining :: int

fun windowStartFrom :: "chat_message list \<Rightarrow> ms option" where
  "windowStartFrom [] = None"
| "windowStartFrom (m # ms) =
     (if \<not> cm_customer m then windowStartFrom ms
      else case (cm_sentAt m, cm_at m) of
          (Some a, Some b) \<Rightarrow> Some (min a b)
        | (Some a, None) \<Rightarrow> Some a
        | (None, b) \<Rightarrow> b)"

text \<open>The loop runs from the newest message backwards.\<close>

definition windowStartOf :: "chat_message list \<Rightarrow> ms option" where
  "windowStartOf messages = windowStartFrom (rev messages)"

definition countedIn :: "ledger \<Rightarrow> ms \<Rightarrow> nat \<Rightarrow> bool" where
  "countedIn L from rid \<longleftrightarrow>
     from \<le> lr_lastAttemptAt (lg_rows L rid) \<and> lr_status (lg_rows L rid) \<in> set COUNTED"

definition sendWindow :: "ledger_env \<Rightarrow> ledger \<Rightarrow> string \<Rightarrow> ms \<Rightarrow> send_window" where
  "sendWindow env L0 sessionId now =
     (let L = ensureLoaded L0 in
      case Option.bind (le_session env sessionId) windowStartOf of
        None \<Rightarrow> \<lparr>sw_lastCustomerAt = None, sw_closesAt = None, sw_used = 0, sw_remaining = 0\<rparr>
      | Some lastAt \<Rightarrow>
          (let closesAt = lastAt + WINDOW_MS;
               used = int (length (filter (countedIn L lastAt) (lg_bySession L sessionId))) in
           \<lparr>sw_lastCustomerAt = Some lastAt, sw_closesAt = Some closesAt, sw_used = used,
            sw_remaining = (if now \<ge> closesAt then 0 else max 0 (WINDOW_SENDS - used))\<rparr>))"

definition followupWindowAllows :: "ledger_env \<Rightarrow> ledger \<Rightarrow> string \<Rightarrow> ms \<Rightarrow> bool" where
  "followupWindowAllows env L sessionId now =
     (let w = sendWindow env L sessionId now in
      case sw_closesAt w of
        None \<Rightarrow> False
      | Some c \<Rightarrow> sw_remaining w \<ge> FOLLOWUP_MIN_REMAINING \<and> c - now \<ge> FOLLOWUP_MIN_LEFT_MS)"

datatype human_reply_verdict =
  ReplyOk send_window
| ReplyWindowClosed "ms option" jstext
| ReplyQuotaExhausted "ms option" jstext

definition humanReplyVerdict :: "ledger_env \<Rightarrow> ledger \<Rightarrow> string \<Rightarrow> ms \<Rightarrow> human_reply_verdict" where
  "humanReplyVerdict env L sessionId now =
     (let w = sendWindow env L sessionId now in
      case sw_closesAt w of
        None \<Rightarrow> ReplyWindowClosed None WINDOW_CLOSED_TEXT
      | Some c \<Rightarrow>
          if now \<ge> c then ReplyWindowClosed (Some c) WINDOW_CLOSED_TEXT
          else if sw_remaining w \<le> 0 then ReplyQuotaExhausted (Some c) QUOTA_EXHAUSTED_TEXT
          else ReplyOk w)"

section \<open>Reading the rows of a message\<close>

definition rowsOf :: "ledger_env \<Rightarrow> ledger \<Rightarrow> string \<Rightarrow> mref \<Rightarrow> lrow list" where
  "rowsOf env L0 sessionId message =
     (let L = ensureLoaded L0; seq = le_seqOf env message in
      filter (\<lambda>r. \<not> lr_held r \<and>
          (lr_message r = Some message \<or> (lr_message r = None \<and> lr_seq r \<noteq> None \<and> lr_seq r = seq)))
        (map (lg_rows L) (lg_bySession L sessionId)))"

definition replyDelivered :: "ledger_env \<Rightarrow> ledger \<Rightarrow> string \<Rightarrow> mref \<Rightarrow> bool" where
  "replyDelivered env L sessionId message =
     list_ex (\<lambda>r. if lr_v2 r then lr_status r \<in> set COUNTED else lr_status r = OAccepted \<or> lr_status r = OUnknown)
       (rowsOf env L sessionId message)"

definition mayHaveDelivered :: "ledger_env \<Rightarrow> ledger \<Rightarrow> string \<Rightarrow> mref \<Rightarrow> bool" where
  "mayHaveDelivered env L sessionId message =
     list_ex (\<lambda>r. lr_status r \<in> set COUNTED) (rowsOf env L sessionId message)"

definition deliveryOf :: "ledger_env \<Rightarrow> ledger \<Rightarrow> string \<Rightarrow> mref \<Rightarrow> delivery_view option" where
  "deliveryOf env L sessionId message =
     deliveryOfSegments (map (\<lambda>r. (lr_status r, lr_failType r)) (rowsOf env L sessionId message))"

end
