(* ===== verification/LedgerOps.thy ===== *)
theory LedgerOps
  imports LedgerState
begin

text \<open>
  The send ledger in memory (\<open>src/quota/ledger.ts\<close>), second part: every handler that changes it.
  An asynchronous handler is split at its \<open>await\<close>: the synchronous part before it, the answer of the
  database as an argument, and the part after it. Random message ids are arguments.
\<close>

section \<open>Accounts of the old kind: one handle per segment\<close>

record send_handle =
  sh_row :: nat
  sh_session :: string
  sh_kind :: outbound_kind
  sh_done :: bool

text \<open>A held row is moved to the end of its session and becomes the first segment.\<close>

definition takeHold :: "mref \<Rightarrow> nat \<Rightarrow> outbound_kind \<Rightarrow> ms \<Rightarrow> ledger \<Rightarrow> ledger" where
  "takeHold message rid kind now L =
     setRow rid (\<lambda>r. r\<lparr>lr_kind := kind, lr_held := False, lr_sentAt := now, lr_lastAttemptAt := now\<rparr>)
       (removeRow rid (L\<lparr>lg_holds := jdel (lg_holds L) message\<rparr>))"

definition heldFor :: "ledger \<Rightarrow> string \<Rightarrow> mref option \<Rightarrow> nat option" where
  "heldFor L sessionId message =
     (case message of
        None \<Rightarrow> None
      | Some m \<Rightarrow>
          (case jget (lg_holds L) m of
             None \<Rightarrow> None
           | Some rid \<Rightarrow> if lr_sessionId (lg_rows L rid) = sessionId then Some rid else None))"

definition recordSend ::
    "ledger_env \<Rightarrow> ledger \<Rightarrow> string \<Rightarrow> outbound_kind \<Rightarrow> mref option \<Rightarrow> string \<Rightarrow> send_handle \<times> ledger" where
  "recordSend env L0 sessionId kind message newId =
     (let now = le_now env;
          L1 = prune sessionId now (ensureLoaded L0);
          (rid, L2) = (case heldFor L1 sessionId message of
              Some rid \<Rightarrow> (rid, takeHold (the message) rid kind now L1)
            | None \<Rightarrow> alloc (newRow sessionId kind message now newId) L1);
          L3 = armRow env rid (addRow rid L2) in
      (\<lparr>sh_row = rid, sh_session = sessionId, sh_kind = kind, sh_done = False\<rparr>, L3))"

definition accountKey :: "ledger_env \<Rightarrow> string \<Rightarrow> string" where
  "accountKey env sessionId =
     (case accountForSession (le_accounts env) sessionId None of None \<Rightarrow> ''env'' | Some a \<Rightarrow> ac_key a)"

definition handleAttempt :: "ledger_env \<Rightarrow> send_handle \<Rightarrow> ledger \<Rightarrow> ledger" where
  "handleAttempt env h L =
     (if \<not> le_live env \<or> sh_done h then L
      else setRow (sh_row h) (\<lambda>r. r\<lparr>lr_lastAttemptAt := le_now env\<rparr>) L)"

definition handleUnknown :: "ledger_env \<Rightarrow> send_handle \<Rightarrow> ledger \<Rightarrow> ledger" where
  "handleUnknown env h L =
     (if \<not> le_live env \<or> sh_done h \<or> lr_status (lg_rows L (sh_row h)) \<noteq> OPending then L
      else persist env (sh_row h) (setRow (sh_row h) (\<lambda>r. r\<lparr>lr_status := OUnknown\<rparr>) L))"

fun resultStatus :: "send_result \<Rightarrow> outbound_status" where
  "resultStatus RAccepted = OAccepted"
| "resultStatus RRejected = ORejected"
| "resultStatus RUnknown = OUnknown"

definition settleOld :: "send_result \<Rightarrow> int option \<Rightarrow> lrow \<Rightarrow> lrow" where
  "settleOld result errcode r0 =
     (let r = r0\<lparr>lr_inFlight := False\<rparr> in
      if lr_status r = OPending then r\<lparr>lr_status := resultStatus result, lr_errcode := errcode\<rparr>
      else if lr_status r = OUnknown \<and> result = RAccepted then r\<lparr>lr_status := OAccepted, lr_errcode := None\<rparr>
      else if lr_status r = OUnknown \<and> result = RUnknown then r\<lparr>lr_errcode := errcode\<rparr>
      else r)"

definition handleSettle ::
    "ledger_env \<Rightarrow> send_handle \<Rightarrow> send_result \<Rightarrow> int option \<Rightarrow> ledger \<Rightarrow> send_handle \<times> ledger" where
  "handleSettle env h result errcode L =
     (if \<not> le_live env \<or> sh_done h then (h, L)
      else
        (h\<lparr>sh_done := True\<rparr>,
         emit (EffSettled result errcode (sh_kind h) (accountKey env (sh_session h)))
           (persist env (sh_row h) (setRow (sh_row h) (settleOld result errcode) L))))"

definition handleDiscard :: "ledger_env \<Rightarrow> send_handle \<Rightarrow> ledger \<Rightarrow> send_handle \<times> ledger" where
  "handleDiscard env h L =
     (if \<not> le_live env \<or> sh_done h then (h, L)
      else
        (h\<lparr>sh_done := True\<rparr>,
         armRow env (sh_row h)
           (removeRow (sh_row h) (setRow (sh_row h) (\<lambda>r. r\<lparr>lr_inFlight := False\<rparr>) L))))"

text \<open>\<open>holdSend\<close> and the function it returns.\<close>

definition holdSend ::
    "ledger_env \<Rightarrow> ledger \<Rightarrow> string \<Rightarrow> outbound_kind \<Rightarrow> mref \<Rightarrow> string \<Rightarrow> nat \<times> ledger" where
  "holdSend env L0 sessionId kind message newId =
     (let (rid, L) = alloc ((newRow sessionId kind (Some message) (le_now env) newId)\<lparr>lr_held := True\<rparr>)
                       (ensureLoaded L0);
          L' = addRow rid L in
      (rid, L'\<lparr>lg_holds := jset (lg_holds L') message rid\<rparr>))"

definition releaseHold :: "mref \<Rightarrow> nat \<Rightarrow> ledger \<Rightarrow> ledger" where
  "releaseHold message rid L =
     (if jget (lg_holds L) message \<noteq> Some rid then L
      else removeRow rid (L\<lparr>lg_holds := jdel (lg_holds L) message\<rparr>))"

section \<open>Planning a group of segments\<close>

record outbound_intent =
  oi_msgid :: string
  oi_accountId :: "string option"
  oi_sessionId :: string
  oi_hasSession :: bool
  oi_inboxId :: "string option"
  oi_kind :: outbound_kind
  oi_segment :: nat
  oi_message :: "mref option"
  oi_payload :: "outbound_payload option"

datatype plan_problem =
  BadKind | NotDbAccount | BadSessionPrefix | NotSessionOwner | BadInboxId | ReplyWithoutSession
| TooManySegments | BadPayload payload_problem | NoGroup | SegmentsExhausted | BadMsgid

definition PLAN_KINDS :: "outbound_kind list" where
  "PLAN_KINDS = [KAi, KHuman, KFollowup, KNotice, KMenu, KWelcome]"

definition lowerHex :: "char \<Rightarrow> bool" where
  "lowerHex c \<longleftrightarrow> c \<in> set ''0123456789abcdef''"

definition anyHex :: "char \<Rightarrow> bool" where
  "anyHex c \<longleftrightarrow> c \<in> set ''0123456789abcdefABCDEF''"

definition UUID_RE :: "string \<Rightarrow> bool" where
  "UUID_RE s \<longleftrightarrow> length s = 36 \<and>
     list_all (\<lambda>(i, c). if i \<in> {8, 13, 18, 23} then c = CHR ''-'' else anyHex c) (zip [0..<36] s)"

definition MSGID_RE :: "string \<Rightarrow> bool" where
  "MSGID_RE s \<longleftrightarrow> length s = 32 \<and> list_all lowerHex s"

fun firstPayloadProblem :: "outbound_payload list \<Rightarrow> payload_problem option" where
  "firstPayloadProblem [] = None"
| "firstPayloadProblem (p # ps) =
     (case payloadProblem p of Some bad \<Rightarrow> Some bad | None \<Rightarrow> firstPayloadProblem ps)"

definition planProblem ::
    "ledger_env \<Rightarrow> channel_account \<Rightarrow> string \<Rightarrow> bool \<Rightarrow> outbound_kind \<Rightarrow> string option
     \<Rightarrow> outbound_payload list \<Rightarrow> plan_problem option" where
  "planProblem env account sessionId targetHasSession kind inboxId payloads =
     (if kind \<notin> set PLAN_KINDS then Some BadKind
      else if ac_kind account \<noteq> WecomKf \<or> ac_source account \<noteq> FromDb \<or> \<not> UUID_RE (ac_id account)
        then Some NotDbAccount
      else if (case ac_idPrefix account of None \<Rightarrow> True | Some p \<Rightarrow> p = [] \<or> \<not> prefix p sessionId)
        then Some BadSessionPrefix
      else if map_option ac_id (accountForSession (le_accounts env) sessionId
                (if hasSession env sessionId then le_channelAccountId env sessionId else None))
              \<noteq> Some (ac_id account)
        then Some NotSessionOwner
      else if (case inboxId of None \<Rightarrow> False | Some i \<Rightarrow> \<not> UUID_RE i) then Some BadInboxId
      else if inboxId \<noteq> None \<and> \<not> (targetHasSession \<and> hasSession env sessionId)
        then Some ReplyWithoutSession
      else if length payloads > SEGMENT_MAX then Some TooManySegments
      else map_option BadPayload (firstPayloadProblem payloads))"

definition intentOf :: "ledger_env \<Rightarrow> lrow \<Rightarrow> outbound_intent" where
  "intentOf env r = \<lparr>
     oi_msgid = lr_msgid r, oi_accountId = lr_accountId r, oi_sessionId = lr_sessionId r,
     oi_hasSession = hasSession env (lr_sessionId r), oi_inboxId = lr_inboxId r, oi_kind = lr_kind r,
     oi_segment = lr_segment r, oi_message = lr_message r, oi_payload = lr_payload r\<rparr>"

definition pendingSettled :: "ledger_env \<Rightarrow> nat \<Rightarrow> bool \<Rightarrow> ledger \<Rightarrow> ledger" where
  "pendingSettled env rid ok L =
     (if \<not> le_live env \<or> lr_commit (lg_rows L rid) = Some CommitDone then L
      else setRow rid (\<lambda>r. r\<lparr>lr_commit := Some (if ok then CommitDone else CommitFailed)\<rparr>) L)"

text \<open>The store reports the write objects of a committed transaction.\<close>

definition outboundCommitted :: "ledger_env \<Rightarrow> nat list \<Rightarrow> ledger \<Rightarrow> ledger" where
  "outboundCommitted env wids L =
     foldl (\<lambda>M wid. case jget (lg_pendingWrites M) wid of
         None \<Rightarrow> M
       | Some rid \<Rightarrow> pendingSettled env rid True M) L wids"

definition queueOutboundRows :: "ledger_env \<Rightarrow> string \<Rightarrow> bool" where
  "queueOutboundRows env sessionId \<longleftrightarrow> writesToDb env sessionId \<and> hasSession env sessionId"

definition pendingObject :: "ledger_env \<Rightarrow> nat list \<times> ledger \<Rightarrow> nat \<Rightarrow> nat list \<times> ledger" where
  "pendingObject env s rid =
     (let (wids, L) = s;
          (wid, L') = queueObject (writeShape env (lg_rows L rid) OPending) rid L in
      (wids @ [wid], L'\<lparr>lg_pendingWrites := jset (lg_pendingWrites L') wid rid\<rparr>))"

definition writePending :: "ledger_env \<Rightarrow> nat list \<Rightarrow> bool \<Rightarrow> ledger \<Rightarrow> ledger" where
  "writePending env rids hasSess L =
     (case rids of
        [] \<Rightarrow> L
      | first # _ \<Rightarrow>
          (let sessionId = lr_sessionId (lg_rows L first) in
           if \<not> writesToDb env sessionId
           then foldl (\<lambda>M rid. setRow rid (\<lambda>r. r\<lparr>lr_commit := Some CommitDone\<rparr>) M) L rids
           else
             (let (wids, L') = foldl (pendingObject env) ([], L) rids in
              if hasSess \<and> queueOutboundRows env sessionId
              then emit (EffQueueRows sessionId wids) L'
              else emit (EffWriteNow wids) L')))"

definition planFields ::
    "string \<Rightarrow> string option \<Rightarrow> nat \<Rightarrow> outbound_payload \<Rightarrow> lrow \<Rightarrow> lrow" where
  "planFields accountId inboxId segment payload r = r\<lparr>
     lr_v2 := True, lr_status := OPending, lr_inFlight := True, lr_accountId := Some accountId,
     lr_inboxId := inboxId, lr_segment := segment, lr_payload := Some payload, lr_attempts := 0,
     lr_commit := None\<rparr>"

text \<open>One turn of the loop over the payloads; the first segment takes the held row over.\<close>

definition planSegment ::
    "ledger_env \<Rightarrow> string \<Rightarrow> string \<Rightarrow> outbound_kind \<Rightarrow> mref option \<Rightarrow> string option \<Rightarrow> nat option
     \<Rightarrow> (nat \<Rightarrow> string) \<Rightarrow> nat list \<times> ledger \<Rightarrow> nat \<times> outbound_payload \<Rightarrow> nat list \<times> ledger" where
  "planSegment env accountId sessionId kind message inboxId held newId s sp =
     (let (rids, L) = s; (segment, payload) = sp; now = le_now env;
          (rid, L1) =
            (if segment = 0 \<and> held \<noteq> None \<and> MSGID_RE (lr_msgid (lg_rows L (the held)))
             then (the held, takeHold (the message) (the held) kind now L)
             else alloc (newRow sessionId kind message now (newId segment)) L);
          L2 = addRow rid (setRow rid (planFields accountId inboxId segment payload) L1) in
      (rids @ [rid], L2))"

definition planOutbound ::
    "ledger_env \<Rightarrow> ledger \<Rightarrow> channel_account \<Rightarrow> string \<Rightarrow> bool \<Rightarrow> outbound_kind \<Rightarrow> mref option
     \<Rightarrow> string option \<Rightarrow> outbound_payload list \<Rightarrow> (nat \<Rightarrow> string)
     \<Rightarrow> (plan_problem + outbound_intent list) \<times> ledger" where
  "planOutbound env L0 account sessionId targetHasSession kind message inboxId payloads newId =
     (let L1 = ensureLoaded L0 in
      case planProblem env account sessionId targetHasSession kind inboxId payloads of
        Some bad \<Rightarrow> (Inl bad, L1)
      | None \<Rightarrow>
          if payloads = [] then (Inr [], L1)
          else
            (let L2 = prune sessionId (le_now env) L1;
                 held = heldFor L2 sessionId message;
                 (rids, L3) = foldl (planSegment env (ac_id account) sessionId kind message inboxId held newId)
                                ([], L2) (enumerate 0 payloads);
                 L4 = (case message of None \<Rightarrow> L3 | Some m \<Rightarrow> armSeqTimer env m L3);
                 L5 = writePending env rids (targetHasSession \<and> hasSession env sessionId) L4;
                 L6 = (case inboxId of
                         Some i \<Rightarrow> if writesToDb env sessionId then emit (EffQueueReplied sessionId i) L5 else L5
                       | None \<Rightarrow> L5) in
             (Inr (map (\<lambda>rid. intentOf env (lg_rows L6 rid)) rids), L6)))"

text \<open>
  A segment added while sending (the text after a card that failed). The result of the synchronous
  part: nothing to send, a segment whose pending row needs no wait, or one that waits for its write.
\<close>

datatype commit_result = Committed | Timeout | Deferred

datatype runtime_plan =
  RuntimeNone
| RuntimeReady nat commit_result
| RuntimeWait nat nat

definition planRuntimeStart ::
    "ledger_env \<Rightarrow> ledger \<Rightarrow> outbound_intent list \<Rightarrow> outbound_payload \<Rightarrow> string option \<Rightarrow> string
     \<Rightarrow> (plan_problem + runtime_plan) \<times> ledger" where
  "planRuntimeStart env L grp payload msgid newId =
     (case grp of
        [] \<Rightarrow> (Inl NoGroup, L)
      | first # _ \<Rightarrow>
          (case jget (lg_byMsgid L) (oi_msgid first) of
             None \<Rightarrow> (Inl NoGroup, L)
           | Some base \<Rightarrow>
               if \<not> lr_v2 (lg_rows L base) then (Inl NoGroup, L)
               else if length grp \<ge> 32767 then (Inl SegmentsExhausted, L)
               else if payloadProblem payload \<noteq> None then (Inl (BadPayload (the (payloadProblem payload))), L)
               else if (case msgid of None \<Rightarrow> False | Some m \<Rightarrow> \<not> MSGID_RE m) then (Inl BadMsgid, L)
               else
                 (case Option.bind msgid (\<lambda>m. Option.bind (jget (lg_byMsgid L) m)
                          (\<lambda>k. if lr_v2 (lg_rows L k) then Some k else None)) of
                    Some known \<Rightarrow>
                      if lr_status (lg_rows L known) \<noteq> OPending \<and> lr_status (lg_rows L known) \<noteq> OSending
                      then (Inr RuntimeNone, L)
                      else
                        (let L' = setRow known (\<lambda>r. r\<lparr>lr_payload :=
                               (case lr_payload r of None \<Rightarrow> Some payload | Some p \<Rightarrow> Some p)\<rparr>) L in
                         (Inr (RuntimeReady known
                            (if lr_commit (lg_rows L known) = Some CommitDone then Committed else Timeout)), L'))
                  | None \<Rightarrow>
                      (let row = (newRow (oi_sessionId first) (oi_kind first) (oi_message first) (le_now env)
                                   (case msgid of None \<Rightarrow> newId | Some m \<Rightarrow> m))\<lparr>
                               lr_probe := msgid \<noteq> None,
                               lr_v2 := True,
                               lr_accountId := oi_accountId first,
                               lr_inboxId := oi_inboxId first,
                               lr_segment := Max (set (map oi_segment grp)) + 1,
                               lr_payload := Some payload\<rparr>;
                           (rid, L1) = alloc row L;
                           L2 = armRow env rid (addRow rid L1) in
                       if \<not> writesToDb env (lr_sessionId row)
                       then (Inr (RuntimeReady rid Committed), setRow rid (\<lambda>r. r\<lparr>lr_commit := Some CommitDone\<rparr>) L2)
                       else
                         (let (wid, L3) = queueObject (writeShape env (lg_rows L2 rid) OPending) rid L2 in
                          (Inr (RuntimeWait rid wid),
                           emit (EffWriteNow [wid])
                             (L3\<lparr>lg_pendingWrites := jset (lg_pendingWrites L3) wid rid\<rparr>)))))))"

definition planRuntimeEnd ::
    "ledger_env \<Rightarrow> nat \<Rightarrow> bool \<Rightarrow> ledger \<Rightarrow> (outbound_intent \<times> commit_result) option \<times> ledger" where
  "planRuntimeEnd env rid ok L =
     (if \<not> le_live env then (None, L)
      else
        (let L' = pendingSettled env rid ok L in
         (Some (intentOf env (lg_rows L' rid), if ok then Committed else Timeout), L')))"

section \<open>Waiting for the commit of a group\<close>

definition commitRows :: "ledger \<Rightarrow> outbound_intent list \<Rightarrow> nat list" where
  "commitRows L intents =
     filter (\<lambda>rid. lr_v2 (lg_rows L rid)) (List.map_filter (\<lambda>i. jget (lg_byMsgid L) (oi_msgid i)) intents)"

text \<open>\<open>None\<close>: deferred at once. Otherwise the rows, those still waiting, and the deadline.\<close>

definition commitStart ::
    "ledger_env \<Rightarrow> ledger \<Rightarrow> outbound_intent list \<Rightarrow> (nat list \<times> nat list \<times> ms option) option" where
  "commitStart env L intents =
     (let rows = commitRows L intents in
      if \<not> le_live env \<or> length rows \<noteq> length intents then None
      else
        (let waiting = filter (\<lambda>rid. lr_commit (lg_rows L rid) = None) rows in
         Some (rows, waiting,
           if waiting = [] then None
           else Some (Min (set (map (\<lambda>rid. lr_sentAt (lg_rows L rid)) rows)) + COMMIT_WAIT_MS))))"

definition commitEnd :: "ledger_env \<Rightarrow> ledger \<Rightarrow> nat list \<Rightarrow> bool \<Rightarrow> commit_result" where
  "commitEnd env L rows cancelled =
     (if cancelled \<or> \<not> le_live env then Deferred
      else if list_all (\<lambda>rid. lr_commit (lg_rows L rid) = Some CommitDone) rows then Committed
      else Timeout)"

section \<open>Sending\<close>

datatype mark_sending_result = MsMarked | MsNotPending | MsAbsent | MsDbUnavailable

definition finishRow :: "ledger_env \<Rightarrow> nat \<Rightarrow> ledger \<Rightarrow> ledger" where
  "finishRow env rid L = armRow env rid (setRow rid (\<lambda>r. r\<lparr>lr_inFlight := False\<rparr>) L)"

text \<open>The row of an intent, when the ledger has it and it is of the new kind.\<close>

definition v2Row :: "ledger \<Rightarrow> string \<Rightarrow> nat option" where
  "v2Row L msgid =
     (case jget (lg_byMsgid L) msgid of
        None \<Rightarrow> None
      | Some rid \<Rightarrow> if lr_v2 (lg_rows L rid) then Some rid else None)"

text \<open>Before the await: \<open>Inl\<close> is the final answer, \<open>Inr\<close> the row whose update is asked of the database.\<close>

definition markSendingStart ::
    "ledger_env \<Rightarrow> string \<Rightarrow> ledger \<Rightarrow> (mark_sending_result + nat) \<times> ledger" where
  "markSendingStart env msgid L =
     (case v2Row L msgid of
        None \<Rightarrow> (Inl MsAbsent, L)
      | Some rid \<Rightarrow>
          if \<not> le_live env then (Inl MsNotPending, L)
          else if \<not> writesToDb env (lr_sessionId (lg_rows L rid)) then
            (if \<not> canMoveOutbound (Some (lr_status (lg_rows L rid))) OSending [WMark] then (Inl MsNotPending, L)
             else (Inl MsMarked, setRow rid (\<lambda>r. r\<lparr>lr_status := OSending\<rparr>) L))
          else (Inr rid, L))"

definition markSendingEnd ::
    "ledger_env \<Rightarrow> nat \<Rightarrow> mark_sending_result \<Rightarrow> ledger \<Rightarrow> mark_sending_result \<times> ledger" where
  "markSendingEnd env rid res L =
     (if \<not> le_live env then (MsNotPending, L)
      else
        (let L1 = (if res = MsMarked \<and> canMoveOutbound (Some (lr_status (lg_rows L rid))) OSending [WMark]
                   then setRow rid (\<lambda>r. r\<lparr>lr_status := OSending\<rparr>) L else L);
             L2 = (if res = MsNotPending \<and> lr_probe (lg_rows L1 rid) \<and> lr_status (lg_rows L1 rid) = OPending
                   then removeRow rid (finishRow env rid L1) else L1) in
         (res, L2)))"

definition unmarkSendingEnd :: "ledger_env \<Rightarrow> nat \<Rightarrow> bool \<Rightarrow> ledger \<Rightarrow> bool \<times> ledger" where
  "unmarkSendingEnd env rid ok L =
     (if \<not> le_live env then (False, L)
      else
        (ok, if ok \<and> canMoveOutbound (Some (lr_status (lg_rows L rid))) OPending [WUnmark]
             then setRow rid (\<lambda>r. r\<lparr>lr_status := OPending\<rparr>) L else L))"

definition NO_MORE_SENDS :: "outbound_status list" where
  "NO_MORE_SENDS = [OAccepted, ORejected, OFailed, OCancelled]"

definition maySendAgain :: "ledger \<Rightarrow> string \<Rightarrow> bool" where
  "maySendAgain L msgid =
     (case jget (lg_byMsgid L) msgid of
        None \<Rightarrow> False
      | Some rid \<Rightarrow> lr_status (lg_rows L rid) \<notin> set NO_MORE_SENDS)"

definition noteAttempt :: "ledger_env \<Rightarrow> string \<Rightarrow> ledger \<Rightarrow> ledger" where
  "noteAttempt env msgid L =
     (case v2Row L msgid of
        None \<Rightarrow> L
      | Some rid \<Rightarrow>
          if \<not> le_live env then L
          else setRow rid (\<lambda>r. r\<lparr>lr_lastAttemptAt := le_now env, lr_attempts := lr_attempts r + 1\<rparr>) L)"

definition noteUnknown :: "ledger_env \<Rightarrow> string \<Rightarrow> int option \<Rightarrow> ledger \<Rightarrow> ledger" where
  "noteUnknown env msgid errcode L =
     (case v2Row L msgid of
        None \<Rightarrow> L
      | Some rid \<Rightarrow>
          if \<not> le_live env \<or> \<not> canMoveOutbound (Some (lr_status (lg_rows L rid))) OUnknown [WSettle] then L
          else persist env rid (setRow rid (\<lambda>r. r\<lparr>lr_status := OUnknown, lr_errcode := errcode\<rparr>) L))"

definition settleIntent ::
    "ledger_env \<Rightarrow> string \<Rightarrow> send_result \<Rightarrow> int option \<Rightarrow> nat \<Rightarrow> ledger \<Rightarrow> ledger" where
  "settleIntent env msgid result errcode attempts L =
     (case v2Row L msgid of
        None \<Rightarrow> L
      | Some rid \<Rightarrow>
          if \<not> le_live env then L
          else
            (let r = lg_rows L rid;
                 moved = canMoveOutbound (Some (lr_status r)) (resultStatus result) [WSettle];
                 L1 = setRow rid (\<lambda>r. r\<lparr>lr_attempts := max (lr_attempts r) attempts\<rparr>) L;
                 L2 = (if moved
                       then setRow rid (\<lambda>r. r\<lparr>lr_status := resultStatus result,
                              lr_errcode := (if result = RAccepted then None else errcode)\<rparr>) L1
                       else L1);
                 L3 = finishRow env rid L2;
                 L4 = (if moved then persist env rid L3 else L3) in
             if attempts > 0
             then emit (EffSettled result errcode (lr_kind r) (accountKey env (lr_sessionId r))) L4
             else L4))"

definition cancelOne :: "ledger_env \<Rightarrow> ledger \<Rightarrow> string \<Rightarrow> ledger" where
  "cancelOne env L msgid =
     (case v2Row L msgid of
        None \<Rightarrow> L
      | Some rid \<Rightarrow>
          if \<not> canMoveOutbound (Some (lr_status (lg_rows L rid))) OCancelled [WCancel] then L
          else
            (let L1 = finishRow env rid (setRow rid (\<lambda>r. r\<lparr>lr_status := OCancelled\<rparr>) L);
                 r = lg_rows L1 rid in
             if \<not> writesToDb env (lr_sessionId r) then L1
             else
               (let wid = length (lg_writes L1);
                    L2 = setRow rid (\<lambda>r. r\<lparr>lr_dbRow := Some wid\<rparr>)
                           (L1\<lparr>lg_writes := lg_writes L1 @ [writeShape env r OCancelled]\<rparr>) in
                if hasSession env (lr_sessionId r) \<and> queueOutboundRows env (lr_sessionId r)
                then emit (EffQueueRows (lr_sessionId r) [wid]) L2
                else emit (EffWriteNow [wid]) L2)))"

definition cancelIntents :: "ledger_env \<Rightarrow> string list \<Rightarrow> ledger \<Rightarrow> ledger" where
  "cancelIntents env msgids L = foldl (cancelOne env) L msgids"

definition cancelInboxIntents :: "ledger_env \<Rightarrow> string \<Rightarrow> ledger \<Rightarrow> ledger" where
  "cancelInboxIntents env inboxId L =
     cancelIntents env
       (map (\<lambda>rid. lr_msgid (lg_rows L rid))
         (filter (\<lambda>rid. let r = lg_rows L rid in
             lr_v2 r \<and> lr_inboxId r = Some inboxId \<and> (lr_status r = OPending \<or> lr_status r = OSending))
           (map snd (lg_byMsgid L)))) L"

section \<open>Start-up recovery\<close>

definition adoptRow :: "string \<Rightarrow> outbound_row \<Rightarrow> lrow \<Rightarrow> lrow" where
  "adoptRow accountId o' r = r\<lparr>
     lr_kind := os_kind o', lr_seq := os_messageSeq o', lr_status := os_status o', lr_inFlight := True,
     lr_inDb := True, lr_v2 := True,
     lr_accountId := (case os_accountId o' of None \<Rightarrow> Some accountId | Some a \<Rightarrow> Some a),
     lr_inboxId := os_inboxId o', lr_segment := os_segment o', lr_payload := os_payload o',
     lr_attempts := os_attempts o', lr_commit := Some CommitDone\<rparr>"

definition adoptOne ::
    "ledger_env \<Rightarrow> string \<Rightarrow> outbound_intent list \<times> ledger \<Rightarrow> string \<times> outbound_row
     \<Rightarrow> outbound_intent list \<times> ledger" where
  "adoptOne env accountId s p =
     (let (out, L) = s; (msgid, o') = p;
          (rid, L1) = (case jget (lg_byMsgid L) msgid of
              Some rid \<Rightarrow> (rid, L)
            | None \<Rightarrow>
                (case alloc (newRow (os_conversationId o') (os_kind o') None (os_sentAt o') msgid) L of
                   (rid, L') \<Rightarrow> (rid, addRow rid L')));
          L2 = setRow rid (adoptRow accountId o') L1 in
      (out @ [intentOf env (lg_rows L2 rid)], L2))"

definition adoptOpenOutbound ::
    "ledger_env \<Rightarrow> ledger \<Rightarrow> string \<Rightarrow> (string \<times> outbound_row) list \<Rightarrow> outbound_intent list \<times> ledger" where
  "adoptOpenOutbound env L accountId rows = foldl (adoptOne env accountId) ([], ensureLoaded L) rows"

definition recoverAsUnknown :: "ledger_env \<Rightarrow> string \<Rightarrow> ledger \<Rightarrow> ledger" where
  "recoverAsUnknown env msgid L =
     (case v2Row L msgid of
        None \<Rightarrow> L
      | Some rid \<Rightarrow>
          if \<not> canMoveOutbound (Some (lr_status (lg_rows L rid))) OUnknown [WRecover] then L
          else persist env rid (finishRow env rid (setRow rid (\<lambda>r. r\<lparr>lr_status := OUnknown\<rparr>) L)))"

definition pendingIntentsOfInbox :: "ledger_env \<Rightarrow> ledger \<Rightarrow> string \<Rightarrow> outbound_intent list" where
  "pendingIntentsOfInbox env L inboxId =
     map (intentOf env)
       (sort_key lr_segment
         (filter (\<lambda>r. lr_v2 r \<and> lr_inboxId r = Some inboxId \<and> lr_status r = OPending)
           (map (\<lambda>e. lg_rows L (snd e)) (lg_byMsgid L))))"

section \<open>Sends without a stored row\<close>

definition noteUnsafeSend :: "ledger_env \<Rightarrow> ledger \<Rightarrow> ledger" where
  "noteUnsafeSend env L =
     (let t = le_now env;
          at = dropWhile (\<lambda>x. t - x \<ge> UNSAFE_WINDOW_MS) (lg_unsafeAt L) @ [t] in
      emit (EffUnsafe (length at)) (L\<lparr>lg_unsafeAt := at\<rparr>))"

definition unsafeSendsIn10m :: "ledger \<Rightarrow> ms \<Rightarrow> nat" where
  "unsafeSendsIn10m L now = length (filter (\<lambda>x. now - x < UNSAFE_WINDOW_MS) (lg_unsafeAt L))"

section \<open>Delivery-failure receipts\<close>

text \<open>What the receipt decides in its synchronous part about the database.\<close>

record receipt_plan =
  rp_toDb :: bool
  rp_explainHit :: bool
  rp_waitFor :: "string option"
  rp_full :: "outbound_write option"

definition explain :: "ledger_env \<Rightarrow> string \<Rightarrow> int \<Rightarrow> ledger \<Rightarrow> ledger" where
  "explain env sessionId failType L =
     (if hasSession env sessionId then emit (EffExplain sessionId failType) L else L)"

definition failQueued :: "lrow \<Rightarrow> int \<Rightarrow> ledger \<Rightarrow> ledger" where
  "failQueued r failType L =
     (case lr_dbRow r of
        None \<Rightarrow> L
      | Some wid \<Rightarrow> L\<lparr>lg_writes := (lg_writes L)[wid := (lg_writes L ! wid)\<lparr>
          ow_status := OFailed, ow_failType := Some failType,
          ow_payload := (if lr_v2 r then None else ow_payload (lg_writes L ! wid))\<rparr>]\<rparr>)"

definition receiptMoves :: "lrow \<Rightarrow> bool" where
  "receiptMoves r \<longleftrightarrow> lr_status r \<noteq> OFailed \<and>
     (\<not> lr_v2 r \<or> canMoveOutbound (Some (lr_status r)) OFailed [WReceipt])"

definition receiptMove :: "ledger_env \<Rightarrow> nat \<Rightarrow> int \<Rightarrow> ledger \<Rightarrow> ledger" where
  "receiptMove env rid failType L =
     (let L1 = setRow rid (\<lambda>r. r\<lparr>lr_status := OFailed, lr_failType := Some failType\<rparr>) L;
          r = lg_rows L1 rid;
          L2 = (if lr_v2 r then finishRow env rid L1 else L1);
          L3 = explain env (lr_sessionId r) failType (failQueued r failType L2) in
      if lr_v2 r \<and> unnumbered env r \<and> writesToDb env (lr_sessionId r) then awaitSeq env rid L3 else L3)"

definition receiptStart ::
    "ledger_env \<Rightarrow> string \<Rightarrow> int \<Rightarrow> ledger \<Rightarrow> receipt_plan \<times> ledger" where
  "receiptStart env msgid failType L0 =
     (let L = ensureLoaded L0 in
      case jget (lg_byMsgid L) msgid of
        None \<Rightarrow> (\<lparr>rp_toDb = le_dbMode env, rp_explainHit = le_dbMode env, rp_waitFor = None, rp_full = None\<rparr>, L)
      | Some rid \<Rightarrow>
          (let moves = receiptMoves (lg_rows L rid);
               L1 = (if moves then receiptMove env rid failType L else L);
               r = lg_rows L1 rid;
               inDb = writesToDb env (lr_sessionId r);
               old = moves \<and> \<not> lr_v2 r \<and> lr_inDb r \<and> inDb;
               new = lr_v2 r \<and> inDb \<and> lr_status r = OFailed in
           (\<lparr>rp_toDb = (old \<or> new), rp_explainHit = False,
             rp_waitFor = (if (old \<or> new) \<and> lr_dbRow r \<noteq> None then Some (lr_sessionId r) else None),
             rp_full = (if new then Some (writeShape env r OFailed) else None)\<rparr>, L1)))"

text \<open>
  \<open>markFailedInDb\<close>: the answers of the short transaction, one per try; a try that committed ends the
  loop, and the session of a row that was not in memory gets its note then.
\<close>

definition receiptDelays :: "string option \<Rightarrow> ms list" where
  "receiptDelays inboxId = (if inboxId = None then [1000] else [1000, 5000, 30000])"

fun markFailedTries ::
    "ledger_env \<Rightarrow> int \<Rightarrow> bool \<Rightarrow> nat \<Rightarrow> (string option) option list \<Rightarrow> ledger \<Rightarrow> bool \<times> ledger" where
  "markFailedTries env failType explainHit left [] L = (False, L)"
| "markFailedTries env failType explainHit left (a # as) L =
     (if \<not> le_live env then (False, L)
      else case a of
        Some hit \<Rightarrow>
          (True, (case hit of
             Some sessionId \<Rightarrow> if explainHit then explain env sessionId failType L else L
           | None \<Rightarrow> L))
      | None \<Rightarrow>
          (case left of
             0 \<Rightarrow> (False, L)
           | Suc n \<Rightarrow> markFailedTries env failType explainHit n as L))"

definition receiptEnd ::
    "ledger_env \<Rightarrow> receipt_plan \<Rightarrow> int \<Rightarrow> string option \<Rightarrow> (string option) option list \<Rightarrow> ledger \<Rightarrow> ledger" where
  "receiptEnd env plan failType inboxId answers L =
     (if \<not> rp_toDb plan
      then (case inboxId of None \<Rightarrow> L | Some i \<Rightarrow> emit (EffInboxDone i) L)
      else if \<not> le_live env then L
      else snd (markFailedTries env failType (rp_explainHit plan) (length (receiptDelays inboxId)) answers L))"

end
