(* ===== verification/LedgerFacts.thy ===== *)
theory LedgerFacts
  imports LedgerOps
begin

text \<open>
  An abstract view of the send ledger and how every handler acts on it. The view keeps the indexes
  and, per row, what decides sending: session, message id, kind of account, status, payload, place in
  its group, and the instant of the last attempt. Everything else (timers, queued write objects,
  the log) is bookkeeping that the view forgets: the helpers that only do bookkeeping are the
  identity on it, and the others act as five small operations on it.
\<close>

section \<open>The view\<close>

record row_view =
  rv_sessionId :: string
  rv_msgid :: string
  rv_kind :: outbound_kind
  rv_v2 :: bool
  rv_status :: outbound_status
  rv_payload :: "outbound_payload option"
  rv_segment :: nat
  rv_lastAttemptAt :: ms

record ledger_view =
  vw_next :: nat
  vw_bySession :: "string \<Rightarrow> nat list"
  vw_byMsgid :: "(string, nat) jsmap"
  vw_holds :: "(mref, nat) jsmap"
  vw_preload :: "(string \<times> (string \<times> outbound_row) list) list"
  vw_row :: "nat \<Rightarrow> row_view"

definition rowView :: "lrow \<Rightarrow> row_view" where
  "rowView r = \<lparr>rv_sessionId = lr_sessionId r, rv_msgid = lr_msgid r, rv_kind = lr_kind r, rv_v2 = lr_v2 r,
     rv_status = lr_status r, rv_payload = lr_payload r, rv_segment = lr_segment r,
     rv_lastAttemptAt = lr_lastAttemptAt r\<rparr>"

definition view :: "ledger \<Rightarrow> ledger_view" where
  "view L = \<lparr>vw_next = lg_next L, vw_bySession = lg_bySession L, vw_byMsgid = lg_byMsgid L,
     vw_holds = lg_holds L, vw_preload = lg_preload L, vw_row = (\<lambda>x. rowView (lg_rows L x))\<rparr>"

definition vSet :: "nat \<Rightarrow> row_view \<Rightarrow> ledger_view \<Rightarrow> ledger_view" where
  "vSet rid r V = V\<lparr>vw_row := (vw_row V)(rid := r)\<rparr>"

definition vAlloc :: "row_view \<Rightarrow> ledger_view \<Rightarrow> ledger_view" where
  "vAlloc r V = V\<lparr>vw_row := (vw_row V)(vw_next V := r), vw_next := Suc (vw_next V)\<rparr>"

definition vAdd :: "nat \<Rightarrow> ledger_view \<Rightarrow> ledger_view" where
  "vAdd rid V =
     (let r = vw_row V rid in
      V\<lparr>vw_bySession := (vw_bySession V)(rv_sessionId r := vw_bySession V (rv_sessionId r) @ [rid]),
        vw_byMsgid := jset (vw_byMsgid V) (rv_msgid r) rid\<rparr>)"

definition vRemove :: "nat \<Rightarrow> ledger_view \<Rightarrow> ledger_view" where
  "vRemove rid V =
     (let r = vw_row V rid in
      V\<lparr>vw_byMsgid := jdel (vw_byMsgid V) (rv_msgid r),
        vw_bySession := (vw_bySession V)
          (rv_sessionId r := filter (\<lambda>x. x \<noteq> rid) (vw_bySession V (rv_sessionId r)))\<rparr>)"

text \<open>Reading the ledger is reading its view.\<close>

lemma to_view [row_simps]:
  "lg_next L = vw_next (view L)" "lg_bySession L = vw_bySession (view L)"
  "lg_byMsgid L = vw_byMsgid (view L)" "lg_holds L = vw_holds (view L)"
  "lg_preload L = vw_preload (view L)"
  "lr_sessionId (lg_rows L x) = rv_sessionId (vw_row (view L) x)"
  "lr_msgid (lg_rows L x) = rv_msgid (vw_row (view L) x)"
  "lr_kind (lg_rows L x) = rv_kind (vw_row (view L) x)"
  "lr_v2 (lg_rows L x) = rv_v2 (vw_row (view L) x)"
  "lr_status (lg_rows L x) = rv_status (vw_row (view L) x)"
  "lr_payload (lg_rows L x) = rv_payload (vw_row (view L) x)"
  "lr_segment (lg_rows L x) = rv_segment (vw_row (view L) x)"
  "lr_lastAttemptAt (lg_rows L x) = rv_lastAttemptAt (vw_row (view L) x)"
  by (simp_all add: view_def rowView_def)

lemma rowView_lg_rows [row_simps]: "rowView (lg_rows L x) = vw_row (view L) x"
  by (simp add: view_def)

lemma rowView_updates [row_simps]:
  "rowView (r\<lparr>lr_kind := k\<rparr>) = (rowView r)\<lparr>rv_kind := k\<rparr>"
  "rowView (r\<lparr>lr_v2 := b\<rparr>) = (rowView r)\<lparr>rv_v2 := b\<rparr>"
  "rowView (r\<lparr>lr_status := s\<rparr>) = (rowView r)\<lparr>rv_status := s\<rparr>"
  "rowView (r\<lparr>lr_payload := p\<rparr>) = (rowView r)\<lparr>rv_payload := p\<rparr>"
  "rowView (r\<lparr>lr_segment := n\<rparr>) = (rowView r)\<lparr>rv_segment := n\<rparr>"
  "rowView (r\<lparr>lr_lastAttemptAt := t\<rparr>) = (rowView r)\<lparr>rv_lastAttemptAt := t\<rparr>"
  "rowView (r\<lparr>lr_message := m\<rparr>) = rowView r"
  "rowView (r\<lparr>lr_seq := q\<rparr>) = rowView r"
  "rowView (r\<lparr>lr_sentAt := t\<rparr>) = rowView r"
  "rowView (r\<lparr>lr_errcode := e\<rparr>) = rowView r"
  "rowView (r\<lparr>lr_failType := e\<rparr>) = rowView r"
  "rowView (r\<lparr>lr_inFlight := b\<rparr>) = rowView r"
  "rowView (r\<lparr>lr_held := b\<rparr>) = rowView r"
  "rowView (r\<lparr>lr_dbRow := d\<rparr>) = rowView r"
  "rowView (r\<lparr>lr_inDb := b\<rparr>) = rowView r"
  "rowView (r\<lparr>lr_accountId := a\<rparr>) = rowView r"
  "rowView (r\<lparr>lr_inboxId := i\<rparr>) = rowView r"
  "rowView (r\<lparr>lr_attempts := n\<rparr>) = rowView r"
  "rowView (r\<lparr>lr_commit := c\<rparr>) = rowView r"
  "rowView (r\<lparr>lr_probe := b\<rparr>) = rowView r"
  by (simp_all add: rowView_def)

section \<open>Primitive operations on the view\<close>

lemma view_setRow [row_simps]: "view (setRow rid f L) = vSet rid (rowView (f (lg_rows L rid))) (view L)"
  by (simp add: view_def setRow_def vSet_def fun_eq_iff)

lemma vSet_same [simp]: "vSet rid (vw_row V rid) V = V"
  by (simp add: vSet_def)

lemma view_alloc [row_simps]: "view (snd (alloc r L)) = vAlloc (rowView r) (view L)" "fst (alloc r L) = vw_next (view L)"
  by (simp_all add: view_def alloc_def vAlloc_def fun_eq_iff)

lemma view_addRow [row_simps]: "view (addRow rid L) = vAdd rid (view L)"
  by (simp add: view_def addRow_def vAdd_def Let_def rowView_def)

lemma view_removeRow [row_simps]: "view (removeRow rid L) = vRemove rid (view L)"
  by (simp add: view_def removeRow_def vRemove_def Let_def rowView_def)

lemma view_fields [simp]:
  "view (L\<lparr>lg_writes := w\<rparr>) = view L" "view (L\<lparr>lg_awaiting := a\<rparr>) = view L"
  "view (L\<lparr>lg_pendingWrites := p\<rparr>) = view L" "view (L\<lparr>lg_unsafeAt := u\<rparr>) = view L"
  "view (L\<lparr>lg_log := l\<rparr>) = view L"
  "view (L\<lparr>lg_holds := h\<rparr>) = (view L)\<lparr>vw_holds := h\<rparr>"
  "view (L\<lparr>lg_preload := q\<rparr>) = (view L)\<lparr>vw_preload := q\<rparr>"
  by (simp_all add: view_def)

section \<open>Bookkeeping is invisible\<close>

lemma view_emit [simp]: "view (emit e L) = view L"
  by (simp add: emit_def)

lemma view_queueObject [simp]: "view (snd (queueObject w rid L)) = view L"
  by (simp add: queueObject_def Let_def row_simps)

lemma view_writeRow [simp]: "view (writeRow env rid L) = view L"
  by (simp add: writeRow_def Let_def case_prod_beta)

lemma view_armSeqTimer [simp]: "view (armSeqTimer env m L) = view L"
  by (simp add: armSeqTimer_def Let_def split: option.splits)

lemma view_armRow [simp]: "view (armRow env rid L) = view L"
  by (simp add: armRow_def split: option.splits)

lemma view_awaitSeq [simp]: "view (awaitSeq env rid L) = view L"
  by (simp add: awaitSeq_def Let_def case_prod_beta split: option.splits)

lemma view_persist [simp]: "view (persist env rid L) = view L"
  by (simp add: persist_def Let_def)

lemma view_explain [simp]: "view (explain env s t L) = view L"
  by (simp add: explain_def)

lemma view_failQueued [simp]: "view (failQueued r t L) = view L"
  by (simp add: failQueued_def split: option.splits)

lemma view_finishRow [simp]: "view (finishRow env rid L) = view L"
  by (simp add: finishRow_def row_simps)

lemma view_pendingSettled [simp]: "view (pendingSettled env rid ok L) = view L"
  by (simp add: pendingSettled_def row_simps)

lemma view_foldl_writeRow [simp]: "view (foldl (\<lambda>M x. writeRow env x M) L rids) = view L"
  by (induction rids arbitrary: L) simp_all

lemma view_releaseAwaiting [simp]: "view (releaseAwaiting env m L) = view L"
  by (simp add: releaseAwaiting_def split: option.splits)

lemma view_outboundCommitted [simp]: "view (outboundCommitted env wids L) = view L"
  unfolding outboundCommitted_def by (induction wids arbitrary: L) (simp_all split: option.splits)

lemma view_pendingObjects [simp]: "view (snd (foldl (pendingObject env) s rids)) = view (snd s)"
  by (induction rids arbitrary: s) (simp_all add: pendingObject_def case_prod_beta Let_def)

lemma view_commitAll [simp]:
  "view (foldl (\<lambda>M x. setRow x (\<lambda>r. r\<lparr>lr_commit := c\<rparr>) M) L rids) = view L"
  by (induction rids arbitrary: L) (simp_all add: row_simps)

lemma view_writePending [simp]: "view (writePending env rids b L) = view L"
  by (simp add: writePending_def Let_def case_prod_beta split: list.splits)

lemma view_noteUnsafeSend [simp]: "view (noteUnsafeSend env L) = view L"
  by (simp add: noteUnsafeSend_def Let_def)

lemma view_markFailedTries [simp]:
  "view (snd (markFailedTries env t b n answers L)) = view L"
  by (induction env t b n answers L rule: markFailedTries.induct) (auto split: option.splits nat.splits)

lemma view_receiptEnd [simp]: "view (receiptEnd env plan t i answers L) = view L"
  by (simp add: receiptEnd_def split: option.splits)

section \<open>Handlers on the view\<close>

definition vTakeHold :: "mref \<Rightarrow> nat \<Rightarrow> outbound_kind \<Rightarrow> ms \<Rightarrow> ledger_view \<Rightarrow> ledger_view" where
  "vTakeHold m rid kind now V =
     (let V' = vRemove rid (V\<lparr>vw_holds := jdel (vw_holds V) m\<rparr>) in
      vSet rid ((vw_row V' rid)\<lparr>rv_kind := kind, rv_lastAttemptAt := now\<rparr>) V')"

lemma view_takeHold [row_simps]: "view (takeHold m rid kind now L) = vTakeHold m rid kind now (view L)"
  by (simp add: takeHold_def vTakeHold_def Let_def row_simps)

lemma rowView_newRow [row_simps]:
  "rowView (newRow s k m now i) = \<lparr>rv_sessionId = s, rv_msgid = i, rv_kind = k, rv_v2 = False, rv_status = OPending,
     rv_payload = None, rv_segment = 0, rv_lastAttemptAt = now\<rparr>"
  by (simp add: rowView_def newRow_def)

lemma rowView_planFields [row_simps]:
  "rowView (planFields a i n p r) =
     (rowView r)\<lparr>rv_v2 := True, rv_status := OPending, rv_segment := n, rv_payload := Some p\<rparr>"
  by (simp add: planFields_def rowView_def)

lemma rowView_adoptRow [row_simps]:
  "rowView (adoptRow a o' r) = (rowView r)\<lparr>rv_kind := os_kind o', rv_status := os_status o', rv_v2 := True,
     rv_segment := os_segment o', rv_payload := os_payload o'\<rparr>"
  by (simp add: adoptRow_def rowView_def)

lemma rowView_settleOld [row_simps]:
  "rowView (settleOld res e r) = (rowView r)\<lparr>rv_status :=
     (if rv_status (rowView r) = OPending then resultStatus res
      else if rv_status (rowView r) = OUnknown \<and> res = RAccepted then OAccepted
      else rv_status (rowView r))\<rparr>"
  by (auto simp: settleOld_def rowView_def Let_def)

lemma v2Row_Some: "v2Row L m = Some x \<longleftrightarrow> jget (lg_byMsgid L) m = Some x \<and> lr_v2 (lg_rows L x)"
  by (auto simp: v2Row_def split: option.splits)

end
