(* ===== verification/LedgerSteps.thy ===== *)
theory LedgerSteps
  imports LedgerFacts
begin

text \<open>
  All handlers of the send ledger as events, the consistency of its indexes over every run, and the
  rule that a row of the new kind only changes status along the transition table. Both are proved on
  the view, one lemma per operation.
\<close>

section \<open>Events\<close>

datatype ledger_event =
  EvLoad "(string \<times> (string \<times> outbound_row) list) list"
| EvRecord string outbound_kind "mref option" string
| EvAttempt send_handle
| EvHandleUnknown send_handle
| EvHandleSettle send_handle send_result "int option"
| EvDiscard send_handle
| EvHold string outbound_kind mref string
| EvReleaseHold mref nat
| EvPlan channel_account string bool outbound_kind "mref option" "string option" "outbound_payload list" "nat \<Rightarrow> string"
| EvRuntime "outbound_intent list" outbound_payload "string option" string
| EvRuntimeEnd nat bool
| EvPendingSettled nat bool
| EvCommitted "nat list"
| EvMark string
| EvMarkEnd nat mark_sending_result
| EvUnmarkEnd nat bool
| EvNoteAttempt string
| EvNoteUnknown string "int option"
| EvSettle string send_result "int option" nat
| EvCancel "string list"
| EvCancelInbox string
| EvAdopt string "(string \<times> outbound_row) list"
| EvRecover string
| EvUnsafe
| EvReceipt string int
| EvReceiptEnd receipt_plan int "string option" "(string option) option list"
| EvNumbered mref

fun ledger_step :: "ledger \<Rightarrow> ledger_env \<times> ledger_event \<Rightarrow> ledger" where
  "ledger_step L (env, EvLoad pre) = ensureLoaded (L\<lparr>lg_preload := pre\<rparr>)"
| "ledger_step L (env, EvRecord s k m i) = snd (recordSend env L s k m i)"
| "ledger_step L (env, EvAttempt h) = handleAttempt env h L"
| "ledger_step L (env, EvHandleUnknown h) = handleUnknown env h L"
| "ledger_step L (env, EvHandleSettle h r e) = snd (handleSettle env h r e L)"
| "ledger_step L (env, EvDiscard h) = snd (handleDiscard env h L)"
| "ledger_step L (env, EvHold s k m i) = snd (holdSend env L s k m i)"
| "ledger_step L (env, EvReleaseHold m x) = releaseHold m x L"
| "ledger_step L (env, EvPlan a s b k m i ps f) = snd (planOutbound env L a s b k m i ps f)"
| "ledger_step L (env, EvRuntime g p m i) = snd (planRuntimeStart env L g p m i)"
| "ledger_step L (env, EvRuntimeEnd x ok) = snd (planRuntimeEnd env x ok L)"
| "ledger_step L (env, EvPendingSettled x ok) = pendingSettled env x ok L"
| "ledger_step L (env, EvCommitted ws) = outboundCommitted env ws L"
| "ledger_step L (env, EvMark m) = snd (markSendingStart env m L)"
| "ledger_step L (env, EvMarkEnd x r) = snd (markSendingEnd env x r L)"
| "ledger_step L (env, EvUnmarkEnd x ok) = snd (unmarkSendingEnd env x ok L)"
| "ledger_step L (env, EvNoteAttempt m) = noteAttempt env m L"
| "ledger_step L (env, EvNoteUnknown m e) = noteUnknown env m e L"
| "ledger_step L (env, EvSettle m r e n) = settleIntent env m r e n L"
| "ledger_step L (env, EvCancel ms) = cancelIntents env ms L"
| "ledger_step L (env, EvCancelInbox i) = cancelInboxIntents env i L"
| "ledger_step L (env, EvAdopt a rows) = snd (adoptOpenOutbound env L a rows)"
| "ledger_step L (env, EvRecover m) = recoverAsUnknown env m L"
| "ledger_step L (env, EvUnsafe) = noteUnsafeSend env L"
| "ledger_step L (env, EvReceipt m t) = snd (receiptStart env m t L)"
| "ledger_step L (env, EvReceiptEnd p t i as) = receiptEnd env p t i as L"
| "ledger_step L (env, EvNumbered m) = releaseAwaiting env m L"

definition emptyLedger :: ledger where
  "emptyLedger = \<lparr>lg_rows = (\<lambda>_. newRow [] KAi None 0 []), lg_next = 0, lg_bySession = (\<lambda>_. []),
     lg_byMsgid = [], lg_holds = [], lg_awaiting = [], lg_writes = [], lg_pendingWrites = [],
     lg_preload = [], lg_unsafeAt = [], lg_log = []\<rparr>"

section \<open>Consistency of the indexes\<close>

definition vWf :: "ledger_view \<Rightarrow> bool" where
  "vWf V \<longleftrightarrow> jwf (vw_byMsgid V) \<and> jwf (vw_holds V) \<and>
     (\<forall>m x. jget (vw_byMsgid V) m = Some x \<longrightarrow>
        x < vw_next V \<and> rv_msgid (vw_row V x) = m \<and> x \<in> set (vw_bySession V (rv_sessionId (vw_row V x)))) \<and>
     (\<forall>s. distinct (vw_bySession V s)) \<and>
     (\<forall>s x. x \<in> set (vw_bySession V s) \<longrightarrow> x < vw_next V \<and> rv_sessionId (vw_row V x) = s) \<and>
     (\<forall>m x. jget (vw_holds V) m = Some x \<longrightarrow> x < vw_next V)"

lemma vWfI:
  assumes "jwf (vw_byMsgid V)" "jwf (vw_holds V)"
    and "\<And>m x. jget (vw_byMsgid V) m = Some x \<Longrightarrow>
        x < vw_next V \<and> rv_msgid (vw_row V x) = m \<and> x \<in> set (vw_bySession V (rv_sessionId (vw_row V x)))"
    and "\<And>s. distinct (vw_bySession V s)"
    and "\<And>s x. x \<in> set (vw_bySession V s) \<Longrightarrow> x < vw_next V \<and> rv_sessionId (vw_row V x) = s"
    and "\<And>m x. jget (vw_holds V) m = Some x \<Longrightarrow> x < vw_next V"
  shows "vWf V"
  using assms by (simp add: vWf_def)

lemma vWfD:
  assumes "vWf V"
  shows "jwf (vw_byMsgid V)" "jwf (vw_holds V)"
    "jget (vw_byMsgid V) m = Some x \<Longrightarrow> x < vw_next V"
    "jget (vw_byMsgid V) m = Some x \<Longrightarrow> rv_msgid (vw_row V x) = m"
    "jget (vw_byMsgid V) m = Some x \<Longrightarrow> x \<in> set (vw_bySession V (rv_sessionId (vw_row V x)))"
    "distinct (vw_bySession V s)"
    "x \<in> set (vw_bySession V s) \<Longrightarrow> x < vw_next V"
    "x \<in> set (vw_bySession V s) \<Longrightarrow> rv_sessionId (vw_row V x) = s"
    "jget (vw_holds V) n = Some x \<Longrightarrow> x < vw_next V"
  using assms by (simp_all add: vWf_def)

lemma vWf_vSet:
  "vWf V \<Longrightarrow> rv_sessionId r = rv_sessionId (vw_row V x) \<Longrightarrow> rv_msgid r = rv_msgid (vw_row V x) \<Longrightarrow> vWf (vSet x r V)"
  by (simp add: vWf_def vSet_def)

lemma vWf_vAlloc: "vWf V \<Longrightarrow> vWf (vAlloc r V)"
  unfolding vWf_def vAlloc_def by (auto simp: less_Suc_eq)

lemma vWf_vRemove:
  assumes wf: "vWf V"
  shows "vWf (vRemove x V)"
proof (rule vWfI)
  fix m y assume "jget (vw_byMsgid (vRemove x V)) m = Some y"
  then have y: "jget (vw_byMsgid V) m = Some y" and m: "m \<noteq> rv_msgid (vw_row V x)"
    using vWfD(1) [OF wf] by (auto simp: vRemove_def Let_def split: if_splits)
  note D = vWfD(3-5) [OF wf y]
  moreover from D m have "y \<noteq> x" by blast
  ultimately show "y < vw_next (vRemove x V) \<and> rv_msgid (vw_row (vRemove x V) y) = m \<and>
      y \<in> set (vw_bySession (vRemove x V) (rv_sessionId (vw_row (vRemove x V) y)))"
    by (auto simp: vRemove_def Let_def)
next
  fix s y assume "y \<in> set (vw_bySession (vRemove x V) s)"
  then have "y \<in> set (vw_bySession V s)" by (simp add: vRemove_def Let_def split: if_splits)
  then show "y < vw_next (vRemove x V) \<and> rv_sessionId (vw_row (vRemove x V) y) = s"
    using vWfD(7,8) [OF wf] by (simp add: vRemove_def Let_def)
qed (use wf in \<open>auto simp: vRemove_def Let_def vWfD\<close>)

lemma vWf_vAdd: "vWf V \<Longrightarrow> x < vw_next V \<Longrightarrow> x \<notin> set (vw_bySession V (rv_sessionId (vw_row V x))) \<Longrightarrow> vWf (vAdd x V)"
proof (rule vWfI)
  assume wf: "vWf V" and x: "x < vw_next V" "x \<notin> set (vw_bySession V (rv_sessionId (vw_row V x)))"
  fix m y assume "jget (vw_byMsgid (vAdd x V)) m = Some y"
  then have "m = rv_msgid (vw_row V x) \<and> y = x \<or> jget (vw_byMsgid V) m = Some y"
    by (auto simp: vAdd_def Let_def split: if_splits)
  then show "y < vw_next (vAdd x V) \<and> rv_msgid (vw_row (vAdd x V) y) = m \<and>
      y \<in> set (vw_bySession (vAdd x V) (rv_sessionId (vw_row (vAdd x V) y)))"
    using x vWfD(3-5) [OF wf, of m y] by (auto simp: vAdd_def Let_def)
next
  assume wf: "vWf V" and x: "x < vw_next V"
  fix s y assume "y \<in> set (vw_bySession (vAdd x V) s)"
  then have "y \<in> set (vw_bySession V s) \<or> y = x \<and> s = rv_sessionId (vw_row V x)"
    by (auto simp: vAdd_def Let_def split: if_splits)
  then show "y < vw_next (vAdd x V) \<and> rv_sessionId (vw_row (vAdd x V) y) = s"
    using x vWfD(7,8) [OF wf, of y s] by (auto simp: vAdd_def Let_def)
qed (auto simp: vAdd_def Let_def vWfD)

lemma vWf_holds: "vWf V \<Longrightarrow> vWf (V\<lparr>vw_holds := jdel (vw_holds V) m\<rparr>)"
  by (simp add: vWf_def)

lemma vWf_preload [simp]: "vWf (V\<lparr>vw_preload := q\<rparr>) = vWf V"
  by (simp add: vWf_def)

lemma vWf_setHold: "vWf V \<Longrightarrow> x < vw_next V \<Longrightarrow> vWf (V\<lparr>vw_holds := jset (vw_holds V) m x\<rparr>)"
  by (auto simp: vWf_def)

lemma vWf_fresh: "vWf V \<Longrightarrow> vw_next V \<notin> set (vw_bySession V s)"
  by (auto simp: vWf_def)

lemma vWf_new: "vWf V \<Longrightarrow> vWf (vAdd (vw_next V) (vAlloc r V))"
  by (intro vWf_vAdd vWf_vAlloc) (simp_all add: vAlloc_def vWf_fresh)

lemma vWf_vTakeHold: "vWf V \<Longrightarrow> vWf (vTakeHold m x k now V)"
  unfolding vTakeHold_def Let_def by (intro vWf_vSet vWf_vRemove vWf_holds) (simp_all add: vRemove_def Let_def)

lemma vTakeHold_out: "x \<notin> set (vw_bySession (vTakeHold m x k now V) (rv_sessionId (vw_row V x)))"
  by (simp add: vTakeHold_def vRemove_def vSet_def Let_def)

lemma vTakeHold_simps [simp]:
  "vw_next (vTakeHold m x k now V) = vw_next V"
  "rv_sessionId (vw_row (vTakeHold m x k now V) y) = rv_sessionId (vw_row V y)"
  "rv_msgid (vw_row (vTakeHold m x k now V) y) = rv_msgid (vw_row V y)"
  "y \<noteq> x \<Longrightarrow> vw_row (vTakeHold m x k now V) y = vw_row V y"
  "vw_holds (vTakeHold m x k now V) = jdel (vw_holds V) m"
  by (simp_all add: vTakeHold_def vRemove_def vSet_def Let_def)

lemma vSet_simps [simp]:
  "vw_next (vSet x r V) = vw_next V" "vw_bySession (vSet x r V) = vw_bySession V"
  "vw_byMsgid (vSet x r V) = vw_byMsgid V" "vw_holds (vSet x r V) = vw_holds V"
  "vw_preload (vSet x r V) = vw_preload V"
  "vw_row (vSet x r V) y = (if y = x then r else vw_row V y)"
  by (simp_all add: vSet_def)

lemma vAdd_simps [simp]:
  "vw_next (vAdd x V) = vw_next V" "vw_holds (vAdd x V) = vw_holds V" "vw_row (vAdd x V) = vw_row V"
  "vw_preload (vAdd x V) = vw_preload V"
  by (simp_all add: vAdd_def Let_def)

lemma vRemove_simps [simp]:
  "vw_next (vRemove x V) = vw_next V" "vw_holds (vRemove x V) = vw_holds V" "vw_row (vRemove x V) = vw_row V"
  "vw_preload (vRemove x V) = vw_preload V"
  by (simp_all add: vRemove_def Let_def)

lemma vAlloc_simps [simp]:
  "vw_next (vAlloc r V) = Suc (vw_next V)" "vw_holds (vAlloc r V) = vw_holds V"
  "vw_row (vAlloc r V) y = (if y = vw_next V then r else vw_row V y)"
  "vw_preload (vAlloc r V) = vw_preload V" "vw_bySession (vAlloc r V) = vw_bySession V"
  by (simp_all add: vAlloc_def)

section \<open>Rows that a handler does not name stay as they are\<close>

text \<open>\<open>vExtends\<close>: rows are only added, and only new rows become held.\<close>

definition vExtends :: "ledger_view \<Rightarrow> ledger_view \<Rightarrow> bool" where
  "vExtends V V' \<longleftrightarrow> vw_next V \<le> vw_next V' \<and> (\<forall>x < vw_next V. vw_row V' x = vw_row V x) \<and>
     (\<forall>x < vw_next V. x \<in> snd ` set (vw_holds V') \<longrightarrow> x \<in> snd ` set (vw_holds V))"

lemma vExtends_refl [simp]: "vExtends V V"
  by (simp add: vExtends_def)

lemma vExtends_trans: "vExtends V V' \<Longrightarrow> vExtends V' V'' \<Longrightarrow> vExtends V V''"
  by (simp add: vExtends_def)

lemma vExtends_vAlloc [simp]: "vExtends V (vAlloc r V)"
  by (simp add: vExtends_def)

lemma vExtends_new [simp]: "vExtends V (vAdd x (vAlloc r V))"
  by (simp add: vExtends_def)

lemma vExtends_preload [simp]: "vExtends V (V\<lparr>vw_preload := q\<rparr>)"
  by (simp add: vExtends_def)

lemma view_loadOne:
  "view (loadOne s L p) =
     (if jget (vw_byMsgid (view L)) (fst p) \<noteq> None then view L
      else vAdd (vw_next (view L)) (vAlloc (rowView (preloadRow s p)) (view L)))"
  by (simp add: loadOne_def case_prod_beta row_simps)

lemma loadOne_ok: "vWf (view L) \<Longrightarrow> vWf (view (loadOne s L p)) \<and> vExtends (view L) (view (loadOne s L p))"
  by (simp add: view_loadOne vWf_new)

lemma foldl_loadOne_ok:
  "vWf (view L) \<Longrightarrow> vWf (view (foldl (loadOne s) L ps)) \<and> vExtends (view L) (view (foldl (loadOne s) L ps))"
proof (induction ps arbitrary: L)
  case (Cons p ps)
  show ?case
    using loadOne_ok [OF Cons.prems, of s p] Cons.IH [of "loadOne s L p"] vExtends_trans by simp blast
qed simp

lemma foldl_load_ok:
  "vWf (view L) \<Longrightarrow>
   vWf (view (foldl (\<lambda>M (s, rows). foldl (loadOne s) M rows) L pre)) \<and>
   vExtends (view L) (view (foldl (\<lambda>M (s, rows). foldl (loadOne s) M rows) L pre))"
proof (induction pre arbitrary: L)
  case (Cons p pre)
  obtain s rows where p: "p = (s, rows)" by (cases p)
  show ?case
    using foldl_loadOne_ok [OF Cons.prems, of s rows] Cons.IH vExtends_trans by (simp add: p) blast
qed simp

lemma ensureLoaded_ok:
  assumes "vWf (view L)"
  shows "vWf (view (ensureLoaded L))" and "vExtends (view L) (view (ensureLoaded L))"
proof -
  let ?L = "L\<lparr>lg_preload := []\<rparr>"
  have wf: "vWf (view ?L)" using assms by simp
  note load = foldl_load_ok [OF wf, of "lg_preload L", folded ensureLoaded_def]
  from load show "vWf (view (ensureLoaded L))" by (rule conjunct1)
  have "vExtends (view L) (view ?L)" unfolding view_fields by (rule vExtends_preload)
  then show "vExtends (view L) (view (ensureLoaded L))"
    by (rule vExtends_trans) (rule conjunct2 [OF load])
qed

lemma foldl_jdel:
  "jwf m \<Longrightarrow> jwf (foldl (\<lambda>m x. jdel m (k x)) m xs) \<and>
   jget (foldl (\<lambda>m x. jdel m (k x)) m xs) i = (if i \<in> k ` set xs then None else jget m i)"
  by (induction xs arbitrary: m) auto

definition vPrune :: "(nat \<Rightarrow> bool) \<Rightarrow> string \<Rightarrow> ledger_view \<Rightarrow> ledger_view" where
  "vPrune keep s V =
     (let list = vw_bySession V s in
      V\<lparr>vw_byMsgid := foldl (\<lambda>m x. jdel m (rv_msgid (vw_row V x))) (vw_byMsgid V)
           (filter (\<lambda>x. \<not> keep x) list),
        vw_bySession := (vw_bySession V)(s := filter keep list)\<rparr>)"

lemma view_prune:
  "view (prune s now L) = view L \<or> view (prune s now L) = vPrune (keptByPrune L now) s (view L)"
  by (cases "lg_bySession L s") (simp_all add: prune_def vPrune_def view_def rowView_def Let_def)

lemma vWf_vPrune:
  assumes wf: "vWf V"
  shows "vWf (vPrune keep s V)"
proof (rule vWfI)
  let ?dropped = "filter (\<lambda>x. \<not> keep x) (vw_bySession V s)"
  have jwf: "jwf (vw_byMsgid (vPrune keep s V))"
    and get: "jget (vw_byMsgid (vPrune keep s V)) m =
      (if m \<in> (\<lambda>x. rv_msgid (vw_row V x)) ` set ?dropped then None else jget (vw_byMsgid V) m)" for m
    using foldl_jdel [OF vWfD(1) [OF wf], of "\<lambda>x. rv_msgid (vw_row V x)" ?dropped]
    by (simp_all add: vPrune_def Let_def)
  show "jwf (vw_byMsgid (vPrune keep s V))" by (rule jwf)
  fix m x assume "jget (vw_byMsgid (vPrune keep s V)) m = Some x"
  then have x: "jget (vw_byMsgid V) m = Some x" and m: "m \<notin> (\<lambda>x. rv_msgid (vw_row V x)) ` set ?dropped"
    by (auto simp: get split: if_splits)
  note D = vWfD(3-5) [OF wf x]
  then have "x \<notin> set ?dropped" using m by blast
  with D show "x < vw_next (vPrune keep s V) \<and> rv_msgid (vw_row (vPrune keep s V) x) = m \<and>
      x \<in> set (vw_bySession (vPrune keep s V) (rv_sessionId (vw_row (vPrune keep s V) x)))"
    by (auto simp: vPrune_def Let_def)
next
  fix t x assume "x \<in> set (vw_bySession (vPrune keep s V) t)"
  then have "x \<in> set (vw_bySession V t)" by (simp add: vPrune_def Let_def split: if_splits)
  then show "x < vw_next (vPrune keep s V) \<and> rv_sessionId (vw_row (vPrune keep s V) x) = t"
    using vWfD(7,8) [OF wf] by (simp add: vPrune_def Let_def)
qed (use wf in \<open>auto simp: vPrune_def Let_def vWfD\<close>)

lemma prune_ok:
  assumes "vWf (view L)"
  shows "vWf (view (prune s now L))" and "vExtends (view L) (view (prune s now L))"
  using view_prune [of s now L] vWf_vPrune [OF assms] assms
  by (auto simp: vExtends_def vPrune_def Let_def)

section \<open>Each handler on the view\<close>

text \<open>
  \<open>vFollows x\<close>: the row \<open>x\<close>, once of the new kind, changes status only along the table, and does not
  become a held row.
\<close>

definition moveAllowed :: "outbound_status \<Rightarrow> outbound_status \<Rightarrow> bool" where
  "moveAllowed s t \<longleftrightarrow> s = t \<or> (\<exists>w. canMoveOutbound (Some s) t [w])"

definition vFollows :: "nat \<Rightarrow> ledger_view \<Rightarrow> ledger_view \<Rightarrow> bool" where
  "vFollows x V V' \<longleftrightarrow> x < vw_next V' \<and> x \<notin> snd ` set (vw_holds V') \<and>
     rv_v2 (vw_row V' x) \<and> rv_msgid (vw_row V' x) = rv_msgid (vw_row V x) \<and>
     moveAllowed (rv_status (vw_row V x)) (rv_status (vw_row V' x))"

definition vFree :: "nat \<Rightarrow> ledger_view \<Rightarrow> bool" where
  "vFree x V \<longleftrightarrow> x < vw_next V \<and> x \<notin> snd ` set (vw_holds V) \<and> rv_v2 (vw_row V x)"

lemma moveAllowed_refl [simp]: "moveAllowed s s"
  by (simp add: moveAllowed_def)

lemma moveAllowed_cell: "canMoveOutbound (Some s) t [w] \<Longrightarrow> moveAllowed s t"
  by (auto simp: moveAllowed_def)

lemma vFollows_refl: "vFree x V \<Longrightarrow> vFollows x V V"
  by (simp add: vFollows_def vFree_def)

lemma vFollows_extends: "vFree x V \<Longrightarrow> vExtends V V' \<Longrightarrow> vFollows x V V'"
  by (auto simp: vFollows_def vFree_def vExtends_def)

lemma vFree_extends: "vFree x V \<Longrightarrow> vExtends V V' \<Longrightarrow> vFree x V' \<and> vw_row V' x = vw_row V x"
  by (auto simp: vFree_def vExtends_def)

text \<open>An update of one row: either another row, or along the table.\<close>

lemma vFollows_vSet:
  "vFree x V \<Longrightarrow> (y = x \<Longrightarrow> rv_v2 r \<and> rv_msgid r = rv_msgid (vw_row V x) \<and> moveAllowed (rv_status (vw_row V x)) (rv_status r)) \<Longrightarrow>
   vFollows x V (vSet y r V)"
  by (auto simp: vFollows_def vFree_def)

lemma jget_snd: "jget m k = Some v \<Longrightarrow> v \<in> snd ` set m"
  by (induction m k rule: jget.induct) (auto split: if_splits)

lemma jdel_snd: "v \<in> snd ` set (jdel m k) \<Longrightarrow> v \<in> snd ` set m"
  by (induction m k rule: jdel.induct) (auto split: if_splits)

lemma jset_snd: "v \<in> snd ` set (jset m k w) \<Longrightarrow> v = w \<or> v \<in> snd ` set m"
  by (induction m k w rule: jset.induct) (auto split: if_splits)

text \<open>Taking a held row over changes that row, which is not \<open>x\<close>.\<close>

lemma vFree_vTakeHold:
  "vFree x V \<Longrightarrow> y \<noteq> x \<Longrightarrow> vFree x (vTakeHold m y k now V) \<and> vw_row (vTakeHold m y k now V) x = vw_row V x"
  using jdel_snd [of x "vw_holds V" m] by (simp add: vFree_def) blast

lemma vFree_vSet: "vFree x V \<Longrightarrow> y \<noteq> x \<Longrightarrow> vFree x (vSet y r V) \<and> vw_row (vSet y r V) x = vw_row V x"
  by (auto simp: vFree_def)

lemma vFree_vAlloc: "vFree x V \<Longrightarrow> vFree x (vAlloc r V) \<and> vw_row (vAlloc r V) x = vw_row V x"
  by (auto simp: vFree_def)

lemma vFree_vAdd: "vFree x (vAdd y V) \<longleftrightarrow> vFree x V"
  by (simp add: vFree_def)

lemma vFree_next: "vFree x V \<Longrightarrow> x \<noteq> vw_next V"
  by (simp add: vFree_def)

definition vSame :: "nat \<Rightarrow> ledger_view \<Rightarrow> ledger_view \<Rightarrow> bool" where
  "vSame x V V' \<longleftrightarrow> vFree x V' \<and> vw_row V' x = vw_row V x"

lemma vSame_follows: "vSame x V V' \<Longrightarrow> vFollows x V V'"
  by (auto simp: vSame_def vFollows_def vFree_def)

lemma vSame_trans: "vSame x V V' \<Longrightarrow> vSame x V' V'' \<Longrightarrow> vSame x V V''"
  by (simp add: vSame_def)

lemma vSame_free: "vSame x V V' \<Longrightarrow> vFree x V'"
  by (simp add: vSame_def)

lemma heldFor_held: "heldFor L s m = Some y \<Longrightarrow> m \<noteq> None \<and> y \<in> snd ` set (vw_holds (view L))"
  by (auto simp: heldFor_def view_def dest: jget_snd split: option.splits if_splits)

lemma heldFor_session: "heldFor L s m = Some y \<Longrightarrow> rv_sessionId (vw_row (view L) y) = s"
  by (auto simp: heldFor_def row_simps split: option.splits if_splits)

lemma heldFor_wf: "vWf (view L) \<Longrightarrow> heldFor L s m = Some y \<Longrightarrow> y < vw_next (view L)"
  using vWfD(9) by (fastforce simp: heldFor_def row_simps split: option.splits if_splits)

lemma recordSend_ok:
  assumes wf: "vWf (view L)"
  shows "vWf (view (snd (recordSend env L s k m i)))"
    and "vFree x (view L) \<Longrightarrow> vSame x (view L) (view (snd (recordSend env L s k m i)))"
proof -
  define M where "M = prune s (le_now env) (ensureLoaded L)"
  have M: "vWf (view M)" "vExtends (view L) (view M)"
    using ensureLoaded_ok [OF wf] prune_ok vExtends_trans unfolding M_def by blast+
  have v: "view (snd (recordSend env L s k m i)) =
      (case heldFor M s m of
         Some y \<Rightarrow> vAdd y (vTakeHold (the m) y k (le_now env) (view M))
       | None \<Rightarrow> vAdd (vw_next (view M)) (vAlloc (rowView (newRow s k m (le_now env) i)) (view M)))"
    by (simp add: recordSend_def Let_def case_prod_beta M_def row_simps split: option.splits)
  show "vWf (view (snd (recordSend env L s k m i)))"
    using M(1) heldFor_wf [OF M(1)] vTakeHold_out [of _ "the m" k "le_now env" "view M"]
    by (auto simp: v intro!: vWf_new vWf_vAdd vWf_vTakeHold split: option.splits)
  assume x: "vFree x (view L)"
  then have xM: "vFree x (view M)" "vw_row (view M) x = vw_row (view L) x"
    using vFree_extends [OF x M(2)] by simp_all
  then have "heldFor M s m \<noteq> Some x" using heldFor_held [of M s m x] by (auto simp: vFree_def)
  then show "vSame x (view L) (view (snd (recordSend env L s k m i)))"
    using xM vFree_vTakeHold [OF xM(1)] vFree_vAlloc [OF xM(1)]
    by (auto simp: v vSame_def vFree_vAdd split: option.splits)
qed

text \<open>Handles of the old kind of account.\<close>

lemma view_handleAttempt:
  "view (handleAttempt env h L) =
     (if \<not> le_live env \<or> sh_done h then view L
      else vSet (sh_row h) ((vw_row (view L) (sh_row h))\<lparr>rv_lastAttemptAt := le_now env\<rparr>) (view L))"
  by (simp add: handleAttempt_def row_simps)

lemma view_handleUnknown:
  "view (handleUnknown env h L) =
     (if \<not> le_live env \<or> sh_done h \<or> rv_status (vw_row (view L) (sh_row h)) \<noteq> OPending then view L
      else vSet (sh_row h) ((vw_row (view L) (sh_row h))\<lparr>rv_status := OUnknown\<rparr>) (view L))"
  by (simp add: handleUnknown_def row_simps)

lemma view_handleSettle:
  "\<exists>st. view (snd (handleSettle env h r e L)) = view L \<or>
     view (snd (handleSettle env h r e L)) =
       vSet (sh_row h) ((vw_row (view L) (sh_row h))\<lparr>rv_status := st\<rparr>) (view L)"
  by (simp add: handleSettle_def row_simps) blast

lemma view_handleDiscard:
  "view (snd (handleDiscard env h L)) =
     (if \<not> le_live env \<or> sh_done h then view L else vRemove (sh_row h) (view L))"
  by (simp add: handleDiscard_def row_simps)

text \<open>Holding a place and giving it back.\<close>

lemma holdSend_ok:
  assumes wf: "vWf (view L)"
  shows "vWf (view (snd (holdSend env L s k m i)))"
    and "vFree x (view L) \<Longrightarrow> vSame x (view L) (view (snd (holdSend env L s k m i)))"
proof -
  define M where "M = ensureLoaded L"
  have M: "vWf (view M)" "vExtends (view L) (view M)"
    using ensureLoaded_ok [OF wf] by (simp_all add: M_def)
  let ?V = "vAdd (vw_next (view M)) (vAlloc (rowView ((newRow s k (Some m) (le_now env) i)\<lparr>lr_held := True\<rparr>)) (view M))"
  have v: "view (snd (holdSend env L s k m i)) =
      ?V\<lparr>vw_holds := jset (vw_holds (view M)) m (vw_next (view M))\<rparr>"
    by (simp add: holdSend_def Let_def case_prod_beta M_def row_simps)
  show "vWf (view (snd (holdSend env L s k m i)))"
    using vWf_setHold [OF vWf_new [OF M(1)], of "vw_next (view M)"] by (simp add: v)
  assume x: "vFree x (view L)"
  then have xM: "vFree x (view M)" "vw_row (view M) x = vw_row (view L) x"
    using vFree_extends [OF x M(2)] by simp_all
  then have "x \<notin> snd ` set (jset (vw_holds (view M)) m (vw_next (view M)))"
    using jset_snd [of x "vw_holds (view M)" m "vw_next (view M)"] vFree_next [OF xM(1)]
    by (metis vFree_def)
  with xM show "vSame x (view L) (view (snd (holdSend env L s k m i)))"
    by (simp add: v vSame_def vFree_def)
qed

lemma view_releaseHold:
  "view (releaseHold m y L) =
     (if jget (vw_holds (view L)) m \<noteq> Some y then view L
      else vRemove y ((view L)\<lparr>vw_holds := jdel (vw_holds (view L)) m\<rparr>))"
  by (simp add: releaseHold_def row_simps)

lemma releaseHold_ok:
  assumes wf: "vWf (view L)"
  shows "vWf (view (releaseHold m y L))"
    and "vFree x (view L) \<Longrightarrow> vSame x (view L) (view (releaseHold m y L))"
  using vWf_vRemove [OF vWf_holds [OF wf]] wf jdel_snd [of x "vw_holds (view L)" m]
  by (simp_all add: view_releaseHold vSame_def vFree_def) blast

text \<open>Planning a group.\<close>

lemma view_planSegment:
  "view (snd (planSegment env a s k m i held f (rids, L) (n, p))) =
     (if n = 0 \<and> held \<noteq> None \<and> MSGID_RE (rv_msgid (vw_row (view L) (the held)))
      then (let V = vTakeHold (the m) (the held) k (le_now env) (view L); y = the held in
            vAdd y (vSet y ((vw_row V y)\<lparr>rv_v2 := True, rv_status := OPending, rv_segment := n, rv_payload := Some p\<rparr>) V))
      else (let V = vAlloc (rowView (newRow s k m (le_now env) (f n))) (view L); y = vw_next (view L) in
            vAdd y (vSet y ((vw_row V y)\<lparr>rv_v2 := True, rv_status := OPending, rv_segment := n, rv_payload := Some p\<rparr>) V)))"
  by (simp add: planSegment_def Let_def case_prod_beta row_simps)

lemma planSegment_ok:
  assumes wf: "vWf (view L)" and held: "\<And>y. held = Some y \<Longrightarrow> y < vw_next (view L)"
  shows "vWf (view (snd (planSegment env a s k m i held f (rids, L) (n, p))))"
    and "vw_next (view L) \<le> vw_next (view (snd (planSegment env a s k m i held f (rids, L) (n, p))))"
    and "vFree x (view L) \<Longrightarrow> held \<noteq> Some x \<Longrightarrow>
         vSame x (view L) (view (snd (planSegment env a s k m i held f (rids, L) (n, p))))"
proof -
  show "vWf (view (snd (planSegment env a s k m i held f (rids, L) (n, p))))"
    using held vTakeHold_out [of "the held" "the m" k "le_now env" "view L"]
    by (auto simp: view_planSegment Let_def vWf_fresh [OF wf] intro!: vWf_vAdd vWf_vSet vWf_vTakeHold vWf_vAlloc wf)
  show "vw_next (view L) \<le> vw_next (view (snd (planSegment env a s k m i held f (rids, L) (n, p))))"
    by (simp add: view_planSegment Let_def)
  assume x: "vFree x (view L)" and "held \<noteq> Some x"
  then have "held = None \<or> the held \<noteq> x" by auto
  then show "vSame x (view L) (view (snd (planSegment env a s k m i held f (rids, L) (n, p))))"
    using vFree_vTakeHold [OF x] vFree_vAlloc [OF x] vFree_next [OF x]
    by (auto simp: view_planSegment Let_def vSame_def vFree_vAdd intro: vFree_vSet [THEN conjunct1])
qed

definition planReady :: "nat option \<Rightarrow> ledger_view \<Rightarrow> bool" where
  "planReady held V \<longleftrightarrow> vWf V \<and> (\<forall>y. held = Some y \<longrightarrow> y < vw_next V)"

lemma planSegment_ready:
  "planReady held (view (snd st)) \<Longrightarrow> planReady held (view (snd (planSegment env a s k m i held f st np)))"
proof (cases st; cases np)
  fix rids L n p assume st: "st = (rids, L)" "np = (n, p)" and ready: "planReady held (view (snd st))"
  then have wf: "vWf (view L)" "\<And>y. held = Some y \<Longrightarrow> y < vw_next (view L)" by (simp_all add: planReady_def)
  from planSegment_ok(1,2) [of L held, OF this] wf(2)
  show ?thesis by (auto simp: planReady_def st intro: less_le_trans)
qed

lemma planSegment_same:
  "planReady held (view (snd st)) \<Longrightarrow> vFree x (view (snd st)) \<Longrightarrow> held \<noteq> Some x \<Longrightarrow>
   vSame x (view (snd st)) (view (snd (planSegment env a s k m i held f st np)))"
  by (cases st; cases np) (simp add: planSegment_ok(3) planReady_def)

lemma planSegments_ready:
  "planReady held (view (snd st)) \<Longrightarrow>
   planReady held (view (snd (foldl (planSegment env a s k m i held f) st ps)))"
proof (induction ps arbitrary: st)
  case (Cons np ps)
  show ?case unfolding foldl.simps by (rule Cons.IH [OF planSegment_ready [OF Cons.prems]])
qed simp

lemma planSegments_same:
  "planReady held (view (snd st)) \<Longrightarrow> vFree x (view (snd st)) \<Longrightarrow> held \<noteq> Some x \<Longrightarrow>
   vSame x (view (snd st)) (view (snd (foldl (planSegment env a s k m i held f) st ps)))"
proof (induction ps arbitrary: st)
  case (Cons np ps)
  let ?st = "planSegment env a s k m i held f st np"
  have one: "vSame x (view (snd st)) (view (snd ?st))" by (rule planSegment_same [OF Cons.prems])
  have "vSame x (view (snd ?st)) (view (snd (foldl (planSegment env a s k m i held f) ?st ps)))"
    by (rule Cons.IH [OF planSegment_ready [OF Cons.prems(1)] vSame_free [OF one] Cons.prems(3)])
  then show ?case unfolding foldl.simps by (rule vSame_trans [OF one])
qed (simp add: vSame_def)

lemma planOutbound_ok:
  assumes wf: "vWf (view L)"
  shows "vWf (view (snd (planOutbound env L acc s b k m i ps f)))"
    and "vFree x (view L) \<Longrightarrow> vSame x (view L) (view (snd (planOutbound env L acc s b k m i ps f)))"
proof -
  define M0 where "M0 = ensureLoaded L"
  define M where "M = prune s (le_now env) M0"
  have M0: "vWf (view M0)" "vExtends (view L) (view M0)" using ensureLoaded_ok [OF wf] by (simp_all add: M0_def)
  have M: "vWf (view M)" "vExtends (view L) (view M)"
    unfolding M_def by (rule prune_ok(1) [OF M0(1)]) (rule vExtends_trans [OF M0(2) prune_ok(2) [OF M0(1)]])
  have ready: "planReady (heldFor M s m) (view M)"
    using M(1) heldFor_wf [OF M(1)] by (simp add: planReady_def)
  define N where "N = snd (foldl (planSegment env (ac_id acc) s k m i (heldFor M s m) f) ([], M) (enumerate 0 ps))"
  have v: "view (snd (planOutbound env L acc s b k m i ps f)) \<in> {view M0, view N}"
    by (auto simp: planOutbound_def Let_def case_prod_beta M0_def M_def N_def split: option.splits)
  have "planReady (heldFor M s m) (view N)"
    using planSegments_ready [of "heldFor M s m" "([], M)"] ready by (simp add: N_def)
  then have N: "vWf (view N)" by (simp add: planReady_def)
  show "vWf (view (snd (planOutbound env L acc s b k m i ps f)))"
    using v M0(1) N by auto
  assume x: "vFree x (view L)"
  then have x0: "vSame x (view L) (view M0)" and xM: "vSame x (view L) (view M)"
    using vFree_extends [OF x M0(2)] vFree_extends [OF x M(2)] by (simp_all add: vSame_def)
  then have "heldFor M s m \<noteq> Some x" using heldFor_held [of M s m x] by (auto simp: vFree_def vSame_def)
  then have "vSame x (view M) (view N)"
    using planSegments_same [of "heldFor M s m" "([], M)" x] vSame_free [OF xM] ready by (simp add: N_def)
  then show "vSame x (view L) (view (snd (planOutbound env L acc s b k m i ps f)))"
    using v x0 vSame_trans [OF xM] by auto
qed

text \<open>A handler that at most moves one row along the table.\<close>

definition vMoves :: "ledger_view \<Rightarrow> ledger_view \<Rightarrow> bool" where
  "vMoves V V' \<longleftrightarrow> V' = V \<or>
     (\<exists>y r. V' = vSet y r V \<and> rv_sessionId r = rv_sessionId (vw_row V y) \<and> rv_msgid r = rv_msgid (vw_row V y) \<and>
        (rv_v2 (vw_row V y) \<longrightarrow> rv_v2 r \<and> moveAllowed (rv_status (vw_row V y)) (rv_status r)))"

lemma vMoves_refl [simp]: "vMoves V V"
  by (simp add: vMoves_def)

lemma vMoves_vSet:
  "rv_sessionId r = rv_sessionId (vw_row V y) \<Longrightarrow> rv_msgid r = rv_msgid (vw_row V y) \<Longrightarrow>
   (rv_v2 (vw_row V y) \<Longrightarrow> rv_v2 r \<and> moveAllowed (rv_status (vw_row V y)) (rv_status r)) \<Longrightarrow>
   vMoves V (vSet y r V)"
  by (auto simp: vMoves_def)

lemma vMoves_wf: "vMoves V V' \<Longrightarrow> vWf V \<Longrightarrow> vWf V'"
  by (auto simp: vMoves_def intro: vWf_vSet)

lemma vMoves_follows: "vMoves V V' \<Longrightarrow> vFree x V \<Longrightarrow> vFollows x V V' \<and> vFree x V'"
  by (auto simp: vMoves_def vFollows_def vFree_def)

lemma vSet_vSet [simp]: "vSet y r (vSet y r' V) = vSet y r V"
  by (simp add: vSet_def)

lemma handle_moves:
  "\<not> rv_v2 (vw_row (view L) (sh_row h)) \<Longrightarrow>
   vMoves (view L) (view (handleUnknown env h L)) \<and> vMoves (view L) (view (snd (handleSettle env h r e L)))"
  using view_handleSettle [of env h r e L]
  by (auto simp: view_handleUnknown intro!: vMoves_vSet)

lemma handleAttempt_moves: "vMoves (view L) (view (handleAttempt env h L))"
  by (auto simp: view_handleAttempt intro!: vMoves_vSet)

lemma markSendingStart_moves: "vMoves (view L) (view (snd (markSendingStart env m L)))"
  by (auto simp: markSendingStart_def row_simps intro!: vMoves_vSet moveAllowed_cell [where w = WMark]
           split: option.splits)

lemma unmarkSendingEnd_moves: "vMoves (view L) (view (snd (unmarkSendingEnd env y ok L)))"
  by (auto simp: unmarkSendingEnd_def row_simps intro!: vMoves_vSet moveAllowed_cell [where w = WUnmark])

lemma noteAttempt_moves: "vMoves (view L) (view (noteAttempt env m L))"
  by (auto simp: noteAttempt_def row_simps intro!: vMoves_vSet split: option.splits)

lemma noteUnknown_moves: "vMoves (view L) (view (noteUnknown env m e L))"
  by (auto simp: noteUnknown_def row_simps intro!: vMoves_vSet moveAllowed_cell [where w = WSettle]
           split: option.splits)

lemma settleIntent_moves: "vMoves (view L) (view (settleIntent env m r e n L))"
  by (auto simp: settleIntent_def Let_def row_simps intro!: vMoves_vSet moveAllowed_cell [where w = WSettle]
           split: option.splits)

lemma cancelOne_moves: "vMoves (view L) (view (cancelOne env L m))"
  by (auto simp: cancelOne_def Let_def row_simps intro!: vMoves_vSet moveAllowed_cell [where w = WCancel]
           split: option.splits)

lemma recoverAsUnknown_moves: "vMoves (view L) (view (recoverAsUnknown env m L))"
  by (auto simp: recoverAsUnknown_def row_simps intro!: vMoves_vSet moveAllowed_cell [where w = WRecover]
           split: option.splits)

lemma receiptMove_view:
  "view (receiptMove env y t L) = vSet y ((vw_row (view L) y)\<lparr>rv_status := OFailed\<rparr>) (view L)"
  by (simp add: receiptMove_def Let_def row_simps)

lemma receiptStart_moves: "vMoves (view (ensureLoaded L)) (view (snd (receiptStart env m t L)))"
  by (auto simp: receiptStart_def Let_def receiptMove_view receiptMoves_def row_simps intro!: vMoves_vSet
           moveAllowed_cell [where w = WReceipt] split: option.splits)

lemma markSendingEnd_cases:
  "\<exists>V'. vMoves (view L) V' \<and> view (snd (markSendingEnd env y r L)) \<in> {V', vRemove y V'}"
proof -
  let ?V = "if r = MsMarked \<and> canMoveOutbound (Some (lr_status (lg_rows L y))) OSending [WMark]
            then vSet y ((vw_row (view L) y)\<lparr>rv_status := OSending\<rparr>) (view L) else view L"
  have "vMoves (view L) ?V"
    by (auto simp: row_simps intro!: vMoves_vSet moveAllowed_cell [where w = WMark])
  moreover have "view (snd (markSendingEnd env y r L)) \<in> {view L, ?V, vRemove y ?V}"
    by (auto simp: markSendingEnd_def Let_def row_simps)
  ultimately show ?thesis by (metis insert_iff vMoves_refl)
qed

lemma vSet_new_same [simp]: "vSet (vw_next V) r (vAdd (vw_next V) (vAlloc r V)) = vAdd (vw_next V) (vAlloc r V)"
  by (simp add: vSet_def vAdd_def vAlloc_def Let_def fun_eq_iff)

text \<open>The three ends of \<open>planRuntimeStart\<close>: refused or settled already, reused, or a new row.\<close>

lemma planRuntimeStart_view:
  "vMoves (view L) (view (snd (planRuntimeStart env L g p m i))) \<or>
   (\<exists>r. view (snd (planRuntimeStart env L g p m i)) = vAdd (vw_next (view L)) (vAlloc r (view L)))"
proof (cases g)
  case (Cons first rest)
  have reuse: "vMoves (view L) (view (setRow k (\<lambda>r. r\<lparr>lr_payload :=
      (case lr_payload r of None \<Rightarrow> Some p | Some q \<Rightarrow> Some q)\<rparr>) L))" for k
    by (auto simp: row_simps intro!: vMoves_vSet)
  show ?thesis
  proof (cases "jget (lg_byMsgid L) (oi_msgid first)")
    case (Some base)
    show ?thesis
    proof (cases "lr_v2 (lg_rows L base) \<and> length g < 32767 \<and> payloadProblem p = None \<and>
        (case m of None \<Rightarrow> True | Some x \<Rightarrow> MSGID_RE x)")
      case True
      show ?thesis
      proof (cases "Option.bind m (\<lambda>m. Option.bind (jget (lg_byMsgid L) m)
          (\<lambda>k. if lr_v2 (lg_rows L k) then Some k else None))")
        case None
        then show ?thesis
          using True Some Cons
          by (intro disjI2) (auto simp: planRuntimeStart_def Let_def case_prod_beta row_simps split: option.splits)
      next
        case (Some k)
        then show ?thesis
          using True reuse [of k] \<open>jget (lg_byMsgid L) (oi_msgid first) = Some base\<close> Cons
          by (intro disjI1) (simp add: planRuntimeStart_def Let_def split: option.splits)
      qed
    next
      case False
      then show ?thesis
        using Some Cons by (intro disjI1) (auto simp: planRuntimeStart_def split: option.splits)
    qed
  qed (simp add: planRuntimeStart_def Cons)
qed (simp add: planRuntimeStart_def)

lemma planRuntimeEnd_view: "view (snd (planRuntimeEnd env y ok L)) = view L"
  by (simp add: planRuntimeEnd_def Let_def)

text \<open>Cancelling several intents: a row is cancelled at most once, from the status it had.\<close>

definition cancelledFrom :: "nat \<Rightarrow> string \<Rightarrow> outbound_status \<Rightarrow> ledger_view \<Rightarrow> bool" where
  "cancelledFrom x m s V \<longleftrightarrow> vFree x V \<and> rv_msgid (vw_row V x) = m \<and>
     (rv_status (vw_row V x) = s \<or> rv_status (vw_row V x) = OCancelled \<and> canMoveOutbound (Some s) OCancelled [WCancel])"

lemma view_cancelOne:
  "view (cancelOne env L m) = view L \<or>
   (\<exists>y. view (cancelOne env L m) = vSet y ((vw_row (view L) y)\<lparr>rv_status := OCancelled\<rparr>) (view L) \<and>
      canMoveOutbound (Some (rv_status (vw_row (view L) y))) OCancelled [WCancel])"
proof (cases "v2Row L m")
  case (Some y)
  then show ?thesis
    by (simp add: cancelOne_def Let_def row_simps del: from_cancelled_cell) blast
qed (simp add: cancelOne_def)

lemma cancelledFrom_step: "cancelledFrom x i s (view L) \<Longrightarrow> cancelledFrom x i s (view (cancelOne env L m))"
  using view_cancelOne [of env L m] by (auto simp: cancelledFrom_def vFree_def split: if_splits)

lemma cancelIntents_ok:
  "vWf (view L) \<Longrightarrow> vWf (view (cancelIntents env ms L))"
  "cancelledFrom x i s (view L) \<Longrightarrow> cancelledFrom x i s (view (cancelIntents env ms L))"
proof -
  show "vWf (view L) \<Longrightarrow> vWf (view (cancelIntents env ms L))"
    unfolding cancelIntents_def
    by (induction ms arbitrary: L) (simp_all add: vMoves_wf [OF cancelOne_moves])
  show "cancelledFrom x i s (view L) \<Longrightarrow> cancelledFrom x i s (view (cancelIntents env ms L))"
    unfolding cancelIntents_def
    by (induction ms arbitrary: L) (simp_all add: cancelledFrom_step)
qed

lemma cancelIntents_follows:
  assumes "vFree x (view L)"
  shows "vFollows x (view L) (view (cancelIntents env ms L))"
proof -
  have "cancelledFrom x (rv_msgid (vw_row (view L) x)) (rv_status (vw_row (view L) x)) (view L)" using assms by (simp add: cancelledFrom_def)
  then have "cancelledFrom x (rv_msgid (vw_row (view L) x)) (rv_status (vw_row (view L) x)) (view (cancelIntents env ms L))"
    by (rule cancelIntents_ok(2))
  then show ?thesis
    by (auto simp: cancelledFrom_def vFollows_def vFree_def intro: moveAllowed_cell [where w = WCancel])
qed

lemma adoptOne_wf: "vWf (view (snd st)) \<Longrightarrow> vWf (view (snd (adoptOne env a st p)))"
  by (cases st; cases p)
     (auto simp: adoptOne_def Let_def case_prod_beta row_simps vWf_new intro!: vWf_vSet split: option.splits)

lemma adoptOpenOutbound_wf: "vWf (view L) \<Longrightarrow> vWf (view (snd (adoptOpenOutbound env L a rows)))"
proof -
  assume "vWf (view L)"
  then have "vWf (view (snd ([], ensureLoaded L)))" by (simp add: ensureLoaded_ok)
  moreover have "vWf (view (snd st)) \<Longrightarrow> vWf (view (snd (foldl (adoptOne env a) st rows)))" for st
    by (induction rows arbitrary: st) (simp_all add: adoptOne_wf)
  ultimately show ?thesis unfolding adoptOpenOutbound_def by blast
qed

section \<open>Every step\<close>

text \<open>
  What may take row \<open>x\<close> with the message id \<open>m\<close> off the table: a handle belongs to a row of the old kind;
  a start-up adoption that reads this very message as still open in the database takes its status
  from there.
\<close>

fun oldHandle :: "string \<Rightarrow> nat \<Rightarrow> ledger_event \<Rightarrow> bool" where
  "oldHandle m x (EvAttempt h) \<longleftrightarrow> sh_row h = x"
| "oldHandle m x (EvHandleUnknown h) \<longleftrightarrow> sh_row h = x"
| "oldHandle m x (EvHandleSettle h r e) \<longleftrightarrow> sh_row h = x"
| "oldHandle m x (EvDiscard h) \<longleftrightarrow> sh_row h = x"
| "oldHandle m x (EvAdopt a rows) \<longleftrightarrow> m \<in> fst ` set rows"
| "oldHandle m x _ \<longleftrightarrow> False"

lemma vWf_load: "vWf (view L) \<Longrightarrow> vWf (view (ensureLoaded (L\<lparr>lg_preload := q\<rparr>)))"
  by (rule ensureLoaded_ok) simp

lemma handle_wf:
  assumes "vWf (view L)"
  shows "vWf (view (handleAttempt env h L))" "vWf (view (handleUnknown env h L))"
    "vWf (view (snd (handleSettle env h r e L)))" "vWf (view (snd (handleDiscard env h L)))"
  using assms view_handleSettle [of env h r e L]
  by (auto simp: view_handleAttempt view_handleUnknown view_handleDiscard vWf_vRemove intro!: vWf_vSet)

lemma markSendingEnd_wf: "vWf (view L) \<Longrightarrow> vWf (view (snd (markSendingEnd env y r L)))"
  using markSendingEnd_cases [of L env y r] vMoves_wf vWf_vRemove by fastforce

lemma planRuntimeStart_wf: "vWf (view L) \<Longrightarrow> vWf (view (snd (planRuntimeStart env L g p m i)))"
  using planRuntimeStart_view [of L env g p m i] vMoves_wf vWf_new by fastforce

lemma ledger_step_wf: "vWf (view L) \<Longrightarrow> vWf (view (ledger_step L (env, e)))"
  by (cases e)
     (simp_all add: vWf_load recordSend_ok(1) handle_wf holdSend_ok(1) releaseHold_ok(1) planOutbound_ok(1)
        planRuntimeStart_wf planRuntimeEnd_view vMoves_wf [OF markSendingStart_moves] markSendingEnd_wf
        vMoves_wf [OF unmarkSendingEnd_moves] vMoves_wf [OF noteAttempt_moves] vMoves_wf [OF noteUnknown_moves]
        vMoves_wf [OF settleIntent_moves] cancelIntents_ok(1) cancelInboxIntents_def adoptOpenOutbound_wf
        vMoves_wf [OF recoverAsUnknown_moves] vMoves_wf [OF receiptStart_moves] ensureLoaded_ok)

interpretation ledger_index: machine ledger_step "\<lambda>L. vWf (view L)"
  by unfold_locales (metis ledger_step_wf prod.collapse)

lemma handle_follows:
  assumes "vFree x (view L)" "sh_row h \<noteq> x"
  shows "vFollows x (view L) (view (handleAttempt env h L))" "vFollows x (view L) (view (handleUnknown env h L))"
    "vFollows x (view L) (view (snd (handleSettle env h r e L)))"
    "vFollows x (view L) (view (snd (handleDiscard env h L)))"
  using assms view_handleSettle [of env h r e L] vFollows_refl [OF assms(1)]
  by (auto simp: view_handleAttempt view_handleUnknown view_handleDiscard vFollows_def vFree_def)

lemma markSendingEnd_follows:
  assumes "vFree x (view L)"
  shows "vFollows x (view L) (view (snd (markSendingEnd env y r L)))"
proof -
  obtain V' where V': "vMoves (view L) V'" "view (snd (markSendingEnd env y r L)) \<in> {V', vRemove y V'}"
    using markSendingEnd_cases by blast
  from vMoves_follows [OF V'(1) assms] V'(2) show ?thesis unfolding vFollows_def by auto
qed

lemma planRuntimeStart_follows:
  assumes "vFree x (view L)"
  shows "vFollows x (view L) (view (snd (planRuntimeStart env L g p m i)))"
  using planRuntimeStart_view [of L env g p m i] vMoves_follows [OF _ assms] vFollows_extends [OF assms]
  by (auto simp: vExtends_new)

lemma receiptStart_follows:
  assumes "vWf (view L)" "vFree x (view L)"
  shows "vFollows x (view L) (view (snd (receiptStart env m t L)))"
proof -
  have "vFree x (view (ensureLoaded L))" "vw_row (view (ensureLoaded L)) x = vw_row (view L) x"
    using vFree_extends [OF assms(2) ensureLoaded_ok(2) [OF assms(1)]] by simp_all
  with vMoves_follows [OF receiptStart_moves, of x L env m t] show ?thesis by (auto simp: vFollows_def)
qed

lemma load_follows:
  assumes "vWf (view L)" "vFree x (view L)"
  shows "vFollows x (view L) (view (ensureLoaded (L\<lparr>lg_preload := q\<rparr>)))"
proof -
  have "vWf (view (L\<lparr>lg_preload := q\<rparr>))" using assms(1) by simp
  from ensureLoaded_ok(2) [OF this] have "vExtends (view L) (view (ensureLoaded (L\<lparr>lg_preload := q\<rparr>)))"
    by (simp add: vExtends_def)
  then show ?thesis by (rule vFollows_extends [OF assms(2)])
qed

lemma adoptOne_same:
  assumes "vWf (view (snd st))" "vFree x (view (snd st))" "rv_msgid (vw_row (view (snd st)) x) \<noteq> fst p"
  shows "vSame x (view (snd st)) (view (snd (adoptOne env a st p)))"
proof -
  obtain out L m q where st: "st = (out, L)" and p: "p = (m, q)" by (cases st, cases p) auto
  show ?thesis
  proof (cases "jget (lg_byMsgid L) m")
    case None
    have "vFree x (vAdd y (vAlloc r (view L))) \<and> vw_row (vAdd y (vAlloc r (view L))) x = vw_row (view L) x" for y r
      using vFree_vAlloc assms(2) by (simp add: st vFree_vAdd)
    then show ?thesis
      using None vFree_next [of x "view L"] assms(2)
      by (auto simp: st p adoptOne_def Let_def case_prod_beta row_simps vSame_def vFree_vAdd
          vFree_vSet [THEN conjunct1])
  next
    case (Some y)
    then have "rv_msgid (vw_row (view L) y) = m" using vWfD(4) [of "view L"] assms(1) by (simp add: st row_simps)
    then have "y \<noteq> x" using assms(3) by (auto simp: st p)
    then show ?thesis
      using Some vFree_vSet assms(2) by (simp add: st p adoptOne_def Let_def row_simps vSame_def)
  qed
qed

lemma adopt_follows:
  assumes "vWf (view L)" "vFree x (view L)" "rv_msgid (vw_row (view L) x) \<notin> fst ` set rows"
  shows "vFollows x (view L) (view (snd (adoptOpenOutbound env L a rows)))"
proof -
  have "vWf (view (snd st)) \<Longrightarrow> vSame x V (view (snd st)) \<Longrightarrow> rv_msgid (vw_row V x) \<notin> fst ` set rows \<Longrightarrow>
      vSame x V (view (snd (foldl (adoptOne env a) st rows)))" for st V
  proof (induction rows arbitrary: st)
    case (Cons p rows)
    have "vSame x V (view (snd (adoptOne env a st p)))"
      using adoptOne_same [of st x p] Cons.prems by (auto simp: vSame_def)
    then show ?case using Cons.IH [OF adoptOne_wf] Cons.prems by simp
  qed simp
  moreover have "vSame x (view L) (view (ensureLoaded L))"
    using vFree_extends [OF assms(2) ensureLoaded_ok(2) [OF assms(1)]] by (simp add: vSame_def)
  ultimately show ?thesis
    using assms ensureLoaded_ok(1) [OF assms(1)] unfolding adoptOpenOutbound_def
    by (intro vSame_follows) simp
qed

lemma ledger_step_follows:
  assumes "vWf (view L)" "vFree x (view L)" "\<not> oldHandle (rv_msgid (vw_row (view L) x)) x e"
  shows "vFollows x (view L) (view (ledger_step L (env, e)))"
  using assms(3)
  by (cases e)
     (simp_all add: assms(1,2) adopt_follows load_follows recordSend_ok(2) holdSend_ok(2) releaseHold_ok(2) planOutbound_ok(2)
        vSame_follows handle_follows planRuntimeStart_follows planRuntimeEnd_view vFollows_refl
        vMoves_follows [OF markSendingStart_moves] markSendingEnd_follows
        vMoves_follows [OF unmarkSendingEnd_moves] vMoves_follows [OF noteAttempt_moves]
        vMoves_follows [OF noteUnknown_moves] vMoves_follows [OF settleIntent_moves] cancelIntents_follows
        cancelInboxIntents_def vMoves_follows [OF recoverAsUnknown_moves] receiptStart_follows)

text \<open>A row that will not be sent again: accepted can still become failed, the others are final.\<close>

definition settledRow :: "string \<Rightarrow> nat \<Rightarrow> ledger_view \<Rightarrow> bool" where
  "settledRow m x V \<longleftrightarrow> vWf V \<and> vFree x V \<and> rv_msgid (vw_row V x) = m \<and>
     rv_status (vw_row V x) \<in> set NO_MORE_SENDS"

lemma moveAllowed_settled: "s \<in> set NO_MORE_SENDS \<Longrightarrow> moveAllowed s t \<Longrightarrow> t \<in> set NO_MORE_SENDS"
  by (cases t) (auto simp: NO_MORE_SENDS_def moveAllowed_def)

interpretation ledger_settled:
  guarded_machine ledger_step "\<lambda>p. \<not> oldHandle m x (snd p)" "\<lambda>L. settledRow m x (view L)" for m x
proof
  fix L and p :: "ledger_env \<times> ledger_event"
  assume settled: "settledRow m x (view L)" and ok: "\<not> oldHandle m x (snd p)"
  obtain env e where p: "p = (env, e)" by (cases p)
  have "vWf (view (ledger_step L p))" using settled ledger_step_wf by (simp add: p settledRow_def)
  moreover have "vFollows x (view L) (view (ledger_step L p))"
    using settled ok ledger_step_follows by (simp add: p settledRow_def)
  ultimately show "settledRow m x (view (ledger_step L p))"
    using settled by (auto simp: settledRow_def vFollows_def vFree_def intro: moveAllowed_settled)
qed

lemma view_emptyLedger_wf: "vWf (view emptyLedger)"
  by (simp add: emptyLedger_def view_def vWf_def)

section \<open>Properties\<close>

text \<open>
  After any sequence of the ledger's handlers on an empty ledger, the indexes are consistent: a
  message id leads to the row that carries it, that row is listed once under its own session, and
  every row listed under a session belongs to it.
\<close>

theorem ledger_indexes_consistent:
  assumes "L = foldl ledger_step emptyLedger es"
  shows "(\<forall>m x. jget (lg_byMsgid L) m = Some x \<longrightarrow>
            lr_msgid (lg_rows L x) = m \<and> x \<in> set (lg_bySession L (lr_sessionId (lg_rows L x)))) \<and>
         (\<forall>s. distinct (lg_bySession L s) \<and> (\<forall>x \<in> set (lg_bySession L s). lr_sessionId (lg_rows L x) = s))"
proof -
  have "vWf (view L)"
    unfolding assms by (rule ledger_index.run_inv) (rule view_emptyLedger_wf)
  from vWfD [OF this] show ?thesis by (simp add: row_simps)
qed

text \<open>
  C27: Every handler changes the status of a database-account row only along a cell of the
  transition table (some writer's), for every row that is not waiting to be taken over; exempt are
  only a start-up adoption that names the row's message as still open (it copies the database's
  status) and a handle of the old kind on this very row.
\<close>

theorem ledger_status_follows_table:
  assumes "L = foldl ledger_step emptyLedger es"
    and "x < lg_next L" and "lr_v2 (lg_rows L x)" and "x \<notin> snd ` set (lg_holds L)"
    and "\<not> oldHandle (lr_msgid (lg_rows L x)) x e"
  shows "let L' = ledger_step L (env, e); s = lr_status (lg_rows L x); t = lr_status (lg_rows L' x) in
    lr_v2 (lg_rows L' x) \<and> (s = t \<or> (\<exists>w. canMoveOutbound (Some s) t [w]))"
proof -
  have "vWf (view L)"
    unfolding assms(1) by (rule ledger_index.run_inv) (rule view_emptyLedger_wf)
  moreover have "vFree x (view L)" using assms(2-4) by (simp add: vFree_def row_simps)
  ultimately have "vFollows x (view L) (view (ledger_step L (env, e)))"
    using assms(5) ledger_step_follows by (simp add: row_simps)
  then show ?thesis by (simp add: vFollows_def moveAllowed_def row_simps Let_def)
qed

text \<open>
  C28: A segment that was accepted, rejected, failed or cancelled is not sent again in this process:
  its row stays in one of these statuses through any sequence of handlers, so \<open>maySendAgain\<close> is false
  while the ledger knows its message id, and it is false once the row is gone. The sequence may adopt
  other messages at any time; excluded is an adoption that names this very message as still open in
  the database (start-up reads the open rows before it settles any), and a handle of the old kind on
  this row.
\<close>

theorem settled_never_sent_again:
  assumes "vWf (view L)" and "jget (lg_byMsgid L) m = Some x" and "lr_v2 (lg_rows L x)"
    and "x \<notin> snd ` set (lg_holds L)" and "lr_status (lg_rows L x) \<in> set NO_MORE_SENDS"
    and "\<forall>p \<in> set es. \<not> oldHandle m x (snd p)" and "L' = foldl ledger_step L es"
  shows "lr_status (lg_rows L' x) \<in> set NO_MORE_SENDS \<and>
    (jget (lg_byMsgid L') m \<in> {None, Some x} \<longrightarrow> \<not> maySendAgain L' m)"
proof -
  have "x < vw_next (view L)" "rv_msgid (vw_row (view L) x) = m"
    using vWfD(3,4) [OF assms(1)] assms(2) by (simp_all add: row_simps)
  then have "settledRow m x (view L)" using assms(1,3-5) by (simp add: settledRow_def vFree_def row_simps)
  then have "settledRow m x (view L')" unfolding assms(7) using assms(6) by (rule ledger_settled.run_ok)
  then show ?thesis
    by (auto simp: settledRow_def maySendAgain_def row_simps split: option.splits)
qed

section \<open>Witnesses\<close>

definition exampleEnv :: ledger_env where
  "exampleEnv = \<lparr>le_now = 1000, le_live = True, le_dbMode = True, le_demo = (\<lambda>_. False),
     le_session = (\<lambda>_. None), le_seqOf = (\<lambda>_. None), le_accounts = [], le_channelAccountId = (\<lambda>_. None)\<rparr>"

definition exampleOpenRow :: outbound_row where
  "exampleOpenRow = \<lparr>os_conversationId = ''wecom:u1'', os_messageSeq = None, os_kind = KAi, os_sentAt = 500,
     os_status = OSending, os_errcode = None, os_failType = None, os_accountId = Some ''acct'',
     os_inboxId = None, os_segment = 0, os_attempts = 1, os_payload = None\<rparr>"

definition exampleAdopt :: "ledger_env \<times> ledger_event" where
  "exampleAdopt = (exampleEnv, EvAdopt ''acct'' [(''m1'', exampleOpenRow)])"

definition exampleLedger :: ledger where
  "exampleLedger = foldl ledger_step emptyLedger [exampleAdopt]"

lemma exampleLedger_facts:
  "jget (lg_byMsgid exampleLedger) ''m1'' = Some 0" "lr_v2 (lg_rows exampleLedger 0)"
  "lg_next exampleLedger = 1" "lg_holds exampleLedger = []" "lr_status (lg_rows exampleLedger 0) = OSending"
  "lr_msgid (lg_rows exampleLedger 0) = ''m1''" "lr_message (lg_rows exampleLedger 0) = None"
  by (simp_all add: exampleLedger_def exampleAdopt_def adoptOpenOutbound_def adoptOne_def ensureLoaded_def
      emptyLedger_def alloc_def addRow_def setRow_def adoptRow_def exampleOpenRow_def newRow_def Let_def)

lemma exampleLedger_wf: "vWf (view exampleLedger)"
  unfolding exampleLedger_def by (rule ledger_index.run_inv) (rule view_emptyLedger_wf)

lemma ledger_indexes_consistent_witness:
  "0 \<in> set (lg_bySession exampleLedger (lr_sessionId (lg_rows exampleLedger 0)))"
  using ledger_indexes_consistent [OF exampleLedger_def] exampleLedger_facts(1) by blast

lemma ledger_status_follows_table_witness:
  "let t = lr_status (lg_rows (ledger_step exampleLedger (exampleEnv, EvSettle ''m1'' RAccepted None 1)) 0) in
     OSending = t \<or> (\<exists>w. canMoveOutbound (Some OSending) t [w])"
  using ledger_status_follows_table
    [OF exampleLedger_def, of 0 "EvSettle ''m1'' RAccepted None 1" exampleEnv] exampleLedger_facts
  by (simp add: Let_def)

definition exampleSettled :: ledger where
  "exampleSettled = ledger_step exampleLedger (exampleEnv, EvSettle ''m1'' RAccepted None 0)"

lemma exampleEnv_live: "le_live exampleEnv"
  by (simp add: exampleEnv_def)

lemma exampleSettled_wf: "vWf (view exampleSettled)"
  unfolding exampleSettled_def by (rule ledger_step_wf [OF exampleLedger_wf])

lemma exampleSettled_facts:
  "lr_status (lg_rows exampleSettled 0) = OAccepted" "lr_v2 (lg_rows exampleSettled 0)"
  "jget (lg_byMsgid exampleSettled) ''m1'' = Some 0" "lg_holds exampleSettled = []"
  using exampleLedger_facts
  by (simp_all add: exampleSettled_def settleIntent_def v2Row_def Let_def exampleEnv_live row_simps)

lemma settled_never_sent_again_witness:
  "lr_status (lg_rows (foldl ledger_step exampleSettled
     [(exampleEnv, EvReceipt ''m1'' 4), (exampleEnv, EvAdopt ''acct'' [(''m2'', exampleOpenRow)])]) 0)
   \<in> set NO_MORE_SENDS"
proof -
  let ?es = "[(exampleEnv, EvReceipt ''m1'' 4), (exampleEnv, EvAdopt ''acct'' [(''m2'', exampleOpenRow)])]"
  have "lr_status (lg_rows exampleSettled 0) \<in> set NO_MORE_SENDS"
    by (simp add: exampleSettled_facts NO_MORE_SENDS_def)
  moreover have "\<forall>p \<in> set ?es. \<not> oldHandle ''m1'' 0 (snd p)" by simp
  moreover have "0 \<notin> snd ` set (lg_holds exampleSettled)" by (simp add: exampleSettled_facts(4))
  ultimately show ?thesis
    using settled_never_sent_again [OF exampleSettled_wf exampleSettled_facts(3,2) _ _ _ refl, of ?es] by blast
qed

end
