(* ===== verification/LedgerQuota.thy ===== *)
theory LedgerQuota
  imports LedgerSteps
begin

text \<open>
  What the send ledger guarantees to its callers: the status shown for a message, the limit of sends
  per window under concurrent checks, the group that \<open>planOutbound\<close> queues, and the receipt that
  arrives before the row it is about was stored.
\<close>

section \<open>The status of a message\<close>

definition segRank :: "outbound_status \<times> int option \<Rightarrow> nat" where
  "segRank seg = DELIVERY_RANK (deliveryStatusOf (fst seg))"

definition shownBy :: "delivery_view \<Rightarrow> outbound_status \<times> int option \<Rightarrow> bool" where
  "shownBy v seg \<longleftrightarrow> deliveryStatusOf (fst seg) = dv_status v \<and>
     dv_failType v = (if dv_status v = DFailed then snd seg else None)"

lemma segRank_le: "segRank seg \<le> 5"
  by (cases seg; cases "fst seg") (simp_all add: segRank_def)

text \<open>The loop started with a worst segment \<open>b\<close> it has already seen.\<close>

lemma worstSegment_spec:
  assumes "worst = None \<and> seen = [] \<or>
      (\<exists>b. worst = Some \<lparr>dv_status = deliveryStatusOf (fst b), dv_failType = snd b\<rparr> \<and> b \<in> set seen \<and>
         (\<forall>seg \<in> set seen. segRank seg \<le> segRank b) \<and> fst b \<notin> {OPending, OSending})"
    and "seen @ segs \<noteq> []"
  shows "\<exists>v. worstSegment worst segs = Some v \<and> (\<exists>seg \<in> set (seen @ segs). shownBy v seg) \<and>
     (\<forall>seg \<in> set (seen @ segs). segRank seg \<le> DELIVERY_RANK (dv_status v))"
  using assms
proof (induction segs arbitrary: worst seen)
  case Nil
  then obtain b where b: "worst = Some \<lparr>dv_status = deliveryStatusOf (fst b), dv_failType = snd b\<rparr>" "b \<in> set seen"
    "\<forall>seg \<in> set seen. segRank seg \<le> segRank b" by auto
  then show ?case by (auto simp: shownBy_def segRank_def intro!: bexI [of _ b])
next
  case (Cons seg segs)
  obtain s ft where seg: "seg = (s, ft)" by (cases seg)
  show ?case
  proof (cases "s = OPending \<or> s = OSending")
    case True
    then have "shownBy \<lparr>dv_status = DSending, dv_failType = None\<rparr> seg" by (auto simp: seg shownBy_def)
    then show ?thesis
      using True segRank_le by (auto simp: seg intro!: bexI [of _ seg])
  next
    case False
    let ?new = "case worst of None \<Rightarrow> True | Some w \<Rightarrow> DELIVERY_RANK (deliveryStatusOf s) > DELIVERY_RANK (dv_status w)"
    let ?w = "if ?new then Some \<lparr>dv_status = deliveryStatusOf s, dv_failType = ft\<rparr> else worst"
    have step: "worstSegment worst (seg # segs) = worstSegment ?w segs"
      using False by (simp add: seg Let_def)
    have "?w = None \<and> seen @ [seg] = [] \<or>
      (\<exists>b. ?w = Some \<lparr>dv_status = deliveryStatusOf (fst b), dv_failType = snd b\<rparr> \<and> b \<in> set (seen @ [seg]) \<and>
         (\<forall>x \<in> set (seen @ [seg]). segRank x \<le> segRank b) \<and> fst b \<notin> {OPending, OSending})"
    proof (cases ?new)
      case True
      then show ?thesis
        using Cons.prems(1) False
        by (intro disjI2 exI [of _ seg]) (auto simp: seg segRank_def)
    next
      case False
      then obtain b where "worst = Some \<lparr>dv_status = deliveryStatusOf (fst b), dv_failType = snd b\<rparr>" "b \<in> set seen"
        "\<forall>x \<in> set seen. segRank x \<le> segRank b" "fst b \<notin> {OPending, OSending}"
        using Cons.prems(1) by auto
      with False show ?thesis by (intro disjI2 exI [of _ b]) (auto simp: seg segRank_def)
    qed
    from Cons.IH [OF this] show ?thesis by (simp only: step) simp
  qed
qed

section \<open>Sends per window\<close>

lemma ensureLoaded_none: "lg_preload L = [] \<Longrightarrow> ensureLoaded L = L"
  by (simp add: ensureLoaded_def)

definition usedIn :: "ledger \<Rightarrow> string \<Rightarrow> ms \<Rightarrow> nat" where
  "usedIn L s t = length (filter (countedIn L t) (lg_bySession L s))"

lemma sendWindow_open:
  "lg_preload L = [] \<Longrightarrow> Option.bind (le_session env s) windowStartOf = Some t \<Longrightarrow>
   sendWindow env L s now = \<lparr>sw_lastCustomerAt = Some t, sw_closesAt = Some (t + WINDOW_MS),
     sw_used = int (usedIn L s t),
     sw_remaining = (if now \<ge> t + WINDOW_MS then 0 else max 0 (WINDOW_SENDS - int (usedIn L s t)))\<rparr>"
  by (simp add: sendWindow_def ensureLoaded_none usedIn_def Let_def)

lemma holdSend_used:
  assumes wf: "vWf (view L)" and pre: "lg_preload L = []" and t: "t \<le> le_now env"
  shows "usedIn (snd (holdSend env L s k m i)) s t = Suc (usedIn L s t)"
    and "lg_preload (snd (holdSend env L s k m i)) = []"
proof -
  let ?L = "snd (holdSend env L s k m i)"
  have list: "lg_bySession ?L s = lg_bySession L s @ [lg_next L]"
    by (simp add: holdSend_def ensureLoaded_none [OF pre] alloc_def addRow_def newRow_def Let_def)
  have rows: "lg_rows ?L x = (if x = lg_next L then (newRow s k (Some m) (le_now env) i)\<lparr>lr_held := True\<rparr> else lg_rows L x)" for x
    by (simp add: holdSend_def ensureLoaded_none [OF pre] alloc_def addRow_def Let_def)
  have "x \<noteq> lg_next L" if "x \<in> set (lg_bySession L s)" for x
    using vWfD(7) [OF wf, of x s] that by (simp add: row_simps)
  then have "filter (countedIn ?L t) (lg_bySession L s) = filter (countedIn L t) (lg_bySession L s)"
    by (intro filter_cong) (simp_all add: countedIn_def rows)
  moreover have "countedIn ?L t (lg_next L)"
    using t by (simp add: countedIn_def rows newRow_def COUNTED_def)
  ultimately show "usedIn ?L s t = Suc (usedIn L s t)" by (simp add: usedIn_def list)
  show "lg_preload ?L = []"
    using pre by (simp add: holdSend_def ensureLoaded_none [OF pre] alloc_def addRow_def Let_def)
qed

text \<open>
  A human reply checks the window and takes a place in the same synchronous stretch; \<open>humanBurst\<close>
  lets several replies of a session do so one after the other before any of them is sent.
\<close>

definition tryHumanReply :: "ledger_env \<Rightarrow> string \<Rightarrow> ledger \<Rightarrow> mref \<times> string \<Rightarrow> bool \<times> ledger" where
  "tryHumanReply env s L req =
     (case humanReplyVerdict env L s (le_now env) of
        ReplyOk w \<Rightarrow> (True, snd (holdSend env L s KHuman (fst req) (snd req)))
      | _ \<Rightarrow> (False, L))"

fun humanBurst :: "ledger_env \<Rightarrow> string \<Rightarrow> ledger \<Rightarrow> (mref \<times> string) list \<Rightarrow> nat \<times> ledger" where
  "humanBurst env s L [] = (0, L)"
| "humanBurst env s L (req # reqs) =
     (let (ok, L1) = tryHumanReply env s L req; (n, L2) = humanBurst env s L1 reqs in
      ((if ok then 1 else 0) + n, L2))"

lemma tryHumanReply_open:
  assumes "vWf (view L)" "lg_preload L = []" "Option.bind (le_session env s) windowStartOf = Some t"
    "t \<le> le_now env" "le_now env < t + WINDOW_MS"
  shows "tryHumanReply env s L req =
     (if usedIn L s t < 5 then (True, snd (holdSend env L s KHuman (fst req) (snd req))) else (False, L))"
  using assms(5) by (simp add: tryHumanReply_def humanReplyVerdict_def Let_def sendWindow_open [OF assms(2,3)] WINDOW_SENDS_def)

lemma humanBurst_open:
  assumes "vWf (view L)" "lg_preload L = []" "Option.bind (le_session env s) windowStartOf = Some t"
    "t \<le> le_now env" "le_now env < t + WINDOW_MS"
  shows "fst (humanBurst env s L reqs) = min (length reqs) (5 - usedIn L s t) \<and>
     usedIn (snd (humanBurst env s L reqs)) s t = usedIn L s t + fst (humanBurst env s L reqs)"
  using assms(1,2)
proof (induction reqs arbitrary: L)
  case (Cons req reqs)
  show ?case
  proof (cases "usedIn L s t < 5")
    case True
    let ?L = "snd (holdSend env L s KHuman (fst req) (snd req))"
    have "vWf (view ?L)" by (rule holdSend_ok(1) [OF Cons.prems(1)])
    moreover note holdSend_used [OF Cons.prems assms(4), of s KHuman "fst req" "snd req"]
    ultimately show ?thesis
      using Cons.IH [of ?L] True
      by (simp add: tryHumanReply_open [OF Cons.prems assms(3-5)] Let_def case_prod_beta min_def) linarith
  next
    case False
    then show ?thesis
      using Cons.IH [of L] Cons.prems
      by (simp add: tryHumanReply_open [OF Cons.prems assms(3-5)] Let_def case_prod_beta)
  qed
qed simp

section \<open>Properties\<close>

text \<open>
  The status shown for a message with segments is the worst one among them, with "sending" above
  all: no segment ranks higher than what is shown, some segment has exactly that status, and a reason
  code is shown only for a failure and is that segment's.
\<close>

theorem deliveryOfSegments_worst:
  assumes "segs \<noteq> []"
  shows "\<exists>v. deliveryOfSegments segs = Some v \<and>
     (\<forall>(s, ft) \<in> set segs. DELIVERY_RANK (deliveryStatusOf s) \<le> DELIVERY_RANK (dv_status v)) \<and>
     (\<exists>(s, ft) \<in> set segs. deliveryStatusOf s = dv_status v \<and>
        dv_failType v = (if dv_status v = DFailed then ft else None))"
proof -
  obtain v where "worstSegment None segs = Some v" "\<exists>seg \<in> set segs. shownBy v seg"
    "\<forall>seg \<in> set segs. segRank seg \<le> DELIVERY_RANK (dv_status v)"
    using worstSegment_spec [of None "[]" segs] assms by auto
  then show ?thesis
    by (intro exI [of _ v]) (fastforce simp: deliveryOfSegments_def shownBy_def segRank_def)
qed

text \<open>
  C29: Checking and taking a place at once never oversells the window: while the window is open, of
  any number of human replies made one after the other before anything is sent, exactly as many pass
  as there are sends left, and the count of used sends grows by exactly that number.
\<close>

theorem human_replies_never_oversell:
  assumes "vWf (view L)" and "lg_preload L = []"
    and "Option.bind (le_session env s) windowStartOf = Some t"
    and "t \<le> le_now env" and "le_now env < t + WINDOW_MS"
    and "humanBurst env s L reqs = (n, L')"
  shows "int n = min (int (length reqs)) (sw_remaining (sendWindow env L s (le_now env))) \<and>
     sw_used (sendWindow env L' s (le_now env)) = sw_used (sendWindow env L s (le_now env)) + int n"
proof -
  have pre: "lg_preload (snd (humanBurst env s L reqs)) = []"
    using assms(1,2)
  proof (induction reqs arbitrary: L)
    case (Cons req reqs)
    then show ?case
      using holdSend_used(2) [OF Cons.prems assms(4), of s KHuman "fst req" "snd req"]
        holdSend_ok(1) [OF Cons.prems(1), of env s KHuman "fst req" "snd req"]
      by (simp add: tryHumanReply_open [OF Cons.prems assms(3-5)] Let_def case_prod_beta)
  qed simp
  have burst: "n = min (length reqs) (5 - usedIn L s t)" "usedIn L' s t = usedIn L s t + n"
    using humanBurst_open [OF assms(1-5), of reqs] assms(6) by simp_all
  have "lg_preload L' = []" using pre assms(6) by simp
  with burst assms(5) show ?thesis
    by (simp add: sendWindow_open [OF assms(2,3)] sendWindow_open [OF _ assms(3)] WINDOW_SENDS_def
        min_def max_def) linarith
qed

section \<open>Receipts and queued rows\<close>

lemma lg_rows_setRow: "lg_rows (setRow x f L) y = (if y = x then f (lg_rows L x) else lg_rows L y)"
  by (simp add: setRow_def)

lemma setRow_writes [simp]: "lg_writes (setRow x f L) = lg_writes L"
  by (simp add: setRow_def)

lemma armRow_writes [simp]: "lg_writes (armRow env x L) = lg_writes L"
  by (simp add: armRow_def armSeqTimer_def Let_def split: option.splits)

lemma awaitSeq_writes [simp]: "lg_writes (awaitSeq env x L) = lg_writes L"
  by (simp add: awaitSeq_def armSeqTimer_def Let_def case_prod_beta split: option.splits)

lemma explain_writes [simp]: "lg_writes (explain env s t L) = lg_writes L"
  by (simp add: explain_def emit_def)

lemma receiptStart_write:
  assumes "lg_preload L = []" and "v2Row L m = Some x" and "receiptMoves (lg_rows L x)"
    and "lr_dbRow (lg_rows L x) = Some w" and "w < length (lg_writes L)"
  shows "lg_writes (snd (receiptStart env m t L)) ! w =
     (lg_writes L ! w)\<lparr>ow_status := OFailed, ow_failType := Some t, ow_payload := None\<rparr>"
proof -
  have "jget (lg_byMsgid L) m = Some x" "lr_v2 (lg_rows L x)"
    using assms(2) by (simp_all add: v2Row_Some)
  then show ?thesis
    using assms(3-5)
    by (simp add: receiptStart_def ensureLoaded_none [OF assms(1)] Let_def receiptMove_def lg_rows_setRow
        failQueued_def finishRow_def)
qed

text \<open>
  A failure receipt that arrives before the segment's row was stored is not lost: it turns the
  queued row into a failed one in place, so when that row is flushed the ledger table ends with a
  final status and no payload, and with \<open>failed\<close> and the receipt's reason where there was no row.
\<close>

theorem receipt_before_flush:
  assumes "lg_preload L = []" and "v2Row L m = Some x"
    and "lr_status (lg_rows L x) \<in> {OPending, OSending, OAccepted, OUnknown}"
    and "lr_dbRow (lg_rows L x) = Some w" and "w < length (lg_writes L)"
    and "ow_channelMsgid (lg_writes L ! w) = m" and "payloadOk (jget tab m)"
  shows "\<exists>row. jget (insertOutboundSends tab [lg_writes (snd (receiptStart env m t L)) ! w]) m = Some row \<and>
     os_status row \<in> {OFailed, ORejected, OCancelled} \<and> os_payload row = None \<and>
     (jget tab m = None \<longrightarrow> os_status row = OFailed \<and> os_failType row = Some t)"
proof -
  have "receiptMoves (lg_rows L x)"
    using assms(3) by (auto simp: receiptMoves_def)
  note w = receiptStart_write [OF assms(1,2) this assms(4,5), of env t]
  show ?thesis
  proof (cases "jget tab m")
    case (Some r)
    then show ?thesis
      using assms(6,7)
      by (cases "os_status r")
         (auto simp: jget_insertOutboundSends w cellWrite_def insertable_def onConflict_def insertValues_def
               payloadOk_def openStatus_def Let_def)
  qed (use assms(6) in \<open>simp add: jget_insertOutboundSends w cellWrite_def insertable_def insertValues_def\<close>)
qed

section \<open>The group that is queued\<close>

definition plannedRow :: "string \<Rightarrow> outbound_kind \<Rightarrow> nat \<Rightarrow> outbound_payload \<Rightarrow> row_view \<Rightarrow> bool" where
  "plannedRow s k n p r \<longleftrightarrow> rv_sessionId r = s \<and> rv_kind r = k \<and> rv_v2 r \<and> rv_status r = OPending \<and>
     rv_segment r = n \<and> rv_payload r = Some p"

definition planned :: "string \<Rightarrow> outbound_kind \<Rightarrow> outbound_payload list \<Rightarrow> nat \<Rightarrow> nat list \<Rightarrow> ledger_view \<Rightarrow> bool" where
  "planned s k ps n rids V \<longleftrightarrow> length rids = n \<and>
     (\<forall>j < n. rids ! j < vw_next V \<and> plannedRow s k j (ps ! j) (vw_row V (rids ! j)))"

lemma planSegment_planned:
  assumes "planned s k ps n rids (view L)"
    and held: "\<And>y. held = Some y \<Longrightarrow> y < vw_next (view L) \<and> (n = 0 \<longrightarrow> rv_sessionId (vw_row (view L) y) = s)"
    and st: "planSegment env a s k m i held f (rids, L) (n, ps ! n) = (rids', L')"
  shows "planned s k ps (Suc n) rids' (view L')"
proof -
  have view: "view L' = view (snd (planSegment env a s k m i held f (rids, L) (n, ps ! n)))"
    by (simp add: st)
  have len: "length rids = n" and old: "rids ! j < vw_next (view L)" "plannedRow s k j (ps ! j) (vw_row (view L) (rids ! j))"
    if "j < n" for j
    using assms(1) that by (simp_all add: planned_def)
  have len': "length rids = n" using assms(1) by (simp add: planned_def)
  show ?thesis
  proof (cases "n = 0 \<and> held \<noteq> None \<and> MSGID_RE (rv_msgid (vw_row (view L) (the held)))")
    case True
    then have "rids' = [the held]" using st len' by (simp add: planSegment_def case_prod_beta Let_def row_simps)
    then show ?thesis
      using True held by (auto simp: planned_def view view_planSegment Let_def plannedRow_def vTakeHold_def vSet_def)
  next
    case False
    then have "rids' = rids @ [vw_next (view L)]"
      using st by (auto simp: planSegment_def case_prod_beta Let_def row_simps)
    moreover have "vw_row (view L') = (vw_row (view L))(vw_next (view L) := (rowView (newRow s k m (le_now env) (f n)))\<lparr>
        rv_v2 := True, rv_status := OPending, rv_segment := n, rv_payload := Some (ps ! n)\<rparr>)"
      "vw_next (view L') = Suc (vw_next (view L))"
      using False by (auto simp: view view_planSegment Let_def fun_eq_iff)
    moreover have "rids ! j \<noteq> vw_next (view L)" if "j < n" for j using old(1) [OF that] by simp
    ultimately show ?thesis
      using old len' by (auto simp: planned_def plannedRow_def nth_append less_Suc_eq row_simps)
  qed
qed

lemma planSegments_planned:
  assumes "planReady held (view M)" and "\<And>y. held = Some y \<Longrightarrow> rv_sessionId (vw_row (view M) y) = s"
    and "n \<le> length ps"
  shows "let st = foldl (planSegment env a s k m i held f) ([], M) (enumerate 0 (take n ps)) in
     planned s k ps n (fst st) (view (snd st)) \<and> planReady held (view (snd st)) \<and>
     lg_log (snd st) = lg_log M"
  using assms(3)
proof (induction n)
  case 0
  then show ?case using assms(1) by (simp add: planned_def)
next
  case (Suc n)
  define st where "st = foldl (planSegment env a s k m i held f) ([], M) (enumerate 0 (take n ps))"
  have IH: "planned s k ps n (fst st) (view (snd st))" "planReady held (view (snd st))" "lg_log (snd st) = lg_log M"
    using Suc by (simp_all add: st_def Let_def)
  have enum: "enumerate 0 (take (Suc n) ps) = enumerate 0 (take n ps) @ [(n, ps ! n)]"
    using Suc.prems by (simp add: take_Suc_conv_app_nth enumerate_append_eq)
  let ?st = "planSegment env a s k m i held f st (n, ps ! n)"
  have zero: "n = 0 \<longrightarrow> st = ([], M)" by (simp add: st_def)
  have "planned s k ps (Suc n) (fst ?st) (view (snd ?st))"
    using planSegment_planned [of s k ps n "fst st" "snd st" held env a m i f "fst ?st" "snd ?st"]
      IH(1,2) zero assms(2) by (auto simp: planReady_def)
  moreover have "planReady held (view (snd ?st))" by (rule planSegment_ready [OF IH(2)])
  moreover have "lg_log (snd ?st) = lg_log M"
    using IH(3) by (cases st) (simp add: planSegment_def Let_def case_prod_beta addRow_def setRow_def alloc_def
        takeHold_def removeRow_def)
  ultimately show ?case by (simp add: enum st_def Let_def)
qed

lemma writeShape_dbRow [simp]: "writeShape env (r\<lparr>lr_dbRow := d, lr_inDb := b\<rparr>) st = writeShape env r st"
  by (auto simp: writeShape_def Let_def split: option.splits)

lemma pendingObjects:
  "\<exists>L'. foldl (pendingObject env) (ws, L) rids = (ws @ [length (lg_writes L) ..< length (lg_writes L) + length rids], L') \<and>
     lg_writes L' = lg_writes L @ map (\<lambda>x. writeShape env (lg_rows L x) OPending) rids \<and>
     lg_log L' = lg_log L"
proof (induction rids arbitrary: ws L)
  case (Cons x rids)
  obtain w L1 where q: "queueObject (writeShape env (lg_rows L x) OPending) x L = (w, L1)"
    by (cases "queueObject (writeShape env (lg_rows L x) OPending) x L")
  define L2 where "L2 = L1\<lparr>lg_pendingWrites := jset (lg_pendingWrites L1) w x\<rparr>"
  have L2: "lg_writes L2 = lg_writes L @ [writeShape env (lg_rows L x) OPending]" "lg_log L2 = lg_log L"
    "w = length (lg_writes L)" "\<And>y. writeShape env (lg_rows L2 y) OPending = writeShape env (lg_rows L y) OPending"
    using q by (auto simp: L2_def queueObject_def Let_def setRow_def)
  have "foldl (pendingObject env) (ws, L) (x # rids) = foldl (pendingObject env) (ws @ [w], L2) rids"
    by (simp add: pendingObject_def q L2_def Let_def)
  moreover have "[length (lg_writes L) ..< length (lg_writes L) + length (x # rids)] =
      length (lg_writes L) # [length (lg_writes L2) ..< length (lg_writes L2) + length rids]"
    by (subst upt_conv_Cons) (simp_all add: L2(1) del: upt_Suc)
  ultimately show ?case
    using Cons.IH [of "ws @ [w]" L2] by (simp add: L2 del: upt_Suc)
qed simp

lemma load_log: "lg_log (ensureLoaded L) = lg_log L"
proof -
  have one: "lg_log (foldl (loadOne s) L rows) = lg_log L" for s L and rows
    by (induction rows arbitrary: L) (simp_all add: loadOne_def alloc_def addRow_def Let_def)
  have "lg_log (foldl (\<lambda>M (s, rows). foldl (loadOne s) M rows) L pre) = lg_log L" for L pre
    by (induction pre arbitrary: L) (auto simp: one)
  then show ?thesis by (simp add: ensureLoaded_def)
qed

lemma prune_log: "lg_log (prune s now L) = lg_log L"
  by (simp add: prune_def Let_def split: list.splits)

lemma armSeqTimer_log: "lg_log (armSeqTimer env m L) = lg_log L"
  by (simp add: armSeqTimer_def Let_def split: option.splits)

text \<open>A planned row's write object.\<close>

lemma writeShape_planned:
  "plannedRow s k n p (vw_row (view L) x) \<Longrightarrow>
   ow_status (writeShape env (lg_rows L x) OPending) = OPending \<and>
   ow_segment (writeShape env (lg_rows L x) OPending) = Some n \<and>
   ow_payload (writeShape env (lg_rows L x) OPending) = Some p"
  by (simp add: plannedRow_def writeShape_def Let_def row_simps)

text \<open>
  \<open>planOutbound\<close> stores before anything is sent: when it accepts a group, it returns one intent
  per payload, numbered from zero and carrying its payload, and for a stored session the only things
  it hands to the store are one batch with exactly these segments, pending and with their payload, and
  after it, for a reply, the inbound message's move to replied.
\<close>

theorem planOutbound_queues_group:
  assumes "vWf (view L)" and "ps \<noteq> []"
    and "planOutbound env L acc s b k m i ps f = (Inr intents, L')"
  shows "map oi_segment intents = [0..<length ps] \<and> map oi_payload intents = map Some ps \<and>
    (\<forall>it \<in> set intents. oi_sessionId it = s \<and> oi_kind it = k) \<and>
    (writesToDb env s \<longrightarrow> (\<exists>wids. length wids = length ps \<and>
       (\<forall>j < length ps. let w = lg_writes L' ! (wids ! j) in
          ow_status w = OPending \<and> ow_segment w = Some j \<and> ow_payload w = Some (ps ! j)) \<and>
       lg_log L' = lg_log L @ [if b \<and> hasSession env s then EffQueueRows s wids else EffWriteNow wids] @
         (case i of None \<Rightarrow> [] | Some j \<Rightarrow> [EffQueueReplied s j])))"
proof -
  define M where "M = prune s (le_now env) (ensureLoaded L)"
  define held where "held = heldFor M s m"
  define st where "st = foldl (planSegment env (ac_id acc) s k m i held f) ([], M) (enumerate 0 ps)"
  define L4 where "L4 = (case m of None \<Rightarrow> snd st | Some x \<Rightarrow> armSeqTimer env x (snd st))"
  define L5 where "L5 = writePending env (fst st) (b \<and> hasSession env s) L4"
  have out: "intents = map (\<lambda>x. intentOf env (lg_rows L' x)) (fst st)"
    "L' = (case i of Some j \<Rightarrow> if writesToDb env s then emit (EffQueueReplied s j) L5 else L5 | None \<Rightarrow> L5)"
    using assms(2,3)
    by (auto simp: planOutbound_def Let_def case_prod_beta M_def held_def st_def L4_def L5_def split: option.splits)
  have "vWf (view M)" using ensureLoaded_ok(1) [OF assms(1)] prune_ok(1) by (simp add: M_def)
  then have ready: "planReady held (view M)" using heldFor_wf by (auto simp: planReady_def held_def)
  have sess: "rv_sessionId (vw_row (view M) y) = s" if "held = Some y" for y
    using that heldFor_session by (simp add: held_def)
  have st: "planned s k ps (length ps) (fst st) (view (snd st))" "lg_log (snd st) = lg_log M"
    using planSegments_planned [OF ready sess order_refl, where ps = ps and env = env and a = "ac_id acc" and m = m and i = i and f = f and k = k]
    by (simp_all add: st_def Let_def)
  have view4: "view L4 = view (snd st)" and view': "view L' = view (snd st)"
    by (auto simp: out(2) L5_def L4_def split: option.splits)
  have rows: "length (fst st) = length ps"
    "\<And>j. j < length ps \<Longrightarrow> plannedRow s k j (ps ! j) (vw_row (view L4) (fst st ! j))"
    using st(1) by (simp_all add: planned_def view4)
  have log4: "lg_log L4 = lg_log L"
    using st(2) by (auto simp: L4_def M_def load_log prune_log armSeqTimer_log split: option.splits)
  have "map oi_segment intents = [0..<length ps]" "map oi_payload intents = map Some ps"
    "\<forall>it \<in> set intents. oi_sessionId it = s \<and> oi_kind it = k"
    using rows by (auto simp: out(1) intentOf_def plannedRow_def view4 view' row_simps
        in_set_conv_nth intro!: nth_equalityI)
  moreover have "\<exists>wids. length wids = length ps \<and>
       (\<forall>j < length ps. let w = lg_writes L' ! (wids ! j) in
          ow_status w = OPending \<and> ow_segment w = Some j \<and> ow_payload w = Some (ps ! j)) \<and>
       lg_log L' = lg_log L @ [if b \<and> hasSession env s then EffQueueRows s wids else EffWriteNow wids] @
         (case i of None \<Rightarrow> [] | Some j \<Rightarrow> [EffQueueReplied s j])" if db: "writesToDb env s"
  proof -
    let ?wids = "[length (lg_writes L4) ..< length (lg_writes L4) + length (fst st)]"
    obtain first rest where rids: "fst st = first # rest" using rows(1) assms(2) by (cases "fst st") auto
    then have "lr_sessionId (lg_rows L4 first) = s"
      using rows(2) [of 0] assms(2) by (simp add: plannedRow_def row_simps)
    moreover obtain LP where LP: "foldl (pendingObject env) ([], L4) (fst st) = (?wids, LP)"
      "lg_writes LP = lg_writes L4 @ map (\<lambda>x. writeShape env (lg_rows L4 x) OPending) (fst st)" "lg_log LP = lg_log L4"
      using pendingObjects [of env "[]" L4 "fst st"] by auto
    ultimately have L5: "L5 = emit (if b \<and> hasSession env s then EffQueueRows s ?wids else EffWriteNow ?wids) LP"
      using db rids by (auto simp: L5_def writePending_def queueOutboundRows_def Let_def case_prod_beta)
    have "lg_writes L' = lg_writes LP"
      by (auto simp: out(2) L5 emit_def split: option.splits)
    moreover have "lg_log L' = lg_log L @ [if b \<and> hasSession env s then EffQueueRows s ?wids else EffWriteNow ?wids] @
         (case i of None \<Rightarrow> [] | Some j \<Rightarrow> [EffQueueReplied s j])"
      using db by (auto simp: out(2) L5 emit_def LP(3) log4 split: option.splits)
    moreover have "lg_writes LP ! (?wids ! j) = writeShape env (lg_rows L4 (fst st ! j)) OPending"
      if "j < length ps" for j
      using that rows(1) by (simp add: LP(2) nth_append)
    ultimately show ?thesis
      using rows(1) writeShape_planned [OF rows(2)]
      by (intro exI [of _ ?wids]) (simp add: Let_def)
  qed
  ultimately show ?thesis by blast
qed

section \<open>Witnesses\<close>

lemma deliveryOfSegments_worst_witness:
  "\<exists>v. deliveryOfSegments [(OAccepted, None), (OFailed, Some 4)] = Some v \<and>
     DELIVERY_RANK (dv_status v) \<ge> 4"
  using deliveryOfSegments_worst [of "[(OAccepted, None), (OFailed, Some 4)]"] by auto

definition openEnv :: ledger_env where
  "openEnv = exampleEnv\<lparr>le_session := (\<lambda>_. Some [\<lparr>cm_ref = 0, cm_customer = True, cm_sentAt = Some 400, cm_at = Some 500\<rparr>])\<rparr>"

lemma openEnv_window: "Option.bind (le_session openEnv s) windowStartOf = Some 400"
  by (simp add: openEnv_def windowStartOf_def)

definition exampleBurst :: "nat \<times> ledger" where
  "exampleBurst = humanBurst openEnv ''wecom:u1'' emptyLedger
     (map (\<lambda>n. (n, replicate (Suc n) (CHR ''m''))) [1..<8])"

lemma human_replies_never_oversell_witness: "fst exampleBurst = 5"
proof -
  have pre: "lg_preload emptyLedger = []" by (simp add: emptyLedger_def)
  have now: "le_now openEnv = 1000" by (simp add: openEnv_def exampleEnv_def)
  have "usedIn emptyLedger ''wecom:u1'' 400 = 0" by (simp add: usedIn_def emptyLedger_def)
  then have "sw_remaining (sendWindow openEnv emptyLedger ''wecom:u1'' (le_now openEnv)) = 5"
    by (simp add: sendWindow_open [OF pre openEnv_window] now WINDOW_MS_def WINDOW_SENDS_def)
  then show ?thesis
    using human_replies_never_oversell
      [OF view_emptyLedger_wf pre openEnv_window [of "''wecom:u1''"], of "map (\<lambda>n. (n, replicate (Suc n) (CHR ''m''))) [1..<8]"
        "fst exampleBurst" "snd exampleBurst"]
    by (simp add: now WINDOW_MS_def exampleBurst_def)
qed

definition exampleUnknown :: ledger where
  "exampleUnknown = noteUnknown exampleEnv ''m1'' None exampleLedger"

lemma exampleLedger_writes: "lg_writes exampleLedger = []" "lg_preload exampleLedger = []"
  by (simp_all add: exampleLedger_def exampleAdopt_def adoptOpenOutbound_def adoptOne_def ensureLoaded_def
      emptyLedger_def alloc_def addRow_def setRow_def Let_def)

lemma exampleUnknown_facts:
  "lg_preload exampleUnknown = []" "v2Row exampleUnknown ''m1'' = Some 0"
  "lr_status (lg_rows exampleUnknown 0) = OUnknown" "lr_dbRow (lg_rows exampleUnknown 0) = Some 0"
  "length (lg_writes exampleUnknown) = 1" "ow_channelMsgid (lg_writes exampleUnknown ! 0) = ''m1''"
  using exampleLedger_facts exampleLedger_writes
  by (simp_all add: exampleUnknown_def noteUnknown_def v2Row_def persist_def unnumbered_def writesToDb_def
      hasSession_def writeRow_def queueObject_def writeShape_def setRow_def emit_def exampleEnv_def Let_def)

lemma receipt_before_flush_witness:
  "\<exists>row. jget (insertOutboundSends [] [lg_writes (snd (receiptStart exampleEnv ''m1'' 4 exampleUnknown)) ! 0]) ''m1'' = Some row \<and>
     os_status row = OFailed"
  using receipt_before_flush [OF exampleUnknown_facts(1,2) _ exampleUnknown_facts(4) _ exampleUnknown_facts(6), of "[]" exampleEnv 4]
  by (auto simp: exampleUnknown_facts payloadOk_def)

definition exampleAccount :: channel_account where
  "exampleAccount = \<lparr>ac_id = ''01234567-89ab-cdef-0123-456789abcdef'', ac_key = ''main'', ac_kind = WecomKf,
     ac_source = FromDb, ac_idPrefix = Some ''wecom:''\<rparr>"

definition planEnv :: ledger_env where
  "planEnv = openEnv\<lparr>le_accounts := [exampleAccount]\<rparr>"

definition examplePayload :: outbound_payload where
  "examplePayload = PText (Some [104, 105])"

lemma examplePlan_ok: "planProblem planEnv exampleAccount ''wecom:u1'' True KAi None [examplePayload] = None"
proof -
  have "UUID_RE (ac_id exampleAccount)"
    by (simp add: exampleAccount_def UUID_RE_def anyHex_def upt_rec)
  moreover have "payloadProblem examplePayload = None"
    by (simp add: examplePayload_def payloadProblem_def shapeProblem_def cleanNonEmpty_def cleanText_def
        jsonBytes_def jsonString_def PAYLOAD_MAX_BYTES_def jsonUnit_def isHigh_def isLow_def utf8Unit_def)
  moreover have "accountForSession (le_accounts planEnv) ''wecom:u1'' c = Some exampleAccount" for c
    by (simp add: planEnv_def accountForSession_def DEFAULT_WECOM_PREFIX_def exampleAccount_def)
  ultimately show ?thesis
    by (simp add: planProblem_def PLAN_KINDS_def SEGMENT_MAX_def) (simp add: exampleAccount_def)
qed

lemma planOutbound_queues_group_witness:
  "\<exists>intents L'. planOutbound planEnv emptyLedger exampleAccount ''wecom:u1'' True KAi None None [examplePayload]
      (\<lambda>_. ''x'') = (Inr intents, L') \<and> map oi_segment intents = [0]"
proof -
  obtain intents L' where plan: "planOutbound planEnv emptyLedger exampleAccount ''wecom:u1'' True KAi None None
      [examplePayload] (\<lambda>_. ''x'') = (Inr intents, L')"
    by (simp add: planOutbound_def examplePlan_ok Let_def case_prod_beta)
  from planOutbound_queues_group [OF view_emptyLedger_wf _ plan] plan show ?thesis by simp
qed

end
