(* ===== verification/InboxRepo.thy ===== *)
theory InboxRepo
  imports Transitions "HOL-Library.Product_Lexorder"
begin

text \<open>
  The inbound record table (\<open>src/db/repo/channel-inbox.ts\<close>): one row per message the channel
  delivered, unique per account and message id, whose state only moves forward along the table of
  \<open>Transitions\<close>. A caller whose reason does not go with the state gets an error before any
  statement is sent. Row ids come from the database; the model takes the generator \<open>newId\<close> as an
  argument and lets the identity column \<open>ord\<close> be the generator's input.
\<close>

section \<open>Rows\<close>

record inbox_row =
  ib_id :: string
  ib_ord :: nat
  ib_accountId :: string
  ib_msgid :: string
  ib_kind :: inbox_kind
  ib_conversationId :: "string option"
  ib_sentAt :: "ms option"
  ib_receivedAt :: ms
  ib_state :: inbox_state
  ib_reason :: "inbox_abandon_reason option"
  ib_attempts :: nat
  ib_messageSeq :: "nat option"
  ib_payload :: "string option"
  ib_updatedAt :: ms

record new_inbox_row =
  nb_msgid :: string
  nb_kind :: inbox_kind
  nb_conversationId :: "string option"
  nb_sentAt :: "ms option"
  nb_state :: inbox_state
  nb_reason :: "inbox_abandon_reason option"
  nb_attempts :: "nat option"
  nb_payload :: "string option"
  nb_receivedAt :: "ms option"

text \<open>The table with its identity sequence; the sequence also advances over skipped rows.\<close>

record inbox_db =
  idb_rows :: "inbox_row list"
  idb_nextOrd :: nat

datatype inbox_error = ReasonMismatch inbox_state "inbox_abandon_reason option"

record inbox_change =
  ch_state :: inbox_state
  ch_reason :: "inbox_abandon_reason option"
  ch_messageSeq :: "nat option"

record inbox_state_write =
  iw_inboxId :: string
  iw_state :: inbox_state
  iw_reason :: "inbox_abandon_reason option"
  iw_messageSeq :: "nat option"

section \<open>Statements\<close>

definition checkReason ::
    "inbox_state \<Rightarrow> inbox_abandon_reason option \<Rightarrow> inbox_error + inbox_abandon_reason option" where
  "checkReason state reason =
     (if (state = IAbandoned) \<noteq> (reason \<noteq> None)
      then Inl (ReasonMismatch state reason) else Inr reason)"

definition inboxFinished :: "inbox_state \<Rightarrow> bool" where
  "inboxFinished s \<longleftrightarrow> s \<in> set INBOX_FINISHED_STATES"

definition inboxOpen :: "inbox_state \<Rightarrow> bool" where
  "inboxOpen s \<longleftrightarrow> s \<in> set INBOX_OPEN_STATES"

definition inboxValues ::
    "(nat \<Rightarrow> string) \<Rightarrow> ms \<Rightarrow> string \<Rightarrow> nat \<Rightarrow> new_inbox_row \<Rightarrow> inbox_row" where
  "inboxValues newId now accountId ord r = \<lparr>
     ib_id = newId ord,
     ib_ord = ord,
     ib_accountId = accountId,
     ib_msgid = nb_msgid r,
     ib_kind = nb_kind r,
     ib_conversationId = nb_conversationId r,
     ib_sentAt = nb_sentAt r,
     ib_receivedAt = (case nb_receivedAt r of None \<Rightarrow> now | Some t \<Rightarrow> t),
     ib_state = nb_state r,
     ib_reason = nb_reason r,
     ib_attempts = (case nb_attempts r of None \<Rightarrow> 0 | Some n \<Rightarrow> n),
     ib_messageSeq = None,
     ib_payload = (if inboxFinished (nb_state r) then None else nb_payload r),
     ib_updatedAt = now\<rparr>"

definition inboxHas :: "inbox_row list \<Rightarrow> string \<Rightarrow> string \<Rightarrow> bool" where
  "inboxHas rows accountId msgid \<longleftrightarrow>
     list_ex (\<lambda>r. ib_accountId r = accountId \<and> ib_msgid r = msgid) rows"

definition insertInboxRow ::
    "(nat \<Rightarrow> string) \<Rightarrow> ms \<Rightarrow> string \<Rightarrow> inbox_row list \<times> inbox_db \<Rightarrow> new_inbox_row
     \<Rightarrow> inbox_row list \<times> inbox_db" where
  "insertInboxRow newId now accountId s r =
     (let (out, db) = s;
          v = inboxValues newId now accountId (idb_nextOrd db) r;
          db' = db\<lparr>idb_nextOrd := idb_nextOrd db + 1\<rparr> in
      if inboxHas (idb_rows db) accountId (nb_msgid r) then (out, db')
      else (out @ [v], db'\<lparr>idb_rows := idb_rows db @ [v]\<rparr>))"

fun firstReasonError :: "new_inbox_row list \<Rightarrow> inbox_error option" where
  "firstReasonError [] = None"
| "firstReasonError (r # rs) =
     (case checkReason (nb_state r) (nb_reason r) of
        Inl e \<Rightarrow> Some e
      | Inr _ \<Rightarrow> firstReasonError rs)"

definition insertInboxRows ::
    "(nat \<Rightarrow> string) \<Rightarrow> ms \<Rightarrow> inbox_db \<Rightarrow> string \<Rightarrow> new_inbox_row list
     \<Rightarrow> inbox_error + (inbox_row list \<times> inbox_db)" where
  "insertInboxRows newId now db accountId rows =
     (let ok = filter (\<lambda>r. canMoveInbox None (nb_state r)) rows in
      if ok = [] then Inr ([], db)
      else case firstReasonError ok of
        Some e \<Rightarrow> Inl e
      | None \<Rightarrow>
          (let (out, db') = foldl (insertInboxRow newId now accountId) ([], db) ok
           in Inr (sort_key ib_ord out, db')))"

definition inboxMovesTo :: "inbox_state \<Rightarrow> inbox_state list" where
  "inboxMovesTo to = concat (map (\<lambda>f. case f of None \<Rightarrow> [] | Some s \<Rightarrow> [s]) (inboxFromStates to))"

definition changeInboxRow ::
    "ms \<Rightarrow> inbox_change \<Rightarrow> inbox_abandon_reason option \<Rightarrow> inbox_row \<Rightarrow> inbox_row" where
  "changeInboxRow now ch reason r = r\<lparr>
     ib_state := ch_state ch,
     ib_reason := reason,
     ib_messageSeq := (case ch_messageSeq ch of None \<Rightarrow> ib_messageSeq r | Some q \<Rightarrow> Some q),
     ib_payload := (if inboxFinished (ch_state ch) then None else ib_payload r),
     ib_updatedAt := now\<rparr>"

definition setInboxState ::
    "ms \<Rightarrow> inbox_db \<Rightarrow> string \<Rightarrow> inbox_change \<Rightarrow> inbox_error + (bool \<times> inbox_db)" where
  "setInboxState now db rid ch =
     (case checkReason (ch_state ch) (ch_reason ch) of
        Inl e \<Rightarrow> Inl e
      | Inr reason \<Rightarrow>
          (let from = inboxMovesTo (ch_state ch);
               hit = (\<lambda>r. ib_id r = rid \<and> ib_state r \<in> set from) in
           if from = [] then Inr (False, db)
           else Inr (length (filter hit (idb_rows db)) = 1,
                     db\<lparr>idb_rows := update_where hit (changeInboxRow now ch reason) (idb_rows db)\<rparr>)))"

fun applyInboxStates ::
    "ms \<Rightarrow> inbox_db \<Rightarrow> inbox_state_write list \<Rightarrow> inbox_error + (nat \<times> inbox_db)" where
  "applyInboxStates now db [] = Inr (0, db)"
| "applyInboxStates now db (w # ws) =
     (case setInboxState now db (iw_inboxId w)
             \<lparr>ch_state = iw_state w, ch_reason = iw_reason w, ch_messageSeq = iw_messageSeq w\<rparr> of
        Inl e \<Rightarrow> Inl e
      | Inr (ok, db') \<Rightarrow>
          (case applyInboxStates now db' ws of
             Inl e \<Rightarrow> Inl e
           | Inr (n, db'') \<Rightarrow> Inr (n + (if ok then 1 else 0), db'')))"

definition bumpInboxAttempts ::
    "ms \<Rightarrow> inbox_db \<Rightarrow> string \<Rightarrow> nat option \<Rightarrow> nat option \<times> inbox_db" where
  "bumpInboxAttempts now db rid expected =
     (let open' = (\<lambda>r. ib_id r = rid \<and> inboxOpen (ib_state r));
          hit = (\<lambda>r. open' r \<and> (case expected of None \<Rightarrow> True | Some e \<Rightarrow> ib_attempts r = e));
          bump = (\<lambda>r. r\<lparr>ib_attempts := ib_attempts r + 1, ib_updatedAt := now\<rparr>);
          out = map (\<lambda>r. ib_attempts (bump r)) (filter hit (idb_rows db));
          db' = db\<lparr>idb_rows := update_where hit bump (idb_rows db)\<rparr> in
      case out of
        n # _ \<Rightarrow> (Some n, db')
      | [] \<Rightarrow>
          (case expected of
             None \<Rightarrow> (None, db')
           | Some e \<Rightarrow>
               (case filter open' (idb_rows db') of
                  [] \<Rightarrow> (None, db')
                | cur # _ \<Rightarrow> (if e < ib_attempts cur then Some (ib_attempts cur) else None, db'))))"

definition readOpenInbox :: "inbox_db \<Rightarrow> string \<Rightarrow> inbox_row list" where
  "readOpenInbox db accountId =
     sort_key ib_ord (filter (\<lambda>r. ib_accountId r = accountId \<and> inboxOpen (ib_state r)) (idb_rows db))"

definition readAccountInbox :: "inbox_db \<Rightarrow> string \<Rightarrow> inbox_row list" where
  "readAccountInbox db accountId =
     sort_key ib_ord (filter (\<lambda>r. ib_accountId r = accountId) (idb_rows db))"

definition resyncInboxPayload ::
    "ms \<Rightarrow> inbox_db \<Rightarrow> string \<Rightarrow> string option \<Rightarrow> nat \<Rightarrow> bool \<times> inbox_db" where
  "resyncInboxPayload now db rid payload attempts =
     (let hit = (\<lambda>r. ib_id r = rid \<and> inboxOpen (ib_state r)) in
      (length (filter hit (idb_rows db)) = 1,
       db\<lparr>idb_rows := update_where hit
          (\<lambda>r. r\<lparr>ib_payload := payload, ib_attempts := attempts, ib_updatedAt := now\<rparr>) (idb_rows db)\<rparr>))"

definition readOpenInboxUntil :: "inbox_db \<Rightarrow> ms \<Rightarrow> (inbox_kind \<times> string option) list" where
  "readOpenInboxUntil db until =
     map (\<lambda>r. (ib_kind r, ib_conversationId r))
       (filter (\<lambda>r. inboxOpen (ib_state r) \<and> ib_kind r \<in> {IMessage, IMenuClick} \<and>
           (case ib_sentAt r of None \<Rightarrow> False | Some t \<Rightarrow> t \<le> until)) (idb_rows db))"

definition readInboxStats :: "inbox_db \<Rightarrow> (string \<times> nat \<times> ms option) list" where
  "readInboxStats db =
     (let rows = filter (\<lambda>r. inboxOpen (ib_state r)) (idb_rows db) in
      map (\<lambda>a. let mine = filter (\<lambda>r. ib_accountId r = a) rows in
             (a, length mine, case sort_key ib_receivedAt mine of [] \<Rightarrow> None | r # _ \<Rightarrow> Some (ib_receivedAt r)))
        (remdups (map ib_accountId rows)))"

section \<open>Statement sequences and their invariants\<close>

datatype inbox_stmt =
    IsInsert ms string "new_inbox_row list"
  | IsSet ms string inbox_change
  | IsApply ms "inbox_state_write list"
  | IsBump ms string "nat option"
  | IsResync ms string "string option" nat

text \<open>A statement that raises leaves the table as it was: its transaction rolls back.\<close>

definition committed :: "'db \<Rightarrow> 'e + ('r \<times> 'db) \<Rightarrow> 'db" where
  "committed db res = (case res of Inl _ \<Rightarrow> db | Inr (_, db') \<Rightarrow> db')"

fun inbox_step :: "(nat \<Rightarrow> string) \<Rightarrow> inbox_db \<Rightarrow> inbox_stmt \<Rightarrow> inbox_db" where
  "inbox_step newId db (IsInsert now a rows) = committed db (insertInboxRows newId now db a rows)"
| "inbox_step newId db (IsSet now rid ch) = committed db (setInboxState now db rid ch)"
| "inbox_step newId db (IsApply now ws) = committed db (applyInboxStates now db ws)"
| "inbox_step newId db (IsBump now rid e) = snd (bumpInboxAttempts now db rid e)"
| "inbox_step newId db (IsResync now rid p n) = snd (resyncInboxPayload now db rid p n)"

definition inboxRowOk :: "inbox_row \<Rightarrow> bool" where
  "inboxRowOk r \<longleftrightarrow>
     (ib_state r = IAbandoned \<longleftrightarrow> ib_reason r \<noteq> None) \<and>
     (inboxFinished (ib_state r) \<longrightarrow> ib_payload r = None)"

definition inboxKey :: "inbox_row \<Rightarrow> string \<times> string" where
  "inboxKey r = (ib_accountId r, ib_msgid r)"

definition inboxInv :: "(nat \<Rightarrow> string) \<Rightarrow> inbox_db \<Rightarrow> bool" where
  "inboxInv newId db \<longleftrightarrow>
     (\<forall>r \<in> set (idb_rows db). inboxRowOk r \<and> ib_id r = newId (ib_ord r) \<and> ib_ord r < idb_nextOrd db) \<and>
     sorted_wrt (<) (map ib_ord (idb_rows db)) \<and>
     distinct (map inboxKey (idb_rows db))"

lemma set_inboxMovesTo: "s \<in> set (inboxMovesTo t) \<longleftrightarrow> canMoveInbox (Some s) t"
  by (auto simp: inboxMovesTo_def canMoveInbox_def split: option.splits)

lemma inboxHas_iff: "inboxHas rows a m \<longleftrightarrow> (a, m) \<in> set (map inboxKey rows)"
  by (induction rows) (auto simp: inboxHas_def inboxKey_def)

lemma inboxFinished_final [simp]: "inboxFinished s \<longleftrightarrow> inbox_final s"
  by (simp add: inboxFinished_def inbox_final_def)

lemma inboxOpen_final [simp]: "inboxOpen s \<longleftrightarrow> \<not> inbox_final s"
  by (simp add: inboxOpen_def inbox_open_or_final)

lemma inbox_final_simps [simp]:
  "inbox_final IDone" "inbox_final IAbandoned" "\<not> inbox_final IReceived"
  "\<not> inbox_final IRecorded" "\<not> inbox_final IReplied"
  by (simp_all add: inbox_final_def INBOX_FINISHED_STATES_def)

text \<open>An update that keeps keys and row facts keeps the invariant.\<close>

lemma inboxInv_update_where:
  assumes inv: "inboxInv newId db"
    and keep: "\<And>r. inboxRowOk r \<Longrightarrow> hit r \<Longrightarrow> inboxRowOk (f r) \<and> ib_id (f r) = ib_id r \<and>
                  ib_ord (f r) = ib_ord r \<and> inboxKey (f r) = inboxKey r"
  shows "inboxInv newId (db\<lparr>idb_rows := update_where hit f (idb_rows db)\<rparr>)"
proof -
  have ok: "\<forall>r \<in> set (idb_rows db). inboxRowOk r" using inv by (simp add: inboxInv_def)
  have "map ib_ord (update_where hit f (idb_rows db)) = map ib_ord (idb_rows db)"
    using ok keep by (intro map_update_where) blast
  moreover have "map inboxKey (update_where hit f (idb_rows db)) = map inboxKey (idb_rows db)"
    using ok keep by (intro map_update_where) blast
  moreover have "\<forall>r \<in> set (update_where hit f (idb_rows db)).
      inboxRowOk r \<and> ib_id r = newId (ib_ord r) \<and> ib_ord r < idb_nextOrd db"
    using inv keep by (fastforce simp: inboxInv_def in_update_where_iff split: if_splits)
  ultimately show ?thesis using inv by (simp add: inboxInv_def)
qed

lemma setInboxState_inv:
  assumes inv: "inboxInv newId db" and set: "setInboxState now db rid ch = Inr (ok, db')"
  shows "inboxInv newId db'"
proof (cases "inboxMovesTo (ch_state ch) = []")
  case False
  then have db': "db' = db\<lparr>idb_rows := update_where
      (\<lambda>r. ib_id r = rid \<and> ib_state r \<in> set (inboxMovesTo (ch_state ch)))
      (changeInboxRow now ch (ch_reason ch)) (idb_rows db)\<rparr>"
    and reason: "(ch_state ch = IAbandoned) = (ch_reason ch \<noteq> None)"
    using set by (auto simp: setInboxState_def checkReason_def Let_def split: if_splits)
  show ?thesis unfolding db'
    using reason by (intro inboxInv_update_where inv)
      (auto simp: inboxRowOk_def changeInboxRow_def inboxKey_def)
qed (use assms in \<open>auto simp: setInboxState_def checkReason_def split: if_splits\<close>)

lemma applyInboxStates_inv:
  "inboxInv newId db \<Longrightarrow> applyInboxStates now db ws = Inr (n, db') \<Longrightarrow> inboxInv newId db'"
  by (induction now db ws arbitrary: n db' rule: applyInboxStates.induct)
     (auto split: sum.splits prod.splits dest: setInboxState_inv)

lemma bumpInboxAttempts_db:
  "snd (bumpInboxAttempts now db rid e) =
     db\<lparr>idb_rows := update_where
       (\<lambda>r. (ib_id r = rid \<and> inboxOpen (ib_state r)) \<and> (case e of None \<Rightarrow> True | Some k \<Rightarrow> ib_attempts r = k))
       (\<lambda>r. r\<lparr>ib_attempts := ib_attempts r + 1, ib_updatedAt := now\<rparr>) (idb_rows db)\<rparr>"
  by (simp add: bumpInboxAttempts_def Let_def split: list.splits option.splits)

lemma bumpInboxAttempts_inv: "inboxInv newId db \<Longrightarrow> inboxInv newId (snd (bumpInboxAttempts now db rid e))"
  unfolding bumpInboxAttempts_db
  by (intro inboxInv_update_where) (auto simp: inboxRowOk_def inboxKey_def)

lemma resyncInboxPayload_inv: "inboxInv newId db \<Longrightarrow> inboxInv newId (snd (resyncInboxPayload now db rid p n))"
  unfolding resyncInboxPayload_def Let_def snd_conv
  by (intro inboxInv_update_where) (auto simp: inboxRowOk_def inboxKey_def)

lemma firstReasonError_None:
  "firstReasonError rs = None \<longleftrightarrow> (\<forall>r \<in> set rs. (nb_state r = IAbandoned) = (nb_reason r \<noteq> None))"
  by (induction rs) (auto simp: checkReason_def split: sum.splits if_splits)

lemma insertInboxRow_inv:
  assumes "inboxInv newId db" and "(nb_state r = IAbandoned) = (nb_reason r \<noteq> None)"
  shows "inboxInv newId (snd (insertInboxRow newId now a (out, db) r))"
  using assms
  by (auto simp: insertInboxRow_def Let_def inboxInv_def inboxHas_iff inboxValues_def inboxRowOk_def
                 inboxKey_def sorted_wrt_append less_Suc_eq)

lemma foldl_insertInboxRow_inv:
  "inboxInv newId db \<Longrightarrow> \<forall>r \<in> set rs. (nb_state r = IAbandoned) = (nb_reason r \<noteq> None) \<Longrightarrow>
   inboxInv newId (snd (foldl (insertInboxRow newId now a) (out, db) rs))"
proof (induction rs arbitrary: out db)
  case (Cons r rs)
  then have "inboxInv newId (snd (insertInboxRow newId now a (out, db) r))"
    by (intro insertInboxRow_inv) auto
  then show ?case
    using Cons by (cases "insertInboxRow newId now a (out, db) r") auto
qed simp

lemma insertInboxRows_inv:
  "inboxInv newId db \<Longrightarrow> insertInboxRows newId now db a rows = Inr (out, db') \<Longrightarrow> inboxInv newId db'"
  using foldl_insertInboxRow_inv [of newId db "filter (\<lambda>r. canMoveInbox None (nb_state r)) rows" now a "[]"]
  by (auto simp: insertInboxRows_def Let_def firstReasonError_None split: if_splits option.splits prod.splits)

lemma committed_inv: "I db \<Longrightarrow> (\<And>x db'. res = Inr (x, db') \<Longrightarrow> I db') \<Longrightarrow> I (committed db res)"
  by (auto simp: committed_def split: sum.splits)

lemma inbox_step_inv: "inboxInv newId db \<Longrightarrow> inboxInv newId (inbox_step newId db e)"
  by (cases e)
     (auto intro!: committed_inv [where I = "inboxInv newId"] bumpInboxAttempts_inv resyncInboxPayload_inv
           intro: insertInboxRows_inv setInboxState_inv applyInboxStates_inv)

interpretation inbox_inv: machine "inbox_step newId" "inboxInv newId" for newId
  by unfold_locales (rule inbox_step_inv)

text \<open>A row, followed through the statements: it keeps its place, never goes back, and is frozen once finished.\<close>

definition inboxKept :: "inbox_row \<Rightarrow> inbox_db \<Rightarrow> bool" where
  "inboxKept r db \<longleftrightarrow> (\<exists>r' \<in> set (idb_rows db). ib_ord r' = ib_ord r \<and> inboxKey r' = inboxKey r \<and>
     inbox_rank (ib_state r) \<le> inbox_rank (ib_state r') \<and> (inbox_final (ib_state r) \<longrightarrow> r' = r))"

lemma inboxKept_update_where:
  assumes kept: "inboxKept r db"
    and f: "\<And>x. hit x \<Longrightarrow> \<not> inbox_final (ib_state x) \<and> ib_ord (f x) = ib_ord x \<and> inboxKey (f x) = inboxKey x \<and>
               inbox_rank (ib_state x) \<le> inbox_rank (ib_state (f x))"
  shows "inboxKept r (db\<lparr>idb_rows := update_where hit f (idb_rows db)\<rparr>)"
proof -
  obtain r' where r': "r' \<in> set (idb_rows db)" "ib_ord r' = ib_ord r" "inboxKey r' = inboxKey r"
    "inbox_rank (ib_state r) \<le> inbox_rank (ib_state r')" "inbox_final (ib_state r) \<longrightarrow> r' = r"
    using kept by (auto simp: inboxKept_def)
  show ?thesis
  proof (cases "hit r'")
    case True
    then show ?thesis
      using r' f [OF True] unfolding inboxKept_def
      by (intro bexI [of _ "f r'"]) (auto simp: in_update_where_iff intro: bexI [of _ r'])
  next
    case False
    then show ?thesis
      using r' unfolding inboxKept_def
      by (intro bexI [of _ r']) (auto simp: in_update_where_iff intro: bexI [of _ r'])
  qed
qed

lemma setInboxState_kept:
  "setInboxState now db rid ch = Inr (ok, db') \<Longrightarrow> inboxKept r db \<Longrightarrow> inboxKept r db'"
  by (auto simp: setInboxState_def Let_def set_inboxMovesTo changeInboxRow_def inboxKey_def
           split: sum.splits if_splits intro!: inboxKept_update_where dest: inbox_final_closed inbox_forward)

lemma applyInboxStates_kept:
  "applyInboxStates now db ws = Inr (n, db') \<Longrightarrow> inboxKept r db \<Longrightarrow> inboxKept r db'"
  by (induction now db ws arbitrary: n db' rule: applyInboxStates.induct)
     (auto split: sum.splits prod.splits dest: setInboxState_kept)

lemma foldl_insertInboxRow_rows:
  "\<exists>new. idb_rows (snd (foldl (insertInboxRow newId now a) (out, db) rs)) = idb_rows db @ new \<and>
     fst (foldl (insertInboxRow newId now a) (out, db) rs) = out @ new"
proof (induction rs arbitrary: out db)
  case (Cons r rs)
  obtain out' db' where step: "insertInboxRow newId now a (out, db) r = (out', db')"
    by (cases "insertInboxRow newId now a (out, db) r")
  then obtain one where "idb_rows db' = idb_rows db @ one" "out' = out @ one"
    by (auto simp: insertInboxRow_def Let_def split: if_splits)
  moreover obtain new where
    "idb_rows (snd (foldl (insertInboxRow newId now a) (out', db') rs)) = idb_rows db' @ new"
    "fst (foldl (insertInboxRow newId now a) (out', db') rs) = out' @ new"
    using Cons.IH by blast
  ultimately show ?case by (intro exI [of _ "one @ new"]) (simp add: step)
qed simp

lemma insertInboxRows_rows:
  assumes "insertInboxRows newId now db a rows = Inr (out, db')"
  shows "\<exists>new. idb_rows db' = idb_rows db @ new \<and> out = sort_key ib_ord new"
proof (cases "filter (\<lambda>r. canMoveInbox None (nb_state r)) rows = []")
  case False
  let ?res = "foldl (insertInboxRow newId now a) ([], db) (filter (\<lambda>r. canMoveInbox None (nb_state r)) rows)"
  have "db' = snd ?res" "out = sort_key ib_ord (fst ?res)"
    using assms False by (auto simp: insertInboxRows_def Let_def split: option.splits prod.splits)
  with foldl_insertInboxRow_rows [of newId now a "[]" db] show ?thesis by fastforce
qed (use assms in \<open>simp add: insertInboxRows_def\<close>)

lemma inbox_step_kept: "inboxKept r db \<Longrightarrow> inboxKept r (inbox_step newId db e)"
proof (cases e)
  case (IsInsert now a rows)
  assume "inboxKept r db"
  then show ?thesis
    unfolding IsInsert inbox_step.simps
    by (rule committed_inv) (use \<open>inboxKept r db\<close> in \<open>auto simp: inboxKept_def dest!: insertInboxRows_rows\<close>)
qed (auto intro!: committed_inv [where I = "inboxKept r"] intro: setInboxState_kept applyInboxStates_kept
       intro!: inboxKept_update_where simp: bumpInboxAttempts_db resyncInboxPayload_def Let_def inboxKey_def)

interpretation inbox_kept: machine "inbox_step newId" "inboxKept r" for newId r
  by unfold_locales (rule inbox_step_kept)

section \<open>Inserting a page again\<close>

lemma keys_foldl_insertInboxRow:
  "set (map inboxKey (idb_rows (snd (foldl (insertInboxRow newId now a) (out, db) rs)))) =
     set (map inboxKey (idb_rows db)) \<union> (\<lambda>r. (a, nb_msgid r)) ` set rs"
proof (induction rs arbitrary: out db)
  case (Cons r rs)
  obtain out' db' where step: "insertInboxRow newId now a (out, db) r = (out', db')"
    by (cases "insertInboxRow newId now a (out, db) r")
  then have "set (map inboxKey (idb_rows db')) = insert (a, nb_msgid r) (set (map inboxKey (idb_rows db)))"
    by (auto simp: insertInboxRow_def Let_def inboxHas_iff inboxValues_def inboxKey_def split: if_splits)
  with Cons step show ?case by simp
qed simp

lemma foldl_insertInboxRow_present:
  "\<forall>r \<in> set rs. inboxHas (idb_rows db) a (nb_msgid r) \<Longrightarrow>
   \<exists>k. foldl (insertInboxRow newId now a) (out, db) rs = (out, db\<lparr>idb_nextOrd := k\<rparr>)"
proof (induction rs arbitrary: db)
  case (Cons r rs)
  then have "insertInboxRow newId now a (out, db) r = (out, db\<lparr>idb_nextOrd := idb_nextOrd db + 1\<rparr>)"
    by (simp add: insertInboxRow_def Let_def)
  with Cons.IH [of "db\<lparr>idb_nextOrd := idb_nextOrd db + 1\<rparr>"] Cons.prems show ?case by simp
next
  case Nil
  show ?case by (intro exI [of _ "idb_nextOrd db"]) simp
qed

section \<open>Properties\<close>

text \<open>
  Delivering the same page of inbound messages again changes nothing: after
  \<open>insertInboxRows\<close> accepted a page, a second call with it (at any later instant) returns no new
  row and leaves every stored row as it was.
\<close>

theorem insertInboxRows_idempotent:
  assumes "insertInboxRows newId now db a rows = Inr (out, db')"
  shows "\<exists>db''. insertInboxRows newId' now' db' a rows = Inr ([], db'') \<and> idb_rows db'' = idb_rows db'"
proof (cases "filter (\<lambda>r. canMoveInbox None (nb_state r)) rows = []")
  case False
  let ?ok = "filter (\<lambda>r. canMoveInbox None (nb_state r)) rows"
  from assms False have ok: "firstReasonError ?ok = None"
    and db': "db' = snd (foldl (insertInboxRow newId now a) ([], db) ?ok)"
    by (auto simp: insertInboxRows_def Let_def split: option.splits prod.splits)
  have "\<forall>r \<in> set ?ok. inboxHas (idb_rows db') a (nb_msgid r)"
    unfolding inboxHas_iff db' keys_foldl_insertInboxRow by blast
  from foldl_insertInboxRow_present [OF this, of newId' now' "[]"] show ?thesis
    using ok False by (auto simp: insertInboxRows_def Let_def)
qed (use assms in \<open>simp add: insertInboxRows_def\<close>)

text \<open>
  Over any sequence of statements on an empty table, an inbound message is stored once per
  account and message id, carries a reason exactly when it is abandoned, and holds no customer text
  once it is done or abandoned.
\<close>

theorem inbox_rows_wellformed:
  assumes "db = foldl (inbox_step newId) \<lparr>idb_rows = [], idb_nextOrd = 1\<rparr> es"
  shows "distinct (map (\<lambda>r. (ib_accountId r, ib_msgid r)) (idb_rows db)) \<and>
    (\<forall>r \<in> set (idb_rows db). (ib_state r = IAbandoned) = (ib_reason r \<noteq> None) \<and>
       (ib_state r \<in> {IDone, IAbandoned} \<longrightarrow> ib_payload r = None))"
proof -
  have "inboxInv newId \<lparr>idb_rows = [], idb_nextOrd = 1\<rparr>" by (simp add: inboxInv_def)
  then have "inboxInv newId db" unfolding assms by (rule inbox_inv.run_inv)
  moreover have "inboxKey = (\<lambda>r. (ib_accountId r, ib_msgid r))" by (auto simp: inboxKey_def)
  ultimately show ?thesis by (auto simp: inboxInv_def inboxRowOk_def)
qed

text \<open>
  An inbound row never moves back: after any sequence of statements the row of the same ordinal
  is still there, in the same or a later state, and a row that was done or abandoned is
  unchanged in every column.
\<close>

theorem inbox_forward_only:
  assumes "r \<in> set (idb_rows db)"
  shows "\<exists>r' \<in> set (idb_rows (foldl (inbox_step newId) db es)). ib_ord r' = ib_ord r \<and>
           inbox_rank (ib_state r) \<le> inbox_rank (ib_state r') \<and>
           (ib_state r \<in> {IDone, IAbandoned} \<longrightarrow> r' = r)"
proof -
  have "inboxKept r db" using assms by (auto simp: inboxKept_def)
  then have "inboxKept r (foldl (inbox_step newId) db es)" by (rule inbox_kept.run_inv)
  then show ?thesis by (fastforce simp: inboxKept_def)
qed

lemma inboxInv_same_id:
  "inboxInv newId db \<Longrightarrow> inj newId \<Longrightarrow> x \<in> set (idb_rows db) \<Longrightarrow> y \<in> set (idb_rows db) \<Longrightarrow>
   ib_id x = ib_id y \<Longrightarrow> ib_ord x = ib_ord y"
  by (metis inboxInv_def injD)

lemma inboxInv_same_ord:
  assumes "inboxInv newId db" "x \<in> set (idb_rows db)" "y \<in> set (idb_rows db)" "ib_ord x = ib_ord y"
  shows "x = y"
proof -
  have "distinct (map ib_ord (idb_rows db))"
    using assms(1) by (auto simp: inboxInv_def strict_sorted_iff)
  then show ?thesis using assms(2-4) by (metis distinct_map inj_onD)
qed

lemma bump_some:
  assumes inv: "inboxInv newId db" and inj: "inj newId"
    and bump: "bumpInboxAttempts now db rid (Some e) = (Some n, db')"
  shows "e < n \<and> filter (\<lambda>r. ib_id r = rid \<and> inboxOpen (ib_state r)) (idb_rows db') \<noteq> [] \<and>
     (\<forall>r \<in> set (idb_rows db'). ib_id r = rid \<and> inboxOpen (ib_state r) \<longrightarrow> ib_attempts r = n)"
proof -
  have inv': "inboxInv newId db'"
    using bumpInboxAttempts_inv [OF inv, of now rid "Some e"] bump by simp
  have db': "db' = snd (bumpInboxAttempts now db rid (Some e))" using bump by simp
  have "\<exists>r \<in> set (idb_rows db'). ib_id r = rid \<and> inboxOpen (ib_state r) \<and> ib_attempts r = n \<and> e < n"
  proof (cases "filter (\<lambda>r. (ib_id r = rid \<and> inboxOpen (ib_state r)) \<and> ib_attempts r = e) (idb_rows db)")
    case Nil
    then show ?thesis
      using bump by (auto simp: bumpInboxAttempts_def Let_def update_where_none filter_empty_conv
          filter_eq_Cons_iff split: list.splits if_splits)
  next
    case (Cons x xs)
    then have "x \<in> set (idb_rows db)" "ib_id x = rid" "inboxOpen (ib_state x)" "ib_attempts x = e"
      using filter_ConsD [OF Cons] by auto
    moreover from this have "n = e + 1"
      using bump Cons by (simp add: bumpInboxAttempts_def Let_def)
    ultimately show ?thesis
      unfolding db' bumpInboxAttempts_db
      by (intro bexI [of _ "x\<lparr>ib_attempts := ib_attempts x + 1, ib_updatedAt := now\<rparr>"])
         (auto simp: in_update_where_iff intro!: bexI [of _ x])
  qed
  then obtain r where r: "r \<in> set (idb_rows db')" "ib_id r = rid" "inboxOpen (ib_state r)"
    "ib_attempts r = n" "e < n" by blast
  have "y = r" if y: "y \<in> set (idb_rows db')" "ib_id y = rid" for y
  proof (rule inboxInv_same_ord [OF inv' y(1) r(1)])
    show "ib_ord y = ib_ord r"
      by (rule inboxInv_same_id [OF inv' inj y(1) r(1)]) (simp only: y(2) r(2))
  qed
  then have "\<forall>y \<in> set (idb_rows db'). ib_id y = rid \<and> inboxOpen (ib_state y) \<longrightarrow> ib_attempts y = n"
    using r(4) by blast
  moreover have "filter (\<lambda>r. ib_id r = rid \<and> inboxOpen (ib_state r)) (idb_rows db') \<noteq> []"
    using r(1-3) unfolding filter_empty_conv by blast
  ultimately show ?thesis using r(5) by blast
qed

text \<open>
  Counting a dequeue is idempotent per attempt: when \<open>bumpInboxAttempts\<close> with the expected
  count returned a number, repeating the call (the reply of the first one was lost) returns the same
  number and changes nothing.
\<close>

theorem bumpInboxAttempts_idempotent:
  assumes "inboxInv newId db" and "inj newId"
    and "bumpInboxAttempts now db rid (Some e) = (Some n, db')"
  shows "bumpInboxAttempts now' db' rid (Some e) = (Some n, db')"
proof -
  note B = bump_some [OF assms]
  obtain cur rest where
    cur: "filter (\<lambda>r. ib_id r = rid \<and> inboxOpen (ib_state r)) (idb_rows db') = cur # rest"
    using B by (meson neq_Nil_conv)
  then have "ib_attempts cur = n"
    using B by (auto simp: filter_eq_Cons_iff)
  moreover have none: "filter (\<lambda>r. (ib_id r = rid \<and> inboxOpen (ib_state r)) \<and> ib_attempts r = e) (idb_rows db') = []"
    using B by (auto simp: filter_empty_conv)
  moreover have "update_where (\<lambda>r. (ib_id r = rid \<and> inboxOpen (ib_state r)) \<and> ib_attempts r = e)
      f (idb_rows db') = idb_rows db'" for f
    using none by (intro update_where_none) (auto simp: filter_empty_conv)
  ultimately show ?thesis
    using B cur by (simp add: bumpInboxAttempts_def Let_def del: inboxOpen_final)
qed

section \<open>Witnesses\<close>

definition exampleId :: "nat \<Rightarrow> string" where
  "exampleId n = replicate n (CHR ''i'')"

lemma inj_exampleId: "inj exampleId"
  by (rule injI) (metis exampleId_def length_replicate)

definition exampleNew :: "string \<Rightarrow> new_inbox_row" where
  "exampleNew m = \<lparr>nb_msgid = m, nb_kind = IMessage, nb_conversationId = Some ''wecom:u1'', nb_sentAt = Some 5,
     nb_state = IReceived, nb_reason = None, nb_attempts = None, nb_payload = Some ''hi'', nb_receivedAt = None\<rparr>"

definition exampleInboxRow :: inbox_row where
  "exampleInboxRow = inboxValues exampleId 10 ''a'' 1 (exampleNew ''m1'')"

definition exampleDb :: inbox_db where
  "exampleDb = \<lparr>idb_rows = [exampleInboxRow], idb_nextOrd = 2\<rparr>"

lemma exampleDb_insert:
  "insertInboxRows exampleId 10 \<lparr>idb_rows = [], idb_nextOrd = 1\<rparr> ''a'' [exampleNew ''m1''] =
     Inr ([exampleInboxRow], exampleDb)"
  by (simp add: insertInboxRows_def exampleNew_def checkReason_def canMoveInbox_iff insertInboxRow_def
      inboxHas_def exampleDb_def exampleInboxRow_def Let_def)

lemma exampleDb_run:
  "foldl (inbox_step exampleId) \<lparr>idb_rows = [], idb_nextOrd = 1\<rparr> [IsInsert 10 ''a'' [exampleNew ''m1'']] = exampleDb"
  by (simp only: foldl.simps inbox_step.simps exampleDb_insert committed_def sum.case prod.case)

lemma insertInboxRows_idempotent_witness:
  "\<exists>db''. insertInboxRows exampleId 99 exampleDb ''a'' [exampleNew ''m1''] = Inr ([], db'') \<and>
     idb_rows db'' = [exampleInboxRow]"
  using insertInboxRows_idempotent [OF exampleDb_insert, of exampleId 99] by (simp add: exampleDb_def)

lemma inbox_rows_wellformed_witness:
  "distinct (map (\<lambda>r. (ib_accountId r, ib_msgid r)) (idb_rows exampleDb))"
  using inbox_rows_wellformed [OF exampleDb_run [symmetric]] by blast

lemma inbox_forward_only_witness:
  "\<exists>r' \<in> set (idb_rows (foldl (inbox_step exampleId) exampleDb [IsBump 20 (exampleId 1) None])). ib_ord r' = 1"
  using inbox_forward_only [of exampleInboxRow exampleDb exampleId "[IsBump 20 (exampleId 1) None]"]
  by (auto simp: exampleDb_def exampleInboxRow_def inboxValues_def)

lemma exampleDb_inv: "inboxInv exampleId exampleDb"
proof -
  have "inboxInv exampleId \<lparr>idb_rows = [], idb_nextOrd = 1\<rparr>" by (simp add: inboxInv_def)
  from inbox_inv.run_inv [OF this, of "[IsInsert 10 ''a'' [exampleNew ''m1'']]"] show ?thesis
    by (simp only: exampleDb_run)
qed

lemma bumpInboxAttempts_idempotent_witness:
  "bumpInboxAttempts 30 (snd (bumpInboxAttempts 20 exampleDb (exampleId 1) (Some 0))) (exampleId 1) (Some 0) =
     (Some 1, snd (bumpInboxAttempts 20 exampleDb (exampleId 1) (Some 0)))"
proof -
  have "bumpInboxAttempts 20 exampleDb (exampleId 1) (Some 0) =
      (Some 1, snd (bumpInboxAttempts 20 exampleDb (exampleId 1) (Some 0)))"
    by (simp add: bumpInboxAttempts_def exampleDb_def exampleInboxRow_def inboxValues_def exampleNew_def Let_def)
  from bumpInboxAttempts_idempotent [OF exampleDb_inv inj_exampleId this] show ?thesis .
qed

end
