(* ===== verification/RecoveryRules.thy ===== *)
theory RecoveryRules
  imports Transitions
begin

text \<open>
  The decisions taken at start-up (\<open>src/channels/recovery-rules.ts\<close>): what happens to every
  outbound segment that has no result, what state an unfinished inbound message is really in, and
  what is done about it. The functions are pure; the facts they read are records as in the code.
\<close>

definition RESEND_UNKNOWN :: bool where
  "RESEND_UNKNOWN = False"

definition HUMAN_RESEND_WINDOW_MS :: ms where
  "HUMAN_RESEND_WINDOW_MS = 10 * 60000"

section \<open>Outbound segments without a result\<close>

datatype open_status = StillPending | StillSending

record open_outbound_facts =
  fo_status :: open_status
  fo_kind :: outbound_kind
  fo_sentAt :: ms
  fo_inboxId :: "string option"
  fo_inboxOpen :: bool
  fo_recordOnlyUntil :: "ms option"
  fo_humanAssigneeSame :: bool
  fo_hasAssignee :: bool
  fo_now :: ms
  fo_resendUnknown :: bool
  fo_failReceived :: bool

datatype outbound_cancel_why =
  RestoreCutoffWhy | InboxFinishedWhy | FollowupWhy | HumanStaleWhy | HumanAssigneeChangedWhy
| MenuWhy | WelcomeWhy | AiWithoutInboxWhy | CardWhy

datatype outbound_recovery =
  DoUnknown
| DoResend bool
| DoCancel outbound_cancel_why
| DoInbound
| DoReceipt

definition AI_KINDS :: "outbound_kind list" where
  "AI_KINDS = [KAi, KFollowup, KMenu, KWelcome, KCard]"

definition outboundRecovery :: "open_outbound_facts \<Rightarrow> outbound_recovery" where
  "outboundRecovery f =
     (if fo_failReceived f then DoReceipt
      else if fo_status f = StillSending then
        (if \<not> fo_resendUnknown f then DoUnknown
         else if fo_hasAssignee f \<and> fo_kind f \<in> set AI_KINDS then DoUnknown else DoResend True)
      else if (case fo_recordOnlyUntil f of None \<Rightarrow> False | Some t \<Rightarrow> fo_sentAt f \<le> t)
        then DoCancel RestoreCutoffWhy
      else if fo_inboxId f \<noteq> None
        then (if fo_inboxOpen f then DoInbound else DoCancel InboxFinishedWhy)
      else (case fo_kind f of
          KFollowup \<Rightarrow> DoCancel FollowupWhy
        | KNotice \<Rightarrow> DoResend False
        | KHuman \<Rightarrow>
            if fo_now f - fo_sentAt f > HUMAN_RESEND_WINDOW_MS then DoCancel HumanStaleWhy
            else if fo_humanAssigneeSame f then DoResend False else DoCancel HumanAssigneeChangedWhy
        | KMenu \<Rightarrow> DoCancel MenuWhy
        | KWelcome \<Rightarrow> DoCancel WelcomeWhy
        | KAi \<Rightarrow> DoCancel AiWithoutInboxWhy
        | KCard \<Rightarrow> DoCancel CardWhy))"

section \<open>Inbound messages that are not finished\<close>

datatype open_inbox_state = OpReceived | OpRecorded | OpReplied

record open_inbound_facts =
  fi_kind :: inbox_kind
  fi_state :: open_inbox_state
  fi_inSession :: bool
  fi_known :: bool
  fi_hasOutbound :: bool

definition effectiveInboxState :: "open_inbound_facts \<Rightarrow> open_inbox_state \<times> bool" where
  "effectiveInboxState f =
     (if fi_kind f \<noteq> IMessage then (fi_state f, False)
      else if fi_state f = OpReceived then
        (if fi_hasOutbound f then (OpReplied, False)
         else if fi_inSession f \<or> fi_known f then (OpRecorded, False)
         else (OpReceived, False))
      else if fi_state f = OpRecorded \<and> \<not> fi_inSession f \<and> \<not> fi_known f then (OpRecorded, True)
      else (fi_state f, False))"

record recorded_facts =
  fr_inWindow :: bool
  fr_aiReplyAfter :: bool
  fr_handedOver :: bool
  fr_hasAssignee :: bool

datatype recorded_done_why = HandedOverWhy | OutOfWindowWhy

datatype recorded_recovery = SendReply | CancelReply | RecordedDone recorded_done_why | Rerun

definition recordedRecovery :: "recorded_facts \<Rightarrow> recorded_recovery" where
  "recordedRecovery f =
     (if \<not> fr_inWindow f then RecordedDone OutOfWindowWhy
      else if fr_aiReplyAfter f then (if fr_hasAssignee f then CancelReply else SendReply)
      else if fr_handedOver f then RecordedDone HandedOverWhy
      else Rerun)"

datatype replied_recovery = CancelPending | ResendPending | RepliedDone

definition repliedRecovery :: "bool \<Rightarrow> nat \<Rightarrow> replied_recovery" where
  "repliedRecovery hasAssignee pending =
     (if pending = 0 then RepliedDone
      else if hasAssignee then CancelPending else ResendPending)"

record message_like =
  ml_role :: string
  ml_author :: "string option"
  ml_content :: jstext

text \<open>The loop of \<open>aiReplyAfter\<close>, with the index of the head of the remaining messages.\<close>

fun aiReplyFrom :: "(jstext \<Rightarrow> bool) \<Rightarrow> nat \<Rightarrow> message_like list \<Rightarrow> nat option" where
  "aiReplyFrom isWelcome i [] = None"
| "aiReplyFrom isWelcome i (m # ms) =
     (if ml_role m = ''customer'' then None
      else if ml_role m = ''agent'' \<and> (ml_author m = None \<or> ml_author m = Some ''ai'')
              \<and> \<not> isWelcome (ml_content m) then Some i
      else aiReplyFrom isWelcome (i + 1) ms)"

definition aiReplyAfter :: "message_like list \<Rightarrow> int \<Rightarrow> (jstext \<Rightarrow> bool) \<Rightarrow> int" where
  "aiReplyAfter msgs at isWelcome =
     (let i = nat (at + 1) in
      case aiReplyFrom isWelcome i (drop i msgs) of None \<Rightarrow> -1 | Some k \<Rightarrow> int k)"

section \<open>The decisions and the transition table\<close>

definition facts_status :: "open_outbound_facts \<Rightarrow> outbound_status" where
  "facts_status f = (case fo_status f of StillPending \<Rightarrow> OPending | StillSending \<Rightarrow> OSending)"

text \<open>The write that a decision asks for, and the writer it is asked as.\<close>

fun recovery_write :: "outbound_recovery \<Rightarrow> (outbound_writer \<times> outbound_status) option" where
  "recovery_write DoUnknown = Some (WRecover, OUnknown)"
| "recovery_write (DoResend alreadySending) = (if alreadySending then None else Some (WMark, OSending))"
| "recovery_write (DoCancel why) = Some (WRecover, OCancelled)"
| "recovery_write DoInbound = None"
| "recovery_write DoReceipt = None"

lemma aiReplyFrom_ge: "aiReplyFrom isWelcome i ms = Some k \<Longrightarrow> i \<le> k"
  by (induction isWelcome i ms rule: aiReplyFrom.induct) (auto split: if_splits)

lemma aiReplyFrom_Some:
  "aiReplyFrom isWelcome i ms = Some k \<longleftrightarrow>
     i \<le> k \<and> k - i < length ms \<and>
     (let ok = (\<lambda>m. ml_role m = ''agent'' \<and> (ml_author m = None \<or> ml_author m = Some ''ai'')
                  \<and> \<not> isWelcome (ml_content m)) in
      ok (ms ! (k - i)) \<and> (\<forall>j < k - i. \<not> ok (ms ! j) \<and> ml_role (ms ! j) \<noteq> ''customer''))"
proof (induction isWelcome i ms rule: aiReplyFrom.induct)
  case (2 isWelcome i m ms)
  show ?case
  proof (cases "i < k")
    case True
    then have k: "k - i = Suc (k - (i + 1))" by simp
    show ?thesis
      using 2 True unfolding k by (auto simp: Let_def All_less_Suc2)
  next
    case False
    then have "aiReplyFrom isWelcome (Suc i) ms \<noteq> Some k"
      using aiReplyFrom_ge [of isWelcome "Suc i" ms k] by auto
    moreover from False have "i \<le> k \<longleftrightarrow> k = i" by auto
    ultimately show ?thesis using False by (auto simp: Let_def)
  qed
qed simp

section \<open>Properties\<close>

text \<open>
  Whatever the facts are, the write the recovery decides on is one the transition table allows
  from the segment's current status, so no decision is silently dropped.
\<close>

theorem recovery_write_allowed:
  "case recovery_write (outboundRecovery f) of
     None \<Rightarrow> True
   | Some (w, s) \<Rightarrow> canMoveOutbound (Some (facts_status f)) s [w]"
  by (cases "fo_status f"; cases "fo_kind f")
     (auto simp: outboundRecovery_def facts_status_def AI_KINDS_def split: option.splits)

text \<open>
  With the shipped setting \<open>RESEND_UNKNOWN = false\<close>, a segment is sent again at start-up exactly
  when it was never handed to the sender, no failure receipt waits for it, it is newer than the
  restore cut-off, it answers no inbound message, and it is either a notice or a human reply of the
  last ten minutes whose author still has the conversation; so nothing the assistant wrote is
  re-sent from here.
\<close>

theorem outboundRecovery_resend_iff:
  assumes "fo_resendUnknown f = RESEND_UNKNOWN"
  shows "(\<exists>already. outboundRecovery f = DoResend already) \<longleftrightarrow>
     \<not> fo_failReceived f \<and> fo_status f = StillPending \<and>
     (\<forall>t. fo_recordOnlyUntil f = Some t \<longrightarrow> t < fo_sentAt f) \<and> fo_inboxId f = None \<and>
     (fo_kind f = KNotice \<or>
      fo_kind f = KHuman \<and> fo_now f - fo_sentAt f \<le> 600000 \<and> fo_humanAssigneeSame f)"
  using assms
  by (cases "fo_status f"; cases "fo_kind f")
     (auto simp: outboundRecovery_def RESEND_UNKNOWN_def HUMAN_RESEND_WINDOW_MS_def split: option.splits)

text \<open>
  \<open>aiReplyAfter\<close> finds the reply to a customer message: a result \<open>k\<close> other than -1 is the first
  message after position \<open>at\<close> that the assistant wrote and that is no welcome text, with no customer
  message in between; and -1 means there is none.
\<close>

theorem aiReplyAfter_correct:
  assumes "-1 \<le> at"
  shows "aiReplyAfter msgs at isWelcome = int k \<longleftrightarrow>
    (let ok = (\<lambda>m. ml_role m = ''agent'' \<and> (ml_author m = None \<or> ml_author m = Some ''ai'')
                  \<and> \<not> isWelcome (ml_content m)) in
     at < int k \<and> k < length msgs \<and> ok (msgs ! k) \<and>
     (\<forall>j. at < int j \<and> j < k \<longrightarrow> \<not> ok (msgs ! j) \<and> ml_role (msgs ! j) \<noteq> ''customer''))"
proof -
  let ?ok = "\<lambda>m. ml_role m = ''agent'' \<and> (ml_author m = None \<or> ml_author m = Some ''ai'')
                  \<and> \<not> isWelcome (ml_content m)"
  define i where "i = nat (at + 1)"
  have at: "at < int j \<longleftrightarrow> i \<le> j" for j using assms by (auto simp: i_def)
  have "aiReplyAfter msgs at isWelcome = int k \<longleftrightarrow> aiReplyFrom isWelcome i (drop i msgs) = Some k"
    by (auto simp: aiReplyAfter_def Let_def i_def split: option.splits)
  also have "\<dots> \<longleftrightarrow> i \<le> k \<and> k < length msgs \<and> ?ok (msgs ! k) \<and>
      (\<forall>j < k - i. \<not> ?ok (msgs ! (i + j)) \<and> ml_role (msgs ! (i + j)) \<noteq> ''customer'')"
    by (auto simp: aiReplyFrom_Some Let_def)
  also have "(\<forall>j < k - i. \<not> ?ok (msgs ! (i + j)) \<and> ml_role (msgs ! (i + j)) \<noteq> ''customer'') \<longleftrightarrow>
      (\<forall>j. i \<le> j \<and> j < k \<longrightarrow> \<not> ?ok (msgs ! j) \<and> ml_role (msgs ! j) \<noteq> ''customer'')"
    (is "?L \<longleftrightarrow> ?R")
  proof
    assume L: ?L
    show ?R
    proof (intro allI impI)
      fix j assume j: "i \<le> j \<and> j < k"
      then have "j - i < k - i" by linarith
      with j show "\<not> ?ok (msgs ! j) \<and> ml_role (msgs ! j) \<noteq> ''customer''"
        using spec [OF L, of "j - i"] by simp
    qed
  next
    assume R: ?R
    show ?L
    proof (intro allI impI)
      fix j assume "j < k - i"
      then show "\<not> ?ok (msgs ! (i + j)) \<and> ml_role (msgs ! (i + j)) \<noteq> ''customer''"
        using spec [OF R, of "i + j"] by simp
    qed
  qed
  finally show ?thesis by (simp only: Let_def at)
qed

section \<open>Witnesses\<close>

definition exampleFacts :: open_outbound_facts where
  "exampleFacts = \<lparr>fo_status = StillPending, fo_kind = KHuman, fo_sentAt = 0, fo_inboxId = None,
     fo_inboxOpen = False, fo_recordOnlyUntil = None, fo_humanAssigneeSame = True, fo_hasAssignee = True,
     fo_now = 600000, fo_resendUnknown = False, fo_failReceived = False\<rparr>"

lemma outboundRecovery_resend_iff_witness: "\<exists>already. outboundRecovery exampleFacts = DoResend already"
proof -
  have "fo_resendUnknown exampleFacts = RESEND_UNKNOWN" by (simp add: exampleFacts_def RESEND_UNKNOWN_def)
  from outboundRecovery_resend_iff [OF this] show ?thesis by (simp add: exampleFacts_def)
qed

definition exampleMessages :: "message_like list" where
  "exampleMessages =
     [\<lparr>ml_role = ''customer'', ml_author = None, ml_content = js ''q''\<rparr>,
      \<lparr>ml_role = ''system'', ml_author = None, ml_content = js ''s''\<rparr>,
      \<lparr>ml_role = ''agent'', ml_author = Some ''ai'', ml_content = js ''a''\<rparr>]"

lemma aiReplyAfter_correct_witness:
  "aiReplyAfter exampleMessages 0 (\<lambda>_. False) = int 2 \<longleftrightarrow>
     0 < int 2 \<and> 2 < length exampleMessages \<and> ml_role (exampleMessages ! 2) = ''agent'' \<and>
     ml_author (exampleMessages ! 2) = Some ''ai'' \<and>
     (\<forall>j. 0 < int j \<and> j < (2::nat) \<longrightarrow> ml_role (exampleMessages ! j) = ''system'')"
proof -
  have "0 < int j \<and> j < 2 \<longleftrightarrow> j = 1" for j :: nat by linarith
  then have all: "(\<forall>j. 0 < int j \<and> j < (2::nat) \<longrightarrow> P j) = P 1" for P :: "nat \<Rightarrow> bool" by simp
  show ?thesis
    using aiReplyAfter_correct [of 0 exampleMessages "\<lambda>_. False" 2]
    by (simp only: all Let_def) (simp add: exampleMessages_def)
qed

end
