(* ===== verification/ConvTypes.thy ===== *)
theory ConvTypes
  imports Prelude
begin

text \<open>
  The conversation contract types shared by several components
  (\<open>src/shared/conversation-types.ts\<close>): the kinds of a hand-over, its record and log, the assignee,
  the order statuses and the refund record; and printing an integer as JavaScript does inside a
  template literal.
\<close>

section \<open>Hand-over\<close>

datatype handoff_kind =
    HkRequest | HkComplaint | HkRefund | HkEmergency | HkFailure | HkSentiment | HkModel
  | HkPromise | HkClaimed | HkConsent | HkPack | HkAgent

definition HANDOFF_KIND_SET :: "(string \<times> handoff_kind) list" where
  "HANDOFF_KIND_SET =
     [(''request'', HkRequest), (''complaint'', HkComplaint), (''refund'', HkRefund),
      (''emergency'', HkEmergency), (''failure'', HkFailure), (''sentiment'', HkSentiment),
      (''model'', HkModel), (''promise'', HkPromise), (''claimed'', HkClaimed),
      (''consent'', HkConsent), (''agent'', HkAgent), (''pack'', HkPack)]"

definition isHandoffKind :: "string \<Rightarrow> bool" where
  "isHandoffKind k \<longleftrightarrow> map_of HANDOFF_KIND_SET k \<noteq> None"

record handoff_record =
  hr_kind :: handoff_kind
  hr_at :: ms
  hr_reason :: jstext
  hr_quote :: "jstext option"
  hr_departNote :: "jstext option"

text \<open>A log entry as read back from the database: its kind may be a string nobody knows.\<close>

record handoff_log_entry =
  hl_kind :: string
  hl_at :: ms
  hl_turnId :: "string option"

definition HANDOFF_LOG_MAX :: nat where
  "HANDOFF_LOG_MAX = 50"

text \<open>The loop runs from the last entry to the first; \<open>kindOfTurnFrom\<close> reads the reversed log.\<close>

fun kindOfTurnFrom :: "handoff_log_entry list \<Rightarrow> string \<Rightarrow> handoff_kind option" where
  "kindOfTurnFrom [] turnId = None"
| "kindOfTurnFrom (e # es) turnId =
     (if hl_turnId e = Some turnId then map_of HANDOFF_KIND_SET (hl_kind e)
      else kindOfTurnFrom es turnId)"

definition handoffKindOfTurn ::
    "handoff_log_entry list option \<Rightarrow> string \<Rightarrow> handoff_kind option" where
  "handoffKindOfTurn log turnId =
     (case log of None \<Rightarrow> None | Some es \<Rightarrow> kindOfTurnFrom (rev es) turnId)"

lemma kindOfTurnFrom_skip:
  "(\<And>e. e \<in> set es \<Longrightarrow> hl_turnId e \<noteq> Some t) \<Longrightarrow>
   kindOfTurnFrom (es @ rest) t = kindOfTurnFrom rest t"
  by (induction es) auto

record assignee =
  as_userId :: "string option"
  as_name :: jstext
  as_at :: ms

section \<open>Orders\<close>

datatype order_status =
  PendingPayment | Paid | OrdCancelled | Superseded | RefundPending | Refunded

datatype payment_mode = PayOnline | PayAdvisor

section \<open>Printing numbers\<close>

text \<open>Decimal digits of a natural number, most significant first, without leading zeros.\<close>

fun show_nat :: "nat \<Rightarrow> string" where
  "show_nat n =
     (if n < 10 then [char_of (48 + n)] else show_nat (n div 10) @ [char_of (48 + n mod 10)])"

declare show_nat.simps [simp del]

definition show_int :: "int \<Rightarrow> string" where
  "show_int i = (if i < 0 then CHR ''-'' # show_nat (nat (- i)) else show_nat (nat i))"

definition digit_val :: "char \<Rightarrow> nat" where
  "digit_val c = of_char c - 48"

definition digit_char :: "char \<Rightarrow> bool" where
  "digit_char c \<longleftrightarrow> 48 \<le> (of_char c :: nat) \<and> (of_char c :: nat) \<le> 57"

definition read_digits :: "string \<Rightarrow> nat" where
  "read_digits s = foldl (\<lambda>a c. 10 * a + digit_val c) 0 s"

lemma digit_of_char: "d < 10 \<Longrightarrow> of_char (char_of (48 + d) :: char) = (48 + d :: nat)"
  by simp

lemma read_show_nat [simp]: "read_digits (show_nat n) = n"
proof (induction n rule: show_nat.induct)
  case (1 n)
  show ?case
  proof (cases "n < 10")
    case True
    then show ?thesis
      by (subst show_nat.simps) (simp add: read_digits_def digit_val_def digit_of_char)
  next
    case False
    have "digit_val (char_of (48 + n mod 10)) = n mod 10"
      unfolding digit_val_def by (subst digit_of_char) simp_all
    with 1 False show ?thesis
      by (subst show_nat.simps) (simp add: read_digits_def)
  qed
qed

lemma show_nat_inj [simp]: "show_nat a = show_nat b \<longleftrightarrow> a = b"
  using read_show_nat [of a] read_show_nat [of b] by metis

lemma show_nat_digits: "\<forall>c \<in> set (show_nat n). digit_char c"
proof (induction n rule: show_nat.induct)
  case (1 n)
  have d: "digit_char (char_of (48 + k))" if "k < 10" for k :: nat
    using that unfolding digit_char_def by (subst (1 2) digit_of_char) auto
  show ?case
    using 1 by (subst show_nat.simps) (auto simp: d)
qed

lemma show_nat_no_minus: "show_nat n \<noteq> CHR ''-'' # s"
proof
  assume "show_nat n = CHR ''-'' # s"
  then have "digit_char (CHR ''-'')" using show_nat_digits [of n] by auto
  then show False by (simp add: digit_char_def)
qed

lemma show_int_inj [simp]: "show_int a = show_int b \<longleftrightarrow> a = b"
  unfolding show_int_def
  using show_nat_no_minus [of "nat a" "show_nat (nat (- b))"]
    show_nat_no_minus [of "nat b" "show_nat (nat (- a))"]
  by (cases "a < 0"; cases "b < 0") (auto dest: sym)

end
