(* ===== verification/JobsRepo.thy ===== *)
theory JobsRepo
  imports ConvTypes
begin

text \<open>
  The job table (\<open>src/db/repo/jobs.ts\<close>) and the job operations a conversation's save commits
  (\<open>JobOp\<close> and the loop of \<open>writeSideRows\<close> in \<open>src/store/pg-backend.ts\<close>): scheduling with at most one
  open job per key, claiming due jobs, guarded status changes with the claim token, start-up
  recovery, cancelling. Job ids are generated by the database; the model counts them. Rows of one
  tenant; \<open>locked\<close> are the rows another transaction holds (\<open>FOR UPDATE SKIP LOCKED\<close>). Between due
  jobs of the same \<open>run_at\<close> the database may pick any; the model picks in insertion order.
\<close>

section \<open>Rows\<close>

datatype job_kind = KFollowup | KHandoffNotify | KRetentionPurge | KOpsDigest

datatype job_status =
  JPending | JRunning | JSending | JDone | JFailed | JCancelled | JAbandoned

datatype notify_reason =
  NrStarted | NrUnclaimed | NrWindow | NrOrderUnconfirmed | NrQuotePending | NrQuoteAccepted
  | NrIntakeUnmatched

record notify_payload =
  np_sessionId :: string
  np_reason :: notify_reason
  np_handoffAt :: "ms option"
  np_escalated :: "bool option"
  np_kind :: "handoff_kind option"
  np_handoffCount :: "nat option"
  np_orderId :: "string option"
  np_intakeId :: "string option"
  np_lines :: "int list option"
  np_unsavedSent :: "bool option"

text \<open>The payload is JSON; \<open>payload->>'sessionId'\<close> and \<open>payload->>'stage'\<close> read it.\<close>

datatype job_payload =
    FollowupPayload string string
  | NotifyPayload notify_payload
  | DayPayload string

fun payloadSessionId :: "job_payload \<Rightarrow> string option" where
  "payloadSessionId (FollowupPayload sid st) = Some sid"
| "payloadSessionId (NotifyPayload p) = Some (np_sessionId p)"
| "payloadSessionId (DayPayload d) = None"

fun payloadStage :: "job_payload \<Rightarrow> string option" where
  "payloadStage (FollowupPayload sid st) = Some st"
| "payloadStage _ = None"

record job_row =
  jb_id :: nat
  jb_kind :: job_kind
  jb_dedupeKey :: string
  jb_runAt :: ms
  jb_status :: job_status
  jb_attempts :: nat
  jb_maxAttempts :: nat
  jb_payload :: job_payload
  jb_lastError :: "string option"
  jb_createdAt :: ms
  jb_claimedAt :: "ms option"
  jb_finishedAt :: "ms option"

record job_spec =
  js_kind :: job_kind
  js_dedupeKey :: string
  js_runAt :: ms
  js_payload :: job_payload
  js_maxAttempts :: nat

record jobs_db =
  jdb_rows :: "job_row list"
  jdb_next :: nat

definition FINISHED :: "job_status list" where
  "FINISHED = [JDone, JFailed, JCancelled, JAbandoned]"

text \<open>The predicate of the partial unique index \<open>jobs_open_uq\<close>.\<close>

definition is_open :: "job_status \<Rightarrow> bool" where
  "is_open s \<longleftrightarrow> s \<in> set [JPending, JRunning, JSending]"

section \<open>Scheduling\<close>

definition newJob :: "nat \<Rightarrow> ms \<Rightarrow> job_spec \<Rightarrow> job_row" where
  "newJob i now spec =
     \<lparr>jb_id = i, jb_kind = js_kind spec, jb_dedupeKey = js_dedupeKey spec,
      jb_runAt = js_runAt spec, jb_status = JPending, jb_attempts = 0,
      jb_maxAttempts = js_maxAttempts spec, jb_payload = js_payload spec, jb_lastError = None,
      jb_createdAt = now, jb_claimedAt = None, jb_finishedAt = None\<rparr>"

definition enqueueJob :: "jobs_db \<Rightarrow> ms \<Rightarrow> job_spec \<Rightarrow> jobs_db \<times> nat option" where
  "enqueueJob db now spec =
     (if \<exists>r \<in> set (jdb_rows db). jb_dedupeKey r = js_dedupeKey spec \<and> is_open (jb_status r)
      then (db, None)
      else (db\<lparr>jdb_rows := jdb_rows db @ [newJob (jdb_next db) now spec],
               jdb_next := Suc (jdb_next db)\<rparr>,
            Some (jdb_next db)))"

section \<open>Claiming\<close>

definition due :: "ms \<Rightarrow> job_kind list option \<Rightarrow> nat list \<Rightarrow> job_row \<Rightarrow> bool" where
  "due now kinds locked r \<longleftrightarrow>
     jb_status r = JPending \<and> jb_runAt r \<le> now \<and>
     (case kinds of None \<Rightarrow> True | Some ks \<Rightarrow> jb_kind r \<in> set ks) \<and> jb_id r \<notin> set locked"

definition pickDue ::
    "job_row list \<Rightarrow> ms \<Rightarrow> nat \<Rightarrow> job_kind list option \<Rightarrow> nat list \<Rightarrow> job_row list" where
  "pickDue rows now limit kinds locked =
     take limit (sort_key jb_runAt (filter (due now kinds locked) rows))"

definition markClaimed :: "ms \<Rightarrow> job_row \<Rightarrow> job_row" where
  "markClaimed now r = r\<lparr>jb_status := JRunning, jb_claimedAt := Some now\<rparr>"

definition claimDueJobs ::
    "jobs_db \<Rightarrow> ms \<Rightarrow> nat \<Rightarrow> job_kind list option \<Rightarrow> nat list \<Rightarrow> jobs_db \<times> job_row list" where
  "claimDueJobs db now limit kinds locked =
     (let picked = pickDue (jdb_rows db) now limit kinds locked;
          ids = map jb_id picked;
          rows = update_where (\<lambda>r. jb_id r \<in> set ids) (markClaimed now) (jdb_rows db)
      in (db\<lparr>jdb_rows := rows\<rparr>,
          sort_key jb_runAt (filter (\<lambda>r. jb_id r \<in> set ids) rows)))"

section \<open>Changing a job's status\<close>

datatype job_error = UniqueViolation

record status_opts =
  so_from :: "job_status list option"
  so_claimedAt :: "ms option"
  so_lastError :: "string option option"
  so_attemptsDelta :: nat
  so_runAt :: "ms option"

definition no_opts :: status_opts where
  "no_opts = \<lparr>so_from = None, so_claimedAt = None, so_lastError = None, so_attemptsDelta = 0,
              so_runAt = None\<rparr>"

definition statusHits :: "nat \<Rightarrow> status_opts \<Rightarrow> job_row \<Rightarrow> bool" where
  "statusHits i opts r \<longleftrightarrow>
     jb_id r = i \<and>
     (case so_from opts of None \<Rightarrow> True | Some ss \<Rightarrow> jb_status r \<in> set ss) \<and>
     (case so_claimedAt opts of None \<Rightarrow> True | Some t \<Rightarrow> jb_claimedAt r = Some t)"

definition setStatusRow :: "ms \<Rightarrow> job_status \<Rightarrow> status_opts \<Rightarrow> job_row \<Rightarrow> job_row" where
  "setStatusRow dbnow st opts r =
     r\<lparr>jb_status := st,
       jb_finishedAt := (if st \<in> set FINISHED then Some dbnow else jb_finishedAt r),
       jb_lastError := (case so_lastError opts of None \<Rightarrow> jb_lastError r | Some e \<Rightarrow> e),
       jb_attempts := jb_attempts r + so_attemptsDelta opts,
       jb_runAt := (case so_runAt opts of None \<Rightarrow> jb_runAt r | Some t \<Rightarrow> t)\<rparr>"

text \<open>
  The update can violate the unique index when it re-opens a finished job whose key is open again:
  the statement fails and its transaction with it.
\<close>

definition reopens :: "job_row list \<Rightarrow> nat \<Rightarrow> job_status \<Rightarrow> status_opts \<Rightarrow> bool" where
  "reopens rows i st opts \<longleftrightarrow>
     is_open st \<and>
     (\<exists>r \<in> set rows. statusHits i opts r \<and>
        (\<exists>q \<in> set rows. jb_id q \<noteq> i \<and> is_open (jb_status q) \<and> jb_dedupeKey q = jb_dedupeKey r))"

definition setJobStatus ::
    "jobs_db \<Rightarrow> ms \<Rightarrow> nat \<Rightarrow> job_status \<Rightarrow> status_opts \<Rightarrow> job_error + jobs_db \<times> bool" where
  "setJobStatus db dbnow i st opts =
     (if reopens (jdb_rows db) i st opts then Inl UniqueViolation
      else Inr (db\<lparr>jdb_rows := update_where (statusHits i opts) (setStatusRow dbnow st opts)
                                  (jdb_rows db)\<rparr>,
                length (filter (statusHits i opts) (jdb_rows db)) = 1))"

section \<open>Start-up recovery\<close>

record job_recovery =
  rc_followupRequeued :: nat
  rc_followupAbandoned :: nat
  rc_otherRequeued :: nat
  rc_otherFailed :: nat

text \<open>One \<open>UPDATE ... WHERE ... RETURNING\<close>: the rows after it and the number of rows it changed.\<close>

definition update_count ::
    "(job_row \<Rightarrow> bool) \<Rightarrow> (job_row \<Rightarrow> job_row) \<Rightarrow> job_row list \<Rightarrow> job_row list \<times> nat" where
  "update_count p f rows = (update_where p f rows, length (filter p rows))"

definition isFollowup :: "job_row \<Rightarrow> bool" where
  "isFollowup r \<longleftrightarrow> jb_kind r = KFollowup"

definition recoverJobsAtStartup :: "jobs_db \<Rightarrow> ms \<Rightarrow> jobs_db \<times> job_recovery" where
  "recoverJobsAtStartup db dbnow =
     (let (r1, n1) = update_count (\<lambda>r. isFollowup r \<and> jb_status r = JRunning)
            (\<lambda>r. r\<lparr>jb_status := JPending, jb_claimedAt := None\<rparr>) (jdb_rows db);
          (r2, n2) = update_count (\<lambda>r. isFollowup r \<and> jb_status r = JSending)
            (\<lambda>r. r\<lparr>jb_status := JAbandoned, jb_finishedAt := Some dbnow,
                   jb_lastError := Some ''restart_in_sending''\<rparr>) r1;
          (r3, n3) = update_count (\<lambda>r. jb_kind r = KOpsDigest \<and> jb_status r = JRunning)
            (\<lambda>r. r\<lparr>jb_status := JPending, jb_claimedAt := None\<rparr>) r2;
          (r4, n4) = update_count
            (\<lambda>r. \<not> isFollowup r \<and> jb_status r = JRunning \<and> jb_maxAttempts r \<le> jb_attempts r + 1)
            (\<lambda>r. r\<lparr>jb_status := JFailed, jb_attempts := jb_attempts r + 1,
                   jb_finishedAt := Some dbnow, jb_lastError := Some ''interrupted''\<rparr>) r3;
          (r5, n5) = update_count (\<lambda>r. \<not> isFollowup r \<and> jb_status r = JRunning)
            (\<lambda>r. r\<lparr>jb_status := JPending, jb_attempts := jb_attempts r + 1, jb_claimedAt := None,
                   jb_lastError := Some ''interrupted''\<rparr>) r4
      in (db\<lparr>jdb_rows := r5\<rparr>,
          \<lparr>rc_followupRequeued = n1, rc_followupAbandoned = n2, rc_otherRequeued = n5 + n3,
           rc_otherFailed = n4\<rparr>))"

section \<open>Cancelling\<close>

definition cancelRow :: "ms \<Rightarrow> job_row \<Rightarrow> job_row" where
  "cancelRow dbnow r = r\<lparr>jb_status := JCancelled, jb_finishedAt := Some dbnow\<rparr>"

definition cancelPendingJobs :: "jobs_db \<Rightarrow> ms \<Rightarrow> string \<Rightarrow> jobs_db \<times> nat" where
  "cancelPendingJobs db dbnow key =
     (let (rows, n) = update_count (\<lambda>r. jb_dedupeKey r = key \<and> jb_status r = JPending)
                        (cancelRow dbnow) (jdb_rows db)
      in (db\<lparr>jdb_rows := rows\<rparr>, n))"

definition cancelPendingJobsOfSession ::
    "jobs_db \<Rightarrow> ms \<Rightarrow> job_kind \<Rightarrow> string \<Rightarrow> jobs_db \<times> nat" where
  "cancelPendingJobsOfSession db dbnow kind sid =
     (let (rows, n) = update_count
            (\<lambda>r. jb_kind r = kind \<and> jb_status r = JPending \<and>
                 payloadSessionId (jb_payload r) = Some sid)
            (cancelRow dbnow) (jdb_rows db)
      in (db\<lparr>jdb_rows := rows\<rparr>, n))"

definition cancelFollowupsUntil ::
    "jobs_db \<Rightarrow> ms \<Rightarrow> ms \<Rightarrow> jobs_db \<times> (nat \<times> string option \<times> string option) list" where
  "cancelFollowupsUntil db dbnow until =
     (let p = (\<lambda>r. isFollowup r \<and> (jb_status r = JPending \<or> jb_status r = JRunning) \<and>
                   jb_runAt r \<le> until)
      in (db\<lparr>jdb_rows := update_where p
                (\<lambda>r. r\<lparr>jb_status := JCancelled, jb_finishedAt := Some dbnow,
                       jb_lastError := Some ''restore_cutoff''\<rparr>) (jdb_rows db)\<rparr>,
          map (\<lambda>r. (jb_id r, payloadSessionId (jb_payload r), payloadStage (jb_payload r)))
            (filter p (jdb_rows db))))"

section \<open>Operations committed with a conversation\<close>

datatype job_op =
    OpEnqueue job_spec
  | OpCancel string
  | OpCancelSession job_kind string
  | OpStatus nat job_status status_opts bool

text \<open>
  One turn of the loop over the queued operations: the database after it and the ids of the
  reported status changes that hit. A failing statement aborts the whole transaction.
\<close>

fun applyJobOp :: "jobs_db \<Rightarrow> ms \<Rightarrow> job_op \<Rightarrow> job_error + jobs_db \<times> nat list" where
  "applyJobOp db now (OpEnqueue spec) = Inr (fst (enqueueJob db now spec), [])"
| "applyJobOp db now (OpCancel key) = Inr (fst (cancelPendingJobs db now key), [])"
| "applyJobOp db now (OpCancelSession kind sid) =
     Inr (fst (cancelPendingJobsOfSession db now kind sid), [])"
| "applyJobOp db now (OpStatus i st opts report) =
     (case setJobStatus db now i st opts of
        Inl e \<Rightarrow> Inl e
      | Inr (db', ok) \<Rightarrow> Inr (db', if ok \<and> report then [i] else []))"

fun writeJobOps :: "jobs_db \<Rightarrow> ms \<Rightarrow> job_op list \<Rightarrow> job_error + jobs_db \<times> nat list" where
  "writeJobOps db now [] = Inr (db, [])"
| "writeJobOps db now (op # ops) =
     (case applyJobOp db now op of
        Inl e \<Rightarrow> Inl e
      | Inr (db', applied) \<Rightarrow>
          (case writeJobOps db' now ops of
             Inl e \<Rightarrow> Inl e
           | Inr (db'', later) \<Rightarrow> Inr (db'', applied @ later)))"

section \<open>The table's invariant\<close>

text \<open>
  Ids are unique and below the counter, and two open jobs never share a key: what the primary key
  and the partial unique index promise, kept by every statement.
\<close>

definition jobs_ok :: "jobs_db \<Rightarrow> bool" where
  "jobs_ok db \<longleftrightarrow>
     distinct (map jb_id (jdb_rows db)) \<and>
     (\<forall>r \<in> set (jdb_rows db). jb_id r < jdb_next db) \<and>
     (\<forall>r \<in> set (jdb_rows db). \<forall>q \<in> set (jdb_rows db).
        is_open (jb_status r) \<longrightarrow> is_open (jb_status q) \<longrightarrow>
        jb_dedupeKey r = jb_dedupeKey q \<longrightarrow> jb_id r = jb_id q)"

lemma jobs_ok_distinct: "jobs_ok db \<Longrightarrow> distinct (map jb_id (jdb_rows db))"
  by (simp add: jobs_ok_def)

lemma jobs_ok_fresh: "jobs_ok db \<Longrightarrow> r \<in> set (jdb_rows db) \<Longrightarrow> jb_id r < jdb_next db"
  by (simp add: jobs_ok_def)

lemma jobs_ok_open:
  "jobs_ok db \<Longrightarrow> r \<in> set (jdb_rows db) \<Longrightarrow> q \<in> set (jdb_rows db) \<Longrightarrow>
   is_open (jb_status r) \<Longrightarrow> is_open (jb_status q) \<Longrightarrow> jb_dedupeKey r = jb_dedupeKey q \<Longrightarrow>
   jb_id r = jb_id q"
  unfolding jobs_ok_def by blast

lemma jobs_okI:
  assumes "distinct (map jb_id (jdb_rows db))"
    and "\<And>r. r \<in> set (jdb_rows db) \<Longrightarrow> jb_id r < jdb_next db"
    and "\<And>r q. r \<in> set (jdb_rows db) \<Longrightarrow> q \<in> set (jdb_rows db) \<Longrightarrow>
           is_open (jb_status r) \<Longrightarrow> is_open (jb_status q) \<Longrightarrow>
           jb_dedupeKey r = jb_dedupeKey q \<Longrightarrow> jb_id r = jb_id q"
  shows "jobs_ok db"
  unfolding jobs_ok_def using assms by blast

lemma row_by_id:
  "distinct (map jb_id rows) \<Longrightarrow> r \<in> set rows \<Longrightarrow> q \<in> set rows \<Longrightarrow> jb_id r = jb_id q \<Longrightarrow> r = q"
  by (auto simp: distinct_map dest: inj_onD)

lemma is_open_simps [simp]:
  "is_open JPending" "is_open JRunning" "is_open JSending"
  "\<not> is_open JDone" "\<not> is_open JFailed" "\<not> is_open JCancelled" "\<not> is_open JAbandoned"
  by (simp_all add: is_open_def)

lemma is_open_iff: "is_open s \<longleftrightarrow> s \<notin> set FINISHED"
  by (cases s) (simp_all add: FINISHED_def)

text \<open>An update that keeps ids and keys and re-opens nothing keeps the invariant.\<close>

definition closing :: "(job_row \<Rightarrow> bool) \<Rightarrow> (job_row \<Rightarrow> job_row) \<Rightarrow> bool" where
  "closing p f \<longleftrightarrow>
     (\<forall>r. p r \<longrightarrow> jb_id (f r) = jb_id r \<and> jb_dedupeKey (f r) = jb_dedupeKey r \<and>
        (is_open (jb_status (f r)) \<longrightarrow> is_open (jb_status r)))"

lemma jobs_ok_update:
  assumes "closing p f" and "jobs_ok db"
  shows "jobs_ok (db\<lparr>jdb_rows := update_where p f (jdb_rows db)\<rparr>)"
proof -
  define g where "g = (\<lambda>r. if p r then f r else r)"
  have g: "jb_id (g r) = jb_id r" "jb_dedupeKey (g r) = jb_dedupeKey r"
    "is_open (jb_status (g r)) \<Longrightarrow> is_open (jb_status r)" for r
    using assms(1) by (auto simp: closing_def g_def split: if_splits)
  have rows: "update_where p f (jdb_rows db) = map g (jdb_rows db)"
    by (simp add: update_where_def g_def)
  have ids: "map jb_id (map g (jdb_rows db)) = map jb_id (jdb_rows db)"
    by (simp add: g(1))
  show ?thesis
  proof (rule jobs_okI)
    show "distinct (map jb_id (jdb_rows (db\<lparr>jdb_rows := update_where p f (jdb_rows db)\<rparr>)))"
      using jobs_ok_distinct [OF assms(2)] by (simp add: rows ids del: map_map)
  next
    fix r assume "r \<in> set (jdb_rows (db\<lparr>jdb_rows := update_where p f (jdb_rows db)\<rparr>))"
    then obtain r0 where "r0 \<in> set (jdb_rows db)" "r = g r0" by (auto simp: rows)
    then show "jb_id r < jdb_next (db\<lparr>jdb_rows := update_where p f (jdb_rows db)\<rparr>)"
      using jobs_ok_fresh [OF assms(2)] by (simp add: g(1))
  next
    fix r q
    assume r: "r \<in> set (jdb_rows (db\<lparr>jdb_rows := update_where p f (jdb_rows db)\<rparr>))"
      and q: "q \<in> set (jdb_rows (db\<lparr>jdb_rows := update_where p f (jdb_rows db)\<rparr>))"
      and o: "is_open (jb_status r)" "is_open (jb_status q)"
      and k: "jb_dedupeKey r = jb_dedupeKey q"
    from r obtain r0 where r0: "r0 \<in> set (jdb_rows db)" "r = g r0" by (auto simp: rows)
    from q obtain q0 where q0: "q0 \<in> set (jdb_rows db)" "q = g q0" by (auto simp: rows)
    have "jb_id r0 = jb_id q0"
      by (rule jobs_ok_open [OF assms(2) r0(1) q0(1)])
        (use r0(2) q0(2) o k g in \<open>simp_all\<close>)
    then show "jb_id r = jb_id q" using r0 q0 by (simp add: g(1))
  qed
qed

lemma jobs_ok_enqueue:
  assumes "jobs_ok db"
  shows "jobs_ok (fst (enqueueJob db now spec))"
proof (cases "\<exists>r \<in> set (jdb_rows db). jb_dedupeKey r = js_dedupeKey spec \<and> is_open (jb_status r)")
  case True
  then show ?thesis using assms by (simp add: enqueueJob_def)
next
  case False
  let ?n = "newJob (jdb_next db) now spec"
  let ?db = "db\<lparr>jdb_rows := jdb_rows db @ [?n], jdb_next := Suc (jdb_next db)\<rparr>"
  have n: "jb_id ?n = jdb_next db" "jb_dedupeKey ?n = js_dedupeKey spec"
    by (simp_all add: newJob_def)
  have fresh: "jdb_next db \<notin> jb_id ` set (jdb_rows db)"
  proof
    assume "jdb_next db \<in> jb_id ` set (jdb_rows db)"
    then obtain r where "r \<in> set (jdb_rows db)" "jdb_next db = jb_id r" by (rule imageE)
    then show False using jobs_ok_fresh [OF assms, of r] by simp
  qed
  have "jobs_ok ?db"
  proof (rule jobs_okI)
    show "distinct (map jb_id (jdb_rows ?db))"
      using jobs_ok_distinct [OF assms] fresh by (simp add: n)
  next
    fix r assume "r \<in> set (jdb_rows ?db)"
    then show "jb_id r < jdb_next ?db"
      using jobs_ok_fresh [OF assms, of r] by (auto simp: n)
  next
    fix r q
    assume r: "r \<in> set (jdb_rows ?db)" and q: "q \<in> set (jdb_rows ?db)"
      and o: "is_open (jb_status r)" "is_open (jb_status q)"
      and k: "jb_dedupeKey r = jb_dedupeKey q"
    show "jb_id r = jb_id q"
    proof (cases "r = ?n \<or> q = ?n")
      case True
      then have "r = ?n \<and> q = ?n"
        using False r q o k n(2) by auto
      then show ?thesis by simp
    next
      case no: False
      then show ?thesis
        using r q jobs_ok_open [OF assms _ _ o k] by simp
    qed
  qed
  then show ?thesis using False by (simp only: enqueueJob_def if_False fst_conv)
qed

lemma claim_rows:
  "fst (claimDueJobs db now limit kinds locked) =
   db\<lparr>jdb_rows := update_where
        (\<lambda>r. jb_id r \<in> jb_id ` set (pickDue (jdb_rows db) now limit kinds locked))
        (markClaimed now) (jdb_rows db)\<rparr>"
  by (simp add: claimDueJobs_def Let_def)

lemma in_pickDue: "r \<in> set (pickDue rows now limit kinds locked) \<Longrightarrow> r \<in> set rows \<and> due now kinds locked r"
  unfolding pickDue_def by (auto dest: in_set_takeD)

lemma update_where_cong:
  "(\<And>r. r \<in> set rs \<Longrightarrow> p r = q r) \<Longrightarrow> (\<And>r. r \<in> set rs \<Longrightarrow> q r \<Longrightarrow> f r = g r) \<Longrightarrow>
   update_where p f rs = update_where q g rs"
  by (induction rs) auto

lemma claim_rows_pending:
  assumes "jobs_ok db"
  shows "fst (claimDueJobs db now limit kinds locked) =
   db\<lparr>jdb_rows := update_where
        (\<lambda>r. r \<in> set (pickDue (jdb_rows db) now limit kinds locked))
        (markClaimed now) (jdb_rows db)\<rparr>"
proof -
  let ?P = "pickDue (jdb_rows db) now limit kinds locked"
  have d: "distinct (map jb_id (jdb_rows db))" using assms by (simp add: jobs_ok_def)
  have "(jb_id r \<in> jb_id ` set ?P) = (r \<in> set ?P)" if r: "r \<in> set (jdb_rows db)" for r
  proof
    assume "jb_id r \<in> jb_id ` set ?P"
    then obtain q where "q \<in> set ?P" "jb_id r = jb_id q" by blast
    moreover from this have "r = q"
      using in_pickDue row_by_id [OF d r] by blast
    ultimately show "r \<in> set ?P" by simp
  qed simp
  then show ?thesis
    unfolding claim_rows by (simp cong: update_where_cong)
qed

lemma jobs_ok_claim:
  assumes "jobs_ok db"
  shows "jobs_ok (fst (claimDueJobs db now limit kinds locked))"
  unfolding claim_rows_pending [OF assms]
proof (rule jobs_ok_update [OF _ assms])
  show "closing (\<lambda>r. r \<in> set (pickDue (jdb_rows db) now limit kinds locked)) (markClaimed now)"
    by (auto simp: closing_def markClaimed_def due_def dest: in_pickDue)
qed

lemma jobs_ok_cancel: "jobs_ok db \<Longrightarrow> jobs_ok (fst (cancelPendingJobs db now key))"
  unfolding cancelPendingJobs_def update_count_def Let_def case_prod_conv fst_conv
  by (rule jobs_ok_update) (simp_all add: closing_def cancelRow_def)

lemma jobs_ok_cancelSession:
  "jobs_ok db \<Longrightarrow> jobs_ok (fst (cancelPendingJobsOfSession db now kind sid))"
  unfolding cancelPendingJobsOfSession_def update_count_def Let_def case_prod_conv fst_conv
  by (rule jobs_ok_update) (simp_all add: closing_def cancelRow_def)

lemma jobs_ok_cutoff: "jobs_ok db \<Longrightarrow> jobs_ok (fst (cancelFollowupsUntil db now until))"
  unfolding cancelFollowupsUntil_def Let_def fst_conv
  by (rule jobs_ok_update) (simp_all add: closing_def)

text \<open>A status write that does not trip the index keeps the invariant.\<close>

lemma statusHits_id: "statusHits i opts r \<Longrightarrow> jb_id r = i"
  by (simp add: statusHits_def)

lemma setStatusRow_simps [simp]:
  "jb_id (setStatusRow now st opts r) = jb_id r"
  "jb_kind (setStatusRow now st opts r) = jb_kind r"
  "jb_dedupeKey (setStatusRow now st opts r) = jb_dedupeKey r"
  "jb_status (setStatusRow now st opts r) = st"
  "jb_claimedAt (setStatusRow now st opts r) = jb_claimedAt r"
  "jb_maxAttempts (setStatusRow now st opts r) = jb_maxAttempts r"
  "jb_attempts (setStatusRow now st opts r) = jb_attempts r + so_attemptsDelta opts"
  by (simp_all add: setStatusRow_def)

lemma setJobStatus_Inr:
  "setJobStatus db now i st opts = Inr (db', ok) \<Longrightarrow>
   \<not> reopens (jdb_rows db) i st opts \<and>
   db' = db\<lparr>jdb_rows := update_where (statusHits i opts) (setStatusRow now st opts) (jdb_rows db)\<rparr> \<and>
   ok = (length (filter (statusHits i opts) (jdb_rows db)) = 1)"
  by (simp add: setJobStatus_def split: if_splits)

lemma jobs_ok_setJobStatus:
  assumes ok: "jobs_ok db" and set: "setJobStatus db now i st opts = Inr (db', hit)"
  shows "jobs_ok db'"
proof (rule jobs_okI)
  let ?g = "\<lambda>r. if statusHits i opts r then setStatusRow now st opts r else r"
  note set' = setJobStatus_Inr [OF set]
  have rows: "jdb_rows db' = map ?g (jdb_rows db)" "jdb_next db' = jdb_next db"
    using set' by (simp_all add: update_where_def)
  have "map jb_id (map ?g (jdb_rows db)) = map jb_id (jdb_rows db)" by simp
  then show "distinct (map jb_id (jdb_rows db'))"
    using jobs_ok_distinct [OF ok] rows by metis
  show "jb_id r < jdb_next db'" if r: "r \<in> set (jdb_rows db')" for r
  proof -
    from r rows obtain r0 where "r0 \<in> set (jdb_rows db)" "r = ?g r0" by auto
    then show ?thesis using jobs_ok_fresh [OF ok] rows(2) by simp
  qed
  show "jb_id r = jb_id q"
    if r: "r \<in> set (jdb_rows db')" and q: "q \<in> set (jdb_rows db')"
      and o: "is_open (jb_status r)" "is_open (jb_status q)"
      and k: "jb_dedupeKey r = jb_dedupeKey q" for r q
  proof -
    from r rows obtain r0 where r0: "r0 \<in> set (jdb_rows db)" "r = ?g r0" by auto
    from q rows obtain q0 where q0: "q0 \<in> set (jdb_rows db)" "q = ?g q0" by auto
    have k0: "jb_dedupeKey r0 = jb_dedupeKey q0" using k r0 q0 by (simp split: if_splits)
    have id: "jb_id r = jb_id r0" "jb_id q = jb_id q0" using r0 q0 by simp_all
    have free: "jb_id y = i"
      if "x \<in> set (jdb_rows db)" "statusHits i opts x" "y \<in> set (jdb_rows db)" "is_open st"
        "is_open (jb_status y)" "jb_dedupeKey y = jb_dedupeKey x" for x y
      using set' that unfolding reopens_def by blast
    consider (none) "\<not> statusHits i opts r0" "\<not> statusHits i opts q0"
      | (both) "statusHits i opts r0" "statusHits i opts q0"
      | (left) "statusHits i opts r0" "\<not> statusHits i opts q0"
      | (right) "\<not> statusHits i opts r0" "statusHits i opts q0" by blast
    then show ?thesis
    proof cases
      case none
      then show ?thesis using jobs_ok_open [OF ok r0(1) q0(1)] r0 q0 o k0 by simp
    next
      case both
      then show ?thesis using id statusHits_id by metis
    next
      case left
      then have "jb_id q0 = i" using free [OF r0(1) _ q0(1)] r0 q0 o k0 by simp
      then show ?thesis using left id statusHits_id by metis
    next
      case right
      then have "jb_id r0 = i" using free [OF q0(1) _ r0(1)] r0 q0 o k0 by simp
      then show ?thesis using right id statusHits_id by metis
    qed
  qed
qed

lemma jobs_ok_rows: "jobs_ok (db\<lparr>jdb_rows := rows\<rparr>) \<Longrightarrow> closing p f \<Longrightarrow>
    jobs_ok (db\<lparr>jdb_rows := update_where p f rows\<rparr>)"
  using jobs_ok_update [of p f "db\<lparr>jdb_rows := rows\<rparr>"] by simp

lemma jobs_ok_recover: "jobs_ok db \<Longrightarrow> jobs_ok (fst (recoverJobsAtStartup db now))"
  unfolding recoverJobsAtStartup_def update_count_def Let_def case_prod_conv fst_conv
  by (rule jobs_ok_rows)+ (simp_all add: closing_def)

text \<open>At most one open job per key, as a count.\<close>

lemma jobs_ok_count:
  assumes "jobs_ok db"
  shows "length (filter (\<lambda>r. jb_dedupeKey r = k \<and> is_open (jb_status r)) (jdb_rows db)) \<le> 1"
proof -
  let ?F = "filter (\<lambda>r. jb_dedupeKey r = k \<and> is_open (jb_status r)) (jdb_rows db)"
  have d: "distinct (map jb_id ?F)"
    using jobs_ok_distinct [OF assms] by (simp add: distinct_map_filter)
  have "jb_id a = jb_id b" if "a \<in> set ?F" "b \<in> set ?F" for a b
    using that jobs_ok_open [OF assms] by simp
  with d show ?thesis
  proof (cases ?F)
    case (Cons a rest)
    then show ?thesis
    proof (cases rest)
      case (Cons b rest')
      then have "a \<in> set ?F" "b \<in> set ?F" using \<open>?F = a # rest\<close> by simp_all
      then have "jb_id a = jb_id b"
        using \<open>\<And>b a. a \<in> set ?F \<Longrightarrow> b \<in> set ?F \<Longrightarrow> jb_id a = jb_id b\<close> by blast
      then show ?thesis using d \<open>?F = a # rest\<close> Cons by simp
    qed simp
  qed simp
qed

section \<open>What a claim takes\<close>

lemma filter_update_where:
  "(\<And>r. r \<in> set rows \<Longrightarrow> q r = p r) \<Longrightarrow> (\<And>r. r \<in> set rows \<Longrightarrow> p r \<Longrightarrow> q (f r)) \<Longrightarrow>
   filter q (update_where p f rows) = map f (filter p rows)"
  by (induction rows) auto

lemma length_filter_mem:
  assumes "distinct xs" and "distinct ys" and "set ys \<subseteq> set xs"
  shows "length (filter (\<lambda>x. x \<in> set ys) xs) = length ys"
proof -
  have "set (filter (\<lambda>x. x \<in> set ys) xs) = set ys" using assms(3) by auto
  then have "card (set (filter (\<lambda>x. x \<in> set ys) xs)) = card (set ys)" by simp
  then show ?thesis
    using assms(1,2) by (simp only: distinct_card distinct_filter)
qed

lemma claimed_jobs:
  assumes "jobs_ok db"
  shows "snd (claimDueJobs db now limit kinds locked) =
    sort_key jb_runAt (map (markClaimed now)
      (filter (\<lambda>r. r \<in> set (pickDue (jdb_rows db) now limit kinds locked)) (jdb_rows db)))"
proof -
  let ?P = "pickDue (jdb_rows db) now limit kinds locked"
  have d: "distinct (map jb_id (jdb_rows db))" using assms by (rule jobs_ok_distinct)
  have mem: "(jb_id r \<in> jb_id ` set ?P) = (r \<in> set ?P)" if r: "r \<in> set (jdb_rows db)" for r
  proof
    assume "jb_id r \<in> jb_id ` set ?P"
    then obtain q where "jb_id r = jb_id q" "q \<in> set ?P" by (rule imageE)
    then show "r \<in> set ?P" using row_by_id [OF d r, of q] in_pickDue [of q] by simp
  qed simp
  have "filter (\<lambda>r. jb_id r \<in> jb_id ` set ?P)
          (update_where (\<lambda>r. jb_id r \<in> jb_id ` set ?P) (markClaimed now) (jdb_rows db)) =
        map (markClaimed now) (filter (\<lambda>r. jb_id r \<in> jb_id ` set ?P) (jdb_rows db))"
    by (rule filter_update_where) (simp_all add: markClaimed_def)
  also have "filter (\<lambda>r. jb_id r \<in> jb_id ` set ?P) (jdb_rows db) =
             filter (\<lambda>r. r \<in> set ?P) (jdb_rows db)"
    by (rule filter_cong) (simp_all add: mem)
  finally show ?thesis by (simp add: claimDueJobs_def Let_def)
qed

lemma distinct_pickDue:
  "distinct (map jb_id rows) \<Longrightarrow> distinct (pickDue rows now limit kinds locked)"
  unfolding pickDue_def by (intro distinct_take) (simp add: distinct_map distinct_filter)

lemma pickDue_earliest:
  assumes "j \<in> set (pickDue rows now limit kinds locked)"
    and "r \<in> set rows" "due now kinds locked r"
    and "r \<notin> set (pickDue rows now limit kinds locked)"
  shows "jb_runAt j \<le> jb_runAt r"
proof -
  let ?L = "sort_key jb_runAt (filter (due now kinds locked) rows)"
  have split: "take limit ?L @ drop limit ?L = ?L" by simp
  have "r \<in> set ?L" using assms(2,3) by simp
  then have "r \<in> set (drop limit ?L)"
    using assms(4) split unfolding pickDue_def by (metis UnE set_append)
  moreover have "sorted (map jb_runAt (take limit ?L @ drop limit ?L))"
    by (simp only: split sorted_sort_key)
  ultimately show ?thesis
    using assms(1) unfolding pickDue_def by (auto simp: sorted_append simp del: append_take_drop_id)
qed

text \<open>
  Claiming takes exactly the due, unlocked, pending jobs of the asked kinds, at most the limit,
  the earliest first, marks each of them running with the claim instant as its token, hands them
  out in run order and leaves every other row as it was.
\<close>

theorem claimDueJobs_correct:
  assumes "jobs_ok db" and "claimDueJobs db now limit kinds locked = (db', claimed)"
  shows "(\<forall>j \<in> set claimed. \<exists>r \<in> set (jdb_rows db).
            due now kinds locked r \<and> j = markClaimed now r \<and> j \<in> set (jdb_rows db')) \<and>
         length claimed = min limit (length (filter (due now kinds locked) (jdb_rows db))) \<and>
         sorted (map jb_runAt claimed) \<and>
         (\<forall>r \<in> set (jdb_rows db). jb_id r \<notin> jb_id ` set claimed \<longrightarrow>
            r \<in> set (jdb_rows db') \<and>
            (due now kinds locked r \<longrightarrow> (\<forall>j \<in> set claimed. jb_runAt j \<le> jb_runAt r)))"
proof -
  let ?P = "pickDue (jdb_rows db) now limit kinds locked"
  have d: "distinct (map jb_id (jdb_rows db))" using assms(1) by (rule jobs_ok_distinct)
  have P: "r \<in> set (jdb_rows db)" "due now kinds locked r" if "r \<in> set ?P" for r
    using that in_pickDue by blast+
  have c: "claimed = sort_key jb_runAt (map (markClaimed now)
             (filter (\<lambda>r. r \<in> set ?P) (jdb_rows db)))"
    using claimed_jobs [OF assms(1)] assms(2) by (metis snd_conv)
  have rows: "jdb_rows db' = update_where (\<lambda>r. r \<in> set ?P) (markClaimed now) (jdb_rows db)"
    using claim_rows_pending [OF assms(1), of now limit kinds locked] assms(2) by simp
  have set_c: "set claimed = markClaimed now ` set ?P"
    using P by (auto simp: c)
  have "length (filter (\<lambda>r. r \<in> set ?P) (jdb_rows db)) = length ?P"
    using d distinct_pickDue [OF d] P by (intro length_filter_mem) (auto simp: distinct_map)
  then have len: "length claimed = min limit (length (filter (due now kinds locked) (jdb_rows db)))"
    by (simp add: c pickDue_def min.commute)
  have ids: "jb_id ` set claimed = jb_id ` set ?P"
    by (simp add: set_c image_image markClaimed_def)
  have mark: "markClaimed now r \<in> set (jdb_rows db')" if "r \<in> set ?P" for r
    using that P(1) [OF that] unfolding rows update_where_def set_map
    by (intro image_eqI [of _ _ r]) simp_all
  have keep: "r \<in> set (jdb_rows db')" if "r \<in> set (jdb_rows db)" "r \<notin> set ?P" for r
    using that unfolding rows update_where_def set_map by (intro image_eqI [of _ _ r]) simp_all
  have early: "jb_runAt j \<le> jb_runAt r"
    if "r \<in> set (jdb_rows db)" "r \<notin> set ?P" "due now kinds locked r" "j \<in> set claimed" for r j
    using that set_c pickDue_earliest [OF _ that(1,3,2)] by (auto simp: markClaimed_def)
  have out: "r \<notin> set ?P" if "jb_id r \<notin> jb_id ` set claimed" for r
    using that unfolding ids by blast
  show ?thesis
  proof (intro conjI ballI impI)
    fix j assume "j \<in> set claimed"
    then obtain r where "j = markClaimed now r" "r \<in> set ?P" unfolding set_c by (rule imageE)
    then show "\<exists>r \<in> set (jdb_rows db).
        due now kinds locked r \<and> j = markClaimed now r \<and> j \<in> set (jdb_rows db')"
      using P mark by (intro bexI [of _ r]) simp_all
  next
    show "sorted (map jb_runAt claimed)" by (simp add: c)
  qed (use len keep early out in \<open>blast+\<close>)
qed

definition sample_job :: "nat \<Rightarrow> job_kind \<Rightarrow> string \<Rightarrow> ms \<Rightarrow> job_status \<Rightarrow> nat \<Rightarrow> job_row" where
  "sample_job i k key t st att =
     \<lparr>jb_id = i, jb_kind = k, jb_dedupeKey = key, jb_runAt = t, jb_status = st,
      jb_attempts = att, jb_maxAttempts = 3, jb_payload = DayPayload ''d'', jb_lastError = None,
      jb_createdAt = 0, jb_claimedAt = (if st = JRunning then Some 1 else None),
      jb_finishedAt = None\<rparr>"

definition sample_jobs :: jobs_db where
  "sample_jobs =
     \<lparr>jdb_rows = [sample_job 0 KHandoffNotify ''a'' 30 JPending 0,
                  sample_job 1 KRetentionPurge ''b'' 10 JPending 0,
                  sample_job 2 KHandoffNotify ''c'' 90 JPending 0,
                  sample_job 3 KFollowup ''d'' 5 JSending 0,
                  sample_job 4 KHandoffNotify ''e'' 5 JRunning 2],
      jdb_next = 5\<rparr>"

lemma sample_jobs_ok: "jobs_ok sample_jobs"
  by (simp add: jobs_ok_def sample_jobs_def sample_job_def)

lemma claimDueJobs_correct_witness:
  "map jb_id (snd (claimDueJobs sample_jobs 50 1 None [])) = [1] \<and>
   (\<exists>db' claimed. claimDueJobs sample_jobs 50 1 None [] = (db', claimed) \<and>
      length claimed = 1 \<and> sorted (map jb_runAt claimed))"
proof -
  obtain db' claimed where e: "claimDueJobs sample_jobs 50 1 None [] = (db', claimed)"
    by (metis surj_pair)
  have "length (filter (due 50 None []) (jdb_rows sample_jobs)) = 2"
    by (simp add: sample_jobs_def sample_job_def due_def)
  then have "length claimed = 1 \<and> sorted (map jb_runAt claimed)"
    using claimDueJobs_correct [OF sample_jobs_ok e] by simp
  moreover have "map jb_id (snd (claimDueJobs sample_jobs 50 1 None [])) = [1]" by code_simp
  ultimately show ?thesis using e by blast
qed

section \<open>What start-up recovery does to each job\<close>

text \<open>The decision table: one row's fate, and which of the four counters it is counted in.\<close>

datatype recovery_fate =
  FateKeep | FateFollowupBack | FateFollowupAbandoned | FateDigestBack | FateFailed | FateRetry

definition recovery_fate_of :: "job_row \<Rightarrow> recovery_fate" where
  "recovery_fate_of r =
     (case (jb_kind r, jb_status r) of
        (KFollowup, JRunning) \<Rightarrow> FateFollowupBack
      | (KFollowup, JSending) \<Rightarrow> FateFollowupAbandoned
      | (KOpsDigest, JRunning) \<Rightarrow> FateDigestBack
      | (_, JRunning) \<Rightarrow> if jb_attempts r + 1 < jb_maxAttempts r then FateRetry else FateFailed
      | _ \<Rightarrow> FateKeep)"

fun apply_fate :: "ms \<Rightarrow> recovery_fate \<Rightarrow> job_row \<Rightarrow> job_row" where
  "apply_fate now FateKeep r = r"
| "apply_fate now FateFollowupBack r = r\<lparr>jb_status := JPending, jb_claimedAt := None\<rparr>"
| "apply_fate now FateFollowupAbandoned r =
     r\<lparr>jb_status := JAbandoned, jb_finishedAt := Some now,
       jb_lastError := Some ''restart_in_sending''\<rparr>"
| "apply_fate now FateDigestBack r = r\<lparr>jb_status := JPending, jb_claimedAt := None\<rparr>"
| "apply_fate now FateFailed r =
     r\<lparr>jb_status := JFailed, jb_attempts := jb_attempts r + 1, jb_finishedAt := Some now,
       jb_lastError := Some ''interrupted''\<rparr>"
| "apply_fate now FateRetry r =
     r\<lparr>jb_status := JPending, jb_attempts := jb_attempts r + 1, jb_claimedAt := None,
       jb_lastError := Some ''interrupted''\<rparr>"

definition fate_count :: "recovery_fate list \<Rightarrow> job_row list \<Rightarrow> nat" where
  "fate_count fs rows = length (filter (\<lambda>r. recovery_fate_of r \<in> set fs) rows)"

lemma length_filter_map:
  "(\<And>r. r \<in> set rows \<Longrightarrow> q (g r) = p r) \<Longrightarrow> length (filter q (map g rows)) = length (filter p rows)"
  by (induction rows) auto

definition rec1 :: "job_row \<Rightarrow> job_row" where
  "rec1 r = (if isFollowup r \<and> jb_status r = JRunning
     then r\<lparr>jb_status := JPending, jb_claimedAt := None\<rparr> else r)"

definition rec2 :: "ms \<Rightarrow> job_row \<Rightarrow> job_row" where
  "rec2 now r = (if isFollowup r \<and> jb_status r = JSending
     then r\<lparr>jb_status := JAbandoned, jb_finishedAt := Some now,
            jb_lastError := Some ''restart_in_sending''\<rparr> else r)"

definition rec3 :: "job_row \<Rightarrow> job_row" where
  "rec3 r = (if jb_kind r = KOpsDigest \<and> jb_status r = JRunning
     then r\<lparr>jb_status := JPending, jb_claimedAt := None\<rparr> else r)"

definition rec4 :: "ms \<Rightarrow> job_row \<Rightarrow> job_row" where
  "rec4 now r = (if \<not> isFollowup r \<and> jb_status r = JRunning \<and>
       jb_maxAttempts r \<le> jb_attempts r + 1
     then r\<lparr>jb_status := JFailed, jb_attempts := jb_attempts r + 1,
            jb_finishedAt := Some now, jb_lastError := Some ''interrupted''\<rparr> else r)"

definition rec5 :: "job_row \<Rightarrow> job_row" where
  "rec5 r = (if \<not> isFollowup r \<and> jb_status r = JRunning
     then r\<lparr>jb_status := JPending, jb_attempts := jb_attempts r + 1, jb_claimedAt := None,
            jb_lastError := Some ''interrupted''\<rparr> else r)"

lemmas recs = rec1_def rec2_def rec3_def rec4_def rec5_def

lemma recover_row: "rec5 (rec4 now (rec3 (rec2 now (rec1 r)))) = apply_fate now (recovery_fate_of r) r"
  by (cases "jb_kind r"; cases "jb_status r"; cases "jb_maxAttempts r \<le> jb_attempts r + 1")
    (simp_all add: recs recovery_fate_of_def isFollowup_def)

lemma rows_set: "jdb_rows (db\<lparr>jdb_rows := rows\<rparr>) = rows"
  by simp

lemma recovery_rows:
  "jdb_rows (fst (recoverJobsAtStartup db now)) =
   map (\<lambda>r. apply_fate now (recovery_fate_of r) r) (jdb_rows db)"
proof -
  have "jdb_rows (fst (recoverJobsAtStartup db now)) =
    map rec5 (map (rec4 now) (map rec3 (map (rec2 now) (map rec1 (jdb_rows db)))))"
    by (simp only: recoverJobsAtStartup_def update_count_def Let_def case_prod_conv fst_conv
        update_where_def recs [abs_def] rows_set)
  then show ?thesis by (simp add: recover_row)
qed

lemma recovery_counts:
  "snd (recoverJobsAtStartup db now) =
     \<lparr>rc_followupRequeued = fate_count [FateFollowupBack] (jdb_rows db),
      rc_followupAbandoned = fate_count [FateFollowupAbandoned] (jdb_rows db),
      rc_otherRequeued = fate_count [FateRetry, FateDigestBack] (jdb_rows db),
      rc_otherFailed = fate_count [FateFailed] (jdb_rows db)\<rparr>"
proof -
  let ?R = "jdb_rows db"
  have n: "snd (recoverJobsAtStartup db now) =
     \<lparr>rc_followupRequeued = length (filter (\<lambda>r. isFollowup r \<and> jb_status r = JRunning) ?R),
      rc_followupAbandoned =
        length (filter (\<lambda>r. isFollowup r \<and> jb_status r = JSending) (map rec1 ?R)),
      rc_otherRequeued =
        length (filter (\<lambda>r. \<not> isFollowup r \<and> jb_status r = JRunning)
          (map (rec4 now) (map rec3 (map (rec2 now) (map rec1 ?R))))) +
        length (filter (\<lambda>r. jb_kind r = KOpsDigest \<and> jb_status r = JRunning)
          (map (rec2 now) (map rec1 ?R))),
      rc_otherFailed =
        length (filter (\<lambda>r. \<not> isFollowup r \<and> jb_status r = JRunning \<and>
            jb_maxAttempts r \<le> jb_attempts r + 1)
          (map rec3 (map (rec2 now) (map rec1 ?R))))\<rparr>"
    by (simp only: recoverJobsAtStartup_def update_count_def Let_def case_prod_conv snd_conv
        update_where_def recs [abs_def])
  have c1: "length (filter (\<lambda>r. isFollowup r \<and> jb_status r = JRunning) ?R) =
            fate_count [FateFollowupBack] ?R"
    unfolding fate_count_def
    by (rule arg_cong [where f = length], rule filter_cong [OF refl])
      (simp add: recovery_fate_of_def isFollowup_def split: job_kind.split job_status.split)
  have c2: "length (filter (\<lambda>r. isFollowup r \<and> jb_status r = JSending) (map rec1 ?R)) =
            fate_count [FateFollowupAbandoned] ?R"
    unfolding fate_count_def
    by (rule length_filter_map)
      (simp add: rec1_def recovery_fate_of_def isFollowup_def split: job_kind.split job_status.split)
  have c3: "length (filter (\<lambda>r. jb_kind r = KOpsDigest \<and> jb_status r = JRunning)
              (map (rec2 now \<circ> rec1) ?R)) = fate_count [FateDigestBack] ?R"
    unfolding fate_count_def
    by (rule length_filter_map)
      (simp add: rec1_def rec2_def recovery_fate_of_def isFollowup_def
        split: job_kind.split job_status.split)
  have c4: "length (filter (\<lambda>r. \<not> isFollowup r \<and> jb_status r = JRunning \<and>
              jb_maxAttempts r \<le> jb_attempts r + 1) (map (rec3 \<circ> (rec2 now \<circ> rec1)) ?R)) =
            fate_count [FateFailed] ?R"
    unfolding fate_count_def
  proof (rule length_filter_map)
    fix r :: job_row
    show "(\<not> isFollowup ((rec3 \<circ> (rec2 now \<circ> rec1)) r) \<and> jb_status ((rec3 \<circ> (rec2 now \<circ> rec1)) r) = JRunning \<and>
           jb_maxAttempts ((rec3 \<circ> (rec2 now \<circ> rec1)) r) \<le> jb_attempts ((rec3 \<circ> (rec2 now \<circ> rec1)) r) + 1) =
          (recovery_fate_of r \<in> set [FateFailed])"
      by (cases "jb_kind r"; cases "jb_status r")
        (simp_all add: rec1_def rec2_def rec3_def recovery_fate_of_def isFollowup_def)
  qed
  have c5: "length (filter (\<lambda>r. \<not> isFollowup r \<and> jb_status r = JRunning)
              (map (rec4 now \<circ> (rec3 \<circ> (rec2 now \<circ> rec1))) ?R)) = fate_count [FateRetry] ?R"
    unfolding fate_count_def
  proof (rule length_filter_map)
    fix r :: job_row
    show "(\<not> isFollowup ((rec4 now \<circ> (rec3 \<circ> (rec2 now \<circ> rec1))) r) \<and>
           jb_status ((rec4 now \<circ> (rec3 \<circ> (rec2 now \<circ> rec1))) r) = JRunning) =
          (recovery_fate_of r \<in> set [FateRetry])"
      by (cases "jb_kind r"; cases "jb_status r")
        (simp_all add: rec1_def rec2_def rec3_def rec4_def recovery_fate_of_def isFollowup_def)
  qed
  have plus: "fate_count [FateRetry] rows + fate_count [FateDigestBack] rows =
              fate_count [FateRetry, FateDigestBack] rows" for rows
    by (induction rows) (auto simp: fate_count_def)
  show ?thesis
    unfolding n using c1 c2 c3 c4 c5 plus [of ?R] by (simp add: o_assoc)
qed

text \<open>
  C36: Start-up recovery's five updates together give every job the fate of the decision table
  (a running follow-up is pending again, a sending one is abandoned and never resent, a digest is
  pending again without an attempt, any other running job costs an attempt and fails at its last
  one), leave no job running and no follow-up sending, and report the number of jobs of each fate.
\<close>

theorem recoverJobsAtStartup_fates:
  "jdb_rows (fst (recoverJobsAtStartup db now)) =
     map (\<lambda>r. apply_fate now (recovery_fate_of r) r) (jdb_rows db) \<and>
   snd (recoverJobsAtStartup db now) =
     \<lparr>rc_followupRequeued = fate_count [FateFollowupBack] (jdb_rows db),
      rc_followupAbandoned = fate_count [FateFollowupAbandoned] (jdb_rows db),
      rc_otherRequeued = fate_count [FateRetry, FateDigestBack] (jdb_rows db),
      rc_otherFailed = fate_count [FateFailed] (jdb_rows db)\<rparr> \<and>
   list_all (\<lambda>r. jb_status r \<noteq> JRunning \<and> \<not> (isFollowup r \<and> jb_status r = JSending))
     (jdb_rows (fst (recoverJobsAtStartup db now)))"
proof -
  have row: "jb_status (apply_fate now (recovery_fate_of r) r) \<noteq> JRunning \<and>
             \<not> (isFollowup (apply_fate now (recovery_fate_of r) r) \<and>
                jb_status (apply_fate now (recovery_fate_of r) r) = JSending)" for r
    by (cases "jb_kind r"; cases "jb_status r") (simp_all add: recovery_fate_of_def isFollowup_def)
  show ?thesis using recovery_rows [of db now] recovery_counts [of db now] row by (simp add: list_all_iff)
qed

end
