(* ===== verification/JobsNotify.thy ===== *)
theory JobsNotify
  imports JobsRepo
begin

text \<open>
  Which notifications a hand-over, an order or a list of unmatched items schedules
  (\<open>src/jobs/notify.ts\<close>): the jobs' keys, instants and payloads, and the operation that cancels
  them when a conversation is reset.
\<close>

section \<open>Scheduling\<close>

definition HANDOFF_NOTIFY_MAX_ATTEMPTS :: nat where
  "HANDOFF_NOTIFY_MAX_ATTEMPTS = 4"

definition HANDOFF_UNCLAIMED_MS :: ms where
  "HANDOFF_UNCLAIMED_MS = 10 * 60000"

definition WINDOW_NOTICE_MS :: ms where
  "WINDOW_NOTICE_MS = 4 * 3600000"

fun reason_name :: "notify_reason \<Rightarrow> string" where
  "reason_name NrStarted = ''started''"
| "reason_name NrUnclaimed = ''unclaimed''"
| "reason_name NrWindow = ''window''"
| "reason_name NrOrderUnconfirmed = ''order_unconfirmed''"
| "reason_name NrQuotePending = ''quote_pending''"
| "reason_name NrQuoteAccepted = ''quote_accepted''"
| "reason_name NrIntakeUnmatched = ''intake_unmatched''"

definition notifyPayload :: "string \<Rightarrow> notify_reason \<Rightarrow> notify_payload" where
  "notifyPayload sid reason =
     \<lparr>np_sessionId = sid, np_reason = reason, np_handoffAt = None, np_escalated = None,
      np_kind = None, np_handoffCount = None, np_orderId = None, np_intakeId = None,
      np_lines = None, np_unsavedSent = None\<rparr>"

definition notifyOp :: "string \<Rightarrow> ms \<Rightarrow> notify_payload \<Rightarrow> job_op" where
  "notifyOp key runAt payload =
     OpEnqueue \<lparr>js_kind = KHandoffNotify, js_dedupeKey = key, js_runAt = runAt,
       js_payload = NotifyPayload payload, js_maxAttempts = HANDOFF_NOTIFY_MAX_ATTEMPTS\<rparr>"

definition startedNotifyKey :: "string \<Rightarrow> ms \<Rightarrow> string" where
  "startedNotifyKey sid at = ''handoff_notify:'' @ sid @ '':'' @ show_int at @ '':started''"

record handoff_notify_opts =
  hn_escalated :: bool
  hn_kind :: "handoff_kind option"
  hn_handoffCount :: "nat option"
  hn_windowClosesAt :: "ms option"

definition handoffNotifyKey :: "string \<Rightarrow> ms \<Rightarrow> notify_reason \<Rightarrow> string" where
  "handoffNotifyKey sid at reason =
     (if reason = NrStarted then startedNotifyKey sid at
      else ''handoff_notify:'' @ sid @ '':'' @ show_int at @ '':'' @ reason_name reason)"

definition handoffNotifyOp ::
    "string \<Rightarrow> ms \<Rightarrow> handoff_notify_opts \<Rightarrow> notify_reason \<Rightarrow> ms \<Rightarrow> job_op" where
  "handoffNotifyOp sid at opts reason runAt =
     notifyOp (handoffNotifyKey sid at reason) runAt
       ((notifyPayload sid reason)
         \<lparr>np_handoffAt := Some at, np_escalated := Some (hn_escalated opts),
          np_kind := hn_kind opts, np_handoffCount := hn_handoffCount opts\<rparr>)"

definition handoffNotifyOps :: "string \<Rightarrow> ms \<Rightarrow> handoff_notify_opts \<Rightarrow> job_op list" where
  "handoffNotifyOps sid at opts =
     (let op = handoffNotifyOp sid at opts in
      if hn_escalated opts then [op NrStarted at]
      else [op NrStarted at, op NrUnclaimed (at + HANDOFF_UNCLAIMED_MS)] @
           (case hn_windowClosesAt opts of
              Some w \<Rightarrow> if at < w then [op NrWindow (max at (w - WINDOW_NOTICE_MS))] else []
            | None \<Rightarrow> []))"

definition orderUnconfirmedNotifyOps :: "string \<Rightarrow> string \<Rightarrow> ms \<Rightarrow> job_op list" where
  "orderUnconfirmedNotifyOps sid orderId at =
     [notifyOp (''handoff_notify:'' @ sid @ '':order:'' @ orderId) at
        ((notifyPayload sid NrOrderUnconfirmed)\<lparr>np_orderId := Some orderId\<rparr>)]"

text \<open>Called with \<open>NrQuotePending\<close> or \<open>NrQuoteAccepted\<close>.\<close>

definition quoteNotifyOps :: "string \<Rightarrow> string \<Rightarrow> notify_reason \<Rightarrow> ms \<Rightarrow> job_op list" where
  "quoteNotifyOps sid orderId reason at =
     [notifyOp (reason_name reason @ '':'' @ orderId) at
        ((notifyPayload sid reason)\<lparr>np_orderId := Some orderId\<rparr>)]"

definition cancelHandoffNotifyOps :: "string \<Rightarrow> job_op list" where
  "cancelHandoffNotifyOps sid = [OpCancelSession KHandoffNotify sid]"

text \<open>The pattern \<open>^int_[a-f0-9]{12}$\<close>.\<close>

definition intake_id_ok :: "string \<Rightarrow> bool" where
  "intake_id_ok s \<longleftrightarrow>
     take 4 s = ''int_'' \<and> length s = 16 \<and> list_all (\<lambda>c. c \<in> set ''abcdef0123456789'') (drop 4 s)"

datatype notify_error = BadIntakeNotice

definition intakeUnmatchedNotifyOps ::
    "string \<Rightarrow> string \<Rightarrow> int list \<Rightarrow> ms \<Rightarrow> notify_error + job_op list" where
  "intakeUnmatchedNotifyOps sid intakeId lines at =
     (if \<not> intake_id_ok intakeId \<or> lines = [] \<or> 30 < length lines \<or>
         list_ex (\<lambda>l. l < 1 \<or> 30 < l) lines \<or> length (remdups lines) \<noteq> length lines
      then Inl BadIntakeNotice
      else Inr [notifyOp (''intake_unmatched:'' @ intakeId) at
                  ((notifyPayload sid NrIntakeUnmatched)
                     \<lparr>np_intakeId := Some intakeId, np_lines := Some lines\<rparr>)])"

section \<open>Scheduling twice is scheduling once\<close>

definition key_open :: "jobs_db \<Rightarrow> string \<Rightarrow> bool" where
  "key_open db k \<longleftrightarrow> (\<exists>r \<in> set (jdb_rows db). jb_dedupeKey r = k \<and> is_open (jb_status r))"

fun op_key :: "job_op \<Rightarrow> string option" where
  "op_key (OpEnqueue spec) = Some (js_dedupeKey spec)"
| "op_key _ = None"

lemma enqueue_opens: "key_open (fst (enqueueJob db now spec)) (js_dedupeKey spec)"
  by (auto simp: enqueueJob_def key_open_def newJob_def)

lemma enqueue_keeps_open: "key_open db k \<Longrightarrow> key_open (fst (enqueueJob db now spec)) k"
  by (auto simp: enqueueJob_def key_open_def)

lemma enqueue_open_noop: "key_open db (js_dedupeKey spec) \<Longrightarrow> enqueueJob db now spec = (db, None)"
  by (auto simp: enqueueJob_def key_open_def)

lemma write_enqueues:
  assumes "\<forall>op \<in> set ops. op_key op \<noteq> None"
  shows "\<exists>db'. writeJobOps db now ops = Inr (db', []) \<and>
           (\<forall>k. key_open db k \<longrightarrow> key_open db' k) \<and>
           (\<forall>op \<in> set ops. \<forall>k. op_key op = Some k \<longrightarrow> key_open db' k)"
  using assms
proof (induction ops arbitrary: db)
  case (Cons op ops)
  then obtain spec where op: "op = OpEnqueue spec" by (cases op) auto
  let ?d = "fst (enqueueJob db now spec)"
  obtain db' where db': "writeJobOps ?d now ops = Inr (db', [])"
      "\<forall>k. key_open ?d k \<longrightarrow> key_open db' k"
      "\<forall>op \<in> set ops. \<forall>k. op_key op = Some k \<longrightarrow> key_open db' k"
    using Cons.IH [of ?d] Cons.prems by auto
  have "writeJobOps db now (op # ops) = Inr (db', [])" by (simp add: op db'(1))
  moreover have "key_open db' k" if "key_open db k" for k
    using that db'(2) enqueue_keeps_open by blast
  moreover have "key_open db' (js_dedupeKey spec)" using db'(2) enqueue_opens by blast
  ultimately show ?case using db'(3) op by (intro exI [of _ db']) simp
qed simp

lemma write_open_noop:
  "\<forall>op \<in> set ops. \<exists>k. op_key op = Some k \<and> key_open db k \<Longrightarrow>
   writeJobOps db now ops = Inr (db, [])"
proof (induction ops)
  case (Cons op ops)
  then obtain spec where op: "op = OpEnqueue spec" "key_open db (js_dedupeKey spec)"
    by (cases op) auto
  then show ?case using Cons enqueue_open_noop [OF op(2)] by simp
qed simp

text \<open>
  Committing the notifications of a hand-over always succeeds and leaves each of them open;
  committing them a second time (a replayed save) inserts nothing, whenever it happens before they
  have ended.
\<close>

theorem handoffNotifyOps_idempotent:
  "\<exists>db'. writeJobOps db now (handoffNotifyOps sid at opts) = Inr (db', []) \<and>
     list_all (\<lambda>op. \<exists>k. op_key op = Some k \<and> key_open db' k) (handoffNotifyOps sid at opts) \<and>
     writeJobOps db' later (handoffNotifyOps sid at opts) = Inr (db', [])"
proof -
  let ?ops = "handoffNotifyOps sid at opts"
  have keyed: "\<forall>op \<in> set ?ops. op_key op \<noteq> None"
    by (auto simp: handoffNotifyOps_def handoffNotifyOp_def notifyOp_def Let_def
        split: option.splits)
  obtain db' where db': "writeJobOps db now ?ops = Inr (db', [])"
      "\<forall>op \<in> set ?ops. \<forall>k. op_key op = Some k \<longrightarrow> key_open db' k"
    using write_enqueues [OF keyed] by blast
  have "\<forall>op \<in> set ?ops. \<exists>k. op_key op = Some k \<and> key_open db' k"
    using keyed db'(2) by blast
  then show ?thesis using db'(1) write_open_noop [of ?ops db'] by (simp add: list_all_iff)
qed

section \<open>Keys of different hand-overs\<close>

lemma colon_split:
  assumes "CHR '':'' \<notin> set a" "CHR '':'' \<notin> set b" "a @ CHR '':'' # x = b @ CHR '':'' # y"
  shows "a = b \<and> x = y"
  using assms
proof (induction a arbitrary: b)
  case Nil
  then show ?case by (cases b) auto
next
  case (Cons c a)
  then obtain b' where "b = c # b'" by (cases b) auto
  then show ?case using Cons.IH [of b'] Cons.prems by simp
qed

lemma show_int_no_colon: "CHR '':'' \<notin> set (show_int i)"
proof -
  have "CHR '':'' \<notin> set (show_nat n)" for n
    using show_nat_digits [of n] by (auto simp: digit_char_def)
  then show ?thesis by (simp add: show_int_def)
qed

lemma reason_name_inj [simp]: "reason_name a = reason_name b \<longleftrightarrow> a = b"
  by (cases a; cases b) simp_all

lemma handoffNotifyKey_eq:
  "handoffNotifyKey sid at r = ''handoff_notify:'' @ sid @ '':'' @ show_int at @ '':'' @ reason_name r"
  by (simp add: handoffNotifyKey_def startedNotifyKey_def)

lemma handoffNotifyKey_inj [simp]:
  "handoffNotifyKey sid at r = handoffNotifyKey sid at' r' \<longleftrightarrow> at = at' \<and> r = r'"
  using colon_split [OF show_int_no_colon show_int_no_colon, of at "reason_name r" at' "reason_name r'"]
  by (auto simp: handoffNotifyKey_eq)

lemma op_key_handoff [simp]:
  "op_key (handoffNotifyOp sid at opts r t) = Some (handoffNotifyKey sid at r)"
  by (simp add: handoffNotifyOp_def notifyOp_def)

lemma handoff_ops_shape:
  "op \<in> set (handoffNotifyOps sid at opts) \<Longrightarrow> \<exists>r t. op = handoffNotifyOp sid at opts r t"
  by (simp add: handoffNotifyOps_def Let_def split: option.splits if_splits) blast+

lemma disjoint_images:
  "(\<And>x y. x \<in> A \<Longrightarrow> y \<in> B \<Longrightarrow> f x \<noteq> f y) \<Longrightarrow> f ` A \<inter> f ` B = {}"
  by blast

text \<open>
  The notifications of two hand-overs of a conversation never share a key, nor do those of one
  hand-over: a job of an earlier hand-over that is still running cannot swallow a later one's. None
  of them is due before the hand-over, and the window reminder is due before the window closes.
\<close>

theorem handoffNotifyOps_keys:
  "distinct (map op_key (handoffNotifyOps sid at opts)) \<and>
   (at \<noteq> at' \<longrightarrow>
      set (map op_key (handoffNotifyOps sid at opts)) \<inter>
      set (map op_key (handoffNotifyOps sid at' opts')) = {}) \<and>
   (\<forall>spec. OpEnqueue spec \<in> set (handoffNotifyOps sid at opts) \<longrightarrow>
      at \<le> js_runAt spec \<and> js_maxAttempts spec = HANDOFF_NOTIFY_MAX_ATTEMPTS \<and>
      (js_dedupeKey spec = handoffNotifyKey sid at NrWindow \<longrightarrow>
         (\<exists>w. hn_windowClosesAt opts = Some w \<and> js_runAt spec < w)))"
proof (intro conjI impI allI)
  show "distinct (map op_key (handoffNotifyOps sid at opts))"
    by (simp add: handoffNotifyOps_def Let_def split: option.split)
  show "set (map op_key (handoffNotifyOps sid at opts)) \<inter>
        set (map op_key (handoffNotifyOps sid at' opts')) = {}" if "at \<noteq> at'"
  proof -
    have "op_key x \<noteq> op_key y"
      if "x \<in> set (handoffNotifyOps sid at opts)" "y \<in> set (handoffNotifyOps sid at' opts')" for x y
    proof -
      from handoff_ops_shape [OF that(1)] handoff_ops_shape [OF that(2)]
      obtain r u r' u' where "x = handoffNotifyOp sid at opts r u"
        "y = handoffNotifyOp sid at' opts' r' u'" by metis
      then show ?thesis using \<open>at \<noteq> at'\<close> by simp
    qed
    then show ?thesis unfolding set_map by (rule disjoint_images)
  qed
  fix spec
  assume "OpEnqueue spec \<in> set (handoffNotifyOps sid at opts)"
  then consider (s) "OpEnqueue spec = handoffNotifyOp sid at opts NrStarted at"
    | (u) "OpEnqueue spec = handoffNotifyOp sid at opts NrUnclaimed (at + HANDOFF_UNCLAIMED_MS)"
    | (w) w where "hn_windowClosesAt opts = Some w" "at < w"
        "OpEnqueue spec = handoffNotifyOp sid at opts NrWindow (max at (w - WINDOW_NOTICE_MS))"
    by (cases "hn_windowClosesAt opts")
      (simp_all add: handoffNotifyOps_def Let_def split: if_splits, blast+)
  then have "at \<le> js_runAt spec \<and> js_maxAttempts spec = HANDOFF_NOTIFY_MAX_ATTEMPTS \<and>
      (js_dedupeKey spec = handoffNotifyKey sid at NrWindow \<longrightarrow>
         (\<exists>w. hn_windowClosesAt opts = Some w \<and> js_runAt spec < w))"
    by cases (auto simp: handoffNotifyOp_def notifyOp_def HANDOFF_UNCLAIMED_MS_def
        WINDOW_NOTICE_MS_def)
  then show "at \<le> js_runAt spec"
    and "js_maxAttempts spec = HANDOFF_NOTIFY_MAX_ATTEMPTS"
    and "js_dedupeKey spec = handoffNotifyKey sid at NrWindow \<Longrightarrow>
         \<exists>w. hn_windowClosesAt opts = Some w \<and> js_runAt spec < w"
    by blast+
qed

lemma handoffNotifyOps_keys_witness:
  "set (map op_key (handoffNotifyOps ''s'' 1
      \<lparr>hn_escalated = False, hn_kind = None, hn_handoffCount = None, hn_windowClosesAt = Some 20000000\<rparr>))
   \<inter> set (map op_key (handoffNotifyOps ''s'' 2
      \<lparr>hn_escalated = True, hn_kind = None, hn_handoffCount = None, hn_windowClosesAt = None\<rparr>)) = {}"
  using handoffNotifyOps_keys [of "''s''" 1
      "\<lparr>hn_escalated = False, hn_kind = None, hn_handoffCount = None, hn_windowClosesAt = Some 20000000\<rparr>"
      2 "\<lparr>hn_escalated = True, hn_kind = None, hn_handoffCount = None, hn_windowClosesAt = None\<rparr>"]
  by simp

end
