(* ===== verification/JobsRunner.thy ===== *)
theory JobsRunner
  imports JobsRepo
begin

text \<open>
  The job runner (\<open>src/jobs/runner.ts\<close>) and the status writes of the follow-up handler
  (\<open>src/jobs/followup.ts\<close>): what one process remembers (claimed jobs and their phase, results not
  yet written, whether start-up recovery was done), each function split where the code awaits, and
  the step relation of the whole: any number of processes one after another over the same table.
  The outcome of a short transaction (\<open>ok\<close>), the database clock and the handlers' results are
  arguments. The follow-up planner's own memory is not modelled.
\<close>

section \<open>Outcomes\<close>

datatype end_status = EndDone | EndCancelled | EndFailed

fun end_job_status :: "end_status \<Rightarrow> job_status" where
  "end_job_status EndDone = JDone"
| "end_job_status EndCancelled = JCancelled"
| "end_job_status EndFailed = JFailed"

text \<open>\<open>lastError\<close> may be absent, null or a name; \<open>enqueueNext\<close> absent is the empty list.\<close>

datatype job_outcome =
    OutEnd end_status "string option option" "job_spec list"
  | OutPending ms "string option option"
  | OutHandled
  | OutStopped

text \<open>An outcome with its \<open>attemptsDelta\<close>.\<close>

type_synonym weighed_outcome = "job_outcome \<times> nat"

definition RETRY_MS :: "ms list" where
  "RETRY_MS = [60000, 5 * 60000, 15 * 60000]"

definition retryOutcome :: "job_row \<Rightarrow> ms \<Rightarrow> string \<Rightarrow> weighed_outcome" where
  "retryOutcome job now err =
     (let attempts = jb_attempts job + 1 in
      if jb_maxAttempts job \<le> attempts then (OutEnd EndFailed (Some (Some err)) [], 1)
      else (OutPending (now + RETRY_MS ! min (attempts - 1) (length RETRY_MS - 1))
              (Some (Some err)), 1))"

definition tokenOpts :: "job_row \<Rightarrow> string option option \<Rightarrow> nat \<Rightarrow> ms option \<Rightarrow> status_opts" where
  "tokenOpts job err delta runAt =
     \<lparr>so_from = Some [JRunning], so_claimedAt = jb_claimedAt job, so_lastError = err,
      so_attemptsDelta = delta, so_runAt = runAt\<rparr>"

definition enqueueAll :: "jobs_db \<Rightarrow> ms \<Rightarrow> job_spec list \<Rightarrow> jobs_db" where
  "enqueueAll db now specs = foldl (\<lambda>d spec. fst (enqueueJob d now spec)) db specs"

text \<open>The transaction of \<open>settle\<close>; None stands for the early return without a write.\<close>

fun settle :: "jobs_db \<Rightarrow> ms \<Rightarrow> job_row \<Rightarrow> weighed_outcome \<Rightarrow> job_error + jobs_db \<times> bool option" where
  "settle db now job (OutHandled, delta) = Inr (db, None)"
| "settle db now job (OutStopped, delta) = Inr (db, None)"
| "settle db now job (OutPending runAt err, delta) =
     (case setJobStatus db now (jb_id job) JPending (tokenOpts job err delta (Some runAt)) of
        Inl e \<Rightarrow> Inl e
      | Inr (db', hit) \<Rightarrow> Inr (db', Some hit))"
| "settle db now job (OutEnd st err nexts, delta) =
     (case setJobStatus db now (jb_id job) (end_job_status st) (tokenOpts job err delta None) of
        Inl e \<Rightarrow> Inl e
      | Inr (db', hit) \<Rightarrow> Inr (enqueueAll db' now nexts, Some hit))"

section \<open>One process\<close>

datatype job_phase = PhClaimed | PhStarted | PhSending | PhSettling

record claim_slot =
  cs_job :: job_row
  cs_phase :: job_phase

record job_failure =
  jf_kind :: "job_kind option"
  jf_lastError :: "string option"
  jf_count :: nat

record runner_mem =
  rm_mine :: "(nat, claim_slot) jsmap"
  rm_unsettled :: "(nat, job_row \<times> weighed_outcome) jsmap"
  rm_recovered :: bool
  rm_lastPurgeEnsure :: ms
  rm_stopping :: bool
  rm_alerts :: "job_failure list"

definition fresh_mem :: runner_mem where
  "fresh_mem = \<lparr>rm_mine = [], rm_unsettled = [], rm_recovered = False, rm_lastPurgeEnsure = 0,
                rm_stopping = False, rm_alerts = []\<rparr>"

definition sessionIdOf :: "job_payload \<Rightarrow> string option" where
  "sessionIdOf p =
     (case payloadSessionId p of None \<Rightarrow> None | Some s \<Rightarrow> if s = [] then None else Some s)"

definition hasRunningJob :: "runner_mem \<Rightarrow> string \<Rightarrow> bool" where
  "hasRunningJob mem sid \<longleftrightarrow>
     list_ex (\<lambda>(_, slot). sessionIdOf (jb_payload (cs_job slot)) = Some sid) (rm_mine mem)"

definition setPhase :: "runner_mem \<Rightarrow> nat \<Rightarrow> job_phase \<Rightarrow> runner_mem" where
  "setPhase mem i ph =
     (case jget (rm_mine mem) i of
        None \<Rightarrow> mem
      | Some slot \<Rightarrow> mem\<lparr>rm_mine := jset (rm_mine mem) i (slot\<lparr>cs_phase := ph\<rparr>)\<rparr>)"

text \<open>Alerts after a result is written: only the notifications and the retention purge count.\<close>

definition afterSettled :: "runner_mem \<Rightarrow> job_row \<Rightarrow> job_outcome \<Rightarrow> runner_mem" where
  "afterSettled mem job out =
     (case out of
        OutEnd EndFailed err _ \<Rightarrow>
          if jb_kind job = KFollowup \<or> jb_kind job = KOpsDigest then mem
          else mem\<lparr>rm_alerts := rm_alerts mem @
                 [\<lparr>jf_kind = Some (jb_kind job),
                   jf_lastError = (case err of None \<Rightarrow> None | Some e \<Rightarrow> e), jf_count = 1\<rparr>]\<rparr>
      | _ \<Rightarrow> mem)"

text \<open>
  Writing a result: before the await the phase becomes settling; afterwards the job leaves
  \<open>mine\<close>, and a result that could not be written waits in \<open>unsettled\<close>.
\<close>

definition settleEnd ::
    "jobs_db \<times> runner_mem \<Rightarrow> ms \<Rightarrow> bool \<Rightarrow> job_row \<Rightarrow> weighed_outcome \<Rightarrow> jobs_db \<times> runner_mem" where
  "settleEnd s now ok job out =
     (let (db, mem) = s; gone = mem\<lparr>rm_mine := jdel (rm_mine mem) (jb_id job)\<rparr>;
          queued = gone\<lparr>rm_unsettled := jset (rm_unsettled mem) (jb_id job) (job, out)\<rparr>
      in if \<not> ok then (db, queued)
         else case settle db now job out of
                Inl e \<Rightarrow> (db, queued)
              | Inr (db', _) \<Rightarrow> (db', afterSettled gone job (fst out)))"

definition settleOrQueue ::
    "jobs_db \<times> runner_mem \<Rightarrow> ms \<Rightarrow> bool \<Rightarrow> job_row \<Rightarrow> weighed_outcome \<Rightarrow> jobs_db \<times> runner_mem" where
  "settleOrQueue s now ok job out =
     settleEnd (fst s, setPhase (snd s) (jb_id job) PhSettling) now ok job out"

definition retryOne ::
    "jobs_db \<times> runner_mem \<Rightarrow> ms \<Rightarrow> bool \<Rightarrow> nat \<Rightarrow> jobs_db \<times> runner_mem" where
  "retryOne s now ok i =
     (case jget (rm_unsettled (snd s)) i of
        None \<Rightarrow> s
      | Some (job, out) \<Rightarrow>
          (let db = fst s; mem = (snd s)\<lparr>rm_unsettled := jdel (rm_unsettled (snd s)) i\<rparr>
           in if \<not> ok then (db, mem)
              else case settle db now job out of
                     Inl e \<Rightarrow> (db, mem)
                   | Inr (db', _) \<Rightarrow> (db', afterSettled mem job (fst out))))"

text \<open>The loop, when nothing else runs between its awaits; \<open>oks\<close> says which writes succeed.\<close>

definition retryUnsettled ::
    "jobs_db \<times> runner_mem \<Rightarrow> ms \<Rightarrow> (nat \<Rightarrow> bool) \<Rightarrow> jobs_db \<times> runner_mem" where
  "retryUnsettled s now oks =
     foldl (\<lambda>s i. retryOne s now (oks i) i) s (jkeys (rm_unsettled (snd s)))"

definition recover ::
    "jobs_db \<times> runner_mem \<Rightarrow> ms \<Rightarrow> bool \<Rightarrow> (jobs_db \<times> runner_mem) \<times> bool" where
  "recover s now ok =
     (if \<not> ok then (s, False)
      else let (db', r) = recoverJobsAtStartup (fst s) now;
               mem = (snd s)\<lparr>rm_recovered := True\<rparr>
           in ((db', if rc_otherFailed r \<noteq> 0
                     then mem\<lparr>rm_alerts := rm_alerts mem @
                            [\<lparr>jf_kind = None, jf_lastError = None, jf_count = rc_otherFailed r\<rparr>]\<rparr>
                     else mem), True))"

definition PURGE_ENSURE_MS :: ms where
  "PURGE_ENSURE_MS = 3600000"

definition ensurePurge ::
    "jobs_db \<times> runner_mem \<Rightarrow> ms \<Rightarrow> ms \<Rightarrow> bool \<Rightarrow> (ms \<Rightarrow> job_spec) \<Rightarrow> jobs_db \<times> runner_mem" where
  "ensurePurge s dbnow now ok retentionPurgeSpec =
     (if now - rm_lastPurgeEnsure (snd s) < PURGE_ENSURE_MS \<or> \<not> ok then s
      else (fst (enqueueJob (fst s) dbnow (retentionPurgeSpec now)),
            (snd s)\<lparr>rm_lastPurgeEnsure := now\<rparr>))"

text \<open>
  Before every claim: the tenant lock, recovery once, the results not yet written, the retention
  purge; \<open>ensureDigest\<close> (another module) is a parameter.
\<close>

definition jobsPrelude ::
    "jobs_db \<times> runner_mem \<Rightarrow> ms \<Rightarrow> ms \<Rightarrow> bool \<Rightarrow> bool \<Rightarrow> (nat \<Rightarrow> bool) \<Rightarrow> bool \<Rightarrow>
     (ms \<Rightarrow> job_spec) \<Rightarrow> (ms \<Rightarrow> jobs_db \<Rightarrow> jobs_db) \<Rightarrow> (jobs_db \<times> runner_mem) \<times> bool" where
  "jobsPrelude s dbnow now lockHeld recoverOk oks purgeOk retentionPurgeSpec ensureDigest =
     (if \<not> lockHeld then (s, False)
      else let (s1, ready) = (if rm_recovered (snd s) then (s, True) else recover s dbnow recoverOk)
           in if \<not> ready then (s1, False)
              else let (db, mem) = ensurePurge (retryUnsettled s1 dbnow oks) dbnow now purgeOk
                                     retentionPurgeSpec
                   in ((ensureDigest now db, mem), True))"

record lane =
  ln_name :: string
  ln_kinds :: "job_kind list"

definition LANES :: "lane list" where
  "LANES = [\<lparr>ln_name = ''notify'', ln_kinds = [KHandoffNotify, KRetentionPurge]\<rparr>,
            \<lparr>ln_name = ''followup'', ln_kinds = [KFollowup]\<rparr>,
            \<lparr>ln_name = ''ops'', ln_kinds = [KOpsDigest]\<rparr>]"

definition BATCH :: nat where
  "BATCH = 10"

definition claimLane ::
    "jobs_db \<times> runner_mem \<Rightarrow> lane \<Rightarrow> ms \<Rightarrow> nat list \<Rightarrow> bool \<Rightarrow>
     (jobs_db \<times> runner_mem) \<times> job_row list" where
  "claimLane s ln now locked ok =
     (if \<not> ok then (s, [])
      else let (db', claimed) = claimDueJobs (fst s) now BATCH (Some (ln_kinds ln)) locked
           in ((db', (snd s)\<lparr>rm_mine :=
                   foldl (\<lambda>m job. jset m (jb_id job) \<lparr>cs_job = job, cs_phase = PhClaimed\<rparr>)
                     (rm_mine (snd s)) claimed\<rparr>), claimed))"

text \<open>What the lane does when it comes to its next claimed job.\<close>

datatype lane_turn = LaneBreak | LaneRelease | LaneRun

definition laneTurn :: "runner_mem \<Rightarrow> bool \<Rightarrow> lane_turn" where
  "laneTurn mem lockHeld =
     (if rm_stopping mem then LaneBreak else if \<not> lockHeld then LaneRelease else LaneRun)"

definition releaseRest ::
    "jobs_db \<times> runner_mem \<Rightarrow> ms \<Rightarrow> (nat \<Rightarrow> bool) \<Rightarrow> job_row list \<Rightarrow> jobs_db \<times> runner_mem" where
  "releaseRest s now oks rest =
     foldl (\<lambda>s job. settleOrQueue s now (oks (jb_id job)) job (OutPending (jb_runAt job) None, 0))
       s rest"

datatype handler_result = Returned job_outcome | Threw string

definition handlerOutcome :: "job_row \<Rightarrow> ms \<Rightarrow> job_phase \<Rightarrow> handler_result \<Rightarrow> weighed_outcome" where
  "handlerOutcome job now ph res =
     (case res of
        Returned out \<Rightarrow> (out, 0)
      | Threw err \<Rightarrow> if ph = PhSending then (OutHandled, 0) else retryOutcome job now err)"

definition runClaimedEnd ::
    "jobs_db \<times> runner_mem \<Rightarrow> ms \<Rightarrow> ms \<Rightarrow> bool \<Rightarrow> job_row \<Rightarrow> job_phase \<Rightarrow> handler_result \<Rightarrow>
     jobs_db \<times> runner_mem" where
  "runClaimedEnd s dbnow now ok job ph res =
     (let out = handlerOutcome job now ph res in
      if fst out = OutStopped then s else settleOrQueue s dbnow ok job out)"

text \<open>Shutting down: the follow-ups that have not reached sending go back to pending.\<close>

definition backToPending :: "runner_mem \<Rightarrow> job_row list" where
  "backToPending mem =
     map (\<lambda>(_, slot). cs_job slot)
       (filter (\<lambda>(_, slot). jb_kind (cs_job slot) = KFollowup \<and>
                  cs_phase slot \<in> {PhClaimed, PhStarted}) (rm_mine mem))"

fun stopWrites :: "jobs_db \<Rightarrow> ms \<Rightarrow> job_row list \<Rightarrow> job_error + jobs_db" where
  "stopWrites db now [] = Inr db"
| "stopWrites db now (job # back) =
     (case setJobStatus db now (jb_id job) JPending (tokenOpts job None 0 None) of
        Inl e \<Rightarrow> Inl e
      | Inr (db', _) \<Rightarrow> stopWrites db' now back)"

definition stopJobs :: "jobs_db \<times> runner_mem \<Rightarrow> ms \<Rightarrow> bool \<Rightarrow> jobs_db \<times> runner_mem" where
  "stopJobs s now ok =
     (let mem = (snd s)\<lparr>rm_stopping := True\<rparr>; back = backToPending mem in
      if back = [] \<or> \<not> ok then (fst s, mem)
      else case stopWrites (fst s) now back of
             Inl e \<Rightarrow> (fst s, mem)
           | Inr db' \<Rightarrow> (db', mem\<lparr>rm_mine := foldl (\<lambda>m job. jdel m (jb_id job)) (rm_mine mem) back\<rparr>))"

section \<open>The follow-up handler's writes\<close>

definition FOLLOWUP_MAX_ATTEMPTS :: nat where
  "FOLLOWUP_MAX_ATTEMPTS = 3"

definition followupKey :: "string \<Rightarrow> string \<Rightarrow> string" where
  "followupKey sid stage = ''followup:'' @ sid @ '':'' @ stage"

definition followupEnqueueOp :: "string \<Rightarrow> string \<Rightarrow> ms \<Rightarrow> job_op" where
  "followupEnqueueOp sid stage runAt =
     OpEnqueue \<lparr>js_kind = KFollowup, js_dedupeKey = followupKey sid stage, js_runAt = runAt,
                js_payload = FollowupPayload sid stage, js_maxAttempts = FOLLOWUP_MAX_ATTEMPTS\<rparr>"

datatype follow_status = FsSending | FsDone | FsFailed | FsAbandoned

fun follow_job_status :: "follow_status \<Rightarrow> job_status" where
  "follow_job_status FsSending = JSending"
| "follow_job_status FsDone = JDone"
| "follow_job_status FsFailed = JFailed"
| "follow_job_status FsAbandoned = JAbandoned"

text \<open>The source state is running for the write of sending and sending for all others.\<close>

definition followupStatusOp ::
    "job_row \<Rightarrow> follow_status \<Rightarrow> job_status \<Rightarrow> string option \<Rightarrow> bool \<Rightarrow> job_op" where
  "followupStatusOp job st from err report =
     OpStatus (jb_id job) (follow_job_status st)
       \<lparr>so_from = Some [from], so_claimedAt = jb_claimedAt job,
        so_lastError = (case err of None \<Rightarrow> None | Some e \<Rightarrow> if e = [] then None else Some (Some e)),
        so_attemptsDelta = 0, so_runAt = None\<rparr> report"

end
