(* ===== verification/JobsSystem.thy ===== *)
theory JobsSystem
  imports JobsRunner
begin

text \<open>
  The whole life of the job table: conversations scheduling and cancelling, the runner's claims,
  results, retries, recovery and shutdown, crashes and successors, the follow-up handler's writes.
  The step relation keeps two ghost logs: every claimed snapshot ever handed out (by any process)
  and every follow-up whose push was begun. The properties are invariants of the reachable states.
\<close>

section \<open>The step relation\<close>

record jobs_sys =
  sy_db :: jobs_db
  sy_mem :: runner_mem
  sy_claims :: "job_row list"
  sy_pushed :: "nat list"

definition jobs_start :: jobs_sys where
  "jobs_start = \<lparr>sy_db = \<lparr>jdb_rows = [], jdb_next = 0\<rparr>, sy_mem = fresh_mem, sy_claims = [],
                 sy_pushed = []\<rparr>"

definition put :: "jobs_sys \<Rightarrow> jobs_db \<times> runner_mem \<Rightarrow> jobs_sys" where
  "put s dm = s\<lparr>sy_db := fst dm, sy_mem := snd dm\<rparr>"

abbreviation dm :: "jobs_sys \<Rightarrow> jobs_db \<times> runner_mem" where
  "dm s \<equiv> (sy_db s, sy_mem s)"

text \<open>The table's check on \<open>max_attempts\<close>.\<close>

definition spec_ok :: "job_spec \<Rightarrow> bool" where
  "spec_ok spec \<longleftrightarrow> 1 \<le> js_maxAttempts spec \<and> js_maxAttempts spec \<le> 10"

fun outcome_specs :: "handler_result \<Rightarrow> job_spec list" where
  "outcome_specs (Returned (OutEnd st err nexts)) = nexts"
| "outcome_specs _ = []"

inductive jobs_step :: "jobs_sys \<Rightarrow> jobs_sys \<Rightarrow> bool" where
  Schedule: "spec_ok spec \<Longrightarrow> jobs_step s (s\<lparr>sy_db := fst (enqueueJob (sy_db s) now spec)\<rparr>)"
| Cancel: "jobs_step s (s\<lparr>sy_db := fst (cancelPendingJobs (sy_db s) now key)\<rparr>)"
| CancelSession:
    "jobs_step s (s\<lparr>sy_db := fst (cancelPendingJobsOfSession (sy_db s) now kind sid)\<rparr>)"
| Cutoff: "jobs_step s (s\<lparr>sy_db := fst (cancelFollowupsUntil (sy_db s) now until)\<rparr>)"
| Recover: "\<not> rm_recovered (sy_mem s) \<Longrightarrow> jobs_step s (put s (fst (recover (dm s) now ok)))"
| Retry: "jobs_step s (put s (retryOne (dm s) now ok i))"
| Purge: "(\<And>t. spec_ok (purgeSpec t)) \<Longrightarrow>
    jobs_step s (put s (ensurePurge (dm s) dbnow now ok purgeSpec))"
| Claim: "rm_recovered (sy_mem s) \<Longrightarrow> ln \<in> set LANES \<Longrightarrow>
    jobs_step s ((put s (fst (claimLane (dm s) ln now locked ok)))
      \<lparr>sy_claims := sy_claims s @ snd (claimLane (dm s) ln now locked ok)\<rparr>)"
| Begin: "jobs_step s (s\<lparr>sy_mem := setPhase (sy_mem s) i ph\<rparr>)"
| Finish: "job \<in> set (sy_claims s) \<Longrightarrow> (\<And>spec. spec \<in> set (outcome_specs res) \<Longrightarrow> spec_ok spec) \<Longrightarrow>
    jobs_step s (put s (runClaimedEnd (dm s) dbnow now ok job ph res))"
| Release: "set rest \<subseteq> set (sy_claims s) \<Longrightarrow> jobs_step s (put s (releaseRest (dm s) now oks rest))"
| FollowSend: "job \<in> set (sy_claims s) \<Longrightarrow>
    applyJobOp (sy_db s) now (followupStatusOp job FsSending JRunning None True) = Inr (db', applied) \<Longrightarrow>
    jobs_step s (s\<lparr>sy_db := db', sy_pushed := sy_pushed s @ applied\<rparr>)"
| FollowEnd: "job \<in> set (sy_claims s) \<Longrightarrow> st \<in> {FsDone, FsFailed, FsAbandoned} \<Longrightarrow>
    applyJobOp (sy_db s) now (followupStatusOp job st JSending err False) = Inr (db', applied) \<Longrightarrow>
    jobs_step s (s\<lparr>sy_db := db'\<rparr>)"
| Stop: "jobs_step s (put s (stopJobs (dm s) now ok))"
| Crash: "jobs_step s (s\<lparr>sy_mem := fresh_mem\<rparr>)"

abbreviation jobs_reachable :: "jobs_sys \<Rightarrow> bool" where
  "jobs_reachable s \<equiv> jobs_step\<^sup>*\<^sup>* jobs_start s"

section \<open>How a statement may change a row\<close>

definition budget :: "job_row \<Rightarrow> bool" where
  "budget r \<longleftrightarrow> jb_attempts r \<le> jb_maxAttempts r \<and>
     (is_open (jb_status r) \<longrightarrow> jb_attempts r < jb_maxAttempts r)"

definition left :: "job_row \<Rightarrow> bool" where
  "left r \<longleftrightarrow> jb_status r \<noteq> JPending \<and> jb_status r \<noteq> JRunning"

text \<open>
  Every statement but a claim: a row that left pending and running never comes back, and a row that
  is running afterwards was running before, under the same token and with the same attempts. The
  attempts stay within the budget as far as claim tokens tell the claims apart: the flag \<open>fr\<close> says
  that no job was ever claimed twice at the same instant. It is only used for the bound on the
  attempts; the other invariants hold for every choice of the claim instants.
\<close>

definition row_legal :: "bool \<Rightarrow> job_row \<Rightarrow> job_row \<Rightarrow> bool" where
  "row_legal fr r r' \<longleftrightarrow>
     jb_id r' = jb_id r \<and> jb_maxAttempts r' = jb_maxAttempts r \<and>
     (fr \<longrightarrow> budget r \<longrightarrow> budget r') \<and> (left r \<longrightarrow> left r') \<and>
     (jb_status r' = JRunning \<longrightarrow>
        jb_status r = JRunning \<and> jb_claimedAt r' = jb_claimedAt r \<and> jb_attempts r' = jb_attempts r)"

definition row_new :: "bool \<Rightarrow> job_row \<Rightarrow> bool" where
  "row_new fr r \<longleftrightarrow> (fr \<longrightarrow> budget r) \<and> jb_status r \<noteq> JRunning"

lemma row_legal_refl [simp]: "row_legal fr r r"
  by (simp add: row_legal_def)

lemma row_legal_trans: "row_legal fr a b \<Longrightarrow> row_legal fr b c \<Longrightarrow> row_legal fr a c"
  by (simp add: row_legal_def)

lemma row_new_legal: "row_new fr a \<Longrightarrow> row_legal fr a b \<Longrightarrow> row_new fr b"
  by (auto simp: row_new_def row_legal_def)

definition evolves :: "bool \<Rightarrow> jobs_db \<Rightarrow> jobs_db \<Rightarrow> bool" where
  "evolves fr db db' \<longleftrightarrow>
     (jobs_ok db \<longrightarrow> jobs_ok db') \<and> jdb_next db \<le> jdb_next db' \<and>
     (\<forall>r' \<in> set (jdb_rows db').
        (\<exists>r \<in> set (jdb_rows db). row_legal fr r r') \<or> (jdb_next db \<le> jb_id r' \<and> row_new fr r'))"

lemma evolves_refl [simp]: "evolves fr db db"
  unfolding evolves_def using row_legal_refl by blast

lemma evolvesE:
  assumes "evolves fr db db'" "r' \<in> set (jdb_rows db')"
  obtains r where "r \<in> set (jdb_rows db)" "row_legal fr r r'"
    | "jdb_next db \<le> jb_id r'" "row_new fr r'"
  using assms unfolding evolves_def by blast

lemma evolves_trans:
  assumes "evolves fr a b" and "evolves fr b c"
  shows "evolves fr a c"
proof -
  have "(\<exists>r \<in> set (jdb_rows a). row_legal fr r r'') \<or> (jdb_next a \<le> jb_id r'' \<and> row_new fr r'')"
    if r: "r'' \<in> set (jdb_rows c)" for r''
    using assms(2) r
  proof (cases rule: evolvesE)
    case (1 r')
    from assms(1) 1(1) show ?thesis
    proof (cases rule: evolvesE)
      case (1 r)
      then show ?thesis using row_legal_trans \<open>row_legal fr r' r''\<close> by blast
    next
      case 2
      then show ?thesis using row_new_legal [OF _ \<open>row_legal fr r' r''\<close>] \<open>row_legal fr r' r''\<close>
        by (simp add: row_legal_def)
    qed
  next
    case 2
    moreover have "jdb_next a \<le> jdb_next b" using assms(1) by (simp add: evolves_def)
    ultimately show ?thesis by simp
  qed
  then show ?thesis using assms by (simp add: evolves_def)
qed

lemma evolves_update:
  assumes "closing p f" and "\<And>r. p r \<Longrightarrow> r \<in> set (jdb_rows db) \<Longrightarrow> row_legal fr r (f r)"
  shows "evolves fr db (db\<lparr>jdb_rows := update_where p f (jdb_rows db)\<rparr>)"
  unfolding evolves_def
proof (intro conjI impI ballI)
  show "jobs_ok (db\<lparr>jdb_rows := update_where p f (jdb_rows db)\<rparr>)" if "jobs_ok db"
    using assms(1) that by (rule jobs_ok_update)
  fix r' assume "r' \<in> set (jdb_rows (db\<lparr>jdb_rows := update_where p f (jdb_rows db)\<rparr>))"
  then have "r' \<in> set (update_where p f (jdb_rows db))" by simp
  then show "(\<exists>r \<in> set (jdb_rows db). row_legal fr r r') \<or> (jdb_next db \<le> jb_id r' \<and> row_new fr r')"
    using assms(2) row_legal_refl by (cases rule: in_update_whereE) blast+
qed simp

lemma evolves_enqueue: "spec_ok spec \<Longrightarrow> evolves fr db (fst (enqueueJob db now spec))"
  unfolding evolves_def
proof (intro conjI impI ballI)
  assume ok: "spec_ok spec"
  show "jobs_ok (fst (enqueueJob db now spec))" if "jobs_ok db" using that by (rule jobs_ok_enqueue)
  show "jdb_next db \<le> jdb_next (fst (enqueueJob db now spec))" by (simp add: enqueueJob_def)
  fix r' assume "r' \<in> set (jdb_rows (fst (enqueueJob db now spec)))"
  then have "r' \<in> set (jdb_rows db) \<or> r' = newJob (jdb_next db) now spec"
    by (auto simp: enqueueJob_def split: if_splits)
  moreover have "row_new fr (newJob (jdb_next db) now spec)"
    using ok by (simp add: row_new_def newJob_def budget_def spec_ok_def)
  moreover have "jb_id (newJob (jdb_next db) now spec) = jdb_next db" by (simp add: newJob_def)
  ultimately show "(\<exists>r \<in> set (jdb_rows db). row_legal fr r r') \<or> (jdb_next db \<le> jb_id r' \<and> row_new fr r')"
    using row_legal_refl by (elim disjE) (blast, simp)
qed

lemma evolves_enqueueAll:
  "(\<And>spec. spec \<in> set specs \<Longrightarrow> spec_ok spec) \<Longrightarrow> evolves fr db (enqueueAll db now specs)"
  unfolding enqueueAll_def
proof (induction specs arbitrary: db)
  case (Cons spec specs)
  then show ?case using evolves_trans [OF evolves_enqueue [of spec fr db now]] by simp
qed simp

lemma legal_cancel: "jb_status r = JPending \<or> jb_status r = JRunning \<Longrightarrow>
    row_legal fr r (r\<lparr>jb_status := JCancelled, jb_finishedAt := t\<rparr>)"
  by (auto simp: row_legal_def budget_def left_def)

lemma evolves_cancel: "evolves fr db (fst (cancelPendingJobs db now key))"
  unfolding cancelPendingJobs_def update_count_def Let_def case_prod_conv fst_conv
  by (rule evolves_update) (simp_all add: closing_def cancelRow_def legal_cancel)

lemma evolves_cancelSession: "evolves fr db (fst (cancelPendingJobsOfSession db now kind sid))"
  unfolding cancelPendingJobsOfSession_def update_count_def Let_def case_prod_conv fst_conv
  by (rule evolves_update) (simp_all add: closing_def cancelRow_def legal_cancel)

lemma evolves_cutoff: "evolves fr db (fst (cancelFollowupsUntil db now until))"
  unfolding cancelFollowupsUntil_def Let_def fst_conv
  by (rule evolves_update) (auto simp: closing_def row_legal_def budget_def left_def)

lemma legal_fate: "row_legal fr r (apply_fate now (recovery_fate_of r) r)"
  by (cases "jb_kind r"; cases "jb_status r")
    (auto simp: recovery_fate_of_def row_legal_def budget_def left_def)

lemma evolves_recover: "evolves fr db (fst (recoverJobsAtStartup db now))"
  unfolding evolves_def
proof (intro conjI impI ballI)
  show "jobs_ok (fst (recoverJobsAtStartup db now))" if "jobs_ok db" using that by (rule jobs_ok_recover)
  show "jdb_next db \<le> jdb_next (fst (recoverJobsAtStartup db now))"
    by (simp add: recoverJobsAtStartup_def update_count_def Let_def)
  fix r' assume "r' \<in> set (jdb_rows (fst (recoverJobsAtStartup db now)))"
  then obtain r where "r \<in> set (jdb_rows db)" "r' = apply_fate now (recovery_fate_of r) r"
    unfolding recovery_rows by auto
  then show "(\<exists>r \<in> set (jdb_rows db). row_legal fr r r') \<or> (jdb_next db \<le> jb_id r' \<and> row_new fr r')"
    using legal_fate by blast
qed

section \<open>Status writes under the claim token\<close>

text \<open>
  A claimed snapshot carries a token, and as long as its row is running under that token the row
  has the snapshot's attempts.
\<close>

definition snap_ok :: "bool \<Rightarrow> jobs_db \<Rightarrow> job_row \<Rightarrow> bool" where
  "snap_ok fr db job \<longleftrightarrow>
     jb_claimedAt job \<noteq> None \<and> jb_id job < jdb_next db \<and>
     (fr \<longrightarrow> (\<forall>r \<in> set (jdb_rows db).
        jb_id r = jb_id job \<longrightarrow> jb_status r = JRunning \<longrightarrow> jb_claimedAt r = jb_claimedAt job \<longrightarrow>
        jb_attempts r = jb_attempts job \<and> jb_maxAttempts r = jb_maxAttempts job))"

lemma snap_ok_evolves:
  assumes "snap_ok fr db job" and "evolves fr db db'"
  shows "snap_ok fr db' job"
proof -
  have "jb_attempts r' = jb_attempts job \<and> jb_maxAttempts r' = jb_maxAttempts job"
    if "r' \<in> set (jdb_rows db')" "jb_id r' = jb_id job" "jb_status r' = JRunning"
      "jb_claimedAt r' = jb_claimedAt job" and fresh: fr for r'
    using assms(2) that(1)
  proof (cases rule: evolvesE)
    case (1 r)
    then have "jb_id r = jb_id job" "jb_status r = JRunning" "jb_claimedAt r = jb_claimedAt job"
      "jb_attempts r' = jb_attempts r" "jb_maxAttempts r' = jb_maxAttempts r"
      using that by (simp_all add: row_legal_def)
    then show ?thesis using assms(1) 1(1) fresh by (simp add: snap_ok_def)
  next
    case 2
    then show ?thesis using that by (simp add: row_new_def)
  qed
  then show ?thesis using assms by (simp add: snap_ok_def evolves_def)
qed

lemma evolves_status:
  assumes "setJobStatus db now i st opts = Inr (db', hit)"
    and "\<And>r. r \<in> set (jdb_rows db) \<Longrightarrow> statusHits i opts r \<Longrightarrow> row_legal fr r (setStatusRow now st opts r)"
  shows "evolves fr db db'"
  unfolding evolves_def
proof (intro conjI impI ballI)
  note db' = setJobStatus_Inr [OF assms(1)]
  show "jobs_ok db'" if "jobs_ok db" using that assms(1) by (rule jobs_ok_setJobStatus)
  show "jdb_next db \<le> jdb_next db'" using db' by simp
  fix r' assume "r' \<in> set (jdb_rows db')"
  then have "r' \<in> set (update_where (statusHits i opts) (setStatusRow now st opts) (jdb_rows db))"
    using db' by simp
  then show "(\<exists>r \<in> set (jdb_rows db). row_legal fr r r') \<or> (jdb_next db \<le> jb_id r' \<and> row_new fr r')"
    using assms(2) row_legal_refl by (cases rule: in_update_whereE) blast+
qed

definition weighed_ok :: "job_row \<Rightarrow> weighed_outcome \<Rightarrow> bool" where
  "weighed_ok job out \<longleftrightarrow>
     (snd out = 0 \<or> (\<exists>now err. out = retryOutcome job now err)) \<and>
     (\<forall>st err nexts. fst out = OutEnd st err nexts \<longrightarrow> (\<forall>spec \<in> set nexts. spec_ok spec))"

lemma token_hits:
  "statusHits (jb_id job) (tokenOpts job err delta runAt) r \<Longrightarrow> snap_ok fr db job \<Longrightarrow>
   r \<in> set (jdb_rows db) \<Longrightarrow>
   jb_id r = jb_id job \<and> jb_status r = JRunning \<and> jb_claimedAt r = jb_claimedAt job \<and>
   (fr \<longrightarrow> jb_attempts r = jb_attempts job \<and> jb_maxAttempts r = jb_maxAttempts job)"
  by (auto simp: statusHits_def tokenOpts_def snap_ok_def split: option.splits)

lemma legal_end:
  "jb_status r = JRunning \<Longrightarrow> so_attemptsDelta opts \<le> 1 \<Longrightarrow>
   row_legal fr r (setStatusRow now (end_job_status st) opts r)"
  by (cases st) (auto simp: row_legal_def budget_def left_def)

lemma legal_back:
  "jb_status r = JRunning \<Longrightarrow>
   (fr \<Longrightarrow> so_attemptsDelta opts = 0 \<or> jb_attempts r + so_attemptsDelta opts < jb_maxAttempts r) \<Longrightarrow>
   row_legal fr r (setStatusRow now JPending opts r)"
  by (auto simp: row_legal_def budget_def left_def)

lemma tokenOpts_delta [simp]: "so_attemptsDelta (tokenOpts job err delta runAt) = delta"
  by (simp add: tokenOpts_def)

lemma retryOutcome_cases:
  "retryOutcome job now err = (out, d) \<Longrightarrow>
   d = 1 \<and> ((\<exists>e. out = OutEnd EndFailed e []) \<or>
            (\<exists>t e. out = OutPending t e \<and> jb_attempts job + 1 < jb_maxAttempts job))"
  by (auto simp: retryOutcome_def Let_def split: if_splits)

lemma weighed_delta:
  assumes "weighed_ok job (out, d)"
  shows "d \<le> 1 \<and> (\<forall>t e. out = OutPending t e \<longrightarrow> d = 0 \<or> jb_attempts job + d < jb_maxAttempts job)"
proof (cases "d = 0")
  case False
  then obtain now err where "retryOutcome job now err = (out, d)"
    using assms unfolding weighed_ok_def snd_conv by metis
  from retryOutcome_cases [OF this] show ?thesis by auto
qed simp

lemma evolves_settle:
  assumes "snap_ok fr db job" "weighed_ok job out" "settle db now job out = Inr (db', x)"
  shows "evolves fr db db'"
proof (cases out)
  case (Pair o' d)
  note wd = weighed_delta [OF assms(2) [unfolded Pair]]
  then have d1: "d \<le> Suc 0" by simp
  show ?thesis
  proof (cases o')
    case (OutEnd st err nexts)
    obtain mid hit where mid: "setJobStatus db now (jb_id job) (end_job_status st)
        (tokenOpts job err d None) = Inr (mid, hit)" and db': "db' = enqueueAll mid now nexts"
      using assms(3) by (auto simp: Pair OutEnd split: sum.splits)
    have "evolves fr db mid"
      by (rule evolves_status [OF mid])
        (rule legal_end, simp_all add: d1 token_hits [OF _ assms(1)])
    moreover have "evolves fr mid db'"
      unfolding db' using assms(2) by (intro evolves_enqueueAll) (simp add: weighed_ok_def Pair OutEnd)
    ultimately show ?thesis by (rule evolves_trans)
  next
    case (OutPending t err)
    obtain hit where mid: "setJobStatus db now (jb_id job) JPending
        (tokenOpts job err d (Some t)) = Inr (db', hit)"
      using assms(3) by (auto simp: Pair OutPending split: sum.splits)
    show ?thesis
    proof (rule evolves_status [OF mid])
      fix r assume r: "r \<in> set (jdb_rows db)"
        and h: "statusHits (jb_id job) (tokenOpts job err d (Some t)) r"
      from token_hits [OF h assms(1) r] wd OutPending
      show "row_legal fr r (setStatusRow now JPending (tokenOpts job err d (Some t)) r)"
        by (intro legal_back) auto
    qed
  qed (use assms(3) Pair in auto)
qed

lemma evolves_stopWrites:
  "stopWrites db now jobs = Inr db' \<Longrightarrow> evolves fr db db'"
proof (induction db now jobs rule: stopWrites.induct)
  case (2 db now job rest)
  then obtain mid hit where mid: "setJobStatus db now (jb_id job) JPending
      (tokenOpts job None 0 None) = Inr (mid, hit)" and rest: "stopWrites mid now rest = Inr db'"
    by (auto split: sum.splits)
  have "evolves fr db mid"
    by (rule evolves_status [OF mid], rule legal_back)
      (simp_all add: statusHits_def tokenOpts_def)
  moreover have "evolves fr mid db'" using 2 mid rest by simp
  ultimately show ?case by (rule evolves_trans)
qed simp

lemma follow_hits:
  "statusHits i \<lparr>so_from = Some [from], so_claimedAt = t, so_lastError = e, so_attemptsDelta = 0,
     so_runAt = None\<rparr> r \<Longrightarrow> jb_status r = from"
  by (simp add: statusHits_def)

lemma evolves_follow:
  assumes "applyJobOp db now (followupStatusOp job st from err report) = Inr (db', applied)"
    and "from = (if st = FsSending then JRunning else JSending)"
  shows "evolves fr db db'"
proof -
  let ?o = "\<lparr>so_from = Some [from], so_claimedAt = jb_claimedAt job,
      so_lastError = (case err of None \<Rightarrow> None | Some e \<Rightarrow> if e = [] then None else Some (Some e)),
      so_attemptsDelta = 0, so_runAt = None\<rparr>"
  obtain hit where set: "setJobStatus db now (jb_id job) (follow_job_status st) ?o = Inr (db', hit)"
    using assms(1) by (auto simp: followupStatusOp_def split: sum.splits)
  show ?thesis
  proof (rule evolves_status [OF set])
    fix r assume "statusHits (jb_id job) ?o r"
    then have "jb_status r = from" by (rule follow_hits)
    then show "row_legal fr r (setStatusRow now (follow_job_status st) ?o r)"
      using assms(2) by (cases st) (auto simp: row_legal_def budget_def left_def)
  qed
qed

section \<open>The invariant\<close>

definition unsettled_ok :: "job_row list \<Rightarrow> runner_mem \<Rightarrow> bool" where
  "unsettled_ok claims mem \<longleftrightarrow>
     (\<forall>e \<in> set (rm_unsettled mem). fst (snd e) \<in> set claims \<and> weighed_ok (fst (snd e)) (snd (snd e)))"

definition pushed_ok :: "jobs_db \<Rightarrow> nat list \<Rightarrow> bool" where
  "pushed_ok db pushed \<longleftrightarrow>
     distinct pushed \<and>
     (\<forall>i \<in> set pushed. i < jdb_next db \<and> (\<forall>r \<in> set (jdb_rows db). jb_id r = i \<longrightarrow> left r))"

definition claim_token :: "job_row \<Rightarrow> nat \<times> ms option" where
  "claim_token job = (jb_id job, jb_claimedAt job)"

text \<open>No job was handed out twice under the same claim instant.\<close>

definition tokens_fresh :: "job_row list \<Rightarrow> bool" where
  "tokens_fresh claims \<longleftrightarrow> distinct (map claim_token claims)"

definition db_ok :: "bool \<Rightarrow> job_row list \<Rightarrow> nat list \<Rightarrow> jobs_db \<Rightarrow> bool" where
  "db_ok fr claims pushed db \<longleftrightarrow>
     jobs_ok db \<and> (fr \<longrightarrow> (\<forall>r \<in> set (jdb_rows db). budget r)) \<and>
     (\<forall>j \<in> set claims. snap_ok fr db j) \<and> pushed_ok db pushed"

definition sys_ok :: "jobs_sys \<Rightarrow> bool" where
  "sys_ok s \<longleftrightarrow> db_ok (tokens_fresh (sy_claims s)) (sy_claims s) (sy_pushed s) (sy_db s) \<and>
              unsettled_ok (sy_claims s) (sy_mem s)"

lemma pushed_ok_evolves:
  assumes "pushed_ok db pushed" "evolves fr db db'"
  shows "pushed_ok db' pushed"
proof -
  have "left r'" if "i \<in> set pushed" "r' \<in> set (jdb_rows db')" "jb_id r' = i" for i r'
    using assms(2) that(2)
  proof (cases rule: evolvesE)
    case (1 r)
    then have "jb_id r = i" using that by (simp add: row_legal_def)
    then have "left r" using assms(1) that(1) 1(1) by (simp add: pushed_ok_def)
    then show ?thesis using 1(2) by (simp add: row_legal_def)
  next
    case 2
    then show ?thesis using assms(1) that by (auto simp: pushed_ok_def)
  qed
  then show ?thesis
    using assms order_less_le_trans unfolding pushed_ok_def evolves_def by blast
qed

lemma db_ok_evolves:
  assumes "db_ok fr claims pushed db" "evolves fr db db'"
  shows "db_ok fr claims pushed db'"
proof -
  have "budget r'" if "r' \<in> set (jdb_rows db')" fr for r'
    using assms(2) that(1)
  proof (cases rule: evolvesE)
    case (1 r)
    then show ?thesis using assms(1) that(2) by (simp add: row_legal_def db_ok_def)
  next
    case 2
    then show ?thesis using that(2) by (simp add: row_new_def)
  qed
  moreover have "jobs_ok db'" using assms by (simp add: db_ok_def evolves_def)
  moreover have "snap_ok fr db' j" if "j \<in> set claims" for j
    using assms that snap_ok_evolves unfolding db_ok_def by blast
  moreover have "pushed_ok db' pushed" using assms pushed_ok_evolves unfolding db_ok_def by blast
  ultimately show ?thesis by (simp add: db_ok_def)
qed

lemma set_jset: "set (jset m k v) \<subseteq> insert (k, v) (set m)"
  by (induction m k v rule: jset.induct) auto

lemma set_jdel: "set (jdel m k) \<subseteq> set m"
  by (induction m k rule: jdel.induct) auto

lemma unsettled_ok_same: "unsettled_ok claims mem \<Longrightarrow> set (rm_unsettled mem') \<subseteq> set (rm_unsettled mem) \<Longrightarrow>
    unsettled_ok claims mem'"
  unfolding unsettled_ok_def by blast

lemma afterSettled_unsettled [simp]: "rm_unsettled (afterSettled mem job out) = rm_unsettled mem"
  by (simp add: afterSettled_def split: job_outcome.split end_status.split)

lemma setPhase_unsettled [simp]: "rm_unsettled (setPhase mem i ph) = rm_unsettled mem"
  by (simp add: setPhase_def split: option.split)

text \<open>The invariant of a pair of table and memory, for a fixed log.\<close>

definition pair_ok :: "bool \<Rightarrow> job_row list \<Rightarrow> nat list \<Rightarrow> jobs_db \<times> runner_mem \<Rightarrow> bool" where
  "pair_ok fr claims pushed p \<longleftrightarrow> db_ok fr claims pushed (fst p) \<and> unsettled_ok claims (snd p)"

lemma db_ok_weaken:
  "db_ok fr claims pushed db \<Longrightarrow> (fr' \<Longrightarrow> fr) \<Longrightarrow> db_ok fr' claims pushed db"
  by (auto simp: db_ok_def snap_ok_def)

lemma db_ok_snap: "db_ok fr claims pushed db \<Longrightarrow> j \<in> set claims \<Longrightarrow> snap_ok fr db j"
  by (simp add: db_ok_def)

lemma pair_settleEnd:
  assumes "pair_ok fr claims pushed s" "job \<in> set claims" "weighed_ok job out"
  shows "pair_ok fr claims pushed (settleEnd s now ok job out)"
proof -
  have db: "db_ok fr claims pushed (fst s)" and un: "unsettled_ok claims (snd s)"
    using assms(1) by (simp_all add: pair_ok_def)
  have q: "unsettled_ok claims ((snd s)\<lparr>rm_mine := m, rm_unsettled :=
      jset (rm_unsettled (snd s)) (jb_id job) (job, out)\<rparr>)" for m
    using un assms(2,3) set_jset [of "rm_unsettled (snd s)" "jb_id job" "(job, out)"]
    unfolding unsettled_ok_def by auto
  have g: "unsettled_ok claims (afterSettled ((snd s)\<lparr>rm_mine := m\<rparr>) job o')" for m o'
    using un by (rule unsettled_ok_same) simp
  show ?thesis
  proof (cases "settle (fst s) now job out")
    case (Inl e)
    then show ?thesis using db q
      by (cases s) (simp add: settleEnd_def pair_ok_def Let_def)
  next
    case (Inr p)
    obtain db' x where p: "p = (db', x)" by (cases p)
    have "db_ok fr claims pushed db'"
      using db db_ok_evolves evolves_settle [OF db_ok_snap [OF db assms(2)] assms(3)] Inr p by blast
    then show ?thesis using db q g Inr p
      by (cases s) (simp add: settleEnd_def pair_ok_def Let_def)
  qed
qed

lemma pair_settleOrQueue:
  "pair_ok fr claims pushed s \<Longrightarrow> job \<in> set claims \<Longrightarrow> weighed_ok job out \<Longrightarrow>
   pair_ok fr claims pushed (settleOrQueue s now ok job out)"
  unfolding settleOrQueue_def
  by (rule pair_settleEnd) (simp_all add: pair_ok_def unsettled_ok_def)

lemma pair_retryOne:
  assumes "pair_ok fr claims pushed s"
  shows "pair_ok fr claims pushed (retryOne s now ok i)"
proof (cases "jget (rm_unsettled (snd s)) i")
  case None
  then show ?thesis using assms by (simp add: retryOne_def)
next
  case (Some e)
  obtain job out where e: "e = (job, out)" by (cases e)
  have db: "db_ok fr claims pushed (fst s)" and un: "unsettled_ok claims (snd s)"
    using assms by (simp_all add: pair_ok_def)
  have "(i, job, out) \<in> set (rm_unsettled (snd s))"
    using Some e by (simp add: jget_map_of map_of_SomeD)
  then have job: "job \<in> set claims" "weighed_ok job out" using un by (auto simp: unsettled_ok_def)
  have g: "unsettled_ok claims ((snd s)\<lparr>rm_unsettled := jdel (rm_unsettled (snd s)) i\<rparr>)"
    using un by (rule unsettled_ok_same) (simp add: set_jdel)
  have a: "unsettled_ok claims
      (afterSettled ((snd s)\<lparr>rm_unsettled := jdel (rm_unsettled (snd s)) i\<rparr>) job o')" for o'
    using g by (rule unsettled_ok_same) simp
  show ?thesis
  proof (cases "settle (fst s) now job out")
    case (Inl x)
    then show ?thesis using db g by (simp add: retryOne_def Some e Let_def pair_ok_def)
  next
    case (Inr p)
    obtain db' x where p: "p = (db', x)" by (cases p)
    have "db_ok fr claims pushed db'"
      using db db_ok_evolves evolves_settle [OF db_ok_snap [OF db job(1)] job(2)] Inr p by blast
    then show ?thesis using db g a Inr p by (simp add: retryOne_def Some e Let_def pair_ok_def)
  qed
qed

lemma weighed_handler:
  "(\<And>spec. spec \<in> set (outcome_specs res) \<Longrightarrow> spec_ok spec) \<Longrightarrow>
   weighed_ok job (handlerOutcome job now ph res)"
proof (cases res)
  case (Returned out)
  assume "\<And>spec. spec \<in> set (outcome_specs res) \<Longrightarrow> spec_ok spec"
  then show ?thesis by (simp add: handlerOutcome_def weighed_ok_def Returned)
next
  case (Threw err)
  obtain o' d where r: "retryOutcome job now err = (o', d)" by (metis surj_pair)
  have "weighed_ok job (retryOutcome job now err)"
    unfolding weighed_ok_def
  proof (intro conjI)
    show "snd (retryOutcome job now err) = 0 \<or>
          (\<exists>now' err'. retryOutcome job now err = retryOutcome job now' err')" by blast
  qed (use retryOutcome_cases [OF r] r in auto)
  then show ?thesis by (simp add: handlerOutcome_def Threw weighed_ok_def)
qed

lemma pair_finish:
  "pair_ok fr claims pushed s \<Longrightarrow> job \<in> set claims \<Longrightarrow>
   (\<And>spec. spec \<in> set (outcome_specs res) \<Longrightarrow> spec_ok spec) \<Longrightarrow>
   pair_ok fr claims pushed (runClaimedEnd s dbnow now ok job ph res)"
  unfolding runClaimedEnd_def Let_def
  using pair_settleOrQueue weighed_handler by (metis (full_types))

lemma pair_release:
  "pair_ok fr claims pushed s \<Longrightarrow> set rest \<subseteq> set claims \<Longrightarrow>
   pair_ok fr claims pushed (releaseRest s now oks rest)"
  unfolding releaseRest_def
proof (induction rest arbitrary: s)
  case (Cons job rest)
  have "weighed_ok job (OutPending (jb_runAt job) None, 0)" by (simp add: weighed_ok_def)
  then show ?case using Cons pair_settleOrQueue by simp
qed simp

lemma pair_stop:
  assumes "pair_ok fr claims pushed s"
  shows "pair_ok fr claims pushed (stopJobs s now ok)"
proof (cases "stopWrites (fst s) now (backToPending ((snd s)\<lparr>rm_stopping := True\<rparr>))")
  case (Inl e)
  then show ?thesis using assms
    by (simp add: stopJobs_def Let_def pair_ok_def unsettled_ok_def)
next
  case (Inr db')
  then have "db_ok fr claims pushed db'"
    using assms db_ok_evolves evolves_stopWrites unfolding pair_ok_def by blast
  then show ?thesis using assms Inr
    by (simp add: stopJobs_def Let_def pair_ok_def unsettled_ok_def)
qed

lemma tokens_fresh_append: "tokens_fresh (a @ b) \<Longrightarrow> tokens_fresh a"
  by (simp add: tokens_fresh_def)

text \<open>A claim hands out snapshots of rows it just marked.\<close>

lemma db_ok_claim:
  assumes ok: "db_ok fr claims pushed db"
    and fresh: "fr \<Longrightarrow> tokens_fresh (claims @ snd (claimDueJobs db now limit kinds locked))"
  shows "db_ok fr (claims @ snd (claimDueJobs db now limit kinds locked)) pushed
           (fst (claimDueJobs db now limit kinds locked))"
proof -
  let ?P = "pickDue (jdb_rows db) now limit kinds locked"
  define db' where "db' = fst (claimDueJobs db now limit kinds locked)"
  have jobs: "jobs_ok db" using ok by (simp add: db_ok_def)
  have db': "db' = db\<lparr>jdb_rows := update_where (\<lambda>r. r \<in> set ?P) (markClaimed now) (jdb_rows db)\<rparr>"
    unfolding db'_def by (rule claim_rows_pending [OF jobs])
  have jobs': "jobs_ok db'" unfolding db'_def by (rule jobs_ok_claim [OF jobs])
  have next': "jdb_next db' = jdb_next db" by (simp add: db')
  have row: "(\<exists>r \<in> set (jdb_rows db). jb_status r = JPending \<and> r' = markClaimed now r \<and>
               r' \<in> set (snd (claimDueJobs db now limit kinds locked))) \<or>
             r' \<in> set (jdb_rows db)" if r': "r' \<in> set (jdb_rows db')" for r'
  proof -
    have "r' \<in> set (update_where (\<lambda>r. r \<in> set ?P) (markClaimed now) (jdb_rows db))"
      using r' by (simp add: db')
    then show ?thesis
    proof (cases rule: in_update_whereE)
      case (1 r0)
      then have "jb_status r0 = JPending" using in_pickDue [of r0] by (simp add: due_def)
      moreover have "r' \<in> set (snd (claimDueJobs db now limit kinds locked))"
        using 1 by (simp add: claimed_jobs [OF jobs])
      ultimately show ?thesis using 1 by blast
    qed simp
  qed
  have claimed: "\<exists>r \<in> set (jdb_rows db). j = markClaimed now r \<and> j \<in> set (jdb_rows db')"
    if "j \<in> set (snd (claimDueJobs db now limit kinds locked))" for j
  proof -
    from that obtain r where r: "r \<in> set (jdb_rows db)" "r \<in> set ?P" "j = markClaimed now r"
      unfolding claimed_jobs [OF jobs] by auto
    then have "j \<in> set (jdb_rows db')"
      unfolding db' rows_set update_where_def set_map by (intro image_eqI [of _ _ r]) simp_all
    then show ?thesis using r by blast
  qed
  have "budget r'" if r': "r' \<in> set (jdb_rows db')" and fr for r'
    using row [OF r']
  proof (elim disjE bexE conjE)
    fix r assume "r \<in> set (jdb_rows db)" "jb_status r = JPending" "r' = markClaimed now r"
    then show ?thesis using ok that(2) by (simp add: db_ok_def budget_def markClaimed_def)
  next
    assume "r' \<in> set (jdb_rows db)"
    then show ?thesis using ok that(2) by (simp add: db_ok_def)
  qed
  moreover have "snap_ok fr db' j" if j: "j \<in> set claims" for j
  proof -
    have s: "snap_ok fr db j" using ok j by (rule db_ok_snap)
    have "jb_attempts r' = jb_attempts j \<and> jb_maxAttempts r' = jb_maxAttempts j"
      if "r' \<in> set (jdb_rows db')" "jb_id r' = jb_id j" "jb_status r' = JRunning"
        "jb_claimedAt r' = jb_claimedAt j" and fr for r'
      using row [OF that(1)]
    proof (elim disjE bexE conjE)
      assume new: "r' \<in> set (snd (claimDueJobs db now limit kinds locked))"
      have "claim_token r' = claim_token j" using that by (simp add: claim_token_def)
      then show ?thesis
        using fresh [OF that(5)] new j unfolding tokens_fresh_def map_append distinct_append
        by (auto dest: imageI [of _ _ claim_token])
    next
      assume "r' \<in> set (jdb_rows db)"
      then show ?thesis using s that by (simp add: snap_ok_def)
    qed
    then show ?thesis using s by (simp add: snap_ok_def next')
  qed
  moreover have "snap_ok fr db' j" if j: "j \<in> set (snd (claimDueJobs db now limit kinds locked))" for j
  proof -
    obtain r where r: "r \<in> set (jdb_rows db)" "j = markClaimed now r" "j \<in> set (jdb_rows db')"
      using claimed [OF j] by blast
    have same: "r' = j" if "r' \<in> set (jdb_rows db')" "jb_id r' = jb_id j" for r'
      using row_by_id [OF jobs_ok_distinct [OF jobs'] that(1) r(3) that(2)] .
    have "jb_claimedAt j \<noteq> None" using r(2) by (simp add: markClaimed_def)
    then show ?thesis
      using jobs_ok_fresh [OF jobs' r(3)] same unfolding snap_ok_def by blast
  qed
  moreover have "pushed_ok db' pushed"
  proof -
    have "left r'" if i: "i \<in> set pushed" "r' \<in> set (jdb_rows db')" "jb_id r' = i" for i r'
      using row [OF i(2)]
    proof (elim disjE bexE conjE)
      fix r assume r: "r \<in> set (jdb_rows db)" "jb_status r = JPending" "r' = markClaimed now r"
      then have "jb_id r = i" using i(3) by (simp add: markClaimed_def)
      then have "left r" using ok i(1) r(1) by (simp add: db_ok_def pushed_ok_def)
      then show ?thesis using r(2) by (simp add: left_def)
    next
      assume "r' \<in> set (jdb_rows db)"
      then show ?thesis using ok i by (simp add: db_ok_def pushed_ok_def)
    qed
    then show ?thesis using ok by (simp add: db_ok_def pushed_ok_def next')
  qed
  ultimately show ?thesis using jobs' unfolding db'_def db_ok_def by auto
qed

lemma pushed_send:
  assumes ok: "db_ok fr claims pushed db" and job: "job \<in> set claims"
    and op: "applyJobOp db now (followupStatusOp job FsSending JRunning None True) = Inr (db', applied)"
  shows "db_ok fr claims (pushed @ applied) db'"
proof -
  have ev: "evolves fr db db'" using evolves_follow [OF op] by simp
  have db': "db_ok fr claims pushed db'" using ok ev by (rule db_ok_evolves)
  let ?o = "\<lparr>so_from = Some [JRunning], so_claimedAt = jb_claimedAt job, so_lastError = None,
      so_attemptsDelta = 0, so_runAt = None\<rparr>"
  obtain hit where set: "setJobStatus db now (jb_id job) JSending ?o = Inr (db', hit)"
    and app: "applied = (if hit then [jb_id job] else [])"
    using op by (auto simp: followupStatusOp_def split: sum.splits)
  show ?thesis
  proof (cases hit)
    case False
    then show ?thesis using db' app by simp
  next
    case True
    note eq = setJobStatus_Inr [OF set]
    have "length (filter (statusHits (jb_id job) ?o) (jdb_rows db)) = 1" using eq True by simp
    then have "filter (statusHits (jb_id job) ?o) (jdb_rows db) \<noteq> []" by auto
    then obtain r where r: "r \<in> set (jdb_rows db)" "statusHits (jb_id job) ?o r"
      unfolding filter_empty_conv by blast
    then have run: "jb_id r = jb_id job" "jb_status r = JRunning" by (simp_all add: statusHits_def)
    have new: "jb_id job \<notin> set pushed"
    proof
      assume "jb_id job \<in> set pushed"
      then have "left r" using ok r(1) run(1) by (simp add: db_ok_def pushed_ok_def)
      then show False using run(2) by (simp add: left_def)
    qed
    have d: "distinct (map jb_id (jdb_rows db))"
      using ok by (intro jobs_ok_distinct) (simp add: db_ok_def)
    have "left r'" if "r' \<in> set (jdb_rows db')" "jb_id r' = jb_id job" for r'
    proof -
      have "r' \<in> set (update_where (statusHits (jb_id job) ?o) (setStatusRow now JSending ?o) (jdb_rows db))"
        using that(1) eq by simp
      then show ?thesis
      proof (cases rule: in_update_whereE)
        case (1 r0)
        then show ?thesis by (simp add: left_def)
      next
        case 2
        then have "r' = r" using row_by_id [OF d 2(1) r(1)] that(2) run(1) by simp
        then show ?thesis using 2 r by simp
      qed
    qed
    moreover have "jb_id job < jdb_next db'"
      using jobs_ok_fresh [of db r] ok r(1) run(1) eq by (simp add: db_ok_def)
    ultimately show ?thesis using db' new app True by (simp add: db_ok_def pushed_ok_def)
  qed
qed

lemma sys_ok_db: "sys_ok s \<Longrightarrow> evolves (tokens_fresh (sy_claims s)) (sy_db s) db' \<Longrightarrow> sys_ok (s\<lparr>sy_db := db'\<rparr>)"
  using db_ok_evolves unfolding sys_ok_def by fastforce

lemma sys_ok_pair: "sys_ok s \<Longrightarrow> pair_ok (tokens_fresh (sy_claims s)) (sy_claims s) (sy_pushed s) (dm s)"
  by (simp add: sys_ok_def pair_ok_def)

lemma sys_ok_put: "sys_ok s \<Longrightarrow> pair_ok (tokens_fresh (sy_claims s)) (sy_claims s) (sy_pushed s) p \<Longrightarrow> sys_ok (put s p)"
  by (simp add: sys_ok_def pair_ok_def put_def)

lemma sys_ok_step: "jobs_step s s' \<Longrightarrow> sys_ok s \<Longrightarrow> sys_ok s'"
proof (induction rule: jobs_step.induct)
  case (Claim s ln now locked ok)
  show ?case
  proof (cases ok)
    case True
    let ?c = "claimDueJobs (sy_db s) now BATCH (Some (ln_kinds ln)) locked"
    have "db_ok fr (sy_claims s @ snd ?c) (sy_pushed s) (fst ?c)"
      if fr: "fr = tokens_fresh (sy_claims s @ snd ?c)" for fr
    proof (rule db_ok_claim)
      have "db_ok (tokens_fresh (sy_claims s)) (sy_claims s) (sy_pushed s) (sy_db s)"
        using Claim.prems by (simp add: sys_ok_def)
      then show "db_ok fr (sy_claims s) (sy_pushed s) (sy_db s)"
        by (rule db_ok_weaken) (simp add: fr tokens_fresh_append)
    qed (simp add: fr)
    moreover have "unsettled_ok (sy_claims s @ x) mem'"
      if "rm_unsettled mem' = rm_unsettled (sy_mem s)" for x mem'
      using Claim.prems that by (auto simp: sys_ok_def unsettled_ok_def)
    ultimately show ?thesis
      using True by (cases ?c) (simp add: claimLane_def put_def sys_ok_def Let_def)
  next
    case False
    then show ?thesis using Claim.prems by (simp add: claimLane_def put_def sys_ok_def)
  qed
next
  case (FollowSend job s now db' applied)
  then have "db_ok (tokens_fresh (sy_claims s)) (sy_claims s) (sy_pushed s) (sy_db s)" by (simp add: sys_ok_def)
  then have "db_ok (tokens_fresh (sy_claims s)) (sy_claims s) (sy_pushed s @ applied) db'"
    using FollowSend(1,2) by (rule pushed_send)
  then show ?case using FollowSend.prems by (simp add: sys_ok_def)
next
  case (FollowEnd job s st now err db' applied)
  have "evolves (tokens_fresh (sy_claims s)) (sy_db s) db'" using evolves_follow [OF FollowEnd(3)] FollowEnd(2) by auto
  then show ?case using FollowEnd.prems db_ok_evolves unfolding sys_ok_def by fastforce
next
  case (Recover s now ok)
  then have "db_ok (tokens_fresh (sy_claims s)) (sy_claims s) (sy_pushed s) (fst (recoverJobsAtStartup (sy_db s) now))"
    using db_ok_evolves evolves_recover unfolding sys_ok_def by blast
  then show ?case using Recover.prems
    by (cases "recoverJobsAtStartup (sy_db s) now")
      (simp add: recover_def put_def sys_ok_def unsettled_ok_def Let_def)
next
  case (Purge purgeSpec s dbnow now ok)
  have "evolves (tokens_fresh (sy_claims s)) (sy_db s) (fst (enqueueJob (sy_db s) dbnow (purgeSpec now)))"
    using Purge.hyps by (rule evolves_enqueue)
  then have "db_ok (tokens_fresh (sy_claims s)) (sy_claims s) (sy_pushed s) (fst (enqueueJob (sy_db s) dbnow (purgeSpec now)))"
    using Purge.prems db_ok_evolves unfolding sys_ok_def by fastforce
  then show ?case using Purge.prems
    by (simp add: ensurePurge_def put_def sys_ok_def unsettled_ok_def)
next
  case (Schedule spec s now)
  then show ?case by (intro sys_ok_db evolves_enqueue)
next
  case (Cancel s now key)
  then show ?case by (intro sys_ok_db evolves_cancel)
next
  case (CancelSession s now kind sid)
  then show ?case by (intro sys_ok_db evolves_cancelSession)
next
  case (Cutoff s now until)
  then show ?case by (intro sys_ok_db evolves_cutoff)
next
  case (Retry s now ok i)
  then show ?case by (intro sys_ok_put pair_retryOne sys_ok_pair)
next
  case (Finish job s res dbnow now ok ph)
  show ?case by (intro sys_ok_put pair_finish sys_ok_pair Finish)
next
  case (Release rest s now oks)
  then show ?case by (intro sys_ok_put pair_release sys_ok_pair)
next
  case (Stop s now ok)
  then show ?case by (intro sys_ok_put pair_stop sys_ok_pair)
next
  case (Begin s i ph)
  then show ?case by (simp add: sys_ok_def unsettled_ok_def)
next
  case (Crash s)
  then show ?case by (simp add: sys_ok_def unsettled_ok_def fresh_mem_def)
qed

lemma sys_ok_reachable: "jobs_reachable s \<Longrightarrow> sys_ok s"
proof (induction rule: rtranclp_induct)
  case base
  show ?case
    by (simp add: sys_ok_def jobs_start_def db_ok_def jobs_ok_def pushed_ok_def unsettled_ok_def
        fresh_mem_def)
next
  case (step s s')
  then show ?case using sys_ok_step by blast
qed

text \<open>A follow-up scheduled, claimed after recovery and sent: the state the witnesses evaluate.\<close>

definition demo_spec :: job_spec where
  "demo_spec = \<lparr>js_kind = KFollowup, js_dedupeKey = followupKey ''s'' ''quote'', js_runAt = 5,
                js_payload = FollowupPayload ''s'' ''quote'', js_maxAttempts = FOLLOWUP_MAX_ATTEMPTS\<rparr>"

definition demo_claimed :: jobs_sys where
  "demo_claimed =
     (let s1 = jobs_start\<lparr>sy_db := fst (enqueueJob (sy_db jobs_start) 1 demo_spec)\<rparr>;
          s2 = put s1 (fst (recover (dm s1) 2 True));
          c = claimLane (dm s2) \<lparr>ln_name = ''followup'', ln_kinds = [KFollowup]\<rparr> 9 [] True
      in (put s2 (fst c))\<lparr>sy_claims := sy_claims s2 @ snd c\<rparr>)"

definition demo_job :: job_row where
  "demo_job = markClaimed 9 (newJob 0 1 demo_spec)"

definition demo_sent :: jobs_sys where
  "demo_sent = demo_claimed
     \<lparr>sy_db := \<lparr>jdb_rows = [demo_job\<lparr>jb_status := JSending\<rparr>], jdb_next = 1\<rparr>, sy_pushed := [0]\<rparr>"

lemmas demo_defs = demo_claimed_def demo_job_def demo_spec_def jobs_start_def enqueueJob_def put_def
  recover_def recoverJobsAtStartup_def update_count_def Let_def fresh_mem_def claimLane_def
  claimDueJobs_def pickDue_def due_def BATCH_def newJob_def markClaimed_def isFollowup_def

lemma demo_claimed_simps:
  "sy_db demo_claimed = \<lparr>jdb_rows = [demo_job], jdb_next = 1\<rparr>" "sy_claims demo_claimed = [demo_job]"
  "sy_pushed demo_claimed = []"
  by (simp_all add: demo_defs)

lemma demo_claimed_reachable: "jobs_reachable demo_claimed"
proof -
  let ?s1 = "jobs_start\<lparr>sy_db := fst (enqueueJob (sy_db jobs_start) 1 demo_spec)\<rparr>"
  let ?s2 = "put ?s1 (fst (recover (dm ?s1) 2 True))"
  let ?ln = "\<lparr>ln_name = ''followup'', ln_kinds = [KFollowup]\<rparr>"
  have 1: "jobs_step jobs_start ?s1"
    by (rule jobs_step.Schedule) (simp add: spec_ok_def demo_spec_def FOLLOWUP_MAX_ATTEMPTS_def)
  have 2: "jobs_step ?s1 ?s2"
    by (rule jobs_step.Recover) (simp add: jobs_start_def fresh_mem_def)
  have 3: "jobs_step ?s2 demo_claimed"
    unfolding demo_claimed_def Let_def
    by (rule jobs_step.Claim) (simp_all add: LANES_def put_def recover_def Let_def
        jobs_start_def fresh_mem_def recoverJobsAtStartup_def update_count_def)
  have "jobs_reachable ?s1" using 1 by (rule r_into_rtranclp)
  then have "jobs_reachable ?s2" using 2 by (rule rtranclp.rtrancl_into_rtrancl)
  then show ?thesis using 3 by (rule rtranclp.rtrancl_into_rtrancl)
qed

lemma demo_sent_reachable: "jobs_reachable demo_sent"
proof -
  have "applyJobOp (sy_db demo_claimed) 10 (followupStatusOp demo_job FsSending JRunning None True) =
      Inr (sy_db demo_sent, [0])"
    by (simp add: demo_claimed_simps followupStatusOp_def setJobStatus_def reopens_def
        statusHits_def setStatusRow_def demo_sent_def demo_job_def markClaimed_def newJob_def
        FINISHED_def)
  then have "jobs_step demo_claimed (demo_claimed\<lparr>sy_db := sy_db demo_sent,
      sy_pushed := sy_pushed demo_claimed @ [0]\<rparr>)"
    by (intro jobs_step.FollowSend) (simp_all add: demo_claimed_simps)
  then have "jobs_step demo_claimed demo_sent"
    by (simp add: demo_claimed_simps demo_sent_def)
  with demo_claimed_reachable show ?thesis by (rule rtranclp.rtrancl_into_rtrancl)
qed

section \<open>Properties\<close>

text \<open>
  C32: Whatever conversations schedule and cancel, and however runners claim, crash, retry, recover
  and stop, there is never more than one pending, running or sending job of the same key.
\<close>

theorem one_open_job_per_key:
  assumes "jobs_reachable s"
  shows "length (filter (\<lambda>r. jb_dedupeKey r = k \<and> is_open (jb_status r)) (jdb_rows (sy_db s))) \<le> 1"
  using sys_ok_reachable [OF assms] by (intro jobs_ok_count) (simp add: sys_ok_def db_ok_def)

lemma one_open_job_per_key_witness:
  "length (filter (\<lambda>r. jb_dedupeKey r = followupKey ''s'' ''quote'' \<and> is_open (jb_status r))
     (jdb_rows (sy_db demo_sent))) = 1"
  using one_open_job_per_key [OF demo_sent_reachable, of "followupKey ''s'' ''quote''"]
  by (simp add: demo_sent_def demo_job_def markClaimed_def newJob_def demo_spec_def)

text \<open>
  C31: A follow-up job's push is begun at most once, across crashes, recoveries, re-claims and late
  writers, and once begun the job is never pending or running again.
\<close>

theorem followup_pushed_at_most_once:
  assumes "jobs_reachable s"
  shows "distinct (sy_pushed s) \<and>
    (\<forall>r \<in> set (jdb_rows (sy_db s)). jb_id r \<in> set (sy_pushed s) \<longrightarrow>
       jb_status r \<noteq> JPending \<and> jb_status r \<noteq> JRunning)"
  using sys_ok_reachable [OF assms] by (auto simp: sys_ok_def db_ok_def pushed_ok_def left_def)

lemma followup_pushed_at_most_once_witness:
  "distinct (sy_pushed demo_sent) \<and> sy_pushed demo_sent = [0]"
  using followup_pushed_at_most_once [OF demo_sent_reachable] by (simp add: demo_sent_def)

text \<open>
  No job is ever attempted more often than its limit: the recorded attempts never pass
  \<open>maxAttempts\<close>, and a job that is still open has at least one attempt left, in every history in which no job is claimed
  twice at the same instant (the claim instant is the token that tells a job's claims apart).
\<close>

theorem attempts_bounded:
  assumes "jobs_reachable s" and "r \<in> set (jdb_rows (sy_db s))"
    and "distinct (map claim_token (sy_claims s))"
  shows "jb_attempts r \<le> jb_maxAttempts r \<and>
         (is_open (jb_status r) \<longrightarrow> jb_attempts r < jb_maxAttempts r)"
  using sys_ok_reachable [OF assms(1)] assms(2,3)
  by (simp add: sys_ok_def db_ok_def budget_def tokens_fresh_def)

lemma attempts_bounded_witness:
  "jb_attempts demo_job < jb_maxAttempts demo_job"
  using attempts_bounded [OF demo_claimed_reachable, of demo_job]
  by (simp add: claim_token_def demo_claimed_simps demo_job_def markClaimed_def)

lemma unhit_same:
  assumes "setJobStatus db now i st opts = Inr (db', hit)"
    and "\<And>q. q \<in> set (jdb_rows db) \<Longrightarrow> \<not> statusHits i opts q"
  shows "db' = db \<and> \<not> hit"
proof -
  have none: "filter (statusHits i opts) (jdb_rows db) = []" using assms(2) by (simp add: filter_empty_conv)
  have "update_where (statusHits i opts) f (jdb_rows db) = jdb_rows db" for f
    unfolding update_where_def using assms(2) by (simp add: map_idI)
  then show ?thesis using setJobStatus_Inr [OF assms(1)] none by simp
qed

text \<open>The writes that follow a result whatever became of the claim: the jobs to schedule next.\<close>

definition afterwards :: "jobs_db \<Rightarrow> ms \<Rightarrow> job_outcome \<Rightarrow> jobs_db" where
  "afterwards db now out = (case out of OutEnd st err nexts \<Rightarrow> enqueueAll db now nexts | _ \<Rightarrow> db)"

text \<open>
  C33: A stale claim cannot write: when the row of a claimed job no longer carries that claim's
  token (it was recovered, or recovered and claimed again, by this or another process), the
  claimant's result changes no existing row of the table; it only schedules the jobs the result
  says come next (the key check applies to them as always), and it reports that it did not hit. The
  claimant's follow-up status writes change nothing at all and report nothing.
\<close>

theorem stale_claim_writes_nothing:
  assumes "jobs_reachable s" and "job \<in> set (sy_claims s)"
    and "r \<in> set (jdb_rows (sy_db s))" "jb_id r = jb_id job" "jb_claimedAt r \<noteq> jb_claimedAt job"
  shows "(\<forall>db' hit. settle (sy_db s) now job out = Inr (db', hit) \<longrightarrow>
            db' = afterwards (sy_db s) now (fst out) \<and> hit \<noteq> Some True) \<and>
         (\<forall>db' applied. applyJobOp (sy_db s) now (followupStatusOp job st src err report) = Inr (db', applied) \<longrightarrow>
            db' = sy_db s \<and> applied = [])"
proof -
  have inv: "db_ok (tokens_fresh (sy_claims s)) (sy_claims s) (sy_pushed s) (sy_db s)"
    using sys_ok_reachable [OF assms(1)] by (simp add: sys_ok_def)
  obtain t where t: "jb_claimedAt job = Some t"
    using db_ok_snap [OF inv assms(2)] by (auto simp: snap_ok_def)
  have d: "distinct (map jb_id (jdb_rows (sy_db s)))"
    using inv by (intro jobs_ok_distinct) (simp add: db_ok_def)
  have miss: "\<not> statusHits (jb_id job) opts q"
    if "so_claimedAt opts = Some t" "q \<in> set (jdb_rows (sy_db s))" for opts q
  proof
    assume h: "statusHits (jb_id job) opts q"
    then have "q = r" using row_by_id [OF d that(2) assms(3)] assms(4) statusHits_id by metis
    then show False using h that(1) assms(5) t by (simp add: statusHits_def)
  qed
  have tok: "so_claimedAt (tokenOpts job e n u) = Some t" for e n u by (simp add: tokenOpts_def t)
  have "db' = afterwards (sy_db s) now (fst out) \<and> hit \<noteq> Some True"
    if set: "settle (sy_db s) now job out = Inr (db', hit)" for db' hit
  proof (cases out)
    case (Pair o' n)
    show ?thesis
    proof (cases o')
      case (OutEnd e err' nexts)
      obtain mid h where mid: "setJobStatus (sy_db s) now (jb_id job) (end_job_status e)
          (tokenOpts job err' n None) = Inr (mid, h)"
        and res: "db' = enqueueAll mid now nexts" "hit = Some h"
        using set by (auto simp: Pair OutEnd split: sum.splits)
      have "mid = sy_db s \<and> \<not> h" using unhit_same [OF mid] miss [OF tok] by blast
      then show ?thesis using res by (simp add: Pair OutEnd afterwards_def)
    next
      case (OutPending u err')
      obtain h where mid: "setJobStatus (sy_db s) now (jb_id job) JPending
          (tokenOpts job err' n (Some u)) = Inr (db', h)" and res: "hit = Some h"
        using set by (auto simp: Pair OutPending split: sum.splits)
      have "db' = sy_db s \<and> \<not> h" using unhit_same [OF mid] miss [OF tok] by blast
      then show ?thesis using res by (simp add: Pair OutPending afterwards_def)
    qed (use set Pair in \<open>auto simp: afterwards_def\<close>)
  qed
  moreover have "db' = sy_db s \<and> applied = []"
    if op: "applyJobOp (sy_db s) now (followupStatusOp job st src err report) = Inr (db', applied)"
    for db' applied
  proof -
    let ?o = "\<lparr>so_from = Some [src], so_claimedAt = jb_claimedAt job,
      so_lastError = (case err of None \<Rightarrow> None | Some e \<Rightarrow> if e = [] then None else Some (Some e)),
      so_attemptsDelta = 0, so_runAt = None\<rparr>"
    have tok': "so_claimedAt ?o = Some t" by (simp add: t)
    obtain h where mid: "setJobStatus (sy_db s) now (jb_id job) (follow_job_status st) ?o = Inr (db', h)"
      and app: "applied = (if h \<and> report then [jb_id job] else [])"
      using op by (auto simp: followupStatusOp_def split: sum.splits)
    have "db' = sy_db s \<and> \<not> h" using unhit_same [OF mid] miss [OF tok'] by blast
    then show ?thesis using app by simp
  qed
  ultimately show ?thesis by blast
qed

text \<open>The job of the demonstration, claimed, then put back by a second process's recovery.\<close>

definition demo_recovered :: jobs_sys where
  "demo_recovered =
     (let s = demo_claimed\<lparr>sy_mem := fresh_mem\<rparr> in put s (fst (recover (dm s) 20 True)))"

lemma demo_recovered_reachable: "jobs_reachable demo_recovered"
proof -
  let ?s = "demo_claimed\<lparr>sy_mem := fresh_mem\<rparr>"
  have "jobs_reachable ?s"
    using demo_claimed_reachable jobs_step.Crash by (rule rtranclp.rtrancl_into_rtrancl)
  moreover have "jobs_step ?s demo_recovered"
    unfolding demo_recovered_def Let_def by (rule jobs_step.Recover) (simp add: fresh_mem_def)
  ultimately show ?thesis by (rule rtranclp.rtrancl_into_rtrancl)
qed

lemma stale_claim_writes_nothing_witness:
  "\<exists>db'. settle (sy_db demo_recovered) 30 demo_job (OutEnd EndDone None [], 0) = Inr (db', Some False) \<and>
     db' = sy_db demo_recovered"
proof -
  let ?r = "demo_job\<lparr>jb_status := JPending, jb_claimedAt := None\<rparr>"
  have rows: "jdb_rows (sy_db demo_recovered) = [?r]"
    by (simp add: demo_recovered_def put_def recover_def demo_claimed_simps
        recoverJobsAtStartup_def update_count_def Let_def isFollowup_def demo_job_def
        markClaimed_def newJob_def demo_spec_def)
  have claims: "demo_job \<in> set (sy_claims demo_recovered)"
    by (simp add: demo_recovered_def put_def demo_claimed_simps Let_def)
  have "\<exists>db'. settle (sy_db demo_recovered) 30 demo_job (OutEnd EndDone None [], 0) = Inr (db', Some False)"
    by (simp add: setJobStatus_def rows reopens_def enqueueAll_def statusHits_def tokenOpts_def
        demo_job_def markClaimed_def)
  moreover have "jb_claimedAt ?r \<noteq> jb_claimedAt demo_job" by (simp add: demo_job_def markClaimed_def)
  ultimately show ?thesis
    using stale_claim_writes_nothing [OF demo_recovered_reachable claims, of ?r 30
        "(OutEnd EndDone None [], 0)"] rows by (auto simp: afterwards_def enqueueAll_def)
qed

end
