(* ===== verification/JobsLanes.thy ===== *)
theory JobsLanes
  imports JobsSystem
begin

text \<open>
  One tick of a lane of the job runner (\<open>tickLane\<close> and \<open>runClaimed\<close> in \<open>src/jobs/runner.ts\<close>): a batch
  claimed, then run job by job, with a stop or a lost tenant lock noticed before each of them. A
  tick is a run of the step relation of \<open>JobsSystem\<close>; and a job whose handler throws every time it
  is run is run with the backoff in between until its attempts are used up, and then failed.
  What the environment decides in a tick is a record: the clock, the lock, whether a transaction
  succeeds, what each handler does. Nothing else writes between the awaits of one tick here; the
  interleavings are the step relation's.
\<close>

section \<open>A tick of a lane\<close>





section \<open>A tick is a run of the step relation\<close>








section \<open>What a tick does to one job\<close>







lemma setPhase_stopping [simp]: "rm_stopping (setPhase mem i ph) = rm_stopping mem"
  by (simp add: setPhase_def split: option.split)

lemma afterSettled_stopping [simp]: "rm_stopping (afterSettled mem job out) = rm_stopping mem"
  by (simp add: afterSettled_def split: job_outcome.split end_status.split)











section \<open>A job that always fails\<close>











end
