(* ===== verification/JsText.thy ===== *)
theory JsText
  imports Prelude
begin

text \<open>
  Operations of JavaScript strings the components use, on lists of UTF-16 code units: \<open>trim\<close>,
  \<open>split\<close>, \<open>startsWith\<close>, \<open>endsWith\<close> and \<open>includes\<close>.
\<close>

section \<open>Trimming\<close>

text \<open>The white space and line terminators of ECMAScript.\<close>

definition js_space :: "nat \<Rightarrow> bool" where
  "js_space c \<longleftrightarrow>
     c \<in> set [9, 10, 11, 12, 13, 32, 160, 5760, 8192, 8193, 8194, 8195, 8196, 8197, 8198, 8199,
              8200, 8201, 8202, 8232, 8233, 8239, 8287, 12288, 65279]"

definition trim :: "jstext \<Rightarrow> jstext" where
  "trim s = rev (dropWhile js_space (rev (dropWhile js_space s)))"

lemma trim_Nil [simp]: "trim [] = []"
  by (simp add: trim_def)

lemma dropWhile_id: "(xs \<noteq> [] \<Longrightarrow> \<not> P (hd xs)) \<Longrightarrow> dropWhile P xs = xs"
  by (cases xs) auto

lemma hd_dropWhile_not: "dropWhile P xs \<noteq> [] \<Longrightarrow> \<not> P (hd (dropWhile P xs))"
  by (induction xs) auto

lemma trim_id:
  assumes "s \<noteq> [] \<Longrightarrow> \<not> js_space (hd s) \<and> \<not> js_space (last s)"
  shows "trim s = s"
proof (cases "s = []")
  case False
  then have "dropWhile js_space s = s" using assms by (intro dropWhile_id) simp
  moreover have "dropWhile js_space (rev s) = rev s"
    using assms False by (intro dropWhile_id) (simp add: hd_rev)
  ultimately show ?thesis by (simp add: trim_def)
qed simp

lemma trim_ends:
  assumes ne: "trim s \<noteq> []"
  shows "\<not> js_space (hd (trim s)) \<and> \<not> js_space (last (trim s))"
proof -
  define d where "d = dropWhile js_space s"
  define r where "r = dropWhile js_space (rev d)"
  have trim: "trim s = rev r" by (simp add: trim_def d_def r_def)
  then have r: "r \<noteq> []" using ne by simp
  have l: "\<not> js_space (hd r)" using r hd_dropWhile_not unfolding r_def by metis
  obtain pre where "rev d = pre @ r" unfolding r_def by (metis takeWhile_dropWhile_id)
  then have d: "d = rev r @ rev pre" by (metis rev_append rev_rev_ident)
  then have "d \<noteq> []" using r by simp
  then have "\<not> js_space (hd d)" using hd_dropWhile_not unfolding d_def by metis
  then have "\<not> js_space (hd (rev r))" using d r by simp
  then show ?thesis using l r by (simp add: trim last_rev)
qed

lemma trim_trim [simp]: "trim (trim s) = trim s"
  by (rule trim_id) (rule trim_ends)

section \<open>Searching and splitting\<close>

fun starts_with :: "'a list \<Rightarrow> 'a list \<Rightarrow> bool" where
  "starts_with s [] \<longleftrightarrow> True"
| "starts_with [] (p # ps) \<longleftrightarrow> False"
| "starts_with (c # cs) (p # ps) \<longleftrightarrow> c = p \<and> starts_with cs ps"

definition ends_with :: "'a list \<Rightarrow> 'a list \<Rightarrow> bool" where
  "ends_with s p \<longleftrightarrow> starts_with (rev s) (rev p)"

lemma starts_with_append [simp]: "starts_with (p @ s) p"
  by (induction p) auto

lemma ends_with_append [simp]: "ends_with (s @ p) p"
  by (simp add: ends_with_def)

fun js_includes :: "'a list \<Rightarrow> 'a list \<Rightarrow> bool" where
  "js_includes [] p \<longleftrightarrow> p = []"
| "js_includes (c # cs) p \<longleftrightarrow> starts_with (c # cs) p \<or> js_includes cs p"

text \<open>\<open>s.split(sep)\<close> for a separator of one character.\<close>

fun split_at :: "'a \<Rightarrow> 'a list \<Rightarrow> 'a list list" where
  "split_at sep [] = [[]]"
| "split_at sep (c # cs) =
     (if c = sep then [] # split_at sep cs
      else (case split_at sep cs of [] \<Rightarrow> [[c]] | p # ps \<Rightarrow> (c # p) # ps))"

lemma split_at_nonempty [simp]: "split_at sep s \<noteq> []"
  by (induction s) (auto split: list.split)

lemma split_at_absent: "sep \<notin> set s \<Longrightarrow> split_at sep s = [s]"
  by (induction s) auto

lemma split_at_append: "sep \<notin> set s \<Longrightarrow> split_at sep (s @ sep # t) = s # split_at sep t"
  by (induction s) auto

text \<open>\<open>xs.join(sep)\<close>.\<close>

fun joinWith :: "jstext \<Rightarrow> jstext list \<Rightarrow> jstext" where
  "joinWith sep [] = []"
| "joinWith sep [x] = x"
| "joinWith sep (x # y # xs) = x @ sep @ joinWith sep (y # xs)"

end
