(* ===== verification/Handoff.thy ===== *)
theory Handoff
  imports JobsNotify LedgerState JsText
begin

text \<open>
  Hand-over to people (\<open>src/handoff/record.ts\<close>, \<open>takeover.ts\<close>): entering a hand-over and its
  log, taking a conversation over, giving it back to the AI, and a person's reply. The functions are
  synchronous in the code up to the commit of the reply; what they queue for the conversation's
  save (jobs, events, audit rows) is a log of effects. The pack's stages, the clock, the trace id
  of the turn, the order statuses and the channel verdicts are in an environment.
\<close>

section \<open>Conversations\<close>

datatype conv_role = CrCustomer | CrAgent | CrSystem

record conv_msg =
  cm_role :: conv_role
  cm_content :: jstext
  cm_at :: ms
  cm_human :: "(string option \<times> jstext) option"

datatype sensitive_category = ScHealth | ScMinor

datatype consent_state = CsAsked | CsGranted | CsDeclined | CsWithdrawn

record hand_session =
  hs_id :: string
  hs_wecom :: bool
  hs_stage :: string
  hs_messages :: "conv_msg list"
  hs_orderIds :: "string list"
  hs_handedOver :: bool
  hs_assignee :: "assignee option"
  hs_handoff :: "handoff_record option"
  hs_stageBeforeHandoff :: "string option"
  hs_firstHandoffAt :: "ms option"
  hs_handoffCount :: "nat option"
  hs_handoffLog :: "handoff_log_entry list option"
  hs_consent :: "(sensitive_category, consent_state) jsmap option"
  hs_consentAskCount :: "(sensitive_category, nat) jsmap option"

datatype actor_role = RoleOwner | RoleAdmin | RoleSupervisor | RoleAgent | RoleViewer | RoleShared

record actor =
  ac_userId :: "string option"
  ac_name :: jstext
  ac_role :: actor_role
  ac_ip :: "string option"

record consent_item =
  ci_category :: sensitive_category
  ci_decision :: consent_state
  ci_noticeVersion :: nat
  ci_evidence :: jstext
  ci_at :: ms

text \<open>What a handler queues for the save of the conversation, in order.\<close>

datatype hand_effect =
    EfJobs string "job_op list"
  | EfStarted string handoff_kind ms bool bool bool
  | EfAssigned string jstext
  | EfReleased string
  | EfReassignAudit string actor jstext
  | EfTakeoverAudit string actor
  | EfReleaseAudit string actor
  | EfConsents string "consent_item list"
  | EfSave string

text \<open>The pack, the clock and the neighbours of one call.\<close>

record hand_env =
  he_now :: ms
  he_terminalStages :: "string list"
  he_stageOnReturn :: "hand_session \<Rightarrow> string option"
  he_turnId :: "string \<Rightarrow> string option"
  he_windowClosesAt :: "string \<Rightarrow> ms option"
  he_orderStatus :: "string \<Rightarrow> order_status option"
  he_lagging :: "string \<Rightarrow> bool"
  he_replyVerdict :: "string \<Rightarrow> human_reply_verdict"

section \<open>Fixed texts\<close>

text \<open>The Chinese sentences of \<open>reasons.ts\<close> and \<open>takeover.ts\<close>, as code units.\<close>

definition REASON_AGENT :: jstext where
  "REASON_AGENT =
     [20849, 20139, 24037, 20316, 21488, 36716, 20154, 24037]"

definition REASON_EMERGENCY :: jstext where
  "REASON_EMERGENCY =
     [23458, 25143, 36935, 21040, 32039, 24613, 24773, 20917]"

definition REASON_CONSENT :: jstext where
  "REASON_CONSENT =
     [23458, 25143, 19981, 21516, 24847, 22788, 29702, 25935, 24863, 20010, 20154, 20449,
      24687]"

definition MEMBER_TAKEOVER_REASON :: jstext where
  "MEMBER_TAKEOVER_REASON =
     [39038, 38382, 20027, 21160, 25509, 25163]"

definition RELEASE_SUFFIX :: jstext where
  "RELEASE_SUFFIX =
     [25226, 20250, 35805, 20132, 36824, 32, 65, 73]"

definition REPLY_FAILED_NOTE :: jstext where
  "REPLY_FAILED_NOTE =
     [9888, 65039, 32, 19978, 19968, 26465, 20154, 24037, 22238, 22797, 26410, 33021, 21457,
      36865, 21040, 23458, 25143, 65288, 20225, 24494, 21457, 36865, 22833, 36133, 65306,
      21487, 33021, 26159, 32, 52, 56, 104, 32, 20250, 35805, 31383, 21475, 24050, 20851,
      38381, 25110, 20225, 24494, 37197, 32622, 38382, 39064, 65289]"

definition REPLY_UNRECOVERABLE_NOTE :: jstext where
  "REPLY_UNRECOVERABLE_NOTE =
     [9888, 65039, 32, 19978, 19968, 26465, 20154, 24037, 22238, 22797, 26410, 33021, 21457,
      36865, 21040, 23458, 25143, 65288, 20889, 24211, 22833, 36133, 65292, 35831, 32852,
      31995, 25216, 26415, 30830, 35748, 21407, 22240, 21518, 37325, 35797, 65289]"

datatype emergency_kind = EkAltitude | EkInjury | EkMedical | EkDocuments | EkStranded

fun emergency_label :: "emergency_kind \<Rightarrow> jstext" where
  "emergency_label EkAltitude = [39640, 21453]"
| "emergency_label EkInjury = [21463, 20260]"
| "emergency_label EkMedical = [24613, 30149]"
| "emergency_label EkDocuments = [35777, 20214, 20002, 22833]"
| "emergency_label EkStranded = [34987, 22256, 25110, 36208, 22833]"

definition emergencyReason :: "emergency_kind \<Rightarrow> jstext" where
  "emergencyReason k = REASON_EMERGENCY @ [65288] @ emergency_label k @ [65289]"

definition releaseNote :: "jstext \<Rightarrow> jstext" where
  "releaseNote name = name @ RELEASE_SUFFIX"

definition isReleaseNote :: "conv_msg \<Rightarrow> bool" where
  "isReleaseNote m \<longleftrightarrow>
     cm_role m = CrSystem \<and> ends_with (cm_content m) RELEASE_SUFFIX \<and> 10 \<notin> set (cm_content m)"

definition systemMsg :: "jstext \<Rightarrow> ms \<Rightarrow> conv_msg" where
  "systemMsg t at = \<lparr>cm_role = CrSystem, cm_content = t, cm_at = at, cm_human = None\<rparr>"

definition consentRequestNote :: "jstext \<Rightarrow> jstext" where
  "consentRequestNote reason =
     [23458, 25143, 25552, 20986, 34892, 26435, 35831, 27714, 65288]
     @ reason @
     [65289, 65292, 38656, 35201, 39038, 38382, 22788, 29702]"

definition addMsg :: "conv_msg \<Rightarrow> hand_session \<Rightarrow> hand_session" where
  "addMsg m s = s\<lparr>hs_messages := hs_messages s @ [m]\<rparr>"

section \<open>Entering a hand-over\<close>

definition isTerminalStage :: "hand_env \<Rightarrow> string \<Rightarrow> bool" where
  "isTerminalStage env stage \<longleftrightarrow> stage \<in> set (he_terminalStages env)"

text \<open>The first terminal stage; the code throws when the pack has none.\<close>

definition terminalStageKey :: "hand_env \<Rightarrow> string option" where
  "terminalStageKey env = (case he_terminalStages env of [] \<Rightarrow> None | st # _ \<Rightarrow> Some st)"

fun kind_name :: "handoff_kind \<Rightarrow> string" where
  "kind_name HkRequest = ''request''"
| "kind_name HkComplaint = ''complaint''"
| "kind_name HkRefund = ''refund''"
| "kind_name HkEmergency = ''emergency''"
| "kind_name HkFailure = ''failure''"
| "kind_name HkSentiment = ''sentiment''"
| "kind_name HkModel = ''model''"
| "kind_name HkPromise = ''promise''"
| "kind_name HkClaimed = ''claimed''"
| "kind_name HkConsent = ''consent''"
| "kind_name HkPack = ''pack''"
| "kind_name HkAgent = ''agent''"

definition appendHandoffLog :: "hand_env \<Rightarrow> handoff_record \<Rightarrow> hand_session \<Rightarrow> hand_session" where
  "appendHandoffLog env rec s =
     (let log = (case hs_handoffLog s of None \<Rightarrow> [] | Some l \<Rightarrow> l) @
            [\<lparr>hl_kind = kind_name (hr_kind rec), hl_at = hr_at rec,
              hl_turnId = (case he_turnId env (hs_id s) of
                             Some t \<Rightarrow> if t = [] then None else Some t | None \<Rightarrow> None)\<rparr>]
      in s\<lparr>hs_handoffLog :=
             Some (if length log > HANDOFF_LOG_MAX then drop (length log - HANDOFF_LOG_MAX) log
                   else log)\<rparr>)"

definition notice_opts ::
    "bool \<Rightarrow> handoff_kind option \<Rightarrow> nat option \<Rightarrow> ms option \<Rightarrow> handoff_notify_opts" where
  "notice_opts esc k cnt closes =
     \<lparr>hn_escalated = esc, hn_kind = k, hn_handoffCount = cnt, hn_windowClosesAt = closes\<rparr>"

text \<open>The stage part of \<open>enterHandoff\<close>, done before anything else.\<close>

definition enterStage :: "hand_env \<Rightarrow> string \<Rightarrow> hand_session \<Rightarrow> hand_session" where
  "enterStage env prevStage s =
     (let s1 = (if hs_stage s \<noteq> ''handoff'' \<and> prevStage \<noteq> ''handoff''
                then s\<lparr>hs_stageBeforeHandoff := Some prevStage\<rparr> else s)
      in if isTerminalStage env (hs_stage s) then s1 else s1\<lparr>hs_stage := ''handoff''\<rparr>)"

definition enterHandoff ::
    "hand_env \<Rightarrow> handoff_record \<Rightarrow> string option \<Rightarrow> bool option \<Rightarrow> hand_session \<Rightarrow>
     hand_session \<times> hand_effect list" where
  "enterHandoff env rec prevStage assigned s0 =
     (let terminal = isTerminalStage env (hs_stage s0);
          s = enterStage env (case prevStage of None \<Rightarrow> hs_stage s0 | Some p \<Rightarrow> p) s0;
          closing = (\<lambda>escalated s'.
            (s', [EfStarted (hs_id s') (hr_kind rec) (hr_at rec) escalated terminal
                    (case assigned of Some a \<Rightarrow> a | None \<Rightarrow> hs_assignee s' \<noteq> None),
                  EfJobs (hs_id s') (handoffNotifyOps (hs_id s') (hr_at rec)
                    (notice_opts escalated (Some (hr_kind rec)) (hs_handoffCount s')
                      (if \<not> escalated \<and> hs_wecom s' then he_windowClosesAt env (hs_id s')
                       else None)))]))
      in if \<not> hs_handedOver s
         then closing False (appendHandoffLog env rec
                (s\<lparr>hs_handedOver := True, hs_assignee := None, hs_handoff := Some rec,
                   hs_firstHandoffAt := (case hs_firstHandoffAt s of None \<Rightarrow> Some (hr_at rec)
                                                                 | Some t \<Rightarrow> Some t),
                   hs_handoffCount := Some ((case hs_handoffCount s of None \<Rightarrow> 0 | Some n \<Rightarrow> n) + 1)\<rparr>))
         else if hr_kind rec = HkEmergency \<and>
                 map_option hr_kind (hs_handoff s) \<noteq> Some HkEmergency
         then closing True (appendHandoffLog env rec (s\<lparr>hs_handoff := Some rec\<rparr>))
         else if hr_kind rec = HkConsent
         then (addMsg (systemMsg (consentRequestNote (hr_reason rec)) (hr_at rec)) s,
               [EfJobs (hs_id s) (handoffNotifyOps (hs_id s) (hr_at rec)
                  (notice_opts True (Some HkConsent) (hs_handoffCount s) None))])
         else (s, []))"

section \<open>Taking over\<close>

datatype hand_error =
    ConversationNotFound string
  | AssignedToOther jstext
  | SendWindowClosed "ms option" jstext
  | SendQuotaExhausted "ms option" jstext
  | NotHandling
  | Forbidden
  | ConsentDeclined
  | EmptyReply
  | ReplyTooLong
  | StoreLagging string
  | NoTerminalStage

definition HANDLERS :: "actor_role list" where
  "HANDLERS = [RoleOwner, RoleAdmin, RoleSupervisor, RoleAgent, RoleShared]"

definition SUPERVISORS :: "actor_role list" where
  "SUPERVISORS = [RoleOwner, RoleAdmin, RoleSupervisor]"

definition handlesConversations :: "actor_role \<Rightarrow> bool" where
  "handlesConversations r \<longleftrightarrow> r \<in> set HANDLERS"

definition supervisesConversations :: "actor_role \<Rightarrow> bool" where
  "supervisesConversations r \<longleftrightarrow> r \<in> set SUPERVISORS"

definition isMine :: "assignee \<Rightarrow> actor \<Rightarrow> bool" where
  "isMine a ac =
     (case ac_userId ac of None \<Rightarrow> as_userId a = None | Some u \<Rightarrow> as_userId a = Some u)"

definition assigneeOf :: "hand_session \<Rightarrow> assignee option" where
  "assigneeOf s = (if hs_handedOver s then hs_assignee s else None)"

definition isAssignee :: "hand_session \<Rightarrow> actor \<Rightarrow> bool" where
  "isAssignee s ac = (case assigneeOf s of None \<Rightarrow> False | Some a \<Rightarrow> isMine a ac)"

record takeover_result =
  tr_changed :: bool
  tr_reassignedFrom :: "jstext option"

text \<open>The state of the process: the conversations, the generations, the reply cache, the effects.\<close>

record hand_world =
  hw_sessions :: "(string, hand_session) jsmap"
  hw_gens :: "(string, nat) jsmap"
  hw_recent :: "((string \<times> string) \<times> ms \<times> nat) list"
  hw_nextReply :: nat
  hw_out :: "hand_effect list"

definition takeoverGen :: "hand_world \<Rightarrow> string \<Rightarrow> nat" where
  "takeoverGen w sid = (case jget (hw_gens w) sid of None \<Rightarrow> 0 | Some n \<Rightarrow> n)"

text \<open>The jobs the hand-over just queued, as cancellations.\<close>

definition cancelNotices :: "job_op list \<Rightarrow> job_op list" where
  "cancelNotices ops =
     concat (map (\<lambda>op. case op of OpEnqueue spec \<Rightarrow> [OpCancel (js_dedupeKey spec)] | _ \<Rightarrow> []) ops)"

definition commitSession ::
    "hand_world \<Rightarrow> hand_session \<Rightarrow> hand_effect list \<Rightarrow> hand_world" where
  "commitSession w s effs =
     w\<lparr>hw_sessions := jset (hw_sessions w) (hs_id s) s, hw_out := hw_out w @ effs\<rparr>"

definition takeoverRecord :: "hand_env \<Rightarrow> actor \<Rightarrow> handoff_record" where
  "takeoverRecord env ac =
     \<lparr>hr_kind = HkAgent, hr_at = he_now env,
      hr_reason = (if ac_role ac = RoleShared then REASON_AGENT else MEMBER_TAKEOVER_REASON),
      hr_quote = None, hr_departNote = None\<rparr>"

definition enterForTakeover ::
    "hand_env \<Rightarrow> actor \<Rightarrow> hand_session \<Rightarrow> hand_session \<times> hand_effect list" where
  "enterForTakeover env ac s =
     (if hs_handedOver s then (s, [])
      else case enterHandoff env (takeoverRecord env ac) None (Some True) s of
             (s', effs) \<Rightarrow>
               (s', effs @ [EfJobs (hs_id s) (cancelNotices
                      (handoffNotifyOps (hs_id s) (he_now env)
                        (notice_opts False None None None)))]))"

definition takeover ::
    "hand_env \<Rightarrow> hand_world \<Rightarrow> string \<Rightarrow> actor \<Rightarrow> bool \<Rightarrow> hand_error + hand_world \<times> takeover_result" where
  "takeover env w sid ac force =
     (case jget (hw_sessions w) sid of
        None \<Rightarrow> Inl (ConversationNotFound sid)
      | Some s \<Rightarrow>
          if \<not> handlesConversations (ac_role ac) then Inl Forbidden
          else let cur = assigneeOf s in
            if (case cur of None \<Rightarrow> False | Some a \<Rightarrow> isMine a ac)
            then Inr (w, \<lparr>tr_changed = False, tr_reassignedFrom = None\<rparr>)
            else if cur \<noteq> None \<and> \<not> force then Inl (AssignedToOther (as_name (the cur)))
            else if cur \<noteq> None \<and> \<not> supervisesConversations (ac_role ac) then Inl Forbidden
            else let (s1, effs) = enterForTakeover env ac s;
                     s2 = s1\<lparr>hs_assignee := Some \<lparr>as_userId = ac_userId ac, as_name = ac_name ac,
                                                  as_at = he_now env\<rparr>\<rparr>;
                     w1 = commitSession w s2
                       (effs @ [EfAssigned sid (ac_name ac),
                          (case cur of Some a \<Rightarrow> EfReassignAudit sid ac (as_name a)
                                     | None \<Rightarrow> EfTakeoverAudit sid ac),
                          EfSave sid])
                 in Inr (w1\<lparr>hw_gens := jset (hw_gens w1) sid (takeoverGen w sid + 1)\<rparr>,
                         \<lparr>tr_changed = True, tr_reassignedFrom = map_option as_name cur\<rparr>))"

section \<open>Giving back\<close>

definition consentDeclined :: "hand_session \<Rightarrow> bool" where
  "consentDeclined s =
     (case hs_consent s of None \<Rightarrow> False
      | Some m \<Rightarrow> list_ex (\<lambda>(_, v). v = CsDeclined \<or> v = CsWithdrawn) m)"

definition hasPaidOrder :: "hand_env \<Rightarrow> hand_session \<Rightarrow> bool" where
  "hasPaidOrder env s =
     list_ex (\<lambda>i. case he_orderStatus env i of
                    None \<Rightarrow> False | Some st \<Rightarrow> st \<in> set [Paid, RefundPending, Refunded])
       (hs_orderIds s)"

text \<open>
  The stage a returned conversation gets: only a stage absorbed by the hand-over is restored. None
  is the throw of \<open>terminalStageKey\<close>.
\<close>

definition restoreStage :: "hand_env \<Rightarrow> hand_session \<Rightarrow> hand_session option" where
  "restoreStage env s =
     (if hs_stage s \<noteq> ''handoff'' then Some s
      else case terminalStageKey env of
             None \<Rightarrow> None
           | Some done \<Rightarrow>
               (let inferred = (case he_stageOnReturn env s of
                                  Some st \<Rightarrow> st
                                | None \<Rightarrow> if hs_orderIds s \<noteq> [] then ''closing'' else ''discovery'')
                in Some (s\<lparr>hs_stage := (if hasPaidOrder env s then done
                                        else case hs_stageBeforeHandoff s of
                                               Some st \<Rightarrow> st | None \<Rightarrow> inferred),
                           hs_stageBeforeHandoff := None\<rparr>)))"

text \<open>The world after the call and the error it threw, if any.\<close>

definition release ::
    "hand_env \<Rightarrow> hand_world \<Rightarrow> string \<Rightarrow> actor \<Rightarrow> hand_world \<times> hand_error option" where
  "release env w sid ac =
     (case jget (hw_sessions w) sid of
        None \<Rightarrow> (w, Some (ConversationNotFound sid))
      | Some s \<Rightarrow>
          if \<not> handlesConversations (ac_role ac) then (w, Some Forbidden)
          else if \<not> hs_handedOver s then (w, None)
          else if (case hs_assignee s of
                     None \<Rightarrow> False
                   | Some a \<Rightarrow> \<not> isMine a ac \<and> \<not> supervisesConversations (ac_role ac))
          then (w, Some NotHandling)
          else if consentDeclined s then (w, Some ConsentDeclined)
          else let s1 = s\<lparr>hs_handedOver := False, hs_handoff := None, hs_assignee := None\<rparr> in
               case restoreStage env s1 of
                 None \<Rightarrow> (commitSession w s1 [], Some NoTerminalStage)
               | Some s2 \<Rightarrow>
                   (commitSession w (addMsg (systemMsg (releaseNote (ac_name ac)) (he_now env)) s2)
                      [EfReleased sid, EfReleaseAudit sid ac, EfSave sid], None))"

section \<open>A person's reply\<close>

definition CLIENT_ID_TTL_MS :: ms where
  "CLIENT_ID_TTL_MS = 10 * 60000"

text \<open>The cache is in insertion order; pruning stops at the first entry that is still young.\<close>

definition pruneRecent ::
    "((string \<times> string) \<times> ms \<times> nat) list \<Rightarrow> ms \<Rightarrow> ((string \<times> string) \<times> ms \<times> nat) list" where
  "pruneRecent m now = dropWhile (\<lambda>(_, at, _). \<not> now - at < CLIENT_ID_TTL_MS) m"

datatype reply_start =
    ReplyCached nat
  | ReplyStarted nat conv_msg bool

definition humanMsg :: "actor \<Rightarrow> jstext \<Rightarrow> ms \<Rightarrow> conv_msg" where
  "humanMsg ac t now =
     \<lparr>cm_role = CrAgent, cm_content = t, cm_at = now, cm_human = Some (ac_userId ac, ac_name ac)\<rparr>"

definition channelGate :: "hand_env \<Rightarrow> hand_session \<Rightarrow> hand_error option" where
  "channelGate env s =
     (if \<not> hs_wecom s then None
      else case he_replyVerdict env (hs_id s) of
             ReplyOk _ \<Rightarrow> None
           | ReplyWindowClosed c m \<Rightarrow> Some (SendWindowClosed c m)
           | ReplyQuotaExhausted c m \<Rightarrow> Some (SendQuotaExhausted c m))"

text \<open>
  The synchronous part: it either answers from the cache, or fails and changes nothing (but the
  pruned cache), or takes the conversation over when nobody has it, records the message and starts
  the delivery. The promise of a delivery is a number; \<open>ReplyStarted\<close> says whether a place in the
  send quota is held.
\<close>

definition replySync ::
    "hand_env \<Rightarrow> hand_world \<Rightarrow> string \<Rightarrow> actor \<Rightarrow> jstext \<Rightarrow> string \<Rightarrow>
     hand_world \<times> (hand_error + reply_start)" where
  "replySync env w0 sid ac text clientId =
     (let now = he_now env; w = w0\<lparr>hw_recent := pruneRecent (hw_recent w0) now\<rparr> in
      case jget (hw_recent w) (sid, clientId) of
        Some (_, p) \<Rightarrow> (w, Inr (ReplyCached p))
      | None \<Rightarrow>
         (case jget (hw_sessions w) sid of
            None \<Rightarrow> (w, Inl (ConversationNotFound sid))
          | Some s \<Rightarrow>
             if \<not> handlesConversations (ac_role ac) then (w, Inl Forbidden)
             else let cur = assigneeOf s; cleaned = trim (cleanText (trim text) None) in
              if (case cur of None \<Rightarrow> False | Some a \<Rightarrow> \<not> isMine a ac)
              then (w, Inl (AssignedToOther (as_name (the cur))))
              else if cleaned = [] then (w, Inl EmptyReply)
              else if cleanText cleaned (Some 2000) \<noteq> cleaned then (w, Inl ReplyTooLong)
              else if he_lagging env sid then (w, Inl (StoreLagging sid))
              else case channelGate env s of
                     Some e \<Rightarrow> (w, Inl e)
                   | None \<Rightarrow>
                      (let msg = humanMsg ac cleaned now;
                           taken = (if cur = None then takeover env w sid ac False
                                    else Inr (w, \<lparr>tr_changed = False, tr_reassignedFrom = None\<rparr>))
                       in case taken of
                            Inl e \<Rightarrow> (w, Inl e)
                          | Inr (w1, _) \<Rightarrow>
                             (case jget (hw_sessions w1) sid of
                                None \<Rightarrow> (w1, Inl (ConversationNotFound sid))
                              | Some s1 \<Rightarrow>
                                 (let p = hw_nextReply w1;
                                      w2 = commitSession w1 (addMsg msg s1) [EfSave sid]
                                  in (w2\<lparr>hw_recent := jset (hw_recent w2) (sid, clientId) (now, p),
                                         hw_nextReply := Suc p\<rparr>,
                                      Inr (ReplyStarted p msg (hs_wecom s))))))))"

text \<open>
  The delivery after the wait for the commit: \<open>CommitLost\<close> is a change that will never commit.
  Then the result of the push; a failed one leaves a note in the conversation.
\<close>

datatype commit_wait = CommitOk | CommitLate | CommitLost

datatype reply_result = ReplyResult bool bool | ReplyLagging

definition deliverNote :: "hand_env \<Rightarrow> hand_world \<Rightarrow> string \<Rightarrow> jstext \<Rightarrow> hand_world" where
  "deliverNote env w sid t =
     (case jget (hw_sessions w) sid of
        Some s \<Rightarrow> commitSession w (addMsg (systemMsg t (he_now env)) s) [EfSave sid]
      | None \<Rightarrow> w)"

definition deliver ::
    "hand_env \<Rightarrow> hand_world \<Rightarrow> string \<Rightarrow> commit_wait \<Rightarrow> bool \<Rightarrow> bool \<Rightarrow> bool \<Rightarrow>
     hand_world \<times> reply_result" where
  "deliver env w sid wait serving pushed stillServing =
     (if wait = CommitLost
      then (if serving then deliverNote env w sid REPLY_UNRECOVERABLE_NOTE else w, ReplyLagging)
      else if \<not> serving then (w, ReplyResult False (wait = CommitOk))
      else (if \<not> pushed \<and> stillServing then deliverNote env w sid REPLY_FAILED_NOTE else w,
            ReplyResult pushed (wait = CommitOk)))"

end
