(* ===== verification/Consent.thy ===== *)
theory Consent
  imports Handoff
begin

text \<open>
  Consent to sensitive information (\<open>src/handoff/consent.ts\<close>): how often a category is asked, what
  a click on the menu does, and withdrawing; the menu button's id and its parser; and the part of a
  conversation's reset (\<open>src/core/engine/index.ts\<close>) that touches the hand-over. Then the machine of
  all handlers over the process's conversations, with its invariant.
\<close>

section \<open>The menu's buttons\<close>

definition CONSENT_MAX_ASKS :: nat where
  "CONSENT_MAX_ASKS = 2"

fun category_name :: "sensitive_category \<Rightarrow> string" where
  "category_name ScHealth = ''health''"
| "category_name ScMinor = ''minor''"

datatype menu_decision = MdGranted | MdDeclined

fun decision_name :: "menu_decision \<Rightarrow> string" where
  "decision_name MdGranted = ''granted''"
| "decision_name MdDeclined = ''declined''"

fun decision_state :: "menu_decision \<Rightarrow> consent_state" where
  "decision_state MdGranted = CsGranted"
| "decision_state MdDeclined = CsDeclined"

definition consentMenuButtonId :: "sensitive_category \<Rightarrow> menu_decision \<Rightarrow> string" where
  "consentMenuButtonId c d = category_name c @ '':'' @ decision_name d"

definition category_of :: "string \<Rightarrow> sensitive_category option" where
  "category_of s =
     (if s = ''health'' then Some ScHealth else if s = ''minor'' then Some ScMinor else None)"

definition decision_of :: "string \<Rightarrow> menu_decision option" where
  "decision_of s =
     (if s = ''granted'' then Some MdGranted else if s = ''declined'' then Some MdDeclined
      else None)"

definition parseConsentMenuId :: "string option \<Rightarrow> (sensitive_category \<times> menu_decision) option" where
  "parseConsentMenuId i =
     (case i of
        None \<Rightarrow> None
      | Some s \<Rightarrow>
          if s = [] then None
          else (case split_at (CHR '':'') s of
                  cat # d # _ \<Rightarrow>
                    (case (category_of cat, decision_of d) of
                       (Some c, Some x) \<Rightarrow> Some (c, x) | _ \<Rightarrow> None)
                | _ \<Rightarrow> None))"

section \<open>Asking, deciding, withdrawing\<close>

definition consentOf :: "hand_session \<Rightarrow> sensitive_category \<Rightarrow> consent_state option" where
  "consentOf s c = (case hs_consent s of None \<Rightarrow> None | Some m \<Rightarrow> jget m c)"

definition asksOf :: "hand_session \<Rightarrow> sensitive_category \<Rightarrow> nat" where
  "asksOf s c =
     (case hs_consentAskCount s of
        None \<Rightarrow> 0 | Some m \<Rightarrow> (case jget m c of None \<Rightarrow> 0 | Some n \<Rightarrow> n))"

definition setConsent :: "sensitive_category \<Rightarrow> consent_state \<Rightarrow> hand_session \<Rightarrow> hand_session" where
  "setConsent c v s =
     s\<lparr>hs_consent := Some (jset (case hs_consent s of None \<Rightarrow> [] | Some m \<Rightarrow> m) c v)\<rparr>"

definition setAsks :: "sensitive_category \<Rightarrow> nat \<Rightarrow> hand_session \<Rightarrow> hand_session" where
  "setAsks c n s =
     s\<lparr>hs_consentAskCount := Some (jset (case hs_consentAskCount s of None \<Rightarrow> [] | Some m \<Rightarrow> m) c n)\<rparr>"

definition decided :: "consent_state option \<Rightarrow> bool" where
  "decided v \<longleftrightarrow> v \<in> set [Some CsGranted, Some CsDeclined, Some CsWithdrawn]"

fun askLoop ::
    "ms \<Rightarrow> nat \<Rightarrow> jstext \<Rightarrow> sensitive_category list \<Rightarrow> hand_session \<Rightarrow>
     hand_session \<times> consent_item list \<times> sensitive_category list" where
  "askLoop now ver ev [] s = (s, [], [])"
| "askLoop now ver ev (c # cs) s =
     (if decided (consentOf s c) \<or> CONSENT_MAX_ASKS \<le> asksOf s c then askLoop now ver ev cs s
      else case askLoop now ver ev cs (setAsks c (asksOf s c + 1) (setConsent c CsAsked s)) of
             (s', items, toAsk) \<Rightarrow>
               (s', \<lparr>ci_category = c, ci_decision = CsAsked, ci_noticeVersion = ver,
                     ci_evidence = ev, ci_at = now\<rparr> # items, c # toAsk))"

definition noteSensitiveMentions ::
    "ms \<Rightarrow> sensitive_category list \<Rightarrow> nat \<Rightarrow> jstext \<Rightarrow> hand_session \<Rightarrow>
     hand_session \<times> hand_effect list \<times> sensitive_category list" where
  "noteSensitiveMentions now cats ver ev s =
     (case askLoop now ver ev cats s of
        (s', items, toAsk) \<Rightarrow>
          (s', if items = [] then [] else [EfConsents (hs_id s) items], toAsk))"

definition awaitingConsent :: "hand_session \<Rightarrow> sensitive_category \<Rightarrow> bool" where
  "awaitingConsent s c \<longleftrightarrow> consentOf s c = Some CsAsked"

definition applyConsentDecision ::
    "hand_env \<Rightarrow> sensitive_category \<Rightarrow> menu_decision \<Rightarrow> jstext \<Rightarrow> nat \<Rightarrow> hand_session \<Rightarrow>
     hand_session \<times> hand_effect list \<times> bool" where
  "applyConsentDecision env c d ev ver s =
     (let old = consentOf s c in
      if old = Some CsGranted \<or> old = Some CsWithdrawn \<or> old = Some (decision_state d)
      then (s, [], False)
      else let s1 = setConsent c (decision_state d) s;
               item = EfConsents (hs_id s)
                 [\<lparr>ci_category = c, ci_decision = decision_state d, ci_noticeVersion = ver,
                   ci_evidence = ev, ci_at = he_now env\<rparr>]
           in if d = MdDeclined
              then case enterHandoff env
                     \<lparr>hr_kind = HkConsent, hr_at = he_now env, hr_reason = REASON_CONSENT,
                      hr_quote = None, hr_departNote = None\<rparr> None None s1 of
                     (s2, effs) \<Rightarrow> (s2, item # effs, True)
              else (s1, [item], True))"

definition withdrawConsent ::
    "ms \<Rightarrow> jstext \<Rightarrow> nat \<Rightarrow> hand_session \<Rightarrow> hand_session \<times> hand_effect list \<times> nat" where
  "withdrawConsent now quote ver s =
     (let cats = filter (\<lambda>c. consentOf s c \<noteq> Some CsWithdrawn)
                   (jkeys (case hs_consent s of None \<Rightarrow> [] | Some m \<Rightarrow> m)) in
      if cats = [] then (s, [], 0)
      else (foldl (\<lambda>x c. setConsent c CsWithdrawn x) s cats,
            [EfConsents (hs_id s)
               (map (\<lambda>c. \<lparr>ci_category = c, ci_decision = CsWithdrawn, ci_noticeVersion = ver,
                          ci_evidence = quote, ci_at = now\<rparr>) cats)],
            length cats))"

text \<open>What a reset does to the hand-over: the counters, the log and the consent stay.\<close>

definition resetHandoff :: "string \<Rightarrow> hand_session \<Rightarrow> hand_session \<times> hand_effect list" where
  "resetHandoff firstStage s =
     (s\<lparr>hs_stage := firstStage, hs_messages := [], hs_orderIds := [], hs_handedOver := False,
        hs_stageBeforeHandoff := None, hs_handoff := None, hs_assignee := None\<rparr>,
      [EfJobs (hs_id s) (cancelHandoffNotifyOps (hs_id s))])"

section \<open>All handlers as events\<close>

datatype hand_event =
    HeEnter string handoff_record "string option" "bool option"
  | HeTakeover string actor bool
  | HeRelease string actor
  | HeReply string actor jstext string
  | HeDeliver string commit_wait bool bool bool
  | HeMention string "sensitive_category list" nat jstext
  | HeDecide string sensitive_category menu_decision jstext nat
  | HeWithdraw string jstext nat
  | HeReset string string

definition onSession ::
    "hand_world \<Rightarrow> string \<Rightarrow> (hand_session \<Rightarrow> hand_session \<times> hand_effect list) \<Rightarrow> hand_world" where
  "onSession w sid f =
     (case jget (hw_sessions w) sid of
        None \<Rightarrow> w
      | Some s \<Rightarrow> (case f s of (s', effs) \<Rightarrow> commitSession w s' effs))"

fun hand_step :: "hand_world \<Rightarrow> hand_env \<times> hand_event \<Rightarrow> hand_world" where
  "hand_step w (env, HeEnter sid rec prev asg) = onSession w sid (enterHandoff env rec prev asg)"
| "hand_step w (env, HeTakeover sid ac force) =
     (case takeover env w sid ac force of Inl _ \<Rightarrow> w | Inr (w', _) \<Rightarrow> w')"
| "hand_step w (env, HeRelease sid ac) = fst (release env w sid ac)"
| "hand_step w (env, HeReply sid ac text cid) = fst (replySync env w sid ac text cid)"
| "hand_step w (env, HeDeliver sid wait a b c) = fst (deliver env w sid wait a b c)"
| "hand_step w (env, HeMention sid cats ver ev) =
     onSession w sid (\<lambda>s. case noteSensitiveMentions (he_now env) cats ver ev s of
                            (s', effs, _) \<Rightarrow> (s', effs))"
| "hand_step w (env, HeDecide sid c d ev ver) =
     onSession w sid (\<lambda>s. case applyConsentDecision env c d ev ver s of (s', effs, _) \<Rightarrow> (s', effs))"
| "hand_step w (env, HeWithdraw sid q ver) =
     onSession w sid (\<lambda>s. case withdrawConsent (he_now env) q ver s of (s', effs, _) \<Rightarrow> (s', effs))"
| "hand_step w (env, HeReset sid st) = onSession w sid (resetHandoff st)"

section \<open>What each handler does to a conversation\<close>

definition log_length :: "hand_session \<Rightarrow> nat" where
  "log_length s = (case hs_handoffLog s of None \<Rightarrow> 0 | Some l \<Rightarrow> length l)"

text \<open>
  The record is there exactly while the conversation is handed over, somebody is assigned only
  then, the log is bounded, a handed-over conversation has been counted, and no category was asked
  more than twice.
\<close>

definition session_ok :: "hand_session \<Rightarrow> bool" where
  "session_ok s \<longleftrightarrow>
     (hs_handedOver s \<longleftrightarrow> hs_handoff s \<noteq> None) \<and>
     (hs_assignee s \<noteq> None \<longrightarrow> hs_handedOver s) \<and>
     log_length s \<le> HANDOFF_LOG_MAX \<and>
     (hs_handedOver s \<longrightarrow> hs_firstHandoffAt s \<noteq> None \<and> (\<exists>n. hs_handoffCount s = Some (Suc n))) \<and>
     (\<forall>c. asksOf s c \<le> CONSENT_MAX_ASKS)"

fun askedIn :: "string \<Rightarrow> sensitive_category \<Rightarrow> hand_effect \<Rightarrow> nat" where
  "askedIn sid c (EfConsents i items) =
     (if i = sid then length (filter (\<lambda>x. ci_category x = c \<and> ci_decision x = CsAsked) items) else 0)"
| "askedIn sid c _ = 0"

definition asked :: "string \<Rightarrow> sensitive_category \<Rightarrow> hand_effect list \<Rightarrow> nat" where
  "asked sid c effs = sum_list (map (askedIn sid c) effs)"

lemma asked_simps [simp]:
  "asked sid c [] = 0"
  "asked sid c (e # effs) = askedIn sid c e + asked sid c effs"
  "asked sid c (xs @ ys) = asked sid c xs + asked sid c ys"
  by (simp_all add: asked_def)

definition consent_kept :: "hand_session \<Rightarrow> hand_session \<Rightarrow> bool" where
  "consent_kept s s' \<longleftrightarrow>
     (\<forall>c. consentOf s c = Some CsWithdrawn \<longrightarrow> consentOf s' c = Some CsWithdrawn)"

definition good :: "hand_session \<Rightarrow> hand_session \<Rightarrow> hand_effect list \<Rightarrow> bool" where
  "good s s' effs \<longleftrightarrow>
     hs_id s' = hs_id s \<and> (session_ok s \<longrightarrow> session_ok s') \<and> consent_kept s s' \<and>
     (\<forall>c. asked (hs_id s) c effs + asksOf s c \<le> asksOf s' c) \<and>
     (\<forall>sid c. sid \<noteq> hs_id s \<longrightarrow> asked sid c effs = 0)"

text \<open>Handlers that leave consent and its counters alone are good as soon as they keep the rest.\<close>

lemma goodI_same:
  assumes "hs_id s' = hs_id s" "hs_consent s' = hs_consent s"
    "hs_consentAskCount s' = hs_consentAskCount s"
    "\<And>sid c. asked sid c effs = 0" "session_ok s \<Longrightarrow> session_ok s'"
  shows "good s s' effs"
  using assms by (simp add: good_def consent_kept_def consentOf_def asksOf_def)

lemma asks_frame [simp]:
  "asksOf (s\<lparr>hs_handedOver := a\<rparr>) c = asksOf s c"
  "asksOf (s\<lparr>hs_stage := st\<rparr>) c = asksOf s c"
  "asksOf (s\<lparr>hs_messages := m\<rparr>) c = asksOf s c"
  "asksOf (s\<lparr>hs_orderIds := oi\<rparr>) c = asksOf s c"
  "asksOf (s\<lparr>hs_assignee := ass\<rparr>) c = asksOf s c"
  "asksOf (s\<lparr>hs_handoff := h\<rparr>) c = asksOf s c"
  "asksOf (s\<lparr>hs_handoffLog := l\<rparr>) c = asksOf s c"
  "asksOf (s\<lparr>hs_stageBeforeHandoff := b\<rparr>) c = asksOf s c"
  "asksOf (s\<lparr>hs_firstHandoffAt := t\<rparr>) c = asksOf s c"
  "asksOf (s\<lparr>hs_handoffCount := n\<rparr>) c = asksOf s c"
  "asksOf (s\<lparr>hs_consent := v\<rparr>) c = asksOf s c"
  by (simp_all add: asksOf_def)

lemma enterStage_simps [simp]:
  "hs_id (enterStage env p s) = hs_id s" "hs_handedOver (enterStage env p s) = hs_handedOver s"
  "hs_assignee (enterStage env p s) = hs_assignee s" "hs_handoff (enterStage env p s) = hs_handoff s"
  "hs_handoffLog (enterStage env p s) = hs_handoffLog s"
  "hs_firstHandoffAt (enterStage env p s) = hs_firstHandoffAt s"
  "hs_handoffCount (enterStage env p s) = hs_handoffCount s"
  "hs_consent (enterStage env p s) = hs_consent s"
  "hs_consentAskCount (enterStage env p s) = hs_consentAskCount s"
  by (simp_all add: enterStage_def Let_def)

lemma appendLog_simps [simp]:
  "hs_id (appendHandoffLog env r s) = hs_id s"
  "hs_stage (appendHandoffLog env r s) = hs_stage s"
  "hs_handedOver (appendHandoffLog env r s) = hs_handedOver s"
  "hs_assignee (appendHandoffLog env r s) = hs_assignee s"
  "hs_handoff (appendHandoffLog env r s) = hs_handoff s"
  "hs_firstHandoffAt (appendHandoffLog env r s) = hs_firstHandoffAt s"
  "hs_handoffCount (appendHandoffLog env r s) = hs_handoffCount s"
  "hs_consent (appendHandoffLog env r s) = hs_consent s"
  "hs_consentAskCount (appendHandoffLog env r s) = hs_consentAskCount s"
  by (simp_all add: appendHandoffLog_def Let_def)

lemma appendLog_length: "log_length (appendHandoffLog env r s) \<le> HANDOFF_LOG_MAX"
  by (simp add: appendHandoffLog_def log_length_def Let_def HANDOFF_LOG_MAX_def)

lemma asksOf_cong: "hs_consentAskCount s' = hs_consentAskCount s \<Longrightarrow> asksOf s' c = asksOf s c"
  by (simp add: asksOf_def)

lemma addMsg_simps [simp]:
  "hs_id (addMsg m s) = hs_id s" "hs_handedOver (addMsg m s) = hs_handedOver s"
  "hs_assignee (addMsg m s) = hs_assignee s" "hs_handoff (addMsg m s) = hs_handoff s"
  "hs_consent (addMsg m s) = hs_consent s" "hs_consentAskCount (addMsg m s) = hs_consentAskCount s"
  "session_ok (addMsg m s) = session_ok s"
  by (simp_all add: addMsg_def session_ok_def log_length_def)

lemma good_enter:
  assumes "enterHandoff env rec prev asg s = (s', effs)"
  shows "good s s' effs"
proof -
  define e where "e = enterStage env (case prev of None \<Rightarrow> hs_stage s | Some p \<Rightarrow> p) s"
  have e: "hs_id e = hs_id s" "hs_handedOver e = hs_handedOver s" "hs_assignee e = hs_assignee s"
    "hs_handoff e = hs_handoff s" "hs_handoffLog e = hs_handoffLog s"
    "hs_firstHandoffAt e = hs_firstHandoffAt s" "hs_handoffCount e = hs_handoffCount s"
    "hs_consent e = hs_consent s" "hs_consentAskCount e = hs_consentAskCount s"
    by (simp_all add: e_def)
  have ok_e: "session_ok e = session_ok s"
    using e by (simp add: session_ok_def log_length_def asksOf_def)
  consider (first) "\<not> hs_handedOver s" | (esc) "hs_handedOver s" "hr_kind rec = HkEmergency"
      "map_option hr_kind (hs_handoff s) \<noteq> Some HkEmergency"
    | (cons) "hs_handedOver s" "hr_kind rec = HkConsent"
    | (none) "hs_handedOver s" "s' = e" "effs = []"
    using assms by (auto simp: enterHandoff_def Let_def e_def [symmetric] e split: if_splits)
  then show ?thesis
  proof cases
    case first
    define f where "f = e\<lparr>hs_handedOver := True, hs_assignee := None, hs_handoff := Some rec,
      hs_firstHandoffAt := (case hs_firstHandoffAt e of None \<Rightarrow> Some (hr_at rec) | Some t \<Rightarrow> Some t),
      hs_handoffCount := Some ((case hs_handoffCount e of None \<Rightarrow> 0 | Some n \<Rightarrow> n) + 1)\<rparr>"
    have s': "s' = appendHandoffLog env rec f"
      using assms first by (simp add: enterHandoff_def Let_def e_def [symmetric] e(2) f_def)
    have effs: "asked sid c effs = 0" for sid c
      using assms first by (auto simp: enterHandoff_def Let_def e_def [symmetric] e(2))
    have "asksOf s' c = asksOf s c" for c
      by (rule asksOf_cong) (simp add: s' f_def e)
    then have ok: "session_ok s'" if "session_ok s"
      using that appendLog_length [of env rec f]
      by (simp add: session_ok_def) (simp add: s' f_def split: option.split)
    show ?thesis
      by (rule goodI_same) (use ok effs in \<open>simp_all add: s' f_def e\<close>)
  next
    case esc
    have s': "s' = appendHandoffLog env rec (e\<lparr>hs_handoff := Some rec\<rparr>)"
      using assms esc by (simp add: enterHandoff_def Let_def e_def [symmetric] e)
    have effs: "asked sid c effs = 0" for sid c
      using assms esc by (auto simp: enterHandoff_def Let_def e_def [symmetric] e)
    have "asksOf s' c = asksOf s c" for c
      by (rule asksOf_cong) (simp add: s' e)
    then have ok: "session_ok s'" if "session_ok s"
      using that esc(1) appendLog_length [of env rec "e\<lparr>hs_handoff := Some rec\<rparr>"]
      by (simp add: session_ok_def) (simp add: s' e)
    show ?thesis
      by (rule goodI_same) (use ok effs in \<open>simp_all add: s' e\<close>)
  next
    case cons
    then have "s' = addMsg (systemMsg (consentRequestNote (hr_reason rec)) (hr_at rec)) e"
      and effs: "asked sid c effs = 0" for sid c
      using assms by (auto simp: enterHandoff_def Let_def e_def [symmetric] e)
    then show ?thesis by (intro goodI_same) (simp_all add: e ok_e)
  next
    case none
    then show ?thesis by (intro goodI_same) (simp_all add: e ok_e)
  qed
qed

lemma consentOf_set [simp]: "consentOf (setConsent c v s) c' = (if c' = c then Some v else consentOf s c')"
  by (simp add: consentOf_def setConsent_def split: option.split)

lemma asksOf_set [simp]: "asksOf (setAsks c n s) c' = (if c' = c then n else asksOf s c')"
  by (simp add: asksOf_def setAsks_def split: option.split)

lemma set_frame [simp]:
  "consentOf (setAsks c n s) c' = consentOf s c'" "asksOf (setConsent c v s) c' = asksOf s c'"
  "hs_id (setConsent c v s) = hs_id s" "hs_id (setAsks c n s) = hs_id s"
  "session_ok (setConsent c v s) = session_ok s"
  by (simp_all add: consentOf_def setAsks_def setConsent_def asksOf_def session_ok_def log_length_def)

lemma ok_setAsks: "session_ok s \<Longrightarrow> n \<le> CONSENT_MAX_ASKS \<Longrightarrow> session_ok (setAsks c n s)"
  unfolding session_ok_def asksOf_set by (auto simp add: setAsks_def log_length_def)

lemma good_askLoop:
  "askLoop now ver ev cs s = (s', items, toAsk) \<Longrightarrow>
   hs_id s' = hs_id s \<and> (session_ok s \<longrightarrow> session_ok s') \<and> consent_kept s s' \<and>
   (\<forall>c. length (filter (\<lambda>x. ci_category x = c \<and> ci_decision x = CsAsked) items) + asksOf s c
        = asksOf s' c) \<and> map ci_category items = toAsk"
proof (induction cs arbitrary: s s' items toAsk)
  case Nil
  then show ?case by (auto simp: consent_kept_def)
next
  case (Cons c cs)
  show ?case
  proof (cases "decided (consentOf s c) \<or> CONSENT_MAX_ASKS \<le> asksOf s c")
    case True
    then show ?thesis using Cons by simp
  next
    case False
    define m where "m = setAsks c (asksOf s c + 1) (setConsent c CsAsked s)"
    obtain items0 ask0 where rec: "askLoop now ver ev cs m = (s', items0, ask0)"
      and items: "items = \<lparr>ci_category = c, ci_decision = CsAsked, ci_noticeVersion = ver,
        ci_evidence = ev, ci_at = now\<rparr> # items0" "toAsk = c # ask0"
      using Cons.prems False by (auto simp: m_def split: prod.splits)
    note IH = Cons.IH [OF rec]
    have "session_ok m" if "session_ok s"
      using that False unfolding m_def by (intro ok_setAsks) simp_all
    moreover have "consentOf m c' = Some CsWithdrawn" if "consentOf s c' = Some CsWithdrawn" for c'
      using that False by (auto simp: m_def decided_def)
    moreover have "hs_id m = hs_id s" by (simp add: m_def)
    moreover have "length (filter (\<lambda>x. ci_category x = c' \<and> ci_decision x = CsAsked) items) + asksOf s c'
        = asksOf s' c'" for c'
      using IH [THEN conjunct2, THEN conjunct2, THEN conjunct2, THEN conjunct1, rule_format, of c']
      by (simp add: items m_def split: if_splits)
    ultimately show ?thesis using IH unfolding consent_kept_def by (simp add: items)
  qed
qed

lemma good_mention:
  assumes "noteSensitiveMentions now cats ver ev s = (s', effs, toAsk)"
  shows "good s s' effs"
proof -
  obtain items where l: "askLoop now ver ev cats s = (s', items, toAsk)"
    and effs: "effs = (if items = [] then [] else [EfConsents (hs_id s) items])"
    using assms by (auto simp: noteSensitiveMentions_def split: prod.splits)
  show ?thesis
    unfolding good_def using good_askLoop [OF l]
    by (cases "items = []") (simp_all add: effs eq_imp_le)
qed

lemma good_trans:
  assumes "good s m e1" "good m s' e2"
  shows "good s s' (e1 @ e2)"
proof -
  have i: "hs_id m = hs_id s" "hs_id s' = hs_id s" using assms by (simp_all add: good_def)
  have "asked (hs_id s) c (e1 @ e2) + asksOf s c \<le> asksOf s' c" for c
  proof -
    have "asked (hs_id s) c e1 + asksOf s c \<le> asksOf m c"
      "asked (hs_id s) c e2 + asksOf m c \<le> asksOf s' c"
      using assms i by (simp_all add: good_def)
    then show ?thesis by simp
  qed
  moreover have "asked sid c (e1 @ e2) = 0" if "sid \<noteq> hs_id s" for sid c
    using assms i that by (simp add: good_def)
  moreover have "session_ok s \<longrightarrow> session_ok s'" "consent_kept s s'"
    using assms by (simp_all add: good_def consent_kept_def)
  ultimately show ?thesis using i unfolding good_def by blast
qed

lemma good_decide:
  assumes "applyConsentDecision env c d ev ver s = (s', effs, hit)"
  shows "good s s' effs"
proof -
  define s1 where "s1 = setConsent c (decision_state d) s"
  define item where "item = EfConsents (hs_id s)
    [\<lparr>ci_category = c, ci_decision = decision_state d, ci_noticeVersion = ver, ci_evidence = ev,
      ci_at = he_now env\<rparr>]"
  let ?r = "\<lparr>hr_kind = HkConsent, hr_at = he_now env, hr_reason = REASON_CONSENT,
      hr_quote = None, hr_departNote = None\<rparr>"
  have ds: "decision_state d \<noteq> CsAsked" by (cases d) simp_all
  have set: "good s s1 [item]" if "consentOf s c \<noteq> Some CsWithdrawn"
    using that ds unfolding good_def consent_kept_def by (auto simp: s1_def item_def)
  consider (same) "s' = s" "effs = []"
    | (declined) effs' where "consentOf s c \<noteq> Some CsWithdrawn"
        "enterHandoff env ?r None None s1 = (s', effs')" "effs = item # effs'"
    | (granted) "consentOf s c \<noteq> Some CsWithdrawn" "s' = s1" "effs = [item]"
    using assms unfolding applyConsentDecision_def Let_def s1_def [symmetric] item_def [symmetric]
    by (auto split: if_splits prod.splits)
  then show ?thesis
  proof cases
    case same
    then show ?thesis by (intro goodI_same) simp_all
  next
    case declined
    then show ?thesis using good_trans [OF set good_enter] by simp
  next
    case granted
    then show ?thesis using set by simp
  qed
qed

lemma withdraw_fold:
  "hs_id (foldl (\<lambda>x c. setConsent c CsWithdrawn x) s cs) = hs_id s \<and>
   session_ok (foldl (\<lambda>x c. setConsent c CsWithdrawn x) s cs) = session_ok s \<and>
   asksOf (foldl (\<lambda>x c. setConsent c CsWithdrawn x) s cs) c' = asksOf s c' \<and>
   consentOf (foldl (\<lambda>x c. setConsent c CsWithdrawn x) s cs) c' =
     (if c' \<in> set cs then Some CsWithdrawn else consentOf s c')"
  by (induction cs arbitrary: s) auto

lemma good_withdraw:
  assumes "withdrawConsent now q ver s = (s', effs, n)"
  shows "good s s' effs"
proof -
  have "filter (\<lambda>x. ci_category x = c \<and> ci_decision x = CsAsked)
      (map (\<lambda>c. \<lparr>ci_category = c, ci_decision = CsWithdrawn, ci_noticeVersion = ver,
         ci_evidence = q, ci_at = now\<rparr>) cs) = []" for c cs
    by (induction cs) simp_all
  then show ?thesis
    using assms unfolding withdrawConsent_def Let_def good_def consent_kept_def
    by (auto simp: withdraw_fold split: if_splits)
qed

lemma good_reset: "resetHandoff st s = (s', effs) \<Longrightarrow> good s s' effs"
  by (rule goodI_same) (auto simp: resetHandoff_def session_ok_def log_length_def)

section \<open>The machine's invariant\<close>

text \<open>
  For a list \<open>W\<close> of conversations and categories that were withdrawn: every conversation is well
  formed, the asks recorded for it are within its counter, and the withdrawn stay withdrawn.
\<close>

definition withdrawn_in :: "hand_world \<Rightarrow> string \<times> sensitive_category \<Rightarrow> bool" where
  "withdrawn_in w sc =
     (case jget (hw_sessions w) (fst sc) of
        None \<Rightarrow> False | Some s \<Rightarrow> consentOf s (snd sc) = Some CsWithdrawn)"

definition world_ok :: "(string \<times> sensitive_category) list \<Rightarrow> hand_world \<Rightarrow> bool" where
  "world_ok W w \<longleftrightarrow>
     list_all (withdrawn_in w) W \<and>
     (\<forall>sid s. jget (hw_sessions w) sid = Some s \<longrightarrow>
        hs_id s = sid \<and> session_ok s \<and> (\<forall>c. asked sid c (hw_out w) \<le> asksOf s c)) \<and>
     (\<forall>sid c. jget (hw_sessions w) sid = None \<longrightarrow> asked sid c (hw_out w) = 0)"

lemma world_ok_commit:
  assumes "world_ok W w" "jget (hw_sessions w) sid = Some s" "good s s' effs"
  shows "world_ok W (commitSession w s' effs)"
proof -
  have s: "hs_id s = sid" "session_ok s" "asked sid c (hw_out w) \<le> asksOf s c" for c
    using assms(1,2) unfolding world_ok_def by blast+
  have s': "hs_id s' = sid" "session_ok s'" "asked sid c effs + asksOf s c \<le> asksOf s' c"
    "sid' \<noteq> sid \<Longrightarrow> asked sid' c effs = 0" for c sid'
    using assms(3) s unfolding good_def by blast+
  show ?thesis
    unfolding world_ok_def
  proof (intro conjI allI impI)
    have "withdrawn_in (commitSession w s' effs) sc" if "withdrawn_in w sc" for sc
      using that assms(2,3) s'(1) unfolding good_def consent_kept_def
      by (cases sc) (auto simp: withdrawn_in_def commitSession_def split: option.splits)
    then show "list_all (withdrawn_in (commitSession w s' effs)) W"
      using assms(1) by (simp add: world_ok_def list_all_iff)
  next
    fix i x assume "jget (hw_sessions (commitSession w s' effs)) i = Some x"
    then have x: "if i = sid then x = s' else jget (hw_sessions w) i = Some x"
      by (simp add: commitSession_def s' split: if_splits)
    show "hs_id x = i" using x s' assms(1) unfolding world_ok_def by (metis (full_types))
    show "session_ok x" using x s' assms(1) unfolding world_ok_def by (metis (full_types))
    fix c
    show "asked i c (hw_out (commitSession w s' effs)) \<le> asksOf x c"
    proof (cases "i = sid")
      case True
      then show ?thesis using x s(3) [of c] s'(3) [of c] by (simp add: commitSession_def)
    next
      case False
      then have "asked i c (hw_out w) \<le> asksOf x c" using x assms(1) by (simp add: world_ok_def)
      then show ?thesis using s'(4) [OF False] by (simp add: commitSession_def)
    qed
  next
    fix i c assume "jget (hw_sessions (commitSession w s' effs)) i = None"
    then have "i \<noteq> sid" "jget (hw_sessions w) i = None"
      by (simp_all add: commitSession_def s' split: if_splits)
    then show "asked i c (hw_out (commitSession w s' effs)) = 0"
      using assms(1) s'(4) by (simp add: commitSession_def world_ok_def)
  qed
qed

lemma world_ok_frame [simp]:
  "world_ok W (w\<lparr>hw_gens := g\<rparr>) = world_ok W w" "world_ok W (w\<lparr>hw_recent := r\<rparr>) = world_ok W w"
  "world_ok W (w\<lparr>hw_nextReply := n\<rparr>) = world_ok W w"
  by (simp_all add: world_ok_def withdrawn_in_def [abs_def])

lemma world_ok_onSession:
  assumes "world_ok W w" "\<And>s s' effs. f s = (s', effs) \<Longrightarrow> good s s' effs"
  shows "world_ok W (onSession w sid f)"
proof (cases "jget (hw_sessions w) sid")
  case None
  then show ?thesis using assms(1) by (simp add: onSession_def)
next
  case (Some s)
  then show ?thesis
    using world_ok_commit [OF assms(1) Some assms(2)] by (cases "f s") (simp add: onSession_def)
qed

lemma enter_handedOver:
  "enterHandoff env rec prev asg s = (s', effs) \<Longrightarrow> hs_handedOver s'"
  by (auto simp: enterHandoff_def Let_def split: if_splits)

lemma good_effs: "good s s' effs \<Longrightarrow> (\<And>sid c. asked sid c e = 0) \<Longrightarrow> good s s' (effs @ e)"
  by (simp add: good_def)

lemma good_enterForTakeover:
  assumes "enterForTakeover env ac s = (s1, effs)"
  shows "good s s1 effs \<and> hs_handedOver s1"
proof (cases "hs_handedOver s")
  case True
  then show ?thesis using assms by (auto simp: enterForTakeover_def intro: goodI_same)
next
  case False
  then obtain e0 ops where e: "enterHandoff env (takeoverRecord env ac) None (Some True) s = (s1, e0)"
    and effs: "effs = e0 @ [EfJobs (hs_id s) ops]"
    using assms by (auto simp: enterForTakeover_def split: prod.splits)
  have "good s s1 (e0 @ [EfJobs (hs_id s) ops])"
    by (rule good_effs [OF good_enter [OF e]]) simp
  then show ?thesis using enter_handedOver [OF e] effs by simp
qed

lemma takeover_shape:
  assumes "takeover env w sid ac force = Inr (w', r)"
  obtains (same) "w' = w" "\<not> tr_changed r"
    | (took) s s2 effs where "jget (hw_sessions w) sid = Some s" "tr_changed r"
        "hs_id s = sid \<Longrightarrow> good s s2 effs" "hs_handedOver s2"
        "hs_assignee s2 = Some \<lparr>as_userId = ac_userId ac, as_name = ac_name ac, as_at = he_now env\<rparr>"
        "w' = (commitSession w s2 effs)\<lparr>hw_gens := jset (hw_gens w) sid (takeoverGen w sid + 1)\<rparr>"
proof -
  obtain s where s: "jget (hw_sessions w) sid = Some s"
    using assms by (auto simp: takeover_def split: option.splits)
  obtain s1 e1 where e: "enterForTakeover env ac s = (s1, e1)" by (cases "enterForTakeover env ac s")
  let ?s2 = "s1\<lparr>hs_assignee := Some \<lparr>as_userId = ac_userId ac, as_name = ac_name ac, as_at = he_now env\<rparr>\<rparr>"
  have gen: "takeoverGen (commitSession w x y) sid = takeoverGen w sid"
    "hw_gens (commitSession w x y) = hw_gens w" for x y
    by (simp_all add: takeoverGen_def commitSession_def)
  consider "w' = w" "\<not> tr_changed r"
    | audit where "tr_changed r" "w' = (commitSession w ?s2 (e1 @ [EfAssigned sid (ac_name ac), audit, EfSave sid]))
        \<lparr>hw_gens := jset (hw_gens w) sid (takeoverGen w sid + 1)\<rparr>" "\<And>i c. askedIn i c audit = 0"
    using assms by (auto simp: takeover_def s Let_def e gen split: if_splits option.splits)
  then show thesis
  proof cases
    case 1
    then show thesis by (rule same)
  next
    case 2
    have g: "good s s1 e1" "hs_handedOver s1" using good_enterForTakeover [OF e] by simp_all
    have "good s1 ?s2 [EfAssigned sid (ac_name ac), audit, EfSave sid]"
      by (rule goodI_same) (use g(2) 2(3) in \<open>simp_all add: session_ok_def log_length_def\<close>)
    then have "good s ?s2 (e1 @ [EfAssigned sid (ac_name ac), audit, EfSave sid])"
      by (rule good_trans [OF g(1)])
    then show thesis using took [OF s 2(1) _ _ _ 2(2)] g(2) by simp
  qed
qed

lemma world_ok_takeover:
  assumes "world_ok W w" "takeover env w sid ac force = Inr (w', r)"
  shows "world_ok W w'"
  using assms(2)
proof (cases rule: takeover_shape)
  case same
  then show ?thesis using assms(1) by simp
next
  case (took s s2 effs)
  then have "hs_id s = sid" using assms(1) by (simp add: world_ok_def)
  then show ?thesis using world_ok_commit [OF assms(1) took(1) took(3)] took(6) by simp
qed

lemma restoreStage_shape:
  "restoreStage env s = Some s' \<Longrightarrow>
   s' = s \<or> (\<exists>st. s' = s\<lparr>hs_stage := st, hs_stageBeforeHandoff := None\<rparr>)"
  unfolding restoreStage_def Let_def
  by (cases "terminalStageKey env") (simp_all split: if_split_asm, blast+)

lemma restoreStage_keeps:
  assumes "restoreStage env s = Some s'"
  shows "hs_id s' = hs_id s \<and> hs_consent s' = hs_consent s \<and>
    hs_consentAskCount s' = hs_consentAskCount s \<and> session_ok s' = session_ok s"
proof -
  from restoreStage_shape [OF assms] show ?thesis
    by (elim disjE exE) (simp_all add: session_ok_def log_length_def)
qed

lemma session_ok_clear:
  "session_ok s \<Longrightarrow> session_ok (s\<lparr>hs_handedOver := False, hs_handoff := None, hs_assignee := None\<rparr>)"
  by (simp add: session_ok_def log_length_def)

lemma world_ok_release:
  assumes "world_ok W w"
  shows "world_ok W (fst (release env w sid ac))"
proof (cases "jget (hw_sessions w) sid")
  case None
  then show ?thesis using assms by (simp add: release_def)
next
  case (Some s)
  let ?s1 = "s\<lparr>hs_handedOver := False, hs_handoff := None, hs_assignee := None\<rparr>"
  have bad: "good s ?s1 []" by (rule goodI_same) (simp_all add: session_ok_clear)
  have fine: "good s (addMsg m s2) [EfReleased sid, EfReleaseAudit sid ac, EfSave sid]"
    if "restoreStage env ?s1 = Some s2" for s2 m
    using restoreStage_keeps [OF that] by (intro goodI_same) (simp_all add: session_ok_clear)
  have "world_ok W (commitSession w ?s1 [])" by (rule world_ok_commit [OF assms Some bad])
  moreover have "world_ok W (commitSession w (addMsg m s2) [EfReleased sid, EfReleaseAudit sid ac, EfSave sid])"
    if "restoreStage env ?s1 = Some s2" for s2 m
    by (rule world_ok_commit [OF assms Some fine [OF that]])
  ultimately show ?thesis
    using assms by (auto simp: release_def Some Let_def split: option.split)
qed

lemma world_ok_reply:
  assumes "world_ok W w"
  shows "world_ok W (fst (replySync env w sid ac text cid))"
proof -
  define w1 where "w1 = w\<lparr>hw_recent := pruneRecent (hw_recent w) (he_now env)\<rparr>"
  have w1: "world_ok W w1" using assms by (simp add: w1_def)
  have add: "world_ok W (commitSession v (addMsg m x) [EfSave sid])"
    if "world_ok W v" "jget (hw_sessions v) sid = Some x" for v x m
    by (rule world_ok_commit [OF that]) (rule goodI_same, simp_all)
  show ?thesis
    using w1 add world_ok_takeover
    by (auto simp: replySync_def Let_def w1_def [symmetric] split: option.splits sum.splits prod.splits
        if_splits)
qed

lemma world_ok_deliver:
  assumes "world_ok W w"
  shows "world_ok W (fst (deliver env w sid wait a b c))"
proof -
  have "world_ok W (deliverNote env w sid t)" for t
  proof (cases "jget (hw_sessions w) sid")
    case (Some s)
    have "world_ok W (commitSession w (addMsg m s) [EfSave sid])" for m
      by (rule world_ok_commit [OF assms Some]) (rule goodI_same, simp_all)
    then show ?thesis by (simp add: deliverNote_def Some)
  qed (simp add: deliverNote_def assms)
  then show ?thesis using assms by (simp add: deliver_def)
qed

lemma world_ok_step: "world_ok W w \<Longrightarrow> world_ok W (hand_step w e)"
proof (induction w e rule: hand_step.induct)
  case (1 w env sid rec prev asg)
  then show ?case using world_ok_onSession good_enter by simp
next
  case (2 w env sid ac force)
  then show ?case using world_ok_takeover by (auto split: sum.split)
next
  case (3 w env sid ac)
  then show ?case using world_ok_release by simp
next
  case (4 w env sid ac body cid)
  then show ?case using world_ok_reply by simp
next
  case (5 w env sid wait a b c)
  then show ?case using world_ok_deliver by simp
next
  case (6 w env sid cats ver ev)
  then show ?case unfolding hand_step.simps
    by (intro world_ok_onSession) (auto split: prod.splits dest: good_mention)
next
  case (7 w env sid c d ev ver)
  then show ?case unfolding hand_step.simps
    by (intro world_ok_onSession) (auto split: prod.splits dest: good_decide)
next
  case (8 w env sid q ver)
  then show ?case unfolding hand_step.simps
    by (intro world_ok_onSession) (auto split: prod.splits dest: good_withdraw)
next
  case (9 w env sid st)
  then show ?case using world_ok_onSession good_reset by simp
qed

interpretation hand: machine hand_step "world_ok W" for W
  by unfold_locales (rule world_ok_step)

lemma world_ok_session:
  "world_ok W w \<Longrightarrow> jget (hw_sessions w) sid = Some s \<Longrightarrow> hs_id s = sid \<and> session_ok s"
  by (simp add: world_ok_def)

lemma world_ok_asked:
  assumes "world_ok W w"
  shows "asked sid c (hw_out w) \<le> CONSENT_MAX_ASKS"
proof (cases "jget (hw_sessions w) sid")
  case None
  then show ?thesis using assms by (simp add: world_ok_def)
next
  case (Some s)
  then have "asked sid c (hw_out w) \<le> asksOf s c" "asksOf s c \<le> CONSENT_MAX_ASKS"
    using assms by (simp_all add: world_ok_def session_ok_def)
  then show ?thesis by simp
qed

interpretation asks: bounded_machine hand_step "world_ok []" "\<lambda>w. int (asked sid c (hw_out w))"
    "int CONSENT_MAX_ASKS" for sid c
  by unfold_locales (simp add: world_ok_asked)

section \<open>A process to try the handlers on\<close>

definition plain_session :: hand_session where
  "plain_session =
     \<lparr>hs_id = ''s'', hs_wecom = False, hs_stage = ''quote'', hs_messages = [], hs_orderIds = [],
      hs_handedOver = False, hs_assignee = None, hs_handoff = None, hs_stageBeforeHandoff = None,
      hs_firstHandoffAt = None, hs_handoffCount = None, hs_handoffLog = None, hs_consent = None,
      hs_consentAskCount = None\<rparr>"

definition plain_world :: "hand_session \<Rightarrow> hand_world" where
  "plain_world s = \<lparr>hw_sessions = [(hs_id s, s)], hw_gens = [], hw_recent = [], hw_nextReply = 0,
                    hw_out = []\<rparr>"

definition plain_env :: hand_env where
  "plain_env =
     \<lparr>he_now = 100, he_terminalStages = [''paid''], he_stageOnReturn = (\<lambda>_. None),
      he_turnId = (\<lambda>_. None), he_windowClosesAt = (\<lambda>_. None), he_orderStatus = (\<lambda>_. None),
      he_lagging = (\<lambda>_. False), he_replyVerdict = (\<lambda>_. ReplyWindowClosed None [])\<rparr>"

definition agent_a :: actor where
  "agent_a = \<lparr>ac_userId = Some ''a'', ac_name = [65], ac_role = RoleAgent, ac_ip = None\<rparr>"

definition agent_b :: actor where
  "agent_b = \<lparr>ac_userId = Some ''b'', ac_name = [66], ac_role = RoleAgent, ac_ip = None\<rparr>"

lemmas plain_defs = plain_session_def plain_world_def plain_env_def agent_a_def agent_b_def

lemma plain_ok: "session_ok s \<Longrightarrow> list_all (withdrawn_in (plain_world s)) W \<Longrightarrow> world_ok W (plain_world s)"
  by (auto simp: world_ok_def plain_world_def split: if_splits)

lemma plain_session_ok: "session_ok plain_session"
  by (simp add: session_ok_def plain_session_def log_length_def asksOf_def)

section \<open>Properties\<close>

text \<open>
  C39: Under every sequence of hand-overs, take-overs, replies, deliveries, consent events, returns
  and resets a conversation has a hand-over record exactly while it is handed over, an assignee
  only then, and at most fifty entries in its hand-over log.
\<close>

theorem handoff_consistent:
  assumes "world_ok [] w" and "jget (hw_sessions (foldl hand_step w es)) sid = Some s"
  shows "(hs_handedOver s \<longleftrightarrow> hs_handoff s \<noteq> None) \<and> (hs_assignee s \<noteq> None \<longrightarrow> hs_handedOver s) \<and>
         (case hs_handoffLog s of None \<Rightarrow> True | Some l \<Rightarrow> length l \<le> 50)"
  using world_ok_session [OF hand.run_inv [OF assms(1)] assms(2)]
  by (auto simp: session_ok_def log_length_def HANDOFF_LOG_MAX_def split: option.splits)

lemma handoff_consistent_witness:
  "\<exists>s. jget (hw_sessions (foldl hand_step (plain_world plain_session)
          [(plain_env, HeTakeover ''s'' agent_a False)])) ''s'' = Some s \<and>
       hs_handedOver s \<and> hs_handoff s \<noteq> None"
proof -
  let ?w = "foldl hand_step (plain_world plain_session) [(plain_env, HeTakeover ''s'' agent_a False)]"
  have w: "world_ok [] (plain_world plain_session)" by (simp add: plain_ok plain_session_ok)
  obtain s where s: "jget (hw_sessions ?w) ''s'' = Some s" and h: "hs_handedOver s"
    by (simp add: plain_defs takeover_def handlesConversations_def HANDLERS_def assigneeOf_def Let_def
        enterForTakeover_def enterHandoff_def enterStage_def isTerminalStage_def
        appendHandoffLog_def commitSession_def)
  show ?thesis using handoff_consistent [OF w s] s h by blast
qed

text \<open>
  A conversation is asked for consent to one category of sensitive information at most twice,
  however often the customer mentions it and whatever happens in between.
\<close>

theorem consent_asked_at_most_twice:
  assumes "world_ok [] w"
  shows "asked sid c (hw_out (foldl hand_step w es)) \<le> 2"
  using asks.run_load [OF assms, of sid c es] by (simp add: CONSENT_MAX_ASKS_def)

lemma consent_asked_at_most_twice_witness:
  "asked ''s'' ScHealth (hw_out (foldl hand_step (plain_world plain_session)
      (replicate 5 (plain_env, HeMention ''s'' [ScHealth] 1 [])))) \<le> 2"
  by (rule consent_asked_at_most_twice) (simp add: plain_ok plain_session_ok)

lemma consentDeclinedI: "consentOf s c = Some CsWithdrawn \<Longrightarrow> consentDeclined s"
proof -
  assume "consentOf s c = Some CsWithdrawn"
  then obtain m where "hs_consent s = Some m" "(c, CsWithdrawn) \<in> set m"
    by (auto simp: consentOf_def jget_map_of dest: map_of_SomeD split: option.splits)
  then show ?thesis by (auto simp: consentDeclined_def list_ex_iff intro!: bexI [of _ "(c, CsWithdrawn)"])
qed

text \<open>Only a release or a reset ends a hand-over; the other handlers keep it.\<close>

definition handed :: "string \<Rightarrow> hand_world \<Rightarrow> bool" where
  "handed sid w \<longleftrightarrow> (case jget (hw_sessions w) sid of None \<Rightarrow> False | Some s \<Rightarrow> hs_handedOver s)"

definition notReset :: "string \<Rightarrow> hand_event \<Rightarrow> bool" where
  "notReset sid ev \<longleftrightarrow> (case ev of HeReset i st \<Rightarrow> i \<noteq> sid | _ \<Rightarrow> True)"

lemma handed_frame [simp]:
  "handed sid (w\<lparr>hw_gens := g\<rparr>) = handed sid w" "handed sid (w\<lparr>hw_recent := r\<rparr>) = handed sid w"
  "handed sid (w\<lparr>hw_nextReply := n\<rparr>) = handed sid w"
  by (simp_all add: handed_def)

lemma handed_commit:
  "handed sid w \<Longrightarrow> (hs_id s' = sid \<Longrightarrow> hs_handedOver s') \<Longrightarrow> handed sid (commitSession w s' effs)"
  by (simp add: handed_def commitSession_def)

lemma handed_session:
  "world_ok W w \<Longrightarrow> handed sid w \<Longrightarrow> jget (hw_sessions w) i = Some s \<Longrightarrow> hs_id s = sid \<Longrightarrow> hs_handedOver s"
  using world_ok_session [of W w i s] by (auto simp: handed_def)

lemma handed_onSession:
  assumes "world_ok W w" "handed sid w"
    and "\<And>s s' effs. f s = (s', effs) \<Longrightarrow> good s s' effs"
    and "\<And>s s' effs. f s = (s', effs) \<Longrightarrow> hs_handedOver s \<Longrightarrow> hs_handedOver s'"
  shows "handed sid (onSession w i f)"
proof (cases "jget (hw_sessions w) i")
  case (Some s)
  obtain s' effs where f: "f s = (s', effs)" by (cases "f s")
  have "hs_handedOver s'" if "hs_id s' = sid"
    using handed_session [OF assms(1,2) Some] assms(3,4) [OF f] that by (simp add: good_def)
  then show ?thesis using handed_commit [OF assms(2)] by (simp add: onSession_def Some f)
qed (simp add: onSession_def assms(2))

lemma setConsent_handed [simp]:
  "hs_handedOver (setConsent c v s) = hs_handedOver s" "hs_handedOver (setAsks c n s) = hs_handedOver s"
  by (simp_all add: setConsent_def setAsks_def)

lemma askLoop_handed:
  "askLoop now ver ev cs s = (s', items, toAsk) \<Longrightarrow> hs_handedOver s' = hs_handedOver s \<and> hs_id s' = hs_id s"
  by (induction now ver ev cs s arbitrary: s' items toAsk rule: askLoop.induct) (auto split: if_splits prod.splits)

lemma fold_withdraw_handed: "hs_handedOver (foldl (\<lambda>x c. setConsent c v x) s cs) = hs_handedOver s"
  by (induction cs arbitrary: s) simp_all

lemma handed_takeover:
  assumes "world_ok W w" "handed sid w" "takeover env w i ac force = Inr (w', r)"
  shows "handed sid w'"
  using assms(3)
proof (cases rule: takeover_shape)
  case (took s s2 effs)
  then show ?thesis using handed_commit [OF assms(2)] by simp
qed (simp add: assms(2))

text \<open>A person's reply is a take-over and a message.\<close>

lemma reply_keeps:
  assumes P: "P w" and frame: "\<And>v r n. P v \<Longrightarrow> P (v\<lparr>hw_recent := r\<rparr>) \<and> P (v\<lparr>hw_recent := r, hw_nextReply := n\<rparr>)"
    and take: "\<And>v v' r. P v \<Longrightarrow> takeover env v i ac False = Inr (v', r) \<Longrightarrow> P v'"
    and add: "\<And>v x m. P v \<Longrightarrow> jget (hw_sessions v) i = Some x \<Longrightarrow> P (commitSession v (addMsg m x) [EfSave i])"
  shows "P (fst (replySync env w i ac text cid))"
proof -
  define w1 where "w1 = w\<lparr>hw_recent := pruneRecent (hw_recent w) (he_now env)\<rparr>"
  have w1: "P w1" unfolding w1_def using frame [OF P] by blast
  show ?thesis
    using w1 take [OF w1] frame [OF add]
    by (auto simp: replySync_def Let_def w1_def [symmetric] split: option.splits sum.splits prod.splits if_splits)
qed

lemma handed_reply:
  assumes "world_ok W w" "handed sid w"
  shows "handed sid (fst (replySync env w i ac text cid))"
proof -
  have "(\<lambda>v. world_ok W v \<and> handed sid v) (fst (replySync env w i ac text cid))"
  proof (rule reply_keeps)
    show "world_ok W v' \<and> handed sid v'"
      if "world_ok W v \<and> handed sid v" "takeover env v i ac False = Inr (v', r)" for v v' r
      using that world_ok_takeover handed_takeover by blast
    show "world_ok W (commitSession v (addMsg m x) [EfSave i]) \<and> handed sid (commitSession v (addMsg m x) [EfSave i])"
      if v: "world_ok W v \<and> handed sid v" and x: "jget (hw_sessions v) i = Some x" for v x m
    proof
      show "world_ok W (commitSession v (addMsg m x) [EfSave i])"
        by (rule world_ok_commit [OF conjunct1 [OF v] x]) (rule goodI_same, simp_all)
      show "handed sid (commitSession v (addMsg m x) [EfSave i])"
        using v handed_session [of W v sid i x] x by (intro handed_commit) simp_all
    qed
  qed (use assms in simp_all)
  then show ?thesis by simp
qed

lemma handed_release:
  assumes "world_ok W w" "handed sid w" "\<And>s. jget (hw_sessions w) sid = Some s \<Longrightarrow> consentDeclined s"
  shows "handed sid (fst (release env w i ac))"
proof (cases "jget (hw_sessions w) i")
  case (Some s)
  have id: "hs_id s = i" using world_ok_session [OF assms(1) Some] by simp
  show ?thesis
  proof (cases "i = sid")
    case True
    then show ?thesis using assms(2,3) Some by (auto simp: release_def)
  next
    case False
    let ?s1 = "s\<lparr>hs_handedOver := False, hs_handoff := None, hs_assignee := None\<rparr>"
    have "handed sid (commitSession w ?s1 [])" using id False by (intro handed_commit assms(2)) simp
    moreover have "handed sid (commitSession w (addMsg m s2) e)" if "restoreStage env ?s1 = Some s2" for s2 m e
      using restoreStage_keeps [OF that] id False by (intro handed_commit assms(2)) simp
    ultimately show ?thesis
      using assms(2) by (auto simp: release_def Some Let_def split: option.split)
  qed
qed (simp add: release_def assms(2))

lemma handed_deliver:
  assumes "world_ok W w" "handed sid w"
  shows "handed sid (fst (deliver env w i wait a b c))"
proof -
  have "handed sid (deliverNote env w i t)" for t
  proof (cases "jget (hw_sessions w) i")
    case (Some s)
    have "handed sid (commitSession w (addMsg m s) [EfSave i])" for m
      using handed_session [OF assms Some] by (intro handed_commit assms(2)) simp
    then show ?thesis by (simp add: deliverNote_def Some)
  qed (simp add: deliverNote_def assms)
  then show ?thesis using assms(2) by (simp add: deliver_def)
qed

lemma withdrawn_declined:
  assumes "world_ok [(sid, c)] w" "jget (hw_sessions w) sid = Some s"
  shows "consentDeclined s"
  using assms by (intro consentDeclinedI [of s c]) (simp add: world_ok_def withdrawn_in_def)

definition keptByPeople :: "string \<Rightarrow> sensitive_category \<Rightarrow> hand_world \<Rightarrow> bool" where
  "keptByPeople sid c w \<longleftrightarrow> world_ok [(sid, c)] w \<and> handed sid w"

lemma handed_step:
  assumes "world_ok [(sid, c)] w" "handed sid w" "notReset sid ev"
  shows "handed sid (hand_step w (env, ev))"
proof (cases ev)
  case (HeReset i st)
  then have i: "i \<noteq> sid" using assms(3) by (simp add: notReset_def)
  show ?thesis
  proof (cases "jget (hw_sessions w) i")
    case (Some s)
    then have "hs_id s \<noteq> sid" using world_ok_session [OF assms(1) Some] i by simp
    then show ?thesis using Some
      by (auto simp: HeReset onSession_def resetHandoff_def intro: handed_commit [OF assms(2)])
  qed (simp add: HeReset onSession_def assms(2))
next
  case (HeEnter i rec prev asg)
  then show ?thesis
    using handed_onSession [OF assms(1,2) good_enter enter_handedOver] by simp
next
  case (HeTakeover i ac force)
  then show ?thesis using assms(2) handed_takeover [OF assms(1,2)] by (auto split: sum.split)
next
  case (HeRelease i ac)
  then show ?thesis using handed_release [OF assms(1,2) withdrawn_declined [OF assms(1)]] by simp
next
  case (HeReply i ac t cid)
  then show ?thesis using handed_reply [OF assms(1,2)] by simp
next
  case (HeDeliver i wait a b d)
  then show ?thesis using handed_deliver [OF assms(1,2)] by simp
next
  case (HeMention i cats ver ev')
  then show ?thesis unfolding HeMention hand_step.simps
    by (intro handed_onSession [OF assms(1,2)])
      (auto split: prod.splits dest: good_mention,
       auto simp: noteSensitiveMentions_def split: prod.splits dest: askLoop_handed)
next
  case (HeDecide i d md ev' ver)
  then show ?thesis unfolding HeDecide hand_step.simps
    by (intro handed_onSession [OF assms(1,2)])
      (auto split: prod.splits intro: good_decide,
       auto simp: applyConsentDecision_def Let_def split: prod.splits if_splits dest: enter_handedOver)
next
  case (HeWithdraw i q ver)
  then show ?thesis unfolding HeWithdraw hand_step.simps
    by (intro handed_onSession [OF assms(1,2)])
      (auto split: prod.splits intro: good_withdraw,
       auto simp: withdrawConsent_def Let_def fold_withdraw_handed split: prod.splits if_splits)
qed

interpretation withdrawn: guarded_machine hand_step "\<lambda>p. notReset sid (snd p)" "keptByPeople sid c" for sid c
proof
  fix w and p :: "hand_env \<times> hand_event"
  assume "keptByPeople sid c w" "notReset sid (snd p)"
  then show "keptByPeople sid c (hand_step w p)"
    using world_ok_step [of "[(sid, c)]" w p] handed_step [of sid c w "snd p" "fst p"]
    by (simp add: keptByPeople_def)
qed

text \<open>
  C40: Once a withdrawal of consent is recorded for a conversation (a category that was asked), the
  record survives every event, and while the conversation is handed over every attempt to give it back
  to the AI is refused and changes nothing. A conversation that was handed over then stays with people
  through any events but one: the customer starting over (\<open>HeReset\<close>), which ends the hand-over itself
  and keeps the record, so that a later hand-over cannot be given back either. A withdrawal before any
  category was asked records nothing and is not covered.
\<close>

theorem withdrawn_never_released:
  assumes "world_ok [(sid, c)] w" and "handed sid w" and "\<forall>p \<in> set es. notReset sid (snd p)"
  shows "handed sid (foldl hand_step w es) \<and>
    (\<forall>es' env ac. handed sid (foldl hand_step w es') \<longrightarrow>
       (\<exists>e. release env (foldl hand_step w es') sid ac = (foldl hand_step w es', Some e)))"
proof -
  have "keptByPeople sid c (foldl hand_step w es)"
    using assms by (intro withdrawn.run_ok) (auto simp: keptByPeople_def)
  moreover have "\<exists>e. release env (foldl hand_step w es') sid ac = (foldl hand_step w es', Some e)"
    if h: "handed sid (foldl hand_step w es')" for es' env ac
  proof -
    obtain s where s: "jget (hw_sessions (foldl hand_step w es')) sid = Some s" "hs_handedOver s"
      using h by (auto simp: handed_def split: option.splits)
    have "consentDeclined s" by (rule withdrawn_declined [OF hand.run_inv [OF assms(1)] s(1)])
    then show ?thesis using s by (simp add: release_def)
  qed
  ultimately show ?thesis by (simp add: keptByPeople_def)
qed

definition withdrawn_ex :: hand_world where
  "withdrawn_ex = hand_step (plain_world (plain_session\<lparr>hs_consent := Some [(ScMinor, CsWithdrawn)]\<rparr>))
     (plain_env, HeTakeover ''s'' agent_a False)"

lemma withdrawn_never_released_witness:
  "handed ''s'' (foldl hand_step withdrawn_ex
      [(plain_env, HeRelease ''s'' agent_a), (plain_env, HeDecide ''s'' ScMinor MdGranted [] 1)]) \<and>
   (\<exists>e. release plain_env withdrawn_ex ''s'' agent_a = (withdrawn_ex, Some e))"
proof -
  let ?s = "plain_session\<lparr>hs_consent := Some [(ScMinor, CsWithdrawn)]\<rparr>"
  let ?es = "[(plain_env, HeRelease ''s'' agent_a), (plain_env, HeDecide ''s'' ScMinor MdGranted [] 1)]"
  have "world_ok [(''s'', ScMinor)] (plain_world ?s)"
    by (rule plain_ok) (simp_all add: session_ok_def plain_session_def log_length_def asksOf_def
        withdrawn_in_def plain_world_def consentOf_def)
  then have w: "world_ok [(''s'', ScMinor)] withdrawn_ex" unfolding withdrawn_ex_def by (rule world_ok_step)
  have h: "handed ''s'' withdrawn_ex"
    by (simp add: withdrawn_ex_def handed_def plain_defs takeover_def handlesConversations_def HANDLERS_def
        assigneeOf_def Let_def enterForTakeover_def enterHandoff_def enterStage_def isTerminalStage_def
        appendHandoffLog_def commitSession_def)
  have es: "\<forall>p \<in> set ?es. notReset ''s'' (snd p)" by (simp add: notReset_def)
  have none: "\<forall>p \<in> set ([] :: (hand_env \<times> hand_event) list). notReset ''s'' (snd p)" by simp
  have 1: "handed ''s'' (foldl hand_step withdrawn_ex ?es)"
    using withdrawn_never_released [OF w h es] by blast
  have "\<exists>e. release plain_env (foldl hand_step withdrawn_ex []) ''s'' agent_a = (foldl hand_step withdrawn_ex [], Some e)"
    using withdrawn_never_released [OF w h none, THEN conjunct2, rule_format, of "[]"] h by simp
  then show ?thesis using 1 by simp
qed

text \<open>The id put on a consent menu's button is read back as the same category and decision.\<close>

lemma consent_menu_roundtrip:
  "parseConsentMenuId (Some (consentMenuButtonId c d)) = Some (c, d)"
  by (cases c; cases d)
    (simp_all add: parseConsentMenuId_def consentMenuButtonId_def category_of_def decision_of_def)

end
