(* ===== verification/Takeover.thy ===== *)
theory Takeover
  imports Consent
begin

text \<open>
  What people working on the same conversation can rely on: one of two take-overs wins, giving back
  undoes taking over, a refused reply changes nothing and a repeated one is not sent twice.
\<close>

section \<open>One assignee\<close>

lemma took_session:
  assumes "world_ok W w" "takeover env w sid a force = Inr (w1, r)" "tr_changed r"
  obtains s1 where "jget (hw_sessions w1) sid = Some s1" "hs_handedOver s1"
    "hs_assignee s1 = Some \<lparr>as_userId = ac_userId a, as_name = ac_name a, as_at = he_now env\<rparr>"
    "hw_gens w1 = jset (hw_gens w) sid (takeoverGen w sid + 1)"
    "hw_recent w1 = hw_recent w"
  using assms(2)
proof (cases rule: takeover_shape)
  case same
  then show thesis using assms(3) by simp
next
  case (took s s2 effs)
  have "hs_id s = sid" using world_ok_session [OF assms(1) took(1)] by simp
  then have "hs_id s2 = sid" using took(3) by (simp add: good_def)
  then show thesis using that [of s2] took by (simp add: commitSession_def)
qed

text \<open>
  C37: After one person who may handle conversations took a conversation over, another such person is
  refused with that person's name when taking over without force, and when replying (a client id that
  was already answered gets its stored answer instead), and nothing changes. A forced take-over is
  refused to whoever may not supervise; a supervisor's succeeds, says from whom it took the
  conversation, and raises its generation by exactly one, as the first take-over did. The same person
  taking over again, forced or not, changes nothing.
\<close>

theorem takeover_exclusive:
  assumes "world_ok [] w" and "takeover env w sid a force = Inr (w1, r)" and "tr_changed r"
    and "ac_userId b \<noteq> ac_userId a" and "handlesConversations (ac_role b)"
    and "handlesConversations (ac_role a)"
  shows "takeover env2 w1 sid b False = Inl (AssignedToOther (ac_name a)) \<and>
         (if supervisesConversations (ac_role b)
          then \<exists>w2. takeover env2 w1 sid b True = Inr (w2, \<lparr>tr_changed = True, tr_reassignedFrom = Some (ac_name a)\<rparr>) \<and>
                 takeoverGen w2 sid = takeoverGen w1 sid + 1
          else takeover env2 w1 sid b True = Inl Forbidden) \<and>
         (jget (pruneRecent (hw_recent w1) (he_now env2)) (sid, cid) = None \<longrightarrow>
            snd (replySync env2 w1 sid b t cid) = Inl (AssignedToOther (ac_name a))) \<and>
         takeover env2 w1 sid a force2 = Inr (w1, \<lparr>tr_changed = False, tr_reassignedFrom = None\<rparr>) \<and>
         takeoverGen w1 sid = takeoverGen w sid + 1"
proof -
  obtain s1 where s1: "jget (hw_sessions w1) sid = Some s1" "hs_handedOver s1"
    "hs_assignee s1 = Some \<lparr>as_userId = ac_userId a, as_name = ac_name a, as_at = he_now env\<rparr>"
    "hw_gens w1 = jset (hw_gens w) sid (takeoverGen w sid + 1)"
    using took_session [OF assms(1-3)] by metis
  have cur: "assigneeOf s1 = Some \<lparr>as_userId = ac_userId a, as_name = ac_name a, as_at = he_now env\<rparr>"
    by (simp add: assigneeOf_def s1)
  have other: "\<not> isMine \<lparr>as_userId = ac_userId a, as_name = ac_name a, as_at = he_now env\<rparr> b"
    using assms(4) by (cases "ac_userId b"; cases "ac_userId a") (simp_all add: isMine_def)
  have own: "isMine \<lparr>as_userId = ac_userId a, as_name = ac_name a, as_at = he_now env\<rparr> a"
    by (simp add: isMine_def split: option.split)
  obtain s2 effs where e: "enterForTakeover env2 b s1 = (s2, effs)" by fastforce
  have "if supervisesConversations (ac_role b)
        then \<exists>w2. takeover env2 w1 sid b True = Inr (w2, \<lparr>tr_changed = True, tr_reassignedFrom = Some (ac_name a)\<rparr>) \<and>
               takeoverGen w2 sid = takeoverGen w1 sid + 1
        else takeover env2 w1 sid b True = Inl Forbidden"
    using assms(5) s1(1) cur other e by (simp add: takeover_def Let_def takeoverGen_def)
  then show ?thesis
    using assms(5,6) s1 cur other own
    by (simp add: takeover_def replySync_def Let_def takeoverGen_def del: split_paired_All split: option.split)
qed

lemma takeover_exclusive_witness:
  "\<exists>w1 r. takeover plain_env (plain_world plain_session) ''s'' agent_a False = Inr (w1, r) \<and>
     takeover plain_env w1 ''s'' agent_b False = Inl (AssignedToOther [65])"
proof -
  let ?w = "plain_world plain_session"
  have w: "world_ok [] ?w" by (simp add: plain_ok plain_session_ok)
  obtain w1 r where t: "takeover plain_env ?w ''s'' agent_a False = Inr (w1, r)" "tr_changed r"
    by (simp add: plain_defs takeover_def handlesConversations_def HANDLERS_def assigneeOf_def
        Let_def enterForTakeover_def enterHandoff_def)
  have "takeover plain_env w1 ''s'' agent_b False = Inl (AssignedToOther (ac_name agent_a))"
    using takeover_exclusive [OF w t, of agent_b plain_env]
    by (simp add: agent_a_def agent_b_def handlesConversations_def HANDLERS_def)
  then show ?thesis using t by (simp add: agent_a_def)
qed

section \<open>Giving back undoes taking over\<close>

text \<open>
  Taking over a conversation the AI was handling and giving it back restores its stage (also a
  terminal one), leaves it unassigned and without a hand-over record, and only adds the note of the
  return; the count of hand-overs stays raised by one. This needs the customer not to have declined,
  a pack with a terminal stage, and no order paid in between.
\<close>

theorem takeover_release_restores:
  assumes "world_ok [] w" and "jget (hw_sessions w) sid = Some s" and "\<not> hs_handedOver s"
    and "handlesConversations (ac_role a)" and "\<not> consentDeclined s"
    and "hs_stage s \<noteq> ''handoff''" and "he_terminalStages env = he_terminalStages env2"
    and "he_terminalStages env2 \<noteq> []" and "\<not> hasPaidOrder env2 s"
  shows "\<exists>w1 w2 s2. takeover env w sid a False = Inr (w1, \<lparr>tr_changed = True, tr_reassignedFrom = None\<rparr>) \<and>
    release env2 w1 sid a = (w2, None) \<and> jget (hw_sessions w2) sid = Some s2 \<and>
    hs_stage s2 = hs_stage s \<and> \<not> hs_handedOver s2 \<and> hs_assignee s2 = None \<and> hs_handoff s2 = None \<and>
    hs_messages s2 = hs_messages s @ [systemMsg (releaseNote (ac_name a)) (he_now env2)] \<and>
    hs_handoffCount s2 = Some ((case hs_handoffCount s of None \<Rightarrow> 0 | Some n \<Rightarrow> n) + 1)"
proof -
  have sid: "hs_id s = sid" using world_ok_session [OF assms(1,2)] by simp
  define e where "e = enterStage env (hs_stage s) s"
  have e: "hs_stageBeforeHandoff e = Some (hs_stage s)" "hs_messages e = hs_messages s"
    "hs_orderIds e = hs_orderIds s"
    "hs_stage e = (if isTerminalStage env (hs_stage s) then hs_stage s else ''handoff'')"
    using assms(6) by (simp_all add: e_def enterStage_def Let_def)
  have e': "hs_id e = hs_id s" "hs_handedOver e = hs_handedOver s" "hs_consent e = hs_consent s"
    "hs_handoffCount e = hs_handoffCount s" by (simp_all add: e_def)
  define f where "f = appendHandoffLog env (takeoverRecord env a)
    (e\<lparr>hs_handedOver := True, hs_assignee := None, hs_handoff := Some (takeoverRecord env a),
       hs_firstHandoffAt := (case hs_firstHandoffAt e of None \<Rightarrow> Some (hr_at (takeoverRecord env a))
          | Some t \<Rightarrow> Some t),
       hs_handoffCount := Some ((case hs_handoffCount e of None \<Rightarrow> 0 | Some n \<Rightarrow> n) + 1)\<rparr>)"
  have f: "hs_stageBeforeHandoff f = Some (hs_stage s)" "hs_messages f = hs_messages s"
    "hs_orderIds f = hs_orderIds s" "hs_stage f = hs_stage e" "hs_id f = sid" "hs_handedOver f"
    "hs_consent f = hs_consent s"
    "hs_handoffCount f = Some ((case hs_handoffCount s of None \<Rightarrow> 0 | Some n \<Rightarrow> n) + 1)"
    using e e' sid by (simp_all add: f_def appendHandoffLog_def Let_def)
  obtain effs where ent: "enterForTakeover env a s = (f, effs)"
    using assms(3) by (simp add: enterForTakeover_def enterHandoff_def Let_def e_def [symmetric] e' f_def
        split: prod.split)
  define g where "g = f\<lparr>hs_assignee := Some \<lparr>as_userId = ac_userId a, as_name = ac_name a,
      as_at = he_now env\<rparr>\<rparr>"
  have g: "hs_id g = sid" "hs_handedOver g" "consentDeclined g = consentDeclined s"
    "hs_assignee g = Some \<lparr>as_userId = ac_userId a, as_name = ac_name a, as_at = he_now env\<rparr>"
    by (simp_all add: g_def f consentDeclined_def)
  have cur: "assigneeOf s = None" using assms(3) by (simp add: assigneeOf_def)
  obtain w1 where t: "takeover env w sid a False = Inr (w1, \<lparr>tr_changed = True, tr_reassignedFrom = None\<rparr>)"
      and w1: "jget (hw_sessions w1) sid = Some g"
    using assms(2,4) by (simp add: takeover_def cur Let_def ent g_def [symmetric] commitSession_def g f(5))
  have own: "isMine \<lparr>as_userId = ac_userId a, as_name = ac_name a, as_at = he_now env\<rparr> a"
    by (simp add: isMine_def split: option.split)
  define h where "h = g\<lparr>hs_handedOver := False, hs_handoff := None, hs_assignee := None\<rparr>"
  have h: "hs_stage h = hs_stage e" "hs_orderIds h = hs_orderIds s" "hs_messages h = hs_messages s"
    "hs_stageBeforeHandoff h = Some (hs_stage s)" "hs_id h = sid" "\<not> hs_handedOver h"
    "hs_assignee h = None" "hs_handoff h = None"
    "hs_handoffCount h = Some ((case hs_handoffCount s of None \<Rightarrow> 0 | Some n \<Rightarrow> n) + 1)"
    by (simp_all add: h_def g_def f)
  have paid: "\<not> hasPaidOrder env2 h" using assms(9) by (simp add: hasPaidOrder_def h)
  obtain key rest where key: "he_terminalStages env2 = key # rest"
    using assms(8) by (cases "he_terminalStages env2") auto
  obtain k where k: "restoreStage env2 h = Some k" "hs_stage k = hs_stage s" "hs_id k = sid"
    "\<not> hs_handedOver k" "hs_assignee k = None" "hs_handoff k = None"
    "hs_messages k = hs_messages s" "hs_handoffCount k = hs_handoffCount h"
    using h e(4) paid assms(6)
    by (cases "isTerminalStage env (hs_stage s)")
      (simp_all add: restoreStage_def terminalStageKey_def key Let_def)
  have "release env2 w1 sid a =
      (commitSession w1 (addMsg (systemMsg (releaseNote (ac_name a)) (he_now env2)) k)
        [EfReleased sid, EfReleaseAudit sid a, EfSave sid], None)"
    using assms(4,5) by (simp add: release_def w1 g own Let_def h_def [symmetric] k(1))
  then show ?thesis
    using t k h(9) by (simp add: commitSession_def addMsg_def)
qed

lemma takeover_release_restores_witness:
  "\<exists>w1 w2 s2. takeover plain_env (plain_world plain_session) ''s'' agent_a False =
      Inr (w1, \<lparr>tr_changed = True, tr_reassignedFrom = None\<rparr>) \<and>
    release plain_env w1 ''s'' agent_a = (w2, None) \<and> jget (hw_sessions w2) ''s'' = Some s2 \<and>
    hs_stage s2 = ''quote''"
proof -
  have w: "world_ok [] (plain_world plain_session)" by (simp add: plain_ok plain_session_ok)
  have j: "jget (hw_sessions (plain_world plain_session)) ''s'' = Some plain_session"
    by (simp add: plain_world_def plain_session_def)
  have q: "hs_stage plain_session = ''quote''" by (simp add: plain_session_def)
  show ?thesis
    using takeover_release_restores [OF w j, of agent_a plain_env plain_env] q
    by (fastforce simp: plain_session_def agent_a_def plain_env_def handlesConversations_def
        HANDLERS_def consentDeclined_def hasPaidOrder_def)
qed

section \<open>Replies\<close>

lemma takeover_Inr_session:
  assumes "world_ok W w" "takeover env w sid a force = Inr (w1, r)"
  shows "jget (hw_sessions w1) sid \<noteq> None"
  using assms(2)
proof (cases rule: takeover_shape)
  case same
  then show ?thesis using assms(2) by (auto simp: takeover_def split: option.splits)
next
  case (took s s2 effs)
  have "hs_id s2 = sid" using took(3) world_ok_session [OF assms(1) took(1)] by (simp add: good_def)
  then show ?thesis using took by (simp add: commitSession_def)
qed

text \<open>
  A reply that is refused, for whatever reason, leaves every conversation, generation, queued
  effect and running delivery as they were; only expired cache entries are dropped.
\<close>

theorem refused_reply_changes_nothing:
  assumes "world_ok [] w" and "replySync env w sid a t cid = (w1, Inl e)"
  shows "w1 = w\<lparr>hw_recent := pruneRecent (hw_recent w) (he_now env)\<rparr>"
proof -
  define v where "v = w\<lparr>hw_recent := pruneRecent (hw_recent w) (he_now env)\<rparr>"
  have v: "world_ok [] v" using assms(1) by (simp add: v_def)
  have "jget (hw_sessions x) sid \<noteq> None" if "takeover env v sid a False = Inr (x, r)" for x r
    using takeover_Inr_session [OF v that] .
  then have "w1 = v"
    using assms(2) unfolding replySync_def Let_def v_def [symmetric]
    by (auto split: option.splits sum.splits prod.splits if_splits)
  then show ?thesis by (simp add: v_def)
qed

lemma refused_reply_changes_nothing_witness:
  "replySync plain_env (plain_world plain_session) ''s'' agent_a [32, 0] ''c'' =
     (plain_world plain_session, Inl EmptyReply)"
proof -
  let ?w = "plain_world plain_session"
  have w: "world_ok [] ?w" by (simp add: plain_ok plain_session_ok)
  have "snd (replySync plain_env ?w ''s'' agent_a [32, 0] ''c'') = Inl EmptyReply"
    by (simp add: replySync_def plain_defs pruneRecent_def handlesConversations_def HANDLERS_def
        assigneeOf_def trim_def js_space_def cleanText_def Let_def)
  then obtain w1 where e: "replySync plain_env ?w ''s'' agent_a [32, 0] ''c'' = (w1, Inl EmptyReply)"
    by (metis prod.collapse)
  then show ?thesis
    using refused_reply_changes_nothing [OF w e] by (simp add: plain_world_def pruneRecent_def)
qed

lemma young_kept:
  "jget m k = Some (t, p) \<Longrightarrow> now - t < CLIENT_ID_TTL_MS \<Longrightarrow> jget (pruneRecent m now) k = Some (t, p)"
  unfolding pruneRecent_def by (induction m k rule: jget.induct) (auto split: if_splits)

text \<open>
  Sending the same client id again within ten minutes, with whatever text, starts nothing: the
  answer is the first delivery's, and conversations, generations and effects stay as they are.
\<close>

theorem repeated_reply_is_cached:
  assumes "replySync env w sid a t cid = (w1, Inr (ReplyStarted p m held))"
    and "he_now env2 - he_now env < CLIENT_ID_TTL_MS"
  shows "replySync env2 w1 sid b t2 cid =
     (w1\<lparr>hw_recent := pruneRecent (hw_recent w1) (he_now env2)\<rparr>, Inr (ReplyCached p))"
proof -
  have "jget (hw_recent w1) (sid, cid) = Some (he_now env, p)"
    using assms(1) unfolding replySync_def Let_def
    by (auto split: option.splits sum.splits prod.splits if_splits)
  from young_kept [OF this assms(2)] show ?thesis by (simp add: replySync_def Let_def)
qed

lemma repeated_reply_is_cached_witness:
  "\<exists>w1 p m h. replySync plain_env (plain_world plain_session) ''s'' agent_a [72, 105] ''c'' =
      (w1, Inr (ReplyStarted p m h)) \<and>
    snd (replySync plain_env w1 ''s'' agent_a [72, 105] ''c'') = Inr (ReplyCached p)"
proof -
  let ?w = "plain_world plain_session"
  have clean: "trim [72, 105] = [72, 105]" "cleanText [72, 105] None = [72, 105]"
    "cleanText [72, 105] (Some 2000) = [72, 105]"
    by (simp_all add: trim_def js_space_def cleanText_def isHigh_def isLow_def)
  have w: "?w\<lparr>hw_recent := pruneRecent (hw_recent ?w) (he_now plain_env)\<rparr> = ?w"
    by (simp add: plain_world_def pruneRecent_def)
  have s: "jget (hw_sessions ?w) ''s'' = Some plain_session" "jget (hw_recent ?w) k = None" for k
    by (simp_all add: plain_world_def plain_session_def)
  have free: "assigneeOf plain_session = None" "channelGate plain_env plain_session = None"
    "handlesConversations (ac_role agent_a)" "\<not> he_lagging plain_env ''s''"
    by (simp_all add: assigneeOf_def channelGate_def plain_defs handlesConversations_def HANDLERS_def)
  have ok: "world_ok [] ?w" by (simp add: plain_ok plain_session_ok)
  obtain v r where t: "takeover plain_env ?w ''s'' agent_a False = Inr (v, r)"
    using s(1) free
    by (cases "enterForTakeover plain_env agent_a plain_session") (simp add: takeover_def Let_def)
  obtain x where x: "jget (hw_sessions v) ''s'' = Some x"
    using takeover_Inr_session [OF ok t] by blast
  obtain w1 p m h where e: "replySync plain_env ?w ''s'' agent_a [72, 105] ''c'' =
      (w1, Inr (ReplyStarted p m h))"
    unfolding replySync_def Let_def w using s free clean t x by simp
  have "snd (replySync plain_env w1 ''s'' agent_a [72, 105] ''c'') = Inr (ReplyCached p)"
    using repeated_reply_is_cached [OF e, of plain_env agent_a "[72, 105]"]
    by (simp add: CLIENT_ID_TTL_MS_def)
  then show ?thesis using e by blast
qed

end
