(* ===== verification/Orders.thy ===== *)
theory Orders
  imports Handoff
begin

text \<open>
  Orders: the two kinds of order (\<open>src/types.ts\<close> \<open>Order\<close>, \<open>src/core/order-view.ts\<close>
  \<open>LineOrder\<close>), the state of a quote and its deadline, the refund a paid trip is entitled to
  (\<open>src/core/refund.ts\<close>), and the store's operations on orders (\<open>src/store.ts\<close>). An order is one
  record: the fields both kinds share, and a body with the fields of its kind. The pack's hooks,
  the published policy, the catalogue and the payment mode are in an environment.
\<close>

section \<open>Types\<close>

type_synonym person = "string option \<times> jstext"

datatype refund_approval = RaAuto | RaPending | RaApproved | RaRejected

datatype refund_settlement = RsMock | RsAdvisor

record refund_decision =
  rd_at :: ms
  rd_by :: person
  rd_reason :: "jstext option"

record refund_settled =
  rs_at :: ms
  rs_by :: "person option"

record refund_record =
  rf_id :: string
  rf_requestedAt :: ms
  rf_daysBefore :: int
  rf_tierId :: string
  rf_percent :: int
  rf_amount :: int
  rf_policyHash :: string
  rf_approval :: refund_approval
  rf_settlement :: refund_settlement
  rf_decision :: "refund_decision option"
  rf_settled :: "refund_settled option"

record order_line =
  ol_kind :: string
  ol_code :: string
  ol_version :: "int option"
  ol_title :: jstext
  ol_qty :: int
  ol_unit :: jstext
  ol_unitPriceFen :: int
  ol_amountFen :: int
  ol_attrs :: "(string \<times> jstext) list option"

datatype approval_state = QsPending | QsApproved | QsRejected | QsWithdrawn

record quote_approval =
  qa_state :: approval_state
  qa_requestedAt :: ms
  qa_acceptedAt :: "ms option"
  qa_auto :: bool
  qa_decidedAt :: "ms option"
  qa_validUntil :: "ms option"
  qa_notes :: "jstext list option"
  qa_decidedBy :: "person option"
  qa_reason :: "jstext option"

record trip_body =
  tb_routeId :: string
  tb_routeTitle :: jstext
  tb_travelers :: int
  tb_departDate :: string
  tb_totalPrice :: int
  tb_refund :: "refund_record option"
  tb_catalogVersion :: "int option"

record line_body =
  lb_lines :: "order_line list"
  lb_totalFen :: int
  lb_approval :: "quote_approval option"

datatype order_body = TripBody trip_body | LineBody line_body

record order =
  od_id :: string
  od_sessionId :: string
  od_status :: order_status
  od_createdAt :: ms
  od_paidAt :: "ms option"
  od_supersededBy :: "string option"
  od_handoffBeforePaid :: "bool option"
  od_confirmedAt :: "ms option"
  od_confirmedBy :: "person option"
  od_paidMarkedBy :: "person option"
  od_cancelReason :: "jstext option"
  od_body :: order_body

definition isLineOrder :: "order \<Rightarrow> bool" where
  "isLineOrder od = (case od_body od of LineBody _ \<Rightarrow> True | TripBody _ \<Rightarrow> False)"

definition od_approval :: "order \<Rightarrow> quote_approval option" where
  "od_approval od = (case od_body od of LineBody l \<Rightarrow> lb_approval l | TripBody _ \<Rightarrow> None)"

definition od_refund :: "order \<Rightarrow> refund_record option" where
  "od_refund od = (case od_body od of TripBody t \<Rightarrow> tb_refund t | LineBody _ \<Rightarrow> None)"

definition od_lines :: "order \<Rightarrow> order_line list" where
  "od_lines od = (case od_body od of LineBody l \<Rightarrow> lb_lines l | TripBody _ \<Rightarrow> [])"

definition set_approval :: "quote_approval \<Rightarrow> order \<Rightarrow> order" where
  "set_approval a od =
     (case od_body od of LineBody l \<Rightarrow> od\<lparr>od_body := LineBody (l\<lparr>lb_approval := Some a\<rparr>)\<rparr>
      | TripBody _ \<Rightarrow> od)"

definition set_refund :: "refund_record \<Rightarrow> order \<Rightarrow> order" where
  "set_refund r od =
     (case od_body od of TripBody t \<Rightarrow> od\<lparr>od_body := TripBody (t\<lparr>tb_refund := Some r\<rparr>)\<rparr>
      | LineBody _ \<Rightarrow> od)"

definition orderTotalFen :: "order \<Rightarrow> int" where
  "orderTotalFen od =
     (case od_body od of LineBody l \<Rightarrow> lb_totalFen l | TripBody t \<Rightarrow> tb_totalPrice t * 100)"

section \<open>The environment of a call\<close>

text \<open>
  A pack's \<open>quotes\<close> hooks; \<open>qh_validDays\<close> gives no number when the pack's value is not an integer.
  A policy is opaque to this code.
\<close>

type_synonym policy = string

record quote_hooks =
  qh_validDays :: "policy \<Rightarrow> int option"
  qh_notes :: "order \<Rightarrow> policy \<Rightarrow> jstext list"
  qh_approval :: bool
  qh_autoApprovable :: "order \<Rightarrow> hand_session \<Rightarrow> bool"

record catalog_item =
  it_id :: string
  it_text :: "string \<Rightarrow> jstext"

datatype line_price =
    PriceOk "int option" jstext "(string \<times> jstext) list option"
  | PriceReject string

datatype quote_event = QeApproved | QeRejected | QeWithdrawn | QeSuperseded

datatype refund_notice = RnSettled | RnRejected

record order_env =
  oe_hand :: hand_env
  oe_seed :: "string \<Rightarrow> bool"
  oe_loadedPolicy :: "policy option"
  oe_filePolicy :: policy
  oe_quotes :: "quote_hooks option"
  oe_onQuoteDecided :: "hand_session \<Rightarrow> order \<Rightarrow> quote_event \<Rightarrow> string option"
  oe_rejectedText :: "order \<Rightarrow> jstext option"
  oe_withdrawnText :: "order \<Rightarrow> jstext option"
  oe_paidText :: "order \<Rightarrow> jstext"
  oe_refundText :: "order \<Rightarrow> refund_notice \<Rightarrow> jstext option"
  oe_paymentMode :: payment_mode
  oe_newId :: string
  oe_items :: "string \<Rightarrow> catalog_item list option"
  oe_titleKey :: "string \<Rightarrow> string"
  oe_version :: "string \<Rightarrow> string \<Rightarrow> int option"
  oe_priceLine :: "(catalog_item \<Rightarrow> int \<Rightarrow> string \<Rightarrow> hand_session \<Rightarrow> line_price) option"
  oe_maxQty :: "int option"

abbreviation oe_now :: "order_env \<Rightarrow> ms" where
  "oe_now env \<equiv> he_now (oe_hand env)"

abbreviation oe_lagging :: "order_env \<Rightarrow> string \<Rightarrow> bool" where
  "oe_lagging env \<equiv> he_lagging (oe_hand env)"

datatype quote_refusal =
  QrQuoteOrder | QrNotApproved | QrInvalid | QrSuperseded | QrPaid | QrAlreadyDecided

datatype order_refusal = OrStatus order_status | OrUnconfirmed

datatype order_error =
    OeForbidden
  | OeNotFound
  | OeNotHandling
  | OeQuoteState quote_refusal
  | OeOrderState order_refusal
  | OeLagging string
  | OeBadBody
  | OeNotApprovedYet
  | OeBadDays
  | OeNoPriceLine
  | OeBadMaxQty
  | OeBadMoney
  | OeNoTerminalStage
  | OeHand hand_error

section \<open>The state of a quote\<close>

definition truthy :: "string option \<Rightarrow> bool" where
  "truthy x = (case x of None \<Rightarrow> False | Some s \<Rightarrow> s \<noteq> [])"

datatype quote_state = SPending | SApproved | SExpired | SInvalid | SSuperseded | SPaid

definition DAY_MS :: int where
  "DAY_MS = 86400000"

definition SHANGHAI_OFFSET :: int where
  "SHANGHAI_OFFSET = 8 * 3600000"

definition quoteDeadline :: "ms \<Rightarrow> int option \<Rightarrow> order_error + ms" where
  "quoteDeadline decidedAt days =
     (case days of
        None \<Rightarrow> Inl OeBadDays
      | Some d \<Rightarrow>
          if \<not> is_safe_integer d \<or> d < 0 then Inl OeBadDays
          else Inr (((decidedAt + SHANGHAI_OFFSET) div DAY_MS + d + 1) * DAY_MS
                    - SHANGHAI_OFFSET - 1))"

definition currentQuotePolicy :: "order_env \<Rightarrow> policy" where
  "currentQuotePolicy env =
     (case oe_loadedPolicy env of Some p \<Rightarrow> p | None \<Rightarrow> oe_filePolicy env)"

text \<open>The notes hook sees the order with the approval about to be written.\<close>

definition snapshotQuoteApproval ::
    "order_env \<Rightarrow> order \<Rightarrow> quote_approval \<Rightarrow> order_error + quote_approval" where
  "snapshotQuoteApproval env od a =
     (case (oe_quotes env, qa_decidedAt a) of
        (Some quotes, Some decidedAt) \<Rightarrow>
          (let policy = currentQuotePolicy env in
           case quoteDeadline decidedAt (qh_validDays quotes policy) of
             Inl e \<Rightarrow> Inl e
           | Inr until \<Rightarrow>
               Inr (a\<lparr>qa_validUntil := Some until,
                      qa_notes := Some (qh_notes quotes (set_approval a od) policy)\<rparr>))
      | _ \<Rightarrow> Inl OeNotApprovedYet)"

definition quoteValidUntil :: "order_env \<Rightarrow> order \<Rightarrow> order_error + ms" where
  "quoteValidUntil env od =
     (case Option.bind (od_approval od) qa_validUntil of
        Some until \<Rightarrow> Inr until
      | None \<Rightarrow>
         (case (oe_quotes env, Option.bind (od_approval od) qa_decidedAt) of
            (Some quotes, Some decidedAt) \<Rightarrow>
              quoteDeadline decidedAt (qh_validDays quotes (currentQuotePolicy env))
          | _ \<Rightarrow> Inl OeNotApprovedYet))"

definition quoteState :: "order_env \<Rightarrow> order \<Rightarrow> ms \<Rightarrow> order_error + quote_state" where
  "quoteState env od now =
     (if od_status od = Superseded \<or> truthy (od_supersededBy od) then Inr SSuperseded
      else case od_approval od of
             None \<Rightarrow> Inr SInvalid
           | Some a \<Rightarrow>
               if od_status od = OrdCancelled \<or> qa_state a = QsRejected \<or> qa_state a = QsWithdrawn
               then Inr SInvalid
               else if qa_state a \<noteq> QsApproved then Inr SPending
               else if od_status od = Paid then Inr SPaid
               else (case quoteValidUntil env od of
                       Inl e \<Rightarrow> Inl e
                     | Inr until \<Rightarrow> Inr (if now \<le> until then SApproved else SExpired)))"

end
