(* ===== verification/OrderStore.thy ===== *)
theory OrderStore
  imports Orders "HOL-Library.Multiset"
begin

text \<open>
  The store's operations on orders (\<open>src/store.ts\<close>), creating an order of catalogue lines
  (\<open>createLineOrder\<close> of \<open>src/core/order-view.ts\<close>) and a trip order (the \<open>create_order\<close> tool of
  \<open>src/packs/travel/tools/index.ts\<close>), and the refund a paid trip is entitled to
  (\<open>src/core/refund.ts\<close>).
\<close>

section \<open>The state\<close>

text \<open>
  What an operation queues for the next save of the order's conversation, and what it sends. The
  conversations, and what is queued for them, are those of the hand-over model.
\<close>

datatype order_action =
    AcConfirm | AcCancel | AcMarkPaid | AcQuoteApprove | AcQuoteReject | AcQuoteWithdraw
  | AcRefundRequest | AcRefundApprove | AcRefundReject | AcRefundSettle

datatype order_effect =
    FxStored string
  | FxChanged string string order_status bool
  | FxVoided string
  | FxAudit string string order_action "actor option"
  | FxPush string jstext

record order_world =
  ow_orders :: "(string, order) jsmap"
  ow_hand :: hand_world
  ow_out :: "order_effect list"

definition getSession :: "order_world \<Rightarrow> string \<Rightarrow> hand_session option" where
  "getSession w sid = jget (hw_sessions (ow_hand w)) sid"

definition getAnyOrder :: "order_world \<Rightarrow> string \<Rightarrow> order option" where
  "getAnyOrder w i = jget (ow_orders w) i"

definition getOrder :: "order_world \<Rightarrow> string \<Rightarrow> order option" where
  "getOrder w i =
     (case getAnyOrder w i of None \<Rightarrow> None | Some od \<Rightarrow> if isLineOrder od then None else Some od)"

text \<open>Newest first; the sort is stable.\<close>

definition listAnyOrders :: "order_world \<Rightarrow> order list" where
  "listAnyOrders w = sort_key (\<lambda>od. - od_createdAt od) (map snd (ow_orders w))"

definition listOrders :: "order_world \<Rightarrow> order list" where
  "listOrders w = filter (\<lambda>od. \<not> isLineOrder od) (listAnyOrders w)"

definition fx :: "order_effect list \<Rightarrow> order_world \<Rightarrow> order_world" where
  "fx es w = w\<lparr>ow_out := ow_out w @ es\<rparr>"

text \<open>The save of a session, with what the caller queued for it before.\<close>

definition keepSession :: "hand_session \<Rightarrow> hand_effect list \<Rightarrow> order_world \<Rightarrow> order_world" where
  "keepSession s effs w = w\<lparr>ow_hand := commitSession (ow_hand w) s (effs @ [EfSave (hs_id s)])\<rparr>"

definition queueJobs :: "string \<Rightarrow> job_op list \<Rightarrow> order_world \<Rightarrow> order_world" where
  "queueJobs sid ops w =
     w\<lparr>ow_hand := (ow_hand w)\<lparr>hw_out := hw_out (ow_hand w) @ [EfJobs sid ops]\<rparr>\<rparr>"

definition emitOrder :: "order \<Rightarrow> order_effect" where
  "emitOrder od = FxChanged (od_sessionId od) (od_id od) (od_status od) (od_confirmedAt od \<noteq> None)"

text \<open>
  Orders are objects changed in place and then scheduled for the save: \<open>putOrder\<close> stands for the
  assignments, \<open>scheduleOrder\<close> and \<open>emitOrder\<close>. \<open>saveOrder\<close> does it only for an order of the map.
\<close>

definition putOrder :: "order \<Rightarrow> order_world \<Rightarrow> order_world" where
  "putOrder od w =
     fx [FxStored (od_id od), emitOrder od] (w\<lparr>ow_orders := jset (ow_orders w) (od_id od) od\<rparr>)"

definition saveOrder :: "order \<Rightarrow> order_world \<Rightarrow> order_world" where
  "saveOrder od w = (if getAnyOrder w (od_id od) = None then w else putOrder od w)"

section \<open>Operations\<close>

definition newOrder :: "order_env \<Rightarrow> string \<Rightarrow> order_body \<Rightarrow> order" where
  "newOrder env sid body =
     \<lparr>od_id = oe_newId env, od_sessionId = sid, od_status = PendingPayment,
      od_createdAt = oe_now env, od_paidAt = None, od_supersededBy = None,
      od_handoffBeforePaid = None, od_confirmedAt = None, od_confirmedBy = None,
      od_paidMarkedBy = None, od_cancelReason = None, od_body = body\<rparr>"

definition createOrder :: "order_env \<Rightarrow> string \<Rightarrow> trip_body \<Rightarrow> order_world \<Rightarrow> order_world \<times> order" where
  "createOrder env sid t w =
     (let od = newOrder env sid (TripBody t) in (putOrder od w, od))"

definition createStoredLineOrder ::
    "order_env \<Rightarrow> string \<Rightarrow> line_body \<Rightarrow> order_world \<Rightarrow> order_world \<times> order" where
  "createStoredLineOrder env sid l w =
     (let od = newOrder env sid (LineBody l) in (putOrder od w, od))"

definition payable :: "order \<Rightarrow> bool" where
  "payable od \<longleftrightarrow>
     od_status od = PendingPayment \<and>
     (\<not> isLineOrder od \<or> od_approval od = None \<or>
      map_option qa_state (od_approval od) = Some QsApproved)"

definition paidOrder :: "order_env \<Rightarrow> order_world \<Rightarrow> order \<Rightarrow> order" where
  "paidOrder env w od =
     od\<lparr>od_status := Paid, od_paidAt := Some (oe_now env),
        od_handoffBeforePaid := Some (case getSession w (od_sessionId od) of
            None \<Rightarrow> False | Some s \<Rightarrow> hs_firstHandoffAt s \<noteq> None \<or> hs_handedOver s)\<rparr>"

definition markOrderPaid :: "order_env \<Rightarrow> string \<Rightarrow> order_world \<Rightarrow> order_world \<times> order option" where
  "markOrderPaid env i w =
     (case getAnyOrder w i of
        None \<Rightarrow> (w, None)
      | Some od \<Rightarrow>
          if payable od
          then (putOrder (paidOrder env w od) w, Some (paidOrder env w od))
          else (w, Some od))"

definition supersededOrder :: "string \<Rightarrow> order \<Rightarrow> order" where
  "supersededOrder byId od = od\<lparr>od_status := Superseded, od_supersededBy := Some byId\<rparr>"

definition supersedeOrder :: "string \<Rightarrow> string \<Rightarrow> order_world \<Rightarrow> order_world \<times> bool" where
  "supersedeOrder i byId w =
     (case getAnyOrder w i of
        None \<Rightarrow> (w, False)
      | Some od \<Rightarrow>
          if od_status od \<noteq> PendingPayment then (w, False)
          else (putOrder (supersededOrder byId od) w, True))"

text \<open>With a database the orders of a real conversation are voided, not deleted, in the table.\<close>

definition deleteOrdersOfSession :: "string \<Rightarrow> order_world \<Rightarrow> order_world \<times> nat" where
  "deleteOrdersOfSession sid w =
     (let gone = filter (\<lambda>(_, od). od_sessionId od = sid) (ow_orders w)
      in (fx (map (\<lambda>(i, _). FxVoided i) gone)
            (w\<lparr>ow_orders := filter (\<lambda>(_, od). od_sessionId od \<noteq> sid) (ow_orders w)\<rparr>),
          length gone))"

section \<open>An order of catalogue lines\<close>

text \<open>A pick's quantity, and a price, that is not an integer is no number.\<close>

record line_pick =
  lp_kind :: string
  lp_code :: string
  lp_qty :: "int option"

datatype reject_reason =
  RjEmptyLines | RjKindUnknown | RjItemInactive | RjInvalidQty | RjPack string

record line_reject =
  lr_kind :: string
  lr_code :: string
  lr_reason :: reject_reason

definition money :: "int option \<Rightarrow> order_error + int" where
  "money v =
     (case v of
        None \<Rightarrow> Inl OeBadMoney
      | Some n \<Rightarrow> if \<not> is_safe_integer n \<or> n < 0 then Inl OeBadMoney else Inr n)"

record pricing =
  pg_lines :: "order_line list"
  pg_rejected :: "line_reject list"
  pg_total :: int

definition rejectLine :: "line_pick \<Rightarrow> reject_reason \<Rightarrow> pricing \<Rightarrow> pricing" where
  "rejectLine p r g =
     g\<lparr>pg_rejected := pg_rejected g @
         [\<lparr>lr_kind = lp_kind p, lr_code = lp_code p, lr_reason = r\<rparr>]\<rparr>"

definition addLine ::
    "order_env \<Rightarrow> line_pick \<Rightarrow> catalog_item \<Rightarrow> int \<Rightarrow> int option \<Rightarrow> jstext \<Rightarrow>
     (string \<times> jstext) list option \<Rightarrow> pricing \<Rightarrow> order_error + pricing" where
  "addLine env p item qty price unit attrs g =
     (case money price of
        Inl e \<Rightarrow> Inl e
      | Inr unitFen \<Rightarrow>
         (case money (Some (unitFen * qty)) of
            Inl e \<Rightarrow> Inl e
          | Inr amount \<Rightarrow>
             (case money (Some (pg_total g + amount)) of
                Inl e \<Rightarrow> Inl e
              | Inr sumFen \<Rightarrow>
                  Inr (g\<lparr>pg_total := sumFen,
                         pg_lines := pg_lines g @
                           [\<lparr>ol_kind = lp_kind p, ol_code = lp_code p,
                             ol_version = oe_version env (lp_kind p) (lp_code p),
                             ol_title = it_text item (oe_titleKey env (lp_kind p)),
                             ol_qty = qty, ol_unit = unit, ol_unitPriceFen = unitFen,
                             ol_amountFen = amount, ol_attrs = attrs\<rparr>]\<rparr>))))"

text \<open>One turn of the pricing loop; \<open>oe_items\<close> gives no list for a kind the pack does not have.\<close>

definition pricePick ::
    "order_env \<Rightarrow> (catalog_item \<Rightarrow> int \<Rightarrow> string \<Rightarrow> hand_session \<Rightarrow> line_price) \<Rightarrow> int \<Rightarrow>
     hand_session \<Rightarrow> line_pick \<Rightarrow> pricing \<Rightarrow> order_error + pricing" where
  "pricePick env priceLine maxQty s p g =
     (case oe_items env (lp_kind p) of
        None \<Rightarrow> Inr (rejectLine p RjKindUnknown g)
      | Some items \<Rightarrow>
         (case List.find (\<lambda>it. it_id it = lp_code p) items of
            None \<Rightarrow> Inr (rejectLine p RjItemInactive g)
          | Some item \<Rightarrow>
             (case lp_qty p of
                None \<Rightarrow> Inr (rejectLine p RjInvalidQty g)
              | Some qty \<Rightarrow>
                  if qty < 1 \<or> maxQty < qty then Inr (rejectLine p RjInvalidQty g)
                  else (case priceLine item qty (lp_kind p) s of
                          PriceReject r \<Rightarrow> Inr (rejectLine p (RjPack r) g)
                        | PriceOk price unit attrs \<Rightarrow>
                            addLine env p item qty price unit attrs g))))"

fun pricePicks ::
    "order_env \<Rightarrow> (catalog_item \<Rightarrow> int \<Rightarrow> string \<Rightarrow> hand_session \<Rightarrow> line_price) \<Rightarrow> int \<Rightarrow>
     hand_session \<Rightarrow> line_pick list \<Rightarrow> pricing \<Rightarrow> order_error + pricing" where
  "pricePicks env priceLine maxQty s [] g = Inr g"
| "pricePicks env priceLine maxQty s (p # ps) g =
     (case pricePick env priceLine maxQty s p g of
        Inl e \<Rightarrow> Inl e
      | Inr g' \<Rightarrow> pricePicks env priceLine maxQty s ps g')"


definition openLineOrders :: "order_world \<Rightarrow> string \<Rightarrow> bool \<Rightarrow> order list" where
  "openLineOrders w sid approval =
     filter (\<lambda>od. isLineOrder od \<and> od_sessionId od = sid \<and> od_status od = PendingPayment \<and>
                  (od_approval od \<noteq> None) = approval) (listAnyOrders w)"

text \<open>The code compares the sorted lists of the lines' JSON; equal exactly when these bags are.\<close>

definition lineKey :: "order_line \<Rightarrow> string \<times> string \<times> int \<times> int" where
  "lineKey l = (ol_kind l, ol_code l, ol_qty l, ol_unitPriceFen l)"

definition sameLines :: "order_line list \<Rightarrow> order_line list \<Rightarrow> bool" where
  "sameLines a b \<longleftrightarrow> mset (map lineKey a) = mset (map lineKey b)"

definition isApproved :: "order \<Rightarrow> bool" where
  "isApproved od \<longleftrightarrow> map_option qa_state (od_approval od) = Some QsApproved"

fun liveQuotes :: "order_env \<Rightarrow> order list \<Rightarrow> order_error + order list" where
  "liveQuotes env [] = Inr []"
| "liveQuotes env (od # ods) =
     (case quoteState env od (oe_now env) of
        Inl e \<Rightarrow> Inl e
      | Inr st \<Rightarrow>
         (case liveQuotes env ods of
            Inl e \<Rightarrow> Inl e
          | Inr r \<Rightarrow> Inr (if st = SPending \<or> st = SApproved then od # r else r)))"

definition reusableOrder ::
    "order_env \<Rightarrow> bool \<Rightarrow> order list \<Rightarrow> order_line list \<Rightarrow> order_error + order option" where
  "reusableOrder env approval open lines =
     (case (if approval then liveQuotes env open else Inr open) of
        Inl e \<Rightarrow> Inl e
      | Inr live \<Rightarrow>
          Inr (List.find (\<lambda>od. sameLines (od_lines od) lines)
                 (sort_key (\<lambda>od. if isApproved od then 0 else (1::nat)) live)))"

fun supersedeIf ::
    "(order \<Rightarrow> order_error + bool) \<Rightarrow> string \<Rightarrow> order list \<Rightarrow> order_world \<Rightarrow>
     order_world \<times> (order_error + unit)" where
  "supersedeIf cond byId [] w = (w, Inr ())"
| "supersedeIf cond byId (od # ods) w =
     (case cond od of
        Inl e \<Rightarrow> (w, Inl e)
      | Inr b \<Rightarrow>
          supersedeIf cond byId ods (if b then fst (supersedeOrder (od_id od) byId w) else w))"

definition isExpired :: "order_env \<Rightarrow> order \<Rightarrow> order_error + bool" where
  "isExpired env od = map_sum id (\<lambda>st. st = SExpired) (quoteState env od (oe_now env))"

definition replacedBy :: "order_env \<Rightarrow> bool \<Rightarrow> order \<Rightarrow> order \<Rightarrow> order_error + bool" where
  "replacedBy env approval new old =
     (if \<not> approval \<or> map_option qa_state (od_approval old) = Some QsPending then Inr True
      else case isExpired env old of
             Inl e \<Rightarrow> Inl e
           | Inr b \<Rightarrow> Inr (b \<or> isApproved new))"

definition pendingApproval :: "ms \<Rightarrow> quote_approval" where
  "pendingApproval now =
     \<lparr>qa_state = QsPending, qa_requestedAt = now, qa_acceptedAt = None, qa_auto = False,
      qa_decidedAt = None, qa_validUntil = None, qa_notes = None, qa_decidedBy = None,
      qa_reason = None\<rparr>"

definition autoApproval :: "ms \<Rightarrow> quote_approval" where
  "autoApproval now =
     (pendingApproval now)\<lparr>qa_state := QsApproved, qa_auto := True, qa_decidedAt := Some now\<rparr>"

text \<open>The new order after the pack had its say about approving it at once.\<close>

definition autoApproved ::
    "order_env \<Rightarrow> bool \<Rightarrow> hand_session \<Rightarrow> order \<Rightarrow> order_error + order" where
  "autoApproved env approval s od =
     (if approval \<and> (case oe_quotes env of None \<Rightarrow> False | Some q \<Rightarrow> qh_autoApprovable q od s)
      then (case snapshotQuoteApproval env od (autoApproval (oe_now env)) of
              Inl e \<Rightarrow> Inl e
            | Inr a \<Rightarrow> Inr ((set_approval a od)\<lparr>od_confirmedAt := Some (oe_now env)\<rparr>))
      else Inr od)"

datatype line_result = LineMade order bool | LineRejected "line_reject list"

definition addOrderId :: "string \<Rightarrow> hand_session \<Rightarrow> hand_session" where
  "addOrderId i s = s\<lparr>hs_orderIds := hs_orderIds s @ [i]\<rparr>"

definition makeLineOrder ::
    "order_env \<Rightarrow> bool \<Rightarrow> hand_session \<Rightarrow> order list \<Rightarrow> line_body \<Rightarrow> order_world \<Rightarrow>
     order_world \<times> (order_error + line_result)" where
  "makeLineOrder env approval s open l w =
     (let (w1, od0) = createStoredLineOrder env (hs_id s) l w in
      case autoApproved env approval s od0 of
        Inl e \<Rightarrow> (w1, Inl e)
      | Inr od \<Rightarrow>
         (let w2 = (if od = od0 then w1 else saveOrder od w1) in
          case supersedeIf (replacedBy env approval od) (od_id od) open w2 of
            (w3, Inl e) \<Rightarrow> (w3, Inl e)
          | (w3, Inr _) \<Rightarrow>
             (let jobs = (if map_option qa_state (od_approval od) = Some QsPending
                          then [EfJobs (hs_id s)
                                  (quoteNotifyOps (hs_id s) (od_id od) NrQuotePending (oe_now env))]
                          else [])
              in (keepSession (addOrderId (od_id od) s) jobs w3, Inr (LineMade od False)))))"

definition createLineOrder ::
    "order_env \<Rightarrow> hand_session \<Rightarrow> line_pick list \<Rightarrow> bool option \<Rightarrow> order_world \<Rightarrow>
     order_world \<times> (order_error + line_result)" where
  "createLineOrder env s picks opt w =
     (case oe_priceLine env of
        None \<Rightarrow> (w, Inl OeNoPriceLine)
      | Some priceLine \<Rightarrow>
         (let maxQty = (case oe_maxQty env of None \<Rightarrow> 100000 | Some n \<Rightarrow> n) in
          if \<not> is_safe_integer maxQty \<or> maxQty < 1 then (w, Inl OeBadMaxQty)
          else if picks = []
          then (w, Inr (LineRejected [\<lparr>lr_kind = [], lr_code = [], lr_reason = RjEmptyLines\<rparr>]))
          else case pricePicks env priceLine maxQty s picks
                      \<lparr>pg_lines = [], pg_rejected = [], pg_total = 0\<rparr> of
                 Inl e \<Rightarrow> (w, Inl e)
               | Inr g \<Rightarrow>
                  if pg_rejected g \<noteq> [] then (w, Inr (LineRejected (pg_rejected g)))
                  else (let approval = (case opt of Some b \<Rightarrow> b
                                        | None \<Rightarrow> (case oe_quotes env of Some q \<Rightarrow> qh_approval q
                                                   | None \<Rightarrow> False));
                            open = openLineOrders w (hs_id s) approval
                        in case reusableOrder env approval open (pg_lines g) of
                             Inl e \<Rightarrow> (w, Inl e)
                           | Inr (Some od) \<Rightarrow>
                              (case (if approval then supersedeIf (isExpired env) (od_id od) open w
                                     else (w, Inr ())) of
                                 (w1, Inl e) \<Rightarrow> (w1, Inl e)
                               | (w1, Inr _) \<Rightarrow> (w1, Inr (LineMade od True)))
                           | Inr None \<Rightarrow>
                              makeLineOrder env approval s open
                                \<lparr>lb_lines = pg_lines g, lb_totalFen = pg_total g,
                                 lb_approval = (if approval then Some (pendingApproval (oe_now env))
                                                else None)\<rparr> w)))"

section \<open>A trip order\<close>

text \<open>
  The \<open>create_order\<close> tool after its arguments were checked. The price rule and the catalogue
  version of the route are arguments; \<open>Inl\<close> in the result is the pending order found again.
\<close>

record trip_quote =
  tq_routeTitle :: jstext
  tq_travelers :: int
  tq_total :: int
  tq_version :: "int option"

definition sameTrip :: "string \<Rightarrow> int \<Rightarrow> string \<Rightarrow> order \<Rightarrow> bool" where
  "sameTrip routeId travelers departDate od =
     (case od_body od of
        LineBody _ \<Rightarrow> False
      | TripBody t \<Rightarrow>
          od_status od = PendingPayment \<and> tb_routeId t = routeId \<and>
          tb_travelers t = travelers \<and> tb_departDate t = departDate)"

definition findTrip ::
    "order_world \<Rightarrow> hand_session \<Rightarrow> string \<Rightarrow> int \<Rightarrow> string \<Rightarrow> order option" where
  "findTrip w s routeId travelers departDate =
     Option.bind
       (List.find (\<lambda>x. case x of None \<Rightarrow> False | Some od \<Rightarrow> sameTrip routeId travelers departDate od)
          (map (getOrder w) (hs_orderIds s)))
       id"

definition onRoute :: "string \<Rightarrow> order \<Rightarrow> bool" where
  "onRoute routeId od =
     (case od_body od of LineBody _ \<Rightarrow> False | TripBody t \<Rightarrow> tb_routeId t = routeId)"

fun supersedeTrips ::
    "string \<Rightarrow> string \<Rightarrow> string list \<Rightarrow> order_world \<Rightarrow> order_world \<times> string list" where
  "supersedeTrips routeId newId [] w = (w, [])"
| "supersedeTrips routeId newId (i # is) w =
     (case getAnyOrder w i of
        None \<Rightarrow> supersedeTrips routeId newId is w
      | Some od \<Rightarrow>
          if onRoute routeId od
          then (case supersedeOrder i newId w of
                  (w1, done) \<Rightarrow>
                    (case supersedeTrips routeId newId is w1 of
                       (w2, gone) \<Rightarrow> (w2, if done then i # gone else gone)))
          else supersedeTrips routeId newId is w)"

definition createTripOrder ::
    "order_env \<Rightarrow> hand_session \<Rightarrow> string \<Rightarrow> int \<Rightarrow> string \<Rightarrow> trip_quote \<Rightarrow> order_world \<Rightarrow>
     order_world \<times> (order + order \<times> string list)" where
  "createTripOrder env s routeId travelers departDate q w =
     (case findTrip w s routeId travelers departDate of
        Some dup \<Rightarrow> (w, Inl dup)
      | None \<Rightarrow>
         (let (w1, od) = createOrder env (hs_id s)
                \<lparr>tb_routeId = routeId, tb_routeTitle = tq_routeTitle q,
                 tb_travelers = tq_travelers q, tb_departDate = departDate,
                 tb_totalPrice = tq_total q, tb_refund = None,
                 tb_catalogVersion = tq_version q\<rparr> w;
              (w2, superseded) = supersedeTrips routeId (od_id od) (hs_orderIds s) w1;
              jobs = (if oe_paymentMode env = PayAdvisor
                      then [EfJobs (hs_id s)
                              (orderUnconfirmedNotifyOps (hs_id s) (od_id od) (oe_now env))]
                      else [])
          in (keepSession (addOrderId (od_id od) s) jobs w2, Inr (od, superseded))))"

section \<open>What a refund would pay\<close>

record refund_tier =
  ti_id :: string
  ti_minDays :: int
  ti_maxDays :: "int option"
  ti_percent :: int

record refund_terms =
  tm_selfService :: bool
  tm_threshold :: int
  tm_tiers :: "refund_tier list"

record refund_quote =
  rq_orderId :: string
  rq_daysBefore :: int
  rq_tier :: refund_tier
  rq_amount :: int
  rq_policyHash :: string

datatype refund_ineligible = InNotPaid | InDeparted | InNoTier | InRejectedBefore

text \<open>
  \<open>Date.parse\<close> of a date at midnight UTC, in days since 1970: the form \<open>YYYY-MM-DD\<close> with a month
  up to 12 and a day up to 31; a day past the end of its month runs into the next. Anything else is
  not a number.
\<close>

definition daysFromCivil :: "int \<Rightarrow> int \<Rightarrow> int \<Rightarrow> int" where
  "daysFromCivil y m d =
     (let y' = (if m \<le> 2 then y - 1 else y);
          era = y' div 400;
          yoe = y' - era * 400;
          doy = (153 * (if m > 2 then m - 3 else m + 9) + 2) div 5 + d - 1;
          doe = yoe * 365 + yoe div 4 - yoe div 100 + doy
      in era * 146097 + doe - 719468)"

definition parseDay :: "string \<Rightarrow> int option" where
  "parseDay s =
     (if length s = 10 \<and> s ! 4 = CHR ''-'' \<and> s ! 7 = CHR ''-'' \<and>
         list_all digit_char (take 4 s @ take 2 (drop 5 s) @ drop 8 s)
      then (let y = int (read_digits (take 4 s));
                m = int (read_digits (take 2 (drop 5 s)));
                d = int (read_digits (drop 8 s))
            in if 1 \<le> m \<and> m \<le> 12 \<and> 1 \<le> d \<and> d \<le> 31 then Some (daysFromCivil y m d) else None)
      else None)"

definition tierCovers :: "int \<Rightarrow> refund_tier \<Rightarrow> bool" where
  "tierCovers days t \<longleftrightarrow>
     ti_minDays t \<le> days \<and> (case ti_maxDays t of None \<Rightarrow> True | Some m \<Rightarrow> days \<le> m)"

definition refundAmount :: "int \<Rightarrow> int \<Rightarrow> int" where
  "refundAmount totalPrice percent = (totalPrice * percent) div 100"

text \<open>A day count that is not a number is below nothing and in no tier.\<close>

definition quoteRefund ::
    "order \<Rightarrow> refund_terms \<Rightarrow> string \<Rightarrow> string \<Rightarrow> refund_ineligible + refund_quote" where
  "quoteRefund od terms policyHash today =
     (case od_body od of
        LineBody _ \<Rightarrow> Inl InNotPaid
      | TripBody t \<Rightarrow>
          if od_status od \<noteq> Paid then Inl InNotPaid
          else if map_option rf_approval (tb_refund t) = Some RaRejected then Inl InRejectedBefore
          else case (parseDay (tb_departDate t), parseDay today) of
                 (Some a, Some b) \<Rightarrow>
                   if a - b < 0 then Inl InDeparted
                   else (case List.find (tierCovers (a - b)) (tm_tiers terms) of
                           None \<Rightarrow> Inl InNoTier
                         | Some ti \<Rightarrow>
                             Inr \<lparr>rq_orderId = od_id od, rq_daysBefore = a - b, rq_tier = ti,
                                  rq_amount = refundAmount (tb_totalPrice t) (ti_percent ti),
                                  rq_policyHash = policyHash\<rparr>)
               | _ \<Rightarrow> Inl InNoTier)"

end
