(* ===== verification/OrderOps.thy ===== *)
theory OrderOps
  imports OrderStore
begin

text \<open>
  The actions of the console on orders (\<open>src/payment/orders.ts\<close>): confirming a price, cancelling,
  approving, rejecting and withdrawing a quote, a customer's acceptance, and confirming a payment.
  An action that waits is split at its waits: the part before the commit, the part after it, and
  the note left when the message to the customer could not be sent. Between the parts other
  actions may run.
\<close>

section \<open>Who may act\<close>

text \<open>The Chinese texts of the notes, as code units.\<close>

definition QUOTE_SEND_FAILED :: jstext where
  "QUOTE_SEND_FAILED =
     [25253, 20215, 21333, 21457, 36865, 22833, 36133, 65292, 35831, 21478, 34892, 21578, 30693,
      23458, 25143, 12290]"

definition QUOTE_REJECT_FAILED :: jstext where
  "QUOTE_REJECT_FAILED =
     [25253, 20215, 21333, 39539, 22238, 36890, 30693, 21457, 36865, 22833, 36133, 65292, 35831,
      21478, 34892, 21578, 30693, 23458, 25143, 12290]"

definition QUOTE_WITHDRAW_FAILED :: jstext where
  "QUOTE_WITHDRAW_FAILED =
     [25253, 20215, 21333, 25764, 22238, 36890, 30693, 21457, 36865, 22833, 36133, 65292, 35831,
      21478, 34892, 21578, 30693, 23458, 25143, 12290]"

definition REJECT_PREFIX :: jstext where
  "REJECT_PREFIX = [39038, 38382, 39539, 22238, 65306]"

definition REJECTED_NOTE :: jstext where
  "REJECTED_NOTE = [39539, 22238, 20102, 25253, 20215, 21333, 65306]"

text \<open>\<open>SEED_SESSION_RE\<close>.\<close>

definition seedSession :: "string \<Rightarrow> bool" where
  "seedSession sid \<longleftrightarrow> starts_with sid ''wecom:cust_''"

definition who :: "actor \<Rightarrow> person" where
  "who a = (ac_userId a, ac_name a)"

definition canDecideQuote :: "hand_session \<Rightarrow> actor \<Rightarrow> bool" where
  "canDecideQuote s a \<longleftrightarrow>
     supervisesConversations (ac_role a) \<or>
     (ac_role a = RoleAgent \<and> (\<not> hs_handedOver s \<or> isAssignee s a))"

definition orderFor :: "order_world \<Rightarrow> string \<Rightarrow> actor \<Rightarrow> bool \<Rightarrow> order_error + order" where
  "orderFor w i a quoteAction =
     (if \<not> handlesConversations (ac_role a) \<or> (quoteAction \<and> ac_role a = RoleShared)
      then Inl OeForbidden
      else case getAnyOrder w i of
             None \<Rightarrow> Inl OeNotFound
           | Some od \<Rightarrow>
               if supervisesConversations (ac_role a) then Inr od
               else (case getSession w (od_sessionId od) of
                       None \<Rightarrow> Inl OeNotHandling
                     | Some s \<Rightarrow>
                         if (if quoteAction then canDecideQuote s a else isAssignee s a)
                         then Inr od else Inl OeNotHandling))"

text \<open>The quote together with its approval.\<close>

definition quoteFor ::
    "order_world \<Rightarrow> string \<Rightarrow> actor \<Rightarrow> order_error + order \<times> quote_approval" where
  "quoteFor w i a =
     (case orderFor w i a True of
        Inl e \<Rightarrow> Inl e
      | Inr od \<Rightarrow> (case od_approval od of
                     None \<Rightarrow> Inl (OeQuoteState QrInvalid)
                   | Some q \<Rightarrow> Inr (od, q)))"

definition audit :: "order \<Rightarrow> actor \<Rightarrow> order_action \<Rightarrow> order_world \<Rightarrow> order_world" where
  "audit od a act w = fx [FxAudit (od_sessionId od) (od_id od) act (Some a)] w"

definition quoteDecided ::
    "order_env \<Rightarrow> order \<Rightarrow> quote_event \<Rightarrow> order_world \<Rightarrow> order_world" where
  "quoteDecided env od ev w =
     (case getSession w (od_sessionId od) of
        None \<Rightarrow> w
      | Some s \<Rightarrow>
          keepSession (case oe_onQuoteDecided env s od ev of
                         None \<Rightarrow> s | Some st \<Rightarrow> s\<lparr>hs_stage := st\<rparr>) [] w)"

section \<open>Messages to the customer\<close>

text \<open>
  The message is put into the conversation and its save, then pushed; \<open>noticeFailed\<close> runs when the
  push reported a failure and the conversation is still there.
\<close>

definition customerMsg :: "order_env \<Rightarrow> jstext \<Rightarrow> conv_msg" where
  "customerMsg env t =
     \<lparr>cm_role = CrAgent, cm_content = t, cm_at = oe_now env, cm_human = None\<rparr>"

definition noticeTo :: "order_env \<Rightarrow> string \<Rightarrow> jstext \<Rightarrow> order_world \<Rightarrow> order_world" where
  "noticeTo env sid t w =
     (case getSession w sid of
        None \<Rightarrow> w
      | Some s \<Rightarrow> fx [FxPush sid t] (keepSession (addMsg (customerMsg env t) s) [] w))"

definition noticeFailed :: "order_env \<Rightarrow> string \<Rightarrow> jstext \<Rightarrow> order_world \<Rightarrow> order_world" where
  "noticeFailed env sid t w =
     (case getSession w sid of
        None \<Rightarrow> w
      | Some s \<Rightarrow> keepSession (addMsg (systemMsg t (oe_now env)) s) [] w)"

definition quoteNotice ::
    "order_env \<Rightarrow> order \<Rightarrow> jstext option \<Rightarrow> order_world \<Rightarrow> order_world" where
  "quoteNotice env od text' w =
     (case text' of
        None \<Rightarrow> w
      | Some t \<Rightarrow>
          if t = [] \<or> oe_seed env (od_sessionId od) \<or> seedSession (od_sessionId od) then w
          else noticeTo env (od_sessionId od) t w)"

definition quotePath :: "order \<Rightarrow> jstext" where
  "quotePath od = js (''/quote/'' @ od_id od)"

definition quoteLinkSent :: "order_world \<Rightarrow> order \<Rightarrow> bool" where
  "quoteLinkSent w od =
     (case getSession w (od_sessionId od) of
        None \<Rightarrow> False
      | Some s \<Rightarrow>
          list_ex (\<lambda>m. cm_role m = CrAgent \<and> js_includes (cm_content m) (quotePath od)) (hs_messages s))"

definition sendApproved :: "order_env \<Rightarrow> order \<Rightarrow> order_world \<Rightarrow> order_world" where
  "sendApproved env od w = quoteNotice env od (Some (quotePath od)) w"

section \<open>Approving a quote\<close>

definition refuseState :: "quote_state \<Rightarrow> quote_refusal" where
  "refuseState st =
     (if st = SSuperseded then QrSuperseded else if st = SPaid then QrPaid else QrInvalid)"

definition recheckApproved ::
    "order_env \<Rightarrow> order_world \<Rightarrow> string \<Rightarrow> bool \<Rightarrow> order_error + order" where
  "recheckApproved env w i allowExpired =
     (case getAnyOrder w i of
        None \<Rightarrow> Inl (OeQuoteState QrInvalid)
      | Some od \<Rightarrow>
         (case getSession w (od_sessionId od) of
            None \<Rightarrow> Inl (OeQuoteState QrInvalid)
          | Some s \<Rightarrow>
              if i \<notin> set (hs_orderIds s) then Inl (OeQuoteState QrInvalid)
              else (case quoteState env od (oe_now env) of
                      Inl e \<Rightarrow> Inl e
                    | Inr st \<Rightarrow>
                        if st = SApproved \<or> (allowExpired \<and> st = SExpired) then Inr od
                        else Inl (OeQuoteState (refuseState st)))))"

definition approvedOrder :: "order_env \<Rightarrow> actor \<Rightarrow> quote_approval \<Rightarrow> order \<Rightarrow> order" where
  "approvedOrder env a q od =
     (set_approval q od)\<lparr>od_confirmedAt := Some (oe_now env), od_confirmedBy := Some (who a)\<rparr>"

text \<open>Every other approved quote of the conversation is superseded, the pack told of each.\<close>

fun supersedeApproved ::
    "order_env \<Rightarrow> order \<Rightarrow> order list \<Rightarrow> order_world \<Rightarrow> order_world" where
  "supersedeApproved env od [] w = w"
| "supersedeApproved env od (old # olds) w =
     supersedeApproved env od olds
       (if od_id old \<noteq> od_id od \<and> od_sessionId old = od_sessionId od \<and> isApproved old
        then (case supersedeOrder (od_id old) (od_id od) w of
                (w1, done) \<Rightarrow>
                  if done
                  then quoteDecided env (supersededOrder (od_id od) old) QeSuperseded w1
                  else w1)
        else w)"

text \<open>
  The synchronous part. The result says whether the quote had been approved before
  (\<open>ApAgain\<close>) or was approved now.
\<close>

datatype approve_next = ApAgain | ApDecided

definition approveQuote ::
    "order_env \<Rightarrow> string \<Rightarrow> actor \<Rightarrow> order_world \<Rightarrow> order_world \<times> (order_error + approve_next)" where
  "approveQuote env i a w =
     (case quoteFor w i a of
        Inl e \<Rightarrow> (w, Inl e)
      | Inr (od, q) \<Rightarrow>
         (case quoteState env od (oe_now env) of
            Inl e \<Rightarrow> (w, Inl e)
          | Inr st \<Rightarrow>
              if st = SPaid then (w, Inl (OeQuoteState QrPaid))
              else if st = SSuperseded then (w, Inl (OeQuoteState QrSuperseded))
              else if qa_state q = QsRejected then (w, Inl (OeQuoteState QrAlreadyDecided))
              else if st = SInvalid then (w, Inl (OeQuoteState QrInvalid))
              else if qa_state q = QsApproved then (w, Inr ApAgain)
              else if oe_lagging env (od_sessionId od) then (w, Inl (OeLagging (od_sessionId od)))
              else (case snapshotQuoteApproval env od
                           (q\<lparr>qa_state := QsApproved, qa_decidedAt := Some (oe_now env),
                              qa_decidedBy := Some (who a)\<rparr>) of
                      Inl e \<Rightarrow> (w, Inl e)
                    | Inr q' \<Rightarrow>
                       (let od' = approvedOrder env a q' od;
                            w1 = supersedeApproved env od' (listAnyOrders w) w;
                            w2 = quoteDecided env od' QeApproved w1;
                            w3 = audit od' a AcQuoteApprove w2
                        in (saveOrder od' w3, Inr ApDecided)))))"

text \<open>After the wait for the commit.\<close>

definition approveQuoteAfter ::
    "order_env \<Rightarrow> string \<Rightarrow> string \<Rightarrow> approve_next \<Rightarrow> commit_wait \<Rightarrow> order_world \<Rightarrow>
     order_world \<times> (order_error + order)" where
  "approveQuoteAfter env sid i next wait w =
     (if wait \<noteq> CommitOk then (w, Inl (OeLagging sid))
      else case recheckApproved env w i (next = ApAgain) of
             Inl e \<Rightarrow> (w, Inl e)
           | Inr od \<Rightarrow>
               if next = ApDecided then (sendApproved env od w, Inr od)
               else if quoteState env od (oe_now env) = Inr SApproved \<and> \<not> quoteLinkSent w od
               then (sendApproved env od w, Inr od)
               else (w, Inr od))"

section \<open>Rejecting a quote\<close>

definition rejectedOrder :: "order_env \<Rightarrow> actor \<Rightarrow> quote_approval \<Rightarrow> jstext \<Rightarrow> order \<Rightarrow> order" where
  "rejectedOrder env a q reason od =
     (set_approval (q\<lparr>qa_state := QsRejected, qa_decidedAt := Some (oe_now env),
                      qa_decidedBy := Some (who a), qa_reason := Some reason\<rparr>) od)
       \<lparr>od_status := OrdCancelled, od_cancelReason := Some (REJECT_PREFIX @ reason)\<rparr>"

text \<open>
  An AI conversation is taken over by the rejecting person; one already handed over gets a note.
  Left in the result is an error the take-over threw: the order was changed in place but nothing
  was scheduled.
\<close>

definition rejectSession ::
    "order_env \<Rightarrow> order \<Rightarrow> actor \<Rightarrow> jstext \<Rightarrow> order_world \<Rightarrow> order_error + order_world" where
  "rejectSession env od a reason w =
     (case getSession w (od_sessionId od) of
        None \<Rightarrow> Inr w
      | Some s \<Rightarrow>
          if \<not> hs_handedOver s
          then (case takeover (oe_hand env) (ow_hand w) (hs_id s) a False of
                  Inl e \<Rightarrow> Inl (OeHand e)
                | Inr (h, _) \<Rightarrow> Inr (w\<lparr>ow_hand := h\<rparr>))
          else Inr (keepSession (addMsg (systemMsg (ac_name a @ REJECTED_NOTE @ reason) (oe_now env)) s)
                      [] w))"

text \<open>
  The body of the request is a reason of one to 120 code units after trimming. The result holds the
  text the pack wants sent, which is rendered before the change.
\<close>

definition rejectQuote ::
    "order_env \<Rightarrow> string \<Rightarrow> actor \<Rightarrow> jstext \<Rightarrow> order_world \<Rightarrow>
     order_world \<times> (order_error + jstext option)" where
  "rejectQuote env i a reason0 w =
     (let reason = trim reason0 in
      if reason = [] \<or> 120 < length reason then (w, Inl OeBadBody)
      else case quoteFor w i a of
        Inl e \<Rightarrow> (w, Inl e)
      | Inr (od, q) \<Rightarrow>
         (case quoteState env od (oe_now env) of
            Inl e \<Rightarrow> (w, Inl e)
          | Inr st \<Rightarrow>
              if st = SPaid then (w, Inl (OeQuoteState QrPaid))
              else if st = SSuperseded then (w, Inl (OeQuoteState QrSuperseded))
              else if qa_state q = QsApproved then (w, Inl (OeQuoteState QrAlreadyDecided))
              else if st \<noteq> SPending then (w, Inl (OeQuoteState QrInvalid))
              else if oe_lagging env (od_sessionId od) then (w, Inl (OeLagging (od_sessionId od)))
              else (let od' = rejectedOrder env a q reason od;
                        w1 = audit od' a AcQuoteReject w
                    in case rejectSession env od' a reason w1 of
                         Inl e \<Rightarrow> (w1\<lparr>ow_orders := jset (ow_orders w1) i od'\<rparr>, Inl e)
                       | Inr w2 \<Rightarrow>
                           (saveOrder od' (quoteDecided env od' QeRejected w2),
                            Inr (oe_rejectedText env od)))))"

definition stillThere :: "order_world \<Rightarrow> string \<Rightarrow> order option" where
  "stillThere w i =
     (case getAnyOrder w i of
        None \<Rightarrow> None
      | Some od \<Rightarrow>
         (case getSession w (od_sessionId od) of
            None \<Rightarrow> None
          | Some s \<Rightarrow> if i \<in> set (hs_orderIds s) then Some od else None))"

definition rejectQuoteAfter ::
    "order_env \<Rightarrow> string \<Rightarrow> string \<Rightarrow> jstext option \<Rightarrow> commit_wait \<Rightarrow> order_world \<Rightarrow>
     order_world \<times> (order_error + unit)" where
  "rejectQuoteAfter env sid i text' wait w =
     (if wait \<noteq> CommitOk then (w, Inl (OeLagging sid))
      else (case stillThere w i of
              None \<Rightarrow> (w, Inr ())
            | Some od \<Rightarrow> (quoteNotice env od text' w, Inr ())))"

section \<open>The customer's acceptance\<close>

definition acceptanceTarget :: "order_world \<Rightarrow> string \<Rightarrow> string \<Rightarrow> order option" where
  "acceptanceTarget w sid i =
     (case getAnyOrder w i of
        None \<Rightarrow> None
      | Some od \<Rightarrow>
          if isLineOrder od \<and> od_sessionId od = sid \<and> getSession w sid \<noteq> None
          then Some od else None)"

definition acceptanceState ::
    "order_env \<Rightarrow> order_world \<Rightarrow> string \<Rightarrow> string \<Rightarrow> ms \<Rightarrow> order_error + quote_state" where
  "acceptanceState env w sid i at =
     (case acceptanceTarget w sid i of None \<Rightarrow> Inr SInvalid | Some od \<Rightarrow> quoteState env od at)"

definition recordQuoteAccepted ::
    "order_env \<Rightarrow> string \<Rightarrow> string \<Rightarrow> ms \<Rightarrow> order_world \<Rightarrow> order_world \<times> (order_error + bool)" where
  "recordQuoteAccepted env sid i at w =
     (case acceptanceTarget w sid i of
        None \<Rightarrow> (w, Inl (OeQuoteState QrInvalid))
      | Some od \<Rightarrow>
         (case od_approval od of
            None \<Rightarrow> (w, Inl (OeQuoteState QrInvalid))
          | Some q \<Rightarrow>
              if qa_acceptedAt q \<noteq> None then (w, Inr False)
              else (case quoteState env od at of
                      Inl e \<Rightarrow> (w, Inl e)
                    | Inr st \<Rightarrow>
                        if st \<noteq> SApproved then (w, Inl (OeQuoteState QrInvalid))
                        else if oe_lagging env sid then (w, Inl (OeLagging sid))
                        else (let w1 = queueJobs sid (quoteNotifyOps sid i NrQuoteAccepted at) w;
                                  w2 = saveOrder (set_approval (q\<lparr>qa_acceptedAt := Some at\<rparr>) od) w1
                              in (case getSession w2 sid of
                                    None \<Rightarrow> w2 | Some s \<Rightarrow> keepSession s [] w2,
                                  Inr True)))))"

section \<open>Confirming a price, cancelling\<close>

definition confirmedOrder :: "order_env \<Rightarrow> actor \<Rightarrow> order \<Rightarrow> order" where
  "confirmedOrder env a od =
     od\<lparr>od_confirmedAt := Some (oe_now env), od_confirmedBy := Some (who a)\<rparr>"

definition confirmOrder ::
    "order_env \<Rightarrow> string \<Rightarrow> actor \<Rightarrow> order_world \<Rightarrow> order_world \<times> (order_error + order)" where
  "confirmOrder env i a w =
     (case orderFor w i a False of
        Inl e \<Rightarrow> (w, Inl e)
      | Inr od \<Rightarrow>
          if isLineOrder od \<and> od_approval od \<noteq> None then (w, Inl (OeQuoteState QrQuoteOrder))
          else if od_status od \<noteq> PendingPayment then (w, Inl (OeOrderState (OrStatus (od_status od))))
          else if od_confirmedAt od \<noteq> None then (w, Inr od)
          else if oe_lagging env (od_sessionId od) then (w, Inl (OeLagging (od_sessionId od)))
          else (let od' = confirmedOrder env a od in
                (saveOrder od' (audit od' a AcConfirm w), Inr od')))"

definition isQuoteOrder :: "order_world \<Rightarrow> string \<Rightarrow> bool" where
  "isQuoteOrder w i =
     (case getAnyOrder w i of
        None \<Rightarrow> False | Some od \<Rightarrow> isLineOrder od \<and> od_approval od \<noteq> None)"

definition withdrawnOrder :: "order_env \<Rightarrow> actor \<Rightarrow> quote_approval \<Rightarrow> jstext \<Rightarrow> order \<Rightarrow> order" where
  "withdrawnOrder env a q reason od =
     (let r = cleanText (trim reason) (Some 120) in
      (set_approval (q\<lparr>qa_state := QsWithdrawn, qa_decidedAt := Some (oe_now env),
                       qa_decidedBy := Some (who a), qa_reason := Some r\<rparr>) od)
        \<lparr>od_status := OrdCancelled, od_cancelReason := Some r\<rparr>)"

definition cancelledOrder :: "jstext \<Rightarrow> order \<Rightarrow> order" where
  "cancelledOrder reason od =
     od\<lparr>od_status := OrdCancelled, od_cancelReason := Some (cleanText (trim reason) (Some 200))\<rparr>"

definition cancelOrder ::
    "order_env \<Rightarrow> string \<Rightarrow> actor \<Rightarrow> jstext \<Rightarrow> order_world \<Rightarrow> order_world \<times> (order_error + order)" where
  "cancelOrder env i a reason w =
     (case orderFor w i a (isQuoteOrder w i) of
        Inl e \<Rightarrow> (w, Inl e)
      | Inr od \<Rightarrow>
         (case od_approval od of
            Some q \<Rightarrow>
             (case quoteState env od (oe_now env) of
                Inl e \<Rightarrow> (w, Inl e)
              | Inr st \<Rightarrow>
                  if st = SSuperseded then (w, Inl (OeQuoteState QrSuperseded))
                  else if st = SPaid then (w, Inl (OeQuoteState QrPaid))
                  else if st = SInvalid then (w, Inr od)
                  else if oe_lagging env (od_sessionId od) then (w, Inl (OeLagging (od_sessionId od)))
                  else (let od' = withdrawnOrder env a q reason od;
                            w1 = quoteDecided env od' QeWithdrawn w
                        in (saveOrder od' (audit od' a AcQuoteWithdraw w1), Inr od')))
          | None \<Rightarrow>
              if od_status od \<noteq> PendingPayment
              then (w, Inl (OeOrderState (OrStatus (od_status od))))
              else if oe_lagging env (od_sessionId od) then (w, Inl (OeLagging (od_sessionId od)))
              else (let od' = cancelledOrder reason od in
                    (saveOrder od' (audit od' a AcCancel w), Inr od'))))"

text \<open>
  The console's entry. The result holds the text to send after the commit: only for a quote this
  call withdrew that had been approved. None means no waiting (an order without approval).
\<close>

definition cancelOrderAndNotify ::
    "order_env \<Rightarrow> string \<Rightarrow> actor \<Rightarrow> jstext \<Rightarrow> order_world \<Rightarrow>
     order_world \<times> (order_error + (order \<times> jstext option) option)" where
  "cancelOrderAndNotify env i a reason w =
     (case orderFor w i a (isQuoteOrder w i) of
        Inl e \<Rightarrow> (w, Inl e)
      | Inr before \<Rightarrow>
          if \<not> isLineOrder before \<or> od_approval before = None
          then (case cancelOrder env i a reason w of
                  (w1, Inl e) \<Rightarrow> (w1, Inl e) | (w1, Inr _) \<Rightarrow> (w1, Inr None))
          else (let text' = (if isApproved before \<and> od_status before = PendingPayment
                             then oe_withdrawnText env before else None)
                in case cancelOrder env i a reason w of
                     (w1, Inl e) \<Rightarrow> (w1, Inl e)
                   | (w1, Inr od) \<Rightarrow> (w1, Inr (Some (od, text')))))"

definition cancelOrderAfter ::
    "order_env \<Rightarrow> string \<Rightarrow> string \<Rightarrow> jstext option \<Rightarrow> commit_wait \<Rightarrow> order_world \<Rightarrow>
     order_world \<times> (order_error + unit)" where
  "cancelOrderAfter env sid i text' wait w =
     (if wait \<noteq> CommitOk then (w, Inl (OeLagging sid))
      else (case stillThere w i of
              None \<Rightarrow> (w, Inr ())
            | Some od \<Rightarrow>
                (if od_status od = OrdCancelled then quoteNotice env od text' w else w, Inr ())))"

definition withdrawQuote ::
    "order_env \<Rightarrow> string \<Rightarrow> actor \<Rightarrow> jstext \<Rightarrow> order_world \<Rightarrow>
     order_world \<times> (order_error + (order \<times> jstext option) option)" where
  "withdrawQuote env i a reason w =
     (if 120 < length (trim reason) then (w, Inl OeBadBody)
      else case quoteFor w i a of
             Inl e \<Rightarrow> (w, Inl e)
           | Inr _ \<Rightarrow> cancelOrderAndNotify env i a (trim reason) w)"

section \<open>Confirming a payment\<close>

text \<open>\<open>PmDone\<close> is a payment this call recorded; \<open>PmAgain\<close> one recorded before, where nothing is sent.\<close>

datatype paid_next = PmDone | PmAgain

definition markPaidByAdvisor ::
    "order_env \<Rightarrow> string \<Rightarrow> actor \<Rightarrow> order_world \<Rightarrow> order_world \<times> (order_error + paid_next)" where
  "markPaidByAdvisor env i a w =
     (case orderFor w i a False of
        Inl e \<Rightarrow> (w, Inl e)
      | Inr od \<Rightarrow>
          if od_status od = Paid then (w, Inr PmAgain)
          else (case (case od_approval od of
                        None \<Rightarrow> Inr ()
                      | Some q \<Rightarrow>
                         (case quoteState env od (oe_now env) of
                            Inl e \<Rightarrow> Inl e
                          | Inr st \<Rightarrow>
                              if st = SSuperseded then Inl (OeQuoteState QrSuperseded)
                              else if st = SInvalid then Inl (OeQuoteState QrInvalid)
                              else if qa_state q \<noteq> QsApproved then Inl (OeQuoteState QrNotApproved)
                              else Inr ())) of
                  Inl e \<Rightarrow> (w, Inl e)
                | Inr _ \<Rightarrow>
                    if od_status od \<noteq> PendingPayment
                    then (w, Inl (OeOrderState (OrStatus (od_status od))))
                    else if od_approval od = None \<and> oe_paymentMode env = PayAdvisor \<and>
                            od_confirmedAt od = None
                    then (w, Inl (OeOrderState OrUnconfirmed))
                    else if oe_lagging env (od_sessionId od)
                    then (w, Inl (OeLagging (od_sessionId od)))
                    else if isLineOrder od \<and> terminalStageKey (oe_hand env) = None
                    then (w, Inl OeNoTerminalStage)
                    else (let od1 = od\<lparr>od_paidMarkedBy := Some (who a)\<rparr>;
                              w1 = w\<lparr>ow_orders := jset (ow_orders w) i od1\<rparr>;
                              (w2, _) = markOrderPaid env i w1
                          in (audit od1 a AcMarkPaid w2, Inr PmDone))))"

text \<open>
  \<open>notifyPaid\<close> (\<open>src/core/engine/index.ts\<close>): the conversation gets the terminal stage and the
  confirmation. It is sent also when the wait timed out, but not when the change will never commit.
\<close>

definition notifyPaid ::
    "order_env \<Rightarrow> string \<Rightarrow> order_world \<Rightarrow> order_world \<times> (order_error + jstext option)" where
  "notifyPaid env i w =
     (case getAnyOrder w i of
        None \<Rightarrow> (w, Inr None)
      | Some od \<Rightarrow>
         (case getSession w (od_sessionId od) of
            None \<Rightarrow> (w, Inr None)
          | Some s \<Rightarrow>
             (case terminalStageKey (oe_hand env) of
                None \<Rightarrow> (w, Inl OeNoTerminalStage)
              | Some st \<Rightarrow>
                 (let t = cleanText (oe_paidText env od) None in
                  (keepSession (addMsg (customerMsg env t) (s\<lparr>hs_stage := st\<rparr>)) [] w,
                   Inr (Some t))))))"

definition markPaidAfter ::
    "order_env \<Rightarrow> string \<Rightarrow> string \<Rightarrow> commit_wait \<Rightarrow> order_world \<Rightarrow>
     order_world \<times> (order_error + bool)" where
  "markPaidAfter env sid i wait w =
     (if wait = CommitLost then (w, Inl (OeLagging sid))
      else case notifyPaid env i w of
             (w1, Inl e) \<Rightarrow> (w1, Inl e)
           | (w1, Inr None) \<Rightarrow> (w1, Inr (wait = CommitOk))
           | (w1, Inr (Some t)) \<Rightarrow> (fx [FxPush sid t] w1, Inr (wait = CommitOk)))"

text \<open>\<open>POST /api/orders/:id/pay\<close> (\<open>src/server.ts\<close>): the demonstration payment, before its wait.\<close>

datatype pay_refusal = PayNotFound | PayClosed order_status

definition payRoute ::
    "order_env \<Rightarrow> actor \<Rightarrow> string \<Rightarrow> order_world \<Rightarrow>
     order_world \<times> (order_error + (pay_refusal + paid_next))" where
  "payRoute env a i w =
     (case getAnyOrder w i of
        None \<Rightarrow> (w, Inr (Inl PayNotFound))
      | Some od \<Rightarrow>
          if isLineOrder od \<and> od_approval od \<noteq> None then (w, Inr (Inl PayNotFound))
          else if od_status od \<in> set [Superseded, OrdCancelled, RefundPending, Refunded]
          then (w, Inr (Inl (PayClosed (od_status od))))
          else if od_status od = Paid then (w, Inr (Inr PmAgain))
          else if isLineOrder od \<and> terminalStageKey (oe_hand env) = None
          then (w, Inl OeNoTerminalStage)
          else (audit od a AcMarkPaid (fst (markOrderPaid env i w)), Inr (Inr PmDone)))"

end
