(* ===== verification/RefundOps.thy ===== *)
theory RefundOps
  imports OrderOps
begin

text \<open>
  Refunds of trip orders (\<open>src/payment/refunds.ts\<close>): the customer's request, and a person's
  approval, rejection and settlement. Each changes memory synchronously and then waits for the
  commit; the notice to the customer is rendered before the wait and sent after it.
\<close>

definition refundOrderFor ::
    "order_world \<Rightarrow> string \<Rightarrow> actor \<Rightarrow> bool \<Rightarrow> order_error + order \<times> trip_body" where
  "refundOrderFor w i a approval =
     (if \<not> handlesConversations (ac_role a) \<or> (approval \<and> \<not> supervisesConversations (ac_role a))
      then Inl OeForbidden
      else case getAnyOrder w i of
             None \<Rightarrow> Inl OeNotFound
           | Some od \<Rightarrow>
               if \<not> supervisesConversations (ac_role a) \<and>
                  (case getSession w (od_sessionId od) of
                     None \<Rightarrow> True | Some s \<Rightarrow> \<not> isAssignee s a)
               then Inl OeNotHandling
               else (case od_body od of
                       LineBody _ \<Rightarrow> Inl (OeOrderState (OrStatus (od_status od)))
                     | TripBody t \<Rightarrow> Inr (od, t)))"

definition refundAudit ::
    "order \<Rightarrow> actor option \<Rightarrow> order_action \<Rightarrow> order_world \<Rightarrow> order_world" where
  "refundAudit od a act w = fx [FxAudit (od_sessionId od) (od_id od) act a] w"

definition badRefund :: "order \<Rightarrow> order_error" where
  "badRefund od = OeOrderState (OrStatus (od_status od))"

section \<open>The request\<close>

text \<open>The quoted tier and amount are checked against the terms of now.\<close>

definition quoteHolds :: "refund_quote \<Rightarrow> refund_tier \<Rightarrow> int \<Rightarrow> bool" where
  "quoteHolds q ti totalPrice \<longleftrightarrow>
     tierCovers (rq_daysBefore q) ti \<and> ti_percent (rq_tier q) = ti_percent ti \<and>
     rq_amount q = refundAmount totalPrice (ti_percent ti)"

definition newRefund :: "order_env \<Rightarrow> string \<Rightarrow> refund_quote \<Rightarrow> refund_terms \<Rightarrow> refund_tier \<Rightarrow> refund_record" where
  "newRefund env rid q terms ti =
     \<lparr>rf_id = rid, rf_requestedAt = oe_now env, rf_daysBefore = rq_daysBefore q,
      rf_tierId = ti_id ti, rf_percent = ti_percent ti, rf_amount = rq_amount q,
      rf_policyHash = rq_policyHash q,
      rf_approval = (if rq_amount q \<le> tm_threshold terms then RaAuto else RaPending),
      rf_settlement = (if oe_paymentMode env = PayOnline then RsMock else RsAdvisor),
      rf_decision = None, rf_settled = None\<rparr>"

definition needsHuman :: "refund_record \<Rightarrow> bool" where
  "needsHuman r \<longleftrightarrow> rf_approval r \<noteq> RaAuto \<or> rf_settlement r \<noteq> RsMock"

text \<open>The order with its new refund: done at once when nobody is needed.\<close>

definition refundedOrder :: "order_env \<Rightarrow> refund_record \<Rightarrow> order \<Rightarrow> order" where
  "refundedOrder env r od =
     (if needsHuman r then (set_refund r od)\<lparr>od_status := RefundPending\<rparr>
      else (set_refund (r\<lparr>rf_settled := Some \<lparr>rs_at = oe_now env, rs_by = None\<rparr>\<rparr>) od)
             \<lparr>od_status := Refunded\<rparr>)"

datatype refund_outcome = RefundBusy | RefundRequested order bool bool

definition requestRefund ::
    "order_env \<Rightarrow> string \<Rightarrow> refund_quote \<Rightarrow> refund_terms \<Rightarrow> order_world \<Rightarrow>
     order_world \<times> (order_error + refund_outcome)" where
  "requestRefund env rid q terms w =
     (case getAnyOrder w (rq_orderId q) of
        None \<Rightarrow> (w, Inl OeNotFound)
      | Some od \<Rightarrow>
         (case od_body od of
            LineBody _ \<Rightarrow> (w, Inl (badRefund od))
          | TripBody t \<Rightarrow>
              if oe_lagging env (od_sessionId od) then (w, Inr RefundBusy)
              else (case (if od_status od = RefundPending \<or> od_status od = Refunded
                          then tb_refund t else None) of
                      Some r \<Rightarrow> (w, Inr (RefundRequested od False (needsHuman r)))
                    | None \<Rightarrow>
                        if od_status od \<noteq> Paid \<or> od_paidAt od = None \<or>
                           map_option rf_approval (tb_refund t) = Some RaRejected
                        then (w, Inl (badRefund od))
                        else (case List.find (\<lambda>x. ti_id x = ti_id (rq_tier q)) (tm_tiers terms) of
                                None \<Rightarrow> (w, Inl (badRefund od))
                              | Some ti \<Rightarrow>
                                  if \<not> quoteHolds q ti (tb_totalPrice t)
                                  then (w, Inl (badRefund od))
                                  else (let r = newRefund env rid q terms ti;
                                            od' = refundedOrder env r od
                                        in (saveOrder od' (refundAudit od' None AcRefundRequest w),
                                            Inr (RefundRequested od' True (needsHuman r))))))))"

section \<open>A person's decision\<close>

text \<open>
  What is left to do after the change: the order, and the notice to render and send once committed.
\<close>

type_synonym refund_pending = "order \<times> refund_notice option"

definition decide :: "order_env \<Rightarrow> actor \<Rightarrow> refund_approval \<Rightarrow> jstext option \<Rightarrow> refund_record \<Rightarrow> refund_record" where
  "decide env a v reason r =
     r\<lparr>rf_approval := v,
       rf_decision := Some \<lparr>rd_at = oe_now env, rd_by = who a, rd_reason = reason\<rparr>\<rparr>"

definition settleBy :: "order_env \<Rightarrow> person option \<Rightarrow> refund_record \<Rightarrow> refund_record" where
  "settleBy env p r = r\<lparr>rf_settled := Some \<lparr>rs_at = oe_now env, rs_by = p\<rparr>\<rparr>"

definition approveRefund ::
    "order_env \<Rightarrow> string \<Rightarrow> actor \<Rightarrow> order_world \<Rightarrow> order_world \<times> (order_error + refund_pending)" where
  "approveRefund env i a w =
     (case refundOrderFor w i a True of
        Inl e \<Rightarrow> (w, Inl e)
      | Inr (od, t) \<Rightarrow>
         (case tb_refund t of
            None \<Rightarrow> (w, Inl (badRefund od))
          | Some r \<Rightarrow>
              if rf_approval r = RaApproved \<and> (od_status od = RefundPending \<or> od_status od = Refunded)
              then (w, Inr (od, None))
              else if od_status od \<noteq> RefundPending \<or> rf_approval r \<noteq> RaPending \<or> od_paidAt od = None
              then (w, Inl (badRefund od))
              else if oe_lagging env (od_sessionId od) then (w, Inl (OeLagging (od_sessionId od)))
              else (let r1 = decide env a RaApproved None r;
                        mock = (rf_settlement r = RsMock);
                        od' = (if mock then (set_refund (settleBy env None r1) od)\<lparr>od_status := Refunded\<rparr>
                               else set_refund r1 od)
                    in (saveOrder od' (refundAudit od' (Some a) AcRefundApprove w),
                        Inr (od', if mock then Some RnSettled else None)))))"

definition rejectRefund ::
    "order_env \<Rightarrow> string \<Rightarrow> actor \<Rightarrow> jstext \<Rightarrow> order_world \<Rightarrow>
     order_world \<times> (order_error + refund_pending)" where
  "rejectRefund env i a reason w =
     (case refundOrderFor w i a True of
        Inl e \<Rightarrow> (w, Inl e)
      | Inr (od, t) \<Rightarrow>
         (case tb_refund t of
            None \<Rightarrow> (w, Inl (badRefund od))
          | Some r \<Rightarrow>
              if od_status od = Paid \<and> rf_approval r = RaRejected then (w, Inr (od, None))
              else if od_status od \<noteq> RefundPending \<or> rf_approval r \<noteq> RaPending
              then (w, Inl (badRefund od))
              else if oe_lagging env (od_sessionId od) then (w, Inl (OeLagging (od_sessionId od)))
              else (let r1 = decide env a RaRejected (Some (cleanText (trim reason) (Some 200))) r;
                        od' = (set_refund r1 od)\<lparr>od_status := Paid\<rparr>
                    in (saveOrder od' (refundAudit od' (Some a) AcRefundReject w),
                        Inr (od', Some RnRejected)))))"

definition settleRefund ::
    "order_env \<Rightarrow> string \<Rightarrow> actor \<Rightarrow> order_world \<Rightarrow> order_world \<times> (order_error + refund_pending)" where
  "settleRefund env i a w =
     (case refundOrderFor w i a False of
        Inl e \<Rightarrow> (w, Inl e)
      | Inr (od, t) \<Rightarrow>
         (case tb_refund t of
            None \<Rightarrow> (w, Inl (badRefund od))
          | Some r \<Rightarrow>
              if oe_paymentMode env \<noteq> PayAdvisor \<or> rf_settlement r \<noteq> RsAdvisor \<or>
                 rf_approval r \<notin> set [RaAuto, RaApproved]
              then (w, Inl (badRefund od))
              else if od_status od = Refunded then (w, Inr (od, None))
              else if od_status od \<noteq> RefundPending \<or> od_paidAt od = None
              then (w, Inl (badRefund od))
              else if oe_lagging env (od_sessionId od) then (w, Inl (OeLagging (od_sessionId od)))
              else (let od' = (set_refund (settleBy env (Some (who a)) r) od)\<lparr>od_status := Refunded\<rparr>
                    in (saveOrder od' (refundAudit od' (Some a) AcRefundSettle w),
                        Inr (od', Some RnSettled)))))"

section \<open>After the wait\<close>

text \<open>The text is rendered before the wait, from the order as changed; None when there is no session or hook.\<close>

definition refundNoticeText ::
    "order_env \<Rightarrow> order_world \<Rightarrow> refund_pending \<Rightarrow> jstext option" where
  "refundNoticeText env w p =
     (case p of
        (od, Some n) \<Rightarrow>
          (if getSession w (od_sessionId od) = None then None
           else map_option (\<lambda>t. cleanText t None) (oe_refundText env od n))
      | (_, None) \<Rightarrow> None)"

definition refundCommitted ::
    "order_env \<Rightarrow> string \<Rightarrow> jstext option \<Rightarrow> commit_wait \<Rightarrow> order_world \<Rightarrow>
     order_world \<times> (order_error + bool)" where
  "refundCommitted env sid text' wait w =
     (if wait = CommitLost then (w, Inl (OeLagging sid))
      else (case text' of
              Some t \<Rightarrow> if wait = CommitOk \<and> t \<noteq> [] then noticeTo env sid t w else w
            | None \<Rightarrow> w,
            Inr (wait = CommitOk)))"

end
