(* ===== verification/OrderLife.thy ===== *)
theory OrderLife
  imports RefundOps
begin

text \<open>
  The life of one order: what a well-formed order is, how it may change, and that every change the
  store and the actions make to an order is such a change. A change is \<open>quiet\<close> when it does not
  open the order's slot: the place of the one open order a conversation may have per kind.
\<close>

section \<open>Well-formed orders\<close>

definition line_ok :: "order_line \<Rightarrow> bool" where
  "line_ok x \<longleftrightarrow> ol_amountFen x = ol_unitPriceFen x * ol_qty x \<and> 1 \<le> ol_qty x \<and> 0 \<le> ol_unitPriceFen x"

definition lines_ok :: "order_line list \<Rightarrow> int \<Rightarrow> bool" where
  "lines_ok ls totalFen \<longleftrightarrow>
     ls \<noteq> [] \<and> list_all line_ok ls \<and> totalFen = sum_list (map ol_amountFen ls) \<and>
     is_safe_integer totalFen"

definition approval_ok :: "order_status \<Rightarrow> quote_approval \<Rightarrow> bool" where
  "approval_ok st a \<longleftrightarrow>
     (st = OrdCancelled) = (qa_state a = QsRejected \<or> qa_state a = QsWithdrawn) \<and>
     (st = Paid \<longrightarrow> qa_state a = QsApproved) \<and>
     (qa_state a = QsApproved \<longrightarrow> qa_validUntil a \<noteq> None) \<and>
     (qa_state a = QsPending \<longrightarrow> qa_validUntil a = None) \<and>
     (qa_acceptedAt a \<noteq> None \<longrightarrow> qa_state a = QsApproved \<or> qa_state a = QsWithdrawn)"

definition refund_ok :: "order_status \<Rightarrow> int \<Rightarrow> refund_record \<Rightarrow> bool" where
  "refund_ok st totalPrice r \<longleftrightarrow>
     rf_amount r = refundAmount totalPrice (rf_percent r) \<and>
     (rf_approval r = RaPending \<longrightarrow> rf_decision r = None) \<and>
     (case st of
        Paid \<Rightarrow> rf_approval r = RaRejected \<and> rf_settled r = None
      | RefundPending \<Rightarrow>
          rf_approval r \<noteq> RaRejected \<and> rf_settled r = None \<and>
          (rf_settlement r = RsMock \<longrightarrow> rf_approval r = RaPending)
      | Refunded \<Rightarrow> (rf_approval r = RaAuto \<or> rf_approval r = RaApproved) \<and> rf_settled r \<noteq> None
      | _ \<Rightarrow> False)"

definition body_ok :: "order_status \<Rightarrow> order_body \<Rightarrow> bool" where
  "body_ok st b =
     (case b of
        LineBody l \<Rightarrow>
          st \<noteq> RefundPending \<and> st \<noteq> Refunded \<and> lines_ok (lb_lines l) (lb_totalFen l) \<and>
          (case lb_approval l of None \<Rightarrow> True | Some a \<Rightarrow> approval_ok st a)
      | TripBody t \<Rightarrow>
          (case tb_refund t of
             None \<Rightarrow> st \<noteq> RefundPending \<and> st \<noteq> Refunded
           | Some r \<Rightarrow> refund_ok st (tb_totalPrice t) r))"

definition order_ok :: "order \<Rightarrow> bool" where
  "order_ok od \<longleftrightarrow>
     (od_paidAt od \<noteq> None) = (od_status od = Paid \<or> od_status od = RefundPending \<or> od_status od = Refunded) \<and>
     (od_supersededBy od \<noteq> None) = (od_status od = Superseded) \<and>
     body_ok (od_status od) (od_body od)"

section \<open>How an order may change\<close>

definition once :: "'a option \<Rightarrow> 'a option \<Rightarrow> bool" where
  "once a b \<longleftrightarrow> a = None \<or> b = a"

fun status_reach :: "order_status \<Rightarrow> order_status \<Rightarrow> bool" where
  "status_reach PendingPayment t \<longleftrightarrow> True"
| "status_reach Paid t \<longleftrightarrow> t = Paid \<or> t = RefundPending \<or> t = Refunded"
| "status_reach RefundPending t \<longleftrightarrow> t = Paid \<or> t = RefundPending \<or> t = Refunded"
| "status_reach st t \<longleftrightarrow> t = st"

fun approval_reach :: "approval_state \<Rightarrow> approval_state \<Rightarrow> bool" where
  "approval_reach QsPending t \<longleftrightarrow> True"
| "approval_reach QsApproved t \<longleftrightarrow> t = QsApproved \<or> t = QsWithdrawn"
| "approval_reach st t \<longleftrightarrow> t = st"

definition approval_evolves :: "quote_approval option \<Rightarrow> quote_approval option \<Rightarrow> bool" where
  "approval_evolves x y =
     (case (x, y) of
        (None, None) \<Rightarrow> True
      | (Some a, Some b) \<Rightarrow>
          approval_reach (qa_state a) (qa_state b) \<and> once (qa_validUntil a) (qa_validUntil b) \<and>
          once (qa_acceptedAt a) (qa_acceptedAt b)
      | _ \<Rightarrow> False)"

text \<open>What is fixed when the refund is requested, and what of a trip order is fixed with it.\<close>

definition refund_terms_of :: "refund_record \<Rightarrow> refund_record" where
  "refund_terms_of r = r\<lparr>rf_approval := RaAuto, rf_decision := None, rf_settled := None\<rparr>"

definition trip_of :: "trip_body \<Rightarrow> trip_body" where
  "trip_of t = t\<lparr>tb_refund := None\<rparr>"

definition refund_evolves :: "refund_record option \<Rightarrow> refund_record option \<Rightarrow> bool" where
  "refund_evolves x y =
     (case (x, y) of
        (None, _) \<Rightarrow> True
      | (Some a, Some b) \<Rightarrow>
          refund_terms_of b = refund_terms_of a \<and>
          once (rf_settled a) (rf_settled b) \<and> once (rf_decision a) (rf_decision b)
      | _ \<Rightarrow> False)"

definition body_evolves :: "order_body \<Rightarrow> order_body \<Rightarrow> bool" where
  "body_evolves x y =
     (case (x, y) of
        (LineBody l, LineBody m) \<Rightarrow>
          lb_lines m = lb_lines l \<and> lb_totalFen m = lb_totalFen l \<and>
          approval_evolves (lb_approval l) (lb_approval m)
      | (TripBody s, TripBody t) \<Rightarrow>
          trip_of t = trip_of s \<and> refund_evolves (tb_refund s) (tb_refund t)
      | _ \<Rightarrow> False)"

definition order_evolves :: "order \<Rightarrow> order \<Rightarrow> bool" where
  "order_evolves a b \<longleftrightarrow>
     od_id b = od_id a \<and> od_sessionId b = od_sessionId a \<and> od_createdAt b = od_createdAt a \<and>
     status_reach (od_status a) (od_status b) \<and> once (od_paidAt a) (od_paidAt b) \<and>
     once (od_supersededBy a) (od_supersededBy b) \<and> body_evolves (od_body a) (od_body b)"

lemma once_refl [simp]: "once a a" and once_None [simp]: "once None b"
  by (simp_all add: once_def)

lemma once_trans: "once a b \<Longrightarrow> once b c \<Longrightarrow> once a c"
  by (auto simp: once_def)

lemma status_reach_refl [simp]: "status_reach s s"
  by (cases s) auto

lemma status_reach_trans: "status_reach a b \<Longrightarrow> status_reach b c \<Longrightarrow> status_reach a c"
  by (cases a; cases b) auto

lemma approval_reach_refl [simp]: "approval_reach s s"
  by (cases s) auto

lemma approval_reach_trans: "approval_reach a b \<Longrightarrow> approval_reach b c \<Longrightarrow> approval_reach a c"
  by (cases a; cases b) auto

lemma approval_evolves_refl [simp]: "approval_evolves a a"
  by (cases a) (simp_all add: approval_evolves_def)

lemma approval_evolves_trans:
  "approval_evolves a b \<Longrightarrow> approval_evolves b c \<Longrightarrow> approval_evolves a c"
  by (cases a; cases b; cases c)
    (auto simp: approval_evolves_def intro: approval_reach_trans once_trans)

lemma refund_evolves_refl [simp]: "refund_evolves a a"
  by (cases a) (simp_all add: refund_evolves_def)

lemma refund_evolves_trans:
  "refund_evolves a b \<Longrightarrow> refund_evolves b c \<Longrightarrow> refund_evolves a c"
  by (cases a; cases b; cases c) (auto simp: refund_evolves_def once_def)

lemma body_evolves_refl [simp]: "body_evolves a a"
  by (cases a) (simp_all add: body_evolves_def)

lemma body_evolves_trans: "body_evolves a b \<Longrightarrow> body_evolves b c \<Longrightarrow> body_evolves a c"
  by (cases a; cases b; cases c)
    (auto simp: body_evolves_def intro: approval_evolves_trans refund_evolves_trans
       split: order_body.splits dest: sym)

lemma order_evolves_refl [simp]: "order_evolves a a"
  by (simp add: order_evolves_def)

lemma order_evolves_trans: "order_evolves a b \<Longrightarrow> order_evolves b c \<Longrightarrow> order_evolves a c"
  unfolding order_evolves_def
  by (simp, blast intro: status_reach_trans once_trans body_evolves_trans)

section \<open>Slots\<close>

text \<open>
  At most one order of a slot is open: one order without approval and one approved quote per
  conversation, one trip order per conversation and route. A draft awaiting approval has no slot.
\<close>

datatype slot = PlainSlot string | QuoteSlot string | TripSlot string string

definition body_slot :: "string \<Rightarrow> order_body \<Rightarrow> slot option" where
  "body_slot sid b =
     (case b of
        TripBody t \<Rightarrow> Some (TripSlot sid (tb_routeId t))
      | LineBody l \<Rightarrow>
         (case lb_approval l of
            None \<Rightarrow> Some (PlainSlot sid)
          | Some a \<Rightarrow> if qa_state a = QsApproved then Some (QuoteSlot sid) else None))"

definition slot_of :: "order \<Rightarrow> slot option" where
  "slot_of od =
     (if od_status od \<noteq> PendingPayment then None
      else body_slot (od_sessionId od) (od_body od))"

definition quiet :: "order \<Rightarrow> order \<Rightarrow> bool" where
  "quiet a b \<longleftrightarrow> order_ok b \<and> order_evolves a b \<and> once (slot_of b) (slot_of a)"

lemma quiet_ok [intro]: "quiet a b \<Longrightarrow> order_ok b"
  and quiet_evolves [intro]: "quiet a b \<Longrightarrow> order_evolves a b"
  and quiet_id: "quiet a b \<Longrightarrow> od_id b = od_id a"
  by (simp_all add: quiet_def order_evolves_def)

lemma quiet_refl [simp]: "quiet a a \<longleftrightarrow> order_ok a"
  by (simp add: quiet_def)

section \<open>Each change\<close>

lemmas life_defs =
  quiet_def order_ok_def order_evolves_def slot_of_def body_slot_def body_ok_def body_evolves_def
  approval_evolves_def refund_evolves_def once_def

lemma line_new_ok:
  assumes "lines_ok ls n" and "ap = None \<or> ap = Some (pendingApproval t)"
  shows "order_ok (newOrder env sid (LineBody \<lparr>lb_lines = ls, lb_totalFen = n, lb_approval = ap\<rparr>))"
  using assms by (auto simp: newOrder_def life_defs approval_ok_def pendingApproval_def)

lemma trip_new_ok: "tb_refund t = None \<Longrightarrow> order_ok (newOrder env sid (TripBody t))"
  by (simp add: newOrder_def life_defs)

lemma paid_quiet:
  assumes "order_ok od" and "payable od"
  shows "quiet od (paidOrder env w od)"
proof (cases "od_body od")
  case (TripBody t)
  then show ?thesis
    using assms by (cases "tb_refund t") (auto simp: payable_def paidOrder_def life_defs refund_ok_def)
next
  case (LineBody l)
  then show ?thesis
    using assms
    by (cases "lb_approval l")
      (auto simp: payable_def paidOrder_def life_defs approval_ok_def isLineOrder_def od_approval_def)
qed

lemma superseded_quiet:
  assumes "order_ok od" and "od_status od = PendingPayment"
  shows "quiet od (supersededOrder j od)"
proof (cases "od_body od")
  case (TripBody t)
  then show ?thesis
    using assms by (cases "tb_refund t") (auto simp: supersededOrder_def life_defs refund_ok_def)
next
  case (LineBody l)
  then show ?thesis
    using assms by (cases "lb_approval l") (auto simp: supersededOrder_def life_defs approval_ok_def)
qed

text \<open>Changes of the bookkeeping fields touch neither the status nor the body.\<close>

lemma note_quiet:
  assumes "order_ok od"
  shows "quiet od (confirmedOrder env a od)" and "quiet od (od\<lparr>od_paidMarkedBy := x\<rparr>)"
  using assms
  by (simp_all add: confirmedOrder_def quiet_def order_ok_def order_evolves_def slot_of_def)

lemma cancelled_quiet:
  assumes "order_ok od" and "od_status od = PendingPayment" and "od_approval od = None"
  shows "quiet od (cancelledOrder r od)"
proof (cases "od_body od")
  case (TripBody t)
  then show ?thesis
    using assms by (cases "tb_refund t") (auto simp: cancelledOrder_def life_defs refund_ok_def)
next
  case (LineBody l)
  then show ?thesis
    using assms
    by (cases "lb_approval l") (auto simp: cancelledOrder_def life_defs od_approval_def approval_ok_def)
qed

section \<open>Quotes\<close>

lemma od_approval_line:
  "od_approval od = Some q \<longleftrightarrow> (\<exists>l. od_body od = LineBody l \<and> lb_approval l = Some q)"
  by (auto simp: od_approval_def split: order_body.splits)

text \<open>A quote that is neither superseded nor void nor paid is open.\<close>

lemma quote_open:
  assumes ok: "order_ok od" and q: "od_approval od = Some q"
    and st: "quoteState env od now = Inr st" and "st \<noteq> SSuperseded" "st \<noteq> SInvalid" "st \<noteq> SPaid"
  shows "od_status od = PendingPayment" and "qa_state q = QsPending \<or> qa_state q = QsApproved"
proof -
  obtain l where l: "od_body od = LineBody l" "lb_approval l = Some q"
    using q by (auto simp: od_approval_line)
  have a: "approval_ok (od_status od) q" "od_status od \<noteq> RefundPending" "od_status od \<noteq> Refunded"
    using ok l by (auto simp: order_ok_def body_ok_def)
  have s: "od_status od \<noteq> Superseded" "od_status od \<noteq> OrdCancelled"
      "qa_state q \<noteq> QsRejected" "qa_state q \<noteq> QsWithdrawn"
    using st assms(4-6) q by (auto simp: quoteState_def split: if_splits)
  show "qa_state q = QsPending \<or> qa_state q = QsApproved"
    using s by (cases "qa_state q") auto
  have "od_status od \<noteq> Paid"
  proof
    assume paid: "od_status od = Paid"
    then have "qa_state q = QsApproved" using a by (simp add: approval_ok_def)
    then show False using st assms(4-6) q paid s by (auto simp: quoteState_def split: if_splits)
  qed
  then show "od_status od = PendingPayment" using s a by (cases "od_status od") auto
qed

lemma reject_quiet:
  assumes "order_ok od" "od_approval od = Some q" "od_status od = PendingPayment"
    and "qa_state q = QsPending"
  shows "quiet od (rejectedOrder env a q r od)"
  using assms
  by (auto simp: od_approval_line rejectedOrder_def set_approval_def life_defs approval_ok_def)

lemma withdraw_quiet:
  assumes "order_ok od" "od_approval od = Some q" "od_status od = PendingPayment"
    and "qa_state q = QsPending \<or> qa_state q = QsApproved"
  shows "quiet od (withdrawnOrder env a q r od)"
  using assms
  by (auto simp: od_approval_line withdrawnOrder_def set_approval_def Let_def life_defs approval_ok_def)

lemma accept_quiet:
  assumes "order_ok od" "od_approval od = Some q" "qa_state q = QsApproved" "qa_acceptedAt q = None"
  shows "quiet od (set_approval (q\<lparr>qa_acceptedAt := Some t\<rparr>) od)"
  using assms by (auto simp: od_approval_line set_approval_def life_defs approval_ok_def)

lemma snapshot_fields:
  "snapshotQuoteApproval env od a = Inr a' \<Longrightarrow>
   qa_state a' = qa_state a \<and> qa_acceptedAt a' = qa_acceptedAt a \<and> qa_validUntil a' \<noteq> None"
  by (auto simp: snapshotQuoteApproval_def Let_def split: option.splits sum.splits)

text \<open>Approval opens a slot: it evolves the order but is not quiet.\<close>

lemma approve_evolves:
  assumes "order_ok od" "od_approval od = Some q" "od_status od = PendingPayment"
    and "qa_state q = QsPending"
    and "qa_state q' = QsApproved" "qa_acceptedAt q' = qa_acceptedAt q" "qa_validUntil q' \<noteq> None"
  shows "order_ok ((set_approval q' od)\<lparr>od_confirmedAt := c, od_confirmedBy := d\<rparr>)"
    and "order_evolves od ((set_approval q' od)\<lparr>od_confirmedAt := c, od_confirmedBy := d\<rparr>)"
  using assms by (auto simp: od_approval_line set_approval_def life_defs approval_ok_def)

section \<open>Refunds\<close>

lemma od_refund_trip:
  "od_body od = TripBody t \<Longrightarrow> od_refund od = tb_refund t"
  by (simp add: od_refund_def)

lemma refund_new_quiet:
  assumes "order_ok od" "od_body od = TripBody t" "od_status od = Paid"
    and "map_option rf_approval (tb_refund t) \<noteq> Some RaRejected"
    and "quoteHolds q ti (tb_totalPrice t)"
  shows "quiet od (refundedOrder env (newRefund env rid q terms ti) od)"
proof -
  have none: "tb_refund t = None"
    using assms by (cases "tb_refund t") (auto simp: order_ok_def body_ok_def refund_ok_def)
  show ?thesis
    using assms(1-3,5) none
    by (auto simp: refundedOrder_def newRefund_def needsHuman_def set_refund_def life_defs refund_ok_def
        trip_of_def quoteHolds_def)
qed

lemma refund_decide_quiet:
  assumes "order_ok od" "od_body od = TripBody t" "tb_refund t = Some r"
    and "od_status od = RefundPending" "rf_approval r = RaPending"
  shows "quiet od ((set_refund (settleBy env p (decide env a RaApproved y r)) od)\<lparr>od_status := Refunded\<rparr>)"
    and "rf_settlement r \<noteq> RsMock \<Longrightarrow> quiet od (set_refund (decide env a RaApproved y r) od)"
    and "quiet od ((set_refund (decide env a RaRejected y r) od)\<lparr>od_status := Paid\<rparr>)"
  using assms
  by (auto simp: set_refund_def settleBy_def decide_def life_defs refund_ok_def trip_of_def refund_terms_of_def)

lemma refund_settle_quiet:
  assumes "order_ok od" "od_body od = TripBody t" "tb_refund t = Some r"
    and "od_status od = RefundPending" "rf_approval r = RaAuto \<or> rf_approval r = RaApproved"
  shows "quiet od ((set_refund (settleBy env p r) od)\<lparr>od_status := Refunded\<rparr>)"
  using assms by (auto simp: set_refund_def settleBy_def life_defs refund_ok_def trip_of_def refund_terms_of_def)

end
