(* ===== verification/OrderWorld.thy ===== *)
theory OrderWorld
  imports OrderLife
begin

text \<open>
  The store of orders as a whole: its invariant, the changes that keep it without a look at the
  other orders (\<open>calm\<close>), and what every action of \<open>OrderStore\<close>, \<open>OrderOps\<close> and \<open>RefundOps\<close> does
  to it.
\<close>

section \<open>The invariant\<close>

definition stored :: "order_world \<Rightarrow> string set" where
  "stored w = {i. FxStored i \<in> set (ow_out w)}"

text \<open>
  Every order is well-formed, under its own id, and was scheduled for the save; sessions are under
  their own ids.
\<close>

definition rows_ok :: "order_world \<Rightarrow> bool" where
  "rows_ok w \<longleftrightarrow>
     jwf (ow_orders w) \<and>
     (\<forall>i od. getAnyOrder w i = Some od \<longrightarrow> od_id od = i \<and> order_ok od \<and> i \<in> stored w) \<and>
     (\<forall>sid s. getSession w sid = Some s \<longrightarrow> hs_id s = sid)"

text \<open>No slot but perhaps \<open>x\<close> holds two open orders.\<close>

definition one_open_but :: "slot option \<Rightarrow> order_world \<Rightarrow> bool" where
  "one_open_but x w \<longleftrightarrow>
     (\<forall>i j a b. getAnyOrder w i = Some a \<longrightarrow> getAnyOrder w j = Some b \<longrightarrow>
        slot_of a = slot_of b \<longrightarrow> slot_of a \<noteq> None \<longrightarrow> slot_of a \<noteq> x \<longrightarrow> i = j)"

text \<open>Every trip order but perhaps \<open>k\<close> is in the list of its conversation.\<close>

definition listed_but :: "string option \<Rightarrow> order_world \<Rightarrow> bool" where
  "listed_but k w \<longleftrightarrow>
     (\<forall>i od s. getAnyOrder w i = Some od \<longrightarrow> \<not> isLineOrder od \<longrightarrow>
        getSession w (od_sessionId od) = Some s \<longrightarrow> Some i \<noteq> k \<longrightarrow> i \<in> set (hs_orderIds s))"

definition inv_but :: "slot option \<Rightarrow> string option \<Rightarrow> order_world \<Rightarrow> bool" where
  "inv_but x k w \<longleftrightarrow> rows_ok w \<and> one_open_but x w \<and> listed_but k w"

definition orders_inv :: "order_world \<Rightarrow> bool" where
  "orders_inv w \<longleftrightarrow> inv_but None None w"

text \<open>
  What happened between two states: an order whose id was in use before is an evolution of the
  order that had it.
\<close>

definition world_le :: "order_world \<Rightarrow> order_world \<Rightarrow> bool" where
  "world_le w w' \<longleftrightarrow>
     stored w \<subseteq> stored w' \<and>
     (\<forall>i b. getAnyOrder w' i = Some b \<longrightarrow> i \<in> stored w \<longrightarrow>
        (\<exists>a. getAnyOrder w i = Some a \<and> order_evolves a b))"

lemma world_le_refl: "world_le w w"
  by (auto simp: world_le_def)

lemma world_le_trans: "world_le a b \<Longrightarrow> world_le b c \<Longrightarrow> world_le a c"
  unfolding world_le_def by (meson order_evolves_trans subset_iff)

lemma inv_but_mono: "inv_but None None w \<Longrightarrow> inv_but x k w"
  by (auto simp: inv_but_def one_open_but_def listed_but_def)

section \<open>Calm changes\<close>

definition ids_kept :: "order_world \<Rightarrow> order_world \<Rightarrow> bool" where
  "ids_kept w w' \<longleftrightarrow>
     (\<forall>sid s'. getSession w' sid = Some s' \<longrightarrow> hs_id s' = sid \<and>
        (\<exists>s. getSession w sid = Some s \<and> set (hs_orderIds s) \<subseteq> set (hs_orderIds s')))"

definition calm :: "order_world \<Rightarrow> order_world \<Rightarrow> bool" where
  "calm w w' \<longleftrightarrow>
     (jwf (ow_orders w) \<longrightarrow> jwf (ow_orders w')) \<and> stored w \<subseteq> stored w' \<and> ids_kept w w' \<and>
     (\<forall>i b. getAnyOrder w' i = Some b \<longrightarrow> (\<exists>a. getAnyOrder w i = Some a \<and> quiet a b))"

lemma once_slot_trans: "quiet a b \<Longrightarrow> quiet b c \<Longrightarrow> quiet a c"
  by (auto simp: quiet_def once_def intro: order_evolves_trans)

lemma ids_kept_trans: "ids_kept a b \<Longrightarrow> ids_kept b c \<Longrightarrow> ids_kept a c"
  unfolding ids_kept_def by (meson subset_trans)

lemma calm_trans: "calm a b \<Longrightarrow> calm b c \<Longrightarrow> calm a c"
  unfolding calm_def by (meson ids_kept_trans once_slot_trans subset_trans)

lemma quiet_line: "quiet a b \<Longrightarrow> isLineOrder b = isLineOrder a"
  by (auto simp: quiet_def order_evolves_def body_evolves_def isLineOrder_def split: order_body.splits)

lemma quiet_session: "quiet a b \<Longrightarrow> od_sessionId b = od_sessionId a"
  by (simp add: quiet_def order_evolves_def)

lemma quiet_slot: "quiet a b \<Longrightarrow> slot_of b \<noteq> None \<Longrightarrow> slot_of a = slot_of b"
  by (auto simp: quiet_def once_def)

lemma calm_orderD:
  "calm w w' \<Longrightarrow> getAnyOrder w' i = Some b \<Longrightarrow> \<exists>a. getAnyOrder w i = Some a \<and> quiet a b"
  by (simp add: calm_def)

lemma calm_sessionD:
  "calm w w' \<Longrightarrow> getSession w' sid = Some s' \<Longrightarrow> hs_id s' = sid \<and>
     (\<exists>s. getSession w sid = Some s \<and> set (hs_orderIds s) \<subseteq> set (hs_orderIds s'))"
  by (simp add: calm_def ids_kept_def)

lemma rows_okD:
  "rows_ok w \<Longrightarrow> getAnyOrder w i = Some od \<Longrightarrow> od_id od = i \<and> order_ok od \<and> i \<in> stored w"
  by (auto simp: rows_ok_def)

lemma session_idD: "rows_ok w \<Longrightarrow> getSession w sid = Some s \<Longrightarrow> hs_id s = sid"
  by (auto simp: rows_ok_def)

lemma calm_rows:
  assumes "rows_ok w" and "calm w w'"
  shows "rows_ok w'"
proof -
  have "od_id b = i \<and> order_ok b \<and> i \<in> stored w'" if "getAnyOrder w' i = Some b" for i b
    using calm_orderD [OF assms(2) that] rows_okD [OF assms(1)] assms(2)
    by (auto simp: calm_def quiet_id)
  then show ?thesis
    using assms calm_sessionD [OF assms(2)] by (auto simp: rows_ok_def calm_def)
qed

lemma calm_open:
  assumes "one_open_but x w" and c: "calm w w'"
  shows "one_open_but x w'"
  unfolding one_open_but_def
proof (intro allI impI)
  fix i j b d
  assume b: "getAnyOrder w' i = Some b" and d: "getAnyOrder w' j = Some d"
    and eq: "slot_of b = slot_of d" "slot_of b \<noteq> None" "slot_of b \<noteq> x"
  obtain a where a: "getAnyOrder w i = Some a" "quiet a b" using calm_orderD [OF c b] by blast
  obtain e where e: "getAnyOrder w j = Some e" "quiet e d" using calm_orderD [OF c d] by blast
  have "slot_of a = slot_of b" "slot_of e = slot_of d"
    using quiet_slot [OF a(2)] quiet_slot [OF e(2)] eq by auto
  then show "i = j" using assms(1) a(1) e(1) eq unfolding one_open_but_def by metis
qed

lemma calm_listed:
  assumes "listed_but k w" and c: "calm w w'"
  shows "listed_but k w'"
  unfolding listed_but_def
proof (intro allI impI)
  fix i b s'
  assume b: "getAnyOrder w' i = Some b" and l: "\<not> isLineOrder b"
    and s': "getSession w' (od_sessionId b) = Some s'" and k: "Some i \<noteq> k"
  obtain a where a: "getAnyOrder w i = Some a" "quiet a b" using calm_orderD [OF c b] by blast
  obtain s where s: "getSession w (od_sessionId b) = Some s" "set (hs_orderIds s) \<subseteq> set (hs_orderIds s')"
    using calm_sessionD [OF c s'] by blast
  have "i \<in> set (hs_orderIds s)"
    using assms(1) a s(1) l k quiet_line [OF a(2)] quiet_session [OF a(2)]
    unfolding listed_but_def by metis
  then show "i \<in> set (hs_orderIds s')" using s(2) by blast
qed

lemma calm_inv: "inv_but x k w \<Longrightarrow> calm w w' \<Longrightarrow> inv_but x k w'"
  by (auto simp: inv_but_def intro: calm_rows calm_open calm_listed)

lemma calm_le: "calm w w' \<Longrightarrow> world_le w w'"
  unfolding calm_def world_le_def by blast

section \<open>Single changes\<close>

lemma get_fx [simp]: "getAnyOrder (fx es w) i = getAnyOrder w i" "getSession (fx es w) sid = getSession w sid"
  "stored (fx es w) = stored w \<union> {i. FxStored i \<in> set es}"
  by (auto simp: fx_def getAnyOrder_def getSession_def stored_def)

lemma get_put [simp]:
  "getAnyOrder (putOrder od w) i = (if i = od_id od then Some od else getAnyOrder w i)"
  "getSession (putOrder od w) sid = getSession w sid"
  "stored (putOrder od w) = insert (od_id od) (stored w)"
  by (auto simp: putOrder_def fx_def getAnyOrder_def getSession_def stored_def emitOrder_def)

lemma get_keep [simp]:
  "getAnyOrder (keepSession s es w) i = getAnyOrder w i"
  "getSession (keepSession s es w) sid = (if hs_id s = sid then Some s else getSession w sid)"
  "stored (keepSession s es w) = stored w"
  by (simp_all add: keepSession_def commitSession_def getAnyOrder_def getSession_def stored_def)

lemma orders_simps [simp]:
  "ow_orders (fx es w) = ow_orders w" "ow_orders (keepSession s effs w) = ow_orders w"
  "ow_orders (queueJobs sid ops w) = ow_orders w"
  "ow_orders (putOrder od w) = jset (ow_orders w) (od_id od) od"
  by (simp_all add: fx_def keepSession_def queueJobs_def putOrder_def)

lemma get_queue [simp]:
  "getAnyOrder (queueJobs sid ops w) i = getAnyOrder w i"
  "getSession (queueJobs sid ops w) sid' = getSession w sid'"
  "stored (queueJobs sid ops w) = stored w"
  by (simp_all add: queueJobs_def getAnyOrder_def getSession_def stored_def)

lemma ids_kept_refl: "rows_ok w \<Longrightarrow> ids_kept w w"
  by (auto simp: ids_kept_def rows_ok_def)

lemma calm_refl: "rows_ok w \<Longrightarrow> calm w w"
  by (auto simp: calm_def ids_kept_refl dest: rows_okD)

lemma calm_fx: "rows_ok w \<Longrightarrow> calm w (fx es w)"
  by (auto simp: calm_def ids_kept_def dest: rows_okD session_idD)

lemma calm_queue: "rows_ok w \<Longrightarrow> calm w (queueJobs sid ops w)"
  by (auto simp: calm_def ids_kept_def dest: rows_okD session_idD)

lemma calm_keep:
  assumes "rows_ok w" and "getSession w (hs_id s) = Some s0"
    and "set (hs_orderIds s0) \<subseteq> set (hs_orderIds s)"
  shows "calm w (keepSession s es w)"
  using assms by (auto simp: calm_def ids_kept_def dest: rows_okD session_idD)

lemma calm_put:
  assumes "rows_ok w" and "getAnyOrder w (od_id od') = Some od" and "quiet od od'"
  shows "calm w (putOrder od' w)"
  using assms by (auto simp: calm_def ids_kept_def dest: rows_okD session_idD)

lemma calm_save:
  assumes "rows_ok w" and "getAnyOrder w (od_id od') = Some od" and "quiet od od'"
  shows "calm w (saveOrder od' w)"
  using calm_put [OF assms] assms by (simp add: saveOrder_def)

lemma calm_supersede:
  assumes "rows_ok w"
  shows "calm w (fst (supersedeOrder i j w))"
proof (cases "getAnyOrder w i")
  case (Some od)
  have id: "od_id (supersededOrder j od) = i"
    using rows_okD [OF assms Some] by (simp add: supersededOrder_def)
  show ?thesis
    using calm_put [of w "supersededOrder j od" od] superseded_quiet [of od j]
      rows_okD [OF assms Some] Some id assms
    by (auto simp: supersedeOrder_def calm_refl)
qed (simp add: supersedeOrder_def calm_refl assms)

lemma supersede_closes:
  "getAnyOrder (fst (supersedeOrder i j w)) i = Some b \<Longrightarrow> rows_ok w \<Longrightarrow> slot_of b = None"
  by (auto simp: supersedeOrder_def supersededOrder_def slot_of_def rows_ok_def
      split: option.splits if_splits)

lemma supersede_session [simp]: "getSession (fst (supersedeOrder i j w)) sid = getSession w sid"
  by (simp add: supersedeOrder_def split: option.split)

lemma supersede_other:
  "rows_ok w \<Longrightarrow> k \<noteq> i \<Longrightarrow> getAnyOrder (fst (supersedeOrder i j w)) k = getAnyOrder w k"
  by (auto simp: supersedeOrder_def supersededOrder_def dest: rows_okD split: option.split)

lemma calm_closed:
  "calm w w' \<Longrightarrow> getAnyOrder w' i = Some b \<Longrightarrow> getAnyOrder w i = Some a \<Longrightarrow> slot_of a = None \<Longrightarrow>
   slot_of b = None"
  unfolding calm_def by (metis option.inject quiet_slot)

end
