(* ===== verification/OrderCalm.thy ===== *)
theory OrderCalm
  imports OrderWorld
begin

text \<open>
  The actions that open no slot: each leaves the state as a calm change of the state before, errors
  included.
\<close>

section \<open>Conversations\<close>

lemma enterHandoff_ids:
  "enterHandoff env r p b s = (s', effs) \<Longrightarrow> hs_id s' = hs_id s \<and> hs_orderIds s' = hs_orderIds s"
  by (auto simp: enterHandoff_def enterStage_def appendHandoffLog_def addMsg_def Let_def
      split: if_splits)

lemma takeover_ids:
  assumes "takeover env h sid a force = Inr (h', r)" and "\<And>t s. jget (hw_sessions h) t = Some s \<Longrightarrow> hs_id s = t"
    and "jget (hw_sessions h') t = Some s'"
  shows "hs_id s' = t \<and> (\<exists>s. jget (hw_sessions h) t = Some s \<and> hs_orderIds s' = hs_orderIds s)"
proof -
  obtain s where s: "jget (hw_sessions h) sid = Some s"
    using assms(1) by (auto simp: takeover_def split: option.splits)
  obtain s1 effs where e: "enterForTakeover env a s = (s1, effs)" by force
  have ids: "hs_id s1 = hs_id s" "hs_orderIds s1 = hs_orderIds s"
    using e by (auto simp: enterForTakeover_def dest: enterHandoff_ids split: if_splits prod.splits)
  show ?thesis
    using assms s e ids by (auto simp: takeover_def Let_def commitSession_def split: if_splits)
qed

lemma calm_takeover:
  assumes "rows_ok w" and "takeover env (ow_hand w) sid a force = Inr (h', r)"
  shows "calm w (w\<lparr>ow_hand := h'\<rparr>)"
proof -
  have "hs_id s' = t \<and> (\<exists>s. getSession w t = Some s \<and> set (hs_orderIds s) \<subseteq> set (hs_orderIds s'))"
    if "getSession (w\<lparr>ow_hand := h'\<rparr>) t = Some s'" for t s'
    using takeover_ids [OF assms(2), of t s'] that session_idD [OF assms(1)]
    by (auto simp: getSession_def)
  then have "ids_kept w (w\<lparr>ow_hand := h'\<rparr>)" by (simp add: ids_kept_def)
  then show ?thesis
    using assms(1) by (auto simp: calm_def getAnyOrder_def stored_def dest: rows_okD)
qed

lemma calm_session:
  assumes "rows_ok w" and "getSession w sid = Some s" and "hs_id s' = hs_id s"
    and "hs_orderIds s' = hs_orderIds s"
  shows "calm w (keepSession s' es w)"
  using calm_keep [of w s' s] assms session_idD [OF assms(1,2)] by simp

lemma calm_decided: "rows_ok w \<Longrightarrow> calm w (quoteDecided env od ev w)"
  unfolding quoteDecided_def
  by (auto intro!: calm_session calm_refl split: option.splits)

lemma decided_orders [simp]: "getAnyOrder (quoteDecided env od ev w) i = getAnyOrder w i"
  by (simp add: quoteDecided_def split: option.split)

lemma calm_notice: "rows_ok w \<Longrightarrow> calm w (noticeTo env sid t w)"
  and calm_failed: "rows_ok w \<Longrightarrow> calm w (noticeFailed env sid t w)"
proof -
  assume ok: "rows_ok w"
  show "calm w (noticeFailed env sid t w)"
    unfolding noticeFailed_def using ok
    by (auto intro!: calm_session calm_refl simp: addMsg_def split: option.splits)
  show "calm w (noticeTo env sid t w)"
  proof (cases "getSession w sid")
    case (Some s)
    have c: "calm w (keepSession (addMsg (customerMsg env t) s) [] w)"
      by (rule calm_session [OF ok Some]) (simp_all add: addMsg_def)
    show ?thesis
      using calm_trans [OF c calm_fx [OF calm_rows [OF ok c]]] Some by (simp add: noticeTo_def)
  qed (simp add: noticeTo_def calm_refl ok)
qed

lemma calm_quoteNotice: "rows_ok w \<Longrightarrow> calm w (quoteNotice env od t w)"
  by (auto simp: quoteNotice_def intro: calm_refl calm_notice split: option.split)

section \<open>Loops\<close>

lemma calm_supersedeIf: "rows_ok w \<Longrightarrow> calm w (fst (supersedeIf cond j ods w))"
proof (induction ods arbitrary: w)
  case (Cons od ods)
  show ?case
  proof (cases "cond od")
    case (Inr b)
    let ?w = "if b then fst (supersedeOrder (od_id od) j w) else w"
    have c: "calm w ?w" using Cons.prems by (simp add: calm_supersede calm_refl)
    have "calm ?w (fst (supersedeIf cond j ods ?w))"
      using Cons.IH calm_rows [OF Cons.prems c] by blast
    then show ?thesis using calm_trans [OF c] Inr by simp
  qed (simp add: calm_refl Cons.prems)
qed (simp add: calm_refl)

lemma supersedeIf_sessions [simp]:
  "getSession (fst (supersedeIf cond j ods w)) sid = getSession w sid"
  by (induction cond j ods w rule: supersedeIf.induct) (auto split: sum.split)

lemma supersedeIf_other:
  "rows_ok w \<Longrightarrow> i \<notin> od_id ` set ods \<Longrightarrow>
   getAnyOrder (fst (supersedeIf cond j ods w)) i = getAnyOrder w i"
proof (induction ods arbitrary: w)
  case (Cons od ods)
  have "rows_ok (if b then fst (supersedeOrder (od_id od) j w) else w)" for b
    using Cons.prems calm_rows [OF _ calm_supersede] by auto
  then show ?case using Cons supersede_other [of w i "od_id od"] by (auto split: sum.split)
qed simp

text \<open>The orders the loop is to close are closed.\<close>

lemma supersedeIf_closes:
  assumes "rows_ok w" and "od \<in> set ods" and "cond od = Inr True"
    and "\<And>x. x \<in> set ods \<Longrightarrow> \<exists>b. cond x = Inr b"
    and "getAnyOrder (fst (supersedeIf cond j ods w)) (od_id od) = Some b"
  shows "slot_of b = None"
  using assms
proof (induction ods arbitrary: w)
  case (Cons x ods)
  obtain d where d: "cond x = Inr d" using Cons.prems(4) by auto
  let ?w = "if d then fst (supersedeOrder (od_id x) j w) else w"
  have c: "calm w ?w" using Cons.prems(1) by (simp add: calm_supersede calm_refl)
  have ok: "rows_ok ?w" using calm_rows [OF Cons.prems(1) c] .
  have fin: "getAnyOrder (fst (supersedeIf cond j ods ?w)) (od_id od) = Some b"
    using Cons.prems(5) d by simp
  show ?case
  proof (cases "od = x")
    case True
    have c2: "calm ?w (fst (supersedeIf cond j ods ?w))" by (rule calm_supersedeIf [OF ok])
    obtain a where a: "getAnyOrder ?w (od_id od) = Some a" "quiet a b"
      using calm_orderD [OF c2 fin] by blast
    have "slot_of a = None"
      using a(1) True d Cons.prems(1,3) supersede_closes [of "od_id x" j w a] by simp
    then show ?thesis by (rule calm_closed [OF c2 fin a(1)])
  next
    case False
    then have "od \<in> set ods" using Cons.prems(2) by simp
    then show ?thesis using Cons.IH [OF ok _ _ _ fin] Cons.prems(3,4) by simp
  qed
qed simp

section \<open>Actions\<close>

lemma orderFor_get: "orderFor w i a q = Inr od \<Longrightarrow> getAnyOrder w i = Some od"
  by (auto simp: orderFor_def split: if_splits option.splits)

lemma quoteFor_get: "quoteFor w i a = Inr (od, q) \<Longrightarrow> getAnyOrder w i = Some od \<and> od_approval od = Some q"
  by (auto simp: quoteFor_def dest: orderFor_get split: sum.splits option.splits)

text \<open>A change of one order after some calm bookkeeping.\<close>

lemma calm_change:
  assumes "rows_ok w" and "calm w w1" and "getAnyOrder w1 i = Some od" and "quiet od od'"
  shows "calm w (saveOrder od' w1)"
proof -
  have ok: "rows_ok w1" by (rule calm_rows [OF assms(1,2)])
  have "od_id od' = i" using rows_okD [OF ok assms(3)] quiet_id [OF assms(4)] by simp
  then show ?thesis using calm_trans [OF assms(2) calm_save [OF ok _ assms(4)]] assms(3) by simp
qed

lemma calm_audit: "rows_ok w \<Longrightarrow> calm w (audit od a act w)"
  by (simp add: audit_def calm_fx)

lemma audit_get [simp]: "getAnyOrder (audit od a act w) i = getAnyOrder w i"
  "getSession (audit od a act w) sid = getSession w sid"
  by (simp_all add: audit_def)

lemma calm_markPaid:
  assumes ok: "rows_ok w"
  shows "calm w (fst (markOrderPaid env i w))"
proof (cases "getAnyOrder w i")
  case (Some od)
  have "od_id (paidOrder env w od) = od_id od" by (simp add: paidOrder_def)
  then show ?thesis
    using Some calm_put [OF ok _ paid_quiet [of od env w]] rows_okD [OF ok Some] calm_refl [OF ok]
    by (auto simp: markOrderPaid_def)
qed (simp add: markOrderPaid_def calm_refl ok)

lemma calm_confirm:
  assumes ok: "rows_ok w"
  shows "calm w (fst (confirmOrder env i a w))"
proof (cases "orderFor w i a False")
  case (Inr od)
  have g: "getAnyOrder w i = Some od" by (rule orderFor_get [OF Inr])
  have q: "quiet od (confirmedOrder env a od)" using rows_okD [OF ok g] note_quiet(1) by blast
  have "calm w (saveOrder (confirmedOrder env a od) (audit (confirmedOrder env a od) a AcConfirm w))"
    by (rule calm_change [where i = i, OF ok calm_audit [OF ok] _ q]) (simp add: g)
  then show ?thesis by (simp add: confirmOrder_def Inr calm_refl [OF ok] Let_def)
qed (simp add: confirmOrder_def calm_refl ok)

lemma calm_cancel:
  assumes ok: "rows_ok w"
  shows "calm w (fst (cancelOrder env i a reason w))"
proof (cases "orderFor w i a (isQuoteOrder w i)")
  case (Inr od)
  have g: "getAnyOrder w i = Some od" by (rule orderFor_get [OF Inr])
  have o: "order_ok od" using rows_okD [OF ok g] by simp
  show ?thesis
  proof (cases "od_approval od")
    case None
    then have "calm w (saveOrder (cancelledOrder reason od) (audit (cancelledOrder reason od) a AcCancel w))"
      if "od_status od = PendingPayment"
      using that by (intro calm_change [where i = i, OF ok calm_audit [OF ok] _ cancelled_quiet [OF o]])
        (simp_all add: g)
    then show ?thesis using None by (simp add: cancelOrder_def Inr calm_refl [OF ok] Let_def)
  next
    case (Some q)
    show ?thesis
    proof (cases "quoteState env od (oe_now env)")
      case st: (Inr st)
      let ?od = "withdrawnOrder env a q reason od"
      have "calm w (saveOrder ?od (audit ?od a AcQuoteWithdraw (quoteDecided env ?od QeWithdrawn w)))"
        if n: "st \<noteq> SSuperseded" "st \<noteq> SInvalid" "st \<noteq> SPaid"
      proof (rule calm_change [where i = i, OF ok _ _ withdraw_quiet [OF o Some]])
        show "calm w (audit ?od a AcQuoteWithdraw (quoteDecided env ?od QeWithdrawn w))"
          by (rule calm_trans [OF calm_decided [OF ok] calm_audit [OF calm_rows [OF ok calm_decided [OF ok]]]])
      qed (simp_all add: g quote_open [OF o Some st n])
      then show ?thesis using Some st by (simp add: cancelOrder_def Inr calm_refl [OF ok] Let_def)
    qed (simp add: cancelOrder_def Inr calm_refl [OF ok] Some)
  qed
qed (simp add: cancelOrder_def calm_refl ok)

lemma calm_cancelNotify: "rows_ok w \<Longrightarrow> calm w (fst (cancelOrderAndNotify env i a reason w))"
  using calm_cancel [of w env i a reason]
  by (auto simp: cancelOrderAndNotify_def calm_refl Let_def split: sum.split prod.split)

lemma calm_withdraw: "rows_ok w \<Longrightarrow> calm w (fst (withdrawQuote env i a reason w))"
  by (auto simp: withdrawQuote_def calm_refl calm_cancelNotify split: sum.split)

lemma rejectSession_calm:
  assumes "rows_ok w" and "rejectSession env od a r w = Inr w'"
  shows "calm w w'" and "getAnyOrder w' i = getAnyOrder w i"
proof -
  show "calm w w'"
    using assms by (auto simp: rejectSession_def addMsg_def
        intro!: calm_session calm_refl intro: calm_takeover split: option.splits if_splits sum.splits)
  show "getAnyOrder w' i = getAnyOrder w i"
    using assms(2) by (auto simp: rejectSession_def split: option.splits if_splits sum.splits)
      (simp_all add: getAnyOrder_def)
qed

text \<open>A change of the map alone, not scheduled.\<close>

lemma calm_poke:
  assumes ok: "rows_ok w" and g: "getAnyOrder w i = Some od" and q: "quiet od od'"
  shows "calm w (w\<lparr>ow_orders := jset (ow_orders w) i od'\<rparr>)"
  using ok g q by (auto simp: calm_def ids_kept_def getAnyOrder_def getSession_def stored_def rows_ok_def)

lemma calm_reject:
  assumes ok: "rows_ok w"
  shows "calm w (fst (rejectQuote env i a reason w))"
proof (cases "quoteFor w i a")
  case (Inr x)
  then obtain od q where x: "quoteFor w i a = Inr (od, q)" by (cases x) auto
  have g: "getAnyOrder w i = Some od" and q: "od_approval od = Some q" using quoteFor_get [OF x] by auto
  have o: "order_ok od" using rows_okD [OF ok g] by simp
  show ?thesis
  proof (cases "quoteState env od (oe_now env)")
    case st: (Inr st)
    let ?od = "rejectedOrder env a q (trim reason) od" and ?w = "audit (rejectedOrder env a q (trim reason) od) a AcQuoteReject w"
    have c: "calm w ?w" and ok1: "rows_ok ?w" using calm_audit [OF ok] calm_rows [OF ok] by blast+
    have "calm w (fst (case rejectSession env ?od a (trim reason) ?w of
                         Inl e \<Rightarrow> (?w\<lparr>ow_orders := jset (ow_orders ?w) i ?od\<rparr>, Inl e)
                       | Inr w2 \<Rightarrow> (saveOrder ?od (quoteDecided env ?od QeRejected w2),
                                    Inr (oe_rejectedText env od))))"
      if "st = SPending" "qa_state q \<noteq> QsApproved"
    proof -
      have n: "st \<noteq> SSuperseded" "st \<noteq> SInvalid" "st \<noteq> SPaid" using that by auto
      have qu: "quiet od ?od" using that quote_open [OF o q st n] by (intro reject_quiet [OF o q]) auto
      show ?thesis
      proof (cases "rejectSession env ?od a (trim reason) ?w")
        case (Inl e)
        have "calm ?w (?w\<lparr>ow_orders := jset (ow_orders ?w) i ?od\<rparr>)"
          by (rule calm_poke [OF ok1 _ qu]) (simp add: g)
        then show ?thesis using calm_trans [OF c] Inl by simp
      next
        case (Inr w2)
        have c2: "calm w w2" using calm_trans [OF c rejectSession_calm(1) [OF ok1 Inr]] .
        have c3: "calm w (quoteDecided env ?od QeRejected w2)"
          using calm_trans [OF c2 calm_decided [OF calm_rows [OF ok c2]]] .
        have "calm w (saveOrder ?od (quoteDecided env ?od QeRejected w2))"
          by (rule calm_change [where i = i, OF ok c3 _ qu])
            (simp add: g rejectSession_calm(2) [OF ok1 Inr])
        then show ?thesis using Inr by simp
      qed
    qed
    then show ?thesis using x st by (simp add: rejectQuote_def calm_refl [OF ok] Let_def)
  qed (simp add: rejectQuote_def x calm_refl [OF ok] Let_def)
qed (simp add: rejectQuote_def calm_refl ok Let_def)

lemma calm_accept:
  assumes ok: "rows_ok w"
  shows "calm w (fst (recordQuoteAccepted env sid i at w))"
proof (cases "acceptanceTarget w sid i")
  case (Some od)
  then have g: "getAnyOrder w i = Some od"
    by (auto simp: acceptanceTarget_def split: option.splits if_splits)
  have o: "order_ok od" using rows_okD [OF ok g] by simp
  show ?thesis
  proof (cases "od_approval od")
    case q: (Some q)
    let ?w = "saveOrder (set_approval (q\<lparr>qa_acceptedAt := Some at\<rparr>) od)
                (queueJobs sid (quoteNotifyOps sid i NrQuoteAccepted at) w)"
    have "calm w (case getSession ?w sid of None \<Rightarrow> ?w | Some s \<Rightarrow> keepSession s [] ?w)"
      if "qa_acceptedAt q = None" and st: "quoteState env od at = Inr SApproved"
    proof -
      have ap: "qa_state q = QsApproved"
        using st q by (auto simp: quoteState_def split: if_splits option.splits sum.splits)
      have c: "calm w ?w"
        by (rule calm_change [where i = i, OF ok calm_queue [OF ok] _ accept_quiet [OF o q ap that(1)]])
          (simp add: g)
      then have "rows_ok ?w" by (rule calm_rows [OF ok])
      then have "calm ?w (case getSession ?w sid of None \<Rightarrow> ?w | Some s \<Rightarrow> keepSession s [] ?w)"
        by (auto intro: calm_refl calm_session split: option.split)
      then show ?thesis by (rule calm_trans [OF c])
    qed
    then show ?thesis
      using Some q by (auto simp: recordQuoteAccepted_def calm_refl [OF ok] Let_def split: sum.split)
  qed (simp add: recordQuoteAccepted_def Some calm_refl [OF ok])
qed (simp add: recordQuoteAccepted_def calm_refl ok)

lemma calm_markPaidByAdvisor:
  assumes ok: "rows_ok w"
  shows "calm w (fst (markPaidByAdvisor env i a w))"
proof (cases "orderFor w i a False")
  case (Inr od)
  have g: "getAnyOrder w i = Some od" by (rule orderFor_get [OF Inr])
  let ?w = "w\<lparr>ow_orders := jset (ow_orders w) i (od\<lparr>od_paidMarkedBy := Some (who a)\<rparr>)\<rparr>"
  have c: "calm w ?w" using rows_okD [OF ok g] by (intro calm_poke [OF ok g] note_quiet) simp
  have c2: "calm w (fst (markOrderPaid env i ?w))"
    by (rule calm_trans [OF c calm_markPaid [OF calm_rows [OF ok c]]])
  have "calm w (audit od' a AcMarkPaid (fst (markOrderPaid env i ?w)))" for od'
    by (rule calm_trans [OF c2 calm_audit [OF calm_rows [OF ok c2]]])
  then show ?thesis
    by (auto simp: markPaidByAdvisor_def Inr calm_refl [OF ok] Let_def case_prod_beta split: sum.split)
qed (simp add: markPaidByAdvisor_def calm_refl ok)

lemma calm_payRoute:
  assumes ok: "rows_ok w"
  shows "calm w (fst (payRoute env a i w))"
proof -
  have c: "calm w (fst (markOrderPaid env i w))" by (rule calm_markPaid [OF ok])
  have "calm w (audit od a AcMarkPaid (fst (markOrderPaid env i w)))" for od
    by (rule calm_trans [OF c calm_audit [OF calm_rows [OF ok c]]])
  then show ?thesis by (auto simp: payRoute_def calm_refl [OF ok] split: option.split)
qed

section \<open>After the waits\<close>

lemma calm_approveAfter: "rows_ok w \<Longrightarrow> calm w (fst (approveQuoteAfter env sid i nx wait w))"
  by (auto simp: approveQuoteAfter_def sendApproved_def calm_refl calm_quoteNotice split: sum.split)

lemma calm_rejectAfter: "rows_ok w \<Longrightarrow> calm w (fst (rejectQuoteAfter env sid i t wait w))"
  by (auto simp: rejectQuoteAfter_def calm_refl calm_quoteNotice split: option.split)

lemma calm_cancelAfter: "rows_ok w \<Longrightarrow> calm w (fst (cancelOrderAfter env sid i t wait w))"
  by (auto simp: cancelOrderAfter_def calm_refl calm_quoteNotice split: option.split)

lemma calm_notifyPaid: "rows_ok w \<Longrightarrow> calm w (fst (notifyPaid env i w))"
  by (auto simp: notifyPaid_def Let_def addMsg_def intro!: calm_refl calm_session split: option.split)

lemma calm_paidAfter:
  assumes ok: "rows_ok w"
  shows "calm w (fst (markPaidAfter env sid i wait w))"
proof -
  obtain w1 r where n: "notifyPaid env i w = (w1, r)" by force
  have c: "calm w w1" using calm_notifyPaid [OF ok, of env i] n by simp
  have "calm w (fx es w1)" for es by (rule calm_trans [OF c calm_fx [OF calm_rows [OF ok c]]])
  then show ?thesis
    using n c by (auto simp: markPaidAfter_def calm_refl [OF ok] split: sum.split option.split)
qed

lemma calm_refundAfter: "rows_ok w \<Longrightarrow> calm w (fst (refundCommitted env sid t wait w))"
  by (auto simp: refundCommitted_def calm_refl calm_notice split: option.split)

section \<open>Refunds\<close>

lemma refundOrderFor_get:
  "refundOrderFor w i a b = Inr (od, t) \<Longrightarrow> getAnyOrder w i = Some od \<and> od_body od = TripBody t"
  by (auto simp: refundOrderFor_def split: if_splits option.splits order_body.splits)

lemma calm_refundAudit: "rows_ok w \<Longrightarrow> calm w (refundAudit od a act w)"
  by (simp add: refundAudit_def calm_fx)

lemma refundAudit_get [simp]: "getAnyOrder (refundAudit od a act w) i = getAnyOrder w i"
  by (simp add: refundAudit_def)

lemma calm_refund_change:
  assumes "rows_ok w" and "getAnyOrder w i = Some od" and "quiet od od'"
  shows "calm w (saveOrder od' (refundAudit od' a act w))"
  by (rule calm_change [where i = i, OF assms(1) calm_refundAudit [OF assms(1)] _ assms(3)])
    (simp add: assms(2))

lemma calm_requestRefund:
  assumes ok: "rows_ok w"
  shows "calm w (fst (requestRefund env rid q terms w))"
proof (cases "getAnyOrder w (rq_orderId q)")
  case (Some od)
  have o: "order_ok od" using rows_okD [OF ok Some] by simp
  show ?thesis
  proof (cases "od_body od")
    case (TripBody t)
    have "calm w (saveOrder (refundedOrder env (newRefund env rid q terms ti) od)
                   (refundAudit (refundedOrder env (newRefund env rid q terms ti) od) None AcRefundRequest w))"
      if "od_status od = Paid" "map_option rf_approval (tb_refund t) \<noteq> Some RaRejected"
        "quoteHolds q ti (tb_totalPrice t)" for ti
      by (rule calm_refund_change [OF ok Some refund_new_quiet [OF o TripBody that]])
    then show ?thesis
      using Some TripBody by (auto simp: requestRefund_def calm_refl [OF ok] Let_def split: option.split)
  qed (simp add: requestRefund_def Some calm_refl [OF ok])
qed (simp add: requestRefund_def calm_refl ok)

lemma calm_approveRefund:
  assumes ok: "rows_ok w"
  shows "calm w (fst (approveRefund env i a w))"
proof (cases "refundOrderFor w i a True")
  case (Inr x)
  then obtain od t where x: "refundOrderFor w i a True = Inr (od, t)" by (cases x) auto
  have g: "getAnyOrder w i = Some od" and b: "od_body od = TripBody t" using refundOrderFor_get [OF x] by auto
  have o: "order_ok od" using rows_okD [OF ok g] by simp
  note q = refund_decide_quiet [OF o b]
  show ?thesis
  proof (cases "tb_refund t")
    case (Some r)
    show ?thesis
      using x Some calm_refund_change [OF ok g q(1) [OF Some]] calm_refund_change [OF ok g q(2) [OF Some]]
      by (auto simp: approveRefund_def calm_refl [OF ok] Let_def)
  qed (simp add: approveRefund_def x calm_refl [OF ok])
qed (simp add: approveRefund_def calm_refl ok)

lemma calm_rejectRefund:
  assumes ok: "rows_ok w"
  shows "calm w (fst (rejectRefund env i a reason w))"
proof (cases "refundOrderFor w i a True")
  case (Inr x)
  then obtain od t where x: "refundOrderFor w i a True = Inr (od, t)" by (cases x) auto
  have g: "getAnyOrder w i = Some od" and b: "od_body od = TripBody t" using refundOrderFor_get [OF x] by auto
  have o: "order_ok od" using rows_okD [OF ok g] by simp
  show ?thesis
  proof (cases "tb_refund t")
    case (Some r)
    show ?thesis
      using x Some calm_refund_change [OF ok g refund_decide_quiet(3) [OF o b Some]]
      by (auto simp: rejectRefund_def calm_refl [OF ok] Let_def)
  qed (simp add: rejectRefund_def x calm_refl [OF ok])
qed (simp add: rejectRefund_def calm_refl ok)

lemma calm_settleRefund:
  assumes ok: "rows_ok w"
  shows "calm w (fst (settleRefund env i a w))"
proof (cases "refundOrderFor w i a False")
  case (Inr x)
  then obtain od t where x: "refundOrderFor w i a False = Inr (od, t)" by (cases x) auto
  have g: "getAnyOrder w i = Some od" and b: "od_body od = TripBody t" using refundOrderFor_get [OF x] by auto
  have o: "order_ok od" using rows_okD [OF ok g] by simp
  show ?thesis
  proof (cases "tb_refund t")
    case (Some r)
    show ?thesis
      using x Some calm_refund_change [OF ok g refund_settle_quiet [OF o b Some]]
      by (auto simp: settleRefund_def calm_refl [OF ok] Let_def)
  qed (simp add: settleRefund_def x calm_refl [OF ok])
qed (simp add: settleRefund_def calm_refl ok)

section \<open>Deleting a conversation's orders\<close>

lemma jget_filter: "jwf m \<Longrightarrow> jget (filter (\<lambda>(_, v). p v) m) k = (case jget m k of None \<Rightarrow> None | Some v \<Rightarrow> if p v then Some v else None)"
proof (induction m)
  case (Cons kv m)
  obtain k' v where kv: "kv = (k', v)" by force
  have "jwf m" and n: "k' \<notin> set (jkeys m)" using Cons.prems by (auto simp: kv jwf_def jkeys_def)
  then have "jget m k' = None" by (simp add: jget_None_iff)
  with Cons.IH \<open>jwf m\<close> show ?case by (auto simp: kv split: option.split)
qed simp

lemma jwf_filter: "jwf m \<Longrightarrow> jwf (filter p m)"
  by (auto simp: jwf_def jkeys_def distinct_map_filter)

lemma calm_delete:
  assumes ok: "rows_ok w"
  shows "calm w (fst (deleteOrdersOfSession sid w))"
proof -
  have wf: "jwf (ow_orders w)" using ok by (simp add: rows_ok_def)
  have g: "getAnyOrder (fst (deleteOrdersOfSession sid w)) i =
      (case getAnyOrder w i of None \<Rightarrow> None | Some od \<Rightarrow> if od_sessionId od \<noteq> sid then Some od else None)" for i
    using jget_filter [OF wf, of "\<lambda>od. od_sessionId od \<noteq> sid"]
    by (simp add: deleteOrdersOfSession_def getAnyOrder_def fx_def Let_def)
  have s: "getSession (fst (deleteOrdersOfSession sid w)) t = getSession w t" for t
    by (simp add: deleteOrdersOfSession_def getSession_def fx_def Let_def)
  have "stored w \<subseteq> stored (fst (deleteOrdersOfSession sid w))"
    by (auto simp: deleteOrdersOfSession_def stored_def fx_def Let_def)
  moreover have "jwf (ow_orders (fst (deleteOrdersOfSession sid w)))"
    using wf by (simp add: deleteOrdersOfSession_def fx_def jwf_filter Let_def)
  ultimately show ?thesis
    using g s ok by (auto simp: calm_def ids_kept_def dest: rows_okD session_idD split: option.splits if_splits)
qed

end
