(* ===== verification/OrderSystem.thy ===== *)
theory OrderSystem
  imports OrderCalm
begin

text \<open>
  The actions that open a slot (approving a quote, creating an order), the runs of the whole order
  component, and the properties of every reachable state: orders and refunds are well-formed, each
  slot holds one open order, and an order only ever evolves along its life.
\<close>

section \<open>Opening a slot\<close>

lemma inv_rows: "inv_but x k w \<Longrightarrow> rows_ok w"
  by (simp add: inv_but_def)

lemma evolves_line: "order_evolves a b \<Longrightarrow> isLineOrder b = isLineOrder a \<and> od_sessionId b = od_sessionId a"
  by (auto simp: order_evolves_def body_evolves_def isLineOrder_def split: order_body.splits)

text \<open>Storing an order whose slot is none or the excepted one.\<close>

lemma rows_ok_put: "rows_ok w \<Longrightarrow> order_ok od \<Longrightarrow> rows_ok (putOrder od w)"
  by (auto simp: rows_ok_def)

lemma open_put:
  "one_open_but x w \<Longrightarrow> slot_of od = None \<or> slot_of od = x \<Longrightarrow> one_open_but x (putOrder od w)"
  unfolding one_open_but_def by (auto split: if_splits)

lemma put_but:
  assumes inv: "inv_but x k w" and g: "getAnyOrder w (od_id od') = Some od"
    and ok: "order_ok od'" and ev: "order_evolves od od'"
    and slot: "slot_of od' = None \<or> slot_of od' = x"
  shows "inv_but x k (putOrder od' w)" and "world_le w (putOrder od' w)"
proof -
  have "listed_but k (putOrder od' w)"
    using inv evolves_line [OF ev] g unfolding inv_but_def listed_but_def by (auto split: if_splits)
  then show "inv_but x k (putOrder od' w)"
    using inv ok slot by (simp add: inv_but_def rows_ok_put open_put)
  show "world_le w (putOrder od' w)" using g ev by (auto simp: world_le_def)
qed

lemma new_but:
  assumes inv: "inv_but x k w" and fresh: "od_id od \<notin> stored w"
    and ok: "order_ok od" and slot: "slot_of od = None \<or> slot_of od = x"
    and lst: "isLineOrder od \<or> k = Some (od_id od)"
  shows "inv_but x k (putOrder od w)" and "world_le w (putOrder od w)"
proof -
  have "listed_but k (putOrder od w)"
    using inv lst by (auto simp: inv_but_def listed_but_def)
  then show "inv_but x k (putOrder od w)"
    using inv ok slot by (simp add: inv_but_def rows_ok_put open_put)
  show "world_le w (putOrder od w)" using fresh by (auto simp: world_le_def)
qed

lemma close_slot:
  assumes "inv_but x k w"
    and "\<And>j b. getAnyOrder w j = Some b \<Longrightarrow> slot_of b = x \<Longrightarrow> x \<noteq> None \<Longrightarrow> j = i"
  shows "inv_but None k w"
  using assms unfolding inv_but_def one_open_but_def by metis

lemma close_list:
  assumes "inv_but x (Some i) w"
    and "\<And>od s. getAnyOrder w i = Some od \<Longrightarrow> getSession w (od_sessionId od) = Some s \<Longrightarrow> i \<in> set (hs_orderIds s)"
  shows "inv_but x None w"
  using assms unfolding inv_but_def listed_but_def by (metis option.inject)

section \<open>Loops that close orders\<close>

lemma calm_fold:
  assumes "\<And>x w. rows_ok w \<Longrightarrow> calm w (f x w)" and "rows_ok w"
  shows "calm w (fold f xs w)"
  using assms(2)
proof (induction xs arbitrary: w)
  case (Cons x xs)
  show ?case
    using calm_trans [OF assms(1) [OF Cons.prems] Cons.IH [OF calm_rows [OF Cons.prems assms(1) [OF Cons.prems]]]]
    by simp
qed (simp add: calm_refl)

lemma fold_closes:
  assumes calm: "\<And>x w. rows_ok w \<Longrightarrow> calm w (f x w)" and ok: "rows_ok w" and x: "x \<in> set xs"
    and closes: "\<And>w b. rows_ok w \<Longrightarrow> getAnyOrder (f x w) i = Some b \<Longrightarrow> slot_of b = None"
    and fin: "getAnyOrder (fold f xs w) i = Some b"
  shows "slot_of b = None"
  using ok x fin
proof (induction xs arbitrary: w)
  case (Cons y xs)
  have ok1: "rows_ok (f y w)" by (rule calm_rows [OF Cons.prems(1) calm [OF Cons.prems(1)]])
  have fin: "getAnyOrder (fold f xs (f y w)) i = Some b" using Cons.prems(3) by simp
  show ?case
  proof (cases "x = y")
    case True
    have c: "calm (f y w) (fold f xs (f y w))" by (rule calm_fold [OF calm ok1])
    obtain a where a: "getAnyOrder (f y w) i = Some a" using calm_orderD [OF c fin] by blast
    have "slot_of a = None" using closes [OF Cons.prems(1)] a True by blast
    then show ?thesis by (rule calm_closed [OF c fin a])
  next
    case False
    then show ?thesis using Cons.IH [OF ok1 _ fin] Cons.prems(2) by simp
  qed
qed simp

lemma fold_keeps:
  "(\<And>x w. P w = P (f x w)) \<Longrightarrow> P (fold f xs w) = P w"
  by (induction xs arbitrary: w) auto

section \<open>Approving\<close>

definition approveStep :: "order_env \<Rightarrow> order \<Rightarrow> order \<Rightarrow> order_world \<Rightarrow> order_world" where
  "approveStep env od old w =
     (if od_id old \<noteq> od_id od \<and> od_sessionId old = od_sessionId od \<and> isApproved old
      then (let w1 = fst (supersedeOrder (od_id old) (od_id od) w) in
            if snd (supersedeOrder (od_id old) (od_id od) w)
            then quoteDecided env (supersededOrder (od_id od) old) QeSuperseded w1 else w1)
      else w)"

lemma supersedeApproved_fold: "supersedeApproved env od olds w = fold (approveStep env od) olds w"
  by (induction olds arbitrary: w) (simp_all add: approveStep_def case_prod_beta Let_def)

lemma calm_approveStep:
  assumes ok: "rows_ok w"
  shows "calm w (approveStep env od old w)"
proof -
  have c: "calm w (fst (supersedeOrder i j w))" for i j by (rule calm_supersede [OF ok])
  have "calm w (quoteDecided env od' ev (fst (supersedeOrder i j w)))" for od' ev i j
    by (rule calm_trans [OF c calm_decided [OF calm_rows [OF ok c]]])
  then show ?thesis using c by (simp add: approveStep_def Let_def calm_refl [OF ok])
qed

lemma approveStep_keeps:
  "rows_ok w \<Longrightarrow> getAnyOrder (approveStep env od old w) (od_id od) = getAnyOrder w (od_id od)"
  using supersede_other [of w "od_id od" "od_id old"] by (auto simp: approveStep_def Let_def)

lemma supersedeApproved_keeps:
  "rows_ok w \<Longrightarrow> getAnyOrder (fold (approveStep env od) olds w) (od_id od) = getAnyOrder w (od_id od)"
proof (induction olds arbitrary: w)
  case (Cons x xs)
  then show ?case
    using approveStep_keeps [OF Cons.prems] calm_rows [OF Cons.prems calm_approveStep [OF Cons.prems]] by simp
qed simp

lemma approveStep_closes:
  assumes "rows_ok w" and "od_id old \<noteq> od_id od" "od_sessionId old = od_sessionId od" "isApproved old"
    and "getAnyOrder (approveStep env od old w) (od_id old) = Some b"
  shows "slot_of b = None"
  using assms supersede_closes [of "od_id old" "od_id od" w b]
  by (auto simp: approveStep_def Let_def split: if_splits)

lemma in_listAnyOrders: "getAnyOrder w i = Some od \<Longrightarrow> od \<in> set (listAnyOrders w)"
  by (auto simp: getAnyOrder_def listAnyOrders_def jget_map_of dest: map_of_SomeD intro: rev_image_eqI)

lemma slot_quote: "slot_of b = Some (QuoteSlot sid) \<Longrightarrow> isApproved b \<and> od_sessionId b = sid"
  by (auto simp: slot_of_def body_slot_def isApproved_def od_approval_def
      split: if_splits order_body.splits option.splits)

text \<open>After the loop no other quote of the conversation is open and approved.\<close>

lemma supersedeApproved_closes:
  assumes ok: "rows_ok w" and fin: "getAnyOrder (supersedeApproved env od (listAnyOrders w) w) j = Some b"
    and slot: "slot_of b = Some (QuoteSlot (od_sessionId od))"
  shows "j = od_id od"
proof (rule ccontr)
  assume ne: "j \<noteq> od_id od"
  let ?w = "fold (approveStep env od) (listAnyOrders w) w"
  have fin: "getAnyOrder ?w j = Some b" using fin by (simp add: supersedeApproved_fold)
  have c: "calm w ?w" by (rule calm_fold [OF calm_approveStep ok])
  obtain a where a: "getAnyOrder w j = Some a" "quiet a b" using calm_orderD [OF c fin] by blast
  have id: "od_id a = j" using rows_okD [OF ok a(1)] by simp
  have ap: "isApproved a" "od_sessionId a = od_sessionId od"
    using slot_quote [of a] quiet_slot [OF a(2)] slot by auto
  have cl: "slot_of b' = None"
    if "rows_ok w'" "getAnyOrder (approveStep env od a w') j = Some b'" for w' b'
    using approveStep_closes [OF that(1), of a od env b'] that(2) ne id ap by blast
  have "slot_of b = None"
    by (rule fold_closes [where f = "approveStep env od" and x = a, OF calm_approveStep ok
          in_listAnyOrders [OF a(1)] cl fin])
  then show False using slot by simp
qed

definition good :: "order_world \<Rightarrow> order_world \<Rightarrow> bool" where
  "good w w' \<longleftrightarrow> orders_inv w' \<and> world_le w w'"

lemma calm_good: "orders_inv w \<Longrightarrow> calm w w' \<Longrightarrow> good w w'"
  by (auto simp: good_def orders_inv_def intro: calm_inv calm_le)

lemma good_refl: "orders_inv w \<Longrightarrow> good w w"
  by (simp add: good_def world_le_refl)

lemma inv_orders_rows: "orders_inv w \<Longrightarrow> rows_ok w"
  by (simp add: orders_inv_def inv_but_def)

lemma good_approve:
  assumes inv: "orders_inv w"
  shows "good w (fst (approveQuote env i a w))"
proof (cases "quoteFor w i a")
  case (Inr x)
  then obtain od q where x: "quoteFor w i a = Inr (od, q)" by (cases x) auto
  have ok: "rows_ok w" by (rule inv_orders_rows [OF inv])
  have g: "getAnyOrder w i = Some od" and q: "od_approval od = Some q" using quoteFor_get [OF x] by auto
  have o: "order_ok od" and id: "od_id od = i" using rows_okD [OF ok g] by simp_all
  show ?thesis
  proof (cases "quoteState env od (oe_now env)")
    case st: (Inr st)
    let ?a = "q\<lparr>qa_state := QsApproved, qa_decidedAt := Some (oe_now env), qa_decidedBy := Some (who a)\<rparr>"
    have "good w (saveOrder (approvedOrder env a q' od)
             (audit (approvedOrder env a q' od) a AcQuoteApprove
               (quoteDecided env (approvedOrder env a q' od) QeApproved
                 (supersedeApproved env (approvedOrder env a q' od) (listAnyOrders w) w))))"
      if n: "st \<noteq> SSuperseded" "st \<noteq> SInvalid" "st \<noteq> SPaid" and pend: "qa_state q \<noteq> QsApproved"
        and snap: "snapshotQuoteApproval env od ?a = Inr q'" for q'
    proof -
      let ?od = "approvedOrder env a q' od"
      let ?w1 = "supersedeApproved env ?od (listAnyOrders w) w"
      let ?w2 = "audit ?od a AcQuoteApprove (quoteDecided env ?od QeApproved ?w1)"
      have open': "od_status od = PendingPayment" "qa_state q = QsPending"
        using quote_open [OF o q st n] pend by auto
      have f: "qa_state q' = QsApproved" "qa_acceptedAt q' = qa_acceptedAt q" "qa_validUntil q' \<noteq> None"
        using snapshot_fields [OF snap] by auto
      have life: "order_ok ?od" "order_evolves od ?od"
        using approve_evolves [OF o q open' f] by (simp_all add: approvedOrder_def)
      have id': "od_id ?od = i" and sid: "od_sessionId ?od = od_sessionId od"
        using life(2) id by (auto simp: order_evolves_def)
      have slot: "slot_of ?od = Some (QuoteSlot (od_sessionId ?od))"
        using q open' f(1) by (auto simp: od_approval_line slot_of_def body_slot_def approvedOrder_def set_approval_def)
      have c1: "calm w ?w1" by (simp add: supersedeApproved_fold calm_fold [OF calm_approveStep ok])
      have c2: "calm w ?w2"
        using calm_trans [OF c1 calm_trans [OF calm_decided calm_audit]] calm_rows [OF ok c1]
          calm_rows [OF calm_rows [OF ok c1] calm_decided [OF calm_rows [OF ok c1]]] by blast
      have g2: "getAnyOrder ?w2 (od_id ?od) = Some od"
        using supersedeApproved_keeps [OF ok, of env ?od "listAnyOrders w"] g id'
        by (simp add: supersedeApproved_fold)
      have inv2: "inv_but (slot_of ?od) None ?w2"
        using inv_but_mono [of ?w2] calm_inv [OF _ c2] inv unfolding orders_inv_def by blast
      note put = put_but [OF inv2 g2 life, simplified]
      have "j = od_id ?od"
        if "getAnyOrder (putOrder ?od ?w2) j = Some b" "slot_of b = slot_of ?od" for j b
        using that supersedeApproved_closes [OF ok, of env ?od j b] slot by (auto split: if_splits)
      then have "orders_inv (putOrder ?od ?w2)"
        unfolding orders_inv_def by (rule close_slot [OF put(1)])
      then show ?thesis
        using g2 world_le_trans [OF calm_le [OF c2] put(2)] by (simp add: good_def saveOrder_def)
    qed
    then show ?thesis
      using x q st by (auto simp: approveQuote_def good_refl [OF inv] Let_def split: sum.split)
  qed (simp add: approveQuote_def x good_refl [OF inv])
qed (simp add: approveQuote_def good_refl inv)

section \<open>Creating\<close>

text \<open>A well-formed quote always has a state.\<close>

lemma quoteState_total: "order_ok od \<Longrightarrow> \<exists>st. quoteState env od now = Inr st"
  by (cases "od_body od"; cases "od_approval od")
    (auto simp: order_ok_def body_ok_def approval_ok_def od_approval_def quoteState_def quoteValidUntil_def
      split: option.splits)

lemma replacedBy_total: "order_ok old \<Longrightarrow> \<exists>b. replacedBy env approval new old = Inr b"
  using quoteState_total [of old env "oe_now env"]
  by (auto simp: replacedBy_def isExpired_def)

lemma in_openLineOrders:
  assumes "getAnyOrder w i = Some od" "isLineOrder od" "od_sessionId od = sid"
    and "od_status od = PendingPayment" "(od_approval od \<noteq> None) = b"
  shows "od \<in> set (openLineOrders w sid b)"
  using assms in_listAnyOrders [OF assms(1)] by (auto simp: openLineOrders_def)

lemma openLineOrders_in:
  "od \<in> set (openLineOrders w sid b) \<Longrightarrow> rows_ok w \<Longrightarrow> getAnyOrder w (od_id od) = Some od"
  using map_of_is_SomeI [of "ow_orders w"]
  by (force simp: openLineOrders_def listAnyOrders_def rows_ok_def jwf_def jkeys_def getAnyOrder_def jget_map_of)

definition pricing_ok :: "pricing \<Rightarrow> bool" where
  "pricing_ok g \<longleftrightarrow>
     list_all line_ok (pg_lines g) \<and> pg_total g = sum_list (map ol_amountFen (pg_lines g)) \<and>
     is_safe_integer (pg_total g)"

lemma money_Inr: "money v = Inr n \<Longrightarrow> v = Some n \<and> is_safe_integer n \<and> 0 \<le> n"
  by (auto simp: money_def split: option.splits if_splits)

lemma addLine_ok:
  assumes "addLine env p item qty price unit attrs g = Inr g'" and "pricing_ok g" and "1 \<le> qty"
  shows "pricing_ok g' \<and> length (pg_lines g') = Suc (length (pg_lines g)) \<and> pg_rejected g' = pg_rejected g"
  using assms by (auto simp: addLine_def pricing_ok_def line_ok_def dest!: money_Inr split: sum.splits)

lemma rejectLine_ok:
  "pricing_ok g \<Longrightarrow> pricing_ok (rejectLine p r g) \<and> pg_lines (rejectLine p r g) = pg_lines g \<and>
     length (pg_rejected (rejectLine p r g)) = Suc (length (pg_rejected g))"
  by (auto simp: rejectLine_def pricing_ok_def)

lemma pricePick_ok:
  assumes "pricePick env f m s p g = Inr g'" and "pricing_ok g"
  shows "pricing_ok g' \<and> length (pg_lines g') + length (pg_rejected g') =
           Suc (length (pg_lines g) + length (pg_rejected g))"
  using assms(1) addLine_ok [OF _ assms(2)] rejectLine_ok [OF assms(2)]
  by (auto simp: pricePick_def split: option.splits if_splits line_price.splits)

lemma pricePicks_ok:
  "pricePicks env f m s ps g = Inr g' \<Longrightarrow> pricing_ok g \<Longrightarrow>
   pricing_ok g' \<and> length (pg_lines g') + length (pg_rejected g') =
     length ps + (length (pg_lines g) + length (pg_rejected g))"
proof (induction ps arbitrary: g)
  case (Cons p ps)
  then obtain g1 where g1: "pricePick env f m s p g = Inr g1" "pricePicks env f m s ps g1 = Inr g'"
    by (auto split: sum.splits)
  show ?case
    using Cons.IH [OF g1(2)] pricePick_ok [OF g1(1) Cons.prems(2)] by auto
qed simp

definition no_pricing :: pricing where
  "no_pricing = \<lparr>pg_lines = [], pg_rejected = [], pg_total = 0\<rparr>"

lemma priced_lines_ok:
  assumes "pricePicks env f m s ps no_pricing = Inr g" and "pg_rejected g = []" and "ps \<noteq> []"
  shows "lines_ok (pg_lines g) (pg_total g)"
proof -
  have "pricing_ok no_pricing" by (simp add: no_pricing_def pricing_ok_def is_safe_integer_def max_safe_integer_def)
  then have "pricing_ok g" "length (pg_lines g) = length ps"
    using pricePicks_ok [OF assms(1)] assms(2) by (auto simp: no_pricing_def)
  then show ?thesis using assms(3) by (auto simp: lines_ok_def pricing_ok_def)
qed

text \<open>The order after the pack's word is well-formed and evolves from the one just stored.\<close>

lemma autoApproved_life:
  assumes "autoApproved env approval s od0 = Inr od" and "order_ok od0"
    and "approval \<Longrightarrow> \<exists>q. od_approval od0 = Some q \<and> qa_state q = QsPending \<and> qa_acceptedAt q = None"
    and "od_status od0 = PendingPayment"
  shows "order_ok od \<and> order_evolves od0 od \<and> od_status od = PendingPayment"
proof (cases "od = od0")
  case False
  then obtain q' where app: "approval" and snap: "snapshotQuoteApproval env od0 (autoApproval (oe_now env)) = Inr q'"
    and od: "od = (set_approval q' od0)\<lparr>od_confirmedAt := Some (oe_now env)\<rparr>"
    using assms(1) by (auto simp: autoApproved_def split: if_splits sum.splits)
  obtain q where q: "od_approval od0 = Some q" "qa_state q = QsPending" "qa_acceptedAt q = None"
    using assms(3) app by blast
  have f: "qa_state q' = QsApproved" "qa_acceptedAt q' = qa_acceptedAt q" "qa_validUntil q' \<noteq> None"
    using snapshot_fields [OF snap] q by (auto simp: autoApproval_def pendingApproval_def)
  have eq: "od = (set_approval q' od0)\<lparr>od_confirmedAt := Some (oe_now env),
              od_confirmedBy := od_confirmedBy od0\<rparr>"
    by (simp add: od set_approval_def split: order_body.split)
  have st: "od_status od = PendingPayment"
    using assms(4) by (simp add: od set_approval_def split: order_body.split)
  show ?thesis
    using approve_evolves [OF assms(2) q(1) assms(4) q(2) f, where c = "Some (oe_now env)" and d = "od_confirmedBy od0"] st
    by (simp add: eq)
qed (simp add: assms)

lemma slot_plain: "slot_of b = Some (PlainSlot sid) \<Longrightarrow>
    isLineOrder b \<and> od_approval b = None \<and> od_sessionId b = sid \<and> od_status b = PendingPayment"
  and slot_quote_open: "slot_of b = Some (QuoteSlot sid) \<Longrightarrow>
    isLineOrder b \<and> od_approval b \<noteq> None \<and> od_sessionId b = sid \<and> od_status b = PendingPayment"
  and slot_trip: "slot_of b = Some (TripSlot sid r) \<Longrightarrow>
    onRoute r b \<and> \<not> isLineOrder b \<and> od_sessionId b = sid \<and> od_status b = PendingPayment"
  by (auto simp: slot_of_def body_slot_def isLineOrder_def od_approval_def onRoute_def
      split: if_splits order_body.splits option.splits)

lemma keep_ids_good:
  assumes inv: "inv_but x k w" and s: "getSession w (hs_id s') = Some s"
    and ids: "set (hs_orderIds s) \<subseteq> set (hs_orderIds s')"
  shows "inv_but x k (keepSession s' es w)" and "world_le w (keepSession s' es w)"
  using calm_keep [OF inv_rows [OF inv] s ids] inv by (auto intro: calm_inv calm_le)

lemma good_makeLine:
  assumes inv: "orders_inv w" and fresh: "oe_newId env \<notin> stored w"
    and s: "getSession w sid = Some s"
    and lines: "lines_ok (lb_lines l) (lb_totalFen l)"
    and ap: "lb_approval l = (if approval then Some (pendingApproval (oe_now env)) else None)"
  shows "good w (fst (makeLineOrder env approval s (openLineOrders w sid approval) l w))"
proof -
  have ok: "rows_ok w" by (rule inv_orders_rows [OF inv])
  have hid: "hs_id s = sid" by (rule session_idD [OF ok s])
  let ?o0 = "newOrder env sid (LineBody l)" and ?open = "openLineOrders w sid approval"
  have l: "l = \<lparr>lb_lines = lb_lines l, lb_totalFen = lb_totalFen l, lb_approval = lb_approval l\<rparr>" by simp
  have o0: "order_ok ?o0"
    using lines ap by (subst l, intro line_new_ok [where t = "oe_now env"]) auto
  have line0: "isLineOrder ?o0" "od_id ?o0 = oe_newId env" "od_status ?o0 = PendingPayment"
      "od_approval ?o0 = lb_approval l" "od_sessionId ?o0 = sid"
    by (simp_all add: newOrder_def isLineOrder_def od_approval_def)
  let ?w1 = "putOrder ?o0 w"
  show ?thesis
  proof (cases "autoApproved env approval s ?o0")
    case (Inl e)
    then have "approval" by (auto simp: autoApproved_def split: if_splits)
    then have "slot_of ?o0 = None" using ap by (simp add: slot_of_def newOrder_def body_slot_def pendingApproval_def)
    then have "good w ?w1"
      using new_but [of None None w ?o0] inv fresh o0 line0 by (simp add: good_def orders_inv_def)
    then show ?thesis by (simp add: makeLineOrder_def createStoredLineOrder_def Let_def hid Inl)
  next
    case (Inr od)
    have life: "order_ok od \<and> order_evolves ?o0 od \<and> od_status od = PendingPayment"
      by (rule autoApproved_life [OF Inr o0 _ line0(3)]) (auto simp: line0 ap pendingApproval_def)
    have id: "od_id od = oe_newId env" and sid: "od_sessionId od = sid"
      using life line0 by (auto simp: order_evolves_def)
    let ?x = "slot_of od"
    have slot0: "slot_of ?o0 = None \<or> slot_of ?o0 = ?x"
    proof (cases approval)
      case True
      then show ?thesis using ap by (simp add: slot_of_def newOrder_def body_slot_def pendingApproval_def)
    next
      case False
      then show ?thesis using Inr by (simp add: autoApproved_def)
    qed
    have invx: "inv_but ?x None w" using inv inv_but_mono by (simp add: orders_inv_def)
    note n1 = new_but [OF invx, of ?o0, simplified line0(1,2), OF fresh o0 slot0, simplified]
    define w2 where "w2 = (if od = ?o0 then ?w1 else saveOrder od ?w1)"
    have g1: "getAnyOrder ?w1 (od_id od) = Some ?o0" by (simp add: id line0(2))
    have i2: "inv_but ?x None w2 \<and> world_le w w2"
      using n1 put_but [OF n1(1) g1, of] life g1
      by (auto simp: w2_def saveOrder_def intro: world_le_trans)
    have ok2: "rows_ok w2" using i2 inv_rows by blast
    let ?w3 = "fst (supersedeIf (replacedBy env approval od) (od_id od) ?open w2)"
    have c3: "calm w2 ?w3" by (rule calm_supersedeIf [OF ok2])
    have w3: "inv_but ?x None ?w3" "world_le w ?w3"
      using calm_inv [OF _ c3] world_le_trans [OF _ calm_le [OF c3]] i2 by blast+
    have tot: "\<exists>b. replacedBy env approval od y = Inr b" if "y \<in> set ?open" for y
      using that replacedBy_total rows_okD [OF ok openLineOrders_in [OF that ok]] by blast
    have "j = od_id od" if j: "getAnyOrder ?w3 j = Some b" "slot_of b = ?x" "?x \<noteq> None" for j b
    proof (rule ccontr)
      assume ne: "j \<noteq> od_id od"
      obtain a where a: "getAnyOrder w2 j = Some a" "quiet a b" using calm_orderD [OF c3 j(1)] by blast
      have sa: "slot_of a = ?x" using quiet_slot [OF a(2)] j by simp
      have aw: "getAnyOrder w j = Some a" using a(1) ne id line0(2) by (auto simp: w2_def saveOrder_def split: if_splits)
      have ida: "od_id a = j" using rows_okD [OF ok aw] by simp
      have "isLineOrder od" using life line0(1) evolves_line by blast
      then have "?x = Some (PlainSlot sid) \<and> od_approval od = None \<or> ?x = Some (QuoteSlot sid) \<and> isApproved od"
        using j(3) sid by (auto simp: slot_of_def body_slot_def isLineOrder_def od_approval_def isApproved_def
          split: if_splits order_body.splits option.splits)
      moreover have "(od_approval od \<noteq> None) = approval"
        using life line0(4) ap by (auto simp: order_evolves_def body_evolves_def approval_evolves_def od_approval_def
          newOrder_def split: order_body.splits option.splits if_splits)
      ultimately have "a \<in> set ?open \<and> replacedBy env approval od a = Inr True"
      proof (elim disjE conjE)
        assume "?x = Some (PlainSlot sid)" "od_approval od = None"
        then show ?thesis
          using slot_plain [of a sid] sa in_openLineOrders [OF aw] \<open>(od_approval od \<noteq> None) = approval\<close>
          by (simp add: replacedBy_def)
      next
        assume x: "?x = Some (QuoteSlot sid)" and q: "isApproved od"
        then have "approval" using \<open>(od_approval od \<noteq> None) = approval\<close> by (auto simp: isApproved_def)
        have "a \<in> set ?open"
          using slot_quote_open [of a sid] sa x \<open>approval\<close> by (intro in_openLineOrders [OF aw]) auto
        moreover obtain b where "replacedBy env approval od a = Inr b" using tot [OF \<open>a \<in> set ?open\<close>] by blast
        ultimately show ?thesis using q by (auto simp: replacedBy_def split: if_splits sum.splits)
      qed
      then have "slot_of b = None"
        using supersedeIf_closes [OF ok2, of a ?open "replacedBy env approval od" "od_id od" b] tot j(1) ida by auto
      then show False using j by simp
    qed
    then have inv3: "inv_but None None ?w3" by (rule close_slot [OF w3(1)])
    have mk: "makeLineOrder env approval s ?open l w =
        (case supersedeIf (replacedBy env approval od) (od_id od) ?open w2 of
            (w3, Inl e) \<Rightarrow> (w3, Inl e)
          | (w3, Inr _) \<Rightarrow>
             (let jobs = (if map_option qa_state (od_approval od) = Some QsPending
                          then [EfJobs (hs_id s)
                                  (quoteNotifyOps (hs_id s) (od_id od) NrQuotePending (oe_now env))]
                          else [])
              in (keepSession (addOrderId (od_id od) s) jobs w3, Inr (LineMade od False))))"
      unfolding w2_def by (simp only: makeLineOrder_def createStoredLineOrder_def Let_def hid Inr prod.case sum.case)
    obtain v r where r: "supersedeIf (replacedBy env approval od) (od_id od) ?open w2 = (v, r)" by force
    have v: "?w3 = v" by (simp add: r)
    note iv = inv3 [unfolded v] and lv = w3(2) [unfolded v]
    show ?thesis
    proof (cases r)
      case (Inl e)
      then show ?thesis using r iv lv by (simp add: mk good_def orders_inv_def)
    next
      case r': (Inr u)
      have s3: "getSession v (hs_id (addOrderId (od_id od) s)) = Some s"
        unfolding v [symmetric] using s by (simp add: addOrderId_def hid w2_def saveOrder_def)
      have "good w (keepSession (addOrderId (od_id od) s) es v)" for es
        using keep_ids_good [OF iv s3, of es] lv
        by (auto simp: good_def orders_inv_def addOrderId_def intro: world_le_trans)
      then show ?thesis using r r' by (simp add: mk Let_def)
    qed
  qed
qed

lemma good_createLine:
  assumes inv: "orders_inv w" and fresh: "oe_newId env \<notin> stored w"
    and s: "getSession w sid = Some s"
  shows "good w (fst (createLineOrder env s picks opt w))"
proof -
  have ok: "rows_ok w" by (rule inv_orders_rows [OF inv])
  have hid: "hs_id s = sid" by (rule session_idD [OF ok s])
  note same = good_refl [OF inv]
  show ?thesis
  proof (cases "oe_priceLine env")
    case f: (Some f)
    let ?m = "case oe_maxQty env of None \<Rightarrow> 100000 | Some n \<Rightarrow> n"
    let ?b = "case opt of Some b \<Rightarrow> b | None \<Rightarrow> (case oe_quotes env of Some q \<Rightarrow> qh_approval q | None \<Rightarrow> False)"
    let ?open = "openLineOrders w sid ?b"
    note unf = createLineOrder_def f no_pricing_def [symmetric] hid Let_def
    show ?thesis
    proof (cases "\<not> is_safe_integer ?m \<or> ?m < 1 \<or> picks = []")
      case True
      then show ?thesis using same by (auto simp: unf)
    next
      case ne: False
      show ?thesis
      proof (cases "pricePicks env f ?m s picks no_pricing")
        case (Inl e)
        then show ?thesis using ne same by (simp add: unf)
      next
        case g: (Inr g)
        show ?thesis
        proof (cases "pg_rejected g = []")
          case False
          then show ?thesis using ne same g by (simp add: unf)
        next
          case rej: True
          note lines = priced_lines_ok [OF g rej]
          show ?thesis
          proof (cases "reusableOrder env ?b ?open (pg_lines g)")
            case (Inl e)
            then show ?thesis using ne same g rej by (simp add: unf)
          next
            case r: (Inr x)
            show ?thesis
            proof (cases x)
              case None
              then show ?thesis
                using ne g rej r lines good_makeLine [OF inv fresh s, where approval = ?b and
                    l = "\<lparr>lb_lines = pg_lines g, lb_totalFen = pg_total g,
                          lb_approval = (if ?b then Some (pendingApproval (oe_now env)) else None)\<rparr>"]
                by (simp add: unf)
            next
              case (Some od)
              obtain v y where v: "(if ?b then supersedeIf (isExpired env) (od_id od) ?open w else (w, Inr ())) = (v, y)"
                by force
              have "calm w v"
                using v calm_supersedeIf [OF ok, of "isExpired env" "od_id od" ?open] calm_refl [OF ok]
                by (auto split: if_splits)
              then have "good w v" by (rule calm_good [OF inv])
              then show ?thesis using ne g rej r Some v by (cases y) (simp_all add: unf)
            qed
          qed
        qed
      qed
    qed
  qed (simp add: createLineOrder_def same)
qed

section \<open>Trip orders\<close>

definition tripStep :: "string \<Rightarrow> string \<Rightarrow> string \<Rightarrow> order_world \<Rightarrow> order_world" where
  "tripStep routeId newId i w =
     (case getAnyOrder w i of
        None \<Rightarrow> w
      | Some od \<Rightarrow> if onRoute routeId od then fst (supersedeOrder i newId w) else w)"

lemma supersedeTrips_fold: "fst (supersedeTrips r j is w) = fold (tripStep r j) is w"
  by (induction r j "is" w rule: supersedeTrips.induct)
    (auto simp: tripStep_def split: option.split prod.split)

lemma calm_tripStep: "rows_ok w \<Longrightarrow> calm w (tripStep r j i w)"
  by (auto simp: tripStep_def calm_refl calm_supersede split: option.split)

lemma tripStep_closes:
  assumes "rows_ok w" and "getAnyOrder (tripStep r j i w) i = Some b"
  shows "\<not> onRoute r b \<or> slot_of b = None"
  using assms supersede_closes [of i j w b]
  by (auto simp: tripStep_def split: option.splits if_splits)

lemma quiet_route: "quiet a b \<Longrightarrow> onRoute r b = onRoute r a"
  by (cases "od_body a"; cases "od_body b")
    (auto simp: quiet_def order_evolves_def body_evolves_def onRoute_def trip_of_def trip_body.defs
      dest!: arg_cong [of _ _ tb_routeId])

lemma tripStep_session [simp]: "getSession (tripStep r j i w) sid = getSession w sid"
  by (auto simp: tripStep_def split: option.split)

lemma trips_sessions [simp]: "getSession (fold (tripStep r j) is w) sid = getSession w sid"
  by (induction "is" arbitrary: w) auto

text \<open>After the loop no listed order of the route is open, the new one apart.\<close>

lemma trips_closed:
  assumes ok: "rows_ok w" and "i \<in> set is" and fin: "getAnyOrder (fold (tripStep r j) is w) i = Some b"
    and "onRoute r b"
  shows "slot_of b = None"
  using ok assms(2) fin
proof (induction "is" arbitrary: w)
  case (Cons y ys)
  have ok1: "rows_ok (tripStep r j y w)" by (rule calm_rows [OF Cons.prems(1) calm_tripStep [OF Cons.prems(1)]])
  have fin: "getAnyOrder (fold (tripStep r j) ys (tripStep r j y w)) i = Some b" using Cons.prems(3) by simp
  show ?case
  proof (cases "i = y")
    case True
    have c: "calm (tripStep r j y w) (fold (tripStep r j) ys (tripStep r j y w))"
      by (rule calm_fold [OF calm_tripStep ok1])
    obtain a where a: "getAnyOrder (tripStep r j y w) i = Some a" "quiet a b" using calm_orderD [OF c fin] by blast
    have "slot_of a = None"
      using tripStep_closes [OF Cons.prems(1), of r j y a] a True quiet_route [OF a(2), of r] assms(4) by auto
    then show ?thesis by (rule calm_closed [OF c fin a(1)])
  next
    case False
    then show ?thesis using Cons.IH [OF ok1 _ fin] Cons.prems(2) by simp
  qed
qed simp

lemma good_createTrip:
  assumes inv: "orders_inv w" and fresh: "oe_newId env \<notin> stored w"
    and s: "getSession w sid = Some s"
  shows "good w (fst (createTripOrder env s r travelers date q w))"
proof (cases "findTrip w s r travelers date")
  case None
  have ok: "rows_ok w" by (rule inv_orders_rows [OF inv])
  have hid: "hs_id s = sid" by (rule session_idD [OF ok s])
  define t where "t = \<lparr>tb_routeId = r, tb_routeTitle = tq_routeTitle q,
                 tb_travelers = tq_travelers q, tb_departDate = date,
                 tb_totalPrice = tq_total q, tb_refund = None,
                 tb_catalogVersion = tq_version q\<rparr>"
  define od where "od = newOrder env sid (TripBody t)"
  define w1 where "w1 = putOrder od w"
  define w2 where "w2 = fold (tripStep r (od_id od)) (hs_orderIds s) w1"
  have od: "od_id od = oe_newId env" "od_sessionId od = sid" "order_ok od" "\<not> isLineOrder od"
    using trip_new_ok [of t env sid] by (simp_all add: od_def newOrder_def isLineOrder_def t_def)
  have x: "slot_of od = Some (TripSlot sid r)"
    by (simp add: od_def newOrder_def slot_of_def body_slot_def t_def)
  have "inv_but (slot_of od) (Some (od_id od)) w" using inv inv_but_mono by (simp add: orders_inv_def)
  note n1 = new_but [OF this _ od(3), unfolded od(1), OF fresh, simplified, folded w1_def]
  have ok1: "rows_ok w1" using n1(1) inv_rows by blast
  have c2: "calm w1 w2" unfolding w2_def by (rule calm_fold [OF calm_tripStep ok1])
  have i2: "inv_but (slot_of od) (Some (oe_newId env)) w2" by (rule calm_inv [OF n1(1) c2])
  have l2: "world_le w w2" using world_le_trans [OF n1(2) calm_le [OF c2]] .
  have "j = oe_newId env" if b: "getAnyOrder w2 j = Some b" "slot_of b = slot_of od" for j b
  proof (rule ccontr)
    assume ne: "j \<noteq> oe_newId env"
    obtain a where a: "getAnyOrder w1 j = Some a" "quiet a b" using calm_orderD [OF c2 b(1)] by blast
    have aw: "getAnyOrder w j = Some a" using a(1) ne od(1) by (simp add: w1_def)
    have sb: "onRoute r b" "\<not> isLineOrder b" "od_sessionId b = sid" using slot_trip [of b sid r] b(2) x by auto
    have "j \<in> set (hs_orderIds s)"
      using inv aw s sb quiet_line [OF a(2)] quiet_session [OF a(2)]
      unfolding orders_inv_def inv_but_def listed_but_def by auto
    then have "slot_of b = None"
      using trips_closed [OF ok1 _ _ sb(1)] b(1) unfolding w2_def by blast
    then show False using b(2) x by simp
  qed
  then have i3: "inv_but None (Some (oe_newId env)) w2" using close_slot [OF i2] by blast
  let ?s = "addOrderId (od_id od) s"
  have s2: "getSession w2 (hs_id ?s) = Some s" using s by (simp add: w2_def w1_def addOrderId_def hid)
  have "good w (keepSession ?s es w2)" for es
  proof -
    note k = keep_ids_good [OF i3 s2, of es]
    have "inv_but None (Some (oe_newId env)) (keepSession ?s es w2)"
      by (rule k(1)) (auto simp: addOrderId_def)
    then have "inv_but None None (keepSession ?s es w2)"
    proof (rule close_list)
      fix z s' assume z: "getAnyOrder (keepSession ?s es w2) (oe_newId env) = Some z"
        and s': "getSession (keepSession ?s es w2) (od_sessionId z) = Some s'"
      have "getAnyOrder w1 (oe_newId env) = Some od" by (simp add: w1_def od)
      then have "od_sessionId z = sid"
        using calm_orderD [OF c2, of "oe_newId env" z] z quiet_session od(2) by auto
      then show "oe_newId env \<in> set (hs_orderIds s')"
        using s' by (simp add: addOrderId_def hid od(1) split: if_splits) (auto simp: od)
    qed
    moreover have "world_le w (keepSession ?s es w2)"
      using world_le_trans [OF l2 k(2)] by (auto simp: addOrderId_def)
    ultimately show ?thesis by (simp add: good_def orders_inv_def)
  qed
  moreover have "fst (supersedeTrips r (od_id od) (hs_orderIds s) w1) = w2"
    by (simp add: w2_def supersedeTrips_fold)
  ultimately show ?thesis
    using None by (simp add: createTripOrder_def createOrder_def Let_def hid t_def [symmetric] od_def [symmetric]
        w1_def [symmetric] case_prod_beta)
qed (simp add: createTripOrder_def good_refl inv)

section \<open>Runs\<close>

text \<open>
  One step of the process: an action, or a part of one after its wait, of any actor in any
  environment. A new order's id was never stored before. \<open>Elsewhere\<close> is a change of the
  conversations by other components, which keep their ids and their lists of orders.
\<close>

inductive order_step :: "order_world \<Rightarrow> order_world \<Rightarrow> bool" where
  CreateLine: "getSession w sid = Some s \<Longrightarrow> oe_newId env \<notin> stored w \<Longrightarrow>
    order_step w (fst (createLineOrder env s picks opt w))"
| CreateTrip: "getSession w sid = Some s \<Longrightarrow> oe_newId env \<notin> stored w \<Longrightarrow>
    order_step w (fst (createTripOrder env s r travelers date q w))"
| Approve: "order_step w (fst (approveQuote env i a w))"
| ApproveAfter: "order_step w (fst (approveQuoteAfter env sid i nx wait w))"
| Reject: "order_step w (fst (rejectQuote env i a reason w))"
| RejectAfter: "order_step w (fst (rejectQuoteAfter env sid i t wait w))"
| Accept: "order_step w (fst (recordQuoteAccepted env sid i at w))"
| Withdraw: "order_step w (fst (withdrawQuote env i a reason w))"
| Cancel: "order_step w (fst (cancelOrderAndNotify env i a reason w))"
| CancelAfter: "order_step w (fst (cancelOrderAfter env sid i t wait w))"
| Confirm: "order_step w (fst (confirmOrder env i a w))"
| MarkPaid: "order_step w (fst (markPaidByAdvisor env i a w))"
| Pay: "order_step w (fst (payRoute env a i w))"
| PaidAfter: "order_step w (fst (markPaidAfter env sid i wait w))"
| NoticeFailed: "order_step w (noticeFailed env sid t w)"
| RequestRefund: "order_step w (fst (requestRefund env rid rq terms w))"
| ApproveRefund: "order_step w (fst (approveRefund env i a w))"
| RejectRefund: "order_step w (fst (rejectRefund env i a reason w))"
| SettleRefund: "order_step w (fst (settleRefund env i a w))"
| RefundAfter: "order_step w (fst (refundCommitted env sid t wait w))"
| Reset: "order_step w (fst (deleteOrdersOfSession sid w))"
| Elsewhere: "ids_kept w (w\<lparr>ow_hand := h\<rparr>) \<Longrightarrow> order_step w (w\<lparr>ow_hand := h\<rparr>)"

inductive_simps order_step_simps: "order_step w w'"

lemma calm_elsewhere: "rows_ok w \<Longrightarrow> ids_kept w (w\<lparr>ow_hand := h\<rparr>) \<Longrightarrow> calm w (w\<lparr>ow_hand := h\<rparr>)"
  by (auto simp: calm_def getAnyOrder_def stored_def dest: rows_okD [unfolded getAnyOrder_def])

lemmas calm_actions =
  calm_approveAfter calm_reject calm_rejectAfter calm_accept calm_withdraw calm_cancelNotify
  calm_cancelAfter calm_confirm calm_markPaidByAdvisor calm_payRoute calm_paidAfter calm_failed
  calm_requestRefund calm_approveRefund calm_rejectRefund calm_settleRefund calm_refundAfter
  calm_delete calm_elsewhere

lemma step_good: "order_step w w' \<Longrightarrow> orders_inv w \<Longrightarrow> good w w'"
  by (induction rule: order_step.induct)
    (blast intro: good_createLine good_createTrip good_approve calm_good calm_actions inv_orders_rows)+

section \<open>The order book\<close>

text \<open>
  The abstract component: which ids were ever in use, and the status of the orders there are. From
  one book to the next an id in use stays so, an order may vanish but not come back, and a status
  moves along \<open>status_reach\<close>.
\<close>

type_synonym book = "string set \<times> (string \<Rightarrow> order_status option)"

definition book_of :: "order_world \<Rightarrow> book" where
  "book_of w = (stored w, \<lambda>i. map_option od_status (getAnyOrder w i))"

fun book_le :: "book \<Rightarrow> book \<Rightarrow> bool" where
  "book_le (U, m) (V, n) \<longleftrightarrow>
     U \<subseteq> V \<and> (\<forall>i t. i \<in> U \<longrightarrow> n i = Some t \<longrightarrow> (\<exists>s. m i = Some s \<and> status_reach s t))"

lemma book_le_trans: "book_le x y \<Longrightarrow> book_le y z \<Longrightarrow> book_le x z"
proof (cases x; cases y; cases z)
  fix U m V n W k
  assume eq: "x = (U, m)" "y = (V, n)" "z = (W, k)" and "book_le x y" "book_le y z"
  then have le: "U \<subseteq> V" "V \<subseteq> W"
    and mn: "\<And>i t. i \<in> U \<Longrightarrow> n i = Some t \<Longrightarrow> \<exists>s. m i = Some s \<and> status_reach s t"
    and nk: "\<And>i t. i \<in> V \<Longrightarrow> k i = Some t \<Longrightarrow> \<exists>s. n i = Some s \<and> status_reach s t"
    by auto
  have "\<exists>s. m i = Some s \<and> status_reach s t" if i: "i \<in> U" "k i = Some t" for i t
  proof -
    obtain u where u: "n i = Some u" "status_reach u t" using nk i le by blast
    obtain s where "m i = Some s" "status_reach s u" using mn i(1) u(1) by blast
    then show ?thesis using u(2) status_reach_trans by blast
  qed
  then show "book_le x z" using eq le by auto
qed

lemma world_le_book: "world_le w w' \<Longrightarrow> book_le (book_of w) (book_of w')"
  unfolding world_le_def book_of_def order_evolves_def by (auto, metis)

text \<open>Two views of the component's runs: the lives of the orders, and the book.\<close>

interpretation order_lives: simulation order_step orders_inv world_le "\<lambda>w. w"
  by unfold_locales (auto dest: step_good simp: good_def intro: world_le_refl world_le_trans)

lemma step_book: "orders_inv w \<Longrightarrow> order_step w w' \<Longrightarrow> book_le (book_of w) (book_of w')"
  using step_good world_le_book by (auto simp: good_def)

interpretation order_book: simulation order_step orders_inv book_le book_of
proof
  show "orders_inv w \<Longrightarrow> order_step w w' \<Longrightarrow> orders_inv w'" for w w'
    using step_good by (auto simp: good_def)
qed (auto simp: step_book world_le_book world_le_refl intro: book_le_trans)

lemma world_leD:
  "world_le w w' \<Longrightarrow> getAnyOrder w' i = Some b \<Longrightarrow> i \<in> stored w \<Longrightarrow>
   \<exists>a. getAnyOrder w i = Some a \<and> order_evolves a b"
  by (simp add: world_le_def)

lemma run_order_ok:
  assumes "order_step\<^sup>*\<^sup>* w w'" and "orders_inv w" and "getAnyOrder w' i = Some od"
  shows "order_ok od" and "od_id od = i"
  using order_lives.run_keeps [OF assms(1,2)] rows_okD [OF inv_orders_rows _] assms(3) by blast+

lemma run_evolves:
  assumes "order_step\<^sup>*\<^sup>* w w'" and "orders_inv w"
    and "getAnyOrder w i = Some a" and "getAnyOrder w' i = Some b"
  shows "order_evolves a b"
proof -
  have "i \<in> stored w" using rows_okD [OF inv_orders_rows [OF assms(2)] assms(3)] by simp
  then show ?thesis
    using world_leD [OF order_lives.run_simulates [OF assms(1,2)] assms(4)] assms(3) by simp
qed

end
