(* ===== verification/OrderProps.thy ===== *)
theory OrderProps
  imports OrderSystem
begin

text \<open>
  The properties of orders, quotes and refunds, each with a concrete run at which it applies.
\<close>

section \<open>A concrete process\<close>

definition demo_hand_env :: "ms \<Rightarrow> hand_env" where
  "demo_hand_env now =
     \<lparr>he_now = now, he_terminalStages = [''paid''], he_stageOnReturn = (\<lambda>_. None),
      he_turnId = (\<lambda>_. None), he_windowClosesAt = (\<lambda>_. None), he_orderStatus = (\<lambda>_. None),
      he_lagging = (\<lambda>_. False), he_replyVerdict = (\<lambda>_. ReplyWindowClosed None [])\<rparr>"

definition demo_env :: "string \<Rightarrow> ms \<Rightarrow> order_env" where
  "demo_env newId now =
     \<lparr>oe_hand = demo_hand_env now, oe_seed = (\<lambda>_. False), oe_loadedPolicy = None,
      oe_filePolicy = ''p'',
      oe_quotes = Some \<lparr>qh_validDays = (\<lambda>_. Some 7), qh_notes = (\<lambda>_ _. []), qh_approval = True,
                        qh_autoApprovable = (\<lambda>_ _. False)\<rparr>,
      oe_onQuoteDecided = (\<lambda>_ _ _. None), oe_rejectedText = (\<lambda>_. None),
      oe_withdrawnText = (\<lambda>_. None), oe_paidText = (\<lambda>_. js ''paid''),
      oe_refundText = (\<lambda>_ _. None), oe_paymentMode = PayOnline, oe_newId = newId,
      oe_items = (\<lambda>_. Some [\<lparr>it_id = ''x1'', it_text = (\<lambda>_. js ''Valve'')\<rparr>]),
      oe_titleKey = (\<lambda>_. ''title''), oe_version = (\<lambda>_ _. Some 1),
      oe_priceLine = Some (\<lambda>_ _ _ _. PriceOk (Some 2500) (js ''pc'') None), oe_maxQty = None\<rparr>"

definition demo_session :: hand_session where
  "demo_session =
     \<lparr>hs_id = ''s1'', hs_wecom = False, hs_stage = ''closing'', hs_messages = [],
      hs_orderIds = [], hs_handedOver = False, hs_assignee = None, hs_handoff = None,
      hs_stageBeforeHandoff = None, hs_firstHandoffAt = None, hs_handoffCount = None,
      hs_handoffLog = None, hs_consent = None, hs_consentAskCount = None\<rparr>"

definition demo_world :: order_world where
  "demo_world =
     \<lparr>ow_orders = [],
      ow_hand = \<lparr>hw_sessions = [(''s1'', demo_session)], hw_gens = [], hw_recent = [],
                 hw_nextReply = 0, hw_out = []\<rparr>,
      ow_out = []\<rparr>"

definition demo_boss :: actor where
  "demo_boss = \<lparr>ac_userId = Some ''u1'', ac_name = js ''Li'', ac_role = RoleOwner, ac_ip = None\<rparr>"

definition demo_trip :: "int \<Rightarrow> trip_quote" where
  "demo_trip n = \<lparr>tq_routeTitle = js ''Lake'', tq_travelers = 2, tq_total = n, tq_version = None\<rparr>"

text \<open>A trip ordered, and ordered again for another day.\<close>

definition demo_one :: order_world where
  "demo_one = fst (createTripOrder (demo_env ''o1'' 1000) demo_session ''r1'' 2 ''2027-03-01''
                     (demo_trip 9000) demo_world)"

definition demo_two :: order_world where
  "demo_two = fst (createTripOrder (demo_env ''o2'' 2000) (addOrderId ''o1'' demo_session) ''r1'' 2
                     ''2027-03-08'' (demo_trip 9500) demo_one)"

definition demo_order :: "string \<Rightarrow> ms \<Rightarrow> string \<Rightarrow> int \<Rightarrow> order" where
  "demo_order i now date n =
     \<lparr>od_id = i, od_sessionId = ''s1'', od_status = PendingPayment, od_createdAt = now,
      od_paidAt = None, od_supersededBy = None, od_handoffBeforePaid = None,
      od_confirmedAt = None, od_confirmedBy = None, od_paidMarkedBy = None, od_cancelReason = None,
      od_body = TripBody \<lparr>tb_routeId = ''r1'', tb_routeTitle = js ''Lake'', tb_travelers = 2,
        tb_departDate = date, tb_totalPrice = n, tb_refund = None, tb_catalogVersion = None\<rparr>\<rparr>"

lemmas demo_defs =
  demo_world_def demo_session_def demo_env_def demo_hand_env_def demo_trip_def demo_order_def

lemma demo_inv: "orders_inv demo_world"
  by (auto simp: orders_inv_def inv_but_def rows_ok_def one_open_but_def listed_but_def demo_defs
      getAnyOrder_def getSession_def split: if_splits)

lemma demo_session_live: "getSession demo_world ''s1'' = Some demo_session"
  by (simp add: demo_world_def getSession_def)

lemma demo_one_orders: "getAnyOrder demo_one i = (if i = ''o1'' then Some (demo_order ''o1'' 1000 ''2027-03-01'' 9000) else None)"
  and demo_one_session: "getSession demo_one ''s1'' = Some (addOrderId ''o1'' demo_session)"
  and demo_one_stored: "stored demo_one = {''o1''}"
  by (auto simp: demo_one_def demo_defs createTripOrder_def findTrip_def createOrder_def newOrder_def
      Let_def getAnyOrder_def getSession_def stored_def addOrderId_def keepSession_def commitSession_def
      putOrder_def fx_def emitOrder_def)

lemma demo_two_orders:
  "getAnyOrder demo_two ''o1'' = Some (supersededOrder ''o2'' (demo_order ''o1'' 1000 ''2027-03-01'' 9000))"
  "getAnyOrder demo_two ''o2'' = Some (demo_order ''o2'' 2000 ''2027-03-08'' 9500)"
  by (simp_all add: demo_two_def demo_one_orders createTripOrder_def findTrip_def createOrder_def
      newOrder_def Let_def addOrderId_def demo_session_def getOrder_def sameTrip_def demo_order_def
      isLineOrder_def onRoute_def supersedeOrder_def demo_env_def demo_hand_env_def demo_trip_def
      supersededOrder_def)

lemma demo_run_one: "order_step demo_world demo_one"
  unfolding demo_one_def
  by (rule CreateTrip [OF demo_session_live]) (simp add: stored_def demo_defs)

lemma demo_run: "order_step\<^sup>*\<^sup>* demo_world demo_two" "order_step\<^sup>*\<^sup>* demo_one demo_two"
proof -
  have "order_step demo_one demo_two"
    unfolding demo_two_def
    by (rule CreateTrip [OF demo_one_session]) (simp add: demo_one_stored demo_env_def)
  then show "order_step\<^sup>*\<^sup>* demo_one demo_two" by blast
  with demo_run_one show "order_step\<^sup>*\<^sup>* demo_world demo_two" by (meson converse_rtranclp_into_rtranclp)
qed

lemma demo_one_inv: "orders_inv demo_one"
  using step_good [OF demo_run_one demo_inv] by (simp add: good_def)

section \<open>Reachable stores\<close>

text \<open>
  C12: Every order of every reachable store is well-formed: it has a payment time exactly when it is
  paid or in refund, a replacement exactly when superseded; a line order's total is the sum of its
  lines, each the unit price times a positive quantity; a quote is paid only after an approval with
  a deadline, and is void exactly when rejected or withdrawn; a refund's amount is the tier's share
  of the total, a settled one was approved and an open one still waits for somebody.
\<close>

theorem orders_wellformed:
  assumes "order_step\<^sup>*\<^sup>* w w'" and "orders_inv w" and "getAnyOrder w' i = Some od"
  shows "order_ok od \<and> od_id od = i"
  using run_order_ok [OF assms] by simp

lemma orders_wellformed_witness:
  "order_ok (demo_order ''o2'' 2000 ''2027-03-08'' 9500) \<and>
   od_id (demo_order ''o2'' 2000 ''2027-03-08'' 9500) = ''o2''"
  by (rule orders_wellformed [OF demo_run(1) demo_inv demo_two_orders(2)])

text \<open>
  C1: In every reachable store a conversation has at most one open order without approval, at most
  one open approved quote, and at most one open trip order per route: a customer who changes an order
  never has two links that both take money.
\<close>

theorem one_open_order_per_slot:
  assumes "order_step\<^sup>*\<^sup>* w w'" and "orders_inv w"
    and "getAnyOrder w' i = Some a" and "getAnyOrder w' j = Some b"
    and "slot_of a = Some x" and "slot_of b = Some x"
  shows "i = j"
  using order_lives.run_keeps [OF assms(1,2)] assms(3-6)
  unfolding orders_inv_def inv_but_def one_open_but_def by (metis option.distinct(1))

lemma one_open_order_per_slot_witness:
  "\<exists>w. orders_inv w \<and> order_step\<^sup>*\<^sup>* w demo_two \<and>
       slot_of (demo_order ''o2'' 2000 ''2027-03-08'' 9500) = Some (TripSlot ''s1'' ''r1'') \<and>
       ''o2'' = ''o2''"
proof -
  have x: "slot_of (demo_order ''o2'' 2000 ''2027-03-08'' 9500) = Some (TripSlot ''s1'' ''r1'')"
    by (simp add: demo_order_def slot_of_def body_slot_def)
  show ?thesis
    using one_open_order_per_slot [OF demo_run(1) demo_inv demo_two_orders(2) demo_two_orders(2) x x]
      demo_run(1) demo_inv x by blast
qed

text \<open>
  C2: Over any run an order only moves along its life: a superseded or cancelled order never comes
  back, a paid one only goes through its refund, a refunded one stays; the time of payment, the
  replacement, the lines and totals, a quote's deadline and acceptance, and a refund's amount, decision
  and settlement are written once and never changed.
\<close>

theorem order_life_is_forward:
  assumes "order_step\<^sup>*\<^sup>* w w'" and "orders_inv w"
    and "getAnyOrder w i = Some a" and "getAnyOrder w' i = Some b"
  shows "order_evolves a b"
  by (rule run_evolves [OF assms])

lemma order_life_is_forward_witness:
  "order_evolves (demo_order ''o1'' 1000 ''2027-03-01'' 9000)
     (supersededOrder ''o2'' (demo_order ''o1'' 1000 ''2027-03-01'' 9000))"
proof -
  have "getAnyOrder demo_one ''o1'' = Some (demo_order ''o1'' 1000 ''2027-03-01'' 9000)"
    by (simp add: demo_one_orders)
  then show ?thesis
    by (rule order_life_is_forward [OF demo_run(2) demo_one_inv _ demo_two_orders(1)])
qed

text \<open>
  The store with its actions, seen as the book of the ids ever used and the statuses of the
  orders, refines the abstract book: an id is never used again, no order comes back after its
  conversation was reset, and every status moves along the abstract life.
\<close>

theorem order_book_refinement:
  assumes "order_step\<^sup>*\<^sup>* w w'" and "orders_inv w"
  shows "book_le (book_of w) (book_of w')"
  by (rule order_book.run_simulates [OF assms])

lemma order_book_refinement_witness: "book_le (book_of demo_world) (book_of demo_two)"
  by (rule order_book_refinement [OF demo_run(1) demo_inv])

section \<open>Refusals\<close>

text \<open>
  An order that was superseded, cancelled or refunded, or is being refunded, cannot be paid: neither
  the advisor's confirmation nor the payment page changes anything or reports success.
\<close>

theorem closed_order_takes_no_money:
  assumes "getAnyOrder w i = Some od" and "order_ok od"
    and "od_status od \<in> {Superseded, OrdCancelled, RefundPending, Refunded}"
  shows "fst (markPaidByAdvisor env i a w) = w \<and> (\<exists>e. snd (markPaidByAdvisor env i a w) = Inl e) \<and>
         fst (payRoute env a i w) = w \<and> (\<exists>r. snd (payRoute env a i w) = Inr (Inl r)) \<and>
         fst (markOrderPaid env i w) = w"
proof -
  have pay: "fst (payRoute env a i w) = w" "\<exists>r. snd (payRoute env a i w) = Inr (Inl r)"
    and mark: "fst (markOrderPaid env i w) = w"
    using assms(1,3) by (auto simp: payRoute_def markOrderPaid_def payable_def)
  have "fst (markPaidByAdvisor env i a w) = w \<and> (\<exists>e. snd (markPaidByAdvisor env i a w) = Inl e)"
  proof (cases "orderFor w i a False")
    case (Inr od')
    then have "od' = od" using orderFor_get assms(1) by fastforce
    then show ?thesis using Inr assms(3) by (auto simp: markPaidByAdvisor_def split: option.split sum.split)
  qed (simp add: markPaidByAdvisor_def)
  then show ?thesis using pay mark by simp
qed

lemma closed_order_takes_no_money_witness:
  "fst (payRoute (demo_env ''o3'' 5000) demo_boss ''o1'' demo_two) = demo_two \<and>
   fst (markPaidByAdvisor (demo_env ''o3'' 5000) ''o1'' demo_boss demo_two) = demo_two"
proof -
  have "order_ok (supersededOrder ''o2'' (demo_order ''o1'' 1000 ''2027-03-01'' 9000))"
    by (rule run_order_ok(1) [OF demo_run(1) demo_inv demo_two_orders(1)])
  then show ?thesis
    using closed_order_takes_no_money [OF demo_two_orders(1)] by (simp add: supersededOrder_def)
qed

text \<open>
  C24: When the synchronous part of one of these ten actions (\<open>confirmOrder\<close>, \<open>cancelOrder\<close>,
  \<open>withdrawQuote\<close>, \<open>approveQuote\<close>, \<open>recordQuoteAccepted\<close>, \<open>markPaidByAdvisor\<close>, \<open>requestRefund\<close>,
  \<open>approveRefund\<close>, \<open>rejectRefund\<close>, \<open>settleRefund\<close>), all that runs before its first wait, ends in an error,
  it has left the store, the conversations and everything queued exactly as they were, whichever guard
  refused it. Errors after the wait are not meant: \<open>approveQuote\<close>, \<open>withdrawQuote\<close> and \<open>markPaid\<close> report a
  commit that takes too long (\<open>StoreLaggingError\<close>) with the change made. Nor is \<open>createLineOrder\<close>, which
  stores its draft before an approval that may fail.
\<close>

theorem refused_order_action_changes_nothing:
  shows "(case snd (confirmOrder env i a w) of Inl _ \<Rightarrow> fst (confirmOrder env i a w) = w | Inr _ \<Rightarrow> True) \<and>
         (case snd (cancelOrder env i a reason w) of Inl _ \<Rightarrow> fst (cancelOrder env i a reason w) = w | Inr _ \<Rightarrow> True) \<and>
         (case snd (withdrawQuote env i a reason w) of Inl _ \<Rightarrow> fst (withdrawQuote env i a reason w) = w | Inr _ \<Rightarrow> True) \<and>
         (case snd (approveQuote env i a w) of Inl _ \<Rightarrow> fst (approveQuote env i a w) = w | Inr _ \<Rightarrow> True) \<and>
         (case snd (recordQuoteAccepted env sid i at w) of Inl _ \<Rightarrow> fst (recordQuoteAccepted env sid i at w) = w | Inr _ \<Rightarrow> True) \<and>
         (case snd (markPaidByAdvisor env i a w) of Inl _ \<Rightarrow> fst (markPaidByAdvisor env i a w) = w | Inr _ \<Rightarrow> True) \<and>
         (case snd (requestRefund env rid q terms w) of Inl _ \<Rightarrow> fst (requestRefund env rid q terms w) = w | Inr _ \<Rightarrow> True) \<and>
         (case snd (approveRefund env i a w) of Inl _ \<Rightarrow> fst (approveRefund env i a w) = w | Inr _ \<Rightarrow> True) \<and>
         (case snd (rejectRefund env i a reason w) of Inl _ \<Rightarrow> fst (rejectRefund env i a reason w) = w | Inr _ \<Rightarrow> True) \<and>
         (case snd (settleRefund env i a w) of Inl _ \<Rightarrow> fst (settleRefund env i a w) = w | Inr _ \<Rightarrow> True)"
proof (intro conjI)
  show cancel: "case snd (cancelOrder env i a reason w) of Inl _ \<Rightarrow> fst (cancelOrder env i a reason w) = w | Inr _ \<Rightarrow> True" for reason
    by (auto simp: cancelOrder_def Let_def split: sum.split option.split)
  show "case snd (withdrawQuote env i a reason w) of Inl _ \<Rightarrow> fst (withdrawQuote env i a reason w) = w | Inr _ \<Rightarrow> True"
    using cancel [of "trim reason"]
    by (auto simp: withdrawQuote_def cancelOrderAndNotify_def Let_def split: sum.split prod.split)
qed (auto simp: confirmOrder_def approveQuote_def recordQuoteAccepted_def markPaidByAdvisor_def requestRefund_def
    approveRefund_def rejectRefund_def settleRefund_def Let_def
    split: sum.split option.split prod.split order_body.split)

section \<open>Deadlines\<close>

text \<open>
  A quote valid for n days ends with the last millisecond of a Shanghai day, at least n and less
  than n + 1 days after it was decided; it is approved up to that instant and expired after it.
\<close>

theorem quote_deadline_ends_a_day:
  assumes "quoteDeadline decidedAt (Some n) = Inr until"
    and "od_status od = PendingPayment" "od_supersededBy od = None"
    and "od_approval od = Some a" "qa_state a = QsApproved" "qa_validUntil a = Some until"
  shows "decidedAt + n * DAY_MS \<le> until \<and> until < decidedAt + (n + 1) * DAY_MS \<and>
         (until + 1 + SHANGHAI_OFFSET) mod DAY_MS = 0 \<and>
         quoteState env od now = Inr (if now \<le> until then SApproved else SExpired)"
proof -
  define d m where "d = (decidedAt + SHANGHAI_OFFSET) div DAY_MS"
    and "m = (decidedAt + SHANGHAI_OFFSET) mod DAY_MS"
  have u: "until = (d + n + 1) * DAY_MS - SHANGHAI_OFFSET - 1"
    using assms(1) by (auto simp: quoteDeadline_def d_def split: if_splits)
  have at: "decidedAt = d * DAY_MS + m - SHANGHAI_OFFSET" by (simp add: d_def m_def)
  have m: "0 \<le> m" "m < DAY_MS" by (simp_all add: m_def DAY_MS_def)
  have "decidedAt + n * DAY_MS \<le> until" "until < decidedAt + (n + 1) * DAY_MS"
    using m by (simp_all add: u at distrib_right)
  moreover have "(until + 1 + SHANGHAI_OFFSET) mod DAY_MS = 0" by (simp add: u)
  moreover have "quoteState env od now = Inr (if now \<le> until then SApproved else SExpired)"
    using assms(2-6) by (simp add: quoteState_def quoteValidUntil_def truthy_def)
  ultimately show ?thesis by simp
qed

definition demo_approved :: order where
  "demo_approved = newOrder (demo_env ''q1'' 1000) ''s1''
     (LineBody \<lparr>lb_lines = [], lb_totalFen = 0,
        lb_approval = Some ((autoApproval 1700000000000)\<lparr>qa_validUntil := Some 1700668799999\<rparr>)\<rparr>)"

lemma quote_deadline_ends_a_day_witness:
  "1700000000000 + 7 * DAY_MS \<le> (1700668799999 :: int) \<and>
   quoteState (demo_env ''q1'' 1000) demo_approved 1700668800000 = Inr SExpired"
proof -
  have d: "quoteDeadline 1700000000000 (Some 7) = Inr 1700668799999"
    by (simp add: quoteDeadline_def DAY_MS_def SHANGHAI_OFFSET_def is_safe_integer_def max_safe_integer_def)
  have "od_approval demo_approved = Some ((autoApproval 1700000000000)\<lparr>qa_validUntil := Some 1700668799999\<rparr>)"
    by (simp add: demo_approved_def newOrder_def od_approval_def)
  from quote_deadline_ends_a_day [OF d _ _ this, of "demo_env ''q1'' 1000" 1700668800000]
  show ?thesis by (simp add: demo_approved_def newOrder_def autoApproval_def)
qed

section \<open>Refunds\<close>

lemma refundAmount_bounds:
  assumes "0 \<le> n" and "0 \<le> p" and "p \<le> 100"
  shows "0 \<le> refundAmount n p \<and> refundAmount n p \<le> n"
proof -
  have "n * p \<le> n * 100" using assms by (intro mult_left_mono) auto
  then have "n * p div 100 \<le> n" using zdiv_mono1 [of "n * p" "n * 100" 100] by simp
  then show ?thesis using assms by (simp add: refundAmount_def pos_imp_zdiv_nonneg_iff)
qed

text \<open>
  C23: In every reachable store a refund is exactly the granted percentage of its order's price, rounded
  down, whatever amount the quote carried; so it is between zero and the price whenever the price is not
  negative and the percentage lies between 0 and 100 (the pack's schema of the policy checks the
  percentage, nothing on this path checks either). What was granted is fixed by the request: in later
  states the refund has the same id, request time, days, tier, percentage, amount and way of settlement.
\<close>

theorem refund_within_price:
  assumes run: "order_step\<^sup>*\<^sup>* w w'" and inv: "orders_inv w"
    and od: "getAnyOrder w' i = Some od" "od_body od = TripBody t" "tb_refund t = Some r"
    and later: "order_step\<^sup>*\<^sup>* w' w''" "getAnyOrder w'' i = Some od'"
  shows "rf_amount r = tb_totalPrice t * rf_percent r div 100 \<and>
         (0 \<le> tb_totalPrice t \<and> 0 \<le> rf_percent r \<and> rf_percent r \<le> 100 \<longrightarrow>
            0 \<le> rf_amount r \<and> rf_amount r \<le> tb_totalPrice t) \<and>
         map_option refund_terms_of (od_refund od') = Some (refund_terms_of r)"
proof -
  have "order_ok od" using run_order_ok [OF run inv od(1)] by simp
  then have "rf_amount r = refundAmount (tb_totalPrice t) (rf_percent r)"
    using od by (simp add: order_ok_def body_ok_def refund_ok_def)
  moreover have "order_evolves od od'"
    by (rule run_evolves [OF later(1) order_lives.run_keeps [OF run inv] od(1) later(2)])
  then obtain t' r' where "od_body od' = TripBody t'" "tb_refund t' = Some r'"
    and "refund_terms_of r' = refund_terms_of r"
    using od by (auto simp: order_evolves_def body_evolves_def refund_evolves_def
        split: order_body.splits option.splits)
  ultimately show ?thesis
    using refundAmount_bounds [of "tb_totalPrice t" "rf_percent r"]
    by (simp add: od_refund_def) (simp add: refundAmount_def)
qed

text \<open>A paid trip, its refund requested.\<close>

definition demo_tier :: refund_tier where
  "demo_tier = \<lparr>ti_id = ''t1'', ti_minDays = 10, ti_maxDays = None, ti_percent = 80\<rparr>"

definition demo_terms :: refund_terms where
  "demo_terms = \<lparr>tm_selfService = True, tm_threshold = 5000, tm_tiers = [demo_tier]\<rparr>"

definition demo_paid :: order_world where
  "demo_paid = fst (markPaidByAdvisor (demo_env ''o3'' 3000) ''o1'' demo_boss demo_one)"

definition demo_paid_order :: order where
  "demo_paid_order = (demo_order ''o1'' 1000 ''2027-03-01'' 9000)
     \<lparr>od_status := Paid, od_paidAt := Some 3000, od_handoffBeforePaid := Some False,
      od_paidMarkedBy := Some (Some ''u1'', js ''Li'')\<rparr>"

definition demo_quote :: refund_quote where
  "demo_quote = \<lparr>rq_orderId = ''o1'', rq_daysBefore = 59, rq_tier = demo_tier, rq_amount = 7200,
                 rq_policyHash = ''h''\<rparr>"

definition demo_refund :: refund_record where
  "demo_refund = \<lparr>rf_id = ''rf1'', rf_requestedAt = 4000, rf_daysBefore = 59, rf_tierId = ''t1'',
     rf_percent = 80, rf_amount = 7200, rf_policyHash = ''h'', rf_approval = RaPending,
     rf_settlement = RsMock, rf_decision = None, rf_settled = None\<rparr>"

definition demo_asked :: order_world where
  "demo_asked = fst (requestRefund (demo_env ''o4'' 4000) ''rf1'' demo_quote demo_terms demo_paid)"

lemma demo_paid_get: "getAnyOrder demo_paid i = (if i = ''o1'' then Some demo_paid_order else None)"
proof -
  have o: "orderFor demo_one ''o1'' demo_boss False = Inr (demo_order ''o1'' 1000 ''2027-03-01'' 9000)"
    by (simp add: orderFor_def demo_boss_def handlesConversations_def HANDLERS_def
        supervisesConversations_def SUPERVISORS_def demo_one_orders)
  have poke: "getAnyOrder (demo_one\<lparr>ow_orders := jset (ow_orders demo_one) j x\<rparr>) i =
      (if i = j then Some x else getAnyOrder demo_one i)" for i j x
    by (simp add: getAnyOrder_def)
  have ses: "getSession (demo_one\<lparr>ow_orders := m\<rparr>) ''s1'' = Some (addOrderId ''o1'' demo_session)" for m
    using demo_one_session by (simp add: getSession_def)
  show ?thesis
    unfolding demo_paid_def markPaidByAdvisor_def o
    by (simp add: demo_order_def od_approval_def isLineOrder_def Let_def markOrderPaid_def poke payable_def
        paidOrder_def demo_paid_order_def demo_one_orders demo_env_def demo_hand_env_def ses addOrderId_def
        demo_session_def who_def demo_boss_def)
qed

lemma demo_asked_get:
  "getAnyOrder demo_asked ''o1'' = Some ((set_refund demo_refund demo_paid_order)\<lparr>od_status := RefundPending\<rparr>)"
  unfolding demo_asked_def requestRefund_def
  by (simp add: demo_paid_get demo_quote_def demo_paid_order_def demo_order_def Let_def demo_env_def
      demo_hand_env_def demo_terms_def demo_tier_def quoteHolds_def tierCovers_def refundAmount_def
      newRefund_def refundedOrder_def needsHuman_def demo_refund_def saveOrder_def refundAudit_def set_refund_def)

lemma demo_refund_run: "order_step\<^sup>*\<^sup>* demo_world demo_asked"
proof -
  have "order_step demo_one demo_paid" unfolding demo_paid_def by (rule MarkPaid)
  moreover have "order_step demo_paid demo_asked" unfolding demo_asked_def by (rule RequestRefund)
  ultimately show ?thesis using demo_run_one by (meson converse_rtranclp_into_rtranclp rtranclp.rtrancl_refl)
qed

lemma refund_within_price_witness:
  "rf_amount demo_refund = 9000 * 80 div 100 \<and> 0 \<le> rf_amount demo_refund \<and> rf_amount demo_refund \<le> 9000"
proof -
  obtain t where t: "od_body ((set_refund demo_refund demo_paid_order)\<lparr>od_status := RefundPending\<rparr>) = TripBody t"
      "tb_refund t = Some demo_refund" "tb_totalPrice t = 9000"
    by (simp add: set_refund_def demo_paid_order_def demo_order_def)
  show ?thesis
    using refund_within_price [OF demo_refund_run demo_inv demo_asked_get t(1,2) rtranclp.rtrancl_refl demo_asked_get]
      t(3) by (simp add: demo_refund_def)
qed

lemma find_by_id:
  assumes "distinct (map k xs)" and "x \<in> set xs"
  shows "List.find (\<lambda>y. k y = k x) xs = Some x"
  using assms
proof (induction xs)
  case (Cons y ys)
  show ?case
  proof (cases "k y = k x")
    case True
    then have "x = y" using Cons.prems by (auto simp: image_iff)
    then show ?thesis by simp
  next
    case False
    then show ?thesis using Cons by auto
  qed
qed simp

lemma find_in: "List.find p xs = Some x \<Longrightarrow> x \<in> set xs \<and> p x"
  by (induction xs) (auto split: if_splits)

text \<open>
  A refund quoted for an order is granted when the customer asks for it: while the store accepts
  writes, the request made with a fresh quote always succeeds, leaves the order in refund, and a second
  request changes nothing and reports the first one.
\<close>

theorem quoted_refund_is_granted:
  assumes g: "getAnyOrder w (od_id od) = Some od" and ok: "order_ok od"
    and q: "quoteRefund od terms h today = Inr q" and ids: "distinct (map ti_id (tm_tiers terms))"
    and up: "\<not> oe_lagging env (od_sessionId od)" "\<not> oe_lagging env2 (od_sessionId od)"
    and req: "requestRefund env rid q terms w = (w', res)"
  shows "\<exists>od' b. res = Inr (RefundRequested od' True b) \<and> getAnyOrder w' (od_id od) = Some od' \<and>
           od_status od' \<in> {RefundPending, Refunded} \<and>
           requestRefund env2 rid2 q terms w' = (w', Inr (RefundRequested od' False b))"
proof -
  obtain t where t: "od_body od = TripBody t" and st: "od_status od = Paid"
      and nr: "map_option rf_approval (tb_refund t) \<noteq> Some RaRejected"
    using q by (auto simp: quoteRefund_def split: order_body.splits if_splits)
  have none: "tb_refund t = None"
    using ok t st nr by (cases "tb_refund t") (auto simp: order_ok_def body_ok_def refund_ok_def)
  have paid: "od_paidAt od \<noteq> None" using ok st by (simp add: order_ok_def)
  obtain ti d where ti: "List.find (tierCovers d) (tm_tiers terms) = Some ti"
      and qq: "q = \<lparr>rq_orderId = od_id od, rq_daysBefore = d, rq_tier = ti,
                   rq_amount = refundAmount (tb_totalPrice t) (ti_percent ti), rq_policyHash = h\<rparr>"
    using q t st nr by (auto simp: quoteRefund_def split: option.splits if_splits)
  have f: "List.find (\<lambda>x. ti_id x = ti_id ti) (tm_tiers terms) = Some ti"
    using find_by_id [OF ids] find_in [OF ti] by blast
  have holds: "quoteHolds q ti (tb_totalPrice t)"
    using find_in [OF ti] by (simp add: qq quoteHolds_def)
  let ?r = "newRefund env rid q terms ti"
  let ?od = "refundedOrder env ?r od"
  have id: "od_id ?od = od_id od" "od_sessionId ?od = od_sessionId od"
    by (simp_all add: refundedOrder_def set_refund_def t)
  have new: "res = Inr (RefundRequested ?od True (needsHuman ?r))"
      "w' = saveOrder ?od (refundAudit ?od None AcRefundRequest w)"
    using req g t st none paid up f holds by (simp_all add: requestRefund_def qq Let_def)
  have g': "getAnyOrder w' (od_id od) = Some ?od"
    using g by (simp add: new saveOrder_def id refundAudit_def)
  have fin: "od_status ?od = RefundPending \<or> od_status ?od = Refunded"
    by (simp add: refundedOrder_def)
  define r' where "r' = (if needsHuman ?r then ?r
      else ?r\<lparr>rf_settled := Some \<lparr>rs_at = oe_now env, rs_by = None\<rparr>\<rparr>)"
  have r': "od_body ?od = TripBody (t\<lparr>tb_refund := Some r'\<rparr>)" "needsHuman r' = needsHuman ?r"
    by (simp_all add: refundedOrder_def set_refund_def t r'_def) (simp add: needsHuman_def)
  have "requestRefund env2 rid2 q terms w' = (w', Inr (RefundRequested ?od False (needsHuman ?r)))"
    using g' r' fin up(2) id by (auto simp: requestRefund_def qq)
  then show ?thesis using new(1) g' fin by auto
qed

lemma quoted_refund_is_granted_witness:
  "\<exists>od' b. snd (requestRefund (demo_env ''o4'' 4000) ''rf1'' demo_quote demo_terms demo_paid) =
             Inr (RefundRequested od' True b) \<and> getAnyOrder demo_asked ''o1'' = Some od'"
proof -
  have id: "od_id demo_paid_order = ''o1''" by (simp add: demo_paid_order_def demo_order_def)
  have g: "getAnyOrder demo_paid (od_id demo_paid_order) = Some demo_paid_order"
    by (simp add: demo_paid_get id)
  have run: "order_step\<^sup>*\<^sup>* demo_world demo_paid"
    using demo_run_one MarkPaid unfolding demo_paid_def
    by (meson converse_rtranclp_into_rtranclp rtranclp.rtrancl_refl)
  have ok: "order_ok demo_paid_order"
    using run_order_ok(1) [OF run demo_inv] g by blast
  have days: "parseDay ''2027-03-01'' = Some 20878" "parseDay ''2027-01-01'' = Some 20819"
    by (simp_all add: parseDay_def digit_char_def read_digits_def digit_val_def daysFromCivil_def)
  have q: "quoteRefund demo_paid_order demo_terms ''h'' ''2027-01-01'' = Inr demo_quote"
    by (simp add: quoteRefund_def demo_paid_order_def demo_order_def days demo_terms_def demo_tier_def
        tierCovers_def refundAmount_def demo_quote_def)
  have up: "\<not> oe_lagging (demo_env ''o4'' 4000) (od_sessionId demo_paid_order)"
    by (simp add: demo_env_def demo_hand_env_def)
  have ids: "distinct (map ti_id (tm_tiers demo_terms))" by (simp add: demo_terms_def)
  show ?thesis
    using quoted_refund_is_granted [OF g ok q ids up up surjective_pairing, where rid = "''rf1''" and
        ?rid2.0 = "''rf2''"] id
    unfolding demo_asked_def by auto
qed

section \<open>Creating an order of lines\<close>

definition pickKey :: "line_pick \<Rightarrow> string \<times> string \<times> int option" where
  "pickKey p = (lp_kind p, lp_code p, lp_qty p)"

definition madeKey :: "order_line \<Rightarrow> string \<times> string \<times> int option" where
  "madeKey l = (ol_kind l, ol_code l, Some (ol_qty l))"

lemma pricePick_lines:
  assumes "pricePick env f m s p g = Inr g'"
  shows "length (pg_rejected g) < length (pg_rejected g') \<or>
         pg_rejected g' = pg_rejected g \<and> map madeKey (pg_lines g') = map madeKey (pg_lines g) @ [pickKey p]"
  using assms
  by (auto simp: pricePick_def rejectLine_def addLine_def madeKey_def pickKey_def
      split: option.splits if_splits line_price.splits sum.splits)

lemma pricePicks_lines:
  "pricePicks env f m s ps g = Inr g' \<Longrightarrow>
   length (pg_rejected g) < length (pg_rejected g') \<or>
   pg_rejected g' = pg_rejected g \<and> map madeKey (pg_lines g') = map madeKey (pg_lines g) @ map pickKey ps"
proof (induction ps arbitrary: g)
  case (Cons p ps)
  then obtain g1 where g1: "pricePick env f m s p g = Inr g1" "pricePicks env f m s ps g1 = Inr g'"
    by (auto split: sum.splits)
  show ?case using Cons.IH [OF g1(2)] pricePick_lines [OF g1(1)] by auto
qed simp

lemma makeLine_shape:
  assumes "makeLineOrder env approval s open' l w = (w', Inr (LineMade od b))"
    and "rows_ok w" and "oe_newId env \<notin> stored w" and "oe_newId env \<notin> od_id ` set open'"
    and "lines_ok (lb_lines l) (lb_totalFen l)"
    and "lb_approval l = (if approval then Some (pendingApproval (oe_now env)) else None)"
  shows "od_id od = oe_newId env \<and> od_lines od = lb_lines l \<and> orderTotalFen od = lb_totalFen l \<and>
         (od_approval od \<noteq> None) = approval \<and> od_status od = PendingPayment \<and>
         getAnyOrder w' (oe_newId env) = Some od \<and>
         getSession w' (hs_id s) = Some (addOrderId (oe_newId env) s)"
proof -
  let ?o0 = "newOrder env (hs_id s) (LineBody l)" and ?w1 = "putOrder (newOrder env (hs_id s) (LineBody l)) w"
  have l: "l = \<lparr>lb_lines = lb_lines l, lb_totalFen = lb_totalFen l, lb_approval = lb_approval l\<rparr>" by simp
  have o0: "order_ok ?o0"
    using assms(5,6) by (subst l, intro line_new_ok [where t = "oe_now env"]) auto
  have line0: "od_id ?o0 = oe_newId env" "od_status ?o0 = PendingPayment" "od_approval ?o0 = lb_approval l"
    by (simp_all add: newOrder_def od_approval_def)
  obtain od' where auto': "autoApproved env approval s ?o0 = Inr od'"
    using assms(1) by (auto simp: makeLineOrder_def createStoredLineOrder_def Let_def split: sum.splits)
  define w2 where "w2 = (if od' = ?o0 then ?w1 else saveOrder od' ?w1)"
  have life: "order_ok od' \<and> order_evolves ?o0 od' \<and> od_status od' = PendingPayment"
    by (rule autoApproved_life [OF auto' o0 _ line0(2)]) (auto simp: line0 assms(6) pendingApproval_def)
  then have id: "od_id od' = oe_newId env" using line0 by (auto simp: order_evolves_def)
  have g2: "getAnyOrder w2 (oe_newId env) = Some od'" and ok2: "rows_ok w2"
    using rows_ok_put [OF assms(2) o0] rows_ok_put [OF rows_ok_put [OF assms(2) o0], of od'] life id line0
    by (auto simp: w2_def saveOrder_def)
  obtain v where v: "supersedeIf (replacedBy env approval od') (od_id od') open' w2 = (v, Inr ())"
      and fin: "od = od'" "\<exists>es. w' = keepSession (addOrderId (od_id od') s) es v"
    using assms(1) auto'
    by (auto simp: makeLineOrder_def createStoredLineOrder_def Let_def w2_def split: sum.splits prod.splits)
  have "getAnyOrder v (oe_newId env) = Some od'"
    using supersedeIf_other [OF ok2 assms(4), of "replacedBy env approval od'" "od_id od'"] v g2 by simp
  moreover obtain m where m: "od_body od' = LineBody m" "lb_lines m = lb_lines l" "lb_totalFen m = lb_totalFen l"
      "approval_evolves (lb_approval l) (lb_approval m)"
    using life by (cases "od_body od'") (auto simp: order_evolves_def body_evolves_def newOrder_def)
  moreover have "(lb_approval m \<noteq> None) = approval"
    using m(4) assms(6) by (auto simp: approval_evolves_def split: option.splits if_splits)
  moreover have "od_lines od' = lb_lines l \<and> orderTotalFen od' = lb_totalFen l \<and> (od_approval od' \<noteq> None) = approval"
    using m(1-3) \<open>(lb_approval m \<noteq> None) = approval\<close> by (simp add: od_lines_def orderTotalFen_def od_approval_def)
  ultimately show ?thesis using fin life id by (auto simp: addOrderId_def)
qed

lemma openLineOrders_stored:
  assumes "rows_ok w" and "i \<in> od_id ` set (openLineOrders w sid b)"
  shows "i \<in> stored w"
proof -
  obtain od where "od \<in> set (openLineOrders w sid b)" "i = od_id od" using assms(2) by blast
  then show ?thesis using rows_okD [OF assms(1) openLineOrders_in [OF _ assms(1)]] by simp
qed

text \<open>How a call of \<open>createLineOrder\<close> can end without an error.\<close>

lemma createLine_cases:
  assumes "createLineOrder env s picks opt w = (w', Inr res)"
  obtains (rejected) rs where "res = LineRejected rs" "w' = w" "rs \<noteq> []"
  | (reused) od ls ap where "res = LineMade od True"
      "reusableOrder env ap (openLineOrders w (hs_id s) ap) ls = Inr (Some od)"
  | (made) f m g ap where "pricePicks env f m s picks no_pricing = Inr g" "pg_rejected g = []" "picks \<noteq> []"
      "makeLineOrder env ap s (openLineOrders w (hs_id s) ap)
         \<lparr>lb_lines = pg_lines g, lb_totalFen = pg_total g,
          lb_approval = (if ap then Some (pendingApproval (oe_now env)) else None)\<rparr> w = (w', Inr res)"
proof (cases "oe_priceLine env")
  case None
  then show ?thesis using assms by (simp add: createLineOrder_def)
next
  case f: (Some f)
  define m where "m = (case oe_maxQty env of None \<Rightarrow> 100000 | Some n \<Rightarrow> n)"
  define ap where "ap = (case opt of Some b \<Rightarrow> b
      | None \<Rightarrow> (case oe_quotes env of Some q \<Rightarrow> qh_approval q | None \<Rightarrow> False))"
  note call = assms [unfolded createLineOrder_def f option.case Let_def m_def [symmetric] ap_def [symmetric]
      no_pricing_def [symmetric]]
  show ?thesis
  proof (cases "\<not> is_safe_integer m \<or> m < 1 \<or> picks = []")
    case True
    then show ?thesis using call rejected by (auto split: if_splits)
  next
    case ne: False
    then obtain g where g: "pricePicks env f m s picks no_pricing = Inr g"
      using call by (auto split: sum.splits)
    show ?thesis
    proof (cases "pg_rejected g = []")
      case False
      then show ?thesis using call ne g by (intro rejected [of "pg_rejected g"]) auto
    next
      case rej: True
      then obtain x where x: "reusableOrder env ap (openLineOrders w (hs_id s) ap) (pg_lines g) = Inr x"
        using call ne g by (auto split: sum.splits)
      show ?thesis
      proof (cases x)
        case None
        then show ?thesis using call ne g rej x by (intro made [OF g rej, of ap]) auto
      next
        case (Some od)
        then have "res = LineMade od True" using call ne g rej x by (auto split: sum.splits prod.splits if_splits)
        then show ?thesis using reused x Some by blast
      qed
    qed
  qed
qed

lemma liveQuotes_in: "liveQuotes env ods = Inr r \<Longrightarrow> set r \<subseteq> set ods"
  by (induction ods arbitrary: r) (fastforce split: sum.splits if_splits)+

lemma reusable_in: "reusableOrder env ap ods ls = Inr (Some od) \<Longrightarrow> od \<in> set ods"
  using liveQuotes_in [of env ods]
  by (auto simp: reusableOrder_def dest!: find_in split: sum.splits if_splits)

text \<open>
  A new order of lines has exactly one line per pick, in the order of the picks and with their
  kinds, codes and quantities; its total is the sum of the lines' unit prices times quantities, an exact
  integer of fen; it is open, stored, and listed in its conversation. A reused order is one of the
  conversation's stored orders, and a call that rejects picks changes nothing.
\<close>

theorem createLineOrder_prices_every_pick:
  assumes inv: "orders_inv w" and s: "getSession w sid = Some s" and fresh: "oe_newId env \<notin> stored w"
    and call: "createLineOrder env s picks opt w = (w', Inr res)"
  shows "case res of
           LineRejected rs \<Rightarrow> w' = w \<and> rs \<noteq> []
         | LineMade od reused \<Rightarrow>
             if reused then getAnyOrder w (od_id od) = Some od
             else map madeKey (od_lines od) = map pickKey picks \<and>
               orderTotalFen od = sum_list (map (\<lambda>l. ol_unitPriceFen l * ol_qty l) (od_lines od)) \<and>
               is_safe_integer (orderTotalFen od) \<and> od_status od = PendingPayment \<and>
               getAnyOrder w' (oe_newId env) = Some od \<and>
               getSession w' sid = Some (addOrderId (oe_newId env) s)"
  using call
proof (cases rule: createLine_cases)
  case (rejected rs)
  then show ?thesis by simp
next
  case (reused od ls ap)
  then show ?thesis using openLineOrders_in [OF reusable_in] inv_orders_rows [OF inv] by simp
next
  case (made f m g ap)
  have ok: "rows_ok w" by (rule inv_orders_rows [OF inv])
  have hid: "hs_id s = sid" by (rule session_idD [OF ok s])
  obtain od where res: "res = LineMade od False"
    using made(4) by (auto simp: makeLineOrder_def Let_def split: sum.splits prod.splits)
  have new: "oe_newId env \<notin> od_id ` set (openLineOrders w (hs_id s) ap)"
    using openLineOrders_stored [OF ok] fresh by blast
  have lines: "lines_ok (pg_lines g) (pg_total g)" by (rule priced_lines_ok [OF made(1-3)])
  note shape = makeLine_shape [OF made(4) [unfolded res] ok fresh new, simplified, OF lines]
  have keys: "map madeKey (pg_lines g) = map pickKey picks"
    using pricePicks_lines [OF made(1)] made(2) by (simp add: no_pricing_def)
  have sum': "sum_list (map ol_amountFen (pg_lines g)) = sum_list (map (\<lambda>l. ol_unitPriceFen l * ol_qty l) (pg_lines g))"
    using lines by (intro arg_cong [of _ _ sum_list] map_cong) (auto simp: lines_ok_def list_all_iff line_ok_def)
  have tot: "pg_total g = sum_list (map ol_amountFen (pg_lines g))" "is_safe_integer (pg_total g)"
    using lines by (auto simp: lines_ok_def)
  show ?thesis using shape keys hid tot sum' by (simp add: res)
qed

text \<open>Two valves at 25 yuan, drafted for approval.\<close>

definition demo_picks :: "line_pick list" where
  "demo_picks = [\<lparr>lp_kind = ''part'', lp_code = ''x1'', lp_qty = Some 2\<rparr>]"

lemma createLineOrder_prices_every_pick_witness:
  "\<exists>w' od. createLineOrder (demo_env ''o1'' 1000) demo_session demo_picks None demo_world = (w', Inr (LineMade od False)) \<and>
     orderTotalFen od = 5000 \<and> getAnyOrder w' ''o1'' = Some od"
proof -
  let ?r = "createLineOrder (demo_env ''o1'' 1000) demo_session demo_picks None demo_world"
  have "\<exists>od. snd ?r = Inr (LineMade od False) \<and> orderTotalFen od = 5000"
    by (simp add: createLineOrder_def demo_picks_def demo_env_def demo_hand_env_def demo_session_def demo_world_def
        is_safe_integer_def max_safe_integer_def pricePick_def addLine_def money_def openLineOrders_def
        listAnyOrders_def reusableOrder_def makeLineOrder_def createStoredLineOrder_def autoApproved_def Let_def
        newOrder_def orderTotalFen_def)
  then obtain w' od where c: "?r = (w', Inr (LineMade od False))" and t: "orderTotalFen od = 5000"
    by (metis prod.collapse)
  have "oe_newId (demo_env ''o1'' 1000) \<notin> stored demo_world" by (simp add: stored_def demo_world_def)
  from createLineOrder_prices_every_pick [OF demo_inv demo_session_live this c]
  have "getAnyOrder w' ''o1'' = Some od" by (simp add: demo_env_def)
  then show ?thesis using c t by blast
qed

text \<open>
  When the pack approves a draft at once but its validity in days is not a number, the call throws
  after the draft was stored: the order stays, and its conversation does not list it.
\<close>

definition bad_days_env :: order_env where
  "bad_days_env =
     (demo_env ''o1'' 1000)
       \<lparr>oe_quotes := Some \<lparr>qh_validDays = (\<lambda>_. None), qh_notes = (\<lambda>_ _. []), qh_approval = True,
                          qh_autoApprovable = (\<lambda>_ _. True)\<rparr>\<rparr>"

lemma failed_auto_approval_leaves_a_draft:
  "\<exists>w' od. createLineOrder bad_days_env demo_session demo_picks None demo_world = (w', Inl OeBadDays) \<and>
     getAnyOrder w' ''o1'' = Some od \<and> od_status od = PendingPayment \<and>
     getSession w' ''s1'' = Some demo_session \<and> hs_orderIds demo_session = []"
  by (simp add: createLineOrder_def demo_picks_def bad_days_env_def demo_env_def demo_hand_env_def demo_session_def
      demo_world_def is_safe_integer_def max_safe_integer_def pricePick_def addLine_def money_def openLineOrders_def
      listAnyOrders_def reusableOrder_def makeLineOrder_def createStoredLineOrder_def autoApproved_def Let_def
      newOrder_def getSession_def getAnyOrder_def putOrder_def fx_def snapshotQuoteApproval_def
      quoteDeadline_def autoApproval_def)

end
