(* ===== verification/Budgets.thy ===== *)
theory Budgets
  imports Complex_Main Prelude
begin

text \<open>
  The money limits in front of the model: what a budget of reservations promises, and the daily budget
  of a standard tenant (\<open>src/tenancy/budget.ts\<close>). A call reserves its estimate before it is sent and settles its
  actual cost afterwards; both happen in one synchronous piece. Costs are in thousandths of a yuan, as
  exact rationals; None is a number that is not finite.
\<close>

section \<open>A quota of reservations\<close>

text \<open>
  What both budgets promise: a reservation is granted only within the cap, and neither a settlement
  nor anything else takes what is used beyond it.
\<close>

inductive quota_run ::
    "('s \<Rightarrow> 'r \<Rightarrow> 's option) \<Rightarrow> ('s \<Rightarrow> 'c \<Rightarrow> 's) \<Rightarrow> ('s \<Rightarrow> 'o \<Rightarrow> 's) \<Rightarrow> ('s \<Rightarrow> 'c \<Rightarrow> bool) \<Rightarrow>
     's \<Rightarrow> 's \<Rightarrow> bool"
  for reserve settle tick fair where
  QStart: "quota_run reserve settle tick fair s s"
| QReserve: "quota_run reserve settle tick fair s t \<Longrightarrow> reserve t r = Some u \<Longrightarrow>
    quota_run reserve settle tick fair s u"
| QSettle: "quota_run reserve settle tick fair s t \<Longrightarrow> fair t c \<Longrightarrow>
    quota_run reserve settle tick fair s (settle t c)"
| QTick: "quota_run reserve settle tick fair s t \<Longrightarrow> quota_run reserve settle tick fair s (tick t x)"

locale money_quota =
  fixes used :: "'s \<Rightarrow> rat" and cap :: rat
    and reserve :: "'s \<Rightarrow> 'r \<Rightarrow> 's option" and settle :: "'s \<Rightarrow> 'c \<Rightarrow> 's"
    and tick :: "'s \<Rightarrow> 'o \<Rightarrow> 's" and fair :: "'s \<Rightarrow> 'c \<Rightarrow> bool" and inv :: "'s \<Rightarrow> bool"
  assumes reserve_cap: "inv s \<Longrightarrow> used s \<le> cap \<Longrightarrow> reserve s r = Some s' \<Longrightarrow> inv s' \<and> used s' \<le> cap"
    and settle_cap: "inv s \<Longrightarrow> used s \<le> cap \<Longrightarrow> fair s c \<Longrightarrow> inv (settle s c) \<and> used (settle s c) \<le> cap"
    and tick_cap: "inv s \<Longrightarrow> used s \<le> cap \<Longrightarrow> inv (tick s x) \<and> used (tick s x) \<le> cap"
begin

lemma run_within:
  "quota_run reserve settle tick fair s t \<Longrightarrow> inv s \<Longrightarrow> used s \<le> cap \<Longrightarrow> inv t \<and> used t \<le> cap"
proof (induction rule: quota_run.induct)
  case (QReserve s t r u)
  then show ?case using reserve_cap by blast
next
  case (QSettle s t c)
  then show ?case using settle_cap [of t c] by auto
next
  case (QTick s t x)
  then show ?case using tick_cap [of t x] by auto
qed simp

end

section \<open>The standard budget\<close>

record std_state =
  sd_calls :: nat
  sd_costMilli :: rat
  sd_day :: string
  sd_dailyMilli :: rat
  sd_baselineMilli :: rat
  sd_alertMilli :: "rat option"
  sd_capLoaded :: bool
  sd_alerted :: bool
  sd_hardAlerted :: bool
  sd_reservedMilli :: rat
  sd_initializedDay :: "string option"
  sd_loading :: bool
  sd_dropped :: bool

text \<open>The clock, the cap read at the call, and the state of the tenant's runtime.\<close>

record bud_env =
  be_today :: string
  be_cap :: "rat option"
  be_serving :: bool
  be_closed :: bool
  be_aborted :: bool
  be_loaded :: bool
  be_mine :: bool

datatype bud_alert = SoftLimit int rat | HardLimit string | PoolLimit string

datatype bud_error = NotMyTenant

record reservation =
  rv_day :: string
  rv_estimate :: "rat option"
  rv_settled :: bool

definition amount :: "rat option \<Rightarrow> rat" where
  "amount n = (case n of None \<Rightarrow> 0 | Some x \<Rightarrow> max 0 x)"

definition newStandard :: "string \<Rightarrow> std_state" where
  "newStandard day =
     \<lparr>sd_calls = 0, sd_costMilli = 0, sd_day = day, sd_dailyMilli = 0, sd_baselineMilli = 0,
      sd_alertMilli = None, sd_capLoaded = False, sd_alerted = False, sd_hardAlerted = False,
      sd_reservedMilli = 0, sd_initializedDay = None, sd_loading = False, sd_dropped = False\<rparr>"

definition rollDay :: "bud_env \<Rightarrow> std_state \<Rightarrow> std_state" where
  "rollDay env st =
     (if sd_day st = be_today env then st
      else st\<lparr>sd_day := be_today env, sd_dailyMilli := 0, sd_baselineMilli := 0,
              sd_alerted := False, sd_hardAlerted := False, sd_reservedMilli := 0,
              sd_initializedDay := (if sd_capLoaded st then Some (be_today env) else None)\<rparr>)"

text \<open>The alert is decided here and sent after an import, if the tenant is still served then.\<close>

definition checkAlert :: "bud_env \<Rightarrow> std_state \<Rightarrow> std_state \<times> bud_alert list" where
  "checkAlert env st =
     (case sd_alertMilli st of
        None \<Rightarrow> (st, [])
      | Some soft \<Rightarrow>
          let cost = sd_baselineMilli st + sd_dailyMilli st in
          if sd_dropped st \<or> \<not> be_serving env \<or> sd_alerted st \<or>
             sd_initializedDay st \<noteq> Some (sd_day st) \<or> cost \<le> soft
          then (st, [])
          else (st\<lparr>sd_alerted := True\<rparr>, [SoftLimit \<lfloor>cost\<rfloor> soft]))"

text \<open>Starting to load the soft limit and today's usage; the result says whether a query starts.\<close>

definition initializeStart :: "bud_env \<Rightarrow> std_state \<Rightarrow> std_state \<times> bool" where
  "initializeStart env st =
     (if sd_dropped st then (st, False)
      else let s = rollDay env st in
        if sd_initializedDay s = Some (sd_day s) \<or> sd_loading s \<or> \<not> be_loaded env then (s, False)
        else (s\<lparr>sd_loading := True\<rparr>, True))"

text \<open>
  The query for \<open>day\<close> came back: the tenant's soft limit, the cost stored for the day, and the part
  of it this process had written itself. None is a failed query.
\<close>

definition initializeDone ::
    "bud_env \<Rightarrow> string \<Rightarrow> (rat option \<times> rat \<times> rat) option \<Rightarrow> std_state \<Rightarrow>
     std_state \<times> bud_alert list" where
  "initializeDone env day res st0 =
     (let st = st0\<lparr>sd_loading := False\<rparr> in
      case res of
        None \<Rightarrow> (st, [])
      | Some (soft, storedMilli, persisted) \<Rightarrow>
          if sd_dropped st \<or> sd_day st \<noteq> day \<or> be_aborted env \<or> be_closed env then (st, [])
          else checkAlert env
                 (st\<lparr>sd_alertMilli := (if sd_capLoaded st then sd_alertMilli st else soft),
                     sd_capLoaded := True, sd_baselineMilli := max 0 (storedMilli - persisted),
                     sd_initializedDay := Some day\<rparr>))"

definition overCap :: "rat option \<Rightarrow> std_state \<Rightarrow> rat \<Rightarrow> bool" where
  "overCap cap st est =
     (case cap of
        None \<Rightarrow> False
      | Some c \<Rightarrow> c = 0 \<or> c < sd_baselineMilli st + sd_dailyMilli st + sd_reservedMilli st + est)"

text \<open>The call first tries to load; the load itself is the two definitions above.\<close>

definition reserveStd ::
    "bud_env \<Rightarrow> rat option \<Rightarrow> std_state \<Rightarrow>
     std_state \<times> bud_alert list \<times> (bud_error + reservation option)" where
  "reserveStd env estimateMilli st0 =
     (if \<not> be_mine env then (st0, [], Inl NotMyTenant)
      else let (st, _) = initializeStart env (rollDay env st0); est = amount estimateMilli in
        if overCap (be_cap env) st est
        then (st\<lparr>sd_hardAlerted := True\<rparr>,
              if sd_hardAlerted st then [] else [HardLimit (sd_day st)], Inr None)
        else (st\<lparr>sd_reservedMilli := sd_reservedMilli st + est, sd_calls := Suc (sd_calls st)\<rparr>, [],
              Inr (Some \<lparr>rv_day = sd_day st, rv_estimate = estimateMilli, rv_settled = False\<rparr>)))"

definition settleStd ::
    "bud_env \<Rightarrow> rat option option \<Rightarrow> reservation \<Rightarrow> std_state \<Rightarrow>
     std_state \<times> reservation \<times> bud_alert list \<times> bud_error option" where
  "settleStd env actual r st0 =
     (if rv_settled r then (st0, r, [], None)
      else if sd_dropped st0 \<or> be_aborted env \<or> be_closed env
      then (st0, r\<lparr>rv_settled := True\<rparr>, [], None)
      else if \<not> be_mine env then (st0, r, [], Some NotMyTenant)
      else let st = rollDay env st0;
               cost = amount (case actual of None \<Rightarrow> rv_estimate r | Some a \<Rightarrow> a);
               freed = (if sd_day st = rv_day r
                        then st\<lparr>sd_reservedMilli := max 0 (sd_reservedMilli st - amount (rv_estimate r))\<rparr>
                        else st);
               spent = freed\<lparr>sd_costMilli := sd_costMilli freed + cost,
                             sd_dailyMilli := sd_dailyMilli freed + cost\<rparr>
           in case checkAlert env spent of
                (st', als) \<Rightarrow> (st', r\<lparr>rv_settled := True\<rparr>, als, None))"

definition dropStd :: "std_state \<Rightarrow> std_state" where
  "dropStd st = st\<lparr>sd_dropped := True\<rparr>"

definition resetStd :: "std_state \<Rightarrow> std_state" where
  "resetStd st =
     st\<lparr>sd_calls := 0, sd_costMilli := 0, sd_dailyMilli := 0, sd_baselineMilli := 0,
        sd_alerted := False, sd_hardAlerted := False, sd_reservedMilli := 0,
        sd_initializedDay := None, sd_capLoaded := False\<rparr>"

section \<open>Runs of the standard budget\<close>

text \<open>
  The budget with the reservations that are still open, the days it left (the clock does not go back to
  one), the cost recorded today, and what came on top since the last reservation was granted: the part
  of a settlement above its estimate, the whole cost of a call reserved on an earlier day (its place
  was given up when the day changed), and stored usage that was loaded only then.
\<close>

record std_world =
  sw_st :: std_state
  sw_open :: "reservation list"
  sw_past :: "string list"
  sw_spent :: rat
  sw_beyond :: rat

definition stdStart :: "string \<Rightarrow> std_world" where
  "stdStart day = \<lparr>sw_st = newStandard day, sw_open = [], sw_past = [], sw_spent = 0, sw_beyond = 0\<rparr>"

text \<open>What the change of the day does to the bookkeeping.\<close>

definition turnDay :: "bud_env \<Rightarrow> std_world \<Rightarrow> std_world" where
  "turnDay env w =
     (if sd_day (sw_st w) = be_today env then w
      else w\<lparr>sw_past := sd_day (sw_st w) # sw_past w, sw_spent := 0, sw_beyond := 0\<rparr>)"

definition stdReserve :: "rat \<Rightarrow> std_world \<Rightarrow> bud_env \<times> rat option \<Rightarrow> std_world option" where
  "stdReserve cap w x =
     (case x of (env, est) \<Rightarrow>
        case reserveStd env est (sw_st w) of
          (st, _, Inr (Some r)) \<Rightarrow>
            if be_cap env = Some cap \<and> be_today env \<notin> set (sw_past w)
            then Some ((turnDay env w)\<lparr>sw_st := st, sw_open := sw_open w @ [r], sw_beyond := 0\<rparr>)
            else None
        | _ \<Rightarrow> None)"

definition settledCost :: "rat option option \<Rightarrow> reservation \<Rightarrow> rat" where
  "settledCost actual r = amount (case actual of None \<Rightarrow> rv_estimate r | Some a \<Rightarrow> a)"

text \<open>A settlement names a reservation that is open; the clock does not go back to a day it left.\<close>

definition stdDue :: "std_world \<Rightarrow> bud_env \<times> nat \<times> rat option option \<Rightarrow> bool" where
  "stdDue w x =
     (case x of (env, k, actual) \<Rightarrow> k < length (sw_open w) \<and> be_today env \<notin> set (sw_past w))"

definition onTop :: "bud_env \<Rightarrow> rat option option \<Rightarrow> reservation \<Rightarrow> rat" where
  "onTop env actual r =
     (if rv_day r = be_today env then max 0 (settledCost actual r - amount (rv_estimate r))
      else settledCost actual r)"

definition stdSettle :: "std_world \<Rightarrow> bud_env \<times> nat \<times> rat option option \<Rightarrow> std_world" where
  "stdSettle w x =
     (case x of (env, k, actual) \<Rightarrow>
        let r = sw_open w ! k in
        case settleStd env actual r (sw_st w) of
          (st, r', _, _) \<Rightarrow>
            if \<not> rv_settled r' then w
            else let w1 = w\<lparr>sw_open := take k (sw_open w) @ drop (Suc k) (sw_open w)\<rparr> in
              if sd_dropped (sw_st w) \<or> be_aborted env \<or> be_closed env then w1
              else (turnDay env w1)
                     \<lparr>sw_st := st, sw_spent := sw_spent (turnDay env w1) + settledCost actual r,
                      sw_beyond := sw_beyond (turnDay env w1) + onTop env actual r\<rparr>)"

datatype std_tick =
    TickRefused bud_env "rat option"
  | TickLoaded bud_env string "(rat option \<times> rat \<times> rat) option"
  | TickDrop

fun stdTick :: "std_world \<Rightarrow> std_tick \<Rightarrow> std_world" where
  "stdTick w (TickRefused env est) =
     (case reserveStd env est (sw_st w) of
        (st, _, Inr None) \<Rightarrow>
          if be_today env \<in> set (sw_past w) then w else (turnDay env w)\<lparr>sw_st := st\<rparr>
      | _ \<Rightarrow> w)"
| "stdTick w (TickLoaded env day res) =
     (let st = fst (initializeDone env day res (sw_st w)) in
      w\<lparr>sw_st := st,
        sw_beyond := sw_beyond w + max 0 (sd_baselineMilli st - sd_baselineMilli (sw_st w))\<rparr>)"
| "stdTick w TickDrop = w\<lparr>sw_st := dropStd (sw_st w)\<rparr>"

definition openOf :: "string \<Rightarrow> reservation list \<Rightarrow> rat" where
  "openOf day rs = sum_list (map (\<lambda>r. amount (rv_estimate r)) (filter (\<lambda>r. rv_day r = day) rs))"

definition stdUsed :: "std_world \<Rightarrow> rat" where
  "stdUsed w = sd_baselineMilli (sw_st w) + sd_dailyMilli (sw_st w) + sd_reservedMilli (sw_st w) - sw_beyond w"

definition stdInv :: "std_world \<Rightarrow> bool" where
  "stdInv w \<longleftrightarrow>
     sd_dailyMilli (sw_st w) = sw_spent w \<and>
     openOf (sd_day (sw_st w)) (sw_open w) \<le> sd_reservedMilli (sw_st w) \<and>
     list_all (\<lambda>r. \<not> rv_settled r \<and> rv_day r \<in> set (sd_day (sw_st w) # sw_past w)) (sw_open w) \<and>
     sd_day (sw_st w) \<notin> set (sw_past w)"

lemma amount_nonneg [simp]: "0 \<le> amount n"
  by (simp add: amount_def split: option.split)

lemma openOf_nonneg [simp]: "0 \<le> openOf day rs"
  by (induction rs) (auto simp: openOf_def add_nonneg_nonneg)

lemma openOf_append [simp]: "openOf day (rs @ qs) = openOf day rs + openOf day qs"
  by (simp add: openOf_def)

lemma openOf_remove:
  "k < length rs \<Longrightarrow> openOf day rs = openOf day (take k rs @ drop (Suc k) rs) +
     (if rv_day (rs ! k) = day then amount (rv_estimate (rs ! k)) else 0)"
  by (subst id_take_nth_drop [of k rs]) (simp_all add: openOf_def)

lemma checkAlert_money [simp]:
  "sd_dailyMilli (fst (checkAlert env st)) = sd_dailyMilli st"
  "sd_reservedMilli (fst (checkAlert env st)) = sd_reservedMilli st"
  "sd_baselineMilli (fst (checkAlert env st)) = sd_baselineMilli st"
  "sd_day (fst (checkAlert env st)) = sd_day st"
  by (simp_all add: checkAlert_def Let_def split: option.split)

lemma rollDay_money [simp]:
  "sd_day (rollDay env st) = be_today env"
  "sd_dailyMilli (rollDay env st) = (if sd_day st = be_today env then sd_dailyMilli st else 0)"
  "sd_reservedMilli (rollDay env st) = (if sd_day st = be_today env then sd_reservedMilli st else 0)"
  "sd_baselineMilli (rollDay env st) = (if sd_day st = be_today env then sd_baselineMilli st else 0)"
  by (simp_all add: rollDay_def)

lemma initializeStart_money [simp]:
  "sd_day (fst (initializeStart env (rollDay env st))) = be_today env"
  "sd_dailyMilli (fst (initializeStart env (rollDay env st))) = sd_dailyMilli (rollDay env st)"
  "sd_reservedMilli (fst (initializeStart env (rollDay env st))) = sd_reservedMilli (rollDay env st)"
  "sd_baselineMilli (fst (initializeStart env (rollDay env st))) = sd_baselineMilli (rollDay env st)"
  by (simp_all add: initializeStart_def Let_def)

lemma openOf_new_day: "list_all (\<lambda>r. rv_day r \<noteq> day) rs \<Longrightarrow> openOf day rs = 0"
  by (induction rs) (auto simp: openOf_def)

lemma turnDay_simps [simp]:
  "sw_st (turnDay env w) = sw_st w" "sw_open (turnDay env w) = sw_open w"
  by (simp_all add: turnDay_def)

text \<open>The state after the roll, as the invariant sees it.\<close>

lemma stdInv_rolled:
  assumes inv: "stdInv w" and new: "be_today env \<notin> set (sw_past w)"
    and st: "sd_day st = be_today env" "sd_dailyMilli st = sd_dailyMilli (rollDay env (sw_st w))"
      "sd_reservedMilli st = sd_reservedMilli (rollDay env (sw_st w))"
      "sd_baselineMilli st = sd_baselineMilli (rollDay env (sw_st w))"
  shows "stdInv ((turnDay env w)\<lparr>sw_st := st\<rparr>)" 
    and "stdUsed ((turnDay env w)\<lparr>sw_st := st\<rparr>) =
      (if sd_day (sw_st w) = be_today env then stdUsed w else 0)"
proof -
  show "stdInv ((turnDay env w)\<lparr>sw_st := st\<rparr>)"
  proof (cases "sd_day (sw_st w) = be_today env")
    case True
    then show ?thesis using inv st by (simp add: stdInv_def turnDay_def)
  next
    case False
    have "openOf (be_today env) (sw_open w) = 0"
      using inv new False by (intro openOf_new_day) (auto simp: stdInv_def list_all_iff)
    then show ?thesis using inv st new False by (auto simp: stdInv_def turnDay_def list_all_iff)
  qed
  show "stdUsed ((turnDay env w)\<lparr>sw_st := st\<rparr>) =
      (if sd_day (sw_st w) = be_today env then stdUsed w else 0)"
    using st by (auto simp: stdUsed_def turnDay_def)
qed

lemma reserveStd_refused:
  "reserveStd env est st = (st', als, Inr None) \<Longrightarrow>
   sd_day st' = be_today env \<and> sd_dailyMilli st' = sd_dailyMilli (rollDay env st) \<and>
   sd_reservedMilli st' = sd_reservedMilli (rollDay env st) \<and>
   sd_baselineMilli st' = sd_baselineMilli (rollDay env st)"
  by (auto simp: reserveStd_def Let_def case_prod_beta split: if_splits)

lemma reserveStd_granted:
  assumes "reserveStd env est st = (st', als, Inr (Some r))"
  shows "r = \<lparr>rv_day = be_today env, rv_estimate = est, rv_settled = False\<rparr> \<and>
   sd_day st' = be_today env \<and> sd_dailyMilli st' = sd_dailyMilli (rollDay env st) \<and>
   sd_reservedMilli st' = sd_reservedMilli (rollDay env st) + amount est \<and>
   sd_baselineMilli st' = sd_baselineMilli (rollDay env st) \<and>
   (case be_cap env of None \<Rightarrow> True
    | Some c \<Rightarrow> sd_baselineMilli st' + sd_dailyMilli st' + sd_reservedMilli st' \<le> c)"
  using assms by (auto simp: reserveStd_def overCap_def Let_def case_prod_beta split: if_splits option.splits)

lemma stdReserve_cap:
  assumes inv: "stdInv w" and res: "stdReserve cap w x = Some w'"
  shows "stdInv w' \<and> stdUsed w' \<le> cap"
proof -
  obtain env est st als r where x: "x = (env, est)" and g: "reserveStd env est (sw_st w) = (st, als, Inr (Some r))"
      and c: "be_cap env = Some cap" and new: "be_today env \<notin> set (sw_past w)"
      and w': "w' = (turnDay env w)\<lparr>sw_st := st, sw_open := sw_open w @ [r], sw_beyond := 0\<rparr>"
    using res by (auto simp: stdReserve_def split: prod.splits sum.splits option.splits if_splits)
  note f = reserveStd_granted [OF g]
  let ?s0 = "st\<lparr>sd_reservedMilli := sd_reservedMilli (rollDay env (sw_st w))\<rparr>"
  have i0: "stdInv ((turnDay env w)\<lparr>sw_st := ?s0\<rparr>)" using f by (intro stdInv_rolled [OF inv new]) auto
  have "stdInv w'" using i0 f by (simp add: stdInv_def w' openOf_def)
  moreover have "stdUsed w' \<le> cap" using i0 f c by (simp add: stdUsed_def w' stdInv_def)
  ultimately show ?thesis ..
qed

lemma stdTick_cap:
  assumes inv: "stdInv w" and used: "stdUsed w \<le> cap" and pos: "0 \<le> cap"
  shows "stdInv (stdTick w x) \<and> stdUsed (stdTick w x) \<le> cap"
proof (cases x)
  case (TickRefused env est)
  obtain st als r where g: "reserveStd env est (sw_st w) = (st, als, r)" by (cases "reserveStd env est (sw_st w)") auto
  show ?thesis
  proof (cases "r = Inr None \<and> be_today env \<notin> set (sw_past w)")
    case True
    then have "reserveStd env est (sw_st w) = (st, als, Inr None)" using g by simp
    note f = reserveStd_refused [OF this]
    show ?thesis
      using stdInv_rolled [OF inv, of env st] True f g used pos by (simp add: TickRefused)
  next
    case False
    then show ?thesis using inv g used by (auto simp: TickRefused split: sum.splits option.splits)
  qed
next
  case (TickLoaded env day res)
  have "sd_dailyMilli (fst (initializeDone env day res (sw_st w))) = sd_dailyMilli (sw_st w) \<and>
     sd_reservedMilli (fst (initializeDone env day res (sw_st w))) = sd_reservedMilli (sw_st w) \<and>
     sd_day (fst (initializeDone env day res (sw_st w))) = sd_day (sw_st w)"
    by (auto simp: initializeDone_def Let_def split: option.splits)
  then show ?thesis using inv used by (simp add: TickLoaded stdInv_def stdUsed_def Let_def)
qed (use inv used in \<open>simp add: dropStd_def stdInv_def stdUsed_def\<close>)

lemma stdSettle_cap:
  assumes inv: "stdInv w" and used: "stdUsed w \<le> cap" and pos: "0 \<le> cap" and due: "stdDue w x"
  shows "stdInv (stdSettle w x) \<and> stdUsed (stdSettle w x) \<le> cap"
proof -
  obtain env k actual where x: "x = (env, k, actual)" by (cases x)
  have k: "k < length (sw_open w)" and new: "be_today env \<notin> set (sw_past w)"
    using due by (auto simp: stdDue_def x)
  define r where "r = sw_open w ! k"
  have r: "\<not> rv_settled r" "rv_day r \<in> set (sd_day (sw_st w) # sw_past w)"
    using inv k by (auto simp: stdInv_def list_all_length r_def)
  let ?open = "take k (sw_open w) @ drop (Suc k) (sw_open w)"
  let ?w1 = "w\<lparr>sw_open := ?open\<rparr>"
  have op: "openOf d (sw_open w) = openOf d ?open + (if rv_day r = d then amount (rv_estimate r) else 0)" for d
    unfolding r_def by (rule openOf_remove [OF k])
  have sub: "set ?open \<subseteq> set (sw_open w)" by (auto dest: in_set_takeD in_set_dropD)
  have i1: "stdInv ?w1"
  proof -
    have "openOf (sd_day (sw_st w)) ?open \<le> sd_reservedMilli (sw_st w)"
      using inv op [of "sd_day (sw_st w)"] by (auto simp: stdInv_def split: if_splits)
        (metis add_increasing2 amount_nonneg dual_order.trans le_add_same_cancel1 openOf_append)
    then show ?thesis using inv sub by (auto simp: stdInv_def list_all_iff)
  qed
  show ?thesis
  proof (cases "sd_dropped (sw_st w) \<or> be_aborted env \<or> be_closed env \<or> \<not> be_mine env")
    case True
    then show ?thesis
      using i1 inv r used
      by (auto simp: stdSettle_def x settleStd_def r_def [symmetric] stdUsed_def Let_def)
  next
    case False
    let ?st = "rollDay env (sw_st w)"
    let ?same = "rv_day r = be_today env"
    define st where "st = fst (settleStd env actual r (sw_st w))"
    have stf: "sd_day st = be_today env" "sd_baselineMilli st = sd_baselineMilli ?st"
      "sd_dailyMilli st = sd_dailyMilli ?st + settledCost actual r"
      "sd_reservedMilli st = (if ?same then max 0 (sd_reservedMilli ?st - amount (rv_estimate r)) else sd_reservedMilli ?st)"
      using False r(1) by (simp_all add: st_def settleStd_def Let_def case_prod_beta settledCost_def)
    have shape: "stdSettle w x = (turnDay env ?w1)\<lparr>sw_st := st,
        sw_spent := sw_spent (turnDay env ?w1) + settledCost actual r,
        sw_beyond := sw_beyond (turnDay env ?w1) + onTop env actual r\<rparr>"
    proof -
      obtain r' als e where S: "settleStd env actual r (sw_st w) = (st, r', als, e)"
        unfolding st_def by (metis fst_conv prod_cases4)
      moreover have "rv_settled r'"
        using S False r(1) by (auto simp: settleStd_def Let_def split: prod.splits)
      ultimately show ?thesis using False by (simp add: stdSettle_def x r_def [symmetric] Let_def)
    qed
    let ?s0 = "st\<lparr>sd_dailyMilli := sd_dailyMilli ?st, sd_reservedMilli := sd_reservedMilli ?st\<rparr>"
    let ?w0 = "(turnDay env ?w1)\<lparr>sw_st := ?s0\<rparr>"
    have i2: "stdInv ?w0" and u2: "stdUsed ?w0 \<le> cap"
      using stdInv_rolled [OF i1, of env ?s0] new stf used pos by (auto simp: stdUsed_def)
    have left: "sd_reservedMilli st = sd_reservedMilli ?st - (if ?same then amount (rv_estimate r) else 0)"
      and cover: "openOf (be_today env) ?open \<le> sd_reservedMilli st"
    proof -
      have "sd_reservedMilli st = sd_reservedMilli ?st - (if ?same then amount (rv_estimate r) else 0) \<and>
            openOf (be_today env) ?open \<le> sd_reservedMilli st"
      proof (cases ?same)
        case True
        then have "sd_day (sw_st w) = be_today env" using r(2) new by auto
        then have "openOf (be_today env) ?open + amount (rv_estimate r) \<le> sd_reservedMilli ?st"
          using inv op [of "be_today env"] True by (simp add: stdInv_def)
        moreover have "0 \<le> openOf (be_today env) ?open" by (rule openOf_nonneg)
        ultimately have "amount (rv_estimate r) \<le> sd_reservedMilli ?st"
          "openOf (be_today env) ?open \<le> sd_reservedMilli ?st - amount (rv_estimate r)" by linarith+
        then show ?thesis
          using stf(4) True by (simp del: rollDay_money openOf_append add: max_absorb2)
      next
        case False
        then show ?thesis using stf(4) i2 by (simp add: stdInv_def stf)
      qed
      then show "sd_reservedMilli st = sd_reservedMilli ?st - (if ?same then amount (rv_estimate r) else 0)"
        "openOf (be_today env) ?open \<le> sd_reservedMilli st" by blast+
    qed
    have "stdInv (stdSettle w x)"
      using i2 stf cover by (simp add: stdInv_def shape)
    moreover have "stdUsed (stdSettle w x) \<le> stdUsed ?w0"
      using left stf by (auto simp: stdUsed_def shape onTop_def)
    ultimately show ?thesis using u2 by simp
  qed
qed

interpretation standard_budget: money_quota stdUsed cap "stdReserve cap" stdSettle stdTick stdDue
    "\<lambda>w. stdInv w \<and> 0 \<le> cap" for cap
  by unfold_locales (auto dest: stdReserve_cap stdSettle_cap stdTick_cap)

lemma stdStart_ok: "stdInv (stdStart day)" "stdUsed (stdStart day) = 0"
  by (simp_all add: stdStart_def newStandard_def stdInv_def stdUsed_def openOf_def)

text \<open>
  C13: In every run of a standard tenant's budget with the daily cap \<open>cap\<close>, whatever the order of
  reservations, settlements at whatever cost, refusals, loads and changes of the day, the usage stored
  before the start, what was recorded today, and the estimates of today's calls that are still open
  stay within the cap together; only what came after the last granted reservation can be on top: the
  part of a settlement above its estimate (a release test reserves nothing and settles its cost), the
  cost of a call reserved on an earlier day, and stored usage loaded late. The next reservation counts
  these too. A settlement after the tenant's runtime was dropped, aborted or closed is not recorded,
  as in the code.
\<close>

theorem standard_daily_cap:
  assumes "quota_run (stdReserve cap) stdSettle stdTick stdDue (stdStart day) w" and "0 \<le> cap"
  shows "sd_dailyMilli (sw_st w) = sw_spent w \<and>
    sd_baselineMilli (sw_st w) + sw_spent w + openOf (sd_day (sw_st w)) (sw_open w) \<le> cap + sw_beyond w"
proof -
  have "stdInv w" "stdUsed w \<le> cap"
    using standard_budget.run_within [OF assms(1)] stdStart_ok assms(2) by simp_all
  then show ?thesis by (simp add: stdUsed_def stdInv_def)
qed

definition bud_env_ex :: "string \<Rightarrow> bud_env" where
  "bud_env_ex day =
     \<lparr>be_today = day, be_cap = Some 10, be_serving = True, be_closed = False, be_aborted = False,
      be_loaded = False, be_mine = True\<rparr>"

text \<open>
  A call is reserved and settled within its estimate; a release test of 5 follows (nothing reserved),
  and a call that is still open: nothing is on top.
\<close>

definition std_world_ex :: std_world where
  "std_world_ex =
     (let env = bud_env_ex ''a'';
          w1 = stdSettle (the (stdReserve 10 (stdStart ''a'') (env, Some 3))) (env, 0, Some (Some 2));
          w2 = stdSettle (the (stdReserve 10 w1 (env, Some 0))) (env, 0, Some (Some 5))
      in the (stdReserve 10 w2 (env, Some 3)))"

lemma std_world_ex_run:
  "quota_run (stdReserve 10) stdSettle stdTick stdDue (stdStart ''a'') std_world_ex"
proof -
  let ?e = "bud_env_ex ''a''"
  let ?r1 = "the (stdReserve 10 (stdStart ''a'') (?e, Some 3))"
  let ?w1 = "stdSettle ?r1 (?e, 0, Some (Some 2))"
  let ?r2 = "the (stdReserve 10 ?w1 (?e, Some 0))"
  let ?w2 = "stdSettle ?r2 (?e, 0, Some (Some 5))"
  have g: "stdReserve 10 (stdStart ''a'') (?e, Some 3) = Some ?r1"
    "stdReserve 10 ?w1 (?e, Some 0) = Some ?r2" "stdReserve 10 ?w2 (?e, Some 3) = Some std_world_ex"
    by code_simp+
  have d: "stdDue ?r1 (?e, 0, Some (Some 2))" "stdDue ?r2 (?e, 0, Some (Some 5))" by code_simp+
  have "quota_run (stdReserve 10) stdSettle stdTick stdDue (stdStart ''a'') ?r1"
    using quota_run.QStart g(1) by (rule quota_run.QReserve)
  from this d(1) have "quota_run (stdReserve 10) stdSettle stdTick stdDue (stdStart ''a'') ?w1"
    by (rule quota_run.QSettle)
  from this g(2) have "quota_run (stdReserve 10) stdSettle stdTick stdDue (stdStart ''a'') ?r2"
    by (rule quota_run.QReserve)
  from this d(2) have "quota_run (stdReserve 10) stdSettle stdTick stdDue (stdStart ''a'') ?w2"
    by (rule quota_run.QSettle)
  from this g(3) show ?thesis by (rule quota_run.QReserve)
qed

lemma standard_daily_cap_witness:
  "sw_beyond std_world_ex = 0 \<and> sw_spent std_world_ex = 7 \<and> openOf ''a'' (sw_open std_world_ex) = 3 \<and>
   sd_dailyMilli (sw_st std_world_ex) = 7"
proof -
  have "sw_beyond std_world_ex = 0" "sw_spent std_world_ex = 7" "openOf ''a'' (sw_open std_world_ex) = 3"
    by code_simp+
  then show ?thesis using standard_daily_cap [OF std_world_ex_run] by simp
qed

end
