(* ===== verification/MessageLimits.thy ===== *)
theory MessageLimits
  imports Budgets
begin

text \<open>
  The limits on messages: the monthly replies of a tenant (\<open>src/tenancy/limits.ts\<close>), the daily
  model calls of web visitors (\<open>src/budget.ts\<close>) and the rate of one customer
  (\<open>src/tenancy/customer-rate.ts\<close>).
\<close>

section \<open>Monthly replies\<close>

datatype tenant_status = TsTrial | TsActive | TsSuspended

datatype limit_verdict = LvOk | LvQuota | LvSuspended

record tenant_limits =
  tl_status :: tenant_status
  tl_monthlyQuota :: "int option"
  tl_monthlyUsed :: int
  tl_dailyCapMilli :: "rat option"

record limits_state =
  ls_value :: tenant_limits
  ls_month :: string
  ls_localReplies :: int
  ls_baselineReplies :: int
  ls_loading :: bool
  ls_alerted :: "int list"
  ls_closed :: bool

text \<open>The local month, and whether the runtime of the call has limits at all.\<close>

record lim_env =
  le_month :: string
  le_enabled :: bool

definition newLimits :: "tenant_status \<Rightarrow> string \<Rightarrow> limits_state" where
  "newLimits status month =
     \<lparr>ls_value = \<lparr>tl_status = status, tl_monthlyQuota = None, tl_monthlyUsed = 0, tl_dailyCapMilli = None\<rparr>,
      ls_month = month, ls_localReplies = 0, ls_baselineReplies = 0, ls_loading = False,
      ls_alerted = [], ls_closed = False\<rparr>"

definition rollMonth :: "lim_env \<Rightarrow> limits_state \<Rightarrow> limits_state" where
  "rollMonth e s =
     (if ls_month s = le_month e then s
      else s\<lparr>ls_month := le_month e, ls_localReplies := 0, ls_baselineReplies := 0,
             ls_value := (ls_value s)\<lparr>tl_monthlyUsed := 0\<rparr>, ls_alerted := []\<rparr>)"

definition getTenantLimits :: "lim_env \<Rightarrow> limits_state \<Rightarrow> limits_state \<times> tenant_limits option" where
  "getTenantLimits e s =
     (if \<not> le_enabled e then (s, None)
      else let s' = rollMonth e s in (s', Some (ls_value s')))"

definition verdictOf :: "tenant_limits option \<Rightarrow> limit_verdict" where
  "verdictOf limits =
     (case limits of
        None \<Rightarrow> LvOk
      | Some l \<Rightarrow>
          if tl_status l = TsSuspended then LvSuspended
          else case tl_monthlyQuota l of
                 None \<Rightarrow> LvOk
               | Some quota \<Rightarrow> if quota \<le> tl_monthlyUsed l then LvQuota else LvOk)"

definition limitVerdict :: "lim_env \<Rightarrow> limits_state \<Rightarrow> limits_state \<times> limit_verdict" where
  "limitVerdict e s = (case getTenantLimits e s of (s', l) \<Rightarrow> (s', verdictOf l))"

text \<open>The alerts are the percent and the month; the reply is also counted in the daily usage.\<close>

definition alertPercent ::
    "int \<Rightarrow> int \<Rightarrow> limits_state \<times> (int \<times> string) list \<Rightarrow> limits_state \<times> (int \<times> string) list" where
  "alertPercent quota percent a =
     (case a of (s, als) \<Rightarrow>
        if tl_monthlyUsed (ls_value s) * 100 < quota * percent \<or> percent \<in> set (ls_alerted s) then (s, als)
        else (s\<lparr>ls_alerted := ls_alerted s @ [percent]\<rparr>, als @ [(percent, ls_month s)]))"

definition noteAiReply :: "lim_env \<Rightarrow> limits_state \<Rightarrow> limits_state \<times> (int \<times> string) list" where
  "noteAiReply e s0 =
     (if \<not> le_enabled e then (s0, [])
      else let s1 = rollMonth e s0;
               s2 = s1\<lparr>ls_localReplies := ls_localReplies s1 + 1\<rparr>;
               s = s2\<lparr>ls_value := (ls_value s2)\<lparr>tl_monthlyUsed := ls_baselineReplies s2 + ls_localReplies s2\<rparr>\<rparr>
           in case tl_monthlyQuota (ls_value s) of
                None \<Rightarrow> (s, [])
              | Some quota \<Rightarrow> alertPercent quota 100 (alertPercent quota 80 (s, [])))"

text \<open>
  A refresh: its start, the settings read from the tenant's row (None when the read failed), the month's
  count read together with the part of it this process had written, and its end. The month of the start
  is fixed in the closure.
\<close>

definition refreshStart :: "lim_env \<Rightarrow> limits_state \<Rightarrow> limits_state \<times> string option" where
  "refreshStart e s0 =
     (if \<not> le_enabled e then (s0, None)
      else let s = rollMonth e s0 in
        if ls_closed s \<or> ls_loading s then (s, None)
        else (s\<lparr>ls_loading := True\<rparr>, Some (ls_month s)))"

definition refreshCurrent :: "lim_env \<Rightarrow> string \<Rightarrow> limits_state \<Rightarrow> bool" where
  "refreshCurrent e month s \<longleftrightarrow> \<not> ls_closed s \<and> le_enabled e \<and> ls_month s = month \<and> le_month e = month"

definition refreshSettings :: "lim_env \<Rightarrow> string \<Rightarrow> tenant_limits option \<Rightarrow> limits_state \<Rightarrow> limits_state" where
  "refreshSettings e month res s =
     (case res of
        None \<Rightarrow> s
      | Some value \<Rightarrow>
          if refreshCurrent e month s
          then s\<lparr>ls_value := value\<lparr>tl_monthlyUsed := tl_monthlyUsed (ls_value s)\<rparr>\<rparr>
          else s)"

definition refreshCount :: "lim_env \<Rightarrow> string \<Rightarrow> (int \<times> int) option \<Rightarrow> limits_state \<Rightarrow> limits_state" where
  "refreshCount e month res s =
     (case res of
        None \<Rightarrow> s
      | Some (monthlyUsed, persistedReplies) \<Rightarrow>
          if refreshCurrent e month s
          then let s' = s\<lparr>ls_baselineReplies := max 0 (monthlyUsed - persistedReplies)\<rparr>
               in s'\<lparr>ls_value := (ls_value s')\<lparr>tl_monthlyUsed := ls_baselineReplies s' + ls_localReplies s'\<rparr>\<rparr>
          else s)"

definition refreshEnd :: "limits_state \<Rightarrow> limits_state" where
  "refreshEnd s = s\<lparr>ls_loading := False\<rparr>"

definition closeLimits :: "limits_state \<Rightarrow> limits_state" where
  "closeLimits s = s\<lparr>ls_closed := True\<rparr>"

subsection \<open>Runs\<close>

datatype lim_event =
    LeReply
  | LeAsk
  | LeRefreshStart
  | LeSettings string "tenant_limits option"
  | LeCount string "(int \<times> int) option"
  | LeRefreshEnd
  | LeClose

fun limStep :: "lim_env \<Rightarrow> limits_state \<Rightarrow> lim_event \<Rightarrow> limits_state \<times> (int \<times> string) list" where
  "limStep e s LeReply = noteAiReply e s"
| "limStep e s LeAsk = (fst (limitVerdict e s), [])"
| "limStep e s LeRefreshStart = (fst (refreshStart e s), [])"
| "limStep e s (LeSettings month res) = (refreshSettings e month res s, [])"
| "limStep e s (LeCount month res) = (refreshCount e month res s, [])"
| "limStep e s LeRefreshEnd = (refreshEnd s, [])"
| "limStep e s LeClose = (closeLimits s, [])"

text \<open>The alerts of a run, under a clock that never goes back to a month it left.\<close>

inductive lim_run :: "limits_state \<Rightarrow> limits_state \<Rightarrow> string list \<Rightarrow> (int \<times> string) list \<Rightarrow> bool"
  for s0 where
  LimStart: "lim_run s0 s0 [] []"
| LimStep: "lim_run s0 s past als \<Longrightarrow> le_month e \<notin> set past \<Longrightarrow> limStep e s ev = (t, new) \<Longrightarrow>
    lim_run s0 t (if ls_month t = ls_month s then past else ls_month s # past) (als @ new)"

definition alertsOk :: "limits_state \<Rightarrow> string list \<Rightarrow> (int \<times> string) list \<Rightarrow> bool" where
  "alertsOk s past als \<longleftrightarrow>
     distinct als \<and> ls_month s \<notin> set past \<and>
     list_all (\<lambda>a. snd a \<in> set past \<or> snd a = ls_month s \<and> fst a \<in> set (ls_alerted s)) als"

lemma alertsOk_add:
  assumes ok: "alertsOk s past als" and p: "p \<notin> set (ls_alerted s)"
  shows "alertsOk (s\<lparr>ls_alerted := ls_alerted s @ [p]\<rparr>) past (als @ [(p, ls_month s)])"
proof -
  have "(p, ls_month s) \<notin> set als" using ok p by (auto simp: alertsOk_def list_all_iff)
  then show ?thesis using ok by (auto simp: alertsOk_def list_all_iff)
qed

lemma alertPercent_ok:
  assumes "alertPercent quota percent (s, new) = (t, new')" and "alertsOk s past (als @ new)"
  shows "alertsOk t past (als @ new') \<and> ls_month t = ls_month s"
proof (cases "t = s \<and> new' = new")
  case False
  then have t: "t = s\<lparr>ls_alerted := ls_alerted s @ [percent]\<rparr>" "new' = new @ [(percent, ls_month s)]"
    and p: "percent \<notin> set (ls_alerted s)"
    using assms(1) by (auto simp: alertPercent_def split: if_splits)
  show ?thesis using alertsOk_add [OF assms(2) p] by (simp add: t)
qed (use assms(2) in simp)

lemma rollMonth_simps [simp]:
  "ls_month (rollMonth e s) = le_month e"
  "ls_closed (rollMonth e s) = ls_closed s"
  "ls_loading (rollMonth e s) = ls_loading s"
  by (simp_all add: rollMonth_def)

lemma alertsOk_roll:
  assumes "alertsOk s past als" and "le_month e \<notin> set past"
  shows "alertsOk (rollMonth e s) (if le_month e = ls_month s then past else ls_month s # past) als"
  using assms by (auto simp: alertsOk_def rollMonth_def list_all_iff)

lemma alertsOk_same:
  "alertsOk s past als \<Longrightarrow> ls_month t = ls_month s \<Longrightarrow> ls_alerted t = ls_alerted s \<Longrightarrow> alertsOk t past als"
  by (simp add: alertsOk_def)

lemma noteAiReply_ok:
  assumes ok: "alertsOk s past als" and new: "le_month e \<notin> set past" and st: "noteAiReply e s = (t, als')"
  shows "alertsOk t (if ls_month t = ls_month s then past else ls_month s # past) (als @ als')"
proof (cases "le_enabled e")
  case False
  then show ?thesis using ok st by (simp add: noteAiReply_def)
next
  case True
  let ?past = "if le_month e = ls_month s then past else ls_month s # past"
  define s1 where "s1 = (rollMonth e s)\<lparr>ls_localReplies := ls_localReplies (rollMonth e s) + 1\<rparr>"
  define s2 where "s2 = s1\<lparr>ls_value := (ls_value s1)\<lparr>tl_monthlyUsed := ls_baselineReplies s1 + ls_localReplies s1\<rparr>\<rparr>"
  have ok2: "alertsOk s2 ?past (als @ [])" and m2: "ls_month s2 = le_month e"
    using alertsOk_roll [OF ok new] by (auto simp: s2_def s1_def intro: alertsOk_same)
  show ?thesis
  proof (cases "tl_monthlyQuota (ls_value s2)")
    case None
    then have "t = s2 \<and> als' = []"
      using st True by (simp add: noteAiReply_def s2_def s1_def Let_def)
    then show ?thesis using ok2 m2 by simp
  next
    case (Some quota)
    obtain s3 n3 where a3: "alertPercent quota 80 (s2, []) = (s3, n3)" by fastforce
    have st': "alertPercent quota 100 (s3, n3) = (t, als')"
      using st True Some a3 by (simp add: noteAiReply_def s2_def s1_def Let_def)
    note ok3 = alertPercent_ok [OF a3 ok2]
    note ok4 = alertPercent_ok [OF st' conjunct1 [OF ok3]]
    show ?thesis using ok3 ok4 m2 by simp
  qed
qed

lemma limStep_ok:
  assumes ok: "alertsOk s past als" and new: "le_month e \<notin> set past" and st: "limStep e s ev = (t, als')"
  shows "alertsOk t (if ls_month t = ls_month s then past else ls_month s # past) (als @ als')"
proof (cases "ev = LeReply")
  case True
  then show ?thesis using noteAiReply_ok [OF ok new] st by simp
next
  case False
  have "als' = [] \<and> (ls_month t = ls_month s \<and> ls_alerted t = ls_alerted s \<or>
      ls_month t = le_month e \<and> ls_alerted t = ls_alerted (rollMonth e s))"
    using st False
    by (cases ev) (auto simp: limitVerdict_def getTenantLimits_def refreshStart_def refreshSettings_def
        refreshCount_def refreshEnd_def closeLimits_def Let_def split: option.splits if_splits)
  then show ?thesis
    using ok alertsOk_roll [OF ok new] by (auto intro: alertsOk_same)
qed

lemma lim_run_alertsOk: "lim_run s0 s past als \<Longrightarrow> alertsOk s past als"
  by (induction rule: lim_run.induct) (simp add: alertsOk_def, blast intro: limStep_ok)

text \<open>
  Whatever replies, checks, refreshes of the settings and of the count arrive, and in whatever
  order, a tenant is told of 80 percent and of 100 percent of its monthly replies at most once in a
  month.
\<close>

theorem usage_alerts_once_a_month:
  assumes "lim_run s0 s past als"
  shows "distinct als"
  using lim_run_alertsOk [OF assms] by (simp add: alertsOk_def)

definition lim_env_ex :: "string \<Rightarrow> lim_env" where
  "lim_env_ex m = \<lparr>le_month = m, le_enabled = True\<rparr>"

definition limits_ex :: limits_state where
  "limits_ex = (newLimits TsActive ''m1'')\<lparr>ls_value :=
     \<lparr>tl_status = TsActive, tl_monthlyQuota = Some 1, tl_monthlyUsed = 0, tl_dailyCapMilli = None\<rparr>\<rparr>"

lemma usage_alerts_once_a_month_witness:
  "\<exists>s. lim_run limits_ex s [''m1''] [(80, ''m1''), (100, ''m1''), (80, ''m2''), (100, ''m2'')] \<and>
       distinct [(80 :: int, ''m1''), (100, ''m1''), (80, ''m2''), (100, ''m2'')]"
proof -
  obtain s1 where s1: "limStep (lim_env_ex ''m1'') limits_ex LeReply = (s1, [(80, ''m1''), (100, ''m1'')])"
      "ls_month s1 = ''m1''" "ls_month limits_ex = ''m1''"
      "limStep (lim_env_ex ''m2'') s1 LeReply =
        (fst (limStep (lim_env_ex ''m2'') s1 LeReply), [(80, ''m2''), (100, ''m2'')])"
      "ls_month (fst (limStep (lim_env_ex ''m2'') s1 LeReply)) = ''m2''"
    by (simp add: noteAiReply_def alertPercent_def limits_ex_def newLimits_def lim_env_ex_def rollMonth_def
        Let_def)
  have 1: "lim_run limits_ex s1 [] [(80, ''m1''), (100, ''m1'')]"
    using LimStep [OF LimStart _ s1(1)] s1(2,3) by (simp add: lim_env_ex_def)
  have 2: "lim_run limits_ex (fst (limStep (lim_env_ex ''m2'') s1 LeReply)) [''m1'']
      [(80, ''m1''), (100, ''m1''), (80, ''m2''), (100, ''m2'')]"
    using LimStep [OF 1 _ s1(4)] s1(2,5) by (simp add: lim_env_ex_def)
  show ?thesis using 2 usage_alerts_once_a_month [OF 2] by blast
qed

text \<open>The verdict, on every branch.\<close>

lemma limitVerdict_quota:
  "le_enabled e \<Longrightarrow> ls_month s = le_month e \<Longrightarrow>
   snd (limitVerdict e s) = LvQuota \<longleftrightarrow>
     tl_status (ls_value s) \<noteq> TsSuspended \<and>
     (\<exists>q. tl_monthlyQuota (ls_value s) = Some q \<and> q \<le> tl_monthlyUsed (ls_value s))"
  by (auto simp: limitVerdict_def getTenantLimits_def verdictOf_def rollMonth_def split: option.splits if_splits)

lemma suspended_first: "tl_status l = TsSuspended \<Longrightarrow> verdictOf (Some l) = LvSuspended"
  by (simp add: verdictOf_def)

section \<open>Visitors of the web\<close>

record visitor_budget =
  vb_day :: string
  vb_calls :: nat
  vb_perSession :: "(string, nat) jsmap"

text \<open>The day, whether the runtime is the host's, and what the budget file holds (None: nothing usable).\<close>

record visit_env =
  ve_today :: string
  ve_host :: bool
  ve_file :: "visitor_budget option"

definition freshVisitors :: "string \<Rightarrow> visitor_budget" where
  "freshVisitors day = \<lparr>vb_day = day, vb_calls = 0, vb_perSession = []\<rparr>"

definition hostBudget :: "visit_env \<Rightarrow> visitor_budget option \<Rightarrow> visitor_budget option" where
  "hostBudget e entry =
     (if \<not> ve_host e then None
      else let loaded = (case entry of
                 Some b \<Rightarrow> b
               | None \<Rightarrow>
                   (case ve_file e of
                      None \<Rightarrow> freshVisitors (ve_today e)
                    | Some raw \<Rightarrow> if vb_day raw = ve_today e then raw else freshVisitors (ve_today e)))
           in Some (if vb_day loaded = ve_today e then loaded else freshVisitors (ve_today e)))"

definition sessionCalls :: "visitor_budget \<Rightarrow> string \<Rightarrow> nat" where
  "sessionCalls b sid = (case jget (vb_perSession b) sid of None \<Rightarrow> 0 | Some n \<Rightarrow> n)"

text \<open>A cap of zero is no cap. The result is the new state of the host and whether the call may run.\<close>

definition tryReserveVisitorLLM ::
    "nat \<Rightarrow> nat \<Rightarrow> visit_env \<Rightarrow> string \<Rightarrow> visitor_budget option \<Rightarrow> visitor_budget option \<times> bool" where
  "tryReserveVisitorLLM dailyCap sessionCap e sid entry =
     (case hostBudget e entry of
        None \<Rightarrow> (entry, True)
      | Some b \<Rightarrow>
          if sessionCap \<noteq> 0 \<and> sessionCap \<le> sessionCalls b sid then (Some b, False)
          else if dailyCap \<noteq> 0 \<and> dailyCap \<le> vb_calls b then (Some b, False)
          else (Some (b\<lparr>vb_calls := vb_calls b + 1,
                        vb_perSession := jset (vb_perSession b) sid (sessionCalls b sid + 1)\<rparr>), True))"

definition budgetDegraded :: "nat \<Rightarrow> visit_env \<Rightarrow> visitor_budget option \<Rightarrow> bool" where
  "budgetDegraded dailyCap e entry =
     (0 < dailyCap \<and>
      dailyCap \<le> vb_calls (case hostBudget e entry of None \<Rightarrow> freshVisitors (ve_today e) | Some b \<Rightarrow> b))"

text \<open>The runs of the host: a granted call is a reservation that is never settled.\<close>

definition visitReserve ::
    "nat \<Rightarrow> nat \<Rightarrow> visitor_budget \<Rightarrow> visit_env \<times> string \<Rightarrow> visitor_budget option" where
  "visitReserve dailyCap sessionCap b x =
     (case tryReserveVisitorLLM dailyCap sessionCap (fst x) (snd x) (Some b) of
        (entry, granted) \<Rightarrow> if granted \<and> ve_host (fst x) then entry else None)"

definition visitTick :: "nat \<Rightarrow> nat \<Rightarrow> visitor_budget \<Rightarrow> visit_env \<times> string \<Rightarrow> visitor_budget" where
  "visitTick dailyCap sessionCap b x =
     (case tryReserveVisitorLLM dailyCap sessionCap (fst x) (snd x) (Some b) of
        (Some b', False) \<Rightarrow> b'
      | _ \<Rightarrow> b)"

lemma visitReserve_room:
  assumes "visitReserve dailyCap sessionCap b x = Some b'"
  shows "(dailyCap \<noteq> 0 \<longrightarrow> vb_calls b' \<le> dailyCap) \<and>
     (sessionCap \<noteq> 0 \<longrightarrow> sessionCalls b' t \<le> max sessionCap (sessionCalls b t))"
  using assms
  by (auto simp: visitReserve_def tryReserveVisitorLLM_def hostBudget_def sessionCalls_def freshVisitors_def
      Let_def split: option.splits if_splits)

lemma visitTick_less:
  "vb_calls (visitTick dailyCap sessionCap b x) \<le> vb_calls b"
  "sessionCalls (visitTick dailyCap sessionCap b x) t \<le> sessionCalls b t"
  by (auto simp: visitTick_def tryReserveVisitorLLM_def hostBudget_def sessionCalls_def freshVisitors_def
      Let_def split: option.splits if_splits)

definition noSettle :: "'s \<Rightarrow> unit \<Rightarrow> 's" where
  "noSettle s u = s"

interpretation visitor_day: money_quota "\<lambda>b. of_nat (vb_calls b)" "of_nat (Suc n)"
    "visitReserve (Suc n) sessionCap" noSettle "visitTick (Suc n) sessionCap" "\<lambda>_ _. False" "\<lambda>_. True"
  for n sessionCap
  by unfold_locales (auto dest: visitReserve_room simp del: of_nat_Suc intro: order_trans [OF visitTick_less(1)])

interpretation visitor_session: money_quota "\<lambda>b. of_nat (sessionCalls b sid)" "of_nat (Suc n)"
    "visitReserve dailyCap (Suc n)" noSettle "visitTick dailyCap (Suc n)" "\<lambda>_ _. False" "\<lambda>_. True"
  for n dailyCap sid
proof (unfold_locales, goal_cases)
  case (1 b x b')
  then show ?case using visitReserve_room [of dailyCap "Suc n" b x b' sid] by (simp del: of_nat_Suc)
qed (auto simp del: of_nat_Suc intro: order_trans [OF visitTick_less(2)])

text \<open>A host's visitors never get more model calls in a day than the cap, nor one session more than its own.\<close>

lemma visitor_caps:
  assumes "quota_run (visitReserve (Suc d) (Suc k)) noSettle (visitTick (Suc d) (Suc k)) (\<lambda>_ _. False)
      (freshVisitors day) b"
  shows "vb_calls b \<le> Suc d \<and> sessionCalls b sid \<le> Suc k"
  using visitor_day.run_within [OF assms] visitor_session.run_within [OF assms, of sid]
  by (simp add: freshVisitors_def sessionCalls_def del: of_nat_Suc)

section \<open>The rate of one customer\<close>

datatype rate_verdict = RateOk | RateWarn | RateSilent

record rate_window =
  rw_minute :: "int list"
  rw_hour :: "int list"
  rw_warnedAt :: "int option"

text \<open>The two caps, zero when off, and whether the tenant and channel are limited at all.\<close>

record rate_env =
  re_perMin :: nat
  re_perHour :: nat
  re_limited :: bool

definition newRate :: rate_window where
  "newRate = \<lparr>rw_minute = [], rw_hour = [], rw_warnedAt = None\<rparr>"

definition recordHit :: "int \<Rightarrow> int \<Rightarrow> nat \<Rightarrow> int list \<Rightarrow> int list \<times> bool" where
  "recordHit now windowMs limit ts =
     (if limit = 0 then (ts, False)
      else let live = dropWhile (\<lambda>t. t \<le> now - windowMs) ts; blocked = (limit \<le> length live)
           in ((if blocked then tl live else live) @ [now], blocked))"

definition rateVerdict :: "int \<Rightarrow> bool \<Rightarrow> rate_window \<Rightarrow> rate_window \<times> rate_verdict" where
  "rateVerdict now over w =
     (if \<not> over then (w, RateOk)
      else case rw_warnedAt w of
             Some t0 \<Rightarrow>
               if now - t0 < 600000 then (w, RateSilent)
               else (w\<lparr>rw_warnedAt := Some now\<rparr>, RateWarn)
           | None \<Rightarrow> (w\<lparr>rw_warnedAt := Some now\<rparr>, RateWarn))"

definition rateWindow :: "rate_env \<Rightarrow> int \<Rightarrow> rate_window \<Rightarrow> rate_window \<times> rate_verdict" where
  "rateWindow e now w =
     (case recordHit now 60000 (re_perMin e) (rw_minute w) of
        (minutes, m) \<Rightarrow>
          case recordHit now 3600000 (re_perHour e) (rw_hour w) of
            (hours, h) \<Rightarrow> rateVerdict now (m \<or> h) (w\<lparr>rw_minute := minutes, rw_hour := hours\<rparr>))"

definition customerRate ::
    "rate_env \<Rightarrow> string \<Rightarrow> int \<Rightarrow> (string, rate_window) jsmap \<Rightarrow>
     (string, rate_window) jsmap \<times> rate_verdict" where
  "customerRate e sid now entries =
     (if re_perMin e = 0 \<and> re_perHour e = 0 \<or> \<not> re_limited e then (entries, RateOk)
      else let entry = (case jget entries sid of None \<Rightarrow> newRate | Some w \<Rightarrow> w);
               moved = jset (jdel entries sid) sid entry;
               kept = (if 100000 < length moved then tl moved else moved)
           in case rateWindow e now entry of (entry', v) \<Rightarrow> (jset kept sid entry', v))"

subsection \<open>The window by its history\<close>

definition lastn :: "nat \<Rightarrow> 'a list \<Rightarrow> 'a list" where
  "lastn n xs = drop (length xs - n) xs"

definition since :: "int \<Rightarrow> int list \<Rightarrow> int list" where
  "since c ts = filter (\<lambda>t. c < t) ts"

text \<open>What a window holds after the attempts \<open>hs\<close>.\<close>

definition winOf :: "nat \<Rightarrow> int \<Rightarrow> int list \<Rightarrow> int list" where
  "winOf limit windowMs hs = (if hs = [] then [] else lastn limit (since (last hs - windowMs) hs))"

lemma dropWhile_within: "sorted ts \<Longrightarrow> dropWhile (\<lambda>t. t \<le> c) ts = since c ts"
proof (induction ts)
  case (Cons t ts)
  then have "c < t \<Longrightarrow> since c ts = ts" by (auto simp: since_def intro!: filter_True)
  then show ?case using Cons by (auto simp: since_def)
qed (simp add: since_def)

lemma since_lastn:
  assumes "sorted ts"
  shows "since c (lastn n ts) = lastn n (since c ts)"
proof -
  define A where "A = takeWhile (\<lambda>t. t \<le> c) ts"
  have ts: "ts = A @ since c ts"
    using dropWhile_within [OF assms] takeWhile_dropWhile_id [of "\<lambda>t. t \<le> c" ts] by (simp add: A_def)
  have low: "since c (drop k A) = []" for k
    using set_takeWhileD by (fastforce simp: A_def since_def filter_empty_conv dest: in_set_dropD)
  have high: "since c (drop k (since c ts)) = drop k (since c ts)" for k
    by (auto simp: since_def filter_id_conv dest: in_set_dropD)
  have "lastn n ts = drop (length ts - n) (A @ since c ts)" using ts by (simp add: lastn_def)
  also have "\<dots> = drop (length ts - n) A @ drop (length ts - n - length A) (since c ts)" by simp
  finally have "since c (lastn n ts) = drop (length ts - n - length A) (since c ts)"
    using low high by (simp add: since_def)
  moreover have "length ts = length A + length (since c ts)" using arg_cong [OF ts, of length] by simp
  ultimately show ?thesis by (simp add: lastn_def)
qed

lemma since_within: "b \<le> c \<Longrightarrow> since c (since b ts) = since c ts"
  by (auto simp: since_def intro: filter_cong)

lemma lastn_snoc: "0 < n \<Longrightarrow>
   lastn n (xs @ [x]) = (if n \<le> length (lastn n xs) then tl (lastn n xs) else lastn n xs) @ [x]"
  by (auto simp: lastn_def tl_drop drop_Suc Suc_diff_le)

lemma recordHit_winOf:
  assumes s: "sorted (hs @ [now])" and W: "0 < W"
  shows "recordHit now W limit (winOf limit W hs) =
     (winOf limit W (hs @ [now]), 0 < limit \<and> limit \<le> length (since (now - W) hs))"
proof (cases "limit = 0")
  case True
  then show ?thesis by (simp add: recordHit_def winOf_def lastn_def)
next
  case False
  have live: "dropWhile (\<lambda>t. t \<le> now - W) (winOf limit W hs) = lastn limit (since (now - W) hs)"
  proof (cases "hs = []")
    case ne: False
    have sh: "sorted hs" "last hs \<le> now" using s ne by (auto simp: sorted_append)
    have "sorted (winOf limit W hs)"
      using sh by (auto simp: winOf_def lastn_def since_def sorted_wrt_drop sorted_wrt_filter)
    then have "dropWhile (\<lambda>t. t \<le> now - W) (winOf limit W hs) = since (now - W) (winOf limit W hs)"
      by (rule dropWhile_within)
    also have "\<dots> = lastn limit (since (now - W) hs)"
      using since_lastn [of "since (last hs - W) hs" "now - W" limit] sh ne
      by (simp add: winOf_def since_within) (simp add: since_def sorted_wrt_filter)
    finally show ?thesis .
  qed (simp add: winOf_def lastn_def since_def)
  have "since (now - W) (hs @ [now]) = since (now - W) hs @ [now]" using W by (simp add: since_def)
  then have new: "winOf limit W (hs @ [now]) = lastn limit (since (now - W) hs @ [now])"
    by (simp add: winOf_def)
  have len: "limit \<le> length (lastn limit xs) \<longleftrightarrow> limit \<le> length xs" for xs :: "int list"
    by (auto simp: lastn_def)
  show ?thesis
    using False lastn_snoc [of limit "since (now - W) hs" now] len
    by (simp add: recordHit_def live new Let_def)
qed

text \<open>A history of attempts, oldest first, and the state after it.\<close>

definition rateRun :: "rate_env \<Rightarrow> (string \<times> int) list \<Rightarrow> (string, rate_window) jsmap" where
  "rateRun e hist = foldl (\<lambda>entries h. fst (customerRate e (fst h) (snd h) entries)) [] hist"

definition hitsOf :: "string \<Rightarrow> (string \<times> int) list \<Rightarrow> int list" where
  "hitsOf sid hist = map snd (filter (\<lambda>h. fst h = sid) hist)"

definition rateInv :: "rate_env \<Rightarrow> (string \<times> int) list \<Rightarrow> (string, rate_window) jsmap \<Rightarrow> bool" where
  "rateInv e hist entries \<longleftrightarrow>
     jwf entries \<and> set (jkeys entries) = set (map fst hist) \<and>
     (\<forall>sid w. jget entries sid = Some w \<longrightarrow>
        rw_minute w = winOf (re_perMin e) 60000 (hitsOf sid hist) \<and>
        rw_hour w = winOf (re_perHour e) 3600000 (hitsOf sid hist))"

definition rateActive :: "rate_env \<Rightarrow> bool" where
  "rateActive e \<longleftrightarrow> (0 < re_perMin e \<or> 0 < re_perHour e) \<and> re_limited e"

definition overRate :: "rate_env \<Rightarrow> int list \<Rightarrow> int \<Rightarrow> bool" where
  "overRate e hits now \<longleftrightarrow>
     0 < re_perMin e \<and> re_perMin e \<le> length (since (now - 60000) hits) \<or>
     0 < re_perHour e \<and> re_perHour e \<le> length (since (now - 3600000) hits)"

lemma hitsOf_snoc:
  "hitsOf sid (hist @ [h]) = (if fst h = sid then hitsOf sid hist @ [snd h] else hitsOf sid hist)"
  by (simp add: hitsOf_def)

lemma sorted_hitsOf: "sorted (map snd hist) \<Longrightarrow> sorted (hitsOf sid hist)"
  unfolding hitsOf_def sorted_map by (rule sorted_wrt_filter)

lemma hitsOf_absent: "sid \<notin> set (map fst hist) \<Longrightarrow> hitsOf sid hist = []"
  by (auto simp: hitsOf_def filter_empty_conv)

lemma rateWindow_hist:
  assumes s: "sorted (hs @ [now])"
    and w: "rw_minute w = winOf (re_perMin e) 60000 hs" "rw_hour w = winOf (re_perHour e) 3600000 hs"
    and r: "rateWindow e now w = (w', v)"
  shows "(v \<noteq> RateOk \<longleftrightarrow> overRate e hs now) \<and>
     rw_minute w' = winOf (re_perMin e) 60000 (hs @ [now]) \<and>
     rw_hour w' = winOf (re_perHour e) 3600000 (hs @ [now])"
  using r recordHit_winOf [OF s, of 60000 "re_perMin e"] recordHit_winOf [OF s, of 3600000 "re_perHour e"]
  by (auto simp: rateWindow_def w rateVerdict_def overRate_def split: if_splits option.splits)

lemma length_jkeys: "length (jkeys m) = length m"
  by (simp add: jkeys_def)

lemma jwf_length: "jwf m \<Longrightarrow> length m = card (set (jkeys m))"
  using distinct_card [of "jkeys m"] by (simp add: jwf_def length_jkeys)

lemma customerRate_inv:
  assumes act: "rateActive e" and inv: "rateInv e hist entries" and s: "sorted (map snd (hist @ [(sid, now)]))"
    and few: "card (set (map fst (hist @ [(sid, now)]))) \<le> 100000"
    and r: "customerRate e sid now entries = (entries', v)"
  shows "(v \<noteq> RateOk \<longleftrightarrow> overRate e (hitsOf sid hist) now) \<and> rateInv e (hist @ [(sid, now)]) entries'"
proof -
  define entry where "entry = (case jget entries sid of None \<Rightarrow> newRate | Some w \<Rightarrow> w)"
  define moved where "moved = jset (jdel entries sid) sid entry"
  have wf: "jwf entries" and keys: "set (jkeys entries) = set (map fst hist)" using inv by (simp_all add: rateInv_def)
  have "length moved = card (set (map fst (hist @ [(sid, now)])))"
    using wf keys by (subst jwf_length) (auto simp: moved_def set_jkeys_jdel intro: arg_cong [of _ _ card])
  then have small: "\<not> 100000 < length moved" using few by simp
  obtain w' where w': "rateWindow e now entry = (w', v)" and e': "entries' = jset moved sid w'"
  proof -
    obtain w' v' where "rateWindow e now entry = (w', v')" by fastforce
    then show ?thesis
      using r act small that
      by (auto simp: customerRate_def rateActive_def entry_def [symmetric] moved_def [symmetric] Let_def)
  qed
  have "jget entries sid = None \<Longrightarrow> hitsOf sid hist = []"
    using keys by (intro hitsOf_absent) (simp add: jget_None_iff)
  then have entry: "rw_minute entry = winOf (re_perMin e) 60000 (hitsOf sid hist)"
      "rw_hour entry = winOf (re_perHour e) 3600000 (hitsOf sid hist)"
    using inv by (auto simp: entry_def rateInv_def newRate_def winOf_def split: option.splits)
  have "sorted (hitsOf sid hist @ [now])"
    using sorted_hitsOf [OF s, of sid] by (simp add: hitsOf_snoc)
  note h = rateWindow_hist [OF this entry w']
  have "rateInv e (hist @ [(sid, now)]) entries'"
    using inv wf keys h by (auto simp: rateInv_def e' moved_def hitsOf_snoc set_jkeys_jdel)
  then show ?thesis using h by simp
qed

lemma rateRun_inv:
  assumes "rateActive e"
  shows "sorted (map snd hist) \<Longrightarrow> card (set (map fst hist)) \<le> 100000 \<Longrightarrow> rateInv e hist (rateRun e hist)"
proof (induction hist rule: rev_induct)
  case Nil
  then show ?case by (simp add: rateRun_def rateInv_def jkeys_def)
next
  case (snoc h hist)
  obtain sid now where h: "h = (sid, now)" by fastforce
  have "card (set (map fst hist)) \<le> card (set (map fst (hist @ [h])))" by (rule card_mono) auto
  then have inv: "rateInv e hist (rateRun e hist)" using snoc by (simp add: sorted_append)
  obtain entries' v where r: "customerRate e sid now (rateRun e hist) = (entries', v)" by fastforce
  have "rateInv e (hist @ [(sid, now)]) entries'"
    using customerRate_inv [OF assms inv _ _ r] snoc.prems h by simp
  then show ?case using r by (simp add: rateRun_def h)
qed

text \<open>
  C21: With the limits on and at most 100000 customers seen, a customer's message is held back exactly
  when it already sent the cap of messages in the last minute or the cap of the last hour, although the
  code keeps only the last few times of each window.
\<close>

theorem customerRate_counts_windows:
  assumes "rateActive e" and "sorted (map snd (hist @ [(sid, now)]))"
    and "card (set (map fst (hist @ [(sid, now)]))) \<le> 100000"
  shows "snd (customerRate e sid now (rateRun e hist)) \<noteq> RateOk \<longleftrightarrow> overRate e (hitsOf sid hist) now"
proof -
  obtain entries' v where r: "customerRate e sid now (rateRun e hist) = (entries', v)" by fastforce
  have "card (set (map fst hist)) \<le> card (set (map fst (hist @ [(sid, now)])))" by (rule card_mono) auto
  then have "rateInv e hist (rateRun e hist)"
    using rateRun_inv [OF assms(1), of hist] assms(2,3) by (simp add: sorted_append)
  from customerRate_inv [OF assms(1) this assms(2,3) r] r show ?thesis by simp
qed

definition rate_env_ex :: rate_env where
  "rate_env_ex = \<lparr>re_perMin = 2, re_perHour = 0, re_limited = True\<rparr>"

lemma customerRate_counts_windows_witness:
  "snd (customerRate rate_env_ex ''a'' 60 (rateRun rate_env_ex [(''a'', 1), (''b'', 2), (''a'', 50)])) \<noteq> RateOk"
proof -
  have "rateActive rate_env_ex" by (simp add: rateActive_def rate_env_ex_def)
  moreover have "sorted (map snd ([(''a'', 1), (''b'', 2), (''a'', 50)] @ [(''a'', 60 :: int)]))" by simp
  moreover have "card (set (map fst ([(''a'', 1 :: int), (''b'', 2), (''a'', 50)] @ [(''a'', 60)]))) \<le> 100000"
    by (simp add: card_insert_if)
  moreover have "overRate rate_env_ex (hitsOf ''a'' [(''a'', 1), (''b'', 2), (''a'', 50)]) 60"
    by (simp add: overRate_def hitsOf_def since_def rate_env_ex_def)
  ultimately show ?thesis using customerRate_counts_windows by blast
qed

text \<open>A customer is warned at most once in ten minutes.\<close>

lemma rateVerdict_warn:
  "rateVerdict now over w = (w', RateWarn) \<Longrightarrow>
   rw_warnedAt w' = Some now \<and> (\<forall>t. rw_warnedAt w = Some t \<longrightarrow> 600000 \<le> now - t)"
  by (auto simp: rateVerdict_def split: if_splits option.splits)

end
