(* ===== verification/SandboxPool.thy ===== *)
theory SandboxPool
  imports Budgets
begin

text \<open>
  The money pool of the sandbox tenants (\<open>src/tenancy/sandbox/budget.ts\<close>): a daily cap shared by
  all of them, a cap per tenant, and the cost of building the shared index, which belongs to no tenant
  and is written to the database in batches. Costs are exact rationals of a thousandth of a yuan.
\<close>

section \<open>The pool\<close>

record box_state =
  bx_calls :: nat
  bx_costMilli :: rat
  bx_ready :: bool
  bx_dropped :: bool

record index_usage =
  iu_day :: string
  iu_calls :: nat
  iu_costMilli :: rat
  iu_oldest :: int

record pool_state =
  pl_db :: bool
  pl_day :: string
  pl_calls :: nat
  pl_costMilli :: rat
  pl_reservedCalls :: nat
  pl_reservedMilli :: rat
  pl_capMilli :: rat
  pl_capCalls :: nat
  pl_tenantCapMilli :: rat
  pl_minimumMilli :: rat
  pl_alertedDay :: string
  pl_indexClaimed :: bool
  pl_pending :: "index_usage list"
  pl_flushing :: "index_usage list"

definition pool :: pool_state where
  "pool =
     \<lparr>pl_db = False, pl_day = [], pl_calls = 0, pl_costMilli = 0, pl_reservedCalls = 0,
      pl_reservedMilli = 0, pl_capMilli = 10000, pl_capCalls = 300, pl_tenantCapMilli = 1000,
      pl_minimumMilli = 0, pl_alertedDay = [], pl_indexClaimed = False, pl_pending = [],
      pl_flushing = []\<rparr>"

text \<open>The clock, the oldest unsaved usage of the tenants, and the runtime of the call.\<close>

record pool_env =
  pe_today :: string
  pe_now :: int
  pe_usageOldest :: "int option"
  pe_sandbox :: bool
  pe_closed :: bool
  pe_aborted :: bool
  pe_stopped :: bool
  pe_mine :: bool

text \<open>
  An environment variable as a number: not set, or a value, None when it is not finite. The error is
  the missing result.
\<close>

definition positive :: "rat option option \<Rightarrow> rat \<Rightarrow> bool \<Rightarrow> rat option" where
  "positive raw fallback integer =
     (case (case raw of None \<Rightarrow> Some fallback | Some v \<Rightarrow> v) of
        None \<Rightarrow> None
      | Some v \<Rightarrow>
          if v \<le> 0 \<or> (integer \<and> \<not> (of_int \<lfloor>v\<rfloor> = v \<and> v \<le> 9007199254740991)) then None else Some v)"

definition rollPool :: "pool_env \<Rightarrow> pool_state \<Rightarrow> pool_state" where
  "rollPool e p =
     (if pl_day p = pe_today e then p
      else p\<lparr>pl_day := pe_today e, pl_calls := pl_reservedCalls p, pl_costMilli := pl_reservedMilli p\<rparr>)"

definition poolAlert :: "string \<Rightarrow> pool_state \<Rightarrow> pool_state \<times> bud_alert list" where
  "poolAlert msg p =
     (if pl_alertedDay p = pl_day p then (p, [])
      else (p\<lparr>pl_alertedDay := pl_day p\<rparr>, [PoolLimit msg]))"

definition notifySandboxProvisionLimited ::
    "pool_env \<Rightarrow> pool_state \<Rightarrow> pool_state \<times> bud_alert list" where
  "notifySandboxProvisionLimited e p = poolAlert ''provision'' (rollPool e p)"

text \<open>The three variables are the pool's, the calls' and the tenant's; a bad one throws.\<close>

definition initPoolStart ::
    "rat option option \<Rightarrow> rat option option \<Rightarrow> rat option option \<Rightarrow> pool_state \<Rightarrow> pool_state option" where
  "initPoolStart poolCny calls tenantCny p =
     (case (positive calls 300 True, positive tenantCny 1 False, positive poolCny 10 False) of
        (Some n, Some t, Some c) \<Rightarrow>
          Some (p\<lparr>pl_indexClaimed := False, pl_alertedDay := [], pl_capMilli := c * 1000,
                  pl_capCalls := nat \<lfloor>n\<rfloor>, pl_tenantCapMilli := t * 1000\<rparr>)
      | _ \<Rightarrow> None)"

definition lowPool :: "pool_state \<Rightarrow> bool" where
  "lowPool p \<longleftrightarrow> pl_capMilli p \<le> pl_costMilli p \<or> pl_capMilli p - pl_costMilli p < pl_minimumMilli p"

definition initPoolDone ::
    "rat \<Rightarrow> string \<Rightarrow> nat \<times> rat \<Rightarrow> pool_state \<Rightarrow> pool_state" where
  "initPoolDone minimum day snapshot p0 =
     (let p = p0\<lparr>pl_minimumMilli := minimum, pl_day := day, pl_calls := fst snapshot,
                 pl_costMilli := snd snapshot\<rparr>
      in (if lowPool p then p\<lparr>pl_alertedDay := day\<rparr> else p)\<lparr>pl_db := True\<rparr>)"

definition initializeSandboxBudget :: "nat \<times> rat \<Rightarrow> box_state \<Rightarrow> box_state" where
  "initializeSandboxBudget loaded st =
     (if bx_ready st \<or> bx_dropped st then st
      else st\<lparr>bx_calls := fst loaded, bx_costMilli := snd loaded, bx_ready := True\<rparr>)"

definition lagging :: "pool_env \<Rightarrow> pool_state \<Rightarrow> bool" where
  "lagging e p \<longleftrightarrow>
     list_ex (\<lambda>t. 60000 < pe_now e - t)
       ((case pe_usageOldest e of None \<Rightarrow> [] | Some t \<Rightarrow> [t]) @
        map iu_oldest (pl_pending p @ pl_flushing p))"

definition sandboxPoolAvailable :: "pool_env \<Rightarrow> pool_state \<Rightarrow> pool_state \<times> bud_alert list \<times> bool" where
  "sandboxPoolAvailable e p0 =
     (let p = rollPool e p0 in
      if \<not> pl_db p \<or> lagging e p \<or> pe_stopped e then (p, [], False)
      else if lowPool p
      then case poolAlert (if pl_capMilli p \<le> pl_costMilli p then ''used up'' else ''too little'') p of
             (p', als) \<Rightarrow> (p', als, False)
      else (p, [], True))"

section \<open>Reservations\<close>

definition mayReserve :: "pool_env \<Rightarrow> pool_state \<Rightarrow> box_state option \<Rightarrow> bool" where
  "mayReserve e p st \<longleftrightarrow>
     pl_db p \<and> pe_sandbox e \<and> \<not> pe_closed e \<and> \<not> pe_aborted e \<and> \<not> pe_stopped e \<and> \<not> lagging e p \<and>
     (case st of None \<Rightarrow> True | Some s \<Rightarrow> bx_ready s \<and> \<not> bx_dropped s)"

definition tenantFull :: "pool_state \<Rightarrow> box_state option \<Rightarrow> rat \<Rightarrow> bool" where
  "tenantFull p st est =
     (case st of
        None \<Rightarrow> False
      | Some s \<Rightarrow> pl_capCalls p \<le> bx_calls s \<or> pl_tenantCapMilli p < bx_costMilli s + est)"

text \<open>A reservation is its estimate; None refuses. The state is the tenant's, None for the index.\<close>

definition reserveBox ::
    "pool_env \<Rightarrow> box_state option \<Rightarrow> rat option \<Rightarrow> pool_state \<Rightarrow>
     pool_state \<times> box_state option \<times> bud_alert list \<times> rat option" where
  "reserveBox e st estimate p0 =
     (let p = rollPool e p0 in
      case estimate of
        None \<Rightarrow> (p, st, [], None)
      | Some est \<Rightarrow>
          if \<not> mayReserve e p st \<or> est < 0 \<or> tenantFull p st est then (p, st, [], None)
          else if pl_capMilli p < pl_costMilli p + est \<or> pl_capMilli p \<le> pl_costMilli p
          then case poolAlert (if pl_capMilli p \<le> pl_costMilli p then ''used up'' else ''too little'') p of
                 (p', als) \<Rightarrow> (p', st, als, None)
          else (p\<lparr>pl_calls := Suc (pl_calls p), pl_costMilli := pl_costMilli p + est,
                  pl_reservedCalls := Suc (pl_reservedCalls p),
                  pl_reservedMilli := pl_reservedMilli p + est\<rparr>,
                map_option (\<lambda>s. s\<lparr>bx_calls := Suc (bx_calls s), bx_costMilli := bx_costMilli s + est\<rparr>) st,
                [], Some est))"

definition settleBox ::
    "pool_env \<Rightarrow> rat option \<Rightarrow> rat \<Rightarrow> bool \<Rightarrow> box_state option \<Rightarrow> pool_state \<Rightarrow>
     pool_state \<times> box_state option \<times> bool \<times> bud_error option" where
  "settleBox e actualMilli est settled st p0 =
     (if settled \<or> (case st of None \<Rightarrow> False | Some s \<Rightarrow> bx_dropped s) \<or> pe_closed e
      then (p0, st, settled, None)
      else if \<not> pe_mine e then (p0, st, settled, Some NotMyTenant)
      else let actual = (case actualMilli of None \<Rightarrow> est | Some a \<Rightarrow> max 0 a);
               p = rollPool e p0;
               n = pl_reservedCalls p - 1;
               p1 = p\<lparr>pl_costMilli := pl_costMilli p + (actual - est), pl_reservedCalls := n,
                      pl_reservedMilli := (if n = 0 then 0 else pl_reservedMilli p - est)\<rparr>
           in case st of
                Some s \<Rightarrow> (p1, Some (s\<lparr>bx_costMilli := bx_costMilli s + (actual - est)\<rparr>), True, None)
              | None \<Rightarrow>
                  (p1\<lparr>pl_pending := pl_pending p1 @
                       [\<lparr>iu_day = pl_day p1, iu_calls = 1, iu_costMilli = actual, iu_oldest = pe_now e\<rparr>]\<rparr>,
                   None, True, None))"

definition newBox :: box_state where
  "newBox = \<lparr>bx_calls = 0, bx_costMilli = 0, bx_ready = False, bx_dropped = False\<rparr>"

definition dropBox :: "box_state \<Rightarrow> box_state" where
  "dropBox st = st\<lparr>bx_dropped := True\<rparr>"

definition claimSandboxInitialIndex :: "pool_env \<Rightarrow> pool_state \<Rightarrow> pool_state \<times> bool" where
  "claimSandboxInitialIndex e p =
     (if \<not> pe_sandbox e \<or> pl_indexClaimed p then (p, False) else (p\<lparr>pl_indexClaimed := True\<rparr>, True))"

section \<open>Writing the index usage\<close>

text \<open>The members of a set built from a list, in insertion order.\<close>

definition setOrder :: "'a list \<Rightarrow> 'a list" where
  "setOrder xs = rev (remdups (rev xs))"

definition flushRows :: "index_usage list \<Rightarrow> (string \<times> nat \<times> int) list" where
  "flushRows batch =
     map (\<lambda>day. let entries = filter (\<lambda>u. iu_day u = day) batch in
            (day, sum_list (map iu_calls entries), \<lceil>sum_list (map iu_costMilli entries) - 1 / 1000000\<rceil>))
       (setOrder (map iu_day batch))"

text \<open>The start of a flush hands the rows to the database; the end learns whether they were written.\<close>

definition flushStart :: "pool_state \<Rightarrow> pool_state \<times> (string \<times> nat \<times> int) list option" where
  "flushStart p =
     (if \<not> pl_db p \<or> pl_pending p = [] then (p, None)
      else (p\<lparr>pl_flushing := pl_pending p, pl_pending := []\<rparr>, Some (flushRows (pl_pending p))))"

definition flushEnd :: "bool \<Rightarrow> pool_state \<Rightarrow> pool_state" where
  "flushEnd written p =
     (if written then p else p\<lparr>pl_pending := pl_flushing p @ pl_pending p\<rparr>)\<lparr>pl_flushing := []\<rparr>"

definition closeSandboxBudgetPool :: "pool_state \<Rightarrow> pool_state" where
  "closeSandboxBudgetPool p = p\<lparr>pl_pending := [], pl_db := False\<rparr>"

section \<open>Runs of the pool\<close>

text \<open>The pool, the tenants, and the reservations that are still accounted for in it.\<close>

record pool_world =
  pw_pool :: pool_state
  pw_tenants :: "string \<Rightarrow> box_state"
  pw_open :: "(string option \<times> rat) list"

definition boxOf :: "pool_world \<Rightarrow> string option \<Rightarrow> box_state option" where
  "boxOf w who = map_option (pw_tenants w) who"

definition putBox ::
    "string option \<Rightarrow> box_state option \<Rightarrow> (string \<Rightarrow> box_state) \<Rightarrow> string \<Rightarrow> box_state" where
  "putBox who st f = (case (who, st) of (Some t, Some s) \<Rightarrow> f(t := s) | _ \<Rightarrow> f)"

definition poolReserve ::
    "pool_world \<Rightarrow> pool_env \<times> string option \<times> rat option \<Rightarrow> pool_world option" where
  "poolReserve w x =
     (case x of (e, who, estimate) \<Rightarrow>
        case reserveBox e (boxOf w who) estimate (pw_pool w) of
          (p, st, _, Some est) \<Rightarrow>
            Some (w\<lparr>pw_pool := p, pw_tenants := putBox who st (pw_tenants w),
                    pw_open := pw_open w @ [(who, est)]\<rparr>)
        | _ \<Rightarrow> None)"

definition poolSettle :: "pool_world \<Rightarrow> pool_env \<times> nat \<times> rat option \<Rightarrow> pool_world" where
  "poolSettle w x =
     (case x of (e, k, actual) \<Rightarrow>
        case pw_open w ! k of (who, est) \<Rightarrow>
          case settleBox e actual est False (boxOf w who) (pw_pool w) of
            (p, st, settled, _) \<Rightarrow>
              if \<not> settled then w
              else w\<lparr>pw_pool := p, pw_tenants := putBox who st (pw_tenants w),
                     pw_open := take k (pw_open w) @ drop (Suc k) (pw_open w)\<rparr>)"

definition poolFair :: "pool_world \<Rightarrow> pool_env \<times> nat \<times> rat option \<Rightarrow> bool" where
  "poolFair w x =
     (case x of (e, k, actual) \<Rightarrow>
        k < length (pw_open w) \<and>
        (case actual of None \<Rightarrow> True | Some a \<Rightarrow> a \<le> snd (pw_open w ! k)))"

datatype pool_tick =
    PtRefused pool_env "string option" "rat option"
  | PtProvision pool_env
  | PtAvailable pool_env
  | PtClaim pool_env
  | PtFlushStart
  | PtFlushEnd bool
  | PtLoaded string "nat \<times> rat"
  | PtDrop string
  | PtClose

fun poolTick :: "pool_world \<Rightarrow> pool_tick \<Rightarrow> pool_world" where
  "poolTick w (PtRefused e who estimate) =
     (case reserveBox e (boxOf w who) estimate (pw_pool w) of
        (p, _, _, None) \<Rightarrow> w\<lparr>pw_pool := p\<rparr>
      | _ \<Rightarrow> w)"
| "poolTick w (PtProvision e) = w\<lparr>pw_pool := fst (notifySandboxProvisionLimited e (pw_pool w))\<rparr>"
| "poolTick w (PtAvailable e) = w\<lparr>pw_pool := fst (sandboxPoolAvailable e (pw_pool w))\<rparr>"
| "poolTick w (PtClaim e) = w\<lparr>pw_pool := fst (claimSandboxInitialIndex e (pw_pool w))\<rparr>"
| "poolTick w PtFlushStart = w\<lparr>pw_pool := fst (flushStart (pw_pool w))\<rparr>"
| "poolTick w (PtFlushEnd written) = w\<lparr>pw_pool := flushEnd written (pw_pool w)\<rparr>"
| "poolTick w (PtLoaded t loaded) =
     w\<lparr>pw_tenants := (pw_tenants w)(t := initializeSandboxBudget loaded (pw_tenants w t))\<rparr>"
| "poolTick w (PtDrop t) = w\<lparr>pw_tenants := (pw_tenants w)(t := dropBox (pw_tenants w t))\<rparr>"
| "poolTick w PtClose = w\<lparr>pw_pool := closeSandboxBudgetPool (pw_pool w)\<rparr>"

definition poolInv :: "rat \<Rightarrow> pool_world \<Rightarrow> bool" where
  "poolInv cap w \<longleftrightarrow>
     pl_capMilli (pw_pool w) = cap \<and> pl_reservedCalls (pw_pool w) = length (pw_open w) \<and>
     pl_reservedMilli (pw_pool w) = sum_list (map snd (pw_open w)) \<and>
     list_all (\<lambda>r. 0 \<le> snd r) (pw_open w) \<and>
     pl_reservedMilli (pw_pool w) \<le> pl_costMilli (pw_pool w)"

definition poolUsed :: "pool_world \<Rightarrow> rat" where
  "poolUsed w = pl_costMilli (pw_pool w)"

text \<open>What the cap sees of the pool; the money part is all that the invariant reads.\<close>

definition poolMoney :: "pool_state \<Rightarrow> rat \<times> rat \<times> nat \<times> rat" where
  "poolMoney p = (pl_capMilli p, pl_costMilli p, pl_reservedCalls p, pl_reservedMilli p)"

lemma poolMoney_poolAlert [simp]: "poolMoney (fst (poolAlert m p)) = poolMoney p"
  by (simp add: poolAlert_def poolMoney_def)

lemma poolMoney_small [simp]:
  "poolMoney (fst (claimSandboxInitialIndex e p)) = poolMoney p"
  "poolMoney (fst (flushStart p)) = poolMoney p"
  "poolMoney (flushEnd b p) = poolMoney p"
  "poolMoney (closeSandboxBudgetPool p) = poolMoney p"
  by (simp_all add: claimSandboxInitialIndex_def flushStart_def flushEnd_def closeSandboxBudgetPool_def poolMoney_def)

lemma poolMoney_rolled [simp]:
  "poolMoney (fst (notifySandboxProvisionLimited e p)) = poolMoney (rollPool e p)"
  "poolMoney (fst (sandboxPoolAvailable e p)) = poolMoney (rollPool e p)"
  by (simp_all add: notifySandboxProvisionLimited_def sandboxPoolAvailable_def Let_def case_prod_beta
      split: if_splits)

lemma reserveBox_refused:
  "reserveBox e st est p = (p', st', als, None) \<Longrightarrow> poolMoney p' = poolMoney (rollPool e p)"
  by (auto simp: reserveBox_def Let_def poolAlert_def poolMoney_def split: option.splits if_splits)

lemma reserveBox_granted:
  "reserveBox e st est p = (p', st', als, Some x) \<Longrightarrow>
   0 \<le> x \<and> est = Some x \<and> mayReserve e (rollPool e p) st \<and> \<not> tenantFull (rollPool e p) st x \<and>
   pl_costMilli (rollPool e p) + x \<le> pl_capMilli (rollPool e p) \<and>
   poolMoney p' = (pl_capMilli (rollPool e p), pl_costMilli (rollPool e p) + x,
               Suc (pl_reservedCalls (rollPool e p)), pl_reservedMilli (rollPool e p) + x) \<and>
   st' = map_option (\<lambda>s. s\<lparr>bx_calls := Suc (bx_calls s), bx_costMilli := bx_costMilli s + x\<rparr>) st"
  by (auto simp: reserveBox_def Let_def poolAlert_def poolMoney_def split: option.splits if_splits)

lemma rollPool_poolMoney:
  "pl_capMilli (rollPool e p) = pl_capMilli p"
  "pl_reservedCalls (rollPool e p) = pl_reservedCalls p"
  "pl_reservedMilli (rollPool e p) = pl_reservedMilli p"
  "pl_costMilli (rollPool e p) = (if pl_day p = pe_today e then pl_costMilli p else pl_reservedMilli p)"
  "pl_tenantCapMilli (rollPool e p) = pl_tenantCapMilli p"
  by (simp_all add: rollPool_def)

lemma poolInv_poolMoney:
  "poolInv cap w \<Longrightarrow> poolMoney p = poolMoney (pw_pool w) \<Longrightarrow>
   poolInv cap (w\<lparr>pw_pool := p\<rparr>) \<and> poolUsed (w\<lparr>pw_pool := p\<rparr>) = poolUsed w"
  by (simp add: poolInv_def poolUsed_def poolMoney_def)

lemma poolInv_rolled:
  assumes "poolInv cap w" and "poolMoney p = poolMoney (rollPool e (pw_pool w))"
  shows "poolInv cap (w\<lparr>pw_pool := p\<rparr>) \<and> poolUsed (w\<lparr>pw_pool := p\<rparr>) \<le> poolUsed w"
  using assms by (auto simp: poolInv_def poolUsed_def poolMoney_def rollPool_poolMoney split: if_splits)

lemma poolTick_le:
  assumes inv: "poolInv cap w"
  shows "poolInv cap (poolTick w x) \<and> poolUsed (poolTick w x) \<le> poolUsed w"
proof (cases x)
  case (PtRefused e who est)
  obtain p st als r where g: "reserveBox e (boxOf w who) est (pw_pool w) = (p, st, als, r)"
    by (cases "reserveBox e (boxOf w who) est (pw_pool w)") auto
  then show ?thesis
    using inv poolInv_rolled [OF inv reserveBox_refused] by (cases r) (auto simp: PtRefused)
next
  case (PtProvision e)
  then show ?thesis using poolInv_rolled [OF inv] by simp
next
  case (PtAvailable e)
  then show ?thesis using poolInv_rolled [OF inv] by simp
next
  case (PtLoaded t loaded)
  then show ?thesis using inv by (simp add: poolInv_def poolUsed_def)
next
  case (PtDrop t)
  then show ?thesis using inv by (simp add: poolInv_def poolUsed_def)
qed (simp_all add: poolInv_poolMoney [OF inv])

lemma poolReserve_cap:
  assumes inv: "poolInv cap w" and res: "poolReserve w x = Some w'"
  shows "poolInv cap w' \<and> poolUsed w' \<le> cap"
proof -
  obtain e who est p st als v where g: "reserveBox e (boxOf w who) est (pw_pool w) = (p, st, als, Some v)"
      and w': "w' = w\<lparr>pw_pool := p, pw_tenants := putBox who st (pw_tenants w),
                    pw_open := pw_open w @ [(who, v)]\<rparr>"
    using res by (auto simp: poolReserve_def split: prod.splits option.splits)
  have "poolInv cap (w\<lparr>pw_pool := rollPool e (pw_pool w)\<rparr>)" using poolInv_rolled [OF inv] by blast
  then show ?thesis
    using reserveBox_granted [OF g] by (auto simp: w' poolInv_def poolUsed_def poolMoney_def)
qed

lemma sum_remove:
  "k < length xs \<Longrightarrow>
   sum_list (map f xs) = sum_list (map f (take k xs @ drop (Suc k) xs)) + (f (xs ! k) :: rat)"
  by (subst id_take_nth_drop [of k xs]) simp_all

lemma settleBox_done:
  "settleBox e actual est False st p = (p', st', True, err) \<Longrightarrow>
   poolMoney p' = (pl_capMilli p, pl_costMilli (rollPool e p) + ((case actual of None \<Rightarrow> est | Some a \<Rightarrow> max 0 a) - est),
      pl_reservedCalls p - 1, if pl_reservedCalls p - 1 = 0 then 0 else pl_reservedMilli p - est) \<and>
   st' = map_option (\<lambda>s. s\<lparr>bx_costMilli := bx_costMilli s +
            ((case actual of None \<Rightarrow> est | Some a \<Rightarrow> max 0 a) - est)\<rparr>) st"
  by (auto simp: settleBox_def Let_def poolMoney_def rollPool_poolMoney split: option.splits if_splits)

lemma poolSettle_le:
  assumes inv: "poolInv cap w" and fair: "poolFair w x"
  shows "poolInv cap (poolSettle w x) \<and> poolUsed (poolSettle w x) \<le> poolUsed w"
proof -
  obtain e k actual where x: "x = (e, k, actual)" by (cases x)
  obtain who est where r: "pw_open w ! k = (who, est)" by fastforce
  obtain p st s err where g: "settleBox e actual est False (boxOf w who) (pw_pool w) = (p, st, s, err)"
    by (metis prod_cases4)
  show ?thesis
  proof (cases s)
    case False
    then show ?thesis using inv by (simp add: poolSettle_def x r g)
  next
    case True
    have g': "settleBox e actual est False (boxOf w who) (pw_pool w) = (p, st, True, err)"
      using g True by simp
    have k: "k < length (pw_open w)" and le: "case actual of None \<Rightarrow> True | Some a \<Rightarrow> a \<le> est"
      using fair by (simp_all add: poolFair_def x r split: option.splits)
    define opn where "opn = take k (pw_open w) @ drop (Suc k) (pw_open w)"
    have "0 \<le> est" using inv k r by (auto simp: poolInv_def list_all_length dest: spec [of _ k])
    then have act: "0 \<le> (case actual of None \<Rightarrow> est | Some a \<Rightarrow> max 0 a)"
        "(case actual of None \<Rightarrow> est | Some a \<Rightarrow> max 0 a) \<le> est"
      using le by (auto split: option.splits)
    have nonneg: "list_all (\<lambda>r. 0 \<le> snd r) opn"
      using inv by (auto simp: poolInv_def opn_def list_all_iff dest!: in_set_takeD in_set_dropD)
    have rolled: "poolInv cap (w\<lparr>pw_pool := rollPool e (pw_pool w)\<rparr>)"
        "poolUsed (w\<lparr>pw_pool := rollPool e (pw_pool w)\<rparr>) \<le> poolUsed w"
      using poolInv_rolled [OF inv] by blast+
    have sum: "pl_reservedMilli (pw_pool w) = sum_list (map snd opn) + est"
      using inv sum_remove [OF k, of snd] by (simp add: poolInv_def r opn_def)
    have len: "pl_reservedCalls (pw_pool w) - 1 = length opn" using inv k by (simp add: poolInv_def opn_def)
    have res: "pl_reservedMilli p = sum_list (map snd opn)"
      using settleBox_done [OF g'] len sum by (auto simp: poolMoney_def split: if_splits)
    define c where "c = pl_costMilli (rollPool e (pw_pool w))"
    define a where "a = (case actual of None \<Rightarrow> est | Some a \<Rightarrow> max 0 a)"
    have pm: "pl_costMilli p = c + (a - est)" "pl_capMilli p = cap" "pl_reservedCalls p = length opn"
      using settleBox_done [OF g'] inv len by (simp_all add: poolMoney_def c_def a_def poolInv_def)
    have c: "sum_list (map snd opn) + est \<le> c" "c \<le> poolUsed w"
      using rolled sum by (simp_all add: poolInv_def poolUsed_def c_def rollPool_poolMoney)
    have w': "poolSettle w x = w\<lparr>pw_pool := p, pw_tenants := putBox who st (pw_tenants w), pw_open := opn\<rparr>"
      using True by (simp add: poolSettle_def x r g opn_def)
    have "sum_list (map snd opn) \<le> c + (a - est)" "c + (a - est) \<le> poolUsed w"
      using act [folded a_def] c by linarith+
    then show ?thesis using pm res nonneg by (simp add: w' poolInv_def poolUsed_def)
  qed
qed

interpretation sandbox_pool: money_quota poolUsed cap poolReserve poolSettle poolTick poolFair "poolInv cap" for cap
  by unfold_locales (meson poolReserve_cap poolSettle_le poolTick_le order_trans)+

section \<open>The cap of one tenant\<close>

definition tenantInv :: "string \<Rightarrow> rat \<Rightarrow> pool_world \<Rightarrow> bool" where
  "tenantInv t cap w \<longleftrightarrow>
     pl_tenantCapMilli (pw_pool w) = cap \<and> bx_ready (pw_tenants w t) \<and>
     list_all (\<lambda>r. 0 \<le> snd r) (pw_open w)"

definition tenantUsed :: "string \<Rightarrow> pool_world \<Rightarrow> rat" where
  "tenantUsed t w = bx_costMilli (pw_tenants w t)"

lemma tenantCap_kept [simp]:
  "pl_tenantCapMilli (rollPool e p) = pl_tenantCapMilli p"
  "pl_tenantCapMilli (fst (poolAlert m p)) = pl_tenantCapMilli p"
  "pl_tenantCapMilli (fst (notifySandboxProvisionLimited e p)) = pl_tenantCapMilli p"
  "pl_tenantCapMilli (fst (sandboxPoolAvailable e p)) = pl_tenantCapMilli p"
  "pl_tenantCapMilli (fst (claimSandboxInitialIndex e p)) = pl_tenantCapMilli p"
  "pl_tenantCapMilli (fst (flushStart p)) = pl_tenantCapMilli p"
  "pl_tenantCapMilli (flushEnd b p) = pl_tenantCapMilli p"
  "pl_tenantCapMilli (closeSandboxBudgetPool p) = pl_tenantCapMilli p"
  by (simp_all add: rollPool_def poolAlert_def notifySandboxProvisionLimited_def sandboxPoolAvailable_def
      claimSandboxInitialIndex_def flushStart_def flushEnd_def closeSandboxBudgetPool_def Let_def
      split: prod.split)

lemma reserveBox_tenantCap:
  "reserveBox e st est p = (p', st', als, r) \<Longrightarrow> pl_tenantCapMilli p' = pl_tenantCapMilli p"
  by (auto simp: reserveBox_def Let_def poolAlert_def rollPool_def split: option.splits if_splits)

lemma settleBox_tenantCap:
  "settleBox e actual est b st p = (p', st', s, err) \<Longrightarrow> pl_tenantCapMilli p' = pl_tenantCapMilli p"
  by (auto simp: settleBox_def Let_def rollPool_def split: option.splits if_splits)

lemma tenantReserve_cap:
  assumes inv: "tenantInv t cap w" and used: "tenantUsed t w \<le> cap" and res: "poolReserve w x = Some w'"
  shows "tenantInv t cap w' \<and> tenantUsed t w' \<le> cap"
proof -
  obtain e who est p st als v where g: "reserveBox e (boxOf w who) est (pw_pool w) = (p, st, als, Some v)"
      and w': "w' = w\<lparr>pw_pool := p, pw_tenants := putBox who st (pw_tenants w),
                    pw_open := pw_open w @ [(who, v)]\<rparr>"
    using res by (auto simp: poolReserve_def split: prod.splits option.splits)
  show ?thesis
    using inv used reserveBox_granted [OF g] reserveBox_tenantCap [OF g]
    by (cases who) (auto simp: w' tenantInv_def tenantUsed_def boxOf_def putBox_def tenantFull_def)
qed

lemma tenantSettle_le:
  assumes inv: "tenantInv t cap w" and fair: "poolFair w x"
  shows "tenantInv t cap (poolSettle w x) \<and> tenantUsed t (poolSettle w x) \<le> tenantUsed t w"
proof -
  obtain e k actual where x: "x = (e, k, actual)" by (cases x)
  obtain who est where r: "pw_open w ! k = (who, est)" by fastforce
  obtain p st s err where g: "settleBox e actual est False (boxOf w who) (pw_pool w) = (p, st, s, err)"
    by (metis prod_cases4)
  show ?thesis
  proof (cases s)
    case False
    then show ?thesis using inv by (simp add: poolSettle_def x r g)
  next
    case True
    have g': "settleBox e actual est False (boxOf w who) (pw_pool w) = (p, st, True, err)"
      using g True by simp
    have k: "k < length (pw_open w)" and le: "case actual of None \<Rightarrow> True | Some a \<Rightarrow> a \<le> est"
      using fair by (simp_all add: poolFair_def x r split: option.splits)
    have "0 \<le> est" using inv k r by (auto simp: tenantInv_def list_all_length dest: spec [of _ k])
    then have act: "(case actual of None \<Rightarrow> est | Some a \<Rightarrow> max 0 a) - est \<le> 0"
      using le by (auto split: option.splits)
    have "list_all (\<lambda>r. 0 \<le> snd r) (take k (pw_open w) @ drop (Suc k) (pw_open w))"
      using inv by (auto simp: tenantInv_def list_all_iff dest!: in_set_takeD in_set_dropD)
    moreover have "poolSettle w x = w\<lparr>pw_pool := p, pw_tenants := putBox who st (pw_tenants w),
        pw_open := take k (pw_open w) @ drop (Suc k) (pw_open w)\<rparr>"
      using True by (simp add: poolSettle_def x r g)
    ultimately show ?thesis
      using inv act settleBox_done [OF g'] settleBox_tenantCap [OF g']
      by (cases who) (auto simp: tenantInv_def tenantUsed_def boxOf_def putBox_def)
  qed
qed

lemma tenantTick_le:
  assumes inv: "tenantInv t cap w"
  shows "tenantInv t cap (poolTick w x) \<and> tenantUsed t (poolTick w x) \<le> tenantUsed t w"
proof (cases x)
  case (PtRefused e who est)
  obtain p st als r where g: "reserveBox e (boxOf w who) est (pw_pool w) = (p, st, als, r)"
    by (cases "reserveBox e (boxOf w who) est (pw_pool w)") auto
  then show ?thesis
    using inv reserveBox_tenantCap [OF g] by (cases r) (auto simp: PtRefused tenantInv_def tenantUsed_def)
next
  case (PtLoaded u loaded)
  then show ?thesis using inv by (auto simp: tenantInv_def tenantUsed_def initializeSandboxBudget_def)
next
  case (PtDrop u)
  then show ?thesis using inv by (auto simp: tenantInv_def tenantUsed_def dropBox_def)
qed (use inv in \<open>simp_all add: tenantInv_def tenantUsed_def\<close>)

interpretation sandbox_tenant: money_quota "tenantUsed t" cap poolReserve poolSettle poolTick poolFair "tenantInv t cap"
  for t cap
  by unfold_locales (meson tenantReserve_cap tenantSettle_le tenantTick_le order_trans)+

section \<open>Properties\<close>

lemma sum_by_key:
  "sum_list (map f xs) = sum_list (map (\<lambda>d. sum_list (map f (filter (\<lambda>u. key u = d) xs))) (setOrder (map key xs)))"
  for f :: "'a \<Rightarrow> nat"
proof -
  have part: "distinct ds \<Longrightarrow> set (map key xs) \<subseteq> set ds \<Longrightarrow>
      sum_list (map (\<lambda>d. sum_list (map f (filter (\<lambda>u. key u = d) xs))) ds) = sum_list (map f xs)" for ds
  proof (induction xs)
    case (Cons x xs)
    have eq: "sum_list (map f (filter (\<lambda>u. key u = d) (x # xs))) =
        (if key x = d then f x else 0) + sum_list (map f (filter (\<lambda>u. key u = d) xs))" for d by simp
    have "sum_list (map (\<lambda>d. (if key x = d then f x else 0) + sum_list (map f (filter (\<lambda>u. key u = d) xs))) ds) =
        (\<Sum>d\<leftarrow>ds. if key x = d then f x else 0) + sum_list (map f xs)"
      using Cons by (simp add: sum_list_addf)
    also have "(\<Sum>d\<leftarrow>ds. if key x = d then f x else 0) = f x"
      using Cons.prems by (simp add: sum_list_distinct_conv_sum_set)
    finally show ?case by (simp only: eq list.map sum_list.Cons)
  qed simp
  show ?thesis by (rule part [symmetric]) (simp_all add: setOrder_def)
qed

text \<open>
  C20: From a fresh pool whose spent cost is within the daily cap, no order of reservations,
  settlements within their estimate, midnights, flushes and dropped tenants makes the cost counted in
  the pool exceed the cap.
\<close>

theorem sandbox_pool_cap:
  assumes "quota_run poolReserve poolSettle poolTick poolFair
       \<lparr>pw_pool = initPoolDone minimum day snapshot p, pw_tenants = \<lambda>_. newBox, pw_open = []\<rparr> w"
    and "pl_reservedCalls p = 0" and "pl_reservedMilli p = 0"
    and "0 \<le> snd snapshot" and "snd snapshot \<le> pl_capMilli p"
  shows "pl_costMilli (pw_pool w) \<le> pl_capMilli p"
proof -
  let ?w0 = "\<lparr>pw_pool = initPoolDone minimum day snapshot p, pw_tenants = \<lambda>_. newBox, pw_open = []\<rparr>"
  have "poolInv (pl_capMilli p) ?w0" "poolUsed ?w0 \<le> pl_capMilli p"
    using assms(2-5) by (simp_all add: poolInv_def poolUsed_def initPoolDone_def Let_def)
  then have "poolUsed w \<le> pl_capMilli p" using sandbox_pool.run_within [OF assms(1)] by blast
  then show ?thesis by (simp add: poolUsed_def)
qed

definition pool_env_ex :: "string \<Rightarrow> pool_env" where
  "pool_env_ex day =
     \<lparr>pe_today = day, pe_now = 5, pe_usageOldest = None, pe_sandbox = True, pe_closed = False,
      pe_aborted = False, pe_stopped = False, pe_mine = True\<rparr>"

definition pool_world_ex :: pool_world where
  "pool_world_ex =
     poolSettle
       (the (poolReserve \<lparr>pw_pool = initPoolDone 1 ''a'' (2, 4) pool, pw_tenants = \<lambda>_. newBox, pw_open = []\<rparr>
         (pool_env_ex ''a'', None, Some 7)))
     (pool_env_ex ''b'', 0, Some 5)"

lemma sandbox_pool_cap_witness:
  "pl_costMilli (pw_pool pool_world_ex) = 5 \<and> pl_costMilli (pw_pool pool_world_ex) \<le> pl_capMilli pool"
proof -
  let ?w0 = "\<lparr>pw_pool = initPoolDone 1 ''a'' (2, 4) pool, pw_tenants = \<lambda>_. newBox, pw_open = []\<rparr>"
  let ?u = "the (poolReserve ?w0 (pool_env_ex ''a'', None, Some 7))"
  have u: "poolReserve ?w0 (pool_env_ex ''a'', None, Some 7) = Some ?u"
    by (simp add: poolReserve_def reserveBox_def boxOf_def initPoolDone_def pool_def pool_env_ex_def rollPool_def
        mayReserve_def tenantFull_def lagging_def lowPool_def putBox_def Let_def)
  have "quota_run poolReserve poolSettle poolTick poolFair ?w0 ?u"
    using quota_run.QStart u by (rule quota_run.QReserve)
  moreover have "poolFair ?u (pool_env_ex ''b'', 0, Some 5)"
    by (simp add: poolReserve_def reserveBox_def boxOf_def initPoolDone_def pool_def pool_env_ex_def rollPool_def
        mayReserve_def tenantFull_def lagging_def lowPool_def putBox_def Let_def poolFair_def)
  ultimately have run: "quota_run poolReserve poolSettle poolTick poolFair ?w0 pool_world_ex"
    unfolding pool_world_ex_def by (rule quota_run.QSettle)
  have "pl_costMilli (pw_pool pool_world_ex) = 5"
    by (simp add: pool_world_ex_def poolSettle_def settleBox_def poolReserve_def reserveBox_def boxOf_def
        initPoolDone_def pool_def pool_env_ex_def rollPool_def mayReserve_def tenantFull_def lagging_def
        lowPool_def putBox_def Let_def)
  then show ?thesis using sandbox_pool_cap [OF run] by (simp add: pool_def)
qed

text \<open>
  The same for one tenant: once its row is loaded, its cost stays within the cap of a tenant.
\<close>

lemma sandbox_tenant_cap:
  assumes "quota_run poolReserve poolSettle poolTick poolFair w0 w"
    and "pw_open w0 = []" and "bx_ready (pw_tenants w0 t)"
    and "bx_costMilli (pw_tenants w0 t) \<le> pl_tenantCapMilli (pw_pool w0)"
  shows "bx_costMilli (pw_tenants w t) \<le> pl_tenantCapMilli (pw_pool w0)"
  using sandbox_tenant.run_within [OF assms(1), of t "pl_tenantCapMilli (pw_pool w0)"] assms(2-4)
  by (simp add: tenantInv_def tenantUsed_def)

text \<open>The rows of a flush hold every call of the batch once.\<close>

lemma flushRows_calls:
  "sum_list (map (fst \<circ> snd) (flushRows batch)) = sum_list (map iu_calls batch)"
  using sum_by_key [of iu_calls batch iu_day] by (simp add: flushRows_def Let_def comp_def)

text \<open>A failed write loses nothing and keeps the order of the entries.\<close>

lemma failed_flush_keeps:
  "pl_db p \<Longrightarrow> pl_flushing p = [] \<Longrightarrow> pl_pending p \<noteq> [] \<Longrightarrow> flushEnd False (fst (flushStart p)) = p"
  by (simp add: flushStart_def flushEnd_def)

end
