(* ===== verification/Usage.thy ===== *)
theory Usage
  imports SandboxPool
begin

text \<open>
  The cost of a model call and the usage of the day (\<open>src/usage.ts\<close>). Prices are in yuan for a
  million tokens; amounts are exact rationals.
\<close>

section \<open>Prices\<close>

record price_row =
  pr_in :: rat
  pr_out :: rat
  pr_cachedIn :: rat

record price =
  pc_row :: price_row
  pc_outTier :: "(int \<times> price_row) option"

definition flat :: "rat \<Rightarrow> rat \<Rightarrow> rat \<Rightarrow> price" where
  "flat i out cached = \<lparr>pc_row = \<lparr>pr_in = i, pr_out = out, pr_cachedIn = cached\<rparr>, pc_outTier = None\<rparr>"

definition PRICE :: "(string \<times> price) list" where
  "PRICE =
     [(''glm-5.3'', flat 8 28 2), (''glm-5.3-flash'', flat 0.8 2.8 0.23), (''glm-5.3-flashx'', flat 2 7 0.57),
      (''glm-5.2'', flat 8 28 2), (''glm-5.1'', flat 6 24 1.3), (''glm-5'', flat 4 18 1),
      (''glm-5-turbo'', flat 5 22 1.2),
      (''glm-4.7'', (flat 2 8 0.4)\<lparr>pc_outTier := Some (200, \<lparr>pr_in = 3, pr_out = 14, pr_cachedIn = 0.6\<rparr>)\<rparr>),
      (''glm-4.6'', flat 4 16 0.8), (''glm-4.5'', flat 4 16 0.8),
      (''glm-4.5-air'', (flat 0.8 2 0.16)\<lparr>pc_outTier := Some (200, \<lparr>pr_in = 0.8, pr_out = 6, pr_cachedIn = 0.16\<rparr>)\<rparr>),
      (''glm-4.7-flashx'', flat 0.5 3 0.1), (''glm-4.7-flash'', flat 0 0 0), (''glm-4.5-flash'', flat 0 0 0),
      (''deepseek-chat'', flat 2 8 0.5), (''deepseek-reasoner'', flat 4 16 1),
      (''deepseek-v4-flash'', flat 1 2 0.25), (''deepseek-v4-pro'', flat 12 24 3),
      (''embedding-3'', flat 0.5 0 0.5), (''embedding-2'', flat 0.5 0 0.5)]"

definition priceFor :: "price \<Rightarrow> int \<Rightarrow> price_row" where
  "priceFor price completionTokens =
     (case pc_outTier price of
        Some (minOut, row) \<Rightarrow> if minOut \<le> completionTokens then row else pc_row price
      | None \<Rightarrow> pc_row price)"

definition costOf :: "string \<Rightarrow> int \<Rightarrow> int \<Rightarrow> int \<Rightarrow> rat" where
  "costOf model promptTokens completionTokens cachedTokens =
     (case map_of PRICE model of
        None \<Rightarrow> 0
      | Some price \<Rightarrow>
          let p = priceFor price completionTokens;
              hit = min (max 0 cachedTokens) promptTokens;
              fresh = promptTokens - hit
          in (of_int fresh * pr_in p + of_int hit * pr_cachedIn p + of_int completionTokens * pr_out p) / 1000000)"

definition priceRows :: "price list \<Rightarrow> price_row list" where
  "priceRows prices =
     concat (map (\<lambda>p. case pc_outTier p of None \<Rightarrow> [pc_row p] | Some (_, row) \<Rightarrow> [pc_row p, row]) prices)"

definition maxOf :: "rat list \<Rightarrow> rat" where
  "maxOf xs = foldr max (butlast xs) (last xs)"

definition sandboxCostOf :: "string \<Rightarrow> int \<Rightarrow> int \<Rightarrow> int \<Rightarrow> bool \<Rightarrow> rat" where
  "sandboxCostOf model promptTokens completionTokens cachedTokens estimate =
     (if map_of PRICE model \<noteq> None \<and> \<not> estimate
      then costOf model promptTokens completionTokens cachedTokens
      else let rows = priceRows (case map_of PRICE model of Some p \<Rightarrow> [p] | None \<Rightarrow> map snd PRICE)
           in (of_int promptTokens * maxOf (map pr_in rows) +
               of_int completionTokens * maxOf (map pr_out rows)) / 1000000)"

lemma maxOf_ge: "x \<in> set xs \<Longrightarrow> x \<le> maxOf xs"
proof -
  have base: "b \<le> foldr max ys b \<and> (\<forall>y \<in> set ys. y \<le> foldr max ys b)" for ys and b :: rat
    by (induction ys) (auto simp: le_max_iff_disj)
  assume "x \<in> set xs"
  moreover from this have "xs \<noteq> []" by auto
  ultimately have "x = last xs \<or> x \<in> set (butlast xs)"
    by (metis append_butlast_last_id in_set_conv_decomp_last rotate1.simps(2) set_ConsD set_rotate1)
  then show ?thesis using base by (auto simp: maxOf_def)
qed

text \<open>Every row of the table: no price is negative and a cached token is not dearer than a fresh one.\<close>

definition row_ok :: "price_row \<Rightarrow> bool" where
  "row_ok r \<longleftrightarrow> 0 \<le> pr_cachedIn r \<and> pr_cachedIn r \<le> pr_in r \<and> 0 \<le> pr_out r"

lemma PRICE_rows_ok: "list_all row_ok (priceRows (map snd PRICE))"
  by (simp add: PRICE_def priceRows_def flat_def row_ok_def)

lemma priceRows_in: "p \<in> set ps \<Longrightarrow> priceFor p n \<in> set (priceRows [p]) \<and> set (priceRows [p]) \<subseteq> set (priceRows ps)"
  by (auto simp: priceRows_def priceFor_def split: option.splits)

lemma row_cost_le:
  assumes ok: "row_ok r" and p: "0 \<le> p" "p \<le> p'" and c: "0 \<le> c" "c \<le> c'"
    and i: "pr_in r \<le> I" and out: "pr_out r \<le> O'"
  shows "of_int (p - min (max 0 h) p) * pr_in r + of_int (min (max 0 h) p) * pr_cachedIn r +
     of_int c * pr_out r \<le> of_int p' * I + of_int c' * O'"
proof -
  let ?h = "min (max 0 h) p"
  have "of_int ?h * pr_cachedIn r \<le> of_int ?h * pr_in r"
    using ok p by (intro mult_left_mono) (auto simp: row_ok_def)
  then have "of_int (p - ?h) * pr_in r + of_int ?h * pr_cachedIn r \<le> of_int p * pr_in r"
    by (simp add: algebra_simps)
  also have "\<dots> \<le> of_int p' * I"
    using ok p i by (intro mult_mono) (auto simp: row_ok_def)
  finally have "of_int (p - ?h) * pr_in r + of_int ?h * pr_cachedIn r \<le> of_int p' * I" .
  moreover have "of_int c * pr_out r \<le> of_int c' * O'"
    using ok c out by (intro mult_mono) (auto simp: row_ok_def)
  ultimately show ?thesis by linarith
qed

text \<open>
  The estimate a sandbox call reserves covers what the call can cost: with at most the reserved
  prompt and output tokens, whatever part was cached and whichever tier of output prices applies, and
  also for a model that is not in the table, the actual cost is not above the estimate.
\<close>

lemma sandbox_cost_le_estimate:
  assumes "0 \<le> p" and "p \<le> p'" and "0 \<le> c" and "c \<le> c'"
  shows "sandboxCostOf model p c cached False \<le> sandboxCostOf model p' c' k True"
proof (cases "map_of PRICE model")
  case (Some price)
  then have mem: "price \<in> set (map snd PRICE)" by (force dest: map_of_SomeD)
  let ?r = "priceFor price c" and ?rows = "priceRows [price]"
  have r: "?r \<in> set ?rows" and "set ?rows \<subseteq> set (priceRows (map snd PRICE))" using priceRows_in [OF mem] by blast+
  then have "row_ok ?r" using PRICE_rows_ok by (auto simp: list_all_iff)
  moreover have "pr_in ?r \<le> maxOf (map pr_in ?rows)" "pr_out ?r \<le> maxOf (map pr_out ?rows)"
    using r by (auto intro: maxOf_ge)
  ultimately have "of_int (p - min (max 0 cached) p) * pr_in ?r + of_int (min (max 0 cached) p) * pr_cachedIn ?r +
      of_int c * pr_out ?r \<le> of_int p' * maxOf (map pr_in ?rows) + of_int c' * maxOf (map pr_out ?rows)"
    by (rule row_cost_le [OF _ assms])
  then show ?thesis using Some by (simp add: sandboxCostOf_def costOf_def Let_def divide_right_mono)
next
  case None
  let ?rows = "priceRows (map snd PRICE)"
  have nz: "0 \<le> maxOf (map pr_in ?rows)" "0 \<le> maxOf (map pr_out ?rows)"
  proof -
    have z: "pc_row (flat 0 0 0) \<in> set ?rows"
      by (simp add: PRICE_def priceRows_def flat_def)
    then show "0 \<le> maxOf (map pr_in ?rows)" "0 \<le> maxOf (map pr_out ?rows)"
      using maxOf_ge [of 0 "map pr_in ?rows"] maxOf_ge [of 0 "map pr_out ?rows"]
      by (force simp: flat_def)+
  qed
  have "of_int p * maxOf (map pr_in ?rows) \<le> of_int p' * maxOf (map pr_in ?rows)"
    "of_int c * maxOf (map pr_out ?rows) \<le> of_int c' * maxOf (map pr_out ?rows)"
    using assms nz by (auto intro: mult_right_mono)
  then have "of_int p * maxOf (map pr_in ?rows) + of_int c * maxOf (map pr_out ?rows) \<le>
      of_int p' * maxOf (map pr_in ?rows) + of_int c' * maxOf (map pr_out ?rows)" by linarith
  then show ?thesis using None by (simp add: sandboxCostOf_def Let_def divide_right_mono)
qed

lemma sandbox_cost_le_estimate_example:
  "costOf ''glm-4.7'' 100 300 40 \<le> sandboxCostOf ''glm-4.7'' 120 4096 0 True \<and>
   costOf ''glm-4.7'' 100 300 40 = 4404 / 1000000"
proof -
  have c: "costOf ''glm-4.7'' 100 300 40 = 4404 / 1000000" by (simp add: costOf_def PRICE_def priceFor_def flat_def)
  have "sandboxCostOf ''glm-4.7'' 100 300 40 False = costOf ''glm-4.7'' 100 300 40"
    by (simp add: sandboxCostOf_def PRICE_def)
  then show ?thesis using sandbox_cost_le_estimate [of 100 120 300 4096 "''glm-4.7''" 40 0] c by simp
qed

section \<open>The usage of the day\<close>

datatype usage_purpose =
    UpChat | UpFollowup | UpInsight | UpSuggestion | UpDraft | UpEmbedding | UpGate | UpVision | UpReply

record usage_stat =
  us_calls :: nat
  us_promptTokens :: int
  us_completionTokens :: int
  us_cachedTokens :: int
  us_reasoningTokens :: int
  us_cny :: rat

record session_usage =
  su_calls :: nat
  su_cny :: rat

record usage_state =
  ud_day :: string
  ud_byModel :: "(string, usage_stat) jsmap"
  ud_bySession :: "(string, session_usage) jsmap"

record usage_event =
  ue_tenantId :: string
  ue_day :: string
  ue_model :: string
  ue_purpose :: usage_purpose
  ue_sessionId :: "string option"
  ue_promptTokens :: int
  ue_completionTokens :: int
  ue_cachedTokens :: int
  ue_reasoningTokens :: int
  ue_cny :: rat

text \<open>The runtime of the call, the day, what the usage file holds, and whether anybody listens.\<close>

record usage_env =
  un_tenant :: string
  un_today :: string
  un_host :: bool
  un_sandbox :: bool
  un_closed :: bool
  un_counted :: bool
  un_listened :: bool
  un_file :: "usage_state option"

text \<open>One call to record: the tokens as reported, and the cost already settled for a sandbox call.\<close>

record usage_call =
  uc_model :: string
  uc_prompt :: int
  uc_completion :: int
  uc_session :: "string option"
  uc_cached :: int
  uc_reasoning :: int
  uc_purpose :: usage_purpose
  uc_accounted :: "rat option"

definition blankUsage :: "string \<Rightarrow> usage_state" where
  "blankUsage day = \<lparr>ud_day = day, ud_byModel = [], ud_bySession = []\<rparr>"

definition hostUsage :: "usage_env \<Rightarrow> usage_state option \<Rightarrow> usage_state option" where
  "hostUsage e entry =
     (if \<not> un_host e then None
      else let loaded = (case entry of
                 Some u \<Rightarrow> u
               | None \<Rightarrow>
                   (case un_file e of
                      None \<Rightarrow> blankUsage (un_today e)
                    | Some raw \<Rightarrow> if ud_day raw = un_today e then raw else blankUsage (un_today e)))
           in Some (if ud_day loaded = un_today e then loaded else blankUsage (un_today e)))"

definition statOf :: "usage_state \<Rightarrow> string \<Rightarrow> usage_stat" where
  "statOf u model =
     (case jget (ud_byModel u) model of
        Some m \<Rightarrow> m
      | None \<Rightarrow> \<lparr>us_calls = 0, us_promptTokens = 0, us_completionTokens = 0, us_cachedTokens = 0,
                 us_reasoningTokens = 0, us_cny = 0\<rparr>)"

definition sessionCost :: "usage_state \<Rightarrow> string \<Rightarrow> session_usage" where
  "sessionCost u sid =
     (case jget (ud_bySession u) sid of Some s \<Rightarrow> s | None \<Rightarrow> \<lparr>su_calls = 0, su_cny = 0\<rparr>)"

definition recordReplyUsage :: "usage_env \<Rightarrow> string \<Rightarrow> usage_event list" where
  "recordReplyUsage e day =
     (if \<not> un_counted e \<or> un_closed e then []
      else [\<lparr>ue_tenantId = un_tenant e, ue_day = day, ue_model = ''-'', ue_purpose = UpReply,
             ue_sessionId = None, ue_promptTokens = 0, ue_completionTokens = 0, ue_cachedTokens = 0,
             ue_reasoningTokens = 0, ue_cny = 0\<rparr>])"

definition callCny :: "usage_env \<Rightarrow> usage_call \<Rightarrow> rat" where
  "callCny e c =
     (case uc_accounted c of
        Some milli \<Rightarrow>
          if un_sandbox e then milli / 1000
          else costOf (uc_model c) (uc_prompt c) (uc_completion c) (uc_cached c)
      | None \<Rightarrow> costOf (uc_model c) (uc_prompt c) (uc_completion c) (uc_cached c))"

definition clamp :: "int \<Rightarrow> int \<Rightarrow> int" where
  "clamp n most = min (max 0 n) most"

definition addStat :: "usage_call \<Rightarrow> rat \<Rightarrow> usage_stat \<Rightarrow> usage_stat" where
  "addStat c cny m =
     m\<lparr>us_calls := us_calls m + 1, us_promptTokens := us_promptTokens m + uc_prompt c,
       us_completionTokens := us_completionTokens m + uc_completion c,
       us_cachedTokens := us_cachedTokens m + clamp (uc_cached c) (uc_prompt c),
       us_reasoningTokens := us_reasoningTokens m + clamp (uc_reasoning c) (uc_completion c),
       us_cny := us_cny m + cny\<rparr>"

definition addSession :: "rat \<Rightarrow> session_usage \<Rightarrow> session_usage" where
  "addSession cny s = s\<lparr>su_calls := su_calls s + 1, su_cny := su_cny s + cny\<rparr>"

text \<open>An empty session id counts as none.\<close>

definition callSession :: "usage_call \<Rightarrow> string option" where
  "callSession c = (case uc_session c of Some (x # xs) \<Rightarrow> Some (x # xs) | _ \<Rightarrow> None)"

definition addUsage :: "usage_call \<Rightarrow> rat \<Rightarrow> usage_state \<Rightarrow> usage_state" where
  "addUsage c cny u =
     u\<lparr>ud_byModel := jset (ud_byModel u) (uc_model c) (addStat c cny (statOf u (uc_model c))),
       ud_bySession :=
         (case callSession c of
            None \<Rightarrow> ud_bySession u
          | Some sid \<Rightarrow> jset (ud_bySession u) sid (addSession cny (sessionCost u sid)))\<rparr>"

definition recordUsage ::
    "usage_env \<Rightarrow> usage_call \<Rightarrow> usage_state option \<Rightarrow> usage_state option \<times> usage_event list" where
  "recordUsage e c entry =
     (if uc_purpose c = UpReply then (entry, recordReplyUsage e (un_today e))
      else if un_closed e then (entry, [])
      else let cny = callCny e c in
        (case hostUsage e entry of None \<Rightarrow> entry | Some u \<Rightarrow> Some (addUsage c cny u),
         if \<not> un_listened e then []
         else [\<lparr>ue_tenantId = un_tenant e, ue_day = un_today e, ue_model = uc_model c,
                ue_purpose = uc_purpose c, ue_sessionId = callSession c,
                ue_promptTokens = uc_prompt c, ue_completionTokens = uc_completion c,
                ue_cachedTokens = clamp (uc_cached c) (uc_prompt c),
                ue_reasoningTokens = clamp (uc_reasoning c) (uc_completion c), ue_cny = cny\<rparr>]))"

definition modelTotals :: "(usage_stat \<Rightarrow> 'a :: comm_monoid_add) \<Rightarrow> usage_state \<Rightarrow> 'a" where
  "modelTotals f u = sum_list (map (f \<circ> snd) (ud_byModel u))"

definition sessionTotals :: "(session_usage \<Rightarrow> 'a :: comm_monoid_add) \<Rightarrow> usage_state \<Rightarrow> 'a" where
  "sessionTotals f u = sum_list (map (f \<circ> snd) (ud_bySession u))"

definition cacheSaved :: "usage_state \<Rightarrow> rat" where
  "cacheSaved u =
     sum_list (map (\<lambda>(model, m).
       case map_of PRICE model of
         None \<Rightarrow> 0
       | Some p \<Rightarrow> of_int (us_cachedTokens m) * (pr_in (pc_row p) - pr_cachedIn (pc_row p)) / 1000000)
       (ud_byModel u))"

subsection \<open>What the totals mean\<close>

lemma sum_jset:
  "jwf m \<Longrightarrow> sum_list (map (f \<circ> snd) (jset m k v)) + (case jget m k of None \<Rightarrow> 0 | Some o' \<Rightarrow> f o') =
   sum_list (map (f \<circ> snd) m) + (f v :: 'a :: ab_group_add)"
proof (induction m k v rule: jset.induct)
  case (2 k' v' m k v)
  then show ?case by (auto simp: jwf_def jkeys_def algebra_simps)
qed simp

definition usageInv :: "usage_state \<Rightarrow> bool" where
  "usageInv u \<longleftrightarrow>
     jwf (ud_byModel u) \<and> jwf (ud_bySession u) \<and>
     (\<forall>m \<in> snd ` set (ud_byModel u).
        0 \<le> us_cachedTokens m \<and> us_cachedTokens m \<le> us_promptTokens m \<and>
        0 \<le> us_reasoningTokens m \<and> us_reasoningTokens m \<le> us_completionTokens m)"

lemma jset_members: "snd ` set (jset m k v) \<subseteq> insert v (snd ` set m)"
  by (induction m k v rule: jset.induct) auto

lemma statOf_cases:
  "usageInv u \<Longrightarrow>
   0 \<le> us_cachedTokens (statOf u k) \<and> us_cachedTokens (statOf u k) \<le> us_promptTokens (statOf u k) \<and>
   0 \<le> us_reasoningTokens (statOf u k) \<and> us_reasoningTokens (statOf u k) \<le> us_completionTokens (statOf u k)"
  by (force simp: statOf_def usageInv_def jget_map_of dest: map_of_SomeD split: option.splits)

lemma addUsage_inv:
  assumes "usageInv u" and "0 \<le> uc_prompt c" and "0 \<le> uc_completion c"
  shows "usageInv (addUsage c cny u)"
proof -
  have "us_cachedTokens (addStat c cny (statOf u (uc_model c))) \<le>
      us_promptTokens (addStat c cny (statOf u (uc_model c)))"
    "0 \<le> us_cachedTokens (addStat c cny (statOf u (uc_model c)))"
    "us_reasoningTokens (addStat c cny (statOf u (uc_model c))) \<le>
      us_completionTokens (addStat c cny (statOf u (uc_model c)))"
    "0 \<le> us_reasoningTokens (addStat c cny (statOf u (uc_model c)))"
    using statOf_cases [OF assms(1), of "uc_model c"] assms(2,3) by (auto simp: addStat_def clamp_def)
  then show ?thesis
    using assms(1) jset_members
    by (fastforce simp: usageInv_def addUsage_def split: option.split)
qed

lemma addUsage_totals:
  assumes "usageInv u"
  shows "modelTotals us_cny (addUsage c cny u) = modelTotals us_cny u + cny"
    and "sessionTotals su_cny (addUsage c cny u) =
      sessionTotals su_cny u + (if callSession c = None then 0 else cny)"
proof -
  have wf: "jwf (ud_byModel u)" "jwf (ud_bySession u)" using assms by (simp_all add: usageInv_def)
  show "modelTotals us_cny (addUsage c cny u) = modelTotals us_cny u + cny"
    using sum_jset [OF wf(1), of us_cny "uc_model c" "addStat c cny (statOf u (uc_model c))"]
    by (simp add: modelTotals_def addUsage_def addStat_def statOf_def split: option.splits)
  show "sessionTotals su_cny (addUsage c cny u) =
      sessionTotals su_cny u + (if callSession c = None then 0 else cny)"
  proof (cases "callSession c")
    case (Some sid)
    then show ?thesis
      using sum_jset [OF wf(2), of su_cny sid "addSession cny (sessionCost u sid)"]
      by (simp add: sessionTotals_def addUsage_def addSession_def sessionCost_def split: option.splits)
  qed (simp add: sessionTotals_def addUsage_def)
qed

lemma callCny_nonneg:
  assumes "0 \<le> uc_prompt c" and "0 \<le> uc_completion c" and "\<And>x. uc_accounted c = Some x \<Longrightarrow> 0 \<le> x"
  shows "0 \<le> callCny e c"
proof -
  have "0 \<le> costOf m p n h" if "0 \<le> p" "0 \<le> n" for m p n h
  proof (cases "map_of PRICE m")
    case (Some price)
    then have mem: "price \<in> set (map snd PRICE)" by (force dest: map_of_SomeD)
    then have "row_ok (priceFor price n)"
      using priceRows_in [OF mem, of n] PRICE_rows_ok by (auto simp: list_all_iff)
    then show ?thesis using that Some by (auto simp: costOf_def Let_def row_ok_def intro!: add_nonneg_nonneg)
  qed (simp add: costOf_def)
  then show ?thesis using assms by (auto simp: callCny_def split: option.split)
qed

text \<open>The calls of a host's day, one after the other, as long as the day does not change.\<close>

definition usageDay :: "usage_env \<Rightarrow> usage_call list \<Rightarrow> usage_state option" where
  "usageDay e calls = foldl (\<lambda>u c. fst (recordUsage e c u)) None calls"

definition countable :: "usage_call \<Rightarrow> bool" where
  "countable c \<longleftrightarrow>
     0 \<le> uc_prompt c \<and> 0 \<le> uc_completion c \<and> (case uc_accounted c of None \<Rightarrow> True | Some x \<Rightarrow> 0 \<le> x)"

definition dayOk :: "usage_env \<Rightarrow> usage_state option \<Rightarrow> bool" where
  "dayOk e entry \<longleftrightarrow>
     (case hostUsage e entry of
        None \<Rightarrow> True
      | Some u \<Rightarrow> usageInv u \<and> ud_day u = un_today e \<and> sessionTotals su_cny u \<le> modelTotals us_cny u)"

lemma dayOk_record:
  assumes ok: "dayOk e entry" and c: "countable c"
  shows "dayOk e (fst (recordUsage e c entry))"
proof (cases "uc_purpose c = UpReply \<or> un_closed e \<or> hostUsage e entry = None")
  case True
  then show ?thesis using ok by (auto simp: recordUsage_def Let_def)
next
  case False
  then obtain u where u: "hostUsage e entry = Some u" by auto
  have iu: "usageInv u" "ud_day u = un_today e" "sessionTotals su_cny u \<le> modelTotals us_cny u"
    using ok u by (simp_all add: dayOk_def)
  have "0 \<le> callCny e c" using c by (intro callCny_nonneg) (auto simp: countable_def)
  then have "sessionTotals su_cny (addUsage c (callCny e c) u) \<le> modelTotals us_cny (addUsage c (callCny e c) u)"
    using iu addUsage_totals [OF iu(1)] by simp
  moreover have "usageInv (addUsage c (callCny e c) u)"
    using addUsage_inv [OF iu(1)] c by (simp add: countable_def)
  moreover have "fst (recordUsage e c entry) = Some (addUsage c (callCny e c) u)"
    using False u by (simp add: recordUsage_def Let_def)
  moreover have "un_host e" using u by (simp add: hostUsage_def split: if_splits)
  ultimately show ?thesis using iu(2) by (simp add: dayOk_def hostUsage_def addUsage_def)
qed

interpretation usage_day: guarded_machine "\<lambda>u c. fst (recordUsage e c u)" countable "dayOk e" for e
  by unfold_locales (rule dayOk_record)

text \<open>
  What the sessions cost is never more than what the models cost, and the cached and the reasoning
  tokens stay parts of the prompt and of the completion.
\<close>

lemma usage_totals:
  assumes "un_file e = None" and "list_all countable calls"
  shows "dayOk e (usageDay e calls)"
proof -
  have "dayOk e None"
    using assms(1) by (simp add: dayOk_def hostUsage_def blankUsage_def usageInv_def modelTotals_def sessionTotals_def)
  then show ?thesis
    using usage_day.run_ok [of e None calls] assms(2) by (simp add: usageDay_def list_all_iff)
qed

end
