(* ===== verification/SlotGate.thy ===== *)
theory SlotGate
  imports Complex_Main Prelude
begin

text \<open>
  The two gates that limit what runs at the same time: the model requests in flight
  (\<open>src/llm-gate.ts\<close>, one for the conversations and one for images) and the password
  derivations (\<open>src/auth/password.ts\<close>). Both hold a counter and a queue of the requests that wait;
  a request that gives up leaves the queue.
\<close>

section \<open>What a gate promises\<close>

datatype 'i gate_event = GeAcquire 'i | GeAbandon 'i | GeRelease 'i

text \<open>
  A run of a gate: the gate and the requests that hold a slot. A request comes once; only a holder
  gives a slot back.
\<close>

fun gateStep ::
    "('i \<Rightarrow> 's \<Rightarrow> 's \<times> bool) \<Rightarrow> ('i \<Rightarrow> 's \<Rightarrow> 's) \<Rightarrow> ('s \<Rightarrow> 's \<times> 'i option) \<Rightarrow>
     's \<times> 'i list \<Rightarrow> 'i gate_event \<Rightarrow> 's \<times> 'i list" where
  "gateStep acquire abandon release (s, hs) (GeAcquire i) =
     (case acquire i s of (s', granted) \<Rightarrow> (s', if granted then i # hs else hs))"
| "gateStep acquire abandon release (s, hs) (GeAbandon i) = (abandon i s, hs)"
| "gateStep acquire abandon release (s, hs) (GeRelease i) =
     (if i \<notin> set hs then (s, hs)
      else case release s of
             (s', None) \<Rightarrow> (s', remove1 i hs)
           | (s', Some j) \<Rightarrow> (s', j # remove1 i hs))"

fun isRelease :: "'i list \<Rightarrow> 'i gate_event \<Rightarrow> bool" where
  "isRelease hs (GeRelease i) \<longleftrightarrow> i \<in> set hs"
| "isRelease hs _ \<longleftrightarrow> False"

text \<open>The number of slots given back in a run.\<close>

fun released ::
    "('s \<times> 'i list \<Rightarrow> 'i gate_event \<Rightarrow> 's \<times> 'i list) \<Rightarrow> 's \<times> 'i list \<Rightarrow> 'i gate_event list \<Rightarrow> nat" where
  "released step w [] = 0"
| "released step w (e # es) = (if isRelease (snd w) e then 1 else 0) + released step (step w e) es"

locale slot_gate =
  fixes count :: "'s \<Rightarrow> nat" and queue :: "'s \<Rightarrow> 'i list" and slots :: nat
    and acquire :: "'i \<Rightarrow> 's \<Rightarrow> 's \<times> bool" and abandon :: "'i \<Rightarrow> 's \<Rightarrow> 's"
    and release :: "'s \<Rightarrow> 's \<times> 'i option"
  assumes acquire_free: "count s < slots \<Longrightarrow> acquire i s = (s', b) \<Longrightarrow>
      b \<and> count s' = Suc (count s) \<and> queue s' = queue s"
    and acquire_full: "\<not> count s < slots \<Longrightarrow> acquire i s = (s', b) \<Longrightarrow>
      \<not> b \<and> count s' = count s \<and> queue s' = queue s @ [i]"
    and abandon_leaves: "count (abandon i s) = count s \<and> queue (abandon i s) = remove1 i (queue s)"
    and release_idle: "0 < count s \<Longrightarrow> queue s = [] \<Longrightarrow> release s = (s', j) \<Longrightarrow>
      j = None \<and> count s' = count s - 1 \<and> queue s' = []"
    and release_next: "0 < count s \<Longrightarrow> queue s = i # q \<Longrightarrow> release s = (s', j) \<Longrightarrow>
      j = Some i \<and> count s' = count s \<and> queue s' = q"
begin

abbreviation gstep :: "'s \<times> 'i list \<Rightarrow> 'i gate_event \<Rightarrow> 's \<times> 'i list" where
  "gstep \<equiv> gateStep acquire abandon release"

text \<open>Every slot counted is held, none more than there are, and nobody waits beside a free slot.\<close>

definition gate_inv :: "'s \<times> 'i list \<Rightarrow> bool" where
  "gate_inv w \<longleftrightarrow>
     length (snd w) = count (fst w) \<and> count (fst w) \<le> slots \<and>
     (queue (fst w) = [] \<or> count (fst w) = slots)"

lemma gate_inv_step:
  assumes inv: "gate_inv w"
  shows "gate_inv (gstep w e)"
proof -
  obtain s hs where w: "w = (s, hs)" by (cases w)
  note i = inv [unfolded w gate_inv_def, simplified]
  show ?thesis
  proof (cases e)
    case (GeAcquire x)
    obtain s' b where a: "acquire x s = (s', b)" by fastforce
    show ?thesis
      using i acquire_free [OF _ a] acquire_full [OF _ a]
      by (cases "count s < slots") (auto simp: w GeAcquire a gate_inv_def)
  next
    case (GeAbandon x)
    then show ?thesis using i abandon_leaves [of x s] by (auto simp: w gate_inv_def)
  next
    case (GeRelease x)
    obtain s' j where r: "release s = (s', j)" by fastforce
    show ?thesis
    proof (cases "x \<in> set hs")
      case True
      then have c: "0 < count s" using i length_pos_if_in_set [of x hs] by simp
      show ?thesis
      proof (cases "queue s")
        case Nil
        then show ?thesis
          using i True c release_idle [OF c Nil r] by (auto simp: w GeRelease r gate_inv_def length_remove1)
      next
        case (Cons y q)
        then show ?thesis
          using i True c release_next [OF c Cons r] by (auto simp: w GeRelease r gate_inv_def length_remove1)
      qed
    qed (use inv in \<open>simp add: w GeRelease\<close>)
  qed
qed

lemma gate_inv_run: "gate_inv w \<Longrightarrow> gate_inv (foldl gstep w es)"
  by (induction es arbitrary: w) (simp_all add: gate_inv_step)

text \<open>
  A request that waits behind \<open>k\<close> others and does not give up holds a slot, or held one, after
  \<open>k + 1\<close> slots were given back.
\<close>

lemma waiter_step:
  assumes inv: "gate_inv (s, hs)" and q: "queue s = as @ i # bs" and new: "i \<notin> set as"
    and stay: "e \<noteq> GeAbandon i" and st: "gstep (s, hs) e = (s', hs')"
  shows "(\<exists>as' bs'. queue s' = as' @ i # bs' \<and> set as' \<subseteq> set as \<and>
       length as' + (if isRelease hs e then 1 else 0) \<le> length as) \<or>
     (isRelease hs e \<and> as = [] \<and> i \<in> set hs')"
proof (cases e)
  case (GeAcquire x)
  obtain s1 b where a: "acquire x s = (s1, b)" by fastforce
  have "queue s' = queue s \<or> queue s' = queue s @ [x]"
    using acquire_free [OF _ a] acquire_full [OF _ a] st by (cases "count s < slots") (auto simp: GeAcquire a)
  then show ?thesis using q by (fastforce simp: GeAcquire)
next
  case (GeAbandon x)
  then have qx: "queue s' = remove1 x (queue s)" and ne: "x \<noteq> i"
    using st stay abandon_leaves [of x s] by auto
  show ?thesis
  proof (cases "x \<in> set as")
    case True
    have "set (remove1 x as) \<subseteq> set as" by (rule set_remove1_subset)
    moreover have "queue s' = remove1 x as @ i # bs" using qx q True by (simp add: remove1_append)
    moreover have "length (remove1 x as) \<le> length as" by (simp add: length_remove1)
    ultimately show ?thesis using GeAbandon by auto
  next
    case False
    then have "queue s' = as @ i # remove1 x bs" using qx q ne by (simp add: remove1_append)
    then show ?thesis using GeAbandon by auto
  qed
next
  case (GeRelease x)
  show ?thesis
  proof (cases "x \<in> set hs")
    case True
    then have c: "0 < count s" using inv length_pos_if_in_set [of x hs] by (simp add: gate_inv_def)
    obtain s1 j where r: "release s = (s1, j)" by fastforce
    show ?thesis
    proof (cases as)
      case Nil
      then have "queue s = i # bs" using q by simp
      from release_next [OF c this r] show ?thesis using st True Nil by (auto simp: GeRelease r)
    next
      case (Cons y ys)
      then have "queue s = y # ys @ i # bs" using q by simp
      from release_next [OF c this r] show ?thesis using st True Cons by (auto simp: GeRelease r)
    qed
  next
    case False
    then show ?thesis using st q by (auto simp: GeRelease)
  qed
qed

lemma waiter_served:
  "gate_inv (s, hs) \<Longrightarrow> queue s = as @ i # bs \<Longrightarrow> i \<notin> set as \<Longrightarrow> GeAbandon i \<notin> set es \<Longrightarrow>
   length as < released gstep (s, hs) es \<Longrightarrow>
   \<exists>n \<le> length es. i \<in> set (snd (foldl gstep (s, hs) (take n es)))"
proof (induction es arbitrary: s hs as bs)
  case (Cons e es)
  obtain s' hs' where st: "gstep (s, hs) e = (s', hs')" by fastforce
  have inv': "gate_inv (s', hs')" using gate_inv_step [OF Cons.prems(1), of e] st by simp
  have "e \<noteq> GeAbandon i" using Cons.prems(4) by auto
  from waiter_step [OF Cons.prems(1-3) this st] show ?case
  proof (elim disjE exE conjE)
    fix as' bs'
    assume q': "queue s' = as' @ i # bs'" and sub: "set as' \<subseteq> set as"
      and len: "length as' + (if isRelease hs e then 1 else 0) \<le> length as"
    have "length as' < released gstep (s', hs') es" using Cons.prems(5) len st by (auto split: if_splits)
    then obtain n where "n \<le> length es" "i \<in> set (snd (foldl gstep (s', hs') (take n es)))"
      using Cons.IH [OF inv' q' _ _] sub Cons.prems(3,4) by auto
    then show ?case using st by (intro exI [of _ "Suc n"]) simp
  next
    assume "i \<in> set hs'"
    then show ?case using st by (intro exI [of _ 1]) simp
  qed
qed simp

end

section \<open>The gate of the model requests\<close>

record llm_pool =
  lp_inflight :: nat
  lp_waiting :: "nat list"

definition newPool :: llm_pool where
  "newPool = \<lparr>lp_inflight = 0, lp_waiting = []\<rparr>"

datatype pool_kind = PoolChat | PoolVision

text \<open>The configured bounds: zero for conversations means no bound, images always have one.\<close>

definition poolLimit :: "nat \<Rightarrow> rat \<Rightarrow> pool_kind \<Rightarrow> nat" where
  "poolLimit maxInflight visionMax k =
     (case k of PoolVision \<Rightarrow> nat (max 1 \<lfloor>visionMax\<rfloor>) | PoolChat \<Rightarrow> maxInflight)"

text \<open>The result: refused (the signal is already aborted), granted, or queued.\<close>

datatype acquire_result = ArAborted | ArGranted | ArQueued

definition acquireLlm :: "nat \<Rightarrow> bool \<Rightarrow> nat \<Rightarrow> llm_pool \<Rightarrow> llm_pool \<times> acquire_result" where
  "acquireLlm maximum aborted i p =
     (if aborted then (p, ArAborted)
      else if maximum = 0 \<or> lp_inflight p < maximum
      then (p\<lparr>lp_inflight := lp_inflight p + 1\<rparr>, ArGranted)
      else (p\<lparr>lp_waiting := lp_waiting p @ [i]\<rparr>, ArQueued))"

text \<open>A queued request whose signal fires: it leaves the queue and is rejected.\<close>

definition onAbortLlm :: "nat \<Rightarrow> llm_pool \<Rightarrow> llm_pool" where
  "onAbortLlm i p = p\<lparr>lp_waiting := remove1 i (lp_waiting p)\<rparr>"

definition releaseLlm :: "llm_pool \<Rightarrow> llm_pool \<times> nat option" where
  "releaseLlm p =
     (case lp_waiting p of
        i # rest \<Rightarrow> (p\<lparr>lp_waiting := rest\<rparr>, Some i)
      | [] \<Rightarrow> (p\<lparr>lp_inflight := lp_inflight p - 1\<rparr>, None))"

definition gateBusy :: "nat \<Rightarrow> llm_pool \<Rightarrow> bool" where
  "gateBusy maxInflight p \<longleftrightarrow> 0 < maxInflight \<and> maxInflight \<le> lp_inflight p"

definition gateStatus :: "nat \<Rightarrow> llm_pool \<Rightarrow> nat \<times> nat \<times> nat" where
  "gateStatus maxInflight p = (lp_inflight p, length (lp_waiting p), maxInflight)"

text \<open>A request that is not aborted when it comes.\<close>

definition enterLlm :: "nat \<Rightarrow> nat \<Rightarrow> llm_pool \<Rightarrow> llm_pool \<times> bool" where
  "enterLlm maximum i p = (case acquireLlm maximum False i p of (p', r) \<Rightarrow> (p', r = ArGranted))"

interpretation llm_gate: slot_gate lp_inflight lp_waiting "Suc n" "enterLlm (Suc n)" onAbortLlm releaseLlm
  for n
  by unfold_locales
    (auto simp: enterLlm_def acquireLlm_def onAbortLlm_def releaseLlm_def split: if_splits list.splits)

section \<open>The gate of the password derivations\<close>

record password_gate =
  pg_running :: nat
  pg_waiting :: "nat list"

definition MAX_CONCURRENT :: nat where
  "MAX_CONCURRENT = 2"

definition acquirePassword :: "nat \<Rightarrow> password_gate \<Rightarrow> password_gate \<times> bool" where
  "acquirePassword i g =
     (if pg_running g < MAX_CONCURRENT then (g\<lparr>pg_running := pg_running g + 1\<rparr>, True)
      else (g\<lparr>pg_waiting := pg_waiting g @ [i]\<rparr>, False))"

text \<open>A request that waited too long leaves the queue; its caller gets the busy error.\<close>

definition timeoutPassword :: "nat \<Rightarrow> password_gate \<Rightarrow> password_gate" where
  "timeoutPassword i g = g\<lparr>pg_waiting := remove1 i (pg_waiting g)\<rparr>"

definition releasePassword :: "password_gate \<Rightarrow> password_gate \<times> nat option" where
  "releasePassword g =
     (let g1 = g\<lparr>pg_running := pg_running g - 1\<rparr> in
      case pg_waiting g1 of
        [] \<Rightarrow> (g1, None)
      | i # rest \<Rightarrow> (g1\<lparr>pg_waiting := rest, pg_running := pg_running g1 + 1\<rparr>, Some i))"

interpretation password_gate: slot_gate pg_running pg_waiting MAX_CONCURRENT acquirePassword timeoutPassword
    releasePassword
  by unfold_locales
    (auto simp: acquirePassword_def timeoutPassword_def releasePassword_def Let_def split: if_splits list.splits)

section \<open>Properties\<close>

text \<open>
  Whatever requests arrive, give up and end, the model requests that hold a slot are exactly the
  ones counted, never more than the bound, and while one waits every slot is taken.
\<close>

theorem llm_slots_are_kept:
  "(case foldl (gateStep (enterLlm (Suc n)) onAbortLlm releaseLlm) (newPool, []) es of
      (p, holders) \<Rightarrow>
        length holders = lp_inflight p \<and> length holders \<le> Suc n \<and>
        (lp_waiting p = [] \<or> lp_inflight p = Suc n))"
proof -
  have "llm_gate.gate_inv n (newPool, [])" by (simp add: llm_gate.gate_inv_def newPool_def)
  from llm_gate.gate_inv_run [OF this, of es] show ?thesis
    by (auto simp: llm_gate.gate_inv_def split: prod.split)
qed

text \<open>
  C22: A model request that waits behind \<open>k\<close> others gets its slot once \<open>k + 1\<close> slots were
  given back, unless it gives up itself; requests in front that give up only make it faster.
\<close>

theorem waiting_request_is_served:
  assumes "foldl (gateStep (enterLlm (Suc n)) onAbortLlm releaseLlm) (newPool, []) before = (p, hs)"
    and "lp_waiting p = as @ i # bs" and "i \<notin> set as" and "GeAbandon i \<notin> set es"
    and "length as < released (gateStep (enterLlm (Suc n)) onAbortLlm releaseLlm) (p, hs) es"
  shows "\<exists>k \<le> length es.
    i \<in> set (snd (foldl (gateStep (enterLlm (Suc n)) onAbortLlm releaseLlm) (p, hs) (take k es)))"
proof -
  have "llm_gate.gate_inv n (newPool, [])" by (simp add: llm_gate.gate_inv_def newPool_def)
  from llm_gate.gate_inv_run [OF this, of before] have "llm_gate.gate_inv n (p, hs)" using assms(1) by simp
  then show ?thesis using llm_gate.waiter_served [OF _ assms(2-5)] by simp
qed

lemma waiting_request_is_served_witness:
  "\<exists>k \<le> 2. 3 \<in> set (snd (foldl (gateStep (enterLlm 1) onAbortLlm releaseLlm)
     (\<lparr>lp_inflight = 1, lp_waiting = [2, 3]\<rparr>, [1]) (take k [GeRelease 1, GeRelease 2])))"
proof -
  have "foldl (gateStep (enterLlm (Suc 0)) onAbortLlm releaseLlm) (newPool, [])
      [GeAcquire 1, GeAcquire 2, GeAcquire 3] = (\<lparr>lp_inflight = 1, lp_waiting = [2, 3]\<rparr>, [1])"
    by (simp add: enterLlm_def acquireLlm_def newPool_def)
  from waiting_request_is_served [OF this, of "[2]" 3 "[]" "[GeRelease 1, GeRelease 2]"] show ?thesis
    by (simp add: releaseLlm_def numeral_2_eq_2)
qed

text \<open>The same for the derivations of passwords: at most two at a time.\<close>

lemma password_slots_are_kept:
  "(case foldl (gateStep acquirePassword timeoutPassword releasePassword) (\<lparr>pg_running = 0, pg_waiting = []\<rparr>, []) es of
      (g, holders) \<Rightarrow> length holders = pg_running g \<and> length holders \<le> 2)"
proof -
  have "password_gate.gate_inv (\<lparr>pg_running = 0, pg_waiting = []\<rparr>, [])"
    by (simp add: password_gate.gate_inv_def)
  from password_gate.gate_inv_run [OF this, of es] show ?thesis
    by (auto simp: password_gate.gate_inv_def split: prod.split) (simp_all add: MAX_CONCURRENT_def)
qed

end
