(* ===== verification/LlmFetch.thy ===== *)
theory LlmFetch
  imports Usage SlotGate
begin

text \<open>
  One request to the model (\<open>src/llm-gate.ts\<close>): what it reserves, what it costs, the attempts with
  their pauses, and the settlement by the caller. The replies of the service are a script, one entry
  for each attempt; an attempt's effects are listed in order.
\<close>

section \<open>The estimate and the cost\<close>

datatype content_part = PartImage | PartText nat | PartOther

datatype content = ContentText nat | ContentParts "content_part list" | ContentOther

text \<open>The parts of the request the estimate reads; texts count by their length.\<close>

record llm_request =
  rq_model :: string
  rq_embeddings :: bool
  rq_maxTokens :: "int option"
  rq_maxCompletion :: "int option"
  rq_messages :: "content list"
  rq_bytes :: int

record gate_usage =
  gu_purpose :: "usage_purpose option"
  gu_estimateMilli :: "rat option"
  gu_poolOnly :: bool
  gu_deferUsage :: bool
  gu_maxRetry :: "nat option"

fun partTokens :: "content_part \<Rightarrow> int" where
  "partTokens PartImage = 4000"
| "partTokens (PartText n) = int n"
| "partTokens PartOther = 0"

fun contentTokens :: "content \<Rightarrow> int" where
  "contentTokens (ContentText n) = int n"
| "contentTokens (ContentParts parts) = sum_list (map partTokens parts)"
| "contentTokens ContentOther = 0"

definition inputTokens :: "gate_usage \<Rightarrow> llm_request \<Rightarrow> int" where
  "inputTokens opts rq =
     (if gu_purpose opts = Some UpVision then sum_list (map contentTokens (rq_messages rq)) else rq_bytes rq)"

definition outputTokens :: "llm_request \<Rightarrow> int" where
  "outputTokens rq =
     (case rq_maxTokens rq of
        Some n \<Rightarrow> n
      | None \<Rightarrow> (case rq_maxCompletion rq of Some n \<Rightarrow> n | None \<Rightarrow> 0))"

text \<open>A sandbox request without an output bound gets one, so that it can be reserved in full.\<close>

definition boundOutput :: "bool \<Rightarrow> llm_request \<Rightarrow> llm_request" where
  "boundOutput sandbox rq =
     (if sandbox \<and> \<not> rq_embeddings rq \<and> rq_maxTokens rq = None \<and> rq_maxCompletion rq = None
      then rq\<lparr>rq_maxTokens := Some 4096\<rparr> else rq)"

definition requestEstimate :: "bool \<Rightarrow> gate_usage \<Rightarrow> llm_request \<Rightarrow> rat" where
  "requestEstimate sandbox opts rq =
     (if sandbox then sandboxCostOf (rq_model rq) (inputTokens opts rq) (outputTokens rq) 0 True * 1000
      else case gu_estimateMilli opts of
             Some x \<Rightarrow> x
           | None \<Rightarrow> costOf (rq_model rq) (inputTokens opts rq) (outputTokens rq) 0 * 1000)"

definition requestPurpose :: "gate_usage \<Rightarrow> llm_request \<Rightarrow> usage_purpose" where
  "requestPurpose opts rq =
     (case gu_purpose opts of Some p \<Rightarrow> p | None \<Rightarrow> if rq_embeddings rq then UpEmbedding else UpChat)"

text \<open>A count the service reports: missing, null, a whole number, or anything else.\<close>

datatype tok = TokAbsent | TokNull | TokNum int | TokBad

record token_report =
  tr_prompt :: tok
  tr_completion :: tok
  tr_cached :: tok
  tr_cacheHit :: tok

fun tokValue :: "tok \<Rightarrow> int option" where
  "tokValue (TokNum n) = Some n"
| "tokValue TokBad = None"
| "tokValue _ = Some 0"

definition cachedTok :: "token_report \<Rightarrow> tok" where
  "cachedTok r = (if tr_cached r \<in> {TokAbsent, TokNull} then tr_cacheHit r else tr_cached r)"

definition reportUsable :: "token_report \<Rightarrow> bool" where
  "reportUsable r \<longleftrightarrow>
     (case tr_prompt r of TokNum n \<Rightarrow> 0 \<le> n | _ \<Rightarrow> False) \<and>
     (case tr_completion r of TokNum n \<Rightarrow> 0 \<le> n | TokAbsent \<Rightarrow> True | _ \<Rightarrow> False)"

text \<open>
  The cost in thousandths: None is no cost known (settled at the estimate), Some None a number that is
  not finite. The price of an unknown model does not read the counts.
\<close>

definition actualCost :: "bool \<Rightarrow> string \<Rightarrow> token_report option \<Rightarrow> rat option option" where
  "actualCost sandbox model report =
     (case report of
        None \<Rightarrow> None
      | Some r \<Rightarrow>
          if sandbox \<and> \<not> reportUsable r then None
          else case (tokValue (tr_prompt r), tokValue (tr_completion r), tokValue (cachedTok r)) of
                 (Some p, Some c, Some h) \<Rightarrow>
                   Some (Some ((if sandbox then sandboxCostOf model p c h False else costOf model p c h) * 1000))
               | (Some p, Some c, None) \<Rightarrow>
                   if map_of PRICE model = None
                   then Some (Some ((if sandbox then sandboxCostOf model p c 0 False else 0) * 1000))
                   else if sandbox then None else Some None
               | _ \<Rightarrow> if map_of PRICE model = None then Some (Some 0) else Some None)"

section \<open>The attempts\<close>

datatype reply = RpNetwork | RpClosing | RpStatus int jstext

record attempt =
  at_aborted :: bool
  at_sleepAborted :: bool
  at_abortedAgain :: bool
  at_jitter :: nat
  at_stopped :: bool
  at_closing :: bool
  at_granted :: bool
  at_reply :: reply

datatype gate_error = GrAborted | GrStopped | GrClosing | GrBudget | GrNetwork | GrFailed

datatype gate_effect = GfSleep nat | GfReserve nat | GfFetch nat | GfSettle nat | GfRelease

text \<open>A response that is handed over unsettled, one that is settled, the last error, or a throw.\<close>

datatype gate_outcome =
    GoHanded int nat
  | GoSettled int nat
  | GoLast int nat jstext
  | GoThrow gate_error

definition retriable :: "int \<Rightarrow> bool" where
  "retriable status \<longleftrightarrow> status = 429 \<or> status = 408 \<or> 500 \<le> status"

definition responseOk :: "int \<Rightarrow> bool" where
  "responseOk status \<longleftrightarrow> 200 \<le> status \<and> status < 300"

definition backoff :: "nat \<Rightarrow> nat \<Rightarrow> nat" where
  "backoff n jitter = 600 * 2 ^ (n - 1) + jitter"

text \<open>What stops an attempt before its request is sent, with the pause it made.\<close>

definition beforeFetch :: "nat \<Rightarrow> attempt \<Rightarrow> gate_effect list \<times> gate_error option" where
  "beforeFetch n a =
     (let pause = (if n = 0 then [] else [GfSleep (backoff n (at_jitter a))]) in
      if at_aborted a then ([], Some GrAborted)
      else if 0 < n \<and> (at_sleepAborted a \<or> at_abortedAgain a) then (pause, Some GrAborted)
      else if at_stopped a then (pause, Some GrStopped)
      else if at_closing a then (pause, Some GrClosing)
      else if \<not> at_granted a then (pause, Some GrBudget)
      else (pause, None))"

text \<open>The attempt \<open>n\<close> and the \<open>k\<close> after it; \<open>last\<close> is the last error response.\<close>

fun fetchFrom ::
    "(nat \<Rightarrow> attempt) \<Rightarrow> nat \<Rightarrow> nat \<Rightarrow> (int \<times> jstext) option \<Rightarrow> gate_effect list \<times> gate_outcome" where
  "fetchFrom script 0 n lst =
     ([], case lst of Some (status, body) \<Rightarrow> GoLast status n body | None \<Rightarrow> GoThrow GrFailed)"
| "fetchFrom script (Suc k) n lst =
     (case beforeFetch n (script n) of
        (pause, Some err) \<Rightarrow> (pause, GoThrow err)
      | (pause, None) \<Rightarrow>
          (case at_reply (script n) of
             RpStatus status body \<Rightarrow>
               if responseOk status then (pause @ [GfReserve n, GfFetch n], GoHanded status (n + 1))
               else if \<not> retriable status
               then (pause @ [GfReserve n, GfFetch n, GfSettle n], GoSettled status (n + 1))
               else (case fetchFrom script k (Suc n) (Some (status, body)) of
                       (es, out) \<Rightarrow> (pause @ [GfReserve n, GfFetch n, GfSettle n] @ es, out))
           | _ \<Rightarrow>
               if k = 0
               then (pause @ [GfReserve n, GfFetch n, GfSettle n],
                     GoThrow (if at_reply (script n) = RpClosing then GrClosing else GrNetwork))
               else (case fetchFrom script k (Suc n) None of
                       (es, out) \<Rightarrow> (pause @ [GfReserve n, GfFetch n, GfSettle n] @ es, out))))"

definition handedOff :: "gate_outcome \<Rightarrow> bool" where
  "handedOff out = (case out of GoHanded _ _ \<Rightarrow> True | _ \<Rightarrow> False)"

text \<open>
  The whole request after its slot was granted: an image request keeps the slot until its answer is
  settled, every other request gives it back here.
\<close>

definition holdSlot :: "pool_kind \<Rightarrow> gate_outcome \<Rightarrow> bool" where
  "holdSlot kind out \<longleftrightarrow> kind = PoolVision \<and> handedOff out"

definition fetchThroughGate ::
    "nat \<Rightarrow> gate_usage \<Rightarrow> (nat \<Rightarrow> attempt) \<Rightarrow> gate_effect list \<times> gate_outcome" where
  "fetchThroughGate maxRetry opts script =
     (let kind = (if gu_purpose opts = Some UpVision then PoolVision else PoolChat);
          retries = (case gu_maxRetry opts of Some n \<Rightarrow> n | None \<Rightarrow> maxRetry)
      in case fetchFrom script (Suc retries) 0 None of
           (es, out) \<Rightarrow> (es @ (if holdSlot kind out then [] else [GfRelease]), out))"

section \<open>The settlement by the caller\<close>

text \<open>
  The closure of a response that was handed over: it is settled once, by the caller or when the tenant
  is deleted; a sandbox call reports its usage then, or later when the caller asked for that.
\<close>

record settle_state =
  st_settled :: bool
  st_holds :: bool
  st_pending :: "(rat option) option"

datatype settle_event = SvSettle "token_report option" bool | SvCancel | SvReport

datatype settle_effect = SeSettle "rat option option" | SeRelease | SeReport "rat option"

definition settleUsage ::
    "bool \<Rightarrow> string \<Rightarrow> rat \<Rightarrow> gate_usage \<Rightarrow> token_report option \<Rightarrow> bool \<Rightarrow> settle_state \<Rightarrow>
     settle_state \<times> settle_effect list" where
  "settleUsage sandbox model estimate opts report nonNull s =
     (if st_settled s then (s, [])
      else let actual = actualCost sandbox model report;
               spent = (case actual of Some a \<Rightarrow> a | None \<Rightarrow> Some estimate);
               rel = (if st_holds s then [SeRelease] else []);
               s1 = s\<lparr>st_settled := True, st_holds := False\<rparr>
           in if \<not> sandbox \<or> gu_poolOnly opts then (s1, rel @ [SeSettle actual])
              else if gu_deferUsage opts \<and> nonNull
              then (s1\<lparr>st_pending := Some spent\<rparr>, rel @ [SeSettle actual])
              else (s1, rel @ [SeSettle actual, SeReport spent]))"

definition reportUsage :: "settle_state \<Rightarrow> settle_state \<times> settle_effect list" where
  "reportUsage s =
     (case st_pending s of None \<Rightarrow> (s, []) | Some x \<Rightarrow> (s\<lparr>st_pending := None\<rparr>, [SeReport x]))"

fun settleStep ::
    "bool \<Rightarrow> string \<Rightarrow> rat \<Rightarrow> gate_usage \<Rightarrow> settle_state \<times> settle_effect list \<Rightarrow> settle_event \<Rightarrow>
     settle_state \<times> settle_effect list" where
  "settleStep sandbox model estimate opts (s, es) (SvSettle report nonNull) =
     (case settleUsage sandbox model estimate opts report nonNull s of (s', new) \<Rightarrow> (s', es @ new))"
| "settleStep sandbox model estimate opts (s, es) SvCancel =
     (if sandbox
      then case settleUsage sandbox model estimate opts None False s of (s', new) \<Rightarrow> (s', es @ new)
      else (s, es))"
| "settleStep sandbox model estimate opts (s, es) SvReport =
     (case reportUsage s of (s', new) \<Rightarrow> (s', es @ new))"

section \<open>Lemmas\<close>

definition ids :: "(gate_effect \<Rightarrow> nat option) \<Rightarrow> gate_effect list \<Rightarrow> nat list" where
  "ids f es = List.map_filter f es"

fun reserveId :: "gate_effect \<Rightarrow> nat option" where
  "reserveId (GfReserve n) = Some n"
| "reserveId _ = None"

fun fetchId :: "gate_effect \<Rightarrow> nat option" where
  "fetchId (GfFetch n) = Some n"
| "fetchId _ = None"

fun settleId :: "gate_effect \<Rightarrow> nat option" where
  "settleId (GfSettle n) = Some n"
| "settleId _ = None"

lemma ids_simps [simp]:
  "ids f [] = []" "ids f (es @ fs) = ids f es @ ids f fs"
  "ids f (e # es) = (case f e of None \<Rightarrow> ids f es | Some n \<Rightarrow> n # ids f es)"
  by (simp_all add: ids_def List.map_filter_def split: option.split)

text \<open>The attempts that reserve are consecutive; each is fetched, and settled unless handed over.\<close>

definition shape :: "nat \<Rightarrow> nat \<Rightarrow> gate_effect list \<Rightarrow> gate_outcome \<Rightarrow> bool" where
  "shape k n es out \<longleftrightarrow>
     (\<exists>m \<le> k. ids reserveId es = [n..<n + m] \<and> ids fetchId es = [n..<n + m] \<and>
        ids settleId es = [n..<n + m - (if handedOff out then 1 else 0)] \<and>
        (handedOff out \<longrightarrow> 0 < m) \<and> GfRelease \<notin> set es)"

definition silent :: "gate_effect list \<Rightarrow> bool" where
  "silent es \<longleftrightarrow>
     ids reserveId es = [] \<and> ids fetchId es = [] \<and> ids settleId es = [] \<and> GfRelease \<notin> set es"

lemma beforeFetch_silent: "beforeFetch n a = (pause, r) \<Longrightarrow> silent pause"
  by (auto simp: beforeFetch_def silent_def Let_def split: if_splits)

lemma shape_silent: "silent es \<Longrightarrow> \<not> handedOff out \<Longrightarrow> shape k n es out"
  unfolding shape_def silent_def by (rule exI [of _ 0]) simp

lemma shape_handed: "silent es \<Longrightarrow> handedOff out \<Longrightarrow> shape (Suc k) n (es @ [GfReserve n, GfFetch n]) out"
  unfolding shape_def silent_def by (rule exI [of _ 1]) simp

lemma shape_settled:
  "silent es \<Longrightarrow> \<not> handedOff out \<Longrightarrow> shape (Suc k) n (es @ [GfReserve n, GfFetch n, GfSettle n]) out"
  unfolding shape_def silent_def by (rule exI [of _ 1]) simp

lemma shape_more:
  assumes "silent es" and "shape k (Suc n) es' out"
  shows "shape (Suc k) n (es @ GfReserve n # GfFetch n # GfSettle n # es') out"
proof -
  obtain m where m: "m \<le> k" "ids reserveId es' = [Suc n..<Suc n + m]" "ids fetchId es' = [Suc n..<Suc n + m]"
    "ids settleId es' = [Suc n..<Suc n + m - (if handedOff out then 1 else 0)]"
    "handedOff out \<longrightarrow> 0 < m" "GfRelease \<notin> set es'"
    using assms(2) by (auto simp: shape_def)
  have "[n..<n + Suc m] = n # [Suc n..<Suc n + m]" by (simp add: upt_conv_Cons)
  moreover have "[n..<n + Suc m - (if handedOff out then 1 else 0)] =
      n # [Suc n..<Suc n + m - (if handedOff out then 1 else 0)]"
    using m(5) by (auto simp: upt_conv_Cons)
  ultimately show ?thesis
    unfolding shape_def using m assms(1) by (intro exI [of _ "Suc m"]) (simp add: silent_def)
qed

lemma fetchFrom_shape: "fetchFrom script k n lst = (es, out) \<Longrightarrow> shape k n es out"
proof (induction script k n lst arbitrary: es out rule: fetchFrom.induct)
  case (1 script n lst)
  then show ?case by (auto intro!: shape_silent simp: silent_def handedOff_def split: option.splits)
next
  case (2 script k n lst)
  obtain pause r where b: "beforeFetch n (script n) = (pause, r)" by fastforce
  note q = beforeFetch_silent [OF b]
  show ?case
  proof (cases r)
    case (Some err)
    then show ?thesis using "2.prems" b q by (auto intro!: shape_silent simp: handedOff_def)
  next
    case None
    show ?thesis
    proof (cases "at_reply (script n)")
      case (RpStatus status body)
      then show ?thesis
        using "2.prems" "2.IH" b None q
        by (auto simp: handedOff_def intro: shape_handed shape_settled shape_more split: if_splits prod.splits)
    next
      case RpNetwork
      then show ?thesis
        using "2.prems" "2.IH" b None q
        by (auto simp: handedOff_def intro: shape_settled shape_more split: if_splits prod.splits)
    next
      case RpClosing
      then show ?thesis
        using "2.prems" "2.IH" b None q
        by (auto simp: handedOff_def intro: shape_settled shape_more split: if_splits prod.splits)
    qed
  qed
qed

text \<open>
  The closure an outcome hands out starts with the flag of its attempt: a response handed over is not
  settled yet, any other response has been settled by the gate (for the last error response the
  closure is a function that does nothing, and a throw hands out none).
\<close>

definition newSettle :: "pool_kind \<Rightarrow> gate_outcome \<Rightarrow> settle_state" where
  "newSettle kind out =
     \<lparr>st_settled = (\<not> handedOff out), st_holds = holdSlot kind out, st_pending = None\<rparr>"

text \<open>The caller settles the response, or the deletion of a sandbox does.\<close>

definition settledBy :: "bool \<Rightarrow> settle_event list \<Rightarrow> bool" where
  "settledBy sandbox evs \<longleftrightarrow>
     (\<exists>report b. SvSettle report b \<in> set evs) \<or> (sandbox \<and> SvCancel \<in> set evs)"

fun isSettle :: "settle_effect \<Rightarrow> bool" where
  "isSettle (SeSettle _) \<longleftrightarrow> True"
| "isSettle _ \<longleftrightarrow> False"

fun isReport :: "settle_effect \<Rightarrow> bool" where
  "isReport (SeReport _) \<longleftrightarrow> True"
| "isReport _ \<longleftrightarrow> False"

text \<open>
  \<open>before\<close> counts the settlements before the closure was handed out. Whatever the calls: at most one
  settlement in all, the slot is released with it, and the usage is reported at most once.
\<close>

definition settleInv :: "bool \<Rightarrow> nat \<Rightarrow> settle_state \<times> settle_effect list \<Rightarrow> bool" where
  "settleInv holds before w \<longleftrightarrow>
     st_holds (fst w) = (holds \<and> \<not> st_settled (fst w)) \<and>
     before + length (filter isSettle (snd w)) = (if st_settled (fst w) then 1 else 0) \<and>
     count_list (snd w) SeRelease = (if st_settled (fst w) \<and> holds then 1 else 0) \<and>
     before + length (filter isReport (snd w)) + (if st_pending (fst w) = None then 0 else 1) \<le>
       (if st_settled (fst w) then 1 else 0)"

lemma settleInv_step:
  "settleInv holds before w \<Longrightarrow> settleInv holds before (settleStep sandbox model est opts w ev)"
  by (cases w; cases ev)
    (auto simp: settleInv_def settleUsage_def reportUsage_def Let_def split: option.splits if_splits)

interpretation settlement: machine "settleStep sandbox model est opts" "settleInv holds before"
  for sandbox model est opts holds before
  by unfold_locales (rule settleInv_step)

lemma settled_stays:
  "st_settled (fst w) \<Longrightarrow> st_settled (fst (settleStep sandbox model est opts w ev))"
  by (cases w; cases ev) (auto simp: settleUsage_def reportUsage_def split: option.splits)

lemma settled_by_event:
  "st_settled (fst w) \<or> settledBy sandbox evs \<Longrightarrow>
   st_settled (fst (foldl (settleStep sandbox model est opts) w evs))"
proof (induction evs arbitrary: w)
  case Nil
  then show ?case by (simp add: settledBy_def)
next
  case (Cons ev evs)
  obtain s es where w: "w = (s, es)" by (cases w)
  have "st_settled (fst (settleStep sandbox model est opts w ev))"
    if "(\<exists>report b. ev = SvSettle report b) \<or> (sandbox \<and> ev = SvCancel)"
    using that by (auto simp: w settleUsage_def Let_def split: option.splits)
  then have "st_settled (fst (settleStep sandbox model est opts w ev)) \<or> settledBy sandbox evs"
    using Cons.prems settled_stays [of w sandbox model est opts ev] by (auto simp: settledBy_def)
  from Cons.IH [OF this] show ?case by simp
qed

section \<open>Properties\<close>

definition retriesOf :: "nat \<Rightarrow> gate_usage \<Rightarrow> nat" where
  "retriesOf maxRetry opts = (case gu_maxRetry opts of Some n \<Rightarrow> n | None \<Rightarrow> maxRetry)"

definition kindOf :: "gate_usage \<Rightarrow> pool_kind" where
  "kindOf opts = (if gu_purpose opts = Some UpVision then PoolVision else PoolChat)"

text \<open>
  C7: Whatever the service and the budget answer, every reservation of a request is for one fetch and
  is settled exactly once: the gate settles it, except that of a response it hands over, which the
  closure shared by the caller and the deletion of the tenant settles, in whatever order and however
  often they call it. The closure of an error response settles nothing again. The slot is given back
  exactly once, and there is one attempt more than there are retries at most. That the caller does
  settle a response that was handed to it is assumed (\<open>settledBy\<close>); it is the caller's part of the
  contract.
\<close>

theorem every_reservation_is_settled:
  assumes "fetchThroughGate maxRetry opts script = (es, out)"
    and "foldl (settleStep sandbox model est opts) (newSettle (kindOf opts) out, []) evs = (s, effs)"
    and "handedOff out \<Longrightarrow> settledBy sandbox evs"
  shows "ids reserveId es = ids fetchId es \<and> distinct (ids fetchId es) \<and>
    length (ids fetchId es) \<le> Suc (retriesOf maxRetry opts) \<and>
    ids settleId es = (if handedOff out then butlast (ids reserveId es) else ids reserveId es) \<and>
    length (filter isSettle effs) = (if handedOff out then 1 else 0) \<and>
    length (ids settleId es) + length (filter isSettle effs) = length (ids reserveId es) \<and>
    count_list es GfRelease + count_list effs SeRelease = 1"
proof -
  let ?holds = "holdSlot (kindOf opts) out" and ?before = "if handedOff out then 0 else 1"
  obtain es' where f: "fetchFrom script (Suc (retriesOf maxRetry opts)) 0 None = (es', out)"
      and es: "es = es' @ (if ?holds then [] else [GfRelease])"
    using assms(1) by (auto simp: fetchThroughGate_def retriesOf_def kindOf_def Let_def split: prod.splits)
  obtain m where m: "m \<le> Suc (retriesOf maxRetry opts)" "ids reserveId es' = [0..<m]" "ids fetchId es' = [0..<m]"
      "ids settleId es' = [0..<m - (if handedOff out then 1 else 0)]" "GfRelease \<notin> set es'"
      "handedOff out \<longrightarrow> 0 < m"
    using fetchFrom_shape [OF f] by (auto simp: shape_def)
  have "settleInv ?holds ?before (newSettle (kindOf opts) out, [])"
    by (simp add: settleInv_def newSettle_def holdSlot_def)
  from settlement.run_inv [OF this, of sandbox model est opts evs]
  have inv: "settleInv ?holds ?before (s, effs)" using assms(2) by simp
  have "st_settled (fst (foldl (settleStep sandbox model est opts) (newSettle (kindOf opts) out, []) evs))"
    by (rule settled_by_event) (use assms(3) in \<open>auto simp: newSettle_def\<close>)
  then have "st_settled s" using assms(2) by simp
  then have "length (filter isSettle effs) = (if handedOff out then 1 else 0)"
      "count_list effs SeRelease = (if ?holds then 1 else 0)"
    using inv by (simp_all add: settleInv_def split: if_splits)
  moreover have "butlast [0..<m] = [0..<m - 1]" by (cases m) simp_all
  ultimately show ?thesis using m by (auto simp: es)
qed

definition attempt_ex :: "reply \<Rightarrow> attempt" where
  "attempt_ex r =
     \<lparr>at_aborted = False, at_sleepAborted = False, at_abortedAgain = False, at_jitter = 7,
      at_stopped = False, at_closing = False, at_granted = True, at_reply = r\<rparr>"

definition gate_usage_ex :: gate_usage where
  "gate_usage_ex =
     \<lparr>gu_purpose = Some UpVision, gu_estimateMilli = None, gu_poolOnly = False, gu_deferUsage = False,
      gu_maxRetry = None\<rparr>"

lemma every_reservation_is_settled_witness:
  "\<exists>es out. fetchThroughGate 2 gate_usage_ex
       (\<lambda>n. attempt_ex (if n = 0 then RpStatus 429 [] else RpStatus 200 [])) = (es, out) \<and>
     ids settleId es = butlast (ids reserveId es) \<and> ids reserveId es = [0, 1]"
proof -
  let ?script = "\<lambda>n. attempt_ex (if n = 0 then RpStatus 429 [] else RpStatus 200 [])"
  let ?es = "[GfReserve 0, GfFetch 0, GfSettle 0, GfSleep 607, GfReserve 1, GfFetch 1]"
  have f: "fetchThroughGate 2 gate_usage_ex ?script = (?es, GoHanded 200 2)"
    by (simp add: fetchThroughGate_def gate_usage_ex_def beforeFetch_def attempt_ex_def responseOk_def
        retriable_def backoff_def holdSlot_def handedOff_def Let_def numeral_eq_Suc)
  obtain s effs where "foldl (settleStep True ''m'' 5 gate_usage_ex)
      (newSettle (kindOf gate_usage_ex) (GoHanded 200 2), []) [SvCancel, SvSettle None False] = (s, effs)"
    by fastforce
  from every_reservation_is_settled [OF f this] show ?thesis
    using f by (auto simp: handedOff_def settledBy_def)
qed

text \<open>
  A sandbox call whose report stays within the request settles at most its estimate, which is what
  the cap of the pool assumes.
\<close>

lemma sandbox_call_is_fair:
  assumes "actualCost True (rq_model rq) (Some r) = Some (Some x)"
    and "tokValue (tr_prompt r) = Some p" and "p \<le> inputTokens opts rq"
    and "tokValue (tr_completion r) = Some c" and "c \<le> outputTokens rq"
  shows "x \<le> requestEstimate True opts rq"
proof -
  have nz: "0 \<le> p" "0 \<le> c"
    using assms(1,2,4) by (auto simp: actualCost_def reportUsable_def split: tok.splits if_splits)
  obtain h where x: "x = sandboxCostOf (rq_model rq) p c h False * 1000"
    using assms(1,2,4) by (auto simp: actualCost_def split: option.splits if_splits)
  show ?thesis
    using sandbox_cost_le_estimate [OF nz(1) assms(3) nz(2) assms(5), of "rq_model rq" h 0]
    by (simp add: requestEstimate_def x)
qed

end
