(* ===== verification/Login.thy ===== *)
theory Login
  imports JsText
begin

text \<open>
  The limits on logging in (\<open>src/auth/session.ts\<close>): the bucket of an address, the counting
  windows whose entries are claimed before the password is checked and given back afterwards, and the
  frame of a login around its waits.
\<close>

section \<open>The bucket of an address\<close>

fun splitPair :: "jstext \<Rightarrow> jstext list" where
  "splitPair [] = [[]]"
| "splitPair [c] = [[c]]"
| "splitPair (c # d # cs) =
     (if c = 58 \<and> d = 58 then [] # splitPair cs
      else case splitPair (d # cs) of [] \<Rightarrow> [[c]] | p # ps \<Rightarrow> (c # p) # ps)"

definition isDigit :: "nat \<Rightarrow> bool" where
  "isDigit c \<longleftrightarrow> 48 \<le> c \<and> c \<le> 57"

text \<open>Addresses are ASCII; lower case is that of the letters A to Z.\<close>

definition lower :: "nat \<Rightarrow> nat" where
  "lower c = (if 65 \<le> c \<and> c \<le> 90 then c + 32 else c)"

definition dottedQuad :: "jstext \<Rightarrow> bool" where
  "dottedQuad s \<longleftrightarrow>
     (let parts = split_at 46 s in
      length parts = 4 \<and> list_all (\<lambda>p. 1 \<le> length p \<and> length p \<le> 3 \<and> list_all isDigit p) parts)"

definition mappedV4 :: "jstext \<Rightarrow> jstext option" where
  "mappedV4 ip =
     (if map lower (take 7 ip) = js ''::ffff:'' \<and> dottedQuad (drop 7 ip) then Some (drop 7 ip) else None)"

fun dropZeros :: "jstext \<Rightarrow> jstext" where
  "dropZeros (c # d # cs) = (if c = 48 then dropZeros (d # cs) else c # d # cs)"
| "dropZeros s = s"

fun joinColon :: "jstext list \<Rightarrow> jstext" where
  "joinColon [] = []"
| "joinColon [p] = p"
| "joinColon (p # q # ps) = p @ 58 # joinColon (q # ps)"

definition groupsOf :: "jstext \<Rightarrow> jstext list" where
  "groupsOf ip =
     (let parts = splitPair (map lower ip);
          head = hd parts;
          tail' = (case tl parts of [] \<Rightarrow> [] | p # _ \<Rightarrow> p);
          left = (if head = [] then [] else split_at 58 head);
          right = (if tail' = [] then [] else split_at 58 tail')
      in if 1 < length parts
         then left @ replicate (8 - length left - length right) [48] @ right
         else left)"

definition ipBucket :: "jstext option \<Rightarrow> jstext" where
  "ipBucket addr =
     (case addr of
        None \<Rightarrow> js ''unknown''
      | Some ip \<Rightarrow>
          if ip = [] then js ''unknown''
          else case mappedV4 ip of
                 Some v4 \<Rightarrow> v4
               | None \<Rightarrow>
                   if 58 \<notin> set ip then ip
                   else joinColon (map dropZeros (take 4 (groupsOf ip))) @ js ''::/64'')"

section \<open>A counting window\<close>

text \<open>An entry is an object: a claim is undone only on the very entry it was made on.\<close>

record win_entry =
  we_id :: nat
  we_start :: int
  we_count :: int

record window =
  wd_map :: "(jstext, win_entry) jsmap"
  wd_next :: nat

record claim =
  cl_key :: jstext
  cl_id :: nat
  cl_held :: bool

definition MAX_KEYS :: nat where
  "MAX_KEYS = 10000"

definition newWindow :: window where
  "newWindow = \<lparr>wd_map = [], wd_next = 0\<rparr>"

definition winEntry :: "int \<Rightarrow> jstext \<Rightarrow> int \<Rightarrow> window \<Rightarrow> window \<times> win_entry" where
  "winEntry windowMs key now w =
     (let old = jget (wd_map w) key;
          fresh = \<lparr>we_id = wd_next w, we_start = now, we_count = 0\<rparr>;
          e = (case old of None \<Rightarrow> fresh | Some e \<Rightarrow> if windowMs \<le> now - we_start e then fresh else e);
          m = jset (jdel (wd_map w) key) key e
      in (\<lparr>wd_map = (if MAX_KEYS < length m then tl m else m), wd_next = wd_next w + 1\<rparr>, e))"

definition countOn :: "jstext \<Rightarrow> win_entry \<Rightarrow> int \<Rightarrow> window \<Rightarrow> window" where
  "countOn key e d w = w\<lparr>wd_map := jset (wd_map w) key (e\<lparr>we_count := we_count e + d\<rparr>)\<rparr>"

definition hit :: "int \<Rightarrow> jstext \<Rightarrow> int \<Rightarrow> window \<Rightarrow> window \<times> int" where
  "hit windowMs key now w =
     (case winEntry windowMs key now w of (w', e) \<Rightarrow> (countOn key e 1 w', we_count e + 1))"

definition claimOne :: "int \<Rightarrow> jstext \<Rightarrow> int \<Rightarrow> window \<Rightarrow> window \<times> int \<times> claim" where
  "claimOne windowMs key now w =
     (case winEntry windowMs key now w of
        (w', e) \<Rightarrow>
          (countOn key e 1 w', we_count e + 1, \<lparr>cl_key = key, cl_id = we_id e, cl_held = True\<rparr>))"

definition undo :: "claim \<Rightarrow> window \<Rightarrow> window" where
  "undo c w =
     (case jget (wd_map w) (cl_key c) of
        None \<Rightarrow> w
      | Some e \<Rightarrow> if cl_held c \<and> we_id e = cl_id c then countOn (cl_key c) e (- 1) w else w)"

definition dropClaim :: "claim \<Rightarrow> claim" where
  "dropClaim c = c\<lparr>cl_held := False\<rparr>"

definition clearKey :: "jstext \<Rightarrow> window \<Rightarrow> window" where
  "clearKey key w = w\<lparr>wd_map := jdel (wd_map w) key\<rparr>"

text \<open>Claim a place and give it back at once when there is none: None.\<close>

definition claimUpTo :: "int \<Rightarrow> int \<Rightarrow> jstext \<Rightarrow> int \<Rightarrow> window \<Rightarrow> window \<times> claim option" where
  "claimUpTo windowMs limit key now w =
     (case claimOne windowMs key now w of
        (w', n, c) \<Rightarrow> if n \<le> limit then (w', Some c) else (undo c w', None))"

definition claimSessionLookup :: "jstext option \<Rightarrow> int \<Rightarrow> window \<Rightarrow> window \<times> claim option" where
  "claimSessionLookup ip now w = claimUpTo 60000 60 (ipBucket ip) now w"

section \<open>A login\<close>

record login_limits =
  ll_perIp :: window
  ll_pair :: window
  ll_email :: window

record login_try =
  lt_pair :: claim
  lt_byEmail :: claim
  lt_slow :: bool

definition PER_MIN :: int where
  "PER_MIN = 60000"

definition QUARTER :: int where
  "QUARTER = 900000"

definition pairKey :: "jstext \<Rightarrow> jstext \<Rightarrow> jstext" where
  "pairKey email ip = email @ 124 # ip"

text \<open>The part before the first wait; None is the rate limit error. The email is trimmed and lower-cased.\<close>

definition loginStart ::
    "jstext option \<Rightarrow> jstext \<Rightarrow> int \<Rightarrow> login_limits \<Rightarrow> login_limits \<times> login_try option" where
  "loginStart addr email now st =
     (let ip = ipBucket addr in
      case hit PER_MIN ip now (ll_perIp st) of
        (perIp, n) \<Rightarrow>
          if 10 < n then (st\<lparr>ll_perIp := perIp\<rparr>, None)
          else case claimUpTo QUARTER 5 (pairKey email ip) now (ll_pair st) of
                 (pair, None) \<Rightarrow> (st\<lparr>ll_perIp := perIp, ll_pair := pair\<rparr>, None)
               | (pair, Some c) \<Rightarrow>
                   (case claimOne QUARTER email now (ll_email st) of
                      (byEmail, m, d) \<Rightarrow>
                        (\<lparr>ll_perIp = perIp, ll_pair = pair, ll_email = byEmail\<rparr>,
                         Some \<lparr>lt_pair = c, lt_byEmail = d, lt_slow = 10 < m\<rparr>)))"

text \<open>
  The ends of a login: the password was wrong, it succeeded, it could not be checked, or a step after
  its success threw.
\<close>

datatype login_end = LeWrong | LeOk | LeError | LeOkError

definition loginUndo :: "login_try \<Rightarrow> login_limits \<Rightarrow> login_limits" where
  "loginUndo t st =
     st\<lparr>ll_pair := undo (lt_pair t) (ll_pair st), ll_email := undo (lt_byEmail t) (ll_email st)\<rparr>"

definition loginSuccess :: "login_try \<Rightarrow> login_limits \<Rightarrow> login_limits" where
  "loginSuccess t st =
     st\<lparr>ll_pair := clearKey (cl_key (lt_pair t)) (ll_pair st),
        ll_email := undo (lt_byEmail t) (ll_email st)\<rparr>"

text \<open>The error after a success is one turn later; the claim by email is no longer held then.\<close>

definition loginEnd :: "login_end \<Rightarrow> login_try \<Rightarrow> login_limits \<Rightarrow> login_limits" where
  "loginEnd r t st =
     (case r of
        LeWrong \<Rightarrow> st
      | LeOk \<Rightarrow> loginSuccess t st
      | LeError \<Rightarrow> loginUndo t st
      | LeOkError \<Rightarrow>
          (let st1 = loginSuccess t st in st1\<lparr>ll_pair := undo (lt_pair t) (ll_pair st1)\<rparr>))"

section \<open>Any number of logins at once\<close>

text \<open>A login that ended keeps its claim in the list; the claim is held while it counts.\<close>

record login_world =
  lw_limits :: login_limits
  lw_tries :: "(login_try \<times> bool) list"

datatype login_event =
    LvStart "jstext option" jstext int
  | LvEnd nat login_end

definition newLogins :: login_world where
  "newLogins =
     \<lparr>lw_limits = \<lparr>ll_perIp = newWindow, ll_pair = newWindow, ll_email = newWindow\<rparr>, lw_tries = []\<rparr>"

definition heldAfter :: "login_end \<Rightarrow> bool" where
  "heldAfter r \<longleftrightarrow> r = LeWrong"

definition markPair :: "bool \<Rightarrow> login_try \<Rightarrow> login_try" where
  "markPair held t = t\<lparr>lt_pair := (lt_pair t)\<lparr>cl_held := held\<rparr>\<rparr>"

fun loginStep :: "login_world \<Rightarrow> login_event \<Rightarrow> login_world" where
  "loginStep w (LvStart addr email now) =
     (case loginStart addr email now (lw_limits w) of
        (st, None) \<Rightarrow> w\<lparr>lw_limits := st\<rparr>
      | (st, Some t) \<Rightarrow> \<lparr>lw_limits = st, lw_tries = lw_tries w @ [(t, True)]\<rparr>)"
| "loginStep w (LvEnd i r) =
     (if i < length (lw_tries w) \<and> snd (lw_tries w ! i)
      then \<lparr>lw_limits = loginEnd r (fst (lw_tries w ! i)) (lw_limits w),
             lw_tries = (lw_tries w)[i := (markPair (heldAfter r) (fst (lw_tries w ! i)), False)]\<rparr>
      else w)"

definition held :: "claim list \<Rightarrow> jstext \<Rightarrow> nat \<Rightarrow> int" where
  "held cs key i = int (length (filter (\<lambda>c. cl_key c = key \<and> cl_id c = i \<and> cl_held c) cs))"

definition winInv :: "int \<Rightarrow> window \<Rightarrow> claim list \<Rightarrow> bool" where
  "winInv limit w cs \<longleftrightarrow>
     jwf (wd_map w) \<and>
     (\<forall>key e. jget (wd_map w) key = Some e \<longrightarrow>
        we_id e < wd_next w \<and> we_count e = held cs key (we_id e) \<and> held cs key (we_id e) \<le> limit) \<and>
     list_all (\<lambda>c. cl_id c < wd_next w) cs"

lemma winInv_cong:
  "winInv limit w cs \<Longrightarrow> jwf (wd_map v) \<Longrightarrow> (\<And>k. jget (wd_map v) k = jget (wd_map w) k) \<Longrightarrow>
   wd_next v = wd_next w \<Longrightarrow> winInv limit v cs"
  by (simp add: winInv_def)

lemma winInv_less:
  "winInv limit w cs \<Longrightarrow> jwf (wd_map v) \<Longrightarrow>
   (\<And>k e. jget (wd_map v) k = Some e \<Longrightarrow> jget (wd_map w) k = Some e) \<Longrightarrow>
   wd_next w \<le> wd_next v \<Longrightarrow> winInv limit v cs"
  by (fastforce simp: winInv_def list_all_iff)

lemma jset_absent: "jget m k = None \<Longrightarrow> jset m k v = m @ [(k, v)]"
  by (induction m k v rule: jset.induct) (auto split: if_splits)

lemma tl_snoc:
  assumes "jwf (m @ [(k, v)])" and "m \<noteq> []"
  shows "jwf (tl (m @ [(k, v)]))"
    and "jget (tl (m @ [(k, v)])) k = Some v"
    and "jget (tl (m @ [(k, v)])) k' = Some e \<Longrightarrow> jget (m @ [(k, v)]) k' = Some e"
  using assms by (cases m; force simp: jwf_def jkeys_def jget_map_of map_of_append map_add_def
      dest: map_of_SomeD split: option.splits)+

lemma winEntry_inv:
  assumes inv: "winInv limit w cs" and l: "0 \<le> limit" and e: "winEntry windowMs key now w = (w', e)"
  shows "winInv limit w' cs \<and> jget (wd_map w') key = Some e"
proof -
  define m where "m = jdel (wd_map w) key"
  have wf: "jwf (wd_map w)" "jwf m" and abs: "jget m key = None"
    using inv by (simp_all add: winInv_def m_def)
  have mset: "jset m key e = m @ [(key, e)]" by (rule jset_absent [OF abs])
  have wf': "jwf (m @ [(key, e)])" using jwf_jset [OF wf(2), of key e] mset by simp
  have w': "w' = \<lparr>wd_map = (if MAX_KEYS < length (m @ [(key, e)]) then tl (m @ [(key, e)]) else m @ [(key, e)]),
      wd_next = wd_next w + 1\<rparr>"
    and er: "e = \<lparr>we_id = wd_next w, we_start = now, we_count = 0\<rparr> \<or> jget (wd_map w) key = Some e"
    using e mset by (auto simp: winEntry_def m_def Let_def split: option.splits if_splits)
  let ?v = "\<lparr>wd_map = m @ [(key, e)], wd_next = wd_next w + 1\<rparr>"
  have none: "held cs key (wd_next w) = 0"
    using inv by (auto simp: winInv_def held_def list_all_iff filter_empty_conv)
  have get: "jget (m @ [(key, e)]) k = (if k = key then Some e else jget (wd_map w) k)" for k
    unfolding mset [symmetric] using wf by (simp add: m_def)
  have v: "winInv limit ?v cs"
    using inv er none l wf' get by (fastforce simp: winInv_def list_all_iff)
  show ?thesis
  proof (cases "MAX_KEYS < length (m @ [(key, e)])")
    case True
    then have "m \<noteq> []" by (auto simp: MAX_KEYS_def)
    from tl_snoc [OF wf' this] True show ?thesis
      using winInv_less [OF v, of w'] by (simp add: w')
  next
    case False
    then show ?thesis using v get by (simp add: w')
  qed
qed

lemma held_snoc: "held (cs @ [c]) key i = held cs key i + (if cl_key c = key \<and> cl_id c = i \<and> cl_held c then 1 else 0)"
  by (simp add: held_def)

lemma winInv_D:
  "winInv limit w cs \<Longrightarrow> jget (wd_map w) key = Some e \<Longrightarrow>
   we_id e < wd_next w \<and> we_count e = held cs key (we_id e) \<and> we_count e \<le> limit"
  by (simp add: winInv_def)

lemma claimUpTo_inv:
  assumes inv: "winInv limit w cs" and l: "0 \<le> limit"
    and c: "claimUpTo windowMs limit key now w = (w', r)"
  shows "case r of None \<Rightarrow> winInv limit w' cs
    | Some c \<Rightarrow> winInv limit w' (cs @ [c]) \<and> cl_held c \<and> cl_key c = key"
proof -
  obtain v e where v: "winEntry windowMs key now w = (v, e)" by fastforce
  have vi: "winInv limit v cs" and ve: "jget (wd_map v) key = Some e"
    using winEntry_inv [OF inv l v] by simp_all
  have wf: "jwf (wd_map v)" using vi by (simp add: winInv_def)
  note D = winInv_D [OF vi ve]
  show ?thesis
  proof (cases "we_count e + 1 \<le> limit")
    case True
    then have r: "r = Some \<lparr>cl_key = key, cl_id = we_id e, cl_held = True\<rparr>" "w' = countOn key e 1 v"
      using c by (simp_all add: claimUpTo_def claimOne_def v)
    have "winInv limit (countOn key e 1 v) (cs @ [\<lparr>cl_key = key, cl_id = we_id e, cl_held = True\<rparr>])"
      using vi D True wf by (auto simp: winInv_def countOn_def held_snoc)
    then show ?thesis by (simp add: r)
  next
    case False
    then have r: "r = None" "w' = undo \<lparr>cl_key = key, cl_id = we_id e, cl_held = True\<rparr> (countOn key e 1 v)"
      using c by (simp_all add: claimUpTo_def claimOne_def v)
    have "winInv limit w' cs"
      using wf ve by (intro winInv_cong [OF vi]) (simp_all add: r undo_def countOn_def)
    then show ?thesis by (simp add: r)
  qed
qed

lemma held_update:
  assumes "i < length cs" and "cl_key c = cl_key (cs ! i)" and "cl_id c = cl_id (cs ! i)"
  shows "held (cs[i := c]) key j = held cs key j -
     (if cl_key (cs ! i) = key \<and> cl_id (cs ! i) = j \<and> cl_held (cs ! i) then 1 else 0) +
     (if cl_key (cs ! i) = key \<and> cl_id (cs ! i) = j \<and> cl_held c then 1 else 0)"
proof -
  have "held cs key j = held (take i cs @ cs ! i # drop (Suc i) cs) key j"
    using id_take_nth_drop [OF assms(1)] by simp
  moreover have "held (cs[i := c]) key j = held (take i cs @ c # drop (Suc i) cs) key j"
    using upd_conv_take_nth_drop [OF assms(1), of c] by simp
  ultimately show ?thesis using assms(2,3) by (auto simp: held_def)
qed

lemma dropped_all:
  "i < length cs \<Longrightarrow> cl_id c = cl_id (cs ! i) \<Longrightarrow> list_all (\<lambda>c. cl_id c < n) cs \<Longrightarrow>
   list_all (\<lambda>c. cl_id c < n) (cs[i := c])"
  by (auto simp: list_all_length nth_list_update)

text \<open>Giving a held claim back, and dropping one whose entry is gone.\<close>

lemma gone_inv:
  assumes inv: "winInv limit w cs" and i: "i < length cs"
    and gone: "\<And>e. jget (wd_map w) (cl_key (cs ! i)) = Some e \<Longrightarrow> we_id e \<noteq> cl_id (cs ! i)"
  shows "winInv limit w (cs[i := dropClaim (cs ! i)])"
proof -
  have "held (cs[i := dropClaim (cs ! i)]) k (we_id e) = held cs k (we_id e)"
    if "jget (wd_map w) k = Some e" for k e
    using held_update [OF i, of "dropClaim (cs ! i)" k "we_id e"] gone that by (auto simp: dropClaim_def)
  then show ?thesis
    using inv dropped_all [OF i, of "dropClaim (cs ! i)"] by (simp add: winInv_def dropClaim_def)
qed

lemma undo_inv:
  assumes inv: "winInv limit w cs" and i: "i < length cs" and h: "cl_held (cs ! i)"
  shows "winInv limit (undo (cs ! i) w) (cs[i := dropClaim (cs ! i)])"
proof (cases "\<exists>e. jget (wd_map w) (cl_key (cs ! i)) = Some e \<and> we_id e = cl_id (cs ! i)")
  case True
  then obtain e where e: "jget (wd_map w) (cl_key (cs ! i)) = Some e" "we_id e = cl_id (cs ! i)" by blast
  have u: "undo (cs ! i) w = countOn (cl_key (cs ! i)) e (- 1) w" using e h by (simp add: undo_def)
  note D = winInv_D [OF inv e(1)]
  have wf: "jwf (wd_map w)" using inv by (simp add: winInv_def)
  have other: "held (cs[i := dropClaim (cs ! i)]) k n = held cs k n" if "k \<noteq> cl_key (cs ! i)" for k n
    using held_update [OF i, of "dropClaim (cs ! i)" k n] that by (simp add: dropClaim_def)
  have mine: "held (cs[i := dropClaim (cs ! i)]) (cl_key (cs ! i)) (we_id e) =
      held cs (cl_key (cs ! i)) (we_id e) - 1"
    using held_update [OF i, of "dropClaim (cs ! i)" "cl_key (cs ! i)" "we_id e"] e h by (simp add: dropClaim_def)
  show ?thesis
    using inv wf D other mine dropped_all [OF i, of "dropClaim (cs ! i)"]
    by (simp add: u winInv_def countOn_def dropClaim_def)
next
  case False
  then have "undo (cs ! i) w = w" by (auto simp: undo_def split: option.split)
  then show ?thesis using gone_inv [OF inv i] False by auto
qed

lemma clearKey_inv: "winInv limit w cs \<Longrightarrow> winInv limit (clearKey key w) cs"
  by (rule winInv_less) (auto simp: clearKey_def winInv_def split: if_splits)

lemma clearKey_gone: "jwf (wd_map w) \<Longrightarrow> jget (wd_map (clearKey key w)) key = None"
  by (simp add: clearKey_def)

lemma undo_gone: "jget (wd_map w) (cl_key c) = None \<Longrightarrow> undo c w = w"
  by (simp add: undo_def)

subsection \<open>The logins\<close>

definition pairs :: "login_world \<Rightarrow> claim list" where
  "pairs w = map (\<lambda>t. lt_pair (fst t)) (lw_tries w)"

definition loginInv :: "login_world \<Rightarrow> bool" where
  "loginInv w \<longleftrightarrow>
     winInv 5 (ll_pair (lw_limits w)) (pairs w) \<and>
     list_all (\<lambda>t. snd t \<longrightarrow> cl_held (lt_pair (fst t))) (lw_tries w)"

lemma loginStart_pair:
  assumes st: "loginStart addr email now st = (st', r)" and inv: "winInv 5 (ll_pair st) cs"
  shows "case r of None \<Rightarrow> winInv 5 (ll_pair st') cs
    | Some t \<Rightarrow> winInv 5 (ll_pair st') (cs @ [lt_pair t]) \<and> cl_held (lt_pair t)"
proof -
  obtain perIp n where h: "hit PER_MIN (ipBucket addr) now (ll_perIp st) = (perIp, n)" by fastforce
  obtain pair c where c: "claimUpTo QUARTER 5 (pairKey email (ipBucket addr)) now (ll_pair st) = (pair, c)"
    by fastforce
  obtain em m d where d: "claimOne QUARTER email now (ll_email st) = (em, m, d)" by (metis prod_cases3)
  show ?thesis
    using claimUpTo_inv [OF inv _ c] st inv
    by (cases c) (auto simp: loginStart_def h c d Let_def split: if_splits)
qed

lemma loginStart_inv:
  assumes inv: "loginInv w"
  shows "loginInv (loginStep w (LvStart addr email now))"
proof -
  obtain st r where s: "loginStart addr email now (lw_limits w) = (st, r)" by fastforce
  have "winInv 5 (ll_pair (lw_limits w)) (pairs w)" using inv by (simp add: loginInv_def)
  from loginStart_pair [OF s this] show ?thesis
    using inv by (cases r) (simp_all add: s loginInv_def pairs_def)
qed

lemma loginEnd_pair:
  assumes inv: "winInv 5 (ll_pair st) cs" and i: "i < length cs" "cs ! i = lt_pair t" and h: "cl_held (lt_pair t)"
  shows "winInv 5 (ll_pair (loginEnd r t st)) (cs[i := (lt_pair t)\<lparr>cl_held := heldAfter r\<rparr>])"
proof -
  have drop: "(lt_pair t)\<lparr>cl_held := False\<rparr> = dropClaim (cs ! i)" using i by (simp add: dropClaim_def)
  have same: "cs[i := (lt_pair t)\<lparr>cl_held := True\<rparr>] = cs"
  proof -
    have "(lt_pair t)\<lparr>cl_held := True\<rparr> = cs ! i" using h i by (cases "lt_pair t") simp
    then show ?thesis by simp
  qed
  have wf: "jwf (wd_map (ll_pair st))" using inv by (simp add: winInv_def)
  have clr: "winInv 5 (clearKey (cl_key (lt_pair t)) (ll_pair st)) (cs[i := dropClaim (cs ! i)])"
    using gone_inv [OF clearKey_inv [OF inv, of "cl_key (lt_pair t)"] i(1)] clearKey_gone [OF wf] i(2) by simp
  have und: "winInv 5 (undo (lt_pair t) (ll_pair st)) (cs[i := dropClaim (cs ! i)])"
    using undo_inv [OF inv i(1)] h i(2) by simp
  show ?thesis
    using inv same drop clr und undo_gone [OF clearKey_gone [OF wf], of "lt_pair t"]
    by (cases r) (simp_all add: loginEnd_def heldAfter_def loginSuccess_def loginUndo_def Let_def)
qed

lemma loginEnd_inv:
  assumes inv: "loginInv w"
  shows "loginInv (loginStep w (LvEnd i r))"
proof (cases "i < length (lw_tries w) \<and> snd (lw_tries w ! i)")
  case True
  let ?t = "fst (lw_tries w ! i)"
  have h: "cl_held (lt_pair ?t)" using inv True by (auto simp: loginInv_def list_all_length)
  have "winInv 5 (ll_pair (loginEnd r ?t (lw_limits w))) ((pairs w)[i := (lt_pair ?t)\<lparr>cl_held := heldAfter r\<rparr>])"
    using inv True h by (intro loginEnd_pair) (auto simp: loginInv_def pairs_def)
  moreover have "list_all (\<lambda>t. snd t \<longrightarrow> cl_held (lt_pair (fst t)))
      ((lw_tries w)[i := (markPair (heldAfter r) ?t, False)])"
    using inv True by (auto simp: loginInv_def list_all_length nth_list_update)
  ultimately show ?thesis
    using True by (simp add: loginInv_def pairs_def map_update markPair_def)
qed (use inv in \<open>auto simp: loginInv_def\<close>)

interpretation logins: machine loginStep loginInv
proof
  show "loginInv w \<Longrightarrow> loginInv (loginStep w ev)" for w ev
    by (cases ev) (simp_all only: loginStart_inv loginEnd_inv)
qed

text \<open>The logins that run or failed and count on the entry a pair has now.\<close>

definition failedOrRunning :: "login_world \<Rightarrow> jstext \<Rightarrow> jstext \<Rightarrow> nat" where
  "failedOrRunning w email ip =
     (case jget (wd_map (ll_pair (lw_limits w))) (pairKey email ip) of
        None \<Rightarrow> 0
      | Some e \<Rightarrow> length (filter (\<lambda>c. cl_key c = pairKey email ip \<and> cl_id c = we_id e \<and> cl_held c) (pairs w)))"

text \<open>
  Of any number of logins at once, at most five of a window of an email and an address are being
  checked or have failed, however they overlap and end: the place is taken before the password is
  checked, and only a login that succeeded or could not be checked gives it back.
\<close>

theorem failed_logins_bounded:
  "failedOrRunning (foldl loginStep newLogins evs) email ip \<le> 5"
proof -
  have "loginInv newLogins"
    by (simp add: loginInv_def newLogins_def pairs_def winInv_def newWindow_def)
  from logins.run_inv [OF this, of evs]
  have inv: "winInv 5 (ll_pair (lw_limits (foldl loginStep newLogins evs))) (pairs (foldl loginStep newLogins evs))"
    by (simp add: loginInv_def)
  show ?thesis
    using winInv_D [OF inv, of "pairKey email ip"]
    by (auto simp: failedOrRunning_def held_def split: option.split)
qed

end
