(* ===== verification/Accounts.thy ===== *)
theory Accounts
  imports Login
begin

text \<open>
  Accounts, memberships and sessions of the console: the database functions
  (\<open>src/db/repo/auth.ts\<close> with \<open>drizzle/0001_rls_auth.sql\<close>), password hashes
  (\<open>src/auth/password.ts\<close>), the platform's commands (\<open>src/auth/accounts.ts\<close>) and the login
  (\<open>src/auth/session.ts\<close>) cut at its waits, so that a change of the password, a disabled account
  or a removed member can come between any two of its steps.
\<close>

section \<open>Password hashes\<close>

text \<open>
  A stored hash with its parameters, or a text that is none. The key derivation is Node's
  \<open>scrypt\<close>, a parameter: password, salt, logN, r and p give the key.
\<close>

datatype pw_stored = PwBad jstext | PwHash nat nat nat jstext jstext

type_synonym derive = "jstext \<Rightarrow> jstext \<Rightarrow> nat \<Rightarrow> nat \<Rightarrow> nat \<Rightarrow> jstext"

definition CURRENT :: "nat \<times> nat \<times> nat" where
  "CURRENT = (17, 8, 1)"

text \<open>Whether the password is right, and whether the hash should be renewed.\<close>

fun verifyPassword :: "derive \<Rightarrow> jstext \<Rightarrow> pw_stored \<Rightarrow> bool \<times> bool" where
  "verifyPassword derive plain (PwBad s) = (False, False)"
| "verifyPassword derive plain (PwHash logN r p salt key) =
     (derive plain salt logN r p = key, (logN, r, p) \<noteq> CURRENT)"

definition hashPassword :: "derive \<Rightarrow> jstext \<Rightarrow> jstext \<Rightarrow> pw_stored" where
  "hashPassword derive salt plain =
     (case CURRENT of (logN, r, p) \<Rightarrow> PwHash logN r p salt (derive plain salt logN r p))"

definition right :: "derive \<Rightarrow> jstext \<Rightarrow> pw_stored \<Rightarrow> bool" where
  "right derive plain h = fst (verifyPassword derive plain h)"

text \<open>No two passwords give the same key: what the code relies on.\<close>

definition collision_free :: "derive \<Rightarrow> bool" where
  "collision_free derive \<longleftrightarrow>
     (\<forall>p q salt logN r m. derive p salt logN r m = derive q salt logN r m \<longrightarrow> p = q)"

lemma right_hashed: "right derive plain (hashPassword derive salt plain)"
  by (simp add: right_def hashPassword_def CURRENT_def)

lemma right_unique: "collision_free derive \<Longrightarrow> right derive p h \<Longrightarrow> right derive q h \<Longrightarrow> p = q"
  by (cases h) (fastforce simp: right_def collision_free_def)+

section \<open>The tables\<close>

datatype role = RoleOwner | RoleAdmin | RoleSupervisor | RoleAgent | RoleViewer

record user_row =
  ur_id :: nat
  ur_email :: jstext
  ur_name :: jstext
  ur_hash :: pw_stored
  ur_disabled :: bool

record auth_session =
  as_token :: nat
  as_tenant :: nat
  as_user :: nat
  as_seen :: int
  as_expires :: int

record auth_db =
  ad_users :: "user_row list"
  ad_members :: "((nat \<times> nat) \<times> role) list"
  ad_sessions :: "auth_session list"
  ad_suspended :: "nat list"

record found =
  fd_user :: nat
  fd_hash :: pw_stored
  fd_role :: role
  fd_name :: jstext

definition IDLE_MS :: int where
  "IDLE_MS = 12 * 3600000"

definition ABSOLUTE_MS :: int where
  "ABSOLUTE_MS = 7 * 24 * 3600000"

definition sameEmail :: "jstext \<Rightarrow> jstext \<Rightarrow> bool" where
  "sameEmail a b \<longleftrightarrow> map lower a = map lower b"

definition readMembership :: "nat \<Rightarrow> nat \<Rightarrow> auth_db \<Rightarrow> role option" where
  "readMembership tenant u db = jget (ad_members db) (tenant, u)"

definition userById :: "nat \<Rightarrow> auth_db \<Rightarrow> user_row option" where
  "userById u db = find (\<lambda>r. ur_id r = u) (ad_users db)"

definition authLoginLookup :: "nat \<Rightarrow> jstext \<Rightarrow> auth_db \<Rightarrow> found option" where
  "authLoginLookup tenant email db =
     (if tenant \<in> set (ad_suspended db) then None
      else case find (\<lambda>u. sameEmail (ur_email u) email \<and> \<not> ur_disabled u \<and>
                    readMembership tenant (ur_id u) db \<noteq> None) (ad_users db) of
             None \<Rightarrow> None
           | Some u \<Rightarrow>
               Some \<lparr>fd_user = ur_id u, fd_hash = ur_hash u, fd_role = the (readMembership tenant (ur_id u) db),
                     fd_name = ur_name u\<rparr>)"

definition authSessionCreate :: "nat \<Rightarrow> nat \<Rightarrow> nat \<Rightarrow> int \<Rightarrow> auth_db \<Rightarrow> auth_db" where
  "authSessionCreate tenant token u now db =
     db\<lparr>ad_sessions :=
       filter (\<lambda>s. \<not> (as_user s = u \<and> (as_expires s < now \<or> as_seen s < now - IDLE_MS))) (ad_sessions db) @
       [\<lparr>as_token = token, as_tenant = tenant, as_user = u, as_seen = now, as_expires = now + ABSOLUTE_MS\<rparr>]\<rparr>"

definition authSessionDelete :: "nat \<Rightarrow> auth_db \<Rightarrow> auth_db" where
  "authSessionDelete token db = db\<lparr>ad_sessions := filter (\<lambda>s. as_token s \<noteq> token) (ad_sessions db)\<rparr>"

definition sessionUser :: "nat \<Rightarrow> auth_session \<Rightarrow> auth_db \<Rightarrow> found option" where
  "sessionUser tenant s db =
     (if tenant \<in> set (ad_suspended db) then None
      else case userById (as_user s) db of
             None \<Rightarrow> None
           | Some u \<Rightarrow>
               if ur_disabled u then None
               else case readMembership tenant (ur_id u) db of
                      None \<Rightarrow> None
                    | Some role \<Rightarrow>
                        Some \<lparr>fd_user = ur_id u, fd_hash = ur_hash u, fd_role = role, fd_name = ur_name u\<rparr>)"

definition authSessionTouch :: "nat \<Rightarrow> nat \<Rightarrow> int \<Rightarrow> auth_db \<Rightarrow> auth_db \<times> found option" where
  "authSessionTouch tenant token now db =
     (case find (\<lambda>s. as_token s = token) (ad_sessions db) of
        None \<Rightarrow> (db, None)
      | Some s \<Rightarrow>
          if as_tenant s \<noteq> tenant then (db, None)
          else if IDLE_MS < now - as_seen s \<or> as_expires s < now then (authSessionDelete token db, None)
          else case sessionUser tenant s db of
                 None \<Rightarrow> (db, None)
               | Some f \<Rightarrow>
                   (if 60000 < now - as_seen s
                    then db\<lparr>ad_sessions := update_where (\<lambda>r. as_token r = token) (\<lambda>r. r\<lparr>as_seen := now\<rparr>) (ad_sessions db)\<rparr>
                    else db, Some f))"

definition authPasswordRehash :: "nat \<Rightarrow> nat \<Rightarrow> pw_stored \<Rightarrow> pw_stored \<Rightarrow> auth_db \<Rightarrow> auth_db" where
  "authPasswordRehash tenant u old new db =
     db\<lparr>ad_users :=
       update_where (\<lambda>r. ur_id r = u \<and> ur_hash r = old \<and> \<not> ur_disabled r \<and> readMembership tenant u db \<noteq> None)
         (\<lambda>r. r\<lparr>ur_hash := new\<rparr>) (ad_users db)\<rparr>"

definition findUserByEmail :: "jstext \<Rightarrow> auth_db \<Rightarrow> user_row option" where
  "findUserByEmail email db = find (\<lambda>u. sameEmail (ur_email u) email) (ad_users db)"

text \<open>An insert of an email or an id that exists fails on the unique index.\<close>

definition insertUser :: "user_row \<Rightarrow> auth_db \<Rightarrow> auth_db option" where
  "insertUser u db =
     (if list_ex (\<lambda>r. ur_id r = ur_id u \<or> sameEmail (ur_email r) (ur_email u)) (ad_users db) then None
      else Some (db\<lparr>ad_users := ad_users db @ [u]\<rparr>))"

definition setUserPassword :: "nat \<Rightarrow> pw_stored \<Rightarrow> auth_db \<Rightarrow> auth_db" where
  "setUserPassword u h db =
     db\<lparr>ad_users := update_where (\<lambda>r. ur_id r = u) (\<lambda>r. r\<lparr>ur_hash := h\<rparr>) (ad_users db)\<rparr>"

definition disableUser :: "nat \<Rightarrow> auth_db \<Rightarrow> auth_db" where
  "disableUser u db =
     db\<lparr>ad_users := update_where (\<lambda>r. ur_id r = u) (\<lambda>r. r\<lparr>ur_disabled := True\<rparr>) (ad_users db)\<rparr>"

definition revoked :: "nat \<Rightarrow> nat option \<Rightarrow> auth_session \<Rightarrow> bool" where
  "revoked u tenant s \<longleftrightarrow> as_user s = u \<and> (case tenant of None \<Rightarrow> True | Some t \<Rightarrow> as_tenant s = t)"

definition deleteSessionsOfUser :: "nat \<Rightarrow> nat option \<Rightarrow> auth_db \<Rightarrow> auth_db \<times> nat" where
  "deleteSessionsOfUser u tenant db =
     (db\<lparr>ad_sessions := filter (\<lambda>s. \<not> revoked u tenant s) (ad_sessions db)\<rparr>,
      length (filter (revoked u tenant) (ad_sessions db)))"

definition upsertMembership :: "nat \<Rightarrow> nat \<Rightarrow> role \<Rightarrow> auth_db \<Rightarrow> auth_db" where
  "upsertMembership tenant u role db = db\<lparr>ad_members := jset (ad_members db) (tenant, u) role\<rparr>"

definition deleteMembership :: "nat \<Rightarrow> nat \<Rightarrow> auth_db \<Rightarrow> auth_db" where
  "deleteMembership tenant u db = db\<lparr>ad_members := jdel (ad_members db) (tenant, u)\<rparr>"

section \<open>The commands of the platform\<close>

datatype account_result = ArNoTenant | ArNoUser | ArNotMember | ArShort | ArSame role | ArOther role | ArThrown | ArDone nat

text \<open>The exit code of a command.\<close>

fun resultCode :: "account_result \<Rightarrow> nat" where
  "resultCode (ArSame _) = 0"
| "resultCode (ArDone _) = 0"
| "resultCode (ArOther _) = 2"
| "resultCode _ = 1"

definition MIN_PASSWORD_LENGTH :: nat where
  "MIN_PASSWORD_LENGTH = 10"

definition member :: "nat \<Rightarrow> jstext \<Rightarrow> auth_db \<Rightarrow> account_result + user_row \<times> role" where
  "member tenant email db =
     (case findUserByEmail email db of
        None \<Rightarrow> Inl ArNoUser
      | Some u \<Rightarrow>
          (case readMembership tenant (ur_id u) db of
             None \<Rightarrow> Inl ArNotMember
           | Some role \<Rightarrow> Inr (u, role)))"

text \<open>The tenant is looked up first; the new id and salt come from outside.\<close>

definition addMember :: "nat \<Rightarrow> user_row \<Rightarrow> role \<Rightarrow> auth_db \<Rightarrow> auth_db \<times> account_result" where
  "addMember tenant u role db =
     (case readMembership tenant (ur_id u) db of
        Some existing \<Rightarrow> (db, if existing = role then ArSame existing else ArOther existing)
      | None \<Rightarrow> (upsertMembership tenant (ur_id u) role db, ArDone 0))"

definition createUser ::
    "derive \<Rightarrow> nat option \<Rightarrow> jstext \<Rightarrow> jstext \<Rightarrow> role \<Rightarrow> jstext \<Rightarrow> nat \<Rightarrow> jstext \<Rightarrow> auth_db \<Rightarrow>
     auth_db \<times> account_result" where
  "createUser derive tenant email name role password newId salt db =
     (case tenant of
        None \<Rightarrow> (db, ArNoTenant)
      | Some t \<Rightarrow>
          (case findUserByEmail email db of
             Some u \<Rightarrow> addMember t u role db
           | None \<Rightarrow>
               if length password < MIN_PASSWORD_LENGTH then (db, ArShort)
               else let u = \<lparr>ur_id = newId, ur_email = trim email, ur_name = name,
                             ur_hash = hashPassword derive salt password, ur_disabled = False\<rparr>
                    in case insertUser u db of
                         None \<Rightarrow> (db, ArThrown)
                       | Some db' \<Rightarrow> addMember t u role db'))"

definition setPassword ::
    "derive \<Rightarrow> nat option \<Rightarrow> jstext \<Rightarrow> jstext \<Rightarrow> jstext \<Rightarrow> auth_db \<Rightarrow> auth_db \<times> account_result" where
  "setPassword derive tenant email password salt db =
     (case tenant of
        None \<Rightarrow> (db, ArNoTenant)
      | Some t \<Rightarrow>
          (case member t email db of
             Inl e \<Rightarrow> (db, e)
           | Inr (u, _) \<Rightarrow>
               if length password < MIN_PASSWORD_LENGTH then (db, ArShort)
               else case deleteSessionsOfUser (ur_id u) None
                           (setUserPassword (ur_id u) (hashPassword derive salt password) db) of
                      (db', n) \<Rightarrow> (db', ArDone n)))"

definition disableAccount :: "nat option \<Rightarrow> jstext \<Rightarrow> auth_db \<Rightarrow> auth_db \<times> account_result" where
  "disableAccount tenant email db =
     (case tenant of
        None \<Rightarrow> (db, ArNoTenant)
      | Some t \<Rightarrow>
          (case member t email db of
             Inl e \<Rightarrow> (db, e)
           | Inr (u, _) \<Rightarrow>
               (case deleteSessionsOfUser (ur_id u) None (if ur_disabled u then db else disableUser (ur_id u) db) of
                  (db', n) \<Rightarrow> (db', ArDone n))))"

definition setRole :: "nat option \<Rightarrow> jstext \<Rightarrow> role \<Rightarrow> auth_db \<Rightarrow> auth_db \<times> account_result" where
  "setRole tenant email role db =
     (case tenant of
        None \<Rightarrow> (db, ArNoTenant)
      | Some t \<Rightarrow>
          (case member t email db of
             Inl e \<Rightarrow> (db, e)
           | Inr (u, old) \<Rightarrow>
               if old = role then (db, ArSame old)
               else (upsertMembership t (ur_id u) role db, ArDone 0)))"

definition removeMember :: "nat option \<Rightarrow> jstext \<Rightarrow> auth_db \<Rightarrow> auth_db \<times> account_result" where
  "removeMember tenant email db =
     (case tenant of
        None \<Rightarrow> (db, ArNoTenant)
      | Some t \<Rightarrow>
          (case member t email db of
             Inl e \<Rightarrow> (db, e)
           | Inr (u, _) \<Rightarrow>
               (case deleteSessionsOfUser (ur_id u) (Some t) (deleteMembership t (ur_id u) db) of
                  (db', n) \<Rightarrow> (db', ArDone n))))"

section \<open>Logins while accounts change\<close>

text \<open>
  A login after its first lookup and check: what it was given and what it found, its session, and where
  it is. A login that was rejected by the first check is over and not kept.
\<close>

datatype login_phase = LpVerified | LpCreated | LpMustDelete | LpDone | LpRejected

record login_thread =
  th_tenant :: nat
  th_email :: jstext
  th_plain :: jstext
  th_found :: found
  th_token :: nat
  th_phase :: login_phase
  th_rehash :: "pw_stored option"

text \<open>The sessions still to be deleted by commands that have changed an account already.\<close>

record auth_world =
  aw_db :: auth_db
  aw_logins :: "login_thread list"
  aw_revoking :: "(nat \<times> nat option) list"

datatype auth_event =
    AvLookup nat jstext jstext
  | AvCreate nat nat int
  | AvRecheck nat
  | AvDelete nat
  | AvRehash nat jstext
  | AvTouch nat nat int
  | AvLogout nat
  | AvSetPassword nat pw_stored
  | AvDisable nat
  | AvRemove nat nat
  | AvRevoke nat
  | AvJoin nat nat role
  | AvInsert user_row

definition loginLookup :: "derive \<Rightarrow> nat \<Rightarrow> jstext \<Rightarrow> jstext \<Rightarrow> auth_db \<Rightarrow> login_thread option" where
  "loginLookup derive tenant email plain db =
     (case authLoginLookup tenant email db of
        None \<Rightarrow> None
      | Some f \<Rightarrow>
          (case verifyPassword derive plain (fd_hash f) of
             (ok, needsRehash) \<Rightarrow>
               if \<not> ok then None
               else Some \<lparr>th_tenant = tenant, th_email = email, th_plain = plain, th_found = f, th_token = 0,
                          th_phase = LpVerified, th_rehash = (if needsRehash then Some (fd_hash f) else None)\<rparr>))"

text \<open>The second lookup, after the session exists.\<close>

definition loginRecheck :: "derive \<Rightarrow> auth_db \<Rightarrow> login_thread \<Rightarrow> login_thread" where
  "loginRecheck derive db t =
     (let current = authLoginLookup (th_tenant t) (th_email t) db in
      if map_option fd_hash current = Some (fd_hash (th_found t)) then t\<lparr>th_phase := LpDone\<rparr>
      else case current of
             None \<Rightarrow> t\<lparr>th_phase := LpMustDelete\<rparr>
           | Some f \<Rightarrow>
               (case verifyPassword derive (th_plain t) (fd_hash f) of
                  (ok, needsRehash) \<Rightarrow>
                    if ok then t\<lparr>th_phase := LpDone, th_rehash := (if needsRehash then Some (fd_hash f) else None)\<rparr>
                    else t\<lparr>th_phase := LpMustDelete\<rparr>))"

definition loginIs :: "auth_world \<Rightarrow> nat \<Rightarrow> login_phase \<Rightarrow> bool" where
  "loginIs w i ph \<longleftrightarrow> i < length (aw_logins w) \<and> th_phase (aw_logins w ! i) = ph"

definition putLogin :: "nat \<Rightarrow> login_thread \<Rightarrow> auth_world \<Rightarrow> auth_world" where
  "putLogin i t w = w\<lparr>aw_logins := (aw_logins w)[i := t]\<rparr>"

definition onDb :: "(auth_db \<Rightarrow> auth_db) \<Rightarrow> auth_world \<Rightarrow> auth_world" where
  "onDb f w = w\<lparr>aw_db := f (aw_db w)\<rparr>"

text \<open>Session tokens are 32 random bytes: a token is never drawn twice.\<close>

definition freshToken :: "nat \<Rightarrow> auth_world \<Rightarrow> bool" where
  "freshToken token w \<longleftrightarrow>
     token \<notin> set (map as_token (ad_sessions (aw_db w))) \<and>
     (\<forall>t \<in> set (aw_logins w). th_phase t \<noteq> LpVerified \<longrightarrow> th_token t \<noteq> token)"

fun authStep :: "derive \<Rightarrow> auth_world \<Rightarrow> auth_event \<Rightarrow> auth_world" where
  "authStep derive w (AvLookup tenant email plain) =
     (case loginLookup derive tenant email plain (aw_db w) of
        None \<Rightarrow> w
      | Some t \<Rightarrow> w\<lparr>aw_logins := aw_logins w @ [t]\<rparr>)"
| "authStep derive w (AvCreate i token now) =
     (if loginIs w i LpVerified \<and> freshToken token w
      then let t = aw_logins w ! i in
        onDb (authSessionCreate (th_tenant t) token (fd_user (th_found t)) now)
          (putLogin i (t\<lparr>th_token := token, th_phase := LpCreated\<rparr>) w)
      else w)"
| "authStep derive w (AvRecheck i) =
     (if loginIs w i LpCreated then putLogin i (loginRecheck derive (aw_db w) (aw_logins w ! i)) w else w)"
| "authStep derive w (AvDelete i) =
     (if loginIs w i LpMustDelete
      then onDb (authSessionDelete (th_token (aw_logins w ! i)))
             (putLogin i ((aw_logins w ! i)\<lparr>th_phase := LpRejected\<rparr>) w)
      else w)"
| "authStep derive w (AvRehash i salt) =
     (if loginIs w i LpDone
      then let t = aw_logins w ! i in
        case th_rehash t of
          None \<Rightarrow> w
        | Some old \<Rightarrow>
            onDb (authPasswordRehash (th_tenant t) (fd_user (th_found t)) old
                    (hashPassword derive salt (th_plain t)))
              (putLogin i (t\<lparr>th_rehash := None\<rparr>) w)
      else w)"
| "authStep derive w (AvTouch tenant token now) = onDb (\<lambda>db. fst (authSessionTouch tenant token now db)) w"
| "authStep derive w (AvLogout token) = onDb (authSessionDelete token) w"
| "authStep derive w (AvSetPassword u h) =
     (onDb (setUserPassword u h) w)\<lparr>aw_revoking := aw_revoking w @ [(u, None)]\<rparr>"
| "authStep derive w (AvDisable u) =
     (onDb (disableUser u) w)\<lparr>aw_revoking := aw_revoking w @ [(u, None)]\<rparr>"
| "authStep derive w (AvRemove tenant u) =
     (onDb (deleteMembership tenant u) w)\<lparr>aw_revoking := aw_revoking w @ [(u, Some tenant)]\<rparr>"
| "authStep derive w (AvRevoke k) =
     (if k < length (aw_revoking w)
      then (onDb (\<lambda>db. fst (deleteSessionsOfUser (fst (aw_revoking w ! k)) (snd (aw_revoking w ! k)) db)) w)
             \<lparr>aw_revoking := take k (aw_revoking w) @ drop (Suc k) (aw_revoking w)\<rparr>
      else w)"
| "authStep derive w (AvJoin tenant u role) = onDb (upsertMembership tenant u role) w"
| "authStep derive w (AvInsert u) = onDb (\<lambda>db. case insertUser u db of None \<Rightarrow> db | Some db' \<Rightarrow> db') w"

subsection \<open>What holds of every session\<close>

text \<open>The password is the account's, the account is enabled, and it is a member.\<close>

definition goodSession :: "derive \<Rightarrow> jstext \<Rightarrow> nat \<Rightarrow> nat \<Rightarrow> auth_db \<Rightarrow> bool" where
  "goodSession derive plain tenant u db \<longleftrightarrow>
     (case userById u db of None \<Rightarrow> False | Some r \<Rightarrow> right derive plain (ur_hash r) \<and> \<not> ur_disabled r) \<and>
     readMembership tenant u db \<noteq> None"

definition pending :: "auth_world \<Rightarrow> auth_session \<Rightarrow> bool" where
  "pending w s \<longleftrightarrow> list_ex (\<lambda>(u, tenant). revoked u tenant s) (aw_revoking w)"

text \<open>Every session is of a login that had its password checked; once it is done, the session is good.\<close>

definition liveFor :: "auth_session \<Rightarrow> login_thread \<Rightarrow> bool" where
  "liveFor s t \<longleftrightarrow>
     th_token t = as_token s \<and> th_phase t \<noteq> LpVerified \<and> th_phase t \<noteq> LpRejected \<and>
     th_tenant t = as_tenant s \<and> fd_user (th_found t) = as_user s"

definition doneOk :: "derive \<Rightarrow> auth_world \<Rightarrow> auth_session \<Rightarrow> login_thread \<Rightarrow> bool" where
  "doneOk derive w s t \<longleftrightarrow>
     (th_phase t = LpDone \<longrightarrow> goodSession derive (th_plain t) (as_tenant s) (as_user s) (aw_db w) \<or> pending w s)"

definition sessionOk :: "derive \<Rightarrow> auth_world \<Rightarrow> auth_session \<Rightarrow> bool" where
  "sessionOk derive w s \<longleftrightarrow> list_ex (\<lambda>t. liveFor s t \<and> doneOk derive w s t) (aw_logins w)"

definition threadOk :: "derive \<Rightarrow> user_row list \<Rightarrow> login_thread \<Rightarrow> bool" where
  "threadOk derive us t \<longleftrightarrow>
     right derive (th_plain t) (fd_hash (th_found t)) \<and>
     (\<forall>h. th_rehash t = Some h \<longrightarrow> right derive (th_plain t) h) \<and>
     list_ex (\<lambda>r. ur_id r = fd_user (th_found t) \<and> sameEmail (ur_email r) (th_email t)) us"

definition authInv :: "derive \<Rightarrow> auth_world \<Rightarrow> bool" where
  "authInv derive w \<longleftrightarrow>
     distinct (map ur_id (ad_users (aw_db w))) \<and> jwf (ad_members (aw_db w)) \<and>
     distinct (map (\<lambda>r. map lower (ur_email r)) (ad_users (aw_db w))) \<and>
     list_all (threadOk derive (ad_users (aw_db w))) (aw_logins w) \<and>
     list_all (sessionOk derive w) (ad_sessions (aw_db w))"

lemma sessionOk_mono:
  assumes "sessionOk derive w s"
    and "as_token s' = as_token s" "as_tenant s' = as_tenant s" "as_user s' = as_user s"
    and "\<And>t. t \<in> set (aw_logins w) \<Longrightarrow> liveFor s t \<Longrightarrow> doneOk derive w s t \<Longrightarrow>
      \<exists>t' \<in> set (aw_logins w'). liveFor s t' \<and> doneOk derive w' s t'"
  shows "sessionOk derive w' s'"
proof -
  obtain t' where t': "t' \<in> set (aw_logins w')" "liveFor s t'" "doneOk derive w' s t'"
    using assms(1,5) by (auto simp: sessionOk_def list_ex_iff)
  have "revoked u tenant s' = revoked u tenant s" for u tenant
    using assms(3,4) by (cases tenant) (simp_all add: revoked_def)
  then have "pending w' s' = pending w' s" by (simp add: pending_def)
  then have "liveFor s' t' \<and> doneOk derive w' s' t'"
    using t'(2,3) assms(2-4) by (simp add: liveFor_def doneOk_def)
  then show ?thesis using t'(1) by (auto simp: sessionOk_def list_ex_iff)
qed

text \<open>A step that leaves the logins as they are.\<close>

lemma sessionOk_same:
  assumes "sessionOk derive w s" and "aw_logins w' = aw_logins w"
    and "\<And>p. goodSession derive p (as_tenant s) (as_user s) (aw_db w) \<Longrightarrow>
      goodSession derive p (as_tenant s) (as_user s) (aw_db w') \<or> pending w' s"
    and "pending w s \<Longrightarrow> pending w' s"
  shows "sessionOk derive w' s"
  using assms by (intro sessionOk_mono [OF assms(1)]) (auto simp: doneOk_def)

lemma find_update_where:
  "(\<And>r. ur_id (f r) = ur_id r) \<Longrightarrow>
   find (\<lambda>r. ur_id r = u) (update_where P f rs) =
   map_option (\<lambda>r. if P r then f r else r) (find (\<lambda>r. ur_id r = u) rs)"
  by (induction rs) (auto simp: update_where_def)

lemma userById_id: "userById u db = Some r \<Longrightarrow> ur_id r = u \<and> r \<in> set (ad_users db)"
  by (auto simp: userById_def find_Some_iff)

lemma userById_mem:
  "distinct (map ur_id (ad_users db)) \<Longrightarrow> r \<in> set (ad_users db) \<Longrightarrow> userById (ur_id r) db = Some r"
proof -
  have "distinct (map ur_id rs) \<Longrightarrow> r \<in> set rs \<Longrightarrow> find (\<lambda>q. ur_id q = ur_id r) rs = Some r" for rs
    by (induction rs) auto
  then show "distinct (map ur_id (ad_users db)) \<Longrightarrow> r \<in> set (ad_users db) \<Longrightarrow> userById (ur_id r) db = Some r"
    by (simp add: userById_def)
qed

lemma map_keep_where:
  "(\<And>r. g (f r) = g r) \<Longrightarrow> map g (update_where P f rs) = map g rs"
  by (induction rs) (auto simp: update_where_def)

lemma threadOk_where:
  assumes "\<And>r. ur_id (f r) = ur_id r" and "\<And>r. ur_email (f r) = ur_email r"
  shows "threadOk derive (update_where P f us) t = threadOk derive us t"
proof -
  have "list_ex (\<lambda>r. ur_id r = u \<and> sameEmail (ur_email r) e) (update_where P f us) =
      list_ex (\<lambda>r. ur_id r = u \<and> sameEmail (ur_email r) e) us" for u e
    using assms by (induction us) (auto simp: update_where_def)
  then show ?thesis by (simp add: threadOk_def)
qed

subsection \<open>The steps\<close>

lemma goodSession_setPassword: "goodSession derive p t v db \<Longrightarrow> v \<noteq> u \<Longrightarrow> goodSession derive p t v (setUserPassword u h db)"
  by (auto simp: goodSession_def setUserPassword_def userById_def find_update_where readMembership_def
      dest!: find_Some_iff [THEN iffD1] split: option.splits)

lemma goodSession_disable: "goodSession derive p t v db \<Longrightarrow> v \<noteq> u \<Longrightarrow> goodSession derive p t v (disableUser u db)"
  by (auto simp: goodSession_def disableUser_def userById_def find_update_where readMembership_def
      dest!: find_Some_iff [THEN iffD1] split: option.splits)

lemma goodSession_rehash:
  assumes cf: "collision_free derive" and old: "right derive q old" and g: "goodSession derive p t v db"
  shows "goodSession derive p t v (authPasswordRehash tenant u old (hashPassword derive salt q) db)"
proof -
  obtain r where r: "find (\<lambda>r. ur_id r = v) (ad_users db) = Some r" "right derive p (ur_hash r)" "\<not> ur_disabled r"
    using g by (auto simp: goodSession_def userById_def split: option.splits)
  have "ur_hash r = old \<Longrightarrow> p = q" using right_unique [OF cf r(2)] old by simp
  then show ?thesis
    using g r right_hashed [of derive q salt]
    by (auto simp: goodSession_def authPasswordRehash_def userById_def find_update_where readMembership_def)
qed

lemma find_SomeD: "find P xs = Some x \<Longrightarrow> x \<in> set xs \<and> P x"
  by (induction xs) (auto split: if_splits)

lemma authLoginLookup_user:
  assumes "authLoginLookup tenant email db = Some f"
  shows "\<exists>u \<in> set (ad_users db). sameEmail (ur_email u) email \<and> \<not> ur_disabled u \<and>
    readMembership tenant (ur_id u) db \<noteq> None \<and> fd_hash f = ur_hash u \<and> fd_user f = ur_id u"
  using assms by (auto simp: authLoginLookup_def dest!: find_SomeD split: if_splits option.splits)

lemma authLoginLookup_good:
  assumes inv: "authInv derive w" and t: "t \<in> set (aw_logins w)"
    and l: "authLoginLookup (th_tenant t) (th_email t) (aw_db w) = Some f"
    and r: "right derive p (fd_hash f)"
  shows "goodSession derive p (th_tenant t) (fd_user (th_found t)) (aw_db w)"
proof -
  obtain u where u: "u \<in> set (ad_users (aw_db w))" "sameEmail (ur_email u) (th_email t)" "\<not> ur_disabled u"
      "readMembership (th_tenant t) (ur_id u) (aw_db w) \<noteq> None" "fd_hash f = ur_hash u"
    using authLoginLookup_user [OF l] by blast
  obtain v where v: "v \<in> set (ad_users (aw_db w))" "ur_id v = fd_user (th_found t)" "sameEmail (ur_email v) (th_email t)"
    using inv t by (auto simp: authInv_def list_all_iff threadOk_def list_ex_iff)
  have "inj_on (\<lambda>r. map lower (ur_email r)) (set (ad_users (aw_db w)))"
    using inv by (simp add: authInv_def distinct_map)
  moreover have "map lower (ur_email u) = map lower (ur_email v)" using u(2) v(3) by (simp add: sameEmail_def)
  ultimately have "u = v" using u(1) v(1) by (auto dest: inj_onD)
  then show ?thesis
    using userById_mem [of "aw_db w" v] inv u v r by (auto simp: authInv_def goodSession_def)
qed

lemma loginLookup_ok:
  assumes inv: "authInv derive w" and l: "loginLookup derive tenant email plain (aw_db w) = Some t"
  shows "threadOk derive (ad_users (aw_db w)) t \<and> th_phase t = LpVerified"
proof -
  obtain f where f: "authLoginLookup tenant email (aw_db w) = Some f" "right derive plain (fd_hash f)"
      and t: "th_found t = f" "th_plain t = plain" "th_email t = email" "th_phase t = LpVerified"
        "\<forall>h. th_rehash t = Some h \<longrightarrow> h = fd_hash f"
    using l by (auto simp: loginLookup_def right_def split: option.splits prod.splits if_splits)
  have "list_ex (\<lambda>r. ur_id r = fd_user f \<and> sameEmail (ur_email r) email) (ad_users (aw_db w))"
    using authLoginLookup_user [OF f(1)] by (auto simp: list_ex_iff)
  then show ?thesis using f t by (auto simp: threadOk_def)
qed

text \<open>The events of a login, one by one.\<close>

lemma authInv_threads:
  "authInv derive w \<Longrightarrow> i < length (aw_logins w) \<Longrightarrow> threadOk derive (ad_users (aw_db w)) (aw_logins w ! i)"
  by (simp add: authInv_def list_all_length)

lemma list_all_update: "list_all P xs \<Longrightarrow> P y \<Longrightarrow> list_all P (xs[i := y])"
  using set_update_subset_insert [of xs i y] by (auto simp: list_all_iff)

text \<open>Replacing one login: every session whose login it was must accept the new one.\<close>

lemma sessionOk_put:
  assumes ok: "sessionOk derive w s"
    and same: "\<And>t. t \<in> set (aw_logins w) \<Longrightarrow> liveFor s t \<Longrightarrow> doneOk derive w s t \<Longrightarrow> doneOk derive w' s t"
    and logins: "aw_logins w' = (aw_logins w)[i := t']"
    and mine: "liveFor s (aw_logins w ! i) \<Longrightarrow> doneOk derive w s (aw_logins w ! i) \<Longrightarrow> liveFor s t' \<and> doneOk derive w' s t'"
  shows "sessionOk derive w' s"
proof (rule sessionOk_mono [OF ok refl refl refl])
  fix t
  assume t: "t \<in> set (aw_logins w)" "liveFor s t" "doneOk derive w s t"
  then obtain j where j: "j < length (aw_logins w)" "t = aw_logins w ! j" by (auto simp: in_set_conv_nth)
  show "\<exists>t' \<in> set (aw_logins w'). liveFor s t' \<and> doneOk derive w' s t'"
  proof (cases "j = i")
    case True
    then have "t' \<in> set (aw_logins w')" using j logins by (simp add: set_update_memI)
    then show ?thesis using mine t(2,3) j True by blast
  next
    case False
    then have "t \<in> set (aw_logins w')" using j logins by (metis length_list_update nth_list_update_neq nth_mem)
    then show ?thesis using same [OF t] t(2) by blast
  qed
qed

lemma authInv_lookup:
  assumes inv: "authInv derive w" and l: "loginLookup derive tenant email plain (aw_db w) = Some t"
  shows "authInv derive (w\<lparr>aw_logins := aw_logins w @ [t]\<rparr>)"
proof -
  have "sessionOk derive (w\<lparr>aw_logins := aw_logins w @ [t]\<rparr>) s" if "sessionOk derive w s" for s
    by (rule sessionOk_mono [OF that]) (auto simp: doneOk_def pending_def)
  then show ?thesis
    using inv loginLookup_ok [OF inv l] by (auto simp: authInv_def list_all_iff)
qed

lemma authInv_create:
  assumes inv: "authInv derive w" and i: "loginIs w i LpVerified"
  shows "authInv derive (onDb (authSessionCreate (th_tenant (aw_logins w ! i)) token
      (fd_user (th_found (aw_logins w ! i))) now)
    (putLogin i ((aw_logins w ! i)\<lparr>th_token := token, th_phase := LpCreated\<rparr>) w))" (is "authInv derive ?w")
proof -
  let ?t = "aw_logins w ! i"
  let ?t' = "?t\<lparr>th_token := token, th_phase := LpCreated\<rparr>"
  have il: "i < length (aw_logins w)" "th_phase ?t = LpVerified" using i by (simp_all add: loginIs_def)
  have old: "sessionOk derive ?w s" if "sessionOk derive w s" for s
    using il
    by (intro sessionOk_put [OF that, of ?w i ?t'])
      (auto simp: putLogin_def onDb_def doneOk_def pending_def goodSession_def userById_def readMembership_def
        authSessionCreate_def liveFor_def)
  have "?t' \<in> set (aw_logins ?w)" using il by (simp add: putLogin_def onDb_def set_update_memI)
  then have new: "sessionOk derive ?w \<lparr>as_token = token, as_tenant = th_tenant ?t,
      as_user = fd_user (th_found ?t), as_seen = now, as_expires = now + ABSOLUTE_MS\<rparr>"
    by (auto simp: sessionOk_def list_ex_iff liveFor_def doneOk_def intro!: bexI [of _ ?t'])
  have "threadOk derive (ad_users (aw_db w)) ?t'"
    using authInv_threads [OF inv il(1)] by (simp add: threadOk_def)
  then show ?thesis
    using inv old new
    by (auto simp: authInv_def putLogin_def onDb_def authSessionCreate_def list_all_update)
      (auto simp: list_all_iff)
qed

lemma authInv_recheck:
  assumes inv: "authInv derive w" and i: "loginIs w i LpCreated"
  shows "authInv derive (putLogin i (loginRecheck derive (aw_db w) (aw_logins w ! i)) w)" (is "authInv derive ?w")
proof -
  let ?t = "aw_logins w ! i"
  let ?t' = "loginRecheck derive (aw_db w) ?t"
  have il: "i < length (aw_logins w)" "th_phase ?t = LpCreated" using i by (simp_all add: loginIs_def)
  have mem: "?t \<in> set (aw_logins w)" using il by simp
  have ok: "threadOk derive (ad_users (aw_db w)) ?t" by (rule authInv_threads [OF inv il(1)])
  have same: "th_token ?t' = th_token ?t" "th_tenant ?t' = th_tenant ?t" "th_found ?t' = th_found ?t"
      "th_plain ?t' = th_plain ?t" "th_email ?t' = th_email ?t" "th_phase ?t' \<in> {LpDone, LpMustDelete}"
    by (auto simp: loginRecheck_def Let_def split: option.split prod.split)
  have done': "goodSession derive (th_plain ?t) (th_tenant ?t) (fd_user (th_found ?t)) (aw_db w)" if d: "th_phase ?t' = LpDone"
  proof -
    obtain f where f: "authLoginLookup (th_tenant ?t) (th_email ?t) (aw_db w) = Some f"
      using d by (cases "authLoginLookup (th_tenant ?t) (th_email ?t) (aw_db w)") (simp_all add: loginRecheck_def)
    have "right derive (th_plain ?t) (fd_hash f)"
      using d f ok by (simp add: loginRecheck_def threadOk_def right_def split: prod.splits if_splits)
    then show ?thesis using authLoginLookup_good [OF inv mem f] by blast
  qed
  have rehash: "right derive (th_plain ?t) h" if "th_rehash ?t' = Some h" for h
    using that ok by (auto simp: loginRecheck_def threadOk_def right_def Let_def
        split: option.splits prod.splits if_splits)
  have "sessionOk derive ?w s" if "sessionOk derive w s" for s
    using il same done'
    by (intro sessionOk_put [OF that, of ?w i ?t'])
      (auto simp: putLogin_def doneOk_def pending_def liveFor_def)
  moreover have "threadOk derive (ad_users (aw_db w)) ?t'"
    using ok same rehash by (simp add: threadOk_def)
  ultimately show ?thesis
    using inv by (auto simp: authInv_def putLogin_def list_all_update) (auto simp: list_all_iff)
qed

lemma authInv_delete:
  assumes inv: "authInv derive w" and i: "loginIs w i LpMustDelete"
  shows "authInv derive (onDb (authSessionDelete (th_token (aw_logins w ! i)))
    (putLogin i ((aw_logins w ! i)\<lparr>th_phase := LpRejected\<rparr>) w))" (is "authInv derive ?w")
proof -
  let ?t = "aw_logins w ! i"
  have il: "i < length (aw_logins w)" using i by (simp add: loginIs_def)
  have "sessionOk derive ?w s" if "sessionOk derive w s" "as_token s \<noteq> th_token ?t" for s
    using that(2)
    by (intro sessionOk_put [OF that(1), of ?w i "?t\<lparr>th_phase := LpRejected\<rparr>"])
      (auto simp: putLogin_def onDb_def doneOk_def pending_def goodSession_def userById_def readMembership_def
        authSessionDelete_def liveFor_def)
  moreover have "threadOk derive (ad_users (aw_db w)) (?t\<lparr>th_phase := LpRejected\<rparr>)"
    using authInv_threads [OF inv il] by (simp add: threadOk_def)
  ultimately show ?thesis
    using inv by (auto simp: authInv_def putLogin_def onDb_def authSessionDelete_def list_all_update)
      (auto simp: list_all_iff)
qed

lemma authInv_rehash:
  assumes cf: "collision_free derive" and inv: "authInv derive w" and i: "loginIs w i LpDone"
    and old: "th_rehash (aw_logins w ! i) = Some old"
  shows "authInv derive (onDb (authPasswordRehash (th_tenant (aw_logins w ! i))
      (fd_user (th_found (aw_logins w ! i))) old (hashPassword derive salt (th_plain (aw_logins w ! i))))
    (putLogin i ((aw_logins w ! i)\<lparr>th_rehash := None\<rparr>) w))" (is "authInv derive ?w")
proof -
  let ?t = "aw_logins w ! i"
  have il: "i < length (aw_logins w)" using i by (simp add: loginIs_def)
  have ok: "threadOk derive (ad_users (aw_db w)) ?t" by (rule authInv_threads [OF inv il])
  have r: "right derive (th_plain ?t) old" using ok old by (simp add: threadOk_def)
  have g: "goodSession derive p t v (aw_db w) \<Longrightarrow> goodSession derive p t v (aw_db ?w)" for p t v
    using goodSession_rehash [OF cf r] by (simp add: onDb_def putLogin_def)
  have sess: "sessionOk derive ?w s" if "sessionOk derive w s" for s
    using g
    by (intro sessionOk_put [OF that, of ?w i "?t\<lparr>th_rehash := None\<rparr>"])
      (auto simp: putLogin_def onDb_def doneOk_def pending_def liveFor_def)
  have th: "threadOk derive (ad_users (aw_db ?w)) t = threadOk derive (ad_users (aw_db w)) t" for t
    by (simp add: onDb_def putLogin_def authPasswordRehash_def threadOk_where)
  have "threadOk derive (ad_users (aw_db w)) (?t\<lparr>th_rehash := None\<rparr>)" using ok by (simp add: threadOk_def)
  then show ?thesis
    using inv sess th
    by (auto simp: authInv_def putLogin_def onDb_def authPasswordRehash_def map_keep_where intro!: list_all_update)
      (auto simp: list_all_iff)
qed

text \<open>A step on the tables alone: it may add work to revoke, drop sessions and move their last use.\<close>

lemma authInv_tables:
  assumes inv: "authInv derive w" and logins: "aw_logins w' = aw_logins w"
    and users: "map ur_id (ad_users (aw_db w')) = map ur_id (ad_users (aw_db w))"
      "map ur_email (ad_users (aw_db w')) = map ur_email (ad_users (aw_db w))"
    and members: "jwf (ad_members (aw_db w'))"
    and sess: "\<And>s'. s' \<in> set (ad_sessions (aw_db w')) \<Longrightarrow> \<exists>s \<in> set (ad_sessions (aw_db w)).
      as_token s' = as_token s \<and> as_tenant s' = as_tenant s \<and> as_user s' = as_user s \<and>
      (\<forall>p. goodSession derive p (as_tenant s) (as_user s) (aw_db w) \<longrightarrow>
         goodSession derive p (as_tenant s) (as_user s) (aw_db w') \<or> pending w' s) \<and>
      (pending w s \<longrightarrow> pending w' s)"
  shows "authInv derive w'"
proof -
  have "map (\<lambda>r. (ur_id r, ur_email r)) (ad_users (aw_db w')) = map (\<lambda>r. (ur_id r, ur_email r)) (ad_users (aw_db w))"
    using users by (simp add: list_eq_iff_nth_eq)
  then have pairs: "(\<lambda>r. (ur_id r, ur_email r)) ` set (ad_users (aw_db w')) = (\<lambda>r. (ur_id r, ur_email r)) ` set (ad_users (aw_db w))"
    by (metis list.set_map)
  have "threadOk derive (ad_users (aw_db w')) t = threadOk derive (ad_users (aw_db w)) t" for t
  proof -
    have ex: "list_ex (\<lambda>r. ur_id r = u \<and> sameEmail (ur_email r) e) us \<longleftrightarrow>
        (\<exists>x \<in> (\<lambda>r. (ur_id r, ur_email r)) ` set us. fst x = u \<and> sameEmail (snd x) e)" for us u e
      by (auto simp: list_ex_iff)
    show ?thesis by (simp only: threadOk_def ex pairs)
  qed
  moreover have "map (\<lambda>r. map lower (ur_email r)) (ad_users (aw_db w')) =
      map (\<lambda>r. map lower (ur_email r)) (ad_users (aw_db w))"
    using arg_cong [OF users(2), of "map (map lower)"] by (simp add: comp_def)
  moreover have "sessionOk derive w' s'" if s': "s' \<in> set (ad_sessions (aw_db w'))" for s'
  proof -
    obtain s where s: "s \<in> set (ad_sessions (aw_db w))" "as_token s' = as_token s" "as_tenant s' = as_tenant s"
        "as_user s' = as_user s" "pending w s \<Longrightarrow> pending w' s"
        "\<And>p. goodSession derive p (as_tenant s) (as_user s) (aw_db w) \<Longrightarrow>
         goodSession derive p (as_tenant s) (as_user s) (aw_db w') \<or> pending w' s"
      using sess [OF s'] by blast
    have "sessionOk derive w s" using inv s(1) by (simp add: authInv_def list_all_iff)
    then show ?thesis
      using s by (intro sessionOk_mono [OF _ s(2-4)]) (auto simp: doneOk_def logins)
  qed
  ultimately show ?thesis using inv users(1) members by (simp add: authInv_def list_all_iff logins)
qed

lemma authInv_setPassword:
  assumes inv: "authInv derive w"
  shows "authInv derive (authStep derive w (AvSetPassword u h))"
proof (rule authInv_tables [OF inv])
  let ?w = "authStep derive w (AvSetPassword u h)"
  fix s' assume "s' \<in> set (ad_sessions (aw_db ?w))"
  moreover have "pending ?w s" if "as_user s = u" for s using that by (simp add: pending_def revoked_def)
  ultimately show "\<exists>s \<in> set (ad_sessions (aw_db w)). as_token s' = as_token s \<and> as_tenant s' = as_tenant s \<and>
      as_user s' = as_user s \<and> (\<forall>p. goodSession derive p (as_tenant s) (as_user s) (aw_db w) \<longrightarrow>
         goodSession derive p (as_tenant s) (as_user s) (aw_db ?w) \<or> pending ?w s) \<and> (pending w s \<longrightarrow> pending ?w s)"
    using goodSession_setPassword [of derive _ "as_tenant s'" "as_user s'" "aw_db w" u h]
    by (intro bexI [of _ s']) (auto simp: onDb_def setUserPassword_def pending_def)
qed (use inv in \<open>simp_all add: onDb_def setUserPassword_def map_keep_where authInv_def\<close>)

lemma authInv_disable:
  assumes inv: "authInv derive w"
  shows "authInv derive (authStep derive w (AvDisable u))"
proof (rule authInv_tables [OF inv])
  let ?w = "authStep derive w (AvDisable u)"
  fix s' assume "s' \<in> set (ad_sessions (aw_db ?w))"
  moreover have "pending ?w s" if "as_user s = u" for s using that by (simp add: pending_def revoked_def)
  ultimately show "\<exists>s \<in> set (ad_sessions (aw_db w)). as_token s' = as_token s \<and> as_tenant s' = as_tenant s \<and>
      as_user s' = as_user s \<and> (\<forall>p. goodSession derive p (as_tenant s) (as_user s) (aw_db w) \<longrightarrow>
         goodSession derive p (as_tenant s) (as_user s) (aw_db ?w) \<or> pending ?w s) \<and> (pending w s \<longrightarrow> pending ?w s)"
    using goodSession_disable [of derive _ "as_tenant s'" "as_user s'" "aw_db w" u]
    by (intro bexI [of _ s']) (auto simp: onDb_def disableUser_def pending_def)
qed (use inv in \<open>simp_all add: onDb_def disableUser_def map_keep_where authInv_def\<close>)

lemma goodSession_remove:
  "jwf (ad_members db) \<Longrightarrow> goodSession derive p t v db \<Longrightarrow> (t, v) \<noteq> (tenant, u) \<Longrightarrow>
   goodSession derive p t v (deleteMembership tenant u db)"
  by (simp add: goodSession_def deleteMembership_def userById_def readMembership_def)

lemma authInv_remove:
  assumes inv: "authInv derive w"
  shows "authInv derive (authStep derive w (AvRemove tenant u))"
proof (rule authInv_tables [OF inv])
  let ?w = "authStep derive w (AvRemove tenant u)"
  fix s' assume "s' \<in> set (ad_sessions (aw_db ?w))"
  moreover have "pending ?w s" if "as_user s = u" "as_tenant s = tenant" for s
    using that by (simp add: pending_def revoked_def)
  ultimately show "\<exists>s \<in> set (ad_sessions (aw_db w)). as_token s' = as_token s \<and> as_tenant s' = as_tenant s \<and>
      as_user s' = as_user s \<and> (\<forall>p. goodSession derive p (as_tenant s) (as_user s) (aw_db w) \<longrightarrow>
         goodSession derive p (as_tenant s) (as_user s) (aw_db ?w) \<or> pending ?w s) \<and> (pending w s \<longrightarrow> pending ?w s)"
    using goodSession_remove [of "aw_db w" derive _ "as_tenant s'" "as_user s'" tenant u] inv
    by (intro bexI [of _ s']) (auto simp: onDb_def deleteMembership_def pending_def authInv_def)
qed (use inv in \<open>simp_all add: onDb_def deleteMembership_def authInv_def\<close>)

lemma list_ex_remove:
  "k < length xs \<Longrightarrow> list_ex P xs \<Longrightarrow> P (xs ! k) \<or> list_ex P (take k xs @ drop (Suc k) xs)"
  by (subst (asm) id_take_nth_drop [of k xs]) auto

lemma authInv_revoke:
  assumes inv: "authInv derive w"
  shows "authInv derive (authStep derive w (AvRevoke k))"
proof (cases "k < length (aw_revoking w)")
  case True
  let ?w = "authStep derive w (AvRevoke k)"
  let ?r = "aw_revoking w ! k"
  show ?thesis
  proof (rule authInv_tables [OF inv])
    fix s' assume s': "s' \<in> set (ad_sessions (aw_db ?w))"
    then have m: "s' \<in> set (ad_sessions (aw_db w))" "\<not> revoked (fst ?r) (snd ?r) s'"
      using True by (auto simp: onDb_def deleteSessionsOfUser_def)
    have "pending ?w s'" if "pending w s'"
      using list_ex_remove [OF True, of "\<lambda>(u, tenant). revoked u tenant s'"] that m(2) True
      by (auto simp: pending_def case_prod_beta)
    moreover have "goodSession derive p t v (aw_db ?w) = goodSession derive p t v (aw_db w)" for p t v
      using True by (simp add: onDb_def deleteSessionsOfUser_def goodSession_def userById_def readMembership_def)
    ultimately show "\<exists>s \<in> set (ad_sessions (aw_db w)). as_token s' = as_token s \<and> as_tenant s' = as_tenant s \<and>
        as_user s' = as_user s \<and> (\<forall>p. goodSession derive p (as_tenant s) (as_user s) (aw_db w) \<longrightarrow>
           goodSession derive p (as_tenant s) (as_user s) (aw_db ?w) \<or> pending ?w s) \<and> (pending w s \<longrightarrow> pending ?w s)"
      using m(1) by (intro bexI [of _ s']) auto
  qed (use inv True in \<open>simp_all add: onDb_def deleteSessionsOfUser_def authInv_def\<close>)
qed (use inv in simp)

text \<open>Steps that keep the accounts and only touch or drop sessions.\<close>

lemma authInv_sessions:
  assumes inv: "authInv derive w"
    and f: "ad_users (f (aw_db w)) = ad_users (aw_db w)" "ad_members (f (aw_db w)) = ad_members (aw_db w)"
    and sub: "\<And>s'. s' \<in> set (ad_sessions (f (aw_db w))) \<Longrightarrow> \<exists>s \<in> set (ad_sessions (aw_db w)).
      as_token s' = as_token s \<and> as_tenant s' = as_tenant s \<and> as_user s' = as_user s"
  shows "authInv derive (onDb f w)"
proof (rule authInv_tables [OF inv])
  fix s' assume "s' \<in> set (ad_sessions (aw_db (onDb f w)))"
  then obtain s where s: "s \<in> set (ad_sessions (aw_db w))" "as_token s' = as_token s" "as_tenant s' = as_tenant s"
      "as_user s' = as_user s"
    using sub by (auto simp: onDb_def)
  moreover have "goodSession derive p t v (aw_db (onDb f w)) = goodSession derive p t v (aw_db w)" for p t v
    using f by (simp add: onDb_def goodSession_def userById_def readMembership_def)
  ultimately show "\<exists>s \<in> set (ad_sessions (aw_db w)). as_token s' = as_token s \<and> as_tenant s' = as_tenant s \<and>
      as_user s' = as_user s \<and> (\<forall>p. goodSession derive p (as_tenant s) (as_user s) (aw_db w) \<longrightarrow>
         goodSession derive p (as_tenant s) (as_user s) (aw_db (onDb f w)) \<or> pending (onDb f w) s) \<and>
      (pending w s \<longrightarrow> pending (onDb f w) s)"
    by (intro bexI [of _ s]) (auto simp: pending_def onDb_def)
qed (use inv f in \<open>simp_all add: onDb_def authInv_def\<close>)

lemma authInv_logout: "authInv derive w \<Longrightarrow> authInv derive (onDb (authSessionDelete token) w)"
  by (rule authInv_sessions) (auto simp: authSessionDelete_def)

lemma authInv_touch:
  assumes inv: "authInv derive w"
  shows "authInv derive (onDb (\<lambda>db. fst (authSessionTouch tenant token now db)) w)"
proof -
  have sub: "s' \<in> set (ad_sessions (fst (authSessionTouch tenant token now db))) \<Longrightarrow>
      \<exists>s \<in> set (ad_sessions db). as_token s' = as_token s \<and> as_tenant s' = as_tenant s \<and> as_user s' = as_user s"
    for s' and db
    by (auto simp: authSessionTouch_def authSessionDelete_def update_where_def split: option.splits if_splits)
  have same: "ad_users (fst (authSessionTouch tenant token now db)) = ad_users db \<and>
      ad_members (fst (authSessionTouch tenant token now db)) = ad_members db" for db
    by (simp add: authSessionTouch_def authSessionDelete_def split: option.split)
  show ?thesis by (rule authInv_sessions [OF inv]) (simp_all add: same sub)
qed

lemma authInv_join:
  assumes inv: "authInv derive w"
  shows "authInv derive (onDb (upsertMembership tenant u role) w)"
proof (rule authInv_tables [OF inv])
  fix s' assume "s' \<in> set (ad_sessions (aw_db (onDb (upsertMembership tenant u role) w)))"
  then show "\<exists>s \<in> set (ad_sessions (aw_db w)). as_token s' = as_token s \<and> as_tenant s' = as_tenant s \<and>
      as_user s' = as_user s \<and> (\<forall>p. goodSession derive p (as_tenant s) (as_user s) (aw_db w) \<longrightarrow>
         goodSession derive p (as_tenant s) (as_user s) (aw_db (onDb (upsertMembership tenant u role) w)) \<or>
         pending (onDb (upsertMembership tenant u role) w) s) \<and>
      (pending w s \<longrightarrow> pending (onDb (upsertMembership tenant u role) w) s)"
    by (intro bexI [of _ s'])
      (auto simp: onDb_def upsertMembership_def pending_def goodSession_def userById_def readMembership_def)
qed (use inv in \<open>simp_all add: onDb_def upsertMembership_def authInv_def\<close>)

lemma authInv_insert:
  assumes inv: "authInv derive w" and ins: "insertUser u (aw_db w) = Some db'"
  shows "authInv derive (w\<lparr>aw_db := db'\<rparr>)"
proof -
  have db': "db' = (aw_db w)\<lparr>ad_users := ad_users (aw_db w) @ [u]\<rparr>"
    and new: "ur_id u \<notin> set (map ur_id (ad_users (aw_db w)))"
      "map lower (ur_email u) \<notin> set (map (\<lambda>r. map lower (ur_email r)) (ad_users (aw_db w)))"
    using ins by (auto simp: insertUser_def sameEmail_def list_ex_iff split: if_splits)
  have "goodSession derive p t v db'" if "goodSession derive p t v (aw_db w)" for p t v
  proof -
    have "find P xs = Some x \<Longrightarrow> find P (xs @ ys) = Some x" for P :: "user_row \<Rightarrow> bool" and xs ys x
      by (induction xs) auto
    then show ?thesis using that by (auto simp: goodSession_def userById_def readMembership_def db' split: option.splits)
  qed
  then have "sessionOk derive (w\<lparr>aw_db := db'\<rparr>) s" if "sessionOk derive w s" for s
    by (intro sessionOk_same [OF that]) (auto simp: pending_def)
  then show ?thesis
    using inv new by (auto simp: authInv_def db' list_all_iff threadOk_def)
qed

lemma authInv_step:
  assumes cf: "collision_free derive" and inv: "authInv derive w"
  shows "authInv derive (authStep derive w ev)"
proof (cases ev)
  case (AvLookup tenant email plain)
  then show ?thesis using inv authInv_lookup [OF inv] by (auto split: option.split)
next
  case (AvCreate i token now)
  then show ?thesis using inv authInv_create [OF inv, of i token now] by (simp add: Let_def)
next
  case (AvRehash i salt)
  then show ?thesis
    using inv authInv_rehash [OF cf inv, of i _ salt] by (auto simp: Let_def split: option.split)
next
  case (AvInsert u)
  then show ?thesis using inv authInv_insert [OF inv, of u] by (simp add: onDb_def split: option.split)
qed (use inv authInv_recheck [OF inv] authInv_delete [OF inv] authInv_touch [OF inv] authInv_logout [OF inv]
    authInv_setPassword [OF inv] authInv_disable [OF inv] authInv_remove [OF inv] authInv_revoke [OF inv]
    authInv_join [OF inv] in \<open>simp_all del: authStep.simps(8-11) add: authStep.simps(3,4,6,7,12)\<close>)

lemma authInv_run:
  "collision_free derive \<Longrightarrow> authInv derive w \<Longrightarrow> authInv derive (foldl (authStep derive) w evs)"
  by (induction evs arbitrary: w) (simp_all add: authInv_step)

section \<open>Properties\<close>

text \<open>
  C5: However logins, changes of passwords, disabled accounts, removed members, renewed hashes, requests
  and logouts are interleaved: once every command that changed an account has deleted the sessions it
  had to, each session of a finished login belongs to an enabled account that is a member of the
  session's tenant, and was opened with the account's present password.
\<close>

theorem stale_logins_leave_no_session:
  assumes "collision_free derive"
    and "distinct (map ur_id us)" and "distinct (map (\<lambda>r. map lower (ur_email r)) us)" and "jwf ms"
    and "w = foldl (authStep derive)
      \<lparr>aw_db = \<lparr>ad_users = us, ad_members = ms, ad_sessions = [], ad_suspended = ts\<rparr>,
       aw_logins = [], aw_revoking = []\<rparr> evs"
    and "s \<in> set (ad_sessions (aw_db w))" and "aw_revoking w = []"
  shows "\<exists>t \<in> set (aw_logins w). liveFor s t \<and>
    (th_phase t = LpDone \<longrightarrow> goodSession derive (th_plain t) (as_tenant s) (as_user s) (aw_db w))"
proof -
  have "authInv derive \<lparr>aw_db = \<lparr>ad_users = us, ad_members = ms, ad_sessions = [], ad_suspended = ts\<rparr>,
       aw_logins = [], aw_revoking = []\<rparr>"
    using assms(2-4) by (simp add: authInv_def)
  from authInv_run [OF assms(1) this, of evs] have "sessionOk derive w s"
    using assms(5,6) by (simp add: authInv_def list_all_iff)
  then show ?thesis using assms(7) by (auto simp: sessionOk_def list_ex_iff doneOk_def pending_def)
qed

text \<open>A derivation without collisions, for the example: the password itself is in the key.\<close>

definition derive_ex :: derive where
  "derive_ex plain salt logN r p = plain @ salt"

lemma derive_ex_free: "collision_free derive_ex"
  by (simp add: collision_free_def derive_ex_def)

definition user_ex :: user_row where
  "user_ex =
     \<lparr>ur_id = 1, ur_email = [97], ur_name = [], ur_hash = hashPassword derive_ex [0] [1], ur_disabled = False\<rparr>"

definition auth_ex :: "auth_event list \<Rightarrow> auth_world" where
  "auth_ex evs = foldl (authStep derive_ex)
     \<lparr>aw_db = \<lparr>ad_users = [user_ex], ad_members = [((7, 1), RoleOwner)], ad_sessions = [], ad_suspended = []\<rparr>,
      aw_logins = [], aw_revoking = []\<rparr> evs"

text \<open>Two logins with the old password around a change: one is deleted by the command, one by itself.\<close>

lemma stale_logins_leave_no_session_witness:
  "\<exists>t \<in> set (aw_logins (auth_ex [AvLookup 7 [97] [1], AvCreate 0 5 100, AvRecheck 0])).
     liveFor \<lparr>as_token = 5, as_tenant = 7, as_user = 1, as_seen = 100, as_expires = 100 + ABSOLUTE_MS\<rparr> t \<and>
     (th_phase t = LpDone \<longrightarrow>
        goodSession derive_ex (th_plain t) 7 1 (aw_db (auth_ex [AvLookup 7 [97] [1], AvCreate 0 5 100, AvRecheck 0])))"
proof -
  let ?evs = "[AvLookup 7 [97] [1], AvCreate 0 5 100, AvRecheck 0]"
  let ?s = "\<lparr>as_token = 5, as_tenant = 7, as_user = 1, as_seen = 100, as_expires = 100 + ABSOLUTE_MS\<rparr>"
  have s: "?s \<in> set (ad_sessions (aw_db (auth_ex ?evs)))" and r: "aw_revoking (auth_ex ?evs) = []"
    by (simp_all add: auth_ex_def loginLookup_def authLoginLookup_def readMembership_def user_ex_def sameEmail_def
        hashPassword_def CURRENT_def derive_ex_def loginIs_def freshToken_def onDb_def putLogin_def
        authSessionCreate_def loginRecheck_def Let_def)
  have "distinct (map ur_id [user_ex])" "distinct (map (\<lambda>r. map lower (ur_email r)) [user_ex])"
      "jwf [((7 :: nat, 1 :: nat), RoleOwner)]"
    by (simp_all add: jwf_def jkeys_def)
  from stale_logins_leave_no_session [OF derive_ex_free this, of "auth_ex ?evs" "[]" ?evs ?s] s r
  show ?thesis by (simp add: auth_ex_def)
qed

end
