(* ===== verification/Csv.thy ===== *)
theory Csv
  imports JsText
begin

text \<open>
  Reading and writing CSV (shared/csv.ts and the writer of shared/catalog-csv.ts): the scanner of
  RFC 4180, the writer with its quoting, and the tabulator that keeps a spreadsheet from taking a cell
  for a formula. A cell is a list of UTF-16 code units; 34 is the double quote, 44 the comma, 10 and 13
  the line ends, 9 the tabulator and 65279 the byte order mark.
\<close>

section \<open>Reading\<close>

type_synonym csv_row = "jstext list"

text \<open>The variables of the scanning loop; its index is the rest of the text.\<close>

record csv_state =
  cs_rows :: "csv_row list"
  cs_row :: csv_row
  cs_field :: jstext
  cs_quoted :: bool

abbreviation fresh_line :: "csv_row list \<Rightarrow> csv_state" where
  "fresh_line rows \<equiv> \<lparr>cs_rows = rows, cs_row = [], cs_field = [], cs_quoted = False\<rparr>"

definition addChar :: "nat \<Rightarrow> csv_state \<Rightarrow> csv_state" where
  "addChar ch st = st\<lparr>cs_field := cs_field st @ [ch]\<rparr>"

definition endField :: "csv_state \<Rightarrow> csv_state" where
  "endField st = st\<lparr>cs_row := cs_row st @ [cs_field st], cs_field := []\<rparr>"

text \<open>\<open>row.some((f) => f !== '')\<close>: a line of empty cells is no row.\<close>

definition filled :: "csv_row \<Rightarrow> bool" where
  "filled row \<longleftrightarrow> list_ex (\<lambda>f. f \<noteq> []) row"

definition endRow :: "csv_state \<Rightarrow> csv_state" where
  "endRow st0 =
     (let st = endField st0
      in st\<lparr>cs_rows := (if filled (cs_row st) then cs_rows st @ [cs_row st] else cs_rows st),
            cs_row := []\<rparr>)"

fun csvLoop :: "jstext \<Rightarrow> csv_state \<Rightarrow> csv_state" where
  "csvLoop [] st = st"
| "csvLoop (ch # rest) st =
     (if cs_quoted st
      then if ch = 34
        then (case rest of
                [] \<Rightarrow> st\<lparr>cs_quoted := False\<rparr>
              | c # rest' \<Rightarrow>
                  if c = 34 then csvLoop rest' (addChar 34 st)
                  else csvLoop rest (st\<lparr>cs_quoted := False\<rparr>))
        else csvLoop rest (addChar ch st)
      else if ch = 34 \<and> cs_field st = [] then csvLoop rest (st\<lparr>cs_quoted := True\<rparr>)
      else if ch = 44 then csvLoop rest (endField st)
      else if ch = 10 then csvLoop rest (endRow st)
      else if ch = 13
        then csvLoop rest (if rest \<noteq> [] \<and> hd rest = 10 then st else endRow st)
      else csvLoop rest (addChar ch st))"

text \<open>\<open>None\<close> is the \<open>CsvSyntaxError\<close> of a quote that was not closed.\<close>

definition csvEnd :: "csv_state \<Rightarrow> csv_row list option" where
  "csvEnd st =
     (if cs_quoted st then None
      else Some (cs_rows (if cs_field st \<noteq> [] \<or> cs_row st \<noteq> [] then endRow st else st)))"

definition parseCsv :: "jstext \<Rightarrow> csv_row list option" where
  "parseCsv s0 =
     (let s = (case s0 of c # cs \<Rightarrow> if c = 65279 then cs else s0 | [] \<Rightarrow> [])
      in csvEnd (csvLoop s (fresh_line [])))"

section \<open>Writing\<close>

definition needsQuotes :: "jstext \<Rightarrow> bool" where
  "needsQuotes s \<longleftrightarrow> list_ex (\<lambda>c. c = 34 \<or> c = 44 \<or> c = 13 \<or> c = 10) s"

definition doubleQuotes :: "jstext \<Rightarrow> jstext" where
  "doubleQuotes s = concat (map (\<lambda>c. if c = 34 then [34, 34] else [c]) s)"

definition csvCell :: "bool \<Rightarrow> jstext \<Rightarrow> jstext" where
  "csvCell quoteAll s =
     (if quoteAll \<or> needsQuotes s then [34] @ doubleQuotes s @ [34] else s)"

definition toCsv :: "bool \<Rightarrow> jstext \<Rightarrow> csv_row list \<Rightarrow> jstext" where
  "toCsv quoteAll eol rows =
     concat (map (\<lambda>r. joinWith [44] (map (csvCell quoteAll) r) @ eol) rows)"

definition LF :: jstext where "LF = [10]"
definition CRLF :: jstext where "CRLF = [13, 10]"
definition BOM :: jstext where "BOM = [65279]"

section \<open>Formulas\<close>

text \<open>
  The characters a spreadsheet takes for the start of a formula: equals, plus, minus, at, also in full
  width, the tabulator and the line ends.
\<close>

definition formulaStart :: "jstext \<Rightarrow> bool" where
  "formulaStart s \<longleftrightarrow>
     (case s of [] \<Rightarrow> False
      | c # _ \<Rightarrow> c \<in> set [61, 43, 45, 64, 9, 13, 10, 65309, 65291, 65293, 65312])"

definition guardCell :: "jstext \<Rightarrow> jstext" where
  "guardCell s = (if formulaStart s then 9 # s else s)"

definition unguardCell :: "jstext \<Rightarrow> jstext" where
  "unguardCell s =
     (case s of [] \<Rightarrow> s | c # rest \<Rightarrow> if c = 9 \<and> formulaStart rest then rest else s)"

lemma unguard_guard [simp]: "unguardCell (guardCell s) = s"
  by (cases s) (auto simp: guardCell_def unguardCell_def formulaStart_def)

text \<open>A guarded cell opens in a spreadsheet with a tabulator, if it is dangerous at all.\<close>

lemma guarded_starts: "formulaStart (guardCell s) \<Longrightarrow> hd (guardCell s) = 9"
  by (auto simp: guardCell_def)

section \<open>What is written is read\<close>

lemma csv_state_eqI:
  fixes a b :: csv_state
  shows "cs_rows a = cs_rows b \<Longrightarrow> cs_row a = cs_row b \<Longrightarrow> cs_field a = cs_field b \<Longrightarrow>
    cs_quoted a = cs_quoted b \<Longrightarrow> a = b"
  by simp

lemmas scan_defs = addChar_def endField_def endRow_def Let_def

lemma scan_quoted:
  assumes "rest = [] \<or> hd rest \<noteq> 34" and "cs_quoted st"
  shows "csvLoop (doubleQuotes s @ 34 # rest) st =
    csvLoop rest (st\<lparr>cs_field := cs_field st @ s, cs_quoted := False\<rparr>)"
  using assms(2)
proof (induction s arbitrary: st)
  case Nil
  then show ?case using assms(1) by (cases rest) (simp_all add: doubleQuotes_def)
next
  case (Cons c s)
  have q: "cs_quoted (addChar c st)" using Cons.prems by (simp add: addChar_def)
  have "csvLoop (doubleQuotes (c # s) @ 34 # rest) st = csvLoop (doubleQuotes s @ 34 # rest) (addChar c st)"
    using Cons.prems by (simp add: doubleQuotes_def)
  then show ?case using Cons.IH [OF q] by (simp add: addChar_def)
qed

lemma scan_plain:
  assumes "\<not> needsQuotes s" and "\<not> cs_quoted st"
  shows "csvLoop (s @ rest) st = csvLoop rest (st\<lparr>cs_field := cs_field st @ s\<rparr>)"
  using assms
proof (induction s arbitrary: st)
  case (Cons c s)
  have "csvLoop ((c # s) @ rest) st = csvLoop (s @ rest) (addChar c st)"
    using Cons.prems by (simp add: needsQuotes_def)
  then show ?case using Cons.IH [of "addChar c st"] Cons.prems by (simp add: needsQuotes_def addChar_def)
qed simp

lemma scan_cell:
  assumes "rest = [] \<or> hd rest \<noteq> 34" and "cs_field st = []" and "\<not> cs_quoted st"
  shows "csvLoop (csvCell q s @ rest) st = csvLoop rest (st\<lparr>cs_field := s\<rparr>)"
proof (cases "q \<or> needsQuotes s")
  case True
  have "csvLoop (csvCell q s @ rest) st = csvLoop (doubleQuotes s @ 34 # rest) (st\<lparr>cs_quoted := True\<rparr>)"
    using True assms by (simp add: csvCell_def)
  also have "\<dots> = csvLoop rest (st\<lparr>cs_quoted := True, cs_field := s, cs_quoted := False\<rparr>)"
    using scan_quoted [OF assms(1), of "st\<lparr>cs_quoted := True\<rparr>" s] assms(2) by simp
  also have "st\<lparr>cs_quoted := True, cs_field := s, cs_quoted := False\<rparr> = st\<lparr>cs_field := s\<rparr>"
    using assms(3) by simp
  finally show ?thesis .
next
  case False
  then show ?thesis using scan_plain [of s st rest] assms by (simp add: csvCell_def)
qed

text \<open>The line ends the code writes are read as the end of the row.\<close>

lemma scan_eol:
  assumes "eol = LF \<or> eol = CRLF" and "\<not> cs_quoted st"
  shows "csvLoop (eol @ rest) st = csvLoop rest (endRow st)"
  using assms by (auto simp: LF_def CRLF_def)

lemma eol_head: "eol = LF \<or> eol = CRLF \<Longrightarrow> eol @ rest = [] \<or> hd (eol @ rest) \<noteq> 34"
  by (auto simp: LF_def CRLF_def)

lemma scan_cells:
  assumes "eol = LF \<or> eol = CRLF" and "cells \<noteq> []" and "cs_field st = []" and "\<not> cs_quoted st"
  shows "csvLoop (joinWith [44] (map (csvCell q) cells) @ eol @ rest) st =
    csvLoop rest (endRow (st\<lparr>cs_row := cs_row st @ butlast cells, cs_field := last cells\<rparr>))"
  using assms(2-4)
proof (induction cells arbitrary: st rule: list_nonempty_induct)
  case (single c)
  show ?case
    using scan_cell [OF eol_head [OF assms(1), of rest] single] scan_eol [OF assms(1), of "st\<lparr>cs_field := c\<rparr>" rest]
      single(2) by simp
next
  case (cons c cells)
  define tail where "tail = joinWith [44] (map (csvCell q) cells) @ eol @ rest"
  have "joinWith [44] (map (csvCell q) (c # cells)) @ eol @ rest = csvCell q c @ 44 # tail"
    using cons(1) by (cases cells) (simp_all add: tail_def)
  moreover have "csvLoop (csvCell q c @ 44 # tail) st = csvLoop (44 # tail) (st\<lparr>cs_field := c\<rparr>)"
    by (rule scan_cell) (use cons.prems in simp_all)
  moreover have "csvLoop (44 # tail) (st\<lparr>cs_field := c\<rparr>) = csvLoop tail (endField (st\<lparr>cs_field := c\<rparr>))"
    using cons.prems by simp
  moreover have "csvLoop tail (endField (st\<lparr>cs_field := c\<rparr>)) =
      csvLoop rest (endRow (st\<lparr>cs_row := cs_row st @ c # butlast cells, cs_field := last cells\<rparr>))"
    using cons.IH [of "endField (st\<lparr>cs_field := c\<rparr>)"] cons.prems by (simp add: tail_def endField_def)
  ultimately show ?case using cons(1) by simp
qed

lemma scan_line:
  assumes "eol = LF \<or> eol = CRLF"
  shows "csvLoop (joinWith [44] (map (csvCell q) cells) @ eol @ rest) (fresh_line rows) =
    csvLoop rest (fresh_line (rows @ filter filled [cells]))"
proof (cases "cells = []")
  case True
  then show ?thesis using scan_eol [OF assms, of "fresh_line rows" rest] by (simp add: scan_defs filled_def)
next
  case False
  then have "butlast cells @ [last cells] = cells" by simp
  then show ?thesis
    using scan_cells [OF assms False, of "fresh_line rows" q rest] by (simp add: scan_defs)
qed

lemma scan_rows:
  assumes "eol = LF \<or> eol = CRLF"
  shows "csvLoop (toCsv q eol rows) (fresh_line done) = fresh_line (done @ filter filled rows)"
proof (induction rows arbitrary: "done")
  case (Cons r rows)
  have "toCsv q eol (r # rows) = joinWith [44] (map (csvCell q) r) @ eol @ toCsv q eol rows"
    by (simp add: toCsv_def)
  then show ?case using scan_line [OF assms, of q r "toCsv q eol rows" "done"] Cons by simp
qed (simp add: toCsv_def)

lemma parse_marked:
  assumes "eol = LF \<or> eol = CRLF"
  shows "parseCsv (BOM @ toCsv q eol rows) = Some (filter filled rows)"
  using scan_rows [OF assms, of q rows "[]"] by (simp add: parseCsv_def BOM_def csvEnd_def)

text \<open>Without the mark the first cell must not start with one, or it is taken for it.\<close>

lemma parse_plain:
  assumes "eol = LF \<or> eol = CRLF" and "toCsv q eol rows = [] \<or> hd (toCsv q eol rows) \<noteq> 65279"
  shows "parseCsv (toCsv q eol rows) = Some (filter filled rows)"
proof -
  have "(case toCsv q eol rows of [] \<Rightarrow> [] | c # cs \<Rightarrow> if c = 65279 then cs else toCsv q eol rows) = toCsv q eol rows"
    using assms(2) by (auto split: list.split)
  then show ?thesis using scan_rows [OF assms(1), of q rows "[]"] by (simp add: parseCsv_def csvEnd_def)
qed

text \<open>
  C19: A file written with a byte order mark is read back as the rows that were written, whatever
  their cells hold (separators, quotes, line breaks), quoted everywhere or only where needed, with
  either line end; rows of empty cells are dropped. The guard against formulas is taken off again
  exactly, whatever the cell.
\<close>

theorem csv_roundtrip:
  assumes "eol = LF \<or> eol = CRLF"
  shows "parseCsv (BOM @ toCsv quoteAll eol (map (map guardCell) rows)) =
      Some (filter filled (map (map guardCell) rows)) \<and>
    map (map unguardCell) (filter filled (map (map guardCell) rows)) = filter filled rows"
proof
  show "parseCsv (BOM @ toCsv quoteAll eol (map (map guardCell) rows)) =
      Some (filter filled (map (map guardCell) rows))"
    by (rule parse_marked [OF assms])
  have f: "filled (map guardCell r) = filled r" for r
    by (induction r) (auto simp: filled_def guardCell_def formulaStart_def)
  show "map (map unguardCell) (filter filled (map (map guardCell) rows)) = filter filled rows"
    by (induction rows) (simp_all add: f comp_def)
qed

lemma csv_roundtrip_witness:
  "parseCsv (BOM @ toCsv False CRLF (map (map guardCell) [[[61, 49], [34, 44]], [[], []]])) =
    Some (filter filled (map (map guardCell) [[[61, 49], [34, 44]], [[], []]]))"
  by (rule conjunct1 [OF csv_roundtrip]) simp

text \<open>Every row that is read has a cell with something in it.\<close>

lemma endRow_filled: "list_all filled (cs_rows st) \<Longrightarrow> list_all filled (cs_rows (endRow st))"
  by (simp add: scan_defs)

lemma csvLoop_filled: "list_all filled (cs_rows st) \<Longrightarrow> list_all filled (cs_rows (csvLoop s st))"
proof (induction s st rule: csvLoop.induct)
  case (2 ch rest st)
  show ?case
    unfolding csvLoop.simps(2) [of ch rest st]
    by (use 2 in \<open>auto simp: endRow_filled addChar_def endField_def simp del: csvLoop.simps(2)
      split: list.split\<close>)
qed simp

lemma parseCsv_filled:
  assumes "parseCsv s = Some rows"
  shows "list_all filled rows"
proof -
  have "list_all filled (cs_rows (csvLoop t (fresh_line [])))" for t by (rule csvLoop_filled) simp
  then show ?thesis using assms endRow_filled by (auto simp: parseCsv_def csvEnd_def Let_def split: if_splits)
qed

end
