(* ===== verification/Pack.thy ===== *)
theory Pack
  imports Complex_Main JsText
begin

text \<open>
  The configuration an industry pack gives the console and the server (shared/pack.ts), as far as the
  rules on catalogue items read it: fields, entities and rules, and the JSON values of an item. A
  number is an exact rational (the code has doubles, which agree below 2 ^ 53 and for two decimals).
\<close>

section \<open>Values\<close>

datatype jval =
  JNull | JBool bool | JNum rat | JStr jstext | JArr "jval list" | JObj "(jstext \<times> jval) list"

text \<open>A missing key, \<open>undefined\<close> in the code, is \<open>None\<close>.\<close>

type_synonym payload = "(jstext, jval) jsmap"

definition idKey :: jstext where "idKey = js ''id''"
definition codeKey :: jstext where "codeKey = js ''$code''"

definition is_obj :: "jval \<Rightarrow> bool" where
  "is_obj v = (case v of JObj _ \<Rightarrow> True | _ \<Rightarrow> False)"

fun valueAlong :: "jval option \<Rightarrow> jstext list \<Rightarrow> jval option" where
  "valueAlong cur [] = cur"
| "valueAlong cur (k # ks) =
     (case cur of Some (JObj m) \<Rightarrow>
        (case jget m k of None \<Rightarrow> None | Some v \<Rightarrow> valueAlong (Some v) ks)
      | _ \<Rightarrow> None)"

definition valueAt :: "payload \<Rightarrow> jstext \<Rightarrow> jval option" where
  "valueAt p key =
     valueAlong (Some (JObj p)) (split_at 46 (if key = codeKey then idKey else key))"

text \<open>The code's \<open>filled\<close>: a missing key, \<open>null\<close>, an empty string and an empty array are not.\<close>

definition valueFilled :: "jval option \<Rightarrow> bool" where
  "valueFilled v = (case v of None \<Rightarrow> False | Some w \<Rightarrow> w \<noteq> JNull \<and> w \<noteq> JStr [] \<and> w \<noteq> JArr [])"

section \<open>Fields and entities\<close>

datatype field_type =
  FText | FLongText | FMoney | FIntUnit | FMonthRange | FEnum | FTags | FBoolean | FSubItems |
  FReference | FStatus

text \<open>
  \<open>fd_required\<close> and \<open>fd_decimals\<close> are \<open>None\<close> where the pack leaves them out; \<open>fd_showWhen\<close> is the
  key of the field that must be filled; \<open>fd_recommend\<close> is \<open>Some (None, None)\<close> for plain \<open>true\<close>.
\<close>

datatype field_def = FieldDef
  (fd_key: jstext)
  (fd_type: field_type)
  (fd_label: jstext)
  (fd_required: "bool option")
  (fd_showWhen: "jstext option")
  (fd_unit: "jstext option")
  (fd_decimals: "nat option")
  (fd_min: "rat option")
  (fd_options: "jstext list option")
  (fd_multiple: bool)
  (fd_storeAs: bool)
  (fd_recommend: "(int option \<times> int option) option")
  (fd_item: "field_def list option")
  (fd_itemNoun: "jstext option")
  (fd_countFrom: "jstext option")
  (fd_autoIndexKey: "jstext option")

datatype item_rule =
  Ascending "jstext list" | Descending "jstext list" | Together "jstext list" |
  Contiguous "jstext list" | GreaterThan jstext jstext

record entity_type =
  et_codeLabel :: jstext
  et_fields :: "field_def list"
  et_itemRules :: "item_rule list"

definition plainField :: "jstext \<Rightarrow> field_type \<Rightarrow> jstext \<Rightarrow> field_def" where
  "plainField key ty label =
     FieldDef key ty label None None None None None None False False None None None None None"

lemma plainField_simps [simp]:
  "fd_key (plainField k t l) = k" "fd_type (plainField k t l) = t" "fd_label (plainField k t l) = l"
  "fd_required (plainField k t l) = None" "fd_showWhen (plainField k t l) = None"
  "fd_decimals (plainField k t l) = None" "fd_item (plainField k t l) = None"
  "fd_multiple (plainField k t l) = False" "fd_storeAs (plainField k t l) = False"
  by (simp_all add: plainField_def)

lemma size_item: "fd_item f = Some fs \<Longrightarrow> g \<in> set fs \<Longrightarrow> size g < size f"
  using size_list_estimation' [of g fs "size g" size] by (cases f) auto

section \<open>Numbers as text\<close>

text \<open>What \<open>String(n)\<close> writes for a number below \<open>1e21\<close> with at most two decimals.\<close>

fun natText :: "nat \<Rightarrow> jstext" where
  "natText n = (if n < 10 then [48 + n] else natText (n div 10) @ [48 + n mod 10])"

declare natText.simps [simp del]

definition numText :: "rat \<Rightarrow> jstext" where
  "numText q =
     (let a = nat \<lfloor>\<bar>q\<bar> * 100 + 1/2\<rfloor>;
          whole = natText (a div 100); f = a mod 100
      in (if q < 0 then [45] else []) @ whole @
         (if f = 0 then [] else if f mod 10 = 0 then [46, 48 + f div 10]
          else [46, 48 + f div 10, 48 + f mod 10]))"

definition digitsText :: "jstext \<Rightarrow> bool" where
  "digitsText s \<longleftrightarrow> s \<noteq> [] \<and> list_all (\<lambda>c. 48 \<le> c \<and> c \<le> 57) s"

definition natOf :: "jstext \<Rightarrow> nat" where
  "natOf s = foldl (\<lambda>n c. 10 * n + (c - 48)) 0 s"

lemma natOf_snoc: "natOf (s @ [c]) = 10 * natOf s + (c - 48)"
  by (simp add: natOf_def)

lemma natOf_natText [simp]: "natOf (natText n) = n"
proof (induction n rule: natText.induct)
  case (1 n)
  then show ?case by (subst natText.simps) (auto simp: natOf_snoc, simp add: natOf_def)
qed

lemma natText_digits [simp]: "digitsText (natText n)"
proof (induction n rule: natText.induct)
  case (1 n)
  then show ?case by (subst natText.simps) (auto simp: digitsText_def)
qed

text \<open>
  \<open>String(v)\<close> of a JSON value that is not an object; an array is joined by commas, with \<open>null\<close>
  empty.
\<close>

fun textOf :: "jval \<Rightarrow> jstext" where
  "textOf JNull = js ''null''"
| "textOf (JBool b) = js (if b then ''true'' else ''false'')"
| "textOf (JNum q) = numText q"
| "textOf (JStr s) = s"
| "textOf (JArr vs) =
     joinWith [44] (map (\<lambda>v. if v = JNull then [] else textOf v) vs)"
| "textOf (JObj _) = js ''[object Object]''"

section \<open>Money\<close>

text \<open>\<open>yuanToFen\<close> of shared/catalog-money.ts; \<open>None\<close> is its exception.\<close>

definition yuanToFen :: "rat \<Rightarrow> int option" where
  "yuanToFen yuan =
     (let fen = \<lfloor>yuan * 100 + 1/2\<rfloor>
      in if \<bar>fen\<bar> > max_safe_integer \<or> \<bar>yuan - of_int fen / 100\<bar> \<ge> 1 / 1000000000 then None
         else Some fen)"

text \<open>An amount with two decimals in the safe range is exactly its cents.\<close>

lemma yuanToFen_exact:
  assumes "\<bar>n\<bar> \<le> max_safe_integer"
  shows "yuanToFen (of_int n / 100) = Some n"
proof -
  have "\<lfloor>of_int n / (100::rat) * 100 + 1/2\<rfloor> = n" by linarith
  then show ?thesis using assms by (simp add: yuanToFen_def Let_def)
qed

end
