(* ===== verification/CatalogCsv.thy ===== *)
theory CatalogCsv
  imports Csv Pack
begin

text \<open>
  The rules of the catalogue's CSV import that server and console share (shared/catalog-csv.ts): which
  columns a kind has, the header, the conversion of a row to an item, the check of all rows, and the
  server's import of a whole file. The schema of a kind is a validator that returns its issues; messages
  are constructors with the values the code's texts show.
\<close>

section \<open>Issues\<close>

datatype csv_message =
  MsgText jstext
| MsgUndecodable | MsgOpenQuote | MsgNested "jstext list" | MsgNoRows | MsgTooManyRows nat
| MsgNotFlat | MsgUnknownField | MsgHeaderRepeated | MsgColumnMissing
| MsgColumns nat nat | MsgInteger jstext | MsgDecimal jstext | MsgYesNo jstext
| MsgDuplicate nat

record csv_issue =
  ci_path :: jstext
  ci_message :: csv_message
  ci_label :: "jstext option"

definition issue :: "jstext \<Rightarrow> csv_message \<Rightarrow> csv_issue" where
  "issue p m = \<lparr>ci_path = p, ci_message = m, ci_label = None\<rparr>"

text \<open>\<open>CatalogCsvError\<close>: the rows with their issues; row 0 is the header or the whole file.\<close>

type_synonym csv_error = "(nat \<times> csv_issue list) list"

definition whole :: "csv_message \<Rightarrow> csv_error" where
  "whole m = [(0, [issue [] m])]"

definition CSV_MAX_ROWS :: nat where "CSV_MAX_ROWS = 200"

text \<open>The heading of the column with the reasons.\<close>

definition CSV_REASON_HEADER :: jstext where
  "CSV_REASON_HEADER = [19981, 21512, 26684, 21407, 22240]"

section \<open>Columns\<close>

datatype flat_type = FtString | FtInteger | FtDecimal | FtBoolean | FtStrings

record csv_shape =
  sh_order :: "jstext list"
  sh_flat :: "(jstext, flat_type) jsmap"
  sh_required :: "jstext list"
  sh_nestedRequired :: "jstext list"

text \<open>A property of the JSON schema the server derives from its validator.\<close>

record js_property =
  jp_type :: "jstext option"
  jp_cents :: bool
  jp_itemType :: "jstext option"

definition flatOfProperty :: "js_property \<Rightarrow> flat_type option" where
  "flatOfProperty p =
     (if jp_type p = Some (js ''string'') then Some FtString
      else if jp_type p = Some (js ''integer'') \<or> jp_type p = Some (js ''number'')
      then Some (if jp_cents p then FtDecimal else FtInteger)
      else if jp_type p = Some (js ''boolean'') then Some FtBoolean
      else if jp_type p = Some (js ''array'') \<and> jp_itemType p = Some (js ''string'')
      then Some FtStrings
      else None)"

definition schemaCsvShape :: "(jstext, js_property) jsmap \<Rightarrow> jstext list \<Rightarrow> csv_shape" where
  "schemaCsvShape props required =
     (let flat = List.map_filter (\<lambda>(k, p). map_option (Pair k) (flatOfProperty p)) props
      in \<lparr>sh_order = map fst props, sh_flat = flat, sh_required = remdups required,
          sh_nestedRequired = filter (\<lambda>k. jget flat k = None) (remdups required)\<rparr>)"

definition catalogCsvColumns :: "csv_shape \<Rightarrow> bool \<times> jstext list \<times> jstext list" where
  "catalogCsvColumns shape =
     (sh_nestedRequired shape = [],
      filter (\<lambda>k. jget (sh_flat shape) k \<noteq> None) (sh_order shape), sh_nestedRequired shape)"

text \<open>How a field is written in a cell; \<open>None\<close> when it cannot be.\<close>

function flatTypeOf :: "field_def \<Rightarrow> flat_type option" where
  "flatTypeOf f =
     (case fd_type f of
        FText \<Rightarrow> Some FtString
      | FLongText \<Rightarrow> Some FtString
      | FMonthRange \<Rightarrow> Some FtString
      | FMoney \<Rightarrow> Some (if fd_decimals f = Some 2 then FtDecimal else FtInteger)
      | FIntUnit \<Rightarrow> Some FtInteger
      | FBoolean \<Rightarrow> Some FtBoolean
      | FTags \<Rightarrow> Some FtStrings
      | FEnum \<Rightarrow> Some (if fd_multiple f \<and> \<not> fd_storeAs f then FtStrings else FtString)
      | FReference \<Rightarrow> Some (if fd_multiple f then FtStrings else FtString)
      | FSubItems \<Rightarrow>
          (case fd_item f of
             Some [only] \<Rightarrow>
               if fd_key only = [] \<and> flatTypeOf only = Some FtString then Some FtStrings else None
           | _ \<Rightarrow> None)
      | FStatus \<Rightarrow> None)"
  by pat_completeness auto
termination
  by (relation "measure size") (auto intro: size_item)

declare flatTypeOf.simps [simp del]

text \<open>The shape an entity of a pack gives, with the headings and their labels.\<close>

record entity_csv_shape = csv_shape +
  es_columns :: "(jstext \<times> jstext \<times> field_def) list"
  es_labels :: "(jstext, jstext) jsmap"

definition addOnce :: "'a \<Rightarrow> 'a list \<Rightarrow> 'a list" where
  "addOnce x xs = (if x \<in> set xs then xs else xs @ [x])"

definition shapeField :: "entity_csv_shape \<Rightarrow> field_def \<Rightarrow> entity_csv_shape" where
  "shapeField es f =
     (if fd_type f = FStatus then es
      else let key = (if fd_key f = codeKey then idKey else fd_key f);
               top = hd (split_at 46 key);
               es1 = es\<lparr>sh_order := addOnce top (sh_order es)\<rparr>;
               must = (fd_required f \<noteq> Some False \<and> fd_showWhen f = None)
           in case (if key = top then flatTypeOf f else None) of
                None \<Rightarrow>
                  if must then es1\<lparr>sh_nestedRequired := addOnce top (sh_nestedRequired es1)\<rparr> else es1
              | Some t \<Rightarrow>
                  es1\<lparr>sh_flat := jset (sh_flat es1) key t,
                      sh_required := (if must then addOnce key (sh_required es1) else sh_required es1),
                      es_columns := es_columns es1 @ [(key, fd_label f, f)],
                      es_labels := (if jget (es_labels es1) (fd_label f) = None
                                    then jset (es_labels es1) (fd_label f) key
                                    else es_labels es1)\<rparr>)"

definition entityCsvShape :: "entity_type \<Rightarrow> entity_csv_shape" where
  "entityCsvShape e =
     (let code = plainField codeKey FText (et_codeLabel e);
          fields = (if list_ex (\<lambda>f. fd_key f = codeKey) (et_fields e) then et_fields e
                    else code # et_fields e)
      in foldl shapeField
           \<lparr>sh_order = [], sh_flat = [], sh_required = [], sh_nestedRequired = [],
            es_columns = [], es_labels = []\<rparr> fields)"

definition csvLabelsOf :: "entity_type \<Rightarrow> (jstext, jstext) jsmap" where
  "csvLabelsOf e = es_labels (entityCsvShape e)"

section \<open>The file and its header\<close>

definition parseCatalogCsv :: "jstext \<Rightarrow> csv_error + csv_row list" where
  "parseCatalogCsv csv =
     (if 65533 \<in> set csv then Inl (whole MsgUndecodable)
      else case parseCsv csv of None \<Rightarrow> Inl (whole MsgOpenQuote) | Some rows \<Rightarrow> Inr rows)"

text \<open>
  What a heading stands for: a key, nothing (the column of the reasons), or no known field. A field's
  key wins over a label, both over the reasons.
\<close>

datatype column_key = KeyOf jstext | KeyIgnored | KeyUnknown

definition headerCell :: "jstext \<Rightarrow> jstext" where
  "headerCell h = trim (unguardCell h)"

definition columnKey :: "'a csv_shape_scheme \<Rightarrow> (jstext, jstext) jsmap \<Rightarrow> jstext \<Rightarrow> column_key" where
  "columnKey shape labels h =
     (if jget (sh_flat shape) h \<noteq> None then KeyOf h
      else let other = (if h = CSV_REASON_HEADER then KeyIgnored else KeyUnknown)
           in case jget labels h of
                Some k \<Rightarrow> if jget (sh_flat shape) k \<noteq> None then KeyOf k else other
              | None \<Rightarrow> other)"

text \<open>The issues of one heading; \<open>before\<close> are the keys of the columns to its left.\<close>

definition headerIssue ::
    "'a csv_shape_scheme \<Rightarrow> (jstext, jstext) jsmap \<Rightarrow> column_key list \<Rightarrow> jstext \<Rightarrow> column_key \<Rightarrow> csv_issue list" where
  "headerIssue shape labels before h k =
     (case k of
        KeyIgnored \<Rightarrow> []
      | KeyUnknown \<Rightarrow>
          [issue h (if h \<in> set (sh_order shape) \<or>
                       (case jget labels h of None \<Rightarrow> [] | Some a \<Rightarrow> a) \<in> set (sh_order shape)
                    then MsgNotFlat else MsgUnknownField)]
      | KeyOf _ \<Rightarrow> if k \<in> set before then [issue h MsgHeaderRepeated] else [])"

fun headerIssues ::
    "'a csv_shape_scheme \<Rightarrow> (jstext, jstext) jsmap \<Rightarrow> column_key list \<Rightarrow> jstext list \<Rightarrow> csv_issue list" where
  "headerIssues shape labels before [] = []"
| "headerIssues shape labels before (h # hs) =
     (let k = columnKey shape labels h
      in headerIssue shape labels before h k @ headerIssues shape labels (before @ [k]) hs)"

text \<open>The keys of the columns, \<open>None\<close> for an ignored one.\<close>

definition keyOption :: "column_key \<Rightarrow> jstext option" where
  "keyOption k = (case k of KeyOf s \<Rightarrow> Some s | _ \<Rightarrow> None)"

definition resolveCsvHeader ::
    "'a csv_shape_scheme \<Rightarrow> jstext list \<Rightarrow> (jstext, jstext) jsmap \<Rightarrow> csv_error + jstext option list" where
  "resolveCsvHeader shape rawHeader labels =
     (let header = map headerCell rawHeader;
          keys = map (columnKey shape labels) header;
          issues = headerIssues shape labels [] header @
                   (if KeyOf idKey \<in> set keys then [] else [issue idKey MsgColumnMissing])
      in if issues \<noteq> [] then Inl [(0, issues)] else Inr (map keyOption keys))"

section \<open>Rows\<close>

definition yesWords :: "jstext list" where
  "yesWords = [[26159], js ''true'', js ''TRUE'', js ''1'']"
definition noWords :: "jstext list" where
  "noWords = [[21542], js ''false'', js ''FALSE'', js ''0'']"

definition integerOf :: "jstext \<Rightarrow> rat option" where
  "integerOf s =
     (case s of
        [] \<Rightarrow> None
      | c # r \<Rightarrow>
          if c = 45 then (if digitsText r then Some (- of_nat (natOf r)) else None)
          else if digitsText s then Some (of_nat (natOf s)) else None)"

definition decimalOf :: "jstext \<Rightarrow> rat option" where
  "decimalOf s =
     (case split_at 46 s of
        [a] \<Rightarrow> if digitsText a then Some (of_nat (natOf a)) else None
      | [a, b] \<Rightarrow>
          if digitsText a \<and> digitsText b \<and> length b \<le> 2
          then Some (of_nat (natOf a) + of_nat (natOf b) / 10 ^ length b) else None
      | _ \<Rightarrow> None)"

text \<open>One cell that has something in it.\<close>

definition convertCell :: "flat_type \<Rightarrow> jstext \<Rightarrow> csv_message + jval" where
  "convertCell t cell =
     (case t of
        FtString \<Rightarrow> Inr (JStr cell)
      | FtInteger \<Rightarrow>
          (case integerOf cell of Some n \<Rightarrow> Inr (JNum n) | None \<Rightarrow> Inl (MsgInteger cell))
      | FtDecimal \<Rightarrow>
          (case decimalOf cell of
             Some n \<Rightarrow> if 0 < n \<and> yuanToFen n \<noteq> None then Inr (JNum n) else Inl (MsgDecimal cell)
           | None \<Rightarrow> Inl (MsgDecimal cell))
      | FtBoolean \<Rightarrow>
          if cell \<in> set yesWords then Inr (JBool True)
          else if cell \<in> set noWords then Inr (JBool False) else Inl (MsgYesNo cell)
      | FtStrings \<Rightarrow>
          Inr (JArr (map JStr (filter (\<lambda>x. x \<noteq> []) (map trim (split_at 12289 cell))))))"

text \<open>The values so far and the issues, after the column with key \<open>h\<close>.\<close>

definition convertColumn ::
    "'a csv_shape_scheme \<Rightarrow> payload \<times> csv_issue list \<Rightarrow> jstext option \<Rightarrow> jstext \<Rightarrow> payload \<times> csv_issue list" where
  "convertColumn shape acc h raw =
     (case h of
        None \<Rightarrow> acc
      | Some k \<Rightarrow>
          (case acc of (values, issues) \<Rightarrow>
             (let t = jget (sh_flat shape) k;
                  cell = trim (unguardCell raw)
              in if cell = []
                 then (if t = Some FtStrings \<and> k \<in> set (sh_required shape)
                       then jset values k (JArr []) else values, issues)
                 else case convertCell (case t of Some u \<Rightarrow> u | None \<Rightarrow> FtStrings) cell of
                        Inr v \<Rightarrow> (jset values k v, issues)
                      | Inl m \<Rightarrow> (values, issues @ [issue k m]))))"

text \<open>\<open>cells[i] ?? ''\<close>: a row that is too short reads empty cells.\<close>

fun convertColumns ::
    "'a csv_shape_scheme \<Rightarrow> payload \<times> csv_issue list \<Rightarrow> jstext option list \<Rightarrow> jstext list \<Rightarrow> payload \<times> csv_issue list" where
  "convertColumns shape acc [] cells = acc"
| "convertColumns shape acc (h # hs) cells =
     (case cells of
        [] \<Rightarrow> convertColumns shape (convertColumn shape acc h []) hs []
      | c # cs \<Rightarrow> convertColumns shape (convertColumn shape acc h c) hs cs)"

definition orderedPayload :: "jstext list \<Rightarrow> payload \<Rightarrow> payload" where
  "orderedPayload order values = List.map_filter (\<lambda>k. map_option (Pair k) (jget values k)) order"

definition convertCsvRow ::
    "'a csv_shape_scheme \<Rightarrow> jstext option list \<Rightarrow> jstext list \<Rightarrow> payload \<times> csv_issue list" where
  "convertCsvRow shape keys cells =
     (let start = (if length cells \<noteq> length keys
                   then [issue [] (MsgColumns (length cells) (length keys))] else []);
          (values, issues) = convertColumns shape ([], start) keys cells
      in (orderedPayload (sh_order shape) values, issues))"

record csv_row_check =
  rc_row :: nat
  rc_cells :: "jstext list"
  rc_payload :: payload
  rc_issues :: "csv_issue list"

definition codeOf :: "payload \<Rightarrow> jstext" where
  "codeOf p = (case jget p idKey of None \<Rightarrow> [] | Some JNull \<Rightarrow> [] | Some v \<Rightarrow> textOf v)"

text \<open>Row number \<open>n\<close>; \<open>seen\<close> has the row of every code met so far.\<close>

definition checkOne ::
    "'a csv_shape_scheme \<Rightarrow> jstext option list \<Rightarrow> (payload \<Rightarrow> csv_issue list) \<Rightarrow> (jstext, nat) jsmap \<Rightarrow>
     nat \<Rightarrow> jstext list \<Rightarrow> csv_row_check" where
  "checkOne shape keys validate seen n cells =
     (let (p, issues) = convertCsvRow shape keys cells;
          checked = (if issues = [] then validate p else issues);
          twice = (if codeOf p = [] then None else jget seen (codeOf p))
      in \<lparr>rc_row = n, rc_cells = cells, rc_payload = p,
          rc_issues = checked @ (case twice of None \<Rightarrow> [] | Some r \<Rightarrow> [issue idKey (MsgDuplicate r)])\<rparr>)"

definition noteCode :: "(jstext, nat) jsmap \<Rightarrow> nat \<Rightarrow> jstext \<Rightarrow> (jstext, nat) jsmap" where
  "noteCode seen n code =
     (if code = [] \<or> jget seen code \<noteq> None then seen else jset seen code n)"

fun checkRowsFrom ::
    "'a csv_shape_scheme \<Rightarrow> jstext option list \<Rightarrow> (payload \<Rightarrow> csv_issue list) \<Rightarrow> (jstext, nat) jsmap \<Rightarrow>
     nat \<Rightarrow> jstext list list \<Rightarrow> csv_row_check list" where
  "checkRowsFrom shape keys validate seen n [] = []"
| "checkRowsFrom shape keys validate seen n (cells # body) =
     (let r = checkOne shape keys validate seen n cells
      in r # checkRowsFrom shape keys validate (noteCode seen n (codeOf (rc_payload r))) (n + 1) body)"

lemma checkOne_simps [simp]:
  "rc_row (checkOne shape keys v seen n cells) = n"
  "rc_cells (checkOne shape keys v seen n cells) = cells"
  "rc_payload (checkOne shape keys v seen n cells) = fst (convertCsvRow shape keys cells)"
  by (simp_all add: checkOne_def Let_def split: prod.split)

lemma checkOne_passed:
  "rc_issues (checkOne shape keys v seen n cells) = [] \<longleftrightarrow>
     snd (convertCsvRow shape keys cells) = [] \<and> v (fst (convertCsvRow shape keys cells)) = [] \<and>
     (codeOf (fst (convertCsvRow shape keys cells)) = [] \<or>
      jget seen (codeOf (fst (convertCsvRow shape keys cells))) = None)"
  by (auto simp: checkOne_def Let_def split: prod.split option.splits)

definition checkCsvRows ::
    "'a csv_shape_scheme \<Rightarrow> jstext option list \<Rightarrow> jstext list list \<Rightarrow> (payload \<Rightarrow> csv_issue list) \<Rightarrow>
     csv_row_check list" where
  "checkCsvRows shape keys body validate = checkRowsFrom shape keys validate [] 1 body"

section \<open>The server's import\<close>

definition prepareCatalogCsv ::
    "csv_shape \<Rightarrow> (payload \<Rightarrow> csv_issue list) \<Rightarrow> jstext \<Rightarrow> (jstext, jstext) jsmap \<Rightarrow> csv_error + payload list" where
  "prepareCatalogCsv shape validate csv labels =
     (if sh_nestedRequired shape \<noteq> [] then Inl (whole (MsgNested (sh_nestedRequired shape)))
      else case parseCatalogCsv csv of
             Inl e \<Rightarrow> Inl e
           | Inr [] \<Rightarrow> Inl (whole MsgNoRows)
           | Inr (rawHeader # body) \<Rightarrow>
               if body = [] then Inl (whole MsgNoRows)
               else if length body > CSV_MAX_ROWS then Inl (whole (MsgTooManyRows (length body)))
               else (case resolveCsvHeader shape rawHeader labels of
                       Inl e \<Rightarrow> Inl e
                     | Inr keys \<Rightarrow>
                         (let rows = checkCsvRows shape keys body validate;
                              bad = map (\<lambda>r. (rc_row r, rc_issues r)) (filter (\<lambda>r. rc_issues r \<noteq> []) rows)
                          in if bad \<noteq> [] then Inl bad else Inr (map rc_payload rows))))"
end
