(* ===== verification/CsvParts.thy ===== *)
theory CsvParts
  imports CatalogCsv Payload
begin

text \<open>
  How many files a CSV that is too large has to be split into (the limits at the end of
  shared/catalog-csv.ts): each part carries the header and stays within the rows, the characters and
  the bytes of the request. The count is the least possible one; the argument is stated once, for any
  bound that parts of a part keep.
\<close>

section \<open>The limits\<close>

definition CSV_MAX_CHARS :: nat where "CSV_MAX_CHARS = 60000"
definition CSV_MAX_BODY_BYTES :: nat where "CSV_MAX_BODY_BYTES = 64 * 1024"

text \<open>The bytes of the empty request, and of a text inside its JSON.\<close>

definition BODY_FRAME :: nat where "BODY_FRAME = 10"

definition escapedBytes :: "jstext \<Rightarrow> nat" where
  "escapedBytes s = jsonString s - 2"

definition csvBodyBytes :: "jstext \<Rightarrow> nat" where
  "csvBodyBytes csv = BODY_FRAME + escapedBytes csv"

record cost =
  co_chars :: nat
  co_bytes :: nat

definition lineCost :: "csv_row \<Rightarrow> nat \<Rightarrow> cost" where
  "lineCost cells frame =
     (let line = toCsv False LF [cells]
      in \<lparr>co_chars = length line, co_bytes = frame + escapedBytes line\<rparr>)"

definition tooBig :: "nat \<Rightarrow> nat \<Rightarrow> bool" where
  "tooBig chars bytes \<longleftrightarrow> chars > CSV_MAX_CHARS \<or> bytes > CSV_MAX_BODY_BYTES"

definition longRow :: "cost \<Rightarrow> csv_row \<Rightarrow> bool" where
  "longRow base r =
     (let c = lineCost r 0 in tooBig (co_chars base + co_chars c) (co_bytes base + co_bytes c))"

definition csvLongRows :: "csv_row \<Rightarrow> csv_row list \<Rightarrow> nat list" where
  "csvLongRows header rows =
     (let base = lineCost header BODY_FRAME
      in concat (map (\<lambda>(i, r). if longRow base r then [i + 1] else []) (enumerate 0 rows)))"

text \<open>The loop of \<open>csvParts\<close>: parts so far, then rows, characters and bytes of the current one.\<close>

fun partsFrom :: "cost \<Rightarrow> nat \<Rightarrow> nat \<Rightarrow> nat \<Rightarrow> nat \<Rightarrow> csv_row list \<Rightarrow> nat option" where
  "partsFrom base parts n chars bytes [] = Some parts"
| "partsFrom base parts n chars bytes (r # rows) =
     (let c = lineCost r 0
      in if longRow base r then None
         else if n > 0 \<and> (n + 1 > CSV_MAX_ROWS \<or> tooBig (chars + co_chars c) (bytes + co_bytes c))
         then partsFrom base (parts + 1) 1 (co_chars base + co_chars c) (co_bytes base + co_bytes c) rows
         else partsFrom base parts (n + 1) (chars + co_chars c) (bytes + co_bytes c) rows)"

text \<open>\<open>None\<close> is \<open>Infinity\<close>.\<close>

definition csvParts :: "csv_row \<Rightarrow> csv_row list \<Rightarrow> nat option" where
  "csvParts header rows =
     (let base = lineCost header BODY_FRAME
      in partsFrom base 1 0 (co_chars base) (co_bytes base) rows)"

section \<open>Filling parts one after the other\<close>

text \<open>A bound on parts that holds for the beginning and the end of a part it holds for.\<close>

locale part_bound =
  fixes fits :: "'a list \<Rightarrow> bool"
  assumes fits_split: "fits (xs @ ys) \<Longrightarrow> fits xs \<and> fits ys"
begin

fun fill :: "'a list \<Rightarrow> nat \<Rightarrow> 'a list \<Rightarrow> nat" where
  "fill cur n [] = n"
| "fill cur n (r # rs) =
     (if cur \<noteq> [] \<and> \<not> fits (cur @ [r]) then fill [r] (n + 1) rs else fill (cur @ [r]) n rs)"

lemma fill_reached:
  assumes "fits cur" and "\<forall>r \<in> set rs. fits [r]"
  shows "\<exists>ps. concat ps = cur @ rs \<and> n + length ps = fill cur n rs + 1 \<and> list_all fits ps"
  using assms
proof (induction rs arbitrary: cur n)
  case Nil
  then show ?case by (intro exI [of _ "[cur]"]) simp
next
  case (Cons r rs)
  show ?case
  proof (cases "cur \<noteq> [] \<and> \<not> fits (cur @ [r])")
    case True
    obtain ps where "concat ps = [r] @ rs" "n + 1 + length ps = fill [r] (n + 1) rs + 1" "list_all fits ps"
      using Cons.IH [of "[r]" "n + 1"] Cons.prems by auto
    then show ?thesis using True Cons.prems by (intro exI [of _ "cur # ps"]) auto
  next
    case False
    then have "fits (cur @ [r])" using Cons.prems by auto
    then show ?thesis using Cons.IH [of "cur @ [r]" n] Cons.prems False by simp
  qed
qed

text \<open>The current part is never longer than that of another split with as many parts.\<close>

lemma fill_least:
  assumes "rs = p @ concat qs" "fits (mine @ p)" "list_all fits qs" "[] \<notin> set qs"
    and "n < m \<or> n = m \<and> (\<exists>more. mine = more @ cur)"
  shows "fill cur n rs \<le> m + length qs"
  using assms
proof (induction rs arbitrary: cur n p qs mine m)
  case Nil
  then show ?case by auto
next
  case (Cons r rs)
  show ?case
  proof (cases p)
    case p: (Cons r' p')
    have r: "r' = r" "rs = p' @ concat qs" using Cons.prems(1) p by auto
    have fine: "fits (mine @ [r])" using fits_split [of "mine @ [r]" p'] Cons.prems(2) by (simp add: p r)
    have stay: "fits ((mine @ [r]) @ p')" using Cons.prems(2) by (simp add: p r)
    show ?thesis
    proof (cases "cur \<noteq> [] \<and> \<not> fits (cur @ [r])")
      case True
      have "n \<noteq> m"
      proof
        assume "n = m"
        then obtain pre where "mine = pre @ cur" using Cons.prems(5) by auto
        then show False using fits_split [of pre "cur @ [r]"] fine True by simp
      qed
      then have "n + 1 < m \<or> n + 1 = m \<and> (\<exists>pre. mine @ [r] = pre @ [r])" using Cons.prems(5) by auto
      from Cons.IH [OF r(2) stay Cons.prems(3,4) this] show ?thesis using True by simp
    next
      case False
      have "n < m \<or> n = m \<and> (\<exists>pre. mine @ [r] = pre @ cur @ [r])" using Cons.prems(5) by auto
      from Cons.IH [OF r(2) stay Cons.prems(3,4) this] show ?thesis using False by auto
    qed
  next
    case p: Nil
    then obtain q qs' where qs: "qs = q # qs'" using Cons.prems(1) by (cases qs) auto
    obtain r' q' where "q = r' # q'" using qs Cons.prems(4) by (cases q) auto
    then have q: "q = r # q'" "rs = q' @ concat qs'" using Cons.prems(1) p qs by auto
    have stay: "fits ([r] @ q')" using Cons.prems(3) qs q by simp
    have rest: "list_all fits qs'" "[] \<notin> set qs'" using Cons.prems(3,4) qs by auto
    show ?thesis
    proof (cases "cur \<noteq> [] \<and> \<not> fits (cur @ [r])")
      case True
      have "n + 1 < m + 1 \<or> n + 1 = m + 1 \<and> (\<exists>pre. [r] = pre @ [r])" using Cons.prems(5) by auto
      from Cons.IH [OF q(2) stay rest this] show ?thesis using True qs by auto
    next
      case False
      have "n < m + 1 \<or> n = m + 1 \<and> (\<exists>pre. [r] = pre @ cur @ [r])" using Cons.prems(5) by auto
      from Cons.IH [OF q(2) stay rest this] show ?thesis using False qs by auto
    qed
  qed
qed

lemma fill_optimal:
  assumes "concat ps = rs" "list_all fits ps" "rs \<noteq> []"
  shows "fill [] 1 rs \<le> length ps"
proof -
  define qs where "qs = filter (\<lambda>p. p \<noteq> []) ps"
  have c: "concat qs = rs" using assms(1) unfolding qs_def by (induction ps arbitrary: rs) auto
  then obtain q qs' where qs: "qs = q # qs'" using assms(3) by (cases qs) auto
  have all: "list_all fits qs" "[] \<notin> set qs" using assms(2) by (auto simp: qs_def list_all_iff)
  have "fill [] 1 rs \<le> 1 + length qs'"
    by (rule fill_least [of rs q qs' "[]"]) (use c all qs in auto)
  also have "\<dots> = length qs" by (simp add: qs)
  also have "\<dots> \<le> length ps" by (simp add: qs_def)
  finally show ?thesis .
qed

end

section \<open>A part within the limits\<close>

text \<open>What the server would refuse: too many rows, too long a text, too large a request.\<close>

definition partFits :: "csv_row \<Rightarrow> csv_row list \<Rightarrow> bool" where
  "partFits header rows \<longleftrightarrow>
     (let csv = toCsv False LF (header # rows)
      in length rows \<le> CSV_MAX_ROWS \<and> length csv \<le> CSV_MAX_CHARS \<and>
         csvBodyBytes csv \<le> CSV_MAX_BODY_BYTES)"

lemma jsonStringBody_append:
  assumes "a = [] \<or> \<not> isHigh (last a)"
  shows "jsonStringBody (a @ b) = jsonStringBody a + jsonStringBody b"
  using assms
proof (induction a rule: jsonStringBody.induct)
  case (2 c)
  then show ?case by (cases b) auto
next
  case (3 c d s)
  then show ?case by (cases "isHigh c \<and> isLow d") (auto split: if_splits)
qed simp

lemma toCsv_Cons: "toCsv q eol (r # rows) = toCsv q eol [r] @ toCsv q eol rows"
  by (simp add: toCsv_def)

lemma toCsv_append: "toCsv q eol (a @ b) = toCsv q eol a @ toCsv q eol b"
  by (simp add: toCsv_def)

lemma line_end: "\<exists>s. toCsv False LF [r] = s @ [10]"
  by (auto simp: toCsv_def LF_def)

lemma escapedBytes_append: "escapedBytes (toCsv False LF [r] @ s) = escapedBytes (toCsv False LF [r]) + escapedBytes s"
proof -
  obtain t where t: "toCsv False LF [r] = t @ [10]" using line_end by blast
  have "\<not> isHigh 10" by (simp add: isHigh_def)
  then show ?thesis using jsonStringBody_append [of "t @ [10]" s] by (simp add: t escapedBytes_def jsonString_def)
qed

definition charsOf :: "csv_row list \<Rightarrow> nat" where
  "charsOf rows = sum_list (map (\<lambda>r. co_chars (lineCost r 0)) rows)"

definition bytesOf :: "csv_row list \<Rightarrow> nat" where
  "bytesOf rows = sum_list (map (\<lambda>r. co_bytes (lineCost r 0)) rows)"

lemma costs_append [simp]:
  "charsOf (a @ b) = charsOf a + charsOf b" "bytesOf (a @ b) = bytesOf a + bytesOf b"
  "charsOf [] = 0" "bytesOf [] = 0"
  "charsOf [r] = co_chars (lineCost r 0)" "bytesOf [r] = co_bytes (lineCost r 0)"
  by (simp_all add: charsOf_def bytesOf_def)

lemma length_toCsv: "length (toCsv False LF rows) = charsOf rows"
proof (induction rows)
  case (Cons r rows)
  then show ?case using toCsv_Cons [of False LF r rows] by (simp add: charsOf_def lineCost_def Let_def)
qed (simp add: toCsv_def charsOf_def)

lemma bytes_toCsv: "escapedBytes (toCsv False LF rows) = bytesOf rows"
proof (induction rows)
  case (Cons r rows)
  then show ?case
    using toCsv_Cons [of False LF r rows] escapedBytes_append [of r]
    by (simp add: bytesOf_def lineCost_def Let_def)
qed (simp add: toCsv_def bytesOf_def escapedBytes_def jsonString_def)

lemma partFits_costs:
  "partFits header rows \<longleftrightarrow>
     length rows \<le> CSV_MAX_ROWS \<and>
     \<not> tooBig (co_chars (lineCost header BODY_FRAME) + charsOf rows)
        (co_bytes (lineCost header BODY_FRAME) + bytesOf rows)"
proof -
  have "charsOf (header # rows) = co_chars (lineCost header BODY_FRAME) + charsOf rows"
    by (simp add: charsOf_def lineCost_def Let_def)
  moreover have "BODY_FRAME + bytesOf (header # rows) = co_bytes (lineCost header BODY_FRAME) + bytesOf rows"
    by (simp add: bytesOf_def lineCost_def Let_def)
  ultimately show ?thesis
    by (auto simp: partFits_def Let_def csvBodyBytes_def length_toCsv bytes_toCsv tooBig_def not_less)
qed

interpretation csv_part: part_bound "partFits header" for header
  by unfold_locales (auto simp: partFits_costs tooBig_def not_less)

lemma longRow_iff: "longRow (lineCost header BODY_FRAME) r \<longleftrightarrow> \<not> partFits header [r]"
  by (simp add: partFits_costs longRow_def Let_def CSV_MAX_ROWS_def)

lemma partsFrom_fill:
  assumes "\<forall>r \<in> set rows. partFits header [r]" and "partFits header cur \<or> cur = []"
  shows "partsFrom (lineCost header BODY_FRAME) n (length cur)
      (co_chars (lineCost header BODY_FRAME) + charsOf cur)
      (co_bytes (lineCost header BODY_FRAME) + bytesOf cur) rows = Some (csv_part.fill header cur n rows)"
  using assms
proof (induction rows arbitrary: cur n)
  case (Cons r rows)
  let ?b = "lineCost header BODY_FRAME" and ?c = "lineCost r 0"
  have short: "\<not> longRow ?b r" using Cons.prems(1) by (simp add: longRow_iff)
  have over: "(length cur > 0 \<and> (length cur + 1 > CSV_MAX_ROWS \<or>
      tooBig (co_chars ?b + charsOf cur + co_chars ?c) (co_bytes ?b + bytesOf cur + co_bytes ?c))) =
      (cur \<noteq> [] \<and> \<not> partFits header (cur @ [r]))"
    by (auto simp: partFits_costs add.assoc not_le)
  show ?case
  proof (cases "cur \<noteq> [] \<and> \<not> partFits header (cur @ [r])")
    case True
    have "partsFrom ?b n (length cur) (co_chars ?b + charsOf cur) (co_bytes ?b + bytesOf cur) (r # rows) =
        partsFrom ?b (n + 1) 1 (co_chars ?b + co_chars ?c) (co_bytes ?b + co_bytes ?c) rows"
      unfolding partsFrom.simps Let_def over using short True by simp
    then show ?thesis using Cons.IH [of "[r]" "n + 1"] Cons.prems True by simp
  next
    case False
    have "partsFrom ?b n (length cur) (co_chars ?b + charsOf cur) (co_bytes ?b + bytesOf cur) (r # rows) =
        partsFrom ?b n (length cur + 1) (co_chars ?b + charsOf cur + co_chars ?c)
          (co_bytes ?b + bytesOf cur + co_bytes ?c) rows"
      unfolding partsFrom.simps Let_def over by (simp only: if_not_P [OF short] if_not_P [OF False])
    moreover have "partFits header (cur @ [r])" using False Cons.prems(1) by auto
    ultimately show ?thesis using Cons.IH [of "cur @ [r]" n] Cons.prems(1) False by (simp add: add.assoc)
  qed
qed simp

lemma partsFrom_long:
  "\<exists>r \<in> set rows. longRow base r \<Longrightarrow> partsFrom base n k chars bytes rows = None"
proof (induction rows arbitrary: n k chars bytes)
  case (Cons a rows)
  show ?case
  proof (cases "longRow base a")
    case False
    then have "\<exists>r \<in> set rows. longRow base r" using Cons.prems by auto
    then show ?thesis using False by (simp add: Let_def Cons.IH)
  qed (simp add: Let_def)
qed simp

lemma csvLongRows_none: "csvLongRows header rows = [] \<longleftrightarrow> (\<forall>r \<in> set rows. partFits header [r])"
proof -
  have "(concat (map (\<lambda>(i, r). if longRow base r then [i + 1] else []) (enumerate k rows)) = []) =
      (\<forall>r \<in> set rows. \<not> longRow base r)" for base k
    by (induction rows arbitrary: k) auto
  from this [of "lineCost header BODY_FRAME" 0] show ?thesis
    by (simp only: csvLongRows_def Let_def longRow_iff not_not)
qed

text \<open>One part is enough exactly for rows that fit together.\<close>

lemma csvParts_one:
  assumes "partFits header rows"
  shows "csvParts header rows = Some 1"
proof (cases "rows = []")
  case False
  have one: "\<forall>r \<in> set rows. partFits header [r]"
  proof
    fix r assume "r \<in> set rows"
    then obtain a b where "rows = a @ [r] @ b" by (metis in_set_conv_decomp append_Cons append_Nil)
    then show "partFits header [r]"
      using assms csv_part.fits_split [of header a "[r] @ b"] csv_part.fits_split [of header "[r]" b] by auto
  qed
  have "csvParts header rows = Some (csv_part.fill header [] 1 rows)"
    using partsFrom_fill [OF one, of "[]" 1] by (simp add: csvParts_def Let_def)
  moreover have "csv_part.fill header [] 1 rows \<le> 1"
    using csv_part.fill_optimal [of "[rows]" rows header] assms False by simp
  moreover have "1 \<le> csv_part.fill header cur 1 rs" for cur rs
  proof -
    have "n \<le> csv_part.fill header c n rs" for n c
      by (induction rs arbitrary: n c) (auto intro: le_trans [of _ "Suc _"] Suc_leD)
    then show ?thesis .
  qed
  ultimately show ?thesis by (metis le_antisym)
qed (simp add: csvParts_def Let_def)

lemma csvParts_oneD:
  assumes "csvParts header rows = Some n" "n \<le> 1" "rows \<noteq> []" "csvLongRows header rows = []"
  shows "partFits header rows"
proof -
  have one: "\<forall>r \<in> set rows. partFits header [r]" using assms(4) by (simp add: csvLongRows_none)
  obtain r rs where r: "rows = r # rs" using assms(3) by (cases rows) auto
  have "csvParts header rows = Some (csv_part.fill header [r] 1 rs)"
    using partsFrom_fill [OF one, of "[]" 1] r by (simp add: csvParts_def Let_def)
  moreover obtain ps where "concat ps = [r] @ rs" "1 + length ps = csv_part.fill header [r] 1 rs + 1"
      "list_all (partFits header) ps"
    using csv_part.fill_reached [of header "[r]" rs 1] one r by auto
  ultimately show ?thesis using assms(1,2) r by (cases ps) auto
qed

text \<open>Leaving rows out keeps a part within the limits.\<close>

lemma partFits_filter:
  assumes "partFits header (map f xs)"
  shows "partFits header (map f (filter P xs))"
proof -
  have "length (filter P xs) \<le> length xs" by (rule length_filter_le)
  then have "length xs \<le> CSV_MAX_ROWS \<Longrightarrow> length (filter P xs) \<le> CSV_MAX_ROWS" by (rule le_trans)
  moreover have "charsOf (map f (filter P xs)) \<le> charsOf (map f xs)"
    "bytesOf (map f (filter P xs)) \<le> bytesOf (map f xs)"
    by (induction xs) (auto simp: charsOf_def bytesOf_def)
  ultimately show ?thesis using assms by (auto simp: partFits_costs tooBig_def not_less)
qed

text \<open>
  C14: The count of parts is exact. A file with rows is told to be split into n parts exactly when it can be
  cut, in order, into n pieces that the server accepts with the header (rows, characters, bytes of the
  request) and into no fewer; it cannot be cut at all exactly when some row is listed as too long.
\<close>

theorem csv_parts_least:
  assumes "rows \<noteq> []"
  shows "case csvParts header rows of
      Some n \<Rightarrow> csvLongRows header rows = [] \<and>
        (\<exists>ps. concat ps = rows \<and> length ps = n \<and> list_all (partFits header) ps) \<and>
        (\<forall>ps. concat ps = rows \<and> list_all (partFits header) ps \<longrightarrow> n \<le> length ps)
    | None \<Rightarrow> csvLongRows header rows \<noteq> [] \<and>
        \<not> (\<exists>ps. concat ps = rows \<and> list_all (partFits header) ps)"
proof (cases "\<forall>r \<in> set rows. partFits header [r]")
  case True
  obtain r rs where r: "rows = r # rs" using assms by (cases rows) auto
  have e: "csvParts header rows = Some (csv_part.fill header [] 1 rows)"
    using partsFrom_fill [OF True, of "[]" 1] by (simp add: csvParts_def Let_def)
  have "partFits header [r]" using True r by simp
  then obtain ps where "concat ps = [r] @ rs" "1 + length ps = csv_part.fill header [r] 1 rs + 1"
      "list_all (partFits header) ps"
    using csv_part.fill_reached [of header "[r]" rs 1] True r by auto
  then have "\<exists>ps. concat ps = rows \<and> length ps = csv_part.fill header [] 1 rows \<and> list_all (partFits header) ps"
    by (auto simp: r)
  moreover have "csv_part.fill header [] 1 rows \<le> length ps"
    if "concat ps = rows" "list_all (partFits header) ps" for ps
    by (rule csv_part.fill_optimal [OF that assms])
  ultimately show ?thesis using True by (simp add: e csvLongRows_none)
next
  case False
  then obtain r where r: "r \<in> set rows" "\<not> partFits header [r]" by auto
  have "csvParts header rows = None"
    unfolding csvParts_def Let_def by (rule partsFrom_long) (use r longRow_iff in blast)
  moreover have "\<not> list_all (partFits header) ps" if whole: "concat ps = rows" for ps
  proof
    assume all: "list_all (partFits header) ps"
    obtain p where p: "p \<in> set ps" "r \<in> set p" using r(1) unfolding whole [symmetric] by auto
    then obtain a b where "p = a @ [r] @ b" by (metis in_set_conv_decomp append_Cons append_Nil)
    then have "partFits header [r]"
      using all p(1) csv_part.fits_split [of header a "[r] @ b"] csv_part.fits_split [of header "[r]" b]
      by (auto simp: list_all_iff)
    then show False using r(2) by simp
  qed
  moreover have "csvLongRows header rows \<noteq> []" using False by (simp add: csvLongRows_none)
  ultimately show ?thesis by auto
qed

lemma csv_parts_least_witness:
  "csvParts [idKey] [[[97]], [[98]]] = Some 1 \<and>
    (\<exists>ps. concat ps = [[[97]], [[98]]] \<and> length ps = 1 \<and> list_all (partFits [idKey]) ps)"
proof -
  have e: "csvParts [idKey] [[[97]], [[98]]] = Some 1"
    by (simp add: csvParts_def Let_def lineCost_def longRow_def tooBig_def toCsv_def csvCell_def
        needsQuotes_def LF_def escapedBytes_def jsonString_def jsonUnit_def isHigh_def isLow_def
        utf8Unit_def CSV_MAX_CHARS_def CSV_MAX_BODY_BYTES_def CSV_MAX_ROWS_def BODY_FRAME_def idKey_def js_def)
  show ?thesis using csv_parts_least [of "[[[97]], [[98]]]" "[idKey]"] e by simp
qed

end
