(* ===== verification/CsvImport.thy ===== *)
theory CsvImport
  imports CsvParts
begin

text \<open>
  The console's import dialog (console/src/catalog/csv-import.ts): the check of a file, the rows it
  submits and the file of refused rows it offers, and what joins it to the server: everything shown as
  importable is imported, and a downloaded file of refused rows means the same items when it is read
  again. The texts of messages, the check of an item and the text for a code that is taken are
  arguments.
\<close>

section \<open>The check of a file\<close>

record row_issue =
  ri_col :: "jstext option"
  ri_text :: jstext
  ri_raw :: "jstext option"

record row_result =
  rr_row :: nat
  rr_cells :: "jstext list"
  rr_payload :: payload
  rr_issues :: "row_issue list"

record csv_table =
  ct_header :: "jstext list"
  ct_keys :: "jstext option list"
  ct_rows :: "row_result list"

datatype csv_check =
  CkEmpty | CkWhole "nat option" "jstext list" | CkBig nat "nat option" | CkLong nat "nat list" | CkRows csv_table

definition columnLabel :: "entity_type \<Rightarrow> entity_csv_shape \<Rightarrow> jstext \<Rightarrow> jstext option" where
  "columnLabel e shape key =
     (case find (\<lambda>(k, _, _). k = key) (es_columns shape) of
        Some (_, l, _) \<Rightarrow> Some l
      | None \<Rightarrow> if key = idKey then Some (et_codeLabel e) else None)"

text \<open>The issues of the whole file, with the heading in brackets before the message.\<close>

definition wholeLines ::
    "(csv_message \<Rightarrow> jstext) \<Rightarrow> entity_type \<Rightarrow> entity_csv_shape \<Rightarrow> csv_error \<Rightarrow> jstext list" where
  "wholeLines say e shape err =
     map (\<lambda>i. if ci_path i = [] then say (ci_message i)
              else [12300] @ (case columnLabel e shape (ci_path i) of Some l \<Rightarrow> l | None \<Rightarrow> ci_path i) @
                   [12301] @ say (ci_message i))
       (concat (map snd err))"

text \<open>The cells of the columns that are submitted; cells beyond the header are kept.\<close>

fun sendable :: "jstext option list \<Rightarrow> 'a list \<Rightarrow> 'a list" where
  "sendable ks [] = []"
| "sendable [] (c # cs) = c # cs"
| "sendable (k # ks) (c # cs) = (if k = None then sendable ks cs else c # sendable ks cs)"

definition cellAt :: "jstext option list \<Rightarrow> jstext \<Rightarrow> jstext list \<Rightarrow> jstext" where
  "cellAt keys col cells =
     (case find (\<lambda>(k, _). k = Some col) (zip keys cells) of Some (_, c) \<Rightarrow> c | None \<Rightarrow> [])"

definition showIssue ::
    "(csv_message \<Rightarrow> jstext) \<Rightarrow> entity_type \<Rightarrow> entity_csv_shape \<Rightarrow> jstext option list \<Rightarrow> jstext list \<Rightarrow>
     csv_issue \<Rightarrow> row_issue" where
  "showIssue say e shape keys cells i =
     (if ci_path i = [] then \<lparr>ri_col = None, ri_text = say (ci_message i), ri_raw = None\<rparr>
      else let col = hd (split_at 46 (ci_path i));
               name = (case ci_label i of Some l \<Rightarrow> l
                       | None \<Rightarrow> (case columnLabel e shape col of Some l \<Rightarrow> l | None \<Rightarrow> ci_path i))
           in \<lparr>ri_col = Some col, ri_text = name @ [65306] @ say (ci_message i),
               ri_raw = (if ci_label i = None \<and> jget (sh_flat shape) col = Some FtInteger
                         then Some (trim (unguardCell (cellAt keys col cells))) else None)\<rparr>)"

definition textCode :: "payload \<Rightarrow> jstext" where
  "textCode p = (case jget p idKey of Some (JStr s) \<Rightarrow> s | _ \<Rightarrow> [])"

text \<open>\<open>existing\<close> has the codes the loaded list holds, each with the text that describes its item.\<close>

definition showRow ::
    "(csv_message \<Rightarrow> jstext) \<Rightarrow> entity_type \<Rightarrow> entity_csv_shape \<Rightarrow> (jstext, jstext) jsmap \<Rightarrow>
     jstext option list \<Rightarrow> csv_row_check \<Rightarrow> row_result" where
  "showRow say e shape existing keys r =
     \<lparr>rr_row = rc_row r, rr_cells = rc_cells r, rr_payload = rc_payload r,
      rr_issues = map (showIssue say e shape keys (rc_cells r)) (rc_issues r) @
        (case jget existing (textCode (rc_payload r)) of
           None \<Rightarrow> []
         | Some taken \<Rightarrow>
             [\<lparr>ri_col = Some idKey,
               ri_text = (case columnLabel e shape idKey of Some l \<Rightarrow> l | None \<Rightarrow> js ''undefined'') @
                         [65306] @ taken,
               ri_raw = None\<rparr>])\<rparr>"

definition checkCsv ::
    "(csv_message \<Rightarrow> jstext) \<Rightarrow> (payload \<Rightarrow> csv_issue list) \<Rightarrow> entity_type \<Rightarrow> jstext \<Rightarrow>
     (jstext, jstext) jsmap \<Rightarrow> csv_check" where
  "checkCsv say check e csv existing =
     (let shape = entityCsvShape e
      in case parseCatalogCsv csv of
           Inl err \<Rightarrow> CkWhole None (wholeLines say e shape err)
         | Inr [] \<Rightarrow> CkEmpty
         | Inr (header # body) \<Rightarrow>
             if body = [] then CkEmpty
             else (case resolveCsvHeader shape header (es_labels shape) of
                     Inl err \<Rightarrow> CkWhole (Some (length body)) (wholeLines say e shape err)
                   | Inr keys \<Rightarrow>
                       (let sendHead = sendable keys header; sendBody = map (sendable keys) body;
                            long = csvLongRows sendHead sendBody
                        in if long \<noteq> [] then CkLong (length body) long
                           else let parts = csvParts sendHead sendBody
                                in if parts = None \<or> the parts > 1 then CkBig (length body) parts
                                   else CkRows \<lparr>ct_header = header, ct_keys = keys,
                                          ct_rows = map (showRow say e shape existing keys)
                                            (checkCsvRows shape keys body check)\<rparr>)))"

definition goodRows :: "csv_table \<Rightarrow> row_result list" where
  "goodRows t = filter (\<lambda>r. rr_issues r = []) (ct_rows t)"

definition badRows :: "csv_table \<Rightarrow> row_result list" where
  "badRows t = filter (\<lambda>r. rr_issues r \<noteq> []) (ct_rows t)"

section \<open>What is submitted and what is downloaded\<close>

record csv_submission =
  cu_csv :: jstext
  cu_rows :: "nat list"
  cu_fits :: bool

definition submission :: "csv_table \<Rightarrow> csv_submission" where
  "submission t =
     (let head = sendable (ct_keys t) (ct_header t);
          good = map (\<lambda>r. sendable (ct_keys t) (rr_cells r)) (goodRows t)
      in \<lparr>cu_csv = toCsv False LF (head # good), cu_rows = map rr_row (goodRows t),
          cu_fits = (csvParts head good = Some 1)\<rparr>)"

definition padTo :: "nat \<Rightarrow> jstext list \<Rightarrow> jstext list" where
  "padTo w cells = take w cells @ replicate (w - length cells) []"

definition failedRow :: "jstext option list \<Rightarrow> nat \<Rightarrow> row_result \<Rightarrow> csv_row" where
  "failedRow keys width r =
     (let cells = sendable keys (rr_cells r)
      in padTo width cells @ [joinWith [65307] (map ri_text (rr_issues r))] @ drop width cells)"

definition failedTable :: "csv_table \<Rightarrow> csv_row list" where
  "failedTable t =
     (let head = sendable (ct_keys t) (ct_header t) @ [CSV_REASON_HEADER]
      in head # map (failedRow (ct_keys t) (length head - 1)) (badRows t))"

definition failedCsv :: "csv_table \<Rightarrow> jstext" where
  "failedCsv t = BOM @ toCsv True CRLF (map (map (\<lambda>c. guardCell (unguardCell c))) (failedTable t))"

section \<open>The columns that are submitted\<close>

definition used_keys :: "'k option list \<Rightarrow> 'k option list" where
  "used_keys keys = filter (\<lambda>k. k \<noteq> None) keys"

lemma used_keys_simps [simp]:
  "used_keys [] = []" "used_keys (None # ks) = used_keys ks" "used_keys (Some k # ks) = Some k # used_keys ks"
  "used_keys (ks @ ks') = used_keys ks @ used_keys ks'"
  by (simp_all add: used_keys_def)

lemma length_sendable: "length cells = length keys \<Longrightarrow> length (sendable keys cells) = length (used_keys keys)"
proof (induction keys cells rule: list_induct2')
  case (4 k ks c cs)
  then show ?case by (cases k) auto
qed auto

lemma sendable_map: "sendable keys (map f cells) = map f (sendable keys cells)"
  by (induction keys cells rule: sendable.induct) auto

lemma set_sendable: "set (sendable keys cells) \<subseteq> set cells"
  by (induction keys cells rule: sendable.induct) auto

lemma convertColumns_sendable:
  "length cells = length keys \<Longrightarrow>
     convertColumns shape acc (used_keys keys) (sendable keys cells) = convertColumns shape acc keys cells"
proof (induction keys cells arbitrary: acc rule: list_induct2')
  case (4 k ks c cs)
  then show ?case by (cases k) (auto simp: convertColumn_def)
qed auto

lemma convertCsvRow_sendable:
  assumes "length cells = length keys"
  shows "convertCsvRow shape (used_keys keys) (sendable keys cells) = convertCsvRow shape keys cells"
  by (simp only: convertCsvRow_def length_sendable [OF assms] convertColumns_sendable [OF assms] assms simp_thms if_False)

lemma row_length: "convertCsvRow shape keys cells = (p, []) \<Longrightarrow> length cells = length keys"
proof -
  have keeps: "snd acc \<noteq> [] \<Longrightarrow> snd (convertColumns shape acc ks cs) \<noteq> []" for acc ks cs
  proof (induction shape acc ks cs rule: convertColumns.induct)
    case (2 shape acc h hs cells)
    have "snd (convertColumn shape acc h raw) \<noteq> []" for raw
      using 2(3) by (auto simp: convertColumn_def Let_def split: option.splits prod.splits sum.splits)
    then show ?case using 2 by (auto split: list.split)
  qed simp
  show "convertCsvRow shape keys cells = (p, []) \<Longrightarrow> length cells = length keys"
    using keeps [of "([], [issue [] (MsgColumns (length cells) (length keys))])" keys cells]
    by (auto simp: convertCsvRow_def Let_def split: prod.splits if_splits)
qed

text \<open>A shape is read through its columns only: the console's and the server's agree.\<close>

lemma truncate_simps [simp]:
  "sh_flat (csv_shape.truncate s) = sh_flat s" "sh_order (csv_shape.truncate s) = sh_order s"
  "sh_required (csv_shape.truncate s) = sh_required s"
  "sh_nestedRequired (csv_shape.truncate s) = sh_nestedRequired s"
  by (simp_all add: csv_shape.defs)

lemma columnKey_truncate [simp]: "columnKey (csv_shape.truncate s) = columnKey s"
  by (intro ext) (simp only: columnKey_def truncate_simps)

lemma headerIssues_truncate [simp]: "headerIssues (csv_shape.truncate s) labels before hs = headerIssues s labels before hs"
  by (induction hs arbitrary: before)
    (simp_all only: headerIssues.simps headerIssue_def Let_def columnKey_truncate truncate_simps)

lemma resolve_truncate [simp]: "resolveCsvHeader (csv_shape.truncate s) h l = resolveCsvHeader s h l"
  by (simp add: resolveCsvHeader_def)

lemma convertColumns_truncate: "convertColumns (csv_shape.truncate s) acc ks cs = convertColumns s acc ks cs"
proof -
  have "convertColumn (csv_shape.truncate s) = convertColumn s" by (intro ext) (simp only: convertColumn_def truncate_simps)
  then show ?thesis by (induction ks arbitrary: acc cs) (auto split: list.split)
qed

lemma convertCsvRow_truncate [simp]: "convertCsvRow (csv_shape.truncate s) ks cs = convertCsvRow s ks cs"
  by (simp add: convertCsvRow_def convertColumns_truncate)

lemma checkRowsFrom_truncate [simp]:
  "checkRowsFrom (csv_shape.truncate s) keys v seen n body = checkRowsFrom s keys v seen n body"
proof (induction body arbitrary: seen n)
  case (Cons cells body)
  have "checkOne (csv_shape.truncate s) keys v seen n cells = checkOne s keys v seen n cells" for seen n cells
    by (simp only: checkOne_def convertCsvRow_truncate)
  then show ?case using Cons by (simp only: checkRowsFrom.simps)
qed simp

section \<open>The header that is submitted\<close>

lemma trim_space: "js_space c \<Longrightarrow> trim (c # s) = trim s"
  by (simp add: trim_def)

lemma headerCell_trim: "headerCell h = trim h"
  by (cases h) (simp_all add: headerCell_def unguardCell_def trim_space js_space_def)

text \<open>The first cell loses a byte order mark that is written as it is.\<close>

definition unmark :: "csv_row \<Rightarrow> csv_row" where
  "unmark header =
     (case header of
        (c # cs) # hs \<Rightarrow> if c = 65279 \<and> \<not> needsQuotes (c # cs) then cs # hs else header
      | _ \<Rightarrow> header)"

lemma unmark_headings: "map headerCell (unmark header) = map headerCell header"
  by (auto simp: unmark_def headerCell_trim trim_space js_space_def split: list.split)

lemma joinWith_Cons: "joinWith sep ((c # x) # xs) = c # joinWith sep (x # xs)"
  by (cases xs) auto

lemma parse_submitted:
  "parseCsv (toCsv False LF (header # rows)) = Some (filter filled (unmark header # rows))"
proof (cases "\<exists>cs hs. header = (65279 # cs) # hs \<and> \<not> needsQuotes (65279 # cs)")
  case True
  then obtain cs hs where h: "header = (65279 # cs) # hs" "\<not> needsQuotes (65279 # cs)" by blast
  then have n: "\<not> needsQuotes cs" by (simp add: needsQuotes_def)
  have "toCsv False LF (header # rows) = 65279 # toCsv False LF ((cs # hs) # rows)"
    using h(2) n by (simp add: toCsv_def h(1) csvCell_def joinWith_Cons)
  then show ?thesis
    using scan_rows [of LF False "(cs # hs) # rows" "[]"] h by (simp add: parseCsv_def csvEnd_def unmark_def)
next
  case False
  have "hd (toCsv False LF (header # rows)) \<noteq> 65279"
  proof (cases header)
    case (Cons h hs)
    have start: "joinWith [44] (x # xs) = x @ (if xs = [] then [] else 44 # joinWith [44] xs)" for x xs
      by (cases xs) auto
    show ?thesis
    proof (cases h)
      case Nil
      then show ?thesis by (simp add: toCsv_def Cons start LF_def csvCell_def needsQuotes_def)
    next
      case (Cons c cs)
      then show ?thesis
        using False \<open>header = h # hs\<close> by (auto simp: toCsv_def start csvCell_def)
    qed
  qed (simp add: toCsv_def LF_def)
  moreover have "unmark header = header" using False by (auto simp: unmark_def split: list.splits)
  ultimately show ?thesis using parse_plain [of LF False "header # rows"] by simp
qed


text \<open>The headings that were accepted are accepted again without the ignored columns.\<close>

lemma keyOption_None: "keyOption k = None \<longleftrightarrow> k = KeyIgnored \<or> k = KeyUnknown"
  by (cases k) (auto simp: keyOption_def)

lemma headerIssues_sendable:
  assumes "headerIssues shape labels before hs = []" and "set before' \<subseteq> set before"
    and "ks = map (columnKey shape labels) hs"
  shows "headerIssues shape labels before' (sendable (map keyOption ks) hs) = [] \<and>
    map (columnKey shape labels) (sendable (map keyOption ks) hs) = filter (\<lambda>k. keyOption k \<noteq> None) ks"
  using assms
proof (induction hs arbitrary: before before' ks)
  case (Cons h hs)
  define k where "k = columnKey shape labels h"
  have one: "headerIssue shape labels before h k = []" "headerIssues shape labels (before @ [k]) hs = []"
    using Cons.prems(1) by (simp_all add: k_def Let_def)
  have ks: "ks = k # map (columnKey shape labels) hs" using Cons.prems(3) by (simp add: k_def)
  show ?case
  proof (cases k)
    case (KeyOf key)
    have "headerIssue shape labels before' h k = []"
      using one(1) Cons.prems(2) by (auto simp: headerIssue_def KeyOf split: if_splits)
    moreover have "set (before' @ [k]) \<subseteq> set (before @ [k])" using Cons.prems(2) by auto
    ultimately show ?thesis
      using Cons.IH [OF one(2) _ refl, of "before' @ [k]"] ks KeyOf by (simp add: keyOption_def k_def [symmetric])
  next
    case KeyIgnored
    then show ?thesis
      using Cons.IH [OF one(2) _ refl, of before'] ks Cons.prems(2) by (auto simp: keyOption_def)
  next
    case KeyUnknown
    then show ?thesis using one(1) by (simp add: headerIssue_def)
  qed
qed simp

lemma resolve_sendable:
  assumes "resolveCsvHeader shape header labels = Inr keys"
  shows "resolveCsvHeader shape (unmark (sendable keys header)) labels = Inr (used_keys keys)"
proof -
  define hs where "hs = map headerCell header"
  define ks where "ks = map (columnKey shape labels) hs"
  have ok: "headerIssues shape labels [] hs = []" "KeyOf idKey \<in> set ks" and keys: "keys = map keyOption ks"
    using assms by (auto simp: resolveCsvHeader_def Let_def hs_def ks_def comp_def split: if_splits)
  have sent: "map headerCell (unmark (sendable keys header)) = sendable (map keyOption ks) hs"
    by (simp add: unmark_headings sendable_map [symmetric] keys hs_def)
  have r: "headerIssues shape labels [] (sendable (map keyOption ks) hs) = []"
      "map (columnKey shape labels) (sendable (map keyOption ks) hs) = filter (\<lambda>k. keyOption k \<noteq> None) ks"
    using headerIssues_sendable [OF ok(1) _ ks_def, of "[]"] by auto
  have "KeyOf idKey \<in> set (filter (\<lambda>k. keyOption k \<noteq> None) ks)" using ok(2) by (simp add: keyOption_def)
  moreover have "map keyOption (filter (\<lambda>k. keyOption k \<noteq> None) ks) = used_keys keys"
    by (simp add: keys used_keys_def filter_map comp_def)
  ultimately show ?thesis
    unfolding resolveCsvHeader_def sent Let_def r by simp
qed

text \<open>One heading of the file has text: that of the codes.\<close>

definition named :: "'a csv_shape_scheme \<Rightarrow> (jstext, jstext) jsmap \<Rightarrow> bool" where
  "named shape labels \<longleftrightarrow> jget (sh_flat shape) [] = None \<and> jget labels [] = None"

lemma header_filled:
  assumes "resolveCsvHeader shape header labels = Inr keys" and "named shape labels"
  shows "filled header"
proof -
  have "KeyOf idKey \<in> set (map (columnKey shape labels) (map headerCell header))"
    using assms(1) by (auto simp: resolveCsvHeader_def Let_def split: if_splits)
  then obtain h where h: "h \<in> set header" "columnKey shape labels (headerCell h) = KeyOf idKey" by auto
  have "h \<noteq> []"
  proof
    assume "h = []"
    then show False using h(2) assms(2)
      by (simp add: headerCell_trim columnKey_def named_def CSV_REASON_HEADER_def split: if_splits)
  qed
  then show ?thesis using h(1) by (auto simp: filled_def list_ex_iff)
qed

section \<open>The rows that are submitted\<close>

text \<open>An item has a code only where a cell has text.\<close>

lemma convertColumns_id:
  assumes "jget (sh_flat shape) idKey = Some FtString" and "\<not> filled cells" and "jget (fst acc) idKey = None"
  shows "jget (fst (convertColumns shape acc ks cells)) idKey = None"
proof -
  have blank: "jget (fst (convertColumn shape a k [])) idKey = None" if "jget (fst a) idKey = None" for a k
    using that assms(1) by (auto simp: convertColumn_def Let_def unguardCell_def split: option.splits prod.splits)
  show ?thesis
    using assms(2,3)
  proof (induction ks arbitrary: acc cells)
    case (Cons h hs)
    show ?case
    proof (cases cells)
      case Nil
      then show ?thesis using Cons.IH [of cells "convertColumn shape acc h []"] Cons.prems blank by simp
    next
      case (Cons c cs)
      then have "c = []" "\<not> filled cs" using Cons.prems by (auto simp: filled_def)
      then show ?thesis
        using Cons.IH [of cs "convertColumn shape acc h []"] Cons.prems(2) blank \<open>cells = c # cs\<close> by simp
    qed
  qed simp
qed

lemma row_with_code_filled:
  assumes "convertCsvRow shape keys cells = (p, iss)" "jget p idKey \<noteq> None"
    and "jget (sh_flat shape) idKey = Some FtString"
  shows "filled cells"
proof (rule ccontr)
  assume "\<not> filled cells"
  then have none: "jget (fst (convertColumns shape ([], i) keys cells)) idKey = None" for i
    using convertColumns_id [OF assms(3)] by simp
  have order: "jget (orderedPayload os vs) k = None" if "jget vs k = None" for os vs and k :: jstext
    using that by (induction os) (auto simp: orderedPayload_def List.map_filter_simps split: option.split)
  have "jget p idKey = None"
    using assms(1) none by (auto simp: convertCsvRow_def Let_def split: prod.splits intro!: order) (metis fst_conv)+
  then show False using assms(2) by simp
qed


text \<open>
  Rows without issues, submitted alone, are rows without issues for the server: the codes it has seen
  are among those the console had seen.
\<close>

lemma resubmit:
  assumes "\<And>p. check p = [] \<Longrightarrow> validate p = []"
    and "\<And>r. r \<in> set (checkRowsFrom shape keys check seen n body) \<Longrightarrow> P r \<Longrightarrow> rc_issues r = []"
    and "\<And>c. jget seen c = None \<Longrightarrow> jget seen' c = None"
    and "out = checkRowsFrom shape (used_keys keys) validate seen' n'
      (map (\<lambda>r. sendable keys (rc_cells r)) (filter P (checkRowsFrom shape keys check seen n body)))"
  shows "list_all (\<lambda>r. rc_issues r = []) out \<and>
    map rc_payload out = map rc_payload (filter P (checkRowsFrom shape keys check seen n body))"
  using assms(2-4)
proof (induction body arbitrary: seen seen' n n' out)
  case (Cons cells body)
  define r where "r = checkOne shape keys check seen n cells"
  define p where "p = fst (convertCsvRow shape keys cells)"
  define seen2 where "seen2 = noteCode seen n (codeOf p)"
  have rows: "checkRowsFrom shape keys check seen n (cells # body) = r # checkRowsFrom shape keys check seen2 (n + 1) body"
    by (simp add: Let_def r_def seen2_def p_def)
  have later: "\<And>x. x \<in> set (checkRowsFrom shape keys check seen2 (n + 1) body) \<Longrightarrow> P x \<Longrightarrow> rc_issues x = []"
    using Cons.prems(1) unfolding rows by (metis list.set_intros(2))
  show ?case
  proof (cases "P r")
    case True
    then have "rc_issues r = []" using Cons.prems(1) unfolding rows by (metis list.set_intros(1))
    then have ok: "snd (convertCsvRow shape keys cells) = []" "check p = []" "codeOf p = [] \<or> jget seen (codeOf p) = None"
      by (simp_all add: r_def checkOne_passed p_def)
    have conv: "convertCsvRow shape keys cells = (p, [])" using ok(1) by (simp add: p_def prod_eq_iff)
    have conv': "convertCsvRow shape (used_keys keys) (sendable keys cells) = (p, [])"
      by (simp only: convertCsvRow_sendable [OF row_length [OF conv]] conv)
    define q where "q = checkOne shape (used_keys keys) validate seen' n' (sendable keys cells)"
    have q: "rc_issues q = []" "rc_payload q = p"
      using ok(3) Cons.prems(2) assms(1) [OF ok(2)] by (auto simp: q_def checkOne_passed conv')
    define seen3 where "seen3 = noteCode seen' n' (codeOf p)"
    have "\<And>c. jget seen2 c = None \<Longrightarrow> jget seen3 c = None"
      using Cons.prems(2) ok(3) by (auto simp: seen2_def seen3_def noteCode_def split: if_splits)
    note sub = this
    define out2 where "out2 = checkRowsFrom shape (used_keys keys) validate seen3 (n' + 1)
        (map (\<lambda>r. sendable keys (rc_cells r)) (filter P (checkRowsFrom shape keys check seen2 (n + 1) body)))"
    note IH = Cons.IH [OF later sub out2_def]
    have "out = q # out2"
      unfolding Cons.prems(3) rows out2_def using True by (simp add: Let_def q_def seen3_def conv' r_def)
    then show ?thesis unfolding rows using IH q True by (simp add: r_def p_def)
  next
    case False
    have "\<And>c. jget seen2 c = None \<Longrightarrow> jget seen' c = None"
      using Cons.prems(2) by (auto simp: seen2_def noteCode_def split: if_splits)
    from Cons.IH [OF later this] show ?thesis using False Cons.prems(3) unfolding rows by simp
  qed
qed simp

text \<open>Every row that is checked is the conversion of its cells.\<close>

lemma checked_row:
  "r \<in> set (checkRowsFrom shape keys check seen n body) \<Longrightarrow>
     rc_cells r \<in> set body \<and> rc_payload r = fst (convertCsvRow shape keys (rc_cells r)) \<and>
     (rc_issues r = [] \<longrightarrow> snd (convertCsvRow shape keys (rc_cells r)) = [] \<and> check (rc_payload r) = [])"
  by (induction body arbitrary: seen n) (auto simp: Let_def checkOne_passed)

section \<open>The text that is submitted\<close>

definition cellChars :: "csv_row list \<Rightarrow> nat set" where
  "cellChars rows = (\<Union>r \<in> set rows. \<Union>c \<in> set r. set c)"

lemma set_joinWith: "set (joinWith sep xs) \<subseteq> set sep \<union> (\<Union>x \<in> set xs. set x)"
  by (induction sep xs rule: joinWith.induct) auto

lemma toCsv_chars: "set (toCsv False LF rows) \<subseteq> {10, 34, 44} \<union> cellChars rows"
proof -
  have cell: "set (csvCell False c) \<subseteq> {34} \<union> set c" for c
    by (auto simp: csvCell_def doubleQuotes_def)
  have "set (joinWith [44] (map (csvCell False) r)) \<subseteq> {34, 44} \<union> (\<Union>c \<in> set r. set c)" for r
    using set_joinWith [of "[44]" "map (csvCell False) r"] cell by fastforce
  then have "set (joinWith [44] (map (csvCell False) r) @ LF) \<subseteq> {10, 34, 44} \<union> cellChars rows"
    if "r \<in> set rows" for r using that by (fastforce simp: cellChars_def LF_def)
  then show ?thesis unfolding toCsv_def set_concat set_map image_image UN_subset_iff by blast
qed

definition charsWithin :: "nat set \<Rightarrow> csv_state \<Rightarrow> bool" where
  "charsWithin A st \<longleftrightarrow> cellChars (cs_rows st) \<subseteq> A \<and> cellChars [cs_row st] \<subseteq> A \<and> set (cs_field st) \<subseteq> A"

lemma within_steps:
  assumes "charsWithin A st"
  shows "charsWithin A (endField st)" "charsWithin A (endRow st)" "charsWithin A (st\<lparr>cs_quoted := b\<rparr>)"
    "ch \<in> A \<Longrightarrow> charsWithin A (addChar ch st)"
  using assms by (auto simp: scan_defs cellChars_def charsWithin_def)

lemma scan_within: "charsWithin A st \<Longrightarrow> set s \<subseteq> A \<Longrightarrow> charsWithin A (csvLoop s st)"
proof (induction s st rule: csvLoop.induct)
  case (2 ch rest st)
  show ?case
    unfolding csvLoop.simps(2) [of ch rest st]
    using 2 by (auto simp: within_steps simp del: csvLoop.simps(2) split: list.split)
qed simp

lemma parseCsv_chars:
  assumes "parseCsv s = Some rows"
  shows "cellChars rows \<subseteq> set s"
proof -
  have scan: "charsWithin (set s) (csvLoop t (fresh_line []))" if "set t \<subseteq> set s" for t
    by (rule scan_within) (use that in \<open>simp_all add: charsWithin_def cellChars_def\<close>)
  define t where "t = (case s of c # cs \<Rightarrow> if c = 65279 then cs else s | [] \<Rightarrow> [])"
  define st where "st = csvLoop t (fresh_line [])"
  have "set t \<subseteq> set s" by (auto simp: t_def split: list.splits if_splits)
  then have w: "charsWithin (set s) st" unfolding st_def by (rule scan)
  have "rows = cs_rows st \<or> rows = cs_rows (endRow st)"
    using assms by (auto simp: parseCsv_def t_def [symmetric] st_def [symmetric] csvEnd_def split: if_splits)
  then show ?thesis using w within_steps(2) [OF w] by (auto simp: charsWithin_def)
qed


section \<open>Everything shown as importable is imported\<close>

lemma checked_cells: "map rc_cells (checkRowsFrom shape keys check seen n body) = body"
  by (induction body arbitrary: seen n) (simp_all add: Let_def)

lemma checkCsv_rows:
  assumes "checkCsv say check e csv existing = CkRows t"
  obtains header body keys where "65533 \<notin> set csv" "parseCsv csv = Some (header # body)" "body \<noteq> []"
    "resolveCsvHeader (entityCsvShape e) header (csvLabelsOf e) = Inr keys"
    "partFits (sendable keys header) (map (sendable keys) body)"
    "t = \<lparr>ct_header = header, ct_keys = keys,
          ct_rows = map (showRow say e (entityCsvShape e) existing keys)
            (checkCsvRows (entityCsvShape e) keys body check)\<rparr>"
proof -
  obtain header body where p: "parseCatalogCsv csv = Inr (header # body)" "body \<noteq> []"
    using assms by (auto simp: checkCsv_def Let_def split: sum.splits list.splits if_splits)
  obtain keys where k: "resolveCsvHeader (entityCsvShape e) header (csvLabelsOf e) = Inr keys"
    using assms p by (auto simp: checkCsv_def Let_def csvLabelsOf_def split: sum.splits)
  have rest: "csvLongRows (sendable keys header) (map (sendable keys) body) = []"
      "\<not> (csvParts (sendable keys header) (map (sendable keys) body) = None \<or>
          the (csvParts (sendable keys header) (map (sendable keys) body)) > 1)"
      "t = \<lparr>ct_header = header, ct_keys = keys,
          ct_rows = map (showRow say e (entityCsvShape e) existing keys)
            (checkCsvRows (entityCsvShape e) keys body check)\<rparr>"
    using assms p k by (auto simp: checkCsv_def Let_def csvLabelsOf_def split: if_splits)
  then obtain n where n: "csvParts (sendable keys header) (map (sendable keys) body) = Some n" "n \<le> 1" by auto
  have "partFits (sendable keys header) (map (sendable keys) body)"
    by (rule csvParts_oneD [OF n]) (use p rest in auto)
  moreover have "65533 \<notin> set csv" "parseCsv csv = Some (header # body)"
    using p(1) by (auto simp: parseCatalogCsv_def split: if_splits option.splits)
  ultimately show thesis using that p(2) k rest(3) by blast
qed

lemma cellChars_Cons: "cellChars (r # rows) = (\<Union>c \<in> set r. set c) \<union> cellChars rows"
  by (simp add: cellChars_def)

lemma cellChars_sendable:
  "set rs \<subseteq> set body \<Longrightarrow> cellChars (sendable keys header # map (sendable keys) rs) \<subseteq> cellChars (header # body)"
  using set_sendable [of keys] by (fastforce simp: cellChars_def)

text \<open>
  C15: What the console shows as importable is what the server imports. When the check of a file gives a table
  with rows that may be imported, the text the console submits for them stays within the server's
  limits, and the server, whose schema accepts every item the console's check accepts, accepts that text as a whole and
  makes of it exactly the items shown, in their order. The headings must have text, and the check
  must refuse an item without a code.
\<close>

theorem submitted_rows_arrive:
  assumes "checkCsv say check e csv existing = CkRows t" and "goodRows t \<noteq> []"
    and "shape = csv_shape.truncate (entityCsvShape e)" and "sh_nestedRequired shape = []"
    and "named shape (csvLabelsOf e)" and "jget (sh_flat shape) idKey = Some FtString"
    and "\<And>p. check p = [] \<Longrightarrow> validate p = [] \<and> jget p idKey \<noteq> None"
  shows "cu_fits (submission t) \<and>
    prepareCatalogCsv shape validate (cu_csv (submission t)) (csvLabelsOf e) =
      Inr (map rr_payload (goodRows t))"
proof -
  obtain header body keys where f: "65533 \<notin> set csv" "parseCsv csv = Some (header # body)"
    "resolveCsvHeader (entityCsvShape e) header (csvLabelsOf e) = Inr keys"
    "partFits (sendable keys header) (map (sendable keys) body)"
    and t: "t = \<lparr>ct_header = header, ct_keys = keys,
          ct_rows = map (showRow say e (entityCsvShape e) existing keys)
            (checkCsvRows (entityCsvShape e) keys body check)\<rparr>"
    by (rule checkCsv_rows [OF assms(1)])
  define rows where "rows = checkRowsFrom shape keys check [] 1 body"
  define P where "P r \<longleftrightarrow> rr_issues (showRow say e (entityCsvShape e) existing keys r) = []" for r
  define head where "head = sendable keys header"
  define good where "good = map (\<lambda>r. sendable keys (rc_cells r)) (filter P rows)"
  have goodR: "goodRows t = map (showRow say e (entityCsvShape e) existing keys) (filter P rows)"
    by (simp add: goodRows_def t checkCsvRows_def rows_def assms(3) filter_map comp_def P_def [abs_def])
  have payloads: "map rr_payload (goodRows t) = map rc_payload (filter P rows)"
    by (simp add: goodR showRow_def comp_def)
  have sent: "cu_csv (submission t) = toCsv False LF (head # good)"
      "cu_fits (submission t) = (csvParts head good = Some 1)"
    unfolding submission_def goodR Let_def by (simp_all add: t head_def good_def showRow_def comp_def)
  have cells: "map rc_cells rows = body" by (simp add: rows_def checked_cells)
  have fits: "partFits head good"
    using partFits_filter [of head "\<lambda>r. sendable keys (rc_cells r)" rows P] f(4)
    by (simp add: head_def good_def cells [symmetric] comp_def)
  have passed: "\<And>r. r \<in> set rows \<Longrightarrow> P r \<Longrightarrow> rc_issues r = []" by (simp add: P_def showRow_def)
  have r: "resolveCsvHeader shape (unmark head) (csvLabelsOf e) = Inr (used_keys keys)"
    using resolve_sendable [OF f(3)] by (simp add: head_def assms(3))
  have filledH: "filled (unmark head)" by (rule header_filled [OF r assms(5)])
  have filledG: "filled c" if c: "c \<in> set good" for c
  proof -
    obtain x where x: "x \<in> set rows" "P x" "c = sendable keys (rc_cells x)" using c by (auto simp: good_def)
    have cx: "convertCsvRow shape keys (rc_cells x) = (rc_payload x, [])" "check (rc_payload x) = []"
      using checked_row [of x shape keys check "[]" 1 body] x(1) passed [OF x(1,2)]
      by (auto simp: rows_def prod_eq_iff)
    have cy: "convertCsvRow shape (used_keys keys) c = (rc_payload x, [])"
      using convertCsvRow_sendable [OF row_length [OF cx(1)], of shape] cx(1) by (simp only: x(3))
    show ?thesis by (rule row_with_code_filled [OF cy _ assms(6)]) (use assms(7) [OF cx(2)] in simp)
  qed
  have parse: "parseCsv (toCsv False LF (head # good)) = Some (unmark head # good)"
    using parse_submitted [of head good] filledH filledG by (simp add: filter_id_conv)
  have "cellChars (head # good) \<subseteq> cellChars (header # body)"
    unfolding head_def good_def map_map [symmetric, unfolded comp_def]
    by (rule order_trans [OF _ cellChars_sendable [of "map rc_cells (filter P rows)" body keys header]])
      (auto simp: cells [symmetric] comp_def)
  then have "set (toCsv False LF (head # good)) \<subseteq> {10, 34, 44} \<union> set csv"
    using toCsv_chars [of "head # good"] parseCsv_chars [OF f(2)] by blast
  then have "65533 \<notin> set (toCsv False LF (head # good))" using f(1) by (auto dest: subsetD)
  then have parse': "parseCatalogCsv (cu_csv (submission t)) = Inr (unmark head # good)"
    by (simp add: parseCatalogCsv_def sent parse)
  define out where "out = checkRowsFrom shape (used_keys keys) validate [] 1 good"
  have out: "list_all (\<lambda>r. rc_issues r = []) out" "map rc_payload out = map rc_payload (filter P rows)"
    using resubmit [of check validate shape keys "[]" 1 body P "[]" out 1] assms(7) passed
    by (simp_all add: rows_def out_def good_def)
  have "filter (\<lambda>r. rc_issues r \<noteq> []) out = []" using out(1) by (simp add: list_all_iff filter_empty_conv)
  moreover have "length good \<le> CSV_MAX_ROWS" "good \<noteq> []"
    using fits assms(2) by (auto simp: partFits_def Let_def goodR good_def)
  ultimately have "prepareCatalogCsv shape validate (cu_csv (submission t)) (csvLabelsOf e) = Inr (map rc_payload out)"
    by (simp add: prepareCatalogCsv_def assms(4) parse' r checkCsvRows_def
        out_def [unfolded One_nat_def, symmetric] not_less Let_def)
  then show ?thesis using csvParts_one [OF fits] by (simp add: sent payloads out(2))
qed


section \<open>Refused rows that are downloaded and read again\<close>

definition regard :: "jstext \<Rightarrow> jstext" where
  "regard c = guardCell (unguardCell c)"

lemma regard_trim [simp]: "trim (unguardCell (regard c)) = trim (unguardCell c)"
  using headerCell_trim by (simp add: regard_def)

lemma regard_filled: "filled (map regard row) = filled row"
proof -
  have "regard c = [] \<longleftrightarrow> c = []" for c
    by (cases c) (auto simp: regard_def guardCell_def unguardCell_def formulaStart_def split: list.splits)
  then show ?thesis by (induction row) (auto simp: filled_def)
qed

lemma convertColumns_regard: "convertColumns shape acc ks (map regard cells) = convertColumns shape acc ks cells"
proof (induction ks arbitrary: acc cells)
  case (Cons k ks)
  have "convertColumn shape acc k (regard c) = convertColumn shape acc k c" for acc c
    by (simp only: convertColumn_def regard_trim)
  then show ?case using Cons by (cases cells) auto
qed simp

lemma headerIssues_append:
  "headerIssues shape labels before (a @ b) =
     headerIssues shape labels before a @ headerIssues shape labels (before @ map (columnKey shape labels) a) b"
  by (induction a arbitrary: before) (simp_all add: Let_def)

text \<open>No field of the entity is called like the column of the reasons.\<close>

definition reasonFree :: "'a csv_shape_scheme \<Rightarrow> (jstext, jstext) jsmap \<Rightarrow> bool" where
  "reasonFree shape labels \<longleftrightarrow> columnKey shape labels CSV_REASON_HEADER = KeyIgnored"

lemma headings_regard: "map headerCell (map regard xs) = map headerCell xs"
  by (simp add: headerCell_def comp_def)

lemma resolve_with_reasons:
  assumes "resolveCsvHeader shape header labels = Inr keys" and "reasonFree shape labels"
  shows "resolveCsvHeader shape (map regard (sendable keys header @ [CSV_REASON_HEADER])) labels = Inr (used_keys keys @ [None])"
proof -
  define hs where "hs = map headerCell header"
  define ks where "ks = map (columnKey shape labels) hs"
  have ok: "headerIssues shape labels [] hs = []" "KeyOf idKey \<in> set ks" and keys: "keys = map keyOption ks"
    using assms(1) by (auto simp: resolveCsvHeader_def Let_def hs_def ks_def comp_def split: if_splits)
  have reason: "headerCell CSV_REASON_HEADER = CSV_REASON_HEADER"
    by (simp add: headerCell_trim CSV_REASON_HEADER_def trim_def js_space_def)
  have sent: "map headerCell (map regard (sendable keys header @ [CSV_REASON_HEADER])) =
      sendable (map keyOption ks) hs @ [CSV_REASON_HEADER]"
    unfolding headings_regard by (simp add: reason sendable_map [symmetric] keys hs_def)
  have r: "headerIssues shape labels [] (sendable (map keyOption ks) hs) = []"
      "map (columnKey shape labels) (sendable (map keyOption ks) hs) = filter (\<lambda>k. keyOption k \<noteq> None) ks"
    using headerIssues_sendable [OF ok(1) _ ks_def, of "[]"] by auto
  have "KeyOf idKey \<in> set (filter (\<lambda>k. keyOption k \<noteq> None) ks)" using ok(2) by (simp add: keyOption_def)
  moreover have "map keyOption (filter (\<lambda>k. keyOption k \<noteq> None) ks) = used_keys keys"
    by (simp add: keys used_keys_def filter_map comp_def)
  moreover have "keyOption KeyIgnored = None" by (simp add: keyOption_def)
  ultimately show ?thesis
    unfolding resolveCsvHeader_def sent Let_def
    unfolding headerIssues_append map_append r
    using assms(2) by (simp add: reasonFree_def headerIssue_def)
qed

lemma joinWith_nonempty: "x \<noteq> [] \<Longrightarrow> joinWith sep (x # xs) \<noteq> []"
  by (cases xs) auto

text \<open>A row reads the same in the download, whatever number of cells it has.\<close>

lemma sendable_columns: "convertColumns shape acc (used_keys keys) (sendable keys cells) = convertColumns shape acc keys cells"
proof (induction keys arbitrary: acc cells)
  case (Cons k ks)
  have "convertColumns shape acc (used_keys ks) [] = convertColumns shape acc ks []" for acc
    using Cons.IH [of acc "[]"] by simp
  then show ?case using Cons.IH
    by (cases cells; cases k) (simp_all add: convertColumn_def [of _ _ None])
qed simp

lemma padded_columns:
  "convertColumns shape acc (ks @ [None]) (padTo (length ks) cs @ x # drop (length ks) cs) = convertColumns shape acc ks cs"
proof (induction ks arbitrary: acc cs)
  case (Cons k ks)
  have "padTo (length (k # ks)) [] = [] # padTo (length ks) []"
    and "padTo (length (k # ks)) (c # cs) = c # padTo (length ks) cs" for c cs
    by (simp_all add: padTo_def)
  then show ?case using Cons.IH [of _ "[]"] Cons.IH by (cases cs) simp_all
qed (simp add: padTo_def convertColumn_def)

lemma failedRow_columns:
  "convertColumns shape acc (used_keys keys @ [None]) (failedRow keys (length (used_keys keys)) r) =
     convertColumns shape acc keys (rr_cells r)"
  by (simp add: failedRow_def Let_def padded_columns sendable_columns)

lemma length_sendable_more: "length keys < length cells \<Longrightarrow> length (used_keys keys) < length (sendable keys cells)"
proof (induction keys arbitrary: cells)
  case Nil
  then show ?case by (cases cells) simp_all
next
  case (Cons k ks)
  then show ?case by (cases cells; cases k) auto
qed

lemma length_sendable_less: "length cells \<le> length keys \<Longrightarrow> length (sendable keys cells) \<le> length (used_keys keys)"
proof (induction keys arbitrary: cells)
  case (Cons k ks)
  then show ?case by (cases cells; cases k) auto
qed simp

lemma failedRow_wide:
  "length (used_keys keys @ [None]) \<noteq> length (failedRow keys (length (used_keys keys)) r) \<longleftrightarrow>
     length keys < length (rr_cells r)"
  using length_sendable_more [of keys "rr_cells r"] length_sendable_less [of "rr_cells r" keys]
  by (cases "length keys < length (rr_cells r)") (simp_all add: failedRow_def Let_def padTo_def)

lemma convertColumns_start:
  "convertColumns shape (v, s @ i) ks cs = map_prod id ((@) s) (convertColumns shape (v, i) ks cs)"
proof (induction ks arbitrary: v i cs)
  case (Cons k ks)
  have "\<exists>v' i'. convertColumn shape (v, i) k c = (v', i') \<and> convertColumn shape (v, s @ i) k c = (v', s @ i')" for c
    by (auto simp: convertColumn_def Let_def split: option.split sum.split)
  then show ?case using Cons.IH by (cases cs) (simp_all, metis+)
qed simp

text \<open>
  What a row's first check said of its cells and what the check of the downloaded row says: the same
  values, the same issues of the single cells; the issue of the number of cells only if there are too
  many.
\<close>

definition columnIssue :: "jstext option list \<Rightarrow> csv_row \<Rightarrow> csv_issue list" where
  "columnIssue keys cells =
     (if length cells \<noteq> length keys then [issue [] (MsgColumns (length cells) (length keys))] else [])"

definition comesBack :: "'a csv_shape_scheme \<Rightarrow> jstext option list \<Rightarrow> row_result \<Rightarrow> csv_row \<Rightarrow> bool" where
  "comesBack shape keys r cells \<longleftrightarrow>
     (let new_keys = used_keys keys @ [None] in
      (length keys < length (rr_cells r) \<longleftrightarrow> columnIssue new_keys cells \<noteq> []) \<and>
      (\<exists>p issues.
         convertCsvRow shape keys (rr_cells r) = (p, columnIssue keys (rr_cells r) @ issues) \<and>
         convertCsvRow shape new_keys cells = (p, columnIssue new_keys cells @ issues)))"

lemma convertCsvRow_columns:
  "convertCsvRow shape keys cells =
     (orderedPayload (sh_order shape) (fst (convertColumns shape ([], []) keys cells)),
      columnIssue keys cells @ snd (convertColumns shape ([], []) keys cells))"
  using convertColumns_start [of shape "[]" "columnIssue keys cells" "[]" keys cells]
  by (simp add: convertCsvRow_def columnIssue_def Let_def split_beta map_prod_def)

lemma failedRow_comesBack:
  "comesBack shape keys r (map regard (failedRow keys (length (used_keys keys)) r))"
proof -
  let ?f = "map regard (failedRow keys (length (used_keys keys)) r)" and ?new = "used_keys keys @ [None]"
  have "convertColumns shape ([], []) ?new ?f = convertColumns shape ([], []) keys (rr_cells r)"
    by (simp only: convertColumns_regard failedRow_columns)
  moreover have "(columnIssue ?new ?f \<noteq> []) = (length keys < length (rr_cells r))"
    using failedRow_wide [of keys r] by (auto simp: columnIssue_def)
  ultimately show ?thesis
    unfolding comesBack_def Let_def convertCsvRow_columns by simp
qed

text \<open>
  C18: A file of refused rows, read again: the console's download parses, its heading has the same
  columns and the reasons beside them, which are ignored, and it has one row for every refused row. The
  row gives the same item and the same issues of its cells, although the cells were guarded against
  formulas and ignored columns left out. The issue of a wrong number of cells comes back only for a row
  with too many: a row with too few was filled up with empty cells. (These are the issues of
  \<open>convertCsvRow\<close>; codes met twice in the file or in the catalogue are judged anew.)
\<close>

theorem refused_rows_come_back:
  assumes "checkCsv say check e csv existing = CkRows t" and "shape = entityCsvShape e"
    and "reasonFree shape (csvLabelsOf e)" and "\<And>m. say m \<noteq> []"
  shows "\<exists>header body. parseCsv (failedCsv t) = Some (header # body) \<and>
    resolveCsvHeader shape header (csvLabelsOf e) = Inr (used_keys (ct_keys t) @ [None]) \<and>
    list_all2 (comesBack shape (ct_keys t)) (badRows t) body"
proof -
  obtain header body keys where f: "resolveCsvHeader shape header (csvLabelsOf e) = Inr keys"
    and t: "t = \<lparr>ct_header = header, ct_keys = keys,
          ct_rows = map (showRow say e (entityCsvShape e) existing keys)
            (checkCsvRows (entityCsvShape e) keys body check)\<rparr>"
    by (rule checkCsv_rows [OF assms(1)]) (simp add: assms(2))
  have keys: "ct_keys t = keys" "ct_header t = header" by (simp_all add: t)
  have width: "length (sendable keys header) = length (used_keys keys)"
    using f by (intro length_sendable) (auto simp: resolveCsvHeader_def Let_def split: if_splits)
  define rows where "rows = map (failedRow keys (length (used_keys keys))) (badRows t)"
  have table: "failedTable t = (sendable keys header @ [CSV_REASON_HEADER]) # rows"
    by (simp add: failedTable_def Let_def keys rows_def width)
  have said: "ri_text i \<noteq> []" if r: "r \<in> set (badRows t)" "i \<in> set (rr_issues r)" for r i
  proof -
    have "ri_text (showIssue say e s ks cs x) \<noteq> []" for s ks cs x
      using assms(4) by (simp add: showIssue_def Let_def)
    then show ?thesis
      using r by (auto simp: badRows_def t showRow_def split: option.splits)
  qed
  have "filled (failedRow keys w r)" if r: "r \<in> set (badRows t)" for r w
  proof -
    obtain i xs where i: "rr_issues r = i # xs" using r by (cases "rr_issues r") (auto simp: badRows_def)
    have "joinWith [65307] (map ri_text (rr_issues r)) \<noteq> []"
      using said [OF r, of i] by (simp add: i joinWith_nonempty)
    then show ?thesis by (simp add: failedRow_def Let_def filled_def)
  qed
  moreover have "filled (sendable keys header @ [CSV_REASON_HEADER])"
    by (simp add: filled_def CSV_REASON_HEADER_def)
  ultimately have "\<forall>c \<in> set (failedTable t). filled c" by (auto simp: table rows_def)
  then have all: "\<forall>c \<in> set (map (map regard) (failedTable t)). filled c" by (auto simp: regard_filled)
  have parse: "parseCsv (failedCsv t) = Some (map (map regard) (failedTable t))"
    using parse_marked [of CRLF True "map (map regard) (failedTable t)"] all
    by (simp add: failedCsv_def regard_def [abs_def, symmetric] filter_id_conv)
  have same: "list_all2 (comesBack shape keys) (badRows t) (map (map regard) rows)"
    unfolding rows_def map_map list.rel_map comp_def
    by (intro list.rel_refl_strong failedRow_comesBack)
  show ?thesis
    unfolding keys
    by (intro exI [of _ "map regard (sendable keys header @ [CSV_REASON_HEADER])"] exI [of _ "map (map regard) rows"]
        conjI same resolve_with_reasons [OF f assms(3)]) (simp add: parse table)
qed

text \<open>A file of two items, the second with a price that is no number.\<close>

definition demo_entity :: entity_type where
  "demo_entity = \<lparr>et_codeLabel = js ''code'', et_fields = [plainField (js ''price'') FIntUnit (js ''price'')],
     et_itemRules = []\<rparr>"

definition demo_file :: jstext where
  "demo_file = js ''id,price'' @ [10] @ js ''a,5'' @ [10] @ js ''b,x'' @ [10]"

definition demo_check :: "payload \<Rightarrow> csv_issue list" where
  "demo_check p = (if jget p idKey = None then [issue idKey MsgColumnMissing] else [])"

definition demo_say :: "csv_message \<Rightarrow> jstext" where
  "demo_say m = js ''bad''"

definition demo_table :: csv_table where
  "demo_table =
     \<lparr>ct_header = [js ''id'', js ''price''], ct_keys = [Some (js ''id''), Some (js ''price'')],
      ct_rows = [\<lparr>rr_row = 1, rr_cells = [js ''a'', js ''5''],
                  rr_payload = [(js ''id'', JStr (js ''a'')), (js ''price'', JNum 5)], rr_issues = []\<rparr>,
                 \<lparr>rr_row = 2, rr_cells = [js ''b'', js ''x''], rr_payload = [(js ''id'', JStr (js ''b''))],
                  rr_issues = [\<lparr>ri_col = Some (js ''price''), ri_text = js ''price'' @ [65306] @ js ''bad'',
                                ri_raw = Some (js ''x'')\<rparr>]\<rparr>]\<rparr>"

lemma demo_shape:
  "entityCsvShape demo_entity =
     \<lparr>sh_order = [js ''id'', js ''price''], sh_flat = [(js ''id'', FtString), (js ''price'', FtInteger)],
      sh_required = [js ''id'', js ''price''], sh_nestedRequired = [],
      es_columns = [(js ''id'', js ''code'', plainField codeKey FText (js ''code'')),
                    (js ''price'', js ''price'', plainField (js ''price'') FIntUnit (js ''price''))],
      es_labels = [(js ''code'', js ''id''), (js ''price'', js ''price'')]\<rparr>"
  by (simp add: entityCsvShape_def demo_entity_def shapeField_def codeKey_def idKey_def js_def addOnce_def
      flatTypeOf.simps Let_def)

lemma demo_parse: "parseCatalogCsv demo_file = Inr [[js ''id'', js ''price''], [js ''a'', js ''5''], [js ''b'', js ''x'']]"
  by (simp add: parseCatalogCsv_def parseCsv_def demo_file_def js_def csvEnd_def addChar_def endRow_def endField_def
      filled_def Let_def)


lemma demo_header:
  "resolveCsvHeader (entityCsvShape demo_entity) [js ''id'', js ''price''] (es_labels (entityCsvShape demo_entity)) =
     Inr [Some (js ''id''), Some (js ''price'')]"
  by (simp add: resolveCsvHeader_def demo_shape headerCell_trim trim_def js_space_def js_def columnKey_def
      headerIssue_def keyOption_def idKey_def Let_def)

lemma demo_fits: "partFits [js ''id'', js ''price''] [[js ''a'', js ''5''], [js ''b'', js ''x'']]"
  by (simp add: partFits_def Let_def toCsv_def csvCell_def needsQuotes_def LF_def js_def csvBodyBytes_def
      escapedBytes_def jsonString_def jsonUnit_def isHigh_def isLow_def utf8Unit_def CSV_MAX_CHARS_def
      CSV_MAX_BODY_BYTES_def CSV_MAX_ROWS_def BODY_FRAME_def)

lemma demo_long: "csvLongRows [js ''id'', js ''price''] [[js ''a'', js ''5''], [js ''b'', js ''x'']] = []"
  using csv_part.fits_split [of _ "[[js ''a'', js ''5'']]" "[[js ''b'', js ''x'']]"] demo_fits
  by (auto simp: csvLongRows_none)

lemma demo_rows:
  "checkCsvRows (entityCsvShape demo_entity) [Some (js ''id''), Some (js ''price'')]
      [[js ''a'', js ''5''], [js ''b'', js ''x'']] demo_check =
    [\<lparr>rc_row = 1, rc_cells = [js ''a'', js ''5''],
      rc_payload = [(js ''id'', JStr (js ''a'')), (js ''price'', JNum 5)], rc_issues = []\<rparr>,
     \<lparr>rc_row = 2, rc_cells = [js ''b'', js ''x''], rc_payload = [(js ''id'', JStr (js ''b''))],
      rc_issues = [issue (js ''price'') (MsgInteger (js ''x''))]\<rparr>]"
  by (simp add: checkCsvRows_def checkOne_def demo_shape convertCsvRow_def convertColumn_def trim_def js_space_def
      js_def unguardCell_def convertCell_def integerOf_def digitsText_def natOf_def orderedPayload_def
      List.map_filter_simps demo_check_def idKey_def codeOf_def noteCode_def issue_def Let_def)

lemma demo_checked: "checkCsv demo_say demo_check demo_entity demo_file [] = CkRows demo_table"
proof -
  define shape where "shape = entityCsvShape demo_entity"
  define keys where "keys = [Some (js ''id''), Some (js ''price'')]"
  define rows where "rows = [\<lparr>rc_row = 1, rc_cells = [js ''a'', js ''5''],
      rc_payload = [(js ''id'', JStr (js ''a'')), (js ''price'', JNum 5)], rc_issues = []\<rparr>,
     \<lparr>rc_row = 2, rc_cells = [js ''b'', js ''x''], rc_payload = [(js ''id'', JStr (js ''b''))],
      rc_issues = [issue (js ''price'') (MsgInteger (js ''x''))]\<rparr>]"
  have "checkCsv demo_say demo_check demo_entity demo_file [] =
      CkRows \<lparr>ct_header = [js ''id'', js ''price''], ct_keys = keys,
        ct_rows = map (showRow demo_say demo_entity shape [] keys) rows\<rparr>"
    using csvParts_one [OF demo_fits] demo_long demo_header demo_rows
    by (simp add: checkCsv_def demo_parse shape_def [symmetric] keys_def [symmetric] rows_def [symmetric])
      (simp add: keys_def rows_def)
  also have "map (showRow demo_say demo_entity shape [] keys) rows = ct_rows demo_table"
    by (simp add: rows_def showRow_def textCode_def showIssue_def issue_def shape_def demo_shape keys_def
      columnLabel_def demo_say_def cellAt_def unguardCell_def trim_def js_space_def js_def demo_table_def Let_def)
  finally show ?thesis by (simp add: keys_def demo_table_def)
qed

lemma submitted_rows_arrive_witness:
  "prepareCatalogCsv (csv_shape.truncate (entityCsvShape demo_entity)) demo_check
     (cu_csv (submission demo_table)) (csvLabelsOf demo_entity) =
   Inr [[(js ''id'', JStr (js ''a'')), (js ''price'', JNum 5)]]"
proof -
  have good: "map rr_payload (goodRows demo_table) = [[(js ''id'', JStr (js ''a'')), (js ''price'', JNum 5)]]"
    by (simp add: goodRows_def demo_table_def)
  have shape: "sh_nestedRequired (csv_shape.truncate (entityCsvShape demo_entity)) = []"
      "named (csv_shape.truncate (entityCsvShape demo_entity)) (csvLabelsOf demo_entity)"
      "jget (sh_flat (csv_shape.truncate (entityCsvShape demo_entity))) idKey = Some FtString"
    by (simp_all add: demo_shape named_def csvLabelsOf_def js_def idKey_def)
  have "goodRows demo_table \<noteq> []" using good by auto
  moreover have "demo_check p = [] \<Longrightarrow> demo_check p = [] \<and> jget p idKey \<noteq> None" for p
    by (auto simp: demo_check_def split: if_splits)
  ultimately show ?thesis
    using submitted_rows_arrive [OF demo_checked _ refl shape, of demo_check] good by simp
qed


lemma refused_rows_come_back_witness:
  "\<exists>header body. parseCsv (failedCsv demo_table) = Some (header # body) \<and>
    resolveCsvHeader (entityCsvShape demo_entity) header (csvLabelsOf demo_entity) =
      Inr (used_keys (ct_keys demo_table) @ [None]) \<and> length body = 1"
proof -
  have "reasonFree (entityCsvShape demo_entity) (csvLabelsOf demo_entity)"
    by (simp add: reasonFree_def columnKey_def demo_shape csvLabelsOf_def js_def CSV_REASON_HEADER_def)
  then have "\<exists>header body. parseCsv (failedCsv demo_table) = Some (header # body) \<and>
    resolveCsvHeader (entityCsvShape demo_entity) header (csvLabelsOf demo_entity) =
      Inr (used_keys (ct_keys demo_table) @ [None]) \<and>
    list_all2 (comesBack (entityCsvShape demo_entity) (ct_keys demo_table)) (badRows demo_table) body"
    by (rule refused_rows_come_back [OF demo_checked refl]) (simp add: demo_say_def js_def)
  moreover have "length (badRows demo_table) = 1" by (simp add: badRows_def demo_table_def)
  ultimately obtain header body where "parseCsv (failedCsv demo_table) = Some (header # body)"
    "resolveCsvHeader (entityCsvShape demo_entity) header (csvLabelsOf demo_entity) =
      Inr (used_keys (ct_keys demo_table) @ [None])" "length body = 1"
    using list_all2_lengthD by fastforce
  then show ?thesis by blast
qed

end
