(* ===== verification/CatalogPatch.thy ===== *)
theory CatalogPatch
  imports Pack
begin

text \<open>
  Editing one catalogue item (shared/catalog.ts): equality of values, the locked fields a change
  touches, the patch and the order of keys after it. The text of an item goes to the model as it is
  stored, so the order of its keys matters.
\<close>

section \<open>Equal values\<close>

text \<open>Objects are equal whatever the order of their keys, arrays in order.\<close>

fun sameValue :: "jval \<Rightarrow> jval \<Rightarrow> bool"
  and sameItems :: "jval list \<Rightarrow> jval list \<Rightarrow> bool"
  and sameFields :: "(jstext \<times> jval) list \<Rightarrow> (jstext \<times> jval) list \<Rightarrow> bool" where
  "sameValue a b =
     (case a of
        JArr xs \<Rightarrow> (case b of JArr ys \<Rightarrow> length xs = length ys \<and> sameItems xs ys | _ \<Rightarrow> False)
      | JObj xs \<Rightarrow> (case b of JObj ys \<Rightarrow> length xs = length ys \<and> sameFields xs ys | _ \<Rightarrow> False)
      | _ \<Rightarrow> a = b)"
| "sameItems [] ys = True"
| "sameItems (x # xs) ys = (case ys of [] \<Rightarrow> False | y # ys' \<Rightarrow> sameValue x y \<and> sameItems xs ys')"
| "sameFields [] m = True"
| "sameFields (f # fs) m =
     (case f of (k, v) \<Rightarrow>
        (case jget m k of None \<Rightarrow> False | Some w \<Rightarrow> sameValue v w) \<and> sameFields fs m)"

declare sameValue.simps [simp del]

definition sameField :: "jval option \<Rightarrow> jval option \<Rightarrow> bool" where
  "sameField a b =
     (case (a, b) of (None, None) \<Rightarrow> True | (Some x, Some y) \<Rightarrow> sameValue x y | _ \<Rightarrow> False)"

text \<open>Values as they come from JSON text: the keys of an object are distinct.\<close>

fun jvalOk :: "jval \<Rightarrow> bool" and fieldsOk :: "(jstext \<times> jval) list \<Rightarrow> bool" and itemsOk :: "jval list \<Rightarrow> bool" where
  "jvalOk v = (case v of JArr xs \<Rightarrow> itemsOk xs | JObj m \<Rightarrow> jwf m \<and> fieldsOk m | _ \<Rightarrow> True)"
| "fieldsOk [] = True"
| "fieldsOk (f # fs) = (jvalOk (snd f) \<and> fieldsOk fs)"
| "itemsOk [] = True"
| "itemsOk (x # xs) = (jvalOk x \<and> itemsOk xs)"

declare jvalOk.simps [simp del]

lemma fieldsOk_iff: "fieldsOk m \<longleftrightarrow> (\<forall>(k, v) \<in> set m. jvalOk v)"
  by (induction m) auto

lemma itemsOk_iff: "itemsOk xs \<longleftrightarrow> list_all jvalOk xs"
  by (induction xs) auto

lemma jget_in: "jwf m \<Longrightarrow> jget m k = Some v \<longleftrightarrow> (k, v) \<in> set m"
  by (simp add: jget_map_of jwf_def jkeys_def)

lemma sameFields_iff: "sameFields fs m \<longleftrightarrow> (\<forall>(k, v) \<in> set fs. \<exists>w. jget m k = Some w \<and> sameValue v w)"
  by (induction fs) (auto split: option.splits)

lemma sameValue_refl: "jvalOk v \<Longrightarrow> sameValue v v"
proof -
  have "jvalOk v \<longrightarrow> sameValue v v" "fieldsOk fs \<longrightarrow> (\<forall>(k, v) \<in> set fs. sameValue v v)"
    "itemsOk xs \<longrightarrow> sameItems xs xs" for xs fs
  proof (induction v and fs and xs rule: jvalOk_fieldsOk_itemsOk.induct)
    case (1 v)
    show ?case
    proof (cases v)
      case (JObj m)
      then show ?thesis
        using 1 by (auto simp: sameValue.simps [of "JObj m" "JObj m"] jvalOk.simps [of "JObj m"] sameFields_iff jget_in)
    next
      case (JArr ys)
      then show ?thesis
        using 1 by (auto simp: sameValue.simps [of "JArr ys" "JArr ys"] jvalOk.simps [of "JArr ys"])
    qed (simp_all add: sameValue.simps)
  qed auto
  then show "jvalOk v \<Longrightarrow> sameValue v v" by blast
qed

section \<open>Locked fields\<close>

definition ALWAYS_LOCKED :: "jstext list" where
  "ALWAYS_LOCKED = [idKey]"

datatype item_status = Draft | Active

text \<open>A field, or with a colon whether a list has a member.\<close>

definition hasMember :: "jval option \<Rightarrow> jstext \<Rightarrow> bool" where
  "hasMember v m = (case v of Some (JArr xs) \<Rightarrow> JStr m \<in> set xs | _ \<Rightarrow> False)"

definition lockTouched :: "payload \<Rightarrow> payload \<Rightarrow> jstext \<Rightarrow> bool" where
  "lockTouched p n f =
     (case split_at 58 f of
        field # member # _ \<Rightarrow> hasMember (jget p field) member \<noteq> hasMember (jget n field) member
      | [field] \<Rightarrow> \<not> sameField (jget p field) (jget n field)
      | [] \<Rightarrow> False)"

definition lockedFieldChanges :: "item_status \<Rightarrow> payload \<Rightarrow> payload \<Rightarrow> jstext list \<Rightarrow> jstext list" where
  "lockedFieldChanges status p n activeFields =
     filter (lockTouched p n) (case status of Active \<Rightarrow> activeFields | Draft \<Rightarrow> ALWAYS_LOCKED)"

section \<open>Patching\<close>

fun mergeKeyOrder :: "jval \<Rightarrow> jval \<Rightarrow> jval"
  and mergeItems :: "jval list \<Rightarrow> jval list \<Rightarrow> jval list"
  and mergeFields :: "(jstext \<times> jval) list \<Rightarrow> (jstext \<times> jval) list \<Rightarrow> (jstext \<times> jval) list" where
  "mergeKeyOrder prev next =
     (case prev of
        JArr ps \<Rightarrow> (case next of JArr ns \<Rightarrow> JArr (mergeItems ps ns) | _ \<Rightarrow> next)
      | JObj ps \<Rightarrow>
          (case next of
             JObj ns \<Rightarrow> JObj (mergeFields ps ns @ filter (\<lambda>(k, _). jget ps k = None) ns)
           | _ \<Rightarrow> next)
      | _ \<Rightarrow> next)"
| "mergeItems [] ns = ns"
| "mergeItems (p # ps) ns = (case ns of [] \<Rightarrow> [] | n # ns' \<Rightarrow> mergeKeyOrder p n # mergeItems ps ns')"
| "mergeFields [] ns = []"
| "mergeFields (f # ps) ns =
     (case f of (k, v) \<Rightarrow>
        (case jget ns k of None \<Rightarrow> [] | Some w \<Rightarrow> [(k, mergeKeyOrder v w)]) @ mergeFields ps ns)"

declare mergeKeyOrder.simps [simp del]

text \<open>The patch of two objects, as fields.\<close>

definition mergePayload :: "payload \<Rightarrow> payload \<Rightarrow> payload" where
  "mergePayload prev next = mergeFields prev next @ filter (\<lambda>(k, _). jget prev k = None) next"

text \<open>\<open>None\<close> is the exception for a field that is both set and unset.\<close>

definition applyCatalogPatch :: "payload \<Rightarrow> payload \<Rightarrow> jstext list \<Rightarrow> payload option" where
  "applyCatalogPatch prev sets unset =
     (if list_ex (\<lambda>k. jget sets k \<noteq> None) unset then None
      else let spread = foldl (\<lambda>m (k, v). jset m k v) prev sets;
               next = foldl jdel spread unset
           in Some (mergePayload prev next))"

lemma merge_objects: "mergeKeyOrder (JObj p) (JObj n) = JObj (mergePayload p n)"
  by (simp add: mergeKeyOrder.simps mergePayload_def)

lemma jget_append: "jget (a @ b) k = (case jget a k of None \<Rightarrow> jget b k | Some v \<Rightarrow> Some v)"
  by (induction a k rule: jget.induct) auto

lemma jget_filter_key: "jget (filter (\<lambda>(x, _). P x) m) k = (if P k then jget m k else None)"
  by (induction m) auto

lemma jget_mergeFields:
  "jwf ps \<Longrightarrow> jget (mergeFields ps ns) k =
     (case jget ps k of None \<Rightarrow> None | Some v \<Rightarrow> map_option (mergeKeyOrder v) (jget ns k))"
proof (induction ps arbitrary: k)
  case (Cons f ps)
  obtain k' v where f: "f = (k', v)" by fastforce
  have wf: "jwf ps" "k' \<notin> set (jkeys ps)" using Cons.prems f by (auto simp: jwf_def jkeys_def)
  have "jget (mergeFields ps ns) k' = None" using Cons.IH wf by (auto simp: jget_None_iff [symmetric] split: option.split)
  then show ?case using Cons.IH [OF wf(1)] by (auto simp: f jget_append split: option.split)
qed simp

text \<open>The values of a patched item are those of the new one, merged where both are objects.\<close>

lemma jget_mergePayload:
  assumes "jwf p"
  shows "jget (mergePayload p n) k =
    (case jget n k of None \<Rightarrow> None
     | Some w \<Rightarrow> (case jget p k of None \<Rightarrow> Some w | Some v \<Rightarrow> Some (mergeKeyOrder v w)))"
  using jget_filter_key [of "\<lambda>k. jget p k = None" n k]
  by (auto simp: mergePayload_def jget_append jget_mergeFields [OF assms] split: option.split)


text \<open>Merging a value with itself changes nothing, not even the order of keys.\<close>

lemma merge_same: "jvalOk v \<Longrightarrow> mergeKeyOrder v v = v"
proof -
  have "jvalOk v \<longrightarrow> mergeKeyOrder v v = v"
    "fieldsOk fs \<longrightarrow> (\<forall>m. (\<forall>(k, v) \<in> set fs. jget m k = Some v) \<longrightarrow> mergeFields fs m = fs)"
    "itemsOk xs \<longrightarrow> mergeItems xs xs = xs" for xs fs
  proof (induction v and fs and xs rule: jvalOk_fieldsOk_itemsOk.induct)
    case (1 v)
    show ?case
    proof (cases v)
      case (JObj m)
      have "filter (\<lambda>(k, _). jget m k = None) m = []"
        using jget_None_iff [of m] by (force simp: filter_empty_conv jkeys_def)
      then show ?thesis
        using 1(2) [OF JObj] JObj by (auto simp: mergeKeyOrder.simps jvalOk.simps [of "JObj m"] jget_in)
    next
      case (JArr ys)
      then show ?thesis using 1 by (auto simp: mergeKeyOrder.simps jvalOk.simps [of "JArr ys"])
    qed (simp_all add: mergeKeyOrder.simps)
  qed (auto split: option.split)
  then show "jvalOk v \<Longrightarrow> mergeKeyOrder v v = v" by blast
qed

lemma jget_spread: "jget (foldl (\<lambda>m (k, v). jset m k v) prev sets) k = (case jget (rev sets) k of None \<Rightarrow> jget prev k | Some v \<Rightarrow> Some v)"
  by (induction sets arbitrary: prev) (auto simp: jget_append split: option.split)

lemma jwf_spread: "jwf prev \<Longrightarrow> jwf (foldl (\<lambda>m (k, v). jset m k v) prev sets)"
  by (induction sets arbitrary: prev) auto

lemma jget_rev: "jwf m \<Longrightarrow> jget (rev m) k = jget m k"
proof (cases "jget m k")
  case None
  then show "jget (rev m) k = jget m k" using jget_None_iff [of m k] jget_None_iff [of "rev m" k] by (simp add: jkeys_def)
next
  case (Some v)
  assume m: "jwf m"
  then have "jwf (rev m)" by (simp add: jwf_def jkeys_def rev_map [symmetric])
  then show "jget (rev m) k = jget m k" using Some m jget_in [of m k v] jget_in [of "rev m" k v] by simp
qed

lemma jget_unset: "jwf m \<Longrightarrow> jget (foldl jdel m ks) k = (if k \<in> set ks then None else jget m k)"
  by (induction ks arbitrary: m) auto

text \<open>
  A patch: a field that is set takes the value given, in the old order of its keys; one that is unset
  is gone; every other field is as it was, byte for byte.
\<close>

lemma patched_field:
  assumes "applyCatalogPatch prev sets unset = Some next" and "jwf prev" "jwf sets" "fieldsOk prev"
  shows "jget next k =
    (if k \<in> set unset then None
     else case jget sets k of
            Some v \<Rightarrow> Some (case jget prev k of None \<Rightarrow> v | Some u \<Rightarrow> mergeKeyOrder u v)
          | None \<Rightarrow> jget prev k)"
proof -
  define spread where "spread = foldl (\<lambda>m (k, v). jset m k v) prev sets"
  have merged: "next = mergePayload prev (foldl jdel spread unset)"
    using assms(1) by (simp add: applyCatalogPatch_def spread_def Let_def split: if_splits)
  have s: "jwf spread" "jget spread k = (case jget sets k of None \<Rightarrow> jget prev k | Some v \<Rightarrow> Some v)"
    using jwf_spread [OF assms(2)] jget_spread [of prev sets k] jget_rev [OF assms(3)] by (simp_all add: spread_def)
  have same: "jget prev k = Some u \<Longrightarrow> mergeKeyOrder u u = u" for u
    using assms(2,4) by (auto simp: jget_in fieldsOk_iff intro!: merge_same)
  show ?thesis
    using same by (auto simp: merged jget_mergePayload [OF assms(2)] jget_unset [OF s(1)] s(2) split: option.split)
qed

end
