(* ===== verification/CatalogStore.thy ===== *)
theory CatalogStore
  imports CatalogPatch CatalogCsv "HOL-Library.List_Lexorder"
begin

text \<open>
  The catalogue in the database: the statements of db/repo/catalog.ts and db/repo/catalog-versions.ts
  with the constraints and the trigger of the tables, and the commands of config/catalog.ts inside their
  transaction (create, update, activate, CSV import, the offline fix of a locked field). The commands
  hold the tenant's configuration lock, so each is one step; a command that fails rolls back.
\<close>

section \<open>Tables\<close>

record cat_row =
  cr_kind :: string
  cr_code :: jstext
  cr_ord :: int
  cr_status :: item_status
  cr_rev :: nat
  cr_version :: nat
  cr_payload :: payload
  cr_by :: "jstext option"

datatype ver_source = SrcBackfill | SrcActivate | SrcConsole | SrcFix

record ver_row =
  vr_kind :: string
  vr_code :: jstext
  vr_version :: nat
  vr_payload :: payload
  vr_source :: ver_source

datatype cat_audit =
  AuCreate string jstext
| AuUpdate string jstext
| AuActivate string jstext
| AuFix string jstext jstext
| AuVersion string jstext nat ver_source

record cat_db =
  cd_items :: "cat_row list"
  cd_versions :: "ver_row list"
  cd_audit :: "cat_audit list"

abbreviation row_key :: "cat_row \<Rightarrow> string \<times> jstext" where
  "row_key r \<equiv> (cr_kind r, cr_code r)"

abbreviation ver_key :: "ver_row \<Rightarrow> string \<times> jstext" where
  "ver_key v \<equiv> (vr_kind v, vr_code v)"

section \<open>Statements\<close>

definition readItem :: "cat_db \<Rightarrow> string \<Rightarrow> jstext \<Rightarrow> cat_row option" where
  "readItem db kind code = find (\<lambda>r. row_key r = (kind, code)) (cd_items db)"

definition readActive :: "cat_db \<Rightarrow> cat_row list" where
  "readActive db = filter (\<lambda>r. cr_status r = Active) (cd_items db)"

text \<open>Ordered by kind and position; kinds are compared by their characters.\<close>

definition readActiveCatalog :: "cat_db \<Rightarrow> cat_row list" where
  "readActiveCatalog db =
     sort_key (\<lambda>r. map (of_char :: char \<Rightarrow> nat) (cr_kind r)) (sort_key cr_ord (readActive db))"

definition readOfKind :: "cat_db \<Rightarrow> string \<Rightarrow> cat_row list" where
  "readOfKind db kind = sort_key cr_ord (filter (\<lambda>r. cr_kind r = kind) (cd_items db))"

definition maxOrd :: "cat_db \<Rightarrow> string \<Rightarrow> int" where
  "maxOrd db kind = fold max (map cr_ord (filter (\<lambda>r. cr_kind r = kind) (cd_items db))) (- 1)"

definition codeText :: "payload \<Rightarrow> jstext" where
  "codeText p = (case jget p idKey of None \<Rightarrow> js ''undefined'' | Some v \<Rightarrow> textOf v)"

text \<open>The code is lower case letters, digits and hyphens, at most 64, the first no hyphen.\<close>

definition codeChar :: "nat \<Rightarrow> bool" where
  "codeChar c \<longleftrightarrow> 97 \<le> c \<and> c \<le> 122 \<or> 48 \<le> c \<and> c \<le> 57"

definition catalogCode :: "jstext \<Rightarrow> bool" where
  "catalogCode s \<longleftrightarrow> s \<noteq> [] \<and> length s \<le> 64 \<and> codeChar (hd s) \<and> list_all (\<lambda>c. codeChar c \<or> c = 45) s"

text \<open>The checks of the table: the code's form, and that the payload's id is the code.\<close>

definition itemCheck :: "jstext \<Rightarrow> payload \<Rightarrow> bool" where
  "itemCheck code p \<longleftrightarrow> catalogCode code \<and> jget p idKey \<noteq> None \<and> jget p idKey \<noteq> Some JNull \<and> codeText p = code"

datatype db_error = UniqueCode | UniqueOrd | UniqueVersion | CheckViolation

definition insertDraftItem ::
    "cat_db \<Rightarrow> string \<Rightarrow> int \<Rightarrow> payload \<Rightarrow> jstext option \<Rightarrow> db_error + cat_row \<times> cat_db" where
  "insertDraftItem db kind ord p who =
     (let r = \<lparr>cr_kind = kind, cr_code = codeText p, cr_ord = ord, cr_status = Draft, cr_rev = 1,
               cr_version = 1, cr_payload = p, cr_by = who\<rparr>
      in if \<not> itemCheck (codeText p) p then Inl CheckViolation
         else if readItem db kind (codeText p) \<noteq> None then Inl UniqueCode
         else if list_ex (\<lambda>x. cr_kind x = kind \<and> cr_ord x = ord) (cd_items db) then Inl UniqueOrd
         else Inr (r, db\<lparr>cd_items := cd_items db @ [r]\<rparr>))"

text \<open>An UPDATE of one row by key and revision; the trigger raises the revision.\<close>

definition touchItem :: "string \<Rightarrow> jstext \<Rightarrow> nat \<Rightarrow> (cat_row \<Rightarrow> cat_row) \<Rightarrow> cat_db \<Rightarrow> cat_db" where
  "touchItem kind code rv f db =
     db\<lparr>cd_items := update_where (\<lambda>r. row_key r = (kind, code) \<and> cr_rev r = rv)
        (\<lambda>r. (f r)\<lparr>cr_rev := cr_rev r + 1\<rparr>) (cd_items db)\<rparr>"

definition updateItemPayload ::
    "cat_db \<Rightarrow> string \<Rightarrow> jstext \<Rightarrow> nat \<Rightarrow> payload \<Rightarrow> jstext option \<Rightarrow> nat option \<Rightarrow>
     db_error + cat_row option \<times> cat_db" where
  "updateItemPayload db kind code rv p who version =
     (case readItem db kind code of
        None \<Rightarrow> Inr (None, db)
      | Some r \<Rightarrow>
          if cr_rev r \<noteq> rv then Inr (None, db)
          else if \<not> itemCheck code p then Inl CheckViolation
          else let db' = touchItem kind code rv (\<lambda>r. r\<lparr>cr_payload := p, cr_by := who,
                           cr_version := (case version of None \<Rightarrow> cr_version r | Some v \<Rightarrow> v)\<rparr>) db
               in Inr (readItem db' kind code, db'))"

definition activateItem ::
    "cat_db \<Rightarrow> string \<Rightarrow> jstext \<Rightarrow> nat \<Rightarrow> jstext option \<Rightarrow> cat_row option \<times> cat_db" where
  "activateItem db kind code rv who =
     (case readItem db kind code of
        None \<Rightarrow> (None, db)
      | Some r \<Rightarrow>
          if cr_rev r \<noteq> rv \<or> cr_status r \<noteq> Draft then (None, db)
          else let db' = touchItem kind code rv (\<lambda>r. r\<lparr>cr_status := Active, cr_version := 1, cr_by := who\<rparr>) db
               in (readItem db' kind code, db'))"

definition versionsOf :: "ver_row list \<Rightarrow> string \<times> jstext \<Rightarrow> ver_row list" where
  "versionsOf vs key = filter (\<lambda>v. ver_key v = key) vs"

definition maxVersion :: "ver_row list \<Rightarrow> string \<times> jstext \<Rightarrow> nat" where
  "maxVersion vs key = fold max (map vr_version (versionsOf vs key)) 0"

text \<open>Ordered by kind, code and version.\<close>

definition readCatalogVersions :: "cat_db \<Rightarrow> ver_row list" where
  "readCatalogVersions db =
     sort_key (\<lambda>v. map (of_char :: char \<Rightarrow> nat) (vr_kind v)) (sort_key vr_code (sort_key vr_version (cd_versions db)))"

definition insertCatalogVersion :: "cat_db \<Rightarrow> ver_row \<Rightarrow> db_error + cat_db" where
  "insertCatalogVersion db v =
     (if vr_version v = 0 then Inl CheckViolation
      else if list_ex (\<lambda>x. ver_key x = ver_key v \<and> vr_version x = vr_version v) (cd_versions db)
      then Inl UniqueVersion
      else Inr (db\<lparr>cd_versions := cd_versions db @ [v]\<rparr>))"

definition audit :: "cat_audit \<Rightarrow> cat_db \<Rightarrow> cat_db" where
  "audit a db = db\<lparr>cd_audit := cd_audit db @ [a]\<rparr>"

section \<open>Commands\<close>

datatype cat_error =
  KindUnknown string
| Invalid "(jstext \<times> jstext) list"
| LockedFields "jstext list"
| RevConflict
| CodeTaken
| NotFound
| BadCsv csv_error
| CapacityLimited
| DbFailed

text \<open>What an industry pack says about a kind; the check across items reads the active rows.\<close>

record kind_spec =
  ks_validate :: "payload \<Rightarrow> (jstext \<times> jstext) list"
  ks_locked :: "jstext list"
  ks_cross :: "(payload \<Rightarrow> cat_row list \<Rightarrow> (jstext \<times> jstext) list) option"
  ks_shape :: csv_shape

record cat_limits =
  lm_catalogItems :: nat
  lm_versionsPerItem :: nat
  lm_importRows :: nat

record cat_env =
  ce_spec :: "string \<Rightarrow> kind_spec option"
  ce_limits :: "cat_limits option"
  ce_who :: "jstext option"

text \<open>The limits count only for a sandbox tenant.\<close>

definition overCapacity :: "cat_env \<Rightarrow> (cat_limits \<Rightarrow> nat) \<Rightarrow> nat \<Rightarrow> nat \<Rightarrow> bool" where
  "overCapacity env l count add = (case ce_limits env of None \<Rightarrow> False | Some m \<Rightarrow> count + add > l m)"

text \<open>What a violated constraint becomes outside the transaction.\<close>

definition dbFailure :: "db_error \<Rightarrow> cat_error" where
  "dbFailure e = (case e of UniqueCode \<Rightarrow> CodeTaken | UniqueOrd \<Rightarrow> RevConflict | UniqueVersion \<Rightarrow> RevConflict
                  | CheckViolation \<Rightarrow> DbFailed)"

type_synonym 'a cat_result = "cat_error + 'a \<times> cat_db"

definition createItem :: "cat_env \<Rightarrow> cat_db \<Rightarrow> string \<Rightarrow> payload \<Rightarrow> cat_row cat_result" where
  "createItem env db kind p =
     (case ce_spec env kind of
        None \<Rightarrow> Inl (KindUnknown kind)
      | Some spec \<Rightarrow>
          if ks_validate spec p \<noteq> [] then Inl (Invalid (ks_validate spec p))
          else if readItem db kind (codeText p) \<noteq> None then Inl CodeTaken
          else if overCapacity env lm_catalogItems (length (cd_items db)) 1 then Inl CapacityLimited
          else (case insertDraftItem db kind (maxOrd db kind + 1) p (ce_who env) of
                  Inl e \<Rightarrow> Inl (dbFailure e)
                | Inr (r, db') \<Rightarrow> Inr (r, audit (AuCreate kind (cr_code r)) db')))"

text \<open>The issues of an active item against the other active items.\<close>

definition acrossIssues :: "kind_spec \<Rightarrow> cat_db \<Rightarrow> payload \<Rightarrow> (jstext \<times> jstext) list" where
  "acrossIssues spec db p = (case ks_cross spec of None \<Rightarrow> [] | Some f \<Rightarrow> f p (readActiveCatalog db))"

text \<open>The new version of an active item whose content changes, written in the same transaction.\<close>

definition nextVersion ::
    "cat_env \<Rightarrow> cat_db \<Rightarrow> cat_row \<Rightarrow> payload \<Rightarrow> ver_source \<Rightarrow> (nat option) cat_result" where
  "nextVersion env db cur next source =
     (if cr_status cur \<noteq> Active \<or> next = cr_payload cur then Inr (None, db)
      else let v = maxVersion (cd_versions db) (row_key cur) + 1
           in if overCapacity env lm_versionsPerItem (v - 1) 1 then Inl CapacityLimited
              else case insertCatalogVersion db \<lparr>vr_kind = cr_kind cur, vr_code = cr_code cur, vr_version = v,
                                                 vr_payload = next, vr_source = source\<rparr> of
                     Inl e \<Rightarrow> Inl (dbFailure e)
                   | Inr db' \<Rightarrow> Inr (Some v, db'))"

text \<open>Validation, version, row and audit of a changed payload: the end of an update and of a fix.\<close>

definition storePayload ::
    "cat_env \<Rightarrow> kind_spec \<Rightarrow> cat_db \<Rightarrow> cat_row \<Rightarrow> payload \<Rightarrow> ver_source \<Rightarrow> cat_audit \<Rightarrow> cat_row cat_result" where
  "storePayload env spec db cur next source note =
     (if ks_validate spec next \<noteq> [] then Inl (Invalid (ks_validate spec next))
      else if cr_status cur = Active \<and> acrossIssues spec db next \<noteq> [] then Inl (Invalid (acrossIssues spec db next))
      else case nextVersion env db cur next source of
             Inl e \<Rightarrow> Inl e
           | Inr (v, db1) \<Rightarrow>
               (case updateItemPayload db1 (cr_kind cur) (cr_code cur) (cr_rev cur) next (ce_who env) v of
                  Inl e \<Rightarrow> Inl (dbFailure e)
                | Inr (None, _) \<Rightarrow> Inl RevConflict
                | Inr (Some r, db2) \<Rightarrow>
                    Inr (r, (case v of None \<Rightarrow> id | Some n \<Rightarrow> audit (AuVersion (cr_kind cur) (cr_code cur) n source))
                              (audit note db2))))"

definition updateItem ::
    "cat_env \<Rightarrow> cat_db \<Rightarrow> string \<Rightarrow> jstext \<Rightarrow> nat \<Rightarrow> payload \<Rightarrow> jstext list \<Rightarrow> cat_row cat_result" where
  "updateItem env db kind code rv sets unset =
     (case ce_spec env kind of
        None \<Rightarrow> Inl (KindUnknown kind)
      | Some spec \<Rightarrow>
          (case readItem db kind code of
             None \<Rightarrow> Inl NotFound
           | Some cur \<Rightarrow>
               if cr_rev cur \<noteq> rv then Inl RevConflict
               else (case applyCatalogPatch (cr_payload cur) sets unset of
                       None \<Rightarrow> Inl (Invalid [])
                     | Some next \<Rightarrow>
                         (let locked = lockedFieldChanges (cr_status cur) (cr_payload cur) next (ks_locked spec)
                          in if locked \<noteq> [] then Inl (LockedFields locked)
                             else storePayload env spec db cur next SrcConsole (AuUpdate kind code)))))"

text \<open>An item that is active already, at the revision given, is returned as it is.\<close>

definition activateCatalogItem ::
    "cat_env \<Rightarrow> cat_db \<Rightarrow> string \<Rightarrow> jstext \<Rightarrow> nat \<Rightarrow> cat_row cat_result" where
  "activateCatalogItem env db kind code rv =
     (case ce_spec env kind of
        None \<Rightarrow> Inl (KindUnknown kind)
      | Some spec \<Rightarrow>
          (case readItem db kind code of
             None \<Rightarrow> Inl NotFound
           | Some cur \<Rightarrow>
               if cr_rev cur \<noteq> rv \<or> cr_status cur \<noteq> Draft then Inl RevConflict
               else if ks_validate spec (cr_payload cur) \<noteq> [] then Inl (Invalid (ks_validate spec (cr_payload cur)))
               else if acrossIssues spec db (cr_payload cur) \<noteq> []
               then Inl (Invalid (acrossIssues spec db (cr_payload cur)))
               else (case activateItem db kind code rv (ce_who env) of
                       (None, _) \<Rightarrow> Inl RevConflict
                     | (Some r, db1) \<Rightarrow>
                         (case insertCatalogVersion (audit (AuActivate kind code) db1)
                                 \<lparr>vr_kind = kind, vr_code = code, vr_version = 1, vr_payload = cr_payload r,
                                  vr_source = SrcActivate\<rparr> of
                            Inl e \<Rightarrow> Inl (dbFailure e)
                          | Inr db2 \<Rightarrow> Inr (r, audit (AuVersion kind code 1 SrcActivate) db2)))))"

text \<open>Before its transaction an activation answers with the row when there is nothing to do.\<close>

definition alreadyActive :: "cat_db \<Rightarrow> string \<Rightarrow> jstext \<Rightarrow> nat \<Rightarrow> cat_row option" where
  "alreadyActive db kind code rv =
     (case readItem db kind code of
        Some r \<Rightarrow> if cr_status r = Active \<and> cr_rev r = rv then Some r else None
      | None \<Rightarrow> None)"

section \<open>The import of a file\<close>

fun insertDrafts ::
    "cat_env \<Rightarrow> string \<Rightarrow> int \<Rightarrow> payload list \<Rightarrow> cat_db \<Rightarrow> db_error + cat_row list \<times> cat_db" where
  "insertDrafts env kind ord [] db = Inr ([], db)"
| "insertDrafts env kind ord (p # ps) db =
     (case insertDraftItem db kind (ord + 1) p (ce_who env) of
        Inl e \<Rightarrow> Inl e
      | Inr (r, db') \<Rightarrow>
          (case insertDrafts env kind (ord + 1) ps (audit (AuCreate kind (cr_code r)) db') of
             Inl e \<Rightarrow> Inl e
           | Inr (rs, db'') \<Rightarrow> Inr (r # rs, db'')))"

definition takenRows :: "cat_db \<Rightarrow> string \<Rightarrow> payload list \<Rightarrow> csv_error" where
  "takenRows db kind ps =
     concat (map (\<lambda>(i, p). if list_ex (\<lambda>r. cr_code r = codeText p) (readOfKind db kind)
                           then [(i + 1, [issue idKey (MsgText (js ''taken''))])] else [])
       (enumerate 0 ps))"

definition csvIssueOf :: "jstext \<times> jstext \<Rightarrow> csv_issue" where
  "csvIssueOf i = issue (fst i) (MsgText (snd i))"

definition importCatalogCsv ::
    "cat_env \<Rightarrow> cat_db \<Rightarrow> string \<Rightarrow> jstext \<Rightarrow> (jstext, jstext) jsmap \<Rightarrow> (cat_row list) cat_result" where
  "importCatalogCsv env db kind csv labels =
     (case ce_spec env kind of
        None \<Rightarrow> Inl (KindUnknown kind)
      | Some spec \<Rightarrow>
          (case prepareCatalogCsv (ks_shape spec) (\<lambda>p. map csvIssueOf (ks_validate spec p)) csv labels of
             Inl e \<Rightarrow> Inl (BadCsv e)
           | Inr ps \<Rightarrow>
               if overCapacity env lm_importRows 0 (length ps) then Inl CapacityLimited
               else if takenRows db kind ps \<noteq> [] then Inl (BadCsv (takenRows db kind ps))
               else if overCapacity env lm_catalogItems (length (cd_items db)) (length ps) then Inl CapacityLimited
               else (case insertDrafts env kind (maxOrd db kind) ps db of
                       Inl e \<Rightarrow> Inl (dbFailure e)
                     | Inr (rs, db') \<Rightarrow> Inr (rs, db'))))"

section \<open>The fix of a locked field\<close>

text \<open>Run offline: everything may change but the id.\<close>

definition fixLockedFields ::
    "cat_env \<Rightarrow> cat_db \<Rightarrow> string \<Rightarrow> jstext \<Rightarrow> payload \<Rightarrow> jstext \<Rightarrow> cat_row cat_result" where
  "fixLockedFields env db kind code sets reason =
     (if trim reason = [] then Inl (Invalid [])
      else case ce_spec env kind of
        None \<Rightarrow> Inl (KindUnknown kind)
      | Some spec \<Rightarrow>
          (case readItem db kind code of
             None \<Rightarrow> Inl NotFound
           | Some cur \<Rightarrow>
               (case applyCatalogPatch (cr_payload cur) sets [] of
                  None \<Rightarrow> Inl (Invalid [])
                | Some next \<Rightarrow>
                    (let idChanged = filter (\<lambda>f. f \<in> set ALWAYS_LOCKED)
                           (lockedFieldChanges Draft (cr_payload cur) next (ks_locked spec))
                     in if idChanged \<noteq> [] then Inl (LockedFields idChanged)
                        else storePayload env spec db cur next SrcFix (AuFix kind code reason)))))"

end
