(* ===== verification/CatalogFacts.thy ===== *)
theory CatalogFacts
  imports CatalogStore
begin

text \<open>
  What a command does to the catalogue's tables, in two shapes: it appends drafts, or it changes one row
  and appends at most one version. The tables' invariant and what never changes follow from the shapes.
\<close>

section \<open>The tables\<close>

definition payloadOk :: "payload \<Rightarrow> bool" where
  "payloadOk p \<longleftrightarrow> jwf p \<and> fieldsOk p"

definition rowOk :: "cat_row \<Rightarrow> bool" where
  "rowOk r \<longleftrightarrow> payloadOk (cr_payload r) \<and> itemCheck (cr_code r) (cr_payload r) \<and> 0 < cr_version r"

text \<open>The numbers of an item's versions are 1 to n, and only active items have any.\<close>

definition versionsOk :: "cat_row list \<Rightarrow> ver_row list \<Rightarrow> bool" where
  "versionsOk items vs \<longleftrightarrow>
     distinct (map (\<lambda>v. (ver_key v, vr_version v)) vs) \<and>
     (\<forall>v \<in> set vs. \<exists>r \<in> set items. row_key r = ver_key v \<and> cr_status r = Active) \<and>
     (\<forall>key. set (map vr_version (versionsOf vs key)) = {1..maxVersion vs key})"

definition dbOk :: "cat_db \<Rightarrow> bool" where
  "dbOk db \<longleftrightarrow>
     distinct (map row_key (cd_items db)) \<and>
     distinct (map (\<lambda>r. (cr_kind r, cr_ord r)) (cd_items db)) \<and>
     list_all rowOk (cd_items db) \<and>
     versionsOk (cd_items db) (cd_versions db)"

text \<open>The latest version of every active item has its content.\<close>

definition contentOf :: "ver_row list \<Rightarrow> string \<times> jstext \<Rightarrow> nat \<Rightarrow> payload option" where
  "contentOf vs key n = map_option vr_payload (find (\<lambda>v. ver_key v = key \<and> vr_version v = n) vs)"

definition versioned :: "cat_db \<Rightarrow> bool" where
  "versioned db \<longleftrightarrow> list_all (\<lambda>r. cr_status r = Active \<longrightarrow>
     contentOf (cd_versions db) (row_key r) (maxVersion (cd_versions db) (row_key r)) = Some (cr_payload r) \<and>
     cr_version r \<le> maxVersion (cd_versions db) (row_key r)) (cd_items db)"

section \<open>The shapes of a command\<close>

definition appendsDrafts :: "cat_db \<Rightarrow> cat_row list \<Rightarrow> cat_db \<Rightarrow> bool" where
  "appendsDrafts db rs db' \<longleftrightarrow>
     cd_items db' = cd_items db @ rs \<and> cd_versions db' = cd_versions db \<and>
     list_all (\<lambda>r. cr_status r = Draft \<and> cr_rev r = 1 \<and> cr_version r = 1 \<and> itemCheck (cr_code r) (cr_payload r)) rs \<and>
     (distinct (map row_key (cd_items db)) \<longrightarrow> distinct (map row_key (cd_items db'))) \<and>
     (distinct (map (\<lambda>r. (cr_kind r, cr_ord r)) (cd_items db)) \<longrightarrow>
      distinct (map (\<lambda>r. (cr_kind r, cr_ord r)) (cd_items db')))"

datatype row_change = Edited | Published | Kept | Revised

definition newVersion :: "ver_row list \<Rightarrow> cat_row \<Rightarrow> ver_source \<Rightarrow> ver_row" where
  "newVersion vs r src =
     \<lparr>vr_kind = cr_kind r, vr_code = cr_code r, vr_version = maxVersion vs (row_key r) + 1,
      vr_payload = cr_payload r, vr_source = src\<rparr>"

definition changesRow :: "cat_db \<Rightarrow> cat_row \<Rightarrow> cat_row \<Rightarrow> row_change \<Rightarrow> cat_db \<Rightarrow> bool" where
  "changesRow db cur r ch db' \<longleftrightarrow>
     cur \<in> set (cd_items db) \<and>
     cd_items db' = update_where (\<lambda>x. row_key x = row_key cur) (\<lambda>_. r) (cd_items db) \<and>
     row_key r = row_key cur \<and> cr_ord r = cr_ord cur \<and> cr_rev r = cr_rev cur + 1 \<and> rowOk r \<and>
     (case ch of
        Edited \<Rightarrow> cr_status cur = Draft \<and> cr_status r = Draft \<and> cd_versions db' = cd_versions db
      | Published \<Rightarrow> cr_status cur = Draft \<and> cr_status r = Active \<and> cr_version r = 1 \<and>
          cr_payload r = cr_payload cur \<and>
          cd_versions db' = cd_versions db @ [newVersion (cd_versions db) r SrcActivate]
      | Kept \<Rightarrow> cr_status cur = Active \<and> cr_status r = Active \<and> cr_payload r = cr_payload cur \<and>
          cr_version r = cr_version cur \<and> cd_versions db' = cd_versions db
      | Revised \<Rightarrow> cr_status cur = Active \<and> cr_status r = Active \<and> cr_payload r \<noteq> cr_payload cur \<and>
          cr_version r = maxVersion (cd_versions db) (row_key cur) + 1 \<and>
          (\<exists>src. cd_versions db' = cd_versions db @ [newVersion (cd_versions db) r src]))"

section \<open>Statements\<close>

lemma readItem_Some: "readItem db kind code = Some r \<Longrightarrow> r \<in> set (cd_items db) \<and> cr_kind r = kind \<and> cr_code r = code"
  by (auto simp: readItem_def find_Some_iff)

lemma readItem_None: "readItem db kind code = None \<longleftrightarrow> (kind, code) \<notin> set (map row_key (cd_items db))"
  by (auto simp: readItem_def find_None_iff)

lemma readItem_in:
  "distinct (map row_key (cd_items db)) \<Longrightarrow> r \<in> set (cd_items db) \<Longrightarrow> readItem db (cr_kind r) (cr_code r) = Some r"
proof -
  assume db: "distinct (map row_key (cd_items db))" and r: "r \<in> set (cd_items db)"
  then obtain x where x: "readItem db (cr_kind r) (cr_code r) = Some x"
    by (cases "readItem db (cr_kind r) (cr_code r)") (auto simp: readItem_None)
  then have "x \<in> set (cd_items db)" "row_key x = row_key r" using readItem_Some by auto
  then have "x = r" using db r by (auto simp: distinct_map inj_on_def)
  then show ?thesis using x by simp
qed

lemma rows_by_key:
  "distinct (map row_key (cd_items db)) \<Longrightarrow> x \<in> set (cd_items db) \<Longrightarrow> y \<in> set (cd_items db) \<Longrightarrow> row_key x = row_key y \<Longrightarrow> x = y"
  by (auto simp: distinct_map inj_on_def)

lemma audit_simps [simp]:
  "cd_items (audit a db) = cd_items db" "cd_versions (audit a db) = cd_versions db"
  by (simp_all add: audit_def)

lemma readItem_audit [simp]: "readItem (audit a db) = readItem db"
  by (intro ext) (simp add: readItem_def)

text \<open>An update by key and revision of the row just read is an update by key.\<close>

lemma touch_items:
  assumes "distinct (map row_key (cd_items db))" "cur \<in> set (cd_items db)"
  shows "cd_items (touchItem (cr_kind cur) (cr_code cur) (cr_rev cur) f db) =
    update_where (\<lambda>x. row_key x = row_key cur) (\<lambda>_. (f cur)\<lparr>cr_rev := cr_rev cur + 1\<rparr>) (cd_items db)"
proof -
  have eq: "(if row_key x = row_key cur \<and> cr_rev x = cr_rev cur then (f x)\<lparr>cr_rev := cr_rev x + 1\<rparr> else x) =
      (if row_key x = row_key cur then (f cur)\<lparr>cr_rev := cr_rev cur + 1\<rparr> else x)"
    if "x \<in> set (cd_items db)" for x
    using rows_by_key [OF assms(1) that assms(2)] by auto
  have "cd_items (touchItem (cr_kind cur) (cr_code cur) (cr_rev cur) f db) =
      map (\<lambda>x. if row_key x = row_key cur \<and> cr_rev x = cr_rev cur then (f x)\<lparr>cr_rev := cr_rev x + 1\<rparr> else x) (cd_items db)"
    unfolding touchItem_def update_where_def by simp
  also have "\<dots> = map (\<lambda>x. if row_key x = row_key cur then (f cur)\<lparr>cr_rev := cr_rev cur + 1\<rparr> else x) (cd_items db)"
    by (rule map_cong [OF refl eq])
  finally show ?thesis by (simp only: update_where_def)
qed

lemma maxOrd_less: "dbOk db \<Longrightarrow> r \<in> set (cd_items db) \<Longrightarrow> cr_ord r \<le> maxOrd db (cr_kind r)"
proof -
  have "x \<in> set xs \<Longrightarrow> x \<le> fold max xs a" for x a and xs :: "int list"
  proof (induction xs arbitrary: a)
    case (Cons y ys)
    have "b \<le> fold max zs b" for b :: int and zs
      by (induction zs arbitrary: b) (auto intro: order_trans [OF max.cobounded2])
    then show ?case using Cons by (auto intro: order_trans [OF max.cobounded1])
  qed simp
  then show "r \<in> set (cd_items db) \<Longrightarrow> cr_ord r \<le> maxOrd db (cr_kind r)" by (simp add: maxOrd_def)
qed

section \<open>Drafts\<close>

lemma insertDraft_appends:
  assumes "insertDraftItem db kind ord p who = Inr (r, db')"
  shows "appendsDrafts db [r] db' \<and> cr_payload r = p"
  using assms
  by (auto simp: insertDraftItem_def Let_def appendsDrafts_def readItem_None list_ex_iff split: if_splits)

lemma appends_audit [simp]: "appendsDrafts db rs (audit a db') = appendsDrafts db rs db'"
  "appendsDrafts (audit a db) rs db' = appendsDrafts db rs db'"
  by (simp_all add: appendsDrafts_def)

lemma createItem_appends:
  assumes "createItem env db kind p = Inr (r, db')"
  shows "appendsDrafts db [r] db' \<and> cr_payload r = p"
  using assms insertDraft_appends
  by (auto simp: createItem_def split: option.splits if_splits sum.splits)

lemma appends_trans:
  assumes "appendsDrafts db rs db1" "appendsDrafts db1 rs' db2"
  shows "appendsDrafts db (rs @ rs') db2"
proof -
  note one = assms(1) [unfolded appendsDrafts_def] and two = assms(2) [unfolded appendsDrafts_def]
  have "cd_items db2 = cd_items db @ rs @ rs'" "cd_versions db2 = cd_versions db"
    using one two by simp_all
  then show ?thesis using one two unfolding appendsDrafts_def by (intro conjI) (blast | simp)+
qed

lemma insertDrafts_appends:
  "insertDrafts env kind ord ps db = Inr (rs, db') \<Longrightarrow> appendsDrafts db rs db' \<and> map cr_payload rs = ps"
proof (induction ps arbitrary: ord db rs)
  case Nil
  then show ?case by (simp add: appendsDrafts_def)
next
  case (Cons p ps)
  obtain r db1 where r: "insertDraftItem db kind (ord + 1) p (ce_who env) = Inr (r, db1)"
    using Cons.prems by (auto split: sum.splits)
  obtain rs1 where rs1: "insertDrafts env kind (ord + 1) ps (audit (AuCreate kind (cr_code r)) db1) = Inr (rs1, db')"
      "rs = r # rs1"
    using Cons.prems r by (auto split: sum.splits)
  have "appendsDrafts db ([r] @ rs1) db'"
    using insertDraft_appends [OF r] Cons.IH [OF rs1(1)] by (intro appends_trans) auto
  then show ?case using insertDraft_appends [OF r] Cons.IH [OF rs1(1)] rs1(2) by simp
qed


section \<open>One row\<close>

lemma keys_update:
  "row_key r = row_key cur \<Longrightarrow>
     map row_key (update_where (\<lambda>x. row_key x = row_key cur) (\<lambda>_. r) items) = map row_key items"
  by (induction items) auto

lemma ords_update:
  assumes "distinct (map row_key items)" "cur \<in> set items" "cr_kind r = cr_kind cur" "cr_ord r = cr_ord cur"
  shows "map (\<lambda>r. (cr_kind r, cr_ord r)) (update_where (\<lambda>x. row_key x = row_key cur) (\<lambda>_. r) items) =
    map (\<lambda>r. (cr_kind r, cr_ord r)) items"
proof -
  have "x = cur" if "x \<in> set items" "row_key x = row_key cur" for x
    using that assms(1,2) by (auto simp: distinct_map inj_on_def)
  then show ?thesis using assms(3,4) by (auto simp: update_where_def)
qed

lemma in_update:
  assumes "cur \<in> set items" "row_key r = row_key cur"
  shows "x \<in> set (update_where (\<lambda>x. row_key x = row_key cur) (\<lambda>_. r) items) \<longleftrightarrow>
    x = r \<or> x \<in> set items \<and> row_key x \<noteq> row_key r"
  using assms by (auto simp: update_where_def)

lemma touched_row:
  assumes "distinct (map row_key (cd_items db))" "cur \<in> set (cd_items db)"
    and "r = (f cur)\<lparr>cr_rev := cr_rev cur + 1\<rparr>" "row_key (f cur) = row_key cur"
    and "db' = touchItem (cr_kind cur) (cr_code cur) (cr_rev cur) f db"
  shows "cd_items db' = update_where (\<lambda>x. row_key x = row_key cur) (\<lambda>_. r) (cd_items db) \<and>
    cd_versions db' = cd_versions db \<and> readItem db' (cr_kind cur) (cr_code cur) = Some r"
proof -
  have items: "cd_items db' = update_where (\<lambda>x. row_key x = row_key cur) (\<lambda>_. r) (cd_items db)"
    using touch_items [OF assms(1,2)] assms(3,5) by simp
  have key: "row_key r = row_key cur" using assms(3,4) by simp
  have "distinct (map row_key (cd_items db'))" using assms(1) keys_update [OF key] by (simp add: items)
  moreover have "r \<in> set (cd_items db')" using in_update [OF assms(2) key] by (simp add: items)
  ultimately have "readItem db' (cr_kind r) (cr_code r) = Some r" by (rule readItem_in)
  then show ?thesis using items key assms(5) by (simp add: touchItem_def)
qed

lemma updateItemPayload_row:
  assumes "updateItemPayload db (cr_kind cur) (cr_code cur) (cr_rev cur) p who v = Inr (Some r, db')"
    and "distinct (map row_key (cd_items db))" "cur \<in> set (cd_items db)"
  shows "cd_items db' = update_where (\<lambda>x. row_key x = row_key cur) (\<lambda>_. r) (cd_items db) \<and>
    cd_versions db' = cd_versions db \<and> itemCheck (cr_code cur) p \<and>
    r = cur\<lparr>cr_payload := p, cr_by := who, cr_version := (case v of None \<Rightarrow> cr_version cur | Some n \<Rightarrow> n),
            cr_rev := cr_rev cur + 1\<rparr>"
proof -
  define f where "f = (\<lambda>x::cat_row. x\<lparr>cr_payload := p, cr_by := who,
    cr_version := (case v of None \<Rightarrow> cr_version x | Some n \<Rightarrow> n)\<rparr>)"
  define db2 where "db2 = touchItem (cr_kind cur) (cr_code cur) (cr_rev cur) f db"
  define r2 where "r2 = (f cur)\<lparr>cr_rev := cr_rev cur + 1\<rparr>"
  note t = touched_row [OF assms(2,3) r2_def _ db2_def]
  have t: "cd_items db2 = update_where (\<lambda>x. row_key x = row_key cur) (\<lambda>_. r2) (cd_items db)"
      "cd_versions db2 = cd_versions db" "readItem db2 (cr_kind cur) (cr_code cur) = Some r2"
    using t by (simp_all add: f_def)
  have "itemCheck (cr_code cur) p" "r = r2" "db' = db2"
    using assms(1) readItem_in [OF assms(2,3)] t(3)
    by (auto simp: updateItemPayload_def db2_def [unfolded f_def, symmetric] Let_def split: if_splits)
  then show ?thesis using t by (simp add: r2_def f_def)
qed

lemma nextVersion_cases:
  assumes "nextVersion env db cur next src = Inr (v, db')"
  shows "(v = None \<and> db' = db \<and> (cr_status cur \<noteq> Active \<or> next = cr_payload cur)) \<or>
    (v = Some (maxVersion (cd_versions db) (row_key cur) + 1) \<and> cr_status cur = Active \<and> next \<noteq> cr_payload cur \<and>
     cd_items db' = cd_items db \<and>
     cd_versions db' = cd_versions db @ [\<lparr>vr_kind = cr_kind cur, vr_code = cr_code cur,
        vr_version = maxVersion (cd_versions db) (row_key cur) + 1, vr_payload = next, vr_source = src\<rparr>])"
  using assms
  by (auto simp: nextVersion_def insertCatalogVersion_def Let_def split: if_splits sum.splits)

lemma storePayload_changes:
  assumes "storePayload env spec db cur next src note = Inr (r, db')"
    and "dbOk db" "cur \<in> set (cd_items db)" "payloadOk next"
  shows "\<exists>ch. ch \<noteq> Published \<and> changesRow db cur r ch db'"
proof -
  have keys: "distinct (map row_key (cd_items db))" using assms(2) by (simp add: dbOk_def)
  obtain v db1 where v: "nextVersion env db cur next src = Inr (v, db1)"
    using assms(1) by (auto simp: storePayload_def split: if_splits sum.splits)
  obtain db2 where u: "updateItemPayload db1 (cr_kind cur) (cr_code cur) (cr_rev cur) next (ce_who env) v = Inr (Some r, db2)"
      and db': "cd_items db' = cd_items db2" "cd_versions db' = cd_versions db2"
    using assms(1) v by (auto simp: storePayload_def split: if_splits sum.splits option.splits)
  have items1: "cd_items db1 = cd_items db" using nextVersion_cases [OF v] by auto
  have row: "cd_items db2 = update_where (\<lambda>x. row_key x = row_key cur) (\<lambda>_. r) (cd_items db)"
      "cd_versions db2 = cd_versions db1" "itemCheck (cr_code cur) next"
      "r = cur\<lparr>cr_payload := next, cr_by := ce_who env,
        cr_version := (case v of None \<Rightarrow> cr_version cur | Some n \<Rightarrow> n), cr_rev := cr_rev cur + 1\<rparr>"
    using updateItemPayload_row [OF u] keys assms(3) items1 by auto
  have "0 < cr_version cur" using assms(2,3) by (auto simp: dbOk_def list_all_iff rowOk_def)
  then have ok: "rowOk r" using row(3,4) assms(4) nextVersion_cases [OF v] by (auto simp: rowOk_def)
  have base: "cur \<in> set (cd_items db)" "cd_items db' = update_where (\<lambda>x. row_key x = row_key cur) (\<lambda>_. r) (cd_items db)"
      "row_key r = row_key cur" "cr_ord r = cr_ord cur" "cr_rev r = cr_rev cur + 1"
    using assms(3) row(1,4) db' by simp_all
  from nextVersion_cases [OF v]
  consider (same) "v = None" "db1 = db" "cr_status cur \<noteq> Active \<or> next = cr_payload cur"
    | (revised) "v = Some (maxVersion (cd_versions db) (row_key cur) + 1)" "cr_status cur = Active"
      "next \<noteq> cr_payload cur"
      "cd_versions db1 = cd_versions db @ [\<lparr>vr_kind = cr_kind cur, vr_code = cr_code cur,
        vr_version = maxVersion (cd_versions db) (row_key cur) + 1, vr_payload = next, vr_source = src\<rparr>]"
    by blast
  then show ?thesis
  proof cases
    case c: same
    have vs: "cd_versions db' = cd_versions db" using c db' row(2) by simp
    show ?thesis
    proof (cases "cr_status cur")
      case Draft
      then show ?thesis using base ok vs row(4)
        by (intro exI [of _ Edited]) (simp add: changesRow_def)
    next
      case Active
      then show ?thesis using base ok vs row(4) c
        by (intro exI [of _ Kept]) (simp add: changesRow_def)
    qed
  next
    case c: revised
    have "cd_versions db' = cd_versions db @ [newVersion (cd_versions db) r src]"
      using c db' row by (simp add: newVersion_def)
    then show ?thesis using base ok row(4) c by (intro exI [of _ Revised]) (auto simp: changesRow_def)
  qed
qed


text \<open>A patched payload is well formed when what it sets is.\<close>

lemma merge_ok: "jvalOk v \<Longrightarrow> jvalOk w \<Longrightarrow> jvalOk (mergeKeyOrder v w)"
proof -
  have "jvalOk v \<longrightarrow> (\<forall>w. jvalOk w \<longrightarrow> jvalOk (mergeKeyOrder v w))"
    "fieldsOk fs \<longrightarrow> (\<forall>m. jwf m \<longrightarrow> fieldsOk m \<longrightarrow> fieldsOk (mergeFields fs m) \<and> set (jkeys (mergeFields fs m)) \<subseteq> set (jkeys fs) \<and>
        (distinct (jkeys fs) \<longrightarrow> distinct (jkeys (mergeFields fs m))))"
    "itemsOk xs \<longrightarrow> (\<forall>ys. itemsOk ys \<longrightarrow> itemsOk (mergeItems xs ys))" for xs fs
  proof (induction v and fs and xs rule: jvalOk_fieldsOk_itemsOk.induct)
    case (1 v)
    show ?case
    proof (intro impI allI)
      fix w assume v: "jvalOk v" and w: "jvalOk w"
      show "jvalOk (mergeKeyOrder v w)"
      proof (cases v)
        case (JObj p)
        show ?thesis
        proof (cases w)
          case w2: (JObj n)
          have p: "jwf p" "fieldsOk p" using v JObj by (simp_all add: jvalOk.simps [of "JObj p"])
          have n: "jwf n" "fieldsOk n" using w w2 by (simp_all add: jvalOk.simps [of "JObj n"])
          have m: "fieldsOk (mergeFields p n)" "set (jkeys (mergeFields p n)) \<subseteq> set (jkeys p)"
              "distinct (jkeys (mergeFields p n))"
            using 1(2) [OF JObj] p n by (auto simp: jwf_def)
          have rest: "fieldsOk (filter (\<lambda>(k, _). jget p k = None) n)" using n(2) by (auto simp: fieldsOk_iff)
          have new: "set (jkeys (filter (\<lambda>(k, _). jget p k = None) n)) \<inter> set (jkeys p) = {}"
            using jget_None_iff [of p] by (force simp: jkeys_def)
          have "distinct (jkeys (filter (\<lambda>(k, _). jget p k = None) n))"
            using n(1) by (simp add: jwf_def jkeys_def distinct_map_filter)
          then have "jwf (mergePayload p n)"
            using m new by (auto simp: mergePayload_def jwf_def jkeys_def)
          moreover have "fieldsOk (mergePayload p n)" using m(1) rest by (auto simp: mergePayload_def fieldsOk_iff)
          ultimately show ?thesis by (simp add: JObj w2 merge_objects jvalOk.simps)
        qed (use w in \<open>simp_all add: JObj mergeKeyOrder.simps\<close>)
      next
        case (JArr xs)
        then show ?thesis using 1(1) [OF JArr] v w
          by (cases w) (simp_all add: mergeKeyOrder.simps jvalOk.simps)
      qed (use w in \<open>simp_all add: mergeKeyOrder.simps\<close>)
    qed
  next
    case (3 f fs)
    show ?case
    proof (intro impI allI)
      fix m assume a: "fieldsOk (f # fs)" and m: "jwf m" "fieldsOk m"
      obtain k v where f: "f = (k, v)" by fastforce
      have IH: "fieldsOk (mergeFields fs m)" "set (jkeys (mergeFields fs m)) \<subseteq> set (jkeys fs)"
          "distinct (jkeys fs) \<Longrightarrow> distinct (jkeys (mergeFields fs m))"
        using 3(2) a m by simp_all
      have "jvalOk w" if "jget m k = Some w" for w
        using that m by (auto simp: jget_in fieldsOk_iff)
      then show "fieldsOk (mergeFields (f # fs) m) \<and> set (jkeys (mergeFields (f # fs) m)) \<subseteq> set (jkeys (f # fs)) \<and>
          (distinct (jkeys (f # fs)) \<longrightarrow> distinct (jkeys (mergeFields (f # fs) m)))"
        using IH 3(1) a by (auto simp: f jkeys_def split: option.split)
    qed
  next
    case (5 x xs)
    then show ?case by (auto split: list.split)
  qed (simp_all add: jkeys_def)
  then show "jvalOk v \<Longrightarrow> jvalOk w \<Longrightarrow> jvalOk (mergeKeyOrder v w)" by blast
qed

lemma payloadOk_iff: "payloadOk p \<longleftrightarrow> jvalOk (JObj p)"
  by (simp add: payloadOk_def jvalOk.simps)

lemma fieldsOk_jset: "fieldsOk m \<Longrightarrow> jvalOk v \<Longrightarrow> fieldsOk (jset m k v)"
  by (induction m k v rule: jset.induct) auto

lemma patched_ok:
  assumes "applyCatalogPatch prev sets unset = Some next" "payloadOk prev" "payloadOk sets"
  shows "payloadOk next"
proof -
  define spread where "spread = foldl (\<lambda>m (k, v). jset m k v) prev sets"
  have "fieldsOk m \<Longrightarrow> fieldsOk sets \<Longrightarrow> fieldsOk (foldl (\<lambda>m (k, v). jset m k v) m sets)" for m
    by (induction sets arbitrary: m) (auto simp: fieldsOk_jset)
  then have s: "payloadOk spread"
    using assms(2,3) jwf_spread [of prev sets] by (simp add: payloadOk_def spread_def)
  have "set (jdel m k) \<subseteq> set m" for m :: payload and k
    by (induction m k rule: jdel.induct) auto
  then have "fieldsOk (jdel m k)" if "fieldsOk m" for m k
    using that by (fastforce simp: fieldsOk_iff)
  then have "payloadOk (foldl jdel spread unset)"
    using s by (induction unset arbitrary: spread) (auto simp: payloadOk_def)
  moreover have "next = mergePayload prev (foldl jdel spread unset)"
    using assms(1) by (simp add: applyCatalogPatch_def spread_def Let_def split: if_splits)
  ultimately show ?thesis
    using merge_ok [of "JObj prev" "JObj (foldl jdel spread unset)"] assms(2)
    by (simp add: payloadOk_iff merge_objects)
qed


section \<open>The commands\<close>

lemma updateItem_changes:
  assumes "updateItem env db kind code rv sets unset = Inr (r, db')" "dbOk db" "payloadOk sets"
  shows "\<exists>cur ch spec. readItem db kind code = Some cur \<and> cr_rev cur = rv \<and> ce_spec env kind = Some spec \<and>
    ch \<noteq> Published \<and> changesRow db cur r ch db' \<and>
    lockedFieldChanges (cr_status cur) (cr_payload cur) (cr_payload r) (ks_locked spec) = []"
proof -
  obtain spec cur where c: "ce_spec env kind = Some spec" "readItem db kind code = Some cur" "cr_rev cur = rv"
    using assms(1) by (auto simp: updateItem_def split: option.splits if_splits)
  obtain nxt where n: "applyCatalogPatch (cr_payload cur) sets unset = Some nxt"
      "lockedFieldChanges (cr_status cur) (cr_payload cur) nxt (ks_locked spec) = []"
      "storePayload env spec db cur nxt SrcConsole (AuUpdate kind code) = Inr (r, db')"
    using assms(1) c by (auto simp: updateItem_def Let_def split: option.splits if_splits)
  have cur: "cur \<in> set (cd_items db)" using readItem_Some [OF c(2)] by simp
  then have "payloadOk (cr_payload cur)" using assms(2) by (auto simp: dbOk_def list_all_iff rowOk_def)
  then have ok: "payloadOk nxt" by (rule patched_ok [OF n(1) _ assms(3)])
  obtain ch where ch: "ch \<noteq> Published" "changesRow db cur r ch db'"
    using storePayload_changes [OF n(3) assms(2) cur ok] by blast
  have "cr_payload r = nxt"
  proof -
    obtain v db1 db2 where u: "nextVersion env db cur nxt SrcConsole = Inr (v, db1)"
        "updateItemPayload db1 (cr_kind cur) (cr_code cur) (cr_rev cur) nxt (ce_who env) v = Inr (Some r, db2)"
      using n(3) by (auto simp: storePayload_def split: if_splits sum.splits option.splits)
    have "distinct (map row_key (cd_items db1))" "cur \<in> set (cd_items db1)"
      using nextVersion_cases [OF u(1)] assms(2) cur by (auto simp: dbOk_def)
    from updateItemPayload_row [OF u(2) this] show ?thesis by simp
  qed
  then show ?thesis using c ch n(2) by blast
qed

lemma activate_changes:
  assumes "activateCatalogItem env db kind code rv = Inr (r, db')" "dbOk db"
  shows "\<exists>cur. readItem db kind code = Some cur \<and> cr_rev cur = rv \<and> changesRow db cur r Published db'"
proof -
  have keys: "distinct (map row_key (cd_items db))" using assms(2) by (simp add: dbOk_def)
  obtain cur where c: "readItem db kind code = Some cur" "cr_rev cur = rv" "cr_status cur = Draft"
    using assms(1) by (auto simp: activateCatalogItem_def split: option.splits if_splits)
  have cur: "cur \<in> set (cd_items db)" "cr_kind cur = kind" "cr_code cur = code" using readItem_Some [OF c(1)] by auto
  obtain db1 db2 where a: "activateItem db kind code rv (ce_who env) = (Some r, db1)"
      "insertCatalogVersion (audit (AuActivate kind code) db1)
         \<lparr>vr_kind = kind, vr_code = code, vr_version = 1, vr_payload = cr_payload r, vr_source = SrcActivate\<rparr> = Inr db2"
      "cd_items db' = cd_items db2" "cd_versions db' = cd_versions db2"
    using assms(1) c by (auto simp: activateCatalogItem_def split: option.splits if_splits sum.splits prod.splits)
  define f where "f = (\<lambda>x::cat_row. x\<lparr>cr_status := Active, cr_version := 1, cr_by := ce_who env\<rparr>)"
  define db3 where "db3 = touchItem (cr_kind cur) (cr_code cur) (cr_rev cur) f db"
  define r3 where "r3 = (f cur)\<lparr>cr_rev := cr_rev cur + 1\<rparr>"
  have t: "cd_items db3 = update_where (\<lambda>x. row_key x = row_key cur) (\<lambda>_. r3) (cd_items db)"
      "cd_versions db3 = cd_versions db" "readItem db3 (cr_kind cur) (cr_code cur) = Some r3"
    using touched_row [OF keys cur(1) r3_def _ db3_def] by (simp_all add: f_def)
  have same: "db1 = db3" "r = r3"
    using a(1) c cur t(3) by (auto simp: activateItem_def db3_def [unfolded f_def One_nat_def, symmetric] Let_def)
  have "versionsOf (cd_versions db) (row_key cur) = []"
  proof (rule ccontr)
    assume "versionsOf (cd_versions db) (row_key cur) \<noteq> []"
    then obtain v where v: "v \<in> set (cd_versions db)" "ver_key v = row_key cur"
      by (cases "versionsOf (cd_versions db) (row_key cur)") (auto simp: versionsOf_def dest!: filter_ConsD)
    then obtain x where x: "x \<in> set (cd_items db)" "row_key x = row_key cur" "cr_status x = Active"
      using assms(2) by (force simp: dbOk_def versionsOk_def)
    have "x = cur" by (rule rows_by_key [OF keys x(1) cur(1) x(2)])
    then show False using x(3) c(3) by simp
  qed
  then have "maxVersion (cd_versions db) (row_key cur) = 0" by (simp add: maxVersion_def)
  moreover have "cd_items db' = cd_items db1"
    "cd_versions db' = cd_versions db1 @ [\<lparr>vr_kind = kind, vr_code = code, vr_version = 1, vr_payload = cr_payload r,
       vr_source = SrcActivate\<rparr>]"
    using a(2-4) by (auto simp: insertCatalogVersion_def split: if_splits)
  moreover have "rowOk r3" using assms(2) cur(1) by (auto simp: dbOk_def list_all_iff rowOk_def r3_def f_def)
  ultimately have "changesRow db cur r Published db'"
    using t same cur c(3) by (simp add: changesRow_def newVersion_def r3_def f_def)
  then show ?thesis using c by blast
qed

lemma fix_changes:
  assumes "fixLockedFields env db kind code sets reason = Inr (r, db')" "dbOk db" "payloadOk sets"
  shows "\<exists>cur ch. ch \<noteq> Published \<and> changesRow db cur r ch db'"
proof -
  obtain spec cur nxt where c: "readItem db kind code = Some cur"
      "applyCatalogPatch (cr_payload cur) sets [] = Some nxt"
      "storePayload env spec db cur nxt SrcFix (AuFix kind code reason) = Inr (r, db')"
    using assms(1) by (auto simp: fixLockedFields_def Let_def split: option.splits if_splits)
  have cur: "cur \<in> set (cd_items db)" using readItem_Some [OF c(1)] by simp
  then have "payloadOk (cr_payload cur)" using assms(2) by (auto simp: dbOk_def list_all_iff rowOk_def)
  then have "payloadOk nxt" by (rule patched_ok [OF c(2) _ assms(3)])
  from storePayload_changes [OF c(3) assms(2) cur this] show ?thesis by blast
qed

lemma import_appends:
  assumes "importCatalogCsv env db kind csv labels = Inr (rs, db')"
  shows "\<exists>spec. ce_spec env kind = Some spec \<and> appendsDrafts db rs db' \<and>
    prepareCatalogCsv (ks_shape spec) (\<lambda>p. map csvIssueOf (ks_validate spec p)) csv labels = Inr (map cr_payload rs)"
  using assms insertDrafts_appends
  by (auto simp: importCatalogCsv_def split: option.splits if_splits sum.splits)


section \<open>The tables stay in order\<close>

lemma fold_max_snoc: "fold max (xs @ [x]) a = max x (fold max xs a)" for x :: nat
  by simp

lemma maxVersion_snoc:
  "maxVersion (vs @ [v]) key = (if ver_key v = key then max (vr_version v) (maxVersion vs key) else maxVersion vs key)"
  by (simp add: maxVersion_def versionsOf_def)

lemma maxVersion_ge: "v \<in> set vs \<Longrightarrow> vr_version v \<le> maxVersion vs (ver_key v)"
proof (induction vs rule: rev_induct)
  case (snoc x vs)
  then show ?case by (auto simp: maxVersion_snoc)
qed simp

lemma versionsOf_snoc: "versionsOf (vs @ [v]) key = versionsOf vs key @ (if ver_key v = key then [v] else [])"
  by (simp add: versionsOf_def)

lemma versionsOk_range: "versionsOk items vs \<Longrightarrow> set (map vr_version (versionsOf vs key)) = {1..maxVersion vs key}"
  unfolding versionsOk_def by blast

lemma versionsOk_add:
  assumes "versionsOk items vs" and "r \<in> set items" "cr_status r = Active"
  shows "versionsOk items (vs @ [newVersion vs r src])"
proof -
  define n where "n = newVersion vs r src"
  have n: "ver_key n = row_key r" "vr_version n = maxVersion vs (row_key r) + 1" by (simp_all add: n_def newVersion_def)
  have "(ver_key n, vr_version n) \<notin> set (map (\<lambda>v. (ver_key v, vr_version v)) vs)"
    using maxVersion_ge [of _ vs] n by fastforce
  moreover have "set (map vr_version (versionsOf (vs @ [n]) key)) = {1..maxVersion (vs @ [n]) key}" for key
  proof (cases "ver_key n = key")
    case True
    have "set (map vr_version (versionsOf vs key)) = {1..maxVersion vs key}" by (rule versionsOk_range [OF assms(1)])
    then show ?thesis using n True by (auto simp: versionsOf_snoc maxVersion_snoc le_Suc_eq)
  next
    case False
    have "set (map vr_version (versionsOf vs key)) = {1..maxVersion vs key}" by (rule versionsOk_range [OF assms(1)])
    then show ?thesis using False by (simp add: versionsOf_snoc maxVersion_snoc)
  qed
  ultimately show ?thesis
    using assms n unfolding n_def [symmetric] versionsOk_def by force
qed

lemma versionsOk_items:
  assumes "versionsOk items vs"
    and "\<And>x. x \<in> set items \<Longrightarrow> cr_status x = Active \<Longrightarrow> \<exists>y \<in> set items'. row_key y = row_key x \<and> cr_status y = Active"
  shows "versionsOk items' vs"
  using assms unfolding versionsOk_def by (metis (no_types, lifting))

lemma dbOk_appends:
  assumes "dbOk db" "appendsDrafts db rs db'" "list_all (\<lambda>r. payloadOk (cr_payload r)) rs"
  shows "dbOk db'"
proof -
  have "versionsOk (cd_items db') (cd_versions db')"
    using assms(1,2) versionsOk_items [of "cd_items db" "cd_versions db" "cd_items db'"]
    by (auto simp: dbOk_def appendsDrafts_def)
  moreover have "list_all rowOk (cd_items db')"
    using assms by (auto simp: dbOk_def appendsDrafts_def list_all_iff rowOk_def)
  moreover have "distinct (map row_key (cd_items db'))" "distinct (map (\<lambda>r. (cr_kind r, cr_ord r)) (cd_items db'))"
    using assms(1,2) unfolding dbOk_def appendsDrafts_def by blast+
  ultimately show ?thesis unfolding dbOk_def by blast
qed

lemma changed_items:
  assumes "changesRow db cur r ch db'"
  shows "x \<in> set (cd_items db') \<longleftrightarrow> x = r \<or> x \<in> set (cd_items db) \<and> row_key x \<noteq> row_key r"
  using assms in_update [of cur "cd_items db" r x] by (simp add: changesRow_def)

lemma changed_versions:
  assumes "changesRow db cur r ch db'"
  shows "cd_versions db' = cd_versions db \<or>
    cr_status r = Active \<and> (\<exists>src. cd_versions db' = cd_versions db @ [newVersion (cd_versions db) r src])"
  using assms by (cases ch) (auto simp: changesRow_def)

lemma changed_active: "changesRow db cur r ch db' \<Longrightarrow> cr_status cur = Active \<Longrightarrow> cr_status r = Active"
  by (cases ch) (auto simp: changesRow_def)

lemma dbOk_changes:
  assumes "dbOk db" "changesRow db cur r ch db'"
  shows "dbOk db'"
proof -
  have c: "cur \<in> set (cd_items db)" "row_key r = row_key cur" "cr_ord r = cr_ord cur" "rowOk r"
      "cd_items db' = update_where (\<lambda>x. row_key x = row_key cur) (\<lambda>_. r) (cd_items db)"
    using assms(2) by (simp_all add: changesRow_def)
  have keys: "distinct (map row_key (cd_items db))" using assms(1) by (simp add: dbOk_def)
  have kept: "versionsOk (cd_items db') (cd_versions db)"
  proof (rule versionsOk_items)
    show "versionsOk (cd_items db) (cd_versions db)" using assms(1) by (simp add: dbOk_def)
    fix x assume x: "x \<in> set (cd_items db)" "cr_status x = Active"
    show "\<exists>y \<in> set (cd_items db'). row_key y = row_key x \<and> cr_status y = Active"
    proof (cases "row_key x = row_key r")
      case True
      then have "row_key x = row_key cur" using c(2) by simp
      then have "x = cur" by (rule rows_by_key [OF keys x(1) c(1)])
      then have "cr_status r = Active" using changed_active [OF assms(2)] x(2) by simp
      moreover have "r \<in> set (cd_items db')" using changed_items [OF assms(2)] by simp
      ultimately show ?thesis using True by (intro bexI [of _ r]) simp_all
    next
      case False
      then have "x \<in> set (cd_items db')" using x(1) changed_items [OF assms(2)] by simp
      then show ?thesis using x(2) by (intro bexI [of _ x]) simp_all
    qed
  qed
  have "r \<in> set (cd_items db')" using changed_items [OF assms(2)] by simp
  then have "versionsOk (cd_items db') (cd_versions db')"
    using changed_versions [OF assms(2)] kept versionsOk_add [OF kept] by auto
  moreover have "list_all rowOk (cd_items db')"
    using assms(1) c(4) changed_items [OF assms(2)] by (auto simp: dbOk_def list_all_iff)
  moreover have "distinct (map row_key (cd_items db'))" using keys keys_update [OF c(2)] by (simp add: c(5))
  moreover have "distinct (map (\<lambda>r. (cr_kind r, cr_ord r)) (cd_items db'))"
    using assms(1) ords_update [OF keys c(1), of r] c(2,3) by (simp add: c(5) dbOk_def)
  ultimately show ?thesis by (simp add: dbOk_def)
qed

section \<open>Versions hold the content\<close>

lemma contentOf_snoc:
  "contentOf (vs @ [v]) key n =
     (case contentOf vs key n of
        Some p \<Rightarrow> Some p
      | None \<Rightarrow> if ver_key v = key \<and> vr_version v = n then Some (vr_payload v) else None)"
  by (induction vs) (auto simp: contentOf_def)

lemma contentOf_above: "n > maxVersion vs key \<Longrightarrow> contentOf vs key n = None"
  using maxVersion_ge [of _ vs] by (force simp: contentOf_def find_None_iff)

lemma contentOf_kept: "contentOf vs key n = Some p \<Longrightarrow> contentOf (vs @ ws) key n = Some p"
  by (induction ws rule: rev_induct) (auto simp: contentOf_snoc simp flip: append_assoc)

lemma content_new:
  "contentOf (vs @ [newVersion vs r src]) (row_key r) (maxVersion vs (row_key r) + 1) = Some (cr_payload r)"
  using contentOf_above [of vs "row_key r" "maxVersion vs (row_key r) + 1"]
  by (simp add: contentOf_snoc newVersion_def)

lemma versioned_appends: "versioned db \<Longrightarrow> appendsDrafts db rs db' \<Longrightarrow> versioned db'"
  by (auto simp: versioned_def appendsDrafts_def list_all_iff)

lemma versioned_changes:
  assumes "dbOk db" "versioned db" "changesRow db cur r ch db'"
  shows "versioned db'"
proof -
  have keys: "distinct (map row_key (cd_items db))" using assms(1) by (simp add: dbOk_def)
  have cur: "cur \<in> set (cd_items db)" "row_key r = row_key cur" using assms(3) by (simp_all add: changesRow_def)
  let ?vs = "cd_versions db" and ?vs' = "cd_versions db'"
  have other: "contentOf ?vs' k (maxVersion ?vs' k) = contentOf ?vs k (maxVersion ?vs k) \<and> maxVersion ?vs' k = maxVersion ?vs k"
    if "k \<noteq> row_key r" for k
    using changed_versions [OF assms(3)] that
    by (auto simp: contentOf_snoc maxVersion_snoc newVersion_def split: option.split)
  have mine: "contentOf ?vs' (row_key r) (maxVersion ?vs' (row_key r)) = Some (cr_payload r) \<and>
      cr_version r \<le> maxVersion ?vs' (row_key r)" if "cr_status r = Active"
  proof (cases ch)
    case Edited
    then show ?thesis using assms(3) that by (simp add: changesRow_def)
  next
    case Published
    then show ?thesis using assms(3) content_new [of ?vs r SrcActivate]
      by (simp add: changesRow_def maxVersion_snoc) (simp add: newVersion_def)
  next
    case Kept
    then have "cr_status cur = Active" "?vs' = ?vs" "cr_payload r = cr_payload cur" "cr_version r = cr_version cur"
      using assms(3) by (simp_all add: changesRow_def)
    then show ?thesis using assms(2) cur by (simp add: versioned_def list_all_iff)
  next
    case Revised
    then obtain src where "?vs' = ?vs @ [newVersion ?vs r src]" "cr_version r = maxVersion ?vs (row_key cur) + 1"
      using assms(3) by (auto simp: changesRow_def)
    then show ?thesis using content_new [of ?vs r src] cur
      by (simp add: maxVersion_snoc) (simp add: newVersion_def)
  qed
  show ?thesis
    unfolding versioned_def list_all_iff
  proof (intro ballI impI)
    fix x assume x: "x \<in> set (cd_items db')" "cr_status x = Active"
    show "contentOf ?vs' (row_key x) (maxVersion ?vs' (row_key x)) = Some (cr_payload x) \<and>
        cr_version x \<le> maxVersion ?vs' (row_key x)"
    proof (cases "x = r")
      case False
      then have "x \<in> set (cd_items db)" "row_key x \<noteq> row_key r" using changed_items [OF assms(3)] x(1) by auto
      then have old: "contentOf ?vs (row_key x) (maxVersion ?vs (row_key x)) = Some (cr_payload x) \<and>
          cr_version x \<le> maxVersion ?vs (row_key x)" and o: "row_key x \<noteq> row_key r"
        using assms(2) x(2) by (simp_all add: versioned_def list_all_iff)
      show ?thesis using old other [OF o] by metis
    qed (use mine x in simp)
  qed
qed

end
