(* ===== verification/CatalogLive.thy ===== *)
theory CatalogLive
  imports CatalogFacts
begin

text \<open>
  The catalogue a running server answers from (config/source.ts): a snapshot of the active items with
  their versions, changed row by row after each commit, and read again as a whole when a commit's outcome
  is unknown. The events are those of one process and its database; a write that commits is put into the
  snapshot before the next write commits.
\<close>

section \<open>The snapshot\<close>

type_synonym item_key = "string \<times> jstext"
type_synonym version_history = "(item_key, (nat, payload) jsmap) jsmap"

record cat_snap =
  sn_items :: "(string, payload list) jsmap"
  sn_versions :: "(item_key, nat) jsmap"
  sn_generation :: nat

record cat_loaded =
  ld_snap :: cat_snap
  ld_ords :: "(string, (jstext, int) jsmap) jsmap"
  ld_history :: version_history

definition addVersion :: "version_history \<Rightarrow> item_key \<Rightarrow> nat \<Rightarrow> payload \<Rightarrow> version_history" where
  "addVersion h key n p =
     (let m = (case jget h key of None \<Rightarrow> [] | Some m \<Rightarrow> m)
      in jset h key (if jget m n = None then jset m n p else m))"

definition addRows :: "version_history \<Rightarrow> ver_row list \<Rightarrow> version_history" where
  "addRows h vs = foldl (\<lambda>h v. addVersion h (ver_key v) (vr_version v) (vr_payload v)) h vs"

definition historyOf :: "ver_row list \<Rightarrow> version_history" where
  "historyOf vs = addRows [] vs"

definition latestOf :: "version_history \<Rightarrow> item_key \<Rightarrow> nat" where
  "latestOf h key = (case jget h key of None \<Rightarrow> 0 | Some m \<Rightarrow> fold max (jkeys m) 0)"

definition currentVersionOf :: "cat_row \<Rightarrow> version_history \<Rightarrow> nat" where
  "currentVersionOf r h = max (cr_version r) (latestOf h (row_key r))"

text \<open>\<open>new Set\<close> keeps the first occurrence of each.\<close>

definition firstOnes :: "'a list \<Rightarrow> 'a list" where
  "firstOnes xs = rev (remdups (rev xs))"

definition ordsOf :: "cat_row list \<Rightarrow> (string, (jstext, int) jsmap) jsmap" where
  "ordsOf rows =
     map (\<lambda>k. (k, foldl (\<lambda>m r. jset m (cr_code r) (cr_ord r)) [] (filter (\<lambda>r. cr_kind r = k) rows)))
       (firstOnes (map cr_kind rows))"

definition activeOf :: "cat_row list \<Rightarrow> string \<Rightarrow> cat_row list" where
  "activeOf rows k = sort_key cr_ord (filter (\<lambda>r. cr_kind r = k) (filter (\<lambda>r. cr_status r = Active) rows))"

definition snapshotOf :: "cat_row list \<Rightarrow> nat \<Rightarrow> version_history \<Rightarrow> cat_snap" where
  "snapshotOf rows gen h =
     (let active = filter (\<lambda>r. cr_status r = Active) rows
      in \<lparr>sn_items = map (\<lambda>k. (k, map cr_payload (activeOf rows k))) (firstOnes (map cr_kind active)),
          sn_versions = foldl (\<lambda>m r. if currentVersionOf r h > 0 then jset m (row_key r) (currentVersionOf r h) else m)
             [] active,
          sn_generation = gen\<rparr>)"

text \<open>The content of a version, for the proposal a customer was sent; and whether any item has been changed
  since it was published.\<close>

definition catalogItemAt :: "cat_loaded \<Rightarrow> string \<Rightarrow> jstext \<Rightarrow> nat \<Rightarrow> payload option" where
  "catalogItemAt cur kind code version =
     (case jget (ld_history cur) (kind, code) of None \<Rightarrow> None | Some m \<Rightarrow> jget m version)"

definition catalogVersioned :: "cat_loaded \<Rightarrow> bool" where
  "catalogVersioned cur \<longleftrightarrow> list_ex (\<lambda>(_, v). v > 1) (sn_versions (ld_snap cur))"

section \<open>Starting\<close>

text \<open>
  Versions that are missing: an active item without any, and one whose content is not that of its
  latest version (changed by a server that does not keep versions yet).
\<close>

definition missingFor :: "version_history \<Rightarrow> cat_row \<Rightarrow> ver_row list" where
  "missingFor h r =
     (let latest = latestOf h (row_key r)
      in if latest = 0 \<or> (case jget h (row_key r) of None \<Rightarrow> None | Some m \<Rightarrow> jget m latest) \<noteq> Some (cr_payload r)
         then [\<lparr>vr_kind = cr_kind r, vr_code = cr_code r, vr_version = latest + 1,
                vr_payload = cr_payload r, vr_source = SrcBackfill\<rparr>]
         else [])"

definition backfillPlan :: "cat_row list \<Rightarrow> ver_row list \<Rightarrow> ver_row list" where
  "backfillPlan rows vs = concat (map (missingFor (historyOf vs)) rows)"

fun writeBackfill :: "ver_row list \<Rightarrow> cat_db \<Rightarrow> db_error + cat_db" where
  "writeBackfill [] db = Inr db"
| "writeBackfill (v # vs) db =
     (case insertCatalogVersion db v of
        Inl e \<Rightarrow> Inl e
      | Inr db' \<Rightarrow> writeBackfill vs (audit (AuVersion (vr_kind v) (vr_code v) (vr_version v) SrcBackfill) db'))"

text \<open>Loading at start: the rows and versions read together, the versions that were missing added.\<close>

definition loadCatalog :: "cat_db \<Rightarrow> db_error + cat_loaded \<times> cat_db" where
  "loadCatalog db =
     (let items = readActiveCatalog db; vs = readCatalogVersions db; missing = backfillPlan items vs
      in case writeBackfill missing db of
           Inl e \<Rightarrow> Inl e
         | Inr db' \<Rightarrow>
             (let h = historyOf (vs @ missing)
              in Inr (\<lparr>ld_snap = snapshotOf items 0 h, ld_ords = ordsOf items, ld_history = h\<rparr>, db')))"

section \<open>After a commit\<close>

definition ordIn :: "(string, (jstext, int) jsmap) jsmap \<Rightarrow> string \<Rightarrow> jstext \<Rightarrow> int option" where
  "ordIn ords kind code = (case jget ords kind of None \<Rightarrow> None | Some m \<Rightarrow> jget m code)"

definition itemsOf :: "cat_snap \<Rightarrow> string \<Rightarrow> payload list" where
  "itemsOf s kind = (case jget (sn_items s) kind of None \<Rightarrow> [] | Some xs \<Rightarrow> xs)"

text \<open>The list of a kind with the row put in its place.\<close>

definition placeItem :: "(string, (jstext, int) jsmap) jsmap \<Rightarrow> cat_row \<Rightarrow> payload list \<Rightarrow> payload list" where
  "placeItem ords r xs =
     (let others = filter (\<lambda>x. codeText x \<noteq> cr_code r) xs;
          placed = map (\<lambda>x. (case ordIn ords (cr_kind r) (codeText x) of Some n \<Rightarrow> n | None \<Rightarrow> max_safe_integer, x)) others
      in map snd (sort_key fst (placed @ [(cr_ord r, cr_payload r)])))"

definition applyCatalogRow :: "cat_row \<Rightarrow> cat_loaded \<Rightarrow> cat_loaded" where
  "applyCatalogRow r cur =
     (if cr_status r \<noteq> Active then cur
      else let h = addVersion (ld_history cur) (row_key r) (cr_version r) (cr_payload r);
               versions = jset (sn_versions (ld_snap cur)) (row_key r) (currentVersionOf r h);
               list = placeItem (ld_ords cur) r (itemsOf (ld_snap cur) (cr_kind r));
               ords = (case jget (ld_ords cur) (cr_kind r) of None \<Rightarrow> [] | Some m \<Rightarrow> m)
           in \<lparr>ld_snap = \<lparr>sn_items = jset (sn_items (ld_snap cur)) (cr_kind r) list, sn_versions = versions,
                          sn_generation = sn_generation (ld_snap cur) + 1\<rparr>,
               ld_ords = jset (ld_ords cur) (cr_kind r) (jset ords (cr_code r) (cr_ord r)),
               ld_history = h\<rparr>)"

text \<open>What a reload puts in place of the snapshot; the generation rises only when something changed.\<close>

definition installReload :: "cat_row list \<Rightarrow> ver_row list \<Rightarrow> cat_loaded \<Rightarrow> cat_loaded" where
  "installReload rows vs cur =
     (let h = addRows (ld_history cur) vs;
          next = snapshotOf rows (sn_generation (ld_snap cur)) h
      in \<lparr>ld_snap = (if sn_items next \<noteq> sn_items (ld_snap cur) \<or> sn_versions next \<noteq> sn_versions (ld_snap cur)
                    then next\<lparr>sn_generation := sn_generation (ld_snap cur) + 1\<rparr> else ld_snap cur),
          ld_ords = ordsOf rows, ld_history = h\<rparr>)"

section \<open>Agreement with the database\<close>

definition histAt :: "version_history \<Rightarrow> item_key \<Rightarrow> nat \<Rightarrow> payload option" where
  "histAt h key n = (case jget h key of None \<Rightarrow> None | Some m \<Rightarrow> jget m n)"

definition versionIn :: "cat_row list \<Rightarrow> ver_row list \<Rightarrow> item_key \<Rightarrow> nat option" where
  "versionIn rows vs key =
     map_option (\<lambda>r. max (cr_version r) (maxVersion vs key))
       (find (\<lambda>r. row_key r = key \<and> cr_status r = Active) rows)"

definition agrees :: "cat_loaded \<Rightarrow> cat_row list \<Rightarrow> ver_row list \<Rightarrow> bool" where
  "agrees cur rows vs \<longleftrightarrow>
     (\<forall>k. itemsOf (ld_snap cur) k = map cr_payload (activeOf rows k)) \<and>
     (\<forall>key. jget (sn_versions (ld_snap cur)) key = versionIn rows vs key) \<and>
     (\<forall>key n. histAt (ld_history cur) key n = contentOf vs key n) \<and>
     (\<forall>r \<in> set rows. cr_status r = Active \<longrightarrow> ordIn (ld_ords cur) (cr_kind r) (cr_code r) = Some (cr_ord r))"

lemma agreesD:
  assumes "agrees cur rows vs"
  shows "itemsOf (ld_snap cur) k = map cr_payload (activeOf rows k)"
    and "jget (sn_versions (ld_snap cur)) key = versionIn rows vs key"
    and "histAt (ld_history cur) key n = contentOf vs key n"
    and "r \<in> set rows \<Longrightarrow> cr_status r = Active \<Longrightarrow> ordIn (ld_ords cur) (cr_kind r) (cr_code r) = Some (cr_ord r)"
  using assms unfolding agrees_def by blast+

section \<open>History\<close>

lemma catalogItemAt_hist: "catalogItemAt cur kind code n = histAt (ld_history cur) (kind, code) n"
  by (simp add: catalogItemAt_def histAt_def)

lemma histAt_add:
  "histAt (addVersion h key n p) key' n' =
     (if key' = key \<and> n' = n \<and> histAt h key n = None then Some p else histAt h key' n')"
  by (auto simp: addVersion_def histAt_def Let_def split: option.split)

lemma histAt_addRows:
  "histAt (addRows h vs) key n = (case histAt h key n of Some p \<Rightarrow> Some p | None \<Rightarrow> contentOf vs key n)"
  by (induction vs arbitrary: h) (auto simp: addRows_def histAt_add contentOf_def split: option.split)

lemma histAt_historyOf: "histAt (historyOf vs) key n = contentOf vs key n"
  by (simp add: historyOf_def histAt_addRows) (simp add: histAt_def)

lemma fold_max_mem: "fold max xs (0::nat) = n \<longleftrightarrow> (n = 0 \<or> n \<in> set xs) \<and> (\<forall>x \<in> set xs. x \<le> n)"
proof (induction xs arbitrary: n rule: rev_induct)
  case (snoc x xs)
  define m where "m = fold max xs 0"
  have m: "m = 0 \<or> m \<in> set xs" "\<forall>y \<in> set xs. y \<le> m"
    using snoc.IH [of m] by (simp_all add: m_def)
  have "fold max (xs @ [x]) 0 = max x m" by (simp add: m_def)
  then show ?case using m by (cases "x \<le> m") (force simp: max_absorb1 max_absorb2)+
qed auto

lemma latestOf_max:
  assumes "\<And>n. histAt h key n = contentOf vs key n"
  shows "latestOf h key = maxVersion vs key"
proof -
  define ks where "ks = (case jget h key of None \<Rightarrow> [] | Some m \<Rightarrow> jkeys m)"
  have "n \<in> set (map vr_version (versionsOf vs key)) \<longleftrightarrow> contentOf vs key n \<noteq> None" for n
    by (auto simp: contentOf_def find_None_iff versionsOf_def image_iff)
  moreover have "n \<in> set ks \<longleftrightarrow> histAt h key n \<noteq> None" for n
    using jget_None_iff [of "the (jget h key)" n] by (cases "jget h key") (simp_all add: histAt_def ks_def)
  ultimately have "set ks = set (map vr_version (versionsOf vs key))"
    by (intro set_eqI) (simp only: assms)
  moreover have "latestOf h key = fold max ks 0"
    by (simp add: latestOf_def ks_def split: option.split)
  moreover have "fold max xs (0::nat) = fold max ys 0" if s: "set xs = set ys" for xs ys
    using fold_max_mem [of xs "fold max ys 0"] fold_max_mem [of ys "fold max ys 0"] unfolding s by blast
  ultimately show ?thesis by (metis maxVersion_def)
qed

section \<open>The row of a commit\<close>

lemma activeOf_set: "x \<in> set (activeOf rows k) \<longleftrightarrow> x \<in> set rows \<and> cr_kind x = k \<and> cr_status x = Active"
  by (auto simp: activeOf_def)

lemma distinct_filter_key: "distinct (map f xs) \<Longrightarrow> distinct (map f (filter P xs))"
  by (rule distinct_map_filter)

lemma ords_of_kind:
  "distinct (map (\<lambda>r. (cr_kind r, cr_ord r)) rows) \<Longrightarrow> distinct (map cr_ord (filter (\<lambda>r. cr_kind r = k) rows))"
  by (auto simp: distinct_map inj_on_def)

lemma activeOf_sorted: "sorted (map cr_ord (activeOf rows k))"
  by (simp add: activeOf_def)

lemma activeOf_distinct:
  assumes "distinct (map (\<lambda>r. (cr_kind r, cr_ord r)) rows)"
  shows "distinct (map cr_ord (activeOf rows k))"
proof -
  have "distinct (map cr_ord (filter (\<lambda>r. cr_kind r = k) (filter (\<lambda>r. cr_status r = Active) rows)))"
    by (rule ords_of_kind) (rule distinct_map_filter [OF assms])
  then show ?thesis unfolding activeOf_def by (simp add: distinct_map)
qed

text \<open>A list sorted by distinct positions is known by its elements.\<close>

lemma sorted_by_ord:
  assumes "sorted (map cr_ord xs)" "distinct (map cr_ord xs)" "sorted (map cr_ord ys)" "distinct (map cr_ord ys)"
    and "set xs = set ys"
  shows "xs = ys"
proof (rule map_sorted_distinct_set_unique)
  show "inj_on cr_ord (set xs \<union> set ys)" using assms(2,5) by (simp add: distinct_map)
qed (use assms in auto)

lemma activeOf_eqI:
  assumes "distinct (map (\<lambda>r. (cr_kind r, cr_ord r)) rows)"
    and "sorted (map cr_ord xs)" "distinct (map cr_ord xs)"
    and "\<And>x. x \<in> set xs \<longleftrightarrow> x \<in> set rows \<and> cr_kind x = k \<and> cr_status x = Active"
  shows "xs = activeOf rows k"
  by (rule sorted_by_ord [OF assms(2,3) activeOf_sorted activeOf_distinct [OF assms(1)]])
    (auto simp: assms(4) activeOf_set)

lemma sort_key_map: "sort_key f (map g xs) = map g (sort_key (\<lambda>x. f (g x)) xs)"
proof -
  have "insort_key f (g x) (map g ys) = map g (insort_key (\<lambda>x. f (g x)) x ys)" for x ys
    by (induction ys) auto
  then show ?thesis by (induction xs) auto
qed

lemma placeItem_place:
  assumes "list_all (\<lambda>x. codeText (cr_payload x) = cr_code x \<and> ordIn ords (cr_kind r) (cr_code x) = Some (cr_ord x)) xs"
  shows "placeItem ords r (map cr_payload xs) =
    map cr_payload (sort_key cr_ord (filter (\<lambda>x. cr_code x \<noteq> cr_code r) xs @ [r]))"
proof -
  define g where "g = (\<lambda>x::cat_row. (cr_ord x, cr_payload x))"
  have f: "filter (\<lambda>x. codeText x \<noteq> cr_code r) (map cr_payload xs) =
      map cr_payload (filter (\<lambda>x. cr_code x \<noteq> cr_code r) xs)"
    using assms by (induction xs) auto
  define h where "h = (\<lambda>x. (case ordIn ords (cr_kind r) (codeText x) of Some n \<Rightarrow> n | None \<Rightarrow> max_safe_integer, x))"
  have m: "map h (map cr_payload (filter (\<lambda>x. cr_code x \<noteq> cr_code r) xs)) =
      map g (filter (\<lambda>x. cr_code x \<noteq> cr_code r) xs)"
    using assms by (induction xs) (auto simp: g_def h_def)
  have "placeItem ords r (map cr_payload xs) =
      map snd (sort_key fst (map g (filter (\<lambda>x. cr_code x \<noteq> cr_code r) xs @ [r])))"
    unfolding placeItem_def Let_def f h_def [symmetric] m by (simp add: g_def)
  then show ?thesis unfolding sort_key_map by (simp add: g_def comp_def)
qed

lemma activeOf_placed:
  assumes "distinct (map (\<lambda>r. (cr_kind r, cr_ord r)) rows)" "distinct (map (\<lambda>r. (cr_kind r, cr_ord r)) rows')"
    and "\<And>x. x \<in> set rows' \<longleftrightarrow> x = r \<or> x \<in> set rows \<and> row_key x \<noteq> row_key r"
    and "cr_status r = Active"
  shows "sort_key cr_ord (filter (\<lambda>x. cr_code x \<noteq> cr_code r) (activeOf rows (cr_kind r)) @ [r]) =
    activeOf rows' (cr_kind r)"
proof (rule activeOf_eqI [OF assms(2)])
  let ?xs = "filter (\<lambda>x. cr_code x \<noteq> cr_code r) (activeOf rows (cr_kind r)) @ [r]"
  have mem: "x \<in> set ?xs \<longleftrightarrow> x \<in> set rows' \<and> cr_kind x = cr_kind r \<and> cr_status x = Active" for x
    using assms(3) [of x] assms(4) by (auto simp: activeOf_set)
  have "inj_on cr_ord (set ?xs)"
  proof (rule inj_onI)
    fix x y assume xy: "x \<in> set ?xs" "y \<in> set ?xs" "cr_ord x = cr_ord y"
    have "inj_on (\<lambda>r. (cr_kind r, cr_ord r)) (set rows')" using assms(2) by (simp add: distinct_map)
    then show "x = y" by (rule inj_onD) (use xy mem in auto)
  qed
  moreover have "distinct ?xs"
    using activeOf_distinct [OF assms(1), of "cr_kind r"] by (auto simp: distinct_map)
  ultimately show "distinct (map cr_ord (sort_key cr_ord ?xs))" by (simp add: distinct_map)
  show "x \<in> set (sort_key cr_ord ?xs) \<longleftrightarrow> x \<in> set rows' \<and> cr_kind x = cr_kind r \<and> cr_status x = Active" for x
    using mem [of x] by simp
qed simp

lemma distinct_head: "distinct (map f (a # xs)) \<Longrightarrow> x \<in> set xs \<Longrightarrow> f x \<noteq> f a"
proof -
  assume "distinct (map f (a # xs))" "x \<in> set xs"
  then have "f a \<notin> f ` set xs" "f x \<in> f ` set xs" by simp_all
  then show ?thesis by metis
qed

lemma find_key:
  assumes "distinct (map row_key rows)" "r \<in> set rows"
  shows "find (\<lambda>x. row_key x = row_key r \<and> P x) rows = (if P r then Some r else None)"
  using assms
proof (induction rows)
  case (Cons a rows)
  then show ?case
  proof (cases "a = r")
    case True
    have "row_key x \<noteq> row_key r" if "x \<in> set rows" for x
      using distinct_head [OF Cons.prems(1) that] unfolding True .
    then have "find (\<lambda>x. row_key x = row_key r \<and> P x) rows = None" unfolding find_None_iff by blast
    then show ?thesis using True by simp
  next
    case False
    then have r: "r \<in> set rows" using Cons.prems(2) by simp
    then have "row_key r \<noteq> row_key a" by (rule distinct_head [OF Cons.prems(1)])
    then show ?thesis using Cons.IH [OF _ r] Cons.prems(1) by auto
  qed
qed simp

lemma find_same:
  assumes "distinct (map row_key rows)" "distinct (map row_key rows')"
    and "\<And>x. row_key x = key \<Longrightarrow> x \<in> set rows \<longleftrightarrow> x \<in> set rows'"
  shows "find (\<lambda>x. row_key x = key \<and> P x) rows = find (\<lambda>x. row_key x = key \<and> P x) rows'"
proof (cases "\<exists>x \<in> set rows. row_key x = key")
  case True
  then obtain x where x: "x \<in> set rows" "row_key x = key" by blast
  then have "x \<in> set rows'" using assms(3) by blast
  then show ?thesis using find_key [OF assms(1) x(1), of P] find_key [OF assms(2), of x P] x(2) by simp
next
  case False
  then have "\<forall>x \<in> set rows'. row_key x \<noteq> key" using assms(3) by blast
  then have "find (\<lambda>x. row_key x = key \<and> P x) rows' = None" unfolding find_None_iff by blast
  moreover have "find (\<lambda>x. row_key x = key \<and> P x) rows = None" using False unfolding find_None_iff by blast
  ultimately show ?thesis by simp
qed

section \<open>Putting a row into the snapshot\<close>

text \<open>The tables with one row put in: what a committed command leaves, and what they are already when the
  command was read before it was put in.\<close>

definition putsRow :: "cat_row list \<Rightarrow> ver_row list \<Rightarrow> cat_row \<Rightarrow> cat_row list \<Rightarrow> ver_row list \<Rightarrow> bool" where
  "putsRow rows vs r rows' vs' \<longleftrightarrow>
     (\<forall>x. x \<in> set rows' \<longleftrightarrow> x = r \<or> x \<in> set rows \<and> row_key x \<noteq> row_key r) \<and>
     (if cr_status r = Active
      then \<forall>key n. contentOf vs' key n = (case contentOf vs key n of Some p \<Rightarrow> Some p | None \<Rightarrow>
             if key = row_key r \<and> n = cr_version r then Some (cr_payload r) else None)
      else vs' = vs \<and> (\<forall>x \<in> set rows. row_key x = row_key r \<longrightarrow> cr_status x \<noteq> Active))"

lemma putsRow_activeI:
  assumes "cr_status r = Active"
    and "\<And>x. x \<in> set rows' \<longleftrightarrow> x = r \<or> x \<in> set rows \<and> row_key x \<noteq> row_key r"
    and "\<And>key n. contentOf vs' key n = (case contentOf vs key n of Some p \<Rightarrow> Some p | None \<Rightarrow>
      if key = row_key r \<and> n = cr_version r then Some (cr_payload r) else None)"
  shows "putsRow rows vs r rows' vs'"
  unfolding putsRow_def if_P [OF assms(1)] by (intro conjI allI assms(2,3))

lemma putsRow_draftI:
  assumes "cr_status r \<noteq> Active"
    and "\<And>x. x \<in> set rows' \<longleftrightarrow> x = r \<or> x \<in> set rows \<and> row_key x \<noteq> row_key r"
    and "vs' = vs" "\<And>x. x \<in> set rows \<Longrightarrow> row_key x = row_key r \<Longrightarrow> cr_status x \<noteq> Active"
  shows "putsRow rows vs r rows' vs'"
  unfolding putsRow_def if_not_P [OF assms(1)] by (intro conjI allI ballI impI assms(2,3)) (rule assms(4))

definition tableOk :: "cat_row list \<Rightarrow> bool" where
  "tableOk rows \<longleftrightarrow> distinct (map row_key rows) \<and> distinct (map (\<lambda>r. (cr_kind r, cr_ord r)) rows) \<and> list_all rowOk rows"

lemma dbOk_table: "dbOk db \<Longrightarrow> tableOk (cd_items db)"
  by (simp add: dbOk_def tableOk_def)

lemma tableOkD:
  assumes "tableOk rows"
  shows "distinct (map row_key rows)" "distinct (map (\<lambda>r. (cr_kind r, cr_ord r)) rows)"
    "x \<in> set rows \<Longrightarrow> codeText (cr_payload x) = cr_code x" "x \<in> set rows \<Longrightarrow> 0 < cr_version x"
  using assms by (auto simp: tableOk_def list_all_iff rowOk_def itemCheck_def)

lemma putsRow_mem: "putsRow rows vs r rows' vs' \<Longrightarrow> x \<in> set rows' \<longleftrightarrow> x = r \<or> x \<in> set rows \<and> row_key x \<noteq> row_key r"
  unfolding putsRow_def by blast

lemma putsRow_content:
  "putsRow rows vs r rows' vs' \<Longrightarrow> cr_status r = Active \<Longrightarrow>
   contentOf vs' key n = (case contentOf vs key n of Some p \<Rightarrow> Some p | None \<Rightarrow>
     if key = row_key r \<and> n = cr_version r then Some (cr_payload r) else None)"
  unfolding putsRow_def by (simp only: if_True)

lemma putsRow_draft:
  assumes "putsRow rows vs r rows' vs'" "cr_status r \<noteq> Active"
  shows "vs' = vs" "x \<in> set rows \<Longrightarrow> row_key x = row_key r \<Longrightarrow> cr_status x \<noteq> Active"
  using assms unfolding putsRow_def by (metis (no_types, lifting))+

lemma putsRow_other:
  assumes "putsRow rows vs r rows' vs'" "tableOk rows" "tableOk rows'" "key \<noteq> row_key r"
  shows "find (\<lambda>x. row_key x = key \<and> P x) rows' = find (\<lambda>x. row_key x = key \<and> P x) rows"
proof (rule find_same [OF tableOkD(1) [OF assms(3)] tableOkD(1) [OF assms(2)]])
  show "x \<in> set rows' \<longleftrightarrow> x \<in> set rows" if "row_key x = key" for x
    using putsRow_mem [OF assms(1), of x] assms(4) that by auto
qed

lemma draft_agrees:
  assumes "agrees L rows vs" "putsRow rows vs r rows' vs'" "tableOk rows" "tableOk rows'" "cr_status r \<noteq> Active"
  shows "agrees L rows' vs'"
proof -
  note mem = putsRow_mem [OF assms(2)] and none = putsRow_draft(2) [OF assms(2,5)]
  have same: "x \<in> set rows' \<and> cr_status x = Active \<longleftrightarrow> x \<in> set rows \<and> cr_status x = Active" for x
    using mem [of x] none [of x] assms(5) by auto
  have items: "activeOf rows k = activeOf rows' k" for k
    by (rule activeOf_eqI [OF tableOkD(2) [OF assms(4)] activeOf_sorted activeOf_distinct [OF tableOkD(2) [OF assms(3)]]])
      (use same activeOf_set in blast)
  have find: "find (\<lambda>x. row_key x = key \<and> cr_status x = Active) rows' =
      find (\<lambda>x. row_key x = key \<and> cr_status x = Active) rows" for key
  proof (cases "key = row_key r")
    case True
    have "find (\<lambda>x. row_key x = key \<and> cr_status x = Active) rows = None"
      "find (\<lambda>x. row_key x = key \<and> cr_status x = Active) rows' = None"
      unfolding find_None_iff using none same True by blast+
    then show ?thesis by simp
  qed (rule putsRow_other [OF assms(2,3,4)])
  show ?thesis
    unfolding agrees_def items [symmetric] versionIn_def find putsRow_draft(1) [OF assms(2,5)]
    using assms(1) same unfolding agrees_def versionIn_def by blast
qed

lemma latestOf_add: "key \<noteq> key' \<Longrightarrow> latestOf (addVersion h key' n p) key = latestOf h key"
  by (simp add: latestOf_def addVersion_def Let_def)

lemma active_agrees:
  assumes "agrees L rows vs" "putsRow rows vs r rows' vs'" "tableOk rows" "tableOk rows'" "cr_status r = Active"
  shows "agrees (applyCatalogRow r L) rows' vs'"
proof -
  note mem = putsRow_mem [OF assms(2)] and content = putsRow_content [OF assms(2,5)]
  define h where "h = addVersion (ld_history L) (row_key r) (cr_version r) (cr_payload r)"
  define L' where "L' = applyCatalogRow r L"
  have parts: "sn_versions (ld_snap L') = jset (sn_versions (ld_snap L)) (row_key r) (currentVersionOf r h)"
      "ld_history L' = h"
      "sn_items (ld_snap L') = jset (sn_items (ld_snap L)) (cr_kind r) (placeItem (ld_ords L) r (itemsOf (ld_snap L) (cr_kind r)))"
    using assms(5) by (simp_all add: L'_def applyCatalogRow_def h_def Let_def)
  have ords: "ordIn (ld_ords L') k c = (if k = cr_kind r \<and> c = cr_code r then Some (cr_ord r) else ordIn (ld_ords L) k c)"
    for k c using assms(5) by (auto simp: L'_def applyCatalogRow_def Let_def ordIn_def split: option.split)
  have hist: "histAt h key n = contentOf vs' key n" for key n
    unfolding h_def histAt_add content agreesD(3) [OF assms(1)] by (simp split: option.split)
  have "itemsOf (ld_snap L') k = map cr_payload (activeOf rows' k)" for k
  proof (cases "k = cr_kind r")
    case True
    have "list_all (\<lambda>x. codeText (cr_payload x) = cr_code x \<and> ordIn (ld_ords L) (cr_kind r) (cr_code x) = Some (cr_ord x))
        (activeOf rows (cr_kind r))"
      unfolding list_all_iff
    proof
      fix x assume "x \<in> set (activeOf rows (cr_kind r))"
      then have "x \<in> set rows" "cr_kind x = cr_kind r" "cr_status x = Active" by (simp_all add: activeOf_set)
      then show "codeText (cr_payload x) = cr_code x \<and> ordIn (ld_ords L) (cr_kind r) (cr_code x) = Some (cr_ord x)"
        using tableOkD(3) [OF assms(3)] agreesD(4) [OF assms(1)] by metis
    qed
    from placeItem_place [OF this] show ?thesis
      unfolding activeOf_placed [OF tableOkD(2) [OF assms(3)] tableOkD(2) [OF assms(4)] mem assms(5)]
      using True by (simp add: itemsOf_def [of "ld_snap L'"] parts agreesD(1) [OF assms(1)])
  next
    case False
    have "activeOf rows k = activeOf rows' k"
      by (rule activeOf_eqI [OF tableOkD(2) [OF assms(4)] activeOf_sorted activeOf_distinct [OF tableOkD(2) [OF assms(3)]]])
        (use mem False activeOf_set in auto)
    then show ?thesis
      using False agreesD(1) [OF assms(1), of k] by (simp add: itemsOf_def parts)
  qed
  moreover have "jget (sn_versions (ld_snap L')) key = versionIn rows' vs' key" for key
  proof (cases "key = row_key r")
    case True
    have "r \<in> set rows'" using mem by blast
    from find_key [OF tableOkD(1) [OF assms(4)] this, of "\<lambda>x. cr_status x = Active"]
    show ?thesis using True assms(5) latestOf_max [of h key vs', OF hist]
      by (simp add: parts versionIn_def currentVersionOf_def)
  next
    case False
    have "maxVersion vs' key = maxVersion vs key"
      using latestOf_max [of h key vs', OF hist] latestOf_max [of "ld_history L" key vs, OF agreesD(3) [OF assms(1)]]
        latestOf_add [OF False] by (simp add: h_def)
    then show ?thesis
      unfolding versionIn_def putsRow_other [OF assms(2,3,4) False]
      using False agreesD(2) [OF assms(1), of key] by (simp add: parts versionIn_def)
  qed
  moreover have "ordIn (ld_ords L') (cr_kind x) (cr_code x) = Some (cr_ord x)" if "x \<in> set rows'" "cr_status x = Active" for x
    using mem [of x] that agreesD(4) [OF assms(1)] by (auto simp: ords)
  ultimately show ?thesis
    unfolding agrees_def L'_def [symmetric] parts(2) using hist by blast
qed

theorem puts_agrees:
  assumes "agrees L rows vs" "putsRow rows vs r rows' vs'" "tableOk rows" "tableOk rows'"
  shows "agrees (applyCatalogRow r L) rows' vs'"
  using active_agrees [OF assms] draft_agrees [OF assms]
  by (cases "cr_status r") (simp_all add: applyCatalogRow_def)

section \<open>Reading everything\<close>

lemma contentOf_iff:
  assumes "distinct (map (\<lambda>v. (ver_key v, vr_version v)) vs)"
  shows "contentOf vs key n = Some p \<longleftrightarrow> (\<exists>v \<in> set vs. ver_key v = key \<and> vr_version v = n \<and> vr_payload v = p)"
  using assms
proof (induction vs)
  case (Cons v vs)
  have "(ver_key x, vr_version x) \<noteq> (ver_key v, vr_version v)" if "x \<in> set vs" for x
    using distinct_head [OF Cons.prems that] .
  then show ?case using Cons by (auto simp: contentOf_def)
qed (simp add: contentOf_def)

lemma contentOf_append:
  "contentOf (vs @ ws) key n = (case contentOf vs key n of Some p \<Rightarrow> Some p | None \<Rightarrow> contentOf ws key n)"
  by (induction vs) (auto simp: contentOf_def)

text \<open>The order the versions are read in does not matter.\<close>

lemma read_versions_content:
  assumes "dbOk db"
  shows "contentOf (readCatalogVersions db) key n = contentOf (cd_versions db) key n"
proof -
  have d: "distinct (map (\<lambda>v. (ver_key v, vr_version v)) (cd_versions db))"
    using assms by (simp add: dbOk_def versionsOk_def)
  then have r: "distinct (map (\<lambda>v. (ver_key v, vr_version v)) (readCatalogVersions db))"
    by (simp add: readCatalogVersions_def distinct_map)
  have "set (readCatalogVersions db) = set (cd_versions db)" by (simp add: readCatalogVersions_def)
  then have "contentOf (readCatalogVersions db) key n = Some p \<longleftrightarrow> contentOf (cd_versions db) key n = Some p" for p
    unfolding contentOf_iff [OF d] contentOf_iff [OF r] by simp
  then show ?thesis by (metis option.exhaust)
qed

definition freshSnap :: "cat_row list \<Rightarrow> ver_row list \<Rightarrow> version_history \<Rightarrow> cat_snap \<Rightarrow> bool" where
  "freshSnap rows vs h s \<longleftrightarrow>
     (\<forall>k. itemsOf s k = map cr_payload (activeOf rows k)) \<and> (\<forall>key. jget (sn_versions s) key = versionIn rows vs key)"

lemma jget_table: "jget (map (\<lambda>k. (k, f k)) ks) k = (if k \<in> set ks then Some (f k) else None)"
  by (induction ks) auto

lemma set_firstOnes [simp]: "set (firstOnes xs) = set xs"
  by (simp add: firstOnes_def)

lemma items_snapshot: "itemsOf (snapshotOf rows gen h) k = map cr_payload (activeOf rows k)"
proof (cases "k \<in> set (map cr_kind (filter (\<lambda>r. cr_status r = Active) rows))")
  case True
  then show ?thesis by (simp add: itemsOf_def snapshotOf_def Let_def jget_table)
next
  case False
  then have "x \<notin> set (activeOf rows k)" for x by (auto simp: activeOf_set)
  then have "activeOf rows k = []" by (cases "activeOf rows k") auto
  then show ?thesis using False by (simp add: itemsOf_def snapshotOf_def Let_def jget_table)
qed

lemma foldl_set_key:
  assumes "\<And>r. r \<in> set xs \<Longrightarrow> v r > (0::nat)"
  shows "distinct (map row_key xs) \<Longrightarrow>
    jget (foldl (\<lambda>m r. if v r > 0 then jset m (row_key r) (v r) else m) m0 xs) key =
    (case find (\<lambda>r. row_key r = key) xs of Some r \<Rightarrow> Some (v r) | None \<Rightarrow> jget m0 key)"
  using assms
proof (induction xs arbitrary: m0)
  case (Cons a xs)
  have "v a > 0" using Cons.prems(2) by simp
  moreover have "find (\<lambda>r. row_key r = row_key a) xs = None"
    unfolding find_None_iff using distinct_head [OF Cons.prems(1)] by metis
  moreover have "distinct (map row_key xs)" using Cons.prems(1) by simp
  ultimately show ?case using Cons.IH [of "jset m0 (row_key a) (v a)"] Cons.prems(2) by (auto split: option.split)
qed simp

lemma find_filter: "find P (filter Q xs) = find (\<lambda>x. P x \<and> Q x) xs"
  by (induction xs) auto

lemma versions_snapshot:
  assumes "tableOk rows" "\<And>key n. histAt h key n = contentOf vs key n"
  shows "jget (sn_versions (snapshotOf rows gen h)) key = versionIn rows vs key"
proof -
  have "currentVersionOf r h > 0" if "r \<in> set rows" for r
    using tableOkD(4) [OF assms(1) that] by (simp add: currentVersionOf_def)
  moreover have now: "currentVersionOf r h = max (cr_version r) (maxVersion vs key)" if "row_key r = key" for r
    using latestOf_max [of h key vs, OF assms(2)] that by (simp add: currentVersionOf_def)
  moreover have "distinct (map row_key (filter (\<lambda>r. cr_status r = Active) rows))"
    by (rule distinct_map_filter [OF tableOkD(1) [OF assms(1)]])
  ultimately have "jget (sn_versions (snapshotOf rows gen h)) key =
      (case find (\<lambda>r. row_key r = key \<and> cr_status r = Active) rows of Some r \<Rightarrow> Some (currentVersionOf r h) | None \<Rightarrow> None)"
    using foldl_set_key [of "filter (\<lambda>r. cr_status r = Active) rows" "\<lambda>r. currentVersionOf r h" "[]" key]
    by (simp add: snapshotOf_def Let_def find_filter split: option.split)
  moreover have "row_key r = key" if "find (\<lambda>r. row_key r = key \<and> cr_status r = Active) rows = Some r" for r
    using that unfolding find_Some_iff by blast
  ultimately show ?thesis
    using now unfolding versionIn_def
    by (cases "find (\<lambda>r. row_key r = key \<and> cr_status r = Active) rows") (simp_all only: option.case option.map)
qed

lemma ords_foldl:
  assumes "distinct (map cr_code xs)"
  shows "jget (foldl (\<lambda>m r. jset m (cr_code r) (cr_ord r)) m0 xs) c =
    (case find (\<lambda>r. cr_code r = c) xs of Some r \<Rightarrow> Some (cr_ord r) | None \<Rightarrow> jget m0 c)"
  using assms
proof (induction xs arbitrary: m0)
  case (Cons a xs)
  have "find (\<lambda>r. cr_code r = cr_code a) xs = None"
    unfolding find_None_iff using distinct_head [OF Cons.prems] by metis
  then show ?case using Cons by (auto split: option.split)
qed simp

lemma ords_snapshot:
  assumes "tableOk rows" "r \<in> set rows"
  shows "ordIn (ordsOf rows) (cr_kind r) (cr_code r) = Some (cr_ord r)"
proof -
  let ?xs = "filter (\<lambda>x. cr_kind x = cr_kind r) rows"
  have "distinct (map cr_code ?xs)" using tableOkD(1) [OF assms(1)] by (auto simp: distinct_map inj_on_def)
  moreover have "find (\<lambda>x. cr_code x = cr_code r) ?xs = Some r"
    using find_key [OF tableOkD(1) [OF assms(1)] assms(2), of "\<lambda>_. True"]
    by (simp add: find_filter conj_commute)
  ultimately show ?thesis using assms(2) by (simp add: ordIn_def ordsOf_def jget_table ords_foldl)
qed

lemma read_active_distinct: "distinct (map f (cd_items db)) \<Longrightarrow> distinct (map f (readActiveCatalog db))"
  by (auto simp: readActiveCatalog_def readActive_def distinct_map intro: inj_on_subset)

text \<open>The active rows are all that counts.\<close>

lemma read_active_same:
  assumes "tableOk (cd_items db)"
  shows "tableOk (readActiveCatalog db)" "activeOf (readActiveCatalog db) k = activeOf (cd_items db) k"
    "versionIn (readActiveCatalog db) vs key = versionIn (cd_items db) vs key"
    "x \<in> set (readActiveCatalog db) \<longleftrightarrow> x \<in> set (cd_items db) \<and> cr_status x = Active"
proof -
  let ?a = "readActiveCatalog db"
  show mem: "x \<in> set ?a \<longleftrightarrow> x \<in> set (cd_items db) \<and> cr_status x = Active" for x
    by (auto simp: readActiveCatalog_def readActive_def)
  show t: "tableOk ?a"
    using assms mem unfolding tableOk_def list_all_iff by (intro conjI read_active_distinct) blast+
  show "activeOf ?a k = activeOf (cd_items db) k"
    by (rule activeOf_eqI [OF tableOkD(2) [OF assms] activeOf_sorted activeOf_distinct [OF tableOkD(2) [OF t]]])
      (simp add: activeOf_set mem conj_comms)
  have "find (\<lambda>x. row_key x = key \<and> cr_status x = Active) ?a =
      find (\<lambda>x. row_key x = key \<and> cr_status x = Active) (cd_items db)"
  proof (cases "find (\<lambda>x. row_key x = key \<and> cr_status x = Active) (cd_items db)")
    case None
    then have "find (\<lambda>x. row_key x = key \<and> cr_status x = Active) ?a = None"
      unfolding find_None_iff using mem by blast
    then show ?thesis using None by simp
  next
    case (Some r)
    then have r: "r \<in> set (cd_items db)" "row_key r = key" "cr_status r = Active"
      unfolding find_Some_iff by auto
    then have "r \<in> set ?a" using mem by blast
    from find_key [OF tableOkD(1) [OF t] this, of "\<lambda>x. cr_status x = Active"]
    show ?thesis using r Some by simp
  qed
  then show "versionIn ?a vs key = versionIn (cd_items db) vs key" by (simp only: versionIn_def)
qed

text \<open>A snapshot built from what was read agrees with the tables, whatever the history held before,
  as long as it is what the versions read make it.\<close>

lemma snapshot_agrees:
  assumes "tableOk (cd_items db)" "\<And>key n. histAt h key n = contentOf vs key n"
    and "ld_history L = h" "ld_ords L = ordsOf (readActiveCatalog db)"
    and "sn_items (ld_snap L) = sn_items (snapshotOf (readActiveCatalog db) gen h)"
    and "sn_versions (ld_snap L) = sn_versions (snapshotOf (readActiveCatalog db) gen h)"
  shows "agrees L (cd_items db) vs"
proof -
  note same = read_active_same [OF assms(1)]
  have "itemsOf (ld_snap L) k = map cr_payload (activeOf (cd_items db) k)" for k
    using items_snapshot [of "readActiveCatalog db" gen h k] same(2) by (simp add: itemsOf_def assms(5))
  moreover have "jget (sn_versions (ld_snap L)) key = versionIn (cd_items db) vs key" for key
    using versions_snapshot [OF same(1) assms(2), of gen key] same(3) by (simp add: assms(6))
  moreover have "ordIn (ld_ords L) (cr_kind r) (cr_code r) = Some (cr_ord r)"
    if "r \<in> set (cd_items db)" "cr_status r = Active" for r
    unfolding assms(4) by (rule ords_snapshot [OF same(1)]) (use that same(4) in blast)
  ultimately show ?thesis unfolding agrees_def assms(3) using assms(2) by blast
qed

lemma reload_agrees:
  assumes "dbOk db"
    and "\<And>key n p. histAt (ld_history L) key n = Some p \<Longrightarrow> contentOf (cd_versions db) key n = Some p"
  shows "agrees (installReload (readActiveCatalog db) (readCatalogVersions db) L) (cd_items db) (cd_versions db)"
proof (rule snapshot_agrees [OF dbOk_table [OF assms(1)]])
  show "histAt (addRows (ld_history L) (readCatalogVersions db)) key n = contentOf (cd_versions db) key n" for key n
    unfolding histAt_addRows read_versions_content [OF assms(1)] using assms(2) [of key n] by (simp split: option.split)
qed (auto simp: installReload_def Let_def)

section \<open>What starting leaves\<close>

text \<open>What an active row's version may be when the server starts: a server that keeps no versions changed
  the content, not the number.\<close>

definition loadable :: "cat_db \<Rightarrow> bool" where
  "loadable db \<longleftrightarrow> dbOk db \<and>
     list_all (\<lambda>r. cr_status r = Active \<longrightarrow> cr_version r \<le> max 1 (maxVersion (cd_versions db) (row_key r))) (cd_items db)"

definition settled :: "ver_row list \<Rightarrow> cat_row \<Rightarrow> bool" where
  "settled vs r \<longleftrightarrow> contentOf vs (row_key r) (maxVersion vs (row_key r)) = Some (cr_payload r) \<and> 1 \<le> maxVersion vs (row_key r)"

lemma new_version_inserted:
  assumes "dbOk db" "r \<in> set (cd_items db)" "cr_status r = Active"
  shows "insertCatalogVersion db (newVersion (cd_versions db) r src) =
      Inr (db\<lparr>cd_versions := cd_versions db @ [newVersion (cd_versions db) r src]\<rparr>)"
    and "dbOk (db\<lparr>cd_versions := cd_versions db @ [newVersion (cd_versions db) r src]\<rparr>)"
proof -
  let ?n = "newVersion (cd_versions db) r src"
  have n: "ver_key ?n = row_key r" "vr_version ?n = maxVersion (cd_versions db) (row_key r) + 1"
    by (simp_all add: newVersion_def)
  have "\<not> list_ex (\<lambda>x. ver_key x = ver_key ?n \<and> vr_version x = vr_version ?n) (cd_versions db)"
    unfolding list_ex_iff n using maxVersion_ge [of _ "cd_versions db"] by fastforce
  then show "insertCatalogVersion db ?n = Inr (db\<lparr>cd_versions := cd_versions db @ [?n]\<rparr>)"
    unfolding insertCatalogVersion_def using n(2) by simp
  show "dbOk (db\<lparr>cd_versions := cd_versions db @ [?n]\<rparr>)"
    using assms versionsOk_add [of "cd_items db" "cd_versions db" r src] by (simp add: dbOk_def)
qed

lemma settled_other: "row_key r \<noteq> ver_key v \<Longrightarrow> settled (vs @ [v]) r = settled vs r"
  by (auto simp: settled_def contentOf_snoc maxVersion_snoc split: option.split)

lemma settled_new: "settled (vs @ [newVersion vs r src]) r"
  using content_new [of vs r src] by (simp add: settled_def maxVersion_snoc) (simp add: newVersion_def)

lemma missingFor_cases:
  assumes "\<And>n. histAt h (row_key r) n = contentOf vs (row_key r) n"
  shows "missingFor h r = (if settled vs r then [] else [newVersion vs r SrcBackfill])"
proof -
  have "latestOf h (row_key r) = maxVersion vs (row_key r)" by (rule latestOf_max [OF assms])
  then show ?thesis
    using assms [of "maxVersion vs (row_key r)"]
    by (auto simp: missingFor_def settled_def newVersion_def histAt_def Let_def split: option.splits)
qed

lemma backfill_all:
  assumes "dbOk db" "distinct (map row_key rs)" "set rs \<subseteq> {r \<in> set (cd_items db). cr_status r = Active}"
    and "\<And>r n. r \<in> set rs \<Longrightarrow> histAt h (row_key r) n = contentOf (cd_versions db) (row_key r) n"
  shows "\<exists>db'. writeBackfill (concat (map (missingFor h) rs)) db = Inr db' \<and> dbOk db' \<and> cd_items db' = cd_items db \<and>
    cd_versions db' = cd_versions db @ concat (map (missingFor h) rs) \<and>
    (\<forall>r. row_key r \<notin> set (map row_key rs) \<longrightarrow> settled (cd_versions db') r = settled (cd_versions db) r) \<and>
    (\<forall>r \<in> set rs. settled (cd_versions db') r)"
  using assms
proof (induction rs arbitrary: db)
  case (Cons r rs)
  note here = missingFor_cases [of h r "cd_versions db", OF Cons.prems(4)]
  have rs: "distinct (map row_key rs)" using Cons.prems(2) by simp
  have other: "row_key x \<noteq> row_key r" if "x \<in> set rs" for x
    using distinct_head [OF Cons.prems(2) that] .
  have r: "r \<in> set (cd_items db)" "cr_status r = Active" using Cons.prems(3) by auto
  show ?case
  proof (cases "settled (cd_versions db) r")
    case True
    then have none: "missingFor h r = []" using here by simp
    obtain db' where d: "writeBackfill (concat (map (missingFor h) rs)) db = Inr db'" "dbOk db'" "cd_items db' = cd_items db"
        "cd_versions db' = cd_versions db @ concat (map (missingFor h) rs)"
        "\<forall>x. row_key x \<notin> set (map row_key rs) \<longrightarrow> settled (cd_versions db') x = settled (cd_versions db) x"
        "\<forall>x \<in> set rs. settled (cd_versions db') x"
      using Cons.IH [OF Cons.prems(1) rs] Cons.prems(3,4) by auto
    have "row_key r \<notin> set (map row_key rs)" using Cons.prems(2) by simp
    then have "settled (cd_versions db') r" using d(5) True by blast
    then show ?thesis using d none by (intro exI [of _ db']) auto
  next
    case False
    define v where "v = newVersion (cd_versions db) r SrcBackfill"
    define db1 where "db1 = audit (AuVersion (vr_kind v) (vr_code v) (vr_version v) SrcBackfill)
      (db\<lparr>cd_versions := cd_versions db @ [v]\<rparr>)"
    have some: "missingFor h r = [v]" using here False by (simp add: v_def)
    have v: "ver_key v = row_key r" by (simp add: v_def newVersion_def)
    have ins: "insertCatalogVersion db v = Inr (db\<lparr>cd_versions := cd_versions db @ [v]\<rparr>)"
      unfolding v_def by (rule new_version_inserted [OF Cons.prems(1) r])
    have ok: "dbOk db1"
      using new_version_inserted(2) [OF Cons.prems(1) r, of SrcBackfill] by (simp add: db1_def v_def dbOk_def)
    have one: "cd_items db1 = cd_items db" "cd_versions db1 = cd_versions db @ [v]" by (simp_all add: db1_def)
    have "histAt h (row_key x) n = contentOf (cd_versions db1) (row_key x) n" if x: "x \<in> set rs" for x n
    proof -
      have "ver_key v \<noteq> row_key x" using other [OF x] v by auto
      then have "contentOf (cd_versions db1) (row_key x) n = contentOf (cd_versions db) (row_key x) n"
        unfolding one contentOf_snoc by (auto split: option.split)
      then show ?thesis using Cons.prems(4) [of x n] x by simp
    qed
    then obtain db' where d: "writeBackfill (concat (map (missingFor h) rs)) db1 = Inr db'" "dbOk db'" "cd_items db' = cd_items db1"
        "cd_versions db' = cd_versions db1 @ concat (map (missingFor h) rs)"
        "\<forall>x. row_key x \<notin> set (map row_key rs) \<longrightarrow> settled (cd_versions db') x = settled (cd_versions db1) x"
        "\<forall>x \<in> set rs. settled (cd_versions db') x"
      using Cons.IH [OF ok rs] Cons.prems(3) one(1) by auto
    have w: "writeBackfill (concat (map (missingFor h) (r # rs))) db = Inr db'"
      using d(1) some ins by (simp add: db1_def)
    have "row_key r \<notin> set (map row_key rs)" using Cons.prems(2) by simp
    then have "settled (cd_versions db') r"
      using d(5) settled_new [of "cd_versions db" r SrcBackfill] unfolding one v_def by blast
    moreover have "settled (cd_versions db') x = settled (cd_versions db) x"
      if x: "row_key x \<notin> set (map row_key (r # rs))" for x
    proof -
      have "row_key x \<notin> set (map row_key rs)" "row_key x \<noteq> row_key r" using x by auto
      then show ?thesis using d(5) settled_other [of x v] v unfolding one by metis
    qed
    moreover have "cd_versions db' = cd_versions db @ concat (map (missingFor h) (r # rs))"
      using d(4) some by (simp add: one)
    ultimately show ?thesis using d(2,3,6) w one(1) by (intro exI [of _ db']) auto
  qed
qed auto

lemma maxVersion_mono: "maxVersion vs key \<le> maxVersion (vs @ ws) key"
  by (induction ws rule: rev_induct) (auto simp: maxVersion_snoc simp flip: append_assoc)

text \<open>Starting on any such database succeeds: what is loaded agrees with it, and every active item has
  its content as its latest version.\<close>

theorem load_agrees:
  assumes "loadable db"
  shows "\<exists>L db'. loadCatalog db = Inr (L, db') \<and> agrees L (cd_items db') (cd_versions db') \<and> dbOk db' \<and> versioned db' \<and>
    cd_items db' = cd_items db \<and> cd_versions db' = cd_versions db @ backfillPlan (readActiveCatalog db) (readCatalogVersions db)"
proof -
  have ok: "dbOk db" and t: "tableOk (cd_items db)" using assms dbOk_table by (simp_all add: loadable_def)
  note same = read_active_same [OF t]
  define h0 where "h0 = historyOf (readCatalogVersions db)"
  define missing where "missing = backfillPlan (readActiveCatalog db) (readCatalogVersions db)"
  have plan: "missing = concat (map (missingFor h0) (readActiveCatalog db))"
    by (simp add: missing_def backfillPlan_def h0_def)
  have sub: "set (readActiveCatalog db) \<subseteq> {r \<in> set (cd_items db). cr_status r = Active}" using same(4) by blast
  have hist: "histAt h0 (row_key r) n = contentOf (cd_versions db) (row_key r) n" for r n
    by (simp add: h0_def histAt_historyOf read_versions_content [OF ok])
  obtain db' where d: "writeBackfill missing db = Inr db'" "dbOk db'" "cd_items db' = cd_items db"
      "cd_versions db' = cd_versions db @ missing" "\<forall>r \<in> set (readActiveCatalog db). settled (cd_versions db') r"
    using backfill_all [OF ok tableOkD(1) [OF same(1)] sub hist] unfolding plan by blast
  define h where "h = historyOf (readCatalogVersions db @ missing)"
  define L where "L = \<lparr>ld_snap = snapshotOf (readActiveCatalog db) 0 h, ld_ords = ordsOf (readActiveCatalog db), ld_history = h\<rparr>"
  have load: "loadCatalog db = Inr (L, db')"
    using d(1) by (simp add: loadCatalog_def missing_def h_def L_def Let_def)
  have "agrees L (cd_items db) (cd_versions db')"
  proof (rule snapshot_agrees [OF t])
    show "histAt h key n = contentOf (cd_versions db') key n" for key n
      by (simp add: h_def d(4) histAt_historyOf contentOf_append read_versions_content [OF ok])
  qed (simp_all add: L_def)
  moreover have "versioned db'"
    unfolding versioned_def list_all_iff
  proof (intro ballI impI)
    fix r assume r: "r \<in> set (cd_items db')" "cr_status r = Active"
    then have "r \<in> set (readActiveCatalog db)" using same(4) [of r] d(3) by simp
    then have s: "settled (cd_versions db') r" by (rule bspec [OF d(5)])
    have "maxVersion (cd_versions db) (row_key r) \<le> maxVersion (cd_versions db') (row_key r)"
      unfolding d(4) by (rule maxVersion_mono)
    moreover have "cr_version r \<le> max 1 (maxVersion (cd_versions db) (row_key r))"
      using assms r d(3) unfolding loadable_def list_all_iff by simp
    ultimately show "contentOf (cd_versions db') (row_key r) (maxVersion (cd_versions db') (row_key r)) = Some (cr_payload r) \<and>
        cr_version r \<le> maxVersion (cd_versions db') (row_key r)"
      using s unfolding settled_def by linarith
  qed
  ultimately show ?thesis using load d(2-4) missing_def by auto
qed

end
