(* ===== verification/CatalogRun.thy ===== *)
theory CatalogRun
  imports CatalogLive
begin

text \<open>
  A server with its catalogue database over time: commits whose answer arrives and commits whose outcome
  is unknown, the snapshot changed after each, the rereads, and restarts (config/catalog.ts and
  config/source.ts together). What it answers from is what the database holds.
\<close>

section \<open>The server\<close>

record cat_run =
  cu_db :: cat_db
  cu_loaded :: cat_loaded
  cu_pending :: "cat_row option"
  cu_lost :: nat
  cu_writes :: nat
  cu_stale :: bool
  cu_reloading :: bool
  cu_again :: bool
  cu_mark :: "nat option"
  cu_read :: "(cat_row list \<times> ver_row list) option"

text \<open>How a COMMIT ends: answered, or with an error while it was done or was not done.\<close>

datatype commit = Answered | LostDone | LostUndone

definition startReload :: "cat_run \<Rightarrow> cat_run" where
  "startReload u = u\<lparr>cu_reloading := True, cu_again := False, cu_mark := Some (cu_writes u), cu_read := None\<rparr>"

definition reloadFromDb :: "cat_run \<Rightarrow> cat_run" where
  "reloadFromDb u =
     (let u' = u\<lparr>cu_stale := True\<rparr>
      in if cu_reloading u then u'\<lparr>cu_again := True\<rparr> else startReload u')"

text \<open>A write that reaches its COMMIT. The answer to a commit is handled before the next one is answered.\<close>

definition commitWrite :: "(cat_db \<Rightarrow> cat_row cat_result) \<Rightarrow> commit \<Rightarrow> cat_run \<Rightarrow> cat_run" where
  "commitWrite cmd how u =
     (if cu_pending u \<noteq> None then u
      else case cmd (cu_db u) of
             Inl _ \<Rightarrow> u
           | Inr (r, db') \<Rightarrow>
               (case how of
                  Answered \<Rightarrow> u\<lparr>cu_db := db', cu_pending := Some r\<rparr>
                | LostDone \<Rightarrow> u\<lparr>cu_db := db', cu_lost := cu_lost u + 1\<rparr>
                | LostUndone \<Rightarrow> u\<lparr>cu_lost := cu_lost u + 1\<rparr>))"

definition handleAnswer :: "cat_run \<Rightarrow> cat_run" where
  "handleAnswer u =
     (case cu_pending u of
        None \<Rightarrow> u
      | Some r \<Rightarrow> u\<lparr>cu_pending := None, cu_loaded := applyCatalogRow r (cu_loaded u),
                    cu_writes := (if cr_status r = Active then cu_writes u + 1 else cu_writes u)\<rparr>)"

definition handleLost :: "cat_run \<Rightarrow> cat_run" where
  "handleLost u = (if cu_lost u = 0 then u else reloadFromDb (u\<lparr>cu_lost := cu_lost u - 1\<rparr>))"

text \<open>An import changes nothing in memory, whether its commit is answered or not.\<close>

definition commitImport :: "(cat_db \<Rightarrow> cat_row list cat_result) \<Rightarrow> bool \<Rightarrow> cat_run \<Rightarrow> cat_run" where
  "commitImport cmd done u =
     (case cmd (cu_db u) of
        Inl _ \<Rightarrow> u
      | Inr (_, db') \<Rightarrow> if done \<and> cu_pending u = None then u\<lparr>cu_db := db'\<rparr> else u)"

text \<open>The steps of a reload: the rows and versions are read in one snapshot of the database; a read that
  fails is made again after a while; what was read is dropped when a row was put into the snapshot since.\<close>

definition reloadRead :: "cat_run \<Rightarrow> cat_run" where
  "reloadRead u =
     (if cu_reloading u \<and> cu_mark u \<noteq> None \<and> cu_read u = None
      then u\<lparr>cu_read := Some (readActiveCatalog (cu_db u), readCatalogVersions (cu_db u))\<rparr> else u)"

definition reloadFails :: "cat_run \<Rightarrow> cat_run" where
  "reloadFails u = (if cu_reloading u then u\<lparr>cu_mark := None, cu_read := None\<rparr> else u)"

definition reloadRetry :: "cat_run \<Rightarrow> cat_run" where
  "reloadRetry u = (if cu_reloading u \<and> cu_mark u = None \<and> cu_read u = None then u\<lparr>cu_mark := Some (cu_writes u)\<rparr> else u)"

definition reloadOnce :: "cat_row list \<Rightarrow> ver_row list \<Rightarrow> cat_run \<Rightarrow> bool \<times> cat_run" where
  "reloadOnce rows vs u =
     (if cu_mark u \<noteq> Some (cu_writes u) then (False, u)
      else (True, u\<lparr>cu_loaded := installReload rows vs (cu_loaded u), cu_stale := False\<rparr>))"

definition reloadFinish :: "cat_run \<Rightarrow> cat_run" where
  "reloadFinish u =
     (case cu_read u of
        None \<Rightarrow> u
      | Some (rows, vs) \<Rightarrow>
          (let (done, u') = reloadOnce rows vs u
           in if \<not> done \<or> cu_again u' then startReload u'
              else u'\<lparr>cu_reloading := False, cu_mark := None, cu_read := None\<rparr>))"

section \<open>Events\<close>

datatype cat_command =
  Create string payload
| Update string jstext nat payload "jstext list"
| Activate string jstext nat

fun runCommand :: "cat_env \<Rightarrow> cat_command \<Rightarrow> cat_db \<Rightarrow> cat_row cat_result" where
  "runCommand env (Create kind p) db = createItem env db kind p"
| "runCommand env (Update kind code rv sets unset) db = updateItem env db kind code rv sets unset"
| "runCommand env (Activate kind code rv) db = activateCatalogItem env db kind code rv"

record cat_fix =
  fx_kind :: string
  fx_code :: jstext
  fx_sets :: payload
  fx_reason :: jstext

definition runFix :: "cat_env \<Rightarrow> cat_db \<Rightarrow> cat_fix \<Rightarrow> cat_db" where
  "runFix env db f =
     (case fixLockedFields env db (fx_kind f) (fx_code f) (fx_sets f) (fx_reason f) of
        Inl _ \<Rightarrow> db
      | Inr (_, db') \<Rightarrow> db')"

text \<open>The server stops, fixes are made while it is down, and it starts again.\<close>

definition startServer :: "cat_db \<Rightarrow> db_error + cat_run" where
  "startServer db =
     (case loadCatalog db of
        Inl e \<Rightarrow> Inl e
      | Inr (L, db') \<Rightarrow> Inr \<lparr>cu_db = db', cu_loaded = L, cu_pending = None, cu_lost = 0, cu_writes = 0,
          cu_stale = False, cu_reloading = False, cu_again = False, cu_mark = None, cu_read = None\<rparr>)"

definition restart :: "cat_env \<Rightarrow> cat_fix list \<Rightarrow> cat_run \<Rightarrow> cat_run" where
  "restart env fs u =
     (case startServer (foldl (runFix env) (cu_db u) fs) of Inl _ \<Rightarrow> u | Inr u' \<Rightarrow> u')"

datatype cat_event =
  Commit cat_command commit
| Import string jstext "(jstext, jstext) jsmap" bool
| Answer
| NoticeLost
| Read
| ReadFails
| Retry
| Finish
| Restart "cat_fix list"

fun catStep :: "cat_env \<Rightarrow> cat_event \<Rightarrow> cat_run \<Rightarrow> cat_run" where
  "catStep env (Commit c how) u = commitWrite (runCommand env c) how u"
| "catStep env (Import kind csv labels done) u = commitImport (\<lambda>db. importCatalogCsv env db kind csv labels) done u"
| "catStep env Answer u = handleAnswer u"
| "catStep env NoticeLost u = handleLost u"
| "catStep env Read u = reloadRead u"
| "catStep env ReadFails u = reloadFails u"
| "catStep env Retry u = reloadRetry u"
| "catStep env Finish u = reloadFinish u"
| "catStep env (Restart fs) u = restart env fs u"

text \<open>The objects of a request and of a fix are JSON as it is parsed: no key twice.\<close>

fun eventOk :: "cat_event \<Rightarrow> bool" where
  "eventOk (Commit (Create kind p) how) = payloadOk p"
| "eventOk (Commit (Update kind code rv sets unset) how) = payloadOk sets"
| "eventOk (Restart fs) = list_all (\<lambda>f. payloadOk (fx_sets f)) fs"
| "eventOk _ = True"

definition envOk :: "cat_env \<Rightarrow> bool" where
  "envOk env \<longleftrightarrow> (\<forall>kind spec. ce_spec env kind = Some spec \<longrightarrow> distinct (sh_order (ks_shape spec)))"

inductive catSteps :: "cat_run \<Rightarrow> cat_run \<Rightarrow> bool" where
  stay: "catSteps u u"
| onward: "catSteps u v \<Longrightarrow> envOk env \<Longrightarrow> eventOk e \<Longrightarrow> catSteps u (catStep env e v)"

section \<open>Commands and the snapshot\<close>

lemma jvalOk_cell: "convertCell t cell = Inr v \<Longrightarrow> jvalOk v"
  by (auto simp: convertCell_def jvalOk.simps itemsOk_iff list_all_iff split: flat_type.splits option.splits if_splits)

lemma fieldsOk_set: "fieldsOk m \<Longrightarrow> jvalOk v \<Longrightarrow> fieldsOk (jset m k v)"
  by (induction m k v rule: jset.induct) auto

lemma fieldsOk_column: "fieldsOk (fst acc) \<Longrightarrow> fieldsOk (fst (convertColumn shape acc h raw))"
  using jvalOk_cell
  by (auto simp: convertColumn_def Let_def jvalOk.simps intro!: fieldsOk_set split: option.split prod.split sum.split)

lemma fieldsOk_columns: "fieldsOk (fst acc) \<Longrightarrow> fieldsOk (fst (convertColumns shape acc hs cells))"
  by (induction shape acc hs cells rule: convertColumns.induct)
    (auto split: list.split simp: fieldsOk_column)

lemma payloadOk_ordered: "distinct order \<Longrightarrow> fieldsOk values \<Longrightarrow> payloadOk (orderedPayload order values)"
proof -
  assume d: "distinct order" and f: "fieldsOk values"
  have keys: "set (map fst (orderedPayload order values)) \<subseteq> set order" for order
    by (induction order) (auto simp: orderedPayload_def map_filter_simps split: option.splits)
  have "distinct (map fst (orderedPayload order values))"
    using d
  proof (induction order)
    case (Cons k ks)
    then show ?case using keys [of ks]
      by (auto simp: orderedPayload_def map_filter_simps split: option.split)
  qed (simp add: orderedPayload_def map_filter_simps)
  moreover have "fieldsOk (orderedPayload order values)"
    unfolding fieldsOk_iff
  proof (clarify)
    fix k v assume "(k, v) \<in> set (orderedPayload order values)"
    then have "jget values k = Some v" by (auto simp: orderedPayload_def map_filter_def)
    then have "(k, v) \<in> set values" by (auto simp: jget_map_of dest: map_of_SomeD)
    then show "jvalOk v" using f by (auto simp: fieldsOk_iff)
  qed
  ultimately show ?thesis by (simp add: payloadOk_def jwf_def jkeys_def)
qed

lemma checked_payloads: "p \<in> set (map rc_payload (checkRowsFrom shape keys v seen n body)) \<Longrightarrow>
    \<exists>cells. p = fst (convertCsvRow shape keys cells)"
  by (induction shape keys v seen n body rule: checkRowsFrom.induct) (auto simp: Let_def)

lemma prepared_ok:
  assumes "prepareCatalogCsv shape v csv labels = Inr ps" "distinct (sh_order shape)"
  shows "list_all payloadOk ps"
proof -
  obtain keys body where "ps = map rc_payload (checkRowsFrom shape keys v [] 1 body)"
    using assms(1) by (auto simp: prepareCatalogCsv_def checkCsvRows_def Let_def split: if_splits sum.splits list.splits)
  then have "\<exists>cells. p = fst (convertCsvRow shape keys cells)" if "p \<in> set ps" for p
    using checked_payloads [of p shape keys v "[]" 1 body] that by blast
  moreover have "payloadOk (fst (convertCsvRow shape keys cells))" for cells
  proof -
    have "fieldsOk (fst (convertColumns shape ([], start) keys cells))" for start
      by (rule fieldsOk_columns) simp
    then show ?thesis
      using payloadOk_ordered [OF assms(2)] by (simp add: convertCsvRow_def Let_def split: prod.split) (metis fst_conv)
  qed
  ultimately show ?thesis unfolding list_all_iff by blast
qed

lemma find_append: "find P (xs @ ys) = (case find P xs of Some x \<Rightarrow> Some x | None \<Rightarrow> find P ys)"
  by (induction xs) auto

lemma drafts_agree:
  assumes "agrees L rows vs" "list_all (\<lambda>r. cr_status r = Draft) rs"
  shows "agrees L (rows @ rs) vs"
proof -
  have none: "filter (\<lambda>r. cr_status r = Active) rs = []" using assms(2) by (auto simp: filter_empty_conv list_all_iff)
  have "activeOf (rows @ rs) k = activeOf rows k" for k using none by (simp add: activeOf_def)
  moreover have "find (\<lambda>r. row_key r = key \<and> cr_status r = Active) rs = None" for key
    using assms(2) by (auto simp: find_None_iff list_all_iff)
  then have "versionIn (rows @ rs) vs key = versionIn rows vs key" for key
    by (simp add: versionIn_def find_append split: option.split)
  moreover have "x \<in> set rows" if "x \<in> set (rows @ rs)" "cr_status x = Active" for x
    using that assms(2) by (auto simp: list_all_iff)
  ultimately show ?thesis using assms(1) unfolding agrees_def by metis
qed

lemma active_content:
  assumes "dbOk db" "versioned db" "r \<in> set (cd_items db)" "cr_status r = Active"
  shows "\<exists>p. contentOf (cd_versions db) (row_key r) (cr_version r) = Some p"
proof -
  have "1 \<le> cr_version r" using assms(1,3) by (auto simp: dbOk_def list_all_iff rowOk_def)
  moreover have "cr_version r \<le> maxVersion (cd_versions db) (row_key r)"
    using assms(2-4) by (simp add: versioned_def list_all_iff)
  ultimately have "cr_version r \<in> set (map vr_version (versionsOf (cd_versions db) (row_key r)))"
    using versionsOk_range [of "cd_items db" "cd_versions db" "row_key r"] assms(1) by (simp add: dbOk_def)
  then obtain v where "v \<in> set (cd_versions db)" "ver_key v = row_key r" "vr_version v = cr_version r"
    by (auto simp: versionsOf_def)
  moreover have "distinct (map (\<lambda>v. (ver_key v, vr_version v)) (cd_versions db))"
    using assms(1) by (simp add: dbOk_def versionsOk_def)
  ultimately show ?thesis using contentOf_iff by blast
qed

lemma puts_itself:
  assumes "dbOk db" "versioned db" "r \<in> set (cd_items db)"
  shows "putsRow (cd_items db) (cd_versions db) r (cd_items db) (cd_versions db)"
proof -
  have same: "x = r" if "x \<in> set (cd_items db)" "row_key x = row_key r" for x
    using rows_by_key [OF _ that(1) assms(3) that(2)] assms(1) by (simp add: dbOk_def)
  have mem: "x \<in> set (cd_items db) \<longleftrightarrow> x = r \<or> x \<in> set (cd_items db) \<and> row_key x \<noteq> row_key r" for x
    using same [of x] assms(3) by blast
  show ?thesis
  proof (cases "cr_status r = Active")
    case True
    show ?thesis
      by (rule putsRow_activeI [OF True mem]) (use active_content [OF assms True] in \<open>auto split: option.split\<close>)
  next
    case False
    show ?thesis by (rule putsRow_draftI [OF False mem refl]) (use same False in blast)
  qed
qed

text \<open>A draft has no versions, so the first one is number 1.\<close>

lemma published_first:
  assumes "changesRow db cur r Published db'" "dbOk db"
  shows "maxVersion (cd_versions db) (row_key r) = 0"
proof -
  let ?vs = "cd_versions db"
  have cur: "cur \<in> set (cd_items db)" "row_key r = row_key cur" "cr_status cur = Draft"
    using assms(1) by (simp_all add: changesRow_def)
  have "v \<notin> set (versionsOf ?vs (row_key r))" for v
  proof
    assume "v \<in> set (versionsOf ?vs (row_key r))"
    then have "v \<in> set ?vs" "ver_key v = row_key r" by (auto simp: versionsOf_def)
    then obtain x where x: "x \<in> set (cd_items db)" "row_key x = row_key r" "cr_status x = Active"
      using assms(2) unfolding dbOk_def versionsOk_def by metis
    have "x = cur" using rows_by_key [OF _ x(1) cur(1)] x(2) cur(2) assms(2) by (simp add: dbOk_def)
    then show False using x(3) cur(3) by simp
  qed
  then have "versionsOf ?vs (row_key r) = []" by (metis list.set_intros(1) neq_Nil_conv)
  then show ?thesis by (simp add: maxVersion_def)
qed

lemma changes_puts:
  assumes "dbOk db" "versioned db" "changesRow db cur r ch db'"
  shows "putsRow (cd_items db) (cd_versions db) r (cd_items db') (cd_versions db')"
proof -
  have cur: "cur \<in> set (cd_items db)" "row_key r = row_key cur" using assms(3) by (simp_all add: changesRow_def)
  have same: "x = cur" if "x \<in> set (cd_items db)" "row_key x = row_key r" for x
    using rows_by_key [OF _ that(1) cur(1)] that(2) cur(2) assms(1) by (simp add: dbOk_def)
  note mem = changed_items [OF assms(3)]
  let ?vs = "cd_versions db" and ?vs' = "cd_versions db'"
  show ?thesis
  proof (cases "cr_status r = Active")
    case False
    then have "ch = Edited" using assms(3) by (cases ch) (simp_all add: changesRow_def)
    then have "?vs' = ?vs" "cr_status cur = Draft" using assms(3) by (simp_all add: changesRow_def)
    then have "cr_status x \<noteq> Active" if "x \<in> set (cd_items db)" "row_key x = row_key r" for x
      using same [OF that] by simp
    then show ?thesis by (rule putsRow_draftI [OF False mem \<open>?vs' = ?vs\<close>])
  next
    case True
    have "?vs' = ?vs \<and> ch = Kept \<or>
        (\<exists>src. ?vs' = ?vs @ [newVersion ?vs r src] \<and> cr_version r = maxVersion ?vs (row_key r) + 1)"
    proof (cases ch)
      case Edited
      then show ?thesis using assms(3) True by (simp add: changesRow_def)
    next
      case Published
      then have p: "cr_status cur = Draft" "cr_version r = 1" "?vs' = ?vs @ [newVersion ?vs r SrcActivate]"
        using assms(3) by (simp_all add: changesRow_def)
      have "maxVersion ?vs (row_key r) = 0" using published_first [OF _ assms(1)] assms(3) Published by simp
      then show ?thesis using p by auto
    next
      case Kept
      then show ?thesis using assms(3) by (simp add: changesRow_def)
    next
      case Revised
      then obtain src where "?vs' = ?vs @ [newVersion ?vs r src]" "cr_version r = maxVersion ?vs (row_key cur) + 1"
        using assms(3) by (auto simp: changesRow_def)
      then show ?thesis using cur(2) by auto
    qed
    then have "contentOf ?vs' key n = (case contentOf ?vs key n of Some p \<Rightarrow> Some p | None \<Rightarrow>
        if key = row_key r \<and> n = cr_version r then Some (cr_payload r) else None)" for key n
    proof (elim disjE exE conjE)
      assume k: "?vs' = ?vs" "ch = Kept"
      then have "cr_status cur = Active" "cr_version r = cr_version cur" using assms(3) by (simp_all add: changesRow_def)
      then have "\<exists>p. contentOf ?vs (row_key r) (cr_version r) = Some p"
        using active_content [OF assms(1,2) cur(1)] cur(2) by simp
      then show ?thesis using k(1) by (auto split: option.split)
    next
      fix src assume n: "?vs' = ?vs @ [newVersion ?vs r src]" "cr_version r = maxVersion ?vs (row_key r) + 1"
      then show ?thesis unfolding n(1) contentOf_snoc by (auto simp: newVersion_def split: option.split)
    qed
    then show ?thesis by (rule putsRow_activeI [OF True mem])
  qed
qed

text \<open>What every command does to tables that are in order, and to a snapshot that agrees with them.\<close>

definition contentIn :: "(item_key \<Rightarrow> nat \<Rightarrow> payload option) \<Rightarrow> cat_db \<Rightarrow> bool" where
  "contentIn f db \<longleftrightarrow> (\<forall>key n p. f key n = Some p \<longrightarrow> contentOf (cd_versions db) key n = Some p)"

lemma contentInI: "(\<And>key n p. f key n = Some p \<Longrightarrow> contentOf (cd_versions db) key n = Some p) \<Longrightarrow> contentIn f db"
  unfolding contentIn_def by blast

lemma contentInD: "contentIn f db \<Longrightarrow> f key n = Some p \<Longrightarrow> contentOf (cd_versions db) key n = Some p"
  unfolding contentIn_def by blast

definition grows :: "cat_db \<Rightarrow> cat_db \<Rightarrow> bool" where
  "grows db db' \<longleftrightarrow> dbOk db' \<and> versioned db' \<and> contentIn (contentOf (cd_versions db)) db'"

lemma growsD:
  assumes "grows db db'"
  shows "dbOk db'" "versioned db'" "contentIn (contentOf (cd_versions db)) db'"
  using assms unfolding grows_def by blast+

lemma grows_refl: "dbOk db \<Longrightarrow> versioned db \<Longrightarrow> grows db db"
  unfolding grows_def contentIn_def by blast

lemma grows_trans: "grows a b \<Longrightarrow> grows b c \<Longrightarrow> grows a c"
  unfolding grows_def contentIn_def by blast

lemma contentIn_grows: "contentIn f db \<Longrightarrow> grows db db' \<Longrightarrow> contentIn f db'"
  unfolding grows_def contentIn_def by blast

lemma appends_grows:
  assumes "appendsDrafts db rs db'" "list_all (\<lambda>r. payloadOk (cr_payload r)) rs" "dbOk db" "versioned db"
  shows "grows db db'" "set rs \<subseteq> set (cd_items db')"
    "agrees L (cd_items db) (cd_versions db) \<Longrightarrow> agrees L (cd_items db') (cd_versions db')"
proof -
  have a: "cd_items db' = cd_items db @ rs" "cd_versions db' = cd_versions db" "list_all (\<lambda>r. cr_status r = Draft) rs"
    using assms(1) by (auto simp: appendsDrafts_def list_all_iff)
  show "grows db db'"
    using dbOk_appends [OF assms(3,1,2)] versioned_appends [OF assms(4,1)] a(2) by (simp add: grows_def contentIn_def)
  show "set rs \<subseteq> set (cd_items db')" by (simp add: a(1))
  show "agrees L (cd_items db) (cd_versions db) \<Longrightarrow> agrees L (cd_items db') (cd_versions db')"
    unfolding a(1,2) by (rule drafts_agree [OF _ a(3)])
qed

lemma changes_grows:
  assumes "changesRow db cur r ch db'" "dbOk db" "versioned db"
  shows "grows db db'" "r \<in> set (cd_items db')"
    "agrees L (cd_items db) (cd_versions db) \<Longrightarrow> agrees (applyCatalogRow r L) (cd_items db') (cd_versions db')"
proof -
  have ok: "dbOk db'" by (rule dbOk_changes [OF assms(2,1)])
  have "contentOf (cd_versions db') key n = Some p" if "contentOf (cd_versions db) key n = Some p" for key n p
    using changed_versions [OF assms(1)] contentOf_kept [OF that] that by metis
  then show "grows db db'" using ok versioned_changes [OF assms(2,3,1)]
    unfolding grows_def contentIn_def by blast
  show "r \<in> set (cd_items db')" using changed_items [OF assms(1)] by simp
  show "agrees L (cd_items db) (cd_versions db) \<Longrightarrow> agrees (applyCatalogRow r L) (cd_items db') (cd_versions db')"
    by (rule puts_agrees [OF _ changes_puts [OF assms(2,3,1)] dbOk_table [OF assms(2)] dbOk_table [OF ok]])
qed

text \<open>A row's own version is known, or has the row's content: the number in the row lags behind when the
  version was added at a start, and then the history has it.\<close>

definition rowKnown :: "(item_key \<Rightarrow> nat \<Rightarrow> payload option) \<Rightarrow> ver_row list \<Rightarrow> cat_row \<Rightarrow> bool" where
  "rowKnown f vs r \<longleftrightarrow> cr_status r = Active \<longrightarrow>
     f (row_key r) (cr_version r) \<noteq> None \<or> contentOf vs (row_key r) (cr_version r) = Some (cr_payload r)"

definition rowsKnown :: "(item_key \<Rightarrow> nat \<Rightarrow> payload option) \<Rightarrow> cat_db \<Rightarrow> bool" where
  "rowsKnown f db \<longleftrightarrow> (\<forall>r \<in> set (cd_items db). rowKnown f (cd_versions db) r)"

lemma rowKnown_more:
  assumes "rowKnown f vs r" "\<And>n. f (row_key r) n \<noteq> None \<Longrightarrow> g (row_key r) n \<noteq> None"
    and "\<And>n p. contentOf vs (row_key r) n = Some p \<Longrightarrow> contentOf vs' (row_key r) n = Some p"
  shows "rowKnown g vs' r"
  using assms unfolding rowKnown_def by blast

lemma rowsKnown_mono: "rowsKnown f db \<Longrightarrow> (\<And>key n. f key n \<noteq> None \<Longrightarrow> g key n \<noteq> None) \<Longrightarrow> rowsKnown g db"
  unfolding rowsKnown_def rowKnown_def by blast

lemma appends_known:
  assumes "appendsDrafts db rs db'" "rowsKnown f db"
  shows "rowsKnown f db'"
  using assms by (auto simp: appendsDrafts_def rowsKnown_def rowKnown_def list_all_iff)

lemma changes_known:
  assumes "changesRow db cur r ch db'" "rowsKnown f db" "dbOk db"
  shows "rowsKnown f db'"
  unfolding rowsKnown_def
proof
  let ?vs = "cd_versions db" and ?vs' = "cd_versions db'"
  have kept: "contentOf ?vs' key n = Some p" if "contentOf ?vs key n = Some p" for key n p
    using changed_versions [OF assms(1)] contentOf_kept [OF that] that by metis
  have cur: "cur \<in> set (cd_items db)" "row_key r = row_key cur" using assms(1) by (simp_all add: changesRow_def)
  have mine: "rowKnown f ?vs' r"
  proof (cases ch)
    case Edited
    then show ?thesis using assms(1) by (simp add: changesRow_def rowKnown_def)
  next
    case Kept
    then have "cr_payload r = cr_payload cur" "cr_version r = cr_version cur" "?vs' = ?vs" "cr_status cur = Active"
      using assms(1) by (simp_all add: changesRow_def)
    moreover have "rowKnown f ?vs cur" using assms(2) cur(1) by (simp add: rowsKnown_def)
    ultimately show ?thesis using cur(2) by (simp add: rowKnown_def)
  next
    case Revised
    then obtain src where "?vs' = ?vs @ [newVersion ?vs r src]" "cr_version r = maxVersion ?vs (row_key r) + 1"
      using assms(1) cur(2) by (auto simp: changesRow_def)
    then show ?thesis using content_new [of ?vs r src] by (simp add: rowKnown_def)
  next
    case Published
    then have "?vs' = ?vs @ [newVersion ?vs r SrcActivate]" "cr_version r = 1" using assms(1) by (simp_all add: changesRow_def)
    then show ?thesis
      using published_first [OF _ assms(3)] assms(1) Published content_new [of ?vs r SrcActivate] by (simp add: rowKnown_def)
  qed
  fix x assume "x \<in> set (cd_items db')"
  then consider "x = r" | "x \<in> set (cd_items db)" using changed_items [OF assms(1)] by blast
  then show "rowKnown f ?vs' x"
  proof cases
    case 2
    then have "rowKnown f ?vs x" using assms(2) by (simp add: rowsKnown_def)
    then show ?thesis by (rule rowKnown_more) (auto intro: kept)
  qed (use mine in simp)
qed

lemma command_cases:
  assumes "runCommand env c db = Inr (r, db')" "eventOk (Commit c how)" "dbOk db"
  shows "appendsDrafts db [r] db' \<and> payloadOk (cr_payload r) \<or> (\<exists>cur ch. changesRow db cur r ch db')"
proof (cases c)
  case (Create kind p)
  then show ?thesis using createItem_appends [of env db kind p r db'] assms(1,2) by simp
next
  case (Update kind code rv sets unset)
  then show ?thesis using updateItem_changes [of env db kind code rv sets unset r db'] assms by auto
next
  case (Activate kind code rv)
  then show ?thesis using activate_changes [of env db kind code rv r db'] assms by auto
qed

lemma command_grows:
  assumes "runCommand env c db = Inr (r, db')" "eventOk (Commit c how)" "dbOk db" "versioned db"
  shows "grows db db'" "r \<in> set (cd_items db')"
    "agrees L (cd_items db) (cd_versions db) \<Longrightarrow> agrees (applyCatalogRow r L) (cd_items db') (cd_versions db')"
    "rowsKnown f db \<Longrightarrow> rowsKnown f db'"
proof -
  have "grows db db' \<and> r \<in> set (cd_items db') \<and> (rowsKnown f db \<longrightarrow> rowsKnown f db') \<and>
      (agrees L (cd_items db) (cd_versions db) \<longrightarrow> agrees (applyCatalogRow r L) (cd_items db') (cd_versions db'))"
    using command_cases [OF assms(1-3)]
  proof (elim disjE exE conjE)
    assume a: "appendsDrafts db [r] db'" "payloadOk (cr_payload r)"
    then have "cr_status r = Draft" by (simp add: appendsDrafts_def)
    then show ?thesis using appends_grows [OF a(1) _ assms(3,4)] appends_known [OF a(1)] a(2) by (simp add: applyCatalogRow_def)
  qed (use changes_grows [OF _ assms(3,4)] changes_known [OF _ _ assms(3)] in blast)
  then show "grows db db'" "r \<in> set (cd_items db')"
    "agrees L (cd_items db) (cd_versions db) \<Longrightarrow> agrees (applyCatalogRow r L) (cd_items db') (cd_versions db')"
    "rowsKnown f db \<Longrightarrow> rowsKnown f db'"
    by blast+
qed

lemma import_grows:
  assumes "importCatalogCsv env db kind csv labels = Inr (rs, db')" "envOk env" "dbOk db" "versioned db"
  shows "grows db db'"
    "agrees L (cd_items db) (cd_versions db) \<Longrightarrow> agrees L (cd_items db') (cd_versions db')"
    "rowsKnown f db \<Longrightarrow> rowsKnown f db'"
proof -
  obtain spec where s: "ce_spec env kind = Some spec" "appendsDrafts db rs db'"
      "prepareCatalogCsv (ks_shape spec) (\<lambda>p. map csvIssueOf (ks_validate spec p)) csv labels = Inr (map cr_payload rs)"
    using import_appends [OF assms(1)] by blast
  have "distinct (sh_order (ks_shape spec))" using assms(2) s(1) by (auto simp: envOk_def)
  then have "list_all (\<lambda>r. payloadOk (cr_payload r)) rs"
    using prepared_ok [OF s(3)] by (simp add: list_all_iff)
  then show "grows db db'"
    "agrees L (cd_items db) (cd_versions db) \<Longrightarrow> agrees L (cd_items db') (cd_versions db')"
    "rowsKnown f db \<Longrightarrow> rowsKnown f db'"
    using appends_grows [OF s(2) _ assms(3,4)] appends_known [OF s(2)] by blast+
qed

lemma fixes_grow:
  assumes "list_all (\<lambda>f. payloadOk (fx_sets f)) fs" "dbOk db" "versioned db"
  shows "grows db (foldl (runFix env) db fs)"
  using assms
proof (induction fs arbitrary: db)
  case (Cons f fs)
  have "grows db (runFix env db f)"
  proof (cases "fixLockedFields env db (fx_kind f) (fx_code f) (fx_sets f) (fx_reason f)")
    case (Inr x)
    then obtain r db' where x: "fixLockedFields env db (fx_kind f) (fx_code f) (fx_sets f) (fx_reason f) = Inr (r, db')"
      by (cases x) simp
    then obtain cur ch where "changesRow db cur r ch db'" using fix_changes [OF x Cons.prems(2)] Cons.prems(1) by auto
    then show ?thesis using changes_grows(1) Cons.prems(2,3) x by (simp add: runFix_def)
  qed (simp add: runFix_def grows_refl Cons.prems)
  then show ?case
    using Cons.IH [OF _ growsD(1,2)] Cons.prems(1) grows_trans by (auto simp: growsD)
qed (simp add: grows_refl)

text \<open>Starting on tables in order adds no versions.\<close>

lemma start_settled:
  assumes "dbOk db" "versioned db"
  shows "\<exists>L. loadCatalog db = Inr (L, db) \<and> agrees L (cd_items db) (cd_versions db)"
proof -
  have t: "tableOk (cd_items db)" by (rule dbOk_table [OF assms(1)])
  have "settled (cd_versions db) r" if "r \<in> set (cd_items db)" "cr_status r = Active" for r
    using that assms(2) tableOkD(4) [OF t that(1)] by (fastforce simp: versioned_def list_all_iff settled_def)
  then have "missingFor (historyOf (readCatalogVersions db)) r = []" if "r \<in> set (readActiveCatalog db)" for r
    using missingFor_cases [of "historyOf (readCatalogVersions db)" r "cd_versions db"] that read_active_same(4) [OF t, of r]
    by (simp add: histAt_historyOf read_versions_content [OF assms(1)])
  then have none: "backfillPlan (readActiveCatalog db) (readCatalogVersions db) = []"
    by (simp add: backfillPlan_def)
  have "loadable db"
    using assms by (force simp: loadable_def versioned_def list_all_iff)
  from load_agrees [OF this] obtain L db' where "loadCatalog db = Inr (L, db')" "agrees L (cd_items db') (cd_versions db')"
      "cd_items db' = cd_items db" "cd_versions db' = cd_versions db"
    unfolding none by auto
  moreover from this(1) have "db' = db" by (simp add: loadCatalog_def none Let_def)
  ultimately show ?thesis by blast
qed

section \<open>The server's invariant\<close>

definition withPending :: "cat_run \<Rightarrow> cat_loaded \<Rightarrow> cat_loaded" where
  "withPending u L = (case cu_pending u of None \<Rightarrow> L | Some r \<Rightarrow> applyCatalogRow r L)"

definition agreesNow :: "cat_run \<Rightarrow> cat_loaded \<Rightarrow> bool" where
  "agreesNow u L \<longleftrightarrow> agrees (withPending u L) (cd_items (cu_db u)) (cd_versions (cu_db u))"

text \<open>What a reload has read, as far as it will be used, agrees with the database once the row of a commit
  being answered is put in.\<close>

definition readGood :: "cat_run \<Rightarrow> bool" where
  "readGood u \<longleftrightarrow>
     (case cu_read u of
        None \<Rightarrow> True
      | Some (rows, vs) \<Rightarrow>
          contentIn (contentOf vs) (cu_db u) \<and>
          (cu_mark u = Some (cu_writes u) \<and> \<not> cu_again u \<and> cu_lost u = 0 \<longrightarrow>
           agreesNow u (installReload rows vs (cu_loaded u))))"

definition runOk :: "cat_run \<Rightarrow> bool" where
  "runOk u \<longleftrightarrow>
     dbOk (cu_db u) \<and> versioned (cu_db u) \<and>
     (case cu_pending u of None \<Rightarrow> True | Some r \<Rightarrow> r \<in> set (cd_items (cu_db u))) \<and>
     contentIn (histAt (ld_history (cu_loaded u))) (cu_db u) \<and> rowsKnown (histAt (ld_history (cu_loaded u))) (cu_db u) \<and>
     (\<not> cu_reloading u \<and> cu_lost u = 0 \<longrightarrow> agreesNow u (cu_loaded u)) \<and>
     (case cu_mark u of None \<Rightarrow> True | Some m \<Rightarrow> m \<le> cu_writes u) \<and>
     (cu_read u \<noteq> None \<longrightarrow> cu_reloading u) \<and> readGood u"

lemma runOkD:
  assumes "runOk u"
  shows "dbOk (cu_db u)" "versioned (cu_db u)" "cu_pending u = Some r \<Longrightarrow> r \<in> set (cd_items (cu_db u))"
    "contentIn (histAt (ld_history (cu_loaded u))) (cu_db u)"
    "\<not> cu_reloading u \<Longrightarrow> cu_lost u = 0 \<Longrightarrow> agreesNow u (cu_loaded u)"
    "cu_mark u = Some m \<Longrightarrow> m \<le> cu_writes u"
    "cu_read u \<noteq> None \<Longrightarrow> cu_reloading u" "readGood u" "rowsKnown (histAt (ld_history (cu_loaded u))) (cu_db u)"
  using assms unfolding runOk_def by (auto split: option.splits)

lemma runOkI:
  assumes "dbOk (cu_db u)" "versioned (cu_db u)" "\<And>r. cu_pending u = Some r \<Longrightarrow> r \<in> set (cd_items (cu_db u))"
    and "contentIn (histAt (ld_history (cu_loaded u))) (cu_db u)"
    and "\<not> cu_reloading u \<Longrightarrow> cu_lost u = 0 \<Longrightarrow> agreesNow u (cu_loaded u)"
    and "\<And>m. cu_mark u = Some m \<Longrightarrow> m \<le> cu_writes u"
    and "cu_read u \<noteq> None \<Longrightarrow> cu_reloading u" "readGood u" "rowsKnown (histAt (ld_history (cu_loaded u))) (cu_db u)"
  shows "runOk u"
  using assms unfolding runOk_def by (auto split: option.splits)

lemma readGoodD:
  assumes "readGood u" "cu_read u = Some (rows, vs)"
  shows "contentIn (contentOf vs) (cu_db u)"
    "cu_mark u = Some (cu_writes u) \<Longrightarrow> \<not> cu_again u \<Longrightarrow> cu_lost u = 0 \<Longrightarrow> agreesNow u (installReload rows vs (cu_loaded u))"
  using assms unfolding readGood_def by (auto split: option.splits)

lemma readGoodI:
  assumes "\<And>rows vs. cu_read u = Some (rows, vs) \<Longrightarrow> contentIn (contentOf vs) (cu_db u)"
    and "\<And>rows vs. cu_read u = Some (rows, vs) \<Longrightarrow> cu_mark u = Some (cu_writes u) \<Longrightarrow> \<not> cu_again u \<Longrightarrow> cu_lost u = 0 \<Longrightarrow>
      agreesNow u (installReload rows vs (cu_loaded u))"
  shows "readGood u"
  using assms unfolding readGood_def by (auto split: option.split)

lemma histAt_install: "histAt (ld_history (installReload rows vs L)) key n =
    (case histAt (ld_history L) key n of Some p \<Rightarrow> Some p | None \<Rightarrow> contentOf vs key n)"
  by (simp add: installReload_def Let_def histAt_addRows)

lemma histAt_apply: "histAt (ld_history (applyCatalogRow r L)) key n =
    (if cr_status r = Active \<and> key = row_key r \<and> n = cr_version r \<and> histAt (ld_history L) key n = None
     then Some (cr_payload r) else histAt (ld_history L) key n)"
  by (auto simp: applyCatalogRow_def Let_def histAt_add)

lemma apply_draft: "cr_status r \<noteq> Active \<Longrightarrow> applyCatalogRow r L = L"
  by (simp add: applyCatalogRow_def)

text \<open>A snapshot that agrees still does when a row of the tables is put in again.\<close>

lemma apply_again:
  assumes "dbOk db" "versioned db" "r \<in> set (cd_items db)" "agrees L (cd_items db) (cd_versions db)"
  shows "agrees (applyCatalogRow r L) (cd_items db) (cd_versions db)"
  by (rule puts_agrees [OF assms(4) puts_itself [OF assms(1-3)] dbOk_table [OF assms(1)] dbOk_table [OF assms(1)]])

end
