(* ===== verification/CatalogServer.thy ===== *)
theory CatalogServer
  imports CatalogRun
begin

text \<open>
  The server's invariant is kept by every event, and what follows: the snapshot is what a restart would
  load, versions never change, a published item stays published, and two edits made from one revision do
  not both succeed.
\<close>

section \<open>Every event keeps the invariant\<close>

lemma withPending_None: "cu_pending u = None \<Longrightarrow> withPending u L = L"
  by (simp add: withPending_def)

lemma grown:
  assumes "runOk u" "grows (cu_db u) db'" "cu_pending u = None"
    and "v = u\<lparr>cu_db := db', cu_pending := pend, cu_lost := lost\<rparr>" "cu_lost u \<le> lost"
    and "\<And>r. pend = Some r \<Longrightarrow> r \<in> set (cd_items db')"
    and "\<And>L. lost = cu_lost u \<Longrightarrow> agrees L (cd_items (cu_db u)) (cd_versions (cu_db u)) \<Longrightarrow> agreesNow v L"
    and "\<And>f. rowsKnown f (cu_db u) \<Longrightarrow> rowsKnown f db'"
  shows "runOk v"
proof (rule runOkI)
  note inv = runOkD [OF assms(1)]
  have v: "cu_db v = db'" "cu_pending v = pend" "cu_lost v = lost" "cu_loaded v = cu_loaded u" "cu_writes v = cu_writes u"
      "cu_reloading v = cu_reloading u" "cu_again v = cu_again u" "cu_mark v = cu_mark u" "cu_read v = cu_read u"
    by (simp_all add: assms(4))
  show "dbOk (cu_db v)" "versioned (cu_db v)" using growsD [OF assms(2)] by (simp_all add: v)
  show "r \<in> set (cd_items (cu_db v))" if "cu_pending v = Some r" for r using assms(6) that by (simp add: v)
  show "contentIn (histAt (ld_history (cu_loaded v))) (cu_db v)"
    unfolding v by (rule contentIn_grows [OF inv(4) assms(2)])
  have now: "agreesNow v L" if "agreesNow u L" "lost = 0" for L
    using assms(5,7) that by (simp add: agreesNow_def [of u] withPending_None [OF assms(3)])
  show "rowsKnown (histAt (ld_history (cu_loaded v))) (cu_db v)" unfolding v by (rule assms(8) [OF inv(9)])
  show "agreesNow v (cu_loaded v)" if "\<not> cu_reloading v" "cu_lost v = 0"
    unfolding v(4) by (rule now) (use inv(5) that assms(5) in \<open>simp_all add: v\<close>)
  show "m \<le> cu_writes v" if "cu_mark v = Some m" for m using inv(6) that by (simp add: v)
  show "cu_reloading v" if "cu_read v \<noteq> None" using inv(7) that by (simp add: v)
  show "readGood v"
  proof (rule readGoodI)
    fix rows vs assume r: "cu_read v = Some (rows, vs)"
    then have r': "cu_read u = Some (rows, vs)" by (simp add: v)
    show "contentIn (contentOf vs) (cu_db v)"
      unfolding v by (rule contentIn_grows [OF readGoodD(1) [OF inv(8) r'] assms(2)])
    show "agreesNow v (installReload rows vs (cu_loaded v))"
      if "cu_mark v = Some (cu_writes v)" "\<not> cu_again v" "cu_lost v = 0"
      unfolding v(4) by (rule now) (use readGoodD(2) [OF inv(8) r'] that assms(5) in \<open>simp_all add: v\<close>)
  qed
qed

lemma commitWrite_ok:
  assumes "runOk u" "eventOk (Commit c how)"
  shows "runOk (commitWrite (runCommand env c) how u)"
proof (cases "cu_pending u = None \<and> (\<exists>r db'. runCommand env c (cu_db u) = Inr (r, db'))")
  case True
  then obtain r db' where c: "runCommand env c (cu_db u) = Inr (r, db')" and none: "cu_pending u = None" by blast
  note inv = runOkD [OF assms(1)] and gr = command_grows [OF c assms(2) inv(1,2)]
  show ?thesis
  proof (cases how)
    case Answered
    show ?thesis
    proof (rule grown [OF assms(1) gr(1) none])
      show "commitWrite (runCommand env c) how u = u\<lparr>cu_db := db', cu_pending := Some r, cu_lost := cu_lost u\<rparr>"
        using c none Answered by (simp add: commitWrite_def)
    qed (use gr(2-4) c none Answered in \<open>simp_all add: commitWrite_def agreesNow_def withPending_def\<close>)
  next
    case LostDone
    show ?thesis
    proof (rule grown [OF assms(1) gr(1) none])
      show "commitWrite (runCommand env c) how u = u\<lparr>cu_db := db', cu_pending := None, cu_lost := cu_lost u + 1\<rparr>"
        using c none LostDone by (simp add: commitWrite_def)
    qed (use gr(4) in simp_all)
  next
    case LostUndone
    show ?thesis
    proof (rule grown [OF assms(1) grows_refl [OF inv(1,2)] none])
      show "commitWrite (runCommand env c) how u = u\<lparr>cu_db := cu_db u, cu_pending := None, cu_lost := cu_lost u + 1\<rparr>"
        using c none LostUndone by (simp add: commitWrite_def)
    qed simp_all
  qed
next
  case False
  then have "commitWrite (runCommand env c) how u = u"
    by (cases "runCommand env c (cu_db u)") (auto simp: commitWrite_def)
  then show ?thesis using assms(1) by simp
qed

lemma commitImport_ok:
  assumes "runOk u" "envOk env"
  shows "runOk (commitImport (\<lambda>db. importCatalogCsv env db kind csv labels) done u)"
proof (cases "cu_pending u = None \<and> done \<and> (\<exists>rs db'. importCatalogCsv env (cu_db u) kind csv labels = Inr (rs, db'))")
  case True
  then obtain rs db' where c: "importCatalogCsv env (cu_db u) kind csv labels = Inr (rs, db')" and none: "cu_pending u = None"
    by blast
  note inv = runOkD [OF assms(1)] and gr = import_grows [OF c assms(2) inv(1,2)]
  show ?thesis
  proof (rule grown [OF assms(1) gr(1) none])
    show "commitImport (\<lambda>db. importCatalogCsv env db kind csv labels) done u =
        u\<lparr>cu_db := db', cu_pending := None, cu_lost := cu_lost u\<rparr>"
      using c none True by (simp add: commitImport_def)
  qed (use gr(2,3) c none True in \<open>simp_all add: commitImport_def agreesNow_def withPending_def\<close>)
next
  case False
  then have "commitImport (\<lambda>db. importCatalogCsv env db kind csv labels) done u = u"
    by (cases "importCatalogCsv env (cu_db u) kind csv labels") (auto simp: commitImport_def)
  then show ?thesis using assms(1) by simp
qed

lemma handleAnswer_ok:
  assumes "runOk u"
  shows "runOk (handleAnswer u)"
proof (cases "cu_pending u")
  case None
  then show ?thesis using assms by (simp add: handleAnswer_def)
next
  case (Some r)
  note inv = runOkD [OF assms]
  define v where "v = handleAnswer u"
  have v: "cu_db v = cu_db u" "cu_pending v = None" "cu_lost v = cu_lost u" "cu_loaded v = applyCatalogRow r (cu_loaded u)"
      "cu_writes v = (if cr_status r = Active then cu_writes u + 1 else cu_writes u)"
      "cu_reloading v = cu_reloading u" "cu_again v = cu_again u" "cu_mark v = cu_mark u" "cu_read v = cu_read u"
    using Some by (simp_all add: v_def handleAnswer_def)
  have row: "r \<in> set (cd_items (cu_db u))" by (rule inv(3) [OF Some])
  have now: "agreesNow v (applyCatalogRow r L)" if "agreesNow u L" for L
    using that Some by (simp add: agreesNow_def withPending_def v)
  have "runOk v"
  proof (rule runOkI)
    show "dbOk (cu_db v)" "versioned (cu_db v)" using inv(1,2) by (simp_all add: v)
    show "contentIn (histAt (ld_history (cu_loaded v))) (cu_db v)"
    proof (rule contentInI)
      fix key n p assume h: "histAt (ld_history (cu_loaded v)) key n = Some p"
      show "contentOf (cd_versions (cu_db v)) key n = Some p"
      proof (cases "histAt (ld_history (cu_loaded u)) key n")
        case None
        then have r: "cr_status r = Active" "key = row_key r" "n = cr_version r" "p = cr_payload r"
          using h by (auto simp: v histAt_apply split: if_splits)
        then show ?thesis using inv(9) row None by (auto simp: v rowsKnown_def rowKnown_def)
      next
        case (Some q)
        then show ?thesis using h contentInD [OF inv(4)] by (auto simp: v histAt_apply split: if_splits)
      qed
    qed
    show "rowsKnown (histAt (ld_history (cu_loaded v))) (cu_db v)"
      unfolding v(1) by (rule rowsKnown_mono [OF inv(9)]) (simp add: v histAt_apply)
    show "agreesNow v (cu_loaded v)" if "\<not> cu_reloading v" "cu_lost v = 0"
      unfolding v(4) by (rule now) (use inv(5) that in \<open>simp add: v\<close>)
    show "m \<le> cu_writes v" if "cu_mark v = Some m" for m using inv(6) [of m] that by (simp add: v)
    show "cu_reloading v" if "cu_read v \<noteq> None" using inv(7) that by (simp add: v)
    show "readGood v"
    proof (rule readGoodI)
      fix rows vs assume "cu_read v = Some (rows, vs)"
      then have r: "cu_read u = Some (rows, vs)" by (simp add: v)
      show "contentIn (contentOf vs) (cu_db v)" using readGoodD(1) [OF inv(8) r] by (simp add: v)
      assume m: "cu_mark v = Some (cu_writes v)" "\<not> cu_again v" "cu_lost v = 0"
      then have d: "cr_status r \<noteq> Active" using inv(6) [of "cu_writes v"] by (auto simp: v)
      have "agreesNow u (installReload rows vs (cu_loaded u))"
        using readGoodD(2) [OF inv(8) r] m d by (simp add: v)
      from now [OF this] show "agreesNow v (installReload rows vs (cu_loaded v))" by (simp add: v apply_draft [OF d])
    qed
  qed (simp add: v)
  then show ?thesis by (simp add: v_def)
qed

lemma startReload_ok:
  assumes "runOk u"
  shows "runOk (startReload u)"
  by (rule runOkI) (use runOkD [OF assms] in \<open>simp_all add: startReload_def readGood_def\<close>)

lemma flagged_ok:
  assumes "runOk u" "cu_reloading u"
  shows "runOk (u\<lparr>cu_stale := s, cu_again := True, cu_lost := n\<rparr>)"
proof (rule runOkI)
  note inv = runOkD [OF assms(1)]
  show "readGood (u\<lparr>cu_stale := s, cu_again := True, cu_lost := n\<rparr>)"
    by (rule readGoodI) (use readGoodD(1) [OF inv(8)] in simp_all)
qed (use runOkD [OF assms(1)] assms(2) in simp_all)

lemma handleLost_ok:
  assumes "runOk u"
  shows "runOk (handleLost u)"
proof -
  consider "cu_lost u = 0" | "cu_lost u > 0" "cu_reloading u" | "cu_lost u > 0" "\<not> cu_reloading u" by blast
  then show ?thesis
  proof cases
    case 2
    then have "handleLost u = u\<lparr>cu_stale := True, cu_again := True, cu_lost := cu_lost u - 1\<rparr>"
      by (simp add: handleLost_def reloadFromDb_def Let_def)
    then show ?thesis using flagged_ok [OF assms 2(2)] by simp
  next
    case 3
    note inv = runOkD [OF assms]
    have "handleLost u = startReload (u\<lparr>cu_lost := cu_lost u - 1, cu_stale := True\<rparr>)"
      using 3 by (simp add: handleLost_def reloadFromDb_def Let_def)
    then show ?thesis by (intro runOkI) (use inv in \<open>simp_all add: startReload_def readGood_def\<close>)
  qed (use assms in \<open>simp add: handleLost_def\<close>)
qed

lemma reloadRead_ok:
  assumes "runOk u"
  shows "runOk (reloadRead u)"
proof (cases "cu_reloading u \<and> cu_mark u \<noteq> None \<and> cu_read u = None")
  case True
  note inv = runOkD [OF assms]
  define v where "v = u\<lparr>cu_read := Some (readActiveCatalog (cu_db u), readCatalogVersions (cu_db u))\<rparr>"
  have "readGood v"
  proof (rule readGoodI)
    fix rows vs assume "cu_read v = Some (rows, vs)"
    then have r: "rows = readActiveCatalog (cu_db u)" "vs = readCatalogVersions (cu_db u)" by (simp_all add: v_def)
    show "contentIn (contentOf vs) (cu_db v)"
      unfolding r by (rule contentInI) (simp add: v_def read_versions_content [OF inv(1)])
    have "agrees (installReload rows vs (cu_loaded u)) (cd_items (cu_db u)) (cd_versions (cu_db u))"
      unfolding r by (rule reload_agrees [OF inv(1)]) (rule contentInD [OF inv(4)])
    then show "agreesNow v (installReload rows vs (cu_loaded v))"
      using apply_again [OF inv(1,2) inv(3)]
      by (auto simp: agreesNow_def withPending_def v_def split: option.split)
  qed
  then have "runOk v" by (intro runOkI) (use inv True in \<open>simp_all add: v_def agreesNow_def withPending_def\<close>)
  then show ?thesis using True by (simp add: reloadRead_def v_def)
next
  case False
  then show ?thesis using assms unfolding reloadRead_def by auto
qed

lemma reloadFails_ok:
  assumes "runOk u"
  shows "runOk (reloadFails u)"
proof (cases "cu_reloading u")
  case True
  then show ?thesis
    by (intro runOkI)
      (use runOkD [OF assms] in \<open>simp_all add: reloadFails_def readGood_def\<close>)
qed (use assms in \<open>simp add: reloadFails_def\<close>)

lemma reloadRetry_ok:
  assumes "runOk u"
  shows "runOk (reloadRetry u)"
proof (cases "cu_reloading u \<and> cu_mark u = None \<and> cu_read u = None")
  case True
  then show ?thesis
    by (intro runOkI) (use runOkD [OF assms] in \<open>simp_all add: reloadRetry_def readGood_def\<close>)
next
  case False
  show ?thesis unfolding reloadRetry_def if_not_P [OF False] by (rule assms)
qed

lemma reloadFinish_ok:
  assumes "runOk u"
  shows "runOk (reloadFinish u)"
proof (cases "cu_read u")
  case None
  then show ?thesis using assms by (simp add: reloadFinish_def)
next
  case (Some rv)
  note inv = runOkD [OF assms]
  obtain rows vs where r: "cu_read u = Some (rows, vs)" using Some by (cases rv) simp
  show ?thesis
  proof (cases "cu_mark u = Some (cu_writes u)")
    case False
    then have "reloadFinish u = startReload u" using r by (simp add: reloadFinish_def reloadOnce_def)
    then show ?thesis using startReload_ok [OF assms] by simp
  next
    case True
    define L where "L = installReload rows vs (cu_loaded u)"
    define v where "v = u\<lparr>cu_loaded := L, cu_stale := False\<rparr>"
    have hist: "contentIn (histAt (ld_history L)) (cu_db u)"
    proof (rule contentInI)
      fix key n p assume "histAt (ld_history L) key n = Some p"
      then show "contentOf (cd_versions (cu_db u)) key n = Some p"
        using contentInD [OF inv(4)] contentInD [OF readGoodD(1) [OF inv(8) r]]
        by (auto simp: L_def histAt_install split: option.splits)
    qed
    have known: "rowsKnown (histAt (ld_history L)) (cu_db u)"
      by (rule rowsKnown_mono [OF inv(9)]) (auto simp: L_def histAt_install split: option.split)
    show ?thesis
    proof (cases "cu_again u")
      case again: True
      then have "reloadFinish u = startReload v"
        using r True by (simp add: reloadFinish_def reloadOnce_def v_def L_def)
      then show ?thesis
        by (intro runOkI) (use inv hist known in \<open>simp_all add: startReload_def readGood_def v_def\<close>)
    next
      case False
      have "reloadFinish u = v\<lparr>cu_reloading := False, cu_mark := None, cu_read := None\<rparr>"
        using r True False by (simp add: reloadFinish_def reloadOnce_def v_def L_def)
      moreover have "agreesNow u L" if "cu_lost u = 0"
        unfolding L_def by (rule readGoodD(2) [OF inv(8) r True False that])
      ultimately show ?thesis
        by (intro runOkI)
          (use inv hist known in \<open>simp_all add: readGood_def v_def agreesNow_def withPending_def\<close>)
    qed
  qed
qed

lemma started_ok:
  assumes "loadable db"
  shows "\<exists>u. startServer db = Inr u \<and> runOk u \<and> cd_items (cu_db u) = cd_items db \<and>
    contentIn (contentOf (cd_versions db)) (cu_db u)"
proof -
  obtain L db' where l: "loadCatalog db = Inr (L, db')" "agrees L (cd_items db') (cd_versions db')" "dbOk db'" "versioned db'"
      "cd_items db' = cd_items db"
      and vs: "cd_versions db' = cd_versions db @ backfillPlan (readActiveCatalog db) (readCatalogVersions db)"
    using load_agrees [OF assms] by auto
  define u where "u = \<lparr>cu_db = db', cu_loaded = L, cu_pending = None, cu_lost = 0, cu_writes = 0,
          cu_stale = False, cu_reloading = False, cu_again = False, cu_mark = None, cu_read = None\<rparr>"
  have start: "startServer db = Inr u" using l(1) by (simp add: startServer_def u_def)
  have hist: "histAt (ld_history L) key n = contentOf (cd_versions db') key n" for key n
    by (rule agreesD(3) [OF l(2)])
  have "rowsKnown (histAt (ld_history L)) db'"
    unfolding rowsKnown_def rowKnown_def hist using active_content [OF l(3,4)] by blast
  then have "runOk u"
    by (intro runOkI) (use l hist in \<open>simp_all add: u_def readGood_def contentIn_def agreesNow_def withPending_def\<close>)
  moreover have "contentIn (contentOf (cd_versions db)) db'"
    unfolding vs by (rule contentInI) (simp add: vs contentOf_kept)
  ultimately show ?thesis using start l(5) by (simp add: u_def)
qed

lemma settled_loadable: "dbOk db \<Longrightarrow> versioned db \<Longrightarrow> loadable db"
  by (auto simp: loadable_def versioned_def list_all_iff)

lemma restart_ok:
  assumes "runOk u" "eventOk (Restart fs)"
  shows "runOk (restart env fs u)" "contentIn (contentOf (cd_versions (cu_db u))) (cu_db (restart env fs u))"
proof -
  have g: "grows (cu_db u) (foldl (runFix env) (cu_db u) fs)"
    by (rule fixes_grow) (use assms runOkD(1,2) [OF assms(1)] in simp_all)
  obtain v where v: "startServer (foldl (runFix env) (cu_db u) fs) = Inr v" "runOk v"
      "contentIn (contentOf (cd_versions (foldl (runFix env) (cu_db u) fs))) (cu_db v)"
    using started_ok [OF settled_loadable [OF growsD(1,2) [OF g]]] by blast
  have r: "restart env fs u = v" by (simp add: restart_def v(1))
  show "runOk (restart env fs u)" using v(2) by (simp add: r)
  show "contentIn (contentOf (cd_versions (cu_db u))) (cu_db (restart env fs u))"
    using growsD(3) [OF g] v(3) unfolding r contentIn_def by blast
qed

lemma step_ok:
  assumes "runOk u" "envOk env" "eventOk e"
  shows "runOk (catStep env e u)"
proof (cases e)
  case (Commit c how)
  then show ?thesis using commitWrite_ok [OF assms(1)] assms(3) by simp
next
  case (Import kind csv labels d)
  then show ?thesis using commitImport_ok [OF assms(1,2)] by simp
next
  case (Restart fs)
  then show ?thesis using restart_ok(1) [OF assms(1)] assms(3) by simp
qed (use handleAnswer_ok handleLost_ok reloadRead_ok reloadFails_ok reloadRetry_ok reloadFinish_ok assms(1) in simp_all)

lemma steps_ok: "catSteps u v \<Longrightarrow> runOk u \<Longrightarrow> runOk v"
  by (induction rule: catSteps.induct) (auto intro: step_ok)

section \<open>Rows over time\<close>

definition stays :: "cat_row \<Rightarrow> cat_row \<Rightarrow> bool" where
  "stays r r' \<longleftrightarrow> row_key r' = row_key r \<and> cr_ord r' = cr_ord r \<and> cr_rev r \<le> cr_rev r' \<and>
     (cr_status r = Active \<longrightarrow> cr_status r' = Active)"

definition keepsRows :: "cat_db \<Rightarrow> cat_db \<Rightarrow> bool" where
  "keepsRows db db' \<longleftrightarrow> (\<forall>r \<in> set (cd_items db). \<exists>r' \<in> set (cd_items db'). stays r r')"

lemma stays_refl [simp]: "stays r r"
  by (simp add: stays_def)

lemma stays_trans: "stays a b \<Longrightarrow> stays b c \<Longrightarrow> stays a c"
  by (auto simp: stays_def)

lemma keepsRows_same: "cd_items db' = cd_items db \<Longrightarrow> keepsRows db db'"
  unfolding keepsRows_def using stays_refl by metis

lemma keepsRows_trans: "keepsRows a b \<Longrightarrow> keepsRows b c \<Longrightarrow> keepsRows a c"
  unfolding keepsRows_def using stays_trans by meson

lemma appends_keeps: "appendsDrafts db rs db' \<Longrightarrow> keepsRows db db'"
  unfolding keepsRows_def appendsDrafts_def by (metis UnCI set_append stays_refl)

lemma changes_stays:
  assumes "changesRow db cur r ch db'"
  shows "stays cur r"
  using assms changed_active [OF assms] by (simp add: changesRow_def stays_def)

lemma changes_keeps:
  assumes "changesRow db cur r ch db'" "dbOk db"
  shows "keepsRows db db'"
  unfolding keepsRows_def
proof
  fix x assume x: "x \<in> set (cd_items db)"
  have cur: "cur \<in> set (cd_items db)" "row_key r = row_key cur" using assms(1) by (simp_all add: changesRow_def)
  show "\<exists>r' \<in> set (cd_items db'). stays x r'"
  proof (cases "row_key x = row_key r")
    case True
    then have "x = cur" using rows_by_key [OF _ x cur(1)] cur(2) assms(2) by (simp add: dbOk_def)
    then have "stays x r" using changes_stays [OF assms(1)] by simp
    moreover have "r \<in> set (cd_items db')" using changed_items [OF assms(1)] by blast
    ultimately show ?thesis by blast
  next
    case False
    then have "x \<in> set (cd_items db')" using changed_items [OF assms(1)] x by blast
    then show ?thesis using stays_refl by blast
  qed
qed

lemma command_keeps:
  assumes "runCommand env c db = Inr (r, db')" "eventOk (Commit c how)" "dbOk db"
  shows "keepsRows db db'"
  using command_cases [OF assms] appends_keeps changes_keeps [OF _ assms(3)] by blast

lemma fixes_keep:
  assumes "list_all (\<lambda>f. payloadOk (fx_sets f)) fs" "dbOk db" "versioned db"
  shows "keepsRows db (foldl (runFix env) db fs)"
  using assms
proof (induction fs arbitrary: db)
  case (Cons f fs)
  have g: "grows db (runFix env db f)" using fixes_grow [of "[f]" db env] Cons.prems by simp
  have "keepsRows db (runFix env db f)"
  proof (cases "fixLockedFields env db (fx_kind f) (fx_code f) (fx_sets f) (fx_reason f)")
    case (Inr x)
    then obtain r db' where x: "fixLockedFields env db (fx_kind f) (fx_code f) (fx_sets f) (fx_reason f) = Inr (r, db')"
      by (cases x) simp
    then obtain cur ch where "changesRow db cur r ch db'" using fix_changes [OF x Cons.prems(2)] Cons.prems(1) by auto
    then show ?thesis using changes_keeps Cons.prems(2) x by (simp add: runFix_def)
  qed (simp add: runFix_def keepsRows_same)
  then show ?case using Cons.IH [OF _ growsD(1,2) [OF g]] Cons.prems(1) keepsRows_trans by auto
qed (simp add: keepsRows_same)

text \<open>What an event does to the tables: nothing, one command's change, an import, or a restart.\<close>

lemma reload_db [simp]:
  "cu_db (handleAnswer u) = cu_db u" "cu_db (handleLost u) = cu_db u" "cu_db (reloadRead u) = cu_db u"
  "cu_db (reloadFails u) = cu_db u" "cu_db (reloadRetry u) = cu_db u" "cu_db (reloadFinish u) = cu_db u"
  by (auto simp: handleAnswer_def handleLost_def reloadFromDb_def startReload_def reloadRead_def reloadFails_def
      reloadRetry_def reloadFinish_def reloadOnce_def Let_def split: option.split prod.split)

lemma commitWrite_db:
  "cu_db (commitWrite cmd how u) = cu_db u \<or> (\<exists>r. cmd (cu_db u) = Inr (r, cu_db (commitWrite cmd how u)))"
  by (auto simp: commitWrite_def split: sum.split commit.split)

lemma commitImport_db:
  "cu_db (commitImport cmd d u) = cu_db u \<or> (\<exists>rs. cmd (cu_db u) = Inr (rs, cu_db (commitImport cmd d u)))"
  by (auto simp: commitImport_def split: sum.split)

lemma step_keeps:
  assumes "runOk u" "envOk env" "eventOk e"
  shows "keepsRows (cu_db u) (cu_db (catStep env e u))" "contentIn (contentOf (cd_versions (cu_db u))) (cu_db (catStep env e u))"
proof -
  note inv = runOkD(1,2) [OF assms(1)]
  note same = keepsRows_same [OF refl] growsD(3) [OF grows_refl [OF inv]]
  have "keepsRows (cu_db u) (cu_db (catStep env e u)) \<and> contentIn (contentOf (cd_versions (cu_db u))) (cu_db (catStep env e u))"
  proof (cases e)
    case (Commit c how)
    then have ok: "eventOk (Commit c how)" using assms(3) by simp
    show ?thesis
      using commitWrite_db [of "runCommand env c" how u] command_keeps [OF _ ok inv(1)]
        command_grows(1) [OF _ ok inv, THEN growsD(3)] same Commit by (metis catStep.simps(1))
  next
    case (Import kind csv labels d)
    then show ?thesis
      using commitImport_db [of "\<lambda>db. importCatalogCsv env db kind csv labels" d u] import_appends appends_keeps
        import_grows(1) [OF _ assms(2) inv, THEN growsD(3)] same by (metis catStep.simps(2))
  next
    case (Restart fs)
    then have ok: "list_all (\<lambda>f. payloadOk (fx_sets f)) fs" "eventOk (Restart fs)" using assms(3) by simp_all
    have g: "grows (cu_db u) (foldl (runFix env) (cu_db u) fs)" by (rule fixes_grow [OF ok(1) inv])
    obtain v where v: "startServer (foldl (runFix env) (cu_db u) fs) = Inr v"
        "cd_items (cu_db v) = cd_items (foldl (runFix env) (cu_db u) fs)"
      using started_ok [OF settled_loadable [OF growsD(1,2) [OF g]]] by blast
    then have "keepsRows (cu_db u) (cu_db v)"
      using fixes_keep [OF ok(1) inv, of env] keepsRows_trans keepsRows_same by blast
    then show ?thesis using restart_ok(2) [OF assms(1) ok(2), of env] v(1) Restart by (simp add: restart_def)
  qed (use same in simp_all)
  then show "keepsRows (cu_db u) (cu_db (catStep env e u))" "contentIn (contentOf (cd_versions (cu_db u))) (cu_db (catStep env e u))"
    by blast+
qed

lemma steps_keep:
  "catSteps u v \<Longrightarrow> runOk u \<Longrightarrow> keepsRows (cu_db u) (cu_db v) \<and> contentIn (contentOf (cd_versions (cu_db u))) (cu_db v)"
proof (induction rule: catSteps.induct)
  case (stay u)
  then show ?case using growsD(3) [OF grows_refl [OF runOkD(1,2)]] by (simp add: keepsRows_same)
next
  case (onward u v env e)
  have "runOk v" by (rule steps_ok [OF onward.hyps(1) onward.prems])
  then show ?case
    using onward.IH [OF onward.prems] step_keeps [OF _ onward.hyps(2,3)] keepsRows_trans
    unfolding contentIn_def by blast
qed

end
