(* ===== verification/CatalogProps.thy ===== *)
theory CatalogProps
  imports CatalogServer
begin

text \<open>
  The properties of the catalogue of a running server, over any sequence of edits, imports, lost commits,
  rereads and restarts.
\<close>

section \<open>The snapshot\<close>

lemma started_steps:
  assumes "loadable db" "startServer db = Inr s" "catSteps s u"
  shows "runOk u"
  using started_ok [OF assms(1)] assms(2) steps_ok [OF assms(3)] by auto

text \<open>
  C6: once no commit waits for its answer or its notice and no reread is under way, the server answers
  from exactly what it would load if it were started again now: the same items in the same order, the same
  version of each, the same content of every version; and starting would write nothing.
\<close>

theorem snapshot_is_what_a_restart_loads:
  assumes "loadable db" "startServer db = Inr s" "catSteps s u"
    and "cu_pending u = None" "cu_lost u = 0" "\<not> cu_reloading u"
  shows "\<exists>L. loadCatalog (cu_db u) = Inr (L, cu_db u) \<and>
    (\<forall>kind. itemsOf (ld_snap (cu_loaded u)) kind = itemsOf (ld_snap L) kind) \<and>
    (\<forall>key. jget (sn_versions (ld_snap (cu_loaded u))) key = jget (sn_versions (ld_snap L)) key) \<and>
    (\<forall>kind code n. catalogItemAt (cu_loaded u) kind code n = catalogItemAt L kind code n)"
proof -
  note inv = runOkD [OF started_steps [OF assms(1-3)]]
  obtain L where L: "loadCatalog (cu_db u) = Inr (L, cu_db u)" "agrees L (cd_items (cu_db u)) (cd_versions (cu_db u))"
    using start_settled [OF inv(1,2)] by blast
  have "agrees (cu_loaded u) (cd_items (cu_db u)) (cd_versions (cu_db u))"
    using inv(5) assms(4-6) by (simp add: agreesNow_def withPending_def)
  then show ?thesis
    using L(1) agreesD(1-3) [OF L(2)] agreesD(1-3) [of "cu_loaded u"] by (intro exI [of _ L]) (simp add: catalogItemAt_hist)
qed

text \<open>
  While a second reread is owed the end of the first one already clears the flag the health report shows:
  the mark says fresh before what was lost has been read.
\<close>

lemma flag_cleared_while_reread_owed:
  assumes "cu_read u = Some (rows, vs)" "cu_mark u = Some (cu_writes u)" "cu_again u"
  shows "\<not> cu_stale (reloadFinish u) \<and> cu_reloading (reloadFinish u) \<and> cu_read (reloadFinish u) = None"
  using assms by (simp add: reloadFinish_def reloadOnce_def startReload_def)

section \<open>Versions and published items\<close>

text \<open>
  C8: what a version of an item says never changes, in the database or in the memory of any later
  server: a quote made from it reads the same however the item is edited since.
\<close>

theorem versions_never_change:
  assumes "loadable db" "startServer db = Inr s" "catSteps s u" "catSteps u v"
    and "catalogItemAt (cu_loaded u) kind code n = Some p"
  shows "contentOf (cd_versions (cu_db v)) (kind, code) n = Some p \<and>
    catalogItemAt (cu_loaded v) kind code n \<in> {None, Some p}"
proof -
  have u: "runOk u" by (rule started_steps [OF assms(1-3)])
  then have v: "runOk v" by (rule steps_ok [OF assms(4)])
  have "contentOf (cd_versions (cu_db u)) (kind, code) n = Some p"
    by (rule contentInD [OF runOkD(4) [OF u] assms(5) [unfolded catalogItemAt_hist]])
  then have "contentOf (cd_versions (cu_db v)) (kind, code) n = Some p" using steps_keep [OF assms(4) u] contentInD by blast
  moreover have "catalogItemAt (cu_loaded v) kind code n \<in> {None, Some p}"
  proof (cases "catalogItemAt (cu_loaded v) kind code n")
    case (Some q)
    then have "contentOf (cd_versions (cu_db v)) (kind, code) n = Some q"
      unfolding catalogItemAt_hist by (rule contentInD [OF runOkD(4) [OF v]])
    then show ?thesis using calculation Some by simp
  qed simp
  ultimately show ?thesis by simp
qed

text \<open>
  A published item stays published under its kind, code and position, and the latest version of
  it always has its content.
\<close>

theorem published_stays:
  assumes "loadable db" "startServer db = Inr s" "catSteps s u" "catSteps u v"
    and "r \<in> set (cd_items (cu_db u))" "cr_status r = Active"
  shows "\<exists>r'. readItem (cu_db v) (cr_kind r) (cr_code r) = Some r' \<and> cr_status r' = Active \<and> cr_ord r' = cr_ord r \<and>
    contentOf (cd_versions (cu_db v)) (row_key r) (maxVersion (cd_versions (cu_db v)) (row_key r)) = Some (cr_payload r')"
proof -
  have u: "runOk u" by (rule started_steps [OF assms(1-3)])
  then have v: "runOk v" by (rule steps_ok [OF assms(4)])
  obtain r' where r': "r' \<in> set (cd_items (cu_db v))" "stays r r'"
    using steps_keep [OF assms(4) u] assms(5) unfolding keepsRows_def by blast
  have "readItem (cu_db v) (cr_kind r') (cr_code r') = Some r'"
    using readItem_in [OF _ r'(1)] runOkD(1) [OF v] by (simp add: dbOk_def)
  then show ?thesis
    using r' assms(6) runOkD(2) [OF v] by (auto simp: stays_def versioned_def list_all_iff)
qed

section \<open>Edits\<close>

text \<open>The item and revision a command edits.\<close>

fun edits :: "cat_command \<Rightarrow> (string \<times> jstext \<times> nat) option" where
  "edits (Create kind p) = None"
| "edits (Update kind code rv sets unset) = Some (kind, code, rv)"
| "edits (Activate kind code rv) = Some (kind, code, rv)"

lemma edit_changes:
  assumes "runCommand env c db = Inr (r, db')" "edits c = Some (kind, code, rv)" "eventOk (Commit c how)" "dbOk db"
  shows "\<exists>cur ch. readItem db kind code = Some cur \<and> cr_rev cur = rv \<and> changesRow db cur r ch db'"
proof (cases c)
  case (Update k d v sets unset)
  then show ?thesis using updateItem_changes [of env db k d v sets unset r db'] assms by auto
next
  case (Activate k d v)
  then show ?thesis using activate_changes [of env db k d v r db'] assms by auto
qed (use assms(2) in simp)

text \<open>
  C11: of two edits made from the same revision of an item at most one is done, whatever happens between
  them: after one has been committed, answered or not, no later one with that revision succeeds.
\<close>

theorem one_edit_per_revision:
  assumes "loadable db" "startServer db = Inr s" "catSteps s u" "cu_pending u = None"
    and "runCommand env c (cu_db u) = Inr (r, db')" "edits c = Some (kind, code, rv)" "eventOk (Commit c how)"
    and "how \<noteq> LostUndone" "envOk env" "catSteps (catStep env (Commit c how) u) v"
    and "edits c' = Some (kind, code, rv)" "eventOk (Commit c' how')"
  shows "\<nexists>r' db''. runCommand env' c' (cu_db v) = Inr (r', db'')"
proof
  assume "\<exists>r' db''. runCommand env' c' (cu_db v) = Inr (r', db'')"
  then obtain r' db'' where second: "runCommand env' c' (cu_db v) = Inr (r', db'')" by blast
  have u: "runOk u" by (rule started_steps [OF assms(1-3)])
  let ?w = "catStep env (Commit c how) u"
  have w: "runOk ?w" by (rule step_ok [OF u assms(9,7)])
  then have v: "runOk v" by (rule steps_ok [OF assms(10)])
  have db: "cu_db ?w = db'" using assms(4,5,8) by (cases how) (simp_all add: commitWrite_def)
  obtain cur ch where c: "readItem (cu_db u) kind code = Some cur" "cr_rev cur = rv" "changesRow (cu_db u) cur r ch db'"
    using edit_changes [OF assms(5-7) runOkD(1) [OF u]] by blast
  have r: "r \<in> set (cd_items db')" "cr_rev r = rv + 1" "row_key r = (kind, code)"
    using c changed_items [OF c(3)] readItem_Some [OF c(1)] by (simp_all add: changesRow_def)
  obtain r1 where r1: "r1 \<in> set (cd_items (cu_db v))" "stays r r1"
    using steps_keep [OF assms(10) w] r(1) unfolding keepsRows_def db by blast
  have "readItem (cu_db v) (cr_kind r1) (cr_code r1) = Some r1"
    using readItem_in [OF _ r1(1)] runOkD(1) [OF v] by (simp add: dbOk_def)
  then have later: "readItem (cu_db v) kind code = Some r1" "rv < cr_rev r1"
    using r1(2) r(2,3) by (auto simp: stays_def)
  obtain cur' where "readItem (cu_db v) kind code = Some cur'" "cr_rev cur' = rv"
    using edit_changes [OF second assms(11,12) runOkD(1) [OF v]] by blast
  then show False using later by simp
qed

section \<open>Locked fields\<close>

lemma jget_mem: "jget m k = Some v \<Longrightarrow> (k, v) \<in> set m"
  by (simp add: jget_map_of map_of_SomeD)

lemma sameItems_trans:
  assumes "\<And>x b c. x \<in> set xs \<Longrightarrow> sameValue x b \<Longrightarrow> sameValue b c \<Longrightarrow> sameValue x c"
    and "sameItems xs ys" "sameItems ys zs" "length xs = length ys"
  shows "sameItems xs zs"
  using assms
proof (induction xs arbitrary: ys zs)
  case (Cons x xs)
  obtain y ys' where y: "ys = y # ys'" using Cons.prems(4) by (cases ys) auto
  obtain z zs' where z: "zs = z # zs'" using Cons.prems(3) y by (cases zs) auto
  have "sameItems xs zs'"
    by (rule Cons.IH [of ys']) (use Cons.prems y z in auto)
  then show ?case using Cons.prems y z by auto
qed simp

lemma sameValue_trans: "sameValue a b \<Longrightarrow> sameValue b c \<Longrightarrow> sameValue a c"
proof (induction a arbitrary: b c)
  case (JArr xs)
  obtain ys where b: "b = JArr ys" "length xs = length ys" "sameItems xs ys"
    using JArr.prems(1) by (cases b) (auto simp: sameValue.simps [of "JArr xs"])
  obtain zs where c: "c = JArr zs" "length ys = length zs" "sameItems ys zs"
    using JArr.prems(2) b(1) by (cases c) (auto simp: sameValue.simps [of "JArr ys"])
  have "sameItems xs zs"
    by (rule sameItems_trans [OF _ b(3) c(3) b(2)]) (rule JArr.IH)
  then show ?case using b c by (simp add: sameValue.simps [of "JArr xs"])
next
  case (JObj xs)
  obtain ys where b: "b = JObj ys" "length xs = length ys" "sameFields xs ys"
    using JObj.prems(1) by (cases b) (auto simp: sameValue.simps [of "JObj xs"])
  obtain zs where c: "c = JObj zs" "length ys = length zs" "sameFields ys zs"
    using JObj.prems(2) b(1) by (cases c) (auto simp: sameValue.simps [of "JObj ys"])
  have "sameFields xs zs"
    unfolding sameFields_iff
  proof (clarify)
    fix k v assume kv: "(k, v) \<in> set xs"
    then obtain w where w: "jget ys k = Some w" "sameValue v w" using b(3) by (auto simp: sameFields_iff)
    then obtain u where "jget zs k = Some u" "sameValue w u" using c(3) jget_mem [OF w(1)] by (auto simp: sameFields_iff)
    then show "\<exists>w. jget zs k = Some w \<and> sameValue v w" using JObj.IH [OF kv _ w(2), of u] by auto
  qed
  then show ?case using b c by (simp add: sameValue.simps [of "JObj xs"])
qed (auto simp: sameValue.simps)

lemma sameField_trans: "sameField a b \<Longrightarrow> sameField b c \<Longrightarrow> sameField a c"
  by (auto simp: sameField_def intro: sameValue_trans split: option.splits)

lemma lock_refl:
  assumes "payloadOk p"
  shows "\<not> lockTouched p p f"
proof -
  have "sameField (jget p k) (jget p k)" for k
    using assms sameValue_refl jget_mem
    by (fastforce simp: sameField_def payloadOk_def fieldsOk_iff split: option.split)
  then show ?thesis by (simp add: lockTouched_def split: list.split)
qed

lemma lock_trans: "\<not> lockTouched p q f \<Longrightarrow> \<not> lockTouched q r f \<Longrightarrow> \<not> lockTouched p r f"
  by (auto simp: lockTouched_def intro: sameField_trans split: list.splits)

lemma locked_none: "lockedFieldChanges Active p q fs = [] \<longleftrightarrow> (\<forall>f \<in> set fs. \<not> lockTouched p q f)"
  by (simp add: lockedFieldChanges_def filter_empty_conv)

text \<open>Events of one version of the program, without fixes: the kinds and their locked fields stay the same.\<close>

inductive served :: "(string \<Rightarrow> kind_spec option) \<Rightarrow> cat_run \<Rightarrow> cat_run \<Rightarrow> bool" for specs where
  first: "served specs u u"
| then_on: "served specs u v \<Longrightarrow> envOk env \<Longrightarrow> ce_spec env = specs \<Longrightarrow> eventOk e \<Longrightarrow> (\<forall>fs. e = Restart fs \<longrightarrow> fs = []) \<Longrightarrow>
    served specs u (catStep env e v)"

lemma served_steps: "served specs u v \<Longrightarrow> catSteps u v"
  by (induction rule: served.induct) (auto intro: catSteps.intros)

definition locksKept :: "jstext list \<Rightarrow> cat_row \<Rightarrow> cat_row \<Rightarrow> bool" where
  "locksKept fs r r' \<longleftrightarrow> row_key r' = row_key r \<and> cr_status r' = Active \<and>
     (\<forall>f \<in> set fs. \<not> lockTouched (cr_payload r) (cr_payload r') f)"

lemma locksKept_trans: "locksKept fs a b \<Longrightarrow> locksKept fs b c \<Longrightarrow> locksKept fs a c"
  unfolding locksKept_def using lock_trans by auto

lemma locksKept_refl: "dbOk db \<Longrightarrow> r \<in> set (cd_items db) \<Longrightarrow> cr_status r = Active \<Longrightarrow> locksKept fs r r"
  using lock_refl by (simp add: locksKept_def dbOk_def list_all_iff rowOk_def)

lemma change_locks:
  assumes "changesRow db cur r ch db'" "dbOk db" "x \<in> set (cd_items db)" "cr_status x = Active"
    and "cur = x \<Longrightarrow> \<forall>f \<in> set fs. \<not> lockTouched (cr_payload cur) (cr_payload r) f"
  shows "\<exists>x' \<in> set (cd_items db'). locksKept fs x x'"
proof (cases "row_key x = row_key r")
  case True
  have cur: "cur \<in> set (cd_items db)" "row_key r = row_key cur" using assms(1) by (simp_all add: changesRow_def)
  have "row_key cur = row_key x" using cur(2) True by simp
  moreover have "distinct (map row_key (cd_items db))" using assms(2) by (simp add: dbOk_def)
  ultimately have "cur = x" using rows_by_key [OF _ cur(1) assms(3)] by blast
  then have "locksKept fs x r" using assms(4,5) changed_active [OF assms(1)] cur(2) by (simp add: locksKept_def)
  then show ?thesis using changed_items [OF assms(1)] by blast
next
  case False
  then have "x \<in> set (cd_items db')" using changed_items [OF assms(1)] assms(3) by blast
  then show ?thesis using locksKept_refl [OF assms(2-4)] by blast
qed

lemma command_locks:
  assumes "runCommand env c db = Inr (r, db')" "eventOk (Commit c how)" "dbOk db"
    and "x \<in> set (cd_items db)" "cr_status x = Active" "ce_spec env (cr_kind x) = Some spec"
  shows "\<exists>x' \<in> set (cd_items db'). locksKept (ks_locked spec) x x'"
proof (cases c)
  case (Create kind p)
  then have "cd_items db' = cd_items db @ [r]"
    using createItem_appends [of env db kind p r db'] assms(1) by (simp add: appendsDrafts_def)
  then show ?thesis using locksKept_refl [OF assms(3-5)] assms(4) by auto
next
  case (Update kind code rv sets unset)
  then obtain cur ch sp where c: "readItem db kind code = Some cur" "ce_spec env kind = Some sp" "changesRow db cur r ch db'"
      "lockedFieldChanges (cr_status cur) (cr_payload cur) (cr_payload r) (ks_locked sp) = []"
    using updateItem_changes [of env db kind code rv sets unset r db'] assms(1-3) by auto
  show ?thesis
  proof (rule change_locks [OF c(3) assms(3-5)])
    assume "cur = x"
    then have "sp = spec" "cr_status cur = Active" using c(2) assms(5,6) readItem_Some [OF c(1)] by auto
    then show "\<forall>f \<in> set (ks_locked spec). \<not> lockTouched (cr_payload cur) (cr_payload r) f"
      using c(4) by (simp add: locked_none)
  qed
next
  case (Activate kind code rv)
  then obtain cur where c: "changesRow db cur r Published db'"
    using activate_changes [of env db kind code rv r db'] assms(1-3) by auto
  show ?thesis
    by (rule change_locks [OF c assms(3-5)]) (use c assms(5) in \<open>simp add: changesRow_def\<close>)
qed

lemma step_locks:
  assumes "runOk u" "envOk env" "eventOk e" "\<forall>fs. e = Restart fs \<longrightarrow> fs = []"
    and "x \<in> set (cd_items (cu_db u))" "cr_status x = Active" "ce_spec env (cr_kind x) = Some spec"
  shows "\<exists>x' \<in> set (cd_items (cu_db (catStep env e u))). locksKept (ks_locked spec) x x'"
proof -
  note inv = runOkD(1,2) [OF assms(1)]
  have same: "\<exists>x' \<in> set items. locksKept (ks_locked spec) x x'" if "x \<in> set items" for items
    using locksKept_refl [OF inv(1) assms(5,6)] that by blast
  show ?thesis
  proof (cases e)
    case (Commit c how)
    then have ok: "eventOk (Commit c how)" using assms(3) by simp
    show ?thesis
      using commitWrite_db [of "runCommand env c" how u] command_locks [OF _ ok inv(1) assms(5-7)] same assms(5) Commit
      by (metis catStep.simps(1))
  next
    case (Import kind csv labels d)
    have "\<exists>rs. appendsDrafts db rs db'" if "importCatalogCsv env db kind csv labels = Inr (rs, db')" for db rs db'
      using import_appends [OF that] by blast
    then have "cd_items (cu_db u) = cd_items (cu_db (catStep env e u)) \<or>
        (\<exists>rs. cd_items (cu_db (catStep env e u)) = cd_items (cu_db u) @ rs)"
      using commitImport_db [of "\<lambda>db. importCatalogCsv env db kind csv labels" d u] Import
      unfolding appendsDrafts_def by (metis catStep.simps(2))
    then have "x \<in> set (cd_items (cu_db (catStep env e u)))" using assms(5) by auto
    then show ?thesis by (rule same)
  next
    case (Restart fs)
    then obtain v where "startServer (cu_db u) = Inr v" "cd_items (cu_db v) = cd_items (cu_db u)"
      using started_ok [OF settled_loadable [OF inv]] by blast
    then show ?thesis using same assms(4,5) Restart by (simp add: restart_def)
  qed (use same assms(5) in simp_all)
qed

lemma served_locks:
  "served specs u v \<Longrightarrow> runOk u \<Longrightarrow> x \<in> set (cd_items (cu_db u)) \<Longrightarrow> cr_status x = Active \<Longrightarrow> specs (cr_kind x) = Some spec \<Longrightarrow>
   \<exists>x' \<in> set (cd_items (cu_db v)). locksKept (ks_locked spec) x x'"
proof (induction rule: served.induct)
  case (first u)
  then show ?case using locksKept_refl [OF runOkD(1)] by blast
next
  case (then_on u v env e)
  obtain y where y: "y \<in> set (cd_items (cu_db v))" "locksKept (ks_locked spec) x y"
    using then_on.IH then_on.prems by blast
  have v: "runOk v" by (rule steps_ok [OF served_steps [OF then_on.hyps(1)] then_on.prems(1)])
  have "cr_kind y = cr_kind x" "cr_status y = Active" using y(2) by (simp_all add: locksKept_def)
  then obtain z where "z \<in> set (cd_items (cu_db (catStep env e v)))" "locksKept (ks_locked spec) y z"
    using step_locks [OF v then_on.hyps(2,4,5) y(1)] then_on.hyps(3) then_on.prems(4) by auto
  then show ?case using locksKept_trans [OF y(2)] by blast
qed

text \<open>
  while one version of the program serves a tenant, the locked fields of a published item read the
  same ever after: its identity can be changed only by an offline fix.
\<close>

theorem locked_fields_stay:
  assumes "loadable db" "startServer db = Inr s" "catSteps s u" "served specs u v"
    and "r \<in> set (cd_items (cu_db u))" "cr_status r = Active" "specs (cr_kind r) = Some spec"
  shows "\<exists>r'. readItem (cu_db v) (cr_kind r) (cr_code r) = Some r' \<and>
    lockedFieldChanges Active (cr_payload r) (cr_payload r') (ks_locked spec) = []"
proof -
  have u: "runOk u" by (rule started_steps [OF assms(1-3)])
  then have v: "runOk v" by (rule steps_ok [OF served_steps [OF assms(4)]])
  obtain r' where r': "r' \<in> set (cd_items (cu_db v))" "locksKept (ks_locked spec) r r'"
    using served_locks [OF assms(4) u assms(5-7)] by blast
  have "readItem (cu_db v) (cr_kind r') (cr_code r') = Some r'"
    using readItem_in [OF _ r'(1)] runOkD(1) [OF v] by (simp add: dbOk_def)
  then show ?thesis using r'(2) by (auto simp: locksKept_def locked_none)
qed

section \<open>A server with one item\<close>

definition demo_kind :: kind_spec where
  "demo_kind = \<lparr>ks_validate = \<lambda>p. [], ks_locked = [js ''id'', js ''title''], ks_cross = None,
     ks_shape = \<lparr>sh_order = [], sh_flat = [], sh_required = [], sh_nestedRequired = []\<rparr>\<rparr>"

definition demo_kinds :: "string \<Rightarrow> kind_spec option" where
  "demo_kinds k = (if k = ''route'' then Some demo_kind else None)"

definition demo_env :: cat_env where
  "demo_env = \<lparr>ce_spec = demo_kinds, ce_limits = None, ce_who = None\<rparr>"

definition demo_item :: payload where
  "demo_item = [(idKey, JStr (js ''a'')), (js ''title'', JStr (js ''T''))]"

definition demo_price :: payload where
  "demo_price = [(js ''price'', JNum 5)]"

definition demo_empty :: cat_db where
  "demo_empty = \<lparr>cd_items = [], cd_versions = [], cd_audit = []\<rparr>"

definition demo_start :: cat_run where
  "demo_start = (case startServer demo_empty of Inr u \<Rightarrow> u)"

text \<open>A draft is made and published; the answer to the publishing commit is lost and everything is read again.\<close>

definition demo_events :: "cat_event list" where
  "demo_events = [Commit (Create ''route'' demo_item) Answered, Answer, Commit (Activate ''route'' (js ''a'') 1) LostDone,
     NoticeLost, Read, Finish]"

definition demo_run :: cat_run where
  "demo_run = foldl (\<lambda>u e. catStep demo_env e u) demo_start demo_events"

definition demo_edit :: cat_command where
  "demo_edit = Update ''route'' (js ''a'') 2 demo_price []"

definition demo_later :: cat_run where
  "demo_later = foldl (\<lambda>u e. catStep demo_env e u) demo_run [Commit demo_edit Answered, Answer]"

lemma demo_loadable: "loadable demo_empty"
  by (simp add: loadable_def demo_empty_def dbOk_def versionsOk_def versionsOf_def maxVersion_def)

lemma demo_started: "startServer demo_empty = Inr demo_start"
  using started_ok [OF demo_loadable] by (auto simp: demo_start_def)

lemma demo_env_ok: "envOk demo_env"
  by (simp add: envOk_def demo_env_def demo_kinds_def demo_kind_def)

lemma demo_payloads: "payloadOk demo_item" "payloadOk demo_price"
  by (simp_all add: payloadOk_def demo_item_def demo_price_def jwf_def jkeys_def idKey_def js_def jvalOk.simps)

lemma steps_events: "list_all eventOk es \<Longrightarrow> envOk env \<Longrightarrow> catSteps u v \<Longrightarrow> catSteps u (foldl (\<lambda>u e. catStep env e u) v es)"
  by (induction es arbitrary: v) (auto intro: catSteps.intros)

lemma demo_steps: "catSteps demo_start demo_run"
  unfolding demo_run_def
  by (rule steps_events [OF _ demo_env_ok catSteps.stay]) (simp add: demo_events_def demo_payloads)

lemma demo_more: "catSteps demo_run demo_later"
  unfolding demo_later_def
  by (rule steps_events [OF _ demo_env_ok catSteps.stay]) (simp add: demo_edit_def demo_payloads)

lemma demo_kinds_env: "ce_spec demo_env = demo_kinds"
  by (simp add: demo_env_def)

lemma demo_served: "served demo_kinds demo_run demo_later"
proof -
  have "served demo_kinds demo_run (catStep demo_env (Commit demo_edit Answered) demo_run)"
    by (rule served.then_on [OF served.first demo_env_ok demo_kinds_env]) (simp_all add: demo_edit_def demo_payloads)
  then have "served demo_kinds demo_run (catStep demo_env Answer (catStep demo_env (Commit demo_edit Answered) demo_run))"
    by (rule served.then_on [OF _ demo_env_ok demo_kinds_env]) simp_all
  then show ?thesis by (simp add: demo_later_def)
qed

text \<open>The published row and its first version.\<close>

definition demo_row :: cat_row where
  "demo_row = \<lparr>cr_kind = ''route'', cr_code = js ''a'', cr_ord = 0, cr_status = Active, cr_rev = 2, cr_version = 1,
     cr_payload = demo_item, cr_by = None\<rparr>"

lemma demo_facts:
  "cu_pending demo_run = None" "cu_lost demo_run = 0" "\<not> cu_reloading demo_run"
  "cd_items (cu_db demo_run) = [demo_row]" "catalogItemAt (cu_loaded demo_run) ''route'' (js ''a'') 1 = Some demo_item"
  "cr_status demo_row = Active"
  "map cr_rev (cd_items (cu_db demo_later)) = [3]"
  "case runCommand demo_env demo_edit (cu_db demo_run) of Inl e \<Rightarrow> False | Inr x \<Rightarrow> True"
  by code_simp+

lemma snapshot_is_what_a_restart_loads_witness:
  "(\<exists>L. loadCatalog (cu_db demo_run) = Inr (L, cu_db demo_run) \<and>
    (\<forall>kind. itemsOf (ld_snap (cu_loaded demo_run)) kind = itemsOf (ld_snap L) kind) \<and>
    (\<forall>key. jget (sn_versions (ld_snap (cu_loaded demo_run))) key = jget (sn_versions (ld_snap L)) key) \<and>
    (\<forall>kind code n. catalogItemAt (cu_loaded demo_run) kind code n = catalogItemAt L kind code n)) \<and>
   cd_items (cu_db demo_run) = [demo_row]"
  using snapshot_is_what_a_restart_loads [OF demo_loadable demo_started demo_steps demo_facts(1-3)] demo_facts(4) by blast

lemma versions_never_change_witness:
  "contentOf (cd_versions (cu_db demo_later)) (''route'', js ''a'') 1 = Some demo_item \<and>
    catalogItemAt (cu_loaded demo_later) ''route'' (js ''a'') 1 \<in> {None, Some demo_item}"
  by (rule versions_never_change [OF demo_loadable demo_started demo_steps demo_more demo_facts(5)])

lemma demo_row_in: "demo_row \<in> set (cd_items (cu_db demo_run))"
  by (simp add: demo_facts(4))

lemma published_stays_witness:
  "\<exists>r'. readItem (cu_db demo_later) (cr_kind demo_row) (cr_code demo_row) = Some r' \<and> cr_status r' = Active \<and>
    cr_ord r' = cr_ord demo_row \<and>
    contentOf (cd_versions (cu_db demo_later)) (row_key demo_row) (maxVersion (cd_versions (cu_db demo_later)) (row_key demo_row)) =
      Some (cr_payload r')"
  by (rule published_stays [OF demo_loadable demo_started demo_steps demo_more demo_row_in demo_facts(6)])

lemma no_fields: "payloadOk []"
  by (simp add: payloadOk_def jwf_def jkeys_def)

lemma one_edit_per_revision_witness:
  "\<nexists>r' db''. runCommand demo_env (Update ''route'' (js ''a'') 2 [] [js ''price'']) (cu_db demo_later) = Inr (r', db'')"
proof -
  obtain r db' where "runCommand demo_env demo_edit (cu_db demo_run) = Inr (r, db')"
    using demo_facts(8) by (auto split: sum.splits)
  moreover have "catSteps (catStep demo_env (Commit demo_edit Answered) demo_run) demo_later"
    unfolding demo_later_def by (simp add: catSteps.onward [OF catSteps.stay demo_env_ok, of Answer, simplified])
  ultimately show ?thesis
    by (intro one_edit_per_revision [OF demo_loadable demo_started demo_steps demo_facts(1), where how = Answered and
          how' = Answered and c = demo_edit and kind = "''route''" and code = "js ''a''" and rv = 2])
      (simp_all add: demo_edit_def demo_payloads demo_env_ok no_fields)
qed

lemma locked_fields_stay_witness:
  "\<exists>r'. readItem (cu_db demo_later) (cr_kind demo_row) (cr_code demo_row) = Some r' \<and>
    lockedFieldChanges Active (cr_payload demo_row) (cr_payload r') (ks_locked demo_kind) = []"
  by (rule locked_fields_stay [OF demo_loadable demo_started demo_steps demo_served demo_row_in demo_facts(6)])
    (simp add: demo_row_def demo_kinds_def)

end
