(* ===== verification/StoreRows.thy ===== *)
theory StoreRows
  imports Pack CleanText
begin

text \<open>
  The projection between the objects of a conversation and the rows of the database
  (\<open>src/store/project.ts\<close>): \<open>normalizeForStore\<close>, messages, the conversation row and orders. An
  object is the map of its defined keys (a missing key is \<open>undefined\<close>), its values are JSON values: the
  \<open>JSON.parse (JSON.stringify v)\<close> that \<open>normalizeForStore\<close> starts with leaves those as they are. A
  column that holds whatever the object had keeps the value, a \<open>Date\<close> is its time value.
\<close>

section \<open>Cleaning a whole value\<close>

text \<open>\<open>Object.fromEntries\<close>: a later entry replaces the value, the key keeps its first place.\<close>

definition fromEntries :: "('k \<times> 'v) list \<Rightarrow> ('k, 'v) jsmap" where
  "fromEntries es = foldl (\<lambda>m e. jset m (fst e) (snd e)) [] es"

abbreviation clean :: "jstext \<Rightarrow> jstext" where
  "clean s \<equiv> cleanText s None"

fun cleanDeep :: "jval \<Rightarrow> jval" where
  "cleanDeep (JStr s) = JStr (clean s)"
| "cleanDeep (JArr xs) = JArr (map cleanDeep xs)"
| "cleanDeep (JObj m) = JObj (fromEntries (map (map_prod clean cleanDeep) m))"
| "cleanDeep v = v"

definition normalizeForStore :: "payload \<Rightarrow> payload" where
  "normalizeForStore m = fromEntries (map (map_prod clean cleanDeep) m)"

section \<open>Dates\<close>

text \<open>
  \<open>new Date(ms)\<close>: beyond 8.64e15 milliseconds it is an invalid date, a fraction is cut off.
\<close>

datatype js_date = Date int | InvalidDate

definition MAX_TIME :: rat where
  "MAX_TIME = 8640000000000000"

definition newDate :: "rat \<Rightarrow> js_date" where
  "newDate r = (if \<bar>r\<bar> > MAX_TIME then InvalidDate else Date (if r < 0 then - \<lfloor>- r\<rfloor> else \<lfloor>r\<rfloor>))"

text \<open>What the projection cannot make a row of: a field with no valid time, or a value of another shape.\<close>

datatype projection_error = BadField jstext | BadShape

fun toDate :: "jval option \<Rightarrow> string \<Rightarrow> projection_error + int" where
  "toDate (Some (JNum r)) field = (case newDate r of Date t \<Rightarrow> Inr t | InvalidDate \<Rightarrow> Inl (BadField (js field)))"
| "toDate v field = Inl (BadField (js field))"

definition optDate :: "jval option \<Rightarrow> string \<Rightarrow> projection_error + int option" where
  "optDate v field =
     (if v = None \<or> v = Some JNull then Inr None
      else case toDate v field of Inl e \<Rightarrow> Inl e | Inr t \<Rightarrow> Inr (Some t))"

section \<open>Messages\<close>

record message_values =
  mv_seq :: nat
  mv_role :: "jval option"
  mv_author :: "jstext option"
  mv_authorUserId :: "jstext option"
  mv_authorName :: "jstext option"
  mv_content :: "jval option"
  mv_at :: int
  mv_sentAt :: "js_date option"
  mv_msgid :: "jstext option"
  mv_turnId :: "jstext option"
  mv_extra :: "payload option"

definition roleK :: jstext where "roleK = js ''role''"
definition contentK :: jstext where "contentK = js ''content''"
definition atK :: jstext where "atK = js ''at''"
definition msgidK :: jstext where "msgidK = js ''msgid''"
definition sentAtK :: jstext where "sentAtK = js ''sentAt''"
definition authorK :: jstext where "authorK = js ''author''"
definition authorIdK :: jstext where "authorIdK = js ''authorId''"
definition authorNameK :: jstext where "authorNameK = js ''authorName''"

lemmas key_defs = roleK_def contentK_def atK_def msgidK_def sentAtK_def authorK_def authorIdK_def authorNameK_def

definition KNOWN :: "jstext list" where
  "KNOWN = [roleK, contentK, atK, msgidK, sentAtK, authorK, authorIdK, authorNameK]"

definition AUTHORS :: "jstext list" where
  "AUTHORS = [js ''ai'', js ''human'', js ''followup'']"

definition humanA :: jstext where "humanA = js ''human''"

text \<open>\<open>UUID_RE\<close>: hexadecimal digits of either case in groups of 8, 4, 4, 4 and 12.\<close>

definition hexUnit :: "nat \<Rightarrow> bool" where
  "hexUnit c \<longleftrightarrow> (48 \<le> c \<and> c \<le> 57) \<or> (65 \<le> c \<and> c \<le> 70) \<or> (97 \<le> c \<and> c \<le> 102)"

definition isUuid :: "jstext \<Rightarrow> bool" where
  "isUuid s \<longleftrightarrow> map length (split_at 45 s) = [8, 4, 4, 4, 12] \<and> list_all (list_all hexUnit) (split_at 45 s)"

text \<open>
  The author column of a message, and the author's id and name where the author is a person. What
  fits no column stays in \<open>extra\<close>.
\<close>

definition authorColumn :: "payload \<Rightarrow> jstext option" where
  "authorColumn n =
     (case jget n authorK of
        Some (JStr a) \<Rightarrow> if jget n roleK = Some (JStr (js ''agent'')) \<and> a \<in> set AUTHORS then Some a else None
      | _ \<Rightarrow> None)"

definition authorIdColumn :: "payload \<Rightarrow> jstext option" where
  "authorIdColumn n =
     (case jget n authorIdK of
        Some (JStr u) \<Rightarrow> if authorColumn n = Some humanA \<and> isUuid u then Some u else None
      | _ \<Rightarrow> None)"

definition authorIdFits :: "payload \<Rightarrow> bool" where
  "authorIdFits n \<longleftrightarrow> authorColumn n = Some humanA \<and>
     (case jget n authorIdK of Some JNull \<Rightarrow> True | Some (JStr u) \<Rightarrow> isUuid u | _ \<Rightarrow> False)"

definition authorNameColumn :: "payload \<Rightarrow> jstext option" where
  "authorNameColumn n =
     (case jget n authorNameK of
        Some (JStr a) \<Rightarrow> if authorColumn n = Some humanA then Some a else None
      | _ \<Rightarrow> None)"

definition msgidColumn :: "payload \<Rightarrow> jstext option" where
  "msgidColumn n = (case jget n msgidK of Some (JStr i) \<Rightarrow> Some i | _ \<Rightarrow> None)"

definition sentAtColumn :: "payload \<Rightarrow> js_date option" where
  "sentAtColumn n = (case jget n sentAtK of Some (JNum r) \<Rightarrow> Some (newDate r) | _ \<Rightarrow> None)"

definition keepKey :: "bool \<Rightarrow> jstext \<Rightarrow> payload \<Rightarrow> payload \<Rightarrow> payload" where
  "keepKey fits k n extra = (case jget n k of Some v \<Rightarrow> if fits then extra else jset extra k v | None \<Rightarrow> extra)"

definition extraOf :: "payload \<Rightarrow> payload" where
  "extraOf n =
     keepKey (sentAtColumn n \<noteq> None) sentAtK n
       (keepKey (msgidColumn n \<noteq> None) msgidK n
         (keepKey (authorNameColumn n \<noteq> None) authorNameK n
           (keepKey (authorIdFits n) authorIdK n
             (keepKey (authorColumn n \<noteq> None) authorK n
               (filter (\<lambda>e. fst e \<notin> set KNOWN) n)))))"

definition messageToRow :: "payload \<Rightarrow> nat \<Rightarrow> jstext option \<Rightarrow> projection_error + message_values" where
  "messageToRow m seq turnId =
     (let n = normalizeForStore m; extra = extraOf n in
      case toDate (jget n atK) ''message.at'' of
        Inl e \<Rightarrow> Inl e
      | Inr at' \<Rightarrow> Inr
          \<lparr>mv_seq = seq, mv_role = jget n roleK, mv_author = authorColumn n, mv_authorUserId = authorIdColumn n,
           mv_authorName = authorNameColumn n, mv_content = jget n contentK, mv_at = at', mv_sentAt = sentAtColumn n,
           mv_msgid = msgidColumn n, mv_turnId = turnId, mv_extra = if extra = [] then None else Some extra\<rparr>)"

text \<open>\<open>getTime\<close>: the time value; that of an invalid date is \<open>NaN\<close>, which JSON has as \<open>null\<close>.\<close>

fun getTime :: "js_date \<Rightarrow> jval" where
  "getTime (Date t) = JNum (of_int t)"
| "getTime InvalidDate = JNull"

definition setKey :: "jstext \<Rightarrow> jval option \<Rightarrow> payload \<Rightarrow> payload" where
  "setKey k v m = (case v of None \<Rightarrow> m | Some x \<Rightarrow> jset m k x)"

text \<open>
  The object literal and the optional columns in the order of the code, then the spread of \<open>extra\<close>. An
  undefined \<open>role\<close> or \<open>content\<close> is no key.
\<close>

definition columnKeys :: "message_values \<Rightarrow> payload" where
  "columnKeys r =
     (let base = setKey atK (Some (JNum (of_int (mv_at r)))) (setKey contentK (mv_content r) (setKey roleK (mv_role r) []));
          cols = setKey authorK (map_option JStr (mv_author r))
                  (setKey sentAtK (map_option getTime (mv_sentAt r))
                    (setKey msgidK (map_option JStr (mv_msgid r)) base))
      in if mv_author r = Some humanA
         then setKey authorNameK (map_option JStr (mv_authorName r))
                (jset cols authorIdK (case mv_authorUserId r of None \<Rightarrow> JNull | Some u \<Rightarrow> JStr u))
         else cols)"

definition rowToMessage :: "message_values \<Rightarrow> payload" where
  "rowToMessage r =
     (case mv_extra r of
        None \<Rightarrow> columnKeys r
      | Some extra \<Rightarrow> foldl (\<lambda>m e. jset m (fst e) (snd e)) (columnKeys r) extra)"

section \<open>The conversation row\<close>

record conv_values =
  cvl_id :: "jval option"
  cvl_channel :: "jval option"
  cvl_stage :: "jval option"
  cvl_handedOver :: bool
  cvl_handoffKind :: "jval option"
  cvl_handoffAt :: "int option"
  cvl_firstHandoffAt :: "int option"
  cvl_assigneeUserId :: "jval option"
  cvl_assigneeName :: "jval option"
  cvl_lastCustomerAt :: "int option"
  cvl_state :: payload
  cvl_createdAt :: int
  cvl_updatedAt :: int
  cvl_channelAccountId :: "jstext option"

definition messagesK :: jstext where "messagesK = js ''messages''"
definition accountK :: jstext where "accountK = js ''channelAccountId''"

definition sessionState :: "payload \<Rightarrow> payload" where
  "sessionState s = normalizeForStore (filter (\<lambda>e. fst e \<noteq> messagesK) s)"

text \<open>The last customer message decides: its \<open>sentAt\<close>, or its \<open>at\<close>.\<close>

fun lastCustomer :: "payload list \<Rightarrow> jval option" where
  "lastCustomer [] = None"
| "lastCustomer (m # ms) =
     (if jget m roleK = Some (JStr (js ''customer''))
      then (case jget m sentAtK of Some v \<Rightarrow> if v = JNull then jget m atK else Some v | None \<Rightarrow> jget m atK)
      else lastCustomer ms)"

definition lastCustomerAtOf :: "payload list \<Rightarrow> jval option" where
  "lastCustomerAtOf ms = lastCustomer (rev ms)"

definition jsTruthy :: "jval option \<Rightarrow> bool" where
  "jsTruthy v \<longleftrightarrow> v \<notin> {None, Some JNull, Some (JBool False), Some (JNum 0), Some (JStr [])}"

text \<open>\<open>v?.k ?? null\<close>\<close>

definition optChain :: "jval option \<Rightarrow> string \<Rightarrow> jval option" where
  "optChain v k = (case v of Some (JObj m) \<Rightarrow> (case jget m (js k) of Some JNull \<Rightarrow> None | x \<Rightarrow> x) | _ \<Rightarrow> None)"

definition conversationValuesFrom :: "payload \<Rightarrow> jval option \<Rightarrow> projection_error + conv_values" where
  "conversationValuesFrom st lastAt =
     (let g = (\<lambda>k. jget st (js k)); handoff = g ''handoff'' in
      case (if jsTruthy handoff
            then (case toDate (optChain handoff ''at'') ''handoff.at'' of Inl e \<Rightarrow> Inl e | Inr t \<Rightarrow> Inr (Some t))
            else Inr None) of
        Inl e \<Rightarrow> Inl e
      | Inr handoffAt \<Rightarrow>
     (case optDate (g ''firstHandoffAt'') ''firstHandoffAt'' of
        Inl e \<Rightarrow> Inl e
      | Inr firstAt \<Rightarrow>
     (case optDate lastAt ''lastCustomerAt'' of
        Inl e \<Rightarrow> Inl e
      | Inr customerAt \<Rightarrow>
     (case toDate (g ''createdAt'') ''createdAt'' of
        Inl e \<Rightarrow> Inl e
      | Inr created \<Rightarrow>
     (case toDate (g ''updatedAt'') ''updatedAt'' of
        Inl e \<Rightarrow> Inl e
      | Inr updated \<Rightarrow> Inr
          \<lparr>cvl_id = g ''id'', cvl_channel = g ''channel'', cvl_stage = g ''stage'',
           cvl_handedOver = (g ''handedOver'' = Some (JBool True)), cvl_handoffKind = optChain handoff ''kind'',
           cvl_handoffAt = handoffAt, cvl_firstHandoffAt = firstAt,
           cvl_assigneeUserId = optChain (g ''assignee'') ''userId'', cvl_assigneeName = optChain (g ''assignee'') ''name'',
           cvl_lastCustomerAt = customerAt, cvl_state = st, cvl_createdAt = created, cvl_updatedAt = updated,
           cvl_channelAccountId = (case g ''channelAccountId'' of Some (JStr a) \<Rightarrow> Some a | _ \<Rightarrow> None)\<rparr>)))))"

text \<open>
  The session without its messages, read back from the row: \<open>state\<close>, with the account column in place
  of the key. The messages are hung on it by the caller.
\<close>

definition rowToSession :: "conv_values \<Rightarrow> payload" where
  "rowToSession r =
     (case cvl_channelAccountId r of
        None \<Rightarrow> jdel (cvl_state r) accountK
      | Some a \<Rightarrow> jset (cvl_state r) accountK (JStr a))"

section \<open>Orders\<close>

record order_values =
  ovl_id :: "jval option"
  ovl_sessionId :: "jval option"
  ovl_routeId :: "jval option"
  ovl_status :: "jval option"
  ovl_totalPrice :: "jval option"
  ovl_totalFen :: "jval option"
  ovl_createdAt :: int
  ovl_paidAt :: "int option"
  ovl_confirmedAt :: "int option"
  ovl_voided :: "(int \<times> string) option"
  ovl_data :: payload

definition isLine :: "payload \<Rightarrow> bool" where
  "isLine d \<longleftrightarrow> jget d (js ''v'') = Some (JNum 2)"

text \<open>The route column: the first line's code, or the order's own route. An order without lines throws.\<close>

definition routeColumn :: "payload \<Rightarrow> projection_error + jval option" where
  "routeColumn d =
     (if isLine d
      then (case jget d (js ''lines'') of Some (JArr (JObj l # _)) \<Rightarrow> Inr (jget l (js ''code'')) | _ \<Rightarrow> Inl BadShape)
      else Inr (jget d (js ''routeId'')))"

text \<open>\<open>Math.round(totalFen / 100)\<close>; a total that is no number has no price (\<open>NaN\<close>).\<close>

definition priceColumn :: "payload \<Rightarrow> jval option" where
  "priceColumn d =
     (if isLine d
      then (case jget d (js ''totalFen'') of Some (JNum f) \<Rightarrow> Some (JNum (of_int \<lfloor>f / 100 + 1 / 2\<rfloor>)) | _ \<Rightarrow> None)
      else jget d (js ''totalPrice''))"

definition orderToRow :: "payload \<Rightarrow> (rat \<times> string) option \<Rightarrow> projection_error + order_values" where
  "orderToRow od voided =
     (let d = normalizeForStore od; g = (\<lambda>k. jget d (js k)) in
      case routeColumn d of Inl e \<Rightarrow> Inl e | Inr route \<Rightarrow>
     (case toDate (g ''createdAt'') ''order.createdAt'' of Inl e \<Rightarrow> Inl e | Inr created \<Rightarrow>
     (case optDate (g ''paidAt'') ''order.paidAt'' of Inl e \<Rightarrow> Inl e | Inr paid \<Rightarrow>
     (case optDate (g ''confirmedAt'') ''order.confirmedAt'' of Inl e \<Rightarrow> Inl e | Inr confirmed \<Rightarrow>
     (case (case voided of
              None \<Rightarrow> Inr None
            | Some (t, reason) \<Rightarrow>
                (case toDate (Some (JNum t)) ''order.voidedAt'' of Inl e \<Rightarrow> Inl e | Inr v \<Rightarrow> Inr (Some (v, reason)))) of
        Inl e \<Rightarrow> Inl e
      | Inr void \<Rightarrow> Inr
          \<lparr>ovl_id = g ''id'', ovl_sessionId = (if g ''sessionId'' = Some JNull then None else g ''sessionId''),
           ovl_routeId = route, ovl_status = g ''status'', ovl_totalPrice = priceColumn d,
           ovl_totalFen = (if isLine d then g ''totalFen'' else None), ovl_createdAt = created, ovl_paidAt = paid,
           ovl_confirmedAt = confirmed, ovl_voided = void, ovl_data = d\<rparr>)))))"

section \<open>Normal values stay as they are\<close>

lemma foldl_jset: "jwf m \<Longrightarrow> jwf (foldl (\<lambda>m e. jset m (fst e) (snd e)) m es)"
  by (induction es arbitrary: m) auto

lemma foldl_jset_get:
  "jget (foldl (\<lambda>m e. jset m (fst e) (snd e)) m es) k = (case jget (rev es) k of None \<Rightarrow> jget m k | Some v \<Rightarrow> Some v)"
proof (induction es arbitrary: m)
  case (Cons e es)
  have "jget (rev es @ [e]) k = (case jget (rev es) k of None \<Rightarrow> if fst e = k then Some (snd e) else None | Some v \<Rightarrow> Some v)"
    by (cases e) (simp add: jget_map_of map_add_def split: option.split)
  then show ?case by (simp add: Cons split: option.split)
qed simp

lemma keys_fromEntries: "set (map fst (fromEntries es)) = set (map fst es)"
proof -
  have "set (map fst (foldl (\<lambda>m e. jset m (fst e) (snd e)) m es)) = set (map fst m) \<union> set (map fst es)" for m
  proof (induction es arbitrary: m)
    case (Cons e es)
    then show ?case using set_jkeys_jset [of m "fst e" "snd e"] by (auto simp: jkeys_def)
  qed simp
  then show ?thesis by (simp add: fromEntries_def)
qed

lemma jwf_fromEntries [simp]: "jwf (fromEntries es)"
  by (simp add: fromEntries_def foldl_jset)

lemma jset_append: "k \<notin> set (map fst m) \<Longrightarrow> jset m k v = m @ [(k, v)]"
  by (induction m k v rule: jset.induct) auto

lemma fromEntries_distinct: "distinct (map fst es) \<Longrightarrow> fromEntries es = es"
proof -
  have "distinct (map fst (m @ es)) \<Longrightarrow> foldl (\<lambda>m e. jset m (fst e) (snd e)) m es = m @ es" for m
  proof (induction es arbitrary: m)
    case (Cons e es)
    then have "jset m (fst e) (snd e) = m @ [e]" by (subst jset_append) auto
    then show ?case using Cons by simp
  qed simp
  from this [of "[]"] show "distinct (map fst es) \<Longrightarrow> fromEntries es = es" by (simp add: fromEntries_def)
qed

lemma jset_sub: "set (jset m k v) \<subseteq> insert (k, v) (set m)"
  by (induction m k v rule: jset.induct) auto

lemma foldl_jset_sub: "set (foldl (\<lambda>m e. jset m (fst e) (snd e)) m es) \<subseteq> set m \<union> set es"
proof (induction es arbitrary: m)
  case (Cons e es)
  have "set (jset m (fst e) (snd e)) \<subseteq> insert e (set m)" using jset_sub [of m "fst e" "snd e"] by simp
  then show ?case using Cons [of "jset m (fst e) (snd e)"] by auto
qed simp

lemma fromEntries_sub: "set (fromEntries es) \<subseteq> set es"
  using foldl_jset_sub [of "[]" es] by (simp add: fromEntries_def)

lemma clean_clean [simp]: "clean (clean s) = clean s"
  by (rule cleanText_fixed) (simp_all add: zero_notin_cleanText, simp add: cleanText_def isWellFormed_wellFormed)

lemma cleaned_entries:
  assumes "\<And>e. e \<in> set m \<Longrightarrow> cleanDeep (cleanDeep (snd e)) = cleanDeep (snd e)"
  shows "fromEntries (map (map_prod clean cleanDeep) (fromEntries (map (map_prod clean cleanDeep) m))) =
    fromEntries (map (map_prod clean cleanDeep) m)"
proof -
  let ?n = "fromEntries (map (map_prod clean cleanDeep) m)"
  have "map_prod clean cleanDeep e = e" if "e \<in> set ?n" for e
    using that fromEntries_sub [of "map (map_prod clean cleanDeep) m"] assms by fastforce
  then have "map (map_prod clean cleanDeep) ?n = ?n" by (simp add: map_idI)
  moreover have "distinct (map fst ?n)" using jwf_fromEntries by (simp add: jwf_def jkeys_def)
  ultimately show ?thesis by (simp add: fromEntries_distinct)
qed

lemma cleanDeep_cleanDeep: "cleanDeep (cleanDeep v) = cleanDeep v"
proof (induction v rule: cleanDeep.induct)
  case (3 m)
  have "cleanDeep (cleanDeep (snd e)) = cleanDeep (snd e)" if "e \<in> set m" for e
    using 3 that by (cases e) auto
  then show ?case using cleaned_entries by simp
qed auto

lemma normalize_normal [simp]: "normalizeForStore (normalizeForStore m) = normalizeForStore m"
  unfolding normalizeForStore_def by (rule cleaned_entries) (rule cleanDeep_cleanDeep)

lemma jwf_normalize [simp]: "jwf (normalizeForStore m)"
  by (simp add: normalizeForStore_def)

text \<open>So what the spill file keeps of a message gives the same row again.\<close>

lemma messageToRow_normal: "messageToRow (normalizeForStore m) seq turn = messageToRow m seq turn"
  by (simp add: messageToRow_def)

section \<open>A message comes back from its row\<close>

lemma known_keys: "distinct KNOWN"
  by (simp add: KNOWN_def key_defs js_def)

lemma key_neq [simp]:
  "roleK \<noteq> contentK" "roleK \<noteq> atK" "roleK \<noteq> msgidK" "roleK \<noteq> sentAtK" "roleK \<noteq> authorK" "roleK \<noteq> authorIdK" "roleK \<noteq> authorNameK"
  "contentK \<noteq> roleK" "contentK \<noteq> atK" "contentK \<noteq> msgidK" "contentK \<noteq> sentAtK" "contentK \<noteq> authorK" "contentK \<noteq> authorIdK" "contentK \<noteq> authorNameK"
  "atK \<noteq> roleK" "atK \<noteq> contentK" "atK \<noteq> msgidK" "atK \<noteq> sentAtK" "atK \<noteq> authorK" "atK \<noteq> authorIdK" "atK \<noteq> authorNameK"
  "msgidK \<noteq> roleK" "msgidK \<noteq> contentK" "msgidK \<noteq> atK" "msgidK \<noteq> sentAtK" "msgidK \<noteq> authorK" "msgidK \<noteq> authorIdK" "msgidK \<noteq> authorNameK"
  "sentAtK \<noteq> roleK" "sentAtK \<noteq> contentK" "sentAtK \<noteq> atK" "sentAtK \<noteq> msgidK" "sentAtK \<noteq> authorK" "sentAtK \<noteq> authorIdK" "sentAtK \<noteq> authorNameK"
  "authorK \<noteq> roleK" "authorK \<noteq> contentK" "authorK \<noteq> atK" "authorK \<noteq> msgidK" "authorK \<noteq> sentAtK" "authorK \<noteq> authorIdK" "authorK \<noteq> authorNameK"
  "authorIdK \<noteq> roleK" "authorIdK \<noteq> contentK" "authorIdK \<noteq> atK" "authorIdK \<noteq> msgidK" "authorIdK \<noteq> sentAtK" "authorIdK \<noteq> authorK" "authorIdK \<noteq> authorNameK"
  "authorNameK \<noteq> roleK" "authorNameK \<noteq> contentK" "authorNameK \<noteq> atK" "authorNameK \<noteq> msgidK" "authorNameK \<noteq> sentAtK" "authorNameK \<noteq> authorK" "authorNameK \<noteq> authorIdK"
  by (simp_all add: key_defs js_def)

lemma jget_reversed: "jwf m \<Longrightarrow> jget (rev m) k = jget m k"
  unfolding jget_map_of jwf_def jkeys_def
  using iffD2 [OF map_of_inject_set [of "rev m" m]] by (simp add: rev_map [symmetric])

lemma jget_filter_keys: "jget (filter (\<lambda>e. fst e \<notin> S) m) k = (if k \<in> S then None else jget m k)"
  by (induction m) auto

lemma jwf_filtered: "jwf m \<Longrightarrow> jwf (filter p m)"
  by (simp add: jwf_def jkeys_def distinct_map_filter)

lemma jget_keepKey: "jget (keepKey fits key n extra) k = (if k = key \<and> \<not> fits \<and> jget n key \<noteq> None then jget n key else jget extra k)"
  by (auto simp: keepKey_def split: option.split)

lemma jwf_keepKey: "jwf extra \<Longrightarrow> jwf (keepKey fits key n extra)"
  by (simp add: keepKey_def split: option.split)

lemma jget_setKey: "jget (setKey key v m) k = (if k = key \<and> v \<noteq> None then v else jget m k)"
  by (auto simp: setKey_def split: option.split)

lemma jwf_extra: "jwf n \<Longrightarrow> jwf (extraOf n)"
  by (simp add: extraOf_def jwf_keepKey jwf_filtered)

text \<open>Times the database keeps: whole milliseconds within the range of a date.\<close>

definition wholeTime :: "jval \<Rightarrow> bool" where
  "wholeTime v \<longleftrightarrow> (case v of JNum r \<Rightarrow> r = of_int \<lfloor>r\<rfloor> \<and> \<bar>r\<bar> \<le> MAX_TIME | _ \<Rightarrow> False)"

lemma getTime_newDate: "wholeTime (JNum r) \<Longrightarrow> getTime (newDate r) = JNum r"
  by (auto simp: wholeTime_def newDate_def) (metis floor_of_int minus_minus of_int_minus)

lemma toDate_whole:
  assumes "toDate v field = Inr t" "\<And>x. v = Some x \<Longrightarrow> wholeTime x"
  shows "v = Some (JNum (of_int t))"
proof -
  obtain r where r: "v = Some (JNum r)" "newDate r = Date t"
    using assms(1) by (cases "(v, field)" rule: toDate.cases) (auto split: js_date.splits)
  then show ?thesis using getTime_newDate [of r] assms(2) by simp
qed

lemma jget_columnKeys:
  "jget (columnKeys r) roleK = mv_role r" "jget (columnKeys r) contentK = mv_content r"
  "jget (columnKeys r) atK = Some (JNum (of_int (mv_at r)))"
  "jget (columnKeys r) msgidK = map_option JStr (mv_msgid r)"
  "jget (columnKeys r) sentAtK = map_option getTime (mv_sentAt r)"
  "jget (columnKeys r) authorK = map_option JStr (mv_author r)"
  "jget (columnKeys r) authorIdK = (if mv_author r = Some humanA then Some (case mv_authorUserId r of None \<Rightarrow> JNull | Some u \<Rightarrow> JStr u) else None)"
  "jget (columnKeys r) authorNameK = (if mv_author r = Some humanA then map_option JStr (mv_authorName r) else None)"
  "k \<notin> set KNOWN \<Longrightarrow> jget (columnKeys r) k = None"
  by (simp_all add: columnKeys_def Let_def jget_setKey KNOWN_def)

lemma in_known [simp]: "{roleK, contentK, atK, msgidK, sentAtK, authorK, authorIdK, authorNameK} \<subseteq> set KNOWN"
  "roleK \<in> set KNOWN" "contentK \<in> set KNOWN" "atK \<in> set KNOWN" "msgidK \<in> set KNOWN" "sentAtK \<in> set KNOWN" "authorK \<in> set KNOWN"
  "authorIdK \<in> set KNOWN" "authorNameK \<in> set KNOWN"
  by (simp_all add: KNOWN_def)

lemma jget_extraOf:
  "jget (extraOf n) roleK = None" "jget (extraOf n) contentK = None" "jget (extraOf n) atK = None"
  "jget (extraOf n) msgidK = (if msgidColumn n = None then jget n msgidK else None)"
  "jget (extraOf n) sentAtK = (if sentAtColumn n = None then jget n sentAtK else None)"
  "jget (extraOf n) authorK = (if authorColumn n = None then jget n authorK else None)"
  "jget (extraOf n) authorIdK = (if authorIdFits n then None else jget n authorIdK)"
  "jget (extraOf n) authorNameK = (if authorNameColumn n = None then jget n authorNameK else None)"
  by (simp_all add: extraOf_def jget_keepKey jget_filter_keys)

lemma jget_extraOf_rest: "k \<notin> set KNOWN \<Longrightarrow> jget (extraOf n) k = jget n k"
  using in_known(1) by (auto simp: extraOf_def jget_keepKey jget_filter_keys)

text \<open>
  C30: a message read back from its row has, under every key, the value the normalised message had: nothing
  is lost between the columns and \<open>extra\<close>, as long as its instants are whole milliseconds in the range of
  dates and a person's message has an author id (which may be null).
\<close>

theorem message_comes_back:
  assumes "messageToRow m seq turn = Inr r"
    and "\<And>v. jget (normalizeForStore m) atK = Some v \<Longrightarrow> wholeTime v"
    and "\<And>v. jget (normalizeForStore m) sentAtK = Some (JNum v) \<Longrightarrow> wholeTime (JNum v)"
    and "authorColumn (normalizeForStore m) = Some humanA \<Longrightarrow> jget (normalizeForStore m) authorIdK \<noteq> None"
  shows "jget (rowToMessage r) k = jget (normalizeForStore m) k"
proof -
  define n where "n = normalizeForStore m"
  obtain t where t: "toDate (jget n atK) ''message.at'' = Inr t"
    and r: "r = \<lparr>mv_seq = seq, mv_role = jget n roleK, mv_author = authorColumn n, mv_authorUserId = authorIdColumn n,
           mv_authorName = authorNameColumn n, mv_content = jget n contentK, mv_at = t, mv_sentAt = sentAtColumn n,
           mv_msgid = msgidColumn n, mv_turnId = turn, mv_extra = if extraOf n = [] then None else Some (extraOf n)\<rparr>"
    using assms(1) by (auto simp: messageToRow_def Let_def n_def split: sum.splits)
  have at': "jget n atK = Some (JNum (of_int t))" using toDate_whole [OF t] assms(2) n_def by blast
  have sent: "map_option getTime (sentAtColumn n) = (if sentAtColumn n = None then None else jget n sentAtK)"
    using assms(3) getTime_newDate unfolding n_def [symmetric] by (auto simp: sentAtColumn_def split: option.splits jval.splits)
  have jn: "jwf (extraOf n)" by (simp add: n_def jwf_extra)
  have spread: "jget (case if extraOf n = [] then None else Some (extraOf n) of None \<Rightarrow> b
      | Some extra \<Rightarrow> foldl (\<lambda>m e. jset m (fst e) (snd e)) b extra) k =
      (case jget (extraOf n) k of None \<Rightarrow> jget b k | Some v \<Rightarrow> Some v)" for b
    by (simp add: foldl_jset_get jget_reversed [OF jn])
  have au: "authorColumn n = Some a \<Longrightarrow> jget n authorK = Some (JStr a)" for a
    by (auto simp: authorColumn_def split: option.splits jval.splits if_splits)
  have ms: "msgidColumn n = Some a \<Longrightarrow> jget n msgidK = Some (JStr a)" for a
    by (auto simp: msgidColumn_def split: option.splits jval.splits)
  have an: "authorNameColumn n = Some a \<Longrightarrow> authorColumn n = Some humanA \<and> jget n authorNameK = Some (JStr a)" for a
    by (auto simp: authorNameColumn_def split: option.splits jval.splits if_splits)
  have ai: "authorIdFits n \<Longrightarrow> authorColumn n = Some humanA \<and>
      jget n authorIdK = Some (case authorIdColumn n of None \<Rightarrow> JNull | Some u \<Rightarrow> JStr u)"
    by (auto simp: authorIdFits_def authorIdColumn_def split: option.splits jval.splits if_splits)
  have row: "jget (rowToMessage r) k = (case jget (extraOf n) k of None \<Rightarrow> jget (columnKeys r) k | Some v \<Rightarrow> Some v)"
    using spread unfolding rowToMessage_def r by simp
  note extra = jget_extraOf [of n] jget_extraOf_rest [of k n]
  have "mv_role r = jget n roleK" "mv_content r = jget n contentK" "mv_at r = t" "mv_msgid r = msgidColumn n"
    "mv_sentAt r = sentAtColumn n" "mv_author r = authorColumn n" "mv_authorUserId r = authorIdColumn n"
    "mv_authorName r = authorNameColumn n"
    by (simp_all add: r)
  note cols = jget_columnKeys [where r = r] this
  consider "k = roleK" | "k = contentK" | "k = atK" | "k = msgidK" | "k = sentAtK" | "k = authorK" | "k = authorIdK"
    | "k = authorNameK" | "k \<notin> set KNOWN" by (auto simp: KNOWN_def)
  then have "jget (rowToMessage r) k = jget n k"
  proof cases
    case 4
    then show ?thesis using ms unfolding row by (cases "msgidColumn n") (auto simp: extra cols split: option.split)
  next
    case 5
    then show ?thesis using sent unfolding row by (auto simp: extra cols split: option.split)
  next
    case 6
    then show ?thesis using au unfolding row by (cases "authorColumn n") (auto simp: extra cols split: option.split)
  next
    case 7
    then show ?thesis using ai assms(4) [folded n_def] unfolding row by (cases "authorIdFits n") (auto simp: extra cols split: option.splits)
  next
    case 8
    then show ?thesis using an unfolding row by (cases "authorNameColumn n") (auto simp: extra cols split: option.split)
  next
    case 9
    then show ?thesis unfolding row by (auto simp: extra cols split: option.split)
  qed (use row in \<open>auto simp: extra cols at' split: option.split\<close>)
  then show ?thesis by (simp add: n_def)
qed

definition demo_message :: payload where
  "demo_message = [(roleK, JStr (js ''agent'')), (contentK, JStr (js ''hi'')), (atK, JNum 5), (authorK, JStr humanA),
     (authorIdK, JNull), (js ''note'', JStr (0 # js ''x''))]"

lemmas demo_text = key_defs humanA_def js_def cleanText_def Let_def isHigh_def isLow_def

lemma demo_message_normal: "normalizeForStore demo_message =
  [(roleK, JStr (js ''agent'')), (contentK, JStr (js ''hi'')), (atK, JNum 5), (authorK, JStr humanA),
     (authorIdK, JNull), (js ''note'', JStr (js ''x''))]"
  by (simp add: demo_message_def normalizeForStore_def fromEntries_def demo_text)

lemma demo_message_keys:
  "jget (normalizeForStore demo_message) atK = Some (JNum 5)" "jget (normalizeForStore demo_message) sentAtK = None"
  "jget (normalizeForStore demo_message) authorIdK = Some JNull"
  "jget (normalizeForStore demo_message) (js ''note'') = Some (JStr (js ''x''))"
  by (simp_all add: demo_message_normal key_defs js_def)

lemma message_comes_back_witness:
  "\<exists>r. messageToRow demo_message 1 None = Inr r \<and> jget (rowToMessage r) (js ''note'') = Some (JStr (js ''x''))"
proof -
  have "toDate (jget (normalizeForStore demo_message) atK) ''message.at'' = Inr 5"
    by (simp add: demo_message_keys newDate_def MAX_TIME_def)
  then obtain r where r: "messageToRow demo_message 1 None = Inr r" by (simp add: messageToRow_def Let_def)
  show ?thesis
    using r message_comes_back [OF r, of "js ''note''"] by (auto simp: demo_message_keys wholeTime_def MAX_TIME_def)
qed

end
