(* ===== verification/StoreSeq.thy ===== *)
theory StoreSeq
  imports Prelude
begin

text \<open>
  The numbering of a conversation's messages and the check of its window (\<open>src/store/seq.ts\<close>). The
  module keeps its numbers beside the objects, in weak maps keyed by them: an object is a number, its
  reference. A session's \<open>messages\<close> is \<open>None\<close> when it is no array; \<open>None\<close> inside it is an entry that is no
  object.
\<close>

record seq_state =
  sq_last :: nat
  sq_windowStart :: nat

record seq_mem =
  sm_seqs :: "nat \<Rightarrow> nat option"
  sm_turns :: "nat \<Rightarrow> jstext option"
  sm_states :: "nat \<Rightarrow> seq_state option"
  sm_resets :: "nat set"

definition emptySeqMem :: seq_mem where
  "emptySeqMem = \<lparr>sm_seqs = (\<lambda>_. None), sm_turns = (\<lambda>_. None), sm_states = (\<lambda>_. None), sm_resets = {}\<rparr>"

type_synonym messages_array = "nat option list option"

text \<open>What \<open>WindowCorruptError\<close> says.\<close>

datatype window_corrupt =
  SeqAfterFresh nat nat | SeqGap nat nat | TailMissing nat nat | WindowBack nat nat | WindowGone nat

definition stateOf :: "seq_mem \<Rightarrow> nat \<Rightarrow> seq_state" where
  "stateOf mem s = (case sm_states mem s of None \<Rightarrow> \<lparr>sq_last = 0, sq_windowStart = 1\<rparr> | Some st \<Rightarrow> st)"

definition objects :: "messages_array \<Rightarrow> nat list" where
  "objects ms = (case ms of None \<Rightarrow> [] | Some l \<Rightarrow> concat (map (\<lambda>m. case m of None \<Rightarrow> [] | Some r \<Rightarrow> [r]) l))"

definition seqOf :: "seq_mem \<Rightarrow> nat \<Rightarrow> nat option" where
  "seqOf mem m = sm_seqs mem m"

definition turnIdOf :: "seq_mem \<Rightarrow> nat \<Rightarrow> jstext option" where
  "turnIdOf mem m = sm_turns mem m"

definition linkTurn :: "seq_mem \<Rightarrow> nat \<Rightarrow> jstext \<Rightarrow> seq_mem" where
  "linkTurn mem m turn = mem\<lparr>sm_turns := (sm_turns mem)(m := Some turn)\<rparr>"

definition lastSeqOf :: "seq_mem \<Rightarrow> nat \<Rightarrow> nat" where
  "lastSeqOf mem s = sq_last (stateOf mem s)"

definition windowStartOf :: "seq_mem \<Rightarrow> nat \<Rightarrow> nat" where
  "windowStartOf mem s = sq_windowStart (stateOf mem s)"

text \<open>Numbering a run of messages after \<open>last\<close>: the new numbers and the last of them.\<close>

fun number :: "(nat \<Rightarrow> nat option) \<Rightarrow> nat \<Rightarrow> nat list \<Rightarrow> (nat \<Rightarrow> nat option) \<times> nat" where
  "number sq mx [] = (sq, mx)"
| "number sq mx (m # ms) = number (sq(m := Some (mx + 1))) (mx + 1) ms"

definition seedSeqs :: "seq_mem \<Rightarrow> nat \<Rightarrow> messages_array \<Rightarrow> int \<Rightarrow> seq_mem option" where
  "seedSeqs mem s ms firstSeq =
     (if firstSeq < 1 then None
      else let start = nat firstSeq; (sq, mx) = number (sm_seqs mem) (start - 1) (objects ms)
           in Some (mem\<lparr>sm_seqs := sq, sm_states := (sm_states mem)(s := Some \<lparr>sq_last = mx, sq_windowStart = start\<rparr>)\<rparr>))"

definition noteWindowReset :: "seq_mem \<Rightarrow> nat \<Rightarrow> seq_mem" where
  "noteWindowReset mem s = mem\<lparr>sm_resets := insert s (sm_resets mem)\<rparr>"

section \<open>Assigning\<close>

definition numbered :: "(nat \<Rightarrow> nat option) \<Rightarrow> nat \<Rightarrow> bool" where
  "numbered sq m \<longleftrightarrow> sq m \<noteq> None"

text \<open>The first message of the rest that has a number, and its place.\<close>

fun firstNumbered :: "(nat \<Rightarrow> nat option) \<Rightarrow> nat \<Rightarrow> nat list \<Rightarrow> (nat \<times> nat) option" where
  "firstNumbered sq i [] = None"
| "firstNumbered sq i (m # ms) =
     (case sq m of Some n \<Rightarrow> Some (i + 1, n) | None \<Rightarrow> firstNumbered sq (i + 1) ms)"

text \<open>The first two neighbours whose numbers do not follow each other.\<close>

fun firstGap :: "nat list \<Rightarrow> (nat \<times> nat) option" where
  "firstGap (a # b # ns) = (if b \<noteq> a + 1 then Some (a, b) else firstGap (b # ns))"
| "firstGap ns = None"

text \<open>The numbers the window already has: a run that ends at the last number and starts in the window.\<close>

definition windowCheck :: "seq_state \<Rightarrow> bool \<Rightarrow> nat list \<Rightarrow> window_corrupt option" where
  "windowCheck st reset ns =
     (case firstGap ns of Some (a, b) \<Rightarrow> Some (SeqGap a b) | None \<Rightarrow>
      if ns \<noteq> [] then
        (if last ns \<noteq> sq_last st then Some (TailMissing (sq_last st) (last ns))
         else if hd ns < sq_windowStart st then Some (WindowBack (sq_windowStart st) (hd ns)) else None)
      else if sq_windowStart st \<le> sq_last st \<and> \<not> reset then Some (WindowGone (sq_last st - sq_windowStart st + 1))
      else None)"

definition strictCheck :: "(nat \<Rightarrow> nat option) \<Rightarrow> seq_state \<Rightarrow> bool \<Rightarrow> nat list \<Rightarrow> window_corrupt option" where
  "strictCheck sq st reset ms =
     (let known = takeWhile (numbered sq) ms in
      case firstNumbered sq (length known) (drop (length known) ms) of
        Some (i, n) \<Rightarrow> Some (SeqAfterFresh i n)
      | None \<Rightarrow> windowCheck st reset (map (\<lambda>m. the (sq m)) known))"

text \<open>Where the messages without a number begin: after the known run, or (lenient) after the last known one.\<close>

definition freshFrom :: "bool \<Rightarrow> (nat \<Rightarrow> nat option) \<Rightarrow> nat list \<Rightarrow> nat list" where
  "freshFrom strict sq ms =
     (if strict then drop (length (takeWhile (numbered sq) ms)) ms
      else rev (takeWhile (\<lambda>m. \<not> numbered sq m) (rev ms)))"

definition headSeq :: "(nat \<Rightarrow> nat option) \<Rightarrow> nat list \<Rightarrow> nat \<Rightarrow> nat" where
  "headSeq sq ms mx = (case ms of [] \<Rightarrow> mx + 1 | m # _ \<Rightarrow> (case sq m of None \<Rightarrow> mx + 1 | Some n \<Rightarrow> n))"

definition assignSeqs ::
  "bool \<Rightarrow> seq_mem \<Rightarrow> nat \<Rightarrow> messages_array \<Rightarrow> (window_corrupt + nat list) \<times> seq_mem" where
  "assignSeqs strict mem s arr =
     (if arr = None then (Inr [], mem)
      else
        let ms = objects arr; st = stateOf mem s; reset = (s \<in> sm_resets mem); sq = sm_seqs mem;
            mem0 = mem\<lparr>sm_resets := sm_resets mem - {s}\<rparr>
        in case (if strict then strictCheck sq st reset ms else None) of
             Some c \<Rightarrow> (Inl c, mem0)
           | None \<Rightarrow>
               let fresh = freshFrom strict sq ms; (sq', mx) = number sq (sq_last st) fresh
               in (Inr fresh,
                   mem0\<lparr>sm_seqs := sq',
                        sm_states := (sm_states mem)(s := Some \<lparr>sq_last = mx, sq_windowStart = headSeq sq' ms mx\<rparr>)\<rparr>))"

section \<open>Numbers run on\<close>

lemma number_last: "snd (number sq mx ms) = mx + length ms"
  by (induction ms arbitrary: sq mx) simp_all

lemma number_other: "m \<notin> set ms \<Longrightarrow> fst (number sq mx ms) m = sq m"
  by (induction ms arbitrary: sq mx) simp_all

lemma number_map: "distinct ms \<Longrightarrow> map (fst (number sq mx ms)) ms = map Some [mx + 1..<mx + 1 + length ms]"
proof (induction ms arbitrary: sq mx)
  case (Cons m ms)
  have "fst (number (sq(m := Some (mx + 1))) (mx + 1) ms) m = Some (mx + 1)"
    using Cons.prems by (subst number_other) simp_all
  moreover have "[mx + 1..<mx + 1 + length (m # ms)] = (mx + 1) # [mx + 1 + 1..<mx + 1 + 1 + length ms]"
    by (simp add: upt_rec)
  ultimately show ?case using Cons by simp
qed simp

lemma firstGap_None: "firstGap ns = None \<Longrightarrow> ns \<noteq> [] \<Longrightarrow> ns = [hd ns..<hd ns + length ns]"
proof (induction ns rule: firstGap.induct)
  case (1 a b ns)
  then have "b = a + 1" and "b # ns = [b..<b + length (b # ns)]" by (auto split: if_splits)
  moreover have "[a..<a + length (a # b # ns)] = a # [a + 1..<a + 1 + length (b # ns)]"
    by (subst upt_conv_Cons) simp_all
  ultimately show ?case by (metis list.sel(1))
qed simp_all

lemma firstNumbered_None: "firstNumbered sq i ms = None \<longleftrightarrow> (\<forall>m \<in> set ms. sq m = None)"
  by (induction ms arbitrary: i) (auto split: option.split)

text \<open>A session's numbers are in order: a window that starts at 1 or later and not beyond the next number.\<close>

definition seqStateOk :: "seq_state \<Rightarrow> bool" where
  "seqStateOk st \<longleftrightarrow> 1 \<le> sq_windowStart st \<and> sq_windowStart st \<le> sq_last st + 1"

lemma windowCheck_None:
  assumes "windowCheck st reset ns = None"
  shows "if ns = [] then sq_windowStart st > sq_last st \<or> reset
    else ns = [sq_last st + 1 - length ns..<sq_last st + 1] \<and> sq_windowStart st + length ns \<le> sq_last st + 1"
proof (cases "ns = []")
  case False
  have g: "firstGap ns = None" and l: "last ns = sq_last st" and w: "sq_windowStart st \<le> hd ns"
    using assms False by (auto simp: windowCheck_def split: option.splits if_splits)
  have ns: "ns = [hd ns..<hd ns + length ns]" by (rule firstGap_None [OF g False])
  have "last [hd ns..<hd ns + length ns] = hd ns + length ns - 1" using False by (cases ns) (simp_all add: last_conv_nth)
  then have "last ns = hd ns + length ns - 1" by (simp only: ns [symmetric])
  moreover have "length ns > 0" using False by simp
  ultimately have top: "hd ns + length ns = sq_last st + 1" using l by linarith
  then have "hd ns = sq_last st + 1 - length ns" by simp
  then show ?thesis using False ns w top by simp
qed (use assms in \<open>auto simp: windowCheck_def split: if_splits\<close>)

lemma strictCheck_None:
  assumes "strictCheck sq st reset ms = None"
  obtains known fresh where "ms = known @ fresh" "known = takeWhile (numbered sq) ms"
    "list_all (\<lambda>m. sq m = None) fresh"
    "known \<noteq> [] \<Longrightarrow> map sq known = map Some [sq_last st + 1 - length known..<sq_last st + 1] \<and>
       sq_windowStart st + length known \<le> sq_last st + 1"
    "known = [] \<Longrightarrow> sq_windowStart st > sq_last st \<or> reset"
proof -
  define known where "known = takeWhile (numbered sq) ms"
  let ?ns = "map (\<lambda>m. the (sq m)) known"
  have drop: "ms = known @ drop (length known) ms"
    unfolding known_def by (metis append_take_drop_id takeWhile_eq_take)
  have n: "firstNumbered sq (length known) (drop (length known) ms) = None"
    and w: "windowCheck st reset ?ns = None"
    using assms by (auto simp: strictCheck_def Let_def known_def [symmetric] split: option.splits)
  have some: "map sq known = map Some ?ns"
    unfolding known_def by (auto simp: numbered_def dest: set_takeWhileD)
  note check = windowCheck_None [OF w]
  show ?thesis
  proof (rule that [OF drop known_def])
    show "list_all (\<lambda>m. sq m = None) (drop (length known) ms)"
      using n by (simp add: firstNumbered_None list_all_iff)
    show "sq_windowStart st > sq_last st \<or> reset" if "known = []" using check that by simp
    assume "known \<noteq> []"
    then have "?ns = [sq_last st + 1 - length known..<sq_last st + 1]"
      and "sq_windowStart st + length known \<le> sq_last st + 1"
      using check by simp_all
    then show "map sq known = map Some [sq_last st + 1 - length known..<sq_last st + 1] \<and>
        sq_windowStart st + length known \<le> sq_last st + 1"
      using some by metis
  qed
qed

section \<open>What an assignment does\<close>

lemma lenient_split: "ms = take (length ms - length (freshFrom False sq ms)) ms @ freshFrom False sq ms"
proof -
  have "rev ms = takeWhile (\<lambda>m. \<not> numbered sq m) (rev ms) @ dropWhile (\<lambda>m. \<not> numbered sq m) (rev ms)" by simp
  then have "ms = rev (dropWhile (\<lambda>m. \<not> numbered sq m) (rev ms)) @ freshFrom False sq ms"
    unfolding freshFrom_def by (metis rev_append rev_rev_ident)
  then show ?thesis by (metis append_eq_conv_conj diff_add_inverse2 length_append)
qed

lemma assignSeqsE:
  assumes "assignSeqs strict mem s arr = (Inr fresh, mem')" "arr \<noteq> None"
  obtains known where "objects arr = known @ fresh" "list_all (\<lambda>m. sm_seqs mem m = None) fresh"
    "strict \<Longrightarrow> strictCheck (sm_seqs mem) (stateOf mem s) (s \<in> sm_resets mem) (objects arr) = None \<and>
       known = takeWhile (numbered (sm_seqs mem)) (objects arr)"
    "mem' = mem\<lparr>sm_resets := sm_resets mem - {s}, sm_seqs := fst (number (sm_seqs mem) (lastSeqOf mem s) fresh),
       sm_states := (sm_states mem)(s := Some \<lparr>sq_last = lastSeqOf mem s + length fresh,
         sq_windowStart = headSeq (sm_seqs mem') (objects arr) (lastSeqOf mem s + length fresh)\<rparr>)\<rparr>"
proof -
  let ?ms = "objects arr" and ?sq = "sm_seqs mem"
  have check: "strict \<Longrightarrow> strictCheck ?sq (stateOf mem s) (s \<in> sm_resets mem) ?ms = None"
    using assms by (auto simp: assignSeqs_def Let_def split: option.splits)
  then have none: "(if strict then strictCheck ?sq (stateOf mem s) (s \<in> sm_resets mem) ?ms else None) = None" by simp
  have fresh: "fresh = freshFrom strict ?sq ?ms"
    using assms unfolding assignSeqs_def Let_def none by (simp add: case_prod_beta)
  have mem': "mem' = mem\<lparr>sm_resets := sm_resets mem - {s}, sm_seqs := fst (number ?sq (lastSeqOf mem s) fresh),
       sm_states := (sm_states mem)(s := Some \<lparr>sq_last = lastSeqOf mem s + length fresh,
         sq_windowStart = headSeq (sm_seqs mem') (objects arr) (lastSeqOf mem s + length fresh)\<rparr>)\<rparr>"
  proof -
    have "(Inr fresh, mem\<lparr>sm_resets := sm_resets mem - {s}, sm_seqs := fst (number ?sq (lastSeqOf mem s) fresh),
        sm_states := (sm_states mem)(s := Some \<lparr>sq_last = snd (number ?sq (lastSeqOf mem s) fresh),
          sq_windowStart = headSeq (fst (number ?sq (lastSeqOf mem s) fresh)) ?ms (snd (number ?sq (lastSeqOf mem s) fresh))\<rparr>)\<rparr>) =
        (Inr fresh, mem' :: seq_mem)"
      using assms unfolding assignSeqs_def Let_def none by (simp add: lastSeqOf_def case_prod_beta fresh [symmetric])
    then have m: "mem' = mem\<lparr>sm_resets := sm_resets mem - {s}, sm_seqs := fst (number ?sq (lastSeqOf mem s) fresh),
        sm_states := (sm_states mem)(s := Some \<lparr>sq_last = lastSeqOf mem s + length fresh,
          sq_windowStart = headSeq (fst (number ?sq (lastSeqOf mem s) fresh)) ?ms (lastSeqOf mem s + length fresh)\<rparr>)\<rparr>"
      unfolding prod.inject number_last by (elim conjE) (erule sym)
    then have "fst (number ?sq (lastSeqOf mem s) fresh) = sm_seqs mem'" by simp
    with m show ?thesis by simp
  qed
  show ?thesis
  proof (cases strict)
    case True
    obtain known fresh' where k: "?ms = known @ fresh'" "known = takeWhile (numbered ?sq) ?ms" "list_all (\<lambda>m. ?sq m = None) fresh'"
      by (rule strictCheck_None [OF check [OF True]])
    have "fresh' = fresh" using fresh True by (metis append_eq_conv_conj freshFrom_def k(1,2))
    then show ?thesis using k check [OF True] by (intro that [OF _ _ _ mem', of known]) simp_all
  next
    case False
    have "list_all (\<lambda>m. ?sq m = None) fresh"
      using fresh False by (auto simp: freshFrom_def list_all_iff numbered_def dest: set_takeWhileD)
    then show ?thesis using lenient_split [of ?ms ?sq] fresh False
      by (intro that [OF _ _ _ mem', of "take (length ?ms - length fresh) ?ms"]) simp_all
  qed
qed

text \<open>The facts every caller uses: which objects get which numbers, and that the window stays in order.\<close>

definition numbersOk :: "seq_mem \<Rightarrow> nat \<Rightarrow> bool" where
  "numbersOk mem s \<longleftrightarrow> seqStateOk (stateOf mem s) \<and>
     (\<forall>m n. sm_seqs mem m = Some n \<longrightarrow> 1 \<le> n \<and> n \<le> lastSeqOf mem s)"

lemma assigned:
  assumes "assignSeqs strict mem s arr = (Inr fresh, mem')" "distinct (objects arr)"
  shows "map (sm_seqs mem') fresh = map Some [lastSeqOf mem s + 1..<lastSeqOf mem' s + 1]"
    and "lastSeqOf mem' s = lastSeqOf mem s + length fresh"
    and "\<And>m. m \<notin> set fresh \<Longrightarrow> sm_seqs mem' m = sm_seqs mem m"
    and "\<And>m. m \<in> set fresh \<Longrightarrow> sm_seqs mem m = None"
    and "distinct fresh" and "set fresh \<subseteq> set (objects arr)" and "sm_turns mem' = sm_turns mem"
proof -
  have "map (sm_seqs mem') fresh = map Some [lastSeqOf mem s + 1..<lastSeqOf mem' s + 1] \<and>
      lastSeqOf mem' s = lastSeqOf mem s + length fresh \<and> (\<forall>m. m \<notin> set fresh \<longrightarrow> sm_seqs mem' m = sm_seqs mem m) \<and>
      (\<forall>m \<in> set fresh. sm_seqs mem m = None) \<and> distinct fresh \<and> set fresh \<subseteq> set (objects arr) \<and> sm_turns mem' = sm_turns mem"
  proof (cases "arr = None")
    case True
    then show ?thesis using assms by (auto simp: assignSeqs_def)
  next
    case False
    from assms(1) False obtain known where k: "objects arr = known @ fresh" "list_all (\<lambda>m. sm_seqs mem m = None) fresh"
      and m: "mem' = mem\<lparr>sm_resets := sm_resets mem - {s}, sm_seqs := fst (number (sm_seqs mem) (lastSeqOf mem s) fresh),
       sm_states := (sm_states mem)(s := Some \<lparr>sq_last = lastSeqOf mem s + length fresh,
         sq_windowStart = headSeq (sm_seqs mem') (objects arr) (lastSeqOf mem s + length fresh)\<rparr>)\<rparr>"
      by (rule assignSeqsE)
    have sq: "sm_seqs mem' = fst (number (sm_seqs mem) (lastSeqOf mem s) fresh)" "sm_turns mem' = sm_turns mem"
      by (subst m, simp)+
    have l: "lastSeqOf mem' s = lastSeqOf mem s + length fresh"
      unfolding lastSeqOf_def [of mem'] stateOf_def by (subst m) simp
    have "distinct fresh" using assms(2) k(1) by simp
    then have "map (sm_seqs mem') fresh = map Some [lastSeqOf mem s + 1..<lastSeqOf mem' s + 1]"
      unfolding sq l by (subst number_map) (simp_all add: add.commute add.left_commute)
    then show ?thesis using k sq l \<open>distinct fresh\<close> by (simp add: number_other list_all_iff)
  qed
  then show "map (sm_seqs mem') fresh = map Some [lastSeqOf mem s + 1..<lastSeqOf mem' s + 1]"
    and "lastSeqOf mem' s = lastSeqOf mem s + length fresh"
    and "\<And>m. m \<notin> set fresh \<Longrightarrow> sm_seqs mem' m = sm_seqs mem m"
    and "\<And>m. m \<in> set fresh \<Longrightarrow> sm_seqs mem m = None"
    and "distinct fresh" and "set fresh \<subseteq> set (objects arr)" and "sm_turns mem' = sm_turns mem"
    by blast+
qed

lemma assigned_window:
  assumes "assignSeqs strict mem s arr = (Inr fresh, mem')" "arr \<noteq> None"
  shows "windowStartOf mem' s = headSeq (sm_seqs mem') (objects arr) (lastSeqOf mem' s)"
    and "sm_resets mem' = sm_resets mem - {s}"
proof -
  obtain known where m: "mem' = mem\<lparr>sm_resets := sm_resets mem - {s}, sm_seqs := fst (number (sm_seqs mem) (lastSeqOf mem s) fresh),
       sm_states := (sm_states mem)(s := Some \<lparr>sq_last = lastSeqOf mem s + length fresh,
         sq_windowStart = headSeq (sm_seqs mem') (objects arr) (lastSeqOf mem s + length fresh)\<rparr>)\<rparr>"
    by (rule assignSeqsE [OF assms])
  have l: "stateOf mem' s = \<lparr>sq_last = lastSeqOf mem s + length fresh,
         sq_windowStart = headSeq (sm_seqs mem') (objects arr) (lastSeqOf mem s + length fresh)\<rparr>"
    unfolding stateOf_def [of mem'] by (subst m) simp
  then show "windowStartOf mem' s = headSeq (sm_seqs mem') (objects arr) (lastSeqOf mem' s)"
    by (simp add: windowStartOf_def lastSeqOf_def)
  show "sm_resets mem' = sm_resets mem - {s}" by (subst m) simp
qed

lemma assigned_numbersOk:
  assumes "assignSeqs strict mem s arr = (r, mem')" "distinct (objects arr)" "numbersOk mem s"
  shows "numbersOk mem' s"
proof (cases r)
  case (Inl c)
  then have "mem' = mem\<lparr>sm_resets := sm_resets mem - {s}\<rparr>"
    using assms(1) by (auto simp: assignSeqs_def Let_def case_prod_beta split: if_splits option.splits)
  then show ?thesis using assms(3) by (simp add: numbersOk_def stateOf_def lastSeqOf_def)
next
  case (Inr fresh)
  note a = assigned [OF assms(1) [unfolded Inr] assms(2)]
  have n: "1 \<le> n \<and> n \<le> lastSeqOf mem' s" if "sm_seqs mem' m = Some n" for m n
  proof (cases "m \<in> set fresh")
    case True
    then have "sm_seqs mem' m \<in> set (map (sm_seqs mem') fresh)" by simp
    then show ?thesis unfolding a(1) using that by auto
  next
    case False
    then have "sm_seqs mem m = Some n" using a(3) that by simp
    then have "1 \<le> n \<and> n \<le> lastSeqOf mem s" using assms(3) unfolding numbersOk_def by blast
    then show ?thesis using a(2) by simp
  qed
  have "seqStateOk (stateOf mem' s)"
  proof (cases "arr = None")
    case True
    then show ?thesis using assms Inr by (simp add: assignSeqs_def numbersOk_def)
  next
    case False
    have "1 \<le> windowStartOf mem' s \<and> windowStartOf mem' s \<le> lastSeqOf mem' s + 1"
      unfolding assigned_window [OF assms(1) [unfolded Inr] False]
      using n by (auto simp: headSeq_def split: list.splits option.splits dest: le_SucI)
    then show ?thesis by (simp add: seqStateOk_def windowStartOf_def lastSeqOf_def)
  qed
  then show ?thesis unfolding numbersOk_def using n by blast
qed

lemma firstGap_upt: "firstGap [a..<b] = None"
proof (induction "b - a" arbitrary: a)
  case (Suc k)
  then have a: "[a..<b] = a # [a + 1..<b]" by (simp add: upt_conv_Cons)
  have "firstGap (a # [a + 1..<b]) = None"
  proof (cases "a + 1 < b")
    case True
    then have n: "[a + 1..<b] = (a + 1) # [a + 1 + 1..<b]" by (simp add: upt_conv_Cons)
    have "firstGap [a + 1..<b] = None" by (rule Suc.hyps(1)) (use Suc.hyps(2) in simp)
    then show ?thesis unfolding n by simp
  qed simp
  then show ?case unfolding a .
qed simp

lemma upt_append: "a \<le> b \<Longrightarrow> b \<le> c \<Longrightarrow> [a..<b] @ [b..<c] = [a..<c]" for a b c :: nat
  by (metis upt_add_eq_append le_add_diff_inverse)

lemma map_upt_hd:
  assumes "map f xs = map Some [a..<b]" "xs \<noteq> []"
  shows "f (hd xs) = Some a"
proof -
  have "a < b" using assms by (cases "a < b") auto
  then show ?thesis using assms by (cases xs) (auto simp: upt_conv_Cons simp del: upt_Suc)
qed

lemma headSeq_numbered: "ms \<noteq> [] \<Longrightarrow> sq (hd ms) = Some n \<Longrightarrow> headSeq sq ms mx = n"
  by (cases ms) (simp_all add: headSeq_def)

lemma strict_numbers:
  assumes "assignSeqs True mem s arr = (Inr fresh, mem')" "distinct (objects arr)" "arr \<noteq> None" "numbersOk mem s"
  shows "map (sm_seqs mem') (objects arr) = map Some [windowStartOf mem' s..<lastSeqOf mem' s + 1]"
    and "windowStartOf mem s \<le> windowStartOf mem' s"
proof -
  note a = assigned [OF assms(1,2)] and w = assigned_window [OF assms(1,3)]
  let ?last = "lastSeqOf mem s"
  obtain known where k: "objects arr = known @ fresh" "strictCheck (sm_seqs mem) (stateOf mem s) (s \<in> sm_resets mem) (objects arr) = None"
      "known = takeWhile (numbered (sm_seqs mem)) (objects arr)"
    by (rule assignSeqsE [OF assms(1,3)]) blast
  have ws: "windowStartOf mem s \<le> ?last + 1"
    using assms(4) by (simp add: numbersOk_def seqStateOk_def windowStartOf_def lastSeqOf_def)
  have *: "map (sm_seqs mem') (objects arr) = map Some [windowStartOf mem' s..<lastSeqOf mem' s + 1] \<and>
      windowStartOf mem s \<le> windowStartOf mem' s"
  proof (cases "known = []")
    case True
    then have "windowStartOf mem' s = ?last + 1"
      unfolding w(1) k(1) using a(2) map_upt_hd [OF a(1)] headSeq_numbered [of fresh]
      by (cases "fresh = []") (simp_all add: headSeq_def)
    then show ?thesis using a(1) ws True k(1) by simp
  next
    case False
    have kn: "map (sm_seqs mem) known = map Some [?last + 1 - length known..<?last + 1] \<and>
        windowStartOf mem s + length known \<le> ?last + 1"
      using False strictCheck_None [OF k(2)] k(3) unfolding lastSeqOf_def windowStartOf_def by metis
    have "m \<notin> set fresh" if "m \<in> set known" for m using that assms(2) k(1) by auto
    then have "map (sm_seqs mem') known = map (sm_seqs mem) known" using a(3) by simp
    then have kn': "map (sm_seqs mem') known = map Some [?last + 1 - length known..<?last + 1]" using kn by simp
    have "sm_seqs mem' (hd (known @ fresh)) = Some (?last + 1 - length known)"
      using map_upt_hd [OF kn' False] False by simp
    then have "windowStartOf mem' s = ?last + 1 - length known"
      unfolding w(1) k(1) by (intro headSeq_numbered) (simp_all add: False)
    moreover have "map (sm_seqs mem') (objects arr) = map Some ([?last + 1 - length known..<?last + 1] @ [?last + 1..<lastSeqOf mem' s + 1])"
      unfolding k(1) map_append kn' a(1) ..
    moreover have "[?last + 1 - length known..<?last + 1] @ [?last + 1..<lastSeqOf mem' s + 1] =
        [?last + 1 - length known..<lastSeqOf mem' s + 1]"
      by (rule upt_append) (use a(2) in simp_all)
    moreover have "windowStartOf mem s \<le> ?last + 1 - length known" using kn by linarith
    ultimately show ?thesis by metis
  qed
  then show "map (sm_seqs mem') (objects arr) = map Some [windowStartOf mem' s..<lastSeqOf mem' s + 1]"
    and "windowStartOf mem s \<le> windowStartOf mem' s" by blast+
qed

lemma all_numbered:
  assumes "map sq ms = map Some [sq_windowStart st..<sq_last st + 1]" "seqStateOk st"
  shows "takeWhile (numbered sq) ms = ms" and "strictCheck sq st reset ms = None"
proof -
  have "numbered sq m" if "m \<in> set ms" for m
  proof -
    have "sq m \<in> set (map sq ms)" using that by simp
    then show ?thesis unfolding assms(1) by (auto simp: numbered_def)
  qed
  then show t: "takeWhile (numbered sq) ms = ms" by (simp add: takeWhile_eq_all_conv)
  have ns: "map (\<lambda>m. the (sq m)) ms = [sq_windowStart st..<sq_last st + 1]"
    using arg_cong [OF assms(1), of "map the"] by (simp add: comp_def del: upt_Suc)
  have "windowCheck st reset [sq_windowStart st..<sq_last st + 1] = None"
    using assms(2) by (auto simp: windowCheck_def firstGap_upt seqStateOk_def simp del: upt_Suc)
  then show "strictCheck sq st reset ms = None"
    unfolding strictCheck_def t Let_def by (simp add: ns del: upt_Suc)
qed

text \<open>Strict numbering: the numbers of a window run on without a gap.\<close>

theorem window_is_numbered_in_order:
  assumes "assignSeqs True mem s arr = (Inr fresh, mem')" "distinct (objects arr)" "arr \<noteq> None" "numbersOk mem s"
  shows "map (seqOf mem') (objects arr) = map Some [windowStartOf mem' s..<lastSeqOf mem' s + 1] \<and>
    windowStartOf mem s \<le> windowStartOf mem' s \<and> lastSeqOf mem' s = lastSeqOf mem s + length fresh \<and>
    (\<forall>m n. seqOf mem m = Some n \<longrightarrow> seqOf mem' m = Some n) \<and> assignSeqs True mem' s arr = (Inr [], mem')"
proof -
  note n = strict_numbers [OF assms] and a = assigned [OF assms(1,2)] and w = assigned_window [OF assms(1,3)]
  have ok: "seqStateOk (stateOf mem' s)" using assigned_numbersOk [OF assms(1,2,4)] by (simp add: numbersOk_def)
  note all = all_numbered [OF n(1) [unfolded windowStartOf_def lastSeqOf_def] ok]
  have st: "sm_states mem' s = Some (stateOf mem' s)"
  proof -
    obtain known where m: "mem' = mem\<lparr>sm_resets := sm_resets mem - {s}, sm_seqs := fst (number (sm_seqs mem) (lastSeqOf mem s) fresh),
       sm_states := (sm_states mem)(s := Some \<lparr>sq_last = lastSeqOf mem s + length fresh,
         sq_windowStart = headSeq (sm_seqs mem') (objects arr) (lastSeqOf mem s + length fresh)\<rparr>)\<rparr>"
      by (rule assignSeqsE [OF assms(1,3)])
    show ?thesis unfolding stateOf_def by (subst (1 2) m) simp
  qed
  have "\<lparr>sq_last = sq_last (stateOf mem' s), sq_windowStart = headSeq (sm_seqs mem') (objects arr) (sq_last (stateOf mem' s))\<rparr> =
      stateOf mem' s"
    using w(1) by (simp add: windowStartOf_def lastSeqOf_def)
  then have "(sm_states mem')(s := Some \<lparr>sq_last = sq_last (stateOf mem' s),
      sq_windowStart = headSeq (sm_seqs mem') (objects arr) (sq_last (stateOf mem' s))\<rparr>) = sm_states mem'"
    using st by (simp add: fun_upd_idem)
  moreover have "sm_resets mem' - {s} = sm_resets mem'" using w(2) by auto
  ultimately have "assignSeqs True mem' s arr = (Inr [], mem')"
    using assms(3) by (simp add: assignSeqs_def Let_def all freshFrom_def)
  moreover have "seqOf mem' m = Some k" if "seqOf mem m = Some k" for m k
    using that a(3,4) by (cases "m \<in> set fresh") (auto simp: seqOf_def)
  ultimately show ?thesis using n a(2) by (simp add: seqOf_def [abs_def])
qed

lemma demo_window:
  "assignSeqs True emptySeqMem 0 (Some [Some 4, None, Some 7]) = (Inr [4, 7], snd (assignSeqs True emptySeqMem 0 (Some [Some 4, None, Some 7])))"
proof -
  have "fst (assignSeqs True emptySeqMem 0 (Some [Some 4, None, Some 7])) = Inr [4, 7]" by code_simp
  then show ?thesis by (simp add: prod_eq_iff)
qed

lemma window_is_numbered_in_order_witness:
  "map (seqOf (snd (assignSeqs True emptySeqMem 0 (Some [Some 4, None, Some 7])))) [4, 7] = map Some [1..<3] \<and>
    assignSeqs True (snd (assignSeqs True emptySeqMem 0 (Some [Some 4, None, Some 7]))) 0 (Some [Some 4, None, Some 7]) =
      (Inr [], snd (assignSeqs True emptySeqMem 0 (Some [Some 4, None, Some 7])))"
proof -
  have o: "objects (Some [Some 4, None, Some 7]) = [4, 7]" by code_simp
  have n: "numbersOk emptySeqMem 0" by (simp add: numbersOk_def emptySeqMem_def stateOf_def seqStateOk_def)
  have e: "windowStartOf (snd (assignSeqs True emptySeqMem 0 (Some [Some 4, None, Some 7]))) 0 = 1"
    "lastSeqOf (snd (assignSeqs True emptySeqMem 0 (Some [Some 4, None, Some 7]))) 0 + 1 = 3" by code_simp+
  show ?thesis using window_is_numbered_in_order [OF demo_window _ _ n, unfolded o e] by simp
qed

end
