(* ===== verification/StoreQueue.thy ===== *)
theory StoreQueue
  imports StoreRows StoreSeq OutboundRepo InboxRepo JobsRepo
begin

text \<open>
  The write queue of one conversation (\<open>src/store/pg-backend.ts\<close>): what is queued, the snapshot a flush
  takes, the statements of its transaction, and what the answer changes. The repository statements are
  those of \<open>src/db/repo/conversations.ts\<close> and \<open>messages.ts\<close>. The conversation row and the messages are kept
  as tables, because the code reads them back; the rows a transaction writes to other tables are kept as
  the log of these writes, in the order of the statements. A \<open>randomUUID\<close> is the next number of a counter.
\<close>

section \<open>Errors\<close>

text \<open>
  The errors the classification looks at: the store's own, a driver error with a code, a \<open>TypeError\<close>,
  \<open>RangeError\<close> or \<open>SyntaxError\<close> without one, anything else without one.
\<close>

datatype store_error = EConflict | EWindow | EProjection projection_error | ECode string | EPlain | EOther

datatype error_class = ClConflict | ClData | ClRetry

definition sqlState :: "string \<Rightarrow> bool" where
  "sqlState c \<longleftrightarrow> length c = 5 \<and> list_all (\<lambda>x. x \<in> set ''0123456789ABCDEFGHIJKLMNOPQRSTUVWXYZ'') c"

fun classify :: "store_error \<Rightarrow> error_class" where
  "classify EConflict = ClConflict"
| "classify EWindow = ClData"
| "classify (EProjection _) = ClData"
| "classify (ECode c) = (if sqlState c \<and> take 2 c \<in> {''22'', ''23'', ''42''} then ClData else ClRetry)"
| "classify EPlain = ClData"
| "classify EOther = ClRetry"

text \<open>The pause before the \<open>n\<close>th retry.\<close>

definition RETRY_MS :: "nat list" where
  "RETRY_MS = [1000, 5000, 30000, 120000]"

definition retryDelay :: "nat \<Rightarrow> nat" where
  "retryDelay attempts = RETRY_MS ! min (attempts - 1) (length RETRY_MS - 1)"

section \<open>Rows that go with a flush\<close>

record attachment_item =
  ai_row :: jstext
  ai_bytes :: "jstext option"

record side_rows =
  sr_attachments :: "attachment_item list"
  sr_attachmentResults :: "jstext list"
  sr_audits :: "jstext list"
  sr_jobs :: "job_op list"
  sr_consents :: "jstext list"

definition noSide :: side_rows where
  "noSide = \<lparr>sr_attachments = [], sr_attachmentResults = [], sr_audits = [], sr_jobs = [], sr_consents = []\<rparr>"

definition rowSide :: "side_rows \<Rightarrow> side_rows \<Rightarrow> side_rows" where
  "rowSide a b =
     \<lparr>sr_attachments = sr_attachments a @ sr_attachments b, sr_attachmentResults = sr_attachmentResults a @ sr_attachmentResults b,
      sr_audits = sr_audits a @ sr_audits b, sr_jobs = sr_jobs a @ sr_jobs b, sr_consents = sr_consents a @ sr_consents b\<rparr>"

record telemetry_rows =
  tl_traces :: "jstext list"
  tl_guards :: "jstext list"
  tl_outbound :: "outbound_write list"

definition emptyTelemetry :: telemetry_rows where
  "emptyTelemetry = \<lparr>tl_traces = [], tl_guards = [], tl_outbound = []\<rparr>"

definition hasTelemetry :: "telemetry_rows \<Rightarrow> bool" where
  "hasTelemetry t \<longleftrightarrow> tl_traces t \<noteq> [] \<or> tl_guards t \<noteq> [] \<or> tl_outbound t \<noteq> []"

text \<open>A batch of channel rows: outbound rows of the main transaction, inbound changes, outbound results.\<close>

record channel_rows =
  kr_outbound :: "outbound_write list"
  kr_inbox :: "inbox_state_write list"
  kr_results :: "outbound_write list"

definition emptyChannelRows :: channel_rows where
  "emptyChannelRows = \<lparr>kr_outbound = [], kr_inbox = [], kr_results = []\<rparr>"

definition hasChannelRows :: "channel_rows \<Rightarrow> bool" where
  "hasChannelRows r \<longleftrightarrow> kr_outbound r \<noteq> [] \<or> kr_inbox r \<noteq> [] \<or> kr_results r \<noteq> []"

definition concatChannelRows :: "channel_rows \<Rightarrow> channel_rows \<Rightarrow> channel_rows" where
  "concatChannelRows a b =
     \<lparr>kr_outbound = kr_outbound a @ kr_outbound b, kr_inbox = kr_inbox a @ kr_inbox b, kr_results = kr_results a @ kr_results b\<rparr>"

definition isDbAccountRow :: "outbound_write \<Rightarrow> bool" where
  "isDbAccountRow r \<longleftrightarrow> ow_accountId r \<noteq> None \<and> ow_accountId r \<noteq> Some []"

text \<open>A domain event, as far as the store looks at it: a hand-over that started, or another one.\<close>

datatype domain_event = HandoffStarted nat | OtherEvent nat

section \<open>The database of one conversation\<close>

record conv_row =
  rw_values :: conv_values
  rw_lastSeq :: nat
  rw_windowStart :: nat
  rw_flushId :: "nat option"
  rw_ref :: nat

record conv_seqs =
  qs_lastSeq :: nat
  qs_windowStart :: nat
  qs_flushId :: "nat option"

datatype side_stmt =
  SAttachment attachment_item | SAttachmentResult jstext | SAudit jstext | SJob job_op | SConsent jstext | SOrder order_values

datatype channel_stmt = SOutbound outbound_write | SInbox inbox_state_write

datatype soft_stmt = STrace jstext | SGuard jstext | SResult outbound_write

record store_db =
  sd_conv :: "conv_row option"
  sd_messages :: "message_values list"
  sd_side :: "side_stmt list"
  sd_channel :: "channel_stmt list"
  sd_soft :: "soft_stmt list"

definition lockConversation :: "store_db \<Rightarrow> conv_seqs option" where
  "lockConversation db =
     map_option (\<lambda>r. \<lparr>qs_lastSeq = rw_lastSeq r, qs_windowStart = rw_windowStart r, qs_flushId = rw_flushId r\<rparr>) (sd_conv db)"

text \<open>\<open>on conflict do nothing\<close>: \<open>None\<close> when the row is there.\<close>

definition insertConversation :: "store_db \<Rightarrow> conv_values \<Rightarrow> nat \<Rightarrow> store_db option" where
  "insertConversation db vals ref =
     (case sd_conv db of
        Some _ \<Rightarrow> None
      | None \<Rightarrow> Some (db\<lparr>sd_conv := Some \<lparr>rw_values = vals, rw_lastSeq = 0, rw_windowStart = 1, rw_flushId = None, rw_ref = ref\<rparr>\<rparr>))"

text \<open>The primary key is the number, which is positive.\<close>

definition insertMessages :: "store_db \<Rightarrow> message_values list \<Rightarrow> store_error + store_db" where
  "insertMessages db rows =
     (if \<not> distinct (map mv_seq (sd_messages db @ rows)) then Inl (ECode ''23505'')
      else if 0 \<in> set (map mv_seq rows) then Inl (ECode ''23514'')
      else Inr (db\<lparr>sd_messages := sd_messages db @ rows\<rparr>))"

text \<open>The check on the window, and the trigger that keeps \<open>updated_at\<close> from going back.\<close>

definition updateConversation :: "store_db \<Rightarrow> conv_values \<Rightarrow> conv_seqs \<Rightarrow> store_error + store_db" where
  "updateConversation db vals q =
     (case sd_conv db of
        None \<Rightarrow> Inr db
      | Some r \<Rightarrow>
          if qs_windowStart q < 1 \<or> qs_windowStart q > qs_lastSeq q + 1 then Inl (ECode ''23514'')
          else Inr (db\<lparr>sd_conv := Some \<lparr>
            rw_values = vals\<lparr>cvl_createdAt := cvl_createdAt (rw_values r),
                              cvl_updatedAt := max (cvl_updatedAt (rw_values r)) (cvl_updatedAt vals)\<rparr>,
            rw_lastSeq = qs_lastSeq q, rw_windowStart = qs_windowStart q, rw_flushId = qs_flushId q, rw_ref = rw_ref r\<rparr>\<rparr>))"

definition readMessagesFrom :: "store_db \<Rightarrow> nat \<Rightarrow> message_values list" where
  "readMessagesFrom db seq = sort_key mv_seq (filter (\<lambda>m. mv_seq m \<ge> seq) (sd_messages db))"

definition sideStmts :: "side_rows \<Rightarrow> side_stmt list" where
  "sideStmts s = map SAttachment (sr_attachments s) @ map SAttachmentResult (sr_attachmentResults s) @ map SAudit (sr_audits s) @
     map SJob (sr_jobs s) @ map SConsent (sr_consents s)"

text \<open>The ids of the reported status changes that hit, given which rows of the job table do.\<close>

definition appliedJobs :: "(nat \<Rightarrow> bool) \<Rightarrow> job_op list \<Rightarrow> nat list" where
  "appliedJobs hits ops = concat (map (\<lambda>j. case j of OpStatus i st opts report \<Rightarrow> if hits i \<and> report then [i] else [] | _ \<Rightarrow> []) ops)"

definition writeSideRows :: "(nat \<Rightarrow> bool) \<Rightarrow> store_db \<Rightarrow> side_rows \<Rightarrow> store_db \<times> nat list" where
  "writeSideRows hits db side = (db\<lparr>sd_side := sd_side db @ sideStmts side\<rparr>, appliedJobs hits (sr_jobs side))"

text \<open>
  A batch of channel rows: main rows and inbound changes in the transaction, results in a savepoint
  (\<open>ok\<close>: whether it went through).
\<close>

definition writeChannelRows :: "bool \<Rightarrow> store_db \<Rightarrow> channel_rows \<Rightarrow> store_db" where
  "writeChannelRows ok db rows =
     db\<lparr>sd_channel := sd_channel db @ map SOutbound (kr_outbound rows) @ map SInbox (kr_inbox rows),
        sd_soft := sd_soft db @ (if ok then map SResult (kr_results rows) else [])\<rparr>"

section \<open>The queue\<close>

record snap =
  sn_flushId :: nat
  sn_gen :: nat
  sn_baseSeq :: nat
  sn_lastSeq :: nat
  sn_windowStart :: nat
  sn_messages :: "message_values list"
  sn_values :: conv_values
  sn_orders :: "order_values list"
  sn_side :: side_rows
  sn_telemetry :: telemetry_rows
  sn_channel :: "outbound_write list"
  sn_inbox :: "inbox_state_write list"
  sn_events :: "domain_event list"
  sn_applied :: "nat list"
  sn_dead :: bool

record voided_order =
  vo_order :: payload
  vo_at :: rat
  vo_reason :: string

record entry =
  en_ref :: nat
  en_inDb :: bool
  en_committedSeq :: nat
  en_pending :: "nat list"
  en_gen :: nat
  en_committedGen :: nat
  en_inflight :: "snap option"
  en_kickQueued :: bool
  en_purgeHeld :: bool
  en_attempts :: nat
  en_timer :: bool
  en_poisoned :: "store_error option"
  en_orderIds :: "jstext list"
  en_voids :: "(jstext, voided_order) jsmap"
  en_side :: side_rows
  en_telemetry :: telemetry_rows
  en_channel :: "outbound_write list"
  en_inbox :: "inbox_state_write list"
  en_events :: "domain_event list"
  en_pc :: channel_rows
  en_pcRun :: "channel_rows option"
  en_pcTimer :: bool
  en_pcKick :: bool
  en_waiters :: "(nat \<times> nat) list"
  en_msgids :: "jstext list"
  en_applied :: "nat list"

text \<open>
  Where the transaction of the flush in flight is: at the server, ready to commit with what it would make
  of the database, committed, failed, or rolled back because it found itself committed already.
\<close>

datatype tx_state =
  TxNone | TxRunning | TxReady store_db | TxDone | TxFailed store_error | TxRecognized

text \<open>What the store hands to others: events, resolved and rejected flushes, rows reported as committed.\<close>

record store_out =
  so_committed :: "domain_event list"
  so_unsaved :: "domain_event list"
  so_resolved :: "nat list"
  so_rejected :: "nat list"
  so_outbound :: "outbound_write list"

record proc =
  pr_mem :: seq_mem
  pr_heap :: "nat \<Rightarrow> payload"
  pr_nextRef :: nat
  pr_state :: payload
  pr_messages :: messages_array
  pr_orders :: "(jstext, payload) jsmap"
  pr_voided :: "jstext list"
  pr_entry :: "entry option"
  pr_conflict :: bool
  pr_closed :: bool
  pr_writable :: bool
  pr_tx :: tx_state
  pr_pcServed :: bool
  pr_uuid :: nat
  pr_out :: store_out

text \<open>The session object is reference 0 of its own kind.\<close>

definition SELF :: nat where "SELF = 0"

definition newEntry :: "nat \<Rightarrow> bool \<Rightarrow> nat \<Rightarrow> jstext list \<Rightarrow> entry" where
  "newEntry ref inDb committedSeq msgids =
     \<lparr>en_ref = ref, en_inDb = inDb, en_committedSeq = committedSeq, en_pending = [], en_gen = 0, en_committedGen = 0,
      en_inflight = None, en_kickQueued = False, en_purgeHeld = False, en_attempts = 0, en_timer = False,
      en_poisoned = None, en_orderIds = [], en_voids = [], en_side = noSide, en_telemetry = emptyTelemetry,
      en_channel = [], en_inbox = [], en_events = [], en_pc = emptyChannelRows, en_pcRun = None, en_pcTimer = False,
      en_pcKick = False, en_waiters = [], en_msgids = msgids, en_applied = []\<rparr>"

definition isDirty :: "entry \<Rightarrow> bool" where
  "isDirty e \<longleftrightarrow> en_gen e \<noteq> en_committedGen e"

definition modEntry :: "(entry \<Rightarrow> entry) \<Rightarrow> proc \<Rightarrow> proc" where
  "modEntry f p = p\<lparr>pr_entry := map_option f (pr_entry p)\<rparr>"

definition modOut :: "(store_out \<Rightarrow> store_out) \<Rightarrow> proc \<Rightarrow> proc" where
  "modOut f p = p\<lparr>pr_out := f (pr_out p)\<rparr>"

text \<open>
  \<open>entryOf\<close>: a new queue numbers from 1. Messages of the window that have a number count as not
  committed, and orders of the session left in the file are adopted.
\<close>

definition orderOfSession :: "proc \<Rightarrow> payload \<Rightarrow> bool" where
  "orderOfSession p od \<longleftrightarrow> jget od (js ''sessionId'') = jget (pr_state p) idKey"

definition entryOf :: "proc \<Rightarrow> proc" where
  "entryOf p =
     (case pr_entry p of
        Some _ \<Rightarrow> p
      | None \<Rightarrow> p\<lparr>pr_entry := Some ((newEntry (pr_uuid p) False 0 [])
          \<lparr>en_pending := filter (numbered (sm_seqs (pr_mem p))) (objects (pr_messages p)),
           en_orderIds := map fst (filter (\<lambda>e. orderOfSession p (snd e) \<and> fst e \<notin> set (pr_voided p)) (pr_orders p))\<rparr>),
         pr_uuid := pr_uuid p + 1\<rparr>)"

definition change :: "proc \<Rightarrow> proc" where
  "change p = modEntry (\<lambda>e. e\<lparr>en_gen := en_gen e + 1, en_kickQueued := True\<rparr>) p"

section \<open>Poisoned conversations\<close>

definition handoffs :: "domain_event list \<Rightarrow> domain_event list" where
  "handoffs evs = filter (\<lambda>v. case v of HandoffStarted _ \<Rightarrow> True | OtherEvent _ \<Rightarrow> False) evs"

definition deliverHandoffUnsaved :: "domain_event list \<Rightarrow> proc \<Rightarrow> proc" where
  "deliverHandoffUnsaved evs = modOut (\<lambda>w. w\<lparr>so_unsaved := so_unsaved w @ handoffs evs\<rparr>)"

definition rejectWaiters :: "proc \<Rightarrow> proc" where
  "rejectWaiters p =
     (case pr_entry p of
        None \<Rightarrow> p
      | Some e \<Rightarrow> modEntry (\<lambda>e. e\<lparr>en_waiters := []\<rparr>)
          (modOut (\<lambda>w. w\<lparr>so_rejected := so_rejected w @ map fst (en_waiters e)\<rparr>) p))"

definition kickPoisoned :: "proc \<Rightarrow> proc" where
  "kickPoisoned = modEntry (\<lambda>e. e\<lparr>en_pcKick := True\<rparr>)"

definition appendPoisoned :: "channel_rows \<Rightarrow> bool \<Rightarrow> proc \<Rightarrow> proc" where
  "appendPoisoned rows front p =
     (if \<not> hasChannelRows rows then p
      else kickPoisoned (modEntry (\<lambda>e. e\<lparr>en_pc := if front then concatChannelRows rows (en_pc e) else concatChannelRows (en_pc e) rows\<rparr>) p))"

text \<open>The channel rows among queued rows or in a snapshot, and what is left without them.\<close>

definition channelRowsOfEntry :: "entry \<Rightarrow> channel_rows" where
  "channelRowsOfEntry e =
     \<lparr>kr_outbound = en_channel e, kr_inbox = en_inbox e, kr_results = filter isDbAccountRow (tl_outbound (en_telemetry e))\<rparr>"

definition channelRowsOfSnap :: "snap \<Rightarrow> channel_rows" where
  "channelRowsOfSnap s =
     \<lparr>kr_outbound = sn_channel s, kr_inbox = sn_inbox s, kr_results = filter isDbAccountRow (tl_outbound (sn_telemetry s))\<rparr>"

definition withoutChannelRows :: "snap \<Rightarrow> snap" where
  "withoutChannelRows s = s\<lparr>sn_channel := [], sn_inbox := []\<rparr>"

definition poison :: "store_error \<Rightarrow> proc \<Rightarrow> proc" where
  "poison err p =
     (case pr_entry p of
        None \<Rightarrow> p
      | Some e \<Rightarrow>
          if en_poisoned e \<noteq> None then p
          else
            let p1 = modEntry (\<lambda>e. e\<lparr>en_poisoned := Some err, en_channel := [], en_inbox := [], en_telemetry := emptyTelemetry\<rparr>) p
            in kickPoisoned (deliverHandoffUnsaved (en_events e) (rejectWaiters (appendPoisoned (channelRowsOfEntry e) False p1))))"

text \<open>Starting the short transaction of a poisoned conversation.\<close>

definition pumpPoisoned :: "proc \<Rightarrow> proc" where
  "pumpPoisoned p =
     (case pr_entry p of
        None \<Rightarrow> p
      | Some e \<Rightarrow>
          if en_poisoned e = None \<or> en_pcRun e \<noteq> None \<or> en_pcTimer e \<or> \<not> hasChannelRows (en_pc e) then p
          else if pr_closed p \<or> pr_conflict p then p
          else if (case en_inflight e of Some s \<Rightarrow> \<not> sn_dead s | None \<Rightarrow> False) then p
          else (modEntry (\<lambda>e. e\<lparr>en_pcRun := Some (en_pc e), en_pc := emptyChannelRows\<rparr>) p)\<lparr>pr_pcServed := False\<rparr>)"

text \<open>
  How it ended: written, refused or failed with an error that is worth a retry, failed with one that is not.
\<close>

datatype pc_result = PcWritten | PcData | PcRetry

definition runPoisoned :: "pc_result \<Rightarrow> proc \<Rightarrow> proc" where
  "runPoisoned r p =
     (case pr_entry p of
        None \<Rightarrow> p
      | Some e \<Rightarrow>
     (case en_pcRun e of
        None \<Rightarrow> p
      | Some rows \<Rightarrow>
          let p1 = modEntry (\<lambda>e. e\<lparr>en_pcRun := None\<rparr>) p in
          (case r of
             PcWritten \<Rightarrow> pumpPoisoned (modOut (\<lambda>w. w\<lparr>so_outbound := so_outbound w @ kr_outbound rows\<rparr>) p1)
           | PcData \<Rightarrow> pumpPoisoned p1
           | PcRetry \<Rightarrow>
               modEntry (\<lambda>e. e\<lparr>en_pc := concatChannelRows rows (en_pc e),
                               en_pcTimer := \<not> pr_closed p \<and> \<not> pr_conflict p\<rparr>) p1)))"

section \<open>A flush\<close>

fun projectAll :: "('a \<Rightarrow> 'e + 'b) \<Rightarrow> 'a list \<Rightarrow> 'e + 'b list" where
  "projectAll f [] = Inr []"
| "projectAll f (x # xs) =
     (case f x of Inl err \<Rightarrow> Inl err
      | Inr y \<Rightarrow> (case projectAll f xs of Inl err \<Rightarrow> Inl err | Inr ys \<Rightarrow> Inr (y # ys)))"

definition voidRow :: "voided_order \<Rightarrow> projection_error + order_values" where
  "voidRow v = orderToRow (vo_order v) (Some (vo_at v, vo_reason v))"

definition liveOrders :: "proc \<Rightarrow> entry \<Rightarrow> payload list" where
  "liveOrders p e =
     concat (map (\<lambda>i. if i \<in> set (pr_voided p) then [] else case jget (pr_orders p) i of None \<Rightarrow> [] | Some od \<Rightarrow> [od]) (en_orderIds e))"

definition messageRow :: "proc \<Rightarrow> nat \<Rightarrow> projection_error + message_values" where
  "messageRow p m = messageToRow (pr_heap p m) (case seqOf (pr_mem p) m of None \<Rightarrow> 0 | Some n \<Rightarrow> n) (turnIdOf (pr_mem p) m)"

definition sessionValues :: "proc \<Rightarrow> projection_error + conv_values" where
  "sessionValues p =
     conversationValuesFrom (sessionState (pr_state p)) (lastCustomerAtOf (map (pr_heap p) (objects (pr_messages p))))"

text \<open>The snapshot of a flush and the queue without what it took.\<close>

definition takeSnapshot :: "proc \<Rightarrow> entry \<Rightarrow> store_error + snap \<times> entry" where
  "takeSnapshot p e =
     (let mx = lastSeqOf (pr_mem p) SELF;
          tail = (if en_pending e = [] then Some (en_committedSeq e) else seqOf (pr_mem p) (last (en_pending e))) in
      if tail \<noteq> Some mx then Inl EWindow
      else case projectAll (\<lambda>od. orderToRow od None) (liveOrders p e) of Inl err \<Rightarrow> Inl (EProjection err) | Inr live \<Rightarrow>
     (case projectAll voidRow (map snd (en_voids e)) of Inl err \<Rightarrow> Inl (EProjection err) | Inr voids \<Rightarrow>
     (case projectAll (messageRow p) (en_pending e) of Inl err \<Rightarrow> Inl (EProjection err) | Inr msgs \<Rightarrow>
     (case sessionValues p of Inl err \<Rightarrow> Inl (EProjection err) | Inr vals \<Rightarrow>
        Inr (\<lparr>sn_flushId = pr_uuid p, sn_gen = en_gen e, sn_baseSeq = en_committedSeq e, sn_lastSeq = mx,
              sn_windowStart = windowStartOf (pr_mem p) SELF, sn_messages = msgs, sn_values = vals, sn_orders = live @ voids,
              sn_side = en_side e, sn_telemetry = en_telemetry e, sn_channel = en_channel e, sn_inbox = en_inbox e,
              sn_events = en_events e, sn_applied = [], sn_dead = False\<rparr>,
             e\<lparr>en_orderIds := [], en_voids := [], en_side := noSide, en_telemetry := emptyTelemetry, en_channel := [],
               en_inbox := [], en_events := []\<rparr>)))))"

definition kick :: "proc \<Rightarrow> proc" where
  "kick p =
     (case pr_entry p of
        None \<Rightarrow> p
      | Some e \<Rightarrow>
          if pr_closed p \<or> pr_conflict p \<or> en_poisoned e \<noteq> None \<or> en_inflight e \<noteq> None \<or> en_purgeHeld e \<or> \<not> isDirty e \<or>
             \<not> pr_writable p then p
          else case takeSnapshot p e of
                 Inl err \<Rightarrow> poison err p
               | Inr (s, e') \<Rightarrow> p\<lparr>pr_entry := Some (e'\<lparr>en_inflight := Some s\<rparr>), pr_tx := TxRunning, pr_uuid := pr_uuid p + 1\<rparr>)"

text \<open>
  Steps 2 to 6. The lock may have to wait for a transaction that was ready to commit when the connection
  of an earlier attempt broke: \<open>db\<close> is the database the first lock sees, \<open>later\<close> the one after that
  transaction ended, which the insertion of a row waits for.
\<close>

record tx_env =
  te_hits :: "nat \<Rightarrow> bool"
  te_soft :: bool

datatype flush_result = FlushFails store_error | FlushAlready | FlushWrites store_db "nat list"

definition writeLocked :: "tx_env \<Rightarrow> store_db \<Rightarrow> conv_seqs \<Rightarrow> snap \<Rightarrow> flush_result" where
  "writeLocked env db cur s =
     (if qs_flushId cur = Some (sn_flushId s)
      then (if qs_lastSeq cur = sn_lastSeq s then FlushAlready else FlushFails EConflict)
      else if qs_lastSeq cur \<noteq> sn_baseSeq s then FlushFails EConflict
      else case insertMessages db (sn_messages s) of Inl err \<Rightarrow> FlushFails err | Inr d1 \<Rightarrow>
     (case updateConversation d1 (sn_values s)
             \<lparr>qs_lastSeq = sn_lastSeq s, qs_windowStart = sn_windowStart s, qs_flushId = Some (sn_flushId s)\<rparr> of
        Inl err \<Rightarrow> FlushFails err
      | Inr d2 \<Rightarrow>
          let d3 = d2\<lparr>sd_side := sd_side d2 @ map SOrder (sn_orders s)\<rparr>;
              (d4, applied) = writeSideRows (te_hits env) d3 (sn_side s);
              d5 = d4\<lparr>sd_channel := sd_channel d4 @ map SOutbound (sn_channel s) @ map SInbox (sn_inbox s)\<rparr>;
              t = sn_telemetry s;
              d6 = (if te_soft env
                    then d5\<lparr>sd_soft := sd_soft d5 @ map STrace (tl_traces t) @ map SGuard (tl_guards t) @ map SResult (tl_outbound t)\<rparr>
                    else d5)
          in FlushWrites d6 applied))"

definition writeSnap :: "tx_env \<Rightarrow> store_db \<Rightarrow> store_db \<Rightarrow> entry \<Rightarrow> snap \<Rightarrow> flush_result" where
  "writeSnap env db later e s =
     (case lockConversation db of
        Some cur \<Rightarrow> writeLocked env db cur s
      | None \<Rightarrow>
          if en_inDb e \<or> sn_baseSeq s \<noteq> 0 then FlushFails EConflict
          else case insertConversation later (sn_values s) (en_ref e) of
                 Some d \<Rightarrow> writeLocked env d \<lparr>qs_lastSeq = 0, qs_windowStart = 1, qs_flushId = None\<rparr> s
               | None \<Rightarrow>
                   (case lockConversation later of
                      None \<Rightarrow> FlushFails EConflict
                    | Some cur \<Rightarrow> writeLocked env later cur s))"

definition txOf :: "flush_result \<Rightarrow> tx_state" where
  "txOf r = (case r of FlushFails err \<Rightarrow> TxFailed err | FlushAlready \<Rightarrow> TxRecognized | FlushWrites d _ \<Rightarrow> TxReady d)"

text \<open>An attempt at the server; what its status changes hit is noted on the snapshot.\<close>

definition runAttempt :: "tx_env \<Rightarrow> store_db \<Rightarrow> store_db \<Rightarrow> proc \<Rightarrow> proc" where
  "runAttempt env db later p =
     (case pr_entry p of
        None \<Rightarrow> p
      | Some e \<Rightarrow>
     (case en_inflight e of
        None \<Rightarrow> p
      | Some s \<Rightarrow>
          let r = writeSnap env db later e s;
              s' = (case r of FlushWrites _ applied \<Rightarrow> s\<lparr>sn_applied := applied\<rparr> | _ \<Rightarrow> s)
          in p\<lparr>pr_entry := Some (e\<lparr>en_inflight := Some s'\<rparr>), pr_tx := txOf r\<rparr>))"

section \<open>The answer\<close>

text \<open>After the commit, or after it turned out that an earlier attempt had committed.\<close>

definition afterCommit :: "proc \<Rightarrow> proc" where
  "afterCommit p =
     (case pr_entry p of
        None \<Rightarrow> p
      | Some e \<Rightarrow>
     (case en_inflight e of
        None \<Rightarrow> p
      | Some s \<Rightarrow>
          let e1 = e\<lparr>en_inflight := None, en_attempts := 0, en_inDb := True, en_committedSeq := sn_lastSeq s,
                     en_pending := filter (\<lambda>m. (case seqOf (pr_mem p) m of None \<Rightarrow> 0 | Some n \<Rightarrow> n) > sn_lastSeq s) (en_pending e),
                     en_committedGen := sn_gen s, en_applied := en_applied e @ sn_applied s,
                     en_waiters := filter (\<lambda>w. snd w > sn_gen s) (en_waiters e)\<rparr>;
              p1 = (modOut (\<lambda>w. w\<lparr>so_outbound := so_outbound w @ sn_channel s, so_committed := so_committed w @ sn_events s,
                         so_resolved := so_resolved w @ map fst (filter (\<lambda>w. snd w \<le> sn_gen s) (en_waiters e))\<rparr>)
                     (p\<lparr>pr_entry := Some e1, pr_tx := TxNone\<rparr>));
              p2 = kick p1
          in if en_poisoned e1 \<noteq> None then kickPoisoned p2 else p2))"

definition failed :: "store_error \<Rightarrow> proc \<Rightarrow> proc" where
  "failed err p =
     (case pr_entry p of
        None \<Rightarrow> p
      | Some e \<Rightarrow>
     (case en_inflight e of
        None \<Rightarrow> p
      | Some s \<Rightarrow>
          let p0 = p\<lparr>pr_tx := TxNone\<rparr> in
          (case classify err of
             ClConflict \<Rightarrow> if pr_conflict p then p0 else rejectWaiters (p0\<lparr>pr_conflict := True\<rparr>)
           | ClData \<Rightarrow>
               let rows = channelRowsOfSnap s;
                   p1 = modEntry (\<lambda>e. e\<lparr>en_inflight := Some ((withoutChannelRows s)\<lparr>sn_dead := True, sn_telemetry := emptyTelemetry\<rparr>)\<rparr>) p0;
                   p2 = deliverHandoffUnsaved (sn_events s) (appendPoisoned rows True p1)
               in kickPoisoned (poison err p2)
           | ClRetry \<Rightarrow>
               let p1 = deliverHandoffUnsaved (sn_events s @ en_events e) p0
               in if pr_closed p then p1 else modEntry (\<lambda>e. e\<lparr>en_attempts := en_attempts e + 1, en_timer := True\<rparr>) p1)))"

text \<open>The retry timer fires: the same snapshot again.\<close>

definition retryTimer :: "proc \<Rightarrow> proc" where
  "retryTimer p =
     (case pr_entry p of
        None \<Rightarrow> p
      | Some e \<Rightarrow>
          if \<not> en_timer e then p
          else let p1 = modEntry (\<lambda>e. e\<lparr>en_timer := False\<rparr>) p
               in if \<not> pr_closed p \<and> \<not> pr_conflict p \<and> pr_writable p then p1\<lparr>pr_tx := TxRunning\<rparr> else p1)"

end
