(* ===== verification/StoreOps.thy ===== *)
theory StoreOps
  imports StoreQueue
begin

text \<open>
  The operations of the store on one conversation (the object \<open>createBackend\<close> returns in
  \<open>src/store/pg-backend.ts\<close>): scheduling a save, queueing the rows that go with it, waiting for it, draining
  and closing.
\<close>

section \<open>Saving\<close>

definition customerMsgids :: "proc \<Rightarrow> nat list \<Rightarrow> jstext list" where
  "customerMsgids p ms =
     concat (map (\<lambda>m. case jget (pr_heap p m) msgidK of
        Some (JStr i) \<Rightarrow> if jget (pr_heap p m) roleK = Some (JStr (js ''customer'')) then [i] else []
      | _ \<Rightarrow> []) ms)"

definition pushFresh :: "nat list \<Rightarrow> proc \<Rightarrow> proc" where
  "pushFresh fresh p =
     change (modEntry (\<lambda>e. e\<lparr>en_pending := en_pending e @ fresh, en_msgids := en_msgids e @ customerMsgids p fresh\<rparr>) p)"

definition lenientSave :: "proc \<Rightarrow> proc" where
  "lenientSave p =
     (case assignSeqs False (pr_mem p) SELF (pr_messages p) of
        (Inr fresh, mem) \<Rightarrow> pushFresh fresh (p\<lparr>pr_mem := mem\<rparr>)
      | (Inl _, mem) \<Rightarrow> p\<lparr>pr_mem := mem\<rparr>)"

definition schedule :: "proc \<Rightarrow> proc" where
  "schedule p0 =
     (let p = entryOf p0 in
      case pr_entry p of
        None \<Rightarrow> p
      | Some e \<Rightarrow>
          if en_poisoned e \<noteq> None then lenientSave p
          else (case assignSeqs True (pr_mem p) SELF (pr_messages p) of
                  (Inr fresh, mem) \<Rightarrow> pushFresh fresh (p\<lparr>pr_mem := mem\<rparr>)
                | (Inl c, mem) \<Rightarrow> lenientSave (poison EWindow (p\<lparr>pr_mem := mem\<rparr>))))"

definition scheduleOrder :: "jstext \<Rightarrow> proc \<Rightarrow> proc" where
  "scheduleOrder i p0 =
     (case jget (pr_orders p0) i of
        None \<Rightarrow> p0
      | Some od \<Rightarrow>
          let p = entryOf p0 in
          if \<not> orderOfSession p0 od then p0
          else if i \<in> set (pr_voided p) then p
          else change (modEntry (\<lambda>e. e\<lparr>en_orderIds := (if i \<in> set (en_orderIds e) then en_orderIds e else en_orderIds e @ [i])\<rparr>) p))"

text \<open>The caller removes the order from memory afterwards.\<close>

definition voidOrder :: "jstext \<Rightarrow> payload \<Rightarrow> rat \<Rightarrow> string \<Rightarrow> proc \<Rightarrow> proc" where
  "voidOrder i od now reason p0 =
     (let p = entryOf p0 in
      change (modEntry (\<lambda>e. e\<lparr>en_orderIds := filter (\<lambda>x. x \<noteq> i) (en_orderIds e),
          en_voids := jset (en_voids e) i \<lparr>vo_order = normalizeForStore od, vo_at = now, vo_reason = reason\<rparr>\<rparr>)
        (p\<lparr>pr_voided := i # pr_voided p\<rparr>)))"

section \<open>Rows that go with the next flush\<close>

definition isHandoff :: "domain_event \<Rightarrow> bool" where
  "isHandoff v = (case v of HandoffStarted _ \<Rightarrow> True | OtherEvent _ \<Rightarrow> False)"

definition emitAfterCommit :: "domain_event \<Rightarrow> proc \<Rightarrow> proc" where
  "emitAfterCommit v p0 =
     (let p = change (modEntry (\<lambda>e. e\<lparr>en_events := en_events e @ [v]\<rparr>) (entryOf p0)) in
      case pr_entry p of
        None \<Rightarrow> p
      | Some e \<Rightarrow>
          if isHandoff v \<and> (en_poisoned e \<noteq> None \<or> (en_inflight e \<noteq> None \<and> en_attempts e > 0))
          then deliverHandoffUnsaved [v] p else p)"

definition queueSide :: "(side_rows \<Rightarrow> side_rows) \<Rightarrow> proc \<Rightarrow> proc" where
  "queueSide f p = change (modEntry (\<lambda>e. e\<lparr>en_side := f (en_side e)\<rparr>) (entryOf p))"

definition queueAudit :: "jstext \<Rightarrow> proc \<Rightarrow> proc" where
  "queueAudit a = queueSide (\<lambda>s. s\<lparr>sr_audits := sr_audits s @ [a]\<rparr>)"

definition queueJobs :: "job_op list \<Rightarrow> proc \<Rightarrow> proc" where
  "queueJobs ops p = (if ops = [] then entryOf p else queueSide (\<lambda>s. s\<lparr>sr_jobs := sr_jobs s @ ops\<rparr>) p)"

definition queueConsents :: "jstext list \<Rightarrow> proc \<Rightarrow> proc" where
  "queueConsents cs p = (if cs = [] then entryOf p else queueSide (\<lambda>s. s\<lparr>sr_consents := sr_consents s @ cs\<rparr>) p)"

definition queueAttachment :: "attachment_item \<Rightarrow> proc \<Rightarrow> proc" where
  "queueAttachment a = queueSide (\<lambda>s. s\<lparr>sr_attachments := sr_attachments s @ [a]\<rparr>)"

definition queueAttachmentResult :: "jstext \<Rightarrow> proc \<Rightarrow> proc" where
  "queueAttachmentResult r = queueSide (\<lambda>s. s\<lparr>sr_attachmentResults := sr_attachmentResults s @ [r]\<rparr>)"

definition onEntry :: "(entry \<Rightarrow> proc \<Rightarrow> proc) \<Rightarrow> proc \<Rightarrow> proc" where
  "onEntry f p = (case pr_entry p of None \<Rightarrow> p | Some e \<Rightarrow> f e p)"

definition queueTelemetry :: "telemetry_rows \<Rightarrow> proc \<Rightarrow> proc" where
  "queueTelemetry t p =
     (if \<not> hasTelemetry t then entryOf p
      else onEntry (\<lambda>e q.
        if en_poisoned e \<noteq> None
        then appendPoisoned \<lparr>kr_outbound = [], kr_inbox = [], kr_results = filter isDbAccountRow (tl_outbound t)\<rparr> False q
        else change (modEntry (\<lambda>e. e\<lparr>en_telemetry :=
               \<lparr>tl_traces = tl_traces (en_telemetry e) @ tl_traces t, tl_guards = tl_guards (en_telemetry e) @ tl_guards t,
                tl_outbound = tl_outbound (en_telemetry e) @ tl_outbound t\<rparr>\<rparr>) q)) (entryOf p))"

definition queueChannel :: "outbound_write list \<Rightarrow> proc \<Rightarrow> proc" where
  "queueChannel rows p =
     (if rows = [] then entryOf p
      else onEntry (\<lambda>e q.
        if en_poisoned e \<noteq> None then appendPoisoned \<lparr>kr_outbound = rows, kr_inbox = [], kr_results = []\<rparr> False q
        else change (modEntry (\<lambda>e. e\<lparr>en_channel := en_channel e @ rows\<rparr>) q)) (entryOf p))"

definition queueInbox :: "inbox_state_write list \<Rightarrow> proc \<Rightarrow> proc" where
  "queueInbox writes p =
     (if writes = [] then entryOf p
      else onEntry (\<lambda>e q.
        if en_poisoned e \<noteq> None then appendPoisoned \<lparr>kr_outbound = [], kr_inbox = writes, kr_results = []\<rparr> False q
        else change (modEntry (\<lambda>e. e\<lparr>en_inbox := en_inbox e @ writes\<rparr>) q)) (entryOf p))"

text \<open>
  \<open>patchQueuedJob\<close>: fields put into the payload of the scheduled jobs with this key that are not committed,
  in the snapshot in flight and in the queue; the number of jobs.
\<close>

definition patchJobs :: "string \<Rightarrow> (job_payload \<Rightarrow> job_payload) \<Rightarrow> job_op list \<Rightarrow> job_op list" where
  "patchJobs key f = map (\<lambda>j. case j of
      OpEnqueue spec \<Rightarrow> if js_dedupeKey spec = key then OpEnqueue (spec\<lparr>js_payload := f (js_payload spec)\<rparr>) else j
    | _ \<Rightarrow> j)"

definition hasKey :: "string \<Rightarrow> job_op \<Rightarrow> bool" where
  "hasKey key j = (case j of OpEnqueue spec \<Rightarrow> js_dedupeKey spec = key | _ \<Rightarrow> False)"

definition patchQueuedJob :: "string \<Rightarrow> (job_payload \<Rightarrow> job_payload) \<Rightarrow> proc \<Rightarrow> nat \<times> proc" where
  "patchQueuedJob key f p =
     (case pr_entry p of
        None \<Rightarrow> (0, p)
      | Some e \<Rightarrow>
          let held = (case en_inflight e of None \<Rightarrow> [] | Some s \<Rightarrow> sr_jobs (sn_side s)) @ sr_jobs (en_side e);
              patch = (\<lambda>s. s\<lparr>sr_jobs := patchJobs key f (sr_jobs s)\<rparr>)
          in (length (filter (hasKey key) held),
              p\<lparr>pr_entry := Some (e\<lparr>en_inflight := map_option (\<lambda>s. s\<lparr>sn_side := patch (sn_side s)\<rparr>) (en_inflight e),
                                    en_side := patch (en_side e)\<rparr>)\<rparr>))"

definition jobOpApplied :: "nat \<Rightarrow> proc \<Rightarrow> bool \<times> proc" where
  "jobOpApplied i p =
     (case pr_entry p of
        None \<Rightarrow> (False, p)
      | Some e \<Rightarrow> (i \<in> set (en_applied e), p\<lparr>pr_entry := Some (e\<lparr>en_applied := filter (\<lambda>x. x \<noteq> i) (en_applied e)\<rparr>)\<rparr>))"

section \<open>Waiting, draining, closing\<close>

text \<open>\<open>flushSession\<close>: resolved or rejected at once, or a waiter for the changes made so far.\<close>

definition flushSession :: "nat \<Rightarrow> proc \<Rightarrow> proc" where
  "flushSession i p =
     (case pr_entry p of
        None \<Rightarrow> modOut (\<lambda>w. w\<lparr>so_resolved := so_resolved w @ [i]\<rparr>) p
      | Some e \<Rightarrow>
          if \<not> isDirty e then modOut (\<lambda>w. w\<lparr>so_resolved := so_resolved w @ [i]\<rparr>) p
          else if pr_conflict p \<or> en_poisoned e \<noteq> None then modOut (\<lambda>w. w\<lparr>so_rejected := so_rejected w @ [i]\<rparr>) p
          else modEntry (\<lambda>e. e\<lparr>en_waiters := en_waiters e @ [(i, en_gen e)]\<rparr>) p)"

definition flushTimeout :: "nat \<Rightarrow> proc \<Rightarrow> proc" where
  "flushTimeout i p =
     (case pr_entry p of
        None \<Rightarrow> p
      | Some e \<Rightarrow>
          if i \<in> fst ` set (en_waiters e)
          then modOut (\<lambda>w. w\<lparr>so_rejected := so_rejected w @ [i]\<rparr>)
                 (modEntry (\<lambda>e. e\<lparr>en_waiters := filter (\<lambda>w. fst w \<noteq> i) (en_waiters e)\<rparr>) p)
          else p)"

definition hasPendingWrite :: "proc \<Rightarrow> bool" where
  "hasPendingWrite p = (case pr_entry p of None \<Rightarrow> False | Some e \<Rightarrow> isDirty e \<or> en_inflight e \<noteq> None)"

text \<open>What \<open>drain\<close> starts: a waiting short transaction, a waiting retry, or a flush.\<close>

definition drainStart :: "proc \<Rightarrow> proc" where
  "drainStart p =
     (if pr_conflict p \<or> \<not> pr_writable p then p
      else case pr_entry p of
        None \<Rightarrow> p
      | Some e \<Rightarrow>
          if en_poisoned e \<noteq> None then pumpPoisoned (modEntry (\<lambda>e. e\<lparr>en_pcTimer := False\<rparr>) p)
          else if \<not> isDirty e then p
          else if en_timer e \<and> en_inflight e \<noteq> None then (modEntry (\<lambda>e. e\<lparr>en_timer := False\<rparr>) p)\<lparr>pr_tx := TxRunning\<rparr>
          else kick p)"

definition undrained :: "proc \<Rightarrow> bool" where
  "undrained p = (case pr_entry p of None \<Rightarrow> False | Some e \<Rightarrow> isDirty e)"

definition close :: "proc \<Rightarrow> proc" where
  "close p = modEntry (\<lambda>e. e\<lparr>en_timer := False, en_pcTimer := False\<rparr>) (p\<lparr>pr_closed := True\<rparr>)"

text \<open>\<open>holdForPurge\<close>: the generation at the hold, or nothing when the conversation is busy.\<close>

datatype purge_hold = HoldNone | HoldEmpty | HoldAt nat

definition holdForPurge :: "proc \<Rightarrow> purge_hold \<times> proc" where
  "holdForPurge p =
     (case pr_entry p of
        None \<Rightarrow> (HoldEmpty, p)
      | Some e \<Rightarrow>
          if en_poisoned e \<noteq> None \<or> isDirty e \<or> en_inflight e \<noteq> None then (HoldNone, p)
          else (HoldAt (en_gen e), modEntry (\<lambda>e. e\<lparr>en_purgeHeld := True\<rparr>) p))"

definition stillClean :: "purge_hold \<Rightarrow> proc \<Rightarrow> bool" where
  "stillClean h p =
     (case h of HoldAt g \<Rightarrow> (case pr_entry p of Some e \<Rightarrow> en_gen e = g | None \<Rightarrow> True) | _ \<Rightarrow> True)"

definition releaseHold :: "proc \<Rightarrow> proc" where
  "releaseHold p =
     onEntry (\<lambda>e q. if isDirty e then kick q else q) (modEntry (\<lambda>e. e\<lparr>en_purgeHeld := False\<rparr>) p)"

text \<open>The microtasks of a queue: the one that starts a flush, and the one that starts a short transaction.\<close>

definition kickTask :: "proc \<Rightarrow> proc" where
  "kickTask p = onEntry (\<lambda>e q. if en_kickQueued e then kick (modEntry (\<lambda>e. e\<lparr>en_kickQueued := False\<rparr>) q) else q) p"

definition pcTask :: "proc \<Rightarrow> proc" where
  "pcTask p = onEntry (\<lambda>e q. if en_pcKick e then pumpPoisoned (modEntry (\<lambda>e. e\<lparr>en_pcKick := False\<rparr>) q) else q) p"

definition pcTimerTask :: "proc \<Rightarrow> proc" where
  "pcTimerTask p = onEntry (\<lambda>e q. if en_pcTimer e then pumpPoisoned (modEntry (\<lambda>e. e\<lparr>en_pcTimer := False\<rparr>) q) else q) p"

end
