(* ===== verification/StoreReplay.thy ===== *)
theory StoreReplay
  imports StoreOps
begin

text \<open>
  Stopping and starting (\<open>spillSync\<close>, \<open>preload\<close>, \<open>replaySpills\<close>, \<open>openPgBackend\<close> and \<open>install\<close> of
  \<open>src/store/pg-backend.ts\<close>, \<open>rebuildSessions\<close> of \<open>src/store/project.ts\<close>), for one conversation: what a
  process that stops writes to its spill file, and how the next one reads the database and replays it.
\<close>

section \<open>The spill file\<close>

record spill_channel =
  sc_inbox :: "inbox_state_write list"
  sc_outbound :: "outbound_write list"

record spill_order =
  so_order :: payload
  so_voided :: "(rat \<times> string) option"

record spill_inflight =
  si_flushId :: nat
  si_lastSeq :: nat
  si_side :: side_rows
  si_channel :: spill_channel

record spill_entry =
  sp_ref :: nat
  sp_committedSeq :: nat
  sp_inflight :: "spill_inflight option"
  sp_channel :: spill_channel
  sp_flushId :: nat
  sp_lastSeq :: nat
  sp_windowStart :: nat
  sp_messages :: "(nat \<times> payload) list"
  sp_state :: payload
  sp_lastCustomerAt :: "jval option"
  sp_orders :: "spill_order list"
  sp_side :: side_rows
  sp_poisoned :: "store_error option"

definition MAIN_TX_OUTBOUND :: "outbound_status list" where
  "MAIN_TX_OUTBOUND = [OPending, OCancelled]"

definition spillChannelOf :: "channel_rows list \<Rightarrow> spill_channel" where
  "spillChannelOf parts =
     \<lparr>sc_inbox = concat (map kr_inbox parts), sc_outbound = concat (map kr_outbound parts) @ concat (map kr_results parts)\<rparr>"

definition mainTx :: "outbound_write \<Rightarrow> bool" where
  "mainTx r \<longleftrightarrow> ow_status r \<in> set MAIN_TX_OUTBOUND"

definition channelRowsOf :: "spill_channel list \<Rightarrow> channel_rows" where
  "channelRowsOf chs =
     \<lparr>kr_outbound = filter mainTx (concat (map sc_outbound chs)), kr_inbox = concat (map sc_inbox chs),
      kr_results = filter (\<lambda>r. \<not> mainTx r) (concat (map sc_outbound chs))\<rparr>"

definition withoutBytes :: "side_rows \<Rightarrow> side_rows" where
  "withoutBytes s = s\<lparr>sr_attachments := map (\<lambda>a. a\<lparr>ai_bytes := None\<rparr>) (sr_attachments s)\<rparr>"

text \<open>
  The orders of the file, by id: those of the flush in flight as they are in memory now (or as they were,
  when voided or gone), then the queued ones, then the queued voids.
\<close>

definition liveOrder :: "payload \<Rightarrow> spill_order" where
  "liveOrder od = \<lparr>so_order = normalizeForStore od, so_voided = None\<rparr>"

definition orderIdOf :: "order_values \<Rightarrow> jstext" where
  "orderIdOf r = (case ovl_id r of Some (JStr i) \<Rightarrow> i | _ \<Rightarrow> [])"

definition inflightOrder :: "proc \<Rightarrow> order_values \<Rightarrow> spill_order" where
  "inflightOrder p r =
     (let gone = \<lparr>so_order = ovl_data r, so_voided = map_option (\<lambda>(t, reason). (of_int t, reason)) (ovl_voided r)\<rparr> in
      if ovl_voided r \<noteq> None \<or> orderIdOf r \<in> set (pr_voided p) then gone
      else case jget (pr_orders p) (orderIdOf r) of None \<Rightarrow> gone | Some od \<Rightarrow> liveOrder od)"

definition spillOrders :: "proc \<Rightarrow> entry \<Rightarrow> spill_order list" where
  "spillOrders p e =
     (let m1 = foldl (\<lambda>m r. jset m (orderIdOf r) (inflightOrder p r)) []
                 (case en_inflight e of None \<Rightarrow> [] | Some s \<Rightarrow> sn_orders s);
          m2 = foldl (\<lambda>m i. if i \<in> set (pr_voided p) then m
                      else case jget (pr_orders p) i of None \<Rightarrow> m | Some od \<Rightarrow> jset m i (liveOrder od)) m1 (en_orderIds e);
          m3 = foldl (\<lambda>m v. jset m (fst v) \<lparr>so_order = vo_order (snd v), so_voided = Some (vo_at (snd v), vo_reason (snd v))\<rparr>)
                 m2 (en_voids e)
      in map snd m3)"

definition spillEntryOf :: "proc \<Rightarrow> entry \<Rightarrow> spill_entry" where
  "spillEntryOf p e =
     \<lparr>sp_ref = en_ref e, sp_committedSeq = en_committedSeq e,
      sp_inflight = map_option (\<lambda>s. \<lparr>si_flushId = sn_flushId s, si_lastSeq = sn_lastSeq s, si_side = withoutBytes (sn_side s),
                                 si_channel = spillChannelOf [channelRowsOfSnap s]\<rparr>) (en_inflight e),
      sp_channel = spillChannelOf [case en_pcRun e of None \<Rightarrow> emptyChannelRows | Some r \<Rightarrow> r, en_pc e, channelRowsOfEntry e],
      sp_flushId = pr_uuid p, sp_lastSeq = lastSeqOf (pr_mem p) SELF, sp_windowStart = windowStartOf (pr_mem p) SELF,
      sp_messages = map (\<lambda>m. (case seqOf (pr_mem p) m of None \<Rightarrow> 0 | Some n \<Rightarrow> n, normalizeForStore (pr_heap p m))) (en_pending e),
      sp_state = sessionState (pr_state p),
      sp_lastCustomerAt = lastCustomerAtOf (map (pr_heap p) (objects (pr_messages p))),
      sp_orders = spillOrders p e, sp_side = withoutBytes (en_side e), sp_poisoned = en_poisoned e\<rparr>"

definition spillSync :: "proc \<Rightarrow> spill_entry option" where
  "spillSync p =
     (case pr_entry p of
        None \<Rightarrow> None
      | Some e \<Rightarrow>
          if isDirty e \<or> hasChannelRows (en_pc e) \<or> en_pcRun e \<noteq> None then Some (spillEntryOf p e) else None)"

section \<open>Replaying it\<close>

definition inflightCommitted :: "spill_entry \<Rightarrow> conv_seqs option \<Rightarrow> bool" where
  "inflightCommitted f row =
     (case (sp_inflight f, row) of
        (Some i, Some q) \<Rightarrow> qs_flushId q = Some (si_flushId i) \<and> qs_lastSeq q = si_lastSeq i
      | _ \<Rightarrow> False)"

definition replayChannelOf :: "spill_entry \<Rightarrow> conv_seqs option \<Rightarrow> channel_rows option" where
  "replayChannelOf f row =
     (if (case row of None \<Rightarrow> False | Some q \<Rightarrow> qs_flushId q = Some (sp_flushId f)) then None
      else Some (channelRowsOf
        ((if inflightCommitted f row then [] else case sp_inflight f of None \<Rightarrow> [] | Some i \<Rightarrow> [si_channel i]) @ [sp_channel f])))"

text \<open>What the locked row decides: done already, no fit, compare the contents, or write from \<open>base\<close> on.\<close>

datatype replay_decision = RdSkipped | RdConflict | RdCompare | RdWrite nat side_rows

definition replayDecide :: "spill_entry \<Rightarrow> conv_seqs option \<Rightarrow> replay_decision" where
  "replayDecide f row =
     (if (case row of None \<Rightarrow> False | Some q \<Rightarrow> qs_flushId q = Some (sp_flushId f))
      then (if map_option qs_lastSeq row = Some (sp_lastSeq f) then RdSkipped else RdConflict)
      else if inflightCommitted f row then RdWrite (case sp_inflight f of None \<Rightarrow> 0 | Some i \<Rightarrow> si_lastSeq i) (sp_side f)
      else if (case row of None \<Rightarrow> 0 | Some q \<Rightarrow> qs_lastSeq q) = sp_committedSeq f \<and> (row \<noteq> None \<or> sp_committedSeq f = 0)
      then RdWrite (sp_committedSeq f) (case sp_inflight f of None \<Rightarrow> sp_side f | Some i \<Rightarrow> rowSide (si_side i) (sp_side f))
      else if map_option qs_lastSeq row = Some (sp_lastSeq f) \<and> sp_messages f \<noteq> [] then RdCompare
      else RdConflict)"

datatype replay_result = RApplied | RSkipped | RConflict

definition spillMessageRow :: "nat \<times> payload \<Rightarrow> projection_error + message_values" where
  "spillMessageRow m = messageToRow (snd m) (fst m) None"

definition spillOrderRow :: "spill_order \<Rightarrow> projection_error + order_values" where
  "spillOrderRow od = orderToRow (so_order od) (so_voided od)"

text \<open>The channel part goes in the same transaction; the flag says that there was one.\<close>

definition writeReplayChannel :: "bool \<Rightarrow> store_db \<Rightarrow> channel_rows option \<Rightarrow> store_db \<times> bool" where
  "writeReplayChannel ok db ch =
     (case ch of Some rows \<Rightarrow> if hasChannelRows rows then (writeChannelRows ok db rows, True) else (db, False) | None \<Rightarrow> (db, False))"

definition writeReplay ::
  "tx_env \<Rightarrow> store_db \<Rightarrow> spill_entry \<Rightarrow> nat \<Rightarrow> side_rows \<Rightarrow> channel_rows option \<Rightarrow> conv_values \<Rightarrow>
     store_error + store_db \<times> bool" where
  "writeReplay env db f base side ch vals =
     (case projectAll spillMessageRow (filter (\<lambda>m. fst m > base) (sp_messages f)) of Inl err \<Rightarrow> Inl (EProjection err) | Inr rows \<Rightarrow>
     (case insertMessages db rows of Inl err \<Rightarrow> Inl err | Inr d1 \<Rightarrow>
     (case updateConversation d1 vals \<lparr>qs_lastSeq = sp_lastSeq f, qs_windowStart = sp_windowStart f, qs_flushId = Some (sp_flushId f)\<rparr> of
        Inl err \<Rightarrow> Inl err | Inr d2 \<Rightarrow>
     (case projectAll spillOrderRow (sp_orders f) of Inl err \<Rightarrow> Inl (EProjection err) | Inr orders \<Rightarrow>
        let d3 = d2\<lparr>sd_side := sd_side d2 @ map SOrder orders\<rparr>
        in Inr (writeReplayChannel (te_soft env) (fst (writeSideRows (te_hits env) d3 side)) ch)))))"

definition compareReplay :: "tx_env \<Rightarrow> store_db \<Rightarrow> spill_entry \<Rightarrow> channel_rows option \<Rightarrow> store_error + replay_result \<times> bool \<times> store_db" where
  "compareReplay env db f ch =
     (case projectAll spillMessageRow (sp_messages f) of Inl err \<Rightarrow> Inl (EProjection err) | Inr rows \<Rightarrow>
        if map rowToMessage (readMessagesFrom db (fst (hd (sp_messages f)))) \<noteq> map rowToMessage rows
        then Inr (RConflict, False, db)
        else case writeReplayChannel (te_soft env) db ch of (d, wrote) \<Rightarrow> Inr (RSkipped, wrote, d))"

text \<open>What is done with the row that is locked at last; \<open>fresh\<close>: it has just been inserted.\<close>

definition replayLocked ::
  "tx_env \<Rightarrow> store_db \<Rightarrow> spill_entry \<Rightarrow> conv_seqs option \<Rightarrow> conv_values \<Rightarrow> store_error + replay_result \<times> bool \<times> store_db" where
  "replayLocked env db f row vals =
     (let ch = replayChannelOf f row in
      case replayDecide f row of
        RdSkipped \<Rightarrow> Inr (RSkipped, False, db)
      | RdConflict \<Rightarrow> Inr (RConflict, False, db)
      | RdCompare \<Rightarrow> compareReplay env db f ch
      | RdWrite base side \<Rightarrow>
          (case writeReplay env db f base side ch vals of
             Inl err \<Rightarrow> Inl err
           | Inr (d, wrote) \<Rightarrow> Inr (RApplied, wrote, d)))"

text \<open>\<open>db\<close> and \<open>later\<close> as in the transaction of a flush.\<close>

definition replayEntry :: "tx_env \<Rightarrow> store_db \<Rightarrow> store_db \<Rightarrow> spill_entry \<Rightarrow> store_error + replay_result \<times> bool \<times> store_db" where
  "replayEntry env db later f =
     (case lockConversation db of
        Some q \<Rightarrow>
          (case replayDecide f (Some q) of
             RdWrite base side \<Rightarrow>
               (case conversationValuesFrom (sp_state f) (sp_lastCustomerAt f) of
                  Inl err \<Rightarrow> Inl (EProjection err) | Inr vals \<Rightarrow> replayLocked env db f (Some q) vals)
           | RdSkipped \<Rightarrow> Inr (RSkipped, False, db)
           | RdConflict \<Rightarrow> Inr (RConflict, False, db)
           | RdCompare \<Rightarrow> compareReplay env db f (replayChannelOf f (Some q)))
      | None \<Rightarrow>
          (case replayDecide f None of
             RdWrite base side \<Rightarrow>
               (case conversationValuesFrom (sp_state f) (sp_lastCustomerAt f) of
                  Inl err \<Rightarrow> Inl (EProjection err)
                | Inr vals \<Rightarrow>
                    (case insertConversation later vals (sp_ref f) of
                       Some d \<Rightarrow> replayLocked env d f None vals
                     | None \<Rightarrow>
                         (case lockConversation later of
                            None \<Rightarrow> Inr (RConflict, False, later)
                          | Some q \<Rightarrow> replayLocked env later f (Some q) vals)))
           | _ \<Rightarrow> Inr (RConflict, False, db)))"

text \<open>When the conversation's part cannot be written: its channel part alone.\<close>

definition replayChannelOnly :: "tx_env \<Rightarrow> store_db \<Rightarrow> spill_entry \<Rightarrow> store_db \<times> bool" where
  "replayChannelOnly env db f = writeReplayChannel (te_soft env) db (replayChannelOf f (lockConversation db))"

datatype startup_error = SeDbUnreachable | SePreloadIntegrity | SeSpillConflict

text \<open>
  One spill file: the faults of the two transactions come from outside. What remains of the file: nothing,
  or its renamed copy. The counters say whether it was applied and whether channel rows were written.
\<close>

record replayed =
  rp_db :: store_db
  rp_applied :: bool
  rp_channelWritten :: bool
  rp_failed :: bool

definition replayFile ::
  "tx_env \<Rightarrow> store_error option \<Rightarrow> store_error option \<Rightarrow> store_db \<Rightarrow> store_db \<Rightarrow> spill_entry \<Rightarrow> startup_error + replayed" where
  "replayFile env fault fault2 db later f =
     (case (case fault of Some err \<Rightarrow> Inl err | None \<Rightarrow> replayEntry env db later f) of
        Inl err \<Rightarrow>
          if classify err = ClRetry then Inl SeDbUnreachable
          else (case fault2 of
                  Some err2 \<Rightarrow> if classify err2 = ClRetry then Inl SeDbUnreachable
                               else Inr \<lparr>rp_db = later, rp_applied = False, rp_channelWritten = False, rp_failed = True\<rparr>
                | None \<Rightarrow> (case replayChannelOnly env later f of (d, wrote) \<Rightarrow>
                            Inr \<lparr>rp_db = d, rp_applied = False, rp_channelWritten = wrote, rp_failed = True\<rparr>))
      | Inr (RConflict, _, _) \<Rightarrow> Inl SeSpillConflict
      | Inr (r, wrote, d) \<Rightarrow> Inr \<lparr>rp_db = d, rp_applied = (r = RApplied), rp_channelWritten = wrote, rp_failed = False\<rparr>)"

section \<open>Loading\<close>

definition readWindowMessages :: "store_db \<Rightarrow> message_values list" where
  "readWindowMessages db = (case sd_conv db of None \<Rightarrow> [] | Some r \<Rightarrow> readMessagesFrom db (rw_windowStart r))"

text \<open>\<open>rebuildSessions\<close>: the window must hold exactly the numbers from its start to the last one.\<close>

definition windowConsistent :: "conv_row \<Rightarrow> message_values list \<Rightarrow> bool" where
  "windowConsistent r ms \<longleftrightarrow>
     int (length ms) = int (rw_lastSeq r) - int (rw_windowStart r) + 1 \<and> map mv_seq ms = [rw_windowStart r..<rw_windowStart r + length ms]"

definition upsertOrder :: "(jstext, order_values) jsmap \<Rightarrow> side_stmt \<Rightarrow> (jstext, order_values) jsmap" where
  "upsertOrder m w = (case w of SOrder r \<Rightarrow> jset m (orderIdOf r) r | _ \<Rightarrow> m)"

text \<open>Ordered by creation; the database's order of ids at the same instant is left open (table order).\<close>

definition readLiveOrders :: "store_db \<Rightarrow> order_values list" where
  "readLiveOrders db = sort_key ovl_createdAt (filter (\<lambda>r. ovl_voided r = None) (map snd (foldl upsertOrder [] (sd_side db))))"

definition recentMsgids :: "int \<Rightarrow> store_db \<Rightarrow> jstext list" where
  "recentMsgids since db =
     concat (map (\<lambda>r. case mv_msgid r of
        Some i \<Rightarrow> if mv_role r = Some (JStr (js ''customer'')) \<and> mv_at r \<ge> since then [i] else [] | None \<Rightarrow> []) (sd_messages db))"

definition noOut :: store_out where
  "noOut = \<lparr>so_committed = [], so_unsaved = [], so_resolved = [], so_rejected = [], so_outbound = []\<rparr>"

text \<open>
  The process after \<open>install\<close>: the window's messages are new objects 0, 1, \<dots>, numbered from the window's
  start. A conversation the database does not have has the state its first message gives it and no queue.
\<close>

fun linkTurns :: "nat \<Rightarrow> message_values list \<Rightarrow> seq_mem \<Rightarrow> seq_mem" where
  "linkTurns i [] mem = mem"
| "linkTurns i (r # rs) mem =
     linkTurns (i + 1) rs (case mv_turnId r of None \<Rightarrow> mem | Some t \<Rightarrow> linkTurn mem i t)"

definition install :: "int \<Rightarrow> payload \<Rightarrow> nat \<Rightarrow> store_db \<Rightarrow> proc" where
  "install since init uuid db =
     (let ms = readWindowMessages db; n = length ms; arr = Some (map Some [0..<n]);
          orders = map (\<lambda>r. (orderIdOf r, ovl_data r)) (readLiveOrders db);
          base = \<lparr>pr_mem = emptySeqMem, pr_heap = (\<lambda>i. if i < n then rowToMessage (ms ! i) else []), pr_nextRef = n,
             pr_state = init, pr_messages = arr, pr_orders = orders, pr_voided = [], pr_entry = None, pr_conflict = False,
             pr_closed = False, pr_writable = True, pr_tx = TxNone, pr_pcServed = False, pr_uuid = uuid, pr_out = noOut\<rparr>
      in case sd_conv db of
           None \<Rightarrow> base
         | Some r \<Rightarrow>
             base\<lparr>pr_mem := linkTurns 0 ms (case seedSeqs emptySeqMem SELF arr (int (rw_windowStart r)) of
                     None \<Rightarrow> emptySeqMem | Some mem \<Rightarrow> mem),
                  pr_state := rowToSession (rw_values r),
                  pr_entry := Some (newEntry (rw_ref r) True (rw_lastSeq r) (recentMsgids since db))\<rparr>)"

definition preload :: "int \<Rightarrow> payload \<Rightarrow> nat \<Rightarrow> store_db \<Rightarrow> startup_error + proc" where
  "preload since init uuid db =
     (case sd_conv db of
        None \<Rightarrow> Inr (install since init uuid db)
      | Some r \<Rightarrow> if windowConsistent r (readWindowMessages db) then Inr (install since init uuid db) else Inl SePreloadIntegrity)"

text \<open>
  \<open>openPgBackend\<close>: load, replay, and load again when the replay wrote. The result with the database and
  what became of the file. The lock of a row that is there waits for a transaction still ready to commit
  (\<open>later\<close>: the database after it).
\<close>

definition openStore ::
  "tx_env \<Rightarrow> store_error option \<Rightarrow> store_error option \<Rightarrow> int \<Rightarrow> payload \<Rightarrow> nat \<Rightarrow> store_db \<Rightarrow> store_db \<Rightarrow> spill_entry option \<Rightarrow>
     (startup_error + proc) \<times> store_db \<times> spill_entry option \<times> spill_entry list" where
  "openStore env fault fault2 since init uuid db later file =
     (case preload since init uuid db of
        Inl err \<Rightarrow> (Inl err, later, file, [])
      | Inr p \<Rightarrow>
     (case file of
        None \<Rightarrow> (Inr p, later, None, [])
      | Some f \<Rightarrow>
     (case replayFile env fault fault2 (if sd_conv db = None then db else later) later f of
        Inl err \<Rightarrow> (Inl err, later, file, [])
      | Inr r \<Rightarrow>
          (if rp_applied r \<or> rp_channelWritten r then preload since init uuid (rp_db r) else Inr p,
           rp_db r, None, if rp_failed r then [f] else []))))"

end
