(* ===== verification/StoreSystem.thy ===== *)
theory StoreSystem
  imports StoreReplay
begin

text \<open>
  One conversation, its store process and its database together: everything the engine, the timers, the
  server, a broken connection and a stopped process can do, one event at a time, and the invariant of the
  states this reaches. A transaction that was ready to commit when its connection broke is in limbo: the
  server commits it later or not. An event that is not possible in a state changes nothing.
\<close>

record world =
  wd_db :: store_db
  wd_limbo :: "store_db option"
  wd_base :: store_db
  wd_proc :: "proc option"
  wd_file :: "spill_entry option"
  wd_failed :: "spill_entry list"
  wd_uuid :: nat

text \<open>
  \<open>wd_base\<close> is what the process knows to be committed. It is no part of the program: it is the database when
  the process started, when a flush was acknowledged, and with what short transactions added since.
\<close>

datatype store_event =
  SvNew payload
| SvArrange messages_array payload
| SvReset
| SvSave
| SvTurn nat jstext
| SvOrder jstext payload
| SvSaveOrder jstext
| SvVoid jstext rat string
| SvEmit domain_event
| SvAudit jstext
| SvJobs "job_op list"
| SvConsents "jstext list"
| SvAttachment attachment_item
| SvAttachmentResult jstext
| SvTelemetry telemetry_rows
| SvChannel "outbound_write list"
| SvInbox "inbox_state_write list"
| SvApplied nat
| SvFlush nat
| SvFlushTimeout nat
| SvDrain
| SvClose
| SvWritable bool
| SvHold
| SvRelease
| SvKick
| SvPcKick
| SvPcTimer
| SvRetry
| SvAttempt tx_env bool
| SvFault store_error
| SvCommit
| SvDrop store_error
| SvAnswer
| SvLimbo bool
| SvPcServe bool
| SvPcAnswer pc_result
| SvStop bool bool
| SvStart tx_env "store_error option" "store_error option" int payload bool
| SvStartCrash tx_env bool

text \<open>A transaction works on the tables; its other writes are what the commit adds to the logs.\<close>

definition bare :: "store_db \<Rightarrow> store_db" where
  "bare db = db\<lparr>sd_channel := [], sd_soft := []\<rparr>"

definition commitTx :: "store_db \<Rightarrow> store_db \<Rightarrow> store_db" where
  "commitTx db t = t\<lparr>sd_channel := sd_channel db @ sd_channel t, sd_soft := sd_soft db @ sd_soft t\<rparr>"

definition resolved :: "world \<Rightarrow> bool \<Rightarrow> store_db" where
  "resolved w b = (case wd_limbo w of None \<Rightarrow> wd_db w | Some t \<Rightarrow> if b then commitTx (wd_db w) t else wd_db w)"

definition onProc :: "(proc \<Rightarrow> proc) \<Rightarrow> world \<Rightarrow> world" where
  "onProc f w = w\<lparr>wd_proc := map_option f (wd_proc w)\<rparr>"

definition withProc :: "(proc \<Rightarrow> world) \<Rightarrow> world \<Rightarrow> world" where
  "withProc f w = (case wd_proc w of None \<Rightarrow> w | Some p \<Rightarrow> f p)"

text \<open>The engine's own steps: a new message object, and a new arrangement of the session.\<close>

definition newMessage :: "payload \<Rightarrow> proc \<Rightarrow> proc" where
  "newMessage m p = p\<lparr>pr_heap := (pr_heap p)(pr_nextRef p := m), pr_nextRef := pr_nextRef p + 1\<rparr>"

definition arrange :: "messages_array \<Rightarrow> payload \<Rightarrow> proc \<Rightarrow> proc" where
  "arrange arr st p =
     (if distinct (objects arr) \<and> list_all (\<lambda>m. m < pr_nextRef p) (objects arr)
      then p\<lparr>pr_messages := arr, pr_state := st\<rparr> else p)"

text \<open>The server's part of an attempt; a row that is there waits for what is in limbo, as does an insertion.\<close>

definition attempt :: "tx_env \<Rightarrow> bool \<Rightarrow> world \<Rightarrow> world" where
  "attempt env b w =
     withProc (\<lambda>p. if pr_tx p \<noteq> TxRunning then w
       else let later = resolved w b; db = (if sd_conv (wd_db w) = None then wd_db w else later)
            in w\<lparr>wd_db := later, wd_limbo := None, wd_proc := Some (runAttempt env (bare db) (bare later) p)\<rparr>) w"

definition statementFails :: "store_error \<Rightarrow> world \<Rightarrow> world" where
  "statementFails err w =
     withProc (\<lambda>p. case pr_tx p of
         TxRunning \<Rightarrow> if classify err = ClConflict then w else w\<lparr>wd_proc := Some (p\<lparr>pr_tx := TxFailed err\<rparr>)\<rparr>
       | TxReady _ \<Rightarrow> if classify err = ClConflict then w else w\<lparr>wd_proc := Some (p\<lparr>pr_tx := TxFailed err\<rparr>)\<rparr>
       | _ \<Rightarrow> w) w"

definition commit :: "world \<Rightarrow> world" where
  "commit w =
     withProc (\<lambda>p. case pr_tx p of
         TxReady t \<Rightarrow> w\<lparr>wd_db := commitTx (wd_db w) t, wd_proc := Some (p\<lparr>pr_tx := TxDone\<rparr>)\<rparr>
       | _ \<Rightarrow> w) w"

text \<open>The connection breaks: an error of the kind that is retried, whatever the server did or will do.\<close>

definition dropConn :: "store_error \<Rightarrow> world \<Rightarrow> world" where
  "dropConn err w =
     (if classify err \<noteq> ClRetry then w
      else withProc (\<lambda>p. case pr_tx p of
         TxRunning \<Rightarrow> w\<lparr>wd_proc := Some (p\<lparr>pr_tx := TxFailed err\<rparr>)\<rparr>
       | TxReady t \<Rightarrow> w\<lparr>wd_limbo := Some t, wd_proc := Some (p\<lparr>pr_tx := TxFailed err\<rparr>)\<rparr>
       | TxDone \<Rightarrow> w\<lparr>wd_proc := Some (p\<lparr>pr_tx := TxFailed err\<rparr>)\<rparr>
       | _ \<Rightarrow> w) w)"

definition answer :: "world \<Rightarrow> world" where
  "answer w =
     withProc (\<lambda>p. case pr_tx p of
         TxDone \<Rightarrow> w\<lparr>wd_base := wd_db w, wd_proc := Some (afterCommit p)\<rparr>
       | TxRecognized \<Rightarrow> w\<lparr>wd_base := wd_db w, wd_proc := Some (afterCommit p)\<rparr>
       | TxFailed err \<Rightarrow> w\<lparr>wd_proc := Some (failed err p)\<rparr>
       | _ \<Rightarrow> w) w"

definition settleLimbo :: "bool \<Rightarrow> world \<Rightarrow> world" where
  "settleLimbo b w = w\<lparr>wd_db := resolved w b, wd_limbo := None\<rparr>"

text \<open>The short transaction of a poisoned conversation commits, with or without its results.\<close>

definition servePc :: "bool \<Rightarrow> world \<Rightarrow> world" where
  "servePc ok w =
     withProc (\<lambda>p. case pr_entry p of None \<Rightarrow> w | Some e \<Rightarrow>
       (case en_pcRun e of
          None \<Rightarrow> w
        | Some rows \<Rightarrow>
            if en_poisoned e = None \<or> pr_closed p \<or> pr_conflict p \<or> \<not> pr_writable p then w
            else w\<lparr>wd_db := writeChannelRows ok (wd_db w) rows, wd_base := writeChannelRows ok (wd_base w) rows,
                   wd_proc := Some (p\<lparr>pr_pcServed := True\<rparr>)\<rparr>)) w"

definition answerPc :: "pc_result \<Rightarrow> proc \<Rightarrow> proc" where
  "answerPc r p = (if r = PcWritten \<and> \<not> pr_pcServed p then p else runPoisoned r p)"

text \<open>
  The process ends, with or without its spill file; a transaction that was ready to commit may be left in
  limbo.
\<close>

definition stopStore :: "bool \<Rightarrow> bool \<Rightarrow> world \<Rightarrow> world" where
  "stopStore spill b w =
     withProc (\<lambda>p. w\<lparr>wd_proc := None, wd_file := if spill then spillSync p else None,
         wd_limbo := (case pr_tx p of TxReady t \<Rightarrow> if b then Some t else wd_limbo w | _ \<Rightarrow> wd_limbo w),
         wd_uuid := pr_uuid p + 1\<rparr>) w"

text \<open>
  The next process. The lock of a replay waits for what is in limbo; without a spill file nothing waits.
\<close>

definition startStore ::
  "tx_env \<Rightarrow> store_error option \<Rightarrow> store_error option \<Rightarrow> int \<Rightarrow> payload \<Rightarrow> bool \<Rightarrow> world \<Rightarrow> world" where
  "startStore env f1 f2 since init b w =
     (if wd_proc w \<noteq> None then w
      else
        let later = (if wd_file w = None then wd_db w else resolved w b);
            limbo = (if wd_file w = None then wd_limbo w else None)
        in case openStore env f1 f2 since init (wd_uuid w) (wd_db w) later (wd_file w) of
             (Inl SeDbUnreachable, _) \<Rightarrow> w
           | (Inl _, db, _) \<Rightarrow> w\<lparr>wd_db := db, wd_limbo := limbo\<rparr>
           | (Inr p, db, file, bad) \<Rightarrow>
               w\<lparr>wd_db := db, wd_limbo := limbo, wd_base := db, wd_proc := Some p, wd_file := file, wd_failed := wd_failed w @ bad\<rparr>)"

text \<open>A start that ends after the replay committed and before the file was removed.\<close>

definition startCrash :: "tx_env \<Rightarrow> bool \<Rightarrow> world \<Rightarrow> world" where
  "startCrash env b w =
     (if wd_proc w \<noteq> None then w
      else case wd_file w of
        None \<Rightarrow> w
      | Some f \<Rightarrow>
     (case replayEntry env (if sd_conv (wd_db w) = None then wd_db w else resolved w b) (resolved w b) f of
        Inr (r, _, db) \<Rightarrow> if r = RConflict then w else w\<lparr>wd_db := db, wd_limbo := None\<rparr>
      | Inl _ \<Rightarrow> w))"

fun store_step :: "world \<Rightarrow> store_event \<Rightarrow> world" where
  "store_step w (SvNew m) = onProc (newMessage m) w"
| "store_step w (SvArrange arr st) = onProc (arrange arr st) w"
| "store_step w SvReset = onProc (\<lambda>p. p\<lparr>pr_mem := noteWindowReset (pr_mem p) SELF\<rparr>) w"
| "store_step w SvSave = onProc schedule w"
| "store_step w (SvTurn m t) = onProc (\<lambda>p. p\<lparr>pr_mem := linkTurn (pr_mem p) m t\<rparr>) w"
| "store_step w (SvOrder i od) = onProc (\<lambda>p. p\<lparr>pr_orders := jset (pr_orders p) i od\<rparr>) w"
| "store_step w (SvSaveOrder i) = onProc (scheduleOrder i) w"
| "store_step w (SvVoid i now reason) =
     onProc (\<lambda>p. case jget (pr_orders p) i of None \<Rightarrow> p
       | Some od \<Rightarrow> (voidOrder i od now reason p)\<lparr>pr_orders := jdel (pr_orders p) i\<rparr>) w"
| "store_step w (SvEmit v) = onProc (emitAfterCommit v) w"
| "store_step w (SvAudit a) = onProc (queueAudit a) w"
| "store_step w (SvJobs ops) = onProc (queueJobs ops) w"
| "store_step w (SvConsents cs) = onProc (queueConsents cs) w"
| "store_step w (SvAttachment a) = onProc (queueAttachment a) w"
| "store_step w (SvAttachmentResult r) = onProc (queueAttachmentResult r) w"
| "store_step w (SvTelemetry t) = onProc (queueTelemetry t) w"
| "store_step w (SvChannel rows) = onProc (queueChannel rows) w"
| "store_step w (SvInbox writes) = onProc (queueInbox writes) w"
| "store_step w (SvApplied i) = onProc (\<lambda>p. snd (jobOpApplied i p)) w"
| "store_step w (SvFlush i) = onProc (flushSession i) w"
| "store_step w (SvFlushTimeout i) = onProc (flushTimeout i) w"
| "store_step w SvDrain = onProc drainStart w"
| "store_step w SvClose = onProc close w"
| "store_step w (SvWritable b) = onProc (\<lambda>p. p\<lparr>pr_writable := b\<rparr>) w"
| "store_step w SvHold = onProc (\<lambda>p. snd (holdForPurge p)) w"
| "store_step w SvRelease = onProc releaseHold w"
| "store_step w SvKick = onProc kickTask w"
| "store_step w SvPcKick = onProc pcTask w"
| "store_step w SvPcTimer = onProc pcTimerTask w"
| "store_step w SvRetry = onProc retryTimer w"
| "store_step w (SvAttempt env b) = attempt env b w"
| "store_step w (SvFault err) = statementFails err w"
| "store_step w SvCommit = commit w"
| "store_step w (SvDrop err) = dropConn err w"
| "store_step w SvAnswer = answer w"
| "store_step w (SvLimbo b) = settleLimbo b w"
| "store_step w (SvPcServe ok) = servePc ok w"
| "store_step w (SvPcAnswer r) = onProc (answerPc r) w"
| "store_step w (SvStop spill b) = stopStore spill b w"
| "store_step w (SvStart env f1 f2 since init b) = startStore env f1 f2 since init b w"
| "store_step w (SvStartCrash env b) = startCrash env b w"

text \<open>
  A start that reads the database while a transaction of the old process is in limbo and does not read it
  again: there is no spill file, or its replay fails. The states considered are those reached without one
  (\<open>StoreDemo.stale_start_conflicts\<close> says why).
\<close>

definition staleStart :: "world \<Rightarrow> store_event \<Rightarrow> bool" where
  "staleStart w ev =
     (case ev of
        SvStart _ _ _ _ _ _ \<Rightarrow> wd_proc w = None \<and> wd_limbo w \<noteq> None \<and>
          (wd_file w = None \<or> length (wd_failed (store_step w ev)) \<noteq> length (wd_failed w))
      | _ \<Rightarrow> False)"

definition emptyDb :: store_db where
  "emptyDb = \<lparr>sd_conv = None, sd_messages = [], sd_side = [], sd_channel = [], sd_soft = []\<rparr>"

definition store_init :: world where
  "store_init = \<lparr>wd_db = emptyDb, wd_limbo = None, wd_base = emptyDb, wd_proc = None, wd_file = None, wd_failed = [], wd_uuid = 0\<rparr>"

inductive store_reach :: "world \<Rightarrow> bool" where
  begins: "store_reach store_init"
| goes_on: "store_reach w \<Longrightarrow> \<not> staleStart w ev \<Longrightarrow> store_reach (store_step w ev)"

end
