(* ===== verification/StoreFacts.thy ===== *)
theory StoreFacts
  imports StoreSystem
begin

text \<open>
  What one flush does to the database, and the invariant of the running process: the database is what the
  process knows to be committed, or that with exactly the flush in flight applied once.
\<close>

section \<open>The database\<close>

definition lastOf :: "store_db \<Rightarrow> nat" where
  "lastOf db = (case sd_conv db of None \<Rightarrow> 0 | Some r \<Rightarrow> rw_lastSeq r)"

definition flushOf :: "store_db \<Rightarrow> nat option" where
  "flushOf db = (case sd_conv db of None \<Rightarrow> None | Some r \<Rightarrow> rw_flushId r)"

definition windowOk :: "nat \<Rightarrow> nat \<Rightarrow> bool" where
  "windowOk ws mx \<longleftrightarrow> 1 \<le> ws \<and> ws \<le> mx + 1"

text \<open>The messages are numbered from 1 to the last number of the row, in order, and the window is among them.\<close>

definition dbOk :: "store_db \<Rightarrow> bool" where
  "dbOk db \<longleftrightarrow> map mv_seq (sd_messages db) = [1..<lastOf db + 1] \<and>
     (case sd_conv db of None \<Rightarrow> True | Some r \<Rightarrow> windowOk (rw_windowStart r) (rw_lastSeq r))"

text \<open>The parts the transactions of a queue own; the channel rows too, as long as it is not poisoned.\<close>

definition core :: "bool \<Rightarrow> store_db \<Rightarrow> conv_row option \<times> message_values list \<times> side_stmt list \<times> channel_stmt list" where
  "core pz db = (sd_conv db, sd_messages db, sd_side db, if pz then [] else sd_channel db)"

lemma core_cong:
  assumes "core pz a = core pz b"
  shows "sd_conv a = sd_conv b" "sd_messages a = sd_messages b" "sd_side a = sd_side b" "lastOf a = lastOf b" "flushOf a = flushOf b"
    "dbOk a = dbOk b"
  using assms by (simp_all add: core_def lastOf_def flushOf_def dbOk_def)

lemma core_weaker: "core pz a = core pz b \<Longrightarrow> (pz \<Longrightarrow> pz') \<Longrightarrow> core pz' a = core pz' b"
  by (auto simp: core_def split: if_splits)

text \<open>A snapshot applied to a database.\<close>

definition flushedRow :: "nat \<Rightarrow> store_db \<Rightarrow> snap \<Rightarrow> conv_row" where
  "flushedRow ref db s =
     (let vals = sn_values s; old = (case sd_conv db of None \<Rightarrow> vals | Some r \<Rightarrow> rw_values r) in
      \<lparr>rw_values = vals\<lparr>cvl_createdAt := cvl_createdAt old, cvl_updatedAt := max (cvl_updatedAt old) (cvl_updatedAt vals)\<rparr>,
       rw_lastSeq = sn_lastSeq s, rw_windowStart = sn_windowStart s, rw_flushId = Some (sn_flushId s),
       rw_ref = (case sd_conv db of None \<Rightarrow> ref | Some r \<Rightarrow> rw_ref r)\<rparr>)"

definition flushTo :: "nat \<Rightarrow> store_db \<Rightarrow> snap \<Rightarrow> store_db" where
  "flushTo ref db s =
     db\<lparr>sd_conv := Some (flushedRow ref db s), sd_messages := sd_messages db @ sn_messages s,
        sd_side := sd_side db @ map SOrder (sn_orders s) @ sideStmts (sn_side s),
        sd_channel := sd_channel db @ map SOutbound (sn_channel s) @ map SInbox (sn_inbox s)\<rparr>"

text \<open>A snapshot that fits a database: it goes on where the messages end, under a new flush id.\<close>

definition continues :: "store_db \<Rightarrow> snap \<Rightarrow> bool" where
  "continues db s \<longleftrightarrow> dbOk db \<and> lastOf db = sn_baseSeq s \<and> flushOf db \<noteq> Some (sn_flushId s) \<and>
     map mv_seq (sn_messages s) = [sn_baseSeq s + 1..<sn_lastSeq s + 1] \<and> sn_baseSeq s \<le> sn_lastSeq s \<and>
     windowOk (sn_windowStart s) (sn_lastSeq s)"

lemma continues_cong: "core pz a = core pz b \<Longrightarrow> continues a s = continues b s"
  using core_cong [of pz a b] by (simp add: continues_def)

lemma flushTo_cong: "core pz a = core pz b \<Longrightarrow> core pz (flushTo ref a s) = core pz (flushTo ref b s)"
  by (auto simp: core_def flushTo_def flushedRow_def)

lemma upt_join: "a \<le> b \<Longrightarrow> [1..<a + 1] @ [a + 1..<b + 1] = [1..<b + 1]" for a b :: nat
  by (rule upt_append) simp_all

lemma flushTo_facts:
  assumes "continues db s"
  shows "dbOk (flushTo ref db s)" "lastOf (flushTo ref db s) = sn_lastSeq s" "flushOf (flushTo ref db s) = Some (sn_flushId s)"
    "sd_conv (flushTo ref db s) \<noteq> None"
  using assms upt_join [of "sn_baseSeq s" "sn_lastSeq s"]
  by (simp_all add: dbOk_def continues_def flushTo_def lastOf_def flushOf_def flushedRow_def Let_def del: upt_Suc)

text \<open>The two outcomes of a transaction of the flush.\<close>

lemma insertMessages_ok:
  assumes "map mv_seq (sd_messages db) = [1..<a + 1]" "map mv_seq rows = [a + 1..<b + 1]" "a \<le> b"
  shows "insertMessages db rows = Inr (db\<lparr>sd_messages := sd_messages db @ rows\<rparr>)"
proof -
  have "map mv_seq (sd_messages db @ rows) = [1..<b + 1]" unfolding map_append assms(1,2) by (rule upt_join [OF assms(3)])
  then have "distinct (map mv_seq (sd_messages db @ rows))" by (simp only: distinct_upt)
  moreover have "0 \<notin> set (map mv_seq rows)" unfolding assms(2) by simp
  ultimately show ?thesis unfolding insertMessages_def by simp
qed

lemma writeLocked_ok:
  assumes "sd_conv db = Some r" "cur = \<lparr>qs_lastSeq = rw_lastSeq r, qs_windowStart = rw_windowStart r, qs_flushId = rw_flushId r\<rparr>"
    and "continues db s"
  shows "\<exists>t applied. writeLocked env db cur s = FlushWrites t applied \<and> core False t = core False (flushTo ref db s)"
proof -
  have m: "insertMessages db (sn_messages s) = Inr (db\<lparr>sd_messages := sd_messages db @ sn_messages s\<rparr>)"
    using assms(3) by (intro insertMessages_ok [where a = "sn_baseSeq s" and b = "sn_lastSeq s"]) (auto simp: continues_def dbOk_def)
  have w: "\<not> sn_windowStart s < 1" "\<not> sn_windowStart s > sn_lastSeq s + 1"
    using assms(3) by (auto simp: continues_def windowOk_def)
  have c: "qs_flushId cur \<noteq> Some (sn_flushId s)" "qs_lastSeq cur = sn_baseSeq s"
    using assms by (auto simp: continues_def flushOf_def lastOf_def)
  show ?thesis
    using assms(1) w by (auto simp: writeLocked_def m c updateConversation_def writeSideRows_def core_def flushTo_def flushedRow_def Let_def)
qed

lemma bare_simps [simp]:
  "sd_conv (bare db) = sd_conv db" "sd_messages (bare db) = sd_messages db" "sd_side (bare db) = sd_side db"
  "sd_channel (bare db) = []" "lastOf (bare db) = lastOf db" "flushOf (bare db) = flushOf db"
  by (simp_all add: bare_def lastOf_def flushOf_def)

lemma continues_bare: "continues (bare db) s = continues db s"
  by (simp add: continues_def dbOk_def)

lemma commit_bare: "core False t = core False (flushTo ref (bare db) s) \<Longrightarrow> core False (commitTx db t) = core False (flushTo ref db s)"
  by (simp add: core_def commitTx_def flushTo_def flushedRow_def Let_def)

lemma writeSnap_fresh:
  assumes "continues db s" "sd_conv db = None \<Longrightarrow> \<not> en_inDb e"
  shows "\<exists>t applied. writeSnap env (bare db) (bare db) e s = FlushWrites t applied \<and>
    core False (commitTx db t) = core False (flushTo (en_ref e) db s)"
proof (cases "sd_conv db")
  case None
  let ?r = "\<lparr>rw_values = sn_values s, rw_lastSeq = 0, rw_windowStart = 1, rw_flushId = None, rw_ref = en_ref e\<rparr>"
  let ?d = "(bare db)\<lparr>sd_conv := Some ?r\<rparr>"
  have b: "sn_baseSeq s = 0" using assms(1) None by (simp add: continues_def lastOf_def)
  have "continues ?d s"
    using assms(1) None by (simp add: continues_def dbOk_def lastOf_def flushOf_def windowOk_def)
  then obtain t applied where t: "writeLocked env ?d \<lparr>qs_lastSeq = 0, qs_windowStart = 1, qs_flushId = None\<rparr> s = FlushWrites t applied"
    "core False t = core False (flushTo (en_ref e) ?d s)"
    using writeLocked_ok [of ?d ?r _ s env "en_ref e"] by auto
  have "core False (flushTo (en_ref e) ?d s) = core False (flushTo (en_ref e) (bare db) s)"
    using None by (simp add: core_def flushTo_def flushedRow_def Let_def)
  then have "core False (commitTx db t) = core False (flushTo (en_ref e) db s)" using t(2) by (intro commit_bare) simp
  moreover have "writeSnap env (bare db) (bare db) e s = FlushWrites t applied"
    using None assms(2) b t(1) by (simp add: writeSnap_def lockConversation_def insertConversation_def)
  ultimately show ?thesis by blast
next
  case (Some r)
  have "continues (bare db) s" using assms(1) by (simp add: continues_bare)
  then obtain t applied where t: "writeLocked env (bare db) \<lparr>qs_lastSeq = rw_lastSeq r, qs_windowStart = rw_windowStart r, qs_flushId = rw_flushId r\<rparr> s
      = FlushWrites t applied" "core False t = core False (flushTo (en_ref e) (bare db) s)"
    using writeLocked_ok [of "bare db" r _ s env "en_ref e"] Some by auto
  then show ?thesis using Some commit_bare [OF t(2)] by (simp add: writeSnap_def lockConversation_def)
qed

lemma writeSnap_again:
  assumes "flushOf db = Some (sn_flushId s)" "lastOf db = sn_lastSeq s"
  shows "writeSnap env (bare db) (bare db) e s = FlushAlready"
  using assms by (cases "sd_conv db") (simp_all add: writeSnap_def lockConversation_def writeLocked_def flushOf_def lastOf_def)

lemma writeSnap_waits:
  assumes "sd_conv db = None" "\<not> en_inDb e" "sn_baseSeq s = 0"
  shows "writeSnap env (bare db) (bare later) e s = writeSnap env (bare later) (bare later) e s"
  using assms by (cases "sd_conv later")
    (simp_all add: writeSnap_def lockConversation_def insertConversation_def)

section \<open>The invariant of a running process\<close>

definition memOk :: "proc \<Rightarrow> bool" where
  "memOk p \<longleftrightarrow> numbersOk (pr_mem p) SELF \<and> distinct (objects (pr_messages p)) \<and>
     list_all (\<lambda>m. m < pr_nextRef p) (objects (pr_messages p)) \<and> (\<forall>m. numbered (sm_seqs (pr_mem p)) m \<longrightarrow> m < pr_nextRef p)"

abbreviation lastNo :: "proc \<Rightarrow> nat" where
  "lastNo p \<equiv> lastSeqOf (pr_mem p) SELF"

abbreviation pz :: "entry \<Rightarrow> bool" where
  "pz e \<equiv> en_poisoned e \<noteq> None"

text \<open>
  The rows of a snapshot are those of the first pending messages. The turn a message belongs to may be
  linked later and is left out.
\<close>

definition said :: "message_values \<Rightarrow> message_values" where
  "said r = r\<lparr>mv_turnId := None\<rparr>"

definition saidRow :: "seq_mem \<Rightarrow> (nat \<Rightarrow> payload) \<Rightarrow> nat \<Rightarrow> projection_error + message_values" where
  "saidRow mem heap m = messageToRow (heap m) (case sm_seqs mem m of None \<Rightarrow> 0 | Some n \<Rightarrow> n) None"

definition snapRows :: "seq_mem \<Rightarrow> (nat \<Rightarrow> payload) \<Rightarrow> nat list \<Rightarrow> snap \<Rightarrow> bool" where
  "snapRows mem heap pend s \<longleftrightarrow>
     list_all2 (\<lambda>m r. saidRow mem heap m = Inr (said r)) (take (length (sn_messages s)) pend) (sn_messages s)"

definition snapOk :: "proc \<Rightarrow> entry \<Rightarrow> store_db \<Rightarrow> snap \<Rightarrow> bool" where
  "snapOk p e base s \<longleftrightarrow> continues base s \<and> snapRows (pr_mem p) (pr_heap p) (en_pending e) s \<and> sn_lastSeq s \<le> lastNo p \<and> sn_flushId s < pr_uuid p \<and>
     (sn_dead s \<longrightarrow> pz e \<and> pr_tx p = TxNone \<and> \<not> en_timer e)"

text \<open>Where the database is while a flush is in flight: before it, after it, or (limbo) still to be decided.\<close>

definition ahead :: "bool \<Rightarrow> nat \<Rightarrow> store_db \<Rightarrow> store_db \<Rightarrow> snap \<Rightarrow> bool" where
  "ahead z ref db base s \<longleftrightarrow> core z db = core z (flushTo ref base s)"

definition undecided :: "bool \<Rightarrow> nat \<Rightarrow> store_db \<Rightarrow> store_db \<Rightarrow> store_db \<Rightarrow> snap \<Rightarrow> bool" where
  "undecided z ref db t base s \<longleftrightarrow> core z db = core z base \<and> ahead z ref (commitTx db t) base s"

definition place :: "bool \<Rightarrow> nat \<Rightarrow> store_db \<Rightarrow> store_db option \<Rightarrow> store_db \<Rightarrow> tx_state \<Rightarrow> snap \<Rightarrow> bool" where
  "place z ref db limbo base tx s \<longleftrightarrow>
     (case limbo of
        Some t \<Rightarrow> undecided z ref db t base s \<and> (case tx of TxReady _ \<Rightarrow> False | TxDone \<Rightarrow> False | TxRecognized \<Rightarrow> False | _ \<Rightarrow> True)
      | None \<Rightarrow> core z db = core z base \<or> ahead z ref db base s) \<and>
     (case tx of
        TxReady t \<Rightarrow> undecided z ref db t base s
      | TxDone \<Rightarrow> ahead z ref db base s
      | TxRecognized \<Rightarrow> ahead z ref db base s
      | TxFailed err \<Rightarrow> classify err \<noteq> ClConflict
      | _ \<Rightarrow> True)"

definition entryOk :: "proc \<Rightarrow> entry \<Rightarrow> store_db \<Rightarrow> store_db option \<Rightarrow> store_db \<Rightarrow> bool" where
  "entryOk p e db limbo base \<longleftrightarrow>
     en_committedSeq e = lastOf base \<and> en_inDb e = (sd_conv base \<noteq> None) \<and> en_committedSeq e \<le> lastNo p \<and>
     map (sm_seqs (pr_mem p)) (en_pending e) = map Some [en_committedSeq e + 1..<lastNo p + 1] \<and>
     (en_timer e \<longrightarrow> en_inflight e \<noteq> None \<and> pr_tx p = TxNone) \<and>
     (case en_inflight e of
        None \<Rightarrow> pr_tx p = TxNone \<and> limbo = None \<and> core (pz e) db = core (pz e) base
      | Some s \<Rightarrow> snapOk p e base s \<and> place (pz e) (en_ref e) db limbo base (pr_tx p) s)"

definition idleOk :: "proc \<Rightarrow> store_db \<Rightarrow> store_db option \<Rightarrow> store_db \<Rightarrow> bool" where
  "idleOk p db limbo base \<longleftrightarrow> sd_conv base = None \<and> pr_tx p = TxNone \<and> limbo = None \<and> core False db = core False base \<and>
     sm_seqs (pr_mem p) = (\<lambda>_. None) \<and> lastNo p = 0"

definition procOk :: "proc \<Rightarrow> store_db \<Rightarrow> store_db option \<Rightarrow> store_db \<Rightarrow> bool" where
  "procOk p db limbo base \<longleftrightarrow>
     memOk p \<and> \<not> pr_conflict p \<and> dbOk base \<and> (\<forall>f. flushOf base = Some f \<longrightarrow> f < pr_uuid p) \<and>
     (case pr_entry p of None \<Rightarrow> idleOk p db limbo base | Some e \<Rightarrow> entryOk p e db limbo base)"

subsection \<open>Steps that leave the flush alone\<close>

definition quietEntry :: "entry \<Rightarrow> entry \<Rightarrow> bool" where
  "quietEntry e e' \<longleftrightarrow> en_ref e' = en_ref e \<and> en_inDb e' = en_inDb e \<and> en_committedSeq e' = en_committedSeq e \<and>
     en_pending e' = en_pending e \<and> en_inflight e' = en_inflight e \<and> en_timer e' = en_timer e \<and> (pz e \<longrightarrow> pz e')"

definition quiet :: "proc \<Rightarrow> proc \<Rightarrow> bool" where
  "quiet p p' \<longleftrightarrow> (memOk p \<longrightarrow> memOk p') \<and> sm_seqs (pr_mem p') = sm_seqs (pr_mem p) \<and> lastNo p' = lastNo p \<and>
     pr_tx p' = pr_tx p \<and> pr_conflict p' = pr_conflict p \<and> pr_uuid p \<le> pr_uuid p' \<and>
     pr_nextRef p \<le> pr_nextRef p' \<and> (\<forall>m < pr_nextRef p. pr_heap p' m = pr_heap p m) \<and>
     (case pr_entry p of None \<Rightarrow> pr_entry p' = None | Some e \<Rightarrow> (\<exists>e'. pr_entry p' = Some e' \<and> quietEntry e e'))"

lemma quietEntry_refl [simp]: "quietEntry e e"
  by (simp add: quietEntry_def)

lemma quietEntry_trans: "quietEntry a b \<Longrightarrow> quietEntry b c \<Longrightarrow> quietEntry a c"
  by (simp add: quietEntry_def)

lemma quiet_self [simp]: "quiet p p"
  by (simp add: quiet_def split: option.split)

lemma quiet_trans: "quiet a b \<Longrightarrow> quiet b c \<Longrightarrow> quiet a c"
  by (auto simp: quiet_def split: option.splits intro: quietEntry_trans)

lemma place_weaker: "place z ref db limbo base tx s \<Longrightarrow> (z \<Longrightarrow> z') \<Longrightarrow> place z' ref db limbo base tx s"
  by (auto simp: place_def undecided_def ahead_def split: option.splits tx_state.splits intro: core_weaker)

lemma snapRows_cong:
  assumes "\<And>m. m \<in> set pend \<Longrightarrow> sm_seqs mem' m = sm_seqs mem m \<and> heap' m = heap m" "length (sn_messages s) \<le> length pend"
  shows "snapRows mem' heap' (pend @ ext) s = snapRows mem heap pend s"
proof -
  have "list_all2 (\<lambda>m r. saidRow mem' heap' m = Inr (said r)) ms rs = list_all2 (\<lambda>m r. saidRow mem heap m = Inr (said r)) ms rs"
    if "set ms \<subseteq> set pend" for ms rs
    using that by (intro list.rel_cong) (auto simp: saidRow_def assms(1) subset_iff)
  then show ?thesis using assms(2) by (simp add: snapRows_def set_take_subset)
qed

lemma entryOk_pending_lt:
  assumes "entryOk p e db limbo base" "memOk p" "m \<in> set (en_pending e)"
  shows "m < pr_nextRef p"
proof -
  have "sm_seqs (pr_mem p) m \<in> set (map (sm_seqs (pr_mem p)) (en_pending e))" using assms(3) by simp
  also have "\<dots> = Some ` {en_committedSeq e + 1..<lastNo p + 1}"
    using assms(1) by (simp add: entryOk_def del: upt_Suc)
  finally show ?thesis using assms(2) by (auto simp: memOk_def numbered_def)
qed

lemma map_upt_length: "map f xs = map g [a..<b] \<Longrightarrow> length xs = b - a"
  using map_eq_imp_length_eq by fastforce

lemma pending_length: "entryOk p e db limbo base \<Longrightarrow> length (en_pending e) = lastNo p - en_committedSeq e"
  using map_upt_length [of "sm_seqs (pr_mem p)" "en_pending e" Some "en_committedSeq e + 1" "lastNo p + 1"]
  by (simp add: entryOk_def del: upt_Suc)

lemma continues_length: "continues base s \<Longrightarrow> length (sn_messages s) = sn_lastSeq s - sn_baseSeq s"
  using map_upt_length [of mv_seq "sn_messages s" "\<lambda>n. n" "sn_baseSeq s + 1" "sn_lastSeq s + 1"]
  by (simp add: continues_def del: upt_Suc)

lemma snap_short:
  assumes "entryOk p e db limbo base" "continues base s" "sn_lastSeq s \<le> lastNo p"
  shows "length (sn_messages s) \<le> length (en_pending e)"
  using assms pending_length [OF assms(1)] continues_length [OF assms(2)] by (simp add: entryOk_def continues_def diff_le_mono)

lemma procOk_quiet:
  assumes "procOk p db limbo base" "quiet p p'"
  shows "procOk p' db limbo base"
proof (cases "pr_entry p")
  case None
  then show ?thesis using assms by (auto simp: procOk_def quiet_def idleOk_def)
next
  case (Some e)
  then obtain e' where e': "pr_entry p' = Some e'" "quietEntry e e'" using assms(2) by (auto simp: quiet_def)
  have ok: "entryOk p e db limbo base" using assms(1) Some by (simp add: procOk_def)
  have "entryOk p' e' db limbo base"
  proof (cases "en_inflight e")
    case None
    then show ?thesis using ok e'(2) assms(2)
      by (auto simp: entryOk_def quietEntry_def quiet_def intro: core_weaker)
  next
    case (Some s)
    have sn: "snapOk p e base s" using ok Some by (simp add: entryOk_def)
    have "snapRows (pr_mem p') (pr_heap p') (en_pending e @ []) s = snapRows (pr_mem p) (pr_heap p) (en_pending e) s"
      using assms entryOk_pending_lt [OF ok] snap_short [OF ok] sn
      by (intro snapRows_cong) (auto simp: quiet_def procOk_def snapOk_def)
    then have rows: "snapRows (pr_mem p') (pr_heap p') (en_pending e) s" using sn by (simp add: snapOk_def)
    have "place (pz e') (en_ref e) db limbo base (pr_tx p) s"
      by (rule place_weaker [of "pz e"]) (use ok Some e'(2) in \<open>auto simp: entryOk_def quietEntry_def\<close>)
    moreover have "snapOk p' e' base s"
      using sn rows e'(2) assms(2) by (auto simp: snapOk_def quietEntry_def quiet_def)
    ultimately show ?thesis using ok Some e'(2) assms(2)
      by (simp add: entryOk_def quietEntry_def quiet_def)
  qed
  then show ?thesis using assms e'(1) by (auto simp: procOk_def quiet_def)
qed

named_theorems quiets

lemma quiet_modEntry [quiets]: "(\<And>e. quietEntry e (f e)) \<Longrightarrow> quiet p (modEntry f p)"
  by (auto simp: quiet_def modEntry_def memOk_def split: option.split)

lemma quiet_modOut [quiets]: "quiet p (modOut f p)"
  by (auto simp: quiet_def modOut_def memOk_def split: option.split)

lemma quiet_after: "quiet q (f q) \<Longrightarrow> quiet p q \<Longrightarrow> quiet p (f q)"
  by (rule quiet_trans)

lemma quiet_change [quiets]: "quiet p (change p)"
  unfolding change_def by (intro quiets) (simp add: quietEntry_def)

lemma quiet_unsaved [quiets]: "quiet p (deliverHandoffUnsaved evs p)"
  unfolding deliverHandoffUnsaved_def by (intro quiets)

lemma quiet_rejectWaiters [quiets]: "quiet p (rejectWaiters p)"
  unfolding rejectWaiters_def
  by (auto simp: quietEntry_def split: option.split intro!: quiet_after [OF quiet_modEntry] quiets)

lemma quiet_kickPoisoned [quiets]: "quiet p (kickPoisoned p)"
  unfolding kickPoisoned_def by (intro quiets) (simp add: quietEntry_def)

lemma quiet_appendPoisoned [quiets]: "quiet p (appendPoisoned rows front p)"
  unfolding appendPoisoned_def by (auto simp: quietEntry_def intro!: quiet_after [OF quiet_kickPoisoned] quiets)

lemma quiet_poison [quiets]: "quiet p (poison err p)"
  unfolding poison_def Let_def
  by (auto simp: quietEntry_def split: option.split
      intro!: quiet_after [OF quiet_kickPoisoned] quiet_after [OF quiet_unsaved] quiet_after [OF quiet_rejectWaiters]
        quiet_after [OF quiet_appendPoisoned] quiets)

lemma quiet_served: "quiet p (q\<lparr>pr_pcServed := b\<rparr>) \<longleftrightarrow> quiet p q"
  by (cases "pr_entry p") (simp_all add: quiet_def memOk_def)

lemma quiet_pump [quiets]: "quiet p (pumpPoisoned p)"
  unfolding pumpPoisoned_def
  by (auto simp: quietEntry_def quiet_served split: option.split intro!: quiet_modEntry)

lemma quiet_runPoisoned [quiets]: "quiet p (runPoisoned r p)"
proof (cases r)
  case PcWritten
  then show ?thesis unfolding runPoisoned_def Let_def
    by (auto simp: quietEntry_def split: option.split intro!: quiet_after [OF quiet_pump] quiet_after [OF quiet_modOut] quiet_modEntry)
next
  case PcData
  then show ?thesis unfolding runPoisoned_def Let_def
    by (auto simp: quietEntry_def split: option.split intro!: quiet_after [OF quiet_pump] quiet_modEntry)
next
  case PcRetry
  then show ?thesis unfolding runPoisoned_def Let_def
    by (auto simp: quietEntry_def split: option.split intro!: quiet_trans [OF quiet_modEntry quiet_modEntry])
qed

lemma quiet_mem:
  assumes "sm_seqs mem = sm_seqs (pr_mem p)" "sm_states mem = sm_states (pr_mem p)"
  shows "quiet p (p\<lparr>pr_mem := mem\<rparr>)"
proof -
  have st: "stateOf mem s = stateOf (pr_mem p) s" "lastSeqOf mem s = lastSeqOf (pr_mem p) s" for s
    using assms(2) by (simp_all add: stateOf_def lastSeqOf_def)
  then have "memOk p \<longrightarrow> memOk (p\<lparr>pr_mem := mem\<rparr>)" using assms(1) by (simp add: memOk_def numbersOk_def)
  then show ?thesis using assms(1) st by (simp add: quiet_def split: option.split)
qed

lemma quiet_newMessage: "quiet p (newMessage m p)"
proof -
  have "memOk p \<longrightarrow> memOk (newMessage m p)"
    by (auto simp: memOk_def newMessage_def list_all_iff less_SucI)
  then show ?thesis by (simp add: quiet_def newMessage_def split: option.split)
qed

lemma quiet_arrange: "quiet p (arrange arr st p)"
  by (simp add: quiet_def arrange_def memOk_def split: option.split)

lemma quiet_orders: "quiet p (p\<lparr>pr_orders := m\<rparr>)"
  by (simp add: quiet_def memOk_def split: option.split)

lemma quiet_orders_of: "quiet p q \<Longrightarrow> quiet p (q\<lparr>pr_orders := m\<rparr>)"
  by (rule quiet_trans [OF _ quiet_orders])

lemma quiet_writable: "quiet p (p\<lparr>pr_writable := b\<rparr>)"
  by (simp add: quiet_def memOk_def split: option.split)

lemma quiet_voided: "quiet p (p\<lparr>pr_voided := v\<rparr>)"
  by (simp add: quiet_def memOk_def split: option.split)

lemma quiet_onEntry: "(\<And>e. pr_entry p = Some e \<Longrightarrow> quiet p (f e p)) \<Longrightarrow> quiet p (onEntry f p)"
  by (simp add: onEntry_def split: option.split)

lemma quiet_flush: "quiet p (flushSession i p)"
  unfolding flushSession_def by (auto simp: quietEntry_def split: option.split intro!: quiets)

lemma quiet_flushTimeout: "quiet p (flushTimeout i p)"
  unfolding flushTimeout_def
  by (auto simp: quietEntry_def split: option.split intro!: quiet_after [OF quiet_modOut] quiet_modEntry)

lemma quiet_hold: "quiet p (snd (holdForPurge p))"
  unfolding holdForPurge_def by (auto simp: quietEntry_def split: option.split intro!: quiets)

lemma quiet_applied: "quiet p (snd (jobOpApplied i p))"
proof (cases "pr_entry p")
  case (Some e)
  have "quiet p (modEntry (\<lambda>e. e\<lparr>en_applied := filter (\<lambda>x. x \<noteq> i) (en_applied e)\<rparr>) p)"
    by (intro quiets) (simp add: quietEntry_def)
  then show ?thesis using Some by (simp add: jobOpApplied_def modEntry_def)
qed (simp add: jobOpApplied_def)

lemma quiet_pcTask: "quiet p (pcTask p)"
  unfolding pcTask_def by (auto simp: quietEntry_def intro!: quiet_onEntry quiet_after [OF quiet_pump] quiet_modEntry)

lemma quiet_pcTimerTask: "quiet p (pcTimerTask p)"
  unfolding pcTimerTask_def by (auto simp: quietEntry_def intro!: quiet_onEntry quiet_after [OF quiet_pump] quiet_modEntry)

lemma quiet_answerPc: "quiet p (answerPc r p)"
  unfolding answerPc_def by (auto intro: quiets)

subsection \<open>The queue of a conversation that has none yet\<close>

lemma procOk_entryOf:
  assumes "procOk p db limbo base"
  shows "procOk (entryOf p) db limbo base"
proof (cases "pr_entry p")
  case None
  then have i: "idleOk p db limbo base" using assms by (simp add: procOk_def)
  then have "filter (numbered (sm_seqs (pr_mem p))) xs = []" for xs
    by (simp add: idleOk_def numbered_def)
  then show ?thesis using None assms i
    by (auto simp: procOk_def entryOf_def entryOk_def idleOk_def newEntry_def lastOf_def memOk_def)
qed (use assms in \<open>simp add: entryOf_def\<close>)

lemma procOk_queued: "procOk p db limbo base \<Longrightarrow> quiet (entryOf p) q \<Longrightarrow> procOk q db limbo base"
  by (rule procOk_quiet [OF procOk_entryOf])

lemma quiet_queueSide: "quiet (entryOf p) (queueSide f p)"
  unfolding queueSide_def by (auto simp: quietEntry_def intro!: quiet_after [OF quiet_change] quiet_modEntry)

lemmas side_ops = queueAudit_def queueJobs_def queueConsents_def queueAttachment_def queueAttachmentResult_def

lemma quiet_side:
  "quiet (entryOf p) (queueAudit a p)" "quiet (entryOf p) (queueJobs ops p)" "quiet (entryOf p) (queueConsents cs p)"
  "quiet (entryOf p) (queueAttachment at' p)" "quiet (entryOf p) (queueAttachmentResult r p)"
  by (simp_all add: side_ops quiet_queueSide)

lemma quiet_channel_ops:
  "quiet (entryOf p) (queueTelemetry t p)" "quiet (entryOf p) (queueChannel rows p)" "quiet (entryOf p) (queueInbox ws p)"
  unfolding queueTelemetry_def queueChannel_def queueInbox_def
  by (auto simp: quietEntry_def intro!: quiet_onEntry quiets quiet_after [OF quiet_change] quiet_modEntry)

lemma quiet_emit: "quiet (entryOf p) (emitAfterCommit v p)"
proof -
  have q: "quiet (entryOf p) (change (modEntry (\<lambda>e. e\<lparr>en_events := en_events e @ [v]\<rparr>) (entryOf p)))"
    by (auto simp: quietEntry_def intro!: quiet_after [OF quiet_change] quiet_modEntry)
  show ?thesis unfolding emitAfterCommit_def Let_def
    by (auto split: option.split intro: q quiet_trans [OF q quiet_unsaved])
qed

lemma quiet_voidOrder: "quiet (entryOf p) (voidOrder i od now reason p)"
  unfolding voidOrder_def Let_def
  by (auto simp: quietEntry_def intro!: quiet_after [OF quiet_change] quiet_trans [OF quiet_voided quiet_modEntry])

lemma scheduleOrder_cases: "scheduleOrder i p = p \<or> quiet (entryOf p) (scheduleOrder i p)"
  unfolding scheduleOrder_def Let_def
  by (auto simp: quietEntry_def split: option.split intro!: quiet_after [OF quiet_change] quiet_modEntry)

subsection \<open>Saving\<close>

lemma procOk_entry: "procOk p db limbo base \<Longrightarrow> pr_entry p = Some e \<Longrightarrow> entryOk p e db limbo base"
  by (simp add: procOk_def)

lemma procOk_mem: "procOk p db limbo base \<Longrightarrow> memOk p"
  by (simp add: procOk_def)

lemma pending_numbers:
  assumes "entryOk p e db limbo base" "m \<in> set (en_pending e)"
  shows "\<exists>n. sm_seqs (pr_mem p) m = Some n \<and> en_committedSeq e < n \<and> n \<le> lastNo p"
proof -
  have "sm_seqs (pr_mem p) m \<in> set (map (sm_seqs (pr_mem p)) (en_pending e))" using assms(2) by simp
  also have "\<dots> = Some ` {en_committedSeq e + 1..<lastNo p + 1}"
    using assms(1) by (simp add: entryOk_def del: upt_Suc)
  finally show ?thesis by auto
qed

lemma procOk_fresh:
  assumes "procOk p db limbo base" "pr_entry p = Some e" "assignSeqs strict (pr_mem p) SELF (pr_messages p) = (Inr fresh, mem)"
  shows "procOk (pushFresh fresh (p\<lparr>pr_mem := mem\<rparr>)) db limbo base"
proof -
  have d: "distinct (objects (pr_messages p))" and lt: "\<And>m. m \<in> set (objects (pr_messages p)) \<Longrightarrow> m < pr_nextRef p"
    using procOk_mem [OF assms(1)] by (auto simp: memOk_def list_all_iff)
  note a = assigned [OF assms(3) d]
  have ok: "entryOk p e db limbo base" by (rule procOk_entry [OF assms(1,2)])
  let ?q = "p\<lparr>pr_mem := mem, pr_entry := Some (e\<lparr>en_pending := en_pending e @ fresh\<rparr>)\<rparr>"
  let ?e = "e\<lparr>en_pending := en_pending e @ fresh\<rparr>"
  have "numbered (sm_seqs mem) m \<Longrightarrow> m < pr_nextRef p" for m
    using a(3,6) lt procOk_mem [OF assms(1)] by (cases "m \<in> set fresh") (auto simp: memOk_def numbered_def)
  then have m: "memOk ?q"
    using procOk_mem [OF assms(1)] assigned_numbersOk [OF assms(3) d] by (auto simp: memOk_def)
  have keep: "sm_seqs mem x = sm_seqs (pr_mem p) x" if x: "x \<in> set (en_pending e)" for x
  proof (rule a(3))
    show "x \<notin> set fresh" using pending_numbers [OF ok x] a(4) [of x] by auto
  qed
  then have "map (sm_seqs mem) (en_pending e) = map (sm_seqs (pr_mem p)) (en_pending e)" by simp
  also have "\<dots> = map Some [en_committedSeq e + 1..<lastNo p + 1]" using ok by (simp only: entryOk_def)
  finally have pend: "map (sm_seqs mem) (en_pending e) = map Some [en_committedSeq e + 1..<lastNo p + 1]" .
  have le: "en_committedSeq e \<le> lastNo p" using ok by (simp add: entryOk_def)
  have "map (sm_seqs mem) (en_pending e @ fresh) = map Some ([en_committedSeq e + 1..<lastNo p + 1] @ [lastNo p + 1..<lastSeqOf mem SELF + 1])"
    unfolding map_append pend a(1) ..
  also have "[en_committedSeq e + 1..<lastNo p + 1] @ [lastNo p + 1..<lastSeqOf mem SELF + 1] = [en_committedSeq e + 1..<lastSeqOf mem SELF + 1]"
    by (rule upt_append) (use le a(2) in simp_all)
  finally have "map (sm_seqs (pr_mem ?q)) (en_pending ?e) = map Some [en_committedSeq ?e + 1..<lastNo ?q + 1]" by simp
  moreover have "snapRows mem (pr_heap p) (en_pending e @ fresh) s" if "en_inflight e = Some s" for s
    using that ok snap_short [OF ok] keep by (subst snapRows_cong [of "en_pending e" mem "pr_mem p" "pr_heap p" "pr_heap p"])
      (auto simp: entryOk_def snapOk_def)
  ultimately have "entryOk ?q ?e db limbo base"
    using ok a(2) by (auto simp: entryOk_def snapOk_def split: option.splits simp del: upt_Suc)
  then have q: "procOk ?q db limbo base" using assms(1) m by (simp add: procOk_def)
  have "modEntry (\<lambda>e. e\<lparr>en_pending := en_pending e @ fresh, en_msgids := en_msgids e @ customerMsgids (p\<lparr>pr_mem := mem\<rparr>) fresh\<rparr>) (p\<lparr>pr_mem := mem\<rparr>) =
      modEntry (\<lambda>e. e\<lparr>en_msgids := en_msgids e @ customerMsgids (p\<lparr>pr_mem := mem\<rparr>) fresh\<rparr>) ?q"
    using assms(2) by (simp add: modEntry_def)
  then show ?thesis unfolding pushFresh_def
    by (auto simp: quietEntry_def intro!: procOk_quiet [OF q] quiet_after [OF quiet_change] quiet_modEntry)
qed

lemma quiet_corrupt:
  assumes "assignSeqs strict (pr_mem p) SELF (pr_messages p) = (Inl c, mem)"
  shows "quiet p (p\<lparr>pr_mem := mem\<rparr>)"
  using assms by (intro quiet_mem) (auto simp: assignSeqs_def Let_def case_prod_beta split: if_splits option.splits)

lemma procOk_lenient:
  assumes "procOk p db limbo base" "pr_entry p = Some e"
  shows "procOk (lenientSave p) db limbo base"
proof -
  obtain r mem where r: "assignSeqs False (pr_mem p) SELF (pr_messages p) = (r, mem)" by fastforce
  then show ?thesis
    using procOk_fresh [OF assms] procOk_quiet [OF assms(1) quiet_corrupt]
    by (cases r) (simp_all add: lenientSave_def)
qed

lemma quiet_has_entry: "quiet p q \<Longrightarrow> pr_entry p = Some e \<Longrightarrow> \<exists>e'. pr_entry q = Some e'"
  by (auto simp: quiet_def)

lemma procOk_schedule:
  assumes "procOk p db limbo base"
  shows "procOk (schedule p) db limbo base"
proof -
  let ?p = "entryOf p"
  have ok: "procOk ?p db limbo base" by (rule procOk_entryOf [OF assms])
  have "pr_entry ?p \<noteq> None" by (cases "pr_entry p") (simp_all add: entryOf_def)
  then obtain e where e: "pr_entry ?p = Some e" by blast
  show ?thesis
  proof (cases "pz e")
    case True
    then show ?thesis using procOk_lenient [OF ok e] e by (simp add: schedule_def)
  next
    case False
    obtain r mem where r: "assignSeqs True (pr_mem ?p) SELF (pr_messages ?p) = (r, mem)" by fastforce
    show ?thesis
    proof (cases r)
      case (Inr fresh)
      then show ?thesis using False e r procOk_fresh [OF ok e] by (simp add: schedule_def)
    next
      case (Inl c)
      have q: "quiet ?p (poison EWindow (?p\<lparr>pr_mem := mem\<rparr>))"
        by (rule quiet_trans [OF quiet_corrupt [OF r [unfolded Inl]] quiet_poison])
      obtain e' where "pr_entry (poison EWindow (?p\<lparr>pr_mem := mem\<rparr>)) = Some e'" using quiet_has_entry [OF q e] by blast
      then show ?thesis using False e r Inl procOk_lenient [OF procOk_quiet [OF ok q]] by (simp add: schedule_def)
    qed
  qed
qed

subsection \<open>Starting a flush\<close>

lemma projectAll_Inr: "projectAll f xs = Inr ys \<Longrightarrow> list_all2 (\<lambda>x y. f x = Inr y) xs ys"
  by (induction xs arbitrary: ys) (auto split: sum.splits)

lemma messageToRow_seq: "messageToRow m seq turn = Inr r \<Longrightarrow> mv_seq r = seq"
  by (auto simp: messageToRow_def Let_def split: sum.splits)

lemma messageRow_said: "messageRow p m = Inr r \<Longrightarrow> saidRow (pr_mem p) (pr_heap p) m = Inr (said r)"
  by (auto simp: messageRow_def saidRow_def messageToRow_def seqOf_def said_def Let_def split: sum.splits)

lemma row_numbers:
  assumes "list_all2 (\<lambda>m r. messageRow p m = Inr r) ms rows" "map (sm_seqs (pr_mem p)) ms = map Some ns"
  shows "map mv_seq rows = ns"
  using assms
proof (induction arbitrary: ns rule: list_all2_induct)
  case (Cons m ms r rows)
  then obtain n ns' where "ns = n # ns'" "sm_seqs (pr_mem p) m = Some n" by (cases ns) auto
  then show ?case using Cons by (auto simp: messageRow_def seqOf_def dest: messageToRow_seq)
qed simp

lemma takeSnapshotE:
  assumes "takeSnapshot p e = Inr (s, e')" "entryOk p e db limbo base"
  shows "sn_flushId s = pr_uuid p" "sn_baseSeq s = en_committedSeq e" "sn_lastSeq s = lastNo p"
    "sn_windowStart s = windowStartOf (pr_mem p) SELF" "\<not> sn_dead s" "sn_gen s = en_gen e"
    "map mv_seq (sn_messages s) = [en_committedSeq e + 1..<lastNo p + 1]"
    "list_all2 (\<lambda>m r. messageRow p m = Inr r) (en_pending e) (sn_messages s)"
    "sn_side s = en_side e" "sn_channel s = en_channel e" "sn_inbox s = en_inbox e"
    "e' = e\<lparr>en_orderIds := [], en_voids := [], en_side := noSide, en_telemetry := emptyTelemetry, en_channel := [], en_inbox := [], en_events := []\<rparr>"
proof -
  obtain live voids msgs vals where p: "projectAll (messageRow p) (en_pending e) = Inr msgs"
    and s: "s = \<lparr>sn_flushId = pr_uuid p, sn_gen = en_gen e, sn_baseSeq = en_committedSeq e, sn_lastSeq = lastNo p,
              sn_windowStart = windowStartOf (pr_mem p) SELF, sn_messages = msgs, sn_values = vals, sn_orders = live @ voids,
              sn_side = en_side e, sn_telemetry = en_telemetry e, sn_channel = en_channel e, sn_inbox = en_inbox e,
              sn_events = en_events e, sn_applied = [], sn_dead = False\<rparr>"
    and e': "e' = e\<lparr>en_orderIds := [], en_voids := [], en_side := noSide, en_telemetry := emptyTelemetry, en_channel := [], en_inbox := [], en_events := []\<rparr>"
    using assms(1) by (auto simp: takeSnapshot_def Let_def split: if_splits sum.splits)
  have all: "list_all2 (\<lambda>m r. messageRow p m = Inr r) (en_pending e) msgs" by (rule projectAll_Inr [OF p])
  have "map (sm_seqs (pr_mem p)) (en_pending e) = map Some [en_committedSeq e + 1..<lastNo p + 1]"
    using assms(2) by (simp only: entryOk_def)
  then have "map mv_seq msgs = [en_committedSeq e + 1..<lastNo p + 1]" by (rule row_numbers [OF all])
  then show "map mv_seq (sn_messages s) = [en_committedSeq e + 1..<lastNo p + 1]" by (simp add: s)
  show "sn_flushId s = pr_uuid p" "sn_baseSeq s = en_committedSeq e" "sn_lastSeq s = lastNo p"
    "sn_windowStart s = windowStartOf (pr_mem p) SELF" "\<not> sn_dead s" "sn_gen s = en_gen e"
    "list_all2 (\<lambda>m r. messageRow p m = Inr r) (en_pending e) (sn_messages s)"
    "sn_side s = en_side e" "sn_channel s = en_channel e" "sn_inbox s = en_inbox e"
    using all by (simp_all add: s)
  show "e' = e\<lparr>en_orderIds := [], en_voids := [], en_side := noSide, en_telemetry := emptyTelemetry, en_channel := [], en_inbox := [], en_events := []\<rparr>"
    by (rule e')
qed

lemma memOk_window: "memOk p \<Longrightarrow> windowOk (windowStartOf (pr_mem p) SELF) (lastNo p)"
  by (simp add: memOk_def numbersOk_def seqStateOk_def windowOk_def windowStartOf_def lastSeqOf_def)

lemma procOk_kick:
  assumes "procOk p db limbo base"
  shows "procOk (kick p) db limbo base"
proof (cases "pr_entry p")
  case (Some e)
  note ok = procOk_entry [OF assms Some]
  show ?thesis
  proof (cases "pr_closed p \<or> pr_conflict p \<or> pz e \<or> en_inflight e \<noteq> None \<or> en_purgeHeld e \<or> \<not> isDirty e \<or> \<not> pr_writable p")
    case True
    then show ?thesis using assms Some by (auto simp: kick_def)
  next
    case False
    show ?thesis
    proof (cases "takeSnapshot p e")
      case (Inl err)
      then show ?thesis using False Some procOk_quiet [OF assms quiet_poison] by (simp add: kick_def)
    next
      case (Inr x)
      obtain s e' where x: "x = (s, e')" by fastforce
      note t = takeSnapshotE [OF Inr [unfolded x] ok]
      let ?e = "e'\<lparr>en_inflight := Some s\<rparr>"
      let ?q = "p\<lparr>pr_entry := Some ?e, pr_tx := TxRunning, pr_uuid := pr_uuid p + 1\<rparr>"
      have kick: "kick p = ?q" using False Some Inr x by (simp add: kick_def)
      have idle: "pr_tx p = TxNone" "limbo = None" "core (pz e) db = core (pz e) base" "\<not> en_timer e"
        using ok False by (auto simp: entryOk_def)
      have old: "flushOf base \<noteq> Some (pr_uuid p)" using assms unfolding procOk_def by (metis less_irrefl)
      have "continues base s"
        using ok assms old t memOk_window [OF procOk_mem [OF assms]]
        by (simp add: continues_def entryOk_def procOk_def del: upt_Suc)
      moreover have "snapRows (pr_mem p) (pr_heap p) (en_pending e) s"
        using list_all2_mono [OF t(8) messageRow_said] list_all2_lengthD [OF t(8)] by (simp add: snapRows_def)
      ultimately have "snapOk ?q ?e base s" using t by (simp add: snapOk_def del: upt_Suc)
      moreover have "place (pz ?e) (en_ref ?e) db limbo base TxRunning s"
        using idle t(12) by (simp add: place_def)
      ultimately have "entryOk ?q ?e db limbo base" using ok idle t(12) by (simp add: entryOk_def del: upt_Suc)
      moreover have "memOk ?q" using procOk_mem [OF assms] by (simp add: memOk_def)
      ultimately show ?thesis unfolding kick using assms by (auto simp: procOk_def)
    qed
  qed
qed (use assms in \<open>simp add: kick_def\<close>)

end
