(* ===== verification/StoreServer.thy ===== *)
theory StoreServer
  imports StoreFacts
begin

text \<open>
  The invariant of \<open>StoreFacts\<close> under the timers, the server, the connection and the answers.
\<close>

section \<open>Timers and holds\<close>

definition untimed :: "proc \<Rightarrow> proc" where
  "untimed p = modEntry (\<lambda>e. e\<lparr>en_timer := False\<rparr>) p"

lemma procOk_untimed:
  assumes "procOk p db limbo base"
  shows "procOk (untimed p) db limbo base"
proof (cases "pr_entry p")
  case (Some e)
  then show ?thesis using assms procOk_entry [OF assms Some]
    by (auto simp: procOk_def untimed_def modEntry_def memOk_def entryOk_def snapOk_def split: option.splits)
qed (use assms in \<open>simp add: untimed_def modEntry_def procOk_def memOk_def idleOk_def\<close>)

lemma procOk_rerun:
  assumes "procOk p db limbo base" "pr_entry p = Some e" "en_timer e"
  shows "procOk ((untimed p)\<lparr>pr_tx := TxRunning\<rparr>) db limbo base"
proof -
  note ok = procOk_entry [OF assms(1,2)]
  then obtain s where s: "en_inflight e = Some s" "pr_tx p = TxNone" using assms(3) by (auto simp: entryOk_def)
  then have "place (pz e) (en_ref e) db limbo base TxRunning s"
    using ok by (auto simp: entryOk_def place_def split: option.splits)
  then have "entryOk ((untimed p)\<lparr>pr_tx := TxRunning\<rparr>) (e\<lparr>en_timer := False\<rparr>) db limbo base"
    using ok s assms(3) by (auto simp: entryOk_def snapOk_def untimed_def modEntry_def simp del: upt_Suc)
  then show ?thesis using assms by (simp add: procOk_def untimed_def modEntry_def memOk_def)
qed

lemma procOk_retryTimer: "procOk p db limbo base \<Longrightarrow> procOk (retryTimer p) db limbo base"
  using procOk_untimed [of p db limbo base] procOk_rerun [of p db limbo base]
  by (simp add: retryTimer_def Let_def untimed_def split: option.split)

lemma procOk_onEntry:
  "procOk p db limbo base \<Longrightarrow> (\<And>e. pr_entry p = Some e \<Longrightarrow> procOk (f e p) db limbo base) \<Longrightarrow> procOk (onEntry f p) db limbo base"
  by (simp add: onEntry_def split: option.split)

lemma quiet_flags: "quiet p (modEntry (\<lambda>e. e\<lparr>en_kickQueued := b\<rparr>) p)" "quiet p (modEntry (\<lambda>e. e\<lparr>en_purgeHeld := b\<rparr>) p)"
    "quiet p (modEntry (\<lambda>e. e\<lparr>en_pcTimer := b\<rparr>) p)"
  by (auto simp: quietEntry_def intro!: quiet_modEntry)

lemma procOk_kickTask:
  assumes "procOk p db limbo base"
  shows "procOk (kickTask p) db limbo base"
  unfolding kickTask_def
  by (rule procOk_onEntry [OF assms]) (simp add: assms procOk_kick [OF procOk_quiet [OF assms quiet_flags(1)]])

lemma procOk_releaseHold:
  assumes "procOk p db limbo base"
  shows "procOk (releaseHold p) db limbo base"
  unfolding releaseHold_def
  by (rule procOk_onEntry [OF procOk_quiet [OF assms quiet_flags(2)]])
    (simp add: procOk_quiet [OF assms quiet_flags(2)] procOk_kick [OF procOk_quiet [OF assms quiet_flags(2)]])

lemma procOk_drainStart:
  assumes "procOk p db limbo base"
  shows "procOk (drainStart p) db limbo base"
proof -
  have "procOk (pumpPoisoned (modEntry (\<lambda>e. e\<lparr>en_pcTimer := False\<rparr>) p)) db limbo base"
    by (rule procOk_quiet [OF assms quiet_trans [OF quiet_flags(3) quiet_pump]])
  then show ?thesis
    using assms procOk_rerun [OF assms] procOk_kick [OF assms] by (auto simp: drainStart_def untimed_def split: option.split)
qed

lemma procOk_close:
  assumes "procOk p db limbo base"
  shows "procOk (close p) db limbo base"
proof -
  have "quiet (untimed p) (close p)"
    by (cases "pr_entry p") (simp_all add: quiet_def close_def untimed_def modEntry_def memOk_def quietEntry_def)
  then show ?thesis by (rule procOk_quiet [OF procOk_untimed [OF assms]])
qed

section \<open>The server\<close>

lemma flushTo_applied [simp]:
  "flushTo ref db (s\<lparr>sn_applied := xs\<rparr>) = flushTo ref db s" "continues db (s\<lparr>sn_applied := xs\<rparr>) = continues db s"
  by (simp_all add: flushTo_def flushedRow_def continues_def)

lemma snapRows_applied [simp]: "snapRows mem heap pend (s\<lparr>sn_applied := xs\<rparr>) = snapRows mem heap pend s"
  by (simp add: snapRows_def)

lemma ahead_applied [simp]: "ahead z ref db base (s\<lparr>sn_applied := xs\<rparr>) = ahead z ref db base s"
  by (simp add: ahead_def)

lemma undecided_applied [simp]: "undecided z ref db t base (s\<lparr>sn_applied := xs\<rparr>) = undecided z ref db t base s"
  by (simp add: undecided_def)

lemma place_applied [simp]: "place z ref db limbo base tx (s\<lparr>sn_applied := xs\<rparr>) = place z ref db limbo base tx s"
  by (cases limbo; cases tx) (simp_all add: place_def)

definition resolveTo :: "store_db \<Rightarrow> store_db option \<Rightarrow> bool \<Rightarrow> store_db" where
  "resolveTo db limbo b = (case limbo of None \<Rightarrow> db | Some t \<Rightarrow> if b then commitTx db t else db)"

lemma resolved_resolveTo: "resolved w b = resolveTo (wd_db w) (wd_limbo w) b"
  by (simp add: resolved_def resolveTo_def)

lemma place_resolved:
  assumes "place z ref db limbo base tx s"
  shows "core z (resolveTo db limbo b) = core z base \<or> ahead z ref (resolveTo db limbo b) base s"
  using assms by (auto simp: place_def undecided_def resolveTo_def split: option.splits)

lemma ahead_facts:
  assumes "ahead z ref db base s" "continues base s"
  shows "dbOk db" "lastOf db = sn_lastSeq s" "flushOf db = Some (sn_flushId s)" "sd_conv db \<noteq> None"
  using core_cong [OF assms(1) [unfolded ahead_def]] flushTo_facts [OF assms(2), of ref] by simp_all

lemma core_False: "core False a = core False b \<Longrightarrow> core z a = core z b"
  by (simp add: core_def split: if_splits)

text \<open>What an attempt makes of the database once nothing is in limbo any more.\<close>

lemma attempt_result:
  assumes "core z later = core z base \<or> ahead z (en_ref e) later base s" "continues base s" "en_inDb e = (sd_conv base \<noteq> None)"
  obtains t applied where "writeSnap env (bare later) (bare later) e s = FlushWrites t applied" "undecided z (en_ref e) later t base s"
  | "writeSnap env (bare later) (bare later) e s = FlushAlready" "ahead z (en_ref e) later base s"
proof (cases "core z later = core z base")
  case True
  have c: "continues later s" using assms(2) continues_cong [OF True] by simp
  have n: "sd_conv later = None \<Longrightarrow> \<not> en_inDb e" using assms(3) core_cong(1) [OF True] by simp
  then obtain t applied where t: "writeSnap env (bare later) (bare later) e s = FlushWrites t applied"
      "core False (commitTx later t) = core False (flushTo (en_ref e) later s)"
    using writeSnap_fresh [OF c n] by blast
  have "core z (commitTx later t) = core z (flushTo (en_ref e) base s)"
    using core_False [OF t(2)] flushTo_cong [OF True] by metis
  then show ?thesis using that(1) [OF t(1)] True by (simp add: undecided_def ahead_def)
next
  case False
  then have a: "ahead z (en_ref e) later base s" using assms(1) by blast
  show ?thesis using that(2) [OF writeSnap_again a] ahead_facts [OF a assms(2)] by simp
qed

lemma procOk_attempt:
  fixes db limbo b
  defines "later \<equiv> resolveTo db limbo b"
  assumes "procOk p db limbo base" "pr_tx p = TxRunning"
  shows "procOk (runAttempt env (bare (if sd_conv db = None then db else later)) (bare later) p) later None base"
proof -
  obtain e s where e: "pr_entry p = Some e" "en_inflight e = Some s"
    using assms(2,3) by (auto simp: procOk_def idleOk_def entryOk_def split: option.splits)
  note ok = procOk_entry [OF assms(2) e(1)]
  have pl: "place (pz e) (en_ref e) db limbo base (pr_tx p) s" and sn: "snapOk p e base s" using ok e by (auto simp: entryOk_def)
  have res: "core (pz e) later = core (pz e) base \<or> ahead (pz e) (en_ref e) later base s"
    unfolding later_def by (rule place_resolved [OF pl])
  have cont: "continues base s" and inDb: "en_inDb e = (sd_conv base \<noteq> None)" using sn ok by (auto simp: snapOk_def entryOk_def)
  have wait: "writeSnap env (bare (if sd_conv db = None then db else later)) (bare later) e s = writeSnap env (bare later) (bare later) e s"
  proof (cases "sd_conv db = None \<and> limbo \<noteq> None")
    case True
    then have "core (pz e) db = core (pz e) base" using pl by (auto simp: place_def undecided_def)
    then have "sd_conv base = None" using True core_cong(1) by metis
    then show ?thesis using True inDb cont by (simp add: writeSnap_waits continues_def lastOf_def)
  next
    case False
    then show ?thesis by (auto simp: later_def resolveTo_def)
  qed
  define r where "r = writeSnap env (bare later) (bare later) e s"
  define s' where "s' = (case r of FlushWrites _ applied \<Rightarrow> s\<lparr>sn_applied := applied\<rparr> | _ \<Rightarrow> s)"
  have s'f: "flushTo ref x s' = flushTo ref x s" "continues x s' = continues x s" "sn_lastSeq s' = sn_lastSeq s" "sn_flushId s' = sn_flushId s"
    "sn_dead s' = sn_dead s" "snapRows mem heap pend s' = snapRows mem heap pend s" for ref x mem heap pend
    by (simp_all add: s'_def split: flush_result.split)
  have "place (pz e) (en_ref e) later None base (txOf r) s'"
  proof (rule attempt_result [OF res cont inDb, of env])
    fix t applied
    assume "writeSnap env (bare later) (bare later) e s = FlushWrites t applied" "undecided (pz e) (en_ref e) later t base s"
    then show ?thesis by (simp add: r_def s'_def txOf_def place_def undecided_def)
  next
    assume "writeSnap env (bare later) (bare later) e s = FlushAlready" "ahead (pz e) (en_ref e) later base s"
    then show ?thesis by (simp add: r_def s'_def txOf_def place_def)
  qed
  moreover have "snapOk (p\<lparr>pr_entry := Some (e\<lparr>en_inflight := Some s'\<rparr>), pr_tx := txOf r\<rparr>) (e\<lparr>en_inflight := Some s'\<rparr>) base s'"
    using sn assms(3) by (simp add: snapOk_def s'f)
  ultimately have "entryOk (p\<lparr>pr_entry := Some (e\<lparr>en_inflight := Some s'\<rparr>), pr_tx := txOf r\<rparr>) (e\<lparr>en_inflight := Some s'\<rparr>) later None base"
    using ok assms(3) by (simp add: entryOk_def del: upt_Suc)
  then show ?thesis
    using assms(2) e by (simp add: runAttempt_def wait Let_def r_def [symmetric] s'_def [symmetric] procOk_def memOk_def)
qed

lemma procOk_tx:
  assumes "procOk p db limbo base" "pr_tx p \<noteq> TxNone"
    and "\<And>e s. place (pz e) (en_ref e) db limbo base (pr_tx p) s \<Longrightarrow> place (pz e) (en_ref e) db' limbo' base tx s"
  shows "procOk (p\<lparr>pr_tx := tx\<rparr>) db' limbo' base"
proof -
  obtain e s where e: "pr_entry p = Some e" "en_inflight e = Some s"
    using assms(1,2) by (auto simp: procOk_def idleOk_def entryOk_def split: option.splits)
  note ok = procOk_entry [OF assms(1) e(1)]
  then have "entryOk (p\<lparr>pr_tx := tx\<rparr>) e db' limbo' base"
    using e assms(2,3) by (auto simp: entryOk_def snapOk_def simp del: upt_Suc)
  then show ?thesis using assms(1) e by (simp add: procOk_def memOk_def)
qed

lemma procOk_fails:
  assumes "procOk p db limbo base" "pr_tx p = TxRunning \<or> (\<exists>t. pr_tx p = TxReady t)" "classify err \<noteq> ClConflict"
  shows "procOk (p\<lparr>pr_tx := TxFailed err\<rparr>) db limbo base"
  by (rule procOk_tx [OF assms(1)])
    (use assms(2,3) in \<open>auto simp: place_def undecided_def split: option.splits\<close>)

lemma procOk_commit:
  assumes "procOk p db limbo base" "pr_tx p = TxReady t"
  shows "procOk (p\<lparr>pr_tx := TxDone\<rparr>) (commitTx db t) limbo base"
  by (rule procOk_tx [OF assms(1)])
    (use assms(2) in \<open>auto simp: place_def undecided_def split: option.splits\<close>)

lemma procOk_lost:
  assumes "procOk p db limbo base" "pr_tx p = TxReady t" "classify err = ClRetry"
  shows "procOk (p\<lparr>pr_tx := TxFailed err\<rparr>) db (Some t) base"
  by (rule procOk_tx [OF assms(1)])
    (use assms(2,3) in \<open>auto simp: place_def undecided_def split: option.splits\<close>)

lemma procOk_unheard:
  assumes "procOk p db limbo base" "pr_tx p = TxDone" "classify err = ClRetry"
  shows "procOk (p\<lparr>pr_tx := TxFailed err\<rparr>) db limbo base"
  by (rule procOk_tx [OF assms(1)])
    (use assms(2,3) in \<open>auto simp: place_def undecided_def split: option.splits\<close>)

lemma procOk_limbo:
  assumes "procOk p db limbo base"
  shows "procOk p (resolveTo db limbo b) None base"
proof (cases "pr_entry p")
  case None
  then show ?thesis using assms by (simp add: procOk_def idleOk_def resolveTo_def)
next
  case (Some e)
  note ok = procOk_entry [OF assms Some]
  have "entryOk p e (resolveTo db limbo b) None base"
  proof (cases "en_inflight e")
    case None
    then show ?thesis using ok by (simp add: entryOk_def resolveTo_def)
  next
    case (Some s)
    have "place (pz e) (en_ref e) (resolveTo db limbo b) None base (pr_tx p) s"
      using ok Some by (auto simp: entryOk_def place_def undecided_def resolveTo_def split: option.splits tx_state.splits)
    then show ?thesis using ok Some by (simp add: entryOk_def del: upt_Suc)
  qed
  then show ?thesis using assms Some by (simp add: procOk_def)
qed

section \<open>The answer\<close>

lemma filter_numbers:
  assumes "map f xs = map Some [a..<b]" "a \<le> c + 1" "c + 1 \<le> b"
  shows "map f (filter (\<lambda>m. (case f m of None \<Rightarrow> 0 | Some n \<Rightarrow> n) > c) xs) = map Some [c + 1..<b]"
proof -
  have "map f (filter (\<lambda>m. (case f m of None \<Rightarrow> 0 | Some n \<Rightarrow> n) > c) xs) = filter (\<lambda>y. (case y of None \<Rightarrow> 0 | Some n \<Rightarrow> n) > c) (map f xs)"
    by (simp add: filter_map comp_def)
  also have "\<dots> = map Some (filter (\<lambda>n. n > c) [a..<b])" unfolding assms(1) by (simp add: filter_map comp_def)
  also have "[a..<b] = [a..<c + 1] @ [c + 1..<b]" by (rule upt_append [symmetric, OF assms(2,3)])
  also have "filter (\<lambda>n. n > c) ([a..<c + 1] @ [c + 1..<b]) = [c + 1..<b]"
    by (simp add: filter_empty_conv filter_id_conv del: upt_Suc)
  finally show ?thesis .
qed

lemma procOk_afterCommit:
  assumes "procOk p db limbo base" "pr_tx p = TxDone \<or> pr_tx p = TxRecognized"
  shows "procOk (afterCommit p) db None db" and "limbo = None"
proof -
  obtain e s where e: "pr_entry p = Some e" "en_inflight e = Some s"
    using assms by (auto simp: procOk_def idleOk_def entryOk_def split: option.splits)
  note ok = procOk_entry [OF assms(1) e(1)]
  have pl: "place (pz e) (en_ref e) db limbo base (pr_tx p) s" and sn: "snapOk p e base s" using ok e by (auto simp: entryOk_def)
  show l: "limbo = None" using pl assms(2) by (auto simp: place_def split: option.splits)
  have a: "ahead (pz e) (en_ref e) db base s" using pl assms(2) by (auto simp: place_def)
  have cont: "continues base s" using sn by (simp add: snapOk_def)
  note f = ahead_facts [OF a cont]
  let ?seq = "\<lambda>m. case seqOf (pr_mem p) m of None \<Rightarrow> 0 | Some n \<Rightarrow> n"
  define e1 where "e1 = e\<lparr>en_inflight := None, en_attempts := 0, en_inDb := True, en_committedSeq := sn_lastSeq s,
                     en_pending := filter (\<lambda>m. ?seq m > sn_lastSeq s) (en_pending e),
                     en_committedGen := sn_gen s, en_applied := en_applied e @ sn_applied s,
                     en_waiters := filter (\<lambda>w. snd w > sn_gen s) (en_waiters e)\<rparr>"
  define p1 where "p1 = (modOut (\<lambda>w. w\<lparr>so_outbound := so_outbound w @ sn_channel s, so_committed := so_committed w @ sn_events s,
                         so_resolved := so_resolved w @ map fst (filter (\<lambda>w. snd w \<le> sn_gen s) (en_waiters e))\<rparr>)
                     (p\<lparr>pr_entry := Some e1, pr_tx := TxNone\<rparr>))"
  have ac: "afterCommit p = (if en_poisoned e1 \<noteq> None then kickPoisoned (kick p1) else kick p1)"
    unfolding afterCommit_def e1_def p1_def Let_def by (simp only: e option.case)
  have "map (sm_seqs (pr_mem p)) (filter (\<lambda>m. (case sm_seqs (pr_mem p) m of None \<Rightarrow> 0 | Some n \<Rightarrow> n) > sn_lastSeq s) (en_pending e)) =
      map Some [sn_lastSeq s + 1..<lastNo p + 1]"
    by (rule filter_numbers [where a = "en_committedSeq e + 1"])
      (use ok sn cont in \<open>auto simp: entryOk_def snapOk_def continues_def simp del: upt_Suc\<close>)
  then have "map (sm_seqs (pr_mem p)) (en_pending e1) = map Some [sn_lastSeq s + 1..<lastNo p + 1]"
    by (simp add: e1_def seqOf_def del: upt_Suc)
  then have "entryOk (p\<lparr>pr_entry := Some e1, pr_tx := TxNone\<rparr>) e1 db None db"
    using ok sn f assms(2) by (auto simp: entryOk_def e1_def snapOk_def simp del: upt_Suc)
  then have "procOk (p\<lparr>pr_entry := Some e1, pr_tx := TxNone\<rparr>) db None db"
    using assms(1) f sn by (simp add: procOk_def memOk_def snapOk_def)
  then have "procOk p1 db None db" unfolding p1_def by (rule procOk_quiet [OF _ quiet_modOut])
  then have "procOk (kick p1) db None db" by (rule procOk_kick)
  then show "procOk (afterCommit p) db None db"
    unfolding ac by (auto intro: procOk_quiet [OF _ quiet_kickPoisoned])
qed

text \<open>The parts of a dead snapshot that stay are those the database may already have.\<close>

definition deadSnap :: "snap \<Rightarrow> snap" where
  "deadSnap s = (withoutChannelRows s)\<lparr>sn_dead := True, sn_telemetry := emptyTelemetry\<rparr>"

lemma deadSnap_simps [simp]:
  "continues db (deadSnap s) = continues db s" "sn_lastSeq (deadSnap s) = sn_lastSeq s" "sn_flushId (deadSnap s) = sn_flushId s"
  "snapRows mem heap pend (deadSnap s) = snapRows mem heap pend s"
  by (simp_all add: deadSnap_def withoutChannelRows_def continues_def snapRows_def)

lemma ahead_dead: "ahead z ref db base s \<Longrightarrow> ahead True ref db base (deadSnap s)"
  by (auto simp: ahead_def core_def flushTo_def flushedRow_def deadSnap_def withoutChannelRows_def Let_def)

lemma place_dead:
  assumes "place z ref db limbo base (TxFailed err) s"
  shows "place True ref db limbo base TxNone (deadSnap s)"
proof -
  have c: "core z db = core z base \<Longrightarrow> core True db = core True base" by (auto intro: core_weaker)
  show ?thesis using assms c ahead_dead by (auto simp: place_def undecided_def split: option.splits)
qed

lemma quiet_poisons:
  assumes "pr_entry p = Some e"
  shows "\<exists>e'. pr_entry (kickPoisoned (poison err p)) = Some e' \<and> quietEntry e e' \<and> pz e'"
proof -
  have "quiet p (kickPoisoned (poison err p))" by (rule quiet_trans [OF quiet_poison quiet_kickPoisoned])
  then obtain e' where e': "pr_entry (kickPoisoned (poison err p)) = Some e'" "quietEntry e e'" using assms by (auto simp: quiet_def)
  have keeps: "quiet q q' \<Longrightarrow> \<exists>x. pr_entry q = Some x \<and> pz x \<Longrightarrow> \<exists>x. pr_entry q' = Some x \<and> pz x" for q q'
    by (auto simp: quiet_def quietEntry_def)
  have "\<exists>x. pr_entry (poison err p) = Some x \<and> pz x"
  proof (cases "pz e")
    case True
    then show ?thesis using keeps [OF quiet_poison] assms by blast
  next
    case False
    have "\<exists>x. pr_entry (modEntry (\<lambda>e. e\<lparr>en_poisoned := Some err, en_channel := [], en_inbox := [], en_telemetry := emptyTelemetry\<rparr>) p) = Some x \<and> pz x"
      using assms by (simp add: modEntry_def)
    then show ?thesis using False assms unfolding poison_def Let_def
      by (simp del: not_None_eq) (intro keeps [OF quiet_kickPoisoned] keeps [OF quiet_unsaved] keeps [OF quiet_rejectWaiters] keeps [OF quiet_appendPoisoned])
  qed
  then have "\<exists>x. pr_entry (kickPoisoned (poison err p)) = Some x \<and> pz x" by (rule keeps [OF quiet_kickPoisoned])
  then show ?thesis using e' by auto
qed

lemma procOk_failed:
  assumes "procOk p db limbo base" "pr_tx p = TxFailed err"
  shows "procOk (failed err p) db limbo base"
proof -
  obtain e s where e: "pr_entry p = Some e" "en_inflight e = Some s"
    using assms by (auto simp: procOk_def idleOk_def entryOk_def split: option.splits)
  note ok = procOk_entry [OF assms(1) e(1)]
  have pl: "place (pz e) (en_ref e) db limbo base (TxFailed err) s" and sn: "snapOk p e base s"
    and nt: "\<not> en_timer e" using ok e assms(2) by (auto simp: entryOk_def)
  have nc: "classify err \<noteq> ClConflict" using pl by (simp add: place_def)
  have idle: "place (pz e) (en_ref e) db limbo base TxNone s" using pl by (auto simp: place_def split: option.splits)
  let ?p0 = "p\<lparr>pr_tx := TxNone\<rparr>"
  show ?thesis
  proof (cases "classify err")
    case ClRetry
    have "entryOk ?p0 e db limbo base" using ok e idle sn nt assms(2) by (simp add: entryOk_def snapOk_def del: upt_Suc)
    then have p0: "procOk ?p0 db limbo base" using assms(1) e by (simp add: procOk_def memOk_def)
    let ?p1 = "deliverHandoffUnsaved (sn_events s @ en_events e) ?p0"
    have p1: "procOk ?p1 db limbo base" by (rule procOk_quiet [OF p0 quiet_unsaved])
    let ?e2 = "e\<lparr>en_attempts := en_attempts e + 1, en_timer := True\<rparr>"
    have "entryOk (?p1\<lparr>pr_entry := Some ?e2\<rparr>) ?e2 db limbo base"
      using ok e idle sn nt assms(2)
      by (auto simp: entryOk_def snapOk_def deliverHandoffUnsaved_def modOut_def simp del: upt_Suc)
    moreover have "modEntry (\<lambda>e. e\<lparr>en_attempts := en_attempts e + 1, en_timer := True\<rparr>) ?p1 = ?p1\<lparr>pr_entry := Some ?e2\<rparr>"
      by (simp add: modEntry_def deliverHandoffUnsaved_def modOut_def e(1))
    ultimately have "procOk (modEntry (\<lambda>e. e\<lparr>en_attempts := en_attempts e + 1, en_timer := True\<rparr>) ?p1) db limbo base"
      using p1 by (simp add: procOk_def memOk_def)
    then show ?thesis using ClRetry e p1 by (simp add: failed_def Let_def)
  next
    case ClData
    let ?p1 = "modEntry (\<lambda>e. e\<lparr>en_inflight := Some (deadSnap s)\<rparr>) ?p0"
    let ?p2 = "deliverHandoffUnsaved (sn_events s) (appendPoisoned (channelRowsOfSnap s) True ?p1)"
    have q2: "quiet ?p1 ?p2" by (rule quiet_trans [OF quiet_appendPoisoned quiet_unsaved])
    have "pr_entry ?p1 = Some (e\<lparr>en_inflight := Some (deadSnap s)\<rparr>)" by (simp add: modEntry_def e(1))
    then obtain e2 where e2: "pr_entry ?p2 = Some e2" "quietEntry (e\<lparr>en_inflight := Some (deadSnap s)\<rparr>) e2" using q2 by (auto simp: quiet_def)
    let ?p3 = "kickPoisoned (poison err ?p2)"
    have q3: "quiet ?p1 ?p3" by (rule quiet_trans [OF q2 quiet_trans [OF quiet_poison quiet_kickPoisoned]])
    obtain e3 where e3: "pr_entry ?p3 = Some e3" "quietEntry e2 e3" "pz e3" using quiet_poisons [OF e2(1)] by blast
    have qe: "quietEntry (e\<lparr>en_inflight := Some (deadSnap s)\<rparr>) e3" by (rule quietEntry_trans [OF e2(2) e3(2)])
    have mem: "memOk ?p3" and same: "sm_seqs (pr_mem ?p3) = sm_seqs (pr_mem p)" "lastNo ?p3 = lastNo p" "pr_tx ?p3 = TxNone"
      "pr_conflict ?p3 = pr_conflict p" "pr_uuid p \<le> pr_uuid ?p3"
      using q3 procOk_mem [OF assms(1)] by (auto simp: quiet_def memOk_def modEntry_def)
    have "snapRows (pr_mem ?p3) (pr_heap ?p3) (en_pending e @ []) s = snapRows (pr_mem p) (pr_heap p) (en_pending e) s"
      using q3 entryOk_pending_lt [OF ok procOk_mem [OF assms(1)]] snap_short [OF ok] sn same(1)
      by (intro snapRows_cong) (auto simp: quiet_def snapOk_def modEntry_def)
    then have "snapRows (pr_mem ?p3) (pr_heap ?p3) (en_pending e) s" using sn by (simp add: snapOk_def)
    then have "snapOk ?p3 e3 base (deadSnap s)" using sn e3(3) same qe nt by (simp add: snapOk_def quietEntry_def)
    moreover have "place (pz e3) (en_ref e3) db limbo base TxNone (deadSnap s)"
      using place_dead [OF pl] e3(3) qe by (simp add: quietEntry_def)
    ultimately have "entryOk ?p3 e3 db limbo base"
      using ok qe same nt by (simp add: entryOk_def quietEntry_def del: upt_Suc)
    then have "procOk ?p3 db limbo base" using assms(1) mem same e3(1) by (auto simp: procOk_def)
    then show ?thesis using ClData e by (simp add: failed_def Let_def deadSnap_def)
  qed (use nc in simp)
qed

section \<open>Short transactions of a poisoned conversation\<close>

lemma core_channel [simp]: "core True (writeChannelRows ok db rows) = core True db"
  by (simp add: core_def writeChannelRows_def)

lemma ahead_channel: "ahead True ref db base s \<Longrightarrow> ahead True ref (writeChannelRows ok db rows) (writeChannelRows ok' base rows') s"
  unfolding ahead_def using flushTo_cong [OF core_channel] by simp

lemma commit_channel: "core True (commitTx (writeChannelRows ok db rows) t) = core True (commitTx db t)"
  by (simp add: core_def commitTx_def)

lemma undecided_channel:
  "undecided True ref db t base s \<Longrightarrow> undecided True ref (writeChannelRows ok db rows) t (writeChannelRows ok' base rows') s"
  unfolding undecided_def ahead_def using flushTo_cong [OF core_channel] by (simp add: commit_channel)

lemma procOk_servePc:
  assumes "procOk p db limbo base" "pr_entry p = Some e" "pz e"
  shows "procOk (p\<lparr>pr_pcServed := b\<rparr>) (writeChannelRows ok db rows) limbo (writeChannelRows ok' base rows')"
proof -
  let ?db = "writeChannelRows ok db rows" and ?base = "writeChannelRows ok' base rows'"
  note cong = core_cong [OF core_channel [of ok' base rows']]
  note ok = procOk_entry [OF assms(1,2)]
  have z: "pz e = True" using assms(3) by simp
  have "continues ?base s = continues base s" for s by (rule continues_cong [OF core_channel])
  then have sn: "snapOk p e base s \<Longrightarrow> snapOk (p\<lparr>pr_pcServed := b\<rparr>) e ?base s" for s by (simp add: snapOk_def)
  have pl: "place True (en_ref e) db limbo base tx s \<Longrightarrow> place True (en_ref e) ?db limbo ?base tx s" for tx s
    by (auto simp: place_def split: option.splits tx_state.splits intro: ahead_channel undecided_channel)
  have "entryOk (p\<lparr>pr_pcServed := b\<rparr>) e ?db limbo ?base"
    using ok sn pl unfolding entryOk_def z by (auto simp: cong split: option.splits simp del: upt_Suc)
  then show ?thesis using assms(1,2) by (simp add: procOk_def memOk_def cong)
qed

end
