(* ===== verification/StoreRestart.thy ===== *)
theory StoreRestart
  imports StoreServer
begin

text \<open>
  Stopping and starting: what a spill file and the database it meets have in common, what its replay makes
  of the database, and that the process that starts has the invariant of \<open>StoreFacts\<close> again.
\<close>

section \<open>Loading\<close>

lemma window_numbers:
  assumes "map mv_seq ms = [1..<n + 1]" "1 \<le> ws" "ws \<le> n + 1"
  shows "map mv_seq (sort_key mv_seq (filter (\<lambda>m. mv_seq m \<ge> ws) ms)) = [ws..<n + 1]"
proof -
  have "map mv_seq (filter (\<lambda>m. mv_seq m \<ge> ws) ms) = filter (\<lambda>x. x \<ge> ws) (map mv_seq ms)" by (simp add: filter_map comp_def)
  also have "\<dots> = filter (\<lambda>x. x \<ge> ws) ([1..<ws] @ [ws..<n + 1])" unfolding assms(1) using upt_append [OF assms(2,3)] by simp
  also have "\<dots> = [ws..<n + 1]" by (simp add: filter_empty_conv filter_id_conv del: upt_Suc)
  finally have m: "map mv_seq (filter (\<lambda>m. mv_seq m \<ge> ws) ms) = [ws..<n + 1]" .
  then have "sort_key mv_seq (filter (\<lambda>m. mv_seq m \<ge> ws) ms) = filter (\<lambda>m. mv_seq m \<ge> ws) ms"
    by (intro sort_key_id_if_sorted) (simp only: sorted_upt)
  then show ?thesis using m by simp
qed

lemma window_read:
  assumes "dbOk db" "sd_conv db = Some r"
  shows "map mv_seq (readWindowMessages db) = [rw_windowStart r..<rw_lastSeq r + 1]"
    and "length (readWindowMessages db) = rw_lastSeq r + 1 - rw_windowStart r"
proof -
  show m: "map mv_seq (readWindowMessages db) = [rw_windowStart r..<rw_lastSeq r + 1]"
    unfolding readWindowMessages_def readMessagesFrom_def assms(2) option.case
    by (rule window_numbers) (use assms in \<open>auto simp: dbOk_def lastOf_def windowOk_def\<close>)
  then show "length (readWindowMessages db) = rw_lastSeq r + 1 - rw_windowStart r" by (rule map_upt_length [where g = "\<lambda>n. n", simplified])
qed

lemma preload_ok: "dbOk db \<Longrightarrow> preload since init uuid db = Inr (install since init uuid db)"
  using window_read [of db] by (auto simp: preload_def windowConsistent_def dbOk_def windowOk_def split: option.split)

lemma linkTurns_seqs [simp]:
  "sm_seqs (linkTurns i rs mem) = sm_seqs mem" "sm_states (linkTurns i rs mem) = sm_states mem"
  by (induction rs arbitrary: i mem) (simp_all add: linkTurn_def split: option.split)

lemma objects_some [simp]: "objects (Some (map Some xs)) = xs"
  by (induction xs) (simp_all add: objects_def)

lemma objects_none [simp]: "objects (Some []) = []"
  by (simp add: objects_def)

lemma number_upt:
  assumes "m < n"
  shows "fst (number sq mx [0..<n]) m = Some (mx + 1 + m)"
proof -
  have "map (fst (number sq mx [0..<n])) [0..<n] ! m = map Some [mx + 1..<mx + 1 + length [0..<n]] ! m"
    by (subst number_map) simp_all
  then show ?thesis using assms by (simp add: nth_append del: upt_Suc)
qed

lemma procOk_install:
  assumes "dbOk db" "\<And>f. flushOf db = Some f \<Longrightarrow> f < uuid"
  shows "procOk (install since init uuid db) db None db"
proof (cases "sd_conv db")
  case None
  have e: "numbersOk emptySeqMem SELF" "lastSeqOf emptySeqMem SELF = 0"
    by (simp_all add: numbersOk_def emptySeqMem_def stateOf_def seqStateOk_def lastSeqOf_def)
  have "readWindowMessages db = []" using None by (simp add: readWindowMessages_def)
  then show ?thesis using None assms e
    by (simp add: install_def Let_def procOk_def memOk_def idleOk_def flushOf_def numbered_def) (simp add: emptySeqMem_def)
next
  case (Some r)
  let ?n = "length (readWindowMessages db)"
  have w: "1 \<le> rw_windowStart r" "rw_windowStart r \<le> rw_lastSeq r + 1"
    using assms(1) Some by (simp_all add: dbOk_def windowOk_def)
  have n: "rw_windowStart r - 1 + ?n = rw_lastSeq r" using window_read(2) [OF assms(1) Some] w by simp
  define mem where "mem = linkTurns 0 (readWindowMessages db) (case seedSeqs emptySeqMem SELF (Some (map Some [0..<?n])) (int (rw_windowStart r)) of
      None \<Rightarrow> emptySeqMem | Some mem \<Rightarrow> mem)"
  have sq: "sm_seqs mem = fst (number (\<lambda>_. None) (rw_windowStart r - 1) [0..<?n])"
    and st: "stateOf mem SELF = \<lparr>sq_last = rw_lastSeq r, sq_windowStart = rw_windowStart r\<rparr>"
    using w n by (simp_all add: mem_def seedSeqs_def Let_def case_prod_beta emptySeqMem_def stateOf_def number_last)
  have some: "m < ?n" "k = rw_windowStart r + m" if "sm_seqs mem m = Some k" for m k
  proof -
    show "m < ?n" using that number_other [of m "[0..<?n]"] unfolding sq by (metis atLeastLessThan_iff le0 option.distinct(1) set_upt)
    then show "k = rw_windowStart r + m" using that number_upt [of m ?n] w unfolding sq by simp
  qed
  have "numbersOk mem SELF"
    using w n some by (fastforce simp: numbersOk_def st seqStateOk_def lastSeqOf_def)
  then have "memOk (install since init uuid db)"
    using some Some by (auto simp: install_def Let_def memOk_def mem_def [symmetric] list_all_iff numbered_def)
  then show ?thesis
    using Some assms by (simp add: install_def Let_def mem_def [symmetric] procOk_def entryOk_def newEntry_def lastOf_def lastSeqOf_def st)
qed

section \<open>The spill file and the database it meets\<close>

definition spillFits :: "spill_entry \<Rightarrow> store_db \<Rightarrow> bool" where
  "spillFits f x \<longleftrightarrow>
     map fst (sp_messages f) = [sp_committedSeq f + 1..<sp_lastSeq f + 1] \<and> sp_committedSeq f \<le> sp_lastSeq f \<and>
     windowOk (sp_windowStart f) (sp_lastSeq f) \<and> dbOk x \<and>
     (case sp_inflight f of None \<Rightarrow> True
      | Some i \<Rightarrow> sp_committedSeq f \<le> si_lastSeq i \<and> si_lastSeq i \<le> sp_lastSeq f \<and> si_flushId i \<noteq> sp_flushId f) \<and>
     (if flushOf x = Some (sp_flushId f) then lastOf x = sp_lastSeq f
      else (case sp_inflight f of
              None \<Rightarrow> lastOf x = sp_committedSeq f
            | Some i \<Rightarrow> if flushOf x = Some (si_flushId i) then lastOf x = si_lastSeq i else lastOf x = sp_committedSeq f))"

text \<open>The side rows the replay adds: those of the flush in flight too, unless it turns out committed.\<close>

definition replaySide :: "spill_entry \<Rightarrow> store_db \<Rightarrow> side_rows" where
  "replaySide f x =
     (case sp_inflight f of
        None \<Rightarrow> sp_side f
      | Some i \<Rightarrow> if flushOf x = Some (si_flushId i) then sp_side f else rowSide (si_side i) (sp_side f))"

lemma lock_facts: "(case lockConversation x of None \<Rightarrow> None | Some q \<Rightarrow> qs_flushId q) = flushOf x"
    "(case lockConversation x of None \<Rightarrow> 0 | Some q \<Rightarrow> qs_lastSeq q) = lastOf x"
    "(lockConversation x = None) = (sd_conv x = None)"
  by (simp_all add: lockConversation_def flushOf_def lastOf_def split: option.split)

lemma replayDecide_fits:
  assumes "spillFits f x"
  shows "replayDecide f (lockConversation x) =
    (if flushOf x = Some (sp_flushId f) then RdSkipped else RdWrite (lastOf x) (replaySide f x))"
    and "sp_committedSeq f \<le> lastOf x" and "lastOf x \<le> sp_lastSeq f"
proof -
  show "sp_committedSeq f \<le> lastOf x" "lastOf x \<le> sp_lastSeq f"
    using assms by (auto simp: spillFits_def split: option.splits if_splits)
  show "replayDecide f (lockConversation x) =
    (if flushOf x = Some (sp_flushId f) then RdSkipped else RdWrite (lastOf x) (replaySide f x))"
  proof (cases "sd_conv x")
    case None
    then have "lockConversation x = None" "flushOf x = None" "lastOf x = 0" by (simp_all add: lockConversation_def flushOf_def lastOf_def)
    then show ?thesis using assms
      by (auto simp: replayDecide_def inflightCommitted_def spillFits_def replaySide_def split: option.splits)
  next
    case (Some r)
    then have "lockConversation x = Some \<lparr>qs_lastSeq = lastOf x, qs_windowStart = rw_windowStart r, qs_flushId = flushOf x\<rparr>"
      by (simp add: lockConversation_def flushOf_def lastOf_def)
    then show ?thesis using assms
      by (auto simp: replayDecide_def inflightCommitted_def spillFits_def replaySide_def split: option.splits if_splits)
  qed
qed

text \<open>What a replay that writes makes of the database.\<close>

definition replayedTo :: "spill_entry \<Rightarrow> store_db \<Rightarrow> store_db \<Rightarrow> bool" where
  "replayedTo f x d \<longleftrightarrow> dbOk d \<and> lastOf d = sp_lastSeq f \<and> flushOf d = Some (sp_flushId f) \<and>
     (\<exists>rows. sd_messages d = sd_messages x @ rows \<and>
        list_all2 (\<lambda>m r. spillMessageRow m = Inr r) (filter (\<lambda>m. fst m > lastOf x) (sp_messages f)) rows) \<and>
     (\<exists>orders. sd_side d = sd_side x @ map SOrder orders @ sideStmts (replaySide f x))"

lemma spill_rows:
  assumes "list_all2 (\<lambda>m r. spillMessageRow m = Inr r) ms rows"
  shows "map mv_seq rows = map fst ms"
  using assms by (induction rule: list_all2_induct) (auto simp: spillMessageRow_def dest: messageToRow_seq)

lemma writeReplayChannel_core:
  "sd_conv (fst (writeReplayChannel ok db ch)) = sd_conv db" "sd_messages (fst (writeReplayChannel ok db ch)) = sd_messages db"
  "sd_side (fst (writeReplayChannel ok db ch)) = sd_side db"
  by (simp_all add: writeReplayChannel_def writeChannelRows_def split: option.split)

lemma writeReplay_result:
  assumes "spillFits f x" "flushOf x \<noteq> Some (sp_flushId f)"
    and d: "sd_conv d = Some r" "rw_lastSeq r = lastOf x" "sd_messages d = sd_messages x" "sd_side d = sd_side x"
  shows "(\<exists>pe. writeReplay env d f (lastOf x) (replaySide f x) ch vals = Inl (EProjection pe)) \<or>
    (\<exists>d' wrote. writeReplay env d f (lastOf x) (replaySide f x) ch vals = Inr (d', wrote) \<and> replayedTo f x d')"
proof (cases "projectAll spillMessageRow (filter (\<lambda>m. fst m > lastOf x) (sp_messages f))")
  case (Inl pe)
  then show ?thesis by (simp add: writeReplay_def)
next
  case (Inr rows)
  note all = projectAll_Inr [OF Inr]
  note le = replayDecide_fits(2,3) [OF assms(1)]
  have "map fst (filter (\<lambda>m. fst m > lastOf x) (sp_messages f)) = filter (\<lambda>n. n > lastOf x) (map fst (sp_messages f))"
    by (simp add: filter_map comp_def)
  also have "map fst (sp_messages f) = [sp_committedSeq f + 1..<lastOf x + 1] @ [lastOf x + 1..<sp_lastSeq f + 1]"
    using assms(1) upt_append [of "sp_committedSeq f + 1" "lastOf x + 1" "sp_lastSeq f + 1"] le by (simp add: spillFits_def del: upt_Suc)
  also have "filter (\<lambda>n. n > lastOf x) ([sp_committedSeq f + 1..<lastOf x + 1] @ [lastOf x + 1..<sp_lastSeq f + 1]) = [lastOf x + 1..<sp_lastSeq f + 1]"
    by (simp add: filter_empty_conv filter_id_conv del: upt_Suc)
  finally have seqs: "map mv_seq rows = [lastOf x + 1..<sp_lastSeq f + 1]" using spill_rows [OF all] by simp
  have x: "map mv_seq (sd_messages x) = [1..<lastOf x + 1]" and ws: "windowOk (sp_windowStart f) (sp_lastSeq f)"
    using assms(1) by (simp_all add: spillFits_def dbOk_def)
  have ins: "insertMessages d rows = Inr (d\<lparr>sd_messages := sd_messages x @ rows\<rparr>)"
    unfolding d(3) [symmetric] by (rule insertMessages_ok [OF _ seqs le(2)]) (simp add: d(3) x del: upt_Suc)
  show ?thesis
  proof (cases "projectAll spillOrderRow (sp_orders f)")
    case (Inl pe)
    then show ?thesis using Inr ins ws d(1) by (auto simp: writeReplay_def updateConversation_def windowOk_def)
  next
    case (Inr orders)
    let ?d2 = "(d\<lparr>sd_messages := sd_messages x @ rows\<rparr>)\<lparr>sd_conv := Some \<lparr>
            rw_values = vals\<lparr>cvl_createdAt := cvl_createdAt (rw_values r), cvl_updatedAt := max (cvl_updatedAt (rw_values r)) (cvl_updatedAt vals)\<rparr>,
            rw_lastSeq = sp_lastSeq f, rw_windowStart = sp_windowStart f, rw_flushId = Some (sp_flushId f), rw_ref = rw_ref r\<rparr>\<rparr>"
    let ?d4 = "fst (writeSideRows (te_hits env) (?d2\<lparr>sd_side := sd_side x @ map SOrder orders\<rparr>) (replaySide f x))"
    have upd: "updateConversation (d\<lparr>sd_messages := sd_messages x @ rows\<rparr>) vals
        \<lparr>qs_lastSeq = sp_lastSeq f, qs_windowStart = sp_windowStart f, qs_flushId = Some (sp_flushId f)\<rparr> = Inr ?d2"
      using ws d(1) by (simp add: updateConversation_def windowOk_def)
    obtain d' wrote where dw: "writeReplayChannel (te_soft env) ?d4 ch = (d', wrote)" by fastforce
    have w: "writeReplay env d f (lastOf x) (replaySide f x) ch vals = Inr (d', wrote)"
      using Inr \<open>projectAll spillMessageRow _ = Inr rows\<close> ins upd d(4) dw by (simp add: writeReplay_def Let_def)
    note core = writeReplayChannel_core [of "te_soft env" ?d4 ch, unfolded dw fst_conv]
    have c: "sd_messages d' = sd_messages x @ rows" "sd_side d' = sd_side x @ map SOrder orders @ sideStmts (replaySide f x)"
        "lastOf d' = sp_lastSeq f" "flushOf d' = Some (sp_flushId f)" "\<exists>r. sd_conv d' = Some r \<and> rw_windowStart r = sp_windowStart f \<and> rw_lastSeq r = sp_lastSeq f"
      using core by (simp_all add: writeSideRows_def lastOf_def flushOf_def)
    have "map mv_seq (sd_messages d') = [1..<lastOf d' + 1]"
      unfolding c map_append x seqs by (rule upt_join [OF le(2)])
    then have "dbOk d'" using c(3,5) ws by (auto simp: dbOk_def)
    then show ?thesis using w c all by (auto simp: replayedTo_def)
  qed
qed

definition replayAnswer :: "spill_entry \<Rightarrow> store_db \<Rightarrow> store_db \<Rightarrow> store_error + replay_result \<times> bool \<times> store_db \<Rightarrow> bool" where
  "replayAnswer f x d r \<longleftrightarrow>
     (case r of
        Inl err \<Rightarrow> classify err = ClData
      | Inr (RSkipped, wrote, y) \<Rightarrow> \<not> wrote \<and> y = d \<and> flushOf x = Some (sp_flushId f)
      | Inr (RApplied, wrote, y) \<Rightarrow> replayedTo f x y \<and> flushOf x \<noteq> Some (sp_flushId f)
      | Inr (RConflict, _, _) \<Rightarrow> False)"

lemma replayLocked_answer:
  assumes "spillFits f x" "row = lockConversation x"
    and "sd_conv d = Some r" "rw_lastSeq r = lastOf x" "sd_messages d = sd_messages x" "sd_side d = sd_side x"
  shows "replayAnswer f x d (replayLocked env d f row vals)"
proof (cases "flushOf x = Some (sp_flushId f)")
  case True
  then show ?thesis using replayDecide_fits(1) [OF assms(1)] assms(2) by (simp add: replayLocked_def Let_def replayAnswer_def)
next
  case False
  then show ?thesis
    using replayDecide_fits(1) [OF assms(1)] assms(2) writeReplay_result [OF assms(1) False assms(3-6), of env "replayChannelOf f row" vals]
    by (auto simp: replayLocked_def Let_def replayAnswer_def)
qed

lemma replayEntry_locked:
  assumes "spillFits f x" "lockConversation x = Some q"
  shows "replayAnswer f x x (replayEntry env x later f)"
proof -
  obtain r where r: "sd_conv x = Some r" "rw_lastSeq r = lastOf x"
    using assms(2) by (auto simp: lockConversation_def lastOf_def)
  note d = replayDecide_fits(1) [OF assms(1), unfolded assms(2)]
  show ?thesis
  proof (cases "flushOf x = Some (sp_flushId f)")
    case True
    then show ?thesis using d assms(2) by (simp add: replayEntry_def replayAnswer_def)
  next
    case False
    show ?thesis
    proof (cases "conversationValuesFrom (sp_state f) (sp_lastCustomerAt f)")
      case (Inl pe)
      then show ?thesis using d False assms(2) by (simp add: replayEntry_def replayAnswer_def)
    next
      case (Inr vals)
      have "replayAnswer f x x (replayLocked env x f (Some q) vals)"
        by (rule replayLocked_answer [OF assms(1) assms(2) [symmetric] r refl refl])
      then show ?thesis using d False assms(2) Inr by (simp add: replayEntry_def)
    qed
  qed
qed

lemma replayEntry_inserts:
  assumes "spillFits f db" "spillFits f later" "lockConversation db = None"
  shows "replayAnswer f later later (replayEntry env db later f)"
proof -
  have "flushOf db = None" using lock_facts(1) [of db] assms(3) by simp
  then have d: "replayDecide f None = RdWrite (lastOf db) (replaySide f db)"
    using replayDecide_fits(1) [OF assms(1)] assms(3) by simp
  show ?thesis
  proof (cases "conversationValuesFrom (sp_state f) (sp_lastCustomerAt f)")
    case (Inl pe)
    then show ?thesis using assms(3) d by (simp add: replayEntry_def replayAnswer_def)
  next
    case (Inr vals)
    show ?thesis
    proof (cases "sd_conv later")
      case None
      let ?r = "\<lparr>rw_values = vals, rw_lastSeq = 0, rw_windowStart = 1, rw_flushId = None, rw_ref = sp_ref f\<rparr>"
      have l: "lockConversation later = None" "flushOf later = None" "lastOf later = 0"
        using None by (simp_all add: lockConversation_def flushOf_def lastOf_def)
      have "replayAnswer f later (later\<lparr>sd_conv := Some ?r\<rparr>) (replayLocked env (later\<lparr>sd_conv := Some ?r\<rparr>) f None vals)"
        by (rule replayLocked_answer [OF assms(2), where r = ?r]) (simp_all add: l)
      then have "replayAnswer f later later (replayLocked env (later\<lparr>sd_conv := Some ?r\<rparr>) f None vals)"
        using l(2) by (auto simp: replayAnswer_def split: sum.splits replay_result.splits)
      then show ?thesis using assms(3) d Inr None by (simp add: replayEntry_def insertConversation_def)
    next
      case (Some r)
      then obtain q where q: "lockConversation later = Some q" by (simp add: lockConversation_def)
      have "replayAnswer f later later (replayLocked env later f (Some q) vals)"
        by (rule replayLocked_answer [OF assms(2) q [symmetric] Some]) (simp_all add: lastOf_def Some)
      then show ?thesis using assms(3) d Inr Some q by (simp add: replayEntry_def insertConversation_def)
    qed
  qed
qed

lemma replayEntry_answer:
  assumes "spillFits f db" "spillFits f later"
  shows "replayAnswer f later later (replayEntry env (if sd_conv db = None then db else later) later f)"
proof (cases "sd_conv db = None")
  case True
  then show ?thesis using replayEntry_inserts [OF assms] lock_facts(3) [of db] by simp
next
  case False
  then show ?thesis
    using replayEntry_locked [OF assms(2)] replayEntry_inserts [OF assms(2,2)] by (cases "lockConversation later") auto
qed

lemma replayed_fits: "spillFits f x \<Longrightarrow> replayedTo f x d \<Longrightarrow> spillFits f d"
  by (auto simp: spillFits_def replayedTo_def)

section \<open>Between two processes\<close>

definition stoppedOk :: "world \<Rightarrow> bool" where
  "stoppedOk w \<longleftrightarrow> (\<forall>b. dbOk (resolved w b) \<and> (\<forall>i. flushOf (resolved w b) = Some i \<longrightarrow> i < wd_uuid w) \<and>
     (case wd_file w of None \<Rightarrow> True
      | Some f \<Rightarrow> spillFits f (resolved w b) \<and> sp_flushId f < wd_uuid w \<and>
          (wd_limbo w \<noteq> None \<longrightarrow> flushOf (resolved w b) \<noteq> Some (sp_flushId f))))"

definition worldOk :: "world \<Rightarrow> bool" where
  "worldOk w \<longleftrightarrow>
     (case wd_proc w of
        None \<Rightarrow> stoppedOk w
      | Some p \<Rightarrow> procOk p (wd_db w) (wd_limbo w) (wd_base w) \<and> wd_file w = None)"

lemma stoppedOkD:
  assumes "stoppedOk w"
  shows "dbOk (resolved w b)" "flushOf (resolved w b) = Some i \<Longrightarrow> i < wd_uuid w"
    "wd_file w = Some f \<Longrightarrow> spillFits f (resolved w b)" "wd_file w = Some f \<Longrightarrow> sp_flushId f < wd_uuid w"
    "wd_file w = Some f \<Longrightarrow> wd_limbo w \<noteq> None \<Longrightarrow> flushOf (resolved w b) \<noteq> Some (sp_flushId f)"
  using assms by (auto simp: stoppedOk_def)

lemma resolved_now: "resolved w False = wd_db w"
  by (simp add: resolved_def split: option.split)

lemma spill_fits:
  assumes "entryOk p e db limbo base" "procOk p db limbo base" "core z x = core z base \<or> (\<exists>s. en_inflight e = Some s \<and> ahead z (en_ref e) x base s)"
  shows "spillFits (spillEntryOf p e) x" and "flushOf x \<noteq> Some (pr_uuid p)" and "dbOk x" and "flushOf x = Some i \<Longrightarrow> i < pr_uuid p"
proof -
  have base: "dbOk base" "\<And>i. flushOf base = Some i \<Longrightarrow> i < pr_uuid p" using assms(2) by (auto simp: procOk_def)
  have inflight: "continues base s \<and> sn_flushId s < pr_uuid p \<and> sn_lastSeq s \<le> lastNo p" if "en_inflight e = Some s" for s
    using assms(1) that by (simp add: entryOk_def snapOk_def)
  have x: "dbOk x \<and> (flushOf x = flushOf base \<and> lastOf x = lastOf base \<or>
      (\<exists>s. en_inflight e = Some s \<and> flushOf x = Some (sn_flushId s) \<and> lastOf x = sn_lastSeq s))"
    using assms(3)
  proof (elim disjE exE conjE)
    assume "core z x = core z base"
    then show ?thesis using core_cong base(1) by metis
  next
    fix s assume s: "en_inflight e = Some s" "ahead z (en_ref e) x base s"
    then show ?thesis using ahead_facts [OF s(2)] inflight by blast
  qed
  show "dbOk x" using x by blast
  show lt: "i < pr_uuid p" if "flushOf x = Some i" for i using x that base(2) inflight by fastforce
  show old: "flushOf x \<noteq> Some (pr_uuid p)" using lt by blast
  have pend: "map (sm_seqs (pr_mem p)) (en_pending e) = map Some [en_committedSeq e + 1..<lastNo p + 1]"
    and c: "en_committedSeq e = lastOf base" "en_committedSeq e \<le> lastNo p"
    using assms(1) by (simp_all add: entryOk_def del: upt_Suc)
  have "map fst (sp_messages (spillEntryOf p e)) = map (\<lambda>y. case y of None \<Rightarrow> 0 | Some n \<Rightarrow> n) (map (sm_seqs (pr_mem p)) (en_pending e))"
    by (simp add: spillEntryOf_def seqOf_def comp_def)
  also have "\<dots> = [en_committedSeq e + 1..<lastNo p + 1]" unfolding pend by (simp add: comp_def del: upt_Suc)
  finally have nums: "map fst (sp_messages (spillEntryOf p e)) = [en_committedSeq e + 1..<lastNo p + 1]" .
  have win: "windowOk (windowStartOf (pr_mem p) SELF) (lastNo p)" by (rule memOk_window [OF procOk_mem [OF assms(2)]])
  show "spillFits (spillEntryOf p e) x"
  proof (cases "en_inflight e")
    case None
    then show ?thesis using nums c win x old by (simp add: spillFits_def spillEntryOf_def del: upt_Suc)
  next
    case (Some s)
    then show ?thesis using nums c win x old inflight [OF Some]
      by (auto simp: spillFits_def spillEntryOf_def continues_def simp del: upt_Suc)
  qed
qed

lemma place_settled:
  assumes "entryOk p e db limbo base" "limbo' = limbo \<or> (\<exists>t. pr_tx p = TxReady t \<and> limbo' = Some t)"
  shows "core (pz e) (resolveTo db limbo' b) = core (pz e) base \<or>
    (\<exists>s. en_inflight e = Some s \<and> ahead (pz e) (en_ref e) (resolveTo db limbo' b) base s)"
proof (cases "en_inflight e")
  case None
  then show ?thesis using assms by (auto simp: entryOk_def resolveTo_def)
next
  case (Some s)
  then have pl: "place (pz e) (en_ref e) db limbo base (pr_tx p) s" using assms(1) by (simp add: entryOk_def)
  then have "core (pz e) (resolveTo db limbo' b) = core (pz e) base \<or> ahead (pz e) (en_ref e) (resolveTo db limbo' b) base s"
    using assms(2) place_resolved [OF pl] by (auto simp: place_def undecided_def resolveTo_def)
  then show ?thesis using Some by blast
qed

lemma worldOk_stop:
  assumes "worldOk w"
  shows "worldOk (stopStore spill b w)"
proof (cases "wd_proc w")
  case None
  then show ?thesis using assms by (simp add: stopStore_def withProc_def)
next
  case (Some p)
  have ok: "procOk p (wd_db w) (wd_limbo w) (wd_base w)" using assms Some by (simp add: worldOk_def)
  define limbo' where "limbo' = (case pr_tx p of TxReady t \<Rightarrow> if b then Some t else wd_limbo w | _ \<Rightarrow> wd_limbo w)"
  have l': "limbo' = wd_limbo w \<or> (\<exists>t. pr_tx p = TxReady t \<and> limbo' = Some t)"
    by (simp add: limbo'_def split: tx_state.split)
  define w' where "w' = w\<lparr>wd_proc := None, wd_file := if spill then spillSync p else None, wd_limbo := limbo', wd_uuid := pr_uuid p + 1\<rparr>"
  have stop: "stopStore spill b w = w'" using Some by (simp add: stopStore_def withProc_def w'_def limbo'_def)
  have res: "resolved w' b' = resolveTo (wd_db w) limbo' b'" for b' by (simp add: resolved_resolveTo w'_def)
  have "stoppedOk w'"
  proof (cases "pr_entry p")
    case None
    then have i: "idleOk p (wd_db w) (wd_limbo w) (wd_base w)" using ok by (simp add: procOk_def)
    then have "limbo' = None" by (auto simp: limbo'_def idleOk_def)
    then have r: "resolved w' b' = wd_db w" for b' by (simp add: res resolveTo_def)
    have "flushOf (wd_db w) = flushOf (wd_base w)" "dbOk (wd_db w) = dbOk (wd_base w)"
      using core_cong [of False "wd_db w" "wd_base w"] i by (simp_all add: idleOk_def)
    then show ?thesis using ok None unfolding stoppedOk_def r by (auto simp: w'_def spillSync_def procOk_def less_SucI)
  next
    case (Some e)
    note place = place_settled [OF procOk_entry [OF ok Some] l']
    note fit = spill_fits [OF procOk_entry [OF ok Some] ok place]
    show ?thesis unfolding stoppedOk_def res using fit Some
      by (auto simp: w'_def spillSync_def less_SucI spillEntryOf_def)
  qed
  then show ?thesis by (simp add: stop worldOk_def w'_def)
qed

lemma channelOnly_core: "core True (fst (replayChannelOnly env db f)) = core True db"
  "\<not> snd (replayChannelOnly env db f) \<Longrightarrow> fst (replayChannelOnly env db f) = db"
  by (auto simp: replayChannelOnly_def writeReplayChannel_def core_def writeChannelRows_def split: option.splits if_splits)

text \<open>The result of a replayed file: refused because the database cannot be reached, or a database it fits.\<close>

lemma replayFile_result:
  assumes "spillFits f db" "spillFits f later"
  shows "replayFile env f1 f2 (if sd_conv db = None then db else later) later f = Inl SeDbUnreachable \<or>
    (\<exists>r. replayFile env f1 f2 (if sd_conv db = None then db else later) later f = Inr r \<and>
      (rp_failed r \<and> core True (rp_db r) = core True later \<and> \<not> rp_applied r \<and> (\<not> rp_channelWritten r \<longrightarrow> rp_db r = later)
       \<or> \<not> rp_failed r \<and> \<not> rp_applied r \<and> \<not> rp_channelWritten r \<and> rp_db r = later \<and> flushOf later = Some (sp_flushId f)
       \<or> \<not> rp_failed r \<and> rp_applied r \<and> replayedTo f later (rp_db r) \<and> flushOf later \<noteq> Some (sp_flushId f)))"
proof -
  let ?r = "replayEntry env (if sd_conv db = None then db else later) later f"
  have a: "replayAnswer f later later ?r" by (rule replayEntry_answer [OF assms])
  have bad: ?thesis if "(case f1 of Some err \<Rightarrow> Inl err | None \<Rightarrow> ?r) = Inl err" for err
    using that channelOnly_core [of env later f]
    by (auto simp: replayFile_def case_prod_beta split: option.split)
  show ?thesis
  proof (cases "case f1 of Some err \<Rightarrow> Inl err | None \<Rightarrow> ?r")
    case (Inl err)
    then show ?thesis by (rule bad)
  next
    case (Inr x)
    then have x: "?r = Inr x" by (auto split: option.splits)
    obtain k wrote d where xs: "x = (k, wrote, d)" by (cases x) auto
    show ?thesis using a Inr unfolding x xs replayFile_def
      by (cases k) (auto simp: replayAnswer_def)
  qed
qed

end
