(* ===== verification/StoreReach.thy ===== *)
theory StoreReach
  imports StoreRestart
begin

text \<open>
  Every event keeps the invariant of the world: the starts, with and without a spill file, the server's steps,
  the process's own operations. So every reachable world satisfies it.
\<close>

section \<open>Starts\<close>

lemma worldOk_startCrash:
  assumes "worldOk w"
  shows "worldOk (startCrash env b w)"
proof (cases "wd_proc w \<noteq> None \<or> wd_file w = None")
  case True
  then show ?thesis using assms by (auto simp: startCrash_def split: option.split)
next
  case False
  then obtain f where f: "wd_file w = Some f" and p: "wd_proc w = None" by auto
  have ok: "stoppedOk w" using assms p by (simp add: worldOk_def)
  let ?later = "resolved w b"
  let ?r = "replayEntry env (if sd_conv (wd_db w) = None then wd_db w else ?later) ?later f"
  have fits: "spillFits f (wd_db w)" "spillFits f ?later"
    using stoppedOkD(3) [OF ok f, of False] stoppedOkD(3) [OF ok f, of b] by (simp_all add: resolved_now)
  have a: "replayAnswer f ?later ?later ?r" by (rule replayEntry_answer [OF fits])
  have good: "worldOk (w\<lparr>wd_db := d, wd_limbo := None\<rparr>)" if "spillFits f d" "flushOf d = Some (sp_flushId f)" for d
  proof -
    have "resolved (w\<lparr>wd_db := d, wd_limbo := None\<rparr>) b' = d" for b' by (simp add: resolved_def)
    moreover have "dbOk d" using that(1) by (simp add: spillFits_def)
    ultimately show ?thesis using p f that stoppedOkD(4) [OF ok f]
      by (simp add: worldOk_def stoppedOk_def)
  qed
  show ?thesis
  proof (cases ?r)
    case (Inl err)
    then show ?thesis using assms p f by (simp add: startCrash_def)
  next
    case (Inr x)
    obtain k wrote d where xs: "x = (k, wrote, d)" by (cases x) auto
    have "spillFits f d \<and> flushOf d = Some (sp_flushId f) \<and> k \<noteq> RConflict"
      using a fits(2) replayed_fits unfolding Inr xs by (auto simp: replayAnswer_def replayedTo_def split: replay_result.splits)
    then show ?thesis using good p f Inr xs by (simp add: startCrash_def)
  qed
qed

lemma openStore_file:
  assumes "stoppedOk w" "wd_file w = Some f"
  shows "fst (openStore env f1 f2 since init (wd_uuid w) (wd_db w) (resolved w b) (Some f)) = Inl SeDbUnreachable \<or>
    (\<exists>p d bad. openStore env f1 f2 since init (wd_uuid w) (wd_db w) (resolved w b) (Some f) = (Inr p, d, None, bad) \<and>
      ((bad = [] \<and> (replayedTo f (resolved w b) d \<and> flushOf (resolved w b) \<noteq> Some (sp_flushId f) \<or> d = resolved w b \<and> flushOf d = Some (sp_flushId f))) \<or>
       bad = [f] \<and> core True d = core True (resolved w b)) \<and>
      (p = install since init (wd_uuid w) d \<or> bad = [f] \<and> d = resolved w b \<and> p = install since init (wd_uuid w) (wd_db w)))"
proof -
  let ?later = "resolved w b"
  have fits: "spillFits f (wd_db w)" "spillFits f ?later"
    using stoppedOkD(3) [OF assms, of False] stoppedOkD(3) [OF assms, of b] by (simp_all add: resolved_now)
  have dbOk: "dbOk (wd_db w)" "dbOk ?later" using fits by (simp_all add: spillFits_def)
  note pre = preload_ok [OF dbOk(1), of since init "wd_uuid w"]
  consider (unreachable) "replayFile env f1 f2 (if sd_conv (wd_db w) = None then wd_db w else ?later) ?later f = Inl SeDbUnreachable"
    | (finished) r where "replayFile env f1 f2 (if sd_conv (wd_db w) = None then wd_db w else ?later) ?later f = Inr r"
      "rp_failed r \<and> core True (rp_db r) = core True ?later \<and> \<not> rp_applied r \<and> (\<not> rp_channelWritten r \<longrightarrow> rp_db r = ?later)
       \<or> \<not> rp_failed r \<and> \<not> rp_applied r \<and> \<not> rp_channelWritten r \<and> rp_db r = ?later \<and> flushOf ?later = Some (sp_flushId f)
       \<or> \<not> rp_failed r \<and> rp_applied r \<and> replayedTo f ?later (rp_db r) \<and> flushOf ?later \<noteq> Some (sp_flushId f)"
    using replayFile_result [OF fits, of env f1 f2] by blast
  then show ?thesis
  proof cases
    case unreachable
    then show ?thesis using pre by (simp add: openStore_def)
  next
    case finished
    have "dbOk (rp_db r)"
      using finished(2)
    proof (elim disjE conjE)
      assume "core True (rp_db r) = core True ?later"
      then show ?thesis using core_cong(6) dbOk(2) by blast
    qed (use dbOk(2) in \<open>simp_all add: replayedTo_def\<close>)
    note pre2 = preload_ok [OF this, of since init "wd_uuid w"]
    let ?p = "if rp_applied r \<or> rp_channelWritten r then install since init (wd_uuid w) (rp_db r) else install since init (wd_uuid w) (wd_db w)"
    have eq: "openStore env f1 f2 since init (wd_uuid w) (wd_db w) ?later (Some f) =
        (Inr ?p, rp_db r, None, if rp_failed r then [f] else [])"
      using finished(1) by (simp add: openStore_def pre pre2)
    have same: "wd_db w = ?later" if "flushOf ?later = Some (sp_flushId f)"
    proof -
      have "wd_limbo w = None" using stoppedOkD(5) [OF assms] that by blast
      then show ?thesis by (simp add: resolved_def)
    qed
    from finished(2) show ?thesis
    proof (elim disjE conjE, goal_cases)
      case 1
      then show ?thesis unfolding eq by (cases "rp_channelWritten r") auto
    next
      case 2
      then have "wd_db w = rp_db r" using same by simp
      then show ?thesis unfolding eq using 2 by auto
    next
      case 3
      then show ?thesis unfolding eq by auto
    qed
  qed
qed

lemma worldOk_start:
  assumes "worldOk w" "\<not> staleStart w (SvStart env f1 f2 since init b)"
  shows "worldOk (startStore env f1 f2 since init b w)"
proof (cases "wd_proc w")
  case (Some p)
  then show ?thesis using assms(1) by (simp add: startStore_def)
next
  case None
  have ok: "stoppedOk w" using assms(1) None by (simp add: worldOk_def)
  show ?thesis
  proof (cases "wd_file w")
    case f: None
    then have l: "wd_limbo w = None" using assms(2) None by (auto simp: staleStart_def)
    have db: "dbOk (wd_db w)" "\<And>i. flushOf (wd_db w) = Some i \<Longrightarrow> i < wd_uuid w"
      using stoppedOkD(1,2) [OF ok, of False] by (simp_all add: resolved_now)
    show ?thesis using None f l preload_ok [OF db(1)] procOk_install [OF db]
      by (simp add: startStore_def openStore_def worldOk_def Let_def)
  next
    case (Some f)
    note opened = openStore_file [OF ok Some, of env f1 f2 since init b]
    show ?thesis
    proof (cases "fst (openStore env f1 f2 since init (wd_uuid w) (wd_db w) (resolved w b) (Some f)) = Inl SeDbUnreachable")
      case True
      then have "startStore env f1 f2 since init b w = w"
        using None Some by (auto simp: startStore_def split: prod.split sum.split)
      then show ?thesis using assms(1) by simp
    next
      case False
      with opened obtain p d bad where s: "openStore env f1 f2 since init (wd_uuid w) (wd_db w) (resolved w b) (Some f) = (Inr p, d, None, bad)"
        and d: "bad = [] \<and> (replayedTo f (resolved w b) d \<and> flushOf (resolved w b) \<noteq> Some (sp_flushId f) \<or> d = resolved w b \<and> flushOf d = Some (sp_flushId f)) \<or>
          bad = [f] \<and> core True d = core True (resolved w b)"
        and p: "p = install since init (wd_uuid w) d \<or> bad = [f] \<and> d = resolved w b \<and> p = install since init (wd_uuid w) (wd_db w)"
        by blast
      have start: "startStore env f1 f2 since init b w =
          w\<lparr>wd_db := d, wd_limbo := None, wd_base := d, wd_proc := Some p, wd_file := None, wd_failed := wd_failed w @ bad\<rparr>"
        using None Some s by (simp add: startStore_def Let_def)
      have dbs: "dbOk d \<and> (\<forall>i. flushOf d = Some i \<longrightarrow> i < wd_uuid w)"
        using d
      proof (elim disjE conjE)
        assume "replayedTo f (resolved w b) d"
        then show ?thesis using stoppedOkD(4) [OF ok Some] by (auto simp: replayedTo_def)
      next
        assume "core True d = core True (resolved w b)"
        then show ?thesis using core_cong stoppedOkD(1,2) [OF ok, of b] by metis
      qed (use stoppedOkD(1,2) [OF ok, of b] in auto)
      have "p = install since init (wd_uuid w) d"
      proof (rule ccontr)
        assume "p \<noteq> install since init (wd_uuid w) d"
        then have b: "bad = [f]" "d = resolved w b" "p = install since init (wd_uuid w) (wd_db w)" using p by auto
        then have "wd_limbo w = None" using assms(2) None start by (auto simp: staleStart_def)
        then have "d = wd_db w" using b(2) by (simp add: resolved_def)
        then show False using b \<open>p \<noteq> install since init (wd_uuid w) d\<close> by simp
      qed
      then have "procOk p d None d" using procOk_install [of d "wd_uuid w"] dbs by simp
      then show ?thesis by (simp add: start worldOk_def)
    qed
  qed
qed

section \<open>Every reachable state\<close>

lemma worldOk_onProc:
  assumes "worldOk w" "\<And>p. wd_proc w = Some p \<Longrightarrow> procOk (f p) (wd_db w) (wd_limbo w) (wd_base w)"
  shows "worldOk (onProc f w)"
proof (cases "wd_proc w")
  case None
  then have "onProc f w = w" by (cases w) (simp add: onProc_def)
  then show ?thesis using assms(1) by simp
next
  case (Some p)
  then show ?thesis using assms by (simp add: worldOk_def onProc_def)
qed

lemma worldOk_withProc:
  assumes "worldOk w" "\<And>p. wd_proc w = Some p \<Longrightarrow> worldOk (f p)"
  shows "worldOk (withProc f w)"
  using assms by (simp add: withProc_def split: option.split)

lemma worldOk_limbo:
  assumes "worldOk w"
  shows "worldOk (settleLimbo b w)"
proof (cases "wd_proc w")
  case None
  have r: "resolved (settleLimbo b w) b' = resolved w b" for b' by (simp add: settleLimbo_def resolved_def)
  have "stoppedOk w" using assms None by (simp add: worldOk_def)
  then have "stoppedOk (settleLimbo b w)"
    unfolding stoppedOk_def r by (auto simp: settleLimbo_def split: option.splits)
  then show ?thesis using None by (simp add: worldOk_def settleLimbo_def)
next
  case (Some p)
  then show ?thesis using assms procOk_limbo by (auto simp: worldOk_def settleLimbo_def resolved_resolveTo)
qed

lemma worldOk_running: "wd_proc w = Some p \<Longrightarrow> worldOk w = (procOk p (wd_db w) (wd_limbo w) (wd_base w) \<and> wd_file w = None)"
  by (simp add: worldOk_def)

lemma worldOk_server:
  assumes "worldOk w"
  shows "worldOk (attempt env b w)" "worldOk (statementFails err w)" "worldOk (commit w)" "worldOk (dropConn err w)" "worldOk (answer w)"
proof -
  note ok = worldOk_running [THEN iffD1, OF _ assms]
  show "worldOk (attempt env b w)"
    unfolding attempt_def
  proof (rule worldOk_withProc [OF assms], goal_cases)
    case (1 p)
    show ?case
    proof (cases "pr_tx p = TxRunning")
      case True
      then show ?thesis using procOk_attempt [of p "wd_db w" "wd_limbo w" "wd_base w" env b] ok [OF 1]
        by (simp add: Let_def worldOk_def resolved_resolveTo del: if_split)
    qed (use assms in simp)
  qed
  show "worldOk (statementFails err w)"
    unfolding statementFails_def
    by (rule worldOk_withProc [OF assms]) (auto simp: worldOk_running assms dest!: ok split: tx_state.split intro: procOk_fails)
  show "worldOk (commit w)"
    unfolding commit_def
    by (rule worldOk_withProc [OF assms]) (auto simp: worldOk_running assms dest!: ok split: tx_state.split intro: procOk_commit)
  show "worldOk (dropConn err w)"
    using assms unfolding dropConn_def
    by (auto intro!: worldOk_withProc [OF assms])
      (auto simp: worldOk_running dest!: ok split: tx_state.split intro: procOk_fails procOk_lost procOk_unheard)
  have known: "procOk (afterCommit p) (wd_db w) (wd_limbo w) (wd_db w)"
    if "wd_proc w = Some p" "pr_tx p = TxDone \<or> pr_tx p = TxRecognized" for p
    using procOk_afterCommit [OF _ that(2)] ok [OF that(1)] by fastforce
  show "worldOk (answer w)"
    unfolding answer_def
    by (rule worldOk_withProc [OF assms])
      (auto simp: assms worldOk_running known dest: ok split: tx_state.split intro: procOk_failed)
qed

lemma worldOk_servePc:
  assumes "worldOk w"
  shows "worldOk (servePc ok w)"
  unfolding servePc_def
  by (rule worldOk_withProc [OF assms])
    (use assms in \<open>auto simp: worldOk_running split: option.split intro: procOk_servePc\<close>)

theorem worldOk_step:
  assumes "worldOk w" "\<not> staleStart w ev"
  shows "worldOk (store_step w ev)"
proof -
  have own: "worldOk (onProc f w)" if "\<And>p db limbo base. procOk p db limbo base \<Longrightarrow> procOk (f p) db limbo base" for f
    using worldOk_onProc [OF assms(1), of f] that worldOk_running [THEN iffD1, OF _ assms(1)] by blast
  note still = procOk_quiet [OF _ quiet_orders] procOk_quiet [OF _ quiet_writable] procOk_quiet [OF _ quiet_flush]
    procOk_quiet [OF _ quiet_flushTimeout] procOk_quiet [OF _ quiet_hold] procOk_quiet [OF _ quiet_applied]
    procOk_quiet [OF _ quiet_pcTask] procOk_quiet [OF _ quiet_pcTimerTask] procOk_quiet [OF _ quiet_answerPc]
    procOk_quiet [OF _ quiet_newMessage] procOk_quiet [OF _ quiet_arrange]
  note rows = quiet_side [THEN procOk_queued [rotated]] quiet_channel_ops [THEN procOk_queued [rotated]]
    quiet_emit [THEN procOk_queued [rotated]]
  have order: "procOk (scheduleOrder i p) db limbo base" if "procOk p db limbo base" for i p db limbo base
    using scheduleOrder_cases [of i p] procOk_queued [OF that] that by metis
  have void: "procOk (case jget (pr_orders p) i of None \<Rightarrow> p
       | Some od \<Rightarrow> (voidOrder i od now reason p)\<lparr>pr_orders := jdel (pr_orders p) i\<rparr>) db limbo base"
    if "procOk p db limbo base" for i p now reason db limbo base
    using procOk_queued [OF that quiet_orders_of [OF quiet_voidOrder]] that by (auto split: option.split)
  have mem: "procOk (p\<lparr>pr_mem := noteWindowReset (pr_mem p) s\<rparr>) db limbo base" "procOk (p\<lparr>pr_mem := linkTurn (pr_mem p) m t\<rparr>) db limbo base"
    if "procOk p db limbo base" for p s m t db limbo base
    by (rule procOk_quiet [OF that quiet_mem]; simp add: noteWindowReset_def linkTurn_def)+
  show ?thesis
    using assms
    by (cases ev)
      (auto intro!: own intro: still rows order void procOk_schedule procOk_drainStart procOk_close procOk_kickTask
        procOk_releaseHold procOk_retryTimer worldOk_server worldOk_limbo worldOk_servePc worldOk_stop worldOk_start worldOk_startCrash mem)
qed

theorem worldOk_reach: "store_reach w \<Longrightarrow> worldOk w"
proof (induction rule: store_reach.induct)
  case begins
  show ?case by (simp add: worldOk_def stoppedOk_def store_init_def resolved_def emptyDb_def dbOk_def flushOf_def lastOf_def)
qed (rule worldOk_step)

end
