(* ===== verification/StoreDemo.thy ===== *)
theory StoreDemo
  imports StoreReach
begin

text \<open>
  Runs from the empty database, and one of them computed: a message and an audit row are saved, the flush
  commits, its answer is lost or comes, the process stops and the next one replays the spill file.
\<close>

section \<open>Runs\<close>

definition storeRun :: "store_event list \<Rightarrow> world" where
  "storeRun evs = foldl store_step store_init evs"

definition startEvent :: "store_event \<Rightarrow> bool" where
  "startEvent ev = (case ev of SvStart _ _ _ _ _ _ \<Rightarrow> True | _ \<Rightarrow> False)"

lemma reach_runs: "store_reach w \<Longrightarrow> list_all (\<lambda>ev. \<not> startEvent ev) evs \<Longrightarrow> store_reach (foldl store_step w evs)"
proof (induction evs arbitrary: w)
  case (Cons ev evs)
  have "\<not> staleStart w ev" using Cons.prems(2) by (auto simp: startEvent_def staleStart_def split: store_event.splits)
  then show ?case using Cons store_reach.goes_on by simp
qed simp

lemma reach_started: "store_reach (store_step store_init (SvStart env f1 f2 since init b))"
  by (rule store_reach.goes_on [OF store_reach.begins]) (simp add: staleStart_def store_init_def)

section \<open>One conversation\<close>

definition store_demo_session :: payload where
  "store_demo_session = [(js ''createdAt'', JNum 1), (js ''updatedAt'', JNum 1)]"

definition store_demo_env :: tx_env where
  "store_demo_env = \<lparr>te_hits = (\<lambda>_. False), te_soft = True\<rparr>"

definition store_demo_start :: store_event where
  "store_demo_start = SvStart store_demo_env None None 0 store_demo_session False"

definition demo_said :: "store_event list" where
  "demo_said = [SvNew demo_message, SvArrange (Some [Some 0]) store_demo_session, SvSave, SvAudit (js ''a'')]"

definition demo_base :: world where
  "demo_base = storeRun (store_demo_start # demo_said)"

definition demo_mem :: seq_mem where
  "demo_mem = \<lparr>sm_seqs = (\<lambda>_. None)(0 \<mapsto> 1), sm_turns = (\<lambda>_. None), sm_states = (\<lambda>_. None)(0 \<mapsto> \<lparr>sq_last = 1, sq_windowStart = 1\<rparr>), sm_resets = {}\<rparr>"

definition demo_entry :: "(nat \<times> nat) list \<Rightarrow> entry" where
  "demo_entry ws = (newEntry 0 False 0 [])\<lparr>en_pending := [0], en_gen := 2, en_kickQueued := True,
     en_side := noSide\<lparr>sr_audits := [js ''a'']\<rparr>, en_waiters := ws\<rparr>"

definition demo_saved :: "(nat \<times> nat) list \<Rightarrow> proc" where
  "demo_saved ws = (install 0 store_demo_session 0 emptyDb)\<lparr>pr_mem := demo_mem, pr_heap := (\<lambda>_. [])(0 := demo_message), pr_nextRef := 1,
     pr_messages := Some [Some 0], pr_entry := Some (demo_entry ws), pr_uuid := 1\<rparr>"

lemma demo_base_reach: "store_reach demo_base"
  unfolding demo_base_def storeRun_def store_demo_start_def foldl.simps
  by (rule reach_runs [OF reach_started]) (simp add: demo_said_def startEvent_def)

lemma demo_running: "store_step store_init store_demo_start = store_init\<lparr>wd_proc := Some (install 0 store_demo_session 0 emptyDb)\<rparr>"
  by (simp add: store_demo_start_def startStore_def store_init_def openStore_def preload_def emptyDb_def Let_def)

lemma demo_installed: "install 0 store_demo_session 0 emptyDb =
  \<lparr>pr_mem = emptySeqMem, pr_heap = (\<lambda>i. []), pr_nextRef = 0, pr_state = store_demo_session, pr_messages = Some [], pr_orders = [], pr_voided = [],
   pr_entry = None, pr_conflict = False, pr_closed = False, pr_writable = True, pr_tx = TxNone, pr_pcServed = False, pr_uuid = 0, pr_out = noOut\<rparr>"
  by (simp add: install_def Let_def emptyDb_def readWindowMessages_def readLiveOrders_def)

lemmas demo_eval = objects_def numbered_def SELF_def stateOf_def emptySeqMem_def demo_mem_def strictCheck_def freshFrom_def
  headSeq_def windowCheck_def lastSeqOf_def windowStartOf_def seqOf_def turnIdOf_def

lemma demo_assign: "assignSeqs True emptySeqMem SELF (Some [Some 0]) = (Inr [0], demo_mem)"
  by (simp add: assignSeqs_def demo_eval Let_def)

lemma demo_unnumbered: "\<not> numbered (sm_seqs emptySeqMem) m"
  by (simp add: numbered_def emptySeqMem_def)

lemma demo_no_msgid: "jget demo_message msgidK = None"
  by (simp add: demo_message_def key_defs js_def)

lemma demo_scheduled: "schedule ((install 0 store_demo_session 0 emptyDb)\<lparr>pr_heap := (\<lambda>_. [])(0 := demo_message), pr_nextRef := 1, pr_messages := Some [Some 0]\<rparr>)
  = (demo_saved [])\<lparr>pr_entry := Some ((demo_entry [])\<lparr>en_gen := 1, en_side := noSide\<rparr>)\<rparr>"
  by (simp add: demo_installed schedule_def Let_def entryOf_def newEntry_def demo_assign demo_unnumbered pushFresh_def change_def modEntry_def demo_saved_def demo_entry_def
     customerMsgids_def demo_no_msgid)

lemma demo_base_eq: "demo_base = store_init\<lparr>wd_proc := Some (demo_saved [])\<rparr>"
proof -
  have "store_step (store_step (store_init\<lparr>wd_proc := Some (install 0 store_demo_session 0 emptyDb)\<rparr>) (SvNew demo_message)) (SvArrange (Some [Some 0]) store_demo_session) =
      store_init\<lparr>wd_proc := Some ((install 0 store_demo_session 0 emptyDb)\<lparr>pr_heap := (\<lambda>_. [])(0 := demo_message), pr_nextRef := 1, pr_messages := Some [Some 0]\<rparr>)\<rparr>"
    by (simp add: onProc_def newMessage_def arrange_def objects_def demo_installed)
  then show ?thesis
    by (simp add: demo_base_def storeRun_def demo_running demo_said_def demo_scheduled [simplified] onProc_def side_ops queueSide_def entryOf_def change_def modEntry_def
      demo_saved_def demo_entry_def newEntry_def noSide_def)
qed

section \<open>Flush\<close>

definition store_demo_row :: message_values where
  "store_demo_row = projr (messageToRow demo_message 1 None)"

definition demo_values :: conv_values where
  "demo_values = projr (conversationValuesFrom (sessionState store_demo_session) None)"

lemma store_demo_row: "messageToRow demo_message 1 None = Inr store_demo_row"
proof -
  have "toDate (jget (normalizeForStore demo_message) atK) ''message.at'' = Inr 5"
    by (simp add: demo_message_keys newDate_def MAX_TIME_def)
  then show ?thesis by (simp add: store_demo_row_def messageToRow_def Let_def)
qed

lemma demo_values: "conversationValuesFrom (sessionState store_demo_session) None = Inr demo_values"
proof -
  have "sessionState store_demo_session = store_demo_session"
    by (simp add: sessionState_def store_demo_session_def normalizeForStore_def fromEntries_def demo_text messagesK_def)
  then show ?thesis
    by (simp add: demo_values_def conversationValuesFrom_def Let_def store_demo_session_def js_def jsTruthy_def newDate_def MAX_TIME_def optDate_def)
qed

definition demo_snap :: snap where
  "demo_snap = \<lparr>sn_flushId = 1, sn_gen = 2, sn_baseSeq = 0, sn_lastSeq = 1, sn_windowStart = 1, sn_messages = [store_demo_row],
     sn_values = demo_values, sn_orders = [], sn_side = noSide\<lparr>sr_audits := [js ''a'']\<rparr>, sn_telemetry = emptyTelemetry, sn_channel = [], sn_inbox = [],
     sn_events = [], sn_applied = [], sn_dead = False\<rparr>"

definition store_demo_sent :: "(nat \<times> nat) list \<Rightarrow> entry" where
  "store_demo_sent ws = (demo_entry ws)\<lparr>en_kickQueued := False, en_side := noSide, en_inflight := Some demo_snap\<rparr>"

lemma demo_kick: "kickTask (demo_saved ws) = (demo_saved ws)\<lparr>pr_entry := Some (store_demo_sent ws), pr_tx := TxRunning, pr_uuid := 2\<rparr>"
proof -
  have "lastCustomerAtOf [demo_message] = None" by (simp add: lastCustomerAtOf_def demo_message_def key_defs js_def)
  then show ?thesis
  by (simp add: kickTask_def onEntry_def kick_def demo_saved_def demo_installed modEntry_def demo_entry_def newEntry_def isDirty_def takeSnapshot_def Let_def
     messageRow_def demo_eval store_demo_row [simplified] sessionValues_def demo_values liveOrders_def store_demo_sent_def demo_snap_def)
qed

definition demo_tx :: store_db where
  "demo_tx = \<lparr>sd_conv = Some \<lparr>rw_values = demo_values\<lparr>cvl_createdAt := cvl_createdAt demo_values, cvl_updatedAt := cvl_updatedAt demo_values\<rparr>,
     rw_lastSeq = 1, rw_windowStart = 1, rw_flushId = Some 1, rw_ref = 0\<rparr>, sd_messages = [store_demo_row], sd_side = [SAudit (js ''a'')], sd_channel = [], sd_soft = []\<rparr>"

lemma demo_seq: "mv_seq store_demo_row = 1"
  by (rule messageToRow_seq [OF store_demo_row])

lemma demo_write: "writeSnap store_demo_env (bare emptyDb) (bare emptyDb) (store_demo_sent ws) demo_snap = FlushWrites demo_tx []"
  by (simp add: writeSnap_def lockConversation_def bare_def emptyDb_def store_demo_sent_def demo_entry_def newEntry_def demo_snap_def insertConversation_def writeLocked_def
    insertMessages_def demo_seq updateConversation_def writeSideRows_def sideStmts_def appliedJobs_def noSide_def store_demo_env_def emptyTelemetry_def demo_tx_def)

definition store_demo_world :: "store_db \<Rightarrow> store_db \<Rightarrow> proc \<Rightarrow> world" where
  "store_demo_world db base p = \<lparr>wd_db = db, wd_limbo = None, wd_base = base, wd_proc = Some p, wd_file = None, wd_failed = [], wd_uuid = 0\<rparr>"

lemma demo_base_world: "demo_base = store_demo_world emptyDb emptyDb (demo_saved [])"
  by (simp add: demo_base_eq store_demo_world_def store_init_def)

text \<open>The flush commits, and the connection breaks before the answer.\<close>

definition demo_unsure :: "(nat \<times> nat) list \<Rightarrow> tx_state \<Rightarrow> proc" where
  "demo_unsure ws t = (demo_saved ws)\<lparr>pr_entry := Some (store_demo_sent ws), pr_tx := t, pr_uuid := 2\<rparr>"

lemma demo_commit: "foldl store_step (store_demo_world emptyDb emptyDb (demo_saved ws)) [SvKick, SvAttempt store_demo_env False, SvCommit] =
  store_demo_world demo_tx emptyDb (demo_unsure ws TxDone)"
proof -
  have "commitTx emptyDb demo_tx = demo_tx" by (simp add: commitTx_def emptyDb_def demo_tx_def)
  moreover have "(store_demo_sent ws)\<lparr>en_inflight := Some (demo_snap\<lparr>sn_applied := []\<rparr>)\<rparr> = store_demo_sent ws" by (simp add: store_demo_sent_def demo_snap_def)
  moreover have "en_inflight (store_demo_sent ws) = Some demo_snap" by (simp add: store_demo_sent_def)
  ultimately show ?thesis
    by (simp add: store_demo_world_def onProc_def demo_kick attempt_def withProc_def resolved_def runAttempt_def demo_write txOf_def commit_def demo_unsure_def)
qed

definition demo_lost :: world where
  "demo_lost = foldl store_step demo_base [SvKick, SvAttempt store_demo_env False, SvCommit, SvDrop EOther]"

lemma demo_lost_reach: "store_reach demo_lost"
  unfolding demo_lost_def by (rule reach_runs [OF demo_base_reach]) (simp add: startEvent_def)

lemma demo_lost_world: "demo_lost = store_demo_world demo_tx emptyDb (demo_unsure [] (TxFailed EOther))"
proof -
  have "demo_lost = store_step (foldl store_step demo_base [SvKick, SvAttempt store_demo_env False, SvCommit]) (SvDrop EOther)" by (simp add: demo_lost_def)
  then show ?thesis unfolding demo_base_world demo_commit by (simp add: store_demo_world_def dropConn_def withProc_def demo_unsure_def demo_saved_def demo_installed)
qed

text \<open>The answer comes.\<close>

lemma demo_answer: "store_step (store_demo_world demo_tx emptyDb (demo_unsure ws TxDone)) SvAnswer = store_demo_world demo_tx demo_tx (afterCommit (demo_unsure ws TxDone))"
  by (simp add: store_demo_world_def answer_def withProc_def demo_unsure_def)

lemma demo_done: "pr_entry (afterCommit (demo_unsure ws TxDone)) = Some ((store_demo_sent ws)\<lparr>en_inflight := None, en_inDb := True, en_committedSeq := 1,
    en_pending := [], en_committedGen := 2, en_waiters := filter (\<lambda>w. snd w > 2) ws\<rparr>)"
  "so_resolved (pr_out (afterCommit (demo_unsure ws TxDone))) = map fst (filter (\<lambda>w. snd w \<le> 2) ws)"
  by (simp_all add: afterCommit_def demo_unsure_def demo_saved_def store_demo_sent_def demo_installed demo_entry_def newEntry_def Let_def modOut_def kick_def isDirty_def
    demo_snap_def demo_eval noOut_def)

text \<open>After the lost answer: one more audit row, the stop, and the start that replays.\<close>

definition store_demo_file :: spill_entry where
  "store_demo_file = spillEntryOf (demo_unsure [] (TxFailed EOther)) (store_demo_sent [])"

lemma demo_stop: "store_step demo_lost (SvStop True False) =
  \<lparr>wd_db = demo_tx, wd_limbo = None, wd_base = emptyDb, wd_proc = None, wd_file = Some store_demo_file, wd_failed = [], wd_uuid = 3\<rparr>"
  by (simp add: demo_lost_world store_demo_world_def stopStore_def withProc_def demo_unsure_def spillSync_def store_demo_file_def store_demo_sent_def demo_entry_def newEntry_def isDirty_def)
lemma store_demo_file_eq: "store_demo_file = \<lparr>sp_ref = 0, sp_committedSeq = 0,
    sp_inflight = Some \<lparr>si_flushId = 1, si_lastSeq = 1, si_side = noSide\<lparr>sr_audits := [js ''a'']\<rparr>, si_channel = spillChannelOf [emptyChannelRows]\<rparr>,
    sp_channel = spillChannelOf [emptyChannelRows, emptyChannelRows, emptyChannelRows], sp_flushId = 2, sp_lastSeq = 1, sp_windowStart = 1,
    sp_messages = [(1, normalizeForStore demo_message)], sp_state = sessionState store_demo_session, sp_lastCustomerAt = None, sp_orders = [],
    sp_side = noSide, sp_poisoned = None\<rparr>"
proof -
  have "lastCustomerAtOf [demo_message] = None" by (simp add: lastCustomerAtOf_def demo_message_def key_defs js_def)
  then show ?thesis
    by (simp add: store_demo_file_def spillEntryOf_def demo_unsure_def demo_saved_def demo_installed store_demo_sent_def demo_entry_def newEntry_def demo_snap_def
      channelRowsOfSnap_def channelRowsOfEntry_def withoutBytes_def noSide_def spillOrders_def Let_def demo_eval emptyTelemetry_def emptyChannelRows_def)
qed

definition demo_replayed :: store_db where
  "demo_replayed = demo_tx\<lparr>sd_conv := Some \<lparr>rw_values = demo_values\<lparr>cvl_createdAt := cvl_createdAt demo_values, cvl_updatedAt := cvl_updatedAt demo_values\<rparr>,
     rw_lastSeq = 1, rw_windowStart = 1, rw_flushId = Some 2, rw_ref = 0\<rparr>\<rparr>"

lemma demo_replay: "replayEntry store_demo_env demo_tx demo_tx store_demo_file = Inr (RApplied, False, demo_replayed)"
  by (simp add: store_demo_file_eq replayEntry_def lockConversation_def demo_tx_def replayDecide_def inflightCommitted_def demo_values replayLocked_def Let_def writeReplay_def
    insertMessages_def demo_seq updateConversation_def writeSideRows_def sideStmts_def noSide_def writeReplayChannel_def replayChannelOf_def spillChannelOf_def channelRowsOf_def
    hasChannelRows_def emptyChannelRows_def demo_replayed_def)

lemma demo_preload: "preload 0 store_demo_session 3 db = Inr (install 0 store_demo_session 3 db)" if "db = demo_tx \<or> db = demo_replayed" for db
  by (rule preload_ok) (use that in \<open>auto simp: dbOk_def lastOf_def demo_tx_def demo_replayed_def demo_seq windowOk_def\<close>)

lemma demo_restart: "store_step (store_step demo_lost (SvStop True False)) store_demo_start =
  \<lparr>wd_db = demo_replayed, wd_limbo = None, wd_base = demo_replayed, wd_proc = Some (install 0 store_demo_session 3 demo_replayed), wd_file = None,
   wd_failed = [], wd_uuid = 3\<rparr>"
proof -
  have "sd_conv demo_tx \<noteq> None" by (simp add: demo_tx_def)
  then show ?thesis
    unfolding demo_stop by (simp add: store_demo_start_def startStore_def resolved_def openStore_def demo_preload replayFile_def demo_replay Let_def)
qed

definition demo_clean :: world where
  "demo_clean = foldl store_step demo_base [SvKick, SvAttempt store_demo_env False, SvCommit, SvAnswer]"

lemma demo_clean_world: "demo_clean = store_demo_world demo_tx demo_tx (afterCommit (demo_unsure [] TxDone))"
proof -
  have "demo_clean = store_step (foldl store_step demo_base [SvKick, SvAttempt store_demo_env False, SvCommit]) SvAnswer" by (simp add: demo_clean_def)
  then show ?thesis unfolding demo_base_world demo_commit demo_answer .
qed

definition demo_flushed :: world where
  "demo_flushed = foldl store_step (store_step demo_base (SvFlush 7)) [SvKick, SvAttempt store_demo_env False, SvCommit, SvAnswer]"

lemma demo_flush: "store_step demo_base (SvFlush 7) = store_demo_world emptyDb emptyDb (demo_saved [(7, 2)])"
  by (simp add: demo_base_world store_demo_world_def onProc_def flushSession_def demo_saved_def demo_entry_def newEntry_def isDirty_def demo_installed modEntry_def)

lemma demo_flushed_world: "demo_flushed = store_demo_world demo_tx demo_tx (afterCommit (demo_unsure [(7, 2)] TxDone))"
proof -
  have "demo_flushed = store_step (foldl store_step (store_step demo_base (SvFlush 7)) [SvKick, SvAttempt store_demo_env False, SvCommit]) SvAnswer"
    by (simp add: demo_flushed_def)
  then show ?thesis unfolding demo_flush demo_commit demo_answer .
qed

section \<open>A start that reads the database too early\<close>

text \<open>
  The old process ends with its transaction ready to commit and no spill file; the next one loads the
  database before the server commits: its first save is refused, as another writer's.
\<close>

definition stale_run :: "store_event list" where
  "stale_run = store_demo_start # demo_said @ [SvKick, SvAttempt store_demo_env False, SvStop False True, store_demo_start, SvLimbo True] @
     [SvNew demo_message, SvArrange (Some [Some 0]) store_demo_session, SvSave, SvKick, SvAttempt store_demo_env False, SvAnswer]"

lemma stale_until: "foldl store_step demo_base [SvKick, SvAttempt store_demo_env False, SvStop False True, store_demo_start, SvLimbo True] =
  store_demo_world demo_tx emptyDb (install 0 store_demo_session 3 emptyDb)\<lparr>wd_uuid := 3\<rparr>"
proof -
  have c: "commitTx emptyDb demo_tx = demo_tx" by (simp add: commitTx_def emptyDb_def demo_tx_def)
  have pre: "preload 0 store_demo_session 3 emptyDb = Inr (install 0 store_demo_session 3 emptyDb)" by (simp add: preload_def emptyDb_def)
  have s: "(store_demo_sent [])\<lparr>en_inflight := Some (demo_snap\<lparr>sn_applied := []\<rparr>)\<rparr> = store_demo_sent []" "en_inflight (store_demo_sent []) = Some demo_snap"
    by (simp_all add: store_demo_sent_def demo_snap_def)
  show ?thesis unfolding demo_base_world
    by (simp add: store_demo_world_def onProc_def demo_kick attempt_def withProc_def resolved_def runAttempt_def demo_write txOf_def s stopStore_def
       store_demo_start_def startStore_def openStore_def pre Let_def settleLimbo_def c)
qed

lemma stale_installed: "install 0 store_demo_session 3 emptyDb = (install 0 store_demo_session 0 emptyDb)\<lparr>pr_uuid := 3\<rparr>"
  by (simp add: install_def Let_def emptyDb_def readWindowMessages_def readLiveOrders_def)

lemma stale_start_conflicts: "\<exists>p. wd_proc (storeRun stale_run) = Some p \<and> pr_conflict p"
proof -
  let ?w = "store_demo_world demo_tx emptyDb (install 0 store_demo_session 3 emptyDb)\<lparr>wd_uuid := 3\<rparr>"
  have run: "storeRun stale_run = foldl store_step ?w [SvNew demo_message, SvArrange (Some [Some 0]) store_demo_session, SvSave, SvKick, SvAttempt store_demo_env False, SvAnswer]"
    unfolding stale_until [symmetric] by (simp add: storeRun_def stale_run_def demo_base_def)
  let ?p = "(install 0 store_demo_session 3 emptyDb)\<lparr>pr_heap := (\<lambda>_. [])(0 := demo_message), pr_nextRef := 1, pr_messages := Some [Some 0]\<rparr>"
  let ?e = "(newEntry 3 False 0 [])\<lparr>en_pending := [0], en_gen := 1, en_kickQueued := True\<rparr>"
  have one: "foldl store_step ?w [SvNew demo_message, SvArrange (Some [Some 0]) store_demo_session] = ?w\<lparr>wd_proc := Some ?p\<rparr>"
    by (simp add: store_demo_world_def onProc_def newMessage_def arrange_def objects_def stale_installed demo_installed)
  have two: "schedule ?p = ?p\<lparr>pr_mem := demo_mem, pr_entry := Some ?e, pr_uuid := 4\<rparr>"
    by (simp add: stale_installed demo_installed schedule_def Let_def entryOf_def newEntry_def demo_assign demo_unnumbered pushFresh_def change_def modEntry_def
      customerMsgids_def demo_no_msgid)
  have "lastCustomerAtOf [demo_message] = None" by (simp add: lastCustomerAtOf_def demo_message_def key_defs js_def)
  then have three: "\<exists>e s q. kickTask (schedule ?p) = q \<and> pr_entry q = Some e \<and> en_inflight e = Some s \<and> pr_tx q = TxRunning \<and> sn_flushId s = 4 \<and> sn_baseSeq s = 0 \<and> \<not> pr_conflict q"
    unfolding two
    by (simp add: stale_installed demo_installed kickTask_def onEntry_def kick_def modEntry_def newEntry_def isDirty_def takeSnapshot_def Let_def
     messageRow_def demo_eval store_demo_row [simplified] sessionValues_def demo_values liveOrders_def)
  then obtain e s q where q: "kickTask (schedule ?p) = q" "pr_entry q = Some e" "en_inflight e = Some s" "pr_tx q = TxRunning" "sn_flushId s = 4" "sn_baseSeq s = 0" "\<not> pr_conflict q"
    by blast
  have four: "runAttempt store_demo_env (bare demo_tx) (bare demo_tx) q = q\<lparr>pr_entry := Some (e\<lparr>en_inflight := Some s\<rparr>), pr_tx := TxFailed EConflict\<rparr>"
    using q by (simp add: runAttempt_def writeSnap_def lockConversation_def demo_tx_def bare_def writeLocked_def txOf_def)
  have "storeRun stale_run = foldl store_step (foldl store_step ?w [SvNew demo_message, SvArrange (Some [Some 0]) store_demo_session]) [SvSave, SvKick, SvAttempt store_demo_env False, SvAnswer]"
    unfolding run by simp
  then show ?thesis unfolding one
    using q four by (simp add: store_demo_world_def onProc_def attempt_def withProc_def resolved_def answer_def failed_def rejectWaiters_def modEntry_def modOut_def)
qed

end
