(* ===== verification/StoreRestore.thy ===== *)
theory StoreRestore
  imports StoreReach
begin

text \<open>
  From a stop with a spill file to the next process, through starts that fail, starts that end between the
  replay and the removal of the file, and a transaction of the old process that the server still commits or
  not: what the database holds when the next process runs.
\<close>

section \<open>What has to be there\<close>

definition auditsIn :: "side_stmt list \<Rightarrow> jstext list" where
  "auditsIn ws = concat (map (\<lambda>x. case x of SAudit a \<Rightarrow> [a] | _ \<Rightarrow> []) ws)"

definition jobsIn :: "side_stmt list \<Rightarrow> job_op list" where
  "jobsIn ws = concat (map (\<lambda>x. case x of SJob j \<Rightarrow> [j] | _ \<Rightarrow> []) ws)"

definition consentsIn :: "side_stmt list \<Rightarrow> jstext list" where
  "consentsIn ws = concat (map (\<lambda>x. case x of SConsent c \<Rightarrow> [c] | _ \<Rightarrow> []) ws)"

lemma sideIn_append [simp]: "auditsIn (xs @ ys) = auditsIn xs @ auditsIn ys" "jobsIn (xs @ ys) = jobsIn xs @ jobsIn ys"
    "consentsIn (xs @ ys) = consentsIn xs @ consentsIn ys"
  by (simp_all add: auditsIn_def jobsIn_def consentsIn_def)

lemma concat_map_const: "(\<And>x. f x = []) \<Longrightarrow> concat (map f xs) = []" "concat (map (\<lambda>x. [x]) xs) = xs"
  by (induction xs) auto

lemma sideIn_rows [simp]:
  "auditsIn (map SOrder os) = []" "jobsIn (map SOrder os) = []" "consentsIn (map SOrder os) = []"
  "auditsIn (sideStmts s) = sr_audits s" "jobsIn (sideStmts s) = sr_jobs s" "consentsIn (sideStmts s) = sr_consents s"
  by (simp_all add: auditsIn_def jobsIn_def consentsIn_def sideStmts_def concat_map_const comp_def)

text \<open>The side rows a process had not committed: those of the flush in flight, then the queued ones.\<close>

definition unsavedSide :: "entry \<Rightarrow> side_rows" where
  "unsavedSide e = (case en_inflight e of None \<Rightarrow> en_side e | Some s \<Rightarrow> rowSide (sn_side s) (en_side e))"

definition restored :: "proc \<Rightarrow> entry \<Rightarrow> store_db \<Rightarrow> store_db \<Rightarrow> bool" where
  "restored p e base d \<longleftrightarrow>
     (\<exists>rows. sd_messages d = sd_messages base @ rows \<and>
        list_all2 (\<lambda>m r. saidRow (pr_mem p) (pr_heap p) m = Inr (said r)) (en_pending e) rows) \<and>
     auditsIn (sd_side d) = auditsIn (sd_side base) @ sr_audits (unsavedSide e) \<and>
     jobsIn (sd_side d) = jobsIn (sd_side base) @ sr_jobs (unsavedSide e) \<and>
     consentsIn (sd_side d) = consentsIn (sd_side base) @ sr_consents (unsavedSide e) \<and>
     lastOf d = lastNo p"

section \<open>One replay\<close>

lemma filter_after:
  assumes "map fst ms = [a..<b]" "a \<le> c + 1" "c + 1 \<le> b"
  shows "filter (\<lambda>m. fst m > c) ms = drop (c + 1 - a) ms"
proof -
  let ?k = "c + 1 - a"
  have t: "map fst (take ?k ms) = [a..<c + 1]" and d: "map fst (drop ?k ms) = [c + 1..<b]"
    using assms by (simp_all add: take_map [symmetric] drop_map [symmetric] del: upt_Suc)
  have low: "\<not> fst m > c" if "m \<in> set (take ?k ms)" for m
    using imageI [OF that, of fst] unfolding set_map [symmetric] t by (simp del: upt_Suc)
  have high: "fst m > c" if "m \<in> set (drop ?k ms)" for m
    using imageI [OF that, of fst] unfolding set_map [symmetric] d by (simp del: upt_Suc)
  have "filter (\<lambda>m. fst m > c) (take ?k ms) = []" "filter (\<lambda>m. fst m > c) (drop ?k ms) = drop ?k ms"
    using low high by (simp_all only: filter_empty_conv filter_id_conv) blast+
  then have "filter (\<lambda>m. fst m > c) (take ?k ms @ drop ?k ms) = drop ?k ms"
    by (simp only: filter_append append_Nil)
  then show ?thesis by simp
qed

lemma spillMessage_said:
  assumes "spillMessageRow (case seqOf mem m of None \<Rightarrow> 0 | Some n \<Rightarrow> n, normalizeForStore (heap m)) = Inr r"
  shows "saidRow mem heap m = Inr (said r)"
proof -
  have "mv_turnId r = None" using assms by (auto simp: spillMessageRow_def messageToRow_def Let_def split: sum.splits)
  then have "said r = r" by (simp add: said_def)
  then show ?thesis using assms by (simp add: spillMessageRow_def saidRow_def messageToRow_normal seqOf_def)
qed

lemma restored_replayed:
  assumes ok: "procOk p db limbo base" "pr_entry p = Some e"
    and x: "core z x = core z base \<or> (\<exists>s. en_inflight e = Some s \<and> ahead z (en_ref e) x base s)"
    and r: "replayedTo (spillEntryOf p e) x d"
  shows "restored p e base d"
proof -
  let ?f = "spillEntryOf p e"
  let ?ms = "sp_messages ?f"
  note eo = procOk_entry [OF ok]
  note fits = spill_fits [OF eo ok(1) x]
  have nums: "map fst ?ms = [en_committedSeq e + 1..<lastNo p + 1]"
    using fits(1) by (simp add: spillFits_def spillEntryOf_def del: upt_Suc)
  have le: "en_committedSeq e \<le> lastOf x" "lastOf x \<le> lastNo p"
    using replayDecide_fits(2,3) [OF fits(1)] by (simp_all add: spillEntryOf_def)
  obtain rows orders where rows: "sd_messages d = sd_messages x @ rows"
      "list_all2 (\<lambda>m r. spillMessageRow m = Inr r) (filter (\<lambda>m. fst m > lastOf x) ?ms) rows"
    and side: "sd_side d = sd_side x @ map SOrder orders @ sideStmts (replaySide ?f x)"
    and l: "lastOf d = lastNo p"
    using r by (auto simp: replayedTo_def spillEntryOf_def)
  let ?k = "lastOf x - en_committedSeq e"
  have "filter (\<lambda>m. fst m > lastOf x) ?ms = drop ?k ?ms"
    using filter_after [OF nums, of "lastOf x"] le by simp
  then have new: "list_all2 (\<lambda>m r. saidRow (pr_mem p) (pr_heap p) m = Inr (said r)) (drop ?k (en_pending e)) rows"
    using rows(2) by (auto simp: spillEntryOf_def drop_map list.rel_map elim!: list_all2_mono dest: spillMessage_said)
  have c: "en_committedSeq e = lastOf base" and b: "sd_side x = sd_side base \<and> sd_messages x = sd_messages base \<and> lastOf x = lastOf base \<and> flushOf x = flushOf base"
    if "core z x = core z base"
    using eo core_cong [OF that] by (simp_all add: entryOk_def)
  from x show ?thesis
  proof (elim disjE exE conjE)
    assume base: "core z x = core z base"
    have "flushOf base \<noteq> Some (sn_flushId s)" if "en_inflight e = Some s" for s
      using eo that by (simp add: entryOk_def snapOk_def continues_def)
    then have "sideStmts (replaySide ?f x) = sideStmts (rowSide (case en_inflight e of None \<Rightarrow> noSide | Some s \<Rightarrow> withoutBytes (sn_side s)) (withoutBytes (en_side e)))"
      using b [OF base] by (auto simp: replaySide_def spillEntryOf_def rowSide_def noSide_def sideStmts_def split: option.split)
    then show ?thesis using rows(1) new side l b [OF base] c [OF base]
      by (auto simp: restored_def unsavedSide_def rowSide_def withoutBytes_def noSide_def split: option.split)
  next
    fix s assume s: "en_inflight e = Some s" "ahead z (en_ref e) x base s"
    have so: "continues base s" "snapRows (pr_mem p) (pr_heap p) (en_pending e) s" and cb: "en_committedSeq e = lastOf base"
      using eo s(1) by (simp_all add: entryOk_def snapOk_def)
    note af = ahead_facts [OF s(2) so(1)]
    have k: "?k = length (sn_messages s)" using continues_length [OF so(1)] so(1) af(2) cb by (simp add: continues_def)
    have xs: "sd_messages x = sd_messages base @ sn_messages s"
        "sd_side x = sd_side base @ map SOrder (sn_orders s) @ sideStmts (sn_side s)"
      using core_cong(2,3) [OF s(2) [unfolded ahead_def]] by (simp_all add: flushTo_def)
    have "list_all2 (\<lambda>m r. saidRow (pr_mem p) (pr_heap p) m = Inr (said r)) (take ?k (en_pending e) @ drop ?k (en_pending e)) (sn_messages s @ rows)"
      by (rule list_all2_appendI) (use so(2) new in \<open>simp_all add: snapRows_def k\<close>)
    then have "list_all2 (\<lambda>m r. saidRow (pr_mem p) (pr_heap p) m = Inr (said r)) (en_pending e) (sn_messages s @ rows)" by simp
    moreover have "replaySide ?f x = withoutBytes (en_side e)"
      using s(1) af(3) by (simp add: replaySide_def spillEntryOf_def)
    ultimately show ?thesis using rows(1) xs side l s(1)
      by (auto simp: restored_def unsavedSide_def rowSide_def withoutBytes_def)
  qed
qed

section \<open>The way to the next process\<close>

definition restartEvent :: "store_event \<Rightarrow> bool" where
  "restartEvent ev = (case ev of SvStart _ _ _ _ _ _ \<Rightarrow> True | SvStartCrash _ _ \<Rightarrow> True | SvLimbo _ \<Rightarrow> True | _ \<Rightarrow> False)"

text \<open>A database before the replay of the file, or after it.\<close>

definition replayPoint :: "proc \<Rightarrow> entry \<Rightarrow> store_db \<Rightarrow> store_db \<Rightarrow> bool" where
  "replayPoint p e base x \<longleftrightarrow>
     core (pz e) x = core (pz e) base \<or> (\<exists>s. en_inflight e = Some s \<and> ahead (pz e) (en_ref e) x base s) \<or>
     flushOf x = Some (sp_flushId (spillEntryOf p e)) \<and> restored p e base x"

definition onTheWay :: "proc \<Rightarrow> entry \<Rightarrow> store_db \<Rightarrow> nat \<Rightarrow> world \<Rightarrow> bool" where
  "onTheWay p e base n w \<longleftrightarrow>
     (case wd_proc w of
        None \<Rightarrow> worldOk w \<and> wd_file w = Some (spillEntryOf p e) \<and> (\<forall>b. replayPoint p e base (resolved w b)) \<and> length (wd_failed w) = n
      | Some _ \<Rightarrow> wd_limbo w = None \<and> (length (wd_failed w) = n \<longrightarrow> restored p e base (wd_db w)))"

lemma replayPoint_replayed:
  assumes "procOk p db limbo base" "pr_entry p = Some e" "replayPoint p e base x"
    and "replayedTo (spillEntryOf p e) x d" "flushOf x \<noteq> Some (sp_flushId (spillEntryOf p e))"
  shows "restored p e base d"
  using assms(3,5) restored_replayed [OF assms(1,2) _ assms(4)] by (auto simp: replayPoint_def)

lemma replayPoint_done:
  assumes "procOk p db limbo base" "pr_entry p = Some e" "replayPoint p e base x" "flushOf x = Some (sp_flushId (spillEntryOf p e))"
  shows "restored p e base x"
  using assms(3,4) spill_fits(2) [OF procOk_entry [OF assms(1,2)] assms(1), of "pz e" x] by (auto simp: replayPoint_def spillEntryOf_def)

lemma onTheWay_start:
  assumes ok: "procOk p db limbo base" "pr_entry p = Some e" and w: "onTheWay p e base n w"
  shows "onTheWay p e base n (startStore env f1 f2 since init b w)"
proof (cases "wd_proc w")
  case (Some q)
  then show ?thesis using w by (simp add: startStore_def)
next
  case None
  let ?f = "spillEntryOf p e"
  have f: "wd_file w = Some ?f" and pt: "replayPoint p e base (resolved w b)" and st: "stoppedOk w" and n: "length (wd_failed w) = n"
    using w None by (simp_all add: onTheWay_def worldOk_def)
  from openStore_file [OF st f, of env f1 f2 since init b] show ?thesis
  proof (elim disjE exE conjE, goal_cases)
    case 1
    then have "startStore env f1 f2 since init b w = w"
      using None f by (auto simp: startStore_def split: prod.split sum.split)
    then show ?case using w by simp
  qed (use None f n replayPoint_replayed [OF ok pt] replayPoint_done [OF ok pt] in \<open>auto simp: startStore_def onTheWay_def Let_def\<close>)
qed

lemma onTheWay_crash:
  assumes ok: "procOk p db limbo base" "pr_entry p = Some e" and w: "onTheWay p e base n w"
  shows "onTheWay p e base n (startCrash env b w)"
proof (cases "wd_proc w")
  case (Some q)
  then show ?thesis using w by (simp add: startCrash_def)
next
  case None
  let ?f = "spillEntryOf p e"
  let ?later = "resolved w b"
  let ?r = "replayEntry env (if sd_conv (wd_db w) = None then wd_db w else ?later) ?later ?f"
  have f: "wd_file w = Some ?f" and pt: "replayPoint p e base ?later" and st: "stoppedOk w" and wok: "worldOk w"
    using w None by (simp_all add: onTheWay_def worldOk_def)
  have fits: "spillFits ?f (wd_db w)" "spillFits ?f ?later"
    using stoppedOkD(3) [OF st f, of False] stoppedOkD(3) [OF st f, of b] by (simp_all add: resolved_now)
  have a: "replayAnswer ?f ?later ?later ?r" by (rule replayEntry_answer [OF fits])
  have next_ok: "worldOk (startCrash env b w)" by (rule worldOk_startCrash [OF wok])
  show ?thesis
  proof (cases ?r)
    case (Inl err)
    then show ?thesis using w None f by (simp add: startCrash_def)
  next
    case (Inr x)
    obtain k wrote d where xs: "x = (k, wrote, d)" by (cases x) auto
    have k: "k \<noteq> RConflict" and d: "flushOf d = Some (sp_flushId ?f)" "restored p e base d"
      using a replayPoint_replayed [OF ok pt] replayPoint_done [OF ok pt] unfolding Inr xs
      by (auto simp: replayAnswer_def replayedTo_def split: replay_result.splits)
    have eq: "startCrash env b w = w\<lparr>wd_db := d, wd_limbo := None\<rparr>" using None f Inr xs k by (simp add: startCrash_def)
    have "replayPoint p e base (resolved (w\<lparr>wd_db := d, wd_limbo := None\<rparr>) b')" for b'
      using d by (simp add: resolved_def replayPoint_def)
    then show ?thesis using next_ok w None unfolding eq by (simp add: onTheWay_def)
  qed
qed

lemma onTheWay_limbo:
  assumes "onTheWay p e base n w"
  shows "onTheWay p e base n (settleLimbo b w)"
proof (cases "wd_proc w")
  case None
  then have "worldOk (settleLimbo b w)" using assms worldOk_limbo by (simp add: onTheWay_def)
  moreover have "resolved (settleLimbo b w) b' = resolved w b" for b' by (simp add: settleLimbo_def resolved_def)
  ultimately show ?thesis using assms None by (simp add: onTheWay_def) (simp add: settleLimbo_def)
next
  case (Some q)
  then show ?thesis using assms by (simp add: onTheWay_def settleLimbo_def resolved_def)
qed

lemma onTheWay_run:
  assumes ok: "procOk p db limbo base" "pr_entry p = Some e"
  shows "onTheWay p e base n w \<Longrightarrow> list_all restartEvent evs \<Longrightarrow> onTheWay p e base n (foldl store_step w evs)"
proof (induction evs arbitrary: w)
  case (Cons ev evs)
  have "onTheWay p e base n (store_step w ev)"
    using Cons.prems onTheWay_start [OF ok] onTheWay_crash [OF ok] onTheWay_limbo
    by (cases ev) (simp_all add: restartEvent_def)
  then show ?case using Cons by simp
qed simp

lemma onTheWay_stop:
  assumes "worldOk w" "wd_proc w = Some p" "pr_entry p = Some e" "spillSync p \<noteq> None"
  shows "onTheWay p e (wd_base w) (length (wd_failed w)) (stopStore True b w)"
proof -
  have ok: "procOk p (wd_db w) (wd_limbo w) (wd_base w)" using assms(1,2) by (simp add: worldOk_def)
  define limbo' where "limbo' = (case pr_tx p of TxReady t \<Rightarrow> if b then Some t else wd_limbo w | _ \<Rightarrow> wd_limbo w)"
  have l': "limbo' = wd_limbo w \<or> (\<exists>t. pr_tx p = TxReady t \<and> limbo' = Some t)"
    by (simp add: limbo'_def split: tx_state.split)
  have stop: "stopStore True b w = w\<lparr>wd_proc := None, wd_file := spillSync p, wd_limbo := limbo', wd_uuid := pr_uuid p + 1\<rparr>"
    using assms(2) by (simp add: stopStore_def withProc_def limbo'_def)
  have "replayPoint p e (wd_base w) (resolved (stopStore True b w) b')" for b'
    using place_settled [OF procOk_entry [OF ok assms(3)] l', of b'] unfolding stop
    by (auto simp: replayPoint_def resolved_resolveTo)
  moreover have "wd_file (stopStore True b w) = Some (spillEntryOf p e)"
    using assms(3,4) unfolding stop by (auto simp: spillSync_def split: if_splits)
  ultimately show ?thesis using worldOk_stop [OF assms(1), of True b] by (simp add: onTheWay_def stop)
qed

end
