(* ===== verification/StoreClean.thy ===== *)
theory StoreClean
  imports StoreReach
begin

text \<open>
  What a generation covers: when all changes of a queue are committed, nothing of it is left in memory
  alone, and a flush that is reported as done has written the messages that were there when it was asked for.
\<close>

section \<open>Steps that neither take a snapshot nor commit one\<close>

definition emptied :: "entry \<Rightarrow> bool" where
  "emptied e \<longleftrightarrow> en_voids e = [] \<and> en_side e = noSide \<and> en_telemetry e = emptyTelemetry \<and> en_channel e = [] \<and>
     en_inbox e = [] \<and> en_events e = [] \<and> (en_orderIds e = [] \<or> en_gen e = 0)"

text \<open>
  The rows a poisoned conversation saves on its own: only a poisoned queue has any, and a poisoned queue
  has a change that no flush covers (so that it never counts as clean).
\<close>

definition laneOk :: "entry \<Rightarrow> bool" where
  "laneOk e \<longleftrightarrow>
     (if en_poisoned e = None then en_pc e = emptyChannelRows \<and> en_pcRun e = None
      else en_committedGen e < en_gen e \<and>
        (\<forall>s. en_inflight e = Some s \<longrightarrow> sn_dead s \<or> sn_gen s < en_gen e))"

definition snapMark :: "snap \<Rightarrow> nat \<times> nat" where
  "snapMark s = (sn_gen s, sn_lastSeq s)"

text \<open>\<open>ch\<close> says whether the rows on their own are left in order too; poisoning alone does not do that.\<close>

definition goesE :: "bool \<Rightarrow> entry \<Rightarrow> entry \<Rightarrow> bool" where
  "goesE ch e e' \<longleftrightarrow> en_gen e \<le> en_gen e' \<and> en_committedGen e' = en_committedGen e \<and> en_committedSeq e' = en_committedSeq e \<and>
     map_option snapMark (en_inflight e') = map_option snapMark (en_inflight e) \<and> set (en_waiters e') \<subseteq> set (en_waiters e) \<and>
     (en_gen e' = en_gen e \<longrightarrow> emptied e \<longrightarrow> emptied e') \<and> (ch \<longrightarrow> laneOk e \<longrightarrow> laneOk e')"

definition goesOn :: "bool \<Rightarrow> proc \<Rightarrow> proc \<Rightarrow> bool" where
  "goesOn ch p p' \<longleftrightarrow> lastNo p \<le> lastNo p' \<and> so_resolved (pr_out p') = so_resolved (pr_out p) \<and>
     (case pr_entry p of None \<Rightarrow> pr_entry p' = None \<and> lastNo p' = lastNo p
      | Some e \<Rightarrow> (\<exists>e'. pr_entry p' = Some e' \<and> goesE ch e e' \<and> (en_gen e' = en_gen e \<longrightarrow> lastNo p' = lastNo p)))"

lemma goesE_refl [simp]: "goesE ch e e"
  by (simp add: goesE_def)

lemma goesOn_refl [simp]: "goesOn ch p p"
  by (simp add: goesOn_def split: option.split)

lemma goesE_trans: "goesE ch a b \<Longrightarrow> goesE ch b c \<Longrightarrow> goesE ch a c"
  unfolding goesE_def by auto

lemma goesOn_trans:
  assumes "goesOn ch a b" "goesOn ch b c"
  shows "goesOn ch a c"
proof (cases "pr_entry a")
  case (Some e)
  then obtain e' where e': "pr_entry b = Some e'" "goesE ch e e'" "en_gen e' = en_gen e \<longrightarrow> lastNo b = lastNo a"
    using assms(1) by (auto simp: goesOn_def)
  then obtain e'' where e'': "pr_entry c = Some e''" "goesE ch e' e''" "en_gen e'' = en_gen e' \<longrightarrow> lastNo c = lastNo b"
    using assms(2) by (auto simp: goesOn_def)
  have "en_gen e'' = en_gen e \<longrightarrow> en_gen e' = en_gen e" using e'(2) e''(2) by (auto simp: goesE_def)
  then show ?thesis using assms Some e'(1,3) e''(1,3) goesE_trans [OF e'(2) e''(2)] by (auto simp: goesOn_def)
qed (use assms in \<open>simp add: goesOn_def\<close>)

named_theorems goes

lemma goesOn_modEntry [goes]: "(\<And>e. pr_entry p = Some e \<Longrightarrow> goesE ch e (f e)) \<Longrightarrow> goesOn ch p (modEntry f p)"
  by (simp add: goesOn_def modEntry_def split: option.split)

lemma goesOn_modOut [goes]: "(\<And>out. so_resolved (f out) = so_resolved out) \<Longrightarrow> goesOn ch p (modOut f p)"
  by (simp add: goesOn_def modOut_def split: option.split)

lemma goesOn_after: "goesOn ch q (f q) \<Longrightarrow> goesOn ch p q \<Longrightarrow> goesOn ch p (f q)"
  by (rule goesOn_trans)

text \<open>A change that goes with a new generation may do anything to the queued rows.\<close>

lemma goesOn_change:
  assumes "\<And>e. pr_entry p = Some e \<Longrightarrow> goesE ch e (f e) \<or>
    en_gen (f e) = en_gen e \<and> en_committedGen (f e) = en_committedGen e \<and> en_committedSeq (f e) = en_committedSeq e \<and>
    en_inflight (f e) = en_inflight e \<and> en_waiters (f e) = en_waiters e \<and> (laneOk e \<longrightarrow> laneOk (f e))"
    and "sm_states mem = sm_states (pr_mem p) \<or> pr_entry p \<noteq> None \<and> lastNo p \<le> lastSeqOf mem SELF"
  shows "goesOn ch p (change (modEntry f (p\<lparr>pr_mem := mem\<rparr>)))"
proof -
  have l: "lastNo p \<le> lastSeqOf mem SELF" "pr_entry p = None \<Longrightarrow> lastSeqOf mem SELF = lastNo p"
    using assms(2) by (auto simp: lastSeqOf_def stateOf_def)
  show ?thesis using assms(1) l
    by (cases "pr_entry p") (auto simp: goesOn_def change_def modEntry_def goesE_def laneOk_def split: if_splits)
qed

lemma goesOn_changed: "(\<And>e. pr_entry p = Some e \<Longrightarrow> en_gen (f e) = en_gen e \<and> en_committedGen (f e) = en_committedGen e \<and>
      en_committedSeq (f e) = en_committedSeq e \<and> en_inflight (f e) = en_inflight e \<and> en_waiters (f e) = en_waiters e \<and>
      en_poisoned (f e) = en_poisoned e \<and> en_pc (f e) = en_pc e \<and> en_pcRun (f e) = en_pcRun e) \<Longrightarrow>
    goesOn ch p (change (modEntry f p))"
  using goesOn_change [where p = p and f = f and mem = "pr_mem p" and ch = ch] by (simp add: laneOk_def)

lemma goesOn_weaken: "goesOn True p q \<Longrightarrow> goesOn ch p q"
  by (auto simp: goesOn_def goesE_def split: option.splits)

lemma goesOn_unsaved [goes]: "goesOn ch p (deliverHandoffUnsaved evs p)"
  unfolding deliverHandoffUnsaved_def by (intro goes) simp

lemma goesOn_rejectWaiters [goes]: "goesOn ch p (rejectWaiters p)"
  unfolding rejectWaiters_def
  by (auto simp: goesE_def emptied_def laneOk_def split: option.split intro!: goesOn_after [OF goesOn_modEntry] goes)

lemma goesOn_kickPoisoned [goes]: "goesOn ch p (kickPoisoned p)"
  unfolding kickPoisoned_def by (intro goes) (simp add: goesE_def emptied_def laneOk_def)

lemma goesOn_appendPoisoned [goes]:
  "(\<And>e. ch \<Longrightarrow> pr_entry p = Some e \<Longrightarrow> en_poisoned e \<noteq> None) \<Longrightarrow> goesOn ch p (appendPoisoned rows front p)"
  unfolding appendPoisoned_def by (auto simp: goesE_def emptied_def laneOk_def intro!: goesOn_after [OF goesOn_kickPoisoned] goes)

lemma goesOn_poison: "goesOn False p (poison err p)"
  unfolding poison_def Let_def
  by (auto simp: goesE_def emptied_def split: option.split
      intro!: goesOn_after [OF goesOn_kickPoisoned] goesOn_after [OF goesOn_unsaved] goesOn_after [OF goesOn_rejectWaiters]
        goesOn_after [OF goesOn_appendPoisoned] goes)

lemmas poison_defs = poison_def appendPoisoned_def kickPoisoned_def deliverHandoffUnsaved_def rejectWaiters_def
  modEntry_def modOut_def Let_def

lemma poison_entry:
  "pr_entry p = Some e \<Longrightarrow>
   \<exists>e'. pr_entry (poison err p) = Some e' \<and> en_poisoned e' \<noteq> None \<and> en_gen e' = en_gen e \<and>
     en_committedGen e' = en_committedGen e \<and> en_inflight e' = en_inflight e"
  by (auto simp: poison_defs)

lemma goesOn_lane:
  assumes "goesOn False p q" "\<And>e e'. pr_entry p = Some e \<Longrightarrow> pr_entry q = Some e' \<Longrightarrow> laneOk e'"
  shows "goesOn ch p q"
  using assms by (auto simp: goesOn_def goesE_def split: option.splits)

lemma goesOn_poison_dirty:
  assumes "pr_entry p = Some e" "en_committedGen e < en_gen e" "en_inflight e = None"
  shows "goesOn ch p (poison err p)"
proof (rule goesOn_lane [OF goesOn_poison])
  fix e0 e' assume "pr_entry p = Some e0" "pr_entry (poison err p) = Some e'"
  then show "laneOk e'" using poison_entry [OF assms(1), of err] assms by (auto simp: laneOk_def)
qed

lemma goesOn_fields:
  "goesOn ch p (q\<lparr>pr_pcServed := b\<rparr>) \<longleftrightarrow> goesOn ch p q" "goesOn ch p (q\<lparr>pr_tx := t\<rparr>) \<longleftrightarrow> goesOn ch p q"
  "goesOn ch p (q\<lparr>pr_conflict := b\<rparr>) \<longleftrightarrow> goesOn ch p q" "goesOn ch p (q\<lparr>pr_orders := m\<rparr>) \<longleftrightarrow> goesOn ch p q"
  "goesOn ch p (q\<lparr>pr_writable := b\<rparr>) \<longleftrightarrow> goesOn ch p q" "goesOn ch p (q\<lparr>pr_closed := b\<rparr>) \<longleftrightarrow> goesOn ch p q"
  "goesOn ch p (q\<lparr>pr_voided := v\<rparr>) \<longleftrightarrow> goesOn ch p q"
  by (cases "pr_entry p"; simp add: goesOn_def)+

lemma goesOn_pump [goes]: "goesOn ch p (pumpPoisoned p)"
  unfolding pumpPoisoned_def
  by (auto simp: goesE_def emptied_def laneOk_def goesOn_fields split: option.split intro!: goesOn_modEntry)

lemma goesOn_runPoisoned [goes]: "goesOn ch p (runPoisoned r p)"
proof (cases r)
  case PcWritten
  then show ?thesis unfolding runPoisoned_def Let_def
    by (auto simp: goesE_def emptied_def laneOk_def split: option.split intro!: goesOn_after [OF goesOn_pump] goesOn_after [OF goesOn_modOut] goesOn_modEntry)
next
  case PcData
  then show ?thesis unfolding runPoisoned_def Let_def
    by (auto simp: goesE_def emptied_def laneOk_def split: option.split intro!: goesOn_after [OF goesOn_pump] goesOn_modEntry)
next
  case PcRetry
  have two: "modEntry f (modEntry g p) = modEntry (\<lambda>e. f (g e)) p" for f g
    by (simp add: modEntry_def option.map_comp comp_def)
  show ?thesis using PcRetry unfolding runPoisoned_def Let_def two
    by (auto simp: goesE_def emptied_def laneOk_def split: option.split intro!: goesOn_modEntry)
qed

lemma goesOn_onEntry: "(\<And>e. pr_entry p = Some e \<Longrightarrow> goesOn ch p (f e p)) \<Longrightarrow> goesOn ch p (onEntry f p)"
  by (simp add: onEntry_def split: option.split)

lemma goesOn_session:
  "goesOn ch p (newMessage m p)" "goesOn ch p (arrange arr st p)" "goesOn ch p (p\<lparr>pr_mem := noteWindowReset (pr_mem p) s\<rparr>)"
  "goesOn ch p (p\<lparr>pr_mem := linkTurn (pr_mem p) i t\<rparr>)"
  by (auto simp: goesOn_def newMessage_def arrange_def noteWindowReset_def linkTurn_def lastSeqOf_def stateOf_def split: option.split)

lemma goesOn_timers:
  "goesOn ch p (flushTimeout i p)" "goesOn ch p (snd (holdForPurge p))" "goesOn ch p (pcTask p)" "goesOn ch p (pcTimerTask p)"
  "goesOn ch p (answerPc r p)" "goesOn ch p (retryTimer p)" "goesOn ch p (close p)"
proof -
  show "goesOn ch p (flushTimeout i p)" unfolding flushTimeout_def
    by (auto simp: goesE_def emptied_def laneOk_def split: option.split intro!: goesOn_after [OF goesOn_modOut] goesOn_modEntry)
  show "goesOn ch p (snd (holdForPurge p))" unfolding holdForPurge_def
    by (auto simp: goesE_def emptied_def laneOk_def split: option.split intro!: goes)
  show "goesOn ch p (pcTask p)" unfolding pcTask_def
    by (auto simp: goesE_def emptied_def laneOk_def intro!: goesOn_onEntry goesOn_after [OF goesOn_pump] goesOn_modEntry)
  show "goesOn ch p (pcTimerTask p)" unfolding pcTimerTask_def
    by (auto simp: goesE_def emptied_def laneOk_def intro!: goesOn_onEntry goesOn_after [OF goesOn_pump] goesOn_modEntry)
  show "goesOn ch p (answerPc r p)" unfolding answerPc_def by (auto intro: goes)
  show "goesOn ch p (retryTimer p)" unfolding retryTimer_def Let_def
    by (auto simp: goesE_def emptied_def laneOk_def goesOn_fields split: option.split intro!: goesOn_modEntry)
  show "goesOn ch p (close p)" unfolding close_def
    by (rule goesOn_trans [OF _ goesOn_modEntry]) (simp_all add: goesOn_fields goesE_def emptied_def laneOk_def)
qed

lemma goesOn_applied: "goesOn ch p (snd (jobOpApplied i p))"
  by (auto simp: jobOpApplied_def goesOn_def goesE_def emptied_def laneOk_def split: option.split)

lemma laneOk_inflight:
  "en_inflight e = Some s \<Longrightarrow> sn_gen s' = sn_gen s \<Longrightarrow> sn_dead s' = sn_dead s \<Longrightarrow>
   laneOk (e\<lparr>en_inflight := Some s'\<rparr>) = laneOk e"
  by (simp add: laneOk_def)

lemma goesOn_attempt: "goesOn ch p (runAttempt env db later p)"
  by (auto simp: runAttempt_def goesOn_def goesE_def emptied_def laneOk_inflight snapMark_def Let_def split: option.split flush_result.split)

lemma goesOn_queues:
  "goesOn ch (entryOf p) (queueAudit a p)" "goesOn ch (entryOf p) (queueJobs ops p)" "goesOn ch (entryOf p) (queueConsents cs p)"
  "goesOn ch (entryOf p) (queueAttachment at' p)" "goesOn ch (entryOf p) (queueAttachmentResult r p)"
  "goesOn ch (entryOf p) (queueTelemetry t p)" "goesOn ch (entryOf p) (queueChannel rows p)" "goesOn ch (entryOf p) (queueInbox ws p)"
  by (auto simp: side_ops queueSide_def queueTelemetry_def queueChannel_def queueInbox_def intro!: goesOn_onEntry goesOn_changed goes)

lemma goesOn_emit: "goesOn ch (entryOf p) (emitAfterCommit v p)"
proof -
  have q: "goesOn ch (entryOf p) (change (modEntry (\<lambda>e. e\<lparr>en_events := en_events e @ [v]\<rparr>) (entryOf p)))"
    by (intro goesOn_changed) simp
  show ?thesis unfolding emitAfterCommit_def Let_def
    by (auto split: option.split intro: q goesOn_trans [OF q goesOn_unsaved])
qed

lemma goesOn_orders:
  "goesOn ch (entryOf p) (voidOrder i od now reason p)" "scheduleOrder i p = p \<or> goesOn ch (entryOf p) (scheduleOrder i p)"
proof -
  have "goesOn ch (entryOf p) ((entryOf p)\<lparr>pr_voided := i # pr_voided (entryOf p)\<rparr>)" by (simp add: goesOn_fields)
  then show "goesOn ch (entryOf p) (voidOrder i od now reason p)"
    unfolding voidOrder_def Let_def by (rule goesOn_trans) (intro goesOn_changed, simp)
  show "scheduleOrder i p = p \<or> goesOn ch (entryOf p) (scheduleOrder i p)"
    unfolding scheduleOrder_def Let_def by (auto split: option.split intro!: goesOn_changed)
qed

lemma goesOn_failed:
  assumes "\<And>e s. pr_entry p = Some e \<Longrightarrow> en_inflight e = Some s \<Longrightarrow> en_committedGen e < en_gen e"
  shows "goesOn ch p (failed err p)"
proof (cases "pr_entry p")
  case (Some e)
  show ?thesis
  proof (cases "en_inflight e")
    case s: (Some s)
    have q: "goesOn ch p (p\<lparr>pr_tx := TxNone\<rparr>)" "goesOn ch p (p\<lparr>pr_tx := TxNone, pr_conflict := True\<rparr>)" by (simp_all add: goesOn_fields)
    let ?dead = "modEntry (\<lambda>e. e\<lparr>en_inflight := Some ((withoutChannelRows s)\<lparr>sn_dead := True, sn_telemetry := emptyTelemetry\<rparr>)\<rparr>) (p\<lparr>pr_tx := TxNone\<rparr>)"
    have d: "goesOn False p ?dead"
      using Some s by (simp add: goesOn_def modEntry_def goesE_def snapMark_def withoutChannelRows_def emptied_def)
    have a: "goesOn False p (appendPoisoned r f ?dead)" for r f
      by (rule goesOn_trans [OF d goesOn_appendPoisoned]) simp
    note data = goesOn_trans [OF goesOn_trans [OF goesOn_trans [OF a goesOn_unsaved] goesOn_poison] goesOn_kickPoisoned]
    have lane: "laneOk e'"
      if "pr_entry (kickPoisoned (poison err (deliverHandoffUnsaved evs (appendPoisoned r f ?dead)))) = Some e'" for evs r f e'
      using that assms [OF Some s] Some by (auto simp: poison_defs laneOk_def split: if_splits)
    have dat: "goesOn ch p (kickPoisoned (poison err (deliverHandoffUnsaved evs (appendPoisoned r f ?dead))))" for evs r f
      by (rule goesOn_lane [OF data lane])
    have t: "goesOn ch r (modEntry (\<lambda>e. e\<lparr>en_attempts := en_attempts e + 1, en_timer := True\<rparr>) r)" for r
      by (intro goes) (simp add: goesE_def emptied_def laneOk_def)
    show ?thesis
      using q dat goesOn_trans [OF q(2) goesOn_rejectWaiters] goesOn_trans [OF q(1) goesOn_unsaved]
        goesOn_trans [OF goesOn_trans [OF q(1) goesOn_unsaved] t]
      by (cases "classify err") (simp_all add: failed_def Some s Let_def)
  qed (simp add: failed_def Some)
qed (simp add: failed_def)

subsection \<open>Saving\<close>

lemma goesOn_fresh:
  assumes "procOk p db limbo base" "pr_entry p = Some e" "assignSeqs strict (pr_mem p) SELF (pr_messages p) = (Inr fresh, mem)"
  shows "goesOn True p (pushFresh fresh (p\<lparr>pr_mem := mem\<rparr>))"
proof -
  have "distinct (objects (pr_messages p))" using procOk_mem [OF assms(1)] by (simp add: memOk_def)
  then have "lastNo p \<le> lastSeqOf mem SELF" using assigned(2) [OF assms(3)] by simp
  then show ?thesis unfolding pushFresh_def by (intro goesOn_change) (simp_all add: assms(2) laneOk_def)
qed

lemma goesOn_corrupt:
  assumes "assignSeqs strict (pr_mem p) SELF (pr_messages p) = (Inl c, mem)"
  shows "goesOn True p (p\<lparr>pr_mem := mem\<rparr>)"
proof -
  have "sm_states mem = sm_states (pr_mem p)"
    using assms by (auto simp: assignSeqs_def Let_def case_prod_beta split: if_splits option.splits)
  then show ?thesis by (simp add: goesOn_def lastSeqOf_def stateOf_def split: option.split)
qed

lemma goesOn_lenient:
  assumes "procOk p db limbo base" "pr_entry p = Some e"
  shows "goesOn True p (lenientSave p)"
proof -
  obtain r mem where r: "assignSeqs False (pr_mem p) SELF (pr_messages p) = (r, mem)" by fastforce
  then show ?thesis
    using goesOn_fresh [OF assms] goesOn_corrupt [of False p] by (cases r) (simp_all add: lenientSave_def)
qed

lemma goesOn_schedule:
  assumes "procOk p db limbo base"
    and gens: "\<And>e. pr_entry (entryOf p) = Some e \<Longrightarrow> en_committedGen e \<le> en_gen e \<and> (\<forall>s. en_inflight e = Some s \<longrightarrow> sn_gen s \<le> en_gen e)"
  shows "goesOn True (entryOf p) (schedule p)"
proof -
  let ?p = "entryOf p"
  have ok: "procOk ?p db limbo base" by (rule procOk_entryOf [OF assms(1)])
  have "pr_entry ?p \<noteq> None" by (cases "pr_entry p") (simp_all add: entryOf_def)
  then obtain e where e: "pr_entry ?p = Some e" by blast
  show ?thesis
  proof (cases "pz e")
    case True
    then show ?thesis using goesOn_lenient [OF ok e] e by (simp add: schedule_def)
  next
    case False
    obtain r mem where r: "assignSeqs True (pr_mem ?p) SELF (pr_messages ?p) = (r, mem)" by fastforce
    show ?thesis
    proof (cases r)
      case (Inr fresh)
      then show ?thesis using False e r goesOn_fresh [OF ok e] by (simp add: schedule_def)
    next
      case (Inl c)
      let ?p1 = "?p\<lparr>pr_mem := mem\<rparr>"
      let ?q = "poison EWindow ?p1"
      have q: "quiet ?p ?q" by (rule quiet_trans [OF quiet_corrupt [OF r [unfolded Inl]] quiet_poison])
      obtain e' where e': "pr_entry ?q = Some e'" "en_poisoned e' \<noteq> None" "en_gen e' = en_gen e"
          "en_committedGen e' = en_committedGen e" "en_inflight e' = en_inflight e"
        using poison_entry [of ?p1 e EWindow] e by auto
      have "goesOn False ?p ?q" by (rule goesOn_trans [OF goesOn_weaken [OF goesOn_corrupt [OF r [unfolded Inl]]] goesOn_poison])
      then have drift: "goesOn False ?p (lenientSave ?q)"
        using goesOn_trans goesOn_weaken [OF goesOn_lenient [OF procOk_quiet [OF ok q] e'(1)]] by blast
      have "\<exists>fresh mem'. assignSeqs False (pr_mem ?q) SELF (pr_messages ?q) = (Inr fresh, mem')"
        by (simp add: assignSeqs_def Let_def case_prod_beta)
      then obtain fresh mem' where l: "assignSeqs False (pr_mem ?q) SELF (pr_messages ?q) = (Inr fresh, mem')" by blast
      have "goesOn True ?p (lenientSave ?q)"
      proof (rule goesOn_lane [OF drift])
        fix e0 e'' assume "pr_entry (lenientSave ?q) = Some e''"
        then show "laneOk e''" using e' gens [OF e]
          by (auto simp: lenientSave_def l pushFresh_def change_def modEntry_def laneOk_def)
      qed
      then show ?thesis using False e r Inl by (simp add: schedule_def)
    qed
  qed
qed

section \<open>The steps that do\<close>

definition savedOk :: "proc \<Rightarrow> bool" where
  "savedOk p \<longleftrightarrow>
     (case pr_entry p of None \<Rightarrow> True
      | Some e \<Rightarrow> en_committedGen e \<le> en_gen e \<and> laneOk e \<and>
          (case en_inflight e of
             None \<Rightarrow> isDirty e \<or> emptied e \<and> lastNo p = en_committedSeq e
           | Some s \<Rightarrow> en_committedGen e < sn_gen s \<and> sn_gen s \<le> en_gen e \<and>
               (sn_gen s = en_gen e \<longrightarrow> emptied e \<and> sn_lastSeq s = lastNo p)))"

lemma saved_gens:
  "savedOk p \<Longrightarrow> pr_entry p = Some e \<Longrightarrow>
   laneOk e \<and> en_committedGen e \<le> en_gen e \<and> (\<forall>s. en_inflight e = Some s \<longrightarrow> en_committedGen e < en_gen e \<and> sn_gen s \<le> en_gen e)"
  by (auto simp: savedOk_def)

lemma saved_failed: "savedOk p \<Longrightarrow> goesOn True p (failed err p)"
  using saved_gens by (intro goesOn_failed) blast

text \<open>A promise: \<open>n\<close> messages belong to generation \<open>g\<close>, and the flush \<open>i\<close> waits for \<open>g\<close>.\<close>

definition covers :: "nat \<Rightarrow> nat \<Rightarrow> nat \<Rightarrow> proc \<Rightarrow> bool" where
  "covers i g n p \<longleftrightarrow> n \<le> lastNo p \<and>
     (case pr_entry p of None \<Rightarrow> False
      | Some e \<Rightarrow> g \<le> en_gen e \<and> (g \<le> en_committedGen e \<longrightarrow> n \<le> en_committedSeq e) \<and>
          (case en_inflight e of None \<Rightarrow> True | Some s \<Rightarrow> g \<le> sn_gen s \<longrightarrow> n \<le> sn_lastSeq s) \<and>
          (\<forall>h. (i, h) \<in> set (en_waiters e) \<longrightarrow> g \<le> h) \<and>
          (i \<in> set (so_resolved (pr_out p)) \<longrightarrow> g \<le> en_committedGen e))"

lemma savedOk_goesOn:
  assumes "goesOn True p q" "savedOk p"
  shows "savedOk q"
proof (cases "pr_entry p")
  case None
  then show ?thesis using assms by (simp add: goesOn_def savedOk_def)
next
  case (Some e)
  then obtain e' where e': "pr_entry q = Some e'" "goesE True e e'" "en_gen e' = en_gen e \<longrightarrow> lastNo q = lastNo p"
    using assms(1) by (auto simp: goesOn_def)
  show ?thesis
  proof (cases "en_inflight e")
    case n: None
    then have "en_inflight e' = None" using e'(2) by (simp add: goesE_def)
    then show ?thesis using assms(2) Some e' n by (auto simp: savedOk_def goesE_def isDirty_def)
  next
    case (Some s)
    then obtain s' where "en_inflight e' = Some s'" "sn_gen s' = sn_gen s" "sn_lastSeq s' = sn_lastSeq s"
      using e'(2) by (auto simp: goesE_def snapMark_def)
    then show ?thesis using assms(2) \<open>pr_entry p = Some e\<close> e' Some by (auto simp: savedOk_def goesE_def)
  qed
qed

lemma covers_goesOn:
  assumes "goesOn True p q" "covers i g n p"
  shows "covers i g n q"
proof -
  obtain e where e: "pr_entry p = Some e" using assms(2) by (auto simp: covers_def split: option.splits)
  then obtain e' where e': "pr_entry q = Some e'" "goesE True e e'" using assms(1) by (auto simp: goesOn_def)
  have fl: "case en_inflight e' of None \<Rightarrow> True | Some s \<Rightarrow> g \<le> sn_gen s \<longrightarrow> n \<le> sn_lastSeq s"
  proof (cases "en_inflight e'")
    case (Some s')
    then obtain s where "en_inflight e = Some s" "sn_gen s' = sn_gen s" "sn_lastSeq s' = sn_lastSeq s"
      using e'(2) by (cases "en_inflight e") (auto simp: goesE_def snapMark_def)
    then show ?thesis using assms(2) e Some by (simp add: covers_def)
  qed simp
  then show ?thesis using assms e e' by (auto simp: covers_def goesE_def goesOn_def)
qed

lemma snapshot_facts:
  assumes "takeSnapshot p e = Inr (s, e')"
  shows "sn_gen s = en_gen e" "sn_lastSeq s = lastNo p" "emptied e'" "en_gen e' = en_gen e" "en_committedGen e' = en_committedGen e"
    "en_committedSeq e' = en_committedSeq e" "en_waiters e' = en_waiters e"
    "en_poisoned e' = en_poisoned e \<and> en_pc e' = en_pc e \<and> en_pcRun e' = en_pcRun e"
  using assms by (auto simp: takeSnapshot_def Let_def emptied_def split: sum.splits if_splits)

lemma kick_cases:
  assumes "savedOk p"
  shows "goesOn True p (kick p) \<or>
    (\<exists>e s e'. pr_entry p = Some e \<and> en_inflight e = None \<and> isDirty e \<and> en_poisoned e = None \<and> takeSnapshot p e = Inr (s, e') \<and>
       kick p = p\<lparr>pr_entry := Some (e'\<lparr>en_inflight := Some s\<rparr>), pr_tx := TxRunning, pr_uuid := pr_uuid p + 1\<rparr>)"
proof (cases "pr_entry p")
  case (Some e)
  have "goesOn True p (poison err p)" if "isDirty e" "en_inflight e = None" for err
    using goesOn_poison_dirty [OF Some] saved_gens [OF assms Some] that by (simp add: isDirty_def)
  then show ?thesis using Some by (auto simp: kick_def split: if_splits sum.splits)
qed (simp add: kick_def)

lemma saved_kick:
  assumes "savedOk p"
  shows "savedOk (kick p)" "covers i g n p \<Longrightarrow> covers i g n (kick p)"
proof -
  have "savedOk (kick p) \<and> (covers i g n p \<longrightarrow> covers i g n (kick p))"
  proof (cases "goesOn True p (kick p)")
    case True
    then show ?thesis using savedOk_goesOn covers_goesOn assms by blast
  next
    case False
    then obtain e s e' where k: "pr_entry p = Some e" "en_inflight e = None" "isDirty e" "takeSnapshot p e = Inr (s, e')"
        "en_poisoned e = None"
        "kick p = p\<lparr>pr_entry := Some (e'\<lparr>en_inflight := Some s\<rparr>), pr_tx := TxRunning, pr_uuid := pr_uuid p + 1\<rparr>"
      using kick_cases [OF assms] by blast
    have em: "emptied (e'\<lparr>en_inflight := Some s\<rparr>)" using snapshot_facts(3) [OF k(4)] by (simp add: emptied_def)
    have la: "laneOk (e'\<lparr>en_inflight := Some s\<rparr>)"
      using snapshot_facts(8) [OF k(4)] saved_gens [OF assms k(1)] k(5) by (auto simp: laneOk_def)
    have "en_committedGen e < en_gen e" using assms k(1-3) by (auto simp: savedOk_def isDirty_def)
    then show ?thesis using assms k snapshot_facts [OF k(4)] em la by (auto simp: savedOk_def covers_def)
  qed
  then show "savedOk (kick p)" "covers i g n p \<Longrightarrow> covers i g n (kick p)" by blast+
qed

lemma saved_afterCommit:
  assumes "savedOk p" and live: "\<And>e s. pr_entry p = Some e \<Longrightarrow> en_inflight e = Some s \<Longrightarrow> \<not> sn_dead s"
  shows "savedOk (afterCommit p)" "covers i g n p \<Longrightarrow> covers i g n (afterCommit p)"
proof -
  have "savedOk (afterCommit p) \<and> (covers i g n p \<longrightarrow> covers i g n (afterCommit p))"
  proof (cases "pr_entry p = None \<or> (\<exists>e. pr_entry p = Some e \<and> en_inflight e = None)")
    case True
    then have "afterCommit p = p" by (auto simp: afterCommit_def)
    then show ?thesis using assms by simp
  next
    case False
    then obtain e s where e: "pr_entry p = Some e" "en_inflight e = Some s" by auto
    let ?e1 = "e\<lparr>en_inflight := None, en_attempts := 0, en_inDb := True, en_committedSeq := sn_lastSeq s,
                     en_pending := filter (\<lambda>m. (case seqOf (pr_mem p) m of None \<Rightarrow> 0 | Some n \<Rightarrow> n) > sn_lastSeq s) (en_pending e),
                     en_committedGen := sn_gen s, en_applied := en_applied e @ sn_applied s,
                     en_waiters := filter (\<lambda>w. snd w > sn_gen s) (en_waiters e)\<rparr>"
    let ?p1 = "modOut (\<lambda>w. w\<lparr>so_outbound := so_outbound w @ sn_channel s, so_committed := so_committed w @ sn_events s,
                         so_resolved := so_resolved w @ map fst (filter (\<lambda>w. snd w \<le> sn_gen s) (en_waiters e))\<rparr>)
                     (p\<lparr>pr_entry := Some ?e1, pr_tx := TxNone\<rparr>)"
    have a: "afterCommit p = (if en_poisoned ?e1 \<noteq> None then kickPoisoned (kick ?p1) else kick ?p1)"
      by (simp only: afterCommit_def e option.case Let_def)
    have ent: "pr_entry ?p1 = Some ?e1" and mem: "pr_mem ?p1 = pr_mem p" by (simp_all add: modOut_def)
    have res: "set (so_resolved (pr_out ?p1)) = set (so_resolved (pr_out p)) \<union> {j. \<exists>h. (j, h) \<in> set (en_waiters e) \<and> h \<le> sn_gen s}"
      by (force simp: modOut_def)
    have sv: "savedOk ?p1"
      using assms(1) live [OF e] e unfolding savedOk_def ent option.case mem
      by (auto simp: isDirty_def emptied_def laneOk_def)
    have cv: "covers i g n ?p1" if c: "covers i g n p"
    proof -
      have "g \<le> sn_gen s" if "i \<in> set (so_resolved (pr_out ?p1))"
        using that c assms e unfolding res by (fastforce simp: covers_def savedOk_def)
      then show ?thesis using c e unfolding covers_def ent option.case mem by auto
    qed
    show ?thesis unfolding a
      using saved_kick [OF sv] cv savedOk_goesOn [OF goesOn_kickPoisoned] covers_goesOn [OF goesOn_kickPoisoned] by auto
  qed
  then show "savedOk (afterCommit p)" "covers i g n p \<Longrightarrow> covers i g n (afterCommit p)" by blast+
qed

lemma saved_flush:
  "savedOk p \<Longrightarrow> savedOk (flushSession j p)" "covers i g n p \<Longrightarrow> j \<noteq> i \<Longrightarrow> covers i g n (flushSession j p)"
proof -
  have none: "savedOk (flushSession j p) \<and> \<not> covers i g n p" if "pr_entry p = None"
    using that by (simp add: savedOk_def covers_def flushSession_def modOut_def)
  have some: "pr_mem (flushSession j p) = pr_mem p \<and> set (so_resolved (pr_out (flushSession j p))) \<subseteq> insert j (set (so_resolved (pr_out p))) \<and>
      (\<exists>ws. pr_entry (flushSession j p) = Some (e\<lparr>en_waiters := ws\<rparr>) \<and> set ws \<subseteq> insert (j, en_gen e) (set (en_waiters e)))"
    if "pr_entry p = Some e" for e
    using that by (cases e) (auto simp: flushSession_def modOut_def modEntry_def)
  show "savedOk (flushSession j p)" if "savedOk p"
  proof (cases "pr_entry p")
    case (Some e)
    then show ?thesis using that some [OF Some] by (auto simp: savedOk_def isDirty_def emptied_def laneOk_def split: option.split)
  qed (use none in simp)
  show "covers i g n (flushSession j p)" if c: "covers i g n p" "j \<noteq> i"
  proof (cases "pr_entry p")
    case (Some e)
    then obtain ws where ws: "pr_entry (flushSession j p) = Some (e\<lparr>en_waiters := ws\<rparr>)" "set ws \<subseteq> insert (j, en_gen e) (set (en_waiters e))"
        "pr_mem (flushSession j p) = pr_mem p" "set (so_resolved (pr_out (flushSession j p))) \<subseteq> insert j (set (so_resolved (pr_out p)))"
      using some by blast
    have "\<forall>h. (i, h) \<in> set ws \<longrightarrow> g \<le> h" "i \<in> set (so_resolved (pr_out (flushSession j p))) \<longrightarrow> g \<le> en_committedGen e"
      using c ws(2,4) Some by (auto simp: covers_def)
    then show ?thesis using c(1) Some ws(1,3) by (simp add: covers_def)
  qed (use none c in simp)
qed

lemma saved_entryOf: "procOk p db limbo base \<Longrightarrow> savedOk p \<Longrightarrow> savedOk (entryOf p)"
  by (cases "pr_entry p")
    (auto simp: savedOk_def entryOf_def newEntry_def emptied_def laneOk_def procOk_def idleOk_def)

lemma covers_entryOf: "covers i g n p \<Longrightarrow> entryOf p = p"
  by (auto simp: covers_def entryOf_def split: option.splits)

section \<open>Every step of a process\<close>

text \<open>What an event other than a stop makes of the running process.\<close>

definition moves :: "store_event \<Rightarrow> proc \<Rightarrow> proc \<Rightarrow> bool" where
  "moves ev p p' \<longleftrightarrow> goesOn True p p' \<or> goesOn True (entryOf p) p' \<or> (\<exists>q. goesOn True p q \<and> p' = kick q) \<or> p' = afterCommit p \<and> pr_tx p \<noteq> TxNone \<or>
     (\<exists>i. ev = SvFlush i \<and> p' = flushSession i p)"

lemma moves_saved:
  assumes "moves ev p p'" "procOk p db limbo base" "savedOk p"
  shows "savedOk p'" "covers i g n p \<Longrightarrow> ev \<noteq> SvFlush i \<Longrightarrow> covers i g n p'"
proof -
  have live: "\<not> sn_dead s" if "pr_tx p \<noteq> TxNone" "pr_entry p = Some e" "en_inflight e = Some s" for e s
    using that procOk_entry [OF assms(2)] by (auto simp: entryOk_def snapOk_def)
  from assms(1) show "savedOk p'" unfolding moves_def
  proof (elim disjE exE conjE)
    show "savedOk p'" if "goesOn True p p'" using savedOk_goesOn [OF that assms(3)] .
    show "savedOk p'" if "goesOn True (entryOf p) p'" using savedOk_goesOn [OF that saved_entryOf [OF assms(2,3)]] .
    show "savedOk p'" if "goesOn True p q" "p' = kick q" for q using saved_kick(1) [OF savedOk_goesOn [OF that(1) assms(3)]] that(2) by simp
    show "savedOk p'" if "p' = afterCommit p" "pr_tx p \<noteq> TxNone"
      using saved_afterCommit(1) [OF assms(3) live [OF that(2)]] that(1) by simp
    show "savedOk p'" if "p' = flushSession j p" for j using saved_flush(1) [OF assms(3)] that by simp
  qed
  assume c: "covers i g n p" "ev \<noteq> SvFlush i"
  from assms(1) show "covers i g n p'" unfolding moves_def
  proof (elim disjE exE conjE)
    show "covers i g n p'" if "goesOn True p p'" using covers_goesOn [OF that c(1)] .
    show "covers i g n p'" if "goesOn True (entryOf p) p'" using covers_goesOn [OF that] c(1) covers_entryOf [OF c(1)] by simp
    show "covers i g n p'" if "goesOn True p q" "p' = kick q" for q
      using saved_kick(2) [OF savedOk_goesOn [OF that(1) assms(3)] covers_goesOn [OF that(1) c(1)]] that(2) by simp
    show "covers i g n p'" if "p' = afterCommit p" "pr_tx p \<noteq> TxNone"
      using saved_afterCommit(2) [OF assms(3) live [OF that(2)] c(1)] that(1) by simp
    show "covers i g n p'" if "ev = SvFlush j" "p' = flushSession j p" for j
      using saved_flush(2) [OF c(1)] that c(2) by auto
  qed
qed

lemma moves_kicks: "moves ev p (kick p)" "moves ev p (releaseHold p)" "moves ev p (kickTask p)" "moves ev p (drainStart p)"
proof -
  have k: "moves ev p (kick q)" if "goesOn True p q" for q using that by (auto simp: moves_def)
  have g: "moves ev p q" if "goesOn True p q" for q using that by (simp add: moves_def)
  have f: "goesOn True p (modEntry (\<lambda>e. e\<lparr>en_purgeHeld := b\<rparr>) p)" "goesOn True p (modEntry (\<lambda>e. e\<lparr>en_kickQueued := b\<rparr>) p)"
     "goesOn True p (modEntry (\<lambda>e. e\<lparr>en_pcTimer := b\<rparr>) p)" "goesOn True p (modEntry (\<lambda>e. e\<lparr>en_timer := b\<rparr>) p)" for b
    by (intro goes; simp add: goesE_def emptied_def laneOk_def)+
  show "moves ev p (kick p)" by (rule k) simp
  show "moves ev p (releaseHold p)" unfolding releaseHold_def onEntry_def by (auto split: option.split intro: k g f)
  show "moves ev p (kickTask p)" unfolding kickTask_def onEntry_def by (auto split: option.split intro: k g f)
  show "moves ev p (drainStart p)" unfolding drainStart_def
    by (auto simp: goesOn_fields split: option.split intro: k g f g [OF goesOn_fields(2) [THEN iffD2, OF f(4)]] intro!: g [OF goesOn_trans [OF f(3) goesOn_pump]])
qed

lemma moves_goes: "goesOn True p p' \<Longrightarrow> moves ev p p'" "goesOn True (entryOf p) p' \<Longrightarrow> moves ev p p'" "pr_tx p \<noteq> TxNone \<Longrightarrow> moves ev p (afterCommit p)"
    "moves (SvFlush i) p (flushSession i p)"
  by (simp_all add: moves_def)

lemma moves_orders: "moves ev p (scheduleOrder i p)"
    "moves ev p (case jget (pr_orders p) i of None \<Rightarrow> p
       | Some od \<Rightarrow> (voidOrder i od now reason p)\<lparr>pr_orders := jdel (pr_orders p) i\<rparr>)"
proof -
  show "moves ev p (scheduleOrder i p)" using goesOn_orders(2) [of i p] moves_goes(1,2) by (metis goesOn_refl)
  show "moves ev p (case jget (pr_orders p) i of None \<Rightarrow> p
       | Some od \<Rightarrow> (voidOrder i od now reason p)\<lparr>pr_orders := jdel (pr_orders p) i\<rparr>)"
    by (auto split: option.split intro: moves_goes(1) moves_goes(2) [OF goesOn_fields(4) [THEN iffD2, OF goesOn_orders(1)]])
qed

lemmas moves_own = goesOn_session [THEN moves_goes(1)] goesOn_timers [THEN moves_goes(1)] goesOn_applied [THEN moves_goes(1)]
  goesOn_queues [THEN moves_goes(2)] goesOn_emit [THEN moves_goes(2)] moves_goes(3,4) moves_orders moves_kicks
  goesOn_refl [THEN moves_goes(1)] goesOn_attempt [THEN moves_goes(1)] saved_failed [THEN moves_goes(1)]

lemma moves_set: "moves ev p (p\<lparr>pr_tx := t\<rparr>)" "moves ev p (p\<lparr>pr_orders := m\<rparr>)" "moves ev p (p\<lparr>pr_writable := b\<rparr>)"
    "moves ev p (p\<lparr>pr_pcServed := b\<rparr>)"
  by (simp_all add: moves_goes(1) goesOn_fields)

lemma server_moves:
  assumes "wd_proc w = Some p" "savedOk p"
  shows "\<exists>p'. wd_proc (attempt env b w) = Some p' \<and> moves ev p p'" "\<exists>p'. wd_proc (statementFails err w) = Some p' \<and> moves ev p p'"
    "\<exists>p'. wd_proc (commit w) = Some p' \<and> moves ev p p'" "\<exists>p'. wd_proc (dropConn err w) = Some p' \<and> moves ev p p'"
    "\<exists>p'. wd_proc (answer w) = Some p' \<and> moves ev p p'" "\<exists>p'. wd_proc (servePc ok w) = Some p' \<and> moves ev p p'"
  using assms
  by (auto simp: attempt_def statementFails_def commit_def dropConn_def answer_def servePc_def withProc_def Let_def moves_own moves_set
      split: tx_state.split option.split)

lemma step_moves:
  assumes "wd_proc w = Some p" "procOk p (wd_db w) (wd_limbo w) (wd_base w)" "savedOk p" "\<And>spill b. ev \<noteq> SvStop spill b"
  shows "\<exists>p'. wd_proc (store_step w ev) = Some p' \<and> moves ev p p'"
proof (cases ev)
  case SvSave
  have "goesOn True (entryOf p) (schedule p)"
    using saved_gens [OF saved_entryOf [OF assms(2,3)]] by (intro goesOn_schedule [OF assms(2)]) auto
  then show ?thesis using SvSave assms(1) moves_goes(2) by (simp add: onProc_def)
next
  case (SvStart env f1 f2 since init b)
  then show ?thesis using assms(1) by (simp add: startStore_def moves_own)
next
  case (SvStartCrash env b)
  then show ?thesis using assms(1) by (simp add: startCrash_def moves_own)
next
  case (SvLimbo b)
  then show ?thesis using assms(1) by (simp add: settleLimbo_def moves_own)
qed (use assms(1,4) server_moves [OF assms(1,3)] moves_own moves_set in \<open>simp_all add: onProc_def\<close>)

section \<open>Reachable worlds\<close>

definition worldSaved :: "world \<Rightarrow> bool" where
  "worldSaved w \<longleftrightarrow> (case wd_proc w of None \<Rightarrow> True | Some p \<Rightarrow> savedOk p)"

text \<open>A process that starts comes from \<open>install\<close>.\<close>

lemma start_installs:
  assumes "wd_proc w = None" "wd_proc (startStore env f1 f2 since init b w) = Some p"
  shows "\<exists>db. p = install since init (wd_uuid w) db"
proof -
  have pre: "preload since init uuid db = Inr q \<Longrightarrow> q = install since init uuid db" for uuid db q
    by (auto simp: preload_def split: option.splits if_splits)
  show ?thesis
    using assms
    by (auto simp: startStore_def openStore_def Let_def split: option.splits sum.splits prod.splits startup_error.splits if_splits dest!: pre)
qed

lemma saved_install:
  assumes "p = install since init uuid db" "procOk p d limbo base"
  shows "savedOk p"
proof (cases "pr_entry p")
  case (Some e)
  then obtain ref committed ids where e: "e = newEntry ref True committed ids" using assms(1) by (auto simp: install_def Let_def split: option.splits)
  note ok = procOk_entry [OF assms(2) Some]
  have "lastNo p = en_committedSeq e"
    using pending_length [OF ok] ok e by (simp add: newEntry_def entryOk_def)
  then show ?thesis using Some e by (simp add: savedOk_def newEntry_def emptied_def laneOk_def)
qed (simp add: savedOk_def)

lemma worldSaved_step:
  assumes "worldOk w" "worldSaved w" "\<not> staleStart w ev"
  shows "worldSaved (store_step w ev)"
proof (cases "wd_proc w")
  case (Some p)
  have ok: "procOk p (wd_db w) (wd_limbo w) (wd_base w)" and sv: "savedOk p" using assms(1,2) Some by (simp_all add: worldOk_def worldSaved_def)
  show ?thesis
  proof (cases "\<exists>spill b. ev = SvStop spill b")
    case True
    then show ?thesis using Some by (auto simp: worldSaved_def stopStore_def withProc_def)
  next
    case False
    then obtain p' where "wd_proc (store_step w ev) = Some p'" "moves ev p p'" using step_moves [OF Some ok sv] by blast
    then show ?thesis using moves_saved(1) [OF _ ok sv] by (simp add: worldSaved_def)
  qed
next
  case None
  show ?thesis
  proof (cases "wd_proc (store_step w ev)")
    case (Some p)
    then obtain env f1 f2 since init b where ev: "ev = SvStart env f1 f2 since init b"
      using None by (cases ev) (auto simp: onProc_def withProc_def attempt_def statementFails_def commit_def dropConn_def answer_def
          settleLimbo_def servePc_def stopStore_def startCrash_def split: option.splits sum.splits prod.splits if_splits)
    obtain db where "p = install since init (wd_uuid w) db" using start_installs [OF None, of env f1 f2 since init b p] Some ev by auto
    moreover have "procOk p (wd_db (store_step w ev)) (wd_limbo (store_step w ev)) (wd_base (store_step w ev))"
      using worldOk_step [OF assms(1,3)] Some by (simp add: worldOk_def)
    ultimately show ?thesis using saved_install Some by (simp add: worldSaved_def)
  qed (simp add: worldSaved_def)
qed

theorem worldSaved_reach: "store_reach w \<Longrightarrow> worldSaved w"
proof (induction rule: store_reach.induct)
  case begins
  show ?case by (simp add: worldSaved_def store_init_def)
qed (rule worldSaved_step [OF worldOk_reach])

text \<open>A run of one process in which the flush \<open>i\<close> is asked for only once.\<close>

definition sameProcess :: "nat \<Rightarrow> store_event \<Rightarrow> bool" where
  "sameProcess i ev \<longleftrightarrow> (case ev of SvStop _ _ \<Rightarrow> False | SvFlush j \<Rightarrow> j \<noteq> i | _ \<Rightarrow> True)"

lemma covers_run:
  assumes "worldOk w" "wd_proc w = Some p" "savedOk p" "covers i g n p" "list_all (sameProcess i) evs"
  shows "worldOk (foldl store_step w evs) \<and> (\<exists>p'. wd_proc (foldl store_step w evs) = Some p' \<and> covers i g n p')"
  using assms
proof (induction evs arbitrary: w p)
  case (Cons ev evs)
  have ok: "procOk p (wd_db w) (wd_limbo w) (wd_base w)" using Cons.prems(1,2) by (simp add: worldOk_def)
  have ev: "ev \<noteq> SvStop spill b" "ev \<noteq> SvFlush i" for spill b using Cons.prems(5) by (auto simp: sameProcess_def)
  obtain p' where p': "wd_proc (store_step w ev) = Some p'" "moves ev p p'" using step_moves [OF Cons.prems(2) ok Cons.prems(3) ev(1)] by blast
  have "\<not> staleStart w ev" using Cons.prems(2) by (simp add: staleStart_def split: store_event.split)
  then have "worldOk (store_step w ev)" by (rule worldOk_step [OF Cons.prems(1)])
  then show ?case
    using Cons.IH [OF _ p'(1) moves_saved(1) [OF p'(2) ok Cons.prems(3)] moves_saved(2) [OF p'(2) ok Cons.prems(3,4) ev(2)]] Cons.prems(5)
    by simp
qed auto

end
