(* ===== verification/StoreProps.thy ===== *)
theory StoreProps
  imports StoreDemo StoreRestore StoreClean
begin

text \<open>
  What the store promises: the messages of the database have no gap, a flush is applied once even when the
  answer to its COMMIT is lost, a single process never takes its own rows for another's, and what a stopped
  process had not written is in the database after its spill file has been replayed, once.

  The runs are those of \<open>store_reach\<close>: one process at a time, and no start that loads while its
  predecessor's last transaction is undecided and is not made to load again (\<open>staleStart\<close>).
  \<open>patchQueuedJob\<close>, which rewrites the payload of a job in the queue or in the flush in flight, is not
  one of their events.
\<close>

section \<open>The database of a reachable world\<close>

lemma dbOk_base_or_ahead:
  assumes "procOk p db limbo base" "pr_entry p = Some e"
  shows "core (pz e) db = core (pz e) base \<or> (\<exists>s. en_inflight e = Some s \<and> continues base s \<and> ahead (pz e) (en_ref e) db base s)"
proof (cases "en_inflight e")
  case (Some s)
  then show ?thesis using procOk_entry [OF assms]
    by (auto simp: entryOk_def place_def undecided_def snapOk_def split: option.splits)
qed (use procOk_entry [OF assms] in \<open>simp add: entryOk_def\<close>)

lemma dbOk_process:
  assumes "procOk p db limbo base"
  shows "dbOk db"
proof (cases "pr_entry p")
  case None
  then have "core False db = core False base" "dbOk base" using assms by (simp_all add: procOk_def idleOk_def)
  then show ?thesis using core_cong(6) by blast
next
  case (Some e)
  have base: "dbOk base" using assms by (simp add: procOk_def)
  from dbOk_base_or_ahead [OF assms Some] show ?thesis
  proof (elim disjE exE conjE)
    assume "core (pz e) db = core (pz e) base"
    then show ?thesis using core_cong(6) base by blast
  next
    fix s assume s: "continues base s" "ahead (pz e) (en_ref e) db base s"
    then have "core (pz e) db = core (pz e) (flushTo (en_ref e) base s)" by (simp add: ahead_def)
    then show ?thesis using core_cong(6) flushTo_facts(1) [OF s(1)] by blast
  qed
qed

lemma dbOk_reach:
  assumes "store_reach w"
  shows "dbOk (wd_db w)"
proof (cases "wd_proc w")
  case None
  then have "stoppedOk w" using worldOk_reach [OF assms] by (simp add: worldOk_def)
  then show ?thesis using stoppedOkD(1) [of w False] by (simp add: resolved_now)
next
  case (Some p)
  then show ?thesis using worldOk_reach [OF assms] dbOk_process by (auto simp: worldOk_def)
qed

lemma committed_below:
  assumes "procOk p db limbo base" "pr_entry p = Some e"
  shows "en_committedSeq e \<le> lastOf db"
proof -
  have c: "en_committedSeq e = lastOf base" using procOk_entry [OF assms] by (simp add: entryOk_def)
  from dbOk_base_or_ahead [OF assms] show ?thesis
  proof (elim disjE exE conjE)
    assume "core (pz e) db = core (pz e) base"
    then have "lastOf db = lastOf base" by (rule core_cong(4))
    then show ?thesis using c by simp
  next
    fix s assume s: "continues base s" "ahead (pz e) (en_ref e) db base s"
    then show ?thesis using ahead_facts(2) [OF s(2,1)] c by (simp add: continues_def)
  qed
qed

lemma covers_stored: "procOk p db limbo base \<Longrightarrow> covers i g n p \<Longrightarrow> i \<in> set (so_resolved (pr_out p)) \<Longrightarrow> n \<le> lastOf db"
  by (cases "pr_entry p") (auto simp: covers_def dest: committed_below [of p db limbo base])

lemma covers_flush:
  assumes "savedOk p" "pr_entry p = Some e" "i \<notin> set (so_resolved (pr_out p))" "i \<notin> fst ` set (en_waiters e)"
  shows "covers i (en_gen e) (lastNo p) (flushSession i p)"
proof -
  have w: "(i, h) \<notin> set (en_waiters e)" for h using assms(4) by force
  have s: "case en_inflight e of None \<Rightarrow> True | Some s \<Rightarrow> en_gen e \<le> sn_gen s \<longrightarrow> lastNo p \<le> sn_lastSeq s"
    "en_gen e \<le> en_committedGen e \<longrightarrow> lastNo p \<le> en_committedSeq e" "isDirty e \<or> en_gen e \<le> en_committedGen e"
    using assms(1,2) by (auto simp: savedOk_def isDirty_def split: option.splits)
  show ?thesis using s w assms(2,3) by (auto simp: covers_def flushSession_def modOut_def modEntry_def)
qed

lemma clean_entry:
  assumes "store_reach w" "wd_proc w = Some p" "pr_entry p = Some e" "\<not> isDirty e"
  shows "en_inflight e = None \<and> en_pending e = [] \<and> emptied e \<and> lastOf (wd_db w) = lastNo p \<and> wd_limbo w = None \<and>
    core (pz e) (wd_db w) = core (pz e) (wd_base w)"
proof -
  have ok: "procOk p (wd_db w) (wd_limbo w) (wd_base w)" using worldOk_reach [OF assms(1)] assms(2) by (simp add: worldOk_def)
  note eo = procOk_entry [OF ok assms(3)]
  have sv: "en_inflight e = None" "emptied e" "lastNo p = en_committedSeq e"
    using worldSaved_reach [OF assms(1)] assms(2-4) by (auto simp: worldSaved_def savedOk_def isDirty_def split: option.splits)
  have same: "core (pz e) (wd_db w) = core (pz e) (wd_base w)" and "wd_limbo w = None" "en_committedSeq e = lastOf (wd_base w)"
    using eo sv(1) by (simp_all add: entryOk_def)
  moreover have "lastOf (wd_db w) = lastOf (wd_base w)" by (rule core_cong(4) [OF same])
  ultimately show ?thesis using sv pending_length [OF eo] by simp
qed

lemma clean_restart:
  assumes "store_reach w" "wd_proc w = Some p" "pr_entry p = Some e" "spillSync p = None" "list_all restartEvent evs"
  shows "restored p e (wd_base w) (wd_db (foldl store_step (store_step w (SvStop True b)) evs))"
proof -
  have d: "\<not> isDirty e" using assms(3,4) by (auto simp: spillSync_def split: if_splits)
  note c = clean_entry [OF assms(1-3) d]
  have tx: "pr_tx p = TxNone" using worldOk_reach [OF assms(1)] procOk_entry [OF _ assms(3)] assms(2) c
    by (auto simp: worldOk_def entryOk_def)
  have "restored p e (wd_base w) (wd_db w)"
    using c core_cong(2,3) [of "pz e" "wd_db w" "wd_base w"] by (simp add: restored_def unsavedSide_def emptied_def noSide_def)
  moreover have "wd_db (foldl store_step w1 evs) = wd_db w1" if "wd_limbo w1 = None" "wd_file w1 = None" for w1
    using that assms(5)
  proof (induction evs arbitrary: w1)
    case (Cons ev evs)
    have "wd_db (store_step w1 ev) = wd_db w1 \<and> wd_limbo (store_step w1 ev) = None \<and> wd_file (store_step w1 ev) = None"
      using Cons.prems by (cases ev) (auto simp: restartEvent_def startStore_def startCrash_def settleLimbo_def resolved_def openStore_def Let_def
          split: sum.split startup_error.split)
    then show ?case using Cons by simp
  qed simp
  ultimately show ?thesis using assms(2,4) c tx by (simp add: stopStore_def withProc_def)
qed

text \<open>
  C16: the messages a conversation has in the database are numbered 1, 2, \<dots> up to the last number of its
  row, in this order, whatever was flushed, retried, lost, spilled and replayed: no number is missing or
  given twice, and the next start never refuses the data (\<open>preload_integrity\<close>). As above, after runs without
  a stale start.
\<close>

theorem stored_messages_have_no_gap:
  assumes "store_reach w"
  shows "map mv_seq (sd_messages (wd_db w)) = [1..<lastOf (wd_db w) + 1] \<and>
    preload since init (wd_uuid w) (wd_db w) \<noteq> Inl SePreloadIntegrity"
  using dbOk_reach [OF assms] preload_ok [OF dbOk_reach [OF assms], of since init "wd_uuid w"] by (simp add: dbOk_def del: upt_Suc)

lemma stored_messages_have_no_gap_witness: "map mv_seq (sd_messages (wd_db demo_lost)) = [1..<lastOf (wd_db demo_lost) + 1] \<and> lastOf (wd_db demo_lost) = 1"
  using stored_messages_have_no_gap [OF demo_lost_reach] by (simp add: demo_lost_world store_demo_world_def demo_tx_def lastOf_def del: upt_Suc)

text \<open>
  C4: whatever breaks (a statement, the connection before or after the COMMIT, so that the process does
  not know), the database holds what the process knows to be committed, or this with the whole flush in
  flight added once: its messages, its orders and its other rows, and the number and flush id in the row.
  (The flush is the snapshot taken: runs in which \<open>patchQueuedJob\<close> rewrites one of its jobs while it is
  written are not covered, nor are stale starts.)
\<close>

theorem flush_is_applied_once:
  assumes "store_reach w" "wd_proc w = Some p" "pr_entry p = Some e"
  shows "(sd_conv (wd_db w) = sd_conv (wd_base w) \<and> sd_messages (wd_db w) = sd_messages (wd_base w) \<and> sd_side (wd_db w) = sd_side (wd_base w)) \<or>
    (\<exists>s. en_inflight e = Some s \<and>
      sd_messages (wd_db w) = sd_messages (wd_base w) @ sn_messages s \<and>
      sd_side (wd_db w) = sd_side (wd_base w) @ map SOrder (sn_orders s) @ sideStmts (sn_side s) \<and>
      lockConversation (wd_db w) = Some \<lparr>qs_lastSeq = sn_lastSeq s, qs_windowStart = sn_windowStart s, qs_flushId = Some (sn_flushId s)\<rparr>)"
proof -
  have "procOk p (wd_db w) (wd_limbo w) (wd_base w)" using worldOk_reach [OF assms(1)] assms(2) by (simp add: worldOk_def)
  from dbOk_base_or_ahead [OF this assms(3)] show ?thesis
    by (auto simp: ahead_def core_def flushTo_def flushedRow_def lockConversation_def Let_def)
qed

lemma flush_is_applied_once_witness: "sd_messages (wd_db demo_lost) = sd_messages (wd_base demo_lost) @ sn_messages demo_snap \<and> sn_messages demo_snap = [store_demo_row]"
  using flush_is_applied_once [OF demo_lost_reach, of "demo_unsure [] (TxFailed EOther)" "store_demo_sent []"]
  by (simp add: demo_lost_world store_demo_world_def demo_unsure_def store_demo_sent_def demo_snap_def demo_tx_def emptyDb_def)

text \<open>
  C10: with one process at a time that never starts stale, no save is refused as another writer's: the
  process never stops for a \<open>store_conflict\<close>, and no start for a spill file that does not fit the
  database. A stale start (\<open>staleStart\<close>: it loads while the last transaction of its predecessor is
  undecided, and no replay makes it load again) is excluded by \<open>store_reach\<close>, and it has to be:
  \<open>StoreDemo.stale_start_conflicts\<close> is a run in which such a process is refused although it is alone.
\<close>

theorem store_has_no_false_conflict:
  assumes "store_reach w"
  shows "(case wd_proc w of
       Some p \<Rightarrow> \<not> pr_conflict p \<and> pr_tx p \<noteq> TxFailed EConflict
     | None \<Rightarrow> fst (openStore env f1 f2 since init (wd_uuid w) (wd_db w) (if wd_file w = None then wd_db w else resolved w b) (wd_file w))
         \<noteq> Inl SeSpillConflict)"
proof (cases "wd_proc w")
  case None
  then have ok: "stoppedOk w" using worldOk_reach [OF assms] by (simp add: worldOk_def)
  show ?thesis
  proof (cases "wd_file w")
    case n: None
    then show ?thesis using None preload_ok [OF dbOk_reach [OF assms]] by (simp add: openStore_def)
  next
    case (Some f)
    then show ?thesis using None openStore_file [OF ok Some, of env f1 f2 since init b] by auto
  qed
next
  case (Some p)
  then have ok: "procOk p (wd_db w) (wd_limbo w) (wd_base w)" using worldOk_reach [OF assms] by (simp add: worldOk_def)
  have "pr_tx p \<noteq> TxFailed EConflict"
  proof (cases "pr_entry p")
    case None
    then show ?thesis using ok by (simp add: procOk_def idleOk_def)
  next
    case (Some e)
    then show ?thesis using procOk_entry [OF ok Some]
      by (cases "en_inflight e") (auto simp: entryOk_def place_def split: option.splits)
  qed
  then show ?thesis using Some ok by (simp add: procOk_def)
qed

lemma store_has_no_false_conflict_witness: "\<exists>p. wd_proc demo_lost = Some p \<and> \<not> pr_conflict p \<and> pr_tx p = TxFailed EOther"
  using store_has_no_false_conflict [OF demo_lost_reach] by (simp add: demo_lost_world store_demo_world_def demo_unsure_def)

text \<open>
  C3: a stop loses nothing that had been asked to be saved. A process that stops (its last flush unsent,
  running, ready to commit, or committed without the process knowing) leaves a spill file; after any number
  of starts that fail or die half way, once a process runs again without the file having been set aside,
  the database holds what the old process knew to be committed, then each of its unsaved messages once, in
  order and with its contents, and each audit, job and consent row once. (Runs in which \<open>patchQueuedJob\<close>
  rewrites a job of the flush in flight are not covered, nor are stale starts.)
\<close>

theorem restart_restores_everything:
  assumes "store_reach w" "wd_proc w = Some p" "pr_entry p = Some e"
    and "list_all restartEvent evs" "w' = foldl store_step (store_step w (SvStop True b)) evs"
    and "wd_proc w' = Some p'" "wd_failed w' = wd_failed w"
  shows "restored p e (wd_base w) (wd_db w')"
proof (cases "spillSync p = None")
  case False
  have ok: "worldOk w" by (rule worldOk_reach [OF assms(1)])
  then have p: "procOk p (wd_db w) (wd_limbo w) (wd_base w)" using assms(2) by (simp add: worldOk_def)
  have "onTheWay p e (wd_base w) (length (wd_failed w)) w'"
    unfolding assms(5) using onTheWay_run [OF p assms(3) onTheWay_stop [OF ok assms(2,3) False] assms(4)] by simp
  then show ?thesis using assms(6,7) by (simp add: onTheWay_def)
next
  case True
  show ?thesis using clean_restart [OF assms(1-3) True assms(4)] unfolding assms(5) by simp
qed

lemma restart_restores_everything_witness:
  "restored (demo_unsure [] (TxFailed EOther)) (store_demo_sent []) (wd_base demo_lost) (wd_db (store_step (store_step demo_lost (SvStop True False)) store_demo_start)) \<and>
   wd_base demo_lost = emptyDb \<and> en_pending (store_demo_sent []) = [0]"
proof -
  have "restored (demo_unsure [] (TxFailed EOther)) (store_demo_sent []) (wd_base demo_lost) (wd_db (foldl store_step (store_step demo_lost (SvStop True False)) [store_demo_start]))"
    by (rule restart_restores_everything [OF demo_lost_reach _ _ _ refl])
      (simp_all only: demo_restart foldl.simps, simp_all add: demo_lost_world store_demo_world_def demo_unsure_def restartEvent_def store_demo_start_def)
  then show ?thesis by (simp add: demo_lost_world store_demo_world_def store_demo_sent_def demo_entry_def newEntry_def)
qed

text \<open>
  C17: a conversation with no change left to save has nothing in memory alone: no message, no queued row
  of any kind (orders, voided orders, rows that go with a flush, telemetry, channel rows, events), no
  flush in flight, it is not poisoned and has no rows of a poisoned conversation waiting or being saved on
  their own, and the database's messages go up to the last number given out. Only a queue that never had a
  change may name orders: those of its conversation that were in memory when it was created, which its
  first change takes along. This is what a purge and the end of a drain rest on.
\<close>

theorem clean_queue_is_saved:
  assumes "store_reach w" "wd_proc w = Some p" "pr_entry p = Some e" "\<not> isDirty e"
  shows "en_inflight e = None \<and> en_pending e = [] \<and> emptied e \<and> (en_orderIds e = [] \<or> en_gen e = 0) \<and>
    en_poisoned e = None \<and> en_pc e = emptyChannelRows \<and> en_pcRun e = None \<and> lastOf (wd_db w) = lastNo p \<and>
    map mv_seq (sd_messages (wd_db w)) = [1..<lastNo p + 1]"
proof -
  have "laneOk e" using worldSaved_reach [OF assms(1)] assms(2,3) by (simp add: worldSaved_def savedOk_def)
  then have "en_poisoned e = None \<and> en_pc e = emptyChannelRows \<and> en_pcRun e = None"
    using assms(4) by (auto simp: laneOk_def isDirty_def split: if_splits)
  then show ?thesis
    using clean_entry [OF assms] dbOk_reach [OF assms(1)] by (simp add: dbOk_def emptied_def del: upt_Suc)
qed

lemma clean_queue_is_saved_witness: "\<exists>p e. wd_proc demo_clean = Some p \<and> pr_entry p = Some e \<and> en_pending e = [] \<and> emptied e \<and> en_orderIds e = [] \<and>
    en_poisoned e = None \<and> en_pc e = emptyChannelRows \<and> lastOf (wd_db demo_clean) = lastNo p"
proof -
  have r: "store_reach demo_clean" unfolding demo_clean_def by (rule reach_runs [OF demo_base_reach]) (simp add: startEvent_def)
  have p: "wd_proc demo_clean = Some (afterCommit (demo_unsure [] TxDone))" by (simp add: demo_clean_world store_demo_world_def)
  show ?thesis using clean_queue_is_saved [OF r p demo_done(1)] p demo_done(1) by (simp add: isDirty_def store_demo_sent_def demo_entry_def)
qed

text \<open>
  C9: when a flush that was asked for is reported as done, all messages numbered when it was asked for are
  in the database, whatever errors, retries and saves came in between.
\<close>

theorem flush_resolved_is_durable:
  assumes "store_reach w" "wd_proc w = Some p" "i \<notin> set (so_resolved (pr_out p))"
    and "(case pr_entry p of None \<Rightarrow> True | Some e \<Rightarrow> i \<notin> fst ` set (en_waiters e))"
    and "list_all (sameProcess i) evs" "w' = foldl store_step (store_step w (SvFlush i)) evs"
    and "wd_proc w' = Some p'" "i \<in> set (so_resolved (pr_out p'))"
  shows "lastNo p \<le> lastOf (wd_db w')"
proof (cases "pr_entry p")
  case None
  have "procOk p (wd_db w) (wd_limbo w) (wd_base w)" using worldOk_reach [OF assms(1)] assms(2) by (simp add: worldOk_def)
  then show ?thesis using None by (simp add: procOk_def idleOk_def)
next
  case (Some e)
  let ?q = "flushSession i p"
  have q: "wd_proc (store_step w (SvFlush i)) = Some ?q" using assms(2) by (simp add: onProc_def)
  have sv: "savedOk p" using worldSaved_reach [OF assms(1)] assms(2) by (simp add: worldSaved_def)
  have c: "covers i (en_gen e) (lastNo p) ?q"
    by (rule covers_flush [OF sv Some assms(3)]) (use assms(4) Some in simp)
  have "worldOk (store_step w (SvFlush i))"
    by (rule worldOk_step [OF worldOk_reach [OF assms(1)]]) (simp add: staleStart_def)
  from covers_run [OF this q saved_flush(1) [OF sv] c assms(5)]
  have "worldOk w'" "covers i (en_gen e) (lastNo p) p'" using assms(6,7) by auto
  moreover have "procOk p' (wd_db w') (wd_limbo w') (wd_base w')" using calculation(1) assms(7) by (simp add: worldOk_def)
  ultimately show ?thesis using covers_stored assms(8) by blast
qed

lemma flush_resolved_is_durable_witness: "lastNo (demo_saved []) \<le> lastOf (wd_db demo_flushed) \<and> lastNo (demo_saved []) = 1"
proof -
  have p: "wd_proc demo_base = Some (demo_saved [])" "7 \<notin> set (so_resolved (pr_out (demo_saved [])))"
    "case pr_entry (demo_saved []) of None \<Rightarrow> True | Some e \<Rightarrow> 7 \<notin> fst ` set (en_waiters e)"
    by (simp_all add: demo_base_world store_demo_world_def demo_saved_def demo_installed demo_entry_def newEntry_def noOut_def)
  have q: "wd_proc demo_flushed = Some (afterCommit (demo_unsure [(7, 2)] TxDone))"
    "7 \<in> set (so_resolved (pr_out (afterCommit (demo_unsure [(7, 2)] TxDone))))"
    by (simp add: demo_flushed_world store_demo_world_def) (simp only: demo_done(2), simp)
  have "list_all (sameProcess 7) [SvKick, SvAttempt store_demo_env False, SvCommit, SvAnswer]" by (simp add: sameProcess_def)
  from flush_resolved_is_durable [OF demo_base_reach p this demo_flushed_def q]
  have "lastNo (demo_saved []) \<le> lastOf (wd_db demo_flushed)" .
  then show ?thesis by (simp add: demo_saved_def demo_eval)
qed

end
