(* ===== verification/Spec2Isabelle.thy ===== *)
theory Spec2Isabelle
  imports LedgerQuota InboxRepo RecoveryRules JobsNotify JobsLanes Takeover OrderProps
    MessageLimits LlmFetch Accounts CsvImport CatalogProps StoreProps
begin

text \<open>
  A server that lets an AI sales assistant answer the customers of several tenants over WeCom and the
  web, hands conversations over to people, takes orders, quotes prices, and grants refunds. It is one
  Node process per instance over a Postgres database. This library models the parts of it that keep
  state and decide, and proves what the rest of the program relies on. Paths are below \<open>src/\<close>;
  \<open>T.x\<close> is the theory and the definition or theorem in it.

  How the code is modelled. The server is asynchronous but single-threaded: what happens between two
  waits is atomic. A function that waits is cut there, one definition for each part, and what the
  database or a service answered is an argument of the next part; anything may run in between, so the
  properties quantify over every order of the parts. State is a record with the fields of the code's
  object, a JavaScript map is an association list in insertion order (\<open>Prelude.jsmap\<close>), an error is a
  branch of the result, text is a list of UTF-16 code units (\<open>jstext\<close>) or a \<open>string\<close> for identifiers,
  instants are integral milliseconds, money is \<open>int\<close> in minor units for orders and \<open>rat\<close> where the
  code multiplies prices by tokens (exact, where the code has doubles). Clocks, random identifiers,
  configuration and the pack's hooks are arguments or fields of an environment record. No definition
  needs fuel: every loop is structural, over the rows, attempts or segments it walks.

  The library. \<open>Prelude\<close> has row updates, insertion-ordered maps and the locales \<open>machine\<close>,
  \<open>guarded_machine\<close>, \<open>bounded_machine\<close>, \<open>simulation\<close>, \<open>transition_table\<close> and \<open>ranked_table\<close>, each
  interpreted on the components below. \<open>JsText\<close> has the string operations.

  Channel tables. \<open>Transitions\<close> (channels/transitions.ts) are the two status tables. \<open>CleanText\<close>
  (shared/text.ts) is what every stored text goes through. \<open>OutboundRepo\<close> and \<open>InboxRepo\<close>
  (db/repo/outbound.ts, channel-inbox.ts) are the statements on the two message tables: the batch writer
  equals writing row by row, final rows are frozen, a segment is marked for sending once, inbound rows
  are unique and only move forward. \<open>RecoveryRules\<close> (channels/recovery-rules.ts) are the pure decisions
  at start-up.

  The send ledger (quota/ledger.ts). \<open>Payload\<close> and \<open>LedgerState\<close> have its rows, indexes and queued
  write objects, \<open>LedgerOps\<close> its handlers, \<open>LedgerFacts\<close> a view that forgets bookkeeping,
  \<open>LedgerSteps\<close> the runs of all handlers on that view (indexes agree, statuses follow the table, a
  settled segment is not sent again, but for an adoption that names that very message as open, \<open>oldHandle\<close>),
  \<open>LedgerQuota\<close> the promises to callers (concurrent replies never
  oversell the window; a receipt that comes before its row was stored).

  Jobs. \<open>JobsRepo\<close> (db/repo/jobs.ts) are the statements, \<open>JobsRunner\<close> (jobs/runner.ts) the process
  memory with crashes and successors, \<open>JobsNotify\<close> (jobs/notify.ts) the notices, \<open>JobsSystem\<close> the
  reachable states of all of it, for all lanes and whatever instants they claim at: one open job per key,
  a stale claim touches no row, a follow-up is pushed at most once; attempts are bounded when claims can
  be told apart by their instants. \<open>JobsLanes\<close> is one tick of a lane: a run of the steps of \<open>JobsSystem\<close>, in
  which a job that always fails is run after each backoff and ends.

  Hand-over. \<open>ConvTypes\<close>, \<open>Handoff\<close> and \<open>Consent\<close> (handoff/record.ts, takeover.ts, consent.ts) are the
  handlers and the machine of a process's conversations; \<open>Takeover\<close> what people sharing a conversation
  rely on. The root joins a take-over to the job table (\<open>takeover_notices_cancelled\<close>).

  Orders (types.ts, core/order-view.ts, core/refund.ts, payment/orders.ts, payment/refunds.ts, the store's
  order functions and the order tool of the travel pack). \<open>Orders\<close>, \<open>OrderStore\<close>, \<open>OrderOps\<close> and
  \<open>RefundOps\<close> are the operations; \<open>OrderLife\<close> the life of one order; \<open>OrderWorld\<close>, \<open>OrderCalm\<close> and
  \<open>OrderSystem\<close> the reachable stores and the refinement to a book of statuses; \<open>OrderProps\<close> the
  properties: one open order per slot, a life that only goes forward, refunds of the granted percentage
  of the price (which is within the price when the price is not negative and the percentage between 0 and
  100; the pack's schema checks the percentage, the refund's code checks neither).

  Money and message limits. \<open>Budgets\<close> (tenancy/budget.ts) and \<open>SandboxPool\<close> (tenancy/sandbox/budget.ts)
  are reservations against a cap; both, the cap of one sandbox tenant and the visitors' caps interpret
  the locale \<open>money_quota\<close>, and the standard budget says what a settlement above its estimate adds on top.
  \<open>Usage\<close> (usage.ts) has the prices; \<open>sandbox_cost_le_estimate\<close> is why a
  sandbox settlement stays within its reservation. \<open>MessageLimits\<close> (tenancy/limits.ts, budget.ts,
  tenancy/customer-rate.ts) are the monthly replies, the visitors and the sliding windows, which equal
  counting in the whole history.

  The model gate (llm-gate.ts). \<open>SlotGate\<close> has the slots and their queue, with the locale
  \<open>slot_gate\<close> interpreted also on the password derivations; \<open>LlmFetch\<close> one request with its retries
  and settlement (that the caller settles the response it was given is its part, \<open>settledBy\<close>).

  Accounts (auth/session.ts, auth/password.ts, auth/accounts.ts, db/repo/auth.ts and the functions of
  the migration 0001 of drizzle). \<open>Login\<close> has the address buckets, the counting windows and the limits of
  a login; \<open>Accounts\<close> the tables, the commands, and the race between logins and changed accounts.

  The catalogue import (shared/csv.ts, shared/catalog-csv.ts, console/src/catalog/csv-import.ts). \<open>Csv\<close> reads
  and writes CSV text, \<open>Pack\<close> has JSON values and the declarations of a kind's fields, \<open>CatalogCsv\<close> makes
  items of rows on either side, \<open>CsvParts\<close> counts the parts a file must be split into (locale
  \<open>part_bound\<close>), \<open>CsvImport\<close> is the console's side: what it shows as importable is what the server imports,
  and the rows of the file of refused rows mean the same when they come back.

  The catalogue (shared/catalog.ts, config/catalog.ts, config/source.ts, db/repo/catalog.ts,
  catalog-versions.ts). \<open>CatalogPatch\<close> is the patch of one item with its locked fields, \<open>CatalogStore\<close> the two
  tables and the commands, \<open>CatalogFacts\<close> what a command does to the tables in two shapes, \<open>CatalogLive\<close> the
  snapshot a server answers from, how it is loaded and changed, and when it agrees with the tables,
  \<open>CatalogRun\<close> the process with lost commits, rereads and restarts, \<open>CatalogServer\<close> its invariant and
  \<open>CatalogProps\<close> what follows: the snapshot is what a restart would load, versions never change, published
  items keep their identity, one edit per revision.

  The session store (store/seq.ts, store/project.ts, store/pg-backend.ts and the statements of
  db/repo/conversations.ts, messages.ts and orders.ts it uses), for one conversation. \<open>StoreSeq\<close> numbers the
  messages, \<open>StoreRows\<close> makes rows of messages, sessions and orders and back, \<open>StoreQueue\<close> is the write
  queue: the snapshot of a flush, its transaction, and what the answer changes; \<open>StoreOps\<close> has the operations
  of the back end object, \<open>StoreReplay\<close> the spill file, its replay and the start. \<open>StoreSystem\<close> puts a process
  and its database together, with broken connections, transactions still to be decided, stops and starts;
  \<open>StoreFacts\<close>, \<open>StoreServer\<close> and \<open>StoreRestart\<close> prove the invariant of its states (the database is what the
  process knows, or that with the flush in flight), \<open>StoreReach\<close> that all reachable states have it,
  \<open>StoreClean\<close> what a generation of changes covers, \<open>StoreRestore\<close> what survives a stop, and \<open>StoreProps\<close> the
  promises; \<open>StoreDemo\<close> computes a run. Random ids are the next number of a counter, a saved message does not
  change (the code freezes it), values are JSON, and the statements' other tables are logs of what was written.

  Assumptions. A sandbox settlement is not above its estimate (\<open>poolFair\<close>) and the clock does not
  return to a day or month it left; the key derivation has no collisions (\<open>collision_free\<close>); session
  tokens and message ids drawn at random are new; the database behaves as its constraints say. The answer to a catalogue commit is handled before a later
  catalogue commit is answered, and a commit whose outcome is unknown has been decided when its error is
  seen (\<open>CatalogRun\<close>). Numbers of items are exact rationals. One process writes a conversation at a time, and
  a process does not load the database while a transaction of its predecessor is undecided, unless a spill
  file's replay makes it wait and load again (\<open>StoreSystem.staleStart\<close>; \<open>StoreDemo.stale_start_conflicts\<close> is a
  run of a stale start, refused as another writer although it is alone). \<open>patchQueuedJob\<close> of the store, which
  rewrites a job in the queue or in the flush in flight, is not an event of the store's runs.

  Not modelled: HTTP servers and clients, the WeCom protocol and its cryptography, prompts and the
  parsing of model answers, files, the drivers of Postgres, the schema, the console's React components,
  texts shown to people (except where a rule reads them), the evaluation harness and the self-tests. Of
  the modelled components: the store's file back end, its short transactions outside the queue, its health
  report and the adoption of orders left in files are left out; timers are events of the runs, logging and audit texts are dropped.
\<close>

section \<open>A take-over and the job table\<close>

text \<open>The job operations a handler queued for the save of its conversation.\<close>

definition jobOpsOf :: "hand_effect list \<Rightarrow> job_op list" where
  "jobOpsOf effs = concat (map (\<lambda>e. case e of EfJobs _ ops \<Rightarrow> ops | _ \<Rightarrow> []) effs)"

definition noPending :: "jobs_db \<Rightarrow> string \<Rightarrow> bool" where
  "noPending db k \<longleftrightarrow> list_all (\<lambda>r. \<not> (jb_dedupeKey r = k \<and> jb_status r = JPending)) (jdb_rows db)"

lemma writeJobOps_append:
  "writeJobOps db now (a @ b) =
     (case writeJobOps db now a of
        Inl e \<Rightarrow> Inl e
      | Inr (d, l) \<Rightarrow>
          (case writeJobOps d now b of Inl e \<Rightarrow> Inl e | Inr (d', l') \<Rightarrow> Inr (d', l @ l')))"
proof (induction a arbitrary: db)
  case Nil
  show ?case by (cases "writeJobOps db now b") auto
next
  case (Cons op a)
  show ?case
  proof (cases "applyJobOp db now op")
    case (Inr p)
    obtain d l where p: "p = (d, l)" by fastforce
    show ?thesis
    proof (cases "writeJobOps d now a")
      case r: (Inr q)
      obtain d2 l2 where q: "q = (d2, l2)" by fastforce
      show ?thesis
        using Cons.IH [of d] by (cases "writeJobOps d2 now b") (auto simp: Inr p r q)
    qed (use Cons.IH [of d] in \<open>simp add: Inr p\<close>)
  qed simp
qed

lemma noPending_cancel:
  "noPending (fst (cancelPendingJobs db now k)) k' \<longleftrightarrow>
     list_all (\<lambda>r. k = k' \<or> \<not> (jb_dedupeKey r = k' \<and> jb_status r = JPending)) (jdb_rows db)"
proof -
  have rows: "jdb_rows (fst (cancelPendingJobs db now k)) =
      map (\<lambda>r. if jb_dedupeKey r = k \<and> jb_status r = JPending then cancelRow now r else r) (jdb_rows db)"
    by (simp add: cancelPendingJobs_def update_count_def update_where_def)
  have each: "(\<not> (jb_dedupeKey (if jb_dedupeKey r = k \<and> jb_status r = JPending then cancelRow now r else r) = k' \<and>
        jb_status (if jb_dedupeKey r = k \<and> jb_status r = JPending then cancelRow now r else r) = JPending)) =
      (k = k' \<or> \<not> (jb_dedupeKey r = k' \<and> jb_status r = JPending))" for r
    by (cases "jb_dedupeKey r = k \<and> jb_status r = JPending") (auto simp: cancelRow_def)
  show ?thesis unfolding noPending_def rows list.pred_map comp_def each ..
qed

lemma cancel_noPending: "noPending (fst (cancelPendingJobs db now k)) k"
  by (simp add: noPending_cancel list_all_iff)

lemma cancel_keeps: "noPending db k' \<Longrightarrow> noPending (fst (cancelPendingJobs db now k)) k'"
  unfolding noPending_cancel by (simp add: noPending_def list_all_iff)

lemma enterHandoff_id: "enterHandoff env rec p a s = (s', effs) \<Longrightarrow> hs_id s' = hs_id s"
  by (auto simp: enterHandoff_def enterStage_def appendHandoffLog_def addMsg_def Let_def split: if_splits)

lemma cancelNotices_two:
  "cancelNotices (handoffNotifyOps sid t (notice_opts False None None None)) =
     [OpCancel (handoffNotifyKey sid t NrStarted), OpCancel (handoffNotifyKey sid t NrUnclaimed)]"
  by (simp add: cancelNotices_def handoffNotifyOps_def handoffNotifyOp_def notifyOp_def notice_opts_def Let_def)

lemma enterHandoff_keyed:
  "enterHandoff env rec p a s = (s', effs) \<Longrightarrow> \<forall>op \<in> set (jobOpsOf effs). op_key op \<noteq> None"
  by (auto simp: enterHandoff_def jobOpsOf_def handoffNotifyOps_def handoffNotifyOp_def notifyOp_def Let_def
      split: if_splits option.splits)

text \<open>
  C38: When a person takes over a conversation the AI still had, the commit of everything the take-over
  queued leaves neither of the notices of that hand-over, the immediate one and the one for an unclaimed
  conversation, waiting in the job table, whatever was in it before.
\<close>

theorem takeover_notices_cancelled:
  assumes "takeover env w sid ac force = Inr (w', r)" and "jget (hw_sessions w) sid = Some s"
    and "\<not> hs_handedOver s"
  shows "\<exists>db' n. writeJobOps db now (jobOpsOf (drop (length (hw_out w)) (hw_out w'))) = Inr (db', n) \<and>
    noPending db' (handoffNotifyKey (hs_id s) (he_now env) NrStarted) \<and>
    noPending db' (handoffNotifyKey (hs_id s) (he_now env) NrUnclaimed)"
proof -
  obtain s1 e1 where e: "enterHandoff env (takeoverRecord env ac) None (Some True) s = (s1, e1)" by fastforce
  have id: "hs_id s1 = hs_id s" by (rule enterHandoff_id [OF e])
  have cur: "assigneeOf s = None" using assms(3) by (simp add: assigneeOf_def)
  let ?k1 = "handoffNotifyKey (hs_id s) (he_now env) NrStarted" and ?k2 = "handoffNotifyKey (hs_id s) (he_now env) NrUnclaimed"
  have ops: "jobOpsOf (drop (length (hw_out w)) (hw_out w')) = jobOpsOf e1 @ [OpCancel ?k1, OpCancel ?k2]"
    using assms(1-3) e
    by (auto simp: takeover_def cur enterForTakeover_def commitSession_def id cancelNotices_two jobOpsOf_def
        Let_def split: if_splits)
  obtain d where "writeJobOps db now (jobOpsOf e1) = Inr (d, [])"
    using write_enqueues [OF enterHandoff_keyed [OF e]] by blast
  then have "writeJobOps db now (jobOpsOf (drop (length (hw_out w)) (hw_out w'))) =
      Inr (fst (cancelPendingJobs (fst (cancelPendingJobs d now ?k1)) now ?k2), [])"
    by (simp add: ops writeJobOps_append)
  then show ?thesis by (simp add: cancel_noPending cancel_keeps)
qed

lemma takeover_notices_cancelled_witness:
  "\<exists>w' r db' n. takeover plain_env (plain_world plain_session) ''s'' agent_a False = Inr (w', r) \<and>
    writeJobOps \<lparr>jdb_rows = [], jdb_next = 0\<rparr> 0 (jobOpsOf (hw_out w')) = Inr (db', n) \<and>
    noPending db' (handoffNotifyKey ''s'' (he_now plain_env) NrUnclaimed)"
proof -
  have t: "\<exists>w' r. takeover plain_env (plain_world plain_session) ''s'' agent_a False = Inr (w', r)"
    by (simp add: plain_defs takeover_def handlesConversations_def HANDLERS_def assigneeOf_def
        Let_def enterForTakeover_def enterHandoff_def)
  then obtain w' r where t: "takeover plain_env (plain_world plain_session) ''s'' agent_a False = Inr (w', r)"
    by blast
  have j: "jget (hw_sessions (plain_world plain_session)) ''s'' = Some plain_session"
    by (simp add: plain_world_def plain_session_def)
  have h: "\<not> hs_handedOver plain_session" by (simp add: plain_session_def)
  have x: "hw_out (plain_world plain_session) = []" "hs_id plain_session = ''s''"
    by (simp_all add: plain_world_def plain_session_def)
  show ?thesis
    using takeover_notices_cancelled [OF t j h, of "\<lparr>jdb_rows = [], jdb_next = 0\<rparr>" 0] t by (auto simp: x)
qed

end
